(* ===== verification/Prelude.thy ===== *)
theory Prelude
  imports Main "HOL-Library.Word" "HOL-Library.Sublist"
begin

text \<open>
  Shared vocabulary of the development: Go's scalar types and clock values, SQL tables as lists of
  rows, database transactions with injected infrastructure faults, byte strings, and the generic
  lemmas the component theories share.

  \<^item> An \<open>int64\<close> is an \<^typ>\<open>int\<close> together with the range test \<open>is_int64\<close>; where the
    code can wrap, the wrap-around is written out.
  \<^item> A \<open>time.Time\<close> is the number of nanoseconds since Go's zero time (1 January, year 1, UTC), so
    \<open>IsZero\<close> is equality with 0 and \<open>Truncate\<close>, which the Go documentation defines relative to
    the zero time, is a subtraction of a remainder.
  \<^item> A Go \<open>string\<close> is a list of bytes.
  \<^item> A table is a list of rows (key, columns). \<open>tput\<close> replaces the row with that key or appends a
    new one; the reads are \<open>map_of\<close>.
\<close>

named_theorems tx_simps \<open>unfolding of transactions and their outcomes\<close>
named_theorems time_defs \<open>Go clock arithmetic\<close>
named_theorems table_simps \<open>reads after writes, and sums over tables\<close>

section \<open>Scalars\<close>

definition MaxInt64 :: int where "MaxInt64 = 9223372036854775807"
definition MinInt64 :: int where "MinInt64 = -9223372036854775808"
definition MaxInt32 :: int where "MaxInt32 = 2147483647"

definition is_int64 :: "int \<Rightarrow> bool" where
  "is_int64 n \<longleftrightarrow> MinInt64 \<le> n \<and> n \<le> MaxInt64"

text \<open>Two's complement wrap-around of a 64-bit signed result.\<close>

definition wrap64 :: "int \<Rightarrow> int" where
  "wrap64 n = (n + 2 ^ 63) mod 2 ^ 64 - 2 ^ 63"

text \<open>Go's division and remainder truncate towards zero.\<close>

definition go_div :: "int \<Rightarrow> int \<Rightarrow> int" where
  "go_div a b = sgn a * sgn b * (\<bar>a\<bar> div \<bar>b\<bar>)"

definition go_mod :: "int \<Rightarrow> int \<Rightarrow> int" where
  "go_mod a b = a - go_div a b * b"

section \<open>Clock values\<close>

type_synonym gotime = int
type_synonym duration = int

definition Nanosecond :: duration where "Nanosecond = 1"
definition Microsecond :: duration where "Microsecond = 1000"
definition Millisecond :: duration where "Millisecond = 1000000"
definition Second :: duration where "Second = 1000000000"
definition Minute :: duration where "Minute = 60000000000"
definition Hour :: duration where "Hour = 3600000000000"

definition IsZero :: "gotime \<Rightarrow> bool" where "IsZero t \<longleftrightarrow> t = 0"
definition Before :: "gotime \<Rightarrow> gotime \<Rightarrow> bool" where "Before t u \<longleftrightarrow> t < u"
definition After :: "gotime \<Rightarrow> gotime \<Rightarrow> bool" where "After t u \<longleftrightarrow> t > u"
definition Add :: "gotime \<Rightarrow> duration \<Rightarrow> gotime" where "Add t d = t + d"

text \<open>\<open>Time.Sub\<close> saturates at the bounds of a 64-bit duration.\<close>

definition Sub :: "gotime \<Rightarrow> gotime \<Rightarrow> duration" where
  "Sub t u = max MinInt64 (min MaxInt64 (t - u))"

definition Truncate :: "gotime \<Rightarrow> duration \<Rightarrow> gotime" where
  "Truncate t d = (if d \<le> 0 then t else t - t mod d)"

section \<open>Byte strings\<close>

text \<open>ASCII classes used by the validators; a character is a byte.\<close>

definition is_digit :: "char \<Rightarrow> bool" where
  "is_digit c \<longleftrightarrow> 48 \<le> (of_char c :: nat) \<and> (of_char c :: nat) \<le> 57"

definition is_letter :: "char \<Rightarrow> bool" where
  "is_letter c \<longleftrightarrow> (65 \<le> (of_char c :: nat) \<and> (of_char c :: nat) \<le> 90) \<or>
     (97 \<le> (of_char c :: nat) \<and> (of_char c :: nat) \<le> 122)"

section \<open>Tables\<close>

type_synonym ('k, 'v) table = "('k \<times> 'v) list"

fun tput :: "'k \<Rightarrow> 'v \<Rightarrow> ('k, 'v) table \<Rightarrow> ('k, 'v) table" where
  "tput k v [] = [(k, v)]"
| "tput k v ((k', v') # t) = (if k = k' then (k, v) # t else (k', v') # tput k v t)"

definition tsum :: "('k \<Rightarrow> 'v \<Rightarrow> 'n::ab_group_add) \<Rightarrow> ('k, 'v) table \<Rightarrow> 'n" where
  "tsum f t = (\<Sum>(k, v) \<leftarrow> t. f k v)"

text \<open>\<open>INSERT ... ON CONFLICT DO NOTHING\<close>.\<close>

definition tnew :: "'k \<Rightarrow> 'v \<Rightarrow> ('k, 'v) table \<Rightarrow> ('k, 'v) table" where
  "tnew k v t = (case map_of t k of None \<Rightarrow> tput k v t | Some _ \<Rightarrow> t)"

section \<open>Transactions\<close>

text \<open>
  The body of a transaction inspects the database and either returns without committing (the deferred
  \<open>Rollback\<close> restores the database) or commits a new one. Infrastructure errors are an input of the
  model: a statement may fail, and a commit may report an error with or without having taken effect.
\<close>

datatype db_fault = NoFault | StmtFault | CommitLost | CommitKept

datatype ('db, 'e, 'a) tx = Rollback "'e + 'a" | Commit 'db "'e + 'a"

definition run_tx :: "db_fault \<Rightarrow> 'e \<Rightarrow> ('db \<Rightarrow> ('db, 'e, 'a) tx) \<Rightarrow> 'db \<Rightarrow> ('e + 'a) \<times> 'db" where
  "run_tx flt dberr body db =
     (if flt = StmtFault then (Inl dberr, db)
      else case body db of
        Rollback r \<Rightarrow> (r, db)
      | Commit db' r \<Rightarrow>
          (case flt of
             NoFault \<Rightarrow> (r, db')
           | CommitLost \<Rightarrow> (Inl dberr, db)
           | _ \<Rightarrow> (Inl dberr, db')))"

section \<open>Lemmas\<close>

lemmas time_defs_all [time_defs] = IsZero_def Before_def After_def Add_def

lemma map_of_tput [table_simps]: "map_of (tput k v t) k' = (if k' = k then Some v else map_of t k')"
  by (induction t) auto

lemma tput_new: "map_of t k = None \<Longrightarrow> tput k v t = t @ [(k, v)]"
proof (induction t)
  case (Cons x t)
  then show ?case by (cases x) (simp split: if_splits)
qed simp

lemma tput_same: "map_of t k = Some v \<Longrightarrow> tput k v t = t"
proof (induction t)
  case (Cons x t)
  then show ?case by (cases x) (simp split: if_splits)
qed simp

lemma map_of_tnew [table_simps]:
  "map_of (tnew k v t) k' = (if k' = k \<and> map_of t k = None then Some v else map_of t k')"
  by (auto simp: tnew_def map_of_tput split: option.splits)

lemma tnew_cases [simp]:
  "map_of t k = None \<Longrightarrow> tnew k v t = tput k v t"
  "map_of t k = Some w \<Longrightarrow> tnew k v t = t"
  by (simp_all add: tnew_def)

lemma tsum_Nil [simp]: "tsum f [] = 0"
  by (simp add: tsum_def)

lemma tsum_Cons [simp]: "tsum f ((k, v) # t) = f k v + tsum f t"
  by (simp add: tsum_def)

lemma tsum_zero [simp]: "tsum (\<lambda>_ _. 0) t = 0"
  by (induction t) auto

text \<open>A write changes a sum over the table by the new row's weight less the old row's.\<close>

lemma tsum_tput [table_simps]:
  "tsum f (tput k v t) = tsum f t + f k v - (case map_of t k of None \<Rightarrow> 0 | Some v0 \<Rightarrow> f k v0)"
  by (induction t) auto

lemma tsum_tnew [table_simps]:
  "tsum f (tnew k v t) = tsum f t + (case map_of t k of None \<Rightarrow> f k v | Some _ \<Rightarrow> 0)"
  by (auto simp: tnew_def tsum_tput split: option.splits)

lemma tsum_nonneg:
  fixes f :: "'k \<Rightarrow> 'v \<Rightarrow> 'n::linordered_idom"
  shows "(\<And>k v. (k, v) \<in> set t \<Longrightarrow> 0 \<le> f k v) \<Longrightarrow> 0 \<le> tsum f t"
  by (induction t) auto

lemma tsum_mono:
  fixes f :: "'k \<Rightarrow> 'v \<Rightarrow> 'n::linordered_idom"
  shows "(\<And>k v. (k, v) \<in> set t \<Longrightarrow> f k v \<le> g k v) \<Longrightarrow> tsum f t \<le> tsum g t"
proof (induction t)
  case (Cons x t)
  then have "tsum f t \<le> tsum g t" and "f (fst x) (snd x) \<le> g (fst x) (snd x)" by auto
  then show ?case by (cases x) simp
qed simp

lemma tsum_cong: "(\<And>k v. (k, v) \<in> set t \<Longrightarrow> f k v = g k v) \<Longrightarrow> tsum f t = tsum g t"
  by (induction t) auto

lemma tsum_member_le:
  fixes f :: "'k \<Rightarrow> 'v \<Rightarrow> 'n::linordered_idom"
  shows "(\<And>k v. (k, v) \<in> set t \<Longrightarrow> 0 \<le> f k v) \<Longrightarrow> (k, v) \<in> set t \<Longrightarrow> f k v \<le> tsum f t"
proof (induction t)
  case (Cons x t)
  then have "0 \<le> tsum f t" by (intro tsum_nonneg) auto
  with Cons show ?case by (cases x) force
qed simp

lemma set_tput: "x \<in> set (tput k v t) \<Longrightarrow> x = (k, v) \<or> x \<in> set t"
  by (induction k v t rule: tput.induct) (auto split: if_splits)

lemma keys_tput: "fst ` set (tput k v t) = insert k (fst ` set t)"
  by (induction k v t rule: tput.induct) auto

lemma distinct_keys_tput [table_simps]:
  "distinct (map fst t) \<Longrightarrow> distinct (map fst (tput k v t))"
proof (induction t)
  case (Cons x t)
  then show ?case using keys_tput [of k v t] by (cases x) force
qed simp

lemma distinct_keys_tnew [table_simps]:
  "distinct (map fst t) \<Longrightarrow> distinct (map fst (tnew k v t))"
  by (simp add: tnew_def distinct_keys_tput split: option.split)

text \<open>Two tables whose rows of nonzero weight agree have the same sum.\<close>

lemma tsum_dom:
  assumes "distinct (map fst t)"
  shows "tsum f t = (\<Sum>k\<in>fst ` set t. f k (the (map_of t k)))"
  using assms
proof (induction t)
  case (Cons x t)
  obtain k v where x: "x = (k, v)" by (cases x)
  have k: "k \<notin> fst ` set t" using Cons.prems x by simp
  have "(\<Sum>j\<in>fst ` set t. f j (the (map_of (x # t) j))) = (\<Sum>j\<in>fst ` set t. f j (the (map_of t j)))"
    by (rule sum.cong) (use k in \<open>auto simp: x\<close>)
  then show ?case using Cons k by (simp add: x)
qed simp

lemma tsum_eqI:
  assumes "distinct (map fst t)" "distinct (map fst u)"
    "\<And>k v. map_of t k = Some v \<Longrightarrow> f k v \<noteq> 0 \<Longrightarrow> \<exists>w. map_of u k = Some w \<and> g k w = f k v"
    "\<And>k w. map_of u k = Some w \<Longrightarrow> g k w \<noteq> 0 \<Longrightarrow> \<exists>v. map_of t k = Some v \<and> f k v = g k w"
  shows "tsum f t = tsum g u"
proof -
  let ?F = "\<lambda>k. case map_of t k of None \<Rightarrow> 0 | Some v \<Rightarrow> f k v"
  let ?G = "\<lambda>k. case map_of u k of None \<Rightarrow> 0 | Some w \<Rightarrow> g k w"
  let ?K = "fst ` set t \<union> fst ` set u"
  have F: "tsum f t = sum ?F ?K"
    unfolding tsum_dom [OF assms(1)]
    by (rule sum.mono_neutral_cong_left) (auto simp: map_of_eq_None_iff rev_image_eqI dest!: map_of_SomeD split: option.splits)
  have G: "tsum g u = sum ?G ?K"
    unfolding tsum_dom [OF assms(2)]
    by (rule sum.mono_neutral_cong_left) (auto simp: map_of_eq_None_iff rev_image_eqI dest!: map_of_SomeD split: option.splits)
  have "?F k = ?G k" for k
  proof (cases "map_of t k")
    case None
    then show ?thesis using assms(4) [of k] by (auto split: option.splits)
  next
    case (Some v)
    then show ?thesis using assms(3) [of k v] assms(4) [of k] by (cases "f k v = 0"; cases "map_of u k") force+
  qed
  then show ?thesis using F G by simp
qed

text \<open>Counting rows: a sum of indicators is a cardinality, and a union over rows is bounded by the sum.\<close>

lemma finite_rows: "finite {k. \<exists>v. map_of t k = Some v \<and> P k v}"
  by (rule finite_subset [of _ "fst ` set t"]) (auto dest: map_of_SomeD simp: rev_image_eqI)

lemma tsum_card:
  assumes "distinct (map fst t)"
  shows "tsum (\<lambda>k v. if P k v then 1 else 0) t = int (card {k. \<exists>v. map_of t k = Some v \<and> P k v})"
  using assms
proof (induction t)
  case (Cons x t)
  obtain k v where x: "x = (k, v)" by (cases x)
  let ?A = "\<lambda>t. {k. \<exists>v. map_of t k = Some v \<and> P k v}"
  have none: "map_of t k = None" using Cons.prems x by (simp add: map_of_eq_None_iff)
  have eq: "?A (x # t) = (if P k v then insert k (?A t) else ?A t)"
    using none by (auto simp: x split: if_splits)
  have "k \<notin> ?A t" using none by simp
  then show ?case using Cons eq finite_rows [of t P] by (simp add: x)
qed simp

lemma card_UN_tsum: "int (card (\<Union>(k, v)\<in>set t. A k v)) \<le> tsum (\<lambda>k v. int (card (A k v))) t"
proof (induction t)
  case (Cons x t)
  have "card (A (fst x) (snd x) \<union> (\<Union>(k, v)\<in>set t. A k v)) \<le> card (A (fst x) (snd x)) + card (\<Union>(k, v)\<in>set t. A k v)"
    by (rule card_Un_le)
  then show ?case using Cons by (cases x) simp
qed simp

text \<open>
  The outcome of a transaction under any fault: the database is the old one or the committed one, and
  a result other than the infrastructure error is the body's.
\<close>

lemma run_tx_cases [consumes 1, case_names same commit]:
  assumes "run_tx flt e body db = (r, db')"
  obtains "db' = db" | r' where "body db = Commit db' r'"
  using assms by (auto simp: run_tx_def split: if_splits tx.splits db_fault.splits)

lemma run_tx_ok:
  assumes "run_tx flt e body db = (Inr x, db')"
  shows "body db = Rollback (Inr x) \<and> db' = db \<or> body db = Commit db' (Inr x)"
  using assms by (auto simp: run_tx_def split: if_splits tx.splits db_fault.splits)

lemma run_tx_snd: "snd (run_tx flt e body db) = db \<or> (\<exists>r. body db = Commit (snd (run_tx flt e body db)) r)"
  by (auto simp: run_tx_def split: tx.splits db_fault.splits)

lemma run_tx_invariant:
  assumes "\<And>db' r. body db = Commit db' r \<Longrightarrow> P db'" "P db"
  shows "P (snd (run_tx flt e body db))"
  using assms by (auto simp: run_tx_def split: tx.splits db_fault.splits)

lemma run_tx_NoFault [tx_simps]:
  "run_tx NoFault e body db =
     (case body db of Rollback r \<Rightarrow> (r, db) | Commit db' r \<Rightarrow> (r, db'))"
  by (simp add: run_tx_def split: tx.splits)

lemma wrap64_id: "is_int64 n \<Longrightarrow> wrap64 n = n"
  by (simp add: wrap64_def is_int64_def MinInt64_def MaxInt64_def)

lemma go_div_nonneg: "0 \<le> a \<Longrightarrow> 0 < b \<Longrightarrow> go_div a b = a div b"
  by (cases "a = 0") (simp_all add: go_div_def)

lemma go_mod_nonneg: "0 \<le> a \<Longrightarrow> 0 < b \<Longrightarrow> go_mod a b = a mod b"
  by (simp add: go_mod_def go_div_nonneg minus_div_mult_eq_mod)

lemma Sub_exact: "is_int64 (t - u) \<Longrightarrow> Sub t u = t - u"
  by (simp add: Sub_def is_int64_def)

lemma Sub_gt_iff: "is_int64 d \<Longrightarrow> d < MaxInt64 \<Longrightarrow> Sub t u > d \<longleftrightarrow> t - u > d"
  by (auto simp: Sub_def is_int64_def max_def min_def)

end
