(* ===== verification/Decimal.thy ===== *)
theory Decimal
  imports Prelude
begin

text \<open>
  Decimal text: what \<open>strconv.FormatInt(n, 10)\<close> and \<open>fmt\<close>'s \<open>%d\<close> print for a non-negative
  number, what \<open>strconv.ParseInt(s, 10, 64)\<close> reads from a text of digits, zero padding, and
  \<open>strings.Split\<close> at a one-byte separator.
\<close>

definition digit_char :: "nat \<Rightarrow> char" where
  "digit_char d = char_of (48 + d)"

definition digit_value :: "char \<Rightarrow> nat" where
  "digit_value c = of_char c - 48"

fun dec :: "nat \<Rightarrow> string" where
  "dec n = (if n < 10 then [digit_char n] else dec (n div 10) @ [digit_char (n mod 10)])"

declare dec.simps [simp del]

fun undec :: "nat \<Rightarrow> string \<Rightarrow> nat" where
  "undec acc [] = acc"
| "undec acc (c # cs) = undec (acc * 10 + digit_value c) cs"

definition FormatInt :: "int \<Rightarrow> string" where
  "FormatInt n = (if n < 0 then CHR ''-'' # dec (nat (- n)) else dec (nat n))"

text \<open>\<open>ParseInt\<close> on a text that consists of digits only; \<open>None\<close> is the range or syntax error.\<close>

definition ParseDigits :: "string \<Rightarrow> int option" where
  "ParseDigits s =
     (if s = [] \<or> \<not> list_all is_digit s then None
      else if int (undec 0 s) > MaxInt64 then None
      else Some (int (undec 0 s)))"

text \<open>\<open>strconv.ParseInt(s, 10, 64)\<close>: an optional sign and at least one digit, in range.\<close>

definition ParseInt10 :: "string \<Rightarrow> int option" where
  "ParseInt10 s =
     (let (neg, ds) = (case s of c # r \<Rightarrow> if c = CHR ''-'' then (True, r) else if c = CHR ''+'' then (False, r) else (False, s) | [] \<Rightarrow> (False, [])) in
      if ds = [] \<or> \<not> list_all is_digit ds then None
      else let n = (if neg then - int (undec 0 ds) else int (undec 0 ds)) in
        if is_int64 n then Some n else None)"

definition pad0 :: "nat \<Rightarrow> string \<Rightarrow> string" where
  "pad0 w s = replicate (w - length s) (CHR ''0'') @ s"

fun split_at :: "char \<Rightarrow> string \<Rightarrow> string list" where
  "split_at sep [] = [[]]"
| "split_at sep (c # cs) =
     (if c = sep then [] # split_at sep cs
      else case split_at sep cs of [] \<Rightarrow> [[c]] | p # ps \<Rightarrow> (c # p) # ps)"

section \<open>Digits\<close>

lemma of_char_digit_char [simp]: "d < 10 \<Longrightarrow> (of_char (digit_char d) :: nat) = 48 + d"
  by (simp add: digit_char_def)

lemma digit_value_char [simp]: "d < 10 \<Longrightarrow> digit_value (digit_char d) = d"
  by (simp add: digit_value_def)

lemma is_digit_char [simp]: "d < 10 \<Longrightarrow> is_digit (digit_char d)"
  by (simp add: is_digit_def)

lemma digit_value_less: "is_digit c \<Longrightarrow> digit_value c < 10"
  by (auto simp: is_digit_def digit_value_def)

lemma digit_char_value: "is_digit c \<Longrightarrow> digit_char (digit_value c) = c"
  by (auto simp: is_digit_def digit_value_def digit_char_def)

lemma digit_char_0 [simp]: "digit_char 0 = CHR ''0''"
  by code_simp

lemma digit_value_0 [simp]: "digit_value (CHR ''0'') = 0"
  by code_simp

lemma digit_value_eq_0_iff: "is_digit c \<Longrightarrow> digit_value c = 0 \<longleftrightarrow> c = CHR ''0''"
  by (metis digit_char_0 digit_char_value digit_value_0)

lemma digits_dec: "list_all is_digit (dec n)"
proof (induction n rule: dec.induct)
  case (1 n)
  then show ?case by (subst dec.simps) auto
qed

lemma dec_not_Nil [simp]: "dec n \<noteq> []"
  by (subst dec.simps) simp

lemma undec_append: "undec acc (xs @ ys) = undec (undec acc xs) ys"
  by (induction xs arbitrary: acc) auto

lemma undec_dec [simp]: "undec 0 (dec n) = n"
proof (induction n rule: dec.induct)
  case (1 n)
  then show ?case by (subst dec.simps) (auto simp: undec_append)
qed

lemma undec_add: "undec acc xs = acc * 10 ^ length xs + undec 0 xs"
proof (induction xs arbitrary: acc)
  case (Cons x xs)
  show ?case
    using Cons [of "acc * 10 + digit_value x"] Cons [of "digit_value x"]
    by (simp add: algebra_simps)
qed simp

lemma undec_bound: "list_all is_digit xs \<Longrightarrow> undec 0 xs < 10 ^ length xs"
proof (induction xs rule: rev_induct)
  case (snoc x xs)
  then have "undec 0 xs < 10 ^ length xs" and "digit_value x < 10"
    by (auto intro: digit_value_less)
  then show ?case by (simp add: undec_append)
qed simp

text \<open>A text of digits without a superfluous leading zero is the decimal text of its value.\<close>

lemma dec_undec:
  assumes "list_all is_digit xs" "xs \<noteq> []" "length xs = 1 \<or> hd xs \<noteq> CHR ''0''"
  shows "dec (undec 0 xs) = xs"
  using assms
proof (induction xs rule: rev_induct)
  case (snoc x xs)
  show ?case
  proof (cases xs)
    case Nil
    with snoc show ?thesis by (subst dec.simps) (auto simp: digit_value_less digit_char_value)
  next
    case (Cons y ys)
    with snoc have y: "is_digit y" "y \<noteq> CHR ''0''" and x: "is_digit x" by auto
    then have "0 < digit_value y" using digit_value_eq_0_iff by auto
    then have "0 < undec 0 xs" using Cons undec_add [of "digit_value y" ys] by simp
    moreover have "digit_value x < 10" using x by (rule digit_value_less)
    moreover have "dec (undec 0 xs) = xs" using snoc Cons by auto
    ultimately show ?thesis using x
      by (subst dec.simps) (auto simp: undec_append digit_char_value)
  qed
qed simp

lemma length_dec_le: "n < 10 ^ w \<Longrightarrow> 0 < w \<Longrightarrow> length (dec n) \<le> w"
proof (induction n arbitrary: w rule: dec.induct)
  case (1 n)
  show ?case
  proof (cases "n < 10")
    case True
    with 1 show ?thesis by (subst dec.simps) simp
  next
    case False
    with 1 obtain v where v: "w = Suc v" "0 < v" by (cases w; cases "w - 1") auto
    with 1 False have "length (dec (n div 10)) \<le> v" by (intro "1.IH") auto
    with False v show ?thesis by (subst dec.simps) simp
  qed
qed

lemma dec_no_leading_zero: "length (dec n) > 1 \<Longrightarrow> hd (dec n) \<noteq> CHR ''0''"
proof (induction n rule: dec.induct)
  case (1 n)
  show ?case
  proof (cases "n < 10")
    case True
    with "1.prems" show ?thesis by (simp add: dec.simps)
  next
    case False
    show ?thesis
    proof (cases "n div 10 < 10")
      case True
      with False have "digit_char (n div 10) \<noteq> CHR ''0''"
        by (metis digit_char_0 digit_value_char div_greater_zero_iff not_less zero_less_numeral less_irrefl)
      with False True show ?thesis by (simp add: dec.simps [of n] dec.simps [of "n div 10"])
    next
      case big: False
      then have "length (dec (n div 10)) > 1" by (simp add: dec.simps [of "n div 10"])
      with "1.IH" False have "hd (dec (n div 10)) \<noteq> CHR ''0''" by blast
      with False show ?thesis by (simp add: dec.simps [of n])
    qed
  qed
qed

section \<open>Padding and splitting\<close>

lemma undec_zeros [simp]: "undec 0 (replicate k (CHR ''0'')) = 0"
  by (induction k) (auto simp: digit_value_def)

lemma undec_pad0 [simp]: "undec 0 (pad0 w s) = undec 0 s"
  by (simp add: pad0_def undec_append)

lemma length_pad0: "length s \<le> w \<Longrightarrow> length (pad0 w s) = w"
  by (simp add: pad0_def)

lemma digits_pad0: "list_all is_digit s \<Longrightarrow> list_all is_digit (pad0 w s)"
  by (auto simp: pad0_def list_all_iff is_digit_def)

lemma split_at_id: "sep \<notin> set s \<Longrightarrow> split_at sep s = [s]"
  by (induction s) auto

lemma split_at_two:
  "sep \<notin> set s \<Longrightarrow> sep \<notin> set t \<Longrightarrow> split_at sep (s @ sep # t) = [s, t]"
  by (induction s) (auto simp: split_at_id)

lemma split_at_not_Nil [simp]: "split_at sep s \<noteq> []"
  by (cases s) (auto split: list.split)

lemma ParseDigits_dec: "int n \<le> MaxInt64 \<Longrightarrow> ParseDigits (dec n) = Some (int n)"
  by (simp add: ParseDigits_def digits_dec)

end
