(* ===== verification/Contracts.thy ===== *)
theory Contracts
  imports Decimal
begin

text \<open>
  \<^verbatim>\<open>backend/internal/regional/contracts.go\<close>: the versioned contracts of the regional data
  planes. Each validator is a chain of checks that returns the message of the first check that fails.
  SHA-256 and the JSON syntax check are arguments of \<open>Snapshot_Validate\<close>.
\<close>

named_theorems contract_defs \<open>validators of the regional contracts\<close>

definition SchemaVersion :: int where "SchemaVersion = 1"

text \<open>The regular expression \<^verbatim>\<open>^[a-zA-Z0-9][a-zA-Z0-9_-]{0,62}$\<close>.\<close>

definition identifier_char :: "char \<Rightarrow> bool" where
  "identifier_char c \<longleftrightarrow> is_letter c \<or> is_digit c \<or> c = CHR ''_'' \<or> c = CHR ''-''"

definition identifier_match :: "string \<Rightarrow> bool" where
  "identifier_match s = (case s of
     [] \<Rightarrow> False
   | c # cs \<Rightarrow> (is_letter c \<or> is_digit c) \<and> length cs \<le> 62 \<and> list_all identifier_char cs)"

record Config =
  cfg_RegionID :: string
  cfg_MaxSnapshotAgeSeconds :: int
  cfg_MaxClockSkewSeconds :: int

definition Config_Validate :: "Config \<Rightarrow> string + unit" where
  "Config_Validate c =
     (if \<not> identifier_match (cfg_RegionID c) then Inl ''invalid regional region_id''
      else if cfg_MaxSnapshotAgeSeconds c < 1 \<or> cfg_MaxSnapshotAgeSeconds c > 86400
      then Inl ''max_snapshot_age_seconds must be between 1 and 86400''
      else if cfg_MaxClockSkewSeconds c < 0 \<or> cfg_MaxClockSkewSeconds c > 60
      then Inl ''max_clock_skew_seconds must be between 0 and 60''
      else Inr ())"

datatype SnapshotKind = SnapshotAuth | SnapshotScheduler | OtherKind string

record Snapshot =
  snap_SchemaVersion :: int
  snap_RegionID :: string
  snap_Kind :: SnapshotKind
  snap_Revision :: "64 word"
  snap_IssuedAt :: gotime
  snap_ExpiresAt :: gotime
  snap_PayloadSHA256 :: string
  snap_Payload :: string

text \<open>\<open>bytes.TrimSpace\<close> on ASCII white space.\<close>

definition is_space :: "char \<Rightarrow> bool" where
  "is_space c \<longleftrightarrow> (of_char c :: nat) \<in> {9, 10, 11, 12, 13, 32}"

definition TrimSpace :: "string \<Rightarrow> string" where
  "TrimSpace s = rev (dropWhile is_space (rev (dropWhile is_space s)))"

definition Snapshot_Validate ::
    "(string \<Rightarrow> bool) \<Rightarrow> (string \<Rightarrow> string) \<Rightarrow> Snapshot \<Rightarrow> Config \<Rightarrow> SnapshotKind \<Rightarrow> 64 word \<Rightarrow> gotime \<Rightarrow>
     string + unit" where
  "Snapshot_Validate json_Valid sha256hex s c kind current now =
     (case Config_Validate c of Inl e \<Rightarrow> Inl e | Inr _ \<Rightarrow>
      if snap_SchemaVersion s \<noteq> SchemaVersion then Inl ''unsupported regional snapshot schema_version''
      else if snap_RegionID s \<noteq> cfg_RegionID c then Inl ''snapshot region mismatch''
      else if kind \<noteq> SnapshotAuth \<and> kind \<noteq> SnapshotScheduler then Inl ''unsupported snapshot kind''
      else if snap_Kind s \<noteq> kind then Inl ''snapshot kind mismatch''
      else if snap_Revision s = 0 \<or> snap_Revision s \<le> current then Inl ''snapshot revision must advance''
      else if IsZero now \<or> IsZero (snap_IssuedAt s) \<or> \<not> After (snap_ExpiresAt s) (snap_IssuedAt s)
      then Inl ''invalid snapshot timestamps''
      else
        (let maxAge = cfg_MaxSnapshotAgeSeconds c * Second;
             skew = cfg_MaxClockSkewSeconds c * Second
         in if Sub (snap_ExpiresAt s) (snap_IssuedAt s) > maxAge then Inl ''snapshot lifetime exceeds policy''
            else if After (snap_IssuedAt s) (Add now skew) then Inl ''snapshot issued in the future''
            else if \<not> Before now (snap_ExpiresAt s) \<or> Sub now (snap_IssuedAt s) \<ge> maxAge
            then Inl ''snapshot expired''
            else if \<not> json_Valid (snap_Payload s) \<or> TrimSpace (snap_Payload s) = ''null''
            then Inl ''invalid snapshot payload''
            else if snap_PayloadSHA256 s \<noteq> sha256hex (snap_Payload s)
            then Inl ''snapshot payload checksum mismatch''
            else Inr ()))"

text \<open>
  \<open>Amount\<close>: 10^-9 USD as an \<open>int64\<close>. \<open>Amount_MarshalJSON\<close> yields the text inside the JSON
  string; \<open>Amount_UnmarshalJSON\<close> reads such a decoded text.
\<close>

type_synonym Amount = int

definition Amount_MarshalJSON :: "Amount \<Rightarrow> string + string" where
  "Amount_MarshalJSON a =
     (if a < 0 then Inl ''regional amount cannot be negative'' else Inr (FormatInt a))"

definition Amount_UnmarshalJSON :: "string \<Rightarrow> string + Amount" where
  "Amount_UnmarshalJSON value =
     (if value = [] \<or> length value > 1 \<and> hd value = CHR ''0'' then Inl ''invalid regional amount''
      else if \<not> list_all is_digit value then Inl ''invalid regional amount''
      else case ParseDigits value of
             None \<Rightarrow> Inl ''regional amount out of range''
           | Some parsed \<Rightarrow> Inr parsed)"

record Lease =
  l_BillingMode :: string
  l_APIKeyID :: int
  l_AccountID :: int
  l_SchemaVersion :: int
  l_LeaseID :: string
  l_RegionID :: string
  l_UserID :: int
  l_Granted :: Amount
  l_IssuedAt :: gotime
  l_ExpiresAt :: gotime

definition Lease_Validate :: "Lease \<Rightarrow> string + unit" where
  "Lease_Validate l =
     (if l_SchemaVersion l \<noteq> SchemaVersion then Inl ''unsupported regional lease schema_version''
      else if \<not> identifier_match (l_LeaseID l) \<or> \<not> identifier_match (l_RegionID l) then Inl ''invalid lease identity''
      else if l_UserID l \<le> 0 \<or> l_Granted l \<le> 0 then Inl ''lease requires a user and positive grant''
      else if IsZero (l_IssuedAt l) \<or> \<not> After (l_ExpiresAt l) (l_IssuedAt l)
      then Inl ''invalid lease timestamps''
      else Inr ())"

record UsageEvent =
  u_SchemaVersion :: int
  u_EventID :: string
  u_LeaseID :: string
  u_RegionID :: string
  u_UserID :: int
  u_APIKeyID :: int
  u_AccountID :: int
  u_AdmittedAt :: gotime
  u_CompletedAt :: gotime
  u_Charge :: Amount

definition ValidateAgainst :: "UsageEvent \<Rightarrow> Lease \<Rightarrow> string + unit" where
  "ValidateAgainst e l =
     (case Lease_Validate l of Inl m \<Rightarrow> Inl m | Inr _ \<Rightarrow>
      if u_SchemaVersion e \<noteq> SchemaVersion then Inl ''unsupported regional usage schema_version''
      else if \<not> identifier_match (u_EventID e) then Inl ''invalid usage_event_id''
      else if u_LeaseID e \<noteq> l_LeaseID l \<or> u_RegionID e \<noteq> l_RegionID l \<or> u_UserID e \<noteq> l_UserID l
      then Inl ''usage event lease mismatch''
      else if (l_APIKeyID l \<noteq> 0 \<and> u_APIKeyID e \<noteq> l_APIKeyID l) \<or>
              (l_AccountID l \<noteq> 0 \<and> u_AccountID e \<noteq> l_AccountID l)
      then Inl ''usage outside funded scope''
      else if u_APIKeyID e \<le> 0 \<or> u_AccountID e \<le> 0 then Inl ''usage event requires API key and account''
      else if u_Charge e < 0 \<or> u_Charge e > l_Granted l then Inl ''usage charge outside grant''
      else if Before (u_AdmittedAt e) (l_IssuedAt l) \<or> \<not> Before (u_AdmittedAt e) (l_ExpiresAt l) \<or>
              Before (u_CompletedAt e) (u_AdmittedAt e)
      then Inl ''invalid usage event timestamps''
      else Inr ())"

section \<open>Lemmas\<close>

lemmas contract_validators [contract_defs] =
  Config_Validate_def Snapshot_Validate_def Lease_Validate_def ValidateAgainst_def

text \<open>
  C40: a snapshot is accepted only if its revision is newer than the current one, its clock window
  contains the present (skew never extends expiry or age), and its payload matches its checksum.
\<close>

theorem Snapshot_Validate_sound:
  assumes "Snapshot_Validate json_Valid sha256hex s c kind current now = Inr ()"
  shows "snap_RegionID s = cfg_RegionID c \<and> snap_Kind s = kind \<and> current < snap_Revision s \<and>
    snap_IssuedAt s \<le> now + cfg_MaxClockSkewSeconds c * Second \<and> now < snap_ExpiresAt s \<and>
    now < snap_IssuedAt s + cfg_MaxSnapshotAgeSeconds c * Second \<and>
    snap_ExpiresAt s \<le> snap_IssuedAt s + 86400 * Second \<and>
    json_Valid (snap_Payload s) \<and> snap_PayloadSHA256 s = sha256hex (snap_Payload s)"
proof -
  let ?age = "cfg_MaxSnapshotAgeSeconds c * Second"
  have age: "?age \<le> 86400 * Second" "0 < ?age" "is_int64 ?age" "?age < MaxInt64"
    using assms
    by (auto simp: contract_defs Second_def is_int64_def MinInt64_def MaxInt64_def
          split: if_splits sum.splits)
  have life: "\<not> Sub (snap_ExpiresAt s) (snap_IssuedAt s) > ?age" and young: "Sub now (snap_IssuedAt s) < ?age"
    using assms by (auto simp: contract_defs Let_def split: if_splits sum.splits)
  have "snap_ExpiresAt s - snap_IssuedAt s \<le> ?age"
    using life Sub_gt_iff [OF age(3,4)] by (meson not_le)
  moreover have "now - snap_IssuedAt s < ?age"
    using young age by (auto simp: Sub_def is_int64_def max_def min_def split: if_splits)
  ultimately show ?thesis
    using assms age
    by (auto simp: contract_defs Let_def time_defs split: if_splits sum.splits)
qed

text \<open>
  A concrete snapshot the validator accepts, with the identity standing for the digest.
\<close>

definition sample_config :: Config where
  "sample_config = \<lparr>cfg_RegionID = ''eu'', cfg_MaxSnapshotAgeSeconds = 60, cfg_MaxClockSkewSeconds = 5\<rparr>"

definition sample_snapshot :: Snapshot where
  "sample_snapshot = \<lparr>snap_SchemaVersion = 1, snap_RegionID = ''eu'', snap_Kind = SnapshotAuth,
     snap_Revision = 7, snap_IssuedAt = 1000000000, snap_ExpiresAt = 31000000000,
     snap_PayloadSHA256 = ''{}'', snap_Payload = ''{}''\<rparr>"

theorem Snapshot_Validate_sound_witness:
  "Snapshot_Validate (\<lambda>_. True) id sample_snapshot sample_config SnapshotAuth 6 2000000000 = Inr () \<and>
   6 < snap_Revision sample_snapshot \<and> 2000000000 < snap_ExpiresAt sample_snapshot"
proof -
  have ok: "Snapshot_Validate (\<lambda>_. True) id sample_snapshot sample_config SnapshotAuth 6 2000000000 = Inr ()"
    by code_simp
  show ?thesis using ok Snapshot_Validate_sound [OF ok] by blast
qed

text \<open>
  An amount written for JSON is read back unchanged, and a text is read as an amount only if it
  is the text that amount is written as, so the encoding is canonical.
\<close>

theorem Amount_JSON_canonical:
  "Amount_UnmarshalJSON s = Inr a \<longleftrightarrow> 0 \<le> a \<and> a \<le> MaxInt64 \<and> Amount_MarshalJSON a = Inr s"
proof
  assume r: "Amount_UnmarshalJSON s = Inr a"
  then have s: "list_all is_digit s" "s \<noteq> []" "length s = 1 \<or> hd s \<noteq> CHR ''0''"
    and a: "a = int (undec 0 s)" "a \<le> MaxInt64"
    by (auto simp: Amount_UnmarshalJSON_def ParseDigits_def Suc_lessI split: if_splits)
  then show "0 \<le> a \<and> a \<le> MaxInt64 \<and> Amount_MarshalJSON a = Inr s"
    using dec_undec [OF s] by (simp add: Amount_MarshalJSON_def FormatInt_def)
next
  assume "0 \<le> a \<and> a \<le> MaxInt64 \<and> Amount_MarshalJSON a = Inr s"
  then have s: "s = dec (nat a)" and a: "0 \<le> a" "a \<le> MaxInt64"
    by (auto simp: Amount_MarshalJSON_def FormatInt_def)
  have "length s > 1 \<Longrightarrow> hd s \<noteq> CHR ''0''"
    unfolding s by (rule dec_no_leading_zero)
  with s a show "Amount_UnmarshalJSON s = Inr a"
    by (simp add: Amount_UnmarshalJSON_def ParseDigits_dec digits_dec)
qed

text \<open>
  a usage event that passes validation charges a non-negative amount within the lease's grant, is
  admitted inside the lease's window, carries the lease's identity and stays in its funded scope.
\<close>

theorem ValidateAgainst_sound:
  assumes "ValidateAgainst e l = Inr ()"
  shows "0 \<le> u_Charge e \<and> u_Charge e \<le> l_Granted l \<and> 0 < l_Granted l \<and>
    l_IssuedAt l \<le> u_AdmittedAt e \<and> u_AdmittedAt e < l_ExpiresAt l \<and> u_AdmittedAt e \<le> u_CompletedAt e \<and>
    u_LeaseID e = l_LeaseID l \<and> u_RegionID e = l_RegionID l \<and> u_UserID e = l_UserID l \<and>
    (l_APIKeyID l = 0 \<or> u_APIKeyID e = l_APIKeyID l) \<and> (l_AccountID l = 0 \<or> u_AccountID e = l_AccountID l)"
  using assms by (auto simp: contract_defs time_defs split: if_splits sum.splits)

definition sample_lease :: Lease where
  "sample_lease = \<lparr>l_BillingMode = [], l_APIKeyID = 0, l_AccountID = 0, l_SchemaVersion = 1,
     l_LeaseID = ''lease-1'', l_RegionID = ''eu'', l_UserID = 9, l_Granted = 1000,
     l_IssuedAt = 1000000000, l_ExpiresAt = 61000000000\<rparr>"

definition sample_usage :: UsageEvent where
  "sample_usage = \<lparr>u_SchemaVersion = 1, u_EventID = ''req-1'', u_LeaseID = ''lease-1'',
     u_RegionID = ''eu'', u_UserID = 9, u_APIKeyID = 3, u_AccountID = 4,
     u_AdmittedAt = 2000000000, u_CompletedAt = 3000000000, u_Charge = 250\<rparr>"

theorem ValidateAgainst_sound_witness:
  "ValidateAgainst sample_usage sample_lease = Inr () \<and> u_Charge sample_usage \<le> l_Granted sample_lease"
proof -
  have ok: "ValidateAgainst sample_usage sample_lease = Inr ()" by code_simp
  show ?thesis using ok ValidateAgainst_sound [OF ok] by blast
qed

end
