(* ===== verification/Slots.thy ===== *)
theory Slots
  imports Contracts
begin

text \<open>
  \<^verbatim>\<open>backend/internal/regional/slots/slots.go\<close>: the authority that reserves part of a shared
  concurrency budget for a region. Its tables (\<^verbatim>\<open>migrations/280\<close> and \<^verbatim>\<open>281\<close>) are the
  record \<open>authority\<close>: \<open>regional_slot_budgets\<close>, \<open>regional_slot_grants\<close>,
  \<open>regional_slot_issue_rejections\<close> and \<open>regional_primary_slots\<close>. Every operation locks the
  budget row of its resource first, so an operation is one atomic step on the tables; \<open>run_tx\<close>
  adds the failing statements and ambiguous commits. The limit reader and the grant guard are supplied
  by the application and are fields of \<open>slot_primary\<close>.
\<close>

named_theorems slot_defs \<open>operations of the slot authority\<close>

record Resource =
  r_Kind :: string
  r_ID :: int

datatype slot_err =
  SlotUnavailable | SlotExpiredUnissued | SlotConflict | SlotMsg string | SlotNoRows | SlotDB

definition Resource_Validate :: "Resource \<Rightarrow> slot_err + unit" where
  "Resource_Validate r =
     (if r_ID r \<le> 0 \<or> (r_Kind r \<noteq> ''account'' \<and> r_Kind r \<noteq> ''user'' \<and> r_Kind r \<noteq> ''api_key'')
      then Inl (SlotMsg ''invalid regional slot resource'') else Inr ())"

record Grant =
  g_LeaseID :: string
  g_Region :: string
  g_Resource :: Resource
  g_Slots :: int
  g_Revision :: int
  g_IssuedAt :: gotime
  g_ExpiresAt :: gotime

definition Grant_Validate :: "Grant \<Rightarrow> slot_err + unit" where
  "Grant_Validate g =
     (case Resource_Validate (g_Resource g) of Inl e \<Rightarrow> Inl e | Inr _ \<Rightarrow>
      if \<not> identifier_match (g_LeaseID g) \<or> \<not> identifier_match (g_Region g) \<or> g_Slots g \<le> 0 \<or>
         g_Slots g > MaxInt32 \<or> g_Revision g \<le> 0 \<or> IsZero (g_IssuedAt g) \<or>
         \<not> After (g_ExpiresAt g) (g_IssuedAt g) \<or>
         g_IssuedAt g \<noteq> Truncate (g_IssuedAt g) Microsecond \<or>
         g_ExpiresAt g \<noteq> Truncate (g_ExpiresAt g) Microsecond
      then Inl (SlotMsg ''invalid regional slot grant'') else Inr ())"

definition sameIdentity :: "Grant \<Rightarrow> Grant \<Rightarrow> bool" where
  "sameIdentity a b \<longleftrightarrow> g_LeaseID a = g_LeaseID b \<and> g_Region a = g_Region b \<and>
     g_Resource a = g_Resource b \<and> g_Slots a = g_Slots b \<and> g_IssuedAt a = g_IssuedAt b"

definition validRequest :: "string \<Rightarrow> bool" where
  "validRequest rid \<longleftrightarrow> length rid > 0 \<and> length rid \<le> 128"

datatype slot_state = SlotOpen | SlotDraining | SlotClosed

record budget =
  b_primary_used :: int
  b_granted :: int

record authority =
  budgets :: "(Resource, budget) table"
  agrants :: "(string, Grant \<times> slot_state) table"
  rejections :: "(string, Grant) table"
  pslots :: "(Resource \<times> string, bool) table"

definition empty_authority :: authority where
  "empty_authority = \<lparr>budgets = [], agrants = [], rejections = [], pslots = []\<rparr>"

text \<open>
  \<open>lockBudget\<close>: validate the resource, insert its budget row if it is missing and lock it.
\<close>

definition lockBudget :: "Resource \<Rightarrow> (Resource, budget) table \<Rightarrow> slot_err + (Resource, budget) table" where
  "lockBudget r t =
     (case Resource_Validate r of Inl e \<Rightarrow> Inl e
      | Inr _ \<Rightarrow> Inr (tnew r \<lparr>b_primary_used = 0, b_granted = 0\<rparr> t))"

text \<open>
  A budget row after an update, or the error of the table's \<open>CHECK\<close> constraints.
\<close>

definition check_budget :: "budget \<Rightarrow> bool" where
  "check_budget b \<longleftrightarrow> 0 \<le> b_primary_used b \<and> 0 \<le> b_granted b"

record slot_primary =
  sp_Limit :: "(Resource \<Rightarrow> slot_err + int) option"
  sp_GrantGuard :: "slot_err option"

definition slot_limit :: "slot_primary \<Rightarrow> Resource \<Rightarrow> slot_err + int" where
  "slot_limit p r =
     (case sp_Limit p of
        None \<Rightarrow> Inl (SlotMsg ''slot authority limit reader required'')
      | Some f \<Rightarrow> f r)"

definition authorityGrant :: "string \<Rightarrow> authority \<Rightarrow> slot_err + (Grant \<times> slot_state)" where
  "authorityGrant lid db = (case map_of (agrants db) lid of None \<Rightarrow> Inl SlotNoRows | Some gs \<Rightarrow> Inr gs)"

text \<open>The tail of \<open>Issue\<close> once neither a grant nor a rejection with this identity exists.\<close>

definition slot_allocate ::
    "slot_primary \<Rightarrow> Grant \<Rightarrow> (Resource, budget) table \<Rightarrow> authority \<Rightarrow> (authority, slot_err, unit) tx" where
  "slot_allocate p g bs db =
     (case slot_limit p (g_Resource g) of Inl e \<Rightarrow> Rollback (Inl e) | Inr limit \<Rightarrow>
      if limit \<le> 0 then Rollback (Inl SlotUnavailable)
      else case map_of bs (g_Resource g) of
        None \<Rightarrow> Rollback (Inl SlotUnavailable)
      | Some b \<Rightarrow>
          if b_primary_used b + b_granted b \<le> limit - g_Slots g
          then Commit (db\<lparr>budgets := tput (g_Resource g) (b\<lparr>b_granted := b_granted b + g_Slots g\<rparr>) bs,
                          agrants := tput (g_LeaseID g) (g, SlotOpen) (agrants db)\<rparr>) (Inr ())
          else Rollback (Inl SlotUnavailable))"

definition slot_Issue :: "slot_primary \<Rightarrow> gotime \<Rightarrow> Grant \<Rightarrow> authority \<Rightarrow> (authority, slot_err, unit) tx" where
  "slot_Issue p now g db =
     (case Grant_Validate g of Inl e \<Rightarrow> Rollback (Inl e) | Inr _ \<Rightarrow>
      case sp_GrantGuard p of Some e \<Rightarrow> Rollback (Inl e) | None \<Rightarrow>
      case lockBudget (g_Resource g) (budgets db) of Inl e \<Rightarrow> Rollback (Inl e) | Inr bs \<Rightarrow>
      case authorityGrant (g_LeaseID g) db of
        Inr (old, state) \<Rightarrow>
          if \<not> sameIdentity old g \<or> g_Revision old \<noteq> g_Revision g \<or> g_ExpiresAt old \<noteq> g_ExpiresAt g
          then Rollback (Inl SlotConflict)
          else if state \<noteq> SlotOpen then Rollback (Inl SlotUnavailable)
          else Rollback (Inr ())
      | Inl _ \<Rightarrow>
          if g_Revision g \<noteq> 1 then Rollback (Inl SlotConflict)
          else case map_of (rejections db) (g_LeaseID g) of
            Some prior \<Rightarrow>
              if prior \<noteq> g then Rollback (Inl SlotConflict) else Rollback (Inl SlotExpiredUnissued)
          | None \<Rightarrow>
              if Before now (g_IssuedAt g) then Rollback (Inl SlotUnavailable)
              else if \<not> Before now (g_ExpiresAt g) \<or> Sub now (g_IssuedAt g) > 5 * Second
              then Commit (db\<lparr>budgets := bs, rejections := tput (g_LeaseID g) g (rejections db)\<rparr>)
                     (Inl SlotExpiredUnissued)
              else slot_allocate p g bs db)"

text \<open>\<open>AcquireTx\<close> and \<open>ReleaseTx\<close> run inside the caller's transaction and return its new state.\<close>

definition slot_AcquireTx ::
    "slot_primary \<Rightarrow> Resource \<Rightarrow> string \<Rightarrow> authority \<Rightarrow> slot_err + (bool \<times> authority)" where
  "slot_AcquireTx p r rid db =
     (if \<not> validRequest rid then Inl (SlotMsg ''invalid slot request id'')
      else case lockBudget r (budgets db) of Inl e \<Rightarrow> Inl e | Inr bs \<Rightarrow>
      case map_of (pslots db) (r, rid) of
        Some released \<Rightarrow> Inr (\<not> released, db\<lparr>budgets := bs\<rparr>)
      | None \<Rightarrow>
          case slot_limit p r of Inl e \<Rightarrow> Inl e | Inr limit \<Rightarrow>
          if limit \<le> 0 then Inr (False, db\<lparr>budgets := bs\<rparr>)
          else case map_of bs r of
            None \<Rightarrow> Inr (False, db\<lparr>budgets := bs\<rparr>)
          | Some b \<Rightarrow>
              if b_primary_used b + b_granted b < limit
              then Inr (True, db\<lparr>budgets := tput r (b\<lparr>b_primary_used := b_primary_used b + 1\<rparr>) bs,
                                 pslots := tput (r, rid) False (pslots db)\<rparr>)
              else Inr (False, db\<lparr>budgets := bs\<rparr>))"

definition slot_Acquire ::
    "slot_primary \<Rightarrow> Resource \<Rightarrow> string \<Rightarrow> authority \<Rightarrow> (authority, slot_err, bool) tx" where
  "slot_Acquire p r rid db =
     (case slot_AcquireTx p r rid db of Inl e \<Rightarrow> Rollback (Inl e) | Inr (ok, db') \<Rightarrow> Commit db' (Inr ok))"

definition slot_ReleaseTx :: "Resource \<Rightarrow> string \<Rightarrow> authority \<Rightarrow> slot_err + authority" where
  "slot_ReleaseTx r rid db =
     (if \<not> validRequest rid then Inl (SlotMsg ''invalid slot request id'')
      else case lockBudget r (budgets db) of Inl e \<Rightarrow> Inl e | Inr bs \<Rightarrow>
      if map_of (pslots db) (r, rid) = Some False
      then case map_of bs r of
             None \<Rightarrow> Inr (db\<lparr>budgets := bs, pslots := tput (r, rid) True (pslots db)\<rparr>)
           | Some b \<Rightarrow>
               let b' = b\<lparr>b_primary_used := b_primary_used b - 1\<rparr> in
               if \<not> check_budget b' then Inl SlotDB
               else Inr (db\<lparr>budgets := tput r b' bs, pslots := tput (r, rid) True (pslots db)\<rparr>)
      else Inr (db\<lparr>budgets := bs, pslots := tnew (r, rid) True (pslots db)\<rparr>))"

definition slot_Release :: "Resource \<Rightarrow> string \<Rightarrow> authority \<Rightarrow> (authority, slot_err, unit) tx" where
  "slot_Release r rid db =
     (case slot_ReleaseTx r rid db of Inl e \<Rightarrow> Rollback (Inl e) | Inr db' \<Rightarrow> Commit db' (Inr ()))"

definition slot_Renew :: "slot_primary \<Rightarrow> gotime \<Rightarrow> Grant \<Rightarrow> authority \<Rightarrow> (authority, slot_err, unit) tx" where
  "slot_Renew p now g db =
     (case Grant_Validate g of Inl e \<Rightarrow> Rollback (Inl e) | Inr _ \<Rightarrow>
      case sp_GrantGuard p of Some e \<Rightarrow> Rollback (Inl e) | None \<Rightarrow>
      case lockBudget (g_Resource g) (budgets db) of Inl e \<Rightarrow> Rollback (Inl e) | Inr bs \<Rightarrow>
      case authorityGrant (g_LeaseID g) db of Inl e \<Rightarrow> Rollback (Inl e) | Inr (old, state) \<Rightarrow>
      if \<not> sameIdentity old g \<or> state \<noteq> SlotOpen then Rollback (Inl SlotConflict)
      else if g_Revision old = g_Revision g \<and> g_ExpiresAt old = g_ExpiresAt g then Rollback (Inr ())
      else if g_Revision old = MaxInt64 \<or> g_Revision g \<noteq> g_Revision old + 1 \<or>
              \<not> After (g_ExpiresAt g) (g_ExpiresAt old)
      then Rollback (Inl SlotConflict)
      else if \<not> Before now (g_ExpiresAt old) then Rollback (Inl SlotUnavailable)
      else case slot_limit p (g_Resource g) of Inl e \<Rightarrow> Rollback (Inl e) | Inr limit \<Rightarrow>
      case map_of bs (g_Resource g) of None \<Rightarrow> Rollback (Inl SlotNoRows) | Some b \<Rightarrow>
      if limit \<le> 0 \<or> b_primary_used b + b_granted b > limit then Rollback (Inl SlotUnavailable)
      else Commit (db\<lparr>budgets := bs, agrants := tput (g_LeaseID g)
              (old\<lparr>g_Revision := g_Revision g, g_ExpiresAt := g_ExpiresAt g\<rparr>, state) (agrants db)\<rparr>) (Inr ()))"

definition slot_BeginDrain :: "string \<Rightarrow> string \<Rightarrow> authority \<Rightarrow> (authority, slot_err, unit) tx" where
  "slot_BeginDrain region lid db =
     (case authorityGrant lid db of Inl e \<Rightarrow> Rollback (Inl e) | Inr (g, state) \<Rightarrow>
      if g_Region g \<noteq> region then Rollback (Inl SlotConflict)
      else case lockBudget (g_Resource g) (budgets db) of Inl e \<Rightarrow> Rollback (Inl e) | Inr bs \<Rightarrow>
      Commit (db\<lparr>budgets := bs,
                 agrants := (if state = SlotOpen then tput lid (g, SlotDraining) (agrants db)
                             else agrants db)\<rparr>) (Inr ()))"

record slot_receipt =
  rc_LeaseID :: string
  rc_Region :: string
  rc_Revision :: int

definition slot_Close :: "string \<Rightarrow> slot_receipt \<Rightarrow> authority \<Rightarrow> (authority, slot_err, unit) tx" where
  "slot_Close region receipt db =
     (case authorityGrant (rc_LeaseID receipt) db of Inl e \<Rightarrow> Rollback (Inl e) | Inr (g, state) \<Rightarrow>
      case lockBudget (g_Resource g) (budgets db) of Inl e \<Rightarrow> Rollback (Inl e) | Inr bs \<Rightarrow>
      if region \<noteq> g_Region g \<or> rc_Region receipt \<noteq> region \<or> rc_Revision receipt \<noteq> g_Revision g
      then Rollback (Inl SlotConflict)
      else if state = SlotClosed then Rollback (Inr ())
      else if state \<noteq> SlotDraining then Rollback (Inl SlotUnavailable)
      else case map_of bs (g_Resource g) of
        None \<Rightarrow> Rollback (Inl SlotDB)
      | Some b \<Rightarrow>
          let b' = b\<lparr>b_granted := b_granted b - g_Slots g\<rparr> in
          if \<not> check_budget b' then Rollback (Inl SlotDB)
          else Commit (db\<lparr>budgets := tput (g_Resource g) b' bs,
                          agrants := tput (g_LeaseID g) (g, SlotClosed) (agrants db)\<rparr>) (Inr ()))"

definition slot_Count :: "Resource \<Rightarrow> authority \<Rightarrow> int" where
  "slot_Count r db = (case map_of (budgets db) r of None \<Rightarrow> 0 | Some b \<Rightarrow> b_primary_used b + b_granted b)"

definition slot_Held :: "Resource \<Rightarrow> string \<Rightarrow> authority \<Rightarrow> bool" where
  "slot_Held r rid db = (case map_of (pslots db) (r, rid) of None \<Rightarrow> False | Some released \<Rightarrow> \<not> released)"

section \<open>Invariant\<close>

text \<open>
  What the budget row of a resource stands for: the primary requests that hold a slot, and the slots
  of the grants that are not closed.
\<close>

definition primary_weight :: "Resource \<Rightarrow> Resource \<times> string \<Rightarrow> bool \<Rightarrow> int" where
  "primary_weight r = (\<lambda>(r', rid) released. if r' = r \<and> \<not> released then 1 else 0)"

definition grant_weight :: "Resource \<Rightarrow> string \<Rightarrow> Grant \<times> slot_state \<Rightarrow> int" where
  "grant_weight r = (\<lambda>lid (g, state). if g_Resource g = r \<and> state \<noteq> SlotClosed then g_Slots g else 0)"

definition budget_row :: "authority \<Rightarrow> Resource \<Rightarrow> budget" where
  "budget_row db r =
     (case map_of (budgets db) r of None \<Rightarrow> \<lparr>b_primary_used = 0, b_granted = 0\<rparr> | Some b \<Rightarrow> b)"

definition authority_inv :: "authority \<Rightarrow> bool" where
  "authority_inv db \<longleftrightarrow>
     (\<forall>r. b_primary_used (budget_row db r) = tsum (primary_weight r) (pslots db) \<and>
          b_granted (budget_row db r) = tsum (grant_weight r) (agrants db)) \<and>
     (\<forall>lid g state. (lid, g, state) \<in> set (agrants db) \<longrightarrow> g_LeaseID g = lid \<and> Grant_Validate g = Inr ()) \<and>
     distinct (map fst (agrants db)) \<and> distinct (map fst (pslots db))"

text \<open>
  The authority as a state machine: any operation, with any arguments, clock reading and fault. The
  limit reader of every call stays within \<open>L\<close>.
\<close>

definition limit_within :: "(Resource \<Rightarrow> int) \<Rightarrow> slot_primary \<Rightarrow> bool" where
  "limit_within L p \<longleftrightarrow> (\<forall>r n. slot_limit p r = Inr n \<longrightarrow> n \<le> L r)"

inductive auth_step :: "(Resource \<Rightarrow> int) \<Rightarrow> authority \<Rightarrow> authority \<Rightarrow> bool" for L where
  as_issue: "limit_within L p \<Longrightarrow> auth_step L db (snd (run_tx flt SlotDB (slot_Issue p now g) db))"
| as_acquire: "limit_within L p \<Longrightarrow> auth_step L db (snd (run_tx flt SlotDB (slot_Acquire p r rid) db))"
| as_release: "auth_step L db (snd (run_tx flt SlotDB (slot_Release r rid) db))"
| as_renew: "limit_within L p \<Longrightarrow> auth_step L db (snd (run_tx flt SlotDB (slot_Renew p now g) db))"
| as_drain: "auth_step L db (snd (run_tx flt SlotDB (slot_BeginDrain region lid) db))"
| as_close: "auth_step L db (snd (run_tx flt SlotDB (slot_Close region receipt) db))"

inductive_cases auth_stepE: "auth_step L db db'"

section \<open>Lemmas\<close>

lemmas slot_ops [slot_defs] =
  slot_Issue_def slot_allocate_def slot_Acquire_def slot_AcquireTx_def slot_Release_def slot_ReleaseTx_def
  slot_Renew_def slot_BeginDrain_def slot_Close_def authorityGrant_def

lemmas slot_splits = if_splits sum.splits option.splits prod.splits

text \<open>Locking a budget row changes no counter.\<close>

lemma lockBudget_eq:
  "lockBudget r t = Inr bs \<longleftrightarrow>
     Resource_Validate r = Inr () \<and> bs = tnew r \<lparr>b_primary_used = 0, b_granted = 0\<rparr> t"
  by (auto simp: lockBudget_def split: sum.splits)

lemma budget_row_lock [simp]:
  "budget_row (db\<lparr>budgets := tnew r \<lparr>b_primary_used = 0, b_granted = 0\<rparr> (budgets db)\<rparr>) = budget_row db"
  by (auto simp: budget_row_def table_simps split: option.splits)

lemma budget_row_update [simp]:
  "budget_row (db\<lparr>pslots := x\<rparr>) = budget_row db"
  "budget_row (db\<lparr>agrants := y\<rparr>) = budget_row db"
  "budget_row (db\<lparr>rejections := z\<rparr>) = budget_row db"
  by (auto simp: budget_row_def)

lemma budget_row_put [simp]:
  "budget_row (db\<lparr>budgets := tput r b (tnew r' \<lparr>b_primary_used = 0, b_granted = 0\<rparr> (budgets db))\<rparr>) =
     (budget_row db)(r := b)"
  by (auto simp: budget_row_def table_simps fun_eq_iff split: option.splits)

lemma map_of_locked_budget:
  "map_of (tnew r \<lparr>b_primary_used = 0, b_granted = 0\<rparr> (budgets db)) r = Some (budget_row db r)"
  by (auto simp: budget_row_def table_simps split: option.splits)

lemma authorityGrant_Inr: "authorityGrant lid db = Inr (g, state) \<longleftrightarrow> map_of (agrants db) lid = Some (g, state)"
  by (auto simp: authorityGrant_def split: option.splits)

lemma authorityGrant_Inl: "authorityGrant lid db = Inl e \<longleftrightarrow> map_of (agrants db) lid = None \<and> e = SlotNoRows"
  by (auto simp: authorityGrant_def split: option.splits)

text \<open>What each committed operation writes.\<close>

abbreviation locked :: "Resource \<Rightarrow> authority \<Rightarrow> (Resource, budget) table" where
  "locked r db \<equiv> tnew r \<lparr>b_primary_used = 0, b_granted = 0\<rparr> (budgets db)"

lemma slot_Issue_commit:
  assumes "slot_Issue p now g db = Commit db' res"
  obtains (reject) "res = Inl SlotExpiredUnissued" "map_of (agrants db) (g_LeaseID g) = None"
      "map_of (rejections db) (g_LeaseID g) = None"
      "db' = db\<lparr>budgets := locked (g_Resource g) db, rejections := tput (g_LeaseID g) g (rejections db)\<rparr>"
  | (grant) limit where "res = Inr ()" "Grant_Validate g = Inr ()" "map_of (agrants db) (g_LeaseID g) = None"
      "map_of (rejections db) (g_LeaseID g) = None"
      "slot_limit p (g_Resource g) = Inr limit" "now < g_ExpiresAt g"
      "b_primary_used (budget_row db (g_Resource g)) + b_granted (budget_row db (g_Resource g)) + g_Slots g \<le> limit"
      "db' = db\<lparr>budgets := tput (g_Resource g)
          ((budget_row db (g_Resource g))\<lparr>b_granted := b_granted (budget_row db (g_Resource g)) + g_Slots g\<rparr>)
          (locked (g_Resource g) db), agrants := tput (g_LeaseID g) (g, SlotOpen) (agrants db)\<rparr>"
  using assms
  by (auto simp: slot_Issue_def slot_allocate_def lockBudget_eq authorityGrant_Inl map_of_locked_budget
      time_defs split: slot_splits)

lemma slot_Acquire_commit:
  assumes "slot_Acquire p r rid db = Commit db' res"
  obtains (keep) "db' = db\<lparr>budgets := locked r db\<rparr>" "res = Inr (map_of (pslots db) (r, rid) = Some False)"
  | (take) limit where "res = Inr True" "map_of (pslots db) (r, rid) = None" "slot_limit p r = Inr limit"
      "b_primary_used (budget_row db r) + b_granted (budget_row db r) + 1 \<le> limit"
      "db' = db\<lparr>budgets := tput r ((budget_row db r)\<lparr>b_primary_used := b_primary_used (budget_row db r) + 1\<rparr>)
          (locked r db), pslots := tput (r, rid) False (pslots db)\<rparr>"
  using assms
  by (auto simp: slot_Acquire_def slot_AcquireTx_def lockBudget_eq map_of_locked_budget split: slot_splits)

lemma slot_Release_commit:
  assumes "slot_Release r rid db = Commit db' res"
  obtains (free) "map_of (pslots db) (r, rid) = Some False"
      "db' = db\<lparr>budgets := tput r ((budget_row db r)\<lparr>b_primary_used := b_primary_used (budget_row db r) - 1\<rparr>)
          (locked r db), pslots := tput (r, rid) True (pslots db)\<rparr>"
  | (mark) "map_of (pslots db) (r, rid) \<noteq> Some False"
      "db' = db\<lparr>budgets := locked r db, pslots := tnew (r, rid) True (pslots db)\<rparr>"
  using assms
  by (auto simp: slot_Release_def slot_ReleaseTx_def lockBudget_eq map_of_locked_budget Let_def
      split: slot_splits)

lemma slot_Renew_commit:
  assumes "slot_Renew p now g db = Commit db' res"
  obtains old where "res = Inr ()" "Grant_Validate g = Inr ()" "map_of (agrants db) (g_LeaseID g) = Some (old, SlotOpen)"
      "sameIdentity old g" "g_Revision g = g_Revision old + 1" "g_ExpiresAt old < g_ExpiresAt g"
      "db' = db\<lparr>budgets := locked (g_Resource g) db, agrants := tput (g_LeaseID g) (g, SlotOpen) (agrants db)\<rparr>"
proof -
  have "old\<lparr>g_Revision := g_Revision g, g_ExpiresAt := g_ExpiresAt g\<rparr> = g" if "sameIdentity old g" for old :: Grant
    using that by (cases old; cases g) (auto simp: sameIdentity_def)
  then show ?thesis
    using assms that
    by (auto simp: slot_Renew_def lockBudget_eq authorityGrant_Inr map_of_locked_budget time_defs
        split: slot_splits)
qed

lemma slot_BeginDrain_commit:
  assumes "slot_BeginDrain region lid db = Commit db' res"
  obtains g state where "map_of (agrants db) lid = Some (g, state)" "g_Region g = region"
      "db' = db\<lparr>budgets := locked (g_Resource g) db,
         agrants := (if state = SlotOpen then tput lid (g, SlotDraining) (agrants db) else agrants db)\<rparr>"
  using assms by (auto simp: slot_BeginDrain_def lockBudget_eq authorityGrant_Inr split: slot_splits)

lemma slot_Close_commit:
  assumes "slot_Close region receipt db = Commit db' res"
  obtains g where "map_of (agrants db) (rc_LeaseID receipt) = Some (g, SlotDraining)" "g_Region g = region"
      "rc_Region receipt = region" "rc_Revision receipt = g_Revision g"
      "db' = db\<lparr>budgets := tput (g_Resource g)
          ((budget_row db (g_Resource g))\<lparr>b_granted := b_granted (budget_row db (g_Resource g)) - g_Slots g\<rparr>)
          (locked (g_Resource g) db), agrants := tput (g_LeaseID g) (g, SlotClosed) (agrants db)\<rparr>"
  using assms
  by (auto simp: slot_Close_def lockBudget_eq authorityGrant_Inr map_of_locked_budget Let_def
      split: slot_splits)

section \<open>The invariant is kept\<close>

lemma Grant_Validate_slots: "Grant_Validate g = Inr () \<Longrightarrow> 0 < g_Slots g"
  by (auto simp: Grant_Validate_def split: slot_splits)

lemma authority_inv_grant:
  assumes "authority_inv db" "map_of (agrants db) lid = Some (g, state)"
  shows "g_LeaseID g = lid" "Grant_Validate g = Inr ()"
  using assms map_of_SomeD by (fastforce simp: authority_inv_def)+

lemma authority_inv_empty: "authority_inv empty_authority"
  by (simp add: authority_inv_def empty_authority_def budget_row_def)

text \<open>
  One lemma for the operations that write a grant row: the granted counter of its resource moves by
  the new weight less the old one, and every other counter stays.
\<close>

lemma authority_inv_put_grant:
  assumes inv: "authority_inv db" and g: "g_LeaseID g = lid" "Grant_Validate g = Inr ()"
    and old: "\<And>g0 s0. map_of (agrants db) lid = Some (g0, s0) \<Longrightarrow> g_Resource g0 = g_Resource g"
    and keep: "pslots db' = pslots db" "agrants db' = tput lid (g, state) (agrants db)"
    and other: "\<And>r. r \<noteq> g_Resource g \<Longrightarrow> budget_row db' r = budget_row db r"
    and pu: "b_primary_used (budget_row db' (g_Resource g)) = b_primary_used (budget_row db (g_Resource g))"
    and gr: "b_granted (budget_row db' (g_Resource g)) = b_granted (budget_row db (g_Resource g))
      + grant_weight (g_Resource g) lid (g, state)
      - (case map_of (agrants db) lid of None \<Rightarrow> 0 | Some v \<Rightarrow> grant_weight (g_Resource g) lid v)"
  shows "authority_inv db'"
proof -
  have sums: "b_primary_used (budget_row db r) = tsum (primary_weight r) (pslots db)"
    "b_granted (budget_row db r) = tsum (grant_weight r) (agrants db)" for r
    using inv by (auto simp: authority_inv_def)
  have "b_primary_used (budget_row db' r) = tsum (primary_weight r) (pslots db') \<and>
        b_granted (budget_row db' r) = tsum (grant_weight r) (agrants db')" for r
  proof (cases "r = g_Resource g")
    case True
    then show ?thesis using pu gr by (simp add: sums keep tsum_tput)
  next
    case False
    then have "grant_weight r lid (g, state) = 0"
      "(case map_of (agrants db) lid of None \<Rightarrow> 0 | Some v \<Rightarrow> grant_weight r lid v) = 0"
      using old by (auto simp: grant_weight_def split: option.splits)
    then show ?thesis using False by (simp add: other sums keep tsum_tput)
  qed
  moreover have "distinct (map fst (agrants db'))" "distinct (map fst (pslots db'))"
    using inv by (auto simp: authority_inv_def keep table_simps)
  moreover have "g_LeaseID g1 = l1 \<and> Grant_Validate g1 = Inr ()" if "(l1, g1, s1) \<in> set (agrants db')" for l1 g1 s1
    using set_tput [OF that [unfolded keep(2)]] g inv by (auto simp: authority_inv_def)
  ultimately show ?thesis by (auto simp: authority_inv_def)
qed

lemma authority_inv_put_slot:
  assumes inv: "authority_inv db"
    and keep: "agrants db' = agrants db" "pslots db' = tput (r, rid) released (pslots db)"
    and other: "\<And>r'. r' \<noteq> r \<Longrightarrow> budget_row db' r' = budget_row db r'"
    and gr: "b_granted (budget_row db' r) = b_granted (budget_row db r)"
    and pu: "b_primary_used (budget_row db' r) = b_primary_used (budget_row db r) + (if released then 0 else 1)
      - (if map_of (pslots db) (r, rid) = Some False then 1 else 0)"
  shows "authority_inv db'"
proof -
  have sums: "b_primary_used (budget_row db q) = tsum (primary_weight q) (pslots db)"
    "b_granted (budget_row db q) = tsum (grant_weight q) (agrants db)" for q
    using inv by (auto simp: authority_inv_def)
  have "b_primary_used (budget_row db' q) = tsum (primary_weight q) (pslots db') \<and>
        b_granted (budget_row db' q) = tsum (grant_weight q) (agrants db')" for q
    using other gr pu
    by (cases "q = r") (auto simp: sums keep tsum_tput primary_weight_def split: option.splits)
  moreover have "distinct (map fst (pslots db'))"
    using inv by (auto simp: authority_inv_def keep table_simps)
  ultimately show ?thesis using inv by (auto simp: authority_inv_def keep)
qed

lemma authority_inv_same:
  assumes "authority_inv db" "budget_row db' = budget_row db" "agrants db' = agrants db" "pslots db' = pslots db"
  shows "authority_inv db'"
  using assms by (simp add: authority_inv_def)

lemma slot_Issue_inv:
  assumes "slot_Issue p now g db = Commit db' res" "authority_inv db"
  shows "authority_inv db'"
  using assms(1)
proof (cases rule: slot_Issue_commit)
  case reject
  show ?thesis by (rule authority_inv_same [OF assms(2)]) (simp_all add: reject)
next
  case grant
  show ?thesis
    by (rule authority_inv_put_grant [OF assms(2), of g "g_LeaseID g" _ SlotOpen])
       (simp_all add: grant grant_weight_def)
qed

lemma slot_Acquire_inv:
  assumes "slot_Acquire p r rid db = Commit db' res" "authority_inv db"
  shows "authority_inv db'"
  using assms(1)
proof (cases rule: slot_Acquire_commit)
  case keep
  show ?thesis by (rule authority_inv_same [OF assms(2)]) (simp_all add: keep)
next
  case take
  show ?thesis
    by (rule authority_inv_put_slot [OF assms(2), of _ r rid False]) (simp_all add: take)
qed

lemma slot_Release_inv:
  assumes "slot_Release r rid db = Commit db' res" "authority_inv db"
  shows "authority_inv db'"
  using assms(1)
proof (cases rule: slot_Release_commit)
  case free
  show ?thesis
    by (rule authority_inv_put_slot [OF assms(2), of _ r rid True]) (simp_all add: free)
next
  case mark
  show ?thesis
  proof (cases "map_of (pslots db) (r, rid)")
    case None
    then show ?thesis
      by (intro authority_inv_put_slot [OF assms(2), of _ r rid True]) (simp_all add: mark)
  next
    case Some
    then show ?thesis by (intro authority_inv_same [OF assms(2)]) (simp_all add: mark)
  qed
qed

lemma slot_Renew_inv:
  assumes "slot_Renew p now g db = Commit db' res" "authority_inv db"
  shows "authority_inv db'"
  using assms(1)
proof (cases rule: slot_Renew_commit)
  case (1 old)
  then have "g_Resource old = g_Resource g" "g_Slots old = g_Slots g" by (simp_all add: sameIdentity_def)
  then show ?thesis
    by (intro authority_inv_put_grant [OF assms(2), of g "g_LeaseID g" _ SlotOpen])
       (simp_all add: 1 grant_weight_def)
qed

lemma slot_BeginDrain_inv:
  assumes "slot_BeginDrain region lid db = Commit db' res" "authority_inv db"
  shows "authority_inv db'"
  using assms(1)
proof (cases rule: slot_BeginDrain_commit)
  case (1 g state)
  note row = authority_inv_grant [OF assms(2) 1(1)]
  show ?thesis
  proof (cases "state = SlotOpen")
    case True
    with row show ?thesis
      by (intro authority_inv_put_grant [OF assms(2), of g lid _ SlotDraining])
         (simp_all add: 1 grant_weight_def)
  next
    case False
    show ?thesis by (rule authority_inv_same [OF assms(2)]) (simp_all add: 1 False)
  qed
qed

lemma slot_Close_inv:
  assumes "slot_Close region receipt db = Commit db' res" "authority_inv db"
  shows "authority_inv db'"
  using assms(1)
proof (cases rule: slot_Close_commit)
  case (1 g)
  note row = authority_inv_grant [OF assms(2) 1(1)]
  then show ?thesis
    by (intro authority_inv_put_grant [OF assms(2), of g "g_LeaseID g" _ SlotClosed])
       (simp_all add: 1 grant_weight_def)
qed

text \<open>A step leaves the tables alone or is the commit of one operation.\<close>

lemma auth_step_elim [consumes 1, case_names same issue acquire release renew drain close]:
  assumes "auth_step L db db'"
  obtains "db' = db"
  | p now g res where "limit_within L p" "slot_Issue p now g db = Commit db' res"
  | p r rid res where "limit_within L p" "slot_Acquire p r rid db = Commit db' res"
  | r rid res where "slot_Release r rid db = Commit db' res"
  | p now g res where "limit_within L p" "slot_Renew p now g db = Commit db' res"
  | region lid res where "slot_BeginDrain region lid db = Commit db' res"
  | region receipt res where "slot_Close region receipt db = Commit db' res"
  using assms
proof (cases rule: auth_step.cases)
  case (as_issue p flt now g)
  then show ?thesis using that run_tx_snd [of flt SlotDB "slot_Issue p now g" db] by metis
next
  case (as_acquire p flt r rid)
  then show ?thesis using that run_tx_snd [of flt SlotDB "slot_Acquire p r rid" db] by metis
next
  case (as_release flt r rid)
  then show ?thesis using that run_tx_snd [of flt SlotDB "slot_Release r rid" db] by metis
next
  case (as_renew p flt now g)
  then show ?thesis using that run_tx_snd [of flt SlotDB "slot_Renew p now g" db] by metis
next
  case (as_drain flt region lid)
  then show ?thesis using that run_tx_snd [of flt SlotDB "slot_BeginDrain region lid" db] by metis
next
  case (as_close flt region receipt)
  then show ?thesis using that run_tx_snd [of flt SlotDB "slot_Close region receipt" db] by metis
qed

lemma auth_step_inv: "auth_step L db db' \<Longrightarrow> authority_inv db \<Longrightarrow> authority_inv db'"
  by (cases rule: auth_step_elim, assumption)
     (blast intro: slot_Issue_inv slot_Acquire_inv slot_Release_inv slot_Renew_inv slot_BeginDrain_inv slot_Close_inv)+

section \<open>What the authority promises\<close>

text \<open>
  The slots of a resource that are given away. With every limit reading at most \<open>L r\<close>, an operation
  that raises the allocation leaves it within \<open>L r\<close>.
\<close>

definition allocated :: "authority \<Rightarrow> Resource \<Rightarrow> int" where
  "allocated db r = b_primary_used (budget_row db r) + b_granted (budget_row db r)"

lemma allocated_same: "budget_row db' = budget_row db \<Longrightarrow> allocated db' r \<le> max (allocated db r) n"
  by (simp add: allocated_def)

lemma limit_withinD: "limit_within L p \<Longrightarrow> slot_limit p r = Inr n \<Longrightarrow> n \<le> L r"
  by (simp add: limit_within_def)

lemma slot_Issue_alloc:
  assumes "slot_Issue p now g db = Commit db' res" "limit_within L p"
  shows "allocated db' r \<le> max (allocated db r) (L r)"
  using assms(1)
proof (cases rule: slot_Issue_commit)
  case reject
  show ?thesis by (rule allocated_same) (simp add: reject)
next
  case (grant limit)
  then show ?thesis using limit_withinD [OF assms(2) grant(5)] by (auto simp: allocated_def)
qed

lemma slot_Acquire_alloc:
  assumes "slot_Acquire p q rid db = Commit db' res" "limit_within L p"
  shows "allocated db' r \<le> max (allocated db r) (L r)"
  using assms(1)
proof (cases rule: slot_Acquire_commit)
  case keep
  show ?thesis by (rule allocated_same) (simp add: keep)
next
  case (take limit)
  then show ?thesis using limit_withinD [OF assms(2) take(3)] by (auto simp: allocated_def)
qed

lemma slot_other_alloc:
  "slot_Release q rid db = Commit db' res \<Longrightarrow> allocated db' r \<le> max (allocated db r) (L r)"
  "slot_Renew p now g db = Commit db' res' \<Longrightarrow> allocated db' r \<le> max (allocated db r) (L r)"
  "slot_BeginDrain region lid db = Commit db' res' \<Longrightarrow> allocated db' r \<le> max (allocated db r) (L r)"
  subgoal by (cases rule: slot_Release_commit, assumption) (auto simp: allocated_def)
  subgoal by (cases rule: slot_Renew_commit, assumption) (auto simp: allocated_def)
  subgoal by (cases rule: slot_BeginDrain_commit, assumption) (auto simp: allocated_def)
  done

lemma slot_Close_alloc:
  assumes "slot_Close region receipt db = Commit db' res" "authority_inv db"
  shows "allocated db' r \<le> max (allocated db r) (L r)"
  using assms(1)
proof (cases rule: slot_Close_commit)
  case (1 g)
  have "0 < g_Slots g" using Grant_Validate_slots authority_inv_grant [OF assms(2) 1(1)] by blast
  then show ?thesis by (auto simp: allocated_def 1)
qed

lemma auth_step_alloc:
  "auth_step L db db' \<Longrightarrow> authority_inv db \<Longrightarrow> allocated db' r \<le> max (allocated db r) (L r)"
  by (cases rule: auth_step_elim, assumption)
     (simp, (blast intro: slot_Issue_alloc slot_Acquire_alloc slot_other_alloc slot_Close_alloc)+)

text \<open>Reachable states of the authority.\<close>

inductive auth_reach :: "(Resource \<Rightarrow> int) \<Rightarrow> authority \<Rightarrow> bool" for L where
  ar_start: "auth_reach L empty_authority"
| ar_step: "auth_reach L db \<Longrightarrow> auth_step L db db' \<Longrightarrow> auth_reach L db'"

lemma auth_reach_inv: "auth_reach L db \<Longrightarrow> authority_inv db"
  by (induction rule: auth_reach.induct) (auto intro: authority_inv_empty auth_step_inv)

lemma auth_reach_alloc: "auth_reach L db \<Longrightarrow> 0 \<le> L r \<Longrightarrow> allocated db r \<le> L r"
proof (induction rule: auth_reach.induct)
  case ar_start
  then show ?case by (simp add: allocated_def budget_row_def empty_authority_def)
next
  case (ar_step db db')
  then show ?case using auth_step_alloc [OF ar_step(2) auth_reach_inv [OF ar_step(1)], of r] by auto
qed

text \<open>A released request identity and a closed grant are permanent.\<close>

lemma auth_step_released:
  assumes "auth_step L db db'" "map_of (pslots db) k = Some True"
  shows "map_of (pslots db') k = Some True"
  using assms(1)
proof (cases rule: auth_step_elim)
  case (issue p now g res)
  from issue(2) assms(2) show ?thesis by (cases rule: slot_Issue_commit) auto
next
  case (acquire p r rid res)
  from acquire(2) assms(2) show ?thesis by (cases rule: slot_Acquire_commit) (auto simp: table_simps)
next
  case (release r rid res)
  from release assms(2) show ?thesis by (cases rule: slot_Release_commit) (auto simp: table_simps)
next
  case (renew p now g res)
  from renew(2) assms(2) show ?thesis by (cases rule: slot_Renew_commit) auto
next
  case (drain region lid res)
  from drain assms(2) show ?thesis by (cases rule: slot_BeginDrain_commit) auto
next
  case (close region receipt res)
  from close assms(2) show ?thesis by (cases rule: slot_Close_commit) auto
qed (simp add: assms(2))

lemma auth_steps_released:
  "(auth_step L)\<^sup>*\<^sup>* db db' \<Longrightarrow> map_of (pslots db) k = Some True \<Longrightarrow> map_of (pslots db') k = Some True"
  by (induction rule: rtranclp_induct) (auto intro: auth_step_released)

lemma slot_Release_marks:
  assumes "slot_Release r rid db = Commit db' res"
  shows "map_of (pslots db') (r, rid) = Some True"
  using assms
proof (cases rule: slot_Release_commit)
  case mark
  then show ?thesis by (cases "map_of (pslots db) (r, rid)") (auto simp: table_simps)
qed (auto simp: table_simps)

lemma slot_Acquire_released:
  "map_of (pslots db) (r, rid) = Some True \<Longrightarrow> fst (run_tx flt SlotDB (slot_Acquire p r rid) db) \<noteq> Inr True"
  by (auto simp: run_tx_def slot_Acquire_def slot_AcquireTx_def split: slot_splits tx.splits db_fault.splits)

text \<open>A lease identity that was rejected stays rejected and is never granted.\<close>

lemma auth_step_rejected:
  assumes "auth_step L db db'" and inv: "authority_inv db"
    and r: "map_of (rejections db) lid = Some g0" "map_of (agrants db) lid = None"
  shows "map_of (rejections db') lid = Some g0 \<and> map_of (agrants db') lid = None"
  using assms(1)
proof (cases rule: auth_step_elim)
  case same
  then show ?thesis using r by simp
next
  case (issue p now g res)
  from issue(2) r show ?thesis by (cases rule: slot_Issue_commit) (auto simp: map_of_tput)
next
  case (acquire p r rid res)
  from acquire(2) r show ?thesis by (cases rule: slot_Acquire_commit) auto
next
  case (release r rid res)
  from release r show ?thesis by (cases rule: slot_Release_commit) auto
next
  case (renew p now g res)
  from renew(2) r show ?thesis by (cases rule: slot_Renew_commit) (auto simp: map_of_tput)
next
  case (drain region l res)
  from drain r show ?thesis by (cases rule: slot_BeginDrain_commit) (auto simp: map_of_tput)
next
  case (close region receipt res)
  from close show ?thesis
  proof (cases rule: slot_Close_commit)
    case (1 g)
    have "g_LeaseID g = rc_LeaseID receipt" by (rule authority_inv_grant [OF inv 1(1)])
    then show ?thesis using 1 r by (auto simp: map_of_tput)
  qed
qed

lemma auth_steps_rejected:
  assumes "(auth_step L)\<^sup>*\<^sup>* db db'" "authority_inv db"
    "map_of (rejections db) lid = Some g0" "map_of (agrants db) lid = None"
  shows "authority_inv db' \<and> map_of (rejections db') lid = Some g0 \<and> map_of (agrants db') lid = None"
  using assms by (induction rule: rtranclp_induct) (auto dest: auth_step_rejected intro: auth_step_inv)

lemma slot_Issue_rejected:
  "map_of (rejections db) (g_LeaseID g) = Some g0 \<Longrightarrow> map_of (agrants db) (g_LeaseID g) = None \<Longrightarrow>
   run_tx flt SlotDB (slot_Issue p now g) db = (res, db') \<Longrightarrow> res \<noteq> Inr () \<and> db' = db"
  by (auto simp: run_tx_def slot_Issue_def authorityGrant_def split: slot_splits)

text \<open>The primary counter of a resource counts the requests that hold one of its slots.\<close>

lemma primary_held_card:
  assumes "authority_inv db"
  shows "finite {rid. slot_Held r rid db} \<and> int (card {rid. slot_Held r rid db}) = b_primary_used (budget_row db r)"
proof -
  let ?t = "pslots db"
  let ?K = "{k. \<exists>v. map_of ?t k = Some v \<and> fst k = r \<and> \<not> v}"
  have img: "?K = Pair r ` {rid. slot_Held r rid db}"
    by (auto simp: slot_Held_def image_iff split: option.splits simp del: map_of_eq_Some_iff)
  then have "finite {rid. slot_Held r rid db}"
    using finite_rows [of ?t "\<lambda>k v. fst k = r \<and> \<not> v"] by (simp add: finite_image_iff inj_on_def)
  moreover have "primary_weight r = (\<lambda>k v. if fst k = r \<and> \<not> v then 1 else 0)"
    by (auto simp: primary_weight_def fun_eq_iff)
  then have "b_primary_used (budget_row db r) = int (card ?K)"
    using assms tsum_card [of ?t "\<lambda>k v. fst k = r \<and> \<not> v"] by (simp add: authority_inv_def)
  then have "int (card {rid. slot_Held r rid db}) = b_primary_used (budget_row db r)"
    unfolding img by (simp add: card_image inj_on_def)
  ultimately show ?thesis by blast
qed

lemma slot_Count_allocated: "slot_Count r db = allocated db r"
  by (simp add: slot_Count_def allocated_def budget_row_def split: option.split)

section \<open>Properties\<close>

definition sample_resource :: Resource where
  "sample_resource = \<lparr>r_Kind = ''user'', r_ID = 7\<rparr>"

definition sample_grant :: Grant where
  "sample_grant = \<lparr>g_LeaseID = ''slot-1'', g_Region = ''eu'', g_Resource = sample_resource, g_Slots = 2,
     g_Revision = 1, g_IssuedAt = 1000, g_ExpiresAt = 9000\<rparr>"

definition sample_primary :: slot_primary where
  "sample_primary = \<lparr>sp_Limit = Some (\<lambda>_. Inr 3), sp_GrantGuard = None\<rparr>"

definition sample_auth :: authority where
  "sample_auth = \<lparr>budgets = [(sample_resource, \<lparr>b_primary_used = 0, b_granted = 2\<rparr>)],
     agrants = [(''slot-1'', sample_grant, SlotOpen)], rejections = [], pslots = []\<rparr>"

definition sample_rejected :: authority where
  "sample_rejected = \<lparr>budgets = [(sample_resource, \<lparr>b_primary_used = 0, b_granted = 0\<rparr>)],
     agrants = [], rejections = [(''slot-1'', sample_grant)], pslots = []\<rparr>"

lemma sample_issue: "run_tx NoFault SlotDB (slot_Issue sample_primary 2000 sample_grant) empty_authority = (Inr (), sample_auth)"
  by code_simp

lemma sample_within: "limit_within (\<lambda>_. 3) sample_primary"
  by (simp add: limit_within_def slot_limit_def sample_primary_def)

lemma sample_auth_reach: "auth_reach (\<lambda>_. 3) sample_auth"
  using ar_step [OF ar_start as_issue [OF sample_within, of empty_authority NoFault 2000 sample_grant]]
  by (simp add: sample_issue)

text \<open>C23: in every reachable state of the authority the budget of a resource is exact: the count the
  authority reports is the number of primary requests that hold a slot plus the slots of the grants that
  are not closed, and it never exceeds the largest limit reading.\<close>

theorem slot_budget_exact:
  assumes "auth_reach L db"
  shows "finite {rid. slot_Held r rid db} \<and>
    slot_Count r db = int (card {rid. slot_Held r rid db}) + tsum (grant_weight r) (agrants db) \<and>
    (0 \<le> L r \<longrightarrow> slot_Count r db \<le> L r)"
  using primary_held_card [OF auth_reach_inv [OF assms], of r] auth_reach_inv [OF assms] auth_reach_alloc [OF assms, of r]
  by (simp add: slot_Count_allocated authority_inv_def allocated_def)

theorem slot_budget_exact_witness:
  "auth_reach (\<lambda>_. 3) sample_auth \<and> slot_Count sample_resource sample_auth = 2 \<and> slot_Count sample_resource sample_auth \<le> 3"
  using slot_budget_exact [OF sample_auth_reach, of sample_resource] sample_auth_reach
  by (simp add: slot_Count_def sample_auth_def)

text \<open>an issue that the authority rejected as expired is final: after any number of further
  operations, no call of \<open>Issue\<close> with that lease identity, whatever its other fields, its clock reading or
  its database fault, grants slots or changes the tables. A retried command cannot take effect late.\<close>

theorem slot_rejection_final:
  assumes "auth_reach L db0" "slot_Issue p0 now0 g0 db0 = Commit db1 (Inl SlotExpiredUnissued)"
    "(auth_step L)\<^sup>*\<^sup>* db1 db" "g_LeaseID g = g_LeaseID g0"
    "run_tx flt SlotDB (slot_Issue p now g) db = (res, db')"
  shows "res \<noteq> Inr () \<and> db' = db"
proof -
  have "map_of (rejections db1) (g_LeaseID g0) = Some g0 \<and> map_of (agrants db1) (g_LeaseID g0) = None"
    using assms(2) by (cases rule: slot_Issue_commit) (auto simp: map_of_tput)
  moreover have "authority_inv db1" by (rule slot_Issue_inv [OF assms(2) auth_reach_inv [OF assms(1)]])
  ultimately have "map_of (rejections db) (g_LeaseID g) = Some g0" "map_of (agrants db) (g_LeaseID g) = None"
    using auth_steps_rejected [OF assms(3)] assms(4) by auto
  then show ?thesis using slot_Issue_rejected assms(5) by blast
qed

theorem slot_rejection_final_witness:
  "slot_Issue sample_primary 9000 sample_grant empty_authority = Commit sample_rejected (Inl SlotExpiredUnissued) \<and>
   fst (run_tx NoFault SlotDB (slot_Issue sample_primary 2000 sample_grant) sample_rejected) \<noteq> Inr ()"
proof -
  have c: "slot_Issue sample_primary 9000 sample_grant empty_authority = Commit sample_rejected (Inl SlotExpiredUnissued)"
    by code_simp
  show ?thesis
    using c slot_rejection_final [OF ar_start c rtranclp.rtrancl_refl refl prod.collapse [symmetric]] by blast
qed

end
