(* ===== verification/SlotsLocal.thy ===== *)
theory SlotsLocal
  imports Slots
begin

text \<open>
  \<^verbatim>\<open>backend/internal/regional/slots/local.go\<close>: the regional side. A region's database holds
  the grants it was given (\<open>regional_local_slot_grants\<close>), the requests admitted under them
  (\<open>regional_local_slots\<close>), permanent cancellations (\<open>regional_slot_cancellations\<close>) and the
  budget rows that serialise the operations on a resource. \<open>grant_payload\<close>, which the code stores
  as JSON, is the grant itself. \<open>clk k\<close> is the database clock at the \<open>k\<close>-th reading of a call, and
  \<open>order_by\<close> is the database's \<open>ORDER BY lease_id\<close>.
\<close>

record local_grant =
  lg_payload :: Grant
  lg_region :: string
  lg_resource :: Resource
  lg_slots :: int
  lg_used :: int
  lg_state :: slot_state

record local_db =
  lbudgets :: "(Resource, budget) table"
  lgrants :: "(string, local_grant) table"
  lslots :: "(string \<times> string, Resource \<times> bool) table"
  lcancels :: "(string \<times> Resource \<times> string) list"

definition empty_local :: local_db where
  "empty_local = \<lparr>lbudgets = [], lgrants = [], lslots = [], lcancels = []\<rparr>"

definition check_local_grant :: "local_grant \<Rightarrow> bool" where
  "check_local_grant row \<longleftrightarrow> 0 \<le> lg_used row \<and> lg_used row \<le> lg_slots row"

text \<open>\<open>localGrant\<close>: the row of this region, decoded and validated.\<close>

definition localGrant :: "string \<Rightarrow> string \<Rightarrow> local_db \<Rightarrow> slot_err + (Grant \<times> int \<times> slot_state)" where
  "localGrant lid region db =
     (case map_of (lgrants db) lid of
        None \<Rightarrow> Inl SlotNoRows
      | Some row \<Rightarrow>
          if lg_region row \<noteq> region then Inl SlotNoRows
          else case Grant_Validate (lg_payload row) of Inl e \<Rightarrow> Inl e
               | Inr _ \<Rightarrow> Inr (lg_payload row, lg_used row, lg_state row))"

text \<open>\<open>SELECT kind, resource_id ... WHERE lease_id AND region_id\<close>.\<close>

definition localResource :: "string \<Rightarrow> string \<Rightarrow> local_db \<Rightarrow> slot_err + Resource" where
  "localResource lid region db =
     (case map_of (lgrants db) lid of
        None \<Rightarrow> Inl SlotNoRows
      | Some row \<Rightarrow> if lg_region row \<noteq> region then Inl SlotNoRows else Inr (lg_resource row))"

text \<open>The lease a request of a resource is bound to, by the unique index on the three columns.\<close>

definition lease_of :: "Resource \<Rightarrow> string \<Rightarrow> local_db \<Rightarrow> string option" where
  "lease_of r request db =
     (case filter (\<lambda>((lid, rid), (r', released)). r' = r \<and> rid = request) (lslots db) of
        [] \<Rightarrow> None | ((lid, _), _) # _ \<Rightarrow> Some lid)"

text \<open>The same with the join on the grants of this region.\<close>

definition lease_in_region :: "string \<Rightarrow> Resource \<Rightarrow> string \<Rightarrow> local_db \<Rightarrow> string option" where
  "lease_in_region region r request db =
     (case filter (\<lambda>((lid, rid), (r', released)). r' = r \<and> rid = request \<and>
                 map_option lg_region (map_of (lgrants db) lid) = Some region) (lslots db) of
        [] \<Rightarrow> None | ((lid, _), _) # _ \<Rightarrow> Some lid)"

definition local_Install :: "string \<Rightarrow> Grant \<Rightarrow> local_db \<Rightarrow> (local_db, slot_err, unit) tx" where
  "local_Install region g db =
     (case Grant_Validate g of Inl e \<Rightarrow> Rollback (Inl e) | Inr _ \<Rightarrow>
      if g_Region g \<noteq> region then Rollback (Inl SlotConflict)
      else
        let row = \<lparr>lg_payload = g, lg_region = g_Region g, lg_resource = g_Resource g,
                   lg_slots = g_Slots g, lg_used = 0, lg_state = SlotOpen\<rparr>;
            db1 = db\<lparr>lgrants := tnew (g_LeaseID g) row (lgrants db)\<rparr>
        in case localGrant (g_LeaseID g) region db1 of Inl e \<Rightarrow> Rollback (Inl e) | Inr (old, _, state) \<Rightarrow>
           if \<not> sameIdentity old g \<or> g_Revision g < g_Revision old then Rollback (Inl SlotConflict)
           else if g_Revision g = g_Revision old
           then (if g_ExpiresAt g \<noteq> g_ExpiresAt old then Rollback (Inl SlotConflict) else Commit db1 (Inr ()))
           else if state \<noteq> SlotOpen \<or> \<not> After (g_ExpiresAt g) (g_ExpiresAt old) then Rollback (Inl SlotConflict)
           else case map_of (lgrants db1) (g_LeaseID g) of
                  None \<Rightarrow> Commit db1 (Inr ())
                | Some r \<Rightarrow> Commit (db1\<lparr>lgrants := tput (g_LeaseID g) (r\<lparr>lg_payload := g\<rparr>) (lgrants db1)\<rparr>) (Inr ()))"

definition local_AcquireTx ::
    "string \<Rightarrow> gotime \<Rightarrow> string \<Rightarrow> string \<Rightarrow> local_db \<Rightarrow> slot_err + (bool \<times> local_db)" where
  "local_AcquireTx region now lid request db0 =
     (case localResource lid region db0 of Inl e \<Rightarrow> Inl e | Inr resource \<Rightarrow>
      case lockBudget resource (lbudgets db0) of Inl e \<Rightarrow> Inl e | Inr bs \<Rightarrow>
      let db = db0\<lparr>lbudgets := bs\<rparr> in
      if (region, resource, request) \<in> set (lcancels db) then Inr (False, db)
      else if lease_of resource request db \<noteq> None \<and> lease_of resource request db \<noteq> Some lid
      then Inl SlotConflict
      else if \<not> validRequest request then Inl (SlotMsg ''invalid slot request id'')
      else case localGrant lid region db of Inl e \<Rightarrow> Inl e | Inr (g, used, state) \<Rightarrow>
      if state \<noteq> SlotOpen \<or> Before now (g_IssuedAt g) \<or> \<not> Before now (g_ExpiresAt g)
      then Inl SlotUnavailable
      else case map_of (lslots db) (lid, request) of
        Some (_, released) \<Rightarrow> Inr (\<not> released, db)
      | None \<Rightarrow>
          if used \<ge> g_Slots g then Inr (False, db)
          else case map_of (lgrants db) lid of None \<Rightarrow> Inl SlotDB | Some row \<Rightarrow>
          let row' = row\<lparr>lg_used := lg_used row + 1\<rparr> in
          if \<not> check_local_grant row' \<or> lease_of (g_Resource g) request db \<noteq> None then Inl SlotDB
          else Inr (True, db\<lparr>lgrants := tput lid row' (lgrants db),
                             lslots := tput (lid, request) (g_Resource g, False) (lslots db)\<rparr>))"

definition local_Acquire ::
    "string \<Rightarrow> gotime \<Rightarrow> string \<Rightarrow> string \<Rightarrow> local_db \<Rightarrow> (local_db, slot_err, bool) tx" where
  "local_Acquire region now lid request db =
     (case local_AcquireTx region now lid request db of
        Inl e \<Rightarrow> Rollback (Inl e) | Inr (ok, db') \<Rightarrow> Commit db' (Inr ok))"

definition local_ReleaseTx :: "string \<Rightarrow> string \<Rightarrow> string \<Rightarrow> local_db \<Rightarrow> slot_err + local_db" where
  "local_ReleaseTx region lid request db0 =
     (if \<not> validRequest request then Inl (SlotMsg ''invalid slot request id'')
      else case localResource lid region db0 of Inl e \<Rightarrow> Inl e | Inr resource \<Rightarrow>
      case lockBudget resource (lbudgets db0) of Inl e \<Rightarrow> Inl e | Inr bs \<Rightarrow>
      let db = db0\<lparr>lbudgets := bs, lcancels := List.insert (region, resource, request) (lcancels db0)\<rparr> in
      case localGrant lid region db of Inl e \<Rightarrow> Inl e | Inr _ \<Rightarrow>
      case map_of (lslots db) (lid, request) of
        Some (res, False) \<Rightarrow>
          (case map_of (lgrants db) lid of None \<Rightarrow> Inl SlotDB | Some row \<Rightarrow>
           let row' = row\<lparr>lg_used := lg_used row - 1\<rparr> in
           if \<not> check_local_grant row' then Inl SlotDB
           else Inr (db\<lparr>lgrants := tput lid row' (lgrants db),
                        lslots := tput (lid, request) (res, True) (lslots db)\<rparr>))
      | _ \<Rightarrow> Inr db)"

definition local_Release :: "string \<Rightarrow> string \<Rightarrow> string \<Rightarrow> local_db \<Rightarrow> (local_db, slot_err, unit) tx" where
  "local_Release region lid request db =
     (case local_ReleaseTx region lid request db of Inl e \<Rightarrow> Rollback (Inl e) | Inr db' \<Rightarrow> Commit db' (Inr ()))"

text \<open>\<open>UPDATE regional_local_slot_grants SET state = ... WHERE lease_id\<close>.\<close>

definition set_local_state :: "string \<Rightarrow> slot_state \<Rightarrow> local_db \<Rightarrow> local_db" where
  "set_local_state lid st db =
     (case map_of (lgrants db) lid of None \<Rightarrow> db
      | Some row \<Rightarrow> db\<lparr>lgrants := tput lid (row\<lparr>lg_state := st\<rparr>) (lgrants db)\<rparr>)"

definition local_Drain :: "string \<Rightarrow> string \<Rightarrow> local_db \<Rightarrow> (local_db, slot_err, unit) tx" where
  "local_Drain region lid db =
     (case localGrant lid region db of Inl e \<Rightarrow> Rollback (Inl e) | Inr (_, _, state) \<Rightarrow>
      if state = SlotClosed then Rollback (Inr ())
      else Commit (set_local_state lid SlotDraining db) (Inr ()))"

definition local_Close :: "string \<Rightarrow> string \<Rightarrow> local_db \<Rightarrow> (local_db, slot_err, slot_receipt) tx" where
  "local_Close region lid db =
     (case localGrant lid region db of Inl e \<Rightarrow> Rollback (Inl e) | Inr (g, used, state) \<Rightarrow>
      if state = SlotOpen \<or> used \<noteq> 0 then Rollback (Inl SlotUnavailable)
      else Commit (set_local_state lid SlotClosed db)
             (Inr \<lparr>rc_LeaseID = lid, rc_Region = region, rc_Revision = g_Revision g\<rparr>))"

text \<open>The loop of \<open>AcquireResourceTx\<close> over the candidate leases; \<open>clk\<close> is read once per attempt.\<close>

fun acquire_first ::
    "string \<Rightarrow> (nat \<Rightarrow> gotime) \<Rightarrow> nat \<Rightarrow> string list \<Rightarrow> string \<Rightarrow> local_db \<Rightarrow> slot_err + (bool \<times> local_db)" where
  "acquire_first region clk k [] request db = Inr (False, db)"
| "acquire_first region clk k (lid # lids) request db =
     (case local_AcquireTx region (clk k) lid request db of
        Inl e \<Rightarrow> Inl e
      | Inr (ok, db') \<Rightarrow> if ok then Inr (True, db') else acquire_first region clk (Suc k) lids request db')"

definition local_AcquireResourceTx ::
    "(string list \<Rightarrow> string list) \<Rightarrow> string \<Rightarrow> (nat \<Rightarrow> gotime) \<Rightarrow> Resource \<Rightarrow> string \<Rightarrow> local_db \<Rightarrow>
     slot_err + (bool \<times> local_db)" where
  "local_AcquireResourceTx order_by region clk r request db0 =
     (if \<not> validRequest request then Inl (SlotMsg ''invalid slot request id'')
      else case lockBudget r (lbudgets db0) of Inl e \<Rightarrow> Inl e | Inr bs \<Rightarrow>
      let db = db0\<lparr>lbudgets := bs\<rparr> in
      if (region, r, request) \<in> set (lcancels db) then Inr (False, db)
      else case lease_in_region region r request db of
        Some existing \<Rightarrow> local_AcquireTx region (clk 0) existing request db
      | None \<Rightarrow>
          acquire_first region clk 1
            (order_by [lid. (lid, row) \<leftarrow> lgrants db, lg_resource row = r \<and> lg_region row = region \<and>
                lg_state row = SlotOpen \<and> g_ExpiresAt (lg_payload row) > clk 0]) request db)"

definition local_AcquireResource ::
    "(string list \<Rightarrow> string list) \<Rightarrow> string \<Rightarrow> (nat \<Rightarrow> gotime) \<Rightarrow> Resource \<Rightarrow> string \<Rightarrow> local_db \<Rightarrow>
     (local_db, slot_err, bool) tx" where
  "local_AcquireResource order_by region clk r request db =
     (case local_AcquireResourceTx order_by region clk r request db of
        Inl e \<Rightarrow> Rollback (Inl e) | Inr (ok, db') \<Rightarrow> Commit db' (Inr ok))"

definition local_ReleaseResourceTx :: "string \<Rightarrow> Resource \<Rightarrow> string \<Rightarrow> local_db \<Rightarrow> slot_err + local_db" where
  "local_ReleaseResourceTx region r request db0 =
     (if \<not> validRequest request then Inl (SlotMsg ''invalid slot request id'')
      else case lockBudget r (lbudgets db0) of Inl e \<Rightarrow> Inl e | Inr bs \<Rightarrow>
      let db = db0\<lparr>lbudgets := bs, lcancels := List.insert (region, r, request) (lcancels db0)\<rparr> in
      case lease_in_region region r request db of
        None \<Rightarrow> Inr db
      | Some lid \<Rightarrow> local_ReleaseTx region lid request db)"

definition local_ReleaseResource ::
    "string \<Rightarrow> Resource \<Rightarrow> string \<Rightarrow> local_db \<Rightarrow> (local_db, slot_err, unit) tx" where
  "local_ReleaseResource region r request db =
     (case local_ReleaseResourceTx region r request db of Inl e \<Rightarrow> Rollback (Inl e) | Inr db' \<Rightarrow> Commit db' (Inr ()))"

definition local_Count :: "string \<Rightarrow> Resource \<Rightarrow> local_db \<Rightarrow> int" where
  "local_Count region r db =
     tsum (\<lambda>lid row. if lg_resource row = r \<and> lg_region row = region then lg_used row else 0) (lgrants db)"

definition local_Held :: "string \<Rightarrow> Resource \<Rightarrow> string \<Rightarrow> local_db \<Rightarrow> bool" where
  "local_Held region r request db =
     (case lease_in_region region r request db of
        None \<Rightarrow> False
      | Some lid \<Rightarrow> (case map_of (lslots db) (lid, request) of Some (_, released) \<Rightarrow> \<not> released | None \<Rightarrow> False))"

section \<open>Invariant and steps\<close>

definition held_weight :: "string \<Rightarrow> string \<times> string \<Rightarrow> Resource \<times> bool \<Rightarrow> int" where
  "held_weight lid = (\<lambda>(lid', request) (r, released). if lid' = lid \<and> \<not> released then 1 else 0)"

text \<open>
  Every grant row agrees with its payload and its use counter is the number of requests that hold one
  of its slots; every slot row belongs to a grant of its resource; and a request of a resource is bound
  to one lease.
\<close>

definition local_inv :: "string \<Rightarrow> local_db \<Rightarrow> bool" where
  "local_inv region db \<longleftrightarrow>
     distinct (map fst (lgrants db)) \<and> distinct (map fst (lslots db)) \<and>
     (\<forall>lid row. (lid, row) \<in> set (lgrants db) \<longrightarrow>
        Grant_Validate (lg_payload row) = Inr () \<and>
        g_LeaseID (lg_payload row) = lid \<and> g_Region (lg_payload row) = region \<and> lg_region row = region \<and>
        g_Resource (lg_payload row) = lg_resource row \<and> g_Slots (lg_payload row) = lg_slots row \<and>
        lg_used row = tsum (held_weight lid) (lslots db) \<and> lg_used row \<le> lg_slots row \<and>
        (lg_state row = SlotClosed \<longrightarrow> lg_used row = 0)) \<and>
     (\<forall>lid request r released. ((lid, request), (r, released)) \<in> set (lslots db) \<longrightarrow>
        (\<exists>row. map_of (lgrants db) lid = Some row \<and> lg_resource row = r)) \<and>
     (\<forall>lid lid' request r b b'. ((lid, request), (r, b)) \<in> set (lslots db) \<longrightarrow>
        ((lid', request), (r, b')) \<in> set (lslots db) \<longrightarrow> lid = lid')"

text \<open>Any operation of a region, with any arguments, clock readings and fault.\<close>

inductive local_step :: "string \<Rightarrow> local_db \<Rightarrow> local_db \<Rightarrow> bool" for region where
  ls_same: "local_step region db db"
| ls_install: "local_Install region g db = Commit db' res \<Longrightarrow> local_step region db db'"
| ls_acquire: "local_Acquire region now lid request db = Commit db' res \<Longrightarrow> local_step region db db'"
| ls_release: "local_Release region lid request db = Commit db' res \<Longrightarrow> local_step region db db'"
| ls_drain: "local_Drain region lid db = Commit db' res \<Longrightarrow> local_step region db db'"
| ls_close: "local_Close region lid db = Commit db' res \<Longrightarrow> local_step region db db'"
| ls_acquire_resource:
    "local_AcquireResource order_by region clk r request db = Commit db' res \<Longrightarrow> local_step region db db'"
| ls_release_resource: "local_ReleaseResource region r request db = Commit db' res \<Longrightarrow> local_step region db db'"

section \<open>What a step writes\<close>

text \<open>
  The cases of a step up to the budget rows: nothing but new cancellations, a new grant, a renewed
  grant, a slot taken, a slot freed, a grant drained or closed.
\<close>

definition taken :: "string \<Rightarrow> string \<Rightarrow> string \<Rightarrow> local_grant \<Rightarrow> local_db \<Rightarrow> local_db \<Rightarrow> bool" where
  "taken region lid request row db db' \<longleftrightarrow>
     map_of (lgrants db) lid = Some row \<and> lg_region row = region \<and> lg_state row = SlotOpen \<and>
     lg_used row < lg_slots row \<and> map_of (lslots db) (lid, request) = None \<and>
     (region, lg_resource row, request) \<notin> set (lcancels db) \<and>
     lease_of (g_Resource (lg_payload row)) request db = None \<and>
     lgrants db' = tput lid (row\<lparr>lg_used := lg_used row + 1\<rparr>) (lgrants db) \<and>
     lslots db' = tput (lid, request) (g_Resource (lg_payload row), False) (lslots db) \<and>
     lcancels db' = lcancels db"

definition same_core :: "local_db \<Rightarrow> local_db \<Rightarrow> bool" where
  "same_core db db' \<longleftrightarrow> lgrants db' = lgrants db \<and> lslots db' = lslots db \<and> lcancels db' = lcancels db"

lemma lease_of_cong: "lslots db' = lslots db \<Longrightarrow> lease_of r q db' = lease_of r q db"
  by (simp add: lease_of_def)

lemma localGrant_Inr:
  "localGrant lid region db = Inr (g, used, state) \<longleftrightarrow>
     (\<exists>row. map_of (lgrants db) lid = Some row \<and> lg_region row = region \<and> Grant_Validate g = Inr () \<and>
        g = lg_payload row \<and> used = lg_used row \<and> state = lg_state row)"
  by (auto simp: localGrant_def split: slot_splits)

lemma localResource_Inr:
  "localResource lid region db = Inr r \<longleftrightarrow>
     (\<exists>row. map_of (lgrants db) lid = Some row \<and> lg_region row = region \<and> r = lg_resource row)"
  by (auto simp: localResource_def split: slot_splits)

lemma local_AcquireTx_cases:
  assumes "local_AcquireTx region now lid request db = Inr (ok, db')"
  obtains (keep) "same_core db db'" "ok \<Longrightarrow> \<exists>r. map_of (lslots db) (lid, request) = Some (r, False)"
  | (take) row where "ok" "taken region lid request row db db'"
proof -
  obtain r where r: "localResource lid region db = Inr r"
    using assms by (auto simp: local_AcquireTx_def split: sum.splits)
  obtain row0 where row0: "map_of (lgrants db) lid = Some row0" "lg_region row0 = region" "r = lg_resource row0"
    using r by (auto simp: localResource_Inr)
  obtain bs where bs: "lockBudget r (lbudgets db) = Inr bs"
    using assms r by (auto simp: local_AcquireTx_def split: sum.splits)
  let ?db = "db\<lparr>lbudgets := bs\<rparr>"
  have cong: "lease_of q x ?db = lease_of q x db" for q x by (simp add: lease_of_def)
  show ?thesis
  proof (cases "(region, r, request) \<in> set (lcancels db)")
    case True
    then have "db' = ?db" "\<not> ok" using assms r bs by (auto simp: local_AcquireTx_def)
    then show ?thesis using keep by (simp add: same_core_def)
  next
    case fresh: False
    then obtain g used state where g: "localGrant lid region ?db = Inr (g, used, state)" "state = SlotOpen"
      using assms r bs by (auto simp: local_AcquireTx_def Let_def split: if_splits sum.splits)
    then have gr: "g = lg_payload row0" "used = lg_used row0" "lg_state row0 = SlotOpen"
      using row0 by (auto simp: localGrant_Inr)
    show ?thesis
    proof (cases "map_of (lslots db) (lid, request)")
      case (Some x)
      then have "db' = ?db" "ok \<longrightarrow> \<not> snd x"
        using assms r bs fresh g by (auto simp: local_AcquireTx_def Let_def split: if_splits prod.splits)
      then show ?thesis using keep Some by (cases x) (auto simp: same_core_def)
    next
      case None
      show ?thesis
      proof (cases "used \<ge> g_Slots g")
        case True
        then have "db' = ?db" "\<not> ok"
          using assms r bs fresh g None by (auto simp: local_AcquireTx_def Let_def split: if_splits)
        then show ?thesis using keep by (simp add: same_core_def)
      next
        case False
        then have "ok" "taken region lid request row0 db db'"
          using assms r bs fresh g None row0 gr
          by (auto simp: local_AcquireTx_def Let_def taken_def check_local_grant_def cong split: if_splits)
        then show ?thesis by (rule take)
      qed
    qed
  qed
qed

text \<open>The same for the loop over candidate leases and for the whole resource operation.\<close>

lemma taken_same_core: "same_core db db1 \<Longrightarrow> taken region lid request row db1 db' \<Longrightarrow> taken region lid request row db db'"
  using lease_of_cong [of db1 db] by (auto simp: taken_def same_core_def)

lemma same_core_trans: "same_core db db1 \<Longrightarrow> same_core db1 db2 \<Longrightarrow> same_core db db2"
  by (simp add: same_core_def)

lemma acquire_first_cases:
  assumes "acquire_first region clk k lids request db = Inr (ok, db')"
  shows "same_core db db' \<and> (ok \<longrightarrow> (\<exists>lid r. map_of (lslots db) (lid, request) = Some (r, False))) \<or>
    ok \<and> (\<exists>lid row. taken region lid request row db db')"
  using assms
proof (induction lids arbitrary: k db)
  case Nil
  then show ?case by (simp add: same_core_def)
next
  case (Cons lid lids)
  obtain ok1 db1 where step: "local_AcquireTx region (clk k) lid request db = Inr (ok1, db1)"
    using Cons.prems by (auto split: sum.splits)
  show ?case
  proof (cases ok1)
    case True
    then have "ok" "db' = db1" using Cons.prems step by auto
    with step True show ?thesis by (cases rule: local_AcquireTx_cases) auto
  next
    case False
    from step False have same: "same_core db db1" by (cases rule: local_AcquireTx_cases) auto
    have "acquire_first region clk (Suc k) lids request db1 = Inr (ok, db')"
      using Cons.prems step False by simp
    moreover have "lslots db1 = lslots db" using same by (simp add: same_core_def)
    ultimately show ?thesis
      using Cons.IH same_core_trans [OF same] taken_same_core [OF same] by metis
  qed
qed

lemma local_AcquireResourceTx_cases:
  assumes "local_AcquireResourceTx order_by region clk r request db = Inr (ok, db')"
  shows "same_core db db' \<or> (\<exists>lid row. taken region lid request row db db')"
proof -
  obtain bs where bs: "lockBudget r (lbudgets db) = Inr bs"
    using assms by (auto simp: local_AcquireResourceTx_def split: if_splits sum.splits)
  let ?db = "db\<lparr>lbudgets := bs\<rparr>"
  have same: "same_core db ?db" by (simp add: same_core_def)
  consider "db' = ?db" | lid where "local_AcquireTx region (clk 0) lid request ?db = Inr (ok, db')"
    | lids where "acquire_first region clk 1 lids request ?db = Inr (ok, db')"
    using assms bs by (auto simp: local_AcquireResourceTx_def Let_def split: if_splits option.splits)
  then show ?thesis
  proof cases
    case 1
    then show ?thesis using same by simp
  next
    case 2
    then show ?thesis
      by (cases rule: local_AcquireTx_cases) (blast intro: same_core_trans [OF same] taken_same_core [OF same])+
  next
    case 3
    from acquire_first_cases [OF this] show ?thesis
      by (blast intro: same_core_trans [OF same] taken_same_core [OF same])
  qed
qed

definition freed :: "string \<Rightarrow> string \<Rightarrow> local_grant \<Rightarrow> Resource \<Rightarrow> local_db \<Rightarrow> local_db \<Rightarrow> bool" where
  "freed lid request row res db db' \<longleftrightarrow>
     map_of (lgrants db) lid = Some row \<and> map_of (lslots db) (lid, request) = Some (res, False) \<and>
     lgrants db' = tput lid (row\<lparr>lg_used := lg_used row - 1\<rparr>) (lgrants db) \<and>
     lslots db' = tput (lid, request) (res, True) (lslots db) \<and> set (lcancels db) \<subseteq> set (lcancels db')"

definition only_cancels :: "local_db \<Rightarrow> local_db \<Rightarrow> bool" where
  "only_cancels db db' \<longleftrightarrow> lgrants db' = lgrants db \<and> lslots db' = lslots db \<and> set (lcancels db) \<subseteq> set (lcancels db')"

lemma only_cancels_trans: "only_cancels db db1 \<Longrightarrow> only_cancels db1 db2 \<Longrightarrow> only_cancels db db2"
  by (auto simp: only_cancels_def)

lemma freed_only_cancels: "only_cancels db db1 \<Longrightarrow> freed lid request row res db1 db' \<Longrightarrow> freed lid request row res db db'"
  by (auto simp: only_cancels_def freed_def)

lemma local_ReleaseTx_cases:
  assumes "local_ReleaseTx region lid request db = Inr db'"
  shows "only_cancels db db' \<or> (\<exists>row res. freed lid request row res db db')"
proof -
  obtain r bs where r: "localResource lid region db = Inr r" "lockBudget r (lbudgets db) = Inr bs" "validRequest request"
    using assms by (auto simp: local_ReleaseTx_def Let_def split: if_splits sum.splits)
  show ?thesis
  proof (cases "map_of (lslots db) (lid, request)")
    case None
    then show ?thesis using assms r
      by (auto simp: local_ReleaseTx_def Let_def only_cancels_def split: sum.splits)
  next
    case (Some x)
    then show ?thesis using assms r
      by (cases x; cases "snd x")
         (auto simp: local_ReleaseTx_def Let_def only_cancels_def freed_def split: slot_splits)
  qed
qed

lemma local_ReleaseResourceTx_cases:
  assumes "local_ReleaseResourceTx region r request db = Inr db'"
  shows "only_cancels db db' \<or> (\<exists>lid row res. freed lid request row res db db')"
proof -
  obtain bs where bs: "lockBudget r (lbudgets db) = Inr bs" "validRequest request"
    using assms by (auto simp: local_ReleaseResourceTx_def Let_def split: if_splits sum.splits)
  let ?db = "db\<lparr>lbudgets := bs, lcancels := List.insert (region, r, request) (lcancels db)\<rparr>"
  have sub: "only_cancels db ?db" by (simp add: only_cancels_def subset_insertI)
  have "(case lease_in_region region r request ?db of
      None \<Rightarrow> Inr ?db | Some lid \<Rightarrow> local_ReleaseTx region lid request ?db) = Inr db'"
    using assms bs by (simp add: local_ReleaseResourceTx_def Let_def)
  then consider "db' = ?db" | lid where "local_ReleaseTx region lid request ?db = Inr db'"
    by (cases "lease_in_region region r request ?db") (simp_all del: set_insert)
  then show ?thesis
  proof cases
    case 1
    then show ?thesis using sub by simp
  next
    case 2
    from local_ReleaseTx_cases [OF this] show ?thesis
      using only_cancels_trans [OF sub] freed_only_cancels [OF sub] by blast
  qed
qed

definition installed :: "string \<Rightarrow> Grant \<Rightarrow> local_db \<Rightarrow> local_db \<Rightarrow> bool" where
  "installed region g db db' \<longleftrightarrow> Grant_Validate g = Inr () \<and> g_Region g = region \<and> map_of (lgrants db) (g_LeaseID g) = None \<and>
     lgrants db' = tput (g_LeaseID g) \<lparr>lg_payload = g, lg_region = g_Region g, lg_resource = g_Resource g,
        lg_slots = g_Slots g, lg_used = 0, lg_state = SlotOpen\<rparr> (lgrants db) \<and>
     lslots db' = lslots db \<and> lcancels db' = lcancels db"

definition renewed :: "string \<Rightarrow> Grant \<Rightarrow> local_grant \<Rightarrow> local_db \<Rightarrow> local_db \<Rightarrow> bool" where
  "renewed region g row db db' \<longleftrightarrow> Grant_Validate g = Inr () \<and> map_of (lgrants db) (g_LeaseID g) = Some row \<and>
     lg_region row = region \<and> sameIdentity (lg_payload row) g \<and> g_Revision (lg_payload row) < g_Revision g \<and>
     lg_state row = SlotOpen \<and> g_ExpiresAt (lg_payload row) < g_ExpiresAt g \<and>
     lgrants db' = tput (g_LeaseID g) (row\<lparr>lg_payload := g\<rparr>) (lgrants db) \<and>
     lslots db' = lslots db \<and> lcancels db' = lcancels db"

lemma local_Install_cases:
  assumes "local_Install region g db = Commit db' res"
  shows "Grant_Validate g = Inr () \<and> g_Region g = region \<and>
    (same_core db db' \<or> installed region g db db' \<or> (\<exists>row. renewed region g row db db'))"
proof -
  have g: "Grant_Validate g = Inr ()" "g_Region g = region"
    using assms by (auto simp: local_Install_def split: if_splits sum.splits)
  show ?thesis
  proof (cases "map_of (lgrants db) (g_LeaseID g)")
    case None
    then show ?thesis using assms g
      by (auto simp: local_Install_def Let_def localGrant_def map_of_tput installed_def split: if_splits)
  next
    case (Some row)
    then show ?thesis using assms g
      by (auto simp: local_Install_def Let_def localGrant_def renewed_def same_core_def time_defs
          split: if_splits sum.splits)
  qed
qed

definition restated :: "string \<Rightarrow> string \<Rightarrow> local_grant \<Rightarrow> slot_state \<Rightarrow> local_db \<Rightarrow> local_db \<Rightarrow> bool" where
  "restated region lid row st db db' \<longleftrightarrow> map_of (lgrants db) lid = Some row \<and> lg_region row = region \<and>
     (st = SlotDraining \<and> lg_state row \<noteq> SlotClosed \<or> st = SlotClosed \<and> lg_state row \<noteq> SlotOpen \<and> lg_used row = 0) \<and>
     db' = db\<lparr>lgrants := tput lid (row\<lparr>lg_state := st\<rparr>) (lgrants db)\<rparr>"

lemma local_Drain_cases: "local_Drain region lid db = Commit db' res \<Longrightarrow> \<exists>row. restated region lid row SlotDraining db db'"
  by (auto simp: local_Drain_def localGrant_Inr set_local_state_def restated_def split: if_splits sum.splits)

lemma local_Close_cases:
  "local_Close region lid db = Commit db' res \<Longrightarrow>
    \<exists>row. restated region lid row SlotClosed db db' \<and>
      res = Inr \<lparr>rc_LeaseID = lid, rc_Region = region, rc_Revision = g_Revision (lg_payload row)\<rparr>"
  by (auto simp: local_Close_def localGrant_Inr set_local_state_def restated_def split: if_splits sum.splits)

lemma local_step_elim [consumes 1, case_names cancels install renew take free restate]:
  assumes "local_step region db db'"
  obtains "only_cancels db db'"
  | g where "installed region g db db'"
  | g row where "renewed region g row db db'"
  | lid request row where "taken region lid request row db db'"
  | lid request row res where "freed lid request row res db db'"
  | lid row st where "restated region lid row st db db'"
proof -
  have only: "only_cancels db db'" if "same_core db db'" using that by (simp add: only_cancels_def same_core_def)
  from assms show ?thesis
  proof (cases rule: local_step.cases)
    case ls_same
    then show ?thesis using that(1) by (simp add: only_cancels_def)
  next
    case (ls_install g)
    then show ?thesis using that(1-3) only local_Install_cases by blast
  next
    case (ls_acquire now lid request)
    then obtain ok where "local_AcquireTx region now lid request db = Inr (ok, db')"
      by (auto simp: local_Acquire_def split: sum.splits prod.splits)
    then show ?thesis by (cases rule: local_AcquireTx_cases) (use that(1,4) only in blast)+
  next
    case (ls_release lid request)
    then have "local_ReleaseTx region lid request db = Inr db'"
      by (auto simp: local_Release_def split: sum.splits)
    then show ?thesis using local_ReleaseTx_cases that(1,5) by blast
  next
    case (ls_drain lid)
    then show ?thesis using local_Drain_cases that(6) by blast
  next
    case (ls_close lid)
    then show ?thesis using local_Close_cases that(6) by blast
  next
    case (ls_acquire_resource order_by clk r request)
    then obtain ok where "local_AcquireResourceTx order_by region clk r request db = Inr (ok, db')"
      by (auto simp: local_AcquireResource_def split: sum.splits prod.splits)
    then show ?thesis using local_AcquireResourceTx_cases that(1,4) only by blast
  next
    case (ls_release_resource r request)
    then have "local_ReleaseResourceTx region r request db = Inr db'"
      by (auto simp: local_ReleaseResource_def split: sum.splits)
    then show ?thesis using local_ReleaseResourceTx_cases that(1,5) by blast
  qed
qed

section \<open>The invariant is kept\<close>

text \<open>The parts of the invariant as rules over table look-ups.\<close>

definition row_ok :: "string \<Rightarrow> (string \<times> string, Resource \<times> bool) table \<Rightarrow> string \<Rightarrow> local_grant \<Rightarrow> bool" where
  "row_ok region slots lid row \<longleftrightarrow> Grant_Validate (lg_payload row) = Inr () \<and>
     g_LeaseID (lg_payload row) = lid \<and> g_Region (lg_payload row) = region \<and> lg_region row = region \<and>
     g_Resource (lg_payload row) = lg_resource row \<and> g_Slots (lg_payload row) = lg_slots row \<and>
     lg_used row = tsum (held_weight lid) slots \<and> lg_used row \<le> lg_slots row \<and>
     (lg_state row = SlotClosed \<longrightarrow> lg_used row = 0)"

lemma local_inv_alt:
  "local_inv region db \<longleftrightarrow>
     distinct (map fst (lgrants db)) \<and> distinct (map fst (lslots db)) \<and>
     (\<forall>lid row. map_of (lgrants db) lid = Some row \<longrightarrow> row_ok region (lslots db) lid row) \<and>
     (\<forall>lid request r released. map_of (lslots db) (lid, request) = Some (r, released) \<longrightarrow>
        (\<exists>row. map_of (lgrants db) lid = Some row \<and> lg_resource row = r)) \<and>
     (\<forall>lid lid' request r b b'. map_of (lslots db) (lid, request) = Some (r, b) \<longrightarrow>
        map_of (lslots db) (lid', request) = Some (r, b') \<longrightarrow> lid = lid')"
  by (cases "distinct (map fst (lgrants db))"; cases "distinct (map fst (lslots db))")
     (simp_all add: local_inv_def row_ok_def)

lemma local_inv_row: "local_inv region db \<Longrightarrow> map_of (lgrants db) lid = Some row \<Longrightarrow> row_ok region (lslots db) lid row"
  by (simp add: local_inv_alt)

lemma local_inv_owner:
  "local_inv region db \<Longrightarrow> map_of (lslots db) (lid, request) = Some (r, b) \<Longrightarrow>
     \<exists>row. map_of (lgrants db) lid = Some row \<and> lg_resource row = r"
  unfolding local_inv_alt by blast

lemma local_inv_unique:
  "local_inv region db \<Longrightarrow> map_of (lslots db) (lid, request) = Some (r, b) \<Longrightarrow>
     map_of (lslots db) (lid', request) = Some (r, b') \<Longrightarrow> lid = lid'"
  unfolding local_inv_alt by blast

lemma lease_of_None:
  assumes "lease_of r request db = None"
  shows "map_of (lslots db) (lid, request) \<noteq> Some (r, b)"
proof
  assume "map_of (lslots db) (lid, request) = Some (r, b)"
  then have "((lid, request), (r, b)) \<in> set (lslots db)" by (rule map_of_SomeD)
  then obtain x xs where "filter (\<lambda>((lid, rid), (r', released)). r' = r \<and> rid = request) (lslots db) = x # xs"
    by (metis (mono_tags, lifting) case_prod_conv filter_empty_conv neq_Nil_conv)
  then have "lease_of r request db = Some (fst (fst x))" by (simp add: lease_of_def split: prod.splits)
  then show False using assms by simp
qed

lemma held_weight_new: "map_of slots (lid, request) = None \<Longrightarrow>
  tsum (held_weight l) (tput (lid, request) (r, False) slots) = tsum (held_weight l) slots + (if l = lid then 1 else 0)"
  by (simp add: tsum_tput held_weight_def)

lemma held_weight_free: "map_of slots (lid, request) = Some (r, False) \<Longrightarrow>
  tsum (held_weight l) (tput (lid, request) (r, True) slots) = tsum (held_weight l) slots - (if l = lid then 1 else 0)"
  by (simp add: tsum_tput held_weight_def)

lemma held_weight_nonneg: "0 \<le> tsum (held_weight l) slots"
  by (rule tsum_nonneg) (auto simp: held_weight_def split: prod.splits)

text \<open>
  Writing one grant row under an unchanged or matching slot table keeps the invariant, provided the new
  row is well formed for the new slots and the other rows are not affected.
\<close>

lemma local_inv_put:
  assumes inv: "local_inv region db"
    and g: "lgrants db' = tput lid row' (lgrants db)" "row_ok region (lslots db') lid row'"
    and slots: "distinct (map fst (lslots db'))"
      "\<And>l. l \<noteq> lid \<Longrightarrow> tsum (held_weight l) (lslots db') = tsum (held_weight l) (lslots db)"
    and owner: "\<And>l q r b. map_of (lslots db') (l, q) = Some (r, b) \<Longrightarrow>
        \<exists>row. map_of (lgrants db') l = Some row \<and> lg_resource row = r"
    and unique: "\<And>l l' q r b b'. map_of (lslots db') (l, q) = Some (r, b) \<Longrightarrow>
        map_of (lslots db') (l', q) = Some (r, b') \<Longrightarrow> l = l'"
  shows "local_inv region db'"
proof -
  have "row_ok region (lslots db') l row" if "map_of (lgrants db') l = Some row" for l row
  proof (cases "l = lid")
    case True
    then show ?thesis using that g by (simp add: map_of_tput)
  next
    case False
    then have "row_ok region (lslots db) l row" using that inv by (simp add: g map_of_tput local_inv_alt)
    then show ?thesis unfolding row_ok_def slots(2) [OF False] .
  qed
  moreover have "distinct (map fst (lgrants db'))" using inv by (simp add: local_inv_alt g table_simps)
  ultimately show ?thesis unfolding local_inv_alt using slots owner unique by blast
qed

lemma local_inv_same_slots:
  assumes inv: "local_inv region db" and slots: "lslots db' = lslots db"
    and g: "lgrants db' = tput lid row' (lgrants db)" "row_ok region (lslots db) lid row'"
    and res: "\<And>row. map_of (lgrants db) lid = Some row \<Longrightarrow> lg_resource row' = lg_resource row"
  shows "local_inv region db'"
proof (rule local_inv_put [OF inv g(1)])
  fix l q r b
  assume "map_of (lslots db') (l, q) = Some (r, b)"
  then obtain row where "map_of (lgrants db) l = Some row" "lg_resource row = r"
    using local_inv_owner [OF inv] unfolding slots by blast
  then show "\<exists>row. map_of (lgrants db') l = Some row \<and> lg_resource row = r"
    using res by (cases "l = lid") (auto simp: g map_of_tput)
qed (use inv g(2) local_inv_unique [OF inv] in \<open>auto simp: local_inv_def slots simp del: map_of_eq_Some_iff\<close>)

lemma installed_inv:
  assumes "installed region g db db'" "local_inv region db"
  shows "local_inv region db'"
proof (rule local_inv_same_slots [OF assms(2)])
  have none: "map_of (lgrants db) (g_LeaseID g) = None" using assms(1) by (simp add: installed_def)
  have dist: "distinct (map fst (lslots db))" using assms(2) by (simp add: local_inv_def)
  have "held_weight (g_LeaseID g) k v = 0" if "(k, v) \<in> set (lslots db)" for k v
  proof -
    have "map_of (lslots db) (fst k, snd k) = Some (fst v, snd v)" using that dist by simp
    from local_inv_owner [OF assms(2) this] none show ?thesis
      by (auto simp: held_weight_def split: prod.splits)
  qed
  then have "tsum (held_weight (g_LeaseID g)) (lslots db) = tsum (\<lambda>_ _. 0) (lslots db)" by (rule tsum_cong)
  also have "\<dots> = 0" by simp
  finally show "row_ok region (lslots db) (g_LeaseID g) \<lparr>lg_payload = g, lg_region = g_Region g,
      lg_resource = g_Resource g, lg_slots = g_Slots g, lg_used = 0, lg_state = SlotOpen\<rparr>"
    using assms(1) Grant_Validate_slots by (auto simp: row_ok_def installed_def less_imp_le)
qed (use assms(1) in \<open>auto simp: installed_def\<close>)

lemma renewed_inv:
  assumes "renewed region g row db db'" "local_inv region db"
  shows "local_inv region db'"
proof (rule local_inv_same_slots [OF assms(2)])
  have "row_ok region (lslots db) (g_LeaseID g) row"
    using assms by (auto simp: renewed_def dest: local_inv_row)
  then show "row_ok region (lslots db) (g_LeaseID g) (row\<lparr>lg_payload := g\<rparr>)"
    using assms(1) by (auto simp: row_ok_def renewed_def sameIdentity_def)
qed (use assms(1) in \<open>auto simp: renewed_def\<close>)

lemma restated_inv:
  assumes "restated region lid row st db db'" "local_inv region db"
  shows "local_inv region db'"
proof (rule local_inv_same_slots [OF assms(2)])
  have "row_ok region (lslots db) lid row" using assms by (auto simp: restated_def dest: local_inv_row)
  then show "row_ok region (lslots db) lid (row\<lparr>lg_state := st\<rparr>)"
    using assms(1) by (auto simp: row_ok_def restated_def)
qed (use assms(1) in \<open>auto simp: restated_def\<close>)

lemma taken_inv:
  assumes t: "taken region lid request row db db'" and inv: "local_inv region db"
  shows "local_inv region db'"
proof -
  note t = t [unfolded taken_def]
  let ?r = "g_Resource (lg_payload row)"
  have ok: "row_ok region (lslots db) lid row" using t inv by (auto dest: local_inv_row)
  have res: "?r = lg_resource row" using ok by (simp add: row_ok_def)
  have none: "map_of (lslots db) (lid, request) = None" using t by blast
  have dist: "distinct (map fst (lslots db))" using inv by (simp add: local_inv_alt)
  have free: "map_of (lslots db) (l, request) \<noteq> Some (?r, b)" for l b
    using lease_of_None t by blast
  show ?thesis
  proof (rule local_inv_put [OF inv])
    show "lgrants db' = tput lid (row\<lparr>lg_used := lg_used row + 1\<rparr>) (lgrants db)" using t by blast
    show "row_ok region (lslots db') lid (row\<lparr>lg_used := lg_used row + 1\<rparr>)"
      using ok t by (simp add: row_ok_def held_weight_new)
    show "distinct (map fst (lslots db'))" using dist t by (simp add: table_simps)
    show "tsum (held_weight l) (lslots db') = tsum (held_weight l) (lslots db)" if "l \<noteq> lid" for l
      using t that by (simp add: held_weight_new)
    show "\<exists>row. map_of (lgrants db') l = Some row \<and> lg_resource row = r"
      if slot: "map_of (lslots db') (l, q) = Some (r, b)" for l q r b
    proof (cases "(l, q) = (lid, request)")
      case True
      then show ?thesis using slot t res by (simp add: map_of_tput)
    next
      case False
      then obtain row1 where "map_of (lgrants db) l = Some row1" "lg_resource row1 = r"
        using slot t local_inv_owner [OF inv, of l q r b] by (auto simp: map_of_tput simp del: map_of_eq_Some_iff)
      then show ?thesis using t by (cases "l = lid") (auto simp: map_of_tput)
    qed
    show "l = l'" if "map_of (lslots db') (l, q) = Some (r, b)" "map_of (lslots db') (l', q) = Some (r, b')"
      for l l' q r b b'
      using that t free local_inv_unique [OF inv, of l q r b l' b']
      by (auto simp: map_of_tput simp del: map_of_eq_Some_iff split: if_splits)
  qed
qed

lemma freed_inv:
  assumes f: "freed lid request row res db db'" and inv: "local_inv region db"
  shows "local_inv region db'"
proof -
  note f = f [unfolded freed_def]
  have ok: "row_ok region (lslots db) lid row" using f inv by (auto dest: local_inv_row)
  show ?thesis
  proof (rule local_inv_put [OF inv])
    show "lgrants db' = tput lid (row\<lparr>lg_used := lg_used row - 1\<rparr>) (lgrants db)" using f by blast
    have "0 \<le> lg_used row - 1"
      using ok f held_weight_nonneg [of lid "lslots db'"] by (simp add: row_ok_def held_weight_free)
    then show "row_ok region (lslots db') lid (row\<lparr>lg_used := lg_used row - 1\<rparr>)"
      using ok f by (auto simp: row_ok_def held_weight_free)
    show "distinct (map fst (lslots db'))" using inv f by (simp add: local_inv_alt table_simps)
    show "tsum (held_weight l) (lslots db') = tsum (held_weight l) (lslots db)" if "l \<noteq> lid" for l
      using f that by (simp add: held_weight_free)
    show "\<exists>row. map_of (lgrants db') l = Some row \<and> lg_resource row = r"
      if slot: "map_of (lslots db') (l, q) = Some (r, b)" for l q r b
    proof -
      obtain b0 where "map_of (lslots db) (l, q) = Some (r, b0)"
        using slot f by (auto simp: map_of_tput simp del: map_of_eq_Some_iff split: if_splits)
      then obtain row1 where "map_of (lgrants db) l = Some row1" "lg_resource row1 = r"
        using local_inv_owner [OF inv] by blast
      then show ?thesis using f by (cases "l = lid") (auto simp: map_of_tput)
    qed
    show "l = l'" if "map_of (lslots db') (l, q) = Some (r, b)" "map_of (lslots db') (l', q) = Some (r, b')"
      for l l' q r b b'
    proof -
      have "\<exists>b0. map_of (lslots db) (l1, q) = Some (r, b0)" if "map_of (lslots db') (l1, q) = Some (r, b1)" for l1 b1
        using that f by (auto simp: map_of_tput simp del: map_of_eq_Some_iff split: if_splits)
      then show ?thesis using that local_inv_unique [OF inv] by blast
    qed
  qed
qed

lemma only_cancels_inv:
  assumes "only_cancels db db'" "local_inv region db"
  shows "local_inv region db'"
proof -
  have eq: "lgrants db' = lgrants db" "lslots db' = lslots db" using assms(1) by (simp_all add: only_cancels_def)
  show ?thesis using assms(2) unfolding local_inv_def eq .
qed

lemmas local_inv_rules = only_cancels_inv installed_inv renewed_inv restated_inv taken_inv freed_inv

lemma local_step_inv: "local_step region db db' \<Longrightarrow> local_inv region db \<Longrightarrow> local_inv region db'"
  by (cases rule: local_step_elim, assumption) (blast intro: local_inv_rules)+

lemma local_inv_empty: "local_inv region empty_local"
  by (simp add: local_inv_def empty_local_def)

end
