(* ===== verification/SlotSystem.thy ===== *)
theory SlotSystem
  imports SlotsLocal
begin

text \<open>
  The slot protocol as a whole: one authority database, one database per region, and the messages
  between them. A region installs only grants the authority has confirmed (\<open>tokens\<close>), and the
  authority closes a grant only on a receipt a region has emitted (\<open>receipts\<close>); both may be delayed,
  duplicated and reordered arbitrarily. Every operation may suffer any database fault.
\<close>

record slot_sys =
  sys_auth :: authority
  sys_local :: "string \<Rightarrow> local_db"
  sys_tokens :: "Grant set"
  sys_receipts :: "slot_receipt set"

definition init_slot_sys :: slot_sys where
  "init_slot_sys = \<lparr>sys_auth = empty_authority, sys_local = (\<lambda>_. empty_local), sys_tokens = {}, sys_receipts = {}\<rparr>"

abbreviation upd_local :: "slot_sys \<Rightarrow> string \<Rightarrow> local_db \<Rightarrow> slot_sys" where
  "upd_local s region db \<equiv> s\<lparr>sys_local := (sys_local s)(region := db)\<rparr>"

inductive sys_step :: "(Resource \<Rightarrow> int) \<Rightarrow> slot_sys \<Rightarrow> slot_sys \<Rightarrow> bool" for L where
  sy_issue: "limit_within L p \<Longrightarrow> run_tx flt SlotDB (slot_Issue p now g) (sys_auth s) = (res, a) \<Longrightarrow>
     sys_step L s (s\<lparr>sys_auth := a, sys_tokens := sys_tokens s \<union> (if res = Inr () then {g} else {})\<rparr>)"
| sy_renew: "limit_within L p \<Longrightarrow> run_tx flt SlotDB (slot_Renew p now g) (sys_auth s) = (res, a) \<Longrightarrow>
     sys_step L s (s\<lparr>sys_auth := a, sys_tokens := sys_tokens s \<union> (if res = Inr () then {g} else {})\<rparr>)"
| sy_acquire: "limit_within L p \<Longrightarrow> run_tx flt SlotDB (slot_Acquire p r rid) (sys_auth s) = (ok, a) \<Longrightarrow>
     sys_step L s (s\<lparr>sys_auth := a\<rparr>)"
| sy_release: "run_tx flt SlotDB (slot_Release r rid) (sys_auth s) = (res, a) \<Longrightarrow> sys_step L s (s\<lparr>sys_auth := a\<rparr>)"
| sy_begin_drain: "run_tx flt SlotDB (slot_BeginDrain region lid) (sys_auth s) = (res, a) \<Longrightarrow>
     sys_step L s (s\<lparr>sys_auth := a\<rparr>)"
| sy_close: "receipt \<in> sys_receipts s \<Longrightarrow> run_tx flt SlotDB (slot_Close region receipt) (sys_auth s) = (res, a) \<Longrightarrow>
     sys_step L s (s\<lparr>sys_auth := a\<rparr>)"
| sy_install: "g \<in> sys_tokens s \<Longrightarrow> run_tx flt SlotDB (local_Install region g) (sys_local s region) = (res, d) \<Longrightarrow>
     sys_step L s (upd_local s region d)"
| sy_local_acquire: "run_tx flt SlotDB (local_Acquire region now lid request) (sys_local s region) = (ok, d) \<Longrightarrow>
     sys_step L s (upd_local s region d)"
| sy_local_release: "run_tx flt SlotDB (local_Release region lid request) (sys_local s region) = (res, d) \<Longrightarrow>
     sys_step L s (upd_local s region d)"
| sy_local_drain: "run_tx flt SlotDB (local_Drain region lid) (sys_local s region) = (res, d) \<Longrightarrow>
     sys_step L s (upd_local s region d)"
| sy_local_close: "run_tx flt SlotDB (local_Close region lid) (sys_local s region) = (rc, d) \<Longrightarrow>
     sys_step L s (upd_local s region d\<lparr>sys_receipts := sys_receipts s \<union> (case rc of Inr x \<Rightarrow> {x} | Inl _ \<Rightarrow> {})\<rparr>)"
| sy_local_acquire_resource:
    "run_tx flt SlotDB (local_AcquireResource order_by region clk r request) (sys_local s region) = (ok, d) \<Longrightarrow>
     sys_step L s (upd_local s region d)"
| sy_local_release_resource:
    "run_tx flt SlotDB (local_ReleaseResource region r request) (sys_local s region) = (res, d) \<Longrightarrow>
     sys_step L s (upd_local s region d)"

inductive sys_reach :: "(Resource \<Rightarrow> int) \<Rightarrow> slot_sys \<Rightarrow> bool" for L where
  sr_start: "sys_reach L init_slot_sys"
| sr_step: "sys_reach L s \<Longrightarrow> sys_step L s s' \<Longrightarrow> sys_reach L s'"

text \<open>The requests that hold a slot of a resource: on the primary, and in any region under any lease.\<close>

definition primary_inflight :: "slot_sys \<Rightarrow> Resource \<Rightarrow> string set" where
  "primary_inflight s r = {rid. slot_Held r rid (sys_auth s)}"

definition regional_inflight :: "slot_sys \<Rightarrow> Resource \<Rightarrow> (string \<times> string \<times> string) set" where
  "regional_inflight s r = {(region, lid, request). map_of (lslots (sys_local s region)) (lid, request) = Some (r, False)}"

text \<open>
  The invariant that ties the two sides together: confirmed grants and local rows have the identity of
  an authority grant, a receipt stands for a closed local row, and a grant closed at the authority is
  closed in its region.
\<close>

definition known :: "slot_sys \<Rightarrow> Grant \<Rightarrow> bool" where
  "known s g \<longleftrightarrow> (\<exists>g0 st. map_of (agrants (sys_auth s)) (g_LeaseID g) = Some (g0, st) \<and> sameIdentity g0 g)"

definition locally_closed :: "slot_sys \<Rightarrow> string \<Rightarrow> string \<Rightarrow> bool" where
  "locally_closed s region lid \<longleftrightarrow>
     (\<exists>row. map_of (lgrants (sys_local s region)) lid = Some row \<and> lg_state row = SlotClosed)"

definition sys_inv :: "slot_sys \<Rightarrow> bool" where
  "sys_inv s \<longleftrightarrow> authority_inv (sys_auth s) \<and> (\<forall>region. local_inv region (sys_local s region)) \<and>
     (\<forall>g \<in> sys_tokens s. known s g) \<and>
     (\<forall>region lid row. map_of (lgrants (sys_local s region)) lid = Some row \<longrightarrow> known s (lg_payload row)) \<and>
     (\<forall>rc \<in> sys_receipts s. locally_closed s (rc_Region rc) (rc_LeaseID rc)) \<and>
     (\<forall>lid g. map_of (agrants (sys_auth s)) lid = Some (g, SlotClosed) \<longrightarrow> locally_closed s (g_Region g) lid)"

section \<open>Authority steps\<close>

lemma sameIdentity_refl [simp]: "sameIdentity g g"
  by (simp add: sameIdentity_def)

lemma sameIdentity_trans: "sameIdentity a b \<Longrightarrow> sameIdentity b c \<Longrightarrow> sameIdentity a c"
  by (simp add: sameIdentity_def)

lemma sameIdentity_sym: "sameIdentity a b \<Longrightarrow> sameIdentity b a"
  by (simp add: sameIdentity_def)

text \<open>No operation drops a grant or changes its identity, and only \<open>Close\<close> closes one.\<close>

definition grants_kept :: "string set \<Rightarrow> authority \<Rightarrow> authority \<Rightarrow> bool" where
  "grants_kept closing db db' \<longleftrightarrow>
     (\<forall>lid g st. map_of (agrants db) lid = Some (g, st) \<longrightarrow>
        (\<exists>g' st'. map_of (agrants db') lid = Some (g', st') \<and> sameIdentity g' g)) \<and>
     (\<forall>lid g. map_of (agrants db') lid = Some (g, SlotClosed) \<longrightarrow>
        lid \<in> closing \<or> (\<exists>g0. map_of (agrants db) lid = Some (g0, SlotClosed) \<and> sameIdentity g0 g))"

lemma grants_kept_refl [simp]: "agrants db' = agrants db \<Longrightarrow> grants_kept closing db db'"
  by (auto simp: grants_kept_def)

lemma grants_kept_put:
  assumes "agrants db' = tput lid (g, st) (agrants db)"
    "\<And>g0 st0. map_of (agrants db) lid = Some (g0, st0) \<Longrightarrow> sameIdentity g g0" "st = SlotClosed \<Longrightarrow> lid \<in> closing"
  shows "grants_kept closing db db'"
  using assms by (auto simp: grants_kept_def map_of_tput)

lemma slot_Issue_kept: "slot_Issue p now g db = Commit db' res \<Longrightarrow> grants_kept {} db db'"
  by (cases rule: slot_Issue_commit, assumption) (auto intro: grants_kept_put)

lemma slot_Acquire_kept: "slot_Acquire p r rid db = Commit db' res \<Longrightarrow> grants_kept {} db db'"
  by (cases rule: slot_Acquire_commit, assumption) auto

lemma slot_Release_kept: "slot_Release r rid db = Commit db' res \<Longrightarrow> grants_kept {} db db'"
  by (cases rule: slot_Release_commit, assumption) auto

lemma slot_Renew_kept: "slot_Renew p now g db = Commit db' res \<Longrightarrow> grants_kept {} db db'"
  by (cases rule: slot_Renew_commit, assumption) (auto intro!: grants_kept_put intro: sameIdentity_sym)

lemma slot_BeginDrain_kept:
  assumes "slot_BeginDrain region lid db = Commit db' res"
  shows "grants_kept {} db db'"
  using assms
proof (cases rule: slot_BeginDrain_commit)
  case (1 g state)
  then show ?thesis
    by (cases "state = SlotOpen") (auto intro!: grants_kept_put [of _ lid g SlotDraining])
qed

lemma slot_Close_kept:
  assumes "slot_Close region receipt db = Commit db' res" "authority_inv db"
  shows "grants_kept {rc_LeaseID receipt} db db'"
  using assms(1)
proof (cases rule: slot_Close_commit)
  case (1 g)
  have "g_LeaseID g = rc_LeaseID receipt" using assms(2) 1(1) by (rule authority_inv_grant)
  with 1 show ?thesis by (auto intro!: grants_kept_put [of _ "rc_LeaseID receipt" g SlotClosed])
qed

lemma sys_inv_auth:
  assumes inv: "sys_inv s" and a: "authority_inv a" "grants_kept closing (sys_auth s) a"
    and closing: "\<And>lid g. lid \<in> closing \<Longrightarrow> map_of (agrants a) lid = Some (g, SlotClosed) \<Longrightarrow> locally_closed s (g_Region g) lid"
  shows "sys_inv (s\<lparr>sys_auth := a\<rparr>)"
proof -
  let ?s = "s\<lparr>sys_auth := a\<rparr>"
  have kept: "known ?s g" if "known s g" for g
    using that a(2) unfolding known_def grants_kept_def by simp (meson sameIdentity_trans)
  have same: "locally_closed ?s = locally_closed s" by (auto simp: fun_eq_iff locally_closed_def)
  have "locally_closed s (g_Region g) lid" if row: "map_of (agrants a) lid = Some (g, SlotClosed)" for lid g
  proof (cases "lid \<in> closing")
    case True
    then show ?thesis using row by (rule closing)
  next
    case False
    then obtain g0 where "map_of (agrants (sys_auth s)) lid = Some (g0, SlotClosed)" "g_Region g0 = g_Region g"
      using row a(2) unfolding grants_kept_def sameIdentity_def by blast
    moreover from this(1) have "locally_closed s (g_Region g0) lid" using inv unfolding sys_inv_def by blast
    ultimately show ?thesis by simp
  qed
  then show ?thesis
    using inv kept a(1) unfolding sys_inv_def same by simp
qed

text \<open>Lifting to a call: the tables after any fault are the old ones or the committed ones.\<close>

lemma sys_inv_auth_call:
  assumes inv: "sys_inv s" and run: "run_tx flt SlotDB op (sys_auth s) = (res, a)"
    and ok: "\<And>a res. op (sys_auth s) = Commit a res \<Longrightarrow> authority_inv a \<and> grants_kept {} (sys_auth s) a"
  shows "sys_inv (s\<lparr>sys_auth := a\<rparr>)"
  using run
proof (cases rule: run_tx_cases)
  case same
  then show ?thesis using inv by simp
next
  case (commit r)
  from ok [OF this] show ?thesis by (intro sys_inv_auth [OF inv, where closing = "{}"]) auto
qed

section \<open>Regional steps\<close>

definition rows_kept :: "local_db \<Rightarrow> local_db \<Rightarrow> bool" where
  "rows_kept db db' \<longleftrightarrow>
     (\<forall>lid row'. map_of (lgrants db') lid = Some row' \<longrightarrow>
        (\<exists>row. map_of (lgrants db) lid = Some row \<and> lg_payload row' = lg_payload row)) \<and>
     (\<forall>lid row. map_of (lgrants db) lid = Some row \<longrightarrow> lg_state row = SlotClosed \<longrightarrow>
        (\<exists>row'. map_of (lgrants db') lid = Some row' \<and> lg_state row' = SlotClosed))"

lemma rows_kept_simple:
  "same_core db db' \<Longrightarrow> rows_kept db db'" "only_cancels db db' \<Longrightarrow> rows_kept db db'"
  "taken region lid request row db db' \<Longrightarrow> rows_kept db db'"
  "freed lid request row res db db' \<Longrightarrow> rows_kept db db'"
  "restated region lid row st db db' \<Longrightarrow> rows_kept db db'"
  by (auto simp: rows_kept_def same_core_def only_cancels_def taken_def freed_def restated_def map_of_tput
      simp del: map_of_eq_Some_iff)

lemma local_Acquire_kept:
  assumes "local_Acquire region now lid request db = Commit db' res"
  shows "local_step region db db' \<and> rows_kept db db'"
proof -
  obtain ok where "local_AcquireTx region now lid request db = Inr (ok, db')"
    using assms by (auto simp: local_Acquire_def split: sum.splits prod.splits)
  then have "rows_kept db db'" by (cases rule: local_AcquireTx_cases) (auto intro: rows_kept_simple)
  then show ?thesis using assms by (auto intro: local_step.intros)
qed

lemma local_AcquireResource_kept:
  assumes "local_AcquireResource order_by region clk r request db = Commit db' res"
  shows "local_step region db db' \<and> rows_kept db db'"
proof -
  obtain ok where "local_AcquireResourceTx order_by region clk r request db = Inr (ok, db')"
    using assms by (auto simp: local_AcquireResource_def split: sum.splits prod.splits)
  from local_AcquireResourceTx_cases [OF this] have "rows_kept db db'" by (auto intro: rows_kept_simple)
  then show ?thesis using assms by (auto intro: local_step.intros)
qed

lemma local_Release_kept:
  assumes "local_Release region lid request db = Commit db' res"
  shows "local_step region db db' \<and> rows_kept db db'"
proof -
  have "local_ReleaseTx region lid request db = Inr db'"
    using assms by (auto simp: local_Release_def split: sum.splits)
  from local_ReleaseTx_cases [OF this] have "rows_kept db db'" by (auto intro: rows_kept_simple)
  then show ?thesis using assms by (auto intro: local_step.intros)
qed

lemma local_ReleaseResource_kept:
  assumes "local_ReleaseResource region r request db = Commit db' res"
  shows "local_step region db db' \<and> rows_kept db db'"
proof -
  have "local_ReleaseResourceTx region r request db = Inr db'"
    using assms by (auto simp: local_ReleaseResource_def split: sum.splits)
  from local_ReleaseResourceTx_cases [OF this] have "rows_kept db db'" by (auto intro: rows_kept_simple)
  then show ?thesis using assms by (auto intro: local_step.intros)
qed

lemma local_Drain_kept: "local_Drain region lid db = Commit db' res \<Longrightarrow> local_step region db db' \<and> rows_kept db db'"
  using local_Drain_cases rows_kept_simple(5) ls_drain by blast

lemma local_Close_kept: "local_Close region lid db = Commit db' res \<Longrightarrow> local_step region db db' \<and> rows_kept db db'"
  using local_Close_cases rows_kept_simple(5) ls_close by blast

lemma sys_inv_local:
  assumes inv: "sys_inv s" and d: "local_inv region d"
    and rows: "\<And>lid row. map_of (lgrants d) lid = Some row \<Longrightarrow> known s (lg_payload row)"
    and closed: "\<And>lid. locally_closed s region lid \<Longrightarrow> \<exists>row. map_of (lgrants d) lid = Some row \<and> lg_state row = SlotClosed"
  shows "sys_inv (upd_local s region d)"
proof -
  let ?s = "upd_local s region d"
  have "locally_closed ?s reg lid" if "locally_closed s reg lid" for reg lid
    using that closed by (cases "reg = region") (auto simp: locally_closed_def simp del: map_of_eq_Some_iff)
  moreover have "known ?s g = known s g" for g by (simp add: known_def)
  ultimately show ?thesis
    using inv d rows unfolding sys_inv_def by (auto simp del: map_of_eq_Some_iff)
qed

lemma sys_inv_local_call:
  assumes inv: "sys_inv s" and run: "run_tx flt SlotDB op (sys_local s region) = (res, d)"
    and ok: "\<And>d res. op (sys_local s region) = Commit d res \<Longrightarrow>
      local_step region (sys_local s region) d \<and> rows_kept (sys_local s region) d"
  shows "sys_inv (upd_local s region d)"
  using run
proof (cases rule: run_tx_cases)
  case same
  then show ?thesis using inv by simp
next
  case (commit r)
  have step: "local_step region (sys_local s region) d" and kept: "rows_kept (sys_local s region) d"
    using ok [OF commit] by auto
  show ?thesis
  proof (rule sys_inv_local [OF inv])
    show "local_inv region d" using step inv local_step_inv by (auto simp: sys_inv_def)
    show "known s (lg_payload row)" if "map_of (lgrants d) lid = Some row" for lid row
      using that kept inv unfolding rows_kept_def sys_inv_def by metis
    show "\<exists>row. map_of (lgrants d) lid = Some row \<and> lg_state row = SlotClosed" if "locally_closed s region lid" for lid
      using that kept unfolding rows_kept_def locally_closed_def by blast
  qed
qed

text \<open>Installing a confirmed grant: a new row cannot belong to a grant already closed.\<close>

lemma sys_inv_install:
  assumes inv: "sys_inv s" and tok: "g \<in> sys_tokens s"
    and run: "run_tx flt SlotDB (local_Install region g) (sys_local s region) = (res, d)"
  shows "sys_inv (upd_local s region d)"
  using run
proof (cases rule: run_tx_cases)
  case same
  then show ?thesis using inv by simp
next
  case (commit r)
  let ?db = "sys_local s region"
  have know: "known s g" using inv tok by (simp add: sys_inv_def)
  have old: "known s (lg_payload row)" if "map_of (lgrants ?db) lid = Some row" for lid row
    using that inv unfolding sys_inv_def by blast
  have cases: "same_core ?db d \<or> installed region g ?db d \<or> (\<exists>row. renewed region g row ?db d)"
    using local_Install_cases [OF commit] by blast
  show ?thesis
  proof (rule sys_inv_local [OF inv])
    have "local_step region ?db d" using commit by (rule ls_install)
    then show "local_inv region d" using inv local_step_inv by (auto simp: sys_inv_def)
    show "known s (lg_payload row)" if row: "map_of (lgrants d) lid = Some row" for lid row
    proof (cases "lg_payload row = g")
      case True
      then show ?thesis using know by simp
    next
      case False
      then have "map_of (lgrants ?db) lid = Some row"
        using row cases by (auto simp: same_core_def installed_def renewed_def map_of_tput
            simp del: map_of_eq_Some_iff split: if_splits)
      then show ?thesis by (rule old)
    qed
    show "\<exists>row. map_of (lgrants d) lid = Some row \<and> lg_state row = SlotClosed" if "locally_closed s region lid" for lid
      using that cases unfolding locally_closed_def
      by (auto simp: same_core_def installed_def renewed_def map_of_tput simp del: map_of_eq_Some_iff)
  qed
qed

lemma sys_inv_tokens:
  assumes "sys_inv s" "\<And>g. g \<in> T \<Longrightarrow> known s g"
  shows "sys_inv (s\<lparr>sys_tokens := sys_tokens s \<union> T\<rparr>)"
proof -
  have "known (s\<lparr>sys_tokens := X\<rparr>) = known s" "locally_closed (s\<lparr>sys_tokens := X\<rparr>) = locally_closed s" for X
    by (simp_all add: fun_eq_iff known_def locally_closed_def)
  with assms show ?thesis by (auto simp: sys_inv_def simp del: map_of_eq_Some_iff)
qed

lemma sys_inv_receipts:
  assumes "sys_inv s" "\<And>rc. rc \<in> R \<Longrightarrow> locally_closed s (rc_Region rc) (rc_LeaseID rc)"
  shows "sys_inv (s\<lparr>sys_receipts := sys_receipts s \<union> R\<rparr>)"
proof -
  have "known (s\<lparr>sys_receipts := X\<rparr>) = known s" "locally_closed (s\<lparr>sys_receipts := X\<rparr>) = locally_closed s" for X
    by (simp_all add: fun_eq_iff known_def locally_closed_def)
  with assms show ?thesis by (auto simp: sys_inv_def simp del: map_of_eq_Some_iff)
qed

lemma Issue_known:
  assumes "run_tx flt SlotDB (slot_Issue p now g) db = (Inr (), a)"
  shows "\<exists>g0 st. map_of (agrants a) (g_LeaseID g) = Some (g0, st) \<and> sameIdentity g0 g"
proof -
  from run_tx_ok [OF assms] consider "slot_Issue p now g db = Rollback (Inr ())" "a = db"
    | "slot_Issue p now g db = Commit a (Inr ())" by blast
  then show ?thesis
  proof cases
    case 1
    then show ?thesis
      by (auto simp: slot_Issue_def slot_allocate_def authorityGrant_def split: slot_splits)
  next
    case 2
    then show ?thesis by (cases rule: slot_Issue_commit) (auto simp: map_of_tput)
  qed
qed

lemma Renew_known:
  assumes "run_tx flt SlotDB (slot_Renew p now g) db = (Inr (), a)"
  shows "\<exists>g0 st. map_of (agrants a) (g_LeaseID g) = Some (g0, st) \<and> sameIdentity g0 g"
proof -
  from run_tx_ok [OF assms] consider "slot_Renew p now g db = Rollback (Inr ())" "a = db"
    | "slot_Renew p now g db = Commit a (Inr ())" by blast
  then show ?thesis
  proof cases
    case 1
    then show ?thesis
      by (auto simp: slot_Renew_def authorityGrant_def split: slot_splits)
  next
    case 2
    then show ?thesis by (cases rule: slot_Renew_commit) (auto simp: map_of_tput)
  qed
qed

lemma sys_inv_granted:
  assumes "sys_inv (s\<lparr>sys_auth := a\<rparr>)"
    "res = Inr () \<Longrightarrow> \<exists>g0 st. map_of (agrants a) (g_LeaseID g) = Some (g0, st) \<and> sameIdentity g0 g"
  shows "sys_inv (s\<lparr>sys_auth := a, sys_tokens := sys_tokens s \<union> (if res = Inr () then {g} else {})\<rparr>)"
  using sys_inv_tokens [OF assms(1), of "if res = Inr () then {g} else {}"] assms(2)
  by (auto simp: known_def)

lemma sys_inv_close:
  assumes inv: "sys_inv s" and rc: "receipt \<in> sys_receipts s"
    and run: "run_tx flt SlotDB (slot_Close region receipt) (sys_auth s) = (res, a)"
  shows "sys_inv (s\<lparr>sys_auth := a\<rparr>)"
  using run
proof (cases rule: run_tx_cases)
  case same
  then show ?thesis using inv by simp
next
  case (commit r)
  have a: "authority_inv (sys_auth s)" using inv by (simp add: sys_inv_def)
  show ?thesis
  proof (rule sys_inv_auth [OF inv slot_Close_inv [OF commit a] slot_Close_kept [OF commit a]])
    fix lid g
    assume lid: "lid \<in> {rc_LeaseID receipt}" and row: "map_of (agrants a) lid = Some (g, SlotClosed)"
    have closed: "locally_closed s (rc_Region receipt) (rc_LeaseID receipt)"
      using inv rc by (simp add: sys_inv_def)
    from commit show "locally_closed s (g_Region g) lid"
    proof (cases rule: slot_Close_commit)
      case (1 g0)
      have "g_LeaseID g0 = rc_LeaseID receipt" by (rule authority_inv_grant [OF a 1(1)])
      then have "g = g0" using row lid 1(5) by (simp add: map_of_tput)
      then show ?thesis using closed lid 1 by simp
    qed
  qed
qed

lemma sys_inv_local_close:
  assumes inv: "sys_inv s" and run: "run_tx flt SlotDB (local_Close region lid) (sys_local s region) = (rc, d)"
  shows "sys_inv (upd_local s region d\<lparr>sys_receipts := sys_receipts s \<union> (case rc of Inr x \<Rightarrow> {x} | Inl _ \<Rightarrow> {})\<rparr>)"
proof -
  have inv': "sys_inv (upd_local s region d)"
    using inv run local_Close_kept by (rule sys_inv_local_call)
  have "locally_closed (upd_local s region d) (rc_Region x) (rc_LeaseID x)" if rc: "rc = Inr x" for x
  proof -
    have "local_Close region lid (sys_local s region) = Commit d (Inr x)"
      using run_tx_ok [OF run [unfolded rc]] by (auto simp: local_Close_def split: slot_splits)
    from local_Close_cases [OF this] show ?thesis
      by (auto simp: restated_def locally_closed_def map_of_tput)
  qed
  then show ?thesis using sys_inv_receipts [OF inv', of "case rc of Inr x \<Rightarrow> {x} | Inl _ \<Rightarrow> {}"]
    by (auto split: sum.splits)
qed

lemma sys_step_inv: "sys_step L s s' \<Longrightarrow> sys_inv s \<Longrightarrow> sys_inv s'"
proof (induction rule: sys_step.induct)
  case (sy_issue p flt now g s res a)
  have inv: "authority_inv (sys_auth s)" using sy_issue.prems by (simp add: sys_inv_def)
  have "sys_inv (s\<lparr>sys_auth := a\<rparr>)"
    by (rule sys_inv_auth_call [OF sy_issue(3,2)]) (blast intro: slot_Issue_inv slot_Issue_kept inv)
  then show ?case using Issue_known [of flt p now g] sy_issue(2) by (rule_tac sys_inv_granted) simp_all
next
  case (sy_renew p flt now g s res a)
  have inv: "authority_inv (sys_auth s)" using sy_renew.prems by (simp add: sys_inv_def)
  have "sys_inv (s\<lparr>sys_auth := a\<rparr>)"
    by (rule sys_inv_auth_call [OF sy_renew(3,2)]) (blast intro: slot_Renew_inv slot_Renew_kept inv)
  then show ?case using Renew_known [of flt p now g] sy_renew(2) by (rule_tac sys_inv_granted) simp_all
next
  case (sy_acquire p flt r rid s ok a)
  have inv: "authority_inv (sys_auth s)" using sy_acquire.prems by (simp add: sys_inv_def)
  show ?case by (rule sys_inv_auth_call [OF sy_acquire(3,2)]) (blast intro: slot_Acquire_inv slot_Acquire_kept inv)
next
  case (sy_release flt r rid s res a)
  have inv: "authority_inv (sys_auth s)" using sy_release.prems by (simp add: sys_inv_def)
  show ?case by (rule sys_inv_auth_call [OF sy_release(2,1)]) (blast intro: slot_Release_inv slot_Release_kept inv)
next
  case (sy_begin_drain flt region lid s res a)
  have inv: "authority_inv (sys_auth s)" using sy_begin_drain.prems by (simp add: sys_inv_def)
  show ?case
    by (rule sys_inv_auth_call [OF sy_begin_drain(2,1)]) (blast intro: slot_BeginDrain_inv slot_BeginDrain_kept inv)
next
  case sy_close
  then show ?case by (rule_tac sys_inv_close)
next
  case sy_install
  then show ?case by (rule_tac sys_inv_install)
next
  case sy_local_close
  then show ?case by (rule_tac sys_inv_local_close)
next
  case sy_local_acquire
  then show ?case using local_Acquire_kept by (rule_tac sys_inv_local_call)
next
  case sy_local_release
  then show ?case using local_Release_kept by (rule_tac sys_inv_local_call)
next
  case sy_local_drain
  then show ?case using local_Drain_kept by (rule_tac sys_inv_local_call)
next
  case sy_local_acquire_resource
  then show ?case using local_AcquireResource_kept by (rule_tac sys_inv_local_call)
next
  case sy_local_release_resource
  then show ?case using local_ReleaseResource_kept by (rule_tac sys_inv_local_call)
qed

lemma sys_reach_inv: "sys_reach L s \<Longrightarrow> sys_inv s"
proof (induction rule: sys_reach.induct)
  case sr_start
  show ?case
    by (simp add: sys_inv_def init_slot_sys_def authority_inv_empty local_inv_empty)
       (simp add: empty_local_def empty_authority_def)
qed (blast intro: sys_step_inv)

section \<open>Slots in use\<close>

text \<open>The authority of a reachable system is a reachable authority.\<close>

lemma sys_step_auth: "sys_step L s s' \<Longrightarrow> sys_auth s' = sys_auth s \<or> auth_step L (sys_auth s) (sys_auth s')"
proof (induction rule: sys_step.induct)
  case (sy_issue p flt now g s res a)
  then show ?case using as_issue [of L p "sys_auth s" flt now g] by simp
next
  case (sy_renew p flt now g s res a)
  then show ?case using as_renew [of L p "sys_auth s" flt now g] by simp
next
  case (sy_acquire p flt r rid s ok a)
  then show ?case using as_acquire [of L p "sys_auth s" flt r rid] by simp
next
  case (sy_release flt r rid s res a)
  then show ?case using as_release [of L "sys_auth s" flt r rid] by simp
next
  case (sy_begin_drain flt region lid s res a)
  then show ?case using as_drain [of L "sys_auth s" flt region lid] by simp
next
  case (sy_close receipt s flt region res a)
  then show ?case using as_close [of L "sys_auth s" flt region receipt] by simp
qed simp_all

lemma sys_reach_auth: "sys_reach L s \<Longrightarrow> auth_reach L (sys_auth s)"
proof (induction rule: sys_reach.induct)
  case sr_start
  then show ?case by (simp add: init_slot_sys_def ar_start)
next
  case (sr_step s s')
  then show ?case using sys_step_auth [OF sr_step(2)] by (auto intro: ar_step)
qed

lemma primary_inflight_card:
  assumes "authority_inv (sys_auth s)"
  shows "finite (primary_inflight s r)"
    "int (card (primary_inflight s r)) = b_primary_used (budget_row (sys_auth s) r)"
  unfolding primary_inflight_def using primary_held_card [OF assms] by blast+

text \<open>The requests a region holds under one lease.\<close>

definition lease_inflight :: "slot_sys \<Rightarrow> Resource \<Rightarrow> string \<Rightarrow> string \<Rightarrow> string set" where
  "lease_inflight s r region lid = {request. map_of (lslots (sys_local s region)) (lid, request) = Some (r, False)}"

lemma lease_inflight_used:
  assumes "local_inv region (sys_local s region)" "map_of (lgrants (sys_local s region)) lid = Some row"
  shows "finite (lease_inflight s r region lid)" "int (card (lease_inflight s r region lid)) \<le> lg_used row"
proof -
  let ?t = "lslots (sys_local s region)"
  let ?K = "{k. \<exists>v. map_of ?t k = Some v \<and> fst k = lid \<and> \<not> snd v}"
  have sub: "Pair lid ` lease_inflight s r region lid \<subseteq> ?K" by (auto simp: lease_inflight_def)
  have fin: "finite ?K" by (rule finite_rows)
  show f: "finite (lease_inflight s r region lid)"
    using finite_subset [OF sub fin] by (simp add: finite_image_iff inj_on_def)
  have "held_weight lid = (\<lambda>k v. if fst k = lid \<and> \<not> snd v then 1 else 0)"
    by (auto simp: held_weight_def fun_eq_iff)
  then have "lg_used row = int (card ?K)"
    using local_inv_row [OF assms] tsum_card [of ?t "\<lambda>k v. fst k = lid \<and> \<not> snd v"] assms(1)
    by (simp add: row_ok_def local_inv_def)
  moreover have "card (lease_inflight s r region lid) \<le> card ?K"
    using card_mono [OF fin sub] by (simp add: card_image inj_on_def)
  ultimately show "int (card (lease_inflight s r region lid)) \<le> lg_used row" by simp
qed

text \<open>A request in flight under a lease is covered by the authority's grant, which is not closed.\<close>

lemma lease_inflight_grant:
  assumes inv: "sys_inv s" and q: "request \<in> lease_inflight s r region lid"
  obtains g st row where "map_of (agrants (sys_auth s)) lid = Some (g, st)" "g_Region g = region"
    "g_Resource g = r" "st \<noteq> SlotClosed" "map_of (lgrants (sys_local s region)) lid = Some row"
    "lg_used row \<le> g_Slots g"
proof -
  have li: "local_inv region (sys_local s region)" using inv by (simp add: sys_inv_def)
  have slot: "map_of (lslots (sys_local s region)) (lid, request) = Some (r, False)"
    using q by (simp add: lease_inflight_def)
  obtain row where row: "map_of (lgrants (sys_local s region)) lid = Some row" "lg_resource row = r"
    using local_inv_owner [OF li slot] by blast
  have ok: "row_ok region (lslots (sys_local s region)) lid row" by (rule local_inv_row [OF li row(1)])
  obtain g st where g: "map_of (agrants (sys_auth s)) lid = Some (g, st)" "sameIdentity g (lg_payload row)"
    using inv row(1) ok unfolding sys_inv_def known_def row_ok_def by metis
  have "1 \<le> card (lease_inflight s r region lid)"
    using lease_inflight_used(1) [OF li row(1)] q by (metis One_nat_def Suc_leI card_gt_0_iff empty_iff)
  then have pos: "1 \<le> lg_used row" using lease_inflight_used(2) [OF li row(1), of r] by linarith
  have reg: "g_Region g = region" using g(2) ok by (simp add: sameIdentity_def row_ok_def)
  have "st \<noteq> SlotClosed"
  proof
    assume "st = SlotClosed"
    then have "locally_closed s region lid" using inv g(1) reg unfolding sys_inv_def by blast
    then have "lg_state row = SlotClosed" using row(1) by (simp add: locally_closed_def)
    then show False using ok pos by (simp add: row_ok_def)
  qed
  moreover have "g_Resource g = r" "lg_used row \<le> g_Slots g"
    using g(2) ok row(2) by (simp_all add: sameIdentity_def row_ok_def)
  ultimately show thesis using that g(1) reg row(1) by blast
qed

lemma regional_inflight_card:
  assumes inv: "sys_inv s"
  shows "finite (regional_inflight s r)"
    "int (card (regional_inflight s r)) \<le> b_granted (budget_row (sys_auth s) r)"
proof -
  let ?A = "\<lambda>lid v. (\<lambda>request. (g_Region (fst v), lid, request)) ` lease_inflight s r (g_Region (fst v)) lid"
  let ?t = "agrants (sys_auth s)"
  have a: "authority_inv (sys_auth s)" using inv by (simp add: sys_inv_def)
  have li: "local_inv region (sys_local s region)" for region using inv by (simp add: sys_inv_def)
  have A: "finite (?A lid v) \<and> int (card (?A lid v)) \<le> grant_weight r lid v" if mem: "(lid, v) \<in> set ?t" for lid v
  proof (cases "lease_inflight s r (g_Region (fst v)) lid = {}")
    case True
    have "Grant_Validate (fst v) = Inr ()" using a mem by (cases v) (auto simp: authority_inv_def)
    then have "0 \<le> grant_weight r lid v"
      by (cases v) (auto simp: grant_weight_def dest: Grant_Validate_slots)
    then show ?thesis using True by simp
  next
    case False
    then obtain request where q: "request \<in> lease_inflight s r (g_Region (fst v)) lid" by blast
    have v: "map_of ?t lid = Some v" using mem a by (simp add: authority_inv_def)
    from lease_inflight_grant [OF inv q] obtain g st row where g: "v = (g, st)" "g_Resource g = r" "st \<noteq> SlotClosed"
      "map_of (lgrants (sys_local s (g_Region g))) lid = Some row" "lg_used row \<le> g_Slots g"
      using v by (metis fst_conv option.inject)
    have "card (?A lid v) = card (lease_inflight s r (g_Region g) lid)"
      using g(1) by (simp add: card_image inj_on_def)
    then show ?thesis
      using lease_inflight_used [OF li g(4), of r] g by (simp add: grant_weight_def)
  qed
  have sub: "regional_inflight s r \<subseteq> (\<Union>(lid, v)\<in>set ?t. ?A lid v)"
  proof
    fix x assume x: "x \<in> regional_inflight s r"
    obtain region lid request where eq: "x = (region, lid, request)" by (cases x)
    have q: "request \<in> lease_inflight s r region lid"
      using x by (simp add: eq regional_inflight_def lease_inflight_def)
    from lease_inflight_grant [OF inv q] obtain g st where "map_of ?t lid = Some (g, st)" "g_Region g = region"
      by blast
    then show "x \<in> (\<Union>(lid, v)\<in>set ?t. ?A lid v)" using q map_of_SomeD eq by fastforce
  qed
  have fin: "finite (\<Union>(lid, v)\<in>set ?t. ?A lid v)" using A by auto
  show "finite (regional_inflight s r)" by (rule finite_subset [OF sub fin])
  have "int (card (regional_inflight s r)) \<le> int (card (\<Union>(lid, v)\<in>set ?t. ?A lid v))"
    using card_mono [OF fin sub] by simp
  also have "\<dots> \<le> tsum (\<lambda>lid v. int (card (?A lid v))) ?t" by (rule card_UN_tsum)
  also have "\<dots> \<le> tsum (grant_weight r) ?t" using A by (intro tsum_mono) blast
  also have "\<dots> = b_granted (budget_row (sys_auth s) r)" using a by (simp add: authority_inv_def)
  finally show "int (card (regional_inflight s r)) \<le> b_granted (budget_row (sys_auth s) r)" .
qed

text \<open>A schedule: the authority grants two slots to a region, which installs the grant and admits a request.\<close>

definition sample_local :: local_db where
  "sample_local = \<lparr>lbudgets = [(sample_resource, \<lparr>b_primary_used = 0, b_granted = 0\<rparr>)],
     lgrants = [(''slot-1'', \<lparr>lg_payload = sample_grant, lg_region = ''eu'', lg_resource = sample_resource,
        lg_slots = 2, lg_used = 1, lg_state = SlotOpen\<rparr>)],
     lslots = [((''slot-1'', ''req-1''), sample_resource, False)], lcancels = []\<rparr>"

definition sample_sys :: slot_sys where
  "sample_sys = \<lparr>sys_auth = sample_auth, sys_local = (\<lambda>_. empty_local)(''eu'' := sample_local),
     sys_tokens = {sample_grant}, sys_receipts = {}\<rparr>"

lemma sample_admit:
  "\<exists>d res. run_tx NoFault SlotDB (local_Install ''eu'' sample_grant) empty_local = (res, d) \<and>
     run_tx NoFault SlotDB (local_Acquire ''eu'' 2000 ''slot-1'' ''req-1'') d = (Inr True, sample_local)"
proof -
  have "run_tx NoFault SlotDB (local_Acquire ''eu'' 2000 ''slot-1'' ''req-1'')
      (snd (run_tx NoFault SlotDB (local_Install ''eu'' sample_grant) empty_local)) = (Inr True, sample_local)"
    by code_simp
  then show ?thesis by (metis prod.collapse)
qed

lemma sample_sys_reach: "sys_reach (\<lambda>_. 3) sample_sys"
proof -
  obtain d res where d: "run_tx NoFault SlotDB (local_Install ''eu'' sample_grant) empty_local = (res, d)"
    "run_tx NoFault SlotDB (local_Acquire ''eu'' 2000 ''slot-1'' ''req-1'') d = (Inr True, sample_local)"
    using sample_admit by blast
  let ?s1 = "init_slot_sys\<lparr>sys_auth := sample_auth, sys_tokens := {sample_grant}\<rparr>"
  have "sys_step (\<lambda>_. 3) init_slot_sys ?s1"
    using sy_issue [OF sample_within, of NoFault 2000 sample_grant init_slot_sys] sample_issue
    by (simp add: init_slot_sys_def)
  moreover have "sys_step (\<lambda>_. 3) ?s1 (upd_local ?s1 ''eu'' d)"
    by (rule sy_install [of sample_grant _ NoFault]) (simp_all add: init_slot_sys_def d)
  moreover have "sys_step (\<lambda>_. 3) (upd_local ?s1 ''eu'' d) (upd_local (upd_local ?s1 ''eu'' d) ''eu'' sample_local)"
    by (rule sy_local_acquire [of NoFault "''eu''" 2000 "''slot-1''" "''req-1''"]) (simp add: d)
  moreover have "upd_local (upd_local ?s1 ''eu'' d) ''eu'' sample_local = sample_sys"
    by (simp add: sample_sys_def init_slot_sys_def)
  ultimately show ?thesis by (metis sr_start sr_step)
qed

text \<open>C1: across the primary and every region, the requests that hold a slot of a resource never
  exceed the resource's limit: for every schedule of operations, message delays, duplications and
  reorderings, clock readings and database faults, the requests in flight on the primary and under all
  leases of all regions together stay within the largest limit reading.\<close>

theorem inflight_within_limit:
  assumes "sys_reach L s" "0 \<le> L r"
  shows "finite (primary_inflight s r) \<and> finite (regional_inflight s r) \<and>
    int (card (primary_inflight s r) + card (regional_inflight s r)) \<le> L r"
proof -
  note inv = sys_reach_inv [OF assms(1)]
  have "authority_inv (sys_auth s)" using inv by (simp add: sys_inv_def)
  note primary = primary_inflight_card [OF this, of r]
  from auth_reach_alloc [OF sys_reach_auth [OF assms(1)] assms(2)]
  show ?thesis using primary regional_inflight_card [OF inv, of r] by (simp add: allocated_def)
qed

theorem inflight_within_limit_witness:
  "sys_reach (\<lambda>_. 3) sample_sys \<and> (''eu'', ''slot-1'', ''req-1'') \<in> regional_inflight sample_sys sample_resource \<and>
   int (card (primary_inflight sample_sys sample_resource) + card (regional_inflight sample_sys sample_resource)) \<le> 3"
  using inflight_within_limit [OF sample_sys_reach, of sample_resource] sample_sys_reach
  by (simp add: regional_inflight_def sample_sys_def sample_local_def)

end
