(* ===== verification/SlotPool.thy ===== *)
theory SlotPool
  imports SlotsLocal
begin

text \<open>
  The admission interface of \<^verbatim>\<open>backend/internal/repository/regional_concurrency_cache.go\<close>: the
  cache holds either a primary authority or a regional side, and dispatches \<open>acquire\<close>, \<open>release\<close>,
  \<open>count\<close> and \<open>Held\<close> to it. The interface is the record \<open>pool\<close> of operations, with the two
  providers \<open>primary_ops\<close> and \<open>local_ops\<close>; the locale \<open>slot_pool\<close> states what a provider promises
  and both are shown to be instances.
\<close>

record ('e, 'db) pool =
  po_region :: string
  po_limit :: "('e \<Rightarrow> Resource \<Rightarrow> slot_err + int) option"
  po_lock :: "Resource \<Rightarrow> 'db \<Rightarrow> 'db"
  po_acquire :: "'e \<Rightarrow> Resource \<Rightarrow> string \<Rightarrow> 'db \<Rightarrow> slot_err + (bool \<times> 'db)"
  po_release :: "Resource \<Rightarrow> string \<Rightarrow> 'db \<Rightarrow> slot_err + 'db"
  po_count :: "Resource \<Rightarrow> 'db \<Rightarrow> int"
  po_held :: "Resource \<Rightarrow> string \<Rightarrow> 'db \<Rightarrow> bool"

text \<open>
  What a call of the primary reads from outside is the configured reader and guard; what a call of a
  region reads from outside is the database's ordering and its clock.
\<close>

definition primary_ops :: "(slot_primary, authority) pool" where
  "primary_ops = \<lparr>po_region = '''', po_limit = Some slot_limit,
     po_lock = (\<lambda>r db. db\<lparr>budgets := tnew r \<lparr>b_primary_used = 0, b_granted = 0\<rparr> (budgets db)\<rparr>),
     po_acquire = slot_AcquireTx, po_release = slot_ReleaseTx, po_count = slot_Count, po_held = slot_Held\<rparr>"

definition local_ops :: "string \<Rightarrow> ((string list \<Rightarrow> string list) \<times> (nat \<Rightarrow> gotime), local_db) pool" where
  "local_ops region = \<lparr>po_region = region, po_limit = None,
     po_lock = (\<lambda>r db. db\<lparr>lbudgets := tnew r \<lparr>b_primary_used = 0, b_granted = 0\<rparr> (lbudgets db)\<rparr>),
     po_acquire = (\<lambda>(order_by, clk) r q. local_AcquireResourceTx order_by region clk r q),
     po_release = local_ReleaseResourceTx region, po_count = local_Count region, po_held = local_Held region\<rparr>"

text \<open>A request identity that is released for good.\<close>

definition primary_fenced :: "Resource \<Rightarrow> string \<Rightarrow> authority \<Rightarrow> bool" where
  "primary_fenced r q db \<longleftrightarrow> map_of (pslots db) (r, q) = Some True"

definition local_fenced :: "string \<Rightarrow> Resource \<Rightarrow> string \<Rightarrow> local_db \<Rightarrow> bool" where
  "local_fenced region r q db \<longleftrightarrow> (region, r, q) \<in> set (lcancels db) \<and> \<not> local_Held region r q db"

text \<open>Any operation on the database of the primary, whatever the limits it reads.\<close>

definition primary_step :: "authority \<Rightarrow> authority \<Rightarrow> bool" where
  "primary_step db db' \<longleftrightarrow> (\<exists>L. auth_step L db db')"

definition sorting :: "(string list \<Rightarrow> string list) \<Rightarrow> bool" where
  "sorting order_by \<longleftrightarrow> (\<forall>xs. set (order_by xs) = set xs)"

section \<open>The contract\<close>

locale slot_pool =
  fixes P :: "('e, 'db) pool"
    and env_ok :: "'e \<Rightarrow> bool"
    and fenced :: "Resource \<Rightarrow> string \<Rightarrow> 'db \<Rightarrow> bool"
    and inv :: "'db \<Rightarrow> bool"
    and step :: "'db \<Rightarrow> 'db \<Rightarrow> bool"
  assumes acquire_step: "po_acquire P e r q db = Inr (ok, db') \<Longrightarrow> step db db'"
    and release_step: "po_release P r q db = Inr db' \<Longrightarrow> step db db'"
    and step_inv: "inv db \<Longrightarrow> step db db' \<Longrightarrow> inv db'"
    and step_fenced: "inv db \<Longrightarrow> step db db' \<Longrightarrow> fenced r q db \<Longrightarrow> fenced r q db'"
    and lock_inv: "inv (po_lock P k db) = inv db"
    and lock_fenced: "fenced r q (po_lock P k db) = fenced r q db"
    and release_fenced: "inv db \<Longrightarrow> po_release P r q db = Inr db' \<Longrightarrow> fenced r q db'"
    and acquire_fenced: "inv db \<Longrightarrow> fenced r q db \<Longrightarrow> po_acquire P e r q db \<noteq> Inr (True, db')"
    and acquire_held: "inv db \<Longrightarrow> env_ok e \<Longrightarrow> po_acquire P e r q db = Inr (True, db') \<Longrightarrow> po_held P r q db'"
    and fenced_held: "inv db \<Longrightarrow> fenced r q db \<Longrightarrow> \<not> po_held P r q db"
begin

lemma steps_fenced:
  assumes "step\<^sup>*\<^sup>* db db'" "inv db" "fenced r q db"
  shows "inv db' \<and> fenced r q db'"
  using assms by (induction rule: rtranclp_induct) (auto intro: step_inv step_fenced)

lemma release_final:
  assumes "inv db" "po_release P r q db = Inr db1" "step\<^sup>*\<^sup>* db1 db2"
  shows "\<not> po_held P r q db2 \<and> po_acquire P e r q db2 \<noteq> Inr (True, db3)"
proof -
  have "inv db1" "fenced r q db1"
    using assms(1,2) release_fenced step_inv release_step by blast+
  then show ?thesis using steps_fenced [OF assms(3)] acquire_fenced fenced_held by blast
qed

end

section \<open>The primary\<close>

lemma tx_AcquireTx: "slot_AcquireTx p r q db = Inr (ok, db') \<Longrightarrow> slot_Acquire p r q db = Commit db' (Inr ok)"
  by (simp add: slot_Acquire_def)

lemma tx_ReleaseTx: "slot_ReleaseTx r q db = Inr db' \<Longrightarrow> slot_Release r q db = Commit db' (Inr ())"
  by (simp add: slot_Release_def)

lemma primary_AcquireTx_step:
  assumes "slot_AcquireTx p r q db = Inr (ok, db')"
  shows "primary_step db db'"
proof -
  have "limit_within (\<lambda>r. case slot_limit p r of Inr n \<Rightarrow> n | Inl _ \<Rightarrow> 0) p" by (simp add: limit_within_def)
  from as_acquire [OF this, of db NoFault r q] show ?thesis
    unfolding primary_step_def by (auto simp: tx_simps tx_AcquireTx [OF assms])
qed

lemma primary_ReleaseTx_step: "slot_ReleaseTx r q db = Inr db' \<Longrightarrow> primary_step db db'"
  using as_release [of _ db NoFault r q] unfolding primary_step_def by (auto simp: tx_simps dest: tx_ReleaseTx)

lemma primary_AcquireTx_held: "slot_AcquireTx p r q db = Inr (True, db') \<Longrightarrow> slot_Held r q db'"
  by (auto dest!: tx_AcquireTx elim!: slot_Acquire_commit simp: slot_Held_def map_of_tput)

interpretation pp: slot_pool primary_ops "\<lambda>_. True" primary_fenced authority_inv primary_step
proof unfold_locales
  fix e r q k and db db' :: authority and ok
  show "po_acquire primary_ops e r q db = Inr (ok, db') \<Longrightarrow> primary_step db db'"
    by (simp add: primary_ops_def primary_AcquireTx_step)
  show "po_release primary_ops r q db = Inr db' \<Longrightarrow> primary_step db db'"
    by (simp add: primary_ops_def primary_ReleaseTx_step)
  show "authority_inv db \<Longrightarrow> primary_step db db' \<Longrightarrow> authority_inv db'"
    by (auto simp: primary_step_def intro: auth_step_inv)
  show "primary_step db db' \<Longrightarrow> primary_fenced r q db \<Longrightarrow> primary_fenced r q db'"
    by (auto simp: primary_step_def primary_fenced_def dest: auth_step_released simp del: map_of_eq_Some_iff)
  show "authority_inv (po_lock primary_ops k db) = authority_inv db"
    by (auto simp: primary_ops_def authority_inv_def)
  show "primary_fenced r q (po_lock primary_ops k db) = primary_fenced r q db"
    by (simp add: primary_ops_def primary_fenced_def)
  show "po_release primary_ops r q db = Inr db' \<Longrightarrow> primary_fenced r q db'"
    unfolding primary_ops_def primary_fenced_def by (simp, drule tx_ReleaseTx, erule slot_Release_marks)
  show "primary_fenced r q db \<Longrightarrow> po_acquire primary_ops e r q db \<noteq> Inr (True, db')"
    by (auto simp: primary_ops_def primary_fenced_def slot_AcquireTx_def split: slot_splits)
  show "po_acquire primary_ops e r q db = Inr (True, db') \<Longrightarrow> po_held primary_ops r q db'"
    by (simp add: primary_ops_def primary_AcquireTx_held)
  show "primary_fenced r q db \<Longrightarrow> \<not> po_held primary_ops r q db"
    by (simp add: primary_ops_def primary_fenced_def slot_Held_def)
qed

section \<open>The region\<close>

text \<open>A region holds a slot for a request exactly when some lease has an unreleased row for it.\<close>

lemma lease_in_region_iff:
  assumes "local_inv region db"
  shows "lease_in_region region r q db = Some lid \<longleftrightarrow> (\<exists>b. map_of (lslots db) (lid, q) = Some (r, b))"
proof -
  let ?P = "\<lambda>((lid, rid), (r', released)). r' = r \<and> rid = q \<and>
     map_option lg_region (map_of (lgrants db) lid) = Some region"
  have dist: "distinct (map fst (lslots db))" using assms by (simp add: local_inv_def)
  have mem: "((l, q'), (r', b)) \<in> set (filter ?P (lslots db)) \<longleftrightarrow>
      q' = q \<and> r' = r \<and> map_of (lslots db) (l, q) = Some (r, b)" for l q' r' b
  proof -
    have "map_option lg_region (map_of (lgrants db) l) = Some region" if "map_of (lslots db) (l, q) = Some (r, b)"
      using local_inv_owner [OF assms that] local_inv_row [OF assms] by (auto simp: row_ok_def simp del: map_of_eq_Some_iff)
    then show ?thesis using dist by auto
  qed
  show ?thesis
  proof (cases "filter ?P (lslots db)")
    case Nil
    then have "map_of (lslots db) (lid, q) \<noteq> Some (r, b)" for b using mem [of lid q r b] by simp
    then show ?thesis using Nil by (simp add: lease_in_region_def)
  next
    case (Cons x xs)
    obtain l q' r' b where x: "x = ((l, q'), (r', b))" by (metis prod.collapse)
    have "x \<in> set (filter ?P (lslots db))" unfolding Cons by simp
    then have "map_of (lslots db) (l, q) = Some (r, b)" using mem [of l q' r' b] unfolding x by blast
    then have "(\<exists>b. map_of (lslots db) (lid, q) = Some (r, b)) \<longleftrightarrow> l = lid"
      using local_inv_unique [OF assms] by blast
    then show ?thesis using Cons x by (simp add: lease_in_region_def)
  qed
qed

lemma local_Held_iff:
  assumes "local_inv region db"
  shows "local_Held region r q db \<longleftrightarrow> (\<exists>lid. map_of (lslots db) (lid, q) = Some (r, False))"
proof (cases "lease_in_region region r q db")
  case None
  then have "map_of (lslots db) (lid, q) \<noteq> Some (r, b)" for lid b
    using lease_in_region_iff [OF assms, of r q lid] by auto
  then show ?thesis using None by (simp add: local_Held_def)
next
  case (Some lid)
  then obtain b where b: "map_of (lslots db) (lid, q) = Some (r, b)" using lease_in_region_iff [OF assms] by blast
  have "local_Held region r q db \<longleftrightarrow> \<not> b" using Some b by (simp add: local_Held_def)
  also have "\<dots> \<longleftrightarrow> (\<exists>l. map_of (lslots db) (l, q) = Some (r, False))"
  proof
    assume "\<exists>l. map_of (lslots db) (l, q) = Some (r, False)"
    then obtain l where l: "map_of (lslots db) (l, q) = Some (r, False)" by blast
    then have "lid = l" by (rule local_inv_unique [OF assms b])
    then show "\<not> b" using l b by simp
  qed (use b in \<open>auto simp del: map_of_eq_Some_iff\<close>)
  finally show ?thesis .
qed

lemma local_step_fenced:
  assumes inv: "local_inv region db" and step: "local_step region db db'" and f: "local_fenced region r q db"
  shows "local_fenced region r q db'"
proof -
  note held = local_Held_iff [OF inv] local_Held_iff [OF local_step_inv [OF step inv]]
  have c: "(region, r, q) \<in> set (lcancels db)" and n: "map_of (lslots db) (lid, q) \<noteq> Some (r, False)" for lid
    using f by (auto simp: local_fenced_def held)
  have "(region, r, q) \<in> set (lcancels db') \<and> (\<forall>lid. map_of (lslots db') (lid, q) \<noteq> Some (r, False))"
    using step
  proof (cases rule: local_step_elim)
    case (take lid request row)
    then have "g_Resource (lg_payload row) = lg_resource row"
      using local_inv_row [OF inv, of lid row] by (simp add: taken_def row_ok_def)
    then show ?thesis using c n take by (auto simp: taken_def map_of_tput)
  qed (use c n in \<open>auto simp: only_cancels_def installed_def renewed_def freed_def restated_def map_of_tput\<close>)
  then show ?thesis by (simp add: local_fenced_def held)
qed

lemma local_ReleaseTx_frees:
  assumes inv: "local_inv region db" and rel: "local_ReleaseTx region lid q db = Inr db'"
    and bound: "map_of (lslots db) (lid, q) = Some (r, b)"
  shows "map_of (lslots db') (lid, q) = Some (r, True) \<and> (\<forall>lid' q'. (lid', q') \<noteq> (lid, q) \<longrightarrow>
    map_of (lslots db') (lid', q') = map_of (lslots db) (lid', q'))"
  using rel bound by (cases b) (auto simp: local_ReleaseTx_def Let_def map_of_tput split: slot_splits)

lemma local_ReleaseResourceTx_fenced:
  assumes inv: "local_inv region db" and rel: "local_ReleaseResourceTx region r q db = Inr db'"
  shows "local_fenced region r q db'"
proof -
  obtain bs where bs: "lockBudget r (lbudgets db) = Inr bs" "validRequest q"
    using rel by (auto simp: local_ReleaseResourceTx_def Let_def split: if_splits sum.splits)
  let ?db = "db\<lparr>lbudgets := bs, lcancels := List.insert (region, r, q) (lcancels db)\<rparr>"
  have inv1: "local_inv region ?db" by (rule only_cancels_inv [OF _ inv]) (simp add: only_cancels_def subset_insertI)
  have "local_ReleaseResource region r q db = Commit db' (Inr ())" using rel by (simp add: local_ReleaseResource_def)
  then have inv': "local_inv region db'" using inv by (blast intro: local_step_inv ls_release_resource)
  show ?thesis
  proof (cases "lease_in_region region r q ?db")
    case None
    then have "db' = ?db" using rel bs by (simp add: local_ReleaseResourceTx_def Let_def)
    then show ?thesis using None by (simp add: local_fenced_def local_Held_def)
  next
    case (Some lid)
    then have r: "local_ReleaseTx region lid q ?db = Inr db'"
      using rel bs by (simp add: local_ReleaseResourceTx_def Let_def)
    obtain b where b: "map_of (lslots ?db) (lid, q) = Some (r, b)" using Some lease_in_region_iff [OF inv1] by blast
    have "(region, r, q) \<in> set (lcancels db')"
      using local_ReleaseTx_cases [OF r] by (auto simp: only_cancels_def freed_def)
    moreover have "map_of (lslots db') (l, q) \<noteq> Some (r, False)" for l
      using local_ReleaseTx_frees [OF inv1 r b] local_inv_unique [OF inv1 b, of l] by (cases "l = lid") auto
    ultimately show ?thesis by (simp add: local_fenced_def local_Held_iff [OF inv'])
  qed
qed

lemma local_Held_cong:
  assumes "lgrants db' = lgrants db" "lslots db' = lslots db"
  shows "local_Held region r q db' = local_Held region r q db"
  unfolding local_Held_def lease_in_region_def assms ..

lemma tx_AcquireResourceTx:
  "local_AcquireResourceTx order_by region clk r q db = Inr (ok, db') \<Longrightarrow>
   local_AcquireResource order_by region clk r q db = Commit db' (Inr ok)"
  by (simp add: local_AcquireResource_def)

lemma tx_ReleaseResourceTx:
  "local_ReleaseResourceTx region r q db = Inr db' \<Longrightarrow> local_ReleaseResource region r q db = Commit db' (Inr ())"
  by (simp add: local_ReleaseResource_def)

lemma local_AcquireTx_holds:
  assumes inv: "local_inv region db" and acq: "local_AcquireTx region now lid q db = Inr (True, db')"
    and row: "map_of (lgrants db) lid = Some row"
  shows "map_of (lslots db') (lid, q) = Some (lg_resource row, False)"
  using acq
proof (cases rule: local_AcquireTx_cases)
  case keep
  then obtain r where r: "map_of (lslots db) (lid, q) = Some (r, False)" by blast
  then show ?thesis using local_inv_owner [OF inv r] row keep(1) by (simp add: same_core_def)
next
  case (take row')
  then show ?thesis using local_inv_row [OF inv row] row by (simp add: taken_def row_ok_def map_of_tput)
qed

lemma same_core_inv: "same_core db db' \<Longrightarrow> local_inv region db \<Longrightarrow> local_inv region db'"
  by (rule only_cancels_inv) (simp_all add: same_core_def only_cancels_def)

lemma acquire_first_holds:
  assumes "local_inv region db" "acquire_first region clk k lids q db = Inr (True, db')"
    "\<And>lid. lid \<in> set lids \<Longrightarrow> \<exists>row. map_of (lgrants db) lid = Some row \<and> lg_resource row = r"
  shows "\<exists>lid. map_of (lslots db') (lid, q) = Some (r, False)"
  using assms
proof (induction lids arbitrary: k db)
  case (Cons lid lids)
  obtain ok1 db1 where step: "local_AcquireTx region (clk k) lid q db = Inr (ok1, db1)"
    using Cons.prems(2) by (auto split: sum.splits)
  show ?case
  proof (cases ok1)
    case True
    then have acq: "local_AcquireTx region (clk k) lid q db = Inr (True, db')" using Cons.prems(2) step by auto
    obtain row where "map_of (lgrants db) lid = Some row" "lg_resource row = r" using Cons.prems(3) [of lid] by auto
    then show ?thesis using local_AcquireTx_holds [OF Cons.prems(1) acq] by blast
  next
    case False
    from step False have same: "same_core db db1" by (cases rule: local_AcquireTx_cases) auto
    have "acquire_first region clk (Suc k) lids q db1 = Inr (True, db')"
      using Cons.prems(2) step False by simp
    from Cons.IH [OF same_core_inv [OF same Cons.prems(1)] this] show ?thesis
      using same Cons.prems(3) by (simp add: same_core_def)
  qed
qed simp

lemma local_AcquireResourceTx_held:
  assumes inv: "local_inv region db" and ord: "sorting order_by"
    and acq: "local_AcquireResourceTx order_by region clk r q db = Inr (True, db')"
  shows "local_Held region r q db'"
proof -
  obtain bs where bs: "lockBudget r (lbudgets db) = Inr bs"
    using acq by (auto simp: local_AcquireResourceTx_def split: if_splits sum.splits)
  let ?db = "db\<lparr>lbudgets := bs\<rparr>"
  have inv1: "local_inv region ?db" by (rule same_core_inv [OF _ inv]) (simp add: same_core_def)
  have "local_AcquireResource order_by region clk r q db = Commit db' (Inr True)"
    using acq by (simp add: local_AcquireResource_def)
  then have inv': "local_inv region db'" using inv by (blast intro: local_step_inv ls_acquire_resource)
  let ?lids = "[lid. (lid, row) \<leftarrow> lgrants ?db, lg_resource row = r \<and> lg_region row = region \<and>
                lg_state row = SlotOpen \<and> g_ExpiresAt (lg_payload row) > clk 0]"
  consider lid where "lease_in_region region r q ?db = Some lid" "local_AcquireTx region (clk 0) lid q ?db = Inr (True, db')"
    | "acquire_first region clk 1 (order_by ?lids) q ?db = Inr (True, db')"
    using acq bs by (auto simp: local_AcquireResourceTx_def Let_def split: if_splits option.splits)
  then have "\<exists>lid. map_of (lslots db') (lid, q) = Some (r, False)"
  proof cases
    case (1 lid)
    then obtain b where "map_of (lslots ?db) (lid, q) = Some (r, b)" using lease_in_region_iff [OF inv1] by blast
    from local_inv_owner [OF inv1 this] local_AcquireTx_holds [OF inv1 1(2)] show ?thesis by auto
  next
    case 2
    have dist: "distinct (map fst (lgrants db))" using inv by (simp add: local_inv_def)
    show ?thesis
    proof (rule acquire_first_holds [OF inv1 2])
      fix lid assume "lid \<in> set (order_by ?lids)"
      then have "lid \<in> set ?lids" using ord by (simp add: sorting_def)
      then show "\<exists>row. map_of (lgrants ?db) lid = Some row \<and> lg_resource row = r"
        using dist by (auto split: if_splits)
    qed
  qed
  then show ?thesis by (simp add: local_Held_iff [OF inv'])
qed

interpretation lp: slot_pool "local_ops region" "\<lambda>(order_by, clk). sorting order_by" "local_fenced region"
    "local_inv region" "local_step region" for region
proof unfold_locales
  fix e :: "(string list \<Rightarrow> string list) \<times> (nat \<Rightarrow> gotime)" and r k q and db db' :: local_db and ok
  show "po_acquire (local_ops region) e r q db = Inr (ok, db') \<Longrightarrow> local_step region db db'"
    by (cases e) (auto simp: local_ops_def intro: ls_acquire_resource dest: tx_AcquireResourceTx)
  show "po_release (local_ops region) r q db = Inr db' \<Longrightarrow> local_step region db db'"
    by (auto simp: local_ops_def intro: ls_release_resource dest: tx_ReleaseResourceTx)
  show "local_inv region db \<Longrightarrow> local_step region db db' \<Longrightarrow> local_inv region db'"
    by (rule local_step_inv)
  show "local_inv region db \<Longrightarrow> local_step region db db' \<Longrightarrow> local_fenced region r q db \<Longrightarrow> local_fenced region r q db'"
    by (rule local_step_fenced)
  show "local_inv region (po_lock (local_ops region) k db) = local_inv region db"
    by (simp add: local_ops_def local_inv_def)
  show "local_fenced region r q (po_lock (local_ops region) k db) = local_fenced region r q db"
    using local_Held_cong [of "po_lock (local_ops region) k db" db region r q] by (simp add: local_ops_def local_fenced_def)
  show "local_inv region db \<Longrightarrow> po_release (local_ops region) r q db = Inr db' \<Longrightarrow> local_fenced region r q db'"
    by (simp add: local_ops_def local_ReleaseResourceTx_fenced)
  show "local_fenced region r q db \<Longrightarrow> po_acquire (local_ops region) e r q db \<noteq> Inr (True, db')"
    by (cases e) (auto simp: local_ops_def local_fenced_def local_AcquireResourceTx_def Let_def split: slot_splits)
  show "local_inv region db \<Longrightarrow> (case e of (order_by, clk) \<Rightarrow> sorting order_by) \<Longrightarrow>
      po_acquire (local_ops region) e r q db = Inr (True, db') \<Longrightarrow> po_held (local_ops region) r q db'"
    by (cases e) (simp add: local_ops_def local_AcquireResourceTx_held)
  show "local_fenced region r q db \<Longrightarrow> \<not> po_held (local_ops region) r q db"
    by (simp add: local_ops_def local_fenced_def)
qed

section \<open>Properties\<close>

text \<open>a release on the primary is final. Once \<open>ReleaseTx\<close> of a request has taken effect, after any
  further operations of the authority the request holds no slot of the resource and no late or replayed
  \<open>AcquireTx\<close> for it succeeds.\<close>

theorem primary_release_final:
  assumes "authority_inv db" "slot_ReleaseTx r q db = Inr db1" "primary_step\<^sup>*\<^sup>* db1 db2"
  shows "\<not> slot_Held r q db2 \<and> slot_AcquireTx p r q db2 \<noteq> Inr (True, db3)"
  using pp.release_final [of db r q db1 db2 p db3] assms by (simp add: primary_ops_def)

theorem primary_release_final_witness:
  "(\<exists>db1. slot_ReleaseTx sample_resource ''req'' sample_auth = Inr db1 \<and>
      slot_AcquireTx sample_primary sample_resource ''req'' db1 = Inr (False, db1))"
proof -
  let ?db = "sample_auth\<lparr>pslots := [((sample_resource, ''req''), True)]\<rparr>"
  have rel: "slot_ReleaseTx sample_resource ''req'' sample_auth = Inr ?db" by code_simp
  have "authority_inv sample_auth" by (rule auth_reach_inv [OF sample_auth_reach])
  from primary_release_final [OF this rel rtranclp.rtrancl_refl]
  have "\<not> slot_Held sample_resource ''req'' ?db" by blast
  moreover have "slot_AcquireTx sample_primary sample_resource ''req'' ?db = Inr (False, ?db)" by code_simp
  ultimately show ?thesis using rel by blast
qed

text \<open>a release in a region is final. Once \<open>ReleaseResourceTx\<close> of a request has taken effect, even
  for a request the region had never admitted, after any further operations of the region the request
  holds no slot of the resource under any lease and no \<open>AcquireResourceTx\<close> for it succeeds.\<close>

theorem local_release_final:
  assumes "local_inv region db" "local_ReleaseResourceTx region r q db = Inr db1" "(local_step region)\<^sup>*\<^sup>* db1 db2"
  shows "\<not> local_Held region r q db2 \<and> local_AcquireResourceTx order_by region clk r q db2 \<noteq> Inr (True, db3)"
  using lp.release_final [of region db r q db1 db2 "(order_by, clk)" db3] assms by (simp add: local_ops_def)

theorem local_release_final_witness:
  "\<exists>db1. local_ReleaseResourceTx ''eu'' sample_resource ''req'' empty_local = Inr db1 \<and>
     \<not> local_Held ''eu'' sample_resource ''req'' db1"
proof -
  let ?db = "empty_local\<lparr>lbudgets := [(sample_resource, \<lparr>b_primary_used = 0, b_granted = 0\<rparr>)],
     lcancels := [(''eu'', sample_resource, ''req'')]\<rparr>"
  have rel: "local_ReleaseResourceTx ''eu'' sample_resource ''req'' empty_local = Inr ?db" by code_simp
  from local_release_final [OF local_inv_empty rel rtranclp.rtrancl_refl] show ?thesis using rel by blast
qed

end
