(* ===== verification/KeyQueue.thy ===== *)
theory KeyQueue
  imports SlotPool
begin

text \<open>
  \<^verbatim>\<open>backend/internal/repository/regional_queue.go\<close>: the FIFO queue of requests that wait for a
  concurrency slot of an API key. Each operation is one transaction that locks the budget row of the key
  first, so an operation is one atomic step on the tables. A row of \<open>regional_key_queue\<close> is a
  \<open>ticket\<close>; the table lists them in the order of \<open>sequence\<close>, which the lock makes the order of
  insertion. The slots themselves are those of a \<open>pool\<close>. \<open>now\<close> is the database clock in
  milliseconds at the lock.
\<close>

datatype ticket_state = TWaiting | TAcquired | TAborted | TTimeout

record ticket =
  t_deadline :: int
  t_limit :: int
  t_state :: ticket_state

type_synonym ticket_key = "string \<times> int \<times> string"

record 'db queue_db =
  q_pool :: 'db
  q_tickets :: "(ticket_key, ticket) table"

datatype APIKeyQueueOutcome =
  QAcquired | QWaiting | QTimeout | QAborted | QTicketLost | QPolicyChanged | QQueueFull | QLimitReached

datatype APIKeyQueueMode = QEnter | QPoll | QOtherMode

abbreviation api_key :: "int \<Rightarrow> Resource" where
  "api_key kid \<equiv> \<lparr>r_Kind = ''api_key'', r_ID = kid\<rparr>"

text \<open>\<open>UPDATE ... SET state='timeout' WHERE ... state='waiting' AND deadline_ms<=now\<close>.\<close>

definition expire_tickets :: "string \<Rightarrow> int \<Rightarrow> int \<Rightarrow> (ticket_key, ticket) table \<Rightarrow> (ticket_key, ticket) table" where
  "expire_tickets region kid now ts =
     map (\<lambda>(k, t). (k, if fst k = region \<and> fst (snd k) = kid \<and> t_state t = TWaiting \<and> t_deadline t \<le> now
                       then t\<lparr>t_state := TTimeout\<rparr> else t)) ts"

text \<open>The requests waiting for a key, first come first.\<close>

definition waiting_requests :: "string \<Rightarrow> int \<Rightarrow> (ticket_key, ticket) table \<Rightarrow> string list" where
  "waiting_requests region kid ts =
     map (\<lambda>(k, t). snd (snd k))
       (filter (\<lambda>(k, t). fst k = region \<and> fst (snd k) = kid \<and> t_state t = TWaiting) ts)"

definition queueTx :: "('e, 'db) pool \<Rightarrow> bool \<Rightarrow> int \<Rightarrow> int \<Rightarrow> 'db queue_db \<Rightarrow> slot_err + 'db queue_db" where
  "queueTx P failed kid now db =
     (if failed then Inl (SlotMsg ''regional runtime unavailable'')
      else if kid \<le> 0 then Inl (SlotMsg ''invalid regional queue key'')
      else Inr (db\<lparr>q_pool := po_lock P (api_key kid) (q_pool db),
                   q_tickets := expire_tickets (po_region P) kid now (q_tickets db)\<rparr>))"

definition AcquireAPIKeySlotWithTime ::
    "('e, 'db) pool \<Rightarrow> bool \<Rightarrow> 'e \<Rightarrow> int \<Rightarrow> int \<Rightarrow> string \<Rightarrow> 'db queue_db \<Rightarrow>
     ('db queue_db, slot_err, bool \<times> int) tx" where
  "AcquireAPIKeySlotWithTime P failed e now kid request db0 =
     (case queueTx P failed kid now db0 of Inl err \<Rightarrow> Rollback (Inl err) | Inr db \<Rightarrow>
      if waiting_requests (po_region P) kid (q_tickets db) \<noteq> [] then Commit db (Inr (False, now))
      else case po_acquire P e (api_key kid) request (q_pool db) of
        Inl err \<Rightarrow> Rollback (Inl err)
      | Inr (ok, p') \<Rightarrow> Commit (db\<lparr>q_pool := p'\<rparr>) (Inr (ok, now)))"

text \<open>The end of \<open>AdvanceAPIKeyQueue\<close>: the head of the queue tries to take a slot.\<close>

definition queue_serve ::
    "('e, 'db) pool \<Rightarrow> 'e \<Rightarrow> int \<Rightarrow> string \<Rightarrow> 'db queue_db \<Rightarrow> ('db queue_db, slot_err, APIKeyQueueOutcome) tx" where
  "queue_serve P e kid request db =
     (case waiting_requests (po_region P) kid (q_tickets db) of
        [] \<Rightarrow> Rollback (Inl SlotNoRows)
      | first # _ \<Rightarrow>
          if first \<noteq> request then Commit db (Inr QWaiting)
          else case po_acquire P e (api_key kid) request (q_pool db) of
            Inl err \<Rightarrow> Rollback (Inl err)
          | Inr (ok, p') \<Rightarrow>
              if \<not> ok then Commit (db\<lparr>q_pool := p'\<rparr>) (Inr QWaiting)
              else case map_of (q_tickets db) (po_region P, kid, request) of
                None \<Rightarrow> Commit (db\<lparr>q_pool := p'\<rparr>) (Inr QAcquired)
              | Some t \<Rightarrow> Commit (db\<lparr>q_pool := p', q_tickets :=
                    tput (po_region P, kid, request) (t\<lparr>t_state := TAcquired\<rparr>) (q_tickets db)\<rparr>) (Inr QAcquired))"

definition AdvanceAPIKeyQueue ::
    "('e, 'db) pool \<Rightarrow> bool \<Rightarrow> 'e \<Rightarrow> int \<Rightarrow> int \<Rightarrow> string \<Rightarrow> APIKeyQueueMode \<Rightarrow> int \<Rightarrow> int \<Rightarrow> int \<Rightarrow>
     'db queue_db \<Rightarrow> ('db queue_db, slot_err, APIKeyQueueOutcome) tx" where
  "AdvanceAPIKeyQueue P failed e now kid request mode deadline limit maxWaiting db0 =
     (if request = '''' \<or> length request > 128 \<or> limit \<le> 0 \<or> maxWaiting < 0 \<or> mode = QOtherMode
      then Rollback (Inl (SlotMsg ''invalid regional queue attempt''))
      else case queueTx P failed kid now db0 of Inl err \<Rightarrow> Rollback (Inl err) | Inr db \<Rightarrow>
      case (case po_limit P of None \<Rightarrow> Inr limit | Some f \<Rightarrow> f e (api_key kid)) of
        Inl err \<Rightarrow> Rollback (Inl err)
      | Inr current \<Rightarrow>
      if current \<noteq> limit then Commit db (Inr QPolicyChanged)
      else case map_of (q_tickets db) (po_region P, kid, request) of
        Some t \<Rightarrow>
          if t_state t = TAborted then Commit db (Inr QAborted)
          else if t_deadline t \<noteq> deadline \<or> t_limit t \<noteq> limit then Commit db (Inr QPolicyChanged)
          else (case t_state t of
              TAborted \<Rightarrow> Commit db (Inr QAborted)
            | TTimeout \<Rightarrow> Commit db (Inr QTimeout)
            | TAcquired \<Rightarrow> Commit db (Inr QAcquired)
            | TWaiting \<Rightarrow> queue_serve P e kid request db)
      | None \<Rightarrow>
          if mode = QPoll then Commit db (Inr QTicketLost)
          else if deadline \<le> now then Commit db (Inr QTimeout)
          else if int (length (waiting_requests (po_region P) kid (q_tickets db))) \<ge> maxWaiting
          then Commit db (Inr QQueueFull)
          else queue_serve P e kid request
            (db\<lparr>q_tickets := tput (po_region P, kid, request)
               \<lparr>t_deadline = deadline, t_limit = limit, t_state = TWaiting\<rparr> (q_tickets db)\<rparr>))"

definition AbortAPIKeyQueueAttempt ::
    "('e, 'db) pool \<Rightarrow> bool \<Rightarrow> int \<Rightarrow> int \<Rightarrow> string \<Rightarrow> int \<Rightarrow> bool \<Rightarrow> 'db queue_db \<Rightarrow>
     ('db queue_db, slot_err, unit) tx" where
  "AbortAPIKeyQueueAttempt P failed now kid request deadline remove db0 =
     (case queueTx P failed kid now db0 of Inl err \<Rightarrow> Rollback (Inl err) | Inr db \<Rightarrow>
      let k = (po_region P, kid, request);
          t' = (case map_of (q_tickets db) k of
                  None \<Rightarrow> \<lparr>t_deadline = deadline, t_limit = 0, t_state = TAborted\<rparr>
                | Some t \<Rightarrow> if t_state t = TAcquired \<and> \<not> remove then t else t\<lparr>t_state := TAborted\<rparr>);
          db' = db\<lparr>q_tickets := tput k t' (q_tickets db)\<rparr>
      in if remove
         then (case po_release P (api_key kid) request (q_pool db') of
                 Inl err \<Rightarrow> Rollback (Inl err) | Inr p' \<Rightarrow> Commit (db'\<lparr>q_pool := p'\<rparr>) (Inr ()))
         else Commit db' (Inr ()))"

definition GetAPIKeyQueueStats ::
    "('e, 'db) pool \<Rightarrow> bool \<Rightarrow> int \<Rightarrow> int \<Rightarrow> 'db queue_db \<Rightarrow> ('db queue_db, slot_err, int \<times> int) tx" where
  "GetAPIKeyQueueStats P failed now kid db0 =
     (case queueTx P failed kid now db0 of Inl err \<Rightarrow> Rollback (Inl err) | Inr db \<Rightarrow>
      Commit db (Inr (po_count P (api_key kid) (q_pool db),
                      int (length (waiting_requests (po_region P) kid (q_tickets db))))))"

text \<open>Any committed operation on the queue, or any operation on the pool alone.\<close>

inductive queue_step :: "('e, 'db) pool \<Rightarrow> ('db \<Rightarrow> 'db \<Rightarrow> bool) \<Rightarrow> 'db queue_db \<Rightarrow> 'db queue_db \<Rightarrow> bool" for P pstep where
  qs_pool: "pstep (q_pool db) p' \<Longrightarrow> queue_step P pstep db (db\<lparr>q_pool := p'\<rparr>)"
| qs_direct: "AcquireAPIKeySlotWithTime P failed e now kid request db = Commit db' res \<Longrightarrow> queue_step P pstep db db'"
| qs_advance: "AdvanceAPIKeyQueue P failed e now kid request mode deadline limit maxWaiting db = Commit db' out \<Longrightarrow>
    queue_step P pstep db db'"
| qs_abort: "AbortAPIKeyQueueAttempt P failed now kid request deadline remove db = Commit db' u \<Longrightarrow> queue_step P pstep db db'"
| qs_stats: "GetAPIKeyQueueStats P failed now kid db = Commit db' n \<Longrightarrow> queue_step P pstep db db'"

text \<open>
  The abstract queue of a key: the live waiters at a given time, and what an attempt does to them.
\<close>

definition live_waiters :: "string \<Rightarrow> int \<Rightarrow> int \<Rightarrow> 'db queue_db \<Rightarrow> string list" where
  "live_waiters region kid now db = waiting_requests region kid (expire_tickets region kid now (q_tickets db))"

definition joined :: "string \<Rightarrow> string list \<Rightarrow> string list" where
  "joined request ws = (if request \<in> set ws then ws else ws @ [request])"

section \<open>Lemmas\<close>

lemmas queue_splits = slot_splits ticket_state.splits list.splits

lemma keys_expire [simp]: "map fst (expire_tickets region kid now ts) = map fst ts"
  by (simp add: expire_tickets_def case_prod_beta)

lemma map_of_expire:
  "map_of (expire_tickets region kid now ts) k = map_option (\<lambda>t.
     if fst k = region \<and> fst (snd k) = kid \<and> t_state t = TWaiting \<and> t_deadline t \<le> now
     then t\<lparr>t_state := TTimeout\<rparr> else t) (map_of ts k)"
proof (induction ts)
  case (Cons x ts)
  then show ?case by (cases x) (simp add: expire_tickets_def)
qed (simp add: expire_tickets_def)

lemma expire_idem [simp]:
  "expire_tickets region kid now (expire_tickets region kid now ts) = expire_tickets region kid now ts"
  unfolding expire_tickets_def map_map by (rule map_cong [OF refl]) (simp add: comp_def case_prod_beta)

lemma map_of_waiting:
  assumes "distinct (map fst ts)"
  shows "request \<in> set (waiting_requests region kid ts) \<longleftrightarrow>
    (\<exists>t. map_of ts (region, kid, request) = Some t \<and> t_state t = TWaiting)"
  using assms by (force simp: waiting_requests_def)

lemma waiting_put_new:
  "map_of ts (region, kid, request) = None \<Longrightarrow> t_state t = TWaiting \<Longrightarrow>
   waiting_requests region kid (tput (region, kid, request) t ts) = waiting_requests region kid ts @ [request]"
  by (simp add: waiting_requests_def tput_new)

lemma waiting_put_done:
  assumes "distinct (map fst ts)" "map_of ts (region, kid, request) = Some t0" "t_state t \<noteq> TWaiting"
    "waiting_requests region kid ts = request # ws"
  shows "waiting_requests region kid (tput (region, kid, request) t ts) = ws"
  using assms
proof (induction ts arbitrary: ws)
  case (Cons x ts)
  obtain k t1 where x: "x = (k, t1)" by (cases x)
  show ?case
  proof (cases "k = (region, kid, request)")
    case True
    have none: "map_of ts (region, kid, request) = None"
      using Cons.prems(1) True x by (simp add: map_of_eq_None_iff)
    show ?thesis
    proof (cases "t_state t1 = TWaiting")
      case True': True
      then show ?thesis using Cons.prems True x by (simp add: waiting_requests_def)
    next
      case False
      then have "request \<in> set (waiting_requests region kid ts)" using Cons.prems(4) True x by (simp add: waiting_requests_def)
      then show ?thesis using none map_of_waiting [of ts request region kid] Cons.prems(1) by simp
    qed
  next
    case False
    then have "\<not> (fst k = region \<and> fst (snd k) = kid \<and> t_state t1 = TWaiting)"
      using Cons.prems(4) x by (auto simp: waiting_requests_def)
    then show ?thesis using Cons False x by (auto simp: waiting_requests_def)
  qed
qed simp

lemma queueTx_Inr:
  "queueTx P failed kid now db = Inr db1 \<longleftrightarrow> \<not> failed \<and> 0 < kid \<and>
     db1 = db\<lparr>q_pool := po_lock P (api_key kid) (q_pool db),
              q_tickets := expire_tickets (po_region P) kid now (q_tickets db)\<rparr>"
  by (auto simp: queueTx_def)

lemma queue_serve_cases:
  assumes "queue_serve P e kid request db = Commit db' out" "distinct (map fst (q_tickets db))"
    "request \<in> set (waiting_requests (po_region P) kid (q_tickets db))"
  obtains (wait) "out = Inr QWaiting" "q_tickets db' = q_tickets db"
  | (head) ws p' where "out = Inr QAcquired" "waiting_requests (po_region P) kid (q_tickets db) = request # ws"
      "waiting_requests (po_region P) kid (q_tickets db') = ws"
      "po_acquire P e (api_key kid) request (q_pool db) = Inr (True, p')" "q_pool db' = p'"
proof -
  obtain t where t: "map_of (q_tickets db) (po_region P, kid, request) = Some t"
    using assms(2,3) by (auto simp: map_of_waiting)
  obtain first ws where w: "waiting_requests (po_region P) kid (q_tickets db) = first # ws"
    using assms(3) by (cases "waiting_requests (po_region P) kid (q_tickets db)") auto
  show ?thesis
  proof (cases "first = request")
    case False
    then show ?thesis using assms(1) w wait by (simp add: queue_serve_def)
  next
    case True
    then obtain ok p' where acq: "po_acquire P e (api_key kid) request (q_pool db) = Inr (ok, p')"
      using assms(1) w by (auto simp: queue_serve_def split: sum.splits)
    show ?thesis
    proof (cases ok)
      case False
      then show ?thesis using assms(1) w True acq by (intro wait) (auto simp: queue_serve_def)
    next
      case ok: True
      then have "out = Inr QAcquired" "q_pool db' = p'"
        "q_tickets db' = tput (po_region P, kid, request) (t\<lparr>t_state := TAcquired\<rparr>) (q_tickets db)"
        using assms(1) w True acq t by (auto simp: queue_serve_def)
      moreover have "waiting_requests (po_region P) kid (tput (po_region P, kid, request) (t\<lparr>t_state := TAcquired\<rparr>) (q_tickets db)) = ws"
        using w True by (intro waiting_put_done [OF assms(2) t]) simp_all
      ultimately show ?thesis using head w True acq ok by metis
    qed
  qed
qed

text \<open>What an attempt does, on every branch that commits.\<close>

lemma Advance_cases:
  assumes adv: "AdvanceAPIKeyQueue P failed e now kid request mode deadline limit maxWaiting db0 = Commit db' out"
    and dist: "distinct (map fst (q_tickets db0))"
  obtains (other) q where "out = Inr q" "q \<noteq> QAcquired" "q \<noteq> QWaiting"
      "q_tickets db' = expire_tickets (po_region P) kid now (q_tickets db0)"
  | (replay) t where "out = Inr QAcquired" "map_of (q_tickets db0) (po_region P, kid, request) = Some t"
      "t_state t = TAcquired" "q_tickets db' = expire_tickets (po_region P) kid now (q_tickets db0)"
  | (serve) db where "queue_serve P e kid request db = Commit db' out" "distinct (map fst (q_tickets db))"
      "waiting_requests (po_region P) kid (q_tickets db) = joined request (live_waiters (po_region P) kid now db0)"
      "request \<in> set (waiting_requests (po_region P) kid (q_tickets db))"
      "request \<notin> set (live_waiters (po_region P) kid now db0) \<Longrightarrow>
         int (length (live_waiters (po_region P) kid now db0)) < maxWaiting"
      "q_pool db = po_lock P (api_key kid) (q_pool db0)"
      "map_of (q_tickets db0) (po_region P, kid, request) = None \<or>
         (\<exists>t. map_of (q_tickets db0) (po_region P, kid, request) = Some t \<and> t_state t = TWaiting \<and> now < t_deadline t)"
proof -
  let ?ts = "expire_tickets (po_region P) kid now (q_tickets db0)"
  let ?k = "(po_region P, kid, request)"
  let ?db = "db0\<lparr>q_pool := po_lock P (api_key kid) (q_pool db0), q_tickets := ?ts\<rparr>"
  have q: "queueTx P failed kid now db0 = Inr ?db"
    using adv by (auto simp: AdvanceAPIKeyQueue_def queueTx_Inr split: if_splits sum.splits)
  have d: "distinct (map fst ?ts)" using dist by simp
  have lw: "live_waiters (po_region P) kid now db0 = waiting_requests (po_region P) kid ?ts"
    by (simp add: live_waiters_def)
  show ?thesis
  proof (cases "map_of ?ts ?k")
    case None
    let ?t = "\<lparr>t_deadline = deadline, t_limit = limit, t_state = TWaiting\<rparr>"
    let ?db1 = "?db\<lparr>q_tickets := tput ?k ?t ?ts\<rparr>"
    consider x where "out = Inr x" "x \<noteq> QAcquired" "x \<noteq> QWaiting" "db' = ?db"
      | "int (length (waiting_requests (po_region P) kid ?ts)) < maxWaiting" "queue_serve P e kid request ?db1 = Commit db' out"
      using adv q None by (auto simp: AdvanceAPIKeyQueue_def split: if_splits sum.splits option.splits)
    then show ?thesis
    proof cases
      case 1
      then show ?thesis using other by simp
    next
      case 2
      have w: "waiting_requests (po_region P) kid (tput ?k ?t ?ts) = waiting_requests (po_region P) kid ?ts @ [request]"
        by (rule waiting_put_new [OF None]) simp
      have "request \<notin> set (waiting_requests (po_region P) kid ?ts)" using d None by (simp add: map_of_waiting)
      then show ?thesis using None 2 d w
        by (intro serve [of ?db1]) (auto simp: joined_def lw table_simps map_of_expire)
    qed
  next
    case (Some t)
    obtain t0 where t0: "map_of (q_tickets db0) ?k = Some t0"
      "t = (if t_state t0 = TWaiting \<and> t_deadline t0 \<le> now then t0\<lparr>t_state := TTimeout\<rparr> else t0)"
      using Some by (auto simp: map_of_expire)
    consider x where "out = Inr x" "x \<noteq> QAcquired" "x \<noteq> QWaiting" "db' = ?db"
      | "t_state t = TAcquired" "out = Inr QAcquired" "db' = ?db"
      | "t_state t = TWaiting" "queue_serve P e kid request ?db = Commit db' out"
      using adv q Some
      by (auto simp: AdvanceAPIKeyQueue_def split: if_splits sum.splits option.splits ticket_state.splits)
    then show ?thesis
    proof cases
      case 1
      then show ?thesis using other by simp
    next
      case 2
      then have "t0 = t" using t0(2) by (simp split: if_splits)
      then show ?thesis using 2 t0 replay by simp
    next
      case 3
      then have "request \<in> set (waiting_requests (po_region P) kid ?ts)" using d Some by (auto simp: map_of_waiting)
      moreover have "t_state t0 = TWaiting \<and> now < t_deadline t0" using 3(1) t0(2) by (simp split: if_splits)
      ultimately show ?thesis using 3 d t0(1) by (intro serve [of ?db]) (simp_all add: joined_def lw)
    qed
  qed
qed

text \<open>An aborted ticket stays aborted, and the keys of the table stay distinct.\<close>

definition ticket_aborted :: "('e, 'db) pool \<Rightarrow> int \<Rightarrow> string \<Rightarrow> 'db queue_db \<Rightarrow> bool" where
  "ticket_aborted P kid request db \<longleftrightarrow>
     (\<exists>t. map_of (q_tickets db) (po_region P, kid, request) = Some t \<and> t_state t = TAborted)"

lemma aborted_expire:
  "q_tickets db' = expire_tickets region kid' now (q_tickets db) \<Longrightarrow>
   ticket_aborted P kid request db' = ticket_aborted P kid request db"
  by (cases "map_of (q_tickets db) (po_region P, kid, request)") (simp_all add: ticket_aborted_def map_of_expire)

lemma aborted_put:
  "q_tickets db' = tput k t (q_tickets db) \<Longrightarrow> ticket_aborted P kid request db \<Longrightarrow>
   k \<noteq> (po_region P, kid, request) \<or> t_state t = TAborted \<Longrightarrow> ticket_aborted P kid request db'"
  by (auto simp: ticket_aborted_def map_of_tput)

lemma queue_serve_effect:
  assumes "queue_serve P e kid request db = Commit db' out"
  shows "(q_tickets db' = q_tickets db \<or>
      (\<exists>t. map_of (q_tickets db) (po_region P, kid, request) = Some t \<and>
        q_tickets db' = tput (po_region P, kid, request) (t\<lparr>t_state := TAcquired\<rparr>) (q_tickets db))) \<and>
    (q_pool db' = q_pool db \<or> (\<exists>ok. po_acquire P e (api_key kid) request (q_pool db) = Inr (ok, q_pool db')))"
proof (cases "waiting_requests (po_region P) kid (q_tickets db)")
  case Nil
  then show ?thesis using assms by (simp add: queue_serve_def)
next
  case (Cons first ws)
  show ?thesis
  proof (cases "first = request")
    case False
    then show ?thesis using assms Cons by (simp add: queue_serve_def)
  next
    case True
    then obtain ok p' where "po_acquire P e (api_key kid) request (q_pool db) = Inr (ok, p')"
      using assms Cons by (auto simp: queue_serve_def split: sum.splits)
    then show ?thesis
      using assms Cons True
      by (cases ok; cases "map_of (q_tickets db) (po_region P, kid, request)") (auto simp: queue_serve_def)
  qed
qed

lemma queue_serve_tickets:
  assumes "queue_serve P e kid request db = Commit db' out"
  obtains (same) "q_tickets db' = q_tickets db"
  | (put) t where "map_of (q_tickets db) (po_region P, kid, request) = Some t"
      "q_tickets db' = tput (po_region P, kid, request) (t\<lparr>t_state := TAcquired\<rparr>) (q_tickets db)"
  using queue_serve_effect [OF assms] by blast

lemma queue_serve_pool:
  assumes "queue_serve P e kid request db = Commit db' out"
  shows "q_pool db' = q_pool db \<or> (\<exists>ok. po_acquire P e (api_key kid) request (q_pool db) = Inr (ok, q_pool db'))"
  using queue_serve_effect [OF assms] by blast

text \<open>The rows and the pool after any attempt.\<close>

lemma Advance_effect:
  assumes adv: "AdvanceAPIKeyQueue P failed e now kid request mode deadline limit maxWaiting db0 = Commit db' out"
  obtains "distinct (map fst (q_tickets db0)) \<Longrightarrow> distinct (map fst (q_tickets db'))"
    "\<And>kid' q. ticket_aborted P kid' q db0 \<Longrightarrow> ticket_aborted P kid' q db'"
    "q_pool db' = po_lock P (api_key kid) (q_pool db0) \<or>
      (\<exists>ok. po_acquire P e (api_key kid) request (po_lock P (api_key kid) (q_pool db0)) = Inr (ok, q_pool db'))"
proof -
  let ?ts = "expire_tickets (po_region P) kid now (q_tickets db0)"
  let ?k = "(po_region P, kid, request)"
  let ?db = "db0\<lparr>q_pool := po_lock P (api_key kid) (q_pool db0), q_tickets := ?ts\<rparr>"
  let ?db1 = "?db\<lparr>q_tickets := tput ?k \<lparr>t_deadline = deadline, t_limit = limit, t_state = TWaiting\<rparr> ?ts\<rparr>"
  have q: "queueTx P failed kid now db0 = Inr ?db"
    using adv by (auto simp: AdvanceAPIKeyQueue_def queueTx_Inr split: if_splits sum.splits)
  have ab: "ticket_aborted P kid' q ?db = ticket_aborted P kid' q db0" for kid' q by (rule aborted_expire) simp
  consider "db' = ?db"
    | t where "map_of ?ts ?k = Some t" "t_state t = TWaiting" "queue_serve P e kid request ?db = Commit db' out"
    | "map_of ?ts ?k = None" "queue_serve P e kid request ?db1 = Commit db' out"
    using adv q by (auto simp: AdvanceAPIKeyQueue_def split: if_splits sum.splits option.splits ticket_state.splits)
  then show ?thesis
  proof cases
    case 1
    then show ?thesis using ab by (intro that) simp_all
  next
    case (2 t)
    have "ticket_aborted P kid' q db'" if "ticket_aborted P kid' q ?db" for kid' q
      using 2(3) that 2(1,2) by (cases rule: queue_serve_tickets) (auto simp: ticket_aborted_def map_of_tput)
    moreover have "distinct (map fst (q_tickets db'))" if "distinct (map fst (q_tickets db0))"
      using 2(3) that by (cases rule: queue_serve_tickets) (auto simp: table_simps)
    ultimately show ?thesis using queue_serve_pool [OF 2(3)] ab by (intro that) auto
  next
    case 3
    have "ticket_aborted P kid' q db'" if "ticket_aborted P kid' q ?db" for kid' q
      using 3(2) that 3(1) by (cases rule: queue_serve_tickets) (auto simp: ticket_aborted_def map_of_tput)
    moreover have "distinct (map fst (q_tickets db'))" if "distinct (map fst (q_tickets db0))"
      using 3(2) that by (cases rule: queue_serve_tickets) (auto simp: table_simps)
    ultimately show ?thesis using queue_serve_pool [OF 3(2)] ab by (intro that) auto
  qed
qed

lemma Direct_effect:
  assumes "AcquireAPIKeySlotWithTime P failed e now kid request db0 = Commit db' res"
  shows "q_tickets db' = expire_tickets (po_region P) kid now (q_tickets db0)"
    "q_pool db' = po_lock P (api_key kid) (q_pool db0) \<or>
     (\<exists>ok. po_acquire P e (api_key kid) request (po_lock P (api_key kid) (q_pool db0)) = Inr (ok, q_pool db'))"
  using assms by (auto simp: AcquireAPIKeySlotWithTime_def queueTx_Inr split: if_splits sum.splits prod.splits)

lemma Abort_effect:
  assumes "AbortAPIKeyQueueAttempt P failed now kid request deadline remove db0 = Commit db' u"
  obtains t where "q_tickets db' = tput (po_region P, kid, request) t (expire_tickets (po_region P) kid now (q_tickets db0))"
    "t_state t = TAborted \<or> \<not> remove \<and> (\<exists>t0. map_of (q_tickets db0) (po_region P, kid, request) = Some t0 \<and> t_state t0 = TAcquired)"
    "if remove then po_release P (api_key kid) request (po_lock P (api_key kid) (q_pool db0)) = Inr (q_pool db')
     else q_pool db' = po_lock P (api_key kid) (q_pool db0)"
  using assms
  by (auto simp: AbortAPIKeyQueueAttempt_def queueTx_Inr Let_def map_of_expire split: if_splits sum.splits option.splits)

lemma Stats_effect:
  "GetAPIKeyQueueStats P failed now kid db0 = Commit db' n \<Longrightarrow>
   q_tickets db' = expire_tickets (po_region P) kid now (q_tickets db0) \<and> q_pool db' = po_lock P (api_key kid) (q_pool db0)"
  by (auto simp: GetAPIKeyQueueStats_def queueTx_Inr split: sum.splits)

lemma queue_step_keys: "queue_step P pstep db db' \<Longrightarrow> distinct (map fst (q_tickets db)) \<Longrightarrow> distinct (map fst (q_tickets db'))"
proof (induction rule: queue_step.induct)
  case qs_direct
  then show ?case using Direct_effect(1) keys_expire by metis
next
  case qs_advance
  then show ?case by (elim Advance_effect)
next
  case qs_abort
  then show ?case by (elim Abort_effect) (simp add: table_simps)
next
  case qs_stats
  then show ?case using Stats_effect keys_expire by metis
qed simp

lemma queue_step_aborted: "queue_step P pstep db db' \<Longrightarrow> ticket_aborted P kid q db \<Longrightarrow> ticket_aborted P kid q db'"
proof (induction rule: queue_step.induct)
  case qs_pool
  then show ?case by (simp add: ticket_aborted_def)
next
  case qs_direct
  then show ?case using Direct_effect(1) aborted_expire by metis
next
  case qs_advance
  then show ?case by (elim Advance_effect)
next
  case (qs_abort failed now kid' request deadline remove db db' u)
  from qs_abort(1) show ?case
  proof (cases rule: Abort_effect)
    case (1 t)
    let ?db1 = "db\<lparr>q_tickets := expire_tickets (po_region P) kid' now (q_tickets db)\<rparr>"
    have "ticket_aborted P kid q ?db1" using qs_abort.prems aborted_expire [of ?db1 "po_region P" kid' now db P kid q] by simp
    then show ?thesis
      using 1(1,2) qs_abort.prems
      by (intro aborted_put [of db' "(po_region P, kid', request)" t ?db1]) (auto simp: ticket_aborted_def)
  qed
next
  case qs_stats
  then show ?case using Stats_effect aborted_expire by metis
qed

lemma Advance_aborted:
  assumes "ticket_aborted P kid request db" "AdvanceAPIKeyQueue P failed e now kid request mode deadline limit maxWaiting db = Commit db' out"
  shows "out \<in> {Inr QAborted, Inr QPolicyChanged}"
  using assms
  by (auto simp: ticket_aborted_def AdvanceAPIKeyQueue_def queueTx_Inr map_of_expire split: if_splits sum.splits option.splits)

section \<open>The queue over any pool\<close>

context slot_pool
begin

definition pool_keeps :: "'db \<Rightarrow> 'db \<Rightarrow> bool" where
  "pool_keeps p p' \<longleftrightarrow> (inv p \<longrightarrow> inv p' \<and> (\<forall>r q. fenced r q p \<longrightarrow> fenced r q p'))"

lemma keeps_locked_step: "p' = po_lock P k p \<or> step (po_lock P k p) p' \<Longrightarrow> pool_keeps p p'"
  unfolding pool_keeps_def using step_inv step_fenced lock_inv lock_fenced by blast

lemma queue_step_keeps: "queue_step P step db db' \<Longrightarrow> pool_keeps (q_pool db) (q_pool db')"
proof (induction rule: queue_step.induct)
  case (qs_pool db p')
  then show ?case unfolding pool_keeps_def using step_inv step_fenced by simp
next
  case qs_direct
  then show ?case using Direct_effect(2) acquire_step keeps_locked_step by metis
next
  case (qs_advance failed e now kid request mode deadline limit maxWaiting db db' out)
  then show ?case by (elim Advance_effect) (metis acquire_step keeps_locked_step)
next
  case (qs_abort failed now kid request deadline remove db db' u)
  then show ?case by (elim Abort_effect) (metis release_step keeps_locked_step)
next
  case qs_stats
  then show ?case using Stats_effect keeps_locked_step by metis
qed

lemma queue_steps_fenced:
  assumes "(queue_step P step)\<^sup>*\<^sup>* db db'" "inv (q_pool db)" "fenced r q (q_pool db)" "ticket_aborted P kid request db"
  shows "inv (q_pool db') \<and> fenced r q (q_pool db') \<and> ticket_aborted P kid request db'"
  using assms
proof (induction rule: rtranclp_induct)
  case (step y z)
  then show ?case using queue_step_keeps [OF step(2)] queue_step_aborted [OF step(2)] by (auto simp: pool_keeps_def)
qed simp

lemma Abort_fences:
  assumes "inv (q_pool db)" "AbortAPIKeyQueueAttempt P failed now kid request deadline True db = Commit db' u"
  shows "inv (q_pool db') \<and> fenced (api_key kid) request (q_pool db') \<and> ticket_aborted P kid request db'"
  using assms(2)
proof (cases rule: Abort_effect)
  case (1 t)
  have "inv (po_lock P (api_key kid) (q_pool db))" using assms(1) by (simp add: lock_inv)
  moreover have "po_release P (api_key kid) request (po_lock P (api_key kid) (q_pool db)) = Inr (q_pool db')"
    using 1(3) by simp
  ultimately have "inv (q_pool db')" "fenced (api_key kid) request (q_pool db')"
    using step_inv release_step release_fenced by blast+
  then show ?thesis using 1(1,2) by (simp add: ticket_aborted_def map_of_tput)
qed

lemma abort_final:
  assumes "inv (q_pool db)" "AbortAPIKeyQueueAttempt P failed now kid request deadline True db = Commit db1 u"
    "(queue_step P step)\<^sup>*\<^sup>* db1 db2"
  shows "\<not> po_held P (api_key kid) request (q_pool db2) \<and>
    (AdvanceAPIKeyQueue P failed' e now' kid request mode deadline' limit maxWaiting db2 = Commit db3 out \<longrightarrow>
       out \<in> {Inr QAborted, Inr QPolicyChanged}) \<and>
    AcquireAPIKeySlotWithTime P failed' e now' kid request db2 \<noteq> Commit db4 (Inr (True, n))"
proof -
  have f: "inv (q_pool db2)" "fenced (api_key kid) request (q_pool db2)" "ticket_aborted P kid request db2"
    using queue_steps_fenced [OF assms(3)] Abort_fences [OF assms(1,2)] by blast+
  have "inv (po_lock P (api_key kid) (q_pool db2))" "fenced (api_key kid) request (po_lock P (api_key kid) (q_pool db2))"
    using f by (simp_all add: lock_inv lock_fenced)
  from acquire_fenced [OF this]
  have "AcquireAPIKeySlotWithTime P failed' e now' kid request db2 \<noteq> Commit db4 (Inr (True, n))"
    by (auto simp: AcquireAPIKeySlotWithTime_def queueTx_def split: sum.splits)
  then show ?thesis using f fenced_held Advance_aborted [OF f(3)] by blast
qed

lemma advance_holds:
  assumes "inv (q_pool db0)" "env_ok e" "distinct (map fst (q_tickets db0))"
    "AdvanceAPIKeyQueue P failed e now kid request mode deadline limit maxWaiting db0 = Commit db' (Inr QAcquired)"
  shows "po_held P (api_key kid) request (q_pool db') \<or>
    (\<exists>t. map_of (q_tickets db0) (po_region P, kid, request) = Some t \<and> t_state t = TAcquired)"
  using assms(4,3)
proof (cases rule: Advance_cases)
  case (serve db)
  have "inv (q_pool db)" using serve(6) assms(1) by (simp add: lock_inv)
  from serve(1,2,4) this show ?thesis
    by (cases rule: queue_serve_cases) (auto dest: acquire_held [OF _ assms(2)])
qed auto

end

section \<open>Properties\<close>

text \<open>C18: the queue of a key refines a first-in first-out queue. Take the live waiters in order before
  an attempt. An attempt answered \<open>Waiting\<close> leaves them in order with the request appended at the end
  if it was not among them (and then there was room); one answered \<open>Acquired\<close> either replays a ticket
  that was acquired before, changing nothing, or takes the request off the front of the queue; every other
  answer leaves the queue as it is. So no request overtakes another.\<close>

theorem advance_fifo:
  assumes "AdvanceAPIKeyQueue P failed e now kid request mode deadline limit maxWaiting db = Commit db' (Inr out)"
    "distinct (map fst (q_tickets db))"
  shows "let ws = live_waiters (po_region P) kid now db; ws' = waiting_requests (po_region P) kid (q_tickets db') in
    case out of
      QWaiting \<Rightarrow> ws' = joined request ws \<and> (request \<in> set ws \<or> int (length ws) < maxWaiting)
    | QAcquired \<Rightarrow> joined request ws = request # ws' \<or> ws' = ws \<and>
        (\<exists>t. map_of (q_tickets db) (po_region P, kid, request) = Some t \<and> t_state t = TAcquired)
    | _ \<Rightarrow> ws' = ws"
  using assms
proof (cases rule: Advance_cases)
  case (other q)
  then show ?thesis by (simp add: live_waiters_def Let_def split: APIKeyQueueOutcome.split)
next
  case (replay t)
  then show ?thesis by (simp add: live_waiters_def Let_def)
next
  case (serve db1)
  from serve(1,2,4) show ?thesis
    by (cases rule: queue_serve_cases) (use serve in \<open>auto simp: Let_def\<close>)
qed

definition sample_queue :: "authority queue_db" where
  "sample_queue = \<lparr>q_pool = empty_authority, q_tickets =
     [(('''', 5, ''a''), \<lparr>t_deadline = 100, t_limit = 3, t_state = TWaiting\<rparr>),
      (('''', 5, ''b''), \<lparr>t_deadline = 900, t_limit = 3, t_state = TWaiting\<rparr>)]\<rparr>"

theorem advance_fifo_witness:
  "\<exists>db'. AdvanceAPIKeyQueue primary_ops False sample_primary 200 5 ''c'' QEnter 900 3 10 sample_queue = Commit db' (Inr QWaiting) \<and>
     waiting_requests '''' 5 (q_tickets db') = [''b'', ''c'']"
proof -
  let ?b = "\<lparr>t_deadline = 900, t_limit = 3, t_state = TWaiting\<rparr>"
  let ?db = "\<lparr>q_pool = empty_authority\<lparr>budgets := [(api_key 5, \<lparr>b_primary_used = 0, b_granted = 0\<rparr>)]\<rparr>,
    q_tickets = [(('''', 5, ''a''), \<lparr>t_deadline = 100, t_limit = 3, t_state = TTimeout\<rparr>), (('''', 5, ''b''), ?b), (('''', 5, ''c''), ?b)]\<rparr>"
  have adv: "AdvanceAPIKeyQueue primary_ops False sample_primary 200 5 ''c'' QEnter 900 3 10 sample_queue = Commit ?db (Inr QWaiting)"
    by code_simp
  have live: "live_waiters '''' 5 200 sample_queue = [''b'']" by code_simp
  have "distinct (map fst (q_tickets sample_queue))" by (simp add: sample_queue_def)
  from advance_fifo [OF adv this] have "waiting_requests '''' 5 (q_tickets ?db) = [''b'', ''c'']"
    by (simp add: Let_def primary_ops_def live joined_def)
  then show ?thesis using adv by blast
qed

text \<open>a request that does not queue cannot overtake the queue: the direct acquisition of a slot of a
  key succeeds only when no live waiter of that key is queued.\<close>

theorem direct_acquire_no_bypass:
  assumes "AcquireAPIKeySlotWithTime P failed e now kid request db = Commit db' (Inr (True, n))"
  shows "live_waiters (po_region P) kid now db = [] \<and> n = now \<and>
    po_acquire P e (api_key kid) request (po_lock P (api_key kid) (q_pool db)) = Inr (True, q_pool db')"
  using assms
  by (auto simp: AcquireAPIKeySlotWithTime_def queueTx_Inr live_waiters_def split: if_splits sum.splits prod.splits)

theorem direct_acquire_no_bypass_witness:
  "\<exists>db'. AcquireAPIKeySlotWithTime primary_ops False sample_primary 950 5 ''c'' sample_queue = Commit db' (Inr (True, 950)) \<and>
     live_waiters '''' 5 950 sample_queue = []"
proof -
  let ?db = "\<lparr>q_pool = \<lparr>budgets = [(api_key 5, \<lparr>b_primary_used = 1, b_granted = 0\<rparr>)], agrants = [], rejections = [],
      pslots = [((api_key 5, ''c''), False)]\<rparr>,
    q_tickets = [(('''', 5, ''a''), \<lparr>t_deadline = 100, t_limit = 3, t_state = TTimeout\<rparr>),
      (('''', 5, ''b''), \<lparr>t_deadline = 900, t_limit = 3, t_state = TTimeout\<rparr>)]\<rparr>"
  have acq: "AcquireAPIKeySlotWithTime primary_ops False sample_primary 950 5 ''c'' sample_queue = Commit ?db (Inr (True, 950))"
    by code_simp
  from direct_acquire_no_bypass [OF acq] show ?thesis using acq by (auto simp: primary_ops_def)
qed

text \<open>Aborting an attempt with removal is final in a region: after any further operations on the queue
  and the slots, the request holds no slot, every further attempt with its ticket is answered \<open>Aborted\<close> (or
  \<open>PolicyChanged\<close>), and no direct acquisition for it succeeds. A late poll cannot resurrect it.\<close>

theorem local_abort_final:
  assumes "local_inv region (q_pool db)"
    "AbortAPIKeyQueueAttempt (local_ops region) failed now kid request deadline True db = Commit db1 u"
    "(queue_step (local_ops region) (local_step region))\<^sup>*\<^sup>* db1 db2"
  shows "\<not> local_Held region (api_key kid) request (q_pool db2) \<and>
    (AdvanceAPIKeyQueue (local_ops region) failed' e now' kid request mode deadline' limit maxWaiting db2 = Commit db3 out \<longrightarrow>
       out \<in> {Inr QAborted, Inr QPolicyChanged}) \<and>
    AcquireAPIKeySlotWithTime (local_ops region) failed' e now' kid request db2 \<noteq> Commit db4 (Inr (True, n))"
  using lp.abort_final [OF assms] by (simp add: local_ops_def)

theorem local_abort_final_witness:
  "\<exists>db1. AbortAPIKeyQueueAttempt (local_ops ''eu'') False 10 5 ''c'' 900 True \<lparr>q_pool = empty_local, q_tickets = []\<rparr> = Commit db1 (Inr ()) \<and>
     \<not> local_Held ''eu'' (api_key 5) ''c'' (q_pool db1)"
proof -
  let ?db = "\<lparr>q_pool = empty_local\<lparr>lbudgets := [(api_key 5, \<lparr>b_primary_used = 0, b_granted = 0\<rparr>)],
      lcancels := [(''eu'', api_key 5, ''c'')]\<rparr>,
    q_tickets = [((''eu'', 5, ''c''), \<lparr>t_deadline = 900, t_limit = 0, t_state = TAborted\<rparr>)]\<rparr>"
  have ab: "AbortAPIKeyQueueAttempt (local_ops ''eu'') False 10 5 ''c'' 900 True \<lparr>q_pool = empty_local, q_tickets = []\<rparr> = Commit ?db (Inr ())"
    by code_simp
  have "local_inv ''eu'' (q_pool \<lparr>q_pool = empty_local, q_tickets = []\<rparr>)" by (simp add: local_inv_empty)
  from local_abort_final [OF this ab rtranclp.rtrancl_refl] show ?thesis using ab by blast
qed

end
