(* ===== verification/Redis.thy ===== *)
theory Redis
  imports KeyQueue
begin

text \<open>
  The Redis structures \<^verbatim>\<open>backend/internal/repository/concurrency_cache.go\<close> works on: sorted sets of members
  with integer scores, counters, and the expiry of whole keys. A command is a function on one sorted set; a script is a
  composition of commands, run as one step at one time. Times are Redis milliseconds; \<open>TIME\<close> in seconds is the quotient
  by 1000. A key that holds nothing does not exist, so it has no expiry.
\<close>

section \<open>Keys\<close>

datatype redis_key =
  AccountSlots int | UserSlots int | ApiKeySlots int
| LiveAccount int | LiveUser int | LiveApiKey int
| WsIngress int
| ApiKeyWait int | ApiKeyClosed int | TransferFence int
| UserWaitCount int | AccountWaitCount int

text \<open>The code formats the names with \<open>%d\<close> or \<open>strconv.FormatInt\<close>.\<close>

primrec redis_name :: "redis_key \<Rightarrow> string" where
  "redis_name (AccountSlots i) = ''concurrency:account:'' @ FormatInt i"
| "redis_name (UserSlots i) = ''concurrency:user:'' @ FormatInt i"
| "redis_name (ApiKeySlots i) = ''concurrency:api_key:'' @ FormatInt i"
| "redis_name (LiveAccount i) = ''concurrency:live:account:'' @ FormatInt i"
| "redis_name (LiveUser i) = ''concurrency:live:user:'' @ FormatInt i"
| "redis_name (LiveApiKey i) = ''concurrency:live:api_key:'' @ FormatInt i"
| "redis_name (WsIngress i) = ''concurrency:openai_ws_ingress:api_key:'' @ FormatInt i"
| "redis_name (ApiKeyWait i) = ''concurrency:wait:api_key:'' @ FormatInt i"
| "redis_name (ApiKeyClosed i) = ''concurrency:wait_closed:api_key:'' @ FormatInt i"
| "redis_name (TransferFence i) = ''concurrency:live_transfer_closed:api_key:'' @ FormatInt i"
| "redis_name (UserWaitCount i) = ''concurrency:wait:'' @ FormatInt i"
| "redis_name (AccountWaitCount i) = ''wait:account:'' @ FormatInt i"

section \<open>Sorted sets\<close>

record zset =
  zs_rows :: "(string, int) table"
  zs_expire :: "int option"

definition no_zset :: zset where "no_zset = \<lparr>zs_rows = [], zs_expire = None\<rparr>"

definition settle :: "zset \<Rightarrow> zset" where
  "settle z = (if zs_rows z = [] then no_zset else z)"

definition ZSCORE :: "string \<Rightarrow> zset \<Rightarrow> int option" where "ZSCORE m z = map_of (zs_rows z) m"

definition ZCARD :: "zset \<Rightarrow> int" where "ZCARD z = int (length (zs_rows z))"

definition ZADD :: "int \<Rightarrow> string \<Rightarrow> zset \<Rightarrow> zset" where
  "ZADD s m z = z\<lparr>zs_rows := tput m s (zs_rows z)\<rparr>"

definition ZREM :: "string \<Rightarrow> zset \<Rightarrow> zset" where
  "ZREM m z = settle (z\<lparr>zs_rows := filter (\<lambda>(k, s). k \<noteq> m) (zs_rows z)\<rparr>)"

text \<open>\<open>ZREMRANGEBYSCORE key -inf hi\<close>.\<close>

definition ZREMRANGE :: "int \<Rightarrow> zset \<Rightarrow> zset" where
  "ZREMRANGE hi z = settle (z\<lparr>zs_rows := filter (\<lambda>(k, s). hi < s) (zs_rows z)\<rparr>)"

text \<open>The score \<open>ZREVRANGE key 0 0 WITHSCORES\<close> returns, if the key exists.\<close>

definition greatest_score :: "zset \<Rightarrow> int option" where
  "greatest_score z = (case zs_rows z of [] \<Rightarrow> None | r # rs \<Rightarrow> Some (fold (\<lambda>(k, s). max s) rs (snd r)))"

text \<open>A relative expiry of zero or less deletes the key at once.\<close>

definition EXPIRE :: "int \<Rightarrow> int \<Rightarrow> zset \<Rightarrow> zset" where
  "EXPIRE t secs z =
     (if zs_rows z = [] then z
      else if secs \<le> 0 then no_zset
      else z\<lparr>zs_expire := Some (t + 1000 * secs)\<rparr>)"

section \<open>The keyspace\<close>

record redis =
  zsets :: "redis_key \<Rightarrow> zset"
  counters :: "redis_key \<Rightarrow> (int \<times> int option) option"

definition empty_redis :: redis where
  "empty_redis = \<lparr>zsets = (\<lambda>_. no_zset), counters = (\<lambda>_. None)\<rparr>"

text \<open>What is left of the keyspace at a time: a key whose expiry has passed does not exist.\<close>

definition expired :: "int \<Rightarrow> int option \<Rightarrow> bool" where
  "expired t e = (case e of None \<Rightarrow> False | Some x \<Rightarrow> x < t)"

definition awake :: "int \<Rightarrow> redis \<Rightarrow> redis" where
  "awake t db =
     \<lparr>zsets = (\<lambda>k. if expired t (zs_expire (zsets db k)) then no_zset else zsets db k),
      counters = (\<lambda>k. case counters db k of None \<Rightarrow> None | Some (n, e) \<Rightarrow> if expired t e then None else Some (n, e))\<rparr>"

definition on :: "redis_key \<Rightarrow> (zset \<Rightarrow> zset) \<Rightarrow> redis \<Rightarrow> redis" where
  "on k f db = db\<lparr>zsets := (zsets db)(k := f (zsets db k))\<rparr>"

abbreviation seconds :: "int \<Rightarrow> int" where "seconds t \<equiv> t div 1000"

section \<open>Names\<close>

lemma FormatInt_start: "\<exists>c r. FormatInt n = c # r \<and> (c = CHR ''-'' \<or> is_digit c)"
proof (cases "n < 0")
  case False
  then obtain c r where "dec (nat n) = c # r" by (cases "dec (nat n)") auto
  moreover from this have "is_digit c" using digits_dec [of "nat n"] by simp
  ultimately show ?thesis using False by (simp add: FormatInt_def)
qed (simp add: FormatInt_def)

lemma FormatInt_no_letter: "is_letter c \<Longrightarrow> FormatInt n \<noteq> c # r"
  using FormatInt_start [of n] by (auto simp: is_digit_def is_letter_def)

lemma dec_inject: "dec m = dec n \<longleftrightarrow> m = n"
  by (metis undec_dec)

lemma FormatInt_inject [simp]: "FormatInt m = FormatInt n \<longleftrightarrow> m = n"
proof
  have neg: "CHR ''-'' # dec k \<noteq> dec j" for k j
  proof
    assume "CHR ''-'' # dec k = dec j"
    then have "list_all is_digit (CHR ''-'' # dec k)" using digits_dec [of j] by simp
    then show False by (simp add: is_digit_def)
  qed
  assume "FormatInt m = FormatInt n"
  then show "m = n" by (auto simp: FormatInt_def dec_inject neg neg [symmetric] split: if_splits)
qed simp

text \<open>Different structures have different names.\<close>

lemma redis_name_inject: "redis_name k = redis_name k' \<longleftrightarrow> k = k'"
proof
  have letters: "FormatInt n \<noteq> CHR ''a'' # r" "CHR ''a'' # r \<noteq> FormatInt n" for n r
    using FormatInt_no_letter [of "CHR ''a''" n r] by (auto simp: is_letter_def)
  assume "redis_name k = redis_name k'"
  then show "k = k'" by (cases k; cases k') (simp_all add: letters)
qed simp

end
