(* ===== verification/RedisSlots.thy ===== *)
theory RedisSlots
  imports Redis
begin

text \<open>
  The concurrency cache of \<^verbatim>\<open>backend/internal/repository/concurrency_cache.go\<close>: its Lua scripts and the Go methods around
  them. Each script is a function of the Redis time \<open>t\<close> and the keyspace, and \<open>KEYS\<close> and \<open>ARGV\<close> are its arguments.
  A call of Redis may fail with or without having run. The active index, which only tells the background cleanup where
  to look, is left out.
\<close>

section \<open>Configuration\<close>

record concurrencyCache =
  slotTTLSeconds :: int
  waitQueueTTLSeconds :: int

definition defaultSlotTTLMinutes :: int where "defaultSlotTTLMinutes = 15"
definition liveLeaseTTLSeconds :: int where "liveLeaseTTLSeconds = 60"
definition openAIWSIngressLeaseTTLSeconds :: int where "openAIWSIngressLeaseTTLSeconds = 60"
definition apiKeyQueueCleanupGraceSeconds :: int where "apiKeyQueueCleanupGraceSeconds = 5"

definition NewConcurrencyCache :: "int \<Rightarrow> int \<Rightarrow> concurrencyCache" where
  "NewConcurrencyCache slotTTLMinutes waitTTL =
     (let minutes = (if slotTTLMinutes \<le> 0 then defaultSlotTTLMinutes else slotTTLMinutes)
      in \<lparr>slotTTLSeconds = minutes * 60, waitQueueTTLSeconds = (if waitTTL \<le> 0 then minutes * 60 else waitTTL)\<rparr>)"

section \<open>Slots of accounts and users\<close>

definition acquireScript ::
  "redis_key \<Rightarrow> redis_key \<Rightarrow> int \<Rightarrow> int \<Rightarrow> string \<Rightarrow> int \<Rightarrow> redis \<Rightarrow> (int \<times> int) \<times> redis" where
  "acquireScript key liveKey maxConcurrency ttl requestID t db0 =
     (let now = seconds t;
          db = on liveKey (ZREMRANGE (now - 60)) (on key (ZREMRANGE (now - ttl)) (awake t db0));
          granted = ((1, now), on key (EXPIRE t ttl) (on key (ZADD now requestID) db))
      in if ZSCORE requestID (zsets db key) \<noteq> None then granted
         else if ZCARD (zsets db key) + ZCARD (zsets db liveKey) < maxConcurrency then granted
         else ((0, now), db))"

definition getCountScript :: "redis_key \<Rightarrow> redis_key \<Rightarrow> int \<Rightarrow> int \<Rightarrow> redis \<Rightarrow> int \<times> redis" where
  "getCountScript key liveKey ttl t db0 =
     (let now = seconds t;
          db = on liveKey (ZREMRANGE (now - 60)) (on key (ZREMRANGE (now - ttl)) (awake t db0))
      in (ZCARD (zsets db key) + ZCARD (zsets db liveKey), db))"

definition trackSlotScript :: "redis_key \<Rightarrow> int \<Rightarrow> string \<Rightarrow> int \<Rightarrow> redis \<Rightarrow> int \<times> redis" where
  "trackSlotScript key ttl requestID t db0 =
     (let now = seconds t
      in (1, on key (EXPIRE t ttl) (on key (ZADD now requestID) (on key (ZREMRANGE (now - ttl)) (awake t db0)))))"

definition cleanupExpiredSlotsScript :: "redis_key \<Rightarrow> int \<Rightarrow> int \<Rightarrow> redis \<Rightarrow> int \<times> redis" where
  "cleanupExpiredSlotsScript key ttl t db0 =
     (let db = on key (ZREMRANGE (seconds t - ttl)) (awake t db0)
      in (1, if ZCARD (zsets db key) = 0 then on key (\<lambda>_. no_zset) db else on key (EXPIRE t ttl) db))"

definition releaseSlot :: "redis_key \<Rightarrow> string \<Rightarrow> int \<Rightarrow> redis \<Rightarrow> int \<times> redis" where
  "releaseSlot key requestID t db0 = (1, on key (ZREM requestID) (awake t db0))"

section \<open>Counters of waiting requests\<close>

definition incrementWaitScript :: "redis_key \<Rightarrow> int \<Rightarrow> int \<Rightarrow> int \<Rightarrow> redis \<Rightarrow> (int \<times> int) \<times> redis" where
  "incrementWaitScript key maxWait ttl t db0 =
     (let db = awake t db0;
          current = (case counters db key of None \<Rightarrow> 0 | Some (n, e) \<Rightarrow> n)
      in if current \<ge> maxWait then ((0, seconds t), db)
         else ((1, seconds t), db\<lparr>counters := (counters db)(key :=
                 if ttl \<le> 0 then None else Some (current + 1, Some (t + 1000 * ttl)))\<rparr>))"

definition decrementWaitScript :: "redis_key \<Rightarrow> int \<Rightarrow> redis \<Rightarrow> int \<times> redis" where
  "decrementWaitScript key t db0 =
     (let db = awake t db0
      in (1, case counters db key of
               None \<Rightarrow> db
             | Some (n, e) \<Rightarrow> if n > 0 then db\<lparr>counters := (counters db)(key := Some (n - 1, e))\<rparr> else db))"

section \<open>Live leases\<close>

definition acquireLiveLeaseScript ::
  "redis_key \<times> redis_key \<Rightarrow> redis_key \<times> redis_key \<Rightarrow> redis_key \<times> redis_key \<Rightarrow> int \<Rightarrow> int \<Rightarrow> int \<Rightarrow> string \<Rightarrow> bool \<Rightarrow> int \<Rightarrow> int \<Rightarrow> string
   \<Rightarrow> int \<Rightarrow> redis \<Rightarrow> int \<times> redis" where
  "acquireLiveLeaseScript account user api accountMax userMax ttl leaseID replacing apiMax slotTTL source t db0 =
     (let (accountRegular, accountLive) = account; (userRegular, userLive) = user; (apiRegular, apiLive) = api;
          now = seconds t;
          db = on apiRegular (ZREMRANGE (now - slotTTL)) (on apiLive (ZREMRANGE (now - ttl))
                 (on userLive (ZREMRANGE (now - ttl)) (on accountLive (ZREMRANGE (now - ttl)) (awake t db0))))
      in if ZSCORE leaseID (zsets db accountLive) \<noteq> None then (1, db)
         else
           let accountCount = ZCARD (zsets db accountRegular) + ZCARD (zsets db accountLive);
               userCount = ZCARD (zsets db userRegular) + ZCARD (zsets db userLive);
               allowance = (if replacing then 1 else 0)
           in if accountMax > 0 \<and> accountCount \<ge> accountMax + allowance then (0, db)
              else if userMax > 0 \<and> userCount \<ge> userMax + allowance then (0, db)
              else
                let apiCount = ZCARD (zsets db apiRegular) + ZCARD (zsets db apiLive);
                    held = source \<noteq> '''' \<and> ZSCORE source (zsets db apiRegular) \<noteq> None
                in if apiMax > 0 \<and> source \<noteq> '''' \<and> ZSCORE leaseID (zsets db apiLive) = None \<and> \<not> held then (3, db)
                   else
                     let db1 = (if apiMax > 0 \<and> held then on apiRegular (ZREM source) db else db);
                         count1 = (if apiMax > 0 \<and> held then apiCount - 1 else apiCount)
                     in if apiMax > 0 \<and> count1 \<ge> apiMax then (2, db1)
                        else (1, on apiLive (EXPIRE t ttl) (on userLive (EXPIRE t ttl) (on accountLive (EXPIRE t ttl)
                               (on apiLive (ZADD now leaseID) (on userLive (ZADD now leaseID)
                                 (on accountLive (ZADD now leaseID) db1)))))))"

text \<open>The identities of a hand-over: one ordinary slot of the account, the user and the key each, and the lease.\<close>

record LiveLeaseTransferRequest =
  lt_AccountID :: int
  lt_AccountMax :: int
  lt_AccountRequestID :: string
  lt_UserID :: int
  lt_UserMax :: int
  lt_UserRequestID :: string
  lt_APIKeyID :: int
  lt_APIKeyMax :: int
  lt_KeyRequestID :: string
  lt_LeaseID :: string
  lt_ReplacedAccountID :: int

definition source_lost :: "int \<Rightarrow> string \<Rightarrow> zset \<Rightarrow> bool" where
  "source_lost maxSlots source z \<longleftrightarrow> maxSlots > 0 \<and> (source = '''' \<or> ZSCORE source z = None)"

definition no_capacity :: "int \<Rightarrow> zset \<Rightarrow> zset \<Rightarrow> bool" where
  "no_capacity maxSlots regular live \<longleftrightarrow> maxSlots > 0 \<and> ZCARD regular + ZCARD live - 1 \<ge> maxSlots"

definition transferLiveLeaseScript :: "LiveLeaseTransferRequest \<Rightarrow> int \<Rightarrow> int \<Rightarrow> int \<Rightarrow> redis \<Rightarrow> int \<times> redis" where
  "transferLiveLeaseScript q ttl slotTTL t db0 =
     (let accountRegular = AccountSlots (lt_AccountID q); accountLive = LiveAccount (lt_AccountID q);
          userRegular = UserSlots (lt_UserID q); userLive = LiveUser (lt_UserID q);
          apiRegular = ApiKeySlots (lt_APIKeyID q); apiLive = LiveApiKey (lt_APIKeyID q);
          fence = TransferFence (lt_APIKeyID q);
          leaseID = lt_LeaseID q; now = seconds t;
          db = on fence (ZREMRANGE t) (on apiRegular (ZREMRANGE (now - slotTTL)) (on apiLive (ZREMRANGE (now - ttl))
                 (on userLive (ZREMRANGE (now - ttl)) (on accountLive (ZREMRANGE (now - ttl)) (awake t db0)))));
          has = (\<lambda>k. ZSCORE leaseID (zsets db k) \<noteq> None)
      in if has fence then (8, db)
         else if has accountLive \<and> has userLive \<and> has apiLive then (1, db)
         else if has accountLive \<or> has userLive \<or> has apiLive then (9, db)
         else if source_lost (lt_AccountMax q) (lt_AccountRequestID q) (zsets db accountRegular) then (5, db)
         else if source_lost (lt_UserMax q) (lt_UserRequestID q) (zsets db userRegular) then (7, db)
         else if source_lost (lt_APIKeyMax q) (lt_KeyRequestID q) (zsets db apiRegular) then (3, db)
         else if no_capacity (lt_AccountMax q) (zsets db accountRegular) (zsets db accountLive) then (4, db)
         else if no_capacity (lt_UserMax q) (zsets db userRegular) (zsets db userLive) then (6, db)
         else if no_capacity (lt_APIKeyMax q) (zsets db apiRegular) (zsets db apiLive) then (2, db)
         else
           let db1 = (if lt_AccountMax q > 0 then on accountRegular (ZREM (lt_AccountRequestID q)) db else db);
               db2 = (if lt_UserMax q > 0 then on userRegular (ZREM (lt_UserRequestID q)) db1 else db1);
               db3 = (if lt_KeyRequestID q \<noteq> '''' then on apiRegular (ZREM (lt_KeyRequestID q)) db2 else db2)
           in (1, on apiLive (EXPIRE t ttl) (on userLive (EXPIRE t ttl) (on accountLive (EXPIRE t ttl)
                    (on apiLive (ZADD now leaseID) (on userLive (ZADD now leaseID)
                      (on accountLive (ZADD now leaseID) db3)))))))"

definition migrateLiveLeaseAccountScript :: "LiveLeaseTransferRequest \<Rightarrow> int \<Rightarrow> int \<Rightarrow> int \<Rightarrow> redis \<Rightarrow> int \<times> redis" where
  "migrateLiveLeaseAccountScript q ttl slotTTL t db0 =
     (let newRegular = AccountSlots (lt_AccountID q); newLive = LiveAccount (lt_AccountID q);
          oldLive = LiveAccount (lt_ReplacedAccountID q);
          userLive = LiveUser (lt_UserID q); apiLive = LiveApiKey (lt_APIKeyID q);
          leaseID = lt_LeaseID q; now = seconds t;
          db = on newRegular (ZREMRANGE (now - slotTTL)) (on apiLive (ZREMRANGE (now - ttl))
                 (on userLive (ZREMRANGE (now - ttl)) (on newLive (ZREMRANGE (now - ttl)) (awake t db0))))
      in if ZSCORE leaseID (zsets db userLive) = None \<or> ZSCORE leaseID (zsets db apiLive) = None then (2, db)
         else if source_lost (lt_AccountMax q) (lt_AccountRequestID q) (zsets db newRegular) then (3, db)
         else if no_capacity (lt_AccountMax q) (zsets db newRegular) (zsets db newLive) then (4, db)
         else
           let db1 = (if lt_AccountMax q > 0 then on newRegular (ZREM (lt_AccountRequestID q)) db else db)
           in (1, on apiLive (EXPIRE t ttl) (on userLive (EXPIRE t ttl) (on newLive (EXPIRE t ttl)
                    (on apiLive (ZADD now leaseID) (on userLive (ZADD now leaseID) (on newLive (ZADD now leaseID)
                      (on oldLive (ZREM leaseID) db1))))))))"

definition rem_source :: "redis_key \<Rightarrow> string \<Rightarrow> redis \<Rightarrow> redis" where
  "rem_source k m db = (if m \<noteq> '''' then on k (ZREM m) db else db)"

definition abortLiveLeaseTransferScript :: "LiveLeaseTransferRequest \<Rightarrow> int \<Rightarrow> int \<Rightarrow> redis \<Rightarrow> int \<times> redis" where
  "abortLiveLeaseTransferScript q fenceTTL t db0 =
     (let fence = TransferFence (lt_APIKeyID q); leaseID = lt_LeaseID q;
          db1 = on fence (EXPIRE t fenceTTL) (on fence (ZADD (t + fenceTTL * 1000) leaseID) (awake t db0));
          db2 = rem_source (ApiKeySlots (lt_APIKeyID q)) (lt_KeyRequestID q)
                  (rem_source (UserSlots (lt_UserID q)) (lt_UserRequestID q)
                    (rem_source (AccountSlots (lt_AccountID q)) (lt_AccountRequestID q) db1))
      in (1, on (LiveApiKey (lt_APIKeyID q)) (ZREM leaseID) (on (LiveUser (lt_UserID q)) (ZREM leaseID)
               (on (LiveAccount (lt_AccountID q)) (ZREM leaseID) db2))))"

text \<open>The first loop prunes one key after the other and stops at the first that has lost the lease.\<close>

fun refresh_check :: "int \<Rightarrow> string \<Rightarrow> redis_key list \<Rightarrow> redis \<Rightarrow> bool \<times> redis" where
  "refresh_check cutoff leaseID [] db = (True, db)"
| "refresh_check cutoff leaseID (k # ks) db =
     (let db1 = on k (ZREMRANGE cutoff) db
      in if ZSCORE leaseID (zsets db1 k) = None then (False, db1) else refresh_check cutoff leaseID ks db1)"

definition refreshLiveLeaseScript :: "redis_key list \<Rightarrow> int \<Rightarrow> string \<Rightarrow> int \<Rightarrow> redis \<Rightarrow> int \<times> redis" where
  "refreshLiveLeaseScript keys ttl leaseID t db0 =
     (case refresh_check (seconds t - ttl) leaseID keys (awake t db0) of
        (False, db) \<Rightarrow> (0, db)
      | (True, db) \<Rightarrow> (1, fold (\<lambda>k d. on k (EXPIRE t ttl) (on k (ZADD (seconds t) leaseID) d)) keys db))"

definition releaseLiveLease :: "int \<Rightarrow> int \<Rightarrow> int \<Rightarrow> string \<Rightarrow> int \<Rightarrow> redis \<Rightarrow> int \<times> redis" where
  "releaseLiveLease accountID userID apiKeyID leaseID t db0 =
     (1, on (LiveApiKey apiKeyID) (ZREM leaseID) (on (LiveUser userID) (ZREM leaseID)
           (on (LiveAccount accountID) (ZREM leaseID) (awake t db0))))"

section \<open>Connections\<close>

definition acquireOpenAIWSIngressLeaseScript :: "redis_key \<Rightarrow> int \<Rightarrow> int \<Rightarrow> string \<Rightarrow> int \<Rightarrow> redis \<Rightarrow> int \<times> redis" where
  "acquireOpenAIWSIngressLeaseScript key maxConnections ttl leaseID t db0 =
     (let now = seconds t;
          db = on key (ZREMRANGE (now - ttl)) (awake t db0);
          granted = (1, on key (EXPIRE t ttl) (on key (ZADD now leaseID) db))
      in if ZSCORE leaseID (zsets db key) \<noteq> None then granted
         else if ZCARD (zsets db key) < maxConnections then granted
         else (0, db))"

definition refreshOpenAIWSIngressLeaseScript :: "redis_key \<Rightarrow> int \<Rightarrow> string \<Rightarrow> int \<Rightarrow> redis \<Rightarrow> int \<times> redis" where
  "refreshOpenAIWSIngressLeaseScript key ttl leaseID t db0 =
     (let now = seconds t;
          db = on key (ZREMRANGE (now - ttl)) (awake t db0)
      in if ZSCORE leaseID (zsets db key) = None then (0, db)
         else (1, on key (EXPIRE t ttl) (on key (ZADD now leaseID) db)))"

section \<open>Slots of keys and their queue\<close>

definition acquireAPIKeySlotScript :: "int \<Rightarrow> int \<Rightarrow> int \<Rightarrow> string \<Rightarrow> int \<Rightarrow> int \<Rightarrow> redis \<Rightarrow> (int \<times> int) \<times> redis" where
  "acquireAPIKeySlotScript kid ttl liveTTL member limit t db0 =
     (let regular = ApiKeySlots kid; live = LiveApiKey kid; now = seconds t;
          db = on live (ZREMRANGE (now - liveTTL)) (on regular (ZREMRANGE (now - ttl)) (awake t db0))
      in if ZSCORE member (zsets db regular) \<noteq> None then ((1, t), db)
         else if ZSCORE member (zsets db (ApiKeyClosed kid)) \<noteq> None then ((4, t), db)
         else if ZSCORE member (zsets db (ApiKeyWait kid)) \<noteq> None then ((0, t), db)
         else if limit > 0 \<and> ZCARD (zsets db regular) + ZCARD (zsets db live) \<ge> limit then ((0, t), db)
         else ((1, t), on regular (EXPIRE t ttl) (on regular (ZADD now member) db)))"

text \<open>\<open>math.ceil((until - nowMs) / 1000) + grace\<close>, at least 1.\<close>

definition cover_ttl :: "int \<Rightarrow> int \<Rightarrow> int \<Rightarrow> int" where
  "cover_ttl t until grace = (let ttl = - ((t - until) div 1000) + grace in if ttl < 1 then 1 else ttl)"

definition advanceAPIKeyQueueScript ::
  "int \<Rightarrow> APIKeyQueueMode \<Rightarrow> string \<Rightarrow> int \<Rightarrow> int \<Rightarrow> int \<Rightarrow> int \<Rightarrow> int \<Rightarrow> int \<Rightarrow> int \<Rightarrow> redis \<Rightarrow> int \<times> redis" where
  "advanceAPIKeyQueueScript kid mode attemptID deadlineMs limit maxWaiting ttl liveTTL grace t db0 =
     (let regular = ApiKeySlots kid; live = LiveApiKey kid; wait = ApiKeyWait kid; closed = ApiKeyClosed kid;
          now = seconds t;
          db = on closed (ZREMRANGE t) (on wait (ZREMRANGE t) (on live (ZREMRANGE (now - liveTTL))
                 (on regular (ZREMRANGE (now - ttl)) (awake t db0))))
      in if t \<ge> deadlineMs then (3, on wait (ZREM attemptID) db)
         else if limit \<le> 0 then (6, db)
         else if ZSCORE attemptID (zsets db regular) \<noteq> None then (1, on wait (ZREM attemptID) db)
         else if ZSCORE attemptID (zsets db closed) \<noteq> None then (4, db)
         else
           let queued = ZSCORE attemptID (zsets db wait) in
           if queued \<noteq> None \<and> queued \<noteq> Some deadlineMs then (5, db)
           else if mode = QPoll \<and> queued = None then (5, db)
           else if ZCARD (zsets db regular) + ZCARD (zsets db live) < limit then
             let db1 = on closed (ZADD deadlineMs attemptID) (on wait (ZREM attemptID)
                         (on regular (EXPIRE t ttl) (on regular (ZADD now attemptID) db)));
                 closedUntil = (case greatest_score (zsets db1 closed) of None \<Rightarrow> deadlineMs | Some s \<Rightarrow> s)
             in (1, on closed (EXPIRE t (cover_ttl t closedUntil grace)) db1)
           else if maxWaiting = 0 then (8, db)
           else if queued = None \<and> ZCARD (zsets db wait) \<ge> maxWaiting then (7, db)
           else
             let db1 = (if queued = None then on wait (ZADD deadlineMs attemptID) db else db)
             in (2, case greatest_score (zsets db1 wait) of
                      None \<Rightarrow> db1
                    | Some s \<Rightarrow> on wait (EXPIRE t (cover_ttl t s grace)) db1))"

definition abortAPIKeyQueueScript :: "int \<Rightarrow> string \<Rightarrow> int \<Rightarrow> int \<Rightarrow> bool \<Rightarrow> int \<Rightarrow> redis \<Rightarrow> int \<times> redis" where
  "abortAPIKeyQueueScript kid attemptID deadlineMs grace removeRegular t db0 =
     (let closed = ApiKeyClosed kid;
          db = awake t db0;
          db1 = (if t < deadlineMs then
                   let d = on closed (ZADD deadlineMs attemptID) db;
                       closedUntil = (case greatest_score (zsets d closed) of None \<Rightarrow> deadlineMs | Some s \<Rightarrow> s)
                   in on closed (EXPIRE t (cover_ttl t closedUntil grace)) d
                 else db);
          db2 = on (ApiKeyWait kid) (ZREM attemptID) db1
      in (1, if removeRegular then on (ApiKeySlots kid) (ZREM attemptID) db2 else db2))"

definition apiKeyQueueStatsScript :: "int \<Rightarrow> int \<Rightarrow> int \<Rightarrow> int \<Rightarrow> redis \<Rightarrow> (int \<times> int) \<times> redis" where
  "apiKeyQueueStatsScript kid ttl liveTTL t db0 =
     (let db = on (ApiKeyClosed kid) (ZREMRANGE t) (on (ApiKeyWait kid) (ZREMRANGE t)
                 (on (LiveApiKey kid) (ZREMRANGE (seconds t - liveTTL))
                   (on (ApiKeySlots kid) (ZREMRANGE (seconds t - ttl)) (awake t db0))))
      in ((ZCARD (zsets db (ApiKeySlots kid)) + ZCARD (zsets db (LiveApiKey kid)), ZCARD (zsets db (ApiKeyWait kid))), db))"

definition refreshAPIKeySlotScript :: "int \<Rightarrow> int \<Rightarrow> string \<Rightarrow> int \<Rightarrow> redis \<Rightarrow> int \<times> redis" where
  "refreshAPIKeySlotScript kid ttl member t db0 =
     (let key = ApiKeySlots kid; db = awake t db0
      in if ZSCORE member (zsets db key) = None then (0, db)
         else (1, on key (EXPIRE t ttl) (on key (ZADD (seconds t) member) db)))"

section \<open>Calls\<close>

text \<open>A call that fails may have run: its reply was lost.\<close>

definition redis_call :: "db_fault \<Rightarrow> (redis \<Rightarrow> 'a \<times> redis) \<Rightarrow> redis \<Rightarrow> 'a option \<times> redis" where
  "redis_call flt script db =
     (case flt of
        NoFault \<Rightarrow> (case script db of (a, db') \<Rightarrow> (Some a, db'))
      | CommitKept \<Rightarrow> (None, snd (script db))
      | _ \<Rightarrow> (None, db))"

section \<open>Loads\<close>

record AccountLoadInfo =
  CurrentConcurrency :: int
  WaitingCount :: int
  LoadRate :: int

text \<open>
  The commands \<open>GetAccountsLoadBatch\<close> sends for one account; other commands may run between those of two accounts.
  \<open>now\<close> is the second an earlier \<open>TIME\<close> returned.
\<close>

definition account_load :: "concurrencyCache \<Rightarrow> int \<Rightarrow> int \<Rightarrow> int \<Rightarrow> int \<Rightarrow> redis \<Rightarrow> AccountLoadInfo \<times> redis" where
  "account_load c accountID maxConcurrency now t db0 =
     (let db = on (LiveAccount accountID) (ZREMRANGE (now - liveLeaseTTLSeconds))
                 (on (AccountSlots accountID) (ZREMRANGE (now - slotTTLSeconds c)) (awake t db0));
          current = ZCARD (zsets db (AccountSlots accountID)) + ZCARD (zsets db (LiveAccount accountID));
          waiting = (case counters db (AccountWaitCount accountID) of None \<Rightarrow> 0 | Some (n, e) \<Rightarrow> n)
      in (\<lparr>CurrentConcurrency = current, WaitingCount = waiting,
           LoadRate = (if maxConcurrency > 0 then go_div ((current + waiting) * 100) maxConcurrency else 0)\<rparr>, db))"

section \<open>The methods the services call\<close>

definition AcquireAccountSlot :: "concurrencyCache \<Rightarrow> int \<Rightarrow> int \<Rightarrow> string \<Rightarrow> int \<Rightarrow> redis \<Rightarrow> bool \<times> redis" where
  "AcquireAccountSlot c accountID maxConcurrency requestID t db =
     (case acquireScript (AccountSlots accountID) (LiveAccount accountID) maxConcurrency (slotTTLSeconds c) requestID t db of
        ((r, now), db') \<Rightarrow> (r = 1, db'))"

definition AcquireUserSlot :: "concurrencyCache \<Rightarrow> int \<Rightarrow> int \<Rightarrow> string \<Rightarrow> int \<Rightarrow> redis \<Rightarrow> bool \<times> redis" where
  "AcquireUserSlot c userID maxConcurrency requestID t db =
     (case acquireScript (UserSlots userID) (LiveUser userID) maxConcurrency (slotTTLSeconds c) requestID t db of
        ((r, now), db') \<Rightarrow> (r = 1, db'))"

definition redis_fast :: "concurrencyCache \<Rightarrow> int \<Rightarrow> int \<Rightarrow> string \<Rightarrow> int \<Rightarrow> redis \<Rightarrow> (bool \<times> int) \<times> redis" where
  "redis_fast c kid limit requestID t db =
     (case acquireAPIKeySlotScript kid (slotTTLSeconds c) liveLeaseTTLSeconds requestID limit t db of
        ((code, nowMs), db') \<Rightarrow> ((code = 1, nowMs), db'))"

text \<open>The numbers of the script are the outcomes of the queue.\<close>

definition queue_outcome :: "int \<Rightarrow> APIKeyQueueOutcome option" where
  "queue_outcome code = map_of [(1, QAcquired), (2, QWaiting), (3, QTimeout), (4, QAborted), (5, QTicketLost),
     (6, QPolicyChanged), (7, QQueueFull), (8, QLimitReached)] code"

definition redis_advance ::
  "concurrencyCache \<Rightarrow> int \<Rightarrow> string \<Rightarrow> APIKeyQueueMode \<Rightarrow> int \<Rightarrow> int \<Rightarrow> int \<Rightarrow> int \<Rightarrow> redis \<Rightarrow> APIKeyQueueOutcome option \<times> redis" where
  "redis_advance c kid requestID mode deadlineMs keyLimit maxWaiting t db =
     (case advanceAPIKeyQueueScript kid mode requestID deadlineMs keyLimit maxWaiting (slotTTLSeconds c)
             liveLeaseTTLSeconds apiKeyQueueCleanupGraceSeconds t db of
        (code, db') \<Rightarrow> (queue_outcome code, db'))"

definition redis_abort :: "int \<Rightarrow> string \<Rightarrow> int \<Rightarrow> bool \<Rightarrow> int \<Rightarrow> redis \<Rightarrow> unit \<times> redis" where
  "redis_abort kid requestID deadlineMs removeRegular t db =
     ((), snd (abortAPIKeyQueueScript kid requestID deadlineMs apiKeyQueueCleanupGraceSeconds removeRegular t db))"

definition redis_stats :: "concurrencyCache \<Rightarrow> int \<Rightarrow> int \<Rightarrow> redis \<Rightarrow> (int \<times> int) \<times> redis" where
  "redis_stats c kid t db = apiKeyQueueStatsScript kid (slotTTLSeconds c) liveLeaseTTLSeconds t db"

definition IncrementWaitCount :: "concurrencyCache \<Rightarrow> int \<Rightarrow> int \<Rightarrow> int \<Rightarrow> redis \<Rightarrow> bool \<times> redis" where
  "IncrementWaitCount c userID maxWait t db =
     (case incrementWaitScript (UserWaitCount userID) maxWait (waitQueueTTLSeconds c) t db of ((r, now), db') \<Rightarrow> (r = 1, db'))"

definition IncrementAccountWaitCount :: "concurrencyCache \<Rightarrow> int \<Rightarrow> int \<Rightarrow> int \<Rightarrow> redis \<Rightarrow> bool \<times> redis" where
  "IncrementAccountWaitCount c accountID maxWait t db =
     (case incrementWaitScript (AccountWaitCount accountID) maxWait (waitQueueTTLSeconds c) t db of ((r, now), db') \<Rightarrow> (r = 1, db'))"

section \<open>The methods of live sessions\<close>

datatype live_err =
  LiveConcurrencyFull | LiveLeaseSourceLost | LiveLeaseTransferFenced | LiveUnavailable
| APIKeyConcurrencyLimit | APIKeyReservationLost

definition AcquireOpenAIWSIngressLease :: "int \<Rightarrow> int \<Rightarrow> string \<Rightarrow> int \<Rightarrow> redis \<Rightarrow> bool \<times> redis" where
  "AcquireOpenAIWSIngressLease apiKeyID maxConnections leaseID t db =
     (if apiKeyID \<le> 0 \<or> maxConnections \<le> 0 \<or> leaseID = '''' then (False, db)
      else case acquireOpenAIWSIngressLeaseScript (WsIngress apiKeyID) maxConnections openAIWSIngressLeaseTTLSeconds leaseID t db of
             (r, db') \<Rightarrow> (r = 1, db'))"

definition RefreshOpenAIWSIngressLease :: "int \<Rightarrow> string \<Rightarrow> int \<Rightarrow> redis \<Rightarrow> bool \<times> redis" where
  "RefreshOpenAIWSIngressLease apiKeyID leaseID t db =
     (if apiKeyID \<le> 0 \<or> leaseID = '''' then (False, db)
      else case refreshOpenAIWSIngressLeaseScript (WsIngress apiKeyID) openAIWSIngressLeaseTTLSeconds leaseID t db of
             (r, db') \<Rightarrow> (r = 1, db'))"

definition acquireLiveLease ::
  "concurrencyCache \<Rightarrow> int \<Rightarrow> int \<Rightarrow> int \<Rightarrow> int \<Rightarrow> int \<Rightarrow> int \<Rightarrow> string \<Rightarrow> string \<Rightarrow> bool \<Rightarrow> int \<Rightarrow> redis \<Rightarrow> int \<times> redis" where
  "acquireLiveLease c accountID accountMax userID userMax apiKeyID apiKeyMax keyRequestID leaseID replacing =
     acquireLiveLeaseScript (AccountSlots accountID, LiveAccount accountID) (UserSlots userID, LiveUser userID)
       (ApiKeySlots apiKeyID, LiveApiKey apiKeyID) accountMax userMax liveLeaseTTLSeconds leaseID replacing apiKeyMax
       (slotTTLSeconds c) keyRequestID"

definition AcquireLiveLease ::
  "concurrencyCache \<Rightarrow> int \<Rightarrow> int \<Rightarrow> int \<Rightarrow> int \<Rightarrow> int \<Rightarrow> int \<Rightarrow> string \<Rightarrow> bool \<Rightarrow> int \<Rightarrow> redis \<Rightarrow> (live_err + bool) \<times> redis" where
  "AcquireLiveLease c accountID accountMax userID userMax apiKeyID apiKeyMax leaseID replacing t db =
     (if accountID \<le> 0 \<or> userID \<le> 0 \<or> apiKeyID \<le> 0 \<or> leaseID = '''' then (Inr False, db)
      else case acquireLiveLease c accountID accountMax userID userMax apiKeyID apiKeyMax '''' leaseID replacing t db of
             (r, db') \<Rightarrow> (if r = 2 then Inl APIKeyConcurrencyLimit
                         else if r = 3 then Inl APIKeyReservationLost else Inr (r = 1), db'))"

definition guarded :: "LiveLeaseTransferRequest \<Rightarrow> bool" where
  "guarded q \<longleftrightarrow> lt_AccountID q > 0 \<and> lt_UserID q > 0 \<and> lt_APIKeyID q > 0 \<and> lt_LeaseID q \<noteq> ''''"

definition AcquireLiveLeaseTransferring ::
  "concurrencyCache \<Rightarrow> LiveLeaseTransferRequest \<Rightarrow> int \<Rightarrow> redis \<Rightarrow> (live_err + bool) \<times> redis" where
  "AcquireLiveLeaseTransferring c q t db =
     (if \<not> guarded q then (Inr False, db)
      else case transferLiveLeaseScript q liveLeaseTTLSeconds (slotTTLSeconds c) t db of
        (r, db') \<Rightarrow>
          (if r = 1 then Inr True
           else if r = 2 then Inl APIKeyConcurrencyLimit
           else if r = 3 then Inl APIKeyReservationLost
           else if r = 4 \<or> r = 6 then Inl LiveConcurrencyFull
           else if r = 5 \<or> r = 7 then Inl LiveLeaseSourceLost
           else if r = 8 then Inl LiveLeaseTransferFenced
           else Inl LiveUnavailable, db'))"

definition MigrateLiveLeaseAccount ::
  "concurrencyCache \<Rightarrow> LiveLeaseTransferRequest \<Rightarrow> int \<Rightarrow> redis \<Rightarrow> (live_err + bool) \<times> redis" where
  "MigrateLiveLeaseAccount c q t db =
     (if \<not> guarded q then (Inr False, db)
      else case migrateLiveLeaseAccountScript q liveLeaseTTLSeconds (slotTTLSeconds c) t db of
        (r, db') \<Rightarrow>
          (if r = 1 then Inr True
           else if r = 2 \<or> r = 3 then Inl LiveLeaseSourceLost
           else if r = 4 then Inl LiveConcurrencyFull
           else Inl LiveUnavailable, db'))"

definition AbortLiveLeaseTransfer :: "LiveLeaseTransferRequest \<Rightarrow> int \<Rightarrow> redis \<Rightarrow> redis" where
  "AbortLiveLeaseTransfer q t db =
     (if lt_LeaseID q = '''' then db else snd (abortLiveLeaseTransferScript q liveLeaseTTLSeconds t db))"

definition RefreshLiveLease :: "int \<Rightarrow> int \<Rightarrow> int \<Rightarrow> string \<Rightarrow> int \<Rightarrow> redis \<Rightarrow> bool \<times> redis" where
  "RefreshLiveLease accountID userID apiKeyID leaseID t db =
     (if leaseID = '''' then (False, db)
      else case refreshLiveLeaseScript [LiveAccount accountID, LiveUser userID, LiveApiKey apiKeyID] liveLeaseTTLSeconds leaseID t db of
             (r, db') \<Rightarrow> (r = 1, db'))"

end
