(* ===== verification/RedisLeases.thy ===== *)
theory RedisLeases
  imports RedisSlots
begin

text \<open>
  What the rows of a sorted set mean: a row is a lease until its time has passed. Every script removes rows whose time has
  passed and, beside them, only what it is asked to remove; the expiry of a whole key never takes a row whose time has not
  passed. So the keyspace is, at every time, the table of leases it should be.
\<close>

section \<open>How long a row counts\<close>

definition valid_cache :: "concurrencyCache \<Rightarrow> bool" where
  "valid_cache c \<longleftrightarrow> slotTTLSeconds c > 0"

text \<open>The time at which a row stops to count, in milliseconds.\<close>

fun life :: "concurrencyCache \<Rightarrow> redis_key \<Rightarrow> int \<Rightarrow> int" where
  "life c (AccountSlots i) s = 1000 * (s + slotTTLSeconds c)"
| "life c (UserSlots i) s = 1000 * (s + slotTTLSeconds c)"
| "life c (ApiKeySlots i) s = 1000 * (s + slotTTLSeconds c)"
| "life c (LiveAccount i) s = 1000 * (s + 60)"
| "life c (LiveUser i) s = 1000 * (s + 60)"
| "life c (LiveApiKey i) s = 1000 * (s + 60)"
| "life c (WsIngress i) s = 1000 * (s + 60)"
| "life c _ s = s"

text \<open>Keys whose scores are the second of the grant, and how long those grants last.\<close>

fun slot_ttl :: "concurrencyCache \<Rightarrow> redis_key \<Rightarrow> int option" where
  "slot_ttl c (AccountSlots i) = Some (slotTTLSeconds c)"
| "slot_ttl c (UserSlots i) = Some (slotTTLSeconds c)"
| "slot_ttl c (ApiKeySlots i) = Some (slotTTLSeconds c)"
| "slot_ttl c (LiveAccount i) = Some 60"
| "slot_ttl c (LiveUser i) = Some 60"
| "slot_ttl c (LiveApiKey i) = Some 60"
| "slot_ttl c (WsIngress i) = Some 60"
| "slot_ttl c _ = None"

lemma slot_life: "slot_ttl c k = Some ttl \<Longrightarrow> life c k s = 1000 * (s + ttl)"
  by (cases k) auto

lemma slot_dead: "slot_ttl c k = Some ttl \<Longrightarrow> life c k s \<le> t \<longleftrightarrow> s \<le> seconds t - ttl"
  by (simp add: slot_life) linarith

text \<open>Scores do not lie in the future: a grant's second has come, a fence lasts a minute.\<close>

definition score_ok :: "concurrencyCache \<Rightarrow> int \<Rightarrow> redis_key \<Rightarrow> int \<Rightarrow> bool" where
  "score_ok c t k s \<longleftrightarrow>
     (slot_ttl c k \<noteq> None \<longrightarrow> s \<le> seconds t) \<and> (\<forall>i. k = TransferFence i \<longrightarrow> s \<le> t + 60000)"

definition rows_ok :: "concurrencyCache \<Rightarrow> int \<Rightarrow> redis_key \<Rightarrow> zset \<Rightarrow> bool" where
  "rows_ok c t k z \<longleftrightarrow> distinct (map fst (zs_rows z)) \<and> (\<forall>(m, s)\<in>set (zs_rows z). score_ok c t k s) \<and>
     (zs_rows z = [] \<longrightarrow> z = no_zset)"

text \<open>A key without rows does not exist, and a key lasts at least as long as each of its rows.\<close>

definition zset_ok :: "concurrencyCache \<Rightarrow> int \<Rightarrow> redis_key \<Rightarrow> zset \<Rightarrow> bool" where
  "zset_ok c t k z \<longleftrightarrow>
     rows_ok c t k z \<and>
     (\<forall>e. zs_expire z = Some e \<longrightarrow> (\<forall>(m, s)\<in>set (zs_rows z). life c k s \<le> e))"

definition redis_ok :: "concurrencyCache \<Rightarrow> int \<Rightarrow> redis \<Rightarrow> bool" where
  "redis_ok c t db \<longleftrightarrow> (\<forall>k. zset_ok c t k (zsets db k))"

text \<open>The leases in a sorted set at a time.\<close>

definition lease :: "concurrencyCache \<Rightarrow> int \<Rightarrow> redis_key \<Rightarrow> zset \<Rightarrow> string \<Rightarrow> int option" where
  "lease c t k z m = (case ZSCORE m z of None \<Rightarrow> None | Some s \<Rightarrow> if t < life c k s then Some s else None)"

section \<open>Commands\<close>

lemma no_zset_simps [simp]: "zs_rows no_zset = []" "zs_expire no_zset = None"
  by (simp_all add: no_zset_def)

lemma zset_ok_empty [simp]: "zset_ok c t k no_zset"
  by (simp add: zset_ok_def rows_ok_def)

lemma zset_ok_rows [dest]: "zset_ok c t k z \<Longrightarrow> rows_ok c t k z"
  by (simp add: zset_ok_def)

lemma score_ok_later: "score_ok c t k s \<Longrightarrow> t \<le> t' \<Longrightarrow> score_ok c t' k s"
  using zdiv_mono1 [of t t' 1000] by (auto simp: score_ok_def)

lemma zset_ok_later: "zset_ok c t k z \<Longrightarrow> t \<le> t' \<Longrightarrow> zset_ok c t' k z"
  using score_ok_later [of c t k _ t'] by (auto simp: zset_ok_def rows_ok_def)

lemma filter_ok:
  assumes "zset_ok c t k z"
  shows "zset_ok c t k (settle (z\<lparr>zs_rows := filter P (zs_rows z)\<rparr>))"
  using assms by (auto simp: zset_ok_def rows_ok_def settle_def distinct_map_filter split: prod.splits)

lemma ZREM_ok: "zset_ok c t k z \<Longrightarrow> zset_ok c t k (ZREM m z)"
  by (simp add: ZREM_def filter_ok)

lemma ZREMRANGE_ok: "zset_ok c t k z \<Longrightarrow> zset_ok c t k (ZREMRANGE b z)"
  by (simp add: ZREMRANGE_def filter_ok)

lemma tput_not_Nil [simp]: "tput k v t \<noteq> []"
  by (cases t) (auto split: if_splits)

lemma ZADD_rows: "rows_ok c t k z \<Longrightarrow> score_ok c t k s \<Longrightarrow> rows_ok c t k (ZADD s m z)"
  by (auto simp: rows_ok_def ZADD_def distinct_keys_tput dest!: set_tput)

lemma EXPIRE_ok:
  assumes "rows_ok c t k z" "slot_ttl c k = Some ttl" "0 < ttl"
  shows "zset_ok c t k (EXPIRE t ttl z)"
proof -
  have "life c k s \<le> t + 1000 * ttl" if "(m, s) \<in> set (zs_rows z)" for m s
  proof -
    have "s \<le> seconds t" using that assms(1,2) by (auto simp: rows_ok_def score_ok_def)
    then have "1000 * s \<le> t" by linarith
    then show ?thesis using assms(2) by (simp add: slot_life)
  qed
  then show ?thesis using assms(1,3) by (auto simp: EXPIRE_def zset_ok_def rows_ok_def no_zset_def)
qed

text \<open>A key of deadlines is kept until the last of them.\<close>

lemma greatest_score_ge: "(m, s) \<in> set (zs_rows z) \<Longrightarrow> \<exists>g. greatest_score z = Some g \<and> s \<le> g"
proof -
  have start: "x \<le> fold (\<lambda>(k, s). max s) rs x" for rs :: "(string, int) table" and x
  proof (induction rs arbitrary: x)
    case (Cons r rs)
    show ?case using Cons.IH [of "max (snd r) x"] by (cases r) simp
  qed simp
  have "s \<le> fold (\<lambda>(k, s). max s) rs x" if "(m, s) \<in> set rs" for rs :: "(string, int) table" and x
    using that
  proof (induction rs arbitrary: x)
    case (Cons r rs)
    then show ?case using start [of "max (snd r) x" rs] by (cases r) auto
  qed simp
  then show "(m, s) \<in> set (zs_rows z) \<Longrightarrow> \<exists>g. greatest_score z = Some g \<and> s \<le> g"
    using start by (auto simp: greatest_score_def split: list.splits)
qed

lemma cover_ttl_covers: "until \<le> t + 1000 * cover_ttl t until grace" if "0 \<le> grace"
  using that by (simp add: cover_ttl_def Let_def) linarith

lemma cover_ttl_pos: "0 < cover_ttl t until grace"
  by (simp add: cover_ttl_def Let_def)

lemma COVER_ok:
  assumes "rows_ok c t k z" "\<And>s. life c k s = s" "greatest_score z = Some g" "0 \<le> grace"
  shows "zset_ok c t k (EXPIRE t (cover_ttl t g grace) z)"
proof -
  have "s \<le> t + 1000 * cover_ttl t g grace" if "(m, s) \<in> set (zs_rows z)" for m s
    using greatest_score_ge [OF that] assms(3) cover_ttl_covers [OF assms(4), of g t] by fastforce
  then show ?thesis using assms(1,2) cover_ttl_pos [of t g grace]
    by (auto simp: EXPIRE_def zset_ok_def rows_ok_def no_zset_def)
qed

lemma FENCE_ok:
  assumes "rows_ok c t (TransferFence i) z"
  shows "zset_ok c t (TransferFence i) (EXPIRE t 60 z)"
  using assms by (auto simp: EXPIRE_def zset_ok_def rows_ok_def score_ok_def no_zset_def)

section \<open>Leases after a command\<close>

lemma lease_empty [simp]: "lease c t k no_zset = (\<lambda>_. None)"
  by (rule ext) (simp add: lease_def ZSCORE_def)

lemma lease_ZADD: "lease c t k (ZADD s m z) = (lease c t k z)(m := if t < life c k s then Some s else None)"
  by (rule ext) (simp add: lease_def ZADD_def ZSCORE_def map_of_tput)

lemma map_of_filter_key: "map_of (filter (\<lambda>(k, s). k \<noteq> m) rs) = (map_of rs)(m := None)"
  by (induction rs) (auto simp: fun_eq_iff)

lemma settle_rows [simp]: "zs_rows (settle z) = zs_rows z"
  by (simp add: settle_def)

lemma lease_ZREM: "lease c t k (ZREM m z) = (lease c t k z)(m := None)"
  by (rule ext) (simp add: lease_def ZREM_def ZSCORE_def map_of_filter_key)

lemma lease_EXPIRE: "0 < secs \<Longrightarrow> lease c t k (EXPIRE t secs z) = lease c t k z"
  by (rule ext) (simp add: lease_def EXPIRE_def ZSCORE_def)

lemma map_of_filter_some:
  "distinct (map fst rs) \<Longrightarrow> map_of (filter P rs) m = (case map_of rs m of None \<Rightarrow> None | Some s \<Rightarrow> if P (m, s) then Some s else None)"
proof (induction rs)
  case (Cons r rs)
  then show ?case by (cases r) (auto simp: map_of_eq_None_iff split: option.splits)
qed simp

lemma ZSCORE_prune:
  "rows_ok c t' k z \<Longrightarrow> ZSCORE m (ZREMRANGE b z) = (case ZSCORE m z of None \<Rightarrow> None | Some s \<Rightarrow> if b < s then Some s else None)"
  by (cases "map_of (zs_rows z) m") (simp_all add: rows_ok_def ZREMRANGE_def ZSCORE_def map_of_filter_some)

lemma lease_prune:
  assumes "rows_ok c t' k z" "\<And>s. s \<le> b \<Longrightarrow> life c k s \<le> t"
  shows "lease c t k (ZREMRANGE b z) = lease c t k z"
proof
  fix m
  show "lease c t k (ZREMRANGE b z) m = lease c t k z m"
    using assms(2) by (auto simp: lease_def ZSCORE_prune [OF assms(1)] not_less split: option.splits dest: leD)
qed

lemma lease_score: "lease c t k z m = Some s \<Longrightarrow> ZSCORE m z = Some s"
  by (simp add: lease_def split: option.splits if_splits)

text \<open>After pruning, exactly the leases are left.\<close>

lemma pruned_score:
  assumes "rows_ok c t k z" "\<And>s. life c k s \<le> t \<longleftrightarrow> s \<le> b"
  shows "ZSCORE m (ZREMRANGE b z) = lease c t k z m"
  using assms(2) by (auto simp: lease_def ZSCORE_prune [OF assms(1)] split: option.splits) (meson not_le)+

lemma ZCARD_dom: "distinct (map fst (zs_rows z)) \<Longrightarrow> ZCARD z = int (card (dom (\<lambda>m. ZSCORE m z)))"
  by (simp add: ZCARD_def ZSCORE_def dom_map_of_conv_image_fst) (metis distinct_card length_map list.set_map)

lemma pruned_count:
  assumes "zset_ok c t k z" "\<And>s. life c k s \<le> t \<longleftrightarrow> s \<le> b"
  shows "ZCARD (ZREMRANGE b z) = int (card (dom (lease c t k z)))"
proof -
  have "distinct (map fst (zs_rows (ZREMRANGE b z)))" using ZREMRANGE_ok [OF assms(1)] by (simp add: zset_ok_def rows_ok_def)
  then show ?thesis using pruned_score [OF _ assms(2)] assms(1) by (simp add: ZCARD_dom zset_ok_def)
qed

lemma leases_le_rows: "rows_ok c t' k z \<Longrightarrow> int (card (dom (lease c t k z))) \<le> ZCARD z"
proof -
  assume ok: "rows_ok c t' k z"
  have "dom (lease c t k z) \<subseteq> dom (\<lambda>m. ZSCORE m z)" using lease_score by (auto simp: dom_def)
  then have "card (dom (lease c t k z)) \<le> card (dom (\<lambda>m. ZSCORE m z))"
    by (intro card_mono) (simp_all add: ZSCORE_def finite_dom_map_of)
  then show ?thesis using ok by (simp add: ZCARD_dom rows_ok_def)
qed

section \<open>The keyspace\<close>

lemma zsets_on [simp]: "zsets (on k f db) j = (if j = k then f (zsets db k) else zsets db j)"
  by (simp add: on_def)

lemma counters_on [simp]: "counters (on k f db) = counters db"
  by (simp add: on_def)

definition leases :: "concurrencyCache \<Rightarrow> int \<Rightarrow> redis \<Rightarrow> redis_key \<Rightarrow> string \<Rightarrow> int option" where
  "leases c t db k = lease c t k (zsets db k)"

lemma redis_okD: "redis_ok c t db \<Longrightarrow> zset_ok c t k (zsets db k)"
  by (simp add: redis_ok_def)

lemma redis_ok_empty: "redis_ok c t empty_redis"
  by (simp add: redis_ok_def empty_redis_def)

lemma redis_ok_on: "redis_ok c t db \<Longrightarrow> zset_ok c t k (f (zsets db k)) \<Longrightarrow> redis_ok c t (on k f db)"
  by (simp add: redis_ok_def)

lemma redis_ok_counters [simp]: "redis_ok c t (db\<lparr>counters := x\<rparr>) = redis_ok c t db"
  by (simp add: redis_ok_def)

lemma awake_ok: "redis_ok c t0 db \<Longrightarrow> t0 \<le> t \<Longrightarrow> redis_ok c t (awake t db)"
  using zset_ok_later [of c t0 _ _ t] by (simp add: redis_ok_def awake_def)

lemma awake_lease:
  assumes "redis_ok c t0 db"
  shows "lease c t k (zsets (awake t db) k) = lease c t k (zsets db k)"
proof (cases "expired t (zs_expire (zsets db k))")
  case True
  then obtain e where e: "zs_expire (zsets db k) = Some e" "e < t" by (auto simp: expired_def split: option.splits)
  have "life c k s \<le> e" if "ZSCORE m (zsets db k) = Some s" for m s
    using redis_okD [OF assms, of k] e(1) that by (auto simp: zset_ok_def ZSCORE_def dest!: map_of_SomeD)
  then have "lease c t k (zsets db k) m = None" for m
    using e(2) by (fastforce simp: lease_def split: option.splits)
  then show ?thesis using True by (auto simp: awake_def)
qed (simp add: awake_def)

lemma awake_rows: "ZCARD (zsets (awake t db) k) \<le> ZCARD (zsets db k)"
  by (simp add: awake_def ZCARD_def)

lemma ZREMRANGE_card: "ZCARD (ZREMRANGE b z) \<le> ZCARD z"
  by (simp add: ZREMRANGE_def ZCARD_def)

lemma ZREM_card: "ZCARD (ZREM m z) \<le> ZCARD z"
  by (simp add: ZREM_def ZCARD_def)

lemma EXPIRE_card: "ZCARD (EXPIRE t secs z) \<le> ZCARD z"
  by (simp add: EXPIRE_def ZCARD_def)

lemma ZADD_card: "ZCARD (ZADD s m z) = (if ZSCORE m z = None then ZCARD z + 1 else ZCARD z)"
proof -
  have "length (tput m s rs) = (if map_of rs m = None then length rs + 1 else length rs)" for rs :: "(string, int) table"
    by (induction rs) auto
  then show ?thesis by (simp add: ZCARD_def ZADD_def ZSCORE_def)
qed

lemma ZREM_card_held:
  assumes "rows_ok c t k z" "ZSCORE m z \<noteq> None"
  shows "ZCARD (ZREM m z) = ZCARD z - 1"
proof -
  have "length (filter (\<lambda>(k, s). k \<noteq> m) rs) = length rs - 1 \<and> rs \<noteq> []"
    if "distinct (map fst rs)" "map_of rs m \<noteq> None" for rs :: "(string, int) table"
    using that
  proof (induction rs)
    case (Cons r rs)
    show ?case
    proof (cases "fst r = m")
      case True
      then have "filter (\<lambda>(k, s). k \<noteq> m) rs = rs"
        using Cons.prems(1) by (intro filter_True) (auto simp: rev_image_eqI)
      then show ?thesis using True by (cases r) simp
    next
      case False
      then show ?thesis using Cons by (cases r) (auto simp: le_Suc_eq)
    qed
  qed simp
  from this [of "zs_rows z"] show ?thesis
    using assms by (cases "zs_rows z") (simp_all add: ZREM_def ZCARD_def ZSCORE_def rows_ok_def)
qed

section \<open>A sound keyspace and its leases\<close>

definition holding :: "concurrencyCache \<Rightarrow> int \<Rightarrow> redis \<Rightarrow> (redis_key \<Rightarrow> string \<Rightarrow> int option) \<Rightarrow> bool" where
  "holding c t db L \<longleftrightarrow> redis_ok c t db \<and> leases c t db = L"

definition put_lease ::
  "redis_key \<Rightarrow> string \<Rightarrow> int option \<Rightarrow> (redis_key \<Rightarrow> string \<Rightarrow> int option) \<Rightarrow> redis_key \<Rightarrow> string \<Rightarrow> int option" where
  "put_lease k m v L = L(k := (L k)(m := v))"

lemma put_lease_apply: "put_lease k m v L j n = (if j = k \<and> n = m then v else L j n)"
  by (simp add: put_lease_def)

lemma holding_ok: "holding c t db L \<Longrightarrow> zset_ok c t k (zsets db k)"
  by (simp add: holding_def redis_okD)

lemma holding_awake:
  assumes "redis_ok c t0 db" "t0 \<le> t"
  shows "holding c t (awake t db) (leases c t db)"
  using awake_ok [OF assms] awake_lease [OF assms(1)] by (simp add: holding_def leases_def fun_eq_iff)

lemma leases_on: "leases c t (on k f db) = (leases c t db)(k := lease c t k (f (zsets db k)))"
  by (simp add: leases_def fun_eq_iff)

lemma holding_on:
  assumes "holding c t db L" "zset_ok c t k (f (zsets db k))" "lease c t k (f (zsets db k)) = L' k" "\<And>j. j \<noteq> k \<Longrightarrow> L' j = L j"
  shows "holding c t (on k f db) L'"
  using assms by (auto simp: holding_def redis_ok_on leases_on fun_eq_iff)

lemma holding_counters [simp]: "holding c t (db\<lparr>counters := x\<rparr>) L = holding c t db L"
  by (simp add: holding_def leases_def fun_eq_iff)

lemma holding_prune:
  assumes "holding c t db L" "\<And>s. s \<le> b \<Longrightarrow> life c k s \<le> t"
  shows "holding c t (on k (ZREMRANGE b) db) L"
proof (rule holding_on [OF assms(1)])
  show "zset_ok c t k (ZREMRANGE b (zsets db k))" using holding_ok [OF assms(1)] by (rule ZREMRANGE_ok)
  have "lease c t k (ZREMRANGE b (zsets db k)) = lease c t k (zsets db k)"
    using holding_ok [OF assms(1)] assms(2) by (intro lease_prune [where t' = t]) (auto simp: zset_ok_def)
  then show "lease c t k (ZREMRANGE b (zsets db k)) = L k" using assms(1) by (auto simp: holding_def leases_def)
qed simp

lemma holding_prune_slot:
  "holding c t db L \<Longrightarrow> slot_ttl c k = Some ttl \<Longrightarrow> b \<le> seconds t - ttl \<Longrightarrow> holding c t (on k (ZREMRANGE b) db) L"
  using slot_dead [of c k ttl _ t] by (intro holding_prune) force+

lemma holding_prune_deadline:
  "holding c t db L \<Longrightarrow> (\<And>s. life c k s = s) \<Longrightarrow> holding c t (on k (ZREMRANGE t) db) L"
  by (intro holding_prune) simp_all

lemma holding_rem:
  assumes "holding c t db L"
  shows "holding c t (on k (ZREM m) db) (put_lease k m None L)"
  using assms ZREM_ok [OF holding_ok [OF assms]]
  by (intro holding_on [OF assms]) (auto simp: lease_ZREM put_lease_def holding_def leases_def)

lemma holding_grant:
  assumes "holding c t db L" "slot_ttl c k = Some ttl" "0 < ttl"
  shows "holding c t (on k (EXPIRE t ttl) (on k (ZADD (seconds t) m) db)) (put_lease k m (Some (seconds t)) L)"
proof -
  have "rows_ok c t k (ZADD (seconds t) m (zsets db k))"
    using holding_ok [OF assms(1)] assms(2) by (intro ZADD_rows) (auto simp: score_ok_def zset_ok_def)
  then have "zset_ok c t k (EXPIRE t ttl (ZADD (seconds t) m (zsets db k)))" by (rule EXPIRE_ok [OF _ assms(2,3)])
  moreover have "t < life c k (seconds t)" using slot_dead [OF assms(2), of "seconds t" t] assms(3) by linarith
  moreover have "on k (EXPIRE t ttl) (on k (ZADD (seconds t) m) db) = on k (\<lambda>z. EXPIRE t ttl (ZADD (seconds t) m z)) db"
    by (simp add: on_def)
  ultimately show ?thesis
    using assms(1,3)
    by (auto intro!: redis_ok_on simp: holding_def leases_on lease_EXPIRE lease_ZADD put_lease_def leases_def)
qed

text \<open>A mark that lasts until a deadline that has not passed.\<close>

lemma greatest_score_some: "zs_rows z \<noteq> [] \<Longrightarrow> \<exists>g. greatest_score z = Some g"
  by (auto simp: greatest_score_def split: list.splits)

lemma holding_mark:
  assumes "holding c t db L" "\<And>s. life c k s = s" "\<And>i. k \<noteq> TransferFence i" "t < d" "0 \<le> grace"
    "greatest_score (ZADD d m (zsets db k)) = Some g"
  shows "holding c t (on k (EXPIRE t (cover_ttl t g grace)) (on k (ZADD d m) db)) (put_lease k m (Some d) L)"
proof -
  have no_slot: "slot_ttl c k = None" using assms(2) [of 0] assms(2) [of 1] by (cases k) auto
  have "rows_ok c t k (ZADD d m (zsets db k))"
    using holding_ok [OF assms(1)] assms(3) no_slot by (intro ZADD_rows) (auto simp: score_ok_def zset_ok_def)
  then have "zset_ok c t k (EXPIRE t (cover_ttl t g grace) (ZADD d m (zsets db k)))"
    using assms(2,5,6) by (intro COVER_ok)
  moreover have "on k (EXPIRE t (cover_ttl t g grace)) (on k (ZADD d m) db) = on k (\<lambda>z. EXPIRE t (cover_ttl t g grace) (ZADD d m z)) db"
    by (simp add: on_def)
  ultimately show ?thesis
    using assms(1,2,4) cover_ttl_pos [of t g grace]
    by (auto intro!: redis_ok_on simp: holding_def leases_on lease_EXPIRE lease_ZADD put_lease_def leases_def)
qed

lemma on_other: "j \<noteq> k \<Longrightarrow> on j f (on k g db) = on k g (on j f db)"
  by (simp add: on_def fun_upd_twist)

end
