(* ===== verification/RedisOps.thy ===== *)
theory RedisOps
  imports RedisLeases
begin

text \<open>
  The commands of the concurrency cache as one type of operations, what each makes of the table of leases given its reply,
  and the proof that the scripts do exactly that: pruning, the expiry of keys and the order of commands inside a script
  never show.
\<close>

section \<open>Commands\<close>

text \<open>\<open>behind\<close> is how many seconds ago a pipeline read the time.\<close>

datatype redis_op =
  AccountAcquire int int string | AccountRelease int string | AccountCount int | AccountLoad int int nat | AccountCleanup int
| UserAcquire int int string | UserRelease int string | UserCount int
| KeyFast int int string | KeyTrack int string | KeyRelease int string | KeyRefresh int string
| QueueAdvance int APIKeyQueueMode string int int int | QueueAbort int string int bool | QueueStats int
| LiveAcquire int int int int int int string bool | LiveTransfer LiveLeaseTransferRequest
| LiveMigrate LiveLeaseTransferRequest | LiveAbort LiveLeaseTransferRequest
| LiveRefresh int int int string | LiveRelease int int int string | LiveAccountRelease int string
| WsAcquire int int string | WsRefresh int string | WsRelease int string
| UserWaitEnter int int | UserWaitLeave int | AccountWaitEnter int int | AccountWaitLeave int

fun run_op :: "concurrencyCache \<Rightarrow> redis_op \<Rightarrow> int \<Rightarrow> redis \<Rightarrow> int \<times> redis" where
  "run_op c (AccountAcquire i n m) t db =
     apfst fst (acquireScript (AccountSlots i) (LiveAccount i) n (slotTTLSeconds c) m t db)"
| "run_op c (AccountRelease i m) t db = releaseSlot (AccountSlots i) m t db"
| "run_op c (AccountCount i) t db = getCountScript (AccountSlots i) (LiveAccount i) (slotTTLSeconds c) t db"
| "run_op c (AccountLoad i n behind) t db =
     apfst CurrentConcurrency (account_load c i n (seconds t - int behind) t db)"
| "run_op c (AccountCleanup i) t db = cleanupExpiredSlotsScript (AccountSlots i) (slotTTLSeconds c) t db"
| "run_op c (UserAcquire i n m) t db =
     apfst fst (acquireScript (UserSlots i) (LiveUser i) n (slotTTLSeconds c) m t db)"
| "run_op c (UserRelease i m) t db = releaseSlot (UserSlots i) m t db"
| "run_op c (UserCount i) t db = getCountScript (UserSlots i) (LiveUser i) (slotTTLSeconds c) t db"
| "run_op c (KeyFast i n m) t db =
     apfst fst (acquireAPIKeySlotScript i (slotTTLSeconds c) liveLeaseTTLSeconds m n t db)"
| "run_op c (KeyTrack i m) t db = trackSlotScript (ApiKeySlots i) (slotTTLSeconds c) m t db"
| "run_op c (KeyRelease i m) t db = releaseSlot (ApiKeySlots i) m t db"
| "run_op c (KeyRefresh i m) t db = refreshAPIKeySlotScript i (slotTTLSeconds c) m t db"
| "run_op c (QueueAdvance i mode m d n w) t db =
     advanceAPIKeyQueueScript i mode m d n w (slotTTLSeconds c) liveLeaseTTLSeconds apiKeyQueueCleanupGraceSeconds t db"
| "run_op c (QueueAbort i m d r) t db = abortAPIKeyQueueScript i m d apiKeyQueueCleanupGraceSeconds r t db"
| "run_op c (QueueStats i) t db = apfst fst (apiKeyQueueStatsScript i (slotTTLSeconds c) liveLeaseTTLSeconds t db)"
| "run_op c (LiveAcquire a an u un k kn m r) t db = acquireLiveLease c a an u un k kn '''' m r t db"
| "run_op c (LiveTransfer q) t db = transferLiveLeaseScript q liveLeaseTTLSeconds (slotTTLSeconds c) t db"
| "run_op c (LiveMigrate q) t db = migrateLiveLeaseAccountScript q liveLeaseTTLSeconds (slotTTLSeconds c) t db"
| "run_op c (LiveAbort q) t db = abortLiveLeaseTransferScript q liveLeaseTTLSeconds t db"
| "run_op c (LiveRefresh a u k m) t db =
     refreshLiveLeaseScript [LiveAccount a, LiveUser u, LiveApiKey k] liveLeaseTTLSeconds m t db"
| "run_op c (LiveRelease a u k m) t db = releaseLiveLease a u k m t db"
| "run_op c (LiveAccountRelease i m) t db = releaseSlot (LiveAccount i) m t db"
| "run_op c (WsAcquire i n m) t db = acquireOpenAIWSIngressLeaseScript (WsIngress i) n openAIWSIngressLeaseTTLSeconds m t db"
| "run_op c (WsRefresh i m) t db = refreshOpenAIWSIngressLeaseScript (WsIngress i) openAIWSIngressLeaseTTLSeconds m t db"
| "run_op c (WsRelease i m) t db = releaseSlot (WsIngress i) m t db"
| "run_op c (UserWaitEnter i n) t db = apfst fst (incrementWaitScript (UserWaitCount i) n (waitQueueTTLSeconds c) t db)"
| "run_op c (UserWaitLeave i) t db = decrementWaitScript (UserWaitCount i) t db"
| "run_op c (AccountWaitEnter i n) t db = apfst fst (incrementWaitScript (AccountWaitCount i) n (waitQueueTTLSeconds c) t db)"
| "run_op c (AccountWaitLeave i) t db = decrementWaitScript (AccountWaitCount i) t db"

section \<open>The table of leases\<close>

type_synonym lease_table = "redis_key \<Rightarrow> string \<Rightarrow> int option"

definition put_live :: "int \<Rightarrow> int \<Rightarrow> int \<Rightarrow> string \<Rightarrow> int \<Rightarrow> lease_table \<Rightarrow> lease_table" where
  "put_live a u k m now L =
     put_lease (LiveApiKey k) m (Some now) (put_lease (LiveUser u) m (Some now) (put_lease (LiveAccount a) m (Some now) L))"

definition drop_live :: "int \<Rightarrow> int \<Rightarrow> int \<Rightarrow> string \<Rightarrow> lease_table \<Rightarrow> lease_table" where
  "drop_live a u k m L = put_lease (LiveApiKey k) m None (put_lease (LiveUser u) m None (put_lease (LiveAccount a) m None L))"

definition drop_if :: "bool \<Rightarrow> redis_key \<Rightarrow> string \<Rightarrow> lease_table \<Rightarrow> lease_table" where
  "drop_if b k m L = (if b then put_lease k m None L else L)"

definition next_transfer :: "LiveLeaseTransferRequest \<Rightarrow> int \<Rightarrow> lease_table \<Rightarrow> lease_table" where
  "next_transfer q now L =
     (let a = lt_AccountID q; u = lt_UserID q; k = lt_APIKeyID q; m = lt_LeaseID q
      in if L (LiveAccount a) m \<noteq> None \<and> L (LiveUser u) m \<noteq> None \<and> L (LiveApiKey k) m \<noteq> None then L
         else put_live a u k m now
                (drop_if (lt_KeyRequestID q \<noteq> '''') (ApiKeySlots k) (lt_KeyRequestID q)
                  (drop_if (lt_UserMax q > 0) (UserSlots u) (lt_UserRequestID q)
                    (drop_if (lt_AccountMax q > 0) (AccountSlots a) (lt_AccountRequestID q) L))))"

definition next_migrate :: "LiveLeaseTransferRequest \<Rightarrow> int \<Rightarrow> lease_table \<Rightarrow> lease_table" where
  "next_migrate q now L =
     put_live (lt_AccountID q) (lt_UserID q) (lt_APIKeyID q) (lt_LeaseID q) now
       (put_lease (LiveAccount (lt_ReplacedAccountID q)) (lt_LeaseID q) None
         (drop_if (lt_AccountMax q > 0) (AccountSlots (lt_AccountID q)) (lt_AccountRequestID q) L))"

definition next_abort :: "LiveLeaseTransferRequest \<Rightarrow> int \<Rightarrow> lease_table \<Rightarrow> lease_table" where
  "next_abort q t L =
     drop_live (lt_AccountID q) (lt_UserID q) (lt_APIKeyID q) (lt_LeaseID q)
       (drop_if (lt_KeyRequestID q \<noteq> '''') (ApiKeySlots (lt_APIKeyID q)) (lt_KeyRequestID q)
         (drop_if (lt_UserRequestID q \<noteq> '''') (UserSlots (lt_UserID q)) (lt_UserRequestID q)
           (drop_if (lt_AccountRequestID q \<noteq> '''') (AccountSlots (lt_AccountID q)) (lt_AccountRequestID q)
             (put_lease (TransferFence (lt_APIKeyID q)) (lt_LeaseID q) (Some (t + 60000)) L))))"

definition next_advance :: "int \<Rightarrow> string \<Rightarrow> int \<Rightarrow> int \<Rightarrow> int \<Rightarrow> lease_table \<Rightarrow> lease_table" where
  "next_advance i m d t code L =
     (if code = 1 then
        if L (ApiKeySlots i) m \<noteq> None then put_lease (ApiKeyWait i) m None L
        else put_lease (ApiKeyClosed i) m (Some d) (put_lease (ApiKeyWait i) m None (put_lease (ApiKeySlots i) m (Some (seconds t)) L))
      else if code = 2 then put_lease (ApiKeyWait i) m (Some d) L
      else if code = 3 then put_lease (ApiKeyWait i) m None L
      else L)"

fun next_leases :: "redis_op \<Rightarrow> int \<Rightarrow> int \<Rightarrow> lease_table \<Rightarrow> lease_table" where
  "next_leases (AccountAcquire i n m) t code L = (if code = 1 then put_lease (AccountSlots i) m (Some (seconds t)) L else L)"
| "next_leases (AccountRelease i m) t code L = put_lease (AccountSlots i) m None L"
| "next_leases (UserAcquire i n m) t code L = (if code = 1 then put_lease (UserSlots i) m (Some (seconds t)) L else L)"
| "next_leases (UserRelease i m) t code L = put_lease (UserSlots i) m None L"
| "next_leases (KeyFast i n m) t code L =
     (if code = 1 \<and> L (ApiKeySlots i) m = None then put_lease (ApiKeySlots i) m (Some (seconds t)) L else L)"
| "next_leases (KeyTrack i m) t code L = put_lease (ApiKeySlots i) m (Some (seconds t)) L"
| "next_leases (KeyRelease i m) t code L = put_lease (ApiKeySlots i) m None L"
| "next_leases (KeyRefresh i m) t code L = (if code = 1 then put_lease (ApiKeySlots i) m (Some (seconds t)) L else L)"
| "next_leases (QueueAdvance i mode m d n w) t code L = next_advance i m d t code L"
| "next_leases (QueueAbort i m d r) t code L =
     drop_if r (ApiKeySlots i) m (put_lease (ApiKeyWait i) m None (if t < d then put_lease (ApiKeyClosed i) m (Some d) L else L))"
| "next_leases (LiveAcquire a an u un k kn m r) t code L =
     (if code = 1 \<and> L (LiveAccount a) m = None then put_live a u k m (seconds t) L else L)"
| "next_leases (LiveTransfer q) t code L = (if code = 1 then next_transfer q (seconds t) L else L)"
| "next_leases (LiveMigrate q) t code L = (if code = 1 then next_migrate q (seconds t) L else L)"
| "next_leases (LiveAbort q) t code L = next_abort q t L"
| "next_leases (LiveRefresh a u k m) t code L = (if code = 1 then put_live a u k m (seconds t) L else L)"
| "next_leases (LiveRelease a u k m) t code L = drop_live a u k m L"
| "next_leases (LiveAccountRelease i m) t code L = put_lease (LiveAccount i) m None L"
| "next_leases (WsAcquire i n m) t code L = (if code = 1 then put_lease (WsIngress i) m (Some (seconds t)) L else L)"
| "next_leases (WsRefresh i m) t code L = (if code = 1 then put_lease (WsIngress i) m (Some (seconds t)) L else L)"
| "next_leases (WsRelease i m) t code L = put_lease (WsIngress i) m None L"
| "next_leases op t code L = L"

section \<open>The scripts keep the table\<close>

definition lease_count :: "lease_table \<Rightarrow> redis_key \<Rightarrow> int" where "lease_count L k = int (card (dom (L k)))"

lemma holding_pruned_score:
  assumes "holding c t db L" "slot_ttl c k = Some ttl"
  shows "ZSCORE m (ZREMRANGE (seconds t - ttl) (zsets db k)) = L k m"
proof -
  have "rows_ok c t k (zsets db k)" using holding_ok [OF assms(1), of k] by (simp add: zset_ok_def)
  then have "ZSCORE m (ZREMRANGE (seconds t - ttl) (zsets db k)) = lease c t k (zsets db k) m"
    using slot_dead [OF assms(2)] by (intro pruned_score) simp_all
  then show ?thesis using assms(1) by (auto simp: holding_def leases_def)
qed

lemma holding_pruned_mark:
  assumes "holding c t db L" "\<And>s. life c k s = s"
  shows "ZSCORE m (ZREMRANGE t (zsets db k)) = L k m"
proof -
  have "rows_ok c t k (zsets db k)" using holding_ok [OF assms(1), of k] by (simp add: zset_ok_def)
  then have "ZSCORE m (ZREMRANGE t (zsets db k)) = lease c t k (zsets db k) m"
    using assms(2) by (intro pruned_score) simp_all
  then show ?thesis using assms(1) by (auto simp: holding_def leases_def)
qed

lemma holding_pruned_count:
  assumes "holding c t db L" "slot_ttl c k = Some ttl"
  shows "ZCARD (ZREMRANGE (seconds t - ttl) (zsets db k)) = lease_count L k"
proof -
  have "ZCARD (ZREMRANGE (seconds t - ttl) (zsets db k)) = int (card (dom (lease c t k (zsets db k))))"
    using slot_dead [OF assms(2)] by (intro pruned_count [OF holding_ok [OF assms(1)]]) simp
  then show ?thesis using assms(1) by (auto simp: holding_def leases_def lease_count_def)
qed

lemmas pruned = holding_pruned_score holding_pruned_mark holding_pruned_count

lemma acquire_leases:
  assumes "holding c t (awake t db) L" "slot_ttl c k = Some ttl" "0 < ttl" "slot_ttl c k' = Some 60" "k \<noteq> k'"
    and run: "acquireScript k k' n ttl m t db = ((r, now), db')"
  shows "holding c t db' (if r = 1 then put_lease k m (Some (seconds t)) L else L)"
    and "r = (if L k m \<noteq> None \<or> lease_count L k + lease_count L k' < n then 1 else 0)"
proof -
  let ?db = "on k' (ZREMRANGE (seconds t - 60)) (on k (ZREMRANGE (seconds t - ttl)) (awake t db))"
  have P: "holding c t ?db L"
    by (rule holding_prune_slot [OF holding_prune_slot [OF assms(1,2) order_refl] assms(4) order_refl])
  note G = holding_grant [OF P assms(2,3), of m]
  show "holding c t db' (if r = 1 then put_lease k m (Some (seconds t)) L else L)"
    using run P G by (auto simp: acquireScript_def Let_def split: if_splits)
  show "r = (if L k m \<noteq> None \<or> lease_count L k + lease_count L k' < n then 1 else 0)"
    using run assms(5) pruned(1) [OF assms(1,2)] pruned(3) [OF assms(1,2)] pruned(3) [OF assms(1,4)]
    by (auto simp: acquireScript_def Let_def split: if_splits)
qed

lemma count_leases:
  assumes "holding c t (awake t db) L" "slot_ttl c k = Some ttl" "slot_ttl c k' = Some 60" "k \<noteq> k'"
    and run: "getCountScript k k' ttl t db = (r, db')"
  shows "holding c t db' L" and "r = lease_count L k + lease_count L k'"
proof -
  have "holding c t (on k' (ZREMRANGE (seconds t - 60)) (on k (ZREMRANGE (seconds t - ttl)) (awake t db))) L"
    by (rule holding_prune_slot [OF holding_prune_slot [OF assms(1,2) order_refl] assms(3) order_refl])
  then show "holding c t db' L" using run by (auto simp: getCountScript_def Let_def)
  show "r = lease_count L k + lease_count L k'"
    using run assms(4) pruned(3) [OF assms(1,2)] pruned(3) [OF assms(1,3)] by (auto simp: getCountScript_def Let_def)
qed

lemma release_leases:
  "holding c t (awake t db) L \<Longrightarrow> releaseSlot k m t db = (r, db') \<Longrightarrow> holding c t db' (put_lease k m None L)"
  using holding_rem [of c t "awake t db" L k m] by (auto simp: releaseSlot_def)

lemma track_leases:
  assumes "holding c t (awake t db) L" "slot_ttl c k = Some ttl" "0 < ttl" "trackSlotScript k ttl m t db = (r, db')"
  shows "holding c t db' (put_lease k m (Some (seconds t)) L)"
  using holding_grant [OF holding_prune_slot [OF assms(1,2) order_refl] assms(2,3), of m] assms(4)
  by (auto simp: trackSlotScript_def Let_def)

lemma EXPIRE_keep_ok:
  assumes "zset_ok c t k z" "slot_ttl c k = Some ttl" "0 < ttl"
  shows "zset_ok c t k (EXPIRE t ttl z)"
  using assms by (intro EXPIRE_ok) (auto simp: zset_ok_def)

lemma holding_expire:
  assumes "holding c t db L" "slot_ttl c k = Some ttl" "0 < ttl"
  shows "holding c t (on k (EXPIRE t ttl) db) L"
  using assms(1) EXPIRE_keep_ok [OF holding_ok [OF assms(1)] assms(2,3)] lease_EXPIRE [OF assms(3)]
  by (intro holding_on [OF assms(1)]) (auto simp: holding_def leases_def)

lemma ZCARD_0: "ZCARD z = 0 \<longleftrightarrow> zs_rows z = []"
  by (simp add: ZCARD_def)

lemma cleanup_leases:
  assumes "holding c t (awake t db) L" "slot_ttl c k = Some ttl" "0 < ttl" "cleanupExpiredSlotsScript k ttl t db = (r, db')"
  shows "holding c t db' L"
proof -
  let ?db = "on k (ZREMRANGE (seconds t - ttl)) (awake t db)"
  have P: "holding c t ?db L" by (rule holding_prune_slot [OF assms(1,2) order_refl])
  show ?thesis
  proof (cases "ZCARD (zsets ?db k) = 0")
    case True
    then have "zsets ?db k = no_zset" using holding_ok [OF P, of k] by (simp add: ZCARD_0 zset_ok_def rows_ok_def)
    then have "on k (\<lambda>_. no_zset) ?db = ?db" by (simp add: on_def)
    then show ?thesis using assms(4) P True by (auto simp: cleanupExpiredSlotsScript_def Let_def)
  next
    case False
    then show ?thesis using assms(4) holding_expire [OF P assms(2,3)]
      by (auto simp: cleanupExpiredSlotsScript_def Let_def)
  qed
qed

lemma refresh_key_leases:
  assumes "holding c t (awake t db) L" "0 < slotTTLSeconds c" "refreshAPIKeySlotScript i (slotTTLSeconds c) m t db = (r, db')"
  shows "holding c t db' (if r = 1 then put_lease (ApiKeySlots i) m (Some (seconds t)) L else L)"
  using assms holding_grant [OF assms(1), of "ApiKeySlots i" "slotTTLSeconds c" m]
  by (auto simp: refreshAPIKeySlotScript_def Let_def split: if_splits)

lemma ws_acquire_leases:
  assumes "holding c t (awake t db) L" "acquireOpenAIWSIngressLeaseScript (WsIngress i) n 60 m t db = (r, db')"
  shows "holding c t db' (if r = 1 then put_lease (WsIngress i) m (Some (seconds t)) L else L)"
proof -
  have P: "holding c t (on (WsIngress i) (ZREMRANGE (seconds t - 60)) (awake t db)) L"
    by (rule holding_prune_slot [OF assms(1), where ttl = 60]) simp_all
  show ?thesis using assms(2) P holding_grant [OF P, of "WsIngress i" 60 m]
    by (auto simp: acquireOpenAIWSIngressLeaseScript_def Let_def split: if_splits)
qed

lemma ws_refresh_leases:
  assumes "holding c t (awake t db) L" "refreshOpenAIWSIngressLeaseScript (WsIngress i) 60 m t db = (r, db')"
  shows "holding c t db' (if r = 1 then put_lease (WsIngress i) m (Some (seconds t)) L else L)"
proof -
  have P: "holding c t (on (WsIngress i) (ZREMRANGE (seconds t - 60)) (awake t db)) L"
    by (rule holding_prune_slot [OF assms(1), where ttl = 60]) simp_all
  show ?thesis using assms(2) P holding_grant [OF P, of "WsIngress i" 60 m]
    by (auto simp: refreshOpenAIWSIngressLeaseScript_def Let_def split: if_splits)
qed

section \<open>The queue of a key\<close>

lemma holding_cover:
  assumes "holding c t db L" "\<And>s. life c k s = s" "greatest_score (zsets db k) = Some g" "0 \<le> grace"
  shows "holding c t (on k (EXPIRE t (cover_ttl t g grace)) db) L"
proof -
  have "rows_ok c t k (zsets db k)" using holding_ok [OF assms(1), of k] by (simp add: zset_ok_def)
  then have "zset_ok c t k (EXPIRE t (cover_ttl t g grace) (zsets db k))" using assms(2-4) by (intro COVER_ok)
  then show ?thesis using assms(1) cover_ttl_pos [of t g grace]
    by (intro holding_on [OF assms(1)]) (auto simp: lease_EXPIRE holding_def leases_def)
qed

lemma ZADD_greatest: "\<exists>g. greatest_score (ZADD d m z) = Some g"
  by (rule greatest_score_some) (simp add: ZADD_def)

lemma holding_mark_until:
  assumes "holding c t db L" "\<And>s. life c k s = s" "\<And>i. k \<noteq> TransferFence i" "t < d" "0 \<le> grace"
  shows "holding c t (on k (EXPIRE t (cover_ttl t (case greatest_score (ZADD d m (zsets db k)) of None \<Rightarrow> d | Some s \<Rightarrow> s) grace))
           (on k (ZADD d m) db)) (put_lease k m (Some d) L)"
proof -
  obtain g where g: "greatest_score (ZADD d m (zsets db k)) = Some g" using ZADD_greatest [of d m "zsets db k"] by (elim exE)
  show ?thesis using holding_mark [OF assms(1-5) g] g by simp
qed

lemma fast_leases:
  assumes "holding c t (awake t db) L" "0 < slotTTLSeconds c"
    and run: "acquireAPIKeySlotScript i (slotTTLSeconds c) 60 m n t db = ((r, ms), db')"
  shows "holding c t db' (if r = 1 \<and> L (ApiKeySlots i) m = None then put_lease (ApiKeySlots i) m (Some (seconds t)) L else L)"
proof -
  let ?db = "on (LiveApiKey i) (ZREMRANGE (seconds t - 60)) (on (ApiKeySlots i) (ZREMRANGE (seconds t - slotTTLSeconds c)) (awake t db))"
  have P: "holding c t ?db L"
    by (rule holding_prune_slot [OF holding_prune_slot [OF assms(1) _ order_refl] _ order_refl]) simp_all
  show ?thesis
    using run P holding_grant [OF P, of "ApiKeySlots i" "slotTTLSeconds c" m] assms(2)
      pruned(1) [OF assms(1), of "ApiKeySlots i" "slotTTLSeconds c" m]
    by (auto simp: acquireAPIKeySlotScript_def Let_def split: if_splits)
qed

definition queue_pruned :: "concurrencyCache \<Rightarrow> int \<Rightarrow> int \<Rightarrow> redis \<Rightarrow> redis" where
  "queue_pruned c i t db =
     on (ApiKeyClosed i) (ZREMRANGE t) (on (ApiKeyWait i) (ZREMRANGE t) (on (LiveApiKey i) (ZREMRANGE (seconds t - 60))
       (on (ApiKeySlots i) (ZREMRANGE (seconds t - slotTTLSeconds c)) (awake t db))))"

lemma queue_pruned_leases:
  assumes "holding c t (awake t db) L"
  shows "holding c t (queue_pruned c i t db) L"
    and "ZSCORE m (zsets (queue_pruned c i t db) (ApiKeySlots i)) = L (ApiKeySlots i) m"
    and "ZSCORE m (zsets (queue_pruned c i t db) (ApiKeyWait i)) = L (ApiKeyWait i) m"
    and "ZSCORE m (zsets (queue_pruned c i t db) (ApiKeyClosed i)) = L (ApiKeyClosed i) m"
    and "ZCARD (zsets (queue_pruned c i t db) (ApiKeySlots i)) = lease_count L (ApiKeySlots i)"
    and "ZCARD (zsets (queue_pruned c i t db) (LiveApiKey i)) = lease_count L (LiveApiKey i)"
proof -
  show "holding c t (queue_pruned c i t db) L"
    unfolding queue_pruned_def
    by (rule holding_prune_deadline [OF holding_prune_deadline [OF
          holding_prune_slot [OF holding_prune_slot [OF assms _ order_refl] _ order_refl]]]) simp_all
qed (use pruned(1,3) [OF assms] pruned(2) [OF assms] in \<open>simp_all add: queue_pruned_def\<close>)

lemma advance_leases:
  assumes "holding c t (awake t db) L" "0 < slotTTLSeconds c"
    and run: "advanceAPIKeyQueueScript i mode m d n w (slotTTLSeconds c) 60 grace t db = (r, db')" "0 \<le> grace"
  shows "holding c t db' (next_advance i m d t r L)"
proof -
  define p where "p = queue_pruned c i t db"
  note P = queue_pruned_leases [OF assms(1), where i = i, folded p_def]
  note W = holding_rem [OF P(1), of "ApiKeyWait i" m]
  have G: "holding c t (on (ApiKeyWait i) (ZREM m) (on (ApiKeySlots i) (EXPIRE t (slotTTLSeconds c))
             (on (ApiKeySlots i) (ZADD (seconds t) m) p)))
             (put_lease (ApiKeyWait i) m None (put_lease (ApiKeySlots i) m (Some (seconds t)) L))"
    using assms(2) by (intro holding_rem holding_grant [OF P(1)]) simp_all
  have C: "t < d \<Longrightarrow> holding c t (on (ApiKeyClosed i) (EXPIRE t (cover_ttl t
               (case greatest_score (ZADD d m (zsets p (ApiKeyClosed i))) of None \<Rightarrow> d | Some s \<Rightarrow> s) grace))
             (on (ApiKeyClosed i) (ZADD d m) (on (ApiKeyWait i) (ZREM m) (on (ApiKeySlots i) (EXPIRE t (slotTTLSeconds c))
               (on (ApiKeySlots i) (ZADD (seconds t) m) p)))))
             (put_lease (ApiKeyClosed i) m (Some d)
               (put_lease (ApiKeyWait i) m None (put_lease (ApiKeySlots i) m (Some (seconds t)) L)))"
    using holding_mark_until [OF G, of "ApiKeyClosed i" d grace m] run(2) by simp
  obtain g where g: "greatest_score (ZADD d m (zsets p (ApiKeyWait i))) = Some g"
    using ZADD_greatest [of d m "zsets p (ApiKeyWait i)"] by (elim exE)
  have Q: "t < d \<Longrightarrow> holding c t (on (ApiKeyWait i) (EXPIRE t (cover_ttl t g grace)) (on (ApiKeyWait i) (ZADD d m) p))
             (put_lease (ApiKeyWait i) m (Some d) L)"
    using holding_mark [OF P(1), of "ApiKeyWait i" d grace m g] run(2) g by simp
  have E: "greatest_score (zsets p (ApiKeyWait i)) = Some s \<Longrightarrow>
             holding c t (on (ApiKeyWait i) (EXPIRE t (cover_ttl t s grace)) p) L" for s
    using holding_cover [OF P(1), of "ApiKeyWait i" s grace] run(2) by simp
  have same: "L (ApiKeyWait i) m = Some d \<Longrightarrow> put_lease (ApiKeyWait i) m (Some d) L = L"
    by (auto simp: put_lease_def fun_eq_iff)
  note body = run(1) [unfolded advanceAPIKeyQueueScript_def Let_def queue_pruned_def [symmetric] p_def [symmetric]]
  show ?thesis
    using body P W C Q E same g by (simp add: next_advance_def split: if_splits option.splits)
qed

lemma abort_leases:
  assumes "holding c t (awake t db) L" "0 \<le> grace" "abortAPIKeyQueueScript i m d grace rem t db = (r, db')"
  shows "holding c t db' (drop_if rem (ApiKeySlots i) m
           (put_lease (ApiKeyWait i) m None (if t < d then put_lease (ApiKeyClosed i) m (Some d) L else L)))"
proof -
  note M = holding_mark_until [OF assms(1), of "ApiKeyClosed i" d grace m]
  show ?thesis
  proof (cases "t < d")
    case True
    then show ?thesis using assms(2,3) M
      by (auto simp: abortAPIKeyQueueScript_def Let_def drop_if_def intro!: holding_rem split: if_splits)
  next
    case False
    then show ?thesis using assms(1,3)
      by (auto simp: abortAPIKeyQueueScript_def Let_def drop_if_def intro!: holding_rem split: if_splits)
  qed
qed

lemma stats_leases:
  assumes "holding c t (awake t db) L" "apiKeyQueueStatsScript i (slotTTLSeconds c) 60 t db = (r, db')"
  shows "holding c t db' L"
  using assms(2) queue_pruned_leases(1) [OF assms(1), of i]
  by (auto simp: apiKeyQueueStatsScript_def Let_def queue_pruned_def)

section \<open>Live leases\<close>

lemma holding_put_live:
  assumes "holding c t db L"
  shows "holding c t (on (LiveApiKey k) (EXPIRE t 60) (on (LiveUser u) (EXPIRE t 60) (on (LiveAccount a) (EXPIRE t 60)
           (on (LiveApiKey k) (ZADD (seconds t) m) (on (LiveUser u) (ZADD (seconds t) m) (on (LiveAccount a) (ZADD (seconds t) m) db))))))
           (put_live a u k m (seconds t) L)"
proof -
  have "holding c t (on (LiveApiKey k) (EXPIRE t 60) (on (LiveApiKey k) (ZADD (seconds t) m)
           (on (LiveUser u) (EXPIRE t 60) (on (LiveUser u) (ZADD (seconds t) m)
             (on (LiveAccount a) (EXPIRE t 60) (on (LiveAccount a) (ZADD (seconds t) m) db))))))
           (put_live a u k m (seconds t) L)"
    unfolding put_live_def by (intro holding_grant assms) simp_all
  then show ?thesis
    by (simp add: on_other [of "LiveUser u" "LiveApiKey k"] on_other [of "LiveAccount a" "LiveApiKey k"]
        on_other [of "LiveAccount a" "LiveUser u"])
qed

lemma holding_drop_live:
  assumes "holding c t db L"
  shows "holding c t (on (LiveApiKey k) (ZREM m) (on (LiveUser u) (ZREM m) (on (LiveAccount a) (ZREM m) db))) (drop_live a u k m L)"
  unfolding drop_live_def by (intro holding_rem assms)

lemma holding_drop_if:
  assumes "holding c t db L"
  shows "holding c t (if b then on k (ZREM m) db else db) (drop_if b k m L)"
  using assms by (simp add: drop_if_def holding_rem)

definition live_pruned :: "int \<Rightarrow> int \<Rightarrow> int \<Rightarrow> int \<Rightarrow> redis \<Rightarrow> redis" where
  "live_pruned a u k t db =
     on (LiveApiKey k) (ZREMRANGE (seconds t - 60)) (on (LiveUser u) (ZREMRANGE (seconds t - 60))
       (on (LiveAccount a) (ZREMRANGE (seconds t - 60)) (awake t db)))"

lemma live_pruned_leases:
  assumes "holding c t (awake t db) L"
  shows "holding c t (live_pruned a u k t db) L"
    and "ZSCORE m (zsets (live_pruned a u k t db) (LiveAccount a)) = L (LiveAccount a) m"
    and "ZSCORE m (zsets (live_pruned a u k t db) (LiveUser u)) = L (LiveUser u) m"
    and "ZSCORE m (zsets (live_pruned a u k t db) (LiveApiKey k)) = L (LiveApiKey k) m"
proof -
  show "holding c t (live_pruned a u k t db) L"
    unfolding live_pruned_def
    by (rule holding_prune_slot [OF holding_prune_slot [OF holding_prune_slot [OF assms _ order_refl] _ order_refl] _ order_refl]) simp_all
qed (use pruned(1) [OF assms] in \<open>simp_all add: live_pruned_def\<close>)

lemma live_acquire_leases:
  assumes "holding c t (awake t db) L" "acquireLiveLease c a an u un k kn '''' m rep t db = (r, db')"
  shows "holding c t db' (if r = 1 \<and> L (LiveAccount a) m = None then put_live a u k m (seconds t) L else L)"
proof -
  define p where "p = on (ApiKeySlots k) (ZREMRANGE (seconds t - slotTTLSeconds c)) (live_pruned a u k t db)"
  note P0 = live_pruned_leases [OF assms(1), where a = a and u = u and k = k]
  have P: "holding c t p L"
    unfolding p_def by (rule holding_prune_slot [OF P0(1) _ order_refl]) simp
  have Z: "ZSCORE m (zsets p (LiveAccount a)) = L (LiveAccount a) m" using P0(2) by (simp add: p_def)
  note body = assms(2) [unfolded acquireLiveLease_def acquireLiveLeaseScript_def Let_def liveLeaseTTLSeconds_def split_conv
      live_pruned_def [symmetric] p_def [symmetric]]
  show ?thesis using body P holding_put_live [OF P, of k u a m] Z by (simp split: if_splits)
qed

lemma transfer_leases:
  assumes "holding c t (awake t db) L" "transferLiveLeaseScript q 60 (slotTTLSeconds c) t db = (r, db')"
  shows "holding c t db' (if r = 1 then next_transfer q (seconds t) L else L)"
proof -
  define a u k m where names: "a = lt_AccountID q" "u = lt_UserID q" "k = lt_APIKeyID q" "m = lt_LeaseID q"
  define p where "p = on (TransferFence k) (ZREMRANGE t) (on (ApiKeySlots k) (ZREMRANGE (seconds t - slotTTLSeconds c)) (live_pruned a u k t db))"
  note P0 = live_pruned_leases [OF assms(1), where a = a and u = u and k = k]
  have P: "holding c t p L"
    unfolding p_def by (rule holding_prune_deadline [OF holding_prune_slot [OF P0(1) _ order_refl]]) simp_all
  have Z: "ZSCORE m (zsets p (LiveAccount a)) = L (LiveAccount a) m" "ZSCORE m (zsets p (LiveUser u)) = L (LiveUser u) m"
    "ZSCORE m (zsets p (LiveApiKey k)) = L (LiveApiKey k) m"
    using P0(2-4) by (simp_all add: p_def)
  note D = holding_drop_if [OF holding_drop_if [OF holding_drop_if [OF P, of "lt_AccountMax q > 0" "AccountSlots a" "lt_AccountRequestID q"],
    of "lt_UserMax q > 0" "UserSlots u" "lt_UserRequestID q"], of "lt_KeyRequestID q \<noteq> ''''" "ApiKeySlots k" "lt_KeyRequestID q"]
  note R = holding_put_live [OF D, of k u a m]
  note body = assms(2) [unfolded transferLiveLeaseScript_def Let_def names [symmetric] live_pruned_def [symmetric] p_def [symmetric]]
  show ?thesis using body P R Z by (simp add: next_transfer_def Let_def names [symmetric] split: if_splits)
qed

lemma migrate_leases:
  assumes "holding c t (awake t db) L" "migrateLiveLeaseAccountScript q 60 (slotTTLSeconds c) t db = (r, db')"
  shows "holding c t db' (if r = 1 then next_migrate q (seconds t) L else L)"
proof -
  define a u k m where names: "a = lt_AccountID q" "u = lt_UserID q" "k = lt_APIKeyID q" "m = lt_LeaseID q"
  define p where "p = on (AccountSlots a) (ZREMRANGE (seconds t - slotTTLSeconds c)) (live_pruned a u k t db)"
  note P0 = live_pruned_leases [OF assms(1), where a = a and u = u and k = k]
  have P: "holding c t p L"
    unfolding p_def by (rule holding_prune_slot [OF P0(1) _ order_refl]) simp
  note D = holding_drop_if [OF P, of "lt_AccountMax q > 0" "AccountSlots a" "lt_AccountRequestID q"]
  note R = holding_put_live [OF holding_rem [OF D, of "LiveAccount (lt_ReplacedAccountID q)" m], of k u a m]
  note body = assms(2) [unfolded migrateLiveLeaseAccountScript_def Let_def names [symmetric] live_pruned_def [symmetric] p_def [symmetric]]
  show ?thesis using body P R by (simp add: next_migrate_def Let_def names [symmetric] split: if_splits)
qed

lemma holding_fence:
  assumes "holding c t db L"
  shows "holding c t (on (TransferFence i) (EXPIRE t 60) (on (TransferFence i) (ZADD (t + 60000) m) db))
           (put_lease (TransferFence i) m (Some (t + 60000)) L)"
proof -
  have "rows_ok c t (TransferFence i) (ZADD (t + 60000) m (zsets db (TransferFence i)))"
    using holding_ok [OF assms] by (intro ZADD_rows) (auto simp: score_ok_def zset_ok_def)
  then have "zset_ok c t (TransferFence i) (EXPIRE t 60 (ZADD (t + 60000) m (zsets db (TransferFence i))))" by (rule FENCE_ok)
  moreover have "on k (EXPIRE t 60) (on k (ZADD (t + 60000) m) db) = on k (\<lambda>z. EXPIRE t 60 (ZADD (t + 60000) m z)) db" for k
    by (simp add: on_def)
  ultimately show ?thesis
    using assms by (auto intro!: redis_ok_on simp: holding_def leases_on lease_EXPIRE lease_ZADD put_lease_def leases_def)
qed

lemma rem_source_eq: "rem_source k m db = (if m \<noteq> '''' then on k (ZREM m) db else db)"
  by (simp add: rem_source_def)

lemma live_abort_leases:
  assumes "holding c t (awake t db) L" "abortLiveLeaseTransferScript q 60 t db = (r, db')"
  shows "holding c t db' (next_abort q t L)"
proof -
  note F = holding_fence [OF assms(1), of "lt_APIKeyID q" "lt_LeaseID q"]
  note D = holding_drop_if [OF holding_drop_if [OF holding_drop_if [OF F,
      of "lt_AccountRequestID q \<noteq> ''''" "AccountSlots (lt_AccountID q)" "lt_AccountRequestID q"],
    of "lt_UserRequestID q \<noteq> ''''" "UserSlots (lt_UserID q)" "lt_UserRequestID q"],
    of "lt_KeyRequestID q \<noteq> ''''" "ApiKeySlots (lt_APIKeyID q)" "lt_KeyRequestID q"]
  note R = holding_drop_live [OF D, of "lt_APIKeyID q" "lt_LeaseID q" "lt_UserID q" "lt_AccountID q"]
  show ?thesis
    using assms(2) R by (auto simp: abortLiveLeaseTransferScript_def Let_def rem_source_eq next_abort_def)
qed

lemma live_refresh_leases:
  assumes "holding c t (awake t db) L"
    "refreshLiveLeaseScript [LiveAccount a, LiveUser u, LiveApiKey k] 60 m t db = (r, db')"
  shows "holding c t db' (if r = 1 then put_live a u k m (seconds t) L else L)"
proof -
  have P1: "holding c t (on (LiveAccount a) (ZREMRANGE (seconds t - 60)) (awake t db)) L"
    by (rule holding_prune_slot [OF assms(1) _ order_refl]) simp
  have P2: "holding c t (on (LiveUser u) (ZREMRANGE (seconds t - 60)) (on (LiveAccount a) (ZREMRANGE (seconds t - 60)) (awake t db))) L"
    by (rule holding_prune_slot [OF P1 _ order_refl]) simp
  have P3: "holding c t (on (LiveApiKey k) (ZREMRANGE (seconds t - 60))
      (on (LiveUser u) (ZREMRANGE (seconds t - 60)) (on (LiveAccount a) (ZREMRANGE (seconds t - 60)) (awake t db)))) L"
    by (rule holding_prune_slot [OF P2 _ order_refl]) simp
  have "holding c t (on (LiveApiKey k) (EXPIRE t 60) (on (LiveApiKey k) (ZADD (seconds t) m)
           (on (LiveUser u) (EXPIRE t 60) (on (LiveUser u) (ZADD (seconds t) m)
             (on (LiveAccount a) (EXPIRE t 60) (on (LiveAccount a) (ZADD (seconds t) m)
      (on (LiveApiKey k) (ZREMRANGE (seconds t - 60))
      (on (LiveUser u) (ZREMRANGE (seconds t - 60)) (on (LiveAccount a) (ZREMRANGE (seconds t - 60)) (awake t db)))))))))) 
           (put_live a u k m (seconds t) L)"
    unfolding put_live_def by (intro holding_grant P3) simp_all
  then show ?thesis
    using assms(2) P1 P2 P3 by (simp add: refreshLiveLeaseScript_def Let_def split: if_splits)
qed

lemma live_release_leases:
  assumes "holding c t (awake t db) L" "releaseLiveLease a u k m t db = (r, db')"
  shows "holding c t db' (drop_live a u k m L)"
  using holding_drop_live [OF assms(1), of k m u a] assms(2) by (auto simp: releaseLiveLease_def)

section \<open>Every command\<close>

lemma wait_enter_leases:
  "holding c t (awake t db) L \<Longrightarrow> incrementWaitScript k n ttl t db = (r, db') \<Longrightarrow> holding c t db' L"
  by (auto simp: incrementWaitScript_def Let_def split: if_splits option.splits)

lemma wait_leave_leases:
  "holding c t (awake t db) L \<Longrightarrow> decrementWaitScript k t db = (r, db') \<Longrightarrow> holding c t db' L"
  by (auto simp: decrementWaitScript_def Let_def split: if_splits option.splits prod.splits)

lemma load_leases:
  assumes "holding c t (awake t db) L" "account_load c i n (seconds t - int behind) t db = (r, db')"
  shows "holding c t db' L"
proof -
  have "holding c t (on (LiveAccount i) (ZREMRANGE (seconds t - int behind - 60))
      (on (AccountSlots i) (ZREMRANGE (seconds t - int behind - slotTTLSeconds c)) (awake t db))) L"
    by (rule holding_prune_slot [OF holding_prune_slot [OF assms(1), where ttl = "slotTTLSeconds c"], where ttl = 60]) simp_all
  then show ?thesis using assms(2) by (auto simp: account_load_def Let_def liveLeaseTTLSeconds_def)
qed

lemma apfst_eq: "apfst f x = (r, y) \<longleftrightarrow> (\<exists>w. x = (w, y) \<and> r = f w)"
  by (cases x) auto

lemma run_op_leases:
  assumes "valid_cache c" "redis_ok c t0 db" "t0 \<le> t" "run_op c op t db = (code, db')"
  shows "holding c t db' (next_leases op t code (leases c t db))"
proof -
  note H = holding_awake [OF assms(2,3)]
  have V: "0 < slotTTLSeconds c" using assms(1) by (simp add: valid_cache_def)
  note ttls = liveLeaseTTLSeconds_def openAIWSIngressLeaseTTLSeconds_def apiKeyQueueCleanupGraceSeconds_def
  note run = assms(4) [unfolded ttls]
  show ?thesis
  proof (cases op)
    case (AccountAcquire i n m)
    then show ?thesis
      using run acquire_leases(1) [OF H, of "AccountSlots i" "slotTTLSeconds c" "LiveAccount i" n m] V by (auto simp: apfst_eq)
  next
    case (UserAcquire i n m)
    then show ?thesis
      using run acquire_leases(1) [OF H, of "UserSlots i" "slotTTLSeconds c" "LiveUser i" n m] V by (auto simp: apfst_eq)
  next
    case (AccountCount i)
    then show ?thesis
      using run count_leases(1) [OF H, of "AccountSlots i" "slotTTLSeconds c" "LiveAccount i"] by simp
  next
    case (UserCount i)
    then show ?thesis
      using run count_leases(1) [OF H, of "UserSlots i" "slotTTLSeconds c" "LiveUser i"] by simp
  next
    case (KeyFast i n m)
    then show ?thesis using run fast_leases [OF H V, of i m n] by (auto simp: apfst_eq ttls)
  next
    case (AccountCleanup i)
    then show ?thesis using run cleanup_leases [OF H _ V, of "AccountSlots i"] by simp
  next
    case (KeyTrack i m)
    then show ?thesis using run track_leases [OF H _ V, of "ApiKeySlots i"] by simp
  next
    case (QueueAbort i m d rem)
    then show ?thesis using run abort_leases [OF H, where grace = 5 and i = i] by (simp add: ttls)
  next
    case (AccountLoad i n b)
    then show ?thesis using run load_leases [OF H, of i n b] by (auto simp: apfst_eq)
  qed (use run H V in \<open>auto simp: apfst_eq ttls dest: release_leases [OF H] refresh_key_leases [OF H V] advance_leases [OF H V, where grace = 5]
        stats_leases [OF H] live_acquire_leases [OF H] transfer_leases [OF H] migrate_leases [OF H]
        live_abort_leases [OF H] live_refresh_leases [OF H] live_release_leases [OF H] ws_acquire_leases [OF H] ws_refresh_leases [OF H]
        wait_enter_leases [OF H] wait_leave_leases [OF H]\<close>)
qed

end
