(* ===== verification/RedisSafety.thy ===== *)
theory RedisSafety
  imports RedisOps
begin

text \<open>
  Limits over runs of the concurrency cache. A run is any sequence of commands of any number of processes, at times that
  do not decrease. What is counted is what was granted: the table of leases is made from the commands and their replies
  alone.
\<close>

section \<open>Dimensions\<close>

text \<open>An account, a user or a key: its ordinary slots and its live leases share one limit.\<close>

datatype slot_dim = ForAccount int | ForUser int | ForKey int

fun regular_key :: "slot_dim \<Rightarrow> redis_key" where
  "regular_key (ForAccount i) = AccountSlots i"
| "regular_key (ForUser i) = UserSlots i"
| "regular_key (ForKey i) = ApiKeySlots i"

fun live_key :: "slot_dim \<Rightarrow> redis_key" where
  "live_key (ForAccount i) = LiveAccount i"
| "live_key (ForUser i) = LiveUser i"
| "live_key (ForKey i) = LiveApiKey i"

lemma live_not_regular [simp]: "live_key d \<noteq> regular_key e" "regular_key e \<noteq> live_key d"
  by (cases d; cases e; simp)+

lemma key_same [simp]: "regular_key d = regular_key e \<longleftrightarrow> d = e" "live_key d = live_key e \<longleftrightarrow> d = e"
  by (cases d; cases e; simp)+

definition rows :: "slot_dim \<Rightarrow> redis \<Rightarrow> int" where
  "rows d db = ZCARD (zsets db (regular_key d)) + ZCARD (zsets db (live_key d))"

definition within :: "slot_dim \<Rightarrow> int \<Rightarrow> redis \<Rightarrow> bool" where
  "within d n db \<longleftrightarrow> rows d db \<le> n"

text \<open>
  Every limit a command passes for a dimension is at most \<open>n\<close>, and none asks for no limit: a limit of zero is none for the fast
  attempt of a key, for a live lease and for a transfer, and a tracked key has none.
\<close>

definition limited :: "int \<Rightarrow> int \<Rightarrow> bool" where "limited n l \<longleftrightarrow> 0 < l \<and> l \<le> n"

fun keeps_limit :: "slot_dim \<Rightarrow> int \<Rightarrow> redis_op \<Rightarrow> bool" where
  "keeps_limit d n (AccountAcquire i l m) \<longleftrightarrow> (d = ForAccount i \<longrightarrow> l \<le> n)"
| "keeps_limit d n (UserAcquire i l m) \<longleftrightarrow> (d = ForUser i \<longrightarrow> l \<le> n)"
| "keeps_limit d n (KeyFast i l m) \<longleftrightarrow> (d = ForKey i \<longrightarrow> limited n l)"
| "keeps_limit d n (KeyTrack i m) \<longleftrightarrow> d \<noteq> ForKey i"
| "keeps_limit d n (QueueAdvance i mode m dl l w) \<longleftrightarrow> (d = ForKey i \<longrightarrow> l \<le> n)"
| "keeps_limit d n (LiveAcquire a an u un k kn m r) \<longleftrightarrow>
     (d = ForAccount a \<longrightarrow> limited n an) \<and> (d = ForUser u \<longrightarrow> limited n un) \<and> (d = ForKey k \<longrightarrow> limited n kn)"
| "keeps_limit d n (LiveTransfer q) \<longleftrightarrow>
     (d = ForAccount (lt_AccountID q) \<longrightarrow> limited n (lt_AccountMax q)) \<and> (d = ForUser (lt_UserID q) \<longrightarrow> limited n (lt_UserMax q)) \<and>
     (d = ForKey (lt_APIKeyID q) \<longrightarrow> limited n (lt_APIKeyMax q))"
| "keeps_limit d n (LiveMigrate q) \<longleftrightarrow> (d = ForAccount (lt_AccountID q) \<longrightarrow> limited n (lt_AccountMax q))"
| "keeps_limit d n op \<longleftrightarrow> True"

text \<open>A live lease that replaces the ordinary slots of its account and its user, which its caller holds until it has the lease.\<close>

fun replaces_slot :: "slot_dim \<Rightarrow> redis_op \<Rightarrow> bool" where
  "replaces_slot d (LiveAcquire a an u un k kn m r) \<longleftrightarrow> r \<and> (d = ForAccount a \<or> d = ForUser u)"
| "replaces_slot d op \<longleftrightarrow> False"

text \<open>The replacing acquire counts one more than its limit. The bound it leaves:\<close>

definition keeps_bound :: "slot_dim \<Rightarrow> int \<Rightarrow> redis_op \<Rightarrow> bool" where
  "keeps_bound d n op \<longleftrightarrow> keeps_limit d (n - (if replaces_slot d op then 1 else 0)) op"

section \<open>Commands that do not add a row\<close>

lemma rows_on_shrink: "(\<And>z. ZCARD (f z) \<le> ZCARD z) \<Longrightarrow> rows d (on k f db) \<le> rows d db"
  by (simp add: rows_def add_mono)

lemma within_shrink: "within d n db \<Longrightarrow> (\<And>z. ZCARD (f z) \<le> ZCARD z) \<Longrightarrow> within d n (on k f db)"
  using rows_on_shrink [of f d k db] by (simp add: within_def)

lemma within_awake [intro]: "within d n db \<Longrightarrow> within d n (awake t db)"
  using awake_rows [of t db "regular_key d"] awake_rows [of t db "live_key d"] by (simp add: within_def rows_def)

lemma within_prune [intro]: "within d n db \<Longrightarrow> within d n (on k (ZREMRANGE b) db)"
  by (rule within_shrink) (simp_all add: ZREMRANGE_card)

lemma within_rem [intro]: "within d n db \<Longrightarrow> within d n (on k (ZREM m) db)"
  by (rule within_shrink) (simp_all add: ZREM_card)

lemma within_expire [intro]: "within d n db \<Longrightarrow> within d n (on k (EXPIRE t secs) db)"
  by (rule within_shrink) (simp_all add: EXPIRE_card)

lemma within_del [intro]: "within d n db \<Longrightarrow> within d n (on k (\<lambda>_. no_zset) db)"
  by (rule within_shrink) (simp_all add: ZCARD_def)

lemma within_counters [simp]: "within d n (db\<lparr>counters := x\<rparr>) = within d n db"
  by (simp add: within_def rows_def)

lemma within_mono: "within d n db \<Longrightarrow> n \<le> n' \<Longrightarrow> within d n' db"
  by (simp add: within_def)

section \<open>Commands that may add a row\<close>

lemma within_add_other [intro]:
  "within d n db \<Longrightarrow> k \<noteq> regular_key d \<Longrightarrow> k \<noteq> live_key d \<Longrightarrow> within d n (on k (ZADD s m) db)"
  by (simp add: within_def rows_def)

lemma within_add_held: "within d n db \<Longrightarrow> ZSCORE m (zsets db k) \<noteq> None \<Longrightarrow> within d n (on k (ZADD s m) db)"
  by (auto simp: within_def rows_def ZADD_card)

lemma within_add_room: "within d (n - 1) db \<Longrightarrow> within d n (on k (ZADD s m) db)"
  by (auto simp: within_def rows_def ZADD_card)

lemma within_rem_held:
  assumes "redis_ok c t db" "within d n db" "k = regular_key d \<or> k = live_key d" "ZSCORE m (zsets db k) \<noteq> None"
  shows "within d (n - 1) (on k (ZREM m) db)"
proof -
  have "ZCARD (ZREM m (zsets db k)) = ZCARD (zsets db k) - 1"
    using ZREM_card_held [of c t k "zsets db k" m] redis_okD [OF assms(1), of k] assms(4) by (simp add: zset_ok_def)
  then show ?thesis using assms(2,3) by (auto simp: within_def rows_def)
qed

lemma key_unlike [simp]:
  "regular_key d = AccountSlots i \<longleftrightarrow> d = ForAccount i" "regular_key d = UserSlots i \<longleftrightarrow> d = ForUser i"
  "regular_key d = ApiKeySlots i \<longleftrightarrow> d = ForKey i"
  "AccountSlots i = regular_key d \<longleftrightarrow> d = ForAccount i" "UserSlots i = regular_key d \<longleftrightarrow> d = ForUser i"
  "ApiKeySlots i = regular_key d \<longleftrightarrow> d = ForKey i"
  "LiveAccount i = live_key d \<longleftrightarrow> d = ForAccount i" "LiveUser i = live_key d \<longleftrightarrow> d = ForUser i"
  "LiveApiKey i = live_key d \<longleftrightarrow> d = ForKey i"
  "AccountSlots i \<noteq> live_key d" "UserSlots i \<noteq> live_key d" "ApiKeySlots i \<noteq> live_key d"
  "LiveAccount i \<noteq> regular_key d" "LiveUser i \<noteq> regular_key d" "LiveApiKey i \<noteq> regular_key d"
  "WsIngress i \<noteq> live_key d" "WsIngress i \<noteq> regular_key d" "ApiKeyWait i \<noteq> live_key d" "ApiKeyWait i \<noteq> regular_key d"
  "ApiKeyClosed i \<noteq> live_key d" "ApiKeyClosed i \<noteq> regular_key d" "TransferFence i \<noteq> live_key d" "TransferFence i \<noteq> regular_key d"
  by (cases d; auto)+

lemma live_is [simp]:
  "live_key d = LiveAccount i \<longleftrightarrow> d = ForAccount i" "live_key d = LiveUser i \<longleftrightarrow> d = ForUser i"
  "live_key d = LiveApiKey i \<longleftrightarrow> d = ForKey i"
  by (cases d; auto)+

lemma room: "rows d db < l \<Longrightarrow> l \<le> n \<Longrightarrow> within d (n - 1) db"
  by (simp add: within_def)

section \<open>No command exceeds the limit\<close>

lemma grant_within:
  assumes "within d n db" "k = regular_key d \<or> k = live_key d \<Longrightarrow> ZSCORE m (zsets db k) \<noteq> None \<or> within d (n - 1) db"
  shows "within d n (on k (EXPIRE t ttl) (on k (ZADD s m) db))"
  using assms within_add_other [OF assms(1), of k s m] within_add_held [OF assms(1), of m k s] within_add_room [of d n db k s m]
  by (intro within_expire) blast

lemma acquire_within:
  assumes "within d n db" "acquireScript (regular_key e) (live_key e) l ttl m t db = ((r, now), db')" "d = e \<Longrightarrow> l \<le> n"
  shows "within d n db'"
proof -
  define p where "p = on (live_key e) (ZREMRANGE (seconds t - 60)) (on (regular_key e) (ZREMRANGE (seconds t - ttl)) (awake t db))"
  have P: "within d n p" unfolding p_def by (intro within_prune within_awake assms(1))
  have G: "within d n (on (regular_key e) (EXPIRE t ttl) (on (regular_key e) (ZADD (seconds t) m) p))"
    if "ZSCORE m (zsets p (regular_key e)) \<noteq> None \<or> ZCARD (zsets p (regular_key e)) + ZCARD (zsets p (live_key e)) < l"
    using that assms(3) by (intro grant_within [OF P]) (auto simp: within_def rows_def)
  note body = assms(2) [unfolded acquireScript_def Let_def p_def [symmetric]]
  show ?thesis using body P G by (auto split: if_splits)
qed

lemma fast_within:
  assumes "within d n db" "acquireAPIKeySlotScript i ttl lttl m l t db = ((r, ms), db')" "d = ForKey i \<Longrightarrow> limited n l"
  shows "within d n db'"
proof -
  define p where "p = on (LiveApiKey i) (ZREMRANGE (seconds t - lttl)) (on (ApiKeySlots i) (ZREMRANGE (seconds t - ttl)) (awake t db))"
  have P: "within d n p" unfolding p_def by (intro within_prune within_awake assms(1))
  have G: "within d n (on (ApiKeySlots i) (EXPIRE t ttl) (on (ApiKeySlots i) (ZADD (seconds t) m) p))"
    if "\<not> (0 < l \<and> l \<le> ZCARD (zsets p (ApiKeySlots i)) + ZCARD (zsets p (LiveApiKey i)))"
    using that assms(3) by (intro grant_within [OF P]) (auto simp: within_def rows_def limited_def)
  note body = assms(2) [unfolded acquireAPIKeySlotScript_def Let_def p_def [symmetric]]
  show ?thesis using body P G by (auto split: if_splits)
qed

lemma advance_within:
  assumes "within d n db" "advanceAPIKeyQueueScript i mode m dl l w ttl lttl grace t db = (r, db')" "d = ForKey i \<Longrightarrow> l \<le> n"
  shows "within d n db'"
proof -
  define p where "p = on (ApiKeyClosed i) (ZREMRANGE t) (on (ApiKeyWait i) (ZREMRANGE t) (on (LiveApiKey i) (ZREMRANGE (seconds t - lttl))
                 (on (ApiKeySlots i) (ZREMRANGE (seconds t - ttl)) (awake t db))))"
  have P: "within d n p" unfolding p_def by (intro within_prune within_awake assms(1))
  have G: "within d n (on (ApiKeySlots i) (EXPIRE t ttl) (on (ApiKeySlots i) (ZADD (seconds t) m) p))"
    if "ZCARD (zsets p (ApiKeySlots i)) + ZCARD (zsets p (LiveApiKey i)) < l"
    using that assms(3) by (intro grant_within [OF P]) (auto simp: within_def rows_def)
  have G': "within d n (on (ApiKeyClosed i) (EXPIRE t x) (on (ApiKeyClosed i) (ZADD s m) (on (ApiKeyWait i) (ZREM m)
      (on (ApiKeySlots i) (EXPIRE t ttl) (on (ApiKeySlots i) (ZADD (seconds t) m) p)))))"
    if "ZCARD (zsets p (ApiKeySlots i)) + ZCARD (zsets p (LiveApiKey i)) < l" for x s
    by (intro within_expire within_add_other within_rem G that) simp_all
  have W: "within d n (on (ApiKeyWait i) (EXPIRE t x) (on (ApiKeyWait i) (ZADD s m) p))" for x s
    by (intro within_expire within_add_other P) simp_all
  note body = assms(2) [unfolded advanceAPIKeyQueueScript_def Let_def p_def [symmetric]]
  show ?thesis
    using body P W G' within_rem [OF P, of "ApiKeyWait i" m] within_expire [OF P, of "ApiKeyWait i" t]
      within_add_other [OF P, of "ApiKeyWait i" dl m]
    by (auto split: if_splits option.splits)
qed

lemma live_put_within:
  assumes "within d n db"
    "live_key d = LiveAccount a \<or> live_key d = LiveUser u \<or> live_key d = LiveApiKey k \<Longrightarrow>
       ZSCORE m (zsets db (live_key d)) \<noteq> None \<or> within d (n - 1) db"
  shows "within d n (on (LiveApiKey k) (EXPIRE t 60) (on (LiveUser u) (EXPIRE t 60) (on (LiveAccount a) (EXPIRE t 60)
           (on (LiveApiKey k) (ZADD s m) (on (LiveUser u) (ZADD s m) (on (LiveAccount a) (ZADD s m) db))))))"
proof -
  have "within d n (on (LiveApiKey k) (EXPIRE t 60) (on (LiveApiKey k) (ZADD s m)
           (on (LiveUser u) (EXPIRE t 60) (on (LiveUser u) (ZADD s m)
             (on (LiveAccount a) (EXPIRE t 60) (on (LiveAccount a) (ZADD s m) db))))))"
    using assms by (intro grant_within) (auto intro!: within_expire within_add_other)
  then show ?thesis
    by (simp add: on_other [of "LiveUser u" "LiveApiKey k"] on_other [of "LiveAccount a" "LiveApiKey k"]
        on_other [of "LiveAccount a" "LiveUser u"])
qed

lemma live_acquire_within:
  assumes "within d n db" "acquireLiveLease c a an u un k kn '''' m rep t db = (r, db')"
    "keeps_bound d n (LiveAcquire a an u un k kn m rep)"
  shows "within d n db'"
proof -
  define p where "p = on (ApiKeySlots k) (ZREMRANGE (seconds t - slotTTLSeconds c)) (live_pruned a u k t db)"
  have P: "within d n p" unfolding p_def live_pruned_def by (intro within_prune within_awake assms(1))
  note body = assms(2) [unfolded acquireLiveLease_def acquireLiveLeaseScript_def Let_def liveLeaseTTLSeconds_def split_conv
      live_pruned_def [symmetric] p_def [symmetric]]
  let ?granted = "on (LiveApiKey k) (EXPIRE t 60) (on (LiveUser u) (EXPIRE t 60) (on (LiveAccount a) (EXPIRE t 60)
      (on (LiveApiKey k) (ZADD (seconds t) m) (on (LiveUser u) (ZADD (seconds t) m) (on (LiveAccount a) (ZADD (seconds t) m) p)))))"
  have room_account: "within d (n - 1) p" if "d = ForAccount a" "\<not> (0 < an \<and> an + (if rep then 1 else 0) \<le> ZCARD (zsets p (AccountSlots a)) + ZCARD (zsets p (LiveAccount a)))"
    using that assms(3) by (auto simp: keeps_bound_def limited_def within_def rows_def split: if_splits)
  have room_user: "within d (n - 1) p" if "d = ForUser u" "\<not> (0 < un \<and> un + (if rep then 1 else 0) \<le> ZCARD (zsets p (UserSlots u)) + ZCARD (zsets p (LiveUser u)))"
    using that assms(3) by (auto simp: keeps_bound_def limited_def within_def rows_def split: if_splits)
  have room_key: "within d (n - 1) p" if "d = ForKey k" "\<not> (0 < kn \<and> kn \<le> ZCARD (zsets p (ApiKeySlots k)) + ZCARD (zsets p (LiveApiKey k)))"
    using that assms(3) by (auto simp: keeps_bound_def limited_def within_def rows_def)
  have G: "within d n ?granted"
    if "\<not> (0 < an \<and> an + (if rep then 1 else 0) \<le> ZCARD (zsets p (AccountSlots a)) + ZCARD (zsets p (LiveAccount a)))"
      "\<not> (0 < un \<and> un + (if rep then 1 else 0) \<le> ZCARD (zsets p (UserSlots u)) + ZCARD (zsets p (LiveUser u)))"
      "\<not> (0 < kn \<and> kn \<le> ZCARD (zsets p (ApiKeySlots k)) + ZCARD (zsets p (LiveApiKey k)))"
    using that room_account room_user room_key by (intro live_put_within [OF P]) auto
  show ?thesis using body P G by (simp split: if_splits)
qed

lemma holding_redis_ok: "holding c t db L \<Longrightarrow> redis_ok c t db"
  by (simp add: holding_def)

lemma within_drop: "within d n db \<Longrightarrow> within d n (if b then on k (ZREM m) db else db)"
  by (simp add: within_rem)

lemma within_drop_held:
  assumes "redis_ok c t db" "within d n db" "k = regular_key d \<or> k = live_key d" "b \<Longrightarrow> ZSCORE m (zsets db k) \<noteq> None" b
  shows "within d (n - 1) (if b then on k (ZREM m) db else db)"
  using within_rem_held [OF assms(1-3), of m] assms(4,5) by simp

lemma redis_ok_drop: "redis_ok c t db \<Longrightarrow> redis_ok c t (if b then on k (ZREM m) db else db)"
  using redis_ok_on [of c t db k "ZREM m"] ZREM_ok [OF redis_okD] by simp

lemma zsets_drop: "zsets (if b then on k f db else db) j = (if b \<and> j = k then f (zsets db k) else zsets db j)"
  by simp

lemma transfer_within:
  assumes "redis_ok c t (awake t db)" "within d n db" "transferLiveLeaseScript q 60 (slotTTLSeconds c) t db = (r, db')"
    "keeps_limit d n (LiveTransfer q)"
  shows "within d n db'"
proof -
  define a u k m where names: "a = lt_AccountID q" "u = lt_UserID q" "k = lt_APIKeyID q" "m = lt_LeaseID q"
  define p where "p = on (TransferFence k) (ZREMRANGE t) (on (ApiKeySlots k) (ZREMRANGE (seconds t - slotTTLSeconds c)) (live_pruned a u k t db))"
  define x where "x = (if lt_AccountMax q > 0 then on (AccountSlots a) (ZREM (lt_AccountRequestID q)) p else p)"
  define y where "y = (if lt_UserMax q > 0 then on (UserSlots u) (ZREM (lt_UserRequestID q)) x else x)"
  define z where "z = (if lt_KeyRequestID q \<noteq> '''' then on (ApiKeySlots k) (ZREM (lt_KeyRequestID q)) y else y)"
  have P: "within d n p" unfolding p_def live_pruned_def by (intro within_prune within_awake assms(2))
  have ok: "redis_ok c t p"
    using assms(1) unfolding p_def live_pruned_def by (intro redis_ok_on ZREMRANGE_ok redis_okD)
  have X: "within d n x" "redis_ok c t x" and Y: "within d n y" "redis_ok c t y" and Z: "within d n z"
    unfolding x_def y_def z_def by (intro within_drop redis_ok_drop P ok)+
  have limits: "d = ForAccount a \<Longrightarrow> limited n (lt_AccountMax q)" "d = ForUser u \<Longrightarrow> limited n (lt_UserMax q)"
    "d = ForKey k \<Longrightarrow> limited n (lt_APIKeyMax q)"
    using assms(4) by (simp_all add: names)
  have R: "within d (n - 1) z"
    if held: "\<not> source_lost (lt_AccountMax q) (lt_AccountRequestID q) (zsets p (AccountSlots a))"
      "\<not> source_lost (lt_UserMax q) (lt_UserRequestID q) (zsets p (UserSlots u))"
      "\<not> source_lost (lt_APIKeyMax q) (lt_KeyRequestID q) (zsets p (ApiKeySlots k))"
      and d: "live_key d = LiveAccount a \<or> live_key d = LiveUser u \<or> live_key d = LiveApiKey k"
  proof -
    consider "d = ForAccount a" | "d = ForUser u" | "d = ForKey k" using d by auto
    then show ?thesis
    proof cases
      case 1
      then have "within d (n - 1) x"
        using within_rem_held [OF ok P, of "AccountSlots a" "lt_AccountRequestID q"] held(1) limits(1)
        by (simp add: x_def source_lost_def limited_def)
      then show ?thesis unfolding z_def y_def by (intro within_drop)
    next
      case 2
      then have "within d (n - 1) y"
        using within_rem_held [OF X(2,1), of "UserSlots u" "lt_UserRequestID q"] held(2) limits(2)
        by (simp add: y_def x_def source_lost_def limited_def split: if_splits)
      then show ?thesis unfolding z_def by (intro within_drop)
    next
      case 3
      then show ?thesis
        using within_rem_held [OF Y(2,1), of "ApiKeySlots k" "lt_KeyRequestID q"] held(3) limits(3)
        by (simp add: z_def y_def x_def source_lost_def limited_def split: if_splits)
    qed
  qed
  note G = live_put_within [OF Z, where a = a and u = u and k = k and m = m and s = "seconds t" and t = t]
  note body = assms(3) [unfolded transferLiveLeaseScript_def Let_def names [symmetric] live_pruned_def [symmetric] p_def [symmetric],
      folded x_def, folded y_def, folded z_def]
  show ?thesis using body P G R by (auto split: if_splits)
qed

lemma migrate_within:
  assumes "redis_ok c t (awake t db)" "within d n db" "migrateLiveLeaseAccountScript q 60 (slotTTLSeconds c) t db = (r, db')"
    "keeps_limit d n (LiveMigrate q)"
  shows "within d n db'"
proof -
  define a u k m where names: "a = lt_AccountID q" "u = lt_UserID q" "k = lt_APIKeyID q" "m = lt_LeaseID q"
  define p where "p = on (AccountSlots a) (ZREMRANGE (seconds t - slotTTLSeconds c)) (live_pruned a u k t db)"
  define x where "x = (if lt_AccountMax q > 0 then on (AccountSlots a) (ZREM (lt_AccountRequestID q)) p else p)"
  define y where "y = on (LiveAccount (lt_ReplacedAccountID q)) (ZREM m) x"
  have P: "within d n p" unfolding p_def live_pruned_def by (intro within_prune within_awake assms(2))
  have ok: "redis_ok c t p"
    using assms(1) unfolding p_def live_pruned_def by (intro redis_ok_on ZREMRANGE_ok redis_okD)
  have Y: "within d n y" unfolding y_def x_def by (intro within_rem within_drop P)
  have R: "ZSCORE m (zsets y (live_key d)) \<noteq> None \<or> within d (n - 1) y"
    if held: "\<not> source_lost (lt_AccountMax q) (lt_AccountRequestID q) (zsets p (AccountSlots a))"
      "ZSCORE m (zsets p (LiveUser u)) \<noteq> None" "ZSCORE m (zsets p (LiveApiKey k)) \<noteq> None"
      and d: "live_key d = LiveAccount a \<or> live_key d = LiveUser u \<or> live_key d = LiveApiKey k"
  proof -
    consider "d = ForAccount a" | "d = ForUser u" | "d = ForKey k" using d by auto
    then show ?thesis
    proof cases
      case 1
      then have "within d (n - 1) x"
        using within_rem_held [OF ok P, of "AccountSlots a" "lt_AccountRequestID q"] held(1) assms(4)
        by (simp add: x_def source_lost_def limited_def names)
      then show ?thesis unfolding y_def by (intro disjI2 within_rem)
    qed (use held(2,3) in \<open>simp_all add: y_def x_def\<close>)
  qed
  note G = live_put_within [OF Y, where a = a and u = u and k = k and m = m and s = "seconds t" and t = t]
  note body = assms(3) [unfolded migrateLiveLeaseAccountScript_def Let_def names [symmetric] live_pruned_def [symmetric] p_def [symmetric],
      folded x_def, folded y_def]
  show ?thesis using body P G R by (auto split: if_splits)
qed

lemma live_refresh_within:
  assumes "within d n db" "refreshLiveLeaseScript [LiveAccount a, LiveUser u, LiveApiKey k] 60 m t db = (r, db')"
  shows "within d n db'"
proof -
  define p1 where "p1 = on (LiveAccount a) (ZREMRANGE (seconds t - 60)) (awake t db)"
  define p2 where "p2 = on (LiveUser u) (ZREMRANGE (seconds t - 60)) p1"
  define p3 where "p3 = on (LiveApiKey k) (ZREMRANGE (seconds t - 60)) p2"
  have P: "within d n p1" "within d n p2" "within d n p3"
    unfolding p1_def p2_def p3_def by (intro within_prune within_awake assms(1))+
  have G: "within d n (on (LiveApiKey k) (EXPIRE t 60) (on (LiveApiKey k) (ZADD (seconds t) m)
           (on (LiveUser u) (EXPIRE t 60) (on (LiveUser u) (ZADD (seconds t) m)
             (on (LiveAccount a) (EXPIRE t 60) (on (LiveAccount a) (ZADD (seconds t) m) p3))))))"
    if "ZSCORE m (zsets p1 (LiveAccount a)) \<noteq> None" "ZSCORE m (zsets p2 (LiveUser u)) \<noteq> None" "ZSCORE m (zsets p3 (LiveApiKey k)) \<noteq> None"
    using that by (intro grant_within P(3)) (auto simp: p2_def p3_def)
  note body = assms(2) [unfolded refreshLiveLeaseScript_def refresh_check.simps Let_def p1_def [symmetric] p2_def [symmetric] p3_def [symmetric]]
  show ?thesis using body P G by (simp split: if_splits)
qed

lemma within_rem_source: "within d n db \<Longrightarrow> within d n (rem_source k m db)"
  by (simp add: rem_source_def within_rem)

lemmas quiet = within_awake within_prune within_rem within_expire within_del within_rem_source within_add_other

lemma plain_within:
  assumes "within d n db"
  shows "getCountScript k k' ttl t db = (r, db') \<Longrightarrow> within d n db'"
    and "cleanupExpiredSlotsScript k ttl t db = (r, db') \<Longrightarrow> within d n db'"
    and "releaseSlot k m t db = (r, db') \<Longrightarrow> within d n db'"
    and "account_load c i l now t db = (ld, db') \<Longrightarrow> within d n db'"
    and "apiKeyQueueStatsScript i ttl lttl t db = (st, db') \<Longrightarrow> within d n db'"
    and "releaseLiveLease a u j m t db = (r, db') \<Longrightarrow> within d n db'"
    and "abortLiveLeaseTransferScript q fttl t db = (r, db') \<Longrightarrow> within d n db'"
    and "incrementWaitScript k w ttl t db = (pr, db') \<Longrightarrow> within d n db'"
    and "decrementWaitScript k t db = (r, db') \<Longrightarrow> within d n db'"
    and "acquireOpenAIWSIngressLeaseScript (WsIngress i) l ttl m t db = (r, db') \<Longrightarrow> within d n db'"
    and "refreshOpenAIWSIngressLeaseScript (WsIngress i) ttl m t db = (r, db') \<Longrightarrow> within d n db'"
    and "abortAPIKeyQueueScript i m dl grace rem t db = (r, db') \<Longrightarrow> within d n db'"
  using assms
  by (auto simp: getCountScript_def cleanupExpiredSlotsScript_def releaseSlot_def account_load_def apiKeyQueueStatsScript_def
      releaseLiveLease_def abortLiveLeaseTransferScript_def incrementWaitScript_def decrementWaitScript_def
      acquireOpenAIWSIngressLeaseScript_def refreshOpenAIWSIngressLeaseScript_def abortAPIKeyQueueScript_def Let_def
      intro!: quiet split: if_splits option.splits prod.splits)

lemma track_within:
  "within d n db \<Longrightarrow> trackSlotScript (ApiKeySlots i) ttl m t db = (r, db') \<Longrightarrow> d \<noteq> ForKey i \<Longrightarrow> within d n db'"
  by (auto simp: trackSlotScript_def Let_def intro!: quiet)

lemma refresh_key_within:
  assumes "within d n db" "refreshAPIKeySlotScript i ttl m t db = (r, db')"
  shows "within d n db'"
  using assms grant_within [OF within_awake [OF assms(1)], of "ApiKeySlots i" m t t ttl "seconds t"]
  by (auto simp: refreshAPIKeySlotScript_def Let_def split: if_splits)

lemma run_op_within:
  assumes "redis_ok c t0 db" "t0 \<le> t" "within d n db" "keeps_bound d n op" "run_op c op t db = (code, db')"
  shows "within d n db'"
proof -
  note W = assms(3)
  have A: "redis_ok c t (awake t db)" by (rule awake_ok [OF assms(1,2)])
  note ttls = liveLeaseTTLSeconds_def openAIWSIngressLeaseTTLSeconds_def apiKeyQueueCleanupGraceSeconds_def
  note run = assms(5) [unfolded ttls]
  show ?thesis
  proof (cases op)
    case (AccountAcquire i l m)
    then show ?thesis using run acquire_within [OF W, of "ForAccount i" l "slotTTLSeconds c" m t] assms(4) [unfolded keeps_bound_def] by (auto simp: apfst_eq)
  next
    case (UserAcquire i l m)
    then show ?thesis using run acquire_within [OF W, of "ForUser i" l "slotTTLSeconds c" m t] assms(4) [unfolded keeps_bound_def] by (auto simp: apfst_eq)
  next
    case (LiveAcquire a an u un k kn m r)
    then show ?thesis using run live_acquire_within [OF W] assms(4) by (simp only: run_op.simps)
  next
    case (LiveTransfer q)
    then show ?thesis using run transfer_within [OF A W] assms(4) [unfolded keeps_bound_def] by (simp add: ttls)
  next
    case (LiveMigrate q)
    then show ?thesis using run migrate_within [OF A W] assms(4) [unfolded keeps_bound_def] by (simp add: ttls)
  next
    case (LiveRefresh a u k m)
    then show ?thesis using run live_refresh_within [OF W] by (simp add: ttls)
  next
    case (KeyFast i l m)
    then show ?thesis using run fast_within [OF W, of i "slotTTLSeconds c" 60 m l t] assms(4) [unfolded keeps_bound_def] by (auto simp: apfst_eq ttls)
  next
    case (QueueAdvance i mode m dl l w)
    then show ?thesis using run advance_within [OF W] assms(4) [unfolded keeps_bound_def] by simp
  next
    case (KeyTrack i m)
    then show ?thesis using run track_within [OF W] assms(4) [unfolded keeps_bound_def] by simp
  qed (use run in \<open>auto simp: apfst_eq dest: plain_within [OF W] refresh_key_within [OF W]\<close>)
qed

end
