(* ===== verification/RedisRuns.thy ===== *)
theory RedisRuns
  imports RedisSafety
begin

text \<open>
  Runs of the concurrency cache: what every command answers and grants, that grants stay within the limits, and that an
  attempt that was aborted stays out of its queue.
\<close>

section \<open>Runs and what they grant\<close>

fun run_ops :: "concurrencyCache \<Rightarrow> (redis_op \<times> int) list \<Rightarrow> redis \<Rightarrow> (redis_op \<times> int \<times> int) list \<times> redis" where
  "run_ops c [] db = ([], db)"
| "run_ops c ((op, t) # es) db =
     (case run_op c op t db of (code, db1) \<Rightarrow> (case run_ops c es db1 of (h, db2) \<Rightarrow> ((op, t, code) # h, db2)))"

definition alive_at :: "concurrencyCache \<Rightarrow> int \<Rightarrow> lease_table \<Rightarrow> lease_table" where
  "alive_at c t L = (\<lambda>k m. case L k m of None \<Rightarrow> None | Some s \<Rightarrow> if t < life c k s then Some s else None)"

text \<open>The table the commands and their replies make, without looking at the keyspace.\<close>

fun granted :: "concurrencyCache \<Rightarrow> (redis_op \<times> int \<times> int) list \<Rightarrow> lease_table \<Rightarrow> lease_table" where
  "granted c [] L = L"
| "granted c ((op, t, code) # h) L = granted c h (next_leases op t code (alive_at c t L))"

definition table_at :: "concurrencyCache \<Rightarrow> (redis_op \<times> int) list \<Rightarrow> int \<Rightarrow> lease_table" where
  "table_at c es t = alive_at c t (granted c (fst (run_ops c es empty_redis)) (\<lambda>_ _. None))"

definition holders :: "lease_table \<Rightarrow> slot_dim \<Rightarrow> int" where
  "holders L d = lease_count L (regular_key d) + lease_count L (live_key d)"

text \<open>What a command answers by the table, where pruning makes the table decide.\<close>

definition advance_reply :: "int \<Rightarrow> APIKeyQueueMode \<Rightarrow> string \<Rightarrow> int \<Rightarrow> int \<Rightarrow> int \<Rightarrow> int \<Rightarrow> lease_table \<Rightarrow> int" where
  "advance_reply i mode m d l w t L =
     (let queued = L (ApiKeyWait i) m in
      if t \<ge> d then 3
      else if l \<le> 0 then 6
      else if L (ApiKeySlots i) m \<noteq> None then 1
      else if L (ApiKeyClosed i) m \<noteq> None then 4
      else if queued \<noteq> None \<and> queued \<noteq> Some d \<or> mode = QPoll \<and> queued = None then 5
      else if holders L (ForKey i) < l then 1
      else if w = 0 then 8
      else if queued = None \<and> lease_count L (ApiKeyWait i) \<ge> w then 7
      else 2)"

fun table_reply :: "redis_op \<Rightarrow> int \<Rightarrow> lease_table \<Rightarrow> int option" where
  "table_reply (AccountAcquire i n m) t L =
     Some (if L (AccountSlots i) m \<noteq> None \<or> holders L (ForAccount i) < n then 1 else 0)"
| "table_reply (UserAcquire i n m) t L = Some (if L (UserSlots i) m \<noteq> None \<or> holders L (ForUser i) < n then 1 else 0)"
| "table_reply (AccountCount i) t L = Some (holders L (ForAccount i))"
| "table_reply (UserCount i) t L = Some (holders L (ForUser i))"
| "table_reply (QueueAdvance i mode m d l w) t L = Some (advance_reply i mode m d l w t L)"
| "table_reply (QueueStats i) t L = Some (holders L (ForKey i))"
| "table_reply (WsAcquire i n m) t L = Some (if L (WsIngress i) m \<noteq> None \<or> lease_count L (WsIngress i) < n then 1 else 0)"
| "table_reply (WsRefresh i m) t L = Some (if L (WsIngress i) m \<noteq> None then 1 else 0)"
| "table_reply (LiveRefresh a u k m) t L =
     Some (if L (LiveAccount a) m \<noteq> None \<and> L (LiveUser u) m \<noteq> None \<and> L (LiveApiKey k) m \<noteq> None then 1 else 0)"
| "table_reply op t L = None"

section \<open>The table is the keyspace\<close>

lemma leases_later: "t \<le> t' \<Longrightarrow> leases c t' db = alive_at c t' (leases c t db)"
  by (auto simp: leases_def lease_def alive_at_def fun_eq_iff split: option.splits)

definition agrees :: "concurrencyCache \<Rightarrow> int \<Rightarrow> redis \<Rightarrow> lease_table \<Rightarrow> bool" where
  "agrees c t0 db L \<longleftrightarrow> redis_ok c t0 db \<and> (\<forall>t\<ge>t0. alive_at c t L = leases c t db)"

lemma agrees_start: "agrees c t0 empty_redis (\<lambda>_ _. None)"
  by (simp add: agrees_def redis_ok_empty) (simp add: alive_at_def leases_def empty_redis_def fun_eq_iff)

lemma agrees_step:
  assumes "valid_cache c" "agrees c t0 db L" "t0 \<le> t" "run_op c op t db = (code, db')"
  shows "agrees c t db' (next_leases op t code (alive_at c t L))"
proof -
  have "holding c t db' (next_leases op t code (leases c t db))"
    using assms(2) by (intro run_op_leases [OF assms(1) _ assms(3,4)]) (simp add: agrees_def)
  moreover have "alive_at c t L = leases c t db" using assms(2,3) by (simp add: agrees_def)
  ultimately have "redis_ok c t db'" "leases c t db' = next_leases op t code (alive_at c t L)"
    by (simp_all add: holding_def)
  then show ?thesis unfolding agrees_def by (metis leases_later)
qed

definition limits_kept :: "slot_dim \<Rightarrow> int \<Rightarrow> (redis_op \<times> int) list \<Rightarrow> bool" where
  "limits_kept d n es \<longleftrightarrow> list_all (\<lambda>(op, t). keeps_limit d n op) es"

definition replacing :: "slot_dim \<Rightarrow> (redis_op \<times> int) list \<Rightarrow> bool" where
  "replacing d es \<longleftrightarrow> list_ex (\<lambda>(op, t). replaces_slot d op) es"

definition bounds_kept :: "slot_dim \<Rightarrow> int \<Rightarrow> (redis_op \<times> int) list \<Rightarrow> bool" where
  "bounds_kept d n es \<longleftrightarrow> list_all (\<lambda>(op, t). keeps_bound d n op) es"

lemma keeps_limit_mono: "keeps_limit d n op \<Longrightarrow> n \<le> n' \<Longrightarrow> keeps_limit d n' op"
  by (cases op) (auto simp: limited_def)

lemma limits_bound: "limits_kept d n es \<Longrightarrow> bounds_kept d (n + (if replacing d es then 1 else 0)) es"
  by (auto simp: limits_kept_def bounds_kept_def replacing_def list_all_iff list_ex_iff keeps_bound_def
      split: if_splits intro: keeps_limit_mono)

lemma agrees_run:
  assumes "valid_cache c"
  shows "agrees c t0 db L \<Longrightarrow> sorted (t0 # map snd es @ [t]) \<Longrightarrow> run_ops c es db = (h, db') \<Longrightarrow>
    agrees c t db' (granted c h L) \<and> (bounds_kept d n es \<longrightarrow> within d n db \<longrightarrow> within d n db')"
proof (induction es arbitrary: t0 db L h)
  case Nil
  then show ?case by (auto simp: agrees_def holding_def redis_ok_def intro: zset_ok_later)
next
  case (Cons e es)
  obtain op t1 where e: "e = (op, t1)" by (cases e)
  obtain code db1 where r: "run_op c op t1 db = (code, db1)" by (cases "run_op c op t1 db")
  obtain h1 where h: "run_ops c es db1 = (h1, db')" "h = (op, t1, code) # h1"
    using Cons.prems(3) e r by (auto split: prod.splits)
  have step: "agrees c t1 db1 (next_leases op t1 code (alive_at c t1 L))"
    using agrees_step [OF assms Cons.prems(1) _ r] Cons.prems(2) e by simp
  have "within d n db \<Longrightarrow> keeps_bound d n op \<Longrightarrow> within d n db1"
    using run_op_within [of c t0 db t1 d n op code db1] Cons.prems(1,2) e r by (simp add: agrees_def)
  with Cons.IH [OF step _ h(1)] Cons.prems(2) e h(2) show ?case by (auto simp: bounds_kept_def)
qed

lemma valid_new: "valid_cache (NewConcurrencyCache minutes secs)"
  by (simp add: valid_cache_def NewConcurrencyCache_def Let_def defaultSlotTTLMinutes_def)

lemma reachable_agrees:
  assumes "valid_cache c" "sorted (map snd es @ [t])"
  shows "redis_ok c t (snd (run_ops c es empty_redis))" "table_at c es t = leases c t (snd (run_ops c es empty_redis))"
proof -
  obtain h db where r: "run_ops c es empty_redis = (h, db)" by (cases "run_ops c es empty_redis")
  obtain t0 where t0: "sorted (t0 # map snd es @ [t])"
    using assms(2) by (cases "map snd es @ [t]") (auto intro: that [of "hd (map snd es @ [t])"])
  have "agrees c t db (granted c h (\<lambda>_ _. None))"
    using agrees_run [OF assms(1) agrees_start t0 r] by blast
  then show "redis_ok c t (snd (run_ops c es empty_redis))" "table_at c es t = leases c t (snd (run_ops c es empty_redis))"
    using r by (simp_all add: agrees_def table_at_def)
qed

lemma leases_count: "redis_ok c t db \<Longrightarrow> lease_count (leases c t db) k \<le> ZCARD (zsets db k)"
  using leases_le_rows [of c t k "zsets db k" t] redis_okD [of c t db k] by (simp add: lease_count_def leases_def zset_ok_def)

lemma within_holders: "redis_ok c t db \<Longrightarrow> within d n db \<Longrightarrow> holders (leases c t db) d \<le> n"
  using leases_count [of c t db "regular_key d"] leases_count [of c t db "live_key d"] by (simp add: holders_def within_def rows_def)

section \<open>Replies\<close>

lemma advance_code:
  assumes "holding c t (awake t db) L" "advanceAPIKeyQueueScript i mode m d l w (slotTTLSeconds c) 60 grace t db = (r, db')"
  shows "r = advance_reply i mode m d l w t L"
proof -
  define p where "p = queue_pruned c i t db"
  note P = queue_pruned_leases [OF assms(1), where i = i, folded p_def]
  have "ZCARD (zsets p (ApiKeyWait i)) = lease_count L (ApiKeyWait i)"
  proof -
    have "ZCARD (zsets p (ApiKeyWait i)) = int (card (dom (lease c t (ApiKeyWait i) (zsets (awake t db) (ApiKeyWait i)))))"
      unfolding p_def queue_pruned_def using pruned_count [OF holding_ok [OF assms(1)], of "ApiKeyWait i" t] by simp
    then show ?thesis using assms(1) by (auto simp: holding_def leases_def lease_count_def)
  qed
  note P = P this
  note body = assms(2) [unfolded advanceAPIKeyQueueScript_def Let_def queue_pruned_def [symmetric] p_def [symmetric]]
  show ?thesis using body P by (auto simp: advance_reply_def Let_def holders_def split: if_splits option.splits)
qed

lemma stats_code:
  assumes "holding c t (awake t db) L" "apiKeyQueueStatsScript i (slotTTLSeconds c) 60 t db = ((x, y), db')"
  shows "x = holders L (ForKey i)"
  using assms(2) queue_pruned_leases(5,6) [OF assms(1), of i]
  by (auto simp: apiKeyQueueStatsScript_def Let_def queue_pruned_def holders_def)

lemma ws_codes:
  assumes "holding c t (awake t db) L"
  shows "acquireOpenAIWSIngressLeaseScript (WsIngress i) n 60 m t db = (r, db') \<Longrightarrow>
      r = (if L (WsIngress i) m \<noteq> None \<or> lease_count L (WsIngress i) < n then 1 else 0)"
    and "refreshOpenAIWSIngressLeaseScript (WsIngress i) 60 m t db = (r, db') \<Longrightarrow> r = (if L (WsIngress i) m \<noteq> None then 1 else 0)"
  using pruned(1) [OF assms, of "WsIngress i" 60 m] pruned(3) [OF assms, of "WsIngress i" 60]
  by (auto simp: acquireOpenAIWSIngressLeaseScript_def refreshOpenAIWSIngressLeaseScript_def Let_def split: if_splits)

lemma live_refresh_code:
  assumes "holding c t (awake t db) L" "refreshLiveLeaseScript [LiveAccount a, LiveUser u, LiveApiKey k] 60 m t db = (r, db')"
  shows "r = (if L (LiveAccount a) m \<noteq> None \<and> L (LiveUser u) m \<noteq> None \<and> L (LiveApiKey k) m \<noteq> None then 1 else 0)"
  using assms(2) pruned(1) [OF assms(1), of "LiveAccount a" 60 m] pruned(1) [OF assms(1), of "LiveUser u" 60 m]
    pruned(1) [OF assms(1), of "LiveApiKey k" 60 m]
  by (auto simp: refreshLiveLeaseScript_def Let_def split: if_splits)

lemma run_op_reply:
  assumes "valid_cache c" "redis_ok c t db" "run_op c op t db = (code, db')" "table_reply op t (leases c t db) = Some r"
  shows "code = r"
proof -
  note H = holding_awake [OF assms(2) order_refl]
  have V: "0 < slotTTLSeconds c" using assms(1) by (simp add: valid_cache_def)
  note ttls = liveLeaseTTLSeconds_def openAIWSIngressLeaseTTLSeconds_def apiKeyQueueCleanupGraceSeconds_def
  note run = assms(3) [unfolded ttls] and reply = assms(4)
  show ?thesis
  proof (cases op)
    case (AccountAcquire i n m)
    then show ?thesis
      using run reply V acquire_leases(2) [OF H, of "AccountSlots i" "slotTTLSeconds c" "LiveAccount i" n m]
      by (auto simp: apfst_eq holders_def)
  next
    case (UserAcquire i n m)
    then show ?thesis
      using run reply V acquire_leases(2) [OF H, of "UserSlots i" "slotTTLSeconds c" "LiveUser i" n m]
      by (auto simp: apfst_eq holders_def)
  next
    case (AccountCount i)
    then show ?thesis using run reply count_leases(2) [OF H, of "AccountSlots i" "slotTTLSeconds c" "LiveAccount i"]
      by (simp add: holders_def)
  next
    case (UserCount i)
    then show ?thesis using run reply count_leases(2) [OF H, of "UserSlots i" "slotTTLSeconds c" "LiveUser i"]
      by (simp add: holders_def)
  next
    case (QueueAdvance i mode m d l w)
    then show ?thesis using run reply advance_code [OF H, of i mode m d l w] by (simp add: ttls)
  next
    case (QueueStats i)
    then show ?thesis using run reply stats_code [OF H, of i] by (auto simp: apfst_eq ttls)
  next
    case (LiveRefresh a u k m)
    then show ?thesis using run reply live_refresh_code [OF H, of a u k m] by (simp add: ttls)
  qed (use run reply ws_codes [OF H] in \<open>simp_all add: ttls\<close>)
qed

text \<open>
  C19: The concurrency cache is the lease table. In any run, at any time, what a command makes of the sorted sets is what it
  makes of the table of grants, and where the table decides the reply, the script gives that reply: an account, a user or a
  connection slot is granted exactly if it is already held or fewer than the limit are held, the queue script answers by the
  live members alone, and counts are the numbers of live grants. The expiry of whole keys, the pruning inside scripts and the
  rows that have passed their time never show.
\<close>

theorem redis_is_lease_table:
  assumes "sorted (map snd es @ [t])"
    and "run_op (NewConcurrencyCache minutes secs) op t (snd (run_ops (NewConcurrencyCache minutes secs) es empty_redis)) = (code, db)"
  shows "leases (NewConcurrencyCache minutes secs) t db = next_leases op t code (table_at (NewConcurrencyCache minutes secs) es t) \<and>
         table_reply op t (table_at (NewConcurrencyCache minutes secs) es t) \<in> {None, Some code}"
proof -
  let ?c = "NewConcurrencyCache minutes secs"
  note V = valid_new [of minutes secs]
  note R = reachable_agrees [OF V assms(1)]
  have "leases ?c t db = next_leases op t code (table_at ?c es t)"
    using run_op_leases [OF V R(1) order_refl assms(2)] R(2) by (simp add: holding_def)
  moreover have "table_reply op t (table_at ?c es t) \<in> {None, Some code}"
    using run_op_reply [OF V R(1) assms(2)] R(2) by (cases "table_reply op t (table_at ?c es t)") auto
  ultimately show ?thesis ..
qed

text \<open>
  C2: Redis slots stay within the limit. In any run of the cache, by any number of processes, in any order and with any lost
  replies and crashes (a grant then simply stays until its time passes), the ordinary slots and the live leases held of an
  account, a user or a key are together at most \<open>n\<close> at every time, if every command for it passed a limit of at most \<open>n\<close> and none
  was for an unlimited one (a key that is only tracked, or a limit of zero). One more is possible, for an account or a user, when
  some live lease was acquired as the replacement of ordinary slots, which are still held until the caller releases them; however
  many leases are acquired so, it is not more than one. Heartbeats, retries of the same request, transfers of slots into a lease
  and moves of a lease to another account never add to it.
\<close>

theorem redis_slots_within_limit:
  assumes "sorted (map snd es @ [t])" "limits_kept d n es" "0 \<le> n"
  shows "holders (table_at (NewConcurrencyCache minutes secs) es t) d \<le> n + (if replacing d es then 1 else 0)"
proof -
  let ?n = "n + (if replacing d es then 1 else 0)"
  let ?c = "NewConcurrencyCache minutes secs"
  note V = valid_new [of minutes secs]
  note R = reachable_agrees [OF V assms(1)]
  obtain h db where r: "run_ops ?c es empty_redis = (h, db)" by (cases "run_ops ?c es empty_redis")
  have s: "sorted (hd (map snd es @ [t]) # map snd es @ [t])" using assms(1) by (cases es) auto
  have "within d ?n empty_redis" using assms(3) by (simp add: within_def rows_def empty_redis_def ZCARD_def)
  then have "within d ?n db"
    using agrees_run [OF V agrees_start [of ?c "hd (map snd es @ [t])"] s r, of d ?n] limits_bound [OF assms(2)] by simp
  then show ?thesis using within_holders [OF R(1)] R(2) r by simp
qed

section \<open>An aborted attempt\<close>

definition absent :: "redis_key \<Rightarrow> string \<Rightarrow> redis \<Rightarrow> bool" where
  "absent k m db \<longleftrightarrow> ZSCORE m (zsets db k) = None"

text \<open>The later commands of the attempt: its queue commands carry its fixed deadline, and its fast attempts are sent before it.\<close>

fun late_command :: "int \<Rightarrow> string \<Rightarrow> int \<Rightarrow> redis_op \<times> int \<Rightarrow> bool" where
  "late_command i m d (QueueAdvance i' mode m' d' l w, t) \<longleftrightarrow> (i' = i \<and> m' = m \<longrightarrow> d' = d)"
| "late_command i m d (QueueAbort i' m' d' r, t) \<longleftrightarrow> (i' = i \<and> m' = m \<longrightarrow> d' = d)"
| "late_command i m d (KeyFast i' l m', t) \<longleftrightarrow> (i' = i \<and> m' = m \<longrightarrow> t < d)"
| "late_command i m d (KeyTrack i' m', t) \<longleftrightarrow> \<not> (i' = i \<and> m' = m)"
| "late_command i m d (op, t) \<longleftrightarrow> True"

text \<open>Replies that make the attempt wait or hold a slot.\<close>

fun attempt_accepted :: "int \<Rightarrow> string \<Rightarrow> redis_op \<times> int \<times> int \<Rightarrow> bool" where
  "attempt_accepted i m (QueueAdvance i' mode m' d' l w, t, code) \<longleftrightarrow> i' = i \<and> m' = m \<and> code \<notin> {3, 4, 6}"
| "attempt_accepted i m (KeyFast i' l m', t, code) \<longleftrightarrow> i' = i \<and> m' = m \<and> code \<noteq> 4"
| "attempt_accepted i m (KeyRefresh i' m', t, code) \<longleftrightarrow> i' = i \<and> m' = m \<and> code = 1"
| "attempt_accepted i m e \<longleftrightarrow> False"

lemma absent_awake: "absent k m db \<Longrightarrow> absent k m (awake t db)"
  by (simp add: absent_def awake_def ZSCORE_def)

lemma absent_prune: "absent k m db \<Longrightarrow> absent k m (on j (ZREMRANGE b) db)"
  by (auto simp: absent_def ZREMRANGE_def ZSCORE_def map_of_eq_None_iff)

lemma absent_rem: "absent k m db \<Longrightarrow> absent k m (on j (ZREM n) db)"
  by (auto simp: absent_def ZREM_def ZSCORE_def map_of_filter_key)

lemma absent_expire: "absent k m db \<Longrightarrow> absent k m (on j (EXPIRE t s) db)"
  by (auto simp: absent_def EXPIRE_def ZSCORE_def)

lemma absent_del: "absent k m db \<Longrightarrow> absent k m (on j (\<lambda>_. no_zset) db)"
  by (simp add: absent_def ZSCORE_def)

lemma absent_add: "absent k m db \<Longrightarrow> j \<noteq> k \<or> n \<noteq> m \<Longrightarrow> absent k m (on j (ZADD s n) db)"
  by (auto simp: absent_def ZADD_def ZSCORE_def map_of_tput)

lemma absent_counters [simp]: "absent k m (db\<lparr>counters := x\<rparr>) = absent k m db"
  by (simp add: absent_def)

lemma absent_rem_source: "absent k m db \<Longrightarrow> absent k m (rem_source j n db)"
  by (simp add: rem_source_def absent_rem)

lemmas still_absent = absent_awake absent_prune absent_rem absent_expire absent_del absent_add absent_rem_source

lemma plain_absent:
  assumes "absent (ApiKeySlots k) m db"
  shows "acquireScript (AccountSlots i) j l ttl n t db = (pr, db') \<Longrightarrow> absent (ApiKeySlots k) m db'"
    and "acquireScript (UserSlots i) j l ttl n t db = (pr, db') \<Longrightarrow> absent (ApiKeySlots k) m db'"
    and "getCountScript x y ttl t db = (r, db') \<Longrightarrow> absent (ApiKeySlots k) m db'"
    and "cleanupExpiredSlotsScript x ttl t db = (r, db') \<Longrightarrow> absent (ApiKeySlots k) m db'"
    and "releaseSlot x n t db = (r, db') \<Longrightarrow> absent (ApiKeySlots k) m db'"
    and "account_load c i l now t db = (ld, db') \<Longrightarrow> absent (ApiKeySlots k) m db'"
    and "apiKeyQueueStatsScript i ttl lttl t db = (st, db') \<Longrightarrow> absent (ApiKeySlots k) m db'"
    and "releaseLiveLease a u b n t db = (r, db') \<Longrightarrow> absent (ApiKeySlots k) m db'"
    and "abortLiveLeaseTransferScript q fttl t db = (r, db') \<Longrightarrow> absent (ApiKeySlots k) m db'"
    and "incrementWaitScript x w ttl t db = (pr, db') \<Longrightarrow> absent (ApiKeySlots k) m db'"
    and "decrementWaitScript x t db = (r, db') \<Longrightarrow> absent (ApiKeySlots k) m db'"
    and "acquireOpenAIWSIngressLeaseScript (WsIngress i) l ttl n t db = (r, db') \<Longrightarrow> absent (ApiKeySlots k) m db'"
    and "refreshOpenAIWSIngressLeaseScript (WsIngress i) ttl n t db = (r, db') \<Longrightarrow> absent (ApiKeySlots k) m db'"
    and "abortAPIKeyQueueScript i n dl grace rem t db = (r, db') \<Longrightarrow> absent (ApiKeySlots k) m db'"
    and "trackSlotScript (ApiKeySlots i) ttl n t db = (r, db') \<Longrightarrow> \<not> (i = k \<and> n = m) \<Longrightarrow> absent (ApiKeySlots k) m db'"
  using assms
  by (auto simp: acquireScript_def trackSlotScript_def getCountScript_def cleanupExpiredSlotsScript_def releaseSlot_def account_load_def
      apiKeyQueueStatsScript_def releaseLiveLease_def abortLiveLeaseTransferScript_def incrementWaitScript_def decrementWaitScript_def
      acquireOpenAIWSIngressLeaseScript_def refreshOpenAIWSIngressLeaseScript_def abortAPIKeyQueueScript_def Let_def
      intro!: still_absent split: if_splits option.splits prod.splits)

lemma live_absent:
  assumes "absent (ApiKeySlots k) m db"
  shows "acquireLiveLease c a an u un b bn '''' n rep t db = (r, db') \<Longrightarrow> absent (ApiKeySlots k) m db'"
    and "transferLiveLeaseScript q ttl sttl t db = (r, db') \<Longrightarrow> absent (ApiKeySlots k) m db'"
    and "migrateLiveLeaseAccountScript q ttl sttl t db = (r, db') \<Longrightarrow> absent (ApiKeySlots k) m db'"
    and "refreshLiveLeaseScript [LiveAccount a, LiveUser u, LiveApiKey b] ttl n t db = (r, db') \<Longrightarrow> absent (ApiKeySlots k) m db'"
  using assms
  by (auto simp: acquireLiveLease_def acquireLiveLeaseScript_def transferLiveLeaseScript_def migrateLiveLeaseAccountScript_def
      refreshLiveLeaseScript_def Let_def intro!: still_absent split: if_splits)

definition aborted :: "concurrencyCache \<Rightarrow> int \<Rightarrow> string \<Rightarrow> int \<Rightarrow> int \<Rightarrow> redis \<Rightarrow> bool" where
  "aborted c i m d t db \<longleftrightarrow>
     redis_ok c t db \<and> absent (ApiKeySlots i) m db \<and> (t < d \<longrightarrow> leases c t db (ApiKeyClosed i) m = Some d)"

lemma aborted_later:
  assumes "aborted c i m d t0 db" "t0 \<le> t"
  shows "aborted c i m d t db"
proof -
  have "redis_ok c t db" using assms zset_ok_later [OF redis_okD assms(2)] by (auto simp: aborted_def redis_ok_def)
  moreover have "leases c t db (ApiKeyClosed i) m = Some d" if "t < d"
    using assms that leases_later [OF assms(2), of c db] by (simp add: aborted_def alive_at_def)
  ultimately show ?thesis using assms(1) by (simp add: aborted_def)
qed

lemma advance_absent:
  assumes "absent (ApiKeySlots i) m db" "holding c t (awake t db) L" "t < d \<Longrightarrow> L (ApiKeyClosed i) m \<noteq> None"
    and run: "advanceAPIKeyQueueScript i' mode m' d' l w (slotTTLSeconds c) 60 grace t db = (r, db')" "i' = i \<and> m' = m \<Longrightarrow> d' = d"
  shows "absent (ApiKeySlots i) m db'" and "i' = i \<and> m' = m \<Longrightarrow> r \<in> {3, 4, 6}"
proof -
  define p where "p = queue_pruned c i' t db"
  note P = queue_pruned_leases [OF assms(2), where i = i', folded p_def]
  have A: "absent (ApiKeySlots i) m p" unfolding p_def queue_pruned_def by (intro still_absent assms(1))
  note body = run(1) [unfolded advanceAPIKeyQueueScript_def Let_def queue_pruned_def [symmetric] p_def [symmetric]]
  have refused: "r \<in> {3, 4, 6} \<and> absent (ApiKeySlots i) m db'" if same: "i' = i \<and> m' = m"
  proof -
    have "L (ApiKeySlots i) m = None" using A P(2) same by (auto simp: absent_def)
    then show ?thesis
      using body A assms(3) run(2) P(2,4) same by (auto simp: still_absent split: if_splits)
  qed
  moreover have "absent (ApiKeySlots i) m db'" if "\<not> (i' = i \<and> m' = m)"
    using body A that by (auto intro!: still_absent split: if_splits option.splits)
  ultimately show "absent (ApiKeySlots i) m db'" and "i' = i \<and> m' = m \<Longrightarrow> r \<in> {3, 4, 6}" by blast+
qed

lemma fast_absent:
  assumes "absent (ApiKeySlots i) m db" "holding c t (awake t db) L"
    and run: "acquireAPIKeySlotScript i' ttl lttl m' l t db = ((r, ms), db')" "i' = i \<and> m' = m \<Longrightarrow> L (ApiKeyClosed i) m \<noteq> None"
  shows "absent (ApiKeySlots i) m db'" and "i' = i \<and> m' = m \<Longrightarrow> r = 4"
proof -
  have "ZSCORE m (zsets (awake t db) (ApiKeyClosed i)) \<noteq> None" if "L (ApiKeyClosed i) m \<noteq> None"
    using that assms(2) lease_score by (fastforce simp: holding_def leases_def)
  moreover have "ZSCORE m (ZREMRANGE (seconds t - ttl) (zsets (awake t db) (ApiKeySlots i))) = None"
    using absent_prune [OF absent_awake [OF assms(1)], of "ApiKeySlots i" "seconds t - ttl" t] by (simp add: absent_def)
  ultimately show "absent (ApiKeySlots i) m db'" and "i' = i \<and> m' = m \<Longrightarrow> r = 4"
    using run assms(1) by (auto simp: acquireAPIKeySlotScript_def Let_def intro!: still_absent split: if_splits)
qed

lemma refresh_key_absent:
  assumes "absent (ApiKeySlots i) m db" "refreshAPIKeySlotScript i' ttl m' t db = (r, db')"
  shows "absent (ApiKeySlots i) m db'" and "i' = i \<and> m' = m \<Longrightarrow> r = 0"
  using assms absent_awake [OF assms(1), of t]
  by (auto simp: refreshAPIKeySlotScript_def Let_def absent_def [of _ _ "awake t db"] intro!: still_absent split: if_splits)

text \<open>No other command gives the attempt a slot.\<close>

fun asks_slot :: "int \<Rightarrow> string \<Rightarrow> redis_op \<Rightarrow> bool" where
  "asks_slot i m (QueueAdvance i' mode m' d l w) \<longleftrightarrow> i' = i \<and> m' = m"
| "asks_slot i m (KeyFast i' l m') \<longleftrightarrow> i' = i \<and> m' = m"
| "asks_slot i m (KeyTrack i' m') \<longleftrightarrow> i' = i \<and> m' = m"
| "asks_slot i m op \<longleftrightarrow> False"

lemma others_absent:
  assumes "absent (ApiKeySlots i) m db" "\<not> (i' = i \<and> m' = m)"
  shows "advanceAPIKeyQueueScript i' mode m' d l w ttl lttl grace t db = (r, db') \<Longrightarrow> absent (ApiKeySlots i) m db'"
    and "acquireAPIKeySlotScript i' ttl lttl m' l t db = (pr, db') \<Longrightarrow> absent (ApiKeySlots i) m db'"
proof -
  assume run: "advanceAPIKeyQueueScript i' mode m' d l w ttl lttl grace t db = (r, db')"
  define p where "p = on (ApiKeyClosed i') (ZREMRANGE t) (on (ApiKeyWait i') (ZREMRANGE t) (on (LiveApiKey i') (ZREMRANGE (seconds t - lttl))
                 (on (ApiKeySlots i') (ZREMRANGE (seconds t - ttl)) (awake t db))))"
  have A: "absent (ApiKeySlots i) m p" unfolding p_def by (intro still_absent assms(1))
  note body = run [unfolded advanceAPIKeyQueueScript_def Let_def p_def [symmetric]]
  show "absent (ApiKeySlots i) m db'"
    using body A assms(2) by (auto intro!: still_absent split: if_splits option.splits)
next
  assume "acquireAPIKeySlotScript i' ttl lttl m' l t db = (pr, db')"
  then show "absent (ApiKeySlots i) m db'"
    using assms by (auto simp: acquireAPIKeySlotScript_def Let_def intro!: still_absent split: if_splits)
qed

lemma advance_not_granted:
  assumes "absent (ApiKeySlots i) m db" "advanceAPIKeyQueueScript i mode m d l w ttl lttl grace t db = (r, db')" "r \<noteq> 1"
  shows "absent (ApiKeySlots i) m db'"
proof -
  define p where "p = on (ApiKeyClosed i) (ZREMRANGE t) (on (ApiKeyWait i) (ZREMRANGE t) (on (LiveApiKey i) (ZREMRANGE (seconds t - lttl))
                 (on (ApiKeySlots i) (ZREMRANGE (seconds t - ttl)) (awake t db))))"
  have A: "absent (ApiKeySlots i) m p" unfolding p_def by (intro still_absent assms(1))
  note body = assms(2) [unfolded advanceAPIKeyQueueScript_def Let_def p_def [symmetric]]
  show ?thesis using body A assms(3) by (auto intro!: still_absent split: if_splits option.splits)
qed

lemma run_op_others_absent:
  assumes "absent (ApiKeySlots i) m db" "\<not> asks_slot i m op" "run_op c op t db = (code, db')"
  shows "absent (ApiKeySlots i) m db'"
proof (cases op)
  case (QueueAdvance i' mode m' d' l w)
  then show ?thesis using others_absent(1) [OF assms(1), of i' m'] assms(2,3) by simp
next
  case (KeyFast i' l m')
  then show ?thesis using others_absent(2) [OF assms(1), of i' m'] assms(2,3) by (auto simp: apfst_eq)
next
  case (KeyTrack i' m')
  then show ?thesis using plain_absent(15) [OF assms(1)] assms(2,3) by fastforce
qed (use assms(3) in \<open>auto simp: apfst_eq dest: plain_absent(1-14) [OF assms(1)] live_absent [OF assms(1)] refresh_key_absent(1) [OF assms(1)]\<close>)

lemma run_op_absent:
  assumes "aborted c i m d t db" "late_command i m d (op, t)" "run_op c op t db = (code, db')"
  shows "absent (ApiKeySlots i) m db' \<and> \<not> attempt_accepted i m (op, t, code)"
proof -
  have A: "absent (ApiKeySlots i) m db" and ok: "redis_ok c t db" using assms(1) by (simp_all add: aborted_def)
  have C: "t < d \<Longrightarrow> leases c t db (ApiKeyClosed i) m \<noteq> None" using assms(1) by (simp add: aborted_def)
  note H = holding_awake [OF ok order_refl]
  note ttls = liveLeaseTTLSeconds_def openAIWSIngressLeaseTTLSeconds_def apiKeyQueueCleanupGraceSeconds_def
  note run = assms(3) [unfolded ttls]
  show ?thesis
  proof (cases op)
    case (QueueAdvance i' mode m' d' l w)
    then have r: "advanceAPIKeyQueueScript i' mode m' d' l w (slotTTLSeconds c) 60 5 t db = (code, db')"
      using run by (simp add: ttls)
    show ?thesis using advance_absent [OF A H C r] assms(2) QueueAdvance by auto
  next
    case (KeyFast i' l m')
    then obtain ms where r: "acquireAPIKeySlotScript i' (slotTTLSeconds c) 60 m' l t db = ((code, ms), db')"
      using run by (auto simp: apfst_eq ttls)
    show ?thesis using fast_absent [OF A H r] C assms(2) KeyFast by auto
  next
    case (KeyRefresh i' m')
    then show ?thesis using run refresh_key_absent [OF A] by fastforce
  qed (use run_op_others_absent [OF A _ assms(3)] assms(2) in auto)
qed

lemma marked_step:
  assumes "t < d \<Longrightarrow> L (ApiKeyClosed i) m = Some d" "late_command i m d (op, t)" "t < d"
  shows "next_leases op t code L (ApiKeyClosed i) m = Some d"
  using assms by (cases op)
    (auto simp: put_lease_apply put_live_def drop_live_def drop_if_def next_transfer_def next_migrate_def next_abort_def next_advance_def Let_def)

lemma aborted_step:
  assumes "valid_cache c" "aborted c i m d t0 db" "t0 \<le> t" "late_command i m d (op, t)" "run_op c op t db = (code, db')"
  shows "aborted c i m d t db' \<and> \<not> attempt_accepted i m (op, t, code)"
proof -
  note B = aborted_later [OF assms(2,3)]
  note R = run_op_absent [OF B assms(4,5)]
  have ok: "redis_ok c t db" and C: "t < d \<longrightarrow> leases c t db (ApiKeyClosed i) m = Some d" using B by (simp_all add: aborted_def)
  have H: "holding c t db' (next_leases op t code (leases c t db))" by (rule run_op_leases [OF assms(1) ok order_refl assms(5)])
  have "t < d \<longrightarrow> next_leases op t code (leases c t db) (ApiKeyClosed i) m = Some d"
    using marked_step [OF _ assms(4)] C by blast
  then show ?thesis using R H by (auto simp: aborted_def holding_def)
qed

lemma run_ops_append:
  "run_ops c (es @ es') db = (case run_ops c es db of (h, db1) \<Rightarrow> (case run_ops c es' db1 of (h', db2) \<Rightarrow> (h @ h', db2)))"
  by (induction es arbitrary: db) (auto split: prod.splits)

lemma run_ops_length: "run_ops c es db = (h, db') \<Longrightarrow> length h = length es"
  by (induction es arbitrary: db h) (auto split: prod.splits)

lemma aborted_run:
  assumes "valid_cache c"
  shows "aborted c i m d t0 db \<Longrightarrow> sorted (t0 # map snd es) \<Longrightarrow> list_all (late_command i m d) es \<Longrightarrow> run_ops c es db = (h, db') \<Longrightarrow>
    list_all (\<lambda>e. \<not> attempt_accepted i m e) h \<and> absent (ApiKeySlots i) m db'"
proof (induction es arbitrary: t0 db h)
  case Nil
  then show ?case by (auto simp: aborted_def)
next
  case (Cons e es)
  obtain op t where e: "e = (op, t)" by (cases e)
  obtain code db1 where r: "run_op c op t db = (code, db1)" by (cases "run_op c op t db")
  obtain h1 where h: "run_ops c es db1 = (h1, db')" "h = (op, t, code) # h1"
    using Cons.prems(4) e r by (auto split: prod.splits)
  have step: "aborted c i m d t db1 \<and> \<not> attempt_accepted i m (op, t, code)"
    using aborted_step [OF assms Cons.prems(1) _ _ r] Cons.prems(2,3) e by simp
  then show ?case using Cons.IH [of t db1 h1] Cons.prems(2,3) e h by auto
qed

lemma abort_aborts:
  assumes "valid_cache c" "redis_ok c t0 db" "t0 \<le> t" "run_op c (QueueAbort i m d True) t db = (code, db')"
  shows "aborted c i m d t db'"
proof -
  have H: "holding c t db' (next_leases (QueueAbort i m d True) t code (leases c t db))"
    by (rule run_op_leases [OF assms])
  have "absent (ApiKeySlots i) m (on (ApiKeySlots i) (ZREM m) x)" for x
    by (simp add: absent_def ZREM_def ZSCORE_def map_of_filter_key)
  then have "absent (ApiKeySlots i) m db'" using assms(4) by (auto simp: abortAPIKeyQueueScript_def Let_def)
  with H show ?thesis by (auto simp: aborted_def holding_def put_lease_apply drop_if_def)
qed


text \<open>The condition on the fast command is needed: once the mark is gone it takes a slot.\<close>

lemma late_fast_unfenced:
  "map (\<lambda>(op, t, code). code)
     (fst (run_ops (NewConcurrencyCache 0 0) [(QueueAbort 7 ''b'' 61000 True, 9000), (QueueAdvance 7 QEnter ''c'' 99000 1 0, 62000), (KeyRelease 7 ''c'', 63000),
       (KeyFast 7 1 ''b'', 64000)] empty_redis)) = [1, 1, 1, 1]"
  by code_simp

section \<open>Runs on concrete commands\<close>

text \<open>
  Two requests meet at a key with one slot; the second is refused. An abort overtakes a retry of the enter command of its
  attempt, and another request gets the slot.
\<close>

definition sample_run :: "(redis_op \<times> int) list" where
  "sample_run = [(KeyFast 7 1 ''a'', 1000), (KeyFast 7 1 ''b'', 2000)]"

definition late_run :: "(redis_op \<times> int) list" where
  "late_run = [(QueueAdvance 7 QEnter ''b'' 61000 1 3, 9500)]"

lemma sample_ran:
  "map (\<lambda>(op, t, code). code) (fst (run_ops (NewConcurrencyCache 0 0) sample_run empty_redis)) = [1, 0]"
  by code_simp

lemma late_ran:
  "map (\<lambda>(op, t, code). code)
     (fst (run_ops (NewConcurrencyCache 0 0) ([] @ (QueueAbort 7 ''b'' 61000 True, 9000) # late_run) empty_redis)) = [1, 4]"
  by code_simp

lemma sample_table: "table_at (NewConcurrencyCache 0 0) sample_run 8500 (ApiKeySlots 7) ''a'' = Some 1"
  by code_simp

theorem redis_is_lease_table_witness:
  "table_reply (QueueStats 7) 8500 (table_at (NewConcurrencyCache 0 0) sample_run 8500) \<in>
     {None, Some (fst (run_op (NewConcurrencyCache 0 0) (QueueStats 7) 8500
        (snd (run_ops (NewConcurrencyCache 0 0) sample_run empty_redis))))}"
proof -
  have s: "sorted (map snd sample_run @ [8500])" by (simp add: sample_run_def)
  from redis_is_lease_table [OF s prod.collapse [symmetric], of 0 0 "QueueStats 7"] show ?thesis by blast
qed

text \<open>The only slot of an account is replaced by a live lease before it is released: two rows for one request.\<close>

definition handover_run :: "(redis_op \<times> int) list" where
  "handover_run = [(AccountAcquire 10 1 ''a'', 1000), (LiveAcquire 10 1 20 1 30 2 ''live'' True, 2000)]"

lemma handover_table:
  "map (table_at (NewConcurrencyCache 0 0) handover_run 8500 (AccountSlots 10)) [''a''] = [Some 1]"
  "map (table_at (NewConcurrencyCache 0 0) handover_run 8500 (LiveAccount 10)) [''live''] = [Some 2]"
  by code_simp+

theorem redis_slots_within_limit_witness:
  "holders (table_at (NewConcurrencyCache 0 0) sample_run 8500) (ForKey 7) \<le> 1 \<and>
   holders (table_at (NewConcurrencyCache 0 0) handover_run 8500) (ForAccount 10) \<le> 1 + 1 \<and>
   table_at (NewConcurrencyCache 0 0) handover_run 8500 (AccountSlots 10) ''a'' = Some 1 \<and>
   table_at (NewConcurrencyCache 0 0) handover_run 8500 (LiveAccount 10) ''live'' = Some 2"
  using redis_slots_within_limit [of sample_run 8500 "ForKey 7" 1 0 0] redis_slots_within_limit [of handover_run 8500 "ForAccount 10" 1 0 0]
    handover_table
  by (simp add: sample_run_def handover_run_def limits_kept_def limited_def replacing_def)


end
