(* ===== verification/KeyWait.thy ===== *)
theory KeyWait
  imports KeyQueue
begin

text \<open>
  \<^verbatim>\<open>backend/internal/service/api_key_queue.go\<close>: how a request waits for a slot of its key. The cache behind it is a record
  of operations for one attempt, because two providers stand behind the same interface: the Redis scripts and the SQL queue
  of a region. What the rest of the process and the clock do is the input of each round of the loop; the input of a call
  says what runs in the cache before it, and whether the call and its reply arrive.
\<close>

section \<open>Results\<close>

text \<open>\<open>ECause\<close> is the cause of the cancelled context; \<open>EAdmission\<close> stands for the untyped errors before the queue.\<close>

datatype queue_err = EFull | ETimeout | EUnavailable | EPolicyChanged | EAuthRejected | ECause | EAdmission

record APIKeySlotReservation =
  rv_apiKeyID :: int
  rv_requestID :: string
  rv_limit :: int
  rv_consumed :: bool

definition EffectiveLimit :: "APIKeySlotReservation \<Rightarrow> int" where "EffectiveLimit r = rv_limit r"

definition StatsOnly :: "APIKeySlotReservation \<Rightarrow> bool" where "StatsOnly r \<longleftrightarrow> EffectiveLimit r = 0"

definition RequestID :: "APIKeySlotReservation \<Rightarrow> string" where
  "RequestID r = (if rv_consumed r then '''' else rv_requestID r)"

definition Consume :: "APIKeySlotReservation \<Rightarrow> APIKeySlotReservation" where "Consume r = r\<lparr>rv_consumed := True\<rparr>"

datatype reserve_result = Reserved APIKeySlotReservation | NoCapacity | Refused queue_err

datatype queue_warning = AbortFailed | ReleaseFailed

section \<open>The cache of one attempt\<close>

record ('x, 's) queue_ops =
  qo_fast :: "'x \<Rightarrow> int \<Rightarrow> 's \<Rightarrow> (bool \<times> int) option \<times> 's"
  qo_advance :: "'x \<Rightarrow> APIKeyQueueMode \<Rightarrow> int \<Rightarrow> 's \<Rightarrow> APIKeyQueueOutcome option \<times> 's"
  qo_abort :: "'x \<Rightarrow> bool \<Rightarrow> 's \<Rightarrow> bool \<times> 's"
  qo_release :: "'x \<Rightarrow> 's \<Rightarrow> bool \<times> 's"
  qo_track :: "'x \<Rightarrow> string \<Rightarrow> 's \<Rightarrow> 's"

text \<open>Up to three tries of a compensation; a shorter list is a budget that ran out.\<close>

fun tries :: "('x \<Rightarrow> 's \<Rightarrow> bool \<times> 's) \<Rightarrow> 'x list \<Rightarrow> 's \<Rightarrow> bool \<times> 's" where
  "tries f [] s = (False, s)"
| "tries f (x # xs) s = (case f x s of (True, s') \<Rightarrow> (True, s') | (False, s') \<Rightarrow> tries f xs s')"

definition abortAPIKeyQueueAttemptErr :: "('x, 's) queue_ops \<Rightarrow> 'x list \<Rightarrow> bool \<Rightarrow> 's \<Rightarrow> bool \<times> 's" where
  "abortAPIKeyQueueAttemptErr Q xs remove s = tries (\<lambda>x. qo_abort Q x remove) (take 3 xs) s"

definition abortAPIKeyQueueAttempt :: "('x, 's) queue_ops \<Rightarrow> 'x list \<Rightarrow> bool \<Rightarrow> 's \<Rightarrow> queue_warning list \<times> 's" where
  "abortAPIKeyQueueAttempt Q xs remove s =
     (case abortAPIKeyQueueAttemptErr Q xs remove s of (ok, s') \<Rightarrow> (if ok then [] else [AbortFailed], s'))"

definition releaseAPIKeySlot :: "('x, 's) queue_ops \<Rightarrow> 'x list \<Rightarrow> 's \<Rightarrow> queue_warning list \<times> 's" where
  "releaseAPIKeySlot Q xs s =
     (case tries (qo_release Q) (take 3 xs) s of (ok, s') \<Rightarrow> (if ok then [] else [ReleaseFailed], s'))"

section \<open>Adoption\<close>

record 'x adopt_env =
  ad_ctx :: "queue_err option"
  ad_stopped :: bool
  ad_safe :: bool
  ad_release :: "'x list"

definition refuse_slot ::
  "('x, 's) queue_ops \<Rightarrow> 'x list \<Rightarrow> queue_err \<Rightarrow> 's \<Rightarrow> reserve_result \<times> queue_warning list \<times> 's" where
  "refuse_slot Q xs e s = (case releaseAPIKeySlot Q xs s of (w, s') \<Rightarrow> (Refused e, w, s'))"

definition adoptAPIKeyGrantOrRelease ::
  "('x, 's) queue_ops \<Rightarrow> 'x adopt_env \<Rightarrow> int \<Rightarrow> string \<Rightarrow> int \<Rightarrow> 's \<Rightarrow> reserve_result \<times> queue_warning list \<times> 's" where
  "adoptAPIKeyGrantOrRelease Q ad apiKeyID requestID limit s =
     (case ad_ctx ad of
        Some e \<Rightarrow> refuse_slot Q (ad_release ad) e s
      | None \<Rightarrow>
          if ad_stopped ad \<or> \<not> ad_safe ad then refuse_slot Q (ad_release ad) EUnavailable s
          else (Reserved \<lparr>rv_apiKeyID = apiKeyID, rv_requestID = requestID, rv_limit = limit, rv_consumed = False\<rparr>, [], s))"

text \<open>The lease is taken as valid for its TTL less a third and a second, from the start of the acknowledged call. In milliseconds.\<close>

definition validFor :: "int \<Rightarrow> int" where "validFor ttl = ttl - (ttl div 3 + 1000)"

definition apiKeyQueueSafeLeaseRemaining :: "int \<Rightarrow> int \<Rightarrow> int \<Rightarrow> bool" where
  "apiKeyQueueSafeLeaseRemaining ttl acknowledgedAt now \<longleftrightarrow> validFor ttl > 0 \<and> now < acknowledgedAt + validFor ttl"

definition trackAPIKeyReservation :: "('x, 's) queue_ops \<Rightarrow> 'x \<Rightarrow> string \<Rightarrow> int \<Rightarrow> 's \<Rightarrow> reserve_result \<times> 's" where
  "trackAPIKeyReservation Q x fresh apiKeyID s =
     (Reserved \<lparr>rv_apiKeyID = apiKeyID, rv_requestID = fresh, rv_limit = 0, rv_consumed = False\<rparr>, qo_track Q x fresh s)"

section \<open>The loop\<close>

record 'x wait_round =
  ro_stopped :: bool
  ro_wait :: "queue_err option"
  ro_limit :: "queue_err + int"
  ro_switch :: "'x list"
  ro_track :: 'x
  ro_fresh :: string
  ro_advance :: 'x
  ro_ctx :: "queue_err option"
  ro_stopped_after :: bool
  ro_wait_acquired :: "queue_err option"
  ro_limit_after :: "queue_err + int"
  ro_wait_final :: "queue_err option"
  ro_release :: "'x list"
  ro_adopt :: "'x adopt_env"
  ro_sleep :: "queue_err option"

text \<open>What ends the loop: the result, \<open>removeRegularOnExit\<close>, and the warnings so far.\<close>

type_synonym 's wait_exit = "reserve_result \<times> bool \<times> queue_warning list \<times> 's"

definition switchAPIKeyQueueToUnlimited ::
  "('x, 's) queue_ops \<Rightarrow> 'x wait_round \<Rightarrow> int \<Rightarrow> 's \<Rightarrow> 's wait_exit" where
  "switchAPIKeyQueueToUnlimited Q r apiKeyID s =
     (case abortAPIKeyQueueAttemptErr Q (ro_switch r) True s of
        (False, s') \<Rightarrow> (Refused EUnavailable, True, [], s')
      | (True, s') \<Rightarrow> (case trackAPIKeyReservation Q (ro_track r) (ro_fresh r) apiKeyID s' of (res, s'') \<Rightarrow> (res, False, [], s'')))"

definition leave_queue :: "reserve_result \<times> queue_warning list \<times> 's \<Rightarrow> 's wait_exit" where
  "leave_queue x = (fst x, False, fst (snd x), snd (snd x))"

definition release_and_track ::
  "('x, 's) queue_ops \<Rightarrow> 'x wait_round \<Rightarrow> int \<Rightarrow> 's \<Rightarrow> reserve_result \<times> queue_warning list \<times> 's" where
  "release_and_track Q r apiKeyID s =
     (case releaseAPIKeySlot Q (ro_release r) s of (w, s1) \<Rightarrow>
        (case trackAPIKeyReservation Q (ro_track r) (ro_fresh r) apiKeyID s1 of (res, s2) \<Rightarrow> (res, w, s2)))"

definition hand_over :: "('x, 's) queue_ops \<Rightarrow> bool \<Rightarrow> 'x wait_round \<Rightarrow> int \<Rightarrow> string \<Rightarrow> int \<Rightarrow> 's \<Rightarrow> 's wait_exit" where
  "hand_over Q reval r apiKeyID requestID limit s =
     (let adopt = leave_queue (adoptAPIKeyGrantOrRelease Q (ro_adopt r) apiKeyID requestID limit s)
      in case ro_wait_acquired r of
           Some e \<Rightarrow> leave_queue (refuse_slot Q (ro_release r) e s)
         | None \<Rightarrow>
             if \<not> reval then adopt
             else case ro_limit_after r of
               Inl e \<Rightarrow> leave_queue (refuse_slot Q (ro_release r) e s)
             | Inr refreshed \<Rightarrow>
                 if refreshed = 0 then leave_queue (release_and_track Q r apiKeyID s)
                 else case ro_wait_final r of
                   Some e \<Rightarrow> leave_queue (refuse_slot Q (ro_release r) e s)
                 | None \<Rightarrow> adopt)"

text \<open>One round ends the loop or leaves the limit, the mode and the cache for the next.\<close>

definition wait_outcome ::
  "('x, 's) queue_ops \<Rightarrow> bool \<Rightarrow> 'x wait_round \<Rightarrow> int \<Rightarrow> string \<Rightarrow> int \<Rightarrow> APIKeyQueueMode \<Rightarrow> APIKeyQueueOutcome \<Rightarrow> 's \<Rightarrow>
   's wait_exit + int \<times> APIKeyQueueMode \<times> 's" where
  "wait_outcome Q reval r apiKeyID requestID limit mode outcome s =
     (let refuse = (\<lambda>e. Inl (Refused e, True, [], s)) in
      case outcome of
        QAcquired \<Rightarrow> Inl (hand_over Q reval r apiKeyID requestID limit s)
      | QWaiting \<Rightarrow> Inr (limit, QPoll, s)
      | QTimeout \<Rightarrow> refuse ETimeout
      | QAborted \<Rightarrow> refuse (case ro_ctx r of Some e \<Rightarrow> e | None \<Rightarrow> EUnavailable)
      | QTicketLost \<Rightarrow> refuse EUnavailable
      | QPolicyChanged \<Rightarrow>
          if \<not> reval then refuse EPolicyChanged
          else (case ro_limit_after r of
                  Inl e \<Rightarrow> refuse e
                | Inr refreshed \<Rightarrow>
                    if refreshed = 0 then Inl (switchAPIKeyQueueToUnlimited Q r apiKeyID s) else Inr (refreshed, mode, s))
      | QQueueFull \<Rightarrow> refuse EFull
      | QLimitReached \<Rightarrow> Inl (NoCapacity, True, [], s))"

definition wait_step ::
  "('x, 's) queue_ops \<Rightarrow> bool \<Rightarrow> 'x wait_round \<Rightarrow> int \<Rightarrow> string \<Rightarrow> int \<Rightarrow> APIKeyQueueMode \<Rightarrow> 's \<Rightarrow>
   's wait_exit + int \<times> APIKeyQueueMode \<times> 's" where
  "wait_step Q reval r apiKeyID requestID limit mode s =
     (if ro_stopped r then Inl (Refused EUnavailable, True, [], s)
      else case ro_wait r of
        Some e \<Rightarrow> Inl (Refused e, True, [], s)
      | None \<Rightarrow>
          (case (if reval then ro_limit r else Inr limit) of
             Inl e \<Rightarrow> Inl (Refused e, True, [], s)
           | Inr limit' \<Rightarrow>
               if reval \<and> limit' = 0 then Inl (switchAPIKeyQueueToUnlimited Q r apiKeyID s)
               else (case qo_advance Q (ro_advance r) mode limit' s of
                       (None, s1) \<Rightarrow> Inl (Refused (case ro_ctx r of Some e \<Rightarrow> e | None \<Rightarrow> EUnavailable), True, [], s1)
                     | (Some outcome, s1) \<Rightarrow>
                         if ro_stopped_after r then Inl (Refused EUnavailable, True, [], s1)
                         else (case wait_outcome Q reval r apiKeyID requestID limit' mode outcome s1 of
                                 Inl x \<Rightarrow> Inl x
                               | Inr (limit2, mode2, s2) \<Rightarrow>
                                   (case ro_sleep r of Some e \<Rightarrow> Inl (Refused e, True, [], s2) | None \<Rightarrow> Inr (limit2, mode2, s2))))))"

text \<open>The loop over the rounds that are given; \<open>None\<close> means that it still waits after the last.\<close>

fun wait_rounds ::
  "('x, 's) queue_ops \<Rightarrow> bool \<Rightarrow> 'x wait_round list \<Rightarrow> int \<Rightarrow> string \<Rightarrow> int \<Rightarrow> APIKeyQueueMode \<Rightarrow> 's \<Rightarrow> 's wait_exit option" where
  "wait_rounds Q reval [] apiKeyID requestID limit mode s = None"
| "wait_rounds Q reval (r # rs) apiKeyID requestID limit mode s =
     (case wait_step Q reval r apiKeyID requestID limit mode s of
        Inl x \<Rightarrow> Some x
      | Inr (limit', mode', s') \<Rightarrow> wait_rounds Q reval rs apiKeyID requestID limit' mode' s')"

definition waitAPIKeyQueue ::
  "('x, 's) queue_ops \<Rightarrow> bool \<Rightarrow> 'x wait_round list \<Rightarrow> 'x list \<Rightarrow> int \<Rightarrow> string \<Rightarrow> int \<Rightarrow> 's \<Rightarrow>
   (reserve_result \<times> queue_warning list \<times> 's) option" where
  "waitAPIKeyQueue Q reval rs xs apiKeyID requestID keyLimit s =
     (case wait_rounds Q reval rs apiKeyID requestID keyLimit QEnter s of
        None \<Rightarrow> None
      | Some (res, remove, w, s1) \<Rightarrow> (case abortAPIKeyQueueAttempt Q xs remove s1 of (w', s2) \<Rightarrow> Some (res, w @ w', s2)))"

section \<open>Reservation\<close>

record 'x reserve_env =
  re_stopped :: bool
  re_maxWaiting :: int
  re_owner :: bool
  re_reval :: bool
  re_limit :: "queue_err + int"
  re_track :: 'x
  re_fresh :: string
  re_fast :: 'x
  re_release :: "'x list"
  re_adopt :: "'x adopt_env"
  re_remaining :: int
  re_abort :: "'x list"
  re_rounds :: "'x wait_round list"

text \<open>\<open>Q d\<close> is the cache of the attempt with the deadline \<open>d\<close>; a call without the queue has none.\<close>

definition fast_attempt ::
  "('x, 's) queue_ops \<Rightarrow> 'x reserve_env \<Rightarrow> int \<Rightarrow> string \<Rightarrow> int \<Rightarrow> 's \<Rightarrow>
   (reserve_result \<times> queue_warning list \<times> 's) + int \<times> 's" where
  "fast_attempt Q en apiKeyID requestID limit s =
     (case qo_fast Q (re_fast en) limit s of
        (None, s1) \<Rightarrow> Inl (refuse_slot Q (re_release en) EAdmission s1)
      | (Some (acquired, nowMs), s1) \<Rightarrow>
          if acquired then Inl (adoptAPIKeyGrantOrRelease Q (re_adopt en) apiKeyID requestID limit s1) else Inr (nowMs, s1))"

definition reserveAPIKeySlotImmediate ::
  "('x, 's) queue_ops \<Rightarrow> 'x reserve_env \<Rightarrow> int \<Rightarrow> string \<Rightarrow> int \<Rightarrow> 's \<Rightarrow> reserve_result \<times> queue_warning list \<times> 's" where
  "reserveAPIKeySlotImmediate Q en apiKeyID requestID maxConcurrency s =
     (if \<not> re_owner en then (Refused EAdmission, [], s)
      else if re_stopped en then (Refused EUnavailable, [], s)
      else case fast_attempt Q en apiKeyID requestID maxConcurrency s of
             Inl x \<Rightarrow> x
           | Inr (nowMs, s1) \<Rightarrow> (NoCapacity, [], s1))"

definition queue_deadline :: "int \<Rightarrow> int \<Rightarrow> int" where
  "queue_deadline nowMs remaining = (let d = nowMs + go_div remaining 1000000 in if d \<le> nowMs then nowMs + 1 else d)"

definition ReserveAPIKeySlotWithWait ::
  "(int \<Rightarrow> ('x, 's) queue_ops) \<Rightarrow> 'x reserve_env \<Rightarrow> int \<Rightarrow> string \<Rightarrow> int \<Rightarrow> 's \<Rightarrow>
   (reserve_result \<times> queue_warning list \<times> 's) option" where
  "ReserveAPIKeySlotWithWait Q en apiKeyID requestID maxConcurrency s =
     (let track = (case trackAPIKeyReservation (Q 0) (re_track en) (re_fresh en) apiKeyID s of (res, s') \<Rightarrow> Some (res, [], s')) in
      if maxConcurrency = 0 then track
      else if apiKeyID \<le> 0 \<or> maxConcurrency < 0 then Some (Refused EAdmission, [], s)
      else if re_stopped en then Some (Refused EUnavailable, [], s)
      else if re_maxWaiting en = 0 then Some (reserveAPIKeySlotImmediate (Q 0) en apiKeyID requestID maxConcurrency s)
      else if \<not> re_owner en then Some (Refused EAdmission, [], s)
      else case (if re_reval en then re_limit en else Inr maxConcurrency) of
        Inl e \<Rightarrow> Some (Refused e, [], s)
      | Inr keyLimit \<Rightarrow>
          if re_reval en \<and> keyLimit = 0 then track
          else case fast_attempt (Q 0) en apiKeyID requestID keyLimit s of
            Inl x \<Rightarrow> Some x
          | Inr (nowMs, s1) \<Rightarrow>
              if re_remaining en \<le> 0 then
                (case abortAPIKeyQueueAttempt (Q 0) (re_abort en) True s1 of (w, s2) \<Rightarrow> Some (Refused ETimeout, w, s2))
              else waitAPIKeyQueue (Q (queue_deadline nowMs (re_remaining en))) (re_reval en) (re_rounds en) (re_abort en)
                     apiKeyID requestID keyLimit s1)"

section \<open>What the wait needs of a cache\<close>

text \<open>Whether a result is a slot of the limited key; a reservation for statistics holds none.\<close>

definition holds_slot :: "reserve_result \<Rightarrow> bool" where
  "holds_slot res = (case res of Reserved r \<Rightarrow> \<not> StatsOnly r | _ \<Rightarrow> False)"

definition inputs_ok :: "('x \<Rightarrow> bool) \<Rightarrow> (string \<Rightarrow> bool) \<Rightarrow> 'x wait_round \<Rightarrow> bool" where
  "inputs_ok ok fresh r \<longleftrightarrow>
     ok (ro_advance r) \<and> ok (ro_track r) \<and> fresh (ro_fresh r) \<and> list_all ok (ro_switch r) \<and> list_all ok (ro_release r) \<and>
     list_all ok (ad_release (ro_adopt r))"

text \<open>
  A provider of the queue. In a \<open>sound\<close> state the attempt may hold a slot or not; once the queue has given it one the state is
  \<open>won\<close>; in a \<open>shut\<close> state it holds none and whatever is still under way gets it none. \<open>ok\<close> says what may run in the cache
  beside the calls of the attempt.
\<close>

locale queue_service =
  fixes Q :: "('x, 's) queue_ops" and ok :: "'x \<Rightarrow> bool" and fresh :: "string \<Rightarrow> bool"
    and sound won shut :: "'s \<Rightarrow> bool"
  assumes advance_sound: "sound s \<Longrightarrow> ok x \<Longrightarrow> qo_advance Q x mode limit s = (out, s') \<Longrightarrow> sound s'"
    and advance_won: "sound s \<Longrightarrow> ok x \<Longrightarrow> qo_advance Q x mode limit s = (Some QAcquired, s') \<Longrightarrow> won s'"
    and won_sound: "won s \<Longrightarrow> sound s" and shut_won: "shut s \<Longrightarrow> won s"
    and release_won: "won s \<Longrightarrow> ok x \<Longrightarrow> qo_release Q x s = (done, s') \<Longrightarrow> won s'"
    and release_shuts: "won s \<Longrightarrow> ok x \<Longrightarrow> qo_release Q x s = (True, s') \<Longrightarrow> shut s'"
    and abort_sound: "sound s \<Longrightarrow> ok x \<Longrightarrow> qo_abort Q x remove s = (done, s') \<Longrightarrow> sound s'"
    and abort_shuts: "sound s \<Longrightarrow> ok x \<Longrightarrow> qo_abort Q x True s = (True, s') \<Longrightarrow> shut s'"
    and abort_shut: "shut s \<Longrightarrow> ok x \<Longrightarrow> qo_abort Q x remove s = (done, s') \<Longrightarrow> shut s'"
    and track_shut: "shut s \<Longrightarrow> ok x \<Longrightarrow> fresh i \<Longrightarrow> shut (qo_track Q x i s)"
    and track_won: "won s \<Longrightarrow> ok x \<Longrightarrow> fresh i \<Longrightarrow> won (qo_track Q x i s)"
begin

lemma tries_keep:
  assumes "\<And>x s done s'. P s \<Longrightarrow> ok x \<Longrightarrow> f x s = (done, s') \<Longrightarrow> P s'"
  shows "P s \<Longrightarrow> list_all ok xs \<Longrightarrow> tries f xs s = (done, s') \<Longrightarrow> P s'"
proof (induction xs arbitrary: s)
  case (Cons x xs)
  then show ?case using assms [of s x] by (auto split: prod.splits bool.splits)
qed simp

lemma tries_reach:
  assumes "\<And>x s done s'. P s \<Longrightarrow> ok x \<Longrightarrow> f x s = (done, s') \<Longrightarrow> P s'"
    "\<And>x s s'. P s \<Longrightarrow> ok x \<Longrightarrow> f x s = (True, s') \<Longrightarrow> R s'"
  shows "P s \<Longrightarrow> list_all ok xs \<Longrightarrow> tries f xs s = (True, s') \<Longrightarrow> R s'"
proof (induction xs arbitrary: s)
  case (Cons x xs)
  then show ?case using assms(1) [of s x] assms(2) [of s x] by (auto split: prod.splits bool.splits)
qed simp

lemma ok_take: "list_all ok xs \<Longrightarrow> list_all ok (take n xs)"
  by (simp add: list_all_length)

lemma abort_reaches:
  assumes "sound s" "list_all ok xs" "abortAPIKeyQueueAttemptErr Q xs True s = (done, s')"
  shows "sound s'" "done \<Longrightarrow> shut s'"
proof -
  note ok = ok_take [OF assms(2), of 3]
  have run: "tries (\<lambda>x. qo_abort Q x True) (take 3 xs) s = (done, s')" using assms(3) by (simp add: abortAPIKeyQueueAttemptErr_def)
  show "sound s'"
    using tries_keep [where P = sound and f = "\<lambda>x. qo_abort Q x True", OF _ assms(1) ok run] abort_sound by blast
  assume "done"
  then have "tries (\<lambda>x. qo_abort Q x True) (take 3 xs) s = (True, s')" using run by simp
  then show "shut s'"
    using tries_reach [where P = sound and f = "\<lambda>x. qo_abort Q x True" and R = shut, OF _ _ assms(1) ok]
      abort_sound abort_shuts by blast
qed

lemma release_reaches:
  assumes "won s" "list_all ok xs" "releaseAPIKeySlot Q xs s = (w, s')"
  shows "w = [] \<Longrightarrow> shut s'"
proof -
  note ok = ok_take [OF assms(2), of 3]
  obtain d where run: "tries (qo_release Q) (take 3 xs) s = (d, s')" and w: "w = (if d then [] else [ReleaseFailed])"
    using assms(3) by (cases "tries (qo_release Q) (take 3 xs) s") (simp add: releaseAPIKeySlot_def)
  assume "w = []"
  then have "tries (qo_release Q) (take 3 xs) s = (True, s')" using run w by (simp split: if_splits)
  then show "shut s'"
    using tries_reach [where P = won and f = "qo_release Q" and R = shut, OF _ _ assms(1) ok] release_won release_shuts by blast
qed

lemma abort_keeps_shut:
  assumes "shut s" "list_all ok xs" "abortAPIKeyQueueAttempt Q xs remove s = (w, s')"
  shows "shut s'"
proof -
  obtain d where run: "tries (\<lambda>x. qo_abort Q x remove) (take 3 xs) s = (d, s')"
    using assms(3) by (cases "tries (\<lambda>x. qo_abort Q x remove) (take 3 xs) s")
      (simp add: abortAPIKeyQueueAttempt_def abortAPIKeyQueueAttemptErr_def)
  show ?thesis
    using tries_keep [where P = shut and f = "\<lambda>x. qo_abort Q x remove", OF _ assms(1) ok_take [OF assms(2)] run] abort_shut by blast
qed

text \<open>What is known when the loop ends.\<close>

definition left_well :: "'s wait_exit \<Rightarrow> bool" where
  "left_well e = (case e of (res, remove, w, s) \<Rightarrow>
     \<not> holds_slot res \<longrightarrow> w = [] \<longrightarrow> (if remove then sound s else shut s))"

lemma refuse_left:
  assumes "won s" "list_all ok xs" "refuse_slot Q xs e s = (res, w, s')"
  shows "w = [] \<Longrightarrow> shut s'"
  using assms(3) release_reaches [OF assms(1,2)] by (simp add: refuse_slot_def split: prod.splits)

lemma adopt_left:
  assumes "won s" "list_all ok (ad_release ad)" "limit \<noteq> 0" "adoptAPIKeyGrantOrRelease Q ad k m limit s = (res, w, s')"
  shows "\<not> holds_slot res \<Longrightarrow> w = [] \<Longrightarrow> shut s'"
  using assms(3,4) refuse_left [OF assms(1,2), of _ res w s']
  by (cases "ad_ctx ad") (auto simp: adoptAPIKeyGrantOrRelease_def holds_slot_def StatsOnly_def EffectiveLimit_def split: if_splits)

lemma track_left:
  assumes "shut s" "ok (ro_track r)" "fresh (ro_fresh r)" "trackAPIKeyReservation Q (ro_track r) (ro_fresh r) k s = (res, s')"
  shows "shut s'"
  using assms(4) track_shut [OF assms(1-3)] by (auto simp: trackAPIKeyReservation_def)

lemma hand_over_left:
  assumes "won s" "inputs_ok ok fresh r" "limit \<noteq> 0"
  shows "left_well (hand_over Q reval r k m limit s)"
proof -
  have r: "ok (ro_track r)" "fresh (ro_fresh r)" "list_all ok (ro_release r)" "list_all ok (ad_release (ro_adopt r))"
    using assms(2) by (simp_all add: inputs_ok_def)
  have left: "left_well (leave_queue x)"
    if "\<And>res w s'. x = (res, w, s') \<Longrightarrow> \<not> holds_slot res \<Longrightarrow> w = [] \<Longrightarrow> shut s'" for x
    using that by (cases x) (simp add: left_well_def leave_queue_def)
  have refuse: "left_well (leave_queue (refuse_slot Q (ro_release r) e s))" for e
    using refuse_left [OF assms(1) r(3)] by (intro left) blast
  have adopt: "left_well (leave_queue (adoptAPIKeyGrantOrRelease Q (ro_adopt r) k m limit s))"
    using adopt_left [OF assms(1) r(4) assms(3)] by (intro left) blast
  have track: "left_well (leave_queue (release_and_track Q r k s))"
    using release_reaches [OF assms(1) r(3)] track_left [OF _ r(1,2)]
    by (intro left) (simp add: release_and_track_def split: prod.splits)
  show ?thesis using refuse adopt track by (simp add: hand_over_def Let_def split: option.splits sum.splits)
qed

lemma switch_left:
  assumes "sound s" "inputs_ok ok fresh r"
  shows "left_well (switchAPIKeyQueueToUnlimited Q r k s)"
proof -
  obtain d s1 where a: "abortAPIKeyQueueAttemptErr Q (ro_switch r) True s = (d, s1)"
    by (cases "abortAPIKeyQueueAttemptErr Q (ro_switch r) True s")
  have ins: "ok (ro_track r)" "fresh (ro_fresh r)" "list_all ok (ro_switch r)" using assms(2) by (simp_all add: inputs_ok_def)
  note reach = abort_reaches [OF assms(1) ins(3) a]
  show ?thesis
  proof (cases d)
    case True
    then have "shut (qo_track Q (ro_track r) (ro_fresh r) s1)" using reach(2) track_shut ins by blast
    then show ?thesis using a True by (simp add: switchAPIKeyQueueToUnlimited_def trackAPIKeyReservation_def left_well_def)
  qed (use a reach(1) in \<open>simp add: switchAPIKeyQueueToUnlimited_def left_well_def\<close>)
qed

definition goes_on :: "'s wait_exit + int \<times> APIKeyQueueMode \<times> 's \<Rightarrow> bool" where
  "goes_on x = (case x of Inl e \<Rightarrow> left_well e | Inr (limit, mode, s) \<Rightarrow> limit \<noteq> 0 \<and> sound s)"

lemma refused_left: "sound s \<Longrightarrow> left_well (Refused e, True, [], s)" "sound s \<Longrightarrow> left_well (NoCapacity, True, [], s)"
  by (simp_all add: left_well_def)

lemma outcome_goes_on:
  assumes "sound s" "out = QAcquired \<Longrightarrow> won s" "inputs_ok ok fresh r" "limit \<noteq> 0"
  shows "goes_on (wait_outcome Q reval r k m limit mode out s)"
  using assms(4) hand_over_left [OF _ assms(3,4), of s reval k m] switch_left [OF assms(1,3), of k] refused_left [OF assms(1)] assms(1,2)
  by (cases out) (auto simp: wait_outcome_def goes_on_def Let_def split: sum.splits)

lemma step_goes_on:
  assumes "sound s" "inputs_ok ok fresh r" "limit \<noteq> 0"
  shows "goes_on (wait_step Q reval r k m limit mode s)"
proof (cases "ro_stopped r \<or> ro_wait r \<noteq> None")
  case True
  then show ?thesis using refused_left [OF assms(1)] by (auto simp: wait_step_def goes_on_def)
next
  case False
  show ?thesis
  proof (cases "if reval then ro_limit r else Inr limit")
    case (Inl e)
    then show ?thesis using False refused_left [OF assms(1)] by (simp add: wait_step_def goes_on_def)
  next
    case (Inr l)
    show ?thesis
    proof (cases "reval \<and> l = 0")
      case True
      then show ?thesis using False Inr switch_left [OF assms(1,2)] by (simp add: wait_step_def goes_on_def)
    next
      case go: False
      have l: "l \<noteq> 0" using go Inr assms(3) by (auto split: if_splits)
      have ok: "ok (ro_advance r)" using assms(2) by (simp add: inputs_ok_def)
      obtain out s1 where a: "qo_advance Q (ro_advance r) mode l s = (out, s1)" by (cases "qo_advance Q (ro_advance r) mode l s")
      have s1: "sound s1" by (rule advance_sound [OF assms(1) ok a])
      show ?thesis
      proof (cases out)
        case None
        then show ?thesis using False Inr go a refused_left [OF s1] by (auto simp: wait_step_def goes_on_def)
      next
        case (Some q)
        have "goes_on (wait_outcome Q reval r k m l mode q s1)"
          using advance_won [OF assms(1) ok, of mode l s1] a Some by (intro outcome_goes_on [OF s1 _ assms(2) l]) simp
        then show ?thesis
          using False Inr go a Some refused_left s1
          by (cases "wait_outcome Q reval r k m l mode q s1") (auto simp: wait_step_def goes_on_def split: option.splits)
      qed
    qed
  qed
qed

lemma rounds_left:
  "sound s \<Longrightarrow> list_all (inputs_ok ok fresh) rs \<Longrightarrow> limit \<noteq> 0 \<Longrightarrow> wait_rounds Q reval rs k m limit mode s = Some e \<Longrightarrow> left_well e"
proof (induction rs arbitrary: limit mode s)
  case (Cons r rs)
  have "goes_on (wait_step Q reval r k m limit mode s)" using Cons.prems by (intro step_goes_on) simp_all
  then show ?case using Cons.prems(2,4) Cons.IH by (auto simp: goes_on_def split: sum.splits)
qed simp

lemma wait_leaves_nothing:
  assumes "sound s" "list_all (inputs_ok ok fresh) rs" "list_all ok xs" "limit \<noteq> 0"
    and run: "waitAPIKeyQueue Q reval rs xs k m limit s = Some (res, [], s')" "\<not> holds_slot res"
  shows "shut s'"
proof -
  obtain remove w s1 w' where r: "wait_rounds Q reval rs k m limit QEnter s = Some (res, remove, w, s1)"
    and a: "abortAPIKeyQueueAttempt Q xs remove s1 = (w', s')" and w: "w @ w' = []"
    using run(1) by (auto simp: waitAPIKeyQueue_def split: option.splits prod.splits)
  have left: "if remove then sound s1 else shut s1"
    using rounds_left [OF assms(1,2,4) r] run(2) w by (simp add: left_well_def)
  show ?thesis
  proof (cases remove)
    case True
    then obtain d where d: "abortAPIKeyQueueAttemptErr Q xs True s1 = (d, s')" "d"
      using a w by (auto simp: abortAPIKeyQueueAttempt_def split: prod.splits if_splits)
    then show ?thesis using abort_reaches(2) [OF _ assms(3) d(1)] left True by simp
  next
    case False
    then show ?thesis using abort_keeps_shut [OF _ assms(3) a] left by simp
  qed
qed

end

end
