(* ===== verification/RedisWait.thy ===== *)
theory RedisWait
  imports RedisRuns KeyWait
begin

text \<open>
  A request that waits for a slot of its key, over the scripts of the Redis cache. Between two calls of the request any
  commands of others run, and late copies of its own commands.
\<close>

section \<open>The Redis cache as the queue of an attempt\<close>

text \<open>What runs before a call, each command after a delay, and whether the call and its reply arrive.\<close>

record redis_input =
  ri_before :: "(redis_op \<times> nat) list"
  ri_delay :: nat
  ri_fault :: db_fault

fun pass :: "concurrencyCache \<Rightarrow> (redis_op \<times> nat) list \<Rightarrow> int \<times> redis \<Rightarrow> int \<times> redis" where
  "pass c [] s = s"
| "pass c ((op, dt) # es) (t, db) = pass c es (t + int dt, snd (run_op c op (t + int dt) db))"

definition redis_send :: "concurrencyCache \<Rightarrow> redis_input \<Rightarrow> (int \<Rightarrow> redis \<Rightarrow> 'a \<times> redis) \<Rightarrow> int \<times> redis \<Rightarrow> 'a option \<times> int \<times> redis" where
  "redis_send c x script s =
     (case pass c (ri_before x) s of (t, db) \<Rightarrow>
        (case redis_call (ri_fault x) (script (t + int (ri_delay x))) db of (a, db') \<Rightarrow> (a, t + int (ri_delay x), db')))"

definition redis_queue_ops ::
  "concurrencyCache \<Rightarrow> int \<Rightarrow> string \<Rightarrow> int \<Rightarrow> int \<Rightarrow> (redis_input, int \<times> redis) queue_ops" where
  "redis_queue_ops c kid m maxWaiting d =
     \<lparr>qo_fast = (\<lambda>x limit. redis_send c x (redis_fast c kid limit m)),
      qo_advance = (\<lambda>x mode limit s. apfst (\<lambda>r. case r of Some (Some q) \<Rightarrow> Some q | _ \<Rightarrow> None)
        (redis_send c x (redis_advance c kid m mode d limit maxWaiting) s)),
      qo_abort = (\<lambda>x remove s. apfst (\<lambda>r. r \<noteq> None) (redis_send c x (redis_abort kid m d remove) s)),
      qo_release = (\<lambda>x s. apfst (\<lambda>r. r \<noteq> None) (redis_send c x (releaseSlot (ApiKeySlots kid) m) s)),
      qo_track = (\<lambda>x i s. snd (redis_send c x (trackSlotScript (ApiKeySlots kid) (slotTTLSeconds c) i) s))\<rparr>"

text \<open>
  Beside the request: its commands carry its deadline, and its fast attempt, which was answered before it waits, is not sent
  again. Nobody else uses its member.
\<close>

fun beside :: "int \<Rightarrow> string \<Rightarrow> int \<Rightarrow> redis_op \<Rightarrow> bool" where
  "beside i m d (QueueAdvance i' mode m' d' l w) \<longleftrightarrow> (i' = i \<and> m' = m \<longrightarrow> d' = d)"
| "beside i m d (QueueAbort i' m' d' r) \<longleftrightarrow> (i' = i \<and> m' = m \<longrightarrow> d' = d)"
| "beside i m d (KeyFast i' l m') \<longleftrightarrow> \<not> (i' = i \<and> m' = m)"
| "beside i m d (KeyTrack i' m') \<longleftrightarrow> \<not> (i' = i \<and> m' = m)"
| "beside i m d op \<longleftrightarrow> True"

definition quiet_input :: "int \<Rightarrow> string \<Rightarrow> int \<Rightarrow> redis_input \<Rightarrow> bool" where
  "quiet_input i m d x \<longleftrightarrow> list_all (\<lambda>(op, dt). beside i m d op) (ri_before x)"

section \<open>Its states\<close>

definition marked :: "concurrencyCache \<Rightarrow> int \<Rightarrow> string \<Rightarrow> int \<Rightarrow> int \<times> redis \<Rightarrow> bool" where
  "marked c i m d = (\<lambda>(t, db). redis_ok c t db \<and> (t < d \<longrightarrow> leases c t db (ApiKeyClosed i) m = Some d))"

definition closed_out :: "concurrencyCache \<Rightarrow> int \<Rightarrow> string \<Rightarrow> int \<Rightarrow> int \<times> redis \<Rightarrow> bool" where
  "closed_out c i m d = (\<lambda>(t, db). aborted c i m d t db)"

definition queueing :: "concurrencyCache \<Rightarrow> int \<Rightarrow> string \<Rightarrow> int \<Rightarrow> int \<times> redis \<Rightarrow> bool" where
  "queueing c i m d = (\<lambda>(t, db). redis_ok c t db \<and> (absent (ApiKeySlots i) m db \<or> marked c i m d (t, db)))"

lemma redis_ok_later: "redis_ok c t db \<Longrightarrow> t \<le> t' \<Longrightarrow> redis_ok c t' db"
  using zset_ok_later [of c t _ _ t'] by (simp add: redis_ok_def)

lemma marked_later: "marked c i m d (t, db) \<Longrightarrow> t \<le> t' \<Longrightarrow> marked c i m d (t', db)"
  using redis_ok_later [of c t db t'] leases_later [of t t' c db] by (simp add: marked_def alive_at_def)

lemma queueing_later: "queueing c i m d (t, db) \<Longrightarrow> t \<le> t' \<Longrightarrow> queueing c i m d (t', db)"
  using redis_ok_later [of c t db t'] marked_later [of c i m d t db t'] by (auto simp: queueing_def)

lemma closed_out_iff: "closed_out c i m d (t, db) \<longleftrightarrow> marked c i m d (t, db) \<and> absent (ApiKeySlots i) m db"
  by (auto simp: closed_out_def aborted_def marked_def)

lemma beside_late: "beside i m d op \<Longrightarrow> late_command i m d (op, t)"
  by (cases op) auto

lemma marked_op:
  assumes "valid_cache c" "marked c i m d (t, db)" "late_command i m d (op, t)" "run_op c op t db = (code, db')"
  shows "marked c i m d (t, db')"
proof -
  have "redis_ok c t db" using assms(2) by (simp add: marked_def)
  from run_op_leases [OF assms(1) this order_refl assms(4)]
  show ?thesis using marked_step [OF _ assms(3)] assms(2) by (simp add: marked_def holding_def)
qed

text \<open>The queue script marks an attempt as soon as it gives it a slot.\<close>

lemma advance_marks:
  assumes "valid_cache c" "queueing c i m d (t, db)" "run_op c (QueueAdvance i mode m d l w) t db = (code, db')"
  shows "queueing c i m d (t, db') \<and> (code = 1 \<longrightarrow> marked c i m d (t, db'))"
proof (cases "marked c i m d (t, db)")
  case True
  then have "marked c i m d (t, db')" using marked_op [OF assms(1) True _ assms(3)] by simp
  then show ?thesis by (simp add: queueing_def marked_def)
next
  case False
  then have ok: "redis_ok c t db" and A: "absent (ApiKeySlots i) m db" using assms(2) by (auto simp: queueing_def)
  have H: "holding c t db' (next_advance i m d t code (leases c t db))"
    using run_op_leases [OF assms(1) ok order_refl assms(3)] by simp
  have no: "leases c t db (ApiKeySlots i) m = None"
    using A lease_score [of c t "ApiKeySlots i" "zsets db (ApiKeySlots i)" m] by (fastforce simp: absent_def leases_def)
  show ?thesis
  proof (cases "code = 1")
    case True
    then have "marked c i m d (t, db')" using H no by (simp add: holding_def marked_def next_advance_def put_lease_apply)
    then show ?thesis by (simp add: queueing_def marked_def)
  next
    case False
    have "absent (ApiKeySlots i) m db'"
      using advance_not_granted [OF A, of mode d l w] assms(3) False by simp
    then show ?thesis using H False by (simp add: queueing_def holding_def)
  qed
qed

section \<open>Commands beside the request keep them\<close>

lemma queueing_op:
  assumes "valid_cache c" "queueing c i m d (t, db)" "beside i m d op" "run_op c op t db = (code, db')"
  shows "queueing c i m d (t, db')"
proof (cases "marked c i m d (t, db)")
  case True
  then show ?thesis using marked_op [OF assms(1) True beside_late [OF assms(3)] assms(4)] by (simp add: queueing_def marked_def)
next
  case False
  then have ok: "redis_ok c t db" and A: "absent (ApiKeySlots i) m db" using assms(2) by (auto simp: queueing_def)
  show ?thesis
  proof (cases "asks_slot i m op")
    case True
    then obtain mode l w where "op = QueueAdvance i mode m d l w" using assms(3) by (cases op) auto
    then show ?thesis using advance_marks [OF assms(1,2)] assms(4) by blast
  next
    case False
    have "redis_ok c t db'" using run_op_leases [OF assms(1) ok order_refl assms(4)] by (simp add: holding_def)
    then show ?thesis using run_op_others_absent [OF A False assms(4)] by (simp add: queueing_def)
  qed
qed

lemma closed_out_op:
  assumes "valid_cache c" "closed_out c i m d (t, db)" "beside i m d op" "run_op c op t db = (code, db')"
  shows "closed_out c i m d (t, db')"
  using aborted_step [OF assms(1) _ order_refl beside_late [OF assms(3)] assms(4)] assms(2) by (simp add: closed_out_def)

lemma closed_out_later: "closed_out c i m d (t, db) \<Longrightarrow> t \<le> t' \<Longrightarrow> closed_out c i m d (t', db)"
  using aborted_later [of c i m d t db t'] by (simp add: closed_out_def)

text \<open>A predicate that time and the commands beside the request keep is kept by a call.\<close>

definition stays :: "concurrencyCache \<Rightarrow> int \<Rightarrow> string \<Rightarrow> int \<Rightarrow> (int \<times> redis \<Rightarrow> bool) \<Rightarrow> bool" where
  "stays c i m d P \<longleftrightarrow> (\<forall>t t' db. P (t, db) \<longrightarrow> t \<le> t' \<longrightarrow> P (t', db)) \<and>
     (\<forall>op t db. P (t, db) \<longrightarrow> beside i m d op \<longrightarrow> P (t, snd (run_op c op t db)))"

lemma stays_three:
  assumes "valid_cache c"
  shows "stays c i m d (queueing c i m d)" "stays c i m d (marked c i m d)" "stays c i m d (closed_out c i m d)"
proof -
  show "stays c i m d (queueing c i m d)"
    unfolding stays_def using queueing_later queueing_op [OF assms _ _ prod.collapse [symmetric]] by blast
  show "stays c i m d (marked c i m d)"
    unfolding stays_def using marked_later marked_op [OF assms _ beside_late prod.collapse [symmetric]] by blast
  show "stays c i m d (closed_out c i m d)"
    unfolding stays_def using closed_out_later closed_out_op [OF assms _ _ prod.collapse [symmetric]] by blast
qed

lemma pass_keeps: "stays c i m d P \<Longrightarrow> P s \<Longrightarrow> list_all (\<lambda>(op, dt). beside i m d op) es \<Longrightarrow> P (pass c es s)"
proof (induction c es s rule: pass.induct)
  case (2 c op dt es t db)
  have "P (t + int dt, snd (run_op c op (t + int dt) db))" using 2(2-4) by (simp add: stays_def)
  then show ?case using 2 by simp
qed simp

lemma send_cases:
  assumes "stays c i m d P" "P s" "quiet_input i m d x" "redis_send c x script s = (a, s')"
  obtains (missed) "a = None" "P s'"
  | (ran) t db v db' where "P (t, db)" "script t db = (v, db')" "s' = (t, db')" "a = None \<or> a = Some v"
proof -
  obtain t0 db where p: "pass c (ri_before x) s = (t0, db)" by (cases "pass c (ri_before x) s")
  have "P (t0, db)" using pass_keeps [OF assms(1,2), of "ri_before x"] assms(3) p by (simp add: quiet_input_def)
  then have P: "P (t0 + int (ri_delay x), db)" using assms(1) by (simp add: stays_def)
  obtain v db' where s: "script (t0 + int (ri_delay x)) db = (v, db')" by (cases "script (t0 + int (ri_delay x)) db")
  show ?thesis
    using assms(4) p s missed ran [OF P s] P by (cases "ri_fault x") (simp_all add: redis_send_def redis_call_def)
qed

section \<open>The scripts as commands\<close>

lemma advance_is_command:
  "redis_advance c kid m mode d l w t db = apfst queue_outcome (run_op c (QueueAdvance kid mode m d l w) t db)"
  by (simp add: redis_advance_def split: prod.splits)

lemma abort_is_command: "redis_abort kid m d remove t db = ((), snd (run_op c (QueueAbort kid m d remove) t db))"
  by (simp add: redis_abort_def)

lemma acquired_code: "queue_outcome code = Some QAcquired \<longleftrightarrow> code = 1"
  by (auto simp: queue_outcome_def split: if_splits)

lemma abort_closes:
  assumes "valid_cache c" "queueing c i m d (t, db)" "run_op c (QueueAbort i m d True) t db = (code, db')"
  shows "closed_out c i m d (t, db')"
  using abort_aborts [OF assms(1) _ order_refl assms(3)] assms(2) by (simp add: closed_out_def queueing_def)

lemma release_closes:
  assumes "valid_cache c" "marked c i m d (t, db)" "run_op c (KeyRelease i m) t db = (code, db')"
  shows "closed_out c i m d (t, db')"
proof -
  have "marked c i m d (t, db')" using marked_op [OF assms(1,2) _ assms(3)] by simp
  moreover have "absent (ApiKeySlots i) m db'"
    using assms(3) by (auto simp: releaseSlot_def absent_def ZREM_def ZSCORE_def map_of_filter_key)
  ultimately show ?thesis by (simp add: closed_out_iff)
qed

section \<open>The cache serves the wait\<close>

lemma redis_advance_call:
  assumes "valid_cache c" "queueing c i m d s" "quiet_input i m d x" "qo_advance (redis_queue_ops c i m w d) x mode limit s = (out, s')"
  shows "queueing c i m d s' \<and> (out = Some QAcquired \<longrightarrow> marked c i m d s')"
proof -
  obtain a where a: "redis_send c x (redis_advance c i m mode d limit w) s = (a, s')"
    and out: "out = (case a of Some (Some q) \<Rightarrow> Some q | _ \<Rightarrow> None)"
    using assms(4) by (auto simp: redis_queue_ops_def apfst_eq)
  from stays_three(1) [OF assms(1)] assms(2,3) a show ?thesis
  proof (cases rule: send_cases)
    case missed
    then show ?thesis using out by simp
  next
    case (ran t db v db')
    obtain code where r: "run_op c (QueueAdvance i mode m d limit w) t db = (code, db')" and v: "v = queue_outcome code"
      using ran(2) by (auto simp: advance_is_command apfst_eq simp del: run_op.simps)
    have "out = Some QAcquired \<Longrightarrow> code = 1"
      using ran(4) out v acquired_code [of code] by (auto split: option.splits)
    then show ?thesis using advance_marks [OF assms(1) ran(1) r] ran(3) by blast
  qed
qed

lemma redis_abort_call:
  assumes "valid_cache c" "quiet_input i m d x" "qo_abort (redis_queue_ops c i m w d) x remove s = (done, s')"
  shows "queueing c i m d s \<Longrightarrow> queueing c i m d s'" "closed_out c i m d s \<Longrightarrow> closed_out c i m d s'"
    and "queueing c i m d s \<Longrightarrow> remove \<Longrightarrow> done \<Longrightarrow> closed_out c i m d s'"
proof -
  obtain a where a: "redis_send c x (redis_abort i m d remove) s = (a, s')" and ok: "done = (a \<noteq> None)"
    using assms(3) by (auto simp: redis_queue_ops_def apfst_eq)
  have keep: "P s'" if st: "stays c i m d P" "P s" for P
    using st assms(2) a
  proof (cases rule: send_cases)
    case (ran t db v db')
    have "db' = snd (run_op c (QueueAbort i m d remove) t db)" using ran(2) abort_is_command [of i m d remove t db c] by (simp del: run_op.simps)
    moreover have "beside i m d (QueueAbort i m d remove)" by simp
    ultimately show ?thesis using st(1) ran(1,3) unfolding stays_def by blast
  qed
  show "queueing c i m d s \<Longrightarrow> queueing c i m d s'" "closed_out c i m d s \<Longrightarrow> closed_out c i m d s'"
    using keep stays_three [OF assms(1)] by blast+
  assume "queueing c i m d s" "remove" "done"
  from stays_three(1) [OF assms(1)] this(1) assms(2) a show "closed_out c i m d s'"
  proof (cases rule: send_cases)
    case missed
    then show ?thesis using ok \<open>done\<close> by simp
  next
    case (ran t db v db')
    have "db' = snd (run_op c (QueueAbort i m d True) t db)" using ran(2) \<open>remove\<close> abort_is_command [of i m d remove t db c] by (simp del: run_op.simps)
    then show ?thesis using abort_closes [OF assms(1) ran(1) prod.collapse [symmetric]] ran(3) by (simp del: run_op.simps)
  qed
qed

lemma redis_release_call:
  assumes "valid_cache c" "quiet_input i m d x" "qo_release (redis_queue_ops c i m w d) x s = (done, s')" "marked c i m d s"
  shows "marked c i m d s'" "done \<Longrightarrow> closed_out c i m d s'"
proof -
  obtain a where a: "redis_send c x (releaseSlot (ApiKeySlots i) m) s = (a, s')" and ok: "done = (a \<noteq> None)"
    using assms(3) by (auto simp: redis_queue_ops_def apfst_eq)
  from stays_three(2) [OF assms(1)] assms(4,2) a have "marked c i m d s' \<and> (done \<longrightarrow> closed_out c i m d s')"
  proof (cases rule: send_cases)
    case missed
    then show ?thesis using ok by simp
  next
    case (ran t db v db')
    have r: "run_op c (KeyRelease i m) t db = (v, db')" using ran(2) by simp
    have "closed_out c i m d s'" using release_closes [OF assms(1) ran(1) r] ran(3) by simp
    then show ?thesis using ran(3) by (simp add: closed_out_iff)
  qed
  then show "marked c i m d s'" "done \<Longrightarrow> closed_out c i m d s'" by blast+
qed

lemma redis_track_call:
  assumes "valid_cache c" "quiet_input i m d x" "new \<noteq> m"
  shows "closed_out c i m d s \<Longrightarrow> closed_out c i m d (qo_track (redis_queue_ops c i m w d) x new s)"
    and "marked c i m d s \<Longrightarrow> marked c i m d (qo_track (redis_queue_ops c i m w d) x new s)"
proof -
  obtain a s' where a: "redis_send c x (trackSlotScript (ApiKeySlots i) (slotTTLSeconds c) new) s = (a, s')"
    by (cases "redis_send c x (trackSlotScript (ApiKeySlots i) (slotTTLSeconds c) new) s")
  have keep: "P s'" if st: "stays c i m d P" "P s" for P
    using st assms(2) a
  proof (cases rule: send_cases)
    case (ran t db v db')
    have "run_op c (KeyTrack i new) t db = (v, db')" using ran(2) by simp
    moreover have "beside i m d (KeyTrack i new)" using assms(3) by simp
    ultimately show ?thesis using st(1) ran(1,3) unfolding stays_def by (metis snd_conv)
  qed
  have s': "qo_track (redis_queue_ops c i m w d) x new s = s'" using a by (simp add: redis_queue_ops_def)
  show "closed_out c i m d s \<Longrightarrow> closed_out c i m d (qo_track (redis_queue_ops c i m w d) x new s)"
    unfolding s' by (rule keep [OF stays_three(3) [OF assms(1)]])
  show "marked c i m d s \<Longrightarrow> marked c i m d (qo_track (redis_queue_ops c i m w d) x new s)"
    unfolding s' by (rule keep [OF stays_three(2) [OF assms(1)]])
qed

lemma redis_serves_wait:
  "queue_service (redis_queue_ops (NewConcurrencyCache minutes secs) i m w d) (quiet_input i m d) (\<lambda>new. new \<noteq> m)
     (queueing (NewConcurrencyCache minutes secs) i m d) (marked (NewConcurrencyCache minutes secs) i m d)
     (closed_out (NewConcurrencyCache minutes secs) i m d)"
proof (unfold_locales, goal_cases)
  case 1
  then show ?case using redis_advance_call [OF valid_new] by blast
next
  case 2
  then show ?case using redis_advance_call [OF valid_new] by blast
next
  case (3 s)
  then show ?case by (cases s) (simp add: queueing_def marked_def)
next
  case (4 s)
  then show ?case by (cases s) (simp add: closed_out_iff)
next
  case 5
  then show ?case using redis_release_call(1) [OF valid_new] by blast
next
  case (6 s x s')
  from 6(2,3,1) show ?case by (rule redis_release_call(2) [OF valid_new]) simp
next
  case 7
  then show ?case using redis_abort_call(1) [OF valid_new] by blast
next
  case (8 s x s')
  from 8(2,3,1) show ?case by (rule redis_abort_call(3) [OF valid_new]) simp_all
next
  case 9
  then show ?case using redis_abort_call(2) [OF valid_new] by blast
next
  case 10
  then show ?case using redis_track_call(1) [OF valid_new] by blast
next
  case 11
  then show ?case using redis_track_call(2) [OF valid_new] by blast
qed

interpretation rw: queue_service "redis_queue_ops (NewConcurrencyCache minutes secs) i m w d" "quiet_input i m d" "\<lambda>new. new \<noteq> m"
  "queueing (NewConcurrencyCache minutes secs) i m d" "marked (NewConcurrencyCache minutes secs) i m d"
  "closed_out (NewConcurrencyCache minutes secs) i m d"
  for minutes secs i m w d
  by (rule redis_serves_wait)

section \<open>Properties\<close>

text \<open>
  C21: A wait that ends without a slot leaves none in Redis. Let a request that holds no slot wait for one, while others work and
  late copies of its own queue commands arrive. If the wait returns without a slot of the limited key and logs no failed
  clean-up, then its member is not in the set of slots, and no later enter, poll, heartbeat or abort command of its attempt lets
  it wait or gives it a slot: on every path of the loop, with any loss of replies, any change of the key's authorization or limit,
  cancellation, shutdown and expiry of the wait. The queue commands carry the deadline of the attempt. Its fast command, which was
  answered before the wait, does not run again during the wait, and after it only before that deadline; nothing tracks its
  member, and what the wait itself tracks is a new one.
\<close>

theorem redis_wait_leaves_nothing:
  assumes "redis_ok (NewConcurrencyCache minutes secs) t db" "absent (ApiKeySlots i) m db" "limit \<noteq> 0"
    and "list_all (inputs_ok (quiet_input i m d) (\<lambda>new. new \<noteq> m)) rs" "list_all (quiet_input i m d) xs"
    and "waitAPIKeyQueue (redis_queue_ops (NewConcurrencyCache minutes secs) i m w d) reval rs xs i m limit (t, db) = Some (res, [], t1, db1)"
    and "\<not> holds_slot res"
    and "sorted (t1 # map snd es)" "list_all (late_command i m d) es" "run_ops (NewConcurrencyCache minutes secs) es db1 = (h, db2)"
  shows "list_all (\<lambda>e. \<not> attempt_accepted i m e) h \<and> absent (ApiKeySlots i) m db2"
proof -
  have "queueing (NewConcurrencyCache minutes secs) i m d (t, db)" using assms(1,2) by (simp add: queueing_def)
  from rw.wait_leaves_nothing [OF this assms(4,5,3,6,7)]
  have "aborted (NewConcurrencyCache minutes secs) i m d t1 db1" by (simp add: closed_out_def)
  from aborted_run [OF valid_new this assms(8,9,10)] show ?thesis .
qed

definition redis_input_alone :: redis_input where
  "redis_input_alone = \<lparr>ri_before = [], ri_delay = 0, ri_fault = NoFault\<rparr>"

text \<open>A round in which the request is told to wait and then cancelled by its client.\<close>

definition redis_round :: "redis_input wait_round" where
  "redis_round =
     \<lparr>ro_stopped = False, ro_wait = None, ro_limit = Inr 1, ro_switch = [], ro_track = redis_input_alone, ro_fresh = ''new'',
      ro_advance = redis_input_alone, ro_ctx = None, ro_stopped_after = False, ro_wait_acquired = None, ro_limit_after = Inr 1,
      ro_wait_final = None, ro_release = [],
      ro_adopt = \<lparr>ad_ctx = None, ad_stopped = False, ad_safe = True, ad_release = []\<rparr>, ro_sleep = Some ECause\<rparr>"

definition busy_key :: redis where
  "busy_key = snd (run_op (NewConcurrencyCache 0 0) (KeyFast 7 1 ''a'') 1000 empty_redis)"

lemma redis_wait_ran:
  "map_option (\<lambda>(res, log, s). (res, log)) (waitAPIKeyQueue (redis_queue_ops (NewConcurrencyCache 0 0) 7 ''b'' 3 61000) False
     [redis_round] [redis_input_alone] 7 ''b'' 1 (2000, busy_key)) = Some (Refused ECause, [])"
  by code_simp

lemma busy_key_ok: "redis_ok (NewConcurrencyCache 0 0) 2000 busy_key" "absent (ApiKeySlots 7) ''b'' busy_key"
proof -
  have "redis_ok (NewConcurrencyCache 0 0) 1000 busy_key"
    using run_op_leases [where op = "KeyFast 7 1 ''a''" and t = 1000, OF valid_new redis_ok_empty order_refl surjective_pairing]
    unfolding busy_key_def holding_def by blast
  then show "redis_ok (NewConcurrencyCache 0 0) 2000 busy_key" by (rule redis_ok_later) simp
  show "absent (ApiKeySlots 7) ''b'' busy_key" by code_simp
qed

theorem redis_wait_leaves_nothing_witness:
  "\<exists>t1 db1. waitAPIKeyQueue (redis_queue_ops (NewConcurrencyCache 0 0) 7 ''b'' 3 61000) False
     [redis_round] [redis_input_alone] 7 ''b'' 1 (2000, busy_key) = Some (Refused ECause, [], t1, db1) \<and> absent (ApiKeySlots 7) ''b'' db1"
proof -
  obtain t1 db1 where run: "waitAPIKeyQueue (redis_queue_ops (NewConcurrencyCache 0 0) 7 ''b'' 3 61000) False
     [redis_round] [redis_input_alone] 7 ''b'' 1 (2000, busy_key) = Some (Refused ECause, [], t1, db1)"
    using redis_wait_ran by auto
  have "absent (ApiKeySlots 7) ''b'' db1"
    using redis_wait_leaves_nothing [OF busy_key_ok _ _ _ run, of "[]" "[]" db1]
    by (simp add: inputs_ok_def redis_round_def redis_input_alone_def quiet_input_def holds_slot_def)
  with run show ?thesis by blast
qed

end
