(* ===== verification/RegionWait.thy ===== *)
theory RegionWait
  imports KeyWait
begin

text \<open>
  A request that waits for a slot of its key, over the SQL queue of \<^verbatim>\<open>repository/regional_queue.go\<close>. The cache of
  \<^verbatim>\<open>repository/regional_concurrency_cache.go\<close> serves the same interface as the Redis scripts.
\<close>

section \<open>The SQL queue as the queue of an attempt\<close>

text \<open>
  What committed before the call, the state of the runtime, the environment and the clock of the transaction, its fault, and
  whether the statistics in Redis follow a release.
\<close>

record ('e, 'db) sql_input =
  si_before :: "'db queue_db \<Rightarrow> 'db queue_db"
  si_failed :: bool
  si_env :: 'e
  si_now :: int
  si_fault :: db_fault
  si_stats :: bool

definition sql_send ::
  "('e, 'db) sql_input \<Rightarrow> ('db queue_db \<Rightarrow> ('db queue_db, slot_err, 'a) tx) \<Rightarrow> 'db queue_db \<Rightarrow> 'a option \<times> 'db queue_db" where
  "sql_send x body s =
     apfst (\<lambda>r. case r of Inl e \<Rightarrow> None | Inr a \<Rightarrow> Some a) (run_tx (si_fault x) SlotNoRows body (si_before x s))"

definition release_tx :: "('e, 'db) pool \<Rightarrow> int \<Rightarrow> string \<Rightarrow> 'db queue_db \<Rightarrow> ('db queue_db, slot_err, unit) tx" where
  "release_tx P kid request db =
     (case po_release P (api_key kid) request (q_pool db) of
        Inl e \<Rightarrow> Rollback (Inl e) | Inr p \<Rightarrow> Commit (db\<lparr>q_pool := p\<rparr>) (Inr ()))"

definition region_queue_ops ::
  "('e, 'db) pool \<Rightarrow> int \<Rightarrow> string \<Rightarrow> int \<Rightarrow> int \<Rightarrow> (('e, 'db) sql_input, 'db queue_db) queue_ops" where
  "region_queue_ops P kid m maxWaiting d =
     \<lparr>qo_fast = (\<lambda>x limit. sql_send x (AcquireAPIKeySlotWithTime P (si_failed x) (si_env x) (si_now x) kid m)),
      qo_advance = (\<lambda>x mode limit.
        sql_send x (AdvanceAPIKeyQueue P (si_failed x) (si_env x) (si_now x) kid m mode d limit maxWaiting)),
      qo_abort = (\<lambda>x remove s. apfst (\<lambda>r. r \<noteq> None)
        (sql_send x (AbortAPIKeyQueueAttempt P (si_failed x) (si_now x) kid m d remove) s)),
      qo_release = (\<lambda>x s. apfst (\<lambda>r. r \<noteq> None \<and> si_stats x) (sql_send x (release_tx P kid m) s)),
      qo_track = (\<lambda>x i s. si_before x s)\<rparr>"

text \<open>Whatever commits beside the request is an operation of the queue or of the slots, of anybody and for any request.\<close>

definition other_commits :: "('e, 'db) pool \<Rightarrow> ('db \<Rightarrow> 'db \<Rightarrow> bool) \<Rightarrow> ('e, 'db) sql_input \<Rightarrow> bool" where
  "other_commits P stp x \<longleftrightarrow> (\<forall>s. (queue_step P stp)\<^sup>*\<^sup>* s (si_before x s))"

section \<open>The wait over any pool of slots\<close>

context slot_pool
begin

definition pool_sound :: "'db queue_db \<Rightarrow> bool" where "pool_sound s \<longleftrightarrow> inv (q_pool s)"

definition slot_shut :: "int \<Rightarrow> string \<Rightarrow> 'db queue_db \<Rightarrow> bool" where
  "slot_shut kid m s \<longleftrightarrow> inv (q_pool s) \<and> fenced (api_key kid) m (q_pool s)"

lemma queue_steps_keep:
  assumes "(queue_step P step)\<^sup>*\<^sup>* s s'"
  shows "pool_sound s \<Longrightarrow> pool_sound s'" "slot_shut kid m s \<Longrightarrow> slot_shut kid m s'"
  using assms by (induction rule: rtranclp_induct) (auto simp: pool_sound_def slot_shut_def pool_keeps_def dest: queue_step_keeps)

lemma sql_send_cases:
  assumes "other_commits P step x" "sql_send x body s = (a, s')"
  obtains (kept) "(queue_step P step)\<^sup>*\<^sup>* s s'" "\<And>v. a = Some v \<Longrightarrow> body s' = Rollback (Inr v)"
  | (ran) s1 r where "(queue_step P step)\<^sup>*\<^sup>* s s1" "body s1 = Commit s' r" "\<And>v. a = Some v \<Longrightarrow> r = Inr v"
proof -
  let ?s1 = "si_before x s"
  have st: "(queue_step P step)\<^sup>*\<^sup>* s ?s1" using assms(1) by (simp add: other_commits_def)
  obtain r where run: "run_tx (si_fault x) SlotNoRows body ?s1 = (r, s')" and a: "a = (case r of Inl e \<Rightarrow> None | Inr v \<Rightarrow> Some v)"
    using assms(2) by (auto simp: sql_send_def apfst_def map_prod_def split: prod.splits)
  show ?thesis
  proof (cases "body ?s1")
    case (Rollback r')
    then show ?thesis
      using run a st by (intro kept) (auto simp: run_tx_def split: if_splits sum.splits)
  next
    case (Commit s2 r')
    show ?thesis
    proof (cases "s' = s2 \<and> si_fault x \<noteq> StmtFault \<and> si_fault x \<noteq> CommitLost")
      case True
      then show ?thesis using run a st Commit by (intro ran [of ?s1 r']) (auto simp: run_tx_def split: db_fault.splits sum.splits)
    next
      case False
      then have "s' = ?s1" "r = Inl SlotNoRows" using run Commit by (auto simp: run_tx_def split: db_fault.splits if_splits)
      then show ?thesis using st a by (intro kept) simp_all
    qed
  qed
qed

lemma release_tx_shuts: "release_tx P kid m s = Commit s' r \<Longrightarrow> pool_sound s \<Longrightarrow> slot_shut kid m s'"
  using release_step release_fenced step_inv
  by (auto simp: release_tx_def pool_sound_def slot_shut_def split: sum.splits)

lemma advance_sound_call:
  assumes "pool_sound s" "other_commits P step x" "qo_advance (region_queue_ops P kid m w d) x mode limit s = (out, s')"
  shows "pool_sound s'"
proof -
  have run: "sql_send x (AdvanceAPIKeyQueue P (si_failed x) (si_env x) (si_now x) kid m mode d limit w) s = (out, s')"
    using assms(3) by (simp add: region_queue_ops_def)
  have "(queue_step P step)\<^sup>*\<^sup>* s s'"
    using assms(2) run
  proof (cases rule: sql_send_cases)
    case (ran s1 r)
    show ?thesis by (rule rtranclp.rtrancl_into_rtrancl [OF ran(1) queue_step.qs_advance [OF ran(2)]])
  qed
  then show ?thesis by (rule queue_steps_keep(1)) (rule assms(1))
qed

lemma release_call:
  assumes "pool_sound s" "other_commits P step x" "qo_release (region_queue_ops P kid m w d) x s = (done, s')"
  shows "pool_sound s'" "done \<Longrightarrow> slot_shut kid m s'"
proof -
  obtain a where run: "sql_send x (release_tx P kid m) s = (a, s')" and a: "done \<Longrightarrow> a \<noteq> None"
    using assms(3) by (cases "sql_send x (release_tx P kid m) s") (auto simp: region_queue_ops_def)
  from assms(2) run have "pool_sound s' \<and> (done \<longrightarrow> slot_shut kid m s')"
  proof (cases rule: sql_send_cases)
    case kept
    have "release_tx P kid m s' \<noteq> Rollback (Inr v)" for v by (simp add: release_tx_def split: sum.splits)
    then have "\<not> done" using kept(2) a by auto
    then show ?thesis using queue_steps_keep(1) [OF kept(1) assms(1)] by simp
  next
    case (ran s1 r)
    then show ?thesis using release_tx_shuts [OF ran(2) queue_steps_keep(1) [OF ran(1) assms(1)]]
      by (simp add: slot_shut_def pool_sound_def)
  qed
  then show "pool_sound s'" "done \<Longrightarrow> slot_shut kid m s'" by blast+
qed

lemma abort_call:
  assumes "pool_sound s" "other_commits P step x" "qo_abort (region_queue_ops P kid m w d) x remove s = (done, s')"
  shows "pool_sound s'" "slot_shut kid m s \<Longrightarrow> slot_shut kid m s'" "remove \<Longrightarrow> done \<Longrightarrow> slot_shut kid m s'"
proof -
  let ?body = "AbortAPIKeyQueueAttempt P (si_failed x) (si_now x) kid m d remove"
  obtain a where run: "sql_send x ?body s = (a, s')" and a: "done = (a \<noteq> None)"
    using assms(3) by (cases "sql_send x ?body s") (auto simp: region_queue_ops_def)
  have "(queue_step P step)\<^sup>*\<^sup>* s s' \<and> (remove \<longrightarrow> done \<longrightarrow> slot_shut kid m s')"
    using assms(2) run
  proof (cases rule: sql_send_cases)
    case kept
    have "?body s' \<noteq> Rollback (Inr v)" for v
      by (simp add: AbortAPIKeyQueueAttempt_def Let_def split: sum.splits)
    then have "\<not> done" using kept(2) a by auto
    then show ?thesis using kept(1) by simp
  next
    case (ran s1 r)
    have s1: "inv (q_pool s1)" using queue_steps_keep(1) [OF ran(1) assms(1)] by (simp add: pool_sound_def)
    have "slot_shut kid m s'" if "remove"
      using Abort_fences [OF s1, of "si_failed x" "si_now x" kid m d s' r] ran(2) that by (simp add: slot_shut_def)
    then show ?thesis using rtranclp.rtrancl_into_rtrancl [OF ran(1) queue_step.qs_abort [OF ran(2)]] by simp
  qed
  then have st: "(queue_step P step)\<^sup>*\<^sup>* s s'" and sh: "remove \<longrightarrow> done \<longrightarrow> slot_shut kid m s'" by simp_all
  show "pool_sound s'" by (rule queue_steps_keep(1) [OF st assms(1)])
  show "slot_shut kid m s \<Longrightarrow> slot_shut kid m s'" by (rule queue_steps_keep(2) [OF st])
  show "remove \<Longrightarrow> done \<Longrightarrow> slot_shut kid m s'" using sh by simp
qed

lemma region_serves_wait:
  "queue_service (region_queue_ops P kid m w d) (other_commits P step) (\<lambda>i. True) pool_sound pool_sound (slot_shut kid m)"
proof (rule queue_service.intro, goal_cases)
  case 1
  then show ?case by (rule advance_sound_call)
next
  case 2
  then show ?case by (rule advance_sound_call)
next
  case 4
  then show ?case by (simp add: slot_shut_def pool_sound_def)
next
  case 5
  then show ?case by (rule release_call(1))
next
  case 6
  then show ?case by (rule release_call(2)) simp
next
  case 7
  then show ?case by (rule abort_call(1))
next
  case 8
  then show ?case by (rule abort_call(3)) simp_all
next
  case (9 s x remove d s')
  have "pool_sound s" using 9(1) by (simp add: slot_shut_def pool_sound_def)
  then show ?case by (rule abort_call(2) [OF _ 9(2,3,1)])
next
  case (10 s x i)
  have "(queue_step P step)\<^sup>*\<^sup>* s (si_before x s)" using 10(2) by (simp add: other_commits_def)
  from queue_steps_keep(2) [OF this 10(1)] show ?case by (simp add: region_queue_ops_def)
next
  case (11 s x i)
  have "(queue_step P step)\<^sup>*\<^sup>* s (si_before x s)" using 11(2) by (simp add: other_commits_def)
  from queue_steps_keep(1) [OF this 11(1)] show ?case by (simp add: region_queue_ops_def)
qed

end

sublocale slot_pool \<subseteq> wq: queue_service "region_queue_ops P kid m w d" "other_commits P step" "\<lambda>i. True" pool_sound pool_sound "slot_shut kid m"
  for kid m w d
  by (rule region_serves_wait)

section \<open>A changed limit\<close>

text \<open>The limit of a ticket never changes, and a ticket is never deleted.\<close>

definition ticket_limit :: "('e, 'db) pool \<Rightarrow> int \<Rightarrow> string \<Rightarrow> int \<Rightarrow> 'db queue_db \<Rightarrow> bool" where
  "ticket_limit P kid m l s \<longleftrightarrow> (\<exists>t. map_of (q_tickets s) (po_region P, kid, m) = Some t \<and> t_limit t = l)"

lemma ticket_limit_expire:
  "q_tickets s' = expire_tickets region kid' now (q_tickets s) \<Longrightarrow> ticket_limit P kid m l s \<Longrightarrow> ticket_limit P kid m l s'"
  by (cases "map_of (q_tickets s) (po_region P, kid, m)") (auto simp: ticket_limit_def map_of_expire)

lemma ticket_limit_advance:
  assumes "AdvanceAPIKeyQueue P failed e now kid' m' mode d limit w s = Commit s' out" "ticket_limit P kid m l s"
  shows "ticket_limit P kid m l s'"
proof -
  let ?ts = "expire_tickets (po_region P) kid' now (q_tickets s)"
  let ?k = "(po_region P, kid', m')"
  let ?s = "s\<lparr>q_pool := po_lock P (api_key kid') (q_pool s), q_tickets := ?ts\<rparr>"
  let ?s1 = "?s\<lparr>q_tickets := tput ?k \<lparr>t_deadline = d, t_limit = limit, t_state = TWaiting\<rparr> ?ts\<rparr>"
  have q: "queueTx P failed kid' now s = Inr ?s"
    using assms(1) by (auto simp: AdvanceAPIKeyQueue_def queueTx_Inr split: if_splits sum.splits)
  have L: "ticket_limit P kid m l ?s" by (rule ticket_limit_expire [OF _ assms(2)]) simp
  have serve: "ticket_limit P kid m l s'" if "queue_serve P e kid' m' x = Commit s' out" "ticket_limit P kid m l x" for x
    using that by (cases rule: queue_serve_tickets) (auto simp: ticket_limit_def map_of_tput)
  consider "s' = ?s" | "queue_serve P e kid' m' ?s = Commit s' out" | "map_of ?ts ?k = None" "queue_serve P e kid' m' ?s1 = Commit s' out"
    using assms(1) q by (auto simp: AdvanceAPIKeyQueue_def split: if_splits sum.splits option.splits ticket_state.splits)
  then show ?thesis
  proof cases
    case 3
    then have "ticket_limit P kid m l ?s1" using L by (auto simp: ticket_limit_def map_of_tput)
    then show ?thesis by (rule serve [OF 3(2)])
  qed (use L serve in auto)
qed

lemma queue_step_limit: "queue_step P pstep s s' \<Longrightarrow> ticket_limit P kid m l s \<Longrightarrow> ticket_limit P kid m l s'"
proof (induction rule: queue_step.induct)
  case qs_pool
  then show ?case by (simp add: ticket_limit_def)
next
  case qs_direct
  then show ?case using Direct_effect(1) ticket_limit_expire by metis
next
  case qs_advance
  then show ?case using ticket_limit_advance by metis
next
  case (qs_abort failed now kid' request deadline remove db db' u)
  then show ?case
    by (auto simp: AbortAPIKeyQueueAttempt_def queueTx_Inr Let_def ticket_limit_def map_of_expire map_of_tput
        split: if_splits sum.splits option.splits)
next
  case qs_stats
  then show ?case using Stats_effect ticket_limit_expire by metis
qed

lemma advance_stale_limit:
  assumes "ticket_limit P kid m l s" "limit \<noteq> l" "AdvanceAPIKeyQueue P failed e now kid m mode d limit w s = Commit s' out"
  shows "out = Inr QPolicyChanged \<or> out = Inr QAborted"
  using assms
  by (auto simp: ticket_limit_def AdvanceAPIKeyQueue_def queueTx_Inr map_of_expire split: if_splits sum.splits option.splits)

lemma steps_limit: "(queue_step P stp)\<^sup>*\<^sup>* s s' \<Longrightarrow> ticket_limit P kid m l s \<Longrightarrow> ticket_limit P kid m l s'"
  by (induction rule: rtranclp_induct) (auto intro: queue_step_limit)

lemma advance_no_rollback: "AdvanceAPIKeyQueue P failed e now kid m mode d limit w s \<noteq> Rollback (Inr v)"
  by (auto simp: AdvanceAPIKeyQueue_def queue_serve_def split: if_splits sum.splits option.splits ticket_state.splits list.splits)

lemma stale_call:
  assumes "ticket_limit P kid m l s" "limit \<noteq> l" "other_commits P stp x"
    "qo_advance (region_queue_ops P kid m w d) x mode limit s = (out, s')"
  shows "ticket_limit P kid m l s'" "out \<in> {None, Some QPolicyChanged, Some QAborted}"
proof -
  let ?body = "AdvanceAPIKeyQueue P (si_failed x) (si_env x) (si_now x) kid m mode d limit w"
  define s1 where "s1 = si_before x s"
  have L: "ticket_limit P kid m l s1" using steps_limit assms(1,3) unfolding other_commits_def s1_def by blast
  obtain r where run: "run_tx (si_fault x) SlotNoRows ?body s1 = (r, s')" and out: "out = (case r of Inl e \<Rightarrow> None | Inr v \<Rightarrow> Some v)"
    using assms(4) by (auto simp: region_queue_ops_def sql_send_def apfst_def map_prod_def s1_def split: prod.splits)
  have "ticket_limit P kid m l s' \<and> out \<in> {None, Some QPolicyChanged, Some QAborted}"
  proof (cases "?body s1")
    case (Rollback e)
    then have "s' = s1" "out = None"
      using run out advance_no_rollback [of P "si_failed x" "si_env x" "si_now x" kid m mode d limit w s1]
      by (auto simp: run_tx_def split: if_splits sum.splits)
    then show ?thesis using L by simp
  next
    case (Commit s2 r')
    have "ticket_limit P kid m l s2" by (rule ticket_limit_advance [OF Commit L])
    moreover have "r' = Inr QPolicyChanged \<or> r' = Inr QAborted" by (rule advance_stale_limit [OF L assms(2) Commit])
    ultimately show ?thesis using run out Commit L by (auto simp: run_tx_def split: if_splits db_fault.splits)
  qed
  then show "ticket_limit P kid m l s'" "out \<in> {None, Some QPolicyChanged, Some QAborted}" by simp_all
qed

lemma stale_rounds:
  assumes "l1 \<noteq> l" "l1 \<noteq> 0"
  shows "ticket_limit P kid m l s \<Longrightarrow>
    list_all (\<lambda>r. ro_limit r = Inr l1 \<and> ro_limit_after r = Inr l1 \<and> other_commits P stp (ro_advance r)) rs \<Longrightarrow>
    wait_rounds (region_queue_ops P kid m w d) True rs kid m limit mode s = Some (res, remove, log, s') \<Longrightarrow> \<exists>e. res = Refused e"
proof (induction rs arbitrary: limit mode s)
  case (Cons r rs)
  obtain out s1 where a: "qo_advance (region_queue_ops P kid m w d) (ro_advance r) mode l1 s = (out, s1)"
    by (cases "qo_advance (region_queue_ops P kid m w d) (ro_advance r) mode l1 s")
  have call: "ticket_limit P kid m l s1" "out \<in> {None, Some QPolicyChanged, Some QAborted}"
    using stale_call [OF Cons.prems(1) assms(1) _ a, where stp = stp] Cons.prems(2) by auto
  show ?case
    using Cons.prems(2,3) Cons.IH [OF call(1)] call(2) a assms(2)
    by (auto simp: wait_step_def wait_outcome_def Let_def split: if_splits option.splits)
qed simp

section \<open>Properties\<close>

text \<open>
  C22: A wait that ends without a slot leaves none in a region. If the wait of a request returns without a slot of the limited
  key and logs no failed clean-up, then the request holds no slot, and after whatever commits later, late calls of the wait
  itself among it, it still holds none: on every path of the loop, with any loss of replies, any change of the key's
  authorization or limit, cancellation, shutdown and expiry of the wait.
\<close>

theorem region_wait_leaves_nothing:
  assumes "local_inv region (q_pool s)" "limit \<noteq> 0"
    and "list_all (inputs_ok (other_commits (local_ops region) (local_step region)) (\<lambda>i. True)) rs"
    and "list_all (other_commits (local_ops region) (local_step region)) xs"
    and "waitAPIKeyQueue (region_queue_ops (local_ops region) kid m w d) reval rs xs kid m limit s = Some (res, [], s1)"
    and "\<not> holds_slot res" "(queue_step (local_ops region) (local_step region))\<^sup>*\<^sup>* s1 s2"
  shows "\<not> local_Held region (api_key kid) m (q_pool s2)"
proof -
  have "lp.pool_sound region s" using assms(1) by (simp add: lp.pool_sound_def)
  then have "lp.slot_shut region kid m s1" using lp.wq.wait_leaves_nothing [OF _ assms(3,4,2,5,6)] by blast
  then have "lp.slot_shut region kid m s2" by (rule lp.queue_steps_keep(2) [OF assms(7)])
  then show ?thesis using lp.fenced_held by (simp add: lp.slot_shut_def local_ops_def)
qed

text \<open>
  C34: A queued request of a region starves when the limit of its key changes. The ticket keeps the limit it was enqueued with,
  and the queue answers every attempt with another limit that the policy changed; the wait then reads the new limit and tries
  again with it. So however the slots stand and however long it tries, the wait ends without a slot.
\<close>

theorem limit_change_starves:
  assumes "ticket_limit P kid m l s" "l1 \<noteq> l" "l1 \<noteq> 0"
    and "list_all (\<lambda>r. ro_limit r = Inr l1 \<and> ro_limit_after r = Inr l1 \<and> other_commits P stp (ro_advance r)) rs"
    and "waitAPIKeyQueue (region_queue_ops P kid m w d) True rs xs kid m limit s = Some (res, log, s')"
  shows "\<exists>e. res = Refused e"
  using assms(5) stale_rounds [OF assms(2,3,1,4)] by (auto simp: waitAPIKeyQueue_def split: option.splits prod.splits)

definition region_input :: "((string list \<Rightarrow> string list) \<times> (nat \<Rightarrow> gotime), local_db) sql_input" where
  "region_input = \<lparr>si_before = (\<lambda>s. s), si_failed = False, si_env = (\<lambda>xs. xs, \<lambda>_. 0), si_now = 10, si_fault = NoFault, si_stats = True\<rparr>"

text \<open>A round in which the request is told to wait and then cancelled by its client.\<close>

definition cancelled_round :: "'x \<Rightarrow> int \<Rightarrow> 'x wait_round" where
  "cancelled_round x limit =
     \<lparr>ro_stopped = False, ro_wait = None, ro_limit = Inr limit, ro_switch = [], ro_track = x, ro_fresh = ''new'', ro_advance = x,
      ro_ctx = None, ro_stopped_after = False, ro_wait_acquired = None, ro_limit_after = Inr limit, ro_wait_final = None,
      ro_release = [], ro_adopt = \<lparr>ad_ctx = None, ad_stopped = False, ad_safe = True, ad_release = []\<rparr>, ro_sleep = Some ECause\<rparr>"

definition stale_queue :: "local_db queue_db" where
  "stale_queue = \<lparr>q_pool = empty_local, q_tickets = [((''eu'', 5, ''c''), \<lparr>t_deadline = 900, t_limit = 3, t_state = TWaiting\<rparr>)]\<rparr>"

lemma region_input_alone: "other_commits P stp region_input"
  by (simp add: other_commits_def region_input_def)

lemma region_wait_ran:
  "map_option (\<lambda>(res, log, s). (res, log)) (waitAPIKeyQueue (region_queue_ops (local_ops ''eu'') 5 ''c'' 4 900) False
     [cancelled_round region_input 3] [region_input] 5 ''c'' 3 \<lparr>q_pool = empty_local, q_tickets = []\<rparr>) = Some (Refused ECause, [])"
  by code_simp

theorem region_wait_leaves_nothing_witness:
  "\<exists>s1. waitAPIKeyQueue (region_queue_ops (local_ops ''eu'') 5 ''c'' 4 900) False
     [cancelled_round region_input 3] [region_input] 5 ''c'' 3 \<lparr>q_pool = empty_local, q_tickets = []\<rparr> = Some (Refused ECause, [], s1) \<and>
     \<not> local_Held ''eu'' (api_key 5) ''c'' (q_pool s1)"
proof -
  obtain s1 where run: "waitAPIKeyQueue (region_queue_ops (local_ops ''eu'') 5 ''c'' 4 900) False
     [cancelled_round region_input 3] [region_input] 5 ''c'' 3 \<lparr>q_pool = empty_local, q_tickets = []\<rparr> = Some (Refused ECause, [], s1)"
    using region_wait_ran by auto
  have "\<not> local_Held ''eu'' (api_key 5) ''c'' (q_pool s1)"
    by (rule region_wait_leaves_nothing [OF _ _ _ _ run _ rtranclp.rtrancl_refl])
      (simp_all add: local_inv_empty inputs_ok_def cancelled_round_def region_input_alone holds_slot_def)
  with run show ?thesis by blast
qed

lemma stale_wait_ran:
  "map_option (\<lambda>(res, log, s). (res, log)) (waitAPIKeyQueue (region_queue_ops (local_ops ''eu'') 5 ''c'' 4 900) True
     [(cancelled_round region_input 4)\<lparr>ro_sleep := None\<rparr>, cancelled_round region_input 4] [region_input] 5 ''c'' 3 stale_queue) =
   Some (Refused ECause, [])"
  by code_simp

theorem limit_change_starves_witness:
  "\<exists>e s1. waitAPIKeyQueue (region_queue_ops (local_ops ''eu'') 5 ''c'' 4 900) True
     [(cancelled_round region_input 4)\<lparr>ro_sleep := None\<rparr>, cancelled_round region_input 4] [region_input] 5 ''c'' 3 stale_queue =
       Some (Refused e, [], s1)"
proof -
  obtain s1 where run: "waitAPIKeyQueue (region_queue_ops (local_ops ''eu'') 5 ''c'' 4 900) True
     [(cancelled_round region_input 4)\<lparr>ro_sleep := None\<rparr>, cancelled_round region_input 4] [region_input] 5 ''c'' 3 stale_queue =
       Some (Refused ECause, [], s1)"
    using stale_wait_ran by auto
  have "ticket_limit (local_ops ''eu'') 5 ''c'' 3 stale_queue" by (simp add: ticket_limit_def stale_queue_def local_ops_def)
  from limit_change_starves [OF this _ _ _ run, where stp = "local_step ''eu''"]
  have "\<exists>e. Refused ECause = Refused e" by (simp add: cancelled_round_def region_input_alone)
  then show ?thesis using run by blast
qed

end
