(* ===== verification/Money.thy ===== *)
theory Money
  imports Contracts
begin

text \<open>
  \<^verbatim>\<open>backend/internal/regional/ledger/amount.go\<close> and the pricing contract of
  \<^verbatim>\<open>pricing.go\<close>: exact decimal conversion of nano dollars, the charge of a measured usage and
  the conservative maximum reserved before dispatch. The code computes the charge with
  \<open>math/big\<close>, hence unbounded integers here, and rejects a result outside \<open>int64\<close>.
\<close>

definition USD :: "Amount \<Rightarrow> string + string" where
  "USD a =
     (if a < 0 \<or> go_mod a 10 \<noteq> 0
      then Inl ''amount must be nonnegative and a multiple of ten nano USD''
      else Inr (FormatInt (go_div a 1000000000) @ ''.'' @
                pad0 8 (FormatInt (go_div (go_mod a 1000000000) 10))))"

definition ParseUSD :: "string \<Rightarrow> string + Amount" where
  "ParseUSD s =
     (if s = [] then Inl ''empty USD amount''
      else
        let parts = split_at (CHR ''.'') s in
        if length parts > 2 \<or> hd parts = [] then Inl ''invalid USD amount''
        else
          let whole = hd parts; fraction = (if length parts = 2 then parts ! 1 else []) in
          if length parts = 2 \<and> fraction = [] then Inl ''missing USD fraction''
          else if length fraction > 8 then Inl ''USD precision exceeds primary monetary scale''
          else
            let value = whole @ fraction @ replicate (9 - length fraction) (CHR ''0'') in
            if \<not> list_all is_digit value then Inl ''invalid USD amount''
            else case ParseDigits value of
                   None \<Rightarrow> Inl ''USD amount outside regional range''
                 | Some a \<Rightarrow> Inr a)"

record Price =
  p_Model :: string
  p_Input :: int
  p_Output :: int
  p_CacheCreation :: int
  p_CacheRead :: int
  p_MaxInput :: int
  p_MaxOutput :: int

definition Price_Validate :: "Price \<Rightarrow> string + unit" where
  "Price_Validate p =
     (if p_Model p = [] \<or> p_Input p < 0 \<or> p_Output p < 0 \<or> p_CacheCreation p < 0 \<or> p_CacheRead p < 0 \<or>
         p_MaxInput p \<le> 0 \<or> p_MaxOutput p \<le> 0 \<or> p_MaxInput p > 2147483647 \<or> p_MaxOutput p > 2147483647
      then Inl ''invalid bounded text pricing contract''
      else Inr ())"

definition Charge_sum :: "Price \<Rightarrow> int \<Rightarrow> int \<Rightarrow> int \<Rightarrow> int \<Rightarrow> int" where
  "Charge_sum p input output creation cread =
     (\<Sum>(q, rate) \<leftarrow> [(input, p_Input p), (output, p_Output p), (creation, p_CacheCreation p),
        (cread, p_CacheRead p)]. q * rate)"

definition Charge :: "Price \<Rightarrow> int \<Rightarrow> int \<Rightarrow> int \<Rightarrow> int \<Rightarrow> string + Amount" where
  "Charge p input output creation cread =
     (case Price_Validate p of Inl e \<Rightarrow> Inl e | Inr _ \<Rightarrow>
      if input < 0 \<or> output < 0 \<or> creation < 0 \<or> cread < 0 \<or> input > p_MaxInput p \<or>
         creation > p_MaxInput p - input \<or> cread > p_MaxInput p - input - creation \<or> output > p_MaxOutput p
      then Inl ''usage exceeds pricing contract bounds''
      else
        (let amount = go_div (Charge_sum p input output creation cread + 9999999) 10000000 * 10
         in if \<not> is_int64 amount then Inl ''price exceeds ledger amount range'' else Inr amount))"

definition Maximum :: "Price \<Rightarrow> int \<Rightarrow> string + Amount" where
  "Maximum p output =
     (if output \<le> 0 \<or> output > p_MaxOutput p then Inl ''explicit bounded output limit required''
      else Charge (p\<lparr>p_Input := max (p_Input p) (max (p_CacheCreation p) (p_CacheRead p))\<rparr>)
             (p_MaxInput p) output 0 0)"

section \<open>Decimal conversion\<close>

lemma USD_text:
  assumes "USD a = Inr s"
  shows "0 \<le> a \<and> a mod 10 = 0 \<and>
    s = dec (nat (a div 1000000000)) @ CHR ''.'' # pad0 8 (dec (nat (a mod 1000000000 div 10)))"
proof -
  have a: "0 \<le> a" "go_mod a 10 = 0" using assms by (auto simp: USD_def split: if_splits)
  then have "a mod 10 = 0" by (simp add: go_mod_nonneg)
  then show ?thesis
    using assms a by (auto simp: USD_def go_mod_nonneg go_div_nonneg FormatInt_def split: if_splits)
qed

lemma dot_not_digit: "list_all is_digit s \<Longrightarrow> CHR ''.'' \<notin> set s"
  by (auto simp: list_all_iff is_digit_def)

text \<open>The text \<open>USD\<close> prints splits at its point into the whole dollars and eight fraction digits.\<close>

lemma ParseUSD_two_parts:
  assumes "list_all is_digit w" "w \<noteq> []" "list_all is_digit f" "length f = 8"
  shows "ParseUSD (w @ CHR ''.'' # f) =
    (case ParseDigits (w @ f @ ''0'') of
       None \<Rightarrow> Inl ''USD amount outside regional range'' | Some a \<Rightarrow> Inr a)"
proof -
  have "split_at (CHR ''.'') (w @ CHR ''.'' # f) = [w, f]"
    using assms by (intro split_at_two dot_not_digit)
  moreover have "f \<noteq> []" using assms(4) by auto
  ultimately show ?thesis
    using assms by (simp add: ParseUSD_def Let_def is_digit_def)
qed

text \<open>
  C39: printing an amount as dollars and parsing the text gives the amount back, for every amount the
  ledger can hold.
\<close>

theorem ParseUSD_USD:
  assumes "USD a = Inr s" "a \<le> MaxInt64"
  shows "ParseUSD s = Inr a"
proof -
  let ?w = "nat (a div 1000000000)" and ?f = "nat (a mod 1000000000 div 10)"
  have a: "0 \<le> a" "a mod 10 = 0" and s: "s = dec ?w @ CHR ''.'' # pad0 8 (dec ?f)"
    using USD_text [OF assms(1)] by auto
  have len: "length (pad0 8 (dec ?f)) = 8"
    by (intro length_pad0 length_dec_le) auto
  have "undec 0 (dec ?w @ pad0 8 (dec ?f) @ ''0'') = ?w * 10 ^ 9 + ?f * 10"
    using undec_add [of ?w "pad0 8 (dec ?f)"] len by (simp add: undec_append)
  moreover have "int (?w * 10 ^ 9 + ?f * 10) = a"
  proof -
    have "a mod 1000000000 mod 10 = 0" using a(2) by (simp add: mod_mod_cancel)
    then have "a mod 1000000000 div 10 * 10 = a mod 1000000000"
      using div_mult_mod_eq [of "a mod 1000000000" 10] by simp
    then show ?thesis
      using a(1) div_mult_mod_eq [of a 1000000000] by (simp add: pos_imp_zdiv_nonneg_iff)
  qed
  ultimately have "int (undec 0 (dec ?w @ pad0 8 (dec ?f) @ ''0'')) = a" by (simp only:)
  moreover have "list_all is_digit (dec ?w @ pad0 8 (dec ?f) @ ''0'')"
    by (simp add: digits_dec digits_pad0 is_digit_def)
  ultimately have "ParseDigits (dec ?w @ pad0 8 (dec ?f) @ ''0'') = Some a"
    using assms(2) by (simp only: ParseDigits_def) simp
  moreover have "ParseUSD (dec ?w @ CHR ''.'' # pad0 8 (dec ?f)) =
    (case ParseDigits (dec ?w @ pad0 8 (dec ?f) @ ''0'') of
       None \<Rightarrow> Inl ''USD amount outside regional range'' | Some a \<Rightarrow> Inr a)"
    by (rule ParseUSD_two_parts [OF digits_dec dec_not_Nil digits_pad0 [OF digits_dec] len])
  ultimately show ?thesis unfolding s by (simp only: option.case)
qed

theorem ParseUSD_USD_witness: "USD 1230000450 = Inr ''1.23000045'' \<and> ParseUSD ''1.23000045'' = Inr 1230000450"
proof -
  have u: "USD 1230000450 = Inr ''1.23000045''"
    by (simp add: USD_def go_mod_def go_div_def FormatInt_def dec.simps digit_char_def pad0_def)
      code_simp
  show ?thesis using u ParseUSD_USD [OF u] by (simp add: MaxInt64_def)
qed

text \<open>
  whatever text the parser accepts, the amount it returns is one the ledger can print: in range,
  non-negative and a multiple of the eight-decimal quantum.
\<close>

theorem ParseUSD_printable:
  assumes "ParseUSD s = Inr a"
  shows "0 \<le> a \<and> a \<le> MaxInt64 \<and> a mod 10 = 0 \<and> (\<exists>t. USD a = Inr t)"
proof -
  let ?parts = "split_at (CHR ''.'') s"
  define whole where "whole = hd ?parts"
  define fraction where "fraction = (if length ?parts = 2 then ?parts ! 1 else [])"
  have len: "length fraction \<le> 8" and
    parsed: "ParseDigits (whole @ fraction @ replicate (9 - length fraction) (CHR ''0'')) = Some a"
    using assms by (auto simp: ParseUSD_def Let_def whole_def fraction_def split: if_splits option.splits)
  obtain k where k: "9 - length fraction = Suc k" using len by (cases "9 - length fraction") auto
  have a: "a = int (undec 0 (whole @ fraction @ replicate k (CHR ''0'') @ ''0''))" "a \<le> MaxInt64"
    using parsed unfolding k replicate_Suc replicate_append_same [symmetric]
    by (auto simp: ParseDigits_def split: if_splits)
  then have "a = int (undec 0 (whole @ fraction @ replicate k (CHR ''0''))) * 10"
    by (simp add: undec_append)
  then show ?thesis using a by (simp add: USD_def go_mod_nonneg)
qed

theorem ParseUSD_printable_witness: "ParseUSD ''0.5'' = Inr 500000000 \<and> (\<exists>t. USD 500000000 = Inr t)"
proof -
  have p: "ParseUSD ''0.5'' = Inr 500000000"
  proof -
    have "replicate 8 (CHR ''0'') = ''00000000''" by code_simp
    then show ?thesis
      by (simp add: ParseUSD_def ParseDigits_def is_digit_def digit_value_def MaxInt64_def)
  qed
  show ?thesis using p ParseUSD_printable [OF p] by blast
qed

section \<open>Charges\<close>

lemmas Charge_sum_unfold = Charge_sum_def

lemma Charge_sum_eq:
  "Charge_sum p i out c r = i * p_Input p + out * p_Output p + c * p_CacheCreation p + r * p_CacheRead p"
  by (simp add: Charge_sum_def)

lemma Charge_inv:
  assumes "Charge p i out c r = Inr a"
  shows "Price_Validate p = Inr () \<and> 0 \<le> i \<and> 0 \<le> out \<and> 0 \<le> c \<and> 0 \<le> r \<and> i + c + r \<le> p_MaxInput p \<and>
    out \<le> p_MaxOutput p \<and> 0 \<le> Charge_sum p i out c r \<and> is_int64 a \<and>
    a = (Charge_sum p i out c r + 9999999) div 10000000 * 10"
proof -
  have v: "Price_Validate p = Inr ()" and b: "0 \<le> i" "0 \<le> out" "0 \<le> c" "0 \<le> r" "i + c + r \<le> p_MaxInput p" "out \<le> p_MaxOutput p"
    and a: "is_int64 a" "a = go_div (Charge_sum p i out c r + 9999999) 10000000 * 10"
    using assms by (auto simp: Charge_def Let_def split: if_splits sum.splits)
  have "0 \<le> Charge_sum p i out c r"
    using v b by (auto simp: Charge_sum_eq Price_Validate_def split: if_splits)
  with v b a show ?thesis by (simp add: go_div_nonneg)
qed

lemma Charge_intro:
  assumes "Price_Validate p = Inr ()" "0 \<le> i" "0 \<le> out" "0 \<le> c" "0 \<le> r" "i + c + r \<le> p_MaxInput p"
    "out \<le> p_MaxOutput p" "(Charge_sum p i out c r + 9999999) div 10000000 * 10 \<le> MaxInt64"
  shows "Charge p i out c r = Inr ((Charge_sum p i out c r + 9999999) div 10000000 * 10)"
proof -
  have "0 \<le> Charge_sum p i out c r"
    using assms by (auto simp: Charge_sum_eq Price_Validate_def split: if_splits)
  then have "0 \<le> (Charge_sum p i out c r + 9999999) div 10000000 * 10" by simp
  moreover have "go_div (Charge_sum p i out c r + 9999999) 10000000 = (Charge_sum p i out c r + 9999999) div 10000000"
    using \<open>0 \<le> Charge_sum p i out c r\<close> by (intro go_div_nonneg) auto
  ultimately show ?thesis
    using assms by (simp add: Charge_def Let_def is_int64_def MinInt64_def)
qed

text \<open>The reserved ceiling bounds the exact total of every usage within the contract.\<close>

lemma Charge_sum_le_ceiling:
  assumes "Price_Validate p = Inr ()" "0 \<le> i" "0 \<le> out" "0 \<le> c" "0 \<le> r" "i + c + r \<le> p_MaxInput p" "out \<le> cap"
  shows "Charge_sum p i out c r \<le>
    Charge_sum (p\<lparr>p_Input := max (p_Input p) (max (p_CacheCreation p) (p_CacheRead p))\<rparr>) (p_MaxInput p) cap 0 0"
proof -
  let ?top = "max (p_Input p) (max (p_CacheCreation p) (p_CacheRead p))"
  have nn: "0 \<le> p_Input p" "0 \<le> p_CacheCreation p" "0 \<le> p_CacheRead p" "0 \<le> p_Output p"
    using assms(1) by (auto simp: Price_Validate_def split: if_splits)
  have "i * p_Input p + c * p_CacheCreation p + r * p_CacheRead p \<le> i * ?top + c * ?top + r * ?top"
    using assms(2,4,5) by (intro add_mono mult_left_mono) auto
  also have "\<dots> = (i + c + r) * ?top" by (simp add: algebra_simps)
  also have "\<dots> \<le> p_MaxInput p * ?top" using assms(6) nn by (intro mult_right_mono) auto
  finally have "i * p_Input p + c * p_CacheCreation p + r * p_CacheRead p \<le> p_MaxInput p * ?top" .
  moreover have "out * p_Output p \<le> cap * p_Output p" using assms(7) nn by (intro mult_right_mono) auto
  ultimately show ?thesis by (simp add: Charge_sum_eq)
qed

text \<open>
  C38: once a maximum has been computed for an output limit, every measured usage that respects the
  contract and that limit can be charged, and its charge never exceeds the maximum.
\<close>

theorem Charge_le_Maximum:
  assumes "Price_Validate p = Inr ()" "Maximum p cap = Inr m"
    "0 \<le> i" "0 \<le> out" "0 \<le> c" "0 \<le> r" "i + c + r \<le> p_MaxInput p" "out \<le> cap"
  shows "\<exists>a. Charge p i out c r = Inr a \<and> 0 \<le> a \<and> a \<le> m"
proof -
  let ?p' = "p\<lparr>p_Input := max (p_Input p) (max (p_CacheCreation p) (p_CacheRead p))\<rparr>"
  let ?S = "Charge_sum p i out c r" and ?M = "Charge_sum ?p' (p_MaxInput p) cap 0 0"
  have cap: "cap \<le> p_MaxOutput p" and ch: "Charge ?p' (p_MaxInput p) cap 0 0 = Inr m"
    using assms(2) by (auto simp: Maximum_def split: if_splits)
  have m: "m = (?M + 9999999) div 10000000 * 10" "m \<le> MaxInt64"
    using Charge_inv [OF ch] by (auto simp: is_int64_def)
  have "?S \<le> ?M" by (rule Charge_sum_le_ceiling) (use assms in auto)
  then have le: "(?S + 9999999) div 10000000 * 10 \<le> m"
    unfolding m(1) by (intro mult_right_mono zdiv_mono1) auto
  have eq: "Charge p i out c r = Inr ((?S + 9999999) div 10000000 * 10)"
    by (rule Charge_intro) (use assms cap le m(2) in auto)
  have "0 \<le> (?S + 9999999) div 10000000 * 10"
    using Charge_inv [OF eq] by (auto simp: pos_imp_zdiv_nonneg_iff)
  with eq le show ?thesis by blast
qed

definition sample_price :: Price where
  "sample_price = \<lparr>p_Model = ''m'', p_Input = 3000000000, p_Output = 15000000000, p_CacheCreation = 3750000000,
     p_CacheRead = 300000000, p_MaxInput = 1000, p_MaxOutput = 500\<rparr>"

theorem Charge_le_Maximum_witness:
  "Maximum sample_price 100 = Inr 5250000 \<and> (\<exists>a. Charge sample_price 10 20 30 40 = Inr a \<and> 0 \<le> a \<and> a \<le> 5250000)"
proof -
  have v: "Price_Validate sample_price = Inr ()" by (simp add: Price_Validate_def sample_price_def)
  have m: "Maximum sample_price 100 = Inr 5250000"
    by (simp add: Maximum_def Charge_def Price_Validate_def sample_price_def Charge_sum_def go_div_def
        is_int64_def MaxInt64_def MinInt64_def)
  show ?thesis
    using m Charge_le_Maximum [OF v m, of 10 20 30 40] by (simp add: sample_price_def)
qed

text \<open>
  a charge is rounded up exactly once, to the smallest multiple of ten nano dollars that covers
  the metered total (rates are nano dollars per million tokens).
\<close>

theorem Charge_least_quantum:
  assumes "Charge p i out c r = Inr a"
  shows "a mod 10 = 0 \<and> Charge_sum p i out c r \<le> a * 1000000 \<and>
    (\<forall>b. b mod 10 = 0 \<and> Charge_sum p i out c r \<le> b * 1000000 \<longrightarrow> a \<le> b)"
proof -
  let ?S = "Charge_sum p i out c r"
  have a: "a = (?S + 9999999) div 10000000 * 10" using Charge_inv [OF assms] by blast
  have "a \<le> b" if b: "b mod 10 = 0" "?S \<le> b * 1000000" for b
  proof -
    define k where "k = b div 10"
    have k: "b = 10 * k" using b(1) div_mult_mod_eq [of b 10] by (simp add: k_def)
    have "(?S + 9999999) div 10000000 \<le> (9999999 + k * 10000000) div 10000000"
      using b(2) by (intro zdiv_mono1) (auto simp: k)
    also have "\<dots> = k" by simp
    finally show ?thesis by (simp add: a k)
  qed
  moreover have "?S \<le> a * 1000000"
    using div_mult_mod_eq [of "?S + 9999999" 10000000] pos_mod_bound [of 10000000 "?S + 9999999"]
    by (simp add: a)
  ultimately show ?thesis using a by (simp add: mod_mult_self2_is_0)
qed

theorem Charge_least_quantum_witness:
  "Charge sample_price 1 1 0 0 = Inr 18000 \<and> (18000::int) mod 10 = 0"
proof -
  have c: "Charge sample_price 1 1 0 0 = Inr 18000"
    by (simp add: Charge_def Price_Validate_def sample_price_def Charge_sum_def go_div_def
        is_int64_def MaxInt64_def MinInt64_def)
  show ?thesis using c Charge_least_quantum [OF c] by blast
qed

end
