(* ===== verification/Ledger.thy ===== *)
theory Ledger
  imports Money "HOL-Library.Char_ord"
begin

text \<open>
  \<^verbatim>\<open>backend/internal/regional/ledger/events.go\<close> and \<^verbatim>\<open>local.go\<close>: the ledger of a region. Its
  tables (\<^verbatim>\<open>migrations/279\<close>) are the record \<open>ledger_db\<close>: the leases with their granted, spent
  and reserved amounts, the requests with their state, and the outbox of usage events. A JSON column holds
  the value it encodes, and \<open>sameJSON\<close> on two encodings is equality of the values (all times in UTC).
  Every operation locks the lease row it works on, so an operation is one atomic step; \<open>now\<close> is the
  database clock.
\<close>

record Reservation =
  rq_RequestID :: string
  rq_LeaseID :: string
  rq_RegionID :: string
  rq_UserID :: int
  rq_APIKeyID :: int
  rq_AccountID :: int
  rq_AdmittedAt :: gotime
  rq_Maximum :: Amount
  rq_PayloadSHA256 :: string
  rq_PricingVersion :: string
  rq_Model :: string

record Event =
  ev_Usage :: UsageEvent
  ev_Model :: string
  ev_PricingVersion :: string
  ev_PayloadSHA256 :: string
  ev_InputTokens :: int
  ev_OutputTokens :: int
  ev_CacheCreationTokens :: int
  ev_CacheReadTokens :: int

datatype ledger_err =
  LExpiredUnissued | LConflict | LExhausted | LAlreadyDispatched | LMsg string | LNoRows | LDB | LCtx

abbreviation as_ledger_err :: "string + 'a \<Rightarrow> ledger_err + 'a" where
  "as_ledger_err r \<equiv> (case r of Inl m \<Rightarrow> Inl (LMsg m) | Inr x \<Rightarrow> Inr x)"

definition validDigest :: "string \<Rightarrow> bool" where
  "validDigest s \<longleftrightarrow> length s = 64 \<and>
     list_all (\<lambda>c. \<not> ((c < CHR ''0'' \<or> c > CHR ''9'') \<and> (c < CHR ''a'' \<or> c > CHR ''f''))) s"

definition Reservation_Validate :: "Reservation \<Rightarrow> Lease \<Rightarrow> ledger_err + unit" where
  "Reservation_Validate r l =
     (let e = \<lparr>u_SchemaVersion = SchemaVersion, u_EventID = rq_RequestID r, u_LeaseID = rq_LeaseID r,
               u_RegionID = rq_RegionID r, u_UserID = rq_UserID r, u_APIKeyID = rq_APIKeyID r,
               u_AccountID = rq_AccountID r, u_AdmittedAt = rq_AdmittedAt r, u_CompletedAt = rq_AdmittedAt r,
               u_Charge = rq_Maximum r\<rparr> in
      case ValidateAgainst e l of Inl m \<Rightarrow> Inl (LMsg m) | Inr _ \<Rightarrow>
      if rq_Maximum r \<le> 0 \<or> rq_Model r = '''' \<or> rq_PricingVersion r = '''' \<or> \<not> validDigest (rq_PayloadSHA256 r)
      then Inl (LMsg ''reservation requires bounded price and payload identity'')
      else case USD (rq_Maximum r) of Inl m \<Rightarrow> Inl (LMsg m) | Inr _ \<Rightarrow> Inr ())"

definition Event_Validate :: "Event \<Rightarrow> Lease \<Rightarrow> ledger_err + unit" where
  "Event_Validate e l =
     (case ValidateAgainst (ev_Usage e) l of Inl m \<Rightarrow> Inl (LMsg m) | Inr _ \<Rightarrow>
      if ev_Model e = '''' \<or> ev_PricingVersion e = '''' \<or> \<not> validDigest (ev_PayloadSHA256 e) \<or>
         ev_InputTokens e < 0 \<or> ev_OutputTokens e < 0 \<or> ev_CacheCreationTokens e < 0 \<or> ev_CacheReadTokens e < 0
      then Inl (LMsg ''invalid regional usage evidence'')
      else case USD (u_Charge (ev_Usage e)) of Inl m \<Rightarrow> Inl (LMsg m) | Inr _ \<Rightarrow> Inr ())"

section \<open>Tables\<close>

datatype lease_state = LOpen | LDraining | LClosed
datatype request_state = RReserved | RStarted | RCompleted | RCanceled

record lease_row =
  lr_lease :: Lease
  lr_region :: string
  lr_user :: int
  lr_granted :: int
  lr_spent :: int
  lr_reserved :: int
  lr_state :: lease_state

record request_row =
  rr_lease_id :: string
  rr_request :: Reservation
  rr_maximum :: int
  rr_state :: request_state

record ledger_db =
  ll_leases :: "(string, lease_row) table"
  ll_requests :: "(string, request_row) table"
  ll_outbox :: "(string, Event \<times> bool) table"

definition empty_ledger :: ledger_db where
  "empty_ledger = \<lparr>ll_leases = [], ll_requests = [], ll_outbox = []\<rparr>"

text \<open>The \<open>CHECK\<close> constraints of \<open>regional_local_leases\<close>.\<close>

definition check_lease_row :: "lease_row \<Rightarrow> bool" where
  "check_lease_row row \<longleftrightarrow> lr_granted row > 0 \<and> lr_granted row mod 10 = 0 \<and> lr_spent row \<ge> 0 \<and> lr_spent row mod 10 = 0 \<and>
     lr_reserved row \<ge> 0 \<and> lr_reserved row mod 10 = 0 \<and> lr_spent row \<le> lr_granted row \<and>
     lr_reserved row \<le> lr_granted row - lr_spent row"

text \<open>An \<open>UPDATE\<close> of one lease row, with its constraints.\<close>

definition update_lease :: "string \<Rightarrow> (lease_row \<Rightarrow> lease_row) \<Rightarrow> ledger_db \<Rightarrow> ledger_err + ledger_db" where
  "update_lease lid f db =
     (case map_of (ll_leases db) lid of None \<Rightarrow> Inr db | Some row \<Rightarrow>
      if check_lease_row (f row) then Inr (db\<lparr>ll_leases := tput lid (f row) (ll_leases db)\<rparr>) else Inl LDB)"

definition set_request :: "string \<Rightarrow> request_state \<Rightarrow> ledger_db \<Rightarrow> ledger_db" where
  "set_request rid st db =
     (case map_of (ll_requests db) rid of None \<Rightarrow> db
      | Some row \<Rightarrow> db\<lparr>ll_requests := tput rid (row\<lparr>rr_state := st\<rparr>) (ll_requests db)\<rparr>)"

section \<open>Operations\<close>

definition ledger_Install :: "string \<Rightarrow> Lease \<Rightarrow> ledger_db \<Rightarrow> (ledger_db, ledger_err, unit) tx" where
  "ledger_Install region l db =
     (case Lease_Validate l of Inl m \<Rightarrow> Rollback (Inl (LMsg m)) | Inr _ \<Rightarrow>
      if l_RegionID l \<noteq> region then Rollback (Inl LConflict)
      else case USD (l_Granted l) of Inl m \<Rightarrow> Rollback (Inl (LMsg m)) | Inr _ \<Rightarrow>
      let row = \<lparr>lr_lease = l, lr_region = l_RegionID l, lr_user = l_UserID l, lr_granted = l_Granted l,
                 lr_spent = 0, lr_reserved = 0, lr_state = LOpen\<rparr>;
          db' = db\<lparr>ll_leases := tnew (l_LeaseID l) row (ll_leases db)\<rparr>
      in case map_of (ll_leases db') (l_LeaseID l) of
           None \<Rightarrow> Commit db' (Inl LNoRows)
         | Some old \<Rightarrow> if lr_lease old \<noteq> l then Commit db' (Inl LConflict) else Commit db' (Inr ()))"

definition localLease :: "string \<Rightarrow> string \<Rightarrow> ledger_db \<Rightarrow> ledger_err + (Lease \<times> lease_state)" where
  "localLease lid region db =
     (case map_of (ll_leases db) lid of
        None \<Rightarrow> Inl LExhausted
      | Some row \<Rightarrow>
          if lr_region row \<noteq> region then Inl LExhausted
          else case Lease_Validate (lr_lease row) of Inl m \<Rightarrow> Inl (LMsg m)
               | Inr _ \<Rightarrow> Inr (lr_lease row, lr_state row))"

definition ledger_Reserve ::
    "string \<Rightarrow> gotime \<Rightarrow> Reservation \<Rightarrow> ledger_db \<Rightarrow> (ledger_db, ledger_err, bool) tx" where
  "ledger_Reserve region now r db =
     (case localLease (rq_LeaseID r) region db of Inl e \<Rightarrow> Rollback (Inl e) | Inr (lease, state) \<Rightarrow>
      case Reservation_Validate r lease of Inl e \<Rightarrow> Rollback (Inl e) | Inr _ \<Rightarrow>
      case map_of (ll_requests db) (rq_RequestID r) of
        Some old \<Rightarrow> if rr_request old \<noteq> r then Rollback (Inl LConflict) else Rollback (Inr False)
      | None \<Rightarrow>
      if state \<noteq> LOpen \<or> rq_RegionID r \<noteq> region \<or> Before now (l_IssuedAt lease) \<or> \<not> Before now (l_ExpiresAt lease) \<or>
         After (rq_AdmittedAt r) now \<or> Sub now (rq_AdmittedAt r) > 5 * Second
      then Rollback (Inl LExhausted)
      else case map_of (ll_leases db) (rq_LeaseID r) of None \<Rightarrow> Rollback (Inl LExhausted) | Some row \<Rightarrow>
      if \<not> (lr_granted row - lr_spent row - lr_reserved row \<ge> rq_Maximum r) then Rollback (Inl LExhausted)
      else case update_lease (rq_LeaseID r) (\<lambda>row. row\<lparr>lr_reserved := lr_reserved row + rq_Maximum r\<rparr>) db of
        Inl e \<Rightarrow> Rollback (Inl e)
      | Inr db' \<Rightarrow> Commit (db'\<lparr>ll_requests := tput (rq_RequestID r)
            \<lparr>rr_lease_id = rq_LeaseID r, rr_request = r, rr_maximum = rq_Maximum r, rr_state = RReserved\<rparr>
            (ll_requests db')\<rparr>) (Inr True))"

definition ledger_Start :: "string \<Rightarrow> gotime \<Rightarrow> string \<Rightarrow> ledger_db \<Rightarrow> (ledger_db, ledger_err, unit) tx" where
  "ledger_Start region now rid db =
     (case map_of (ll_requests db) rid of None \<Rightarrow> Rollback (Inl LNoRows) | Some row \<Rightarrow>
      case localLease (rr_lease_id row) region db of Inl e \<Rightarrow> Rollback (Inl e) | Inr (lease, state) \<Rightarrow>
      if state \<noteq> LOpen \<or> Before now (l_IssuedAt lease) \<or> \<not> Before now (l_ExpiresAt lease)
      then Rollback (Inl LExhausted)
      else if rr_state row \<noteq> RReserved then Rollback (Inl LAlreadyDispatched)
      else Commit (set_request rid RStarted db) (Inr ()))"

definition ledger_finish ::
    "string \<Rightarrow> string \<Rightarrow> Event option \<Rightarrow> ledger_db \<Rightarrow> (ledger_db, ledger_err, unit) tx" where
  "ledger_finish region rid event db =
     (case map_of (ll_requests db) rid of None \<Rightarrow> Rollback (Inl LNoRows) | Some row \<Rightarrow>
      case localLease (rr_lease_id row) region db of Inl e \<Rightarrow> Rollback (Inl e) | Inr (lease, _) \<Rightarrow>
      let r = rr_request row in
      case event of
        None \<Rightarrow>
          if rr_state row = RCanceled then Rollback (Inr ())
          else if rr_state row \<noteq> RReserved then Rollback (Inl LAlreadyDispatched)
          else (case update_lease (rr_lease_id row) (\<lambda>l. l\<lparr>lr_reserved := lr_reserved l - rr_maximum row\<rparr>)
                       (set_request rid RCanceled db) of
                  Inl e \<Rightarrow> Rollback (Inl e) | Inr db' \<Rightarrow> Commit db' (Inr ()))
      | Some e \<Rightarrow>
          case Event_Validate e lease of Inl err \<Rightarrow> Rollback (Inl err) | Inr _ \<Rightarrow>
          let u = ev_Usage e in
          if u_EventID u \<noteq> rq_RequestID r \<or> u_APIKeyID u \<noteq> rq_APIKeyID r \<or> u_AccountID u \<noteq> rq_AccountID r \<or>
             u_AdmittedAt u \<noteq> rq_AdmittedAt r \<or> u_Charge u > rq_Maximum r \<or> ev_Model e \<noteq> rq_Model r \<or>
             ev_PricingVersion e \<noteq> rq_PricingVersion r \<or> ev_PayloadSHA256 e \<noteq> rq_PayloadSHA256 r
          then Rollback (Inl LConflict)
          else if rr_state row = RCompleted
          then (case map_of (ll_outbox db) rid of
                  None \<Rightarrow> Rollback (Inl LNoRows)
                | Some (old, _) \<Rightarrow> if old \<noteq> e then Rollback (Inl LConflict) else Rollback (Inr ()))
          else if rr_state row \<noteq> RStarted then Rollback (Inl LAlreadyDispatched)
          else (case update_lease (rr_lease_id row)
                       (\<lambda>l. l\<lparr>lr_reserved := lr_reserved l - rr_maximum row, lr_spent := lr_spent l + u_Charge u\<rparr>) db of
                  Inl err \<Rightarrow> Rollback (Inl err)
                | Inr db' \<Rightarrow>
                    if map_of (ll_outbox db) rid \<noteq> None then Rollback (Inl LDB)
                    else let db'' = set_request rid RCompleted db' in
                         Commit (db''\<lparr>ll_outbox := tput rid (e, False) (ll_outbox db'')\<rparr>) (Inr ())))"

definition ledger_CancelBeforeStart :: "string \<Rightarrow> string \<Rightarrow> ledger_db \<Rightarrow> (ledger_db, ledger_err, unit) tx" where
  "ledger_CancelBeforeStart region rid = ledger_finish region rid None"

definition ledger_Complete :: "string \<Rightarrow> Event \<Rightarrow> ledger_db \<Rightarrow> (ledger_db, ledger_err, unit) tx" where
  "ledger_Complete region e = ledger_finish region (u_EventID (ev_Usage e)) (Some e)"

text \<open>The join of an outbox row with its request and a lease of this region.\<close>

definition outbox_in_region :: "string \<Rightarrow> ledger_db \<Rightarrow> string \<Rightarrow> bool" where
  "outbox_in_region region db eid =
     (case map_of (ll_requests db) eid of None \<Rightarrow> False | Some row \<Rightarrow>
      (case map_of (ll_leases db) (rr_lease_id row) of None \<Rightarrow> False | Some l \<Rightarrow> lr_region l = region))"

definition ledger_Pending ::
    "((string \<times> Event \<times> bool) list \<Rightarrow> (string \<times> Event \<times> bool) list) \<Rightarrow> string \<Rightarrow> int \<Rightarrow> ledger_db \<Rightarrow> ledger_err + Event list" where
  "ledger_Pending order_by region limit db =
     (if limit < 1 \<or> limit > 1000 then Inl (LMsg ''invalid outbox batch size'')
      else Inr (map (\<lambda>(eid, e, ack). e) (take (nat limit)
             (order_by (filter (\<lambda>(eid, e, ack). \<not> ack \<and> outbox_in_region region db eid) (ll_outbox db))))))"

definition ledger_Acknowledge :: "string \<Rightarrow> Event \<Rightarrow> ledger_db \<Rightarrow> (ledger_db, ledger_err, unit) tx" where
  "ledger_Acknowledge region e db =
     (let eid = u_EventID (ev_Usage e) in
      case map_of (ll_outbox db) eid of
        None \<Rightarrow> Rollback (Inl LConflict)
      | Some (old, _) \<Rightarrow>
          if old \<noteq> e \<or> \<not> outbox_in_region region db eid then Rollback (Inl LConflict)
          else Commit (db\<lparr>ll_outbox := tput eid (old, True) (ll_outbox db)\<rparr>) (Inr ()))"

definition set_lease_state :: "string \<Rightarrow> lease_state \<Rightarrow> ledger_db \<Rightarrow> ledger_db" where
  "set_lease_state lid st db =
     (case map_of (ll_leases db) lid of None \<Rightarrow> db
      | Some row \<Rightarrow> db\<lparr>ll_leases := tput lid (row\<lparr>lr_state := st\<rparr>) (ll_leases db)\<rparr>)"

definition ledger_Drain :: "string \<Rightarrow> string \<Rightarrow> ledger_db \<Rightarrow> (ledger_db, ledger_err, unit) tx" where
  "ledger_Drain region lid db =
     (case localLease lid region db of Inl e \<Rightarrow> Rollback (Inl e) | Inr (_, state) \<Rightarrow>
      if state = LClosed then Rollback (Inr ()) else Commit (set_lease_state lid LDraining db) (Inr ()))"

record DrainReceipt =
  dr_LeaseID :: string
  dr_Region :: string
  dr_Spent :: Amount

text \<open>\<open>EXISTS\<close> of \<open>Close\<close>: an unfinished request, or a completed one whose event is not acknowledged.\<close>

definition unresolved :: "string \<Rightarrow> ledger_db \<Rightarrow> bool" where
  "unresolved lid db \<longleftrightarrow> list_ex (\<lambda>(rid, row). rr_lease_id row = lid \<and>
     (rr_state row = RReserved \<or> rr_state row = RStarted \<or>
      rr_state row = RCompleted \<and> (case map_of (ll_outbox db) rid of None \<Rightarrow> True | Some (_, ack) \<Rightarrow> \<not> ack)))
     (ll_requests db)"

definition ledger_Close :: "string \<Rightarrow> string \<Rightarrow> ledger_db \<Rightarrow> (ledger_db, ledger_err, DrainReceipt) tx" where
  "ledger_Close region lid db =
     (case localLease lid region db of Inl e \<Rightarrow> Rollback (Inl e) | Inr (_, state) \<Rightarrow>
      if state = LOpen then Rollback (Inl (LMsg ''lease must drain before closure''))
      else case map_of (ll_leases db) lid of None \<Rightarrow> Rollback (Inl LNoRows) | Some row \<Rightarrow>
      if lr_reserved row \<noteq> 0 \<or> unresolved lid db
      then Rollback (Inl (LMsg ''lease has unresolved reservations or outbox''))
      else Commit (set_lease_state lid LClosed db)
             (Inr \<lparr>dr_LeaseID = lid, dr_Region = region, dr_Spent = lr_spent row\<rparr>))"

section \<open>Invariant and steps\<close>

definition is_open :: "request_state \<Rightarrow> bool" where
  "is_open st \<longleftrightarrow> st = RReserved \<or> st = RStarted"

definition hold_weight :: "string \<Rightarrow> string \<Rightarrow> request_row \<Rightarrow> int" where
  "hold_weight lid rid row = (if rr_lease_id row = lid \<and> is_open (rr_state row) then rr_maximum row else 0)"

definition charge_weight :: "string \<Rightarrow> string \<Rightarrow> Event \<times> bool \<Rightarrow> int" where
  "charge_weight lid eid ea = (if u_LeaseID (ev_Usage (fst ea)) = lid then u_Charge (ev_Usage (fst ea)) else 0)"

text \<open>A lease row agrees with its lease; the reserved amount is held by open requests and the spent amount
  by the charges of completed ones; nothing is open under a closed lease.\<close>

definition lease_ok :: "string \<Rightarrow> ledger_db \<Rightarrow> string \<Rightarrow> lease_row \<Rightarrow> bool" where
  "lease_ok region db lid row \<longleftrightarrow>
     Lease_Validate (lr_lease row) = Inr () \<and> l_LeaseID (lr_lease row) = lid \<and> l_RegionID (lr_lease row) = region \<and>
     lr_region row = region \<and> lr_granted row = l_Granted (lr_lease row) \<and>
     lr_reserved row = tsum (hold_weight lid) (ll_requests db) \<and> lr_spent row = tsum (charge_weight lid) (ll_outbox db) \<and>
     0 \<le> lr_spent row \<and> 0 \<le> lr_reserved row \<and> lr_spent row + lr_reserved row \<le> lr_granted row \<and>
     (lr_state row = LClosed \<longrightarrow> \<not> unresolved lid db)"

definition request_ok :: "ledger_db \<Rightarrow> string \<Rightarrow> request_row \<Rightarrow> bool" where
  "request_ok db rid row \<longleftrightarrow>
     map_of (ll_leases db) (rr_lease_id row) \<noteq> None \<and> rq_RequestID (rr_request row) = rid \<and>
     rq_LeaseID (rr_request row) = rr_lease_id row \<and> rr_maximum row = rq_Maximum (rr_request row) \<and> 0 < rr_maximum row \<and>
     (rr_state row = RCompleted \<longleftrightarrow> map_of (ll_outbox db) rid \<noteq> None)"

definition outbox_ok :: "ledger_db \<Rightarrow> string \<Rightarrow> Event \<Rightarrow> bool" where
  "outbox_ok db eid e \<longleftrightarrow> u_EventID (ev_Usage e) = eid \<and>
     (\<exists>row. map_of (ll_requests db) eid = Some row \<and> rr_state row = RCompleted \<and> u_LeaseID (ev_Usage e) = rr_lease_id row \<and>
        0 \<le> u_Charge (ev_Usage e) \<and> u_Charge (ev_Usage e) \<le> rr_maximum row)"

definition ledger_inv :: "string \<Rightarrow> ledger_db \<Rightarrow> bool" where
  "ledger_inv region db \<longleftrightarrow>
     distinct (map fst (ll_leases db)) \<and> distinct (map fst (ll_requests db)) \<and> distinct (map fst (ll_outbox db)) \<and>
     (\<forall>lid row. map_of (ll_leases db) lid = Some row \<longrightarrow> lease_ok region db lid row) \<and>
     (\<forall>rid row. map_of (ll_requests db) rid = Some row \<longrightarrow> request_ok db rid row) \<and>
     (\<forall>eid e ack. map_of (ll_outbox db) eid = Some (e, ack) \<longrightarrow> outbox_ok db eid e)"

inductive ledger_step :: "string \<Rightarrow> ledger_db \<Rightarrow> ledger_db \<Rightarrow> bool" for region where
  ld_install: "ledger_Install region l db = Commit db' res \<Longrightarrow> ledger_step region db db'"
| ld_reserve: "ledger_Reserve region now r db = Commit db' fresh \<Longrightarrow> ledger_step region db db'"
| ld_start: "ledger_Start region now rid db = Commit db' res \<Longrightarrow> ledger_step region db db'"
| ld_finish: "ledger_finish region rid event db = Commit db' res \<Longrightarrow> ledger_step region db db'"
| ld_ack: "ledger_Acknowledge region e db = Commit db' res \<Longrightarrow> ledger_step region db db'"
| ld_drain: "ledger_Drain region lid db = Commit db' res \<Longrightarrow> ledger_step region db db'"
| ld_close: "ledger_Close region lid db = Commit db' receipt \<Longrightarrow> ledger_step region db db'"

section \<open>What a step writes\<close>

lemma localLease_Inr:
  "localLease lid region db = Inr (l, st) \<longleftrightarrow>
     (\<exists>row. map_of (ll_leases db) lid = Some row \<and> lr_region row = region \<and> Lease_Validate l = Inr () \<and>
        l = lr_lease row \<and> st = lr_state row)"
  by (auto simp: localLease_def split: option.splits sum.splits if_splits)

lemma update_lease_Inr:
  assumes "update_lease lid f db = Inr db'" "map_of (ll_leases db) lid = Some row"
  shows "check_lease_row (f row) \<and> db' = db\<lparr>ll_leases := tput lid (f row) (ll_leases db)\<rparr>"
  using assms by (simp add: update_lease_def split: if_splits)

lemma ledger_Install_commit:
  assumes "ledger_Install region l db = Commit db' res"
  obtains (same) "db' = db" "\<exists>row. map_of (ll_leases db) (l_LeaseID l) = Some row \<and> (res = Inr () \<longrightarrow> lr_lease row = l)"
  | (new) row where "map_of (ll_leases db) (l_LeaseID l) = None" "Lease_Validate l = Inr ()" "l_RegionID l = region"
      "row = \<lparr>lr_lease = l, lr_region = l_RegionID l, lr_user = l_UserID l, lr_granted = l_Granted l,
                 lr_spent = 0, lr_reserved = 0, lr_state = LOpen\<rparr>"
      "db' = db\<lparr>ll_leases := tput (l_LeaseID l) row (ll_leases db)\<rparr>"
proof (cases "map_of (ll_leases db) (l_LeaseID l)")
  case None
  then show ?thesis using assms new by (auto simp: ledger_Install_def Let_def map_of_tput split: if_splits sum.splits)
next
  case (Some row)
  then show ?thesis using assms same by (auto simp: ledger_Install_def Let_def split: if_splits sum.splits)
qed

lemma ledger_Reserve_commit:
  assumes "ledger_Reserve region now r db = Commit db' res"
  obtains row where "res = Inr True" "map_of (ll_leases db) (rq_LeaseID r) = Some row" "lr_region row = region"
    "lr_state row = LOpen" "map_of (ll_requests db) (rq_RequestID r) = None"
    "lr_reserved row + rq_Maximum r \<le> lr_granted row - lr_spent row" "0 < rq_Maximum r"
    "now < l_ExpiresAt (lr_lease row)"
    "db' = db\<lparr>ll_leases := tput (rq_LeaseID r) (row\<lparr>lr_reserved := lr_reserved row + rq_Maximum r\<rparr>) (ll_leases db),
       ll_requests := tput (rq_RequestID r)
         \<lparr>rr_lease_id = rq_LeaseID r, rr_request = r, rr_maximum = rq_Maximum r, rr_state = RReserved\<rparr> (ll_requests db)\<rparr>"
proof -
  obtain lease state where l: "localLease (rq_LeaseID r) region db = Inr (lease, state)"
    using assms by (auto simp: ledger_Reserve_def split: sum.splits)
  then obtain row where row: "map_of (ll_leases db) (rq_LeaseID r) = Some row" "lr_region row = region"
    "lease = lr_lease row" "state = lr_state row" by (auto simp: localLease_Inr)
  have v: "Reservation_Validate r lease = Inr ()" using assms l by (auto simp: ledger_Reserve_def split: sum.splits)
  then have pos: "0 < rq_Maximum r" by (auto simp: Reservation_Validate_def Let_def split: sum.splits if_splits)
  have none: "map_of (ll_requests db) (rq_RequestID r) = None"
    using assms l v by (auto simp: ledger_Reserve_def split: option.splits if_splits)
  show ?thesis
    using assms l v row none pos
    by (intro that [of row])
       (auto simp: ledger_Reserve_def update_lease_def check_lease_row_def time_defs split: if_splits sum.splits)
qed

lemma ledger_Start_commit:
  assumes "ledger_Start region now rid db = Commit db' res"
  obtains row where "res = Inr ()" "map_of (ll_requests db) rid = Some row" "rr_state row = RReserved"
    "db' = db\<lparr>ll_requests := tput rid (row\<lparr>rr_state := RStarted\<rparr>) (ll_requests db)\<rparr>"
  using assms
  by (auto simp: ledger_Start_def set_request_def split: option.splits sum.splits if_splits)

lemma ledger_finish_commit:
  assumes "ledger_finish region rid event db = Commit db' res"
  obtains (cancel) row l where "event = None" "map_of (ll_requests db) rid = Some row" "rr_state row = RReserved"
      "map_of (ll_leases db) (rr_lease_id row) = Some l" "0 \<le> lr_reserved l - rr_maximum row"
      "db' = db\<lparr>ll_leases := tput (rr_lease_id row) (l\<lparr>lr_reserved := lr_reserved l - rr_maximum row\<rparr>) (ll_leases db),
         ll_requests := tput rid (row\<lparr>rr_state := RCanceled\<rparr>) (ll_requests db)\<rparr>"
  | (complete) row l e where "event = Some e" "map_of (ll_requests db) rid = Some row" "rr_state row = RStarted"
      "map_of (ll_leases db) (rr_lease_id row) = Some l" "lr_region l = region" "Event_Validate e (lr_lease l) = Inr ()"
      "u_EventID (ev_Usage e) = rq_RequestID (rr_request row)" "u_Charge (ev_Usage e) \<le> rq_Maximum (rr_request row)"
      "map_of (ll_outbox db) rid = None"
      "0 \<le> lr_reserved l - rr_maximum row" "0 \<le> lr_spent l + u_Charge (ev_Usage e)"
      "db' = db\<lparr>ll_leases := tput (rr_lease_id row)
           (l\<lparr>lr_reserved := lr_reserved l - rr_maximum row, lr_spent := lr_spent l + u_Charge (ev_Usage e)\<rparr>) (ll_leases db),
         ll_requests := tput rid (row\<lparr>rr_state := RCompleted\<rparr>) (ll_requests db),
         ll_outbox := tput rid (e, False) (ll_outbox db)\<rparr>"
proof -
  obtain row where row: "map_of (ll_requests db) rid = Some row"
    using assms by (auto simp: ledger_finish_def split: option.splits)
  obtain lease st where ls: "localLease (rr_lease_id row) region db = Inr (lease, st)"
    using assms row by (auto simp: ledger_finish_def split: sum.splits)
  then obtain l where l: "map_of (ll_leases db) (rr_lease_id row) = Some l" "lr_region l = region" "lease = lr_lease l"
    by (auto simp: localLease_Inr)
  show ?thesis
  proof (cases event)
    case None
    then show ?thesis using assms row ls l
      by (intro cancel [of row l])
         (auto simp: ledger_finish_def set_request_def update_lease_def check_lease_row_def split: if_splits sum.splits)
  next
    case (Some e)
    have v: "Event_Validate e lease = Inr ()" using assms row ls Some by (auto simp: ledger_finish_def Let_def split: sum.splits)
    have "map_of (ll_outbox db) rid = None"
      using assms row ls Some v
      by (cases "map_of (ll_outbox db) rid")
         (auto simp: ledger_finish_def Let_def split: if_splits sum.splits)
    then show ?thesis using assms row ls l Some v
      by (intro complete [of e row l])
         (auto simp: ledger_finish_def Let_def set_request_def update_lease_def check_lease_row_def
            split: if_splits sum.splits option.splits prod.splits)
  qed
qed

lemma ledger_Acknowledge_commit:
  assumes "ledger_Acknowledge region e db = Commit db' res"
  obtains ack where "res = Inr ()" "map_of (ll_outbox db) (u_EventID (ev_Usage e)) = Some (e, ack)"
    "db' = db\<lparr>ll_outbox := tput (u_EventID (ev_Usage e)) (e, True) (ll_outbox db)\<rparr>"
  using assms by (auto simp: ledger_Acknowledge_def Let_def split: option.splits if_splits)

lemma ledger_Drain_commit:
  assumes "ledger_Drain region lid db = Commit db' res"
  obtains row where "map_of (ll_leases db) lid = Some row" "lr_region row = region" "lr_state row \<noteq> LClosed"
    "db' = db\<lparr>ll_leases := tput lid (row\<lparr>lr_state := LDraining\<rparr>) (ll_leases db)\<rparr>"
  using assms by (auto simp: ledger_Drain_def localLease_Inr set_lease_state_def split: sum.splits if_splits)

lemma ledger_Close_commit:
  assumes "ledger_Close region lid db = Commit db' res"
  obtains row where "map_of (ll_leases db) lid = Some row" "lr_region row = region" "lr_state row \<noteq> LOpen"
    "lr_reserved row = 0" "\<not> unresolved lid db" "res = Inr \<lparr>dr_LeaseID = lid, dr_Region = region, dr_Spent = lr_spent row\<rparr>"
    "db' = db\<lparr>ll_leases := tput lid (row\<lparr>lr_state := LClosed\<rparr>) (ll_leases db)\<rparr>"
  using assms by (auto simp: ledger_Close_def localLease_Inr set_lease_state_def split: sum.splits if_splits)

section \<open>The invariant is kept\<close>

definition row_unresolved :: "ledger_db \<Rightarrow> string \<Rightarrow> request_row \<Rightarrow> bool" where
  "row_unresolved db rid row \<longleftrightarrow> is_open (rr_state row) \<or>
     rr_state row = RCompleted \<and> (case map_of (ll_outbox db) rid of None \<Rightarrow> True | Some (_, ack) \<Rightarrow> \<not> ack)"

lemma unresolved_iff:
  assumes "distinct (map fst (ll_requests db))"
  shows "unresolved lid db \<longleftrightarrow> (\<exists>rid row. map_of (ll_requests db) rid = Some row \<and> rr_lease_id row = lid \<and> row_unresolved db rid row)"
proof -
  have "unresolved lid db \<longleftrightarrow> (\<exists>rid row. (rid, row) \<in> set (ll_requests db) \<and> rr_lease_id row = lid \<and> row_unresolved db rid row)"
    unfolding unresolved_def list_ex_iff row_unresolved_def is_open_def by (rule iffI) (force, fastforce)
  then show ?thesis using assms by simp
qed

lemma lease_ok_cong:
  assumes "lease_ok region db lid row"
    "tsum (hold_weight lid) (ll_requests db') = tsum (hold_weight lid) (ll_requests db)"
    "tsum (charge_weight lid) (ll_outbox db') = tsum (charge_weight lid) (ll_outbox db)"
    "unresolved lid db' \<Longrightarrow> unresolved lid db"
  shows "lease_ok region db' lid row"
  using assms unfolding lease_ok_def by auto

lemma ledger_invD:
  assumes "ledger_inv region db"
  shows "distinct (map fst (ll_leases db))" "distinct (map fst (ll_requests db))" "distinct (map fst (ll_outbox db))"
    "map_of (ll_leases db) lid = Some row \<Longrightarrow> lease_ok region db lid row"
    "map_of (ll_requests db) rid = Some q \<Longrightarrow> request_ok db rid q"
    "map_of (ll_outbox db) eid = Some (e, ack) \<Longrightarrow> outbox_ok db eid e"
  using assms unfolding ledger_inv_def by blast+

text \<open>An open request keeps its lease from being closed.\<close>

lemma open_not_closed:
  assumes inv: "ledger_inv region db" and "map_of (ll_requests db) rid = Some row" "is_open (rr_state row)"
    "map_of (ll_leases db) (rr_lease_id row) = Some l"
  shows "lr_state l \<noteq> LClosed"
proof
  assume "lr_state l = LClosed"
  then have "\<not> unresolved (rr_lease_id row) db" using ledger_invD(4) [OF inv assms(4)] by (simp add: lease_ok_def)
  then show False using unresolved_iff [OF ledger_invD(2) [OF inv]] assms(2,3) by (auto simp: row_unresolved_def)
qed

text \<open>The rows of one request and its lease change, and with a completion its event enters the outbox.\<close>

lemma ledger_inv_write:
  assumes inv: "ledger_inv region db"
    and l: "map_of (ll_leases db) lid = Some l" "lr_state l \<noteq> LClosed"
    and old: "\<And>q. map_of (ll_requests db) rid = Some q \<Longrightarrow> rr_lease_id q = lid \<and> is_open (rr_state q)"
    and db': "ll_leases db' = tput lid l' (ll_leases db)" "ll_requests db' = tput rid q' (ll_requests db)"
      "ll_outbox db' = (case ev of None \<Rightarrow> ll_outbox db | Some e \<Rightarrow> tput rid (e, False) (ll_outbox db))"
    and l': "lr_lease l' = lr_lease l" "lr_region l' = lr_region l" "lr_granted l' = lr_granted l" "lr_state l' = lr_state l"
      "lr_reserved l' = lr_reserved l + hold_weight lid rid q'
         - (case map_of (ll_requests db) rid of None \<Rightarrow> 0 | Some q \<Rightarrow> hold_weight lid rid q)"
      "lr_spent l' = lr_spent l + (case ev of None \<Rightarrow> 0 | Some e \<Rightarrow> u_Charge (ev_Usage e))"
      "0 \<le> lr_spent l'" "0 \<le> lr_reserved l'" "lr_spent l' + lr_reserved l' \<le> lr_granted l'"
    and q': "rr_lease_id q' = lid" "rq_RequestID (rr_request q') = rid" "rq_LeaseID (rr_request q') = lid"
      "rr_maximum q' = rq_Maximum (rr_request q')" "0 < rr_maximum q'" "rr_state q' = RCompleted \<longleftrightarrow> ev \<noteq> None"
    and ev: "\<And>e. ev = Some e \<Longrightarrow> u_LeaseID (ev_Usage e) = lid \<and> u_EventID (ev_Usage e) = rid \<and>
      0 \<le> u_Charge (ev_Usage e) \<and> u_Charge (ev_Usage e) \<le> rr_maximum q'"
  shows "ledger_inv region db'"
proof -
  note D = ledger_invD [OF inv]
  have none: "map_of (ll_outbox db) rid = None"
  proof (rule ccontr)
    assume "map_of (ll_outbox db) rid \<noteq> None"
    then obtain e ack where "map_of (ll_outbox db) rid = Some (e, ack)" by (cases "map_of (ll_outbox db) rid") auto
    then obtain q where "map_of (ll_requests db) rid = Some q" "rr_state q = RCompleted"
      using D(6) unfolding outbox_ok_def by blast
    then show False using old [of q] by (simp add: is_open_def)
  qed
  have outbox': "map_of (ll_outbox db') k = (if k = rid then map_option (\<lambda>e. (e, False)) ev else map_of (ll_outbox db) k)" for k
    using none by (cases ev) (auto simp: db' map_of_tput)
  have dist: "distinct (map fst (ll_leases db'))" "distinct (map fst (ll_requests db'))" "distinct (map fst (ll_outbox db'))"
    using D(1-3) by (auto simp: db' table_simps split: option.split)
  have hold: "tsum (hold_weight k) (ll_requests db') = tsum (hold_weight k) (ll_requests db) + hold_weight k rid q'
      - (case map_of (ll_requests db) rid of None \<Rightarrow> 0 | Some q \<Rightarrow> hold_weight k rid q)" for k
    by (simp add: db' tsum_tput)
  have charge: "tsum (charge_weight k) (ll_outbox db') = tsum (charge_weight k) (ll_outbox db) +
      (case ev of None \<Rightarrow> 0 | Some e \<Rightarrow> if k = lid then u_Charge (ev_Usage e) else 0)" for k
    using none ev by (cases ev) (auto simp: db' tsum_tput charge_weight_def)
  have "lease_ok region db' k row" if row: "map_of (ll_leases db') k = Some row" for k row
  proof (cases "k = lid")
    case True
    then have "row = l'" using row by (simp add: db' map_of_tput)
    then show ?thesis
      using D(4) [OF l(1)] l(2) l' hold [of lid] charge [of lid] True by (simp add: lease_ok_def split: option.split)
  next
    case False
    then have row0: "map_of (ll_leases db) k = Some row" using row by (simp add: db' map_of_tput)
    have "hold_weight k rid q' = 0" "(case map_of (ll_requests db) rid of None \<Rightarrow> 0 | Some q \<Rightarrow> hold_weight k rid q) = 0"
      using False old q'(1) by (auto simp: hold_weight_def split: option.split)
    moreover have "unresolved k db" if "unresolved k db'"
      using that False q'(1) unfolding unresolved_iff [OF dist(2)] unresolved_iff [OF D(2)]
      by (auto simp: db'(2) map_of_tput row_unresolved_def outbox' simp del: map_of_eq_Some_iff split: if_splits)
    ultimately show ?thesis
      using lease_ok_cong [OF D(4) [OF row0]] hold [of k] charge [of k] False by (simp split: option.split)
  qed
  moreover have "request_ok db' k q" if q: "map_of (ll_requests db') k = Some q" for k q
  proof (cases "k = rid")
    case True
    then have "q = q'" using q by (simp add: db' map_of_tput)
    then show ?thesis using q' True by (auto simp: request_ok_def outbox' db'(1) map_of_tput split: option.splits)
  next
    case False
    then have "request_ok db k q" using q D(5) by (simp add: db' map_of_tput)
    then show ?thesis using False by (auto simp: request_ok_def outbox' db'(1) map_of_tput)
  qed
  moreover have "outbox_ok db' k e" if e: "map_of (ll_outbox db') k = Some (e, ack)" for k e ack
  proof (cases "k = rid")
    case True
    then show ?thesis using e ev [of e] q' by (auto simp: outbox' outbox_ok_def db'(2) map_of_tput)
  next
    case False
    then have "outbox_ok db k e" using e D(6) by (simp add: outbox')
    then show ?thesis using False by (auto simp: outbox_ok_def db'(2) map_of_tput)
  qed
  ultimately show ?thesis using dist unfolding ledger_inv_def by blast
qed

lemma ledger_Install_inv:
  assumes "ledger_Install region l db = Commit db' res" "ledger_inv region db"
  shows "ledger_inv region db'"
  using assms(1)
proof (cases rule: ledger_Install_commit)
  case (new row)
  let ?lid = "l_LeaseID l"
  note D = ledger_invD [OF assms(2)]
  have db': "ll_requests db' = ll_requests db" "ll_outbox db' = ll_outbox db"
    "ll_leases db' = tput ?lid row (ll_leases db)" by (simp_all add: new)
  have r0: "rr_lease_id q \<noteq> ?lid" if "map_of (ll_requests db) rid = Some q" for rid q
    using D(5) [OF that] new(1) by (auto simp: request_ok_def)
  have "hold_weight ?lid rid q = 0" if "(rid, q) \<in> set (ll_requests db)" for rid q
    using r0 that D(2) by (auto simp: hold_weight_def)
  then have h: "tsum (hold_weight ?lid) (ll_requests db) = 0" using tsum_cong [of "ll_requests db" "hold_weight ?lid" "\<lambda>_ _. 0"] by simp
  have "charge_weight ?lid eid ea = 0" if "(eid, ea) \<in> set (ll_outbox db)" for eid ea
  proof -
    have "map_of (ll_outbox db) eid = Some (fst ea, snd ea)" using that D(3) by simp
    then obtain q where "map_of (ll_requests db) eid = Some q" "u_LeaseID (ev_Usage (fst ea)) = rr_lease_id q"
      using D(6) unfolding outbox_ok_def by blast
    then show ?thesis using r0 by (simp add: charge_weight_def)
  qed
  then have c: "tsum (charge_weight ?lid) (ll_outbox db) = 0" using tsum_cong [of "ll_outbox db" "charge_weight ?lid" "\<lambda>_ _. 0"] by simp
  have pos: "0 \<le> l_Granted l" using new(2) by (simp add: Lease_Validate_def split: if_splits)
  have un: "unresolved k db' = unresolved k db" for k by (simp add: unresolved_def db')
  have "lease_ok region db' k r" if r: "map_of (ll_leases db') k = Some r" for k r
  proof (cases "k = ?lid")
    case True
    then have "r = row" using r by (simp add: db' map_of_tput)
    then show ?thesis using True new(2,3) h c pos unfolding new(4) by (simp add: db' lease_ok_def)
  next
    case False
    then have "lease_ok region db k r" using r D(4) by (simp add: db' map_of_tput)
    then show ?thesis by (simp add: lease_ok_def db' un)
  qed
  moreover have "request_ok db' rid q" if "map_of (ll_requests db') rid = Some q" for rid q
    using D(5) [of rid q] that by (auto simp: db' request_ok_def map_of_tput)
  moreover have "outbox_ok db' eid e" if "map_of (ll_outbox db') eid = Some (e, ack)" for eid e ack
    using D(6) [of eid e ack] that by (simp add: db' outbox_ok_def)
  moreover have "distinct (map fst (ll_leases db'))" using D(1) by (simp add: db' table_simps)
  ultimately show ?thesis using D(2,3) unfolding ledger_inv_def db'(1,2) by blast
qed (use assms(2) in simp)

lemma ledger_Reserve_inv:
  assumes "ledger_Reserve region now r db = Commit db' res" "ledger_inv region db"
  shows "ledger_inv region db'"
  using assms(1)
proof (cases rule: ledger_Reserve_commit)
  case (1 row)
  have "lease_ok region db (rq_LeaseID r) row" by (rule ledger_invD(4) [OF assms(2) 1(2)])
  then show ?thesis
    by (intro ledger_inv_write [OF assms(2) 1(2), where ev = None and rid = "rq_RequestID r" and
          q' = "\<lparr>rr_lease_id = rq_LeaseID r, rr_request = r, rr_maximum = rq_Maximum r, rr_state = RReserved\<rparr>" and
          l' = "row\<lparr>lr_reserved := lr_reserved row + rq_Maximum r\<rparr>"])
       (use 1 in \<open>simp_all add: hold_weight_def is_open_def lease_ok_def\<close>)
qed

lemma ledger_Start_inv:
  assumes "ledger_Start region now rid db = Commit db' res" "ledger_inv region db"
  shows "ledger_inv region db'"
  using assms(1)
proof (cases rule: ledger_Start_commit)
  case (1 q)
  have q: "request_ok db rid q" by (rule ledger_invD(5) [OF assms(2) 1(2)])
  then obtain l where l: "map_of (ll_leases db) (rr_lease_id q) = Some l" by (auto simp: request_ok_def)
  have "is_open (rr_state q)" using 1(3) by (simp add: is_open_def)
  then have "lr_state l \<noteq> LClosed" using open_not_closed [OF assms(2) 1(2) _ l] by simp
  moreover have "lease_ok region db (rr_lease_id q) l" by (rule ledger_invD(4) [OF assms(2) l])
  ultimately show ?thesis
    by (intro ledger_inv_write [OF assms(2) l, where ev = None and rid = rid and q' = "q\<lparr>rr_state := RStarted\<rparr>" and l' = l])
       (use 1 q in \<open>simp_all add: hold_weight_def is_open_def lease_ok_def request_ok_def tput_same [OF l]\<close>)
qed

lemma Event_Validate_usage: "Event_Validate e l = Inr () \<Longrightarrow> ValidateAgainst (ev_Usage e) l = Inr ()"
  by (auto simp: Event_Validate_def split: sum.splits)

lemma ValidateAgainst_scope:
  assumes "ValidateAgainst u l = Inr ()"
  shows "u_LeaseID u = l_LeaseID l" "u_RegionID u = l_RegionID l" "u_UserID u = l_UserID l" "0 \<le> u_Charge u"
    "u_Charge u \<le> l_Granted l"
  using assms by (auto simp: ValidateAgainst_def split: sum.splits if_splits)

lemma ledger_finish_inv:
  assumes "ledger_finish region rid event db = Commit db' res" "ledger_inv region db"
  shows "ledger_inv region db'"
  using assms(1)
proof (cases rule: ledger_finish_commit)
  case (cancel q l)
  have q: "request_ok db rid q" by (rule ledger_invD(5) [OF assms(2) cancel(2)])
  have "is_open (rr_state q)" using cancel(3) by (simp add: is_open_def)
  then have "lr_state l \<noteq> LClosed" using open_not_closed [OF assms(2) cancel(2) _ cancel(4)] by simp
  moreover have "lease_ok region db (rr_lease_id q) l" by (rule ledger_invD(4) [OF assms(2) cancel(4)])
  ultimately show ?thesis
    by (intro ledger_inv_write [OF assms(2) cancel(4), where ev = None and rid = rid and q' = "q\<lparr>rr_state := RCanceled\<rparr>" and
          l' = "l\<lparr>lr_reserved := lr_reserved l - rr_maximum q\<rparr>"])
       (use cancel q in \<open>simp_all add: hold_weight_def is_open_def lease_ok_def request_ok_def\<close>)
next
  case (complete q l e)
  have q: "request_ok db rid q" by (rule ledger_invD(5) [OF assms(2) complete(2)])
  have "is_open (rr_state q)" using complete(3) by (simp add: is_open_def)
  then have "lr_state l \<noteq> LClosed" using open_not_closed [OF assms(2) complete(2) _ complete(4)] by simp
  moreover have l: "lease_ok region db (rr_lease_id q) l" by (rule ledger_invD(4) [OF assms(2) complete(4)])
  moreover have "u_LeaseID (ev_Usage e) = rr_lease_id q" "0 \<le> u_Charge (ev_Usage e)"
    using ValidateAgainst_scope [OF Event_Validate_usage [OF complete(6)]] l by (simp_all add: lease_ok_def)
  ultimately show ?thesis
    by (intro ledger_inv_write [OF assms(2) complete(4), where ev = "Some e" and rid = rid and q' = "q\<lparr>rr_state := RCompleted\<rparr>" and
          l' = "l\<lparr>lr_reserved := lr_reserved l - rr_maximum q, lr_spent := lr_spent l + u_Charge (ev_Usage e)\<rparr>"])
       (use complete q in \<open>simp_all add: hold_weight_def is_open_def lease_ok_def request_ok_def\<close>)
qed

lemma ledger_Acknowledge_inv:
  assumes "ledger_Acknowledge region e db = Commit db' res" "ledger_inv region db"
  shows "ledger_inv region db'"
  using assms(1)
proof (cases rule: ledger_Acknowledge_commit)
  case (1 ack)
  let ?k = "u_EventID (ev_Usage e)"
  note D = ledger_invD [OF assms(2)]
  have db': "ll_leases db' = ll_leases db" "ll_requests db' = ll_requests db"
    "ll_outbox db' = tput ?k (e, True) (ll_outbox db)" by (simp_all add: 1)
  have c: "tsum (charge_weight k) (ll_outbox db') = tsum (charge_weight k) (ll_outbox db)" for k
    using 1(2) by (simp add: db' tsum_tput charge_weight_def)
  have "unresolved k db" if "unresolved k db'" for k
    using that 1(2) D(2) by (auto simp: unresolved_iff db' row_unresolved_def map_of_tput split: if_splits)
  then have "lease_ok region db' k row" if "map_of (ll_leases db') k = Some row" for k row
    using lease_ok_cong [OF D(4) [OF that [unfolded db'(1)]]] c by (simp add: db'(2))
  moreover have "request_ok db' rid q" if "map_of (ll_requests db') rid = Some q" for rid q
    using D(5) [of rid q] that 1(2) by (auto simp: db' request_ok_def map_of_tput)
  moreover have "outbox_ok db' eid e'" if "map_of (ll_outbox db') eid = Some (e', a)" for eid e' a
    using D(6) [of eid e'] that 1(2) by (auto simp: db' outbox_ok_def map_of_tput simp del: map_of_eq_Some_iff split: if_splits)
  moreover have "distinct (map fst (ll_outbox db'))" using D(3) by (simp add: db' table_simps)
  ultimately show ?thesis using D(1,2) unfolding ledger_inv_def db'(1,2) by blast
qed

lemma ledger_inv_state:
  assumes inv: "ledger_inv region db" and row: "map_of (ll_leases db) lid = Some row" "st = LClosed \<Longrightarrow> \<not> unresolved lid db"
    and db': "db' = db\<lparr>ll_leases := tput lid (row\<lparr>lr_state := st\<rparr>) (ll_leases db)\<rparr>"
  shows "ledger_inv region db'"
proof -
  note D = ledger_invD [OF inv]
  have eq: "ll_requests db' = ll_requests db" "ll_outbox db' = ll_outbox db" by (simp_all add: db')
  have un: "unresolved k db' = unresolved k db" for k by (simp add: unresolved_def eq)
  have leases: "ll_leases db' = tput lid (row\<lparr>lr_state := st\<rparr>) (ll_leases db)" by (simp add: db')
  have "lease_ok region db' k r" if r: "map_of (ll_leases db') k = Some r" for k r
  proof (cases "k = lid")
    case True
    then have "r = row\<lparr>lr_state := st\<rparr>" using r by (simp add: leases map_of_tput)
    then show ?thesis using D(4) [OF row(1)] row(2) True by (simp add: lease_ok_def eq un)
  next
    case False
    then have "lease_ok region db k r" using r D(4) by (simp add: leases map_of_tput)
    then show ?thesis by (simp add: lease_ok_def eq un)
  qed
  moreover have "request_ok db' rid q" if "map_of (ll_requests db') rid = Some q" for rid q
    using D(5) [of rid q] that by (auto simp: db' request_ok_def map_of_tput)
  moreover have "outbox_ok db' eid e" if "map_of (ll_outbox db') eid = Some (e, ack)" for eid e ack
    using D(6) [of eid e ack] that by (simp add: eq outbox_ok_def)
  moreover have "distinct (map fst (ll_leases db'))" using D(1) by (simp add: db' table_simps)
  ultimately show ?thesis using D(2,3) unfolding ledger_inv_def eq by blast
qed

lemma ledger_step_inv: "ledger_step region db db' \<Longrightarrow> ledger_inv region db \<Longrightarrow> ledger_inv region db'"
proof (induction rule: ledger_step.induct)
  case ld_drain
  then show ?case by (elim ledger_Drain_commit) (blast intro: ledger_inv_state)
next
  case (ld_close lid db db' receipt)
  from ld_close(1) show ?case
    by (cases rule: ledger_Close_commit) (erule ledger_inv_state [OF ld_close(2)], assumption+)
qed (blast intro: ledger_Install_inv ledger_Reserve_inv ledger_Start_inv ledger_finish_inv ledger_Acknowledge_inv)+

lemma ledger_inv_empty: "ledger_inv region empty_ledger"
  by (simp add: ledger_inv_def empty_ledger_def)

lemma ledger_steps_inv: "(ledger_step region)\<^sup>*\<^sup>* db db' \<Longrightarrow> ledger_inv region db \<Longrightarrow> ledger_inv region db'"
  by (induction rule: rtranclp_induct) (auto intro: ledger_step_inv)

end
