(* ===== verification/LedgerPrimary.thy ===== *)
theory LedgerPrimary
  imports Ledger
begin

text \<open>
  \<^verbatim>\<open>backend/internal/regional/ledger/primary.go\<close>, \<^verbatim>\<open>primary_requests.go\<close> and the pricing
  store of \<^verbatim>\<open>pricing.go\<close>: the primary's side of the money. \<open>primary_db\<close> holds the spendable
  balances of the users, the quota leases granted to regions, the settled events, the primary's own
  requests, and as \<open>pd_aux\<close> the tables the application's callbacks work on. Balances are in nano USD; the
  decimal text the code sends to the database denotes the same amount (\<open>USD\<close>). The callbacks are
  parameters: they run inside the transaction and change \<open>pd_aux\<close> only.
\<close>

record user_row =
  us_balance :: int
  us_active :: bool

record quota_row =
  qr_lease :: Lease
  qr_spent :: int
  qr_closed :: bool

record primary_request =
  pq_request :: Reservation
  pq_state :: request_state
  pq_event :: "Event option"
  pq_funded :: bool

record 'a primary_db =
  pd_users :: "(int, user_row) table"
  pd_leases :: "(string, quota_row) table"
  pd_settled :: "(string, string \<times> Event) table"
  pd_requests :: "(string, primary_request) table"
  pd_aux :: 'a

record 'a primary =
  pr_Funding :: "(int \<Rightarrow> int \<Rightarrow> 'a \<Rightarrow> ledger_err + bool) option"
  pr_ReserveScope :: "(Lease \<Rightarrow> 'a \<Rightarrow> ledger_err + 'a) option"
  pr_CloseScope :: "(Lease \<Rightarrow> Amount \<Rightarrow> 'a \<Rightarrow> ledger_err + 'a) option"

text \<open>\<open>UPDATE users SET balance = balance - amount WHERE ... active AND balance >= amount\<close> touches one row or
  none.\<close>

definition debit_user :: "int \<Rightarrow> int \<Rightarrow> (int, user_row) table \<Rightarrow> (int, user_row) table option" where
  "debit_user uid amount users =
     (case map_of users uid of None \<Rightarrow> None | Some row \<Rightarrow>
      if us_active row \<and> us_balance row \<ge> amount
      then Some (tput uid (row\<lparr>us_balance := us_balance row - amount\<rparr>) users) else None)"

definition credit_user :: "int \<Rightarrow> int \<Rightarrow> (int, user_row) table \<Rightarrow> (int, user_row) table option" where
  "credit_user uid amount users =
     (case map_of users uid of None \<Rightarrow> None
      | Some row \<Rightarrow> Some (tput uid (row\<lparr>us_balance := us_balance row + amount\<rparr>) users))"

definition sameLease :: "Lease \<Rightarrow> Lease \<Rightarrow> bool" where
  "sameLease a b \<longleftrightarrow> l_BillingMode a = l_BillingMode b \<and> l_APIKeyID a = l_APIKeyID b \<and> l_AccountID a = l_AccountID b \<and>
     l_SchemaVersion a = l_SchemaVersion b \<and> l_LeaseID a = l_LeaseID b \<and> l_RegionID a = l_RegionID b \<and>
     l_UserID a = l_UserID b \<and> l_Granted a = l_Granted b \<and> l_IssuedAt a = l_IssuedAt b \<and> l_ExpiresAt a = l_ExpiresAt b"

definition primaryLease :: "string \<Rightarrow> 'a primary_db \<Rightarrow> ledger_err + (Lease \<times> Amount \<times> bool)" where
  "primaryLease lid db =
     (case map_of (pd_leases db) lid of None \<Rightarrow> Inl LNoRows
      | Some row \<Rightarrow> Inr ((qr_lease row)\<lparr>l_SchemaVersion := SchemaVersion\<rparr>, qr_spent row, qr_closed row))"

definition funding :: "(int \<Rightarrow> int \<Rightarrow> 'a \<Rightarrow> ledger_err + bool) option \<Rightarrow> int \<Rightarrow> int \<Rightarrow> 'a \<Rightarrow> ledger_err + bool" where
  "funding f uid kid aux = (case f of None \<Rightarrow> Inr True | Some g \<Rightarrow> g uid kid aux)"

text \<open>The last part of \<open>Issue\<close>: debit the user, reserve the scope, insert the lease.\<close>

definition quota_grant :: "'a primary \<Rightarrow> Lease \<Rightarrow> bool \<Rightarrow> 'a primary_db \<Rightarrow> ('a primary_db, ledger_err, unit) tx" where
  "quota_grant p l funded db =
     (case (if funded then debit_user (l_UserID l) (l_Granted l) (pd_users db) else Some (pd_users db)) of
        None \<Rightarrow> Rollback (Inl LExhausted)
      | Some users \<Rightarrow>
      case (case pr_ReserveScope p of
              Some f \<Rightarrow> f l (pd_aux db)
            | None \<Rightarrow> if l_APIKeyID l \<noteq> 0 \<or> l_AccountID l \<noteq> 0 then Inl (LMsg ''quota scope required'') else Inr (pd_aux db)) of
        Inl e \<Rightarrow> Rollback (Inl e)
      | Inr aux \<Rightarrow>
      if map_of users (l_UserID l) = None then Rollback (Inl LDB)
      else Commit (db\<lparr>pd_users := users, pd_aux := aux,
             pd_leases := tput (l_LeaseID l) \<lparr>qr_lease = l, qr_spent = 0, qr_closed = False\<rparr> (pd_leases db)\<rparr>) (Inr ()))"

definition quota_Issue :: "'a primary \<Rightarrow> gotime \<Rightarrow> Lease \<Rightarrow> 'a primary_db \<Rightarrow> ('a primary_db, ledger_err, unit) tx" where
  "quota_Issue p now l db =
     (case Lease_Validate l of Inl m \<Rightarrow> Rollback (Inl (LMsg m)) | Inr _ \<Rightarrow>
      case USD (l_Granted l) of Inl m \<Rightarrow> Rollback (Inl (LMsg m)) | Inr _ \<Rightarrow>
      if l_IssuedAt l \<noteq> Truncate (l_IssuedAt l) Microsecond \<or> l_ExpiresAt l \<noteq> Truncate (l_ExpiresAt l) Microsecond
      then Rollback (Inl (LMsg ''lease timestamps must use microsecond precision''))
      else case primaryLease (l_LeaseID l) db of
        Inr (old, _, _) \<Rightarrow> if \<not> sameLease old l then Rollback (Inl LConflict) else Rollback (Inr ())
      | Inl _ \<Rightarrow>
      if \<not> Before now (l_ExpiresAt l) then Rollback (Inl LExpiredUnissued)
      else if Before now (l_IssuedAt l) \<or> Sub now (l_IssuedAt l) > 5 * Second then Rollback (Inl LExhausted)
      else case funding (pr_Funding p) (l_UserID l) (l_APIKeyID l) (pd_aux db) of
        Inl e \<Rightarrow> Rollback (Inl e)
      | Inr funded \<Rightarrow>
          if (l_BillingMode l = ''subscription'') \<noteq> (\<not> funded) then Rollback (Inl LConflict)
          else quota_grant p l funded db)"

type_synonym 'a VerifyEvent = "Event \<Rightarrow> 'a \<Rightarrow> ledger_err + 'a"

definition quota_Settle ::
    "string \<Rightarrow> Event \<Rightarrow> 'a VerifyEvent option \<Rightarrow> 'a primary_db \<Rightarrow> ('a primary_db, ledger_err, bool) tx" where
  "quota_Settle region e verify db =
     (case verify of None \<Rightarrow> Rollback (Inl (LMsg ''regional settlement verifier required'')) | Some v \<Rightarrow>
      case primaryLease (u_LeaseID (ev_Usage e)) db of Inl err \<Rightarrow> Rollback (Inl err) | Inr (lease, _, closed) \<Rightarrow>
      if region \<noteq> l_RegionID lease then Rollback (Inl LConflict)
      else case Event_Validate e lease of Inl err \<Rightarrow> Rollback (Inl err) | Inr _ \<Rightarrow>
      case map_of (pd_settled db) (u_EventID (ev_Usage e)) of
        Some (_, old) \<Rightarrow> if old \<noteq> e then Rollback (Inl LConflict) else Rollback (Inr False)
      | None \<Rightarrow>
      if closed then Rollback (Inl LExhausted)
      else case v e (pd_aux db) of Inl err \<Rightarrow> Rollback (Inl err) | Inr aux \<Rightarrow>
      case map_of (pd_leases db) (l_LeaseID lease) of None \<Rightarrow> Rollback (Inl LExhausted) | Some row \<Rightarrow>
      if \<not> (l_Granted (qr_lease row) - qr_spent row \<ge> u_Charge (ev_Usage e)) then Rollback (Inl LExhausted)
      else Commit (db\<lparr>pd_aux := aux,
             pd_leases := tput (l_LeaseID lease) (row\<lparr>qr_spent := qr_spent row + u_Charge (ev_Usage e)\<rparr>) (pd_leases db),
             pd_settled := tput (u_EventID (ev_Usage e)) (l_LeaseID lease, e) (pd_settled db)\<rparr>) (Inr True))"

definition quota_Close :: "'a primary \<Rightarrow> string \<Rightarrow> DrainReceipt \<Rightarrow> 'a primary_db \<Rightarrow> ('a primary_db, ledger_err, unit) tx" where
  "quota_Close p region receipt db =
     (case primaryLease (dr_LeaseID receipt) db of Inl e \<Rightarrow> Rollback (Inl e) | Inr (lease, spent, closed) \<Rightarrow>
      if l_RegionID lease \<noteq> region \<or> dr_Region receipt \<noteq> region \<or> dr_Spent receipt \<noteq> spent then Rollback (Inl LConflict)
      else if closed then Rollback (Inr ())
      else case USD (l_Granted lease - spent) of Inl m \<Rightarrow> Rollback (Inl (LMsg m)) | Inr _ \<Rightarrow>
      case (if l_BillingMode lease \<noteq> ''subscription''
            then credit_user (l_UserID lease) (l_Granted lease - spent) (pd_users db) else Some (pd_users db)) of
        None \<Rightarrow> Rollback (Inl (LMsg ''lease user missing''))
      | Some users \<Rightarrow>
      case (case pr_CloseScope p of
              Some f \<Rightarrow> f lease spent (pd_aux db)
            | None \<Rightarrow> if l_APIKeyID lease \<noteq> 0 \<or> l_AccountID lease \<noteq> 0 then Inl (LMsg ''closure scope required'') else Inr (pd_aux db)) of
        Inl e \<Rightarrow> Rollback (Inl e)
      | Inr aux \<Rightarrow>
      case map_of (pd_leases db) (l_LeaseID lease) of None \<Rightarrow> Commit (db\<lparr>pd_users := users, pd_aux := aux\<rparr>) (Inr ()) | Some row \<Rightarrow>
      Commit (db\<lparr>pd_users := users, pd_aux := aux,
                 pd_leases := tput (l_LeaseID lease) (row\<lparr>qr_closed := True\<rparr>) (pd_leases db)\<rparr>) (Inr ()))"

section \<open>The primary's own requests\<close>

record 'a primary_requests =
  ps_Funding :: "(int \<Rightarrow> int \<Rightarrow> 'a \<Rightarrow> ledger_err + bool) option"
  ps_Authorize :: "(Reservation \<Rightarrow> 'a \<Rightarrow> ledger_err + 'a) option"
  ps_SettleScope :: "'a VerifyEvent option"
  ps_CancelScope :: "(Reservation \<Rightarrow> 'a \<Rightarrow> ledger_err + 'a) option"

definition requests_Reserve ::
    "'a primary_requests \<Rightarrow> Reservation \<Rightarrow> 'a primary_db \<Rightarrow> ('a primary_db, ledger_err, bool) tx" where
  "requests_Reserve p r db =
     (case ps_Authorize p of None \<Rightarrow> Rollback (Inl (LMsg ''atomic budget scope required'')) | Some authorize \<Rightarrow>
      if ps_SettleScope p = None \<or> ps_CancelScope p = None then Rollback (Inl (LMsg ''atomic budget scope required''))
      else if rq_RequestID r = '''' \<or> rq_UserID r \<le> 0 \<or> rq_Maximum r \<le> 0 \<or> \<not> validDigest (rq_PayloadSHA256 r) \<or>
         rq_Model r = '''' \<or> rq_PricingVersion r = ''''
      then Rollback (Inl LConflict)
      else case USD (rq_Maximum r) of Inl m \<Rightarrow> Rollback (Inl (LMsg m)) | Inr _ \<Rightarrow>
      case map_of (pd_requests db) (rq_RequestID r) of
        Some old \<Rightarrow> if pq_request old \<noteq> r then Rollback (Inl LConflict) else Rollback (Inr False)
      | None \<Rightarrow>
      case funding (ps_Funding p) (rq_UserID r) (rq_APIKeyID r) (pd_aux db) of Inl e \<Rightarrow> Rollback (Inl e) | Inr funded \<Rightarrow>
      case (if funded then debit_user (rq_UserID r) (rq_Maximum r) (pd_users db) else Some (pd_users db)) of
        None \<Rightarrow> Rollback (Inl LExhausted)
      | Some users \<Rightarrow>
      case authorize r (pd_aux db) of Inl e \<Rightarrow> Rollback (Inl e) | Inr aux \<Rightarrow>
      if map_of users (rq_UserID r) = None then Rollback (Inl LDB)
      else Commit (db\<lparr>pd_users := users, pd_aux := aux, pd_requests := tput (rq_RequestID r)
             \<lparr>pq_request = r, pq_state = RReserved, pq_event = None, pq_funded = funded\<rparr> (pd_requests db)\<rparr>) (Inr True))"

definition requests_Start :: "string \<Rightarrow> 'a primary_db \<Rightarrow> ('a primary_db, ledger_err, unit) tx" where
  "requests_Start rid db =
     (case map_of (pd_requests db) rid of None \<Rightarrow> Rollback (Inl LAlreadyDispatched) | Some row \<Rightarrow>
      if pq_state row \<noteq> RReserved then Rollback (Inl LAlreadyDispatched)
      else Commit (db\<lparr>pd_requests := tput rid (row\<lparr>pq_state := RStarted\<rparr>) (pd_requests db)\<rparr>) (Inr ()))"

text \<open>The end of \<open>finish\<close>: refund what was not charged and record the outcome.\<close>

definition requests_close ::
    "string \<Rightarrow> primary_request \<Rightarrow> Amount \<Rightarrow> request_state \<Rightarrow> Event option \<Rightarrow> 'a \<Rightarrow> 'a primary_db \<Rightarrow>
     ('a primary_db, ledger_err, unit) tx" where
  "requests_close rid row refund0 next event aux db =
     (let refund = (if \<not> pq_funded row then 0 else refund0) in
      case USD refund of Inl m \<Rightarrow> Rollback (Inl (LMsg m)) | Inr _ \<Rightarrow>
      let users = (case credit_user (rq_UserID (pq_request row)) refund (pd_users db) of None \<Rightarrow> pd_users db | Some us \<Rightarrow> us) in
      Commit (db\<lparr>pd_users := users, pd_aux := aux,
        pd_requests := tput rid (row\<lparr>pq_state := next, pq_event := event\<rparr>) (pd_requests db)\<rparr>) (Inr ()))"

definition requests_finish ::
    "'a primary_requests \<Rightarrow> string \<Rightarrow> Event option \<Rightarrow> 'a primary_db \<Rightarrow> ('a primary_db, ledger_err, unit) tx" where
  "requests_finish p rid event db =
     (case map_of (pd_requests db) rid of None \<Rightarrow> Rollback (Inl LNoRows) | Some row \<Rightarrow>
      let r = pq_request row in
      if map_of (pd_users db) (rq_UserID r) = None then Rollback (Inl LNoRows)
      else case event of
        None \<Rightarrow>
          if pq_state row = RCanceled then Rollback (Inr ())
          else if pq_state row \<noteq> RReserved then Rollback (Inl LAlreadyDispatched)
          else (case ps_CancelScope p of None \<Rightarrow> Rollback (Inl (LMsg ''atomic cancellation scope required'')) | Some f \<Rightarrow>
                case f r (pd_aux db) of Inl err \<Rightarrow> Rollback (Inl err) | Inr aux \<Rightarrow>
                requests_close rid row (rq_Maximum r) RCanceled None aux db)
      | Some e \<Rightarrow>
          if pq_state row = RCompleted
          then (if pq_event row \<noteq> Some e then Rollback (Inl LConflict) else Rollback (Inr ()))
          else if pq_state row \<noteq> RStarted then Rollback (Inl LAlreadyDispatched)
          else let u = ev_Usage e in
          if u_UserID u \<noteq> rq_UserID r \<or> u_APIKeyID u \<noteq> rq_APIKeyID r \<or> u_AccountID u \<noteq> rq_AccountID r \<or>
             u_Charge u < 0 \<or> u_Charge u > rq_Maximum r \<or> u_AdmittedAt u \<noteq> rq_AdmittedAt r \<or>
             Before (u_CompletedAt u) (u_AdmittedAt u) \<or> ev_Model e \<noteq> rq_Model r \<or>
             ev_PricingVersion e \<noteq> rq_PricingVersion r \<or> ev_PayloadSHA256 e \<noteq> rq_PayloadSHA256 r
          then Rollback (Inl LConflict)
          else case ps_SettleScope p of None \<Rightarrow> Rollback (Inl (LMsg ''atomic settlement scope required'')) | Some f \<Rightarrow>
               case f e (pd_aux db) of Inl err \<Rightarrow> Rollback (Inl err) | Inr aux \<Rightarrow>
               requests_close rid row (rq_Maximum r - u_Charge u) RCompleted (Some e) aux db)"

definition requests_CancelBeforeStart ::
    "'a primary_requests \<Rightarrow> string \<Rightarrow> 'a primary_db \<Rightarrow> ('a primary_db, ledger_err, unit) tx" where
  "requests_CancelBeforeStart p rid = requests_finish p rid None"

definition requests_Complete ::
    "'a primary_requests \<Rightarrow> Event \<Rightarrow> 'a primary_db \<Rightarrow> ('a primary_db, ledger_err, unit) tx" where
  "requests_Complete p e = requests_finish p (u_EventID (ev_Usage e)) (Some e)"

section \<open>Published prices\<close>

text \<open>\<open>version\<close> stands for \<open>Price.Version\<close>, the hex digest of the price's JSON text. The usage log is
  unique in the request and API key.\<close>

record usage_log =
  ul_event :: Event
  ul_cost :: Amount

record 'x price_db =
  px_prices :: "(string, Price) table"
  px_logs :: "usage_log list"
  px_scope :: 'x

definition InstallPrice :: "(Price \<Rightarrow> string) \<Rightarrow> Price \<Rightarrow> 'x price_db \<Rightarrow> ('x price_db, ledger_err, unit) tx" where
  "InstallPrice version p db =
     (case Price_Validate p of Inl m \<Rightarrow> Rollback (Inl (LMsg m)) | Inr _ \<Rightarrow>
      if \<not> validDigest (version p) then Rollback (Inl LDB)
      else let db' = db\<lparr>px_prices := tnew (version p) p (px_prices db)\<rparr> in
      case map_of (px_prices db') (version p) of
        None \<Rightarrow> Commit db' (Inl LNoRows)
      | Some old \<Rightarrow> if old \<noteq> p then Commit db' (Inl LConflict) else Commit db' (Inr ()))"

definition PricingVerifier :: "(Price \<Rightarrow> string) \<Rightarrow> (Event \<Rightarrow> 'x \<Rightarrow> ledger_err + 'x) option \<Rightarrow> 'x price_db VerifyEvent" where
  "PricingVerifier version scope e db =
     (case scope of None \<Rightarrow> Inl (LMsg ''durable admission scope verifier required'') | Some f \<Rightarrow>
      case map_of (px_prices db) (ev_PricingVersion e) of None \<Rightarrow> Inl LNoRows | Some p \<Rightarrow>
      if version p \<noteq> ev_PricingVersion e \<or> p_Model p \<noteq> ev_Model e then Inl LConflict
      else case Charge p (ev_InputTokens e) (ev_OutputTokens e) (ev_CacheCreationTokens e) (ev_CacheReadTokens e) of
        Inl m \<Rightarrow> Inl (LMsg m)
      | Inr charge \<Rightarrow>
          if charge \<noteq> u_Charge (ev_Usage e) then Inl LConflict
          else case f e (px_scope db) of Inl err \<Rightarrow> Inl err | Inr sc \<Rightarrow>
          case USD charge of Inl m \<Rightarrow> Inl (LMsg m) | Inr _ \<Rightarrow>
          if list_ex (\<lambda>l. u_EventID (ev_Usage (ul_event l)) = u_EventID (ev_Usage e) \<and>
                 u_APIKeyID (ev_Usage (ul_event l)) = u_APIKeyID (ev_Usage e)) (px_logs db)
          then Inl LDB
          else Inr (db\<lparr>px_scope := sc, px_logs := px_logs db @ [\<lparr>ul_event = e, ul_cost = charge\<rparr>]\<rparr>))"

section \<open>Funds and steps\<close>

text \<open>
  What a user owns: the spendable balance, the grants of open leases and the holds of open requests, and what
  was spent under closed leases and completed requests.
\<close>

definition balance_of :: "int \<Rightarrow> 'a primary_db \<Rightarrow> int" where
  "balance_of u db = (case map_of (pd_users db) u of None \<Rightarrow> 0 | Some row \<Rightarrow> us_balance row)"

definition lease_funds :: "int \<Rightarrow> string \<Rightarrow> quota_row \<Rightarrow> int" where
  "lease_funds u lid row =
     (if l_UserID (qr_lease row) = u \<and> l_BillingMode (qr_lease row) \<noteq> ''subscription''
      then (if qr_closed row then qr_spent row else l_Granted (qr_lease row)) else 0)"

definition request_funds :: "int \<Rightarrow> string \<Rightarrow> primary_request \<Rightarrow> int" where
  "request_funds u rid row =
     (if rq_UserID (pq_request row) = u \<and> pq_funded row
      then (case pq_state row of RCanceled \<Rightarrow> 0
            | RCompleted \<Rightarrow> (case pq_event row of None \<Rightarrow> 0 | Some e \<Rightarrow> u_Charge (ev_Usage e))
            | _ \<Rightarrow> rq_Maximum (pq_request row))
      else 0)"

definition total_funds :: "int \<Rightarrow> 'a primary_db \<Rightarrow> int" where
  "total_funds u db = balance_of u db + tsum (lease_funds u) (pd_leases db) + tsum (request_funds u) (pd_requests db)"

inductive primary_funds_step :: "'a primary_db \<Rightarrow> 'a primary_db \<Rightarrow> bool" where
  pf_issue: "quota_Issue p now l db = Commit db' res \<Longrightarrow> primary_funds_step db db'"
| pf_settle: "quota_Settle region e verify db = Commit db' fresh \<Longrightarrow> primary_funds_step db db'"
| pf_close: "quota_Close p region receipt db = Commit db' res \<Longrightarrow> primary_funds_step db db'"
| pf_reserve: "requests_Reserve ps r db = Commit db' fresh \<Longrightarrow> primary_funds_step db db'"
| pf_start: "requests_Start rid db = Commit db' res \<Longrightarrow> primary_funds_step db db'"
| pf_finish: "requests_finish ps rid event db = Commit db' res \<Longrightarrow> primary_funds_step db db'"

section \<open>What a step writes\<close>

lemma debit_user_Some:
  "debit_user uid amount users = Some users' \<longleftrightarrow>
     (\<exists>row. map_of users uid = Some row \<and> us_active row \<and> amount \<le> us_balance row \<and>
        users' = tput uid (row\<lparr>us_balance := us_balance row - amount\<rparr>) users)"
  by (auto simp: debit_user_def split: option.splits)

lemma credit_user_Some:
  "credit_user uid amount users = Some users' \<longleftrightarrow>
     (\<exists>row. map_of users uid = Some row \<and> users' = tput uid (row\<lparr>us_balance := us_balance row + amount\<rparr>) users)"
  by (auto simp: credit_user_def split: option.splits)

lemma USD_nonneg: "USD a = Inr s \<Longrightarrow> 0 \<le> a"
  by (simp add: USD_def split: if_splits)

text \<open>A change of one user's balance, as it appears in the next table.\<close>

definition moved :: "int \<Rightarrow> int \<Rightarrow> 'a primary_db \<Rightarrow> 'a primary_db \<Rightarrow> bool" where
  "moved uid delta db db' \<longleftrightarrow>
     (delta = 0 \<and> pd_users db' = pd_users db \<or>
      (\<exists>row. map_of (pd_users db) uid = Some row \<and> 0 \<le> us_balance row + delta \<or> 0 \<le> delta) \<and>
      (\<exists>row. map_of (pd_users db) uid = Some row \<and>
        pd_users db' = tput uid (row\<lparr>us_balance := us_balance row + delta\<rparr>) (pd_users db)))"

lemma moved_balance: "moved uid delta db db' \<Longrightarrow> balance_of u db' = balance_of u db + (if u = uid then delta else 0)"
  by (auto simp: moved_def balance_of_def map_of_tput split: option.splits)

lemma moved_debit:
  "debit_user uid amount (pd_users db) = Some users \<Longrightarrow> pd_users db' = users \<Longrightarrow> moved uid (- amount) db db'"
  by (auto simp: debit_user_Some moved_def)

lemma moved_credit:
  "credit_user uid amount (pd_users db) = Some users \<Longrightarrow> pd_users db' = users \<Longrightarrow> 0 \<le> amount \<Longrightarrow> moved uid amount db db'"
  by (auto simp: credit_user_Some moved_def)

lemma moved_none: "pd_users db' = pd_users db \<Longrightarrow> moved uid 0 db db'"
  by (simp add: moved_def)

lemma primaryLease_Inr:
  "primaryLease lid db = Inr (l, spent, closed) \<longleftrightarrow>
     (\<exists>row. map_of (pd_leases db) lid = Some row \<and> l = (qr_lease row)\<lparr>l_SchemaVersion := SchemaVersion\<rparr> \<and>
        spent = qr_spent row \<and> closed = qr_closed row)"
  by (auto simp: primaryLease_def split: option.splits)

lemma primaryLease_Inl: "primaryLease lid db = Inl e \<longleftrightarrow> map_of (pd_leases db) lid = None \<and> e = LNoRows"
  by (auto simp: primaryLease_def split: option.splits)

lemma quota_Issue_commit:
  assumes "quota_Issue p now l db = Commit db' res"
  obtains "res = Inr ()" "Lease_Validate l = Inr ()" "map_of (pd_leases db) (l_LeaseID l) = None"
    "pd_leases db' = tput (l_LeaseID l) \<lparr>qr_lease = l, qr_spent = 0, qr_closed = False\<rparr> (pd_leases db)"
    "moved (l_UserID l) (if l_BillingMode l = ''subscription'' then 0 else - l_Granted l) db db'"
    "pd_settled db' = pd_settled db" "pd_requests db' = pd_requests db"
proof -
  obtain funded where f: "Lease_Validate l = Inr ()" "map_of (pd_leases db) (l_LeaseID l) = None"
    "(l_BillingMode l = ''subscription'') = (\<not> funded)" "quota_grant p l funded db = Commit db' res"
    using assms by (auto simp: quota_Issue_def primaryLease_Inl split: sum.splits if_splits)
  obtain users where u: "(if funded then debit_user (l_UserID l) (l_Granted l) (pd_users db) else Some (pd_users db)) = Some users"
    using f(4) by (auto simp: quota_grant_def split: option.splits)
  then have w: "res = Inr ()" "pd_users db' = users" "pd_settled db' = pd_settled db" "pd_requests db' = pd_requests db"
    "pd_leases db' = tput (l_LeaseID l) \<lparr>qr_lease = l, qr_spent = 0, qr_closed = False\<rparr> (pd_leases db)"
    using f(4) by (auto simp: quota_grant_def split: option.splits sum.splits if_splits)
  have "moved (l_UserID l) (if l_BillingMode l = ''subscription'' then 0 else - l_Granted l) db db'"
    using u w(2) f(3) by (cases funded) (simp_all add: moved_debit moved_none)
  then show ?thesis using that w f by blast
qed

lemma quota_Settle_commit:
  assumes "quota_Settle region e verify db = Commit db' res"
  obtains row v aux where "res = Inr True" "verify = Some v" "v e (pd_aux db) = Inr aux"
    "map_of (pd_leases db) (u_LeaseID (ev_Usage e)) = Some row" "\<not> qr_closed row" "region = l_RegionID (qr_lease row)"
    "Event_Validate e ((qr_lease row)\<lparr>l_SchemaVersion := SchemaVersion\<rparr>) = Inr ()"
    "map_of (pd_settled db) (u_EventID (ev_Usage e)) = None"
    "qr_spent row + u_Charge (ev_Usage e) \<le> l_Granted (qr_lease row)"
    "db' = db\<lparr>pd_aux := aux,
       pd_leases := tput (u_LeaseID (ev_Usage e)) (row\<lparr>qr_spent := qr_spent row + u_Charge (ev_Usage e)\<rparr>) (pd_leases db),
       pd_settled := tput (u_EventID (ev_Usage e)) (u_LeaseID (ev_Usage e), e) (pd_settled db)\<rparr>"
proof -
  obtain v lease spent closed where a: "verify = Some v" "primaryLease (u_LeaseID (ev_Usage e)) db = Inr (lease, spent, closed)"
    using assms by (auto simp: quota_Settle_def split: option.splits sum.splits)
  then obtain row where row: "map_of (pd_leases db) (u_LeaseID (ev_Usage e)) = Some row"
    "lease = (qr_lease row)\<lparr>l_SchemaVersion := SchemaVersion\<rparr>" "closed = qr_closed row" by (auto simp: primaryLease_Inr)
  have v: "Event_Validate e lease = Inr ()" using assms a by (auto simp: quota_Settle_def split: sum.splits if_splits)
  have lid: "l_LeaseID (qr_lease row) = u_LeaseID (ev_Usage e)"
    using ValidateAgainst_scope(1) [OF Event_Validate_usage [OF v]] row(2) by simp
  have none: "map_of (pd_settled db) (u_EventID (ev_Usage e)) = None"
    using assms a v by (cases "map_of (pd_settled db) (u_EventID (ev_Usage e))") (auto simp: quota_Settle_def split: if_splits)
  show ?thesis
    using assms a v row lid none
    by (auto simp: quota_Settle_def intro!: that split: sum.splits if_splits option.splits)
qed

lemma quota_Close_commit:
  assumes "quota_Close p region receipt db = Commit db' res"
  obtains row where "res = Inr ()" "map_of (pd_leases db) (dr_LeaseID receipt) = Some row" "\<not> qr_closed row"
    "l_RegionID (qr_lease row) = region" "dr_Region receipt = region" "dr_Spent receipt = qr_spent row"
    "qr_spent row \<le> l_Granted (qr_lease row)"
    "moved (l_UserID (qr_lease row)) (if l_BillingMode (qr_lease row) = ''subscription'' then 0
       else l_Granted (qr_lease row) - qr_spent row) db db'"
    "pd_leases db' = (case map_of (pd_leases db) (l_LeaseID (qr_lease row)) of None \<Rightarrow> pd_leases db
       | Some row' \<Rightarrow> tput (l_LeaseID (qr_lease row)) (row'\<lparr>qr_closed := True\<rparr>) (pd_leases db))"
    "pd_settled db' = pd_settled db" "pd_requests db' = pd_requests db"
proof -
  obtain lease spent closed where a: "primaryLease (dr_LeaseID receipt) db = Inr (lease, spent, closed)"
    using assms by (auto simp: quota_Close_def split: sum.splits)
  then obtain row where row: "map_of (pd_leases db) (dr_LeaseID receipt) = Some row"
    "lease = (qr_lease row)\<lparr>l_SchemaVersion := SchemaVersion\<rparr>" "spent = qr_spent row" "closed = qr_closed row"
    by (auto simp: primaryLease_Inr)
  have g: "l_RegionID (qr_lease row) = region" "dr_Region receipt = region" "dr_Spent receipt = qr_spent row" "\<not> qr_closed row"
    using assms a row by (auto simp: quota_Close_def split: if_splits)
  obtain s where s: "USD (l_Granted (qr_lease row) - qr_spent row) = Inr s"
    using assms a row g by (auto simp: quota_Close_def split: sum.splits)
  obtain users where u: "(if l_BillingMode (qr_lease row) \<noteq> ''subscription''
      then credit_user (l_UserID (qr_lease row)) (l_Granted (qr_lease row) - qr_spent row) (pd_users db)
      else Some (pd_users db)) = Some users"
    using assms a row g s
    by (cases "l_BillingMode (qr_lease row) = ''subscription''";
        cases "credit_user (l_UserID (qr_lease row)) (l_Granted (qr_lease row) - qr_spent row) (pd_users db)")
       (auto simp: quota_Close_def)
  have w: "res = Inr ()" "pd_users db' = users" "pd_settled db' = pd_settled db" "pd_requests db' = pd_requests db"
    "pd_leases db' = (case map_of (pd_leases db) (l_LeaseID (qr_lease row)) of None \<Rightarrow> pd_leases db
       | Some row' \<Rightarrow> tput (l_LeaseID (qr_lease row)) (row'\<lparr>qr_closed := True\<rparr>) (pd_leases db))"
    using assms a row g s u
    by (cases "l_BillingMode (qr_lease row) = ''subscription''";
        auto simp: quota_Close_def simp del: map_of_eq_Some_iff split: sum.splits option.splits)+
  have pos: "0 \<le> l_Granted (qr_lease row) - qr_spent row" by (rule USD_nonneg [OF s])
  then have "moved (l_UserID (qr_lease row)) (if l_BillingMode (qr_lease row) = ''subscription'' then 0
       else l_Granted (qr_lease row) - qr_spent row) db db'"
    using u w(2) by (auto simp: moved_credit moved_none split: if_splits)
  then show ?thesis using that [of row] w row g pos by simp
qed

lemma requests_Reserve_commit:
  assumes "requests_Reserve p r db = Commit db' res"
  obtains funded where "res = Inr True" "map_of (pd_requests db) (rq_RequestID r) = None" "0 < rq_Maximum r"
    "pd_requests db' = tput (rq_RequestID r)
       \<lparr>pq_request = r, pq_state = RReserved, pq_event = None, pq_funded = funded\<rparr> (pd_requests db)"
    "moved (rq_UserID r) (if funded then - rq_Maximum r else 0) db db'"
    "pd_leases db' = pd_leases db" "pd_settled db' = pd_settled db"
proof -
  obtain auth funded where a: "ps_Authorize p = Some auth" "map_of (pd_requests db) (rq_RequestID r) = None" "0 < rq_Maximum r"
    "funding (ps_Funding p) (rq_UserID r) (rq_APIKeyID r) (pd_aux db) = Inr funded"
    using assms by (auto simp: requests_Reserve_def split: option.splits sum.splits if_splits)
  obtain users where u: "(if funded then debit_user (rq_UserID r) (rq_Maximum r) (pd_users db) else Some (pd_users db)) = Some users"
    using assms a by (cases "if funded then debit_user (rq_UserID r) (rq_Maximum r) (pd_users db) else Some (pd_users db)")
      (auto simp: requests_Reserve_def split: sum.splits if_splits)
  have w: "res = Inr True" "pd_users db' = users" "pd_leases db' = pd_leases db" "pd_settled db' = pd_settled db"
    "pd_requests db' = tput (rq_RequestID r)
       \<lparr>pq_request = r, pq_state = RReserved, pq_event = None, pq_funded = funded\<rparr> (pd_requests db)"
    using assms a u by (auto simp: requests_Reserve_def split: sum.splits if_splits)
  have "moved (rq_UserID r) (if funded then - rq_Maximum r else 0) db db'"
    using u w(2) by (cases funded) (simp_all add: moved_debit moved_none)
  then show ?thesis using that w a by blast
qed

lemma requests_Start_commit:
  assumes "requests_Start rid db = Commit db' res"
  obtains row where "res = Inr ()" "map_of (pd_requests db) rid = Some row" "pq_state row = RReserved"
    "db' = db\<lparr>pd_requests := tput rid (row\<lparr>pq_state := RStarted\<rparr>) (pd_requests db)\<rparr>"
  using assms by (auto simp: requests_Start_def split: option.splits if_splits)

lemma requests_close_commit:
  assumes "requests_close rid row refund next event aux db = Commit db' res" "map_of (pd_users db) (rq_UserID (pq_request row)) \<noteq> None"
  shows "moved (rq_UserID (pq_request row)) (if pq_funded row then refund else 0) db db'"
    "pd_requests db' = tput rid (row\<lparr>pq_state := next, pq_event := event\<rparr>) (pd_requests db)"
    "pd_leases db' = pd_leases db" "pd_settled db' = pd_settled db" "res = Inr ()"
proof -
  let ?a = "if \<not> pq_funded row then 0 else refund"
  obtain s where s: "USD ?a = Inr s" using assms(1) by (auto simp: requests_close_def Let_def split: sum.splits)
  obtain users where u: "credit_user (rq_UserID (pq_request row)) ?a (pd_users db) = Some users"
    using assms(2) by (auto simp: credit_user_def)
  have w: "pd_users db' = users \<and> pd_requests db' = tput rid (row\<lparr>pq_state := next, pq_event := event\<rparr>) (pd_requests db) \<and>
    pd_leases db' = pd_leases db \<and> pd_settled db' = pd_settled db \<and> res = Inr ()"
    using assms(1) s u by (auto simp: requests_close_def)
  then show "pd_requests db' = tput rid (row\<lparr>pq_state := next, pq_event := event\<rparr>) (pd_requests db)"
    "pd_leases db' = pd_leases db" "pd_settled db' = pd_settled db" "res = Inr ()" by blast+
  show "moved (rq_UserID (pq_request row)) (if pq_funded row then refund else 0) db db'"
    using moved_credit [OF u _ USD_nonneg [OF s], of db'] w by (simp split: if_splits)
qed

lemma requests_finish_commit:
  assumes "requests_finish p rid event db = Commit db' res"
  obtains (cancel) row where "event = None" "map_of (pd_requests db) rid = Some row" "pq_state row = RReserved"
      "moved (rq_UserID (pq_request row)) (if pq_funded row then rq_Maximum (pq_request row) else 0) db db'"
      "pd_requests db' = tput rid (row\<lparr>pq_state := RCanceled, pq_event := None\<rparr>) (pd_requests db)"
      "pd_leases db' = pd_leases db" "pd_settled db' = pd_settled db" "res = Inr ()"
  | (complete) row e where "event = Some e" "map_of (pd_requests db) rid = Some row" "pq_state row = RStarted"
      "0 \<le> u_Charge (ev_Usage e)" "u_Charge (ev_Usage e) \<le> rq_Maximum (pq_request row)"
      "moved (rq_UserID (pq_request row)) (if pq_funded row then rq_Maximum (pq_request row) - u_Charge (ev_Usage e) else 0) db db'"
      "pd_requests db' = tput rid (row\<lparr>pq_state := RCompleted, pq_event := Some e\<rparr>) (pd_requests db)"
      "pd_leases db' = pd_leases db" "pd_settled db' = pd_settled db" "res = Inr ()"
proof -
  obtain row where row: "map_of (pd_requests db) rid = Some row" "map_of (pd_users db) (rq_UserID (pq_request row)) \<noteq> None"
    using assms by (auto simp: requests_finish_def Let_def split: option.splits if_splits)
  show ?thesis
  proof (cases event)
    case None
    then obtain aux where "pq_state row = RReserved"
      "requests_close rid row (rq_Maximum (pq_request row)) RCanceled None aux db = Commit db' res"
      using assms row by (auto simp: requests_finish_def Let_def split: if_splits option.splits sum.splits)
    then show ?thesis using None row requests_close_commit [of rid row "rq_Maximum (pq_request row)" RCanceled None aux db db' res] cancel
      by blast
  next
    case (Some e)
    then obtain aux where c: "pq_state row = RStarted" "0 \<le> u_Charge (ev_Usage e)" "u_Charge (ev_Usage e) \<le> rq_Maximum (pq_request row)"
      "requests_close rid row (rq_Maximum (pq_request row) - u_Charge (ev_Usage e)) RCompleted (Some e) aux db = Commit db' res"
      using assms row by (auto simp: requests_finish_def Let_def split: if_splits option.splits sum.splits)
    then show ?thesis using Some row requests_close_commit [OF c(4)] complete by blast
  qed
qed

section \<open>The invariant is kept and funds are conserved\<close>

definition settled_weight :: "string \<Rightarrow> string \<Rightarrow> string \<times> Event \<Rightarrow> int" where
  "settled_weight lid eid le = (if fst le = lid then u_Charge (ev_Usage (snd le)) else 0)"

definition quota_ok :: "'a primary_db \<Rightarrow> string \<Rightarrow> quota_row \<Rightarrow> bool" where
  "quota_ok db lid row \<longleftrightarrow> l_LeaseID (qr_lease row) = lid \<and> 0 \<le> qr_spent row \<and> qr_spent row \<le> l_Granted (qr_lease row) \<and>
     qr_spent row = tsum (settled_weight lid) (pd_settled db)"

definition settled_ok :: "'a primary_db \<Rightarrow> string \<Rightarrow> string \<Rightarrow> Event \<Rightarrow> bool" where
  "settled_ok db eid lid e \<longleftrightarrow> u_EventID (ev_Usage e) = eid \<and> u_LeaseID (ev_Usage e) = lid \<and>
     (\<exists>row. map_of (pd_leases db) lid = Some row \<and> l_RegionID (qr_lease row) = u_RegionID (ev_Usage e))"

definition primary_inv :: "'a primary_db \<Rightarrow> bool" where
  "primary_inv db \<longleftrightarrow>
     distinct (map fst (pd_leases db)) \<and> distinct (map fst (pd_settled db)) \<and>
     (\<forall>u row. map_of (pd_users db) u = Some row \<longrightarrow> 0 \<le> us_balance row) \<and>
     (\<forall>lid row. map_of (pd_leases db) lid = Some row \<longrightarrow> quota_ok db lid row) \<and>
     (\<forall>eid lid e. map_of (pd_settled db) eid = Some (lid, e) \<longrightarrow> settled_ok db eid lid e)"

lemma primary_invD:
  assumes "primary_inv db"
  shows "distinct (map fst (pd_leases db))" "distinct (map fst (pd_settled db))"
    "map_of (pd_users db) u = Some r \<Longrightarrow> 0 \<le> us_balance r"
    "map_of (pd_leases db) lid = Some row \<Longrightarrow> quota_ok db lid row"
    "map_of (pd_settled db) eid = Some (lid, e) \<Longrightarrow> settled_ok db eid lid e"
  using assms unfolding primary_inv_def by blast+

lemma moved_users:
  assumes "moved uid delta db db'" "\<And>u row. map_of (pd_users db) u = Some row \<Longrightarrow> 0 \<le> us_balance row"
    "map_of (pd_users db') u = Some row"
  shows "0 \<le> us_balance row"
  using assms(1)
  unfolding moved_def
proof (elim disjE conjE exE)
  fix r assume r: "map_of (pd_users db) uid = Some r" "pd_users db' = tput uid (r\<lparr>us_balance := us_balance r + delta\<rparr>) (pd_users db)"
    "0 \<le> delta"
  then show ?thesis using assms(2) [OF r(1)] assms(2) [of u row] assms(3) by (auto simp: map_of_tput split: if_splits)
next
  fix r r' assume r: "map_of (pd_users db) uid = Some r" "0 \<le> us_balance r + delta"
    "map_of (pd_users db) uid = Some r'" "pd_users db' = tput uid (r'\<lparr>us_balance := us_balance r' + delta\<rparr>) (pd_users db)"
  then show ?thesis using assms(2) [of u row] assms(3) by (auto simp: map_of_tput split: if_splits)
qed (use assms in auto)

text \<open>Operations that touch neither leases nor settled events.\<close>

lemma primary_inv_requests:
  assumes "primary_inv db" "moved uid delta db db'" "pd_leases db' = pd_leases db" "pd_settled db' = pd_settled db"
  shows "primary_inv db'"
  using assms moved_users [OF assms(2) primary_invD(3) [OF assms(1)]] primary_invD [OF assms(1)]
  unfolding primary_inv_def quota_ok_def settled_ok_def by auto

lemma quota_Issue_inv:
  assumes "quota_Issue p now l db = Commit db' res" and inv: "primary_inv db"
  shows "primary_inv db'"
  using assms(1)
proof (cases rule: quota_Issue_commit)
  case 1
  note D = primary_invD [OF inv]
  have zero: "settled_weight (l_LeaseID l) eid le = 0" if "(eid, le) \<in> set (pd_settled db)" for eid le
  proof -
    have "map_of (pd_settled db) eid = Some (fst le, snd le)" using that D(2) by simp
    then have "settled_ok db eid (fst le) (snd le)" by (rule D(5))
    then show ?thesis using 1(3) by (auto simp: settled_ok_def settled_weight_def)
  qed
  have "tsum (settled_weight (l_LeaseID l)) (pd_settled db) = tsum (\<lambda>_ _. 0) (pd_settled db)"
    by (rule tsum_cong) (rule zero)
  moreover have "0 \<le> l_Granted l" using 1(2) by (simp add: Lease_Validate_def split: if_splits)
  ultimately have "quota_ok db' lid row" if "map_of (pd_leases db') lid = Some row" for lid row
    using that D(4) [of lid row] 1 by (cases "lid = l_LeaseID l") (auto simp: quota_ok_def map_of_tput)
  moreover have "settled_ok db' eid lid e" if "map_of (pd_settled db') eid = Some (lid, e)" for eid lid e
    using that D(5) [of eid lid e] 1 by (auto simp: settled_ok_def map_of_tput)
  ultimately show ?thesis
    using D(1,2) moved_users [OF 1(5) D(3)] 1 unfolding primary_inv_def by (auto simp: table_simps)
qed

lemma quota_Settle_inv:
  assumes "quota_Settle region e verify db = Commit db' res" and inv: "primary_inv db"
  shows "primary_inv db'"
  using assms(1)
proof (cases rule: quota_Settle_commit)
  case (1 row v aux)
  let ?lid = "u_LeaseID (ev_Usage e)" and ?eid = "u_EventID (ev_Usage e)"
  note D = primary_invD [OF inv]
  have scope: "u_RegionID (ev_Usage e) = l_RegionID (qr_lease row)" "0 \<le> u_Charge (ev_Usage e)"
    using ValidateAgainst_scope [OF Event_Validate_usage [OF 1(7)]] by simp_all
  have eq: "pd_users db' = pd_users db" "pd_settled db' = tput ?eid (?lid, e) (pd_settled db)"
    "pd_leases db' = tput ?lid (row\<lparr>qr_spent := qr_spent row + u_Charge (ev_Usage e)\<rparr>) (pd_leases db)"
    by (simp_all add: 1)
  have sum: "tsum (settled_weight k) (pd_settled db') = tsum (settled_weight k) (pd_settled db) +
      (if k = ?lid then u_Charge (ev_Usage e) else 0)" for k
    using 1(8) by (simp add: eq tsum_tput settled_weight_def)
  have "quota_ok db' lid r" if r: "map_of (pd_leases db') lid = Some r" for lid r
  proof (cases "lid = ?lid")
    case True
    then show ?thesis using r D(4) [OF 1(4)] 1(9) scope(2) sum [of lid] by (simp add: eq(3) map_of_tput quota_ok_def) auto
  next
    case False
    then show ?thesis using r D(4) [of lid r] sum [of lid] by (simp add: eq(3) map_of_tput quota_ok_def)
  qed
  moreover have "settled_ok db' eid lid e'" if s: "map_of (pd_settled db') eid = Some (lid, e')" for eid lid e'
  proof (cases "eid = ?eid")
    case True
    then show ?thesis using s scope by (auto simp: eq map_of_tput settled_ok_def)
  next
    case False
    then have "settled_ok db eid lid e'" using s D(5) by (simp add: eq map_of_tput)
    then show ?thesis using 1(4) by (auto simp: eq map_of_tput settled_ok_def)
  qed
  ultimately show ?thesis using D(1-3) unfolding primary_inv_def by (simp add: eq table_simps)
qed

lemma quota_Close_effect:
  assumes "quota_Close p region receipt db = Commit db' res" and inv: "primary_inv db"
  obtains row where "map_of (pd_leases db) (dr_LeaseID receipt) = Some row" "\<not> qr_closed row"
    "l_RegionID (qr_lease row) = region" "dr_Region receipt = region" "dr_Spent receipt = qr_spent row"
    "moved (l_UserID (qr_lease row)) (if l_BillingMode (qr_lease row) = ''subscription'' then 0
       else l_Granted (qr_lease row) - qr_spent row) db db'"
    "pd_leases db' = tput (dr_LeaseID receipt) (row\<lparr>qr_closed := True\<rparr>) (pd_leases db)"
    "pd_settled db' = pd_settled db" "pd_requests db' = pd_requests db"
  using assms(1)
proof (cases rule: quota_Close_commit)
  case (1 row)
  have "l_LeaseID (qr_lease row) = dr_LeaseID receipt" using primary_invD(4) [OF inv 1(2)] by (simp add: quota_ok_def)
  then show ?thesis using 1 that by simp
qed

lemma quota_Close_inv:
  assumes "quota_Close p region receipt db = Commit db' res" and inv: "primary_inv db"
  shows "primary_inv db'"
  using quota_Close_effect [OF assms]
proof cases
  case (1 row)
  note D = primary_invD [OF inv]
  have "quota_ok db' lid r" if "map_of (pd_leases db') lid = Some r" for lid r
    using that D(4) [of lid r] D(4) [OF 1(1)] 1 by (cases "lid = dr_LeaseID receipt") (auto simp: quota_ok_def map_of_tput)
  moreover have "settled_ok db' eid lid e" if "map_of (pd_settled db') eid = Some (lid, e)" for eid lid e
    using that D(5) [of eid lid e] 1 by (auto simp: settled_ok_def map_of_tput)
  ultimately show ?thesis
    using D(1,2) moved_users [OF 1(6) D(3)] 1 unfolding primary_inv_def by (auto simp: table_simps)
qed

lemma primary_funds_step_inv: "primary_funds_step db db' \<Longrightarrow> primary_inv db \<Longrightarrow> primary_inv db'"
proof (induction rule: primary_funds_step.induct)
  case pf_reserve
  then show ?case by (elim requests_Reserve_commit) (rule primary_inv_requests)
next
  case (pf_start rid db db' res)
  then show ?case by (elim requests_Start_commit) (rule primary_inv_requests [OF _ moved_none], simp_all)
next
  case pf_finish
  then show ?case by (elim requests_finish_commit) (rule primary_inv_requests, assumption+)+
qed (blast intro: quota_Issue_inv quota_Settle_inv quota_Close_inv)+

lemma primary_funds_step_total:
  "primary_funds_step db db' \<Longrightarrow> primary_inv db \<Longrightarrow> total_funds u db' = total_funds u db"
proof (induction rule: primary_funds_step.induct)
  case (pf_issue p now l db db' res)
  from pf_issue(1) show ?case
    by (cases rule: quota_Issue_commit) (simp add: total_funds_def moved_balance tsum_tput lease_funds_def)
next
  case (pf_settle region e verify db db' fresh)
  from pf_settle(1) show ?case
    by (cases rule: quota_Settle_commit) (simp add: total_funds_def balance_of_def tsum_tput lease_funds_def)
next
  case (pf_close p region receipt db db' res)
  from quota_Close_effect [OF pf_close] show ?case
    by cases (simp add: total_funds_def moved_balance tsum_tput lease_funds_def)
next
  case (pf_reserve ps r db db' fresh)
  from pf_reserve(1) show ?case
    by (cases rule: requests_Reserve_commit) (simp add: total_funds_def moved_balance tsum_tput request_funds_def)
next
  case (pf_start rid db db' res)
  from pf_start(1) show ?case
    by (cases rule: requests_Start_commit) (simp add: total_funds_def balance_of_def tsum_tput request_funds_def)
next
  case (pf_finish ps rid event db db' res)
  from pf_finish(1) show ?case
    by (cases rule: requests_finish_commit) (simp_all add: total_funds_def moved_balance tsum_tput request_funds_def)
qed

lemma primary_funds_steps:
  "primary_funds_step\<^sup>*\<^sup>* db db' \<Longrightarrow> primary_inv db \<Longrightarrow> primary_inv db' \<and> total_funds u db' = total_funds u db"
  by (induction rule: rtranclp_induct) (auto simp: primary_funds_step_total intro: primary_funds_step_inv)

section \<open>Properties\<close>

definition sample_funds :: "unit price_db primary_db" where
  "sample_funds = \<lparr>pd_users = [(3, \<lparr>us_balance = 500, us_active = True\<rparr>)], pd_leases = [], pd_settled = [], pd_requests = [],
     pd_aux = \<lparr>px_prices = [], px_logs = [], px_scope = ()\<rparr>\<rparr>"

definition sample_quota :: Lease where
  "sample_quota = \<lparr>l_BillingMode = '''', l_APIKeyID = 0, l_AccountID = 0, l_SchemaVersion = 1, l_LeaseID = ''q-1'',
     l_RegionID = ''eu'', l_UserID = 3, l_Granted = 100, l_IssuedAt = 1000, l_ExpiresAt = 9000\<rparr>"

definition sample_quota_primary :: "'a primary" where
  "sample_quota_primary = \<lparr>pr_Funding = None, pr_ReserveScope = None, pr_CloseScope = None\<rparr>"

definition sample_granted :: "unit price_db primary_db" where
  "sample_granted = sample_funds\<lparr>pd_users := [(3, \<lparr>us_balance = 400, us_active = True\<rparr>)],
     pd_leases := [(''q-1'', \<lparr>qr_lease = sample_quota, qr_spent = 0, qr_closed = False\<rparr>)]\<rparr>"

lemma sample_quota_issue: "quota_Issue sample_quota_primary 2000 sample_quota sample_funds = Commit sample_granted (Inr ())"
  by code_simp

lemma sample_funds_inv: "primary_inv sample_funds"
  by (simp add: primary_inv_def sample_funds_def)

text \<open>C3: money is conserved on the primary. Along any sequence of issuing, settling and closing regional
  leases and of reserving, starting, cancelling and completing the primary's own requests, every user's
  balance plus the open grants and holds plus what was actually spent stays the same; no balance goes
  negative and no lease is spent beyond its grant.\<close>

theorem funds_conserved:
  assumes "primary_inv db" "primary_funds_step\<^sup>*\<^sup>* db db'"
  shows "total_funds u db' = total_funds u db \<and> 0 \<le> balance_of u db' \<and>
    (\<forall>row. map_of (pd_leases db') lid = Some row \<longrightarrow> qr_spent row \<le> l_Granted (qr_lease row))"
proof -
  have inv: "primary_inv db'" and total: "total_funds u db' = total_funds u db"
    using primary_funds_steps [OF assms(2,1), of u] by blast+
  have "0 \<le> balance_of u db'" using primary_invD(3) [OF inv] by (auto simp: balance_of_def split: option.splits)
  moreover have "qr_spent row \<le> l_Granted (qr_lease row)" if "map_of (pd_leases db') lid = Some row" for row
    using primary_invD(4) [OF inv that] by (simp add: quota_ok_def)
  ultimately show ?thesis using total by blast
qed

theorem funds_conserved_witness:
  "primary_funds_step sample_funds sample_granted \<and> balance_of 3 sample_granted = 400 \<and> total_funds 3 sample_granted = 500"
proof -
  have step: "primary_funds_step sample_funds sample_granted" by (rule pf_issue [OF sample_quota_issue])
  have "total_funds 3 sample_funds = 500" by (simp add: total_funds_def balance_of_def sample_funds_def)
  moreover have "total_funds 3 sample_granted = total_funds 3 sample_funds"
    using funds_conserved [OF sample_funds_inv r_into_rtranclp [of primary_funds_step, OF step], of 3] by blast
  moreover have "balance_of 3 sample_granted = 400" by (simp add: balance_of_def sample_granted_def)
  ultimately show ?thesis using step by simp
qed

end
