(* ===== verification/Dispatch.thy ===== *)
theory Dispatch
  imports LedgerPrimary
begin

text \<open>
  \<^verbatim>\<open>backend/internal/regional/ledger/execution.go\<close>: the boundary at which a metered request is sent
  upstream. The Go interface \<open>RequestLedger\<close> is the record of its four operations; the regional ledger
  and the primary's requests implement it. \<open>ExecuteBounded\<close> is a sequence of transactions: before each of
  them other processes may have changed the database (\<open>xe_env\<close>), and each may fail (\<open>xe_flt\<close>). The
  result lists the errors the code joins, tells whether \<open>send\<close> was called, and gives the database.
\<close>

record 'db RequestLedger =
  rl_Reserve :: "gotime \<Rightarrow> Reservation \<Rightarrow> 'db \<Rightarrow> ('db, ledger_err, bool) tx"
  rl_Start :: "gotime \<Rightarrow> string \<Rightarrow> 'db \<Rightarrow> ('db, ledger_err, unit) tx"
  rl_CancelBeforeStart :: "string \<Rightarrow> 'db \<Rightarrow> ('db, ledger_err, unit) tx"
  rl_Complete :: "Event \<Rightarrow> 'db \<Rightarrow> ('db, ledger_err, unit) tx"

definition local_requests :: "string \<Rightarrow> ledger_db RequestLedger" where
  "local_requests region = \<lparr>rl_Reserve = ledger_Reserve region, rl_Start = ledger_Start region,
     rl_CancelBeforeStart = ledger_CancelBeforeStart region, rl_Complete = ledger_Complete region\<rparr>"

definition main_requests :: "'a primary_requests \<Rightarrow> 'a primary_db RequestLedger" where
  "main_requests p = \<lparr>rl_Reserve = (\<lambda>now. requests_Reserve p), rl_Start = (\<lambda>now. requests_Start),
     rl_CancelBeforeStart = requests_CancelBeforeStart p, rl_Complete = requests_Complete p\<rparr>"

record MeasuredUsage =
  mu_Input :: int
  mu_Output :: int
  mu_CacheCreation :: int
  mu_CacheRead :: int
  mu_Final :: bool

record 'db exec_env =
  xe_env :: "nat \<Rightarrow> 'db \<Rightarrow> 'db"
  xe_flt :: "nat \<Rightarrow> db_fault"
  xe_now :: "nat \<Rightarrow> gotime"
  xe_canceled :: bool
  xe_completed :: gotime

definition errs :: "ledger_err + 'a \<Rightarrow> ledger_err list" where
  "errs r = (case r of Inl e \<Rightarrow> [e] | Inr _ \<Rightarrow> [])"

definition exec_call :: "'db exec_env \<Rightarrow> nat \<Rightarrow> ('db \<Rightarrow> ('db, ledger_err, 'b) tx) \<Rightarrow> 'db \<Rightarrow> (ledger_err + 'b) \<times> 'db" where
  "exec_call x k op db = run_tx (xe_flt x k) LDB op (xe_env x k db)"

text \<open>After \<open>send\<close>: settle the measured usage, or keep the reservation.\<close>

definition exec_settle ::
    "'db RequestLedger \<Rightarrow> 'db exec_env \<Rightarrow> Price \<Rightarrow> Reservation \<Rightarrow> int \<Rightarrow> MeasuredUsage \<times> ledger_err option \<Rightarrow> 'db \<Rightarrow>
     ledger_err list \<times> 'db" where
  "exec_settle L x p r maxOutput sent db =
     (let usage = fst sent; sendErr = snd sent in
      if sendErr \<noteq> None \<and> \<not> mu_Final usage then ([the sendErr], db)
      else if \<not> mu_Final usage then ([LMsg ''terminal usage missing; reservation retained''], db)
      else if mu_Output usage > maxOutput then ([LMsg ''output exceeds enforced request limit; reservation retained''], db)
      else case Charge p (mu_Input usage) (mu_Output usage) (mu_CacheCreation usage) (mu_CacheRead usage) of
        Inl m \<Rightarrow> ([LMsg m], db)
      | Inr charge \<Rightarrow>
          let e = \<lparr>ev_Usage = \<lparr>u_SchemaVersion = SchemaVersion, u_EventID = rq_RequestID r, u_LeaseID = rq_LeaseID r,
                     u_RegionID = rq_RegionID r, u_UserID = rq_UserID r, u_APIKeyID = rq_APIKeyID r,
                     u_AccountID = rq_AccountID r, u_AdmittedAt = rq_AdmittedAt r, u_CompletedAt = xe_completed x,
                     u_Charge = charge\<rparr>,
                   ev_Model = rq_Model r, ev_PricingVersion = rq_PricingVersion r, ev_PayloadSHA256 = rq_PayloadSHA256 r,
                   ev_InputTokens = mu_Input usage, ev_OutputTokens = mu_Output usage,
                   ev_CacheCreationTokens = mu_CacheCreation usage, ev_CacheReadTokens = mu_CacheRead usage\<rparr>;
              (res, db') = exec_call x 2 (rl_Complete L e) db
          in ((case sendErr of None \<Rightarrow> [] | Some e \<Rightarrow> [e]) @ errs res, db'))"

definition ExecuteBounded ::
    "(Price \<Rightarrow> string) \<Rightarrow> (string \<Rightarrow> string) \<Rightarrow> 'db RequestLedger \<Rightarrow> 'db exec_env \<Rightarrow> Price \<Rightarrow> Reservation \<Rightarrow> string \<Rightarrow> int \<Rightarrow>
     (MeasuredUsage \<times> ledger_err option) option \<Rightarrow> 'db \<Rightarrow> ledger_err list \<times> bool \<times> 'db" where
  "ExecuteBounded version sha256hex L x p r0 payload maxOutput send db0 =
     (case send of None \<Rightarrow> ([LMsg ''metered dispatch dependencies required''], False, db0) | Some sent \<Rightarrow>
      case Maximum p maxOutput of Inl m \<Rightarrow> ([LMsg m], False, db0) | Inr maximum \<Rightarrow>
      if maximum \<le> 0 then ([LMsg ''nonzero conservative reservation required''], False, db0)
      else
        let r = r0\<lparr>rq_Maximum := maximum, rq_Model := p_Model p, rq_PricingVersion := version p,
                   rq_PayloadSHA256 := sha256hex payload\<rparr>;
            (res, db1) = exec_call x 0 (rl_Reserve L (xe_now x 0) r) db0
        in case res of Inl e \<Rightarrow> ([e], False, db1) | Inr fresh \<Rightarrow>
           if \<not> fresh then ([LAlreadyDispatched], False, db1)
           else if xe_canceled x
           then (let (res2, db2) = exec_call x 1 (rl_CancelBeforeStart L (rq_RequestID r)) db1 in (LCtx # errs res2, False, db2))
           else (let (res2, db2) = exec_call x 1 (rl_Start L (xe_now x 1) (rq_RequestID r)) db1 in
                 case res2 of Inl e \<Rightarrow> ([e], False, db2)
                 | Inr _ \<Rightarrow> (let (es, db3) = exec_settle L x p r maxOutput sent db2 in (es, True, db3))))"

section \<open>The contract\<close>

text \<open>The life of a request: absent, reserved, then canceled or started, then completed.\<close>

fun may_follow :: "request_state option \<Rightarrow> request_state option \<Rightarrow> bool" where
  "may_follow None s = (s = None \<or> s = Some RReserved)"
| "may_follow (Some RReserved) s = (s \<in> {Some RReserved, Some RStarted, Some RCanceled})"
| "may_follow (Some RStarted) s = (s \<in> {Some RStarted, Some RCompleted})"
| "may_follow (Some st) s = (s = Some st)"

locale request_ledger =
  fixes L :: "'db RequestLedger"
    and stage :: "string \<Rightarrow> 'db \<Rightarrow> request_state option"
    and step :: "'db \<Rightarrow> 'db \<Rightarrow> bool"
  assumes reserve_step: "rl_Reserve L now r db = Commit db' fresh \<Longrightarrow> step db db'"
    and start_step: "rl_Start L now q db = Commit db' u \<Longrightarrow> step db db'"
    and cancel_step: "rl_CancelBeforeStart L q db = Commit db' u \<Longrightarrow> step db db'"
    and complete_step: "rl_Complete L e db = Commit db' u \<Longrightarrow> step db db'"
    and step_stage: "step db db' \<Longrightarrow> may_follow (stage q db) (stage q db')"
    and reserve_fresh: "rl_Reserve L now r db = Commit db' (Inr True) \<Longrightarrow>
      stage (rq_RequestID r) db = None \<and> stage (rq_RequestID r) db' = Some RReserved"
    and reserve_replay: "rl_Reserve L now r db \<noteq> Rollback (Inr True)"
    and start_ok: "rl_Start L now q db = Commit db' (Inr ()) \<Longrightarrow> stage q db = Some RReserved \<and> stage q db' = Some RStarted"
    and start_replay: "rl_Start L now q db \<noteq> Rollback (Inr ())"
    and complete_ok: "rl_Complete L e db = Commit db' (Inr ()) \<Longrightarrow> stage (u_EventID (ev_Usage e)) db' = Some RCompleted"
    and complete_replay: "rl_Complete L e db = Rollback (Inr ()) \<Longrightarrow> stage (u_EventID (ev_Usage e)) db = Some RCompleted"
begin

lemma steps_absent: "step\<^sup>*\<^sup>* db db' \<Longrightarrow> stage q db' = None \<Longrightarrow> stage q db = None"
proof (induction rule: rtranclp_induct)
  case (step y z)
  have "may_follow (stage q y) (stage q z)" using step(2) by (rule step_stage)
  then have "stage q y = None" using step(4) by (cases "(stage q y, stage q z)" rule: may_follow.cases) auto
  then show ?case by (rule step(3))
qed

lemma steps_dispatched:
  "step\<^sup>*\<^sup>* db db' \<Longrightarrow> stage q db \<in> {Some RStarted, Some RCompleted} \<Longrightarrow> stage q db' \<in> {Some RStarted, Some RCompleted}"
proof (induction rule: rtranclp_induct)
  case (step y z)
  then have "stage q y \<in> {Some RStarted, Some RCompleted}" by simp
  then show ?case using step_stage [OF step(2), of q] by auto
qed

lemma start_once:
  assumes "rl_Start L now q db = Commit db1 (Inr ())" "step\<^sup>*\<^sup>* db1 db2"
  shows "run_tx flt LDB (rl_Start L now' q) db2 \<noteq> (Inr (), db3)"
proof
  assume "run_tx flt LDB (rl_Start L now' q) db2 = (Inr (), db3)"
  from run_tx_ok [OF this] have "stage q db2 = Some RReserved" using start_ok start_replay by blast
  moreover have "stage q db2 \<in> {Some RStarted, Some RCompleted}"
    using steps_dispatched [OF assms(2), of q] start_ok [OF assms(1)] by simp
  ultimately show False by simp
qed

definition env_steps :: "'db exec_env \<Rightarrow> bool" where
  "env_steps x \<longleftrightarrow> (\<forall>k db. step\<^sup>*\<^sup>* db (xe_env x k db))"

lemma exec_call_steps:
  assumes "env_steps x" "exec_call x k op db = (res, db')" "\<And>d d' r. op d = Commit d' r \<Longrightarrow> step d d'"
  shows "step\<^sup>*\<^sup>* db db'"
proof -
  have env: "step\<^sup>*\<^sup>* db (xe_env x k db)" using assms(1) by (simp add: env_steps_def)
  from assms(2) [unfolded exec_call_def] show ?thesis
    by (cases rule: run_tx_cases) (use env assms(3) in \<open>auto intro: rtranclp.rtrancl_into_rtrancl\<close>)
qed

lemma exec_reserve_fresh:
  assumes "env_steps x" "exec_call x k (rl_Reserve L now r) db = (Inr True, db')"
  shows "stage (rq_RequestID r) db = None" "stage (rq_RequestID r) db' = Some RReserved"
proof -
  have env: "step\<^sup>*\<^sup>* db (xe_env x k db)" using assms(1) by (simp add: env_steps_def)
  have "rl_Reserve L now r (xe_env x k db) = Commit db' (Inr True)"
    using run_tx_ok [OF assms(2) [unfolded exec_call_def]] reserve_replay by blast
  from reserve_fresh [OF this] steps_absent [OF env]
  show "stage (rq_RequestID r) db = None" "stage (rq_RequestID r) db' = Some RReserved" by blast+
qed

lemma exec_start_ok:
  assumes "exec_call x k (rl_Start L now q) db = (Inr (), db')"
  shows "stage q db' = Some RStarted"
  using run_tx_ok [OF assms [unfolded exec_call_def]] start_replay start_ok by blast

lemma exec_settle_stage:
  assumes "env_steps x" "exec_settle L x p r maxOutput sent db = (es, db')" "stage (rq_RequestID r) db = Some RStarted"
  shows "stage (rq_RequestID r) db' \<in> {Some RStarted, Some RCompleted} \<and> (es = [] \<longrightarrow> stage (rq_RequestID r) db' = Some RCompleted)"
proof -
  let ?q = "rq_RequestID r"
  have cases: "db' = db \<and> es \<noteq> [] \<or> (\<exists>e pre res. u_EventID (ev_Usage e) = ?q \<and>
      exec_call x 2 (rl_Complete L e) db = (res, db') \<and> es = pre @ errs res)"
    using assms(2) unfolding exec_settle_def Let_def
    by (auto split: if_splits sum.splits prod.splits) force+
  then show ?thesis
  proof (elim disjE exE conjE)
    fix e pre res
    assume e: "u_EventID (ev_Usage e) = ?q" "exec_call x 2 (rl_Complete L e) db = (res, db')" "es = pre @ errs res"
    have "step\<^sup>*\<^sup>* db db'" using exec_call_steps [OF assms(1) e(2)] complete_step by blast
    then have "stage ?q db' \<in> {Some RStarted, Some RCompleted}" using steps_dispatched [of db db' ?q] assms(3) by simp
    moreover have "stage ?q db' = Some RCompleted" if "es = []"
    proof -
      have "res = Inr ()" using that e(3) by (cases res) (auto simp: errs_def)
      then show ?thesis
        using run_tx_ok [of "xe_flt x 2" LDB "rl_Complete L e" "xe_env x 2 db" "()" db'] e(1,2) complete_ok complete_replay
        unfolding exec_call_def by metis
    qed
    ultimately show ?thesis by blast
  qed (use assms(3) in simp)
qed

text \<open>A dispatch happens only for a request never seen before, and leaves it started or completed.\<close>

lemma execute_dispatched:
  assumes env: "env_steps x" and exec: "ExecuteBounded version sha L x p r payload maxOutput send db = (es, d, db')"
  shows "(d \<longrightarrow> stage (rq_RequestID r) db = None \<and> stage (rq_RequestID r) db' \<in> {Some RStarted, Some RCompleted}) \<and>
    (es = [] \<longrightarrow> d \<and> stage (rq_RequestID r) db' = Some RCompleted)"
proof -
  let ?q = "rq_RequestID r"
  have "\<not> d \<and> es \<noteq> [] \<or> (\<exists>sent r' db1 db2. exec_call x 0 (rl_Reserve L (xe_now x 0) r') db = (Inr True, db1) \<and>
      exec_settle L x p r' maxOutput sent db2 = (es, db') \<and>
      exec_call x 1 (rl_Start L (xe_now x 1) ?q) db1 = (Inr (), db2) \<and> rq_RequestID r' = ?q \<and> d)"
    using exec unfolding ExecuteBounded_def Let_def
    by (auto split: option.splits sum.splits if_splits prod.splits) (intro exI conjI, assumption+, simp)
  then consider "\<not> d" "es \<noteq> []"
    | sent r' db1 db2 where "rq_RequestID r' = ?q" "d"
      "exec_call x 0 (rl_Reserve L (xe_now x 0) r') db = (Inr True, db1)"
      "exec_call x 1 (rl_Start L (xe_now x 1) ?q) db1 = (Inr (), db2)"
      "exec_settle L x p r' maxOutput sent db2 = (es, db')"
    by blast
  then show ?thesis
  proof cases
    case (2 sent r' db1 db2)
    have "stage ?q db = None" using exec_reserve_fresh(1) [OF env 2(3)] 2(1) by simp
    moreover have "stage (rq_RequestID r') db2 = Some RStarted" using exec_start_ok [OF 2(4)] 2(1) by simp
    ultimately show ?thesis using exec_settle_stage [OF env 2(5)] 2(1,2) by simp
  qed simp
qed

lemma execute_once:
  assumes "env_steps x" "ExecuteBounded version sha L x p r payload maxOutput send db = (es, True, db')" "step\<^sup>*\<^sup>* db' db2"
    "env_steps x'" "rq_RequestID r' = rq_RequestID r"
    "ExecuteBounded version' sha' L x' p' r' payload' maxOutput' send' db2 = (es', d, db3)"
  shows "d = False \<and> es' \<noteq> []"
proof -
  have "stage (rq_RequestID r) db' \<in> {Some RStarted, Some RCompleted}" using execute_dispatched [OF assms(1,2)] by blast
  then have "stage (rq_RequestID r') db2 \<in> {Some RStarted, Some RCompleted}" using steps_dispatched [OF assms(3)] assms(5) by metis
  then show ?thesis using execute_dispatched [OF assms(4,6)] by auto
qed

end

section \<open>The two ledgers\<close>

definition local_stage :: "string \<Rightarrow> ledger_db \<Rightarrow> request_state option" where
  "local_stage q db = map_option rr_state (map_of (ll_requests db) q)"

definition main_stage :: "string \<Rightarrow> 'a primary_db \<Rightarrow> request_state option" where
  "main_stage q db = map_option pq_state (map_of (pd_requests db) q)"

lemma may_follow_refl [simp]: "may_follow s s"
  by (cases "(s, s)" rule: may_follow.cases) auto

lemma ledger_step_stage: "ledger_step region db db' \<Longrightarrow> may_follow (local_stage q db) (local_stage q db')"
proof (induction rule: ledger_step.induct)
  case (ld_install l db db' res)
  then show ?case by (elim ledger_Install_commit) (auto simp: local_stage_def)
next
  case (ld_reserve now r db db' fresh)
  then show ?case by (elim ledger_Reserve_commit) (auto simp: local_stage_def map_of_tput)
next
  case (ld_start now rid db db' res)
  then show ?case by (elim ledger_Start_commit) (auto simp: local_stage_def map_of_tput)
next
  case (ld_finish rid event db db' res)
  then show ?case by (elim ledger_finish_commit) (auto simp: local_stage_def map_of_tput)
next
  case (ld_ack e db db' res)
  then show ?case by (elim ledger_Acknowledge_commit) (auto simp: local_stage_def)
next
  case (ld_drain lid db db' res)
  then show ?case by (elim ledger_Drain_commit) (auto simp: local_stage_def)
next
  case (ld_close lid db db' receipt)
  then show ?case by (elim ledger_Close_commit) (auto simp: local_stage_def)
qed

lemma primary_funds_step_stage: "primary_funds_step db db' \<Longrightarrow> may_follow (main_stage q db) (main_stage q db')"
proof (induction rule: primary_funds_step.induct)
  case pf_issue
  then show ?case by (elim quota_Issue_commit) (simp add: main_stage_def)
next
  case pf_settle
  then show ?case by (elim quota_Settle_commit) (simp add: main_stage_def)
next
  case pf_close
  then show ?case by (elim quota_Close_commit) (simp add: main_stage_def)
next
  case pf_reserve
  then show ?case by (elim requests_Reserve_commit) (auto simp: main_stage_def map_of_tput)
next
  case pf_start
  then show ?case by (elim requests_Start_commit) (auto simp: main_stage_def map_of_tput)
next
  case pf_finish
  then show ?case by (elim requests_finish_commit) (auto simp: main_stage_def map_of_tput)
qed

lemma ledger_Complete_replay:
  assumes "ledger_Complete region e db = Rollback (Inr ())"
  shows "local_stage (u_EventID (ev_Usage e)) db = Some RCompleted"
  using assms
  by (auto simp: ledger_Complete_def ledger_finish_def Let_def local_stage_def split: option.splits sum.splits if_splits)

lemma requests_close_no_replay: "requests_close rid row refund next event aux db \<noteq> Rollback (Inr ())"
  by (simp add: requests_close_def Let_def split: sum.splits)

lemma requests_Complete_replay:
  assumes "requests_Complete p e db = Rollback (Inr ())"
  shows "main_stage (u_EventID (ev_Usage e)) db = Some RCompleted"
  using assms
  by (auto simp: requests_close_no_replay requests_Complete_def requests_finish_def Let_def main_stage_def split: option.splits sum.splits if_splits)

lemma requests_Reserve_replay: "requests_Reserve p r db \<noteq> Rollback (Inr True)"
  by (simp add: requests_Reserve_def split: option.split sum.split)

lemma ledger_Reserve_replay: "ledger_Reserve region now r db \<noteq> Rollback (Inr True)"
  by (simp add: ledger_Reserve_def split: option.split sum.split prod.split)

interpretation lr: request_ledger "local_requests region" local_stage "ledger_step region" for region
proof unfold_locales
  fix now r q e and db db' :: ledger_db and fresh u
  show "rl_Reserve (local_requests region) now r db = Commit db' fresh \<Longrightarrow> ledger_step region db db'"
    by (simp add: local_requests_def ld_reserve)
  show "rl_Start (local_requests region) now q db = Commit db' u \<Longrightarrow> ledger_step region db db'"
    by (simp add: local_requests_def ld_start)
  show "rl_CancelBeforeStart (local_requests region) q db = Commit db' u \<Longrightarrow> ledger_step region db db'"
    by (simp add: local_requests_def ledger_CancelBeforeStart_def ld_finish)
  show "rl_Complete (local_requests region) e db = Commit db' u \<Longrightarrow> ledger_step region db db'"
    by (simp add: local_requests_def ledger_Complete_def ld_finish)
  show "ledger_step region db db' \<Longrightarrow> may_follow (local_stage q db) (local_stage q db')"
    by (rule ledger_step_stage)
  show "rl_Reserve (local_requests region) now r db = Commit db' (Inr True) \<Longrightarrow>
      local_stage (rq_RequestID r) db = None \<and> local_stage (rq_RequestID r) db' = Some RReserved"
    by (auto simp: local_requests_def local_stage_def map_of_tput elim!: ledger_Reserve_commit)
  show "rl_Reserve (local_requests region) now r db \<noteq> Rollback (Inr True)"
    by (simp add: local_requests_def ledger_Reserve_replay)
  show "rl_Start (local_requests region) now q db = Commit db' (Inr ()) \<Longrightarrow>
      local_stage q db = Some RReserved \<and> local_stage q db' = Some RStarted"
    by (auto simp: local_requests_def local_stage_def map_of_tput elim!: ledger_Start_commit)
  show "rl_Start (local_requests region) now q db \<noteq> Rollback (Inr ())"
    by (simp add: local_requests_def ledger_Start_def split: option.split sum.split prod.split)
  show "rl_Complete (local_requests region) e db = Commit db' (Inr ()) \<Longrightarrow> local_stage (u_EventID (ev_Usage e)) db' = Some RCompleted"
    by (auto simp: local_requests_def ledger_Complete_def local_stage_def map_of_tput elim!: ledger_finish_commit)
  show "rl_Complete (local_requests region) e db = Rollback (Inr ()) \<Longrightarrow> local_stage (u_EventID (ev_Usage e)) db = Some RCompleted"
    by (simp add: local_requests_def ledger_Complete_replay)
qed

interpretation mr: request_ledger "main_requests p" main_stage primary_funds_step for p :: "'a primary_requests"
proof unfold_locales
  fix now r q e and db db' :: "'a primary_db" and fresh u
  show "rl_Reserve (main_requests p) now r db = Commit db' fresh \<Longrightarrow> primary_funds_step db db'"
    by (simp add: main_requests_def pf_reserve)
  show "rl_Start (main_requests p) now q db = Commit db' u \<Longrightarrow> primary_funds_step db db'"
    by (simp add: main_requests_def pf_start)
  show "rl_CancelBeforeStart (main_requests p) q db = Commit db' u \<Longrightarrow> primary_funds_step db db'"
    by (simp add: main_requests_def requests_CancelBeforeStart_def pf_finish)
  show "rl_Complete (main_requests p) e db = Commit db' u \<Longrightarrow> primary_funds_step db db'"
    by (simp add: main_requests_def requests_Complete_def pf_finish)
  show "primary_funds_step db db' \<Longrightarrow> may_follow (main_stage q db) (main_stage q db')"
    by (rule primary_funds_step_stage)
  show "rl_Reserve (main_requests p) now r db = Commit db' (Inr True) \<Longrightarrow>
      main_stage (rq_RequestID r) db = None \<and> main_stage (rq_RequestID r) db' = Some RReserved"
    by (auto simp: main_requests_def main_stage_def map_of_tput elim!: requests_Reserve_commit)
  show "rl_Reserve (main_requests p) now r db \<noteq> Rollback (Inr True)"
    by (simp add: main_requests_def requests_Reserve_replay)
  show "rl_Start (main_requests p) now q db = Commit db' (Inr ()) \<Longrightarrow>
      main_stage q db = Some RReserved \<and> main_stage q db' = Some RStarted"
    by (auto simp: main_requests_def main_stage_def map_of_tput elim!: requests_Start_commit)
  show "rl_Start (main_requests p) now q db \<noteq> Rollback (Inr ())"
    by (simp add: main_requests_def requests_Start_def split: option.split)
  show "rl_Complete (main_requests p) e db = Commit db' (Inr ()) \<Longrightarrow> main_stage (u_EventID (ev_Usage e)) db' = Some RCompleted"
    by (auto simp: main_requests_def requests_Complete_def main_stage_def map_of_tput elim!: requests_finish_commit)
  show "rl_Complete (main_requests p) e db = Rollback (Inr ()) \<Longrightarrow> main_stage (u_EventID (ev_Usage e)) db = Some RCompleted"
    by (simp add: main_requests_def requests_Complete_replay)
qed

section \<open>Properties\<close>

definition sample_tiny_price :: Price where
  "sample_tiny_price = \<lparr>p_Model = ''m'', p_Input = 10000000, p_Output = 10000000, p_CacheCreation = 0, p_CacheRead = 0,
     p_MaxInput = 1, p_MaxOutput = 1\<rparr>"

definition sample_reservation :: Reservation where
  "sample_reservation = \<lparr>rq_RequestID = ''req-1'', rq_LeaseID = ''q-1'', rq_RegionID = ''eu'', rq_UserID = 3, rq_APIKeyID = 4,
     rq_AccountID = 5, rq_AdmittedAt = 1500, rq_Maximum = 0, rq_PayloadSHA256 = '''', rq_PricingVersion = '''', rq_Model = ''''\<rparr>"

definition sample_ledger :: ledger_db where
  "sample_ledger = \<lparr>ll_leases = [(''q-1'', \<lparr>lr_lease = sample_quota, lr_region = ''eu'', lr_user = 3, lr_granted = 100,
     lr_spent = 0, lr_reserved = 0, lr_state = LOpen\<rparr>)], ll_requests = [], ll_outbox = []\<rparr>"

definition sample_exec :: "'db exec_env" where
  "sample_exec = \<lparr>xe_env = (\<lambda>_ db. db), xe_flt = (\<lambda>_. NoFault), xe_now = (\<lambda>_. 2000), xe_canceled = False, xe_completed = 3000\<rparr>"

definition sample_run :: "ledger_db \<Rightarrow> ledger_err list \<times> bool \<times> ledger_db" where
  "sample_run = ExecuteBounded (\<lambda>_. ''v1'') (\<lambda>_. replicate 64 CHR ''0'') (local_requests ''eu'') sample_exec sample_tiny_price
     sample_reservation ''payload'' 1
     (Some (\<lparr>mu_Input = 1, mu_Output = 1, mu_CacheCreation = 0, mu_CacheRead = 0, mu_Final = True\<rparr>, None))"

lemma sample_run_result: "fst (sample_run sample_ledger) = [] \<and> fst (snd (sample_run sample_ledger))"
  by code_simp

lemma sample_env_steps: "(step :: 'db \<Rightarrow> 'db \<Rightarrow> bool)\<^sup>*\<^sup>* d (xe_env sample_exec k d)"
  by (simp add: sample_exec_def)

text \<open>C24: in a region a request is sent upstream at most once. If a run of \<open>ExecuteBounded\<close> has called
  \<open>send\<close>, then whatever other processes did before each of its transactions and whatever faults the
  database reported, no later run with the same request identity (any payload, price, clock) calls
  \<open>send\<close> again, and every later run reports an error; and a run reports no error only if it has called \<open>send\<close> and its usage
  is recorded.\<close>

theorem regional_dispatch_once:
  assumes "\<And>k d. (ledger_step region)\<^sup>*\<^sup>* d (xe_env x k d)" "\<And>k d. (ledger_step region)\<^sup>*\<^sup>* d (xe_env x' k d)"
    "ExecuteBounded version sha (local_requests region) x p r payload maxOutput send db = (es, sent, db1)"
    "(ledger_step region)\<^sup>*\<^sup>* db1 db2" "rq_RequestID r' = rq_RequestID r"
    "ExecuteBounded version' sha' (local_requests region) x' p' r' payload' maxOutput' send' db2 = (es', d, db3)"
  shows "(sent \<longrightarrow> \<not> d \<and> es' \<noteq> [] \<and> local_stage (rq_RequestID r) db1 \<in> {Some RStarted, Some RCompleted}) \<and>
    (es = [] \<longrightarrow> sent \<and> local_stage (rq_RequestID r) db1 = Some RCompleted)"
proof -
  have env: "lr.env_steps region x" "lr.env_steps region x'" using assms(1,2) by (simp_all add: lr.env_steps_def)
  have "\<not> d \<and> es' \<noteq> []" if "sent"
    using lr.execute_once [OF env(1) assms(3) [unfolded eqTrueI [OF that]] assms(4) env(2) assms(5,6)] by blast
  with lr.execute_dispatched [OF env(1) assms(3)] show ?thesis by blast
qed

theorem regional_dispatch_once_witness:
  "\<exists>db1. sample_run sample_ledger = ([], True, db1) \<and> local_stage ''req-1'' db1 = Some RCompleted \<and> fst (sample_run db1) \<noteq> []"
proof -
  obtain db1 where run: "sample_run sample_ledger = ([], True, db1)"
    using sample_run_result by (metis prod.collapse)
  obtain es d db2 where again: "sample_run db1 = (es, d, db2)" by (metis prod.collapse)
  from regional_dispatch_once [OF sample_env_steps sample_env_steps run [unfolded sample_run_def] rtranclp.rtrancl_refl refl
      again [unfolded sample_run_def]]
  show ?thesis using run again by (auto simp: sample_reservation_def)
qed

text \<open>the same for the requests the primary serves itself: at most one dispatch per request identity,
  and after a dispatch the request is started or completed, never cancelled, so its hold is not refunded
  without measured usage.\<close>

theorem primary_dispatch_once:
  assumes "\<And>k d. primary_funds_step\<^sup>*\<^sup>* d (xe_env x k d)" "\<And>k d. primary_funds_step\<^sup>*\<^sup>* d (xe_env x' k d)"
    "ExecuteBounded version sha (main_requests p) x pr r payload maxOutput send db = (es, True, db1)"
    "primary_funds_step\<^sup>*\<^sup>* db1 db2" "rq_RequestID r' = rq_RequestID r"
    "ExecuteBounded version' sha' (main_requests p) x' pr' r' payload' maxOutput' send' db2 = (es', d, db3)"
  shows "\<not> d \<and> es' \<noteq> [] \<and> main_stage (rq_RequestID r) db2 \<in> {Some RStarted, Some RCompleted}"
proof -
  have env: "mr.env_steps x" "mr.env_steps x'" using assms(1,2) by (simp_all add: mr.env_steps_def)
  have "main_stage (rq_RequestID r) db1 \<in> {Some RStarted, Some RCompleted}"
    using mr.execute_dispatched [OF env(1) assms(3)] by blast
  from mr.steps_dispatched [OF assms(4) this] mr.execute_once [OF env(1) assms(3,4) env(2) assms(5,6)]
  show ?thesis by blast
qed

definition sample_scope :: "'a primary_requests" where
  "sample_scope = \<lparr>ps_Funding = None, ps_Authorize = Some (\<lambda>_. Inr), ps_SettleScope = Some (\<lambda>_. Inr), ps_CancelScope = Some (\<lambda>_. Inr)\<rparr>"

definition sample_main_run :: "unit price_db primary_db \<Rightarrow> ledger_err list \<times> bool \<times> unit price_db primary_db" where
  "sample_main_run = ExecuteBounded (\<lambda>_. ''v1'') (\<lambda>_. replicate 64 CHR ''0'') (main_requests sample_scope) sample_exec sample_tiny_price
     sample_reservation ''payload'' 1
     (Some (\<lparr>mu_Input = 1, mu_Output = 1, mu_CacheCreation = 0, mu_CacheRead = 0, mu_Final = True\<rparr>, None))"

lemma sample_main_run_result: "fst (sample_main_run sample_funds) = [] \<and> fst (snd (sample_main_run sample_funds))"
  by code_simp

theorem primary_dispatch_once_witness:
  "\<exists>db1. sample_main_run sample_funds = ([], True, db1) \<and> fst (sample_main_run db1) \<noteq> []"
proof -
  obtain db1 where run: "sample_main_run sample_funds = ([], True, db1)"
    using sample_main_run_result by (metis prod.collapse)
  obtain es d db2 where again: "sample_main_run db1 = (es, d, db2)" by (metis prod.collapse)
  from primary_dispatch_once [OF sample_env_steps sample_env_steps run [unfolded sample_main_run_def] rtranclp.rtrancl_refl refl
      again [unfolded sample_main_run_def]]
  show ?thesis using run again by auto
qed

end
