(* ===== verification/LedgerSystem.thy ===== *)
theory LedgerSystem
  imports Dispatch
begin

text \<open>
  The funds protocol as a whole: the primary's database, one ledger per region, and the messages between
  them, with \<^verbatim>\<open>backend/internal/regional/ledger/worker.go\<close>, which carries usage events from a
  region's outbox to the primary. A region installs only leases the primary has confirmed
  (\<open>fs_tokens\<close>), acknowledges only events whose settlement the primary has confirmed
  (\<open>fs_confirmed\<close>), and the primary closes a lease only on a receipt a region has emitted
  (\<open>fs_receipts\<close>). Messages may be delayed, duplicated and reordered, and every transaction may fail.
\<close>

section \<open>The outbox worker\<close>

text \<open>
  \<open>Flush\<close>: \<open>settle\<close> is the settlement client acting on the state \<open>'w\<close> of the rest of the world,
  \<open>cancelled k\<close> tells whether the context has ended before the \<open>k\<close>-th event, and \<open>flt\<close> gives the
  fault of the \<open>k\<close>-th acknowledgement. The result is the count, the error and the two states.
\<close>

fun flush_events ::
    "(Event \<Rightarrow> 'w \<Rightarrow> ledger_err option \<times> 'w) \<Rightarrow> (nat \<Rightarrow> bool) \<Rightarrow> (nat \<Rightarrow> db_fault) \<Rightarrow> string \<Rightarrow> nat \<Rightarrow> Event list \<Rightarrow>
     'w \<times> ledger_db \<Rightarrow> (nat \<times> ledger_err option) \<times> 'w \<times> ledger_db" where
  "flush_events settle cancelled flt region k [] s = ((k, None), s)"
| "flush_events settle cancelled flt region k (e # es) (w, db) =
     (if cancelled k then ((k, Some LCtx), (w, db))
      else case settle e w of
        (Some err, w') \<Rightarrow> ((k, Some err), (w', db))
      | (None, w') \<Rightarrow>
          (case run_tx (flt k) LDB (ledger_Acknowledge region e) db of
             (Inl err, db') \<Rightarrow> ((k, Some err), (w', db'))
           | (Inr _, db') \<Rightarrow> flush_events settle cancelled flt region (Suc k) es (w', db')))"

definition Flush ::
    "(Event \<Rightarrow> 'w \<Rightarrow> ledger_err option \<times> 'w) option \<Rightarrow> (nat \<Rightarrow> bool) \<Rightarrow> (nat \<Rightarrow> db_fault) \<Rightarrow>
     ((string \<times> Event \<times> bool) list \<Rightarrow> (string \<times> Event \<times> bool) list) \<Rightarrow> string \<Rightarrow> int \<Rightarrow>
     'w \<times> ledger_db \<Rightarrow> (nat \<times> ledger_err option) \<times> 'w \<times> ledger_db" where
  "Flush client cancelled flt order_by region limit s =
     (case client of None \<Rightarrow> ((0, Some (LMsg ''settlement client required'')), s) | Some settle \<Rightarrow>
      case ledger_Pending order_by region limit (snd s) of Inl e \<Rightarrow> ((0, Some e), s)
      | Inr es \<Rightarrow> flush_events settle cancelled flt region 0 es s)"

text \<open>The delay of \<open>RunOutbox\<close> before its next cycle.\<close>

definition outbox_delay :: "duration \<Rightarrow> duration \<Rightarrow> bool \<Rightarrow> duration" where
  "outbox_delay interval delay ok = (if ok then interval else min (wrap64 (delay * 2)) (5 * Minute))"

fun outbox_delays :: "duration \<Rightarrow> duration \<Rightarrow> bool list \<Rightarrow> duration list" where
  "outbox_delays interval delay [] = []"
| "outbox_delays interval delay (ok # oks) =
     (let d = outbox_delay interval delay ok in d # outbox_delays interval d oks)"

definition RunOutbox_ok :: "bool \<Rightarrow> duration \<Rightarrow> bool" where
  "RunOutbox_ok has_client interval \<longleftrightarrow> \<not> (\<not> has_client \<or> interval < Second \<or> interval > Minute)"

section \<open>The system\<close>

record 'a funds_sys =
  fs_primary :: "'a primary_db"
  fs_region :: "string \<Rightarrow> ledger_db"
  fs_tokens :: "Lease set"
  fs_confirmed :: "(string \<times> Event) set"
  fs_receipts :: "DrainReceipt set"

definition init_funds :: "(int, user_row) table \<Rightarrow> 'a \<Rightarrow> 'a funds_sys" where
  "init_funds users aux = \<lparr>fs_primary = \<lparr>pd_users = users, pd_leases = [], pd_settled = [], pd_requests = [], pd_aux = aux\<rparr>,
     fs_region = (\<lambda>_. empty_ledger), fs_tokens = {}, fs_confirmed = {}, fs_receipts = {}\<rparr>"

abbreviation upd_region :: "'a funds_sys \<Rightarrow> string \<Rightarrow> ledger_db \<Rightarrow> 'a funds_sys" where
  "upd_region s region db \<equiv> s\<lparr>fs_region := (fs_region s)(region := db)\<rparr>"

definition in_outbox :: "ledger_db \<Rightarrow> Event \<Rightarrow> bool" where
  "in_outbox db e \<longleftrightarrow> (\<exists>ack. map_of (ll_outbox db) (u_EventID (ev_Usage e)) = Some (e, ack))"

inductive funds_step :: "'a funds_sys \<Rightarrow> 'a funds_sys \<Rightarrow> bool" where
  fn_issue: "run_tx flt LDB (quota_Issue p now l) (fs_primary s) = (res, db) \<Longrightarrow>
     funds_step s (s\<lparr>fs_primary := db, fs_tokens := fs_tokens s \<union> (if res = Inr () then {l} else {})\<rparr>)"
| fn_settle: "in_outbox (fs_region s region) e \<Longrightarrow> run_tx flt LDB (quota_Settle region e verify) (fs_primary s) = (res, db) \<Longrightarrow>
     funds_step s (s\<lparr>fs_primary := db,
       fs_confirmed := fs_confirmed s \<union> (case res of Inr _ \<Rightarrow> {(region, e)} | Inl _ \<Rightarrow> {})\<rparr>)"
| fn_close: "receipt \<in> fs_receipts s \<Longrightarrow> run_tx flt LDB (quota_Close p region receipt) (fs_primary s) = (res, db) \<Longrightarrow>
     funds_step s (s\<lparr>fs_primary := db\<rparr>)"
| fn_main_reserve: "run_tx flt LDB (requests_Reserve ps r) (fs_primary s) = (fresh, db) \<Longrightarrow> funds_step s (s\<lparr>fs_primary := db\<rparr>)"
| fn_main_start: "run_tx flt LDB (requests_Start rid) (fs_primary s) = (res, db) \<Longrightarrow> funds_step s (s\<lparr>fs_primary := db\<rparr>)"
| fn_main_finish: "run_tx flt LDB (requests_finish ps rid event) (fs_primary s) = (res, db) \<Longrightarrow> funds_step s (s\<lparr>fs_primary := db\<rparr>)"
| fn_install: "l \<in> fs_tokens s \<Longrightarrow> run_tx flt LDB (ledger_Install region l) (fs_region s region) = (res, d) \<Longrightarrow>
     funds_step s (upd_region s region d)"
| fn_reserve: "run_tx flt LDB (ledger_Reserve region now r) (fs_region s region) = (fresh, d) \<Longrightarrow> funds_step s (upd_region s region d)"
| fn_start: "run_tx flt LDB (ledger_Start region now rid) (fs_region s region) = (res, d) \<Longrightarrow> funds_step s (upd_region s region d)"
| fn_finish: "run_tx flt LDB (ledger_finish region rid event) (fs_region s region) = (res, d) \<Longrightarrow> funds_step s (upd_region s region d)"
| fn_ack: "(region, e) \<in> fs_confirmed s \<Longrightarrow> run_tx flt LDB (ledger_Acknowledge region e) (fs_region s region) = (res, d) \<Longrightarrow>
     funds_step s (upd_region s region d)"
| fn_drain: "run_tx flt LDB (ledger_Drain region lid) (fs_region s region) = (res, d) \<Longrightarrow> funds_step s (upd_region s region d)"
| fn_local_close: "run_tx flt LDB (ledger_Close region lid) (fs_region s region) = (rc, d) \<Longrightarrow>
     funds_step s (upd_region s region d\<lparr>fs_receipts := fs_receipts s \<union> (case rc of Inr x \<Rightarrow> {x} | Inl _ \<Rightarrow> {})\<rparr>)"

inductive funds_reach :: "'a funds_sys \<Rightarrow> bool" where
  fr_start: "(\<And>u row. map_of users u = Some row \<Longrightarrow> 0 \<le> us_balance row) \<Longrightarrow> funds_reach (init_funds users aux)"
| fr_step: "funds_reach s \<Longrightarrow> funds_step s s' \<Longrightarrow> funds_reach s'"

text \<open>What ties the primary and the regions together.\<close>

definition lease_known :: "'a primary_db \<Rightarrow> Lease \<Rightarrow> bool" where
  "lease_known db l \<longleftrightarrow> (\<exists>row. map_of (pd_leases db) (l_LeaseID l) = Some row \<and>
     l_RegionID (qr_lease row) = l_RegionID l \<and> l_Granted (qr_lease row) = l_Granted l)"

definition settled_in :: "'a primary_db \<Rightarrow> Event \<Rightarrow> bool" where
  "settled_in db e \<longleftrightarrow> map_of (pd_settled db) (u_EventID (ev_Usage e)) = Some (u_LeaseID (ev_Usage e), e)"

definition region_closed :: "'a funds_sys \<Rightarrow> string \<Rightarrow> string \<Rightarrow> int \<Rightarrow> bool" where
  "region_closed s region lid spent \<longleftrightarrow>
     (\<exists>row. map_of (ll_leases (fs_region s region)) lid = Some row \<and> lr_state row = LClosed \<and> lr_spent row = spent)"

definition funds_inv :: "'a funds_sys \<Rightarrow> bool" where
  "funds_inv s \<longleftrightarrow> primary_inv (fs_primary s) \<and> (\<forall>region. ledger_inv region (fs_region s region)) \<and>
     (\<forall>l \<in> fs_tokens s. lease_known (fs_primary s) l) \<and>
     (\<forall>region lid row. map_of (ll_leases (fs_region s region)) lid = Some row \<longrightarrow> lease_known (fs_primary s) (lr_lease row)) \<and>
     (\<forall>region eid e ack. map_of (ll_outbox (fs_region s region)) eid = Some (e, ack) \<longrightarrow>
        u_RegionID (ev_Usage e) = region \<and> (ack \<longrightarrow> settled_in (fs_primary s) e)) \<and>
     (\<forall>(region, e) \<in> fs_confirmed s. settled_in (fs_primary s) e) \<and>
     (\<forall>eid lid e. map_of (pd_settled (fs_primary s)) eid = Some (lid, e) \<longrightarrow> in_outbox (fs_region s (u_RegionID (ev_Usage e))) e) \<and>
     (\<forall>rc \<in> fs_receipts s. region_closed s (dr_Region rc) (dr_LeaseID rc) (dr_Spent rc)) \<and>
     (\<forall>lid row. map_of (pd_leases (fs_primary s)) lid = Some row \<longrightarrow> qr_closed row \<longrightarrow>
        region_closed s (l_RegionID (qr_lease row)) lid (qr_spent row))"

lemma funds_invD:
  assumes "funds_inv s"
  shows "primary_inv (fs_primary s)" "ledger_inv region (fs_region s region)"
    "l \<in> fs_tokens s \<Longrightarrow> lease_known (fs_primary s) l"
    "map_of (ll_leases (fs_region s region)) lid = Some row \<Longrightarrow> lease_known (fs_primary s) (lr_lease row)"
    "map_of (ll_outbox (fs_region s region)) eid = Some (e, ack) \<Longrightarrow> u_RegionID (ev_Usage e) = region"
    "map_of (ll_outbox (fs_region s region)) eid = Some (e, True) \<Longrightarrow> settled_in (fs_primary s) e"
    "(region, e) \<in> fs_confirmed s \<Longrightarrow> settled_in (fs_primary s) e"
    "map_of (pd_settled (fs_primary s)) eid = Some (lid, e) \<Longrightarrow> in_outbox (fs_region s (u_RegionID (ev_Usage e))) e"
    "rc \<in> fs_receipts s \<Longrightarrow> region_closed s (dr_Region rc) (dr_LeaseID rc) (dr_Spent rc)"
    "map_of (pd_leases (fs_primary s)) lid = Some qrow \<Longrightarrow> qr_closed qrow \<Longrightarrow> region_closed s (l_RegionID (qr_lease qrow)) lid (qr_spent qrow)"
  using assms unfolding funds_inv_def by blast+

section \<open>Regional steps\<close>

definition leases_kept :: "ledger_db \<Rightarrow> ledger_db \<Rightarrow> bool" where
  "leases_kept db db' \<longleftrightarrow>
     (\<forall>lid row'. map_of (ll_leases db') lid = Some row' \<longrightarrow>
        (\<exists>row. map_of (ll_leases db) lid = Some row \<and> lr_lease row' = lr_lease row))"

definition closed_kept :: "ledger_db \<Rightarrow> ledger_db \<Rightarrow> bool" where
  "closed_kept db db' \<longleftrightarrow>
     (\<forall>lid row. map_of (ll_leases db) lid = Some row \<longrightarrow> lr_state row = LClosed \<longrightarrow>
        (\<exists>row'. map_of (ll_leases db') lid = Some row' \<and> lr_state row' = LClosed \<and> lr_spent row' = lr_spent row))"

definition outbox_kept :: "string \<Rightarrow> Event set \<Rightarrow> ledger_db \<Rightarrow> ledger_db \<Rightarrow> bool" where
  "outbox_kept region acked db db' \<longleftrightarrow>
     (\<forall>e. in_outbox db e \<longrightarrow> in_outbox db' e) \<and>
     (\<forall>eid e a. map_of (ll_outbox db') eid = Some (e, a) \<longrightarrow>
        map_of (ll_outbox db) eid = Some (e, a) \<or> (u_RegionID (ev_Usage e) = region \<and> \<not> a) \<or>
        (e \<in> acked \<and> (\<exists>a0. map_of (ll_outbox db) eid = Some (e, a0))))"

lemma kept_put_lease:
  assumes "ll_leases db' = tput lid row' (ll_leases db)" "map_of (ll_leases db) lid = Some row" "lr_lease row' = lr_lease row"
    "lr_state row = LClosed \<Longrightarrow> lr_state row' = LClosed \<and> lr_spent row' = lr_spent row"
  shows "leases_kept db db'" "closed_kept db db'"
  using assms by (auto simp: leases_kept_def closed_kept_def map_of_tput)

lemma kept_same_leases:
  assumes "ll_leases db' = ll_leases db"
  shows "leases_kept db db'" "closed_kept db db'"
  using assms by (auto simp: leases_kept_def closed_kept_def)

lemma kept_same_outbox: "ll_outbox db' = ll_outbox db \<Longrightarrow> outbox_kept region acked db db'"
  by (simp add: outbox_kept_def in_outbox_def)

lemma ledger_Reserve_kept:
  assumes "ledger_Reserve region now r db = Commit db' fresh"
  shows "leases_kept db db'" "closed_kept db db'" "outbox_kept region {} db db'"
proof -
  obtain row where row: "map_of (ll_leases db) (rq_LeaseID r) = Some row" "lr_state row = LOpen" and
    db': "ll_leases db' = tput (rq_LeaseID r) (row\<lparr>lr_reserved := lr_reserved row + rq_Maximum r\<rparr>) (ll_leases db)"
      "ll_outbox db' = ll_outbox db"
    using assms by (elim ledger_Reserve_commit) auto
  show "leases_kept db db'" "closed_kept db db'" using kept_put_lease [OF db'(1) row(1)] row(2) by simp_all
  show "outbox_kept region {} db db'" by (rule kept_same_outbox [OF db'(2)])
qed

lemma ledger_Start_kept:
  assumes "ledger_Start region now rid db = Commit db' res"
  shows "leases_kept db db'" "closed_kept db db'" "outbox_kept region {} db db'"
  using assms by (auto elim!: ledger_Start_commit intro: kept_same_leases kept_same_outbox)

lemma ledger_Drain_kept:
  assumes "ledger_Drain region lid db = Commit db' res"
  shows "leases_kept db db'" "closed_kept db db'" "outbox_kept region {} db db'"
proof -
  obtain row where row: "map_of (ll_leases db) lid = Some row" "lr_state row \<noteq> LClosed" and
    db': "ll_leases db' = tput lid (row\<lparr>lr_state := LDraining\<rparr>) (ll_leases db)" "ll_outbox db' = ll_outbox db"
    using assms by (elim ledger_Drain_commit) auto
  show "leases_kept db db'" "closed_kept db db'" using kept_put_lease [OF db'(1) row(1)] row(2) by simp_all
  show "outbox_kept region {} db db'" by (rule kept_same_outbox [OF db'(2)])
qed

lemma ledger_Close_kept:
  assumes "ledger_Close region lid db = Commit db' res"
  shows "leases_kept db db'" "closed_kept db db'" "outbox_kept region {} db db'"
proof -
  obtain row where row: "map_of (ll_leases db) lid = Some row" and
    db': "ll_leases db' = tput lid (row\<lparr>lr_state := LClosed\<rparr>) (ll_leases db)" "ll_outbox db' = ll_outbox db"
    using assms by (elim ledger_Close_commit) auto
  show "leases_kept db db'" "closed_kept db db'" using kept_put_lease [OF db'(1) row(1)] by simp_all
  show "outbox_kept region {} db db'" by (rule kept_same_outbox [OF db'(2)])
qed

lemma ledger_finish_kept:
  assumes "ledger_finish region rid event db = Commit db' res" and inv: "ledger_inv region db"
  shows "leases_kept db db' \<and> closed_kept db db' \<and> outbox_kept region {} db db'"
  using assms(1)
proof (cases rule: ledger_finish_commit)
  case (cancel q l)
  have "lr_state l \<noteq> LClosed" using open_not_closed [OF inv cancel(2) _ cancel(4)] cancel(3) by (simp add: is_open_def)
  moreover have db': "ll_leases db' = tput (rr_lease_id q) (l\<lparr>lr_reserved := lr_reserved l - rr_maximum q\<rparr>) (ll_leases db)"
    "ll_outbox db' = ll_outbox db" by (simp_all add: cancel)
  ultimately show ?thesis using kept_put_lease [OF db'(1) cancel(4)] kept_same_outbox [OF db'(2)] by simp
next
  case (complete q l e)
  have "lr_state l \<noteq> LClosed" using open_not_closed [OF inv complete(2) _ complete(4)] complete(3) by (simp add: is_open_def)
  moreover have db': "ll_leases db' = tput (rr_lease_id q)
      (l\<lparr>lr_reserved := lr_reserved l - rr_maximum q, lr_spent := lr_spent l + u_Charge (ev_Usage e)\<rparr>) (ll_leases db)"
    "ll_outbox db' = tput rid (e, False) (ll_outbox db)" by (simp_all add: complete)
  moreover have "u_RegionID (ev_Usage e) = region"
    using ValidateAgainst_scope(2) [OF Event_Validate_usage [OF complete(6)]] ledger_invD(4) [OF inv complete(4)]
    by (simp add: lease_ok_def)
  then have "outbox_kept region {} db db'"
    using complete(9) by (auto simp: outbox_kept_def in_outbox_def db'(2) map_of_tput)
  ultimately show ?thesis using kept_put_lease [OF db'(1) complete(4)] by simp
qed

lemma ledger_Acknowledge_kept:
  assumes "ledger_Acknowledge region e db = Commit db' res"
  shows "leases_kept db db'" "closed_kept db db'" "outbox_kept region {e} db db'"
proof -
  obtain ack where row: "map_of (ll_outbox db) (u_EventID (ev_Usage e)) = Some (e, ack)" and
    db': "db' = db\<lparr>ll_outbox := tput (u_EventID (ev_Usage e)) (e, True) (ll_outbox db)\<rparr>"
    using assms by (elim ledger_Acknowledge_commit) auto
  show "leases_kept db db'" "closed_kept db db'" by (simp_all add: kept_same_leases db')
  show "outbox_kept region {e} db db'"
    using row by (auto simp: outbox_kept_def in_outbox_def db' map_of_tput)
qed

text \<open>Replacing one region's tables.\<close>

lemma funds_inv_region:
  assumes inv: "funds_inv s" and d: "ledger_inv region d"
    and leases: "\<And>lid row. map_of (ll_leases d) lid = Some row \<Longrightarrow> lease_known (fs_primary s) (lr_lease row)"
    and closed: "closed_kept (fs_region s region) d"
    and outbox: "outbox_kept region acked (fs_region s region) d"
    and acked: "\<And>e. e \<in> acked \<Longrightarrow> settled_in (fs_primary s) e"
  shows "funds_inv (upd_region s region d)"
proof -
  note D = funds_invD [OF inv]
  let ?s = "upd_region s region d"
  have cl: "region_closed ?s reg lid n" if "region_closed s reg lid n" for reg lid n
    using that closed by (cases "reg = region") (force simp: region_closed_def closed_kept_def simp del: map_of_eq_Some_iff)+
  have ob: "in_outbox (fs_region ?s reg) e" if "in_outbox (fs_region s reg) e" for reg e
    using that outbox by (cases "reg = region") (auto simp: outbox_kept_def)
  have "u_RegionID (ev_Usage e) = reg \<and> (ack \<longrightarrow> settled_in (fs_primary s) e)"
    if e: "map_of (ll_outbox (fs_region ?s reg)) eid = Some (e, ack)" for reg eid e ack
  proof (cases "reg = region")
    case True
    then have "map_of (ll_outbox d) eid = Some (e, ack)" using e by simp
    then consider "map_of (ll_outbox (fs_region s region)) eid = Some (e, ack)" | "u_RegionID (ev_Usage e) = region" "\<not> ack"
      | a0 where "e \<in> acked" "map_of (ll_outbox (fs_region s region)) eid = Some (e, a0)"
      using outbox unfolding outbox_kept_def by blast
    then show ?thesis using D(5,6) acked True by cases auto
  next
    case False
    then show ?thesis using e D(5,6) by auto
  qed
  moreover have "ledger_inv reg (fs_region ?s reg)" for reg using D(2) d by simp
  moreover have "lease_known (fs_primary s) (lr_lease row)" if "map_of (ll_leases (fs_region ?s reg)) lid = Some row" for reg lid row
    using that leases D(4) by (cases "reg = region") auto
  ultimately show ?thesis
    using D(1,3,7-10) cl ob unfolding funds_inv_def
    by (simp del: fun_upd_apply) (metis (mono_tags, lifting) case_prodI2)
qed

lemma funds_inv_region_call:
  assumes inv: "funds_inv s" and run: "run_tx flt LDB op (fs_region s region) = (res, d)"
    and step: "\<And>d res. op (fs_region s region) = Commit d res \<Longrightarrow> ledger_step region (fs_region s region) d"
    and kept: "\<And>d res. op (fs_region s region) = Commit d res \<Longrightarrow>
      leases_kept (fs_region s region) d \<and> closed_kept (fs_region s region) d \<and> outbox_kept region acked (fs_region s region) d"
    and acked: "\<And>e. e \<in> acked \<Longrightarrow> settled_in (fs_primary s) e"
  shows "funds_inv (upd_region s region d)"
  using run
proof (cases rule: run_tx_cases)
  case same
  then show ?thesis using inv by simp
next
  case (commit r)
  note k = kept [OF commit]
  show ?thesis
  proof (rule funds_inv_region [OF inv _ _ _ _ acked])
    show "ledger_inv region d" using ledger_step_inv [OF step [OF commit]] funds_invD(2) [OF inv] by blast
    show "lease_known (fs_primary s) (lr_lease row)" if "map_of (ll_leases d) lid = Some row" for lid row
      using that k funds_invD(4) [OF inv] unfolding leases_kept_def by metis
  qed (use k in auto)
qed

lemma funds_inv_install:
  assumes inv: "funds_inv s" and tok: "l \<in> fs_tokens s"
    and run: "run_tx flt LDB (ledger_Install region l) (fs_region s region) = (res, d)"
  shows "funds_inv (upd_region s region d)"
  using run
proof (cases rule: run_tx_cases)
  case same
  then show ?thesis using inv by simp
next
  case (commit r)
  have i: "ledger_inv region d" using ledger_Install_inv [OF commit] funds_invD(2) [OF inv] by blast
  from commit show ?thesis
  proof (cases rule: ledger_Install_commit)
    case same
    then show ?thesis using inv by simp
  next
    case (new row)
    have db': "ll_leases d = tput (l_LeaseID l) row (ll_leases (fs_region s region))" "ll_outbox d = ll_outbox (fs_region s region)"
      by (simp_all add: new)
    show ?thesis
    proof (rule funds_inv_region [OF inv i])
      show "lease_known (fs_primary s) (lr_lease row')" if "map_of (ll_leases d) lid = Some row'" for lid row'
        using that funds_invD(3) [OF inv tok] funds_invD(4) [OF inv, of region lid row'] new(4)
        by (cases "lid = l_LeaseID l") (auto simp: db' map_of_tput)
      show "closed_kept (fs_region s region) d" using new(1) by (auto simp: closed_kept_def db' map_of_tput)
      show "outbox_kept region {} (fs_region s region) d" by (rule kept_same_outbox [OF db'(2)])
    qed simp
  qed
qed

section \<open>Primary steps\<close>

text \<open>No primary operation drops a lease, changes its region or grant, or forgets a settled event.\<close>

definition primary_kept :: "'a primary_db \<Rightarrow> 'a primary_db \<Rightarrow> bool" where
  "primary_kept db db' \<longleftrightarrow>
     (\<forall>lid row. map_of (pd_leases db) lid = Some row \<longrightarrow>
        (\<exists>row'. map_of (pd_leases db') lid = Some row' \<and> l_RegionID (qr_lease row') = l_RegionID (qr_lease row) \<and>
           l_Granted (qr_lease row') = l_Granted (qr_lease row))) \<and>
     (\<forall>eid v. map_of (pd_settled db) eid = Some v \<longrightarrow> map_of (pd_settled db') eid = Some v)"

lemma kept_known: "primary_kept db db' \<Longrightarrow> lease_known db l \<Longrightarrow> lease_known db' l"
  unfolding primary_kept_def lease_known_def by metis

lemma kept_settled: "primary_kept db db' \<Longrightarrow> settled_in db e \<Longrightarrow> settled_in db' e"
  unfolding primary_kept_def settled_in_def by blast

lemma kept_refl: "pd_leases db' = pd_leases db \<Longrightarrow> pd_settled db' = pd_settled db \<Longrightarrow> primary_kept db db'"
  by (simp add: primary_kept_def)

lemma funds_inv_primary:
  assumes inv: "funds_inv s" and db: "primary_inv db" "primary_kept (fs_primary s) db"
    and settled: "\<And>eid lid e. map_of (pd_settled db) eid = Some (lid, e) \<Longrightarrow> in_outbox (fs_region s (u_RegionID (ev_Usage e))) e"
    and closed: "\<And>lid row. map_of (pd_leases db) lid = Some row \<Longrightarrow> qr_closed row \<Longrightarrow>
      region_closed s (l_RegionID (qr_lease row)) lid (qr_spent row)"
  shows "funds_inv (s\<lparr>fs_primary := db\<rparr>)"
proof -
  note D = funds_invD [OF inv]
  have rc: "region_closed (s\<lparr>fs_primary := db\<rparr>) = region_closed s" by (auto simp: fun_eq_iff region_closed_def)
  have "lease_known db l" if "l \<in> fs_tokens s" for l using kept_known [OF db(2) D(3) [OF that]] .
  moreover have "lease_known db (lr_lease row)" if "map_of (ll_leases (fs_region s region)) lid = Some row" for region lid row
    using kept_known [OF db(2) D(4) [OF that]] .
  moreover have "u_RegionID (ev_Usage e) = region \<and> (ack \<longrightarrow> settled_in db e)"
    if "map_of (ll_outbox (fs_region s region)) eid = Some (e, ack)" for region eid e ack
    using that D(5) D(6) [of region eid e] kept_settled [OF db(2)] by (cases ack) auto
  moreover have "settled_in db e" if "(region, e) \<in> fs_confirmed s" for region e
    using kept_settled [OF db(2) D(7) [OF that]] .
  ultimately show ?thesis
    using db(1) D(2,9) settled closed unfolding funds_inv_def rc by simp blast
qed

lemma funds_inv_main:
  assumes inv: "funds_inv s" and "primary_inv db" "pd_leases db = pd_leases (fs_primary s)" "pd_settled db = pd_settled (fs_primary s)"
  shows "funds_inv (s\<lparr>fs_primary := db\<rparr>)"
proof (rule funds_inv_primary [OF inv assms(2) kept_refl [OF assms(3,4)]])
  show "map_of (pd_settled db) eid = Some (lid, e) \<Longrightarrow> in_outbox (fs_region s (u_RegionID (ev_Usage e))) e" for eid lid e
    using funds_invD(8) [OF inv] by (simp add: assms(4))
  show "map_of (pd_leases db) lid = Some row \<Longrightarrow> qr_closed row \<Longrightarrow>
      region_closed s (l_RegionID (qr_lease row)) lid (qr_spent row)" for lid row
    using funds_invD(10) [OF inv] by (simp add: assms(3))
qed

lemma funds_inv_main_call:
  assumes inv: "funds_inv s" and run: "run_tx flt LDB op (fs_primary s) = (res, db)"
    and ok: "\<And>d r. op (fs_primary s) = Commit d r \<Longrightarrow> primary_funds_step (fs_primary s) d \<and>
      pd_leases d = pd_leases (fs_primary s) \<and> pd_settled d = pd_settled (fs_primary s)"
  shows "funds_inv (s\<lparr>fs_primary := db\<rparr>)"
  using run
proof (cases rule: run_tx_cases)
  case same
  then show ?thesis using inv by simp
next
  case (commit r)
  note k = ok [OF commit]
  have "primary_inv db" using k primary_funds_step_inv funds_invD(1) [OF inv] by blast
  then show ?thesis using funds_inv_main [OF inv] k by blast
qed

lemma funds_inv_issue:
  assumes inv: "funds_inv s" and run: "run_tx flt LDB (quota_Issue p now l) (fs_primary s) = (res, db)"
  shows "funds_inv (s\<lparr>fs_primary := db\<rparr>)"
  using run
proof (cases rule: run_tx_cases)
  case same
  then show ?thesis using inv by simp
next
  case (commit r)
  have pi: "primary_inv db" by (rule quota_Issue_inv [OF commit funds_invD(1) [OF inv]])
  from commit show ?thesis
  proof (cases rule: quota_Issue_commit)
    case 1
    have "primary_kept (fs_primary s) db" using 1 by (auto simp: primary_kept_def map_of_tput)
    moreover have "region_closed s (l_RegionID (qr_lease row)) lid (qr_spent row)"
      if "map_of (pd_leases db) lid = Some row" "qr_closed row" for lid row
      using that 1 funds_invD(10) [OF inv, of lid row] by (cases "lid = l_LeaseID l") (auto simp: map_of_tput)
    ultimately show ?thesis using funds_invD(8) [OF inv] 1 by (intro funds_inv_primary [OF inv pi]) auto
  qed
qed

lemma funds_inv_settle:
  assumes inv: "funds_inv s" and e: "in_outbox (fs_region s region) e"
    and run: "run_tx flt LDB (quota_Settle region e verify) (fs_primary s) = (res, db)"
  shows "funds_inv (s\<lparr>fs_primary := db\<rparr>)"
  using run
proof (cases rule: run_tx_cases)
  case same
  then show ?thesis using inv by simp
next
  case (commit r)
  have pi: "primary_inv db" by (rule quota_Settle_inv [OF commit funds_invD(1) [OF inv]])
  from commit show ?thesis
  proof (cases rule: quota_Settle_commit)
    case (1 row v aux)
    have eq: "pd_settled db = tput (u_EventID (ev_Usage e)) (u_LeaseID (ev_Usage e), e) (pd_settled (fs_primary s))"
      "pd_leases db = tput (u_LeaseID (ev_Usage e)) (row\<lparr>qr_spent := qr_spent row + u_Charge (ev_Usage e)\<rparr>) (pd_leases (fs_primary s))"
      by (simp_all add: 1)
    have reg: "u_RegionID (ev_Usage e) = region"
      using ValidateAgainst_scope(2) [OF Event_Validate_usage [OF 1(7)]] 1(6) by simp
    have "primary_kept (fs_primary s) db" using 1(4,8) by (auto simp: primary_kept_def eq map_of_tput)
    moreover have "region_closed s (l_RegionID (qr_lease r')) lid (qr_spent r')"
      if "map_of (pd_leases db) lid = Some r'" "qr_closed r'" for lid r'
      using that 1(5) funds_invD(10) [OF inv, of lid r'] by (cases "lid = u_LeaseID (ev_Usage e)") (auto simp: eq map_of_tput)
    moreover have "in_outbox (fs_region s (u_RegionID (ev_Usage e'))) e'"
      if "map_of (pd_settled db) eid = Some (lid, e')" for eid lid e'
      using that e reg funds_invD(8) [OF inv, of eid lid e'] by (cases "eid = u_EventID (ev_Usage e)") (auto simp: eq map_of_tput)
    ultimately show ?thesis by (intro funds_inv_primary [OF inv pi])
  qed
qed

lemma funds_inv_close:
  assumes inv: "funds_inv s" and rc: "receipt \<in> fs_receipts s"
    and run: "run_tx flt LDB (quota_Close p region receipt) (fs_primary s) = (res, db)"
  shows "funds_inv (s\<lparr>fs_primary := db\<rparr>)"
  using run
proof (cases rule: run_tx_cases)
  case same
  then show ?thesis using inv by simp
next
  case (commit r)
  have p0: "primary_inv (fs_primary s)" by (rule funds_invD(1) [OF inv])
  have pi: "primary_inv db" by (rule quota_Close_inv [OF commit p0])
  from quota_Close_effect [OF commit p0] show ?thesis
  proof cases
    case (1 row)
    have "primary_kept (fs_primary s) db" using 1 by (auto simp: primary_kept_def map_of_tput)
    moreover have "region_closed s (l_RegionID (qr_lease r')) lid (qr_spent r')"
      if r': "map_of (pd_leases db) lid = Some r'" "qr_closed r'" for lid r'
    proof (cases "lid = dr_LeaseID receipt")
      case True
      then have "r' = row\<lparr>qr_closed := True\<rparr>" using r' 1 by (simp add: map_of_tput)
      then show ?thesis using funds_invD(9) [OF inv rc] 1 True by simp
    next
      case False
      then show ?thesis using r' 1 funds_invD(10) [OF inv, of lid r'] by (simp add: map_of_tput)
    qed
    ultimately show ?thesis using funds_invD(8) [OF inv] 1 by (intro funds_inv_primary [OF inv pi]) auto
  qed
qed

section \<open>Messages\<close>

lemma funds_inv_messages:
  assumes inv: "funds_inv s" and "\<And>l. l \<in> T \<Longrightarrow> lease_known (fs_primary s) l"
    "\<And>region e. (region, e) \<in> C \<Longrightarrow> settled_in (fs_primary s) e"
    "\<And>rc. rc \<in> R \<Longrightarrow> region_closed s (dr_Region rc) (dr_LeaseID rc) (dr_Spent rc)"
  shows "funds_inv (s\<lparr>fs_tokens := fs_tokens s \<union> T, fs_confirmed := fs_confirmed s \<union> C, fs_receipts := fs_receipts s \<union> R\<rparr>)"
proof -
  have "region_closed (s\<lparr>fs_tokens := a, fs_confirmed := b, fs_receipts := c\<rparr>) = region_closed s" for a b c
    by (auto simp: fun_eq_iff region_closed_def)
  then show ?thesis using assms unfolding funds_inv_def by (auto simp del: map_of_eq_Some_iff)
qed

lemma Issue_token:
  assumes "run_tx flt LDB (quota_Issue p now l) (fs_primary s) = (Inr (), db)"
  shows "lease_known db l"
  using run_tx_ok [OF assms]
proof
  assume "quota_Issue p now l (fs_primary s) = Rollback (Inr ()) \<and> db = fs_primary s"
  then show ?thesis
    by (auto simp: quota_Issue_def quota_grant_def primaryLease_Inr primaryLease_Inl sameLease_def lease_known_def
        split: sum.splits if_splits option.splits)
next
  assume "quota_Issue p now l (fs_primary s) = Commit db (Inr ())"
  then show ?thesis by (elim quota_Issue_commit) (simp add: lease_known_def map_of_tput)
qed

lemma Settle_confirmed:
  assumes inv: "primary_inv db0" and "run_tx flt LDB (quota_Settle region e verify) db0 = (Inr b, db)"
  shows "settled_in db e"
  using run_tx_ok [OF assms(2)]
proof
  assume a: "quota_Settle region e verify db0 = Rollback (Inr b) \<and> db = db0"
  then obtain lid where "map_of (pd_settled db0) (u_EventID (ev_Usage e)) = Some (lid, e)"
    by (auto simp: quota_Settle_def split: option.splits sum.splits if_splits)
  moreover from this have "u_LeaseID (ev_Usage e) = lid" using primary_invD(5) [OF inv] by (auto simp: settled_ok_def)
  ultimately show ?thesis using a by (simp add: settled_in_def)
next
  assume "quota_Settle region e verify db0 = Commit db (Inr b)"
  then show ?thesis by (elim quota_Settle_commit) (simp add: settled_in_def map_of_tput)
qed

lemma funds_step_inv: "funds_step s s' \<Longrightarrow> funds_inv s \<Longrightarrow> funds_inv s'"
proof (induction rule: funds_step.induct)
  case (fn_issue flt p now l s res db)
  have "funds_inv (s\<lparr>fs_primary := db\<rparr>)" by (rule funds_inv_issue [OF fn_issue(2,1)])
  from funds_inv_messages [OF this, of "if res = Inr () then {l} else {}" "{}" "{}"] show ?case
    using Issue_token [of flt p now l s db] fn_issue(1) by (auto split: if_splits)
next
  case (fn_settle s region e flt verify res db)
  have "funds_inv (s\<lparr>fs_primary := db\<rparr>)" by (rule funds_inv_settle [OF fn_settle(3,1,2)])
  from funds_inv_messages [OF this, of "{}" "case res of Inr _ \<Rightarrow> {(region, e)} | Inl _ \<Rightarrow> {}" "{}"] show ?case
    using Settle_confirmed [OF funds_invD(1) [OF fn_settle(3)]] fn_settle(2) by (cases res) auto
next
  case fn_close
  then show ?case by (rule_tac funds_inv_close)
next
  case (fn_main_reserve flt ps r s fresh db)
  show ?case
    by (rule funds_inv_main_call [OF fn_main_reserve(2,1)]) (auto intro: pf_reserve elim: requests_Reserve_commit)
next
  case (fn_main_start flt rid s res db)
  show ?case by (rule funds_inv_main_call [OF fn_main_start(2,1)]) (auto intro: pf_start elim: requests_Start_commit)
next
  case (fn_main_finish flt ps rid event s res db)
  show ?case
    by (rule funds_inv_main_call [OF fn_main_finish(2,1)]) (auto intro: pf_finish elim: requests_finish_commit)
next
  case fn_install
  then show ?case by (rule_tac funds_inv_install)
next
  case (fn_reserve flt region now r s fresh d)
  show ?case by (rule funds_inv_region_call [OF fn_reserve(2,1), of "{}"]) (auto intro: ld_reserve ledger_Reserve_kept)
next
  case (fn_start flt region now rid s res d)
  show ?case by (rule funds_inv_region_call [OF fn_start(2,1), of "{}"]) (auto intro: ld_start ledger_Start_kept)
next
  case (fn_finish flt region rid event s res d)
  show ?case
    using ledger_finish_kept funds_invD(2) [OF fn_finish(2)]
    by (intro funds_inv_region_call [OF fn_finish(2,1), of "{}"]) (auto intro: ld_finish)
next
  case (fn_ack region e s flt res d)
  show ?case
    using ledger_Acknowledge_kept funds_invD(7) [OF fn_ack(3,1)]
    by (intro funds_inv_region_call [OF fn_ack(3,2), of "{e}"]) (auto intro: ld_ack)
next
  case (fn_drain flt region lid s res d)
  show ?case by (rule funds_inv_region_call [OF fn_drain(2,1), of "{}"]) (auto intro: ld_drain ledger_Drain_kept)
next
  case (fn_local_close flt region lid s rc d)
  have inv': "funds_inv (upd_region s region d)"
    by (rule funds_inv_region_call [OF fn_local_close(2,1), of "{}"]) (auto intro: ld_close ledger_Close_kept)
  have "region_closed (upd_region s region d) (dr_Region x) (dr_LeaseID x) (dr_Spent x)" if rc: "rc = Inr x" for x
  proof -
    have "ledger_Close region lid (fs_region s region) = Commit d (Inr x)"
      using run_tx_ok [OF fn_local_close(1) [unfolded rc]]
      by (auto simp: ledger_Close_def split: sum.splits prod.splits if_splits option.splits)
    then show ?thesis by (elim ledger_Close_commit) (simp add: region_closed_def map_of_tput)
  qed
  then show ?case
    using funds_inv_messages [OF inv', of "{}" "{}" "case rc of Inr x \<Rightarrow> {x} | Inl _ \<Rightarrow> {}"] by (auto split: sum.splits)
qed

lemma funds_reach_inv: "funds_reach s \<Longrightarrow> funds_inv s"
proof (induction rule: funds_reach.induct)
  case (fr_start users aux)
  then show ?case
    by (simp add: funds_inv_def init_funds_def primary_inv_def ledger_inv_empty) (simp add: empty_ledger_def)
qed (blast intro: funds_step_inv)

section \<open>A closed lease is fully settled\<close>

lemma closed_spent:
  assumes inv: "funds_inv s" and row: "map_of (pd_leases (fs_primary s)) lid = Some row"
    and closed: "region_closed s region lid spent" and reg: "l_RegionID (qr_lease row) = region"
  shows "spent = qr_spent row"
proof -
  note D = funds_invD [OF inv]
  let ?db = "fs_region s region" and ?P = "fs_primary s"
  obtain l where l: "map_of (ll_leases ?db) lid = Some l" "lr_state l = LClosed" "lr_spent l = spent"
    using closed unfolding region_closed_def by blast
  note li = D(2) [of region]
  have lok: "lease_ok region ?db lid l" by (rule ledger_invD(4) [OF li l(1)])
  have nores: "\<not> unresolved lid ?db" using lok l(2) by (simp add: lease_ok_def)
  have acked: "settled_in ?P e" if ob: "map_of (ll_outbox ?db) eid = Some (e, ack)" "u_LeaseID (ev_Usage e) = lid" for eid e ack
  proof -
    obtain q where "map_of (ll_requests ?db) eid = Some q" "rr_state q = RCompleted" "rr_lease_id q = lid"
      using ledger_invD(6) [OF li ob(1)] ob(2) unfolding outbox_ok_def by metis
    then have "ack" using nores ob(1) unfolding unresolved_iff [OF ledger_invD(2) [OF li]] row_unresolved_def by fastforce
    then show ?thesis using D(6) [of region eid e] ob(1) by simp
  qed
  have "tsum (charge_weight lid) (ll_outbox ?db) = tsum (settled_weight lid) (pd_settled ?P)"
  proof (rule tsum_eqI)
    fix eid v assume v: "map_of (ll_outbox ?db) eid = Some v" "charge_weight lid eid v \<noteq> 0"
    then have "u_LeaseID (ev_Usage (fst v)) = lid" by (simp add: charge_weight_def split: if_splits)
    moreover have "u_EventID (ev_Usage (fst v)) = eid"
      using ledger_invD(6) [OF li, of eid "fst v" "snd v"] v(1) by (simp add: outbox_ok_def)
    moreover have "settled_in ?P (fst v)" using acked [of eid "fst v" "snd v"] v(1) calculation(1) by simp
    ultimately show "\<exists>w. map_of (pd_settled ?P) eid = Some w \<and> settled_weight lid eid w = charge_weight lid eid v"
      by (auto simp: settled_in_def settled_weight_def charge_weight_def)
  next
    fix eid w assume w: "map_of (pd_settled ?P) eid = Some w" "settled_weight lid eid w \<noteq> 0"
    then obtain e where e: "w = (lid, e)" by (cases w) (auto simp: settled_weight_def split: if_splits)
    have ok: "settled_ok ?P eid lid e" using primary_invD(5) [OF D(1)] w(1) e by blast
    then have "u_RegionID (ev_Usage e) = region" using row reg by (auto simp: settled_ok_def)
    then have "in_outbox ?db e" using D(8) [of eid lid e] w(1) e by simp
    then show "\<exists>v. map_of (ll_outbox ?db) eid = Some v \<and> charge_weight lid eid v = settled_weight lid eid w"
      using ok e by (auto simp: in_outbox_def settled_ok_def charge_weight_def settled_weight_def)
  qed (use ledger_invD(3) [OF li] primary_invD(2) [OF D(1)] in auto)
  then show ?thesis
    using lok l(3) primary_invD(4) [OF D(1) row] by (simp add: lease_ok_def quota_ok_def)
qed

section \<open>The worker\<close>

lemma ack_run_cases:
  assumes "run_tx flt LDB (ledger_Acknowledge region e) db = (res, db')"
  shows "db' = db \<or> (\<exists>a. map_of (ll_outbox db) (u_EventID (ev_Usage e)) = Some (e, a) \<and>
    ll_outbox db' = tput (u_EventID (ev_Usage e)) (e, True) (ll_outbox db))"
    "res = Inr () \<Longrightarrow> map_of (ll_outbox db') (u_EventID (ev_Usage e)) = Some (e, True)"
proof -
  show "db' = db \<or> (\<exists>a. map_of (ll_outbox db) (u_EventID (ev_Usage e)) = Some (e, a) \<and>
    ll_outbox db' = tput (u_EventID (ev_Usage e)) (e, True) (ll_outbox db))"
    using assms by (cases rule: run_tx_cases) (auto elim!: ledger_Acknowledge_commit)
  assume "res = Inr ()"
  then have "run_tx flt LDB (ledger_Acknowledge region e) db = (Inr (), db')" using assms by simp
  moreover have "ledger_Acknowledge region e db \<noteq> Rollback (Inr ())"
    by (simp add: ledger_Acknowledge_def Let_def split: option.split)
  ultimately have "ledger_Acknowledge region e db = Commit db' (Inr ())"
    using run_tx_ok [of flt LDB "ledger_Acknowledge region e" db "()" db'] by blast
  then show "map_of (ll_outbox db') (u_EventID (ev_Usage e)) = Some (e, True)"
    by (elim ledger_Acknowledge_commit) (simp add: map_of_tput)
qed

lemma flush_events_acks:
  assumes "flush_events settle cancelled flt region k es (w, db) = ((n, err), (w', db'))"
  shows "(\<forall>eid e. map_of (ll_outbox db) eid = Some (e, True) \<longrightarrow> map_of (ll_outbox db') eid = Some (e, True)) \<and>
    (\<forall>eid e. map_of (ll_outbox db') eid = Some (e, True) \<longrightarrow>
       map_of (ll_outbox db) eid = Some (e, True) \<or> (\<exists>w1 w2. e \<in> set es \<and> settle e w1 = (None, w2))) \<and>
    (err = None \<longrightarrow> n = k + length es \<and> (\<forall>e \<in> set es. map_of (ll_outbox db') (u_EventID (ev_Usage e)) = Some (e, True)))"
  using assms
proof (induction es arbitrary: k w db)
  case (Cons e es)
  show ?case
  proof (cases "cancelled k")
    case True
    then show ?thesis using Cons.prems by auto
  next
    case go: False
    obtain o1 w1 where s: "settle e w = (o1, w1)" by (cases "settle e w")
    show ?thesis
    proof (cases o1)
      case (Some err1)
      then show ?thesis using Cons.prems go s by auto
    next
      case None
      obtain res d where r: "run_tx (flt k) LDB (ledger_Acknowledge region e) db = (res, d)"
        by (cases "run_tx (flt k) LDB (ledger_Acknowledge region e) db")
      note a = ack_run_cases [OF r]
      have old: "map_of (ll_outbox d) eid = Some (e', True)" if "map_of (ll_outbox db) eid = Some (e', True)" for eid e'
        using a(1) that by (auto simp: map_of_tput)
      have new: "map_of (ll_outbox db) eid = Some (e', True) \<or> e' = e" if "map_of (ll_outbox d) eid = Some (e', True)" for eid e'
        using a(1) that by (auto simp: map_of_tput split: if_splits)
      show ?thesis
      proof (cases res)
        case (Inl err1)
        then have "d = db'" "err = Some err1" using Cons.prems go s None r by auto
        moreover have "\<exists>w1 w2. settle e w1 = (None, w2)" using s None by blast
        ultimately show ?thesis using old new by (metis list.set_intros(1) option.distinct(1))
      next
        case (Inr u)
        then have f: "flush_events settle cancelled flt region (Suc k) es (w1, d) = ((n, err), (w', db'))"
          using Cons.prems go s None r by simp
        have acked: "map_of (ll_outbox d) (u_EventID (ev_Usage e)) = Some (e, True)" using a(2) Inr by simp
        note IH = Cons.IH [OF f]
        have "map_of (ll_outbox db) eid = Some (e', True) \<or> (\<exists>w1 w2. e' \<in> set (e # es) \<and> settle e' w1 = (None, w2))"
          if "map_of (ll_outbox db') eid = Some (e', True)" for eid e'
          using IH that new s None by (metis list.set_intros)
        then show ?thesis using IH old acked by (auto simp del: map_of_eq_Some_iff)
      qed
    qed
  qed
qed simp

lemma outbox_delays_bounded:
  assumes "Second \<le> interval" "interval \<le> Minute" "interval \<le> delay" "delay \<le> 5 * Minute" "d \<in> set (outbox_delays interval delay oks)"
  shows "interval \<le> d \<and> d \<le> 5 * Minute"
  using assms
proof (induction oks arbitrary: delay)
  case (Cons ok oks)
  let ?d = "outbox_delay interval delay ok"
  have "is_int64 (delay * 2)"
    using Cons.prems(1-4) by (simp add: is_int64_def Second_def Minute_def MinInt64_def MaxInt64_def)
  then have "interval \<le> ?d \<and> ?d \<le> 5 * Minute"
    using Cons.prems(1-4) by (auto simp: outbox_delay_def wrap64_id Second_def Minute_def)
  then show ?case using Cons by (auto simp: Let_def)
qed simp

section \<open>Properties\<close>

text \<open>A full cycle: a lease is issued and installed, a request is reserved, started and completed, its event is
  settled and acknowledged, and the lease is drained and closed.\<close>

definition sample_held :: Reservation where
  "sample_held = sample_reservation\<lparr>rq_Maximum := 20, rq_Model := ''m'', rq_PricingVersion := ''v1'',
     rq_PayloadSHA256 := replicate 64 CHR ''0''\<rparr>"

definition sample_event :: Event where
  "sample_event = \<lparr>ev_Usage = \<lparr>u_SchemaVersion = 1, u_EventID = ''req-1'', u_LeaseID = ''q-1'', u_RegionID = ''eu'', u_UserID = 3,
     u_APIKeyID = 4, u_AccountID = 5, u_AdmittedAt = 1500, u_CompletedAt = 3000, u_Charge = 20\<rparr>,
     ev_Model = ''m'', ev_PricingVersion = ''v1'', ev_PayloadSHA256 = replicate 64 CHR ''0'', ev_InputTokens = 1, ev_OutputTokens = 1,
     ev_CacheCreationTokens = 0, ev_CacheReadTokens = 0\<rparr>"

definition sample_completed :: ledger_db where
  "sample_completed = \<lparr>ll_leases = [(''q-1'', \<lparr>lr_lease = sample_quota, lr_region = ''eu'', lr_user = 3, lr_granted = 100,
       lr_spent = 20, lr_reserved = 0, lr_state = LOpen\<rparr>)],
     ll_requests = [(''req-1'', \<lparr>rr_lease_id = ''q-1'', rr_request = sample_held, rr_maximum = 20, rr_state = RCompleted\<rparr>)],
     ll_outbox = [(''req-1'', sample_event, False)]\<rparr>"

definition sample_closed :: ledger_db where
  "sample_closed = sample_completed\<lparr>ll_leases := [(''q-1'', \<lparr>lr_lease = sample_quota, lr_region = ''eu'', lr_user = 3, lr_granted = 100,
       lr_spent = 20, lr_reserved = 0, lr_state = LClosed\<rparr>)], ll_outbox := [(''req-1'', sample_event, True)]\<rparr>"

definition sample_receipt :: DrainReceipt where
  "sample_receipt = \<lparr>dr_LeaseID = ''q-1'', dr_Region = ''eu'', dr_Spent = 20\<rparr>"

definition sample_settled :: "unit price_db primary_db" where
  "sample_settled = sample_granted\<lparr>pd_leases := [(''q-1'', \<lparr>qr_lease = sample_quota, qr_spent = 20, qr_closed = False\<rparr>)],
     pd_settled := [(''req-1'', ''q-1'', sample_event)]\<rparr>"

definition sample_cycle :: "unit price_db funds_sys" where
  "sample_cycle = \<lparr>fs_primary = sample_settled, fs_region = (\<lambda>_. empty_ledger)(''eu'' := sample_closed), fs_tokens = {sample_quota},
     fs_confirmed = {(''eu'', sample_event)}, fs_receipts = {sample_receipt}\<rparr>"

definition run_ok :: "('db \<Rightarrow> ('db, ledger_err, 'b) tx) \<Rightarrow> 'db \<Rightarrow> 'db" where
  "run_ok op db = snd (run_tx NoFault LDB op db)"

lemma run_ok: "run_tx NoFault LDB op db = (fst (run_tx NoFault LDB op db), run_ok op db)"
  by (simp add: run_ok_def)

lemma sample_install: "run_ok (ledger_Install ''eu'' sample_quota) empty_ledger = sample_ledger"
  by code_simp

lemma sample_complete:
  "run_ok (ledger_finish ''eu'' ''req-1'' (Some sample_event)) (run_ok (ledger_Start ''eu'' 2000 ''req-1'')
     (run_ok (ledger_Reserve ''eu'' 2000 sample_held) sample_ledger)) = sample_completed"
  by code_simp

lemma sample_close:
  "run_tx NoFault LDB (ledger_Close ''eu'' ''q-1'') (run_ok (ledger_Drain ''eu'' ''q-1'')
     (run_ok (ledger_Acknowledge ''eu'' sample_event) sample_completed)) = (Inr sample_receipt, sample_closed)"
  by code_simp

lemma sample_settle:
  "run_tx NoFault LDB (quota_Settle ''eu'' sample_event (Some (\<lambda>_. Inr))) sample_granted = (Inr True, sample_settled)"
  by code_simp

abbreviation eu_state :: "unit price_db primary_db \<Rightarrow> ledger_db \<Rightarrow> (string \<times> Event) set \<Rightarrow> DrainReceipt set \<Rightarrow> unit price_db funds_sys" where
  "eu_state p d c r \<equiv> \<lparr>fs_primary = p, fs_region = (\<lambda>_. empty_ledger)(''eu'' := d), fs_tokens = {sample_quota},
     fs_confirmed = c, fs_receipts = r\<rparr>"

lemma sample_reach_completed: "funds_reach (eu_state sample_granted sample_completed {} {})"
proof -
  let ?r = "run_ok (ledger_Reserve ''eu'' 2000 sample_held) sample_ledger"
  let ?t = "run_ok (ledger_Start ''eu'' 2000 ''req-1'') ?r"
  have "funds_reach (init_funds (pd_users sample_funds) (pd_aux sample_funds))"
    by (rule fr_start) (auto simp: sample_funds_def split: if_splits)
  moreover have "funds_step (init_funds (pd_users sample_funds) (pd_aux sample_funds)) (eu_state sample_granted empty_ledger {} {})"
  proof -
    have "fs_primary (init_funds (pd_users sample_funds) (pd_aux sample_funds)) = sample_funds"
      by (simp add: init_funds_def sample_funds_def)
    then have "run_tx NoFault LDB (quota_Issue sample_quota_primary 2000 sample_quota)
        (fs_primary (init_funds (pd_users sample_funds) (pd_aux sample_funds))) = (Inr (), sample_granted)"
      by (simp add: tx_simps sample_quota_issue)
    from fn_issue [OF this] show ?thesis by (simp add: init_funds_def fun_upd_idem)
  qed
  moreover have "funds_step (eu_state sample_granted empty_ledger {} {}) (eu_state sample_granted sample_ledger {} {})"
    using fn_install [of sample_quota "eu_state sample_granted empty_ledger {} {}" NoFault "''eu''", OF _ run_ok]
    by (simp add: sample_install)
  moreover have "funds_step (eu_state sample_granted sample_ledger {} {}) (eu_state sample_granted ?r {} {})"
    using fn_reserve [of NoFault "''eu''" 2000 sample_held "eu_state sample_granted sample_ledger {} {}", OF run_ok] by simp
  moreover have "funds_step (eu_state sample_granted ?r {} {}) (eu_state sample_granted ?t {} {})"
    using fn_start [of NoFault "''eu''" 2000 "''req-1''" "eu_state sample_granted ?r {} {}", OF run_ok] by simp
  moreover have "funds_step (eu_state sample_granted ?t {} {}) (eu_state sample_granted sample_completed {} {})"
    using fn_finish [of NoFault "''eu''" "''req-1''" "Some sample_event" "eu_state sample_granted ?t {} {}", OF run_ok]
    by (simp add: sample_complete)
  ultimately show ?thesis by (metis (no_types) fr_step)
qed

lemma sample_cycle_reach: "funds_reach sample_cycle"
proof -
  let ?c = "{(''eu'', sample_event)}"
  let ?a = "run_ok (ledger_Acknowledge ''eu'' sample_event) sample_completed"
  let ?d = "run_ok (ledger_Drain ''eu'' ''q-1'') ?a"
  have "in_outbox sample_completed sample_event" by (auto simp: in_outbox_def sample_completed_def sample_event_def)
  then have "funds_step (eu_state sample_granted sample_completed {} {}) (eu_state sample_settled sample_completed ?c {})"
    using fn_settle [of "eu_state sample_granted sample_completed {} {}" "''eu''" sample_event NoFault "Some (\<lambda>_. Inr)" "Inr True" sample_settled]
    by (simp add: sample_settle)
  moreover have "funds_step (eu_state sample_settled sample_completed ?c {}) (eu_state sample_settled ?a ?c {})"
    using fn_ack [of "''eu''" sample_event "eu_state sample_settled sample_completed ?c {}" NoFault, OF _ run_ok] by simp
  moreover have "funds_step (eu_state sample_settled ?a ?c {}) (eu_state sample_settled ?d ?c {})"
    using fn_drain [of NoFault "''eu''" "''q-1''" "eu_state sample_settled ?a ?c {}", OF run_ok] by simp
  moreover have "funds_step (eu_state sample_settled ?d ?c {}) sample_cycle"
    using fn_local_close [of NoFault "''eu''" "''q-1''" "eu_state sample_settled ?d ?c {}" "Inr sample_receipt" sample_closed]
    by (simp add: sample_close sample_cycle_def)
  ultimately show ?thesis using sample_reach_completed by (metis (no_types) fr_step)
qed

text \<open>C25: a drain receipt is exact. In every reachable state, a receipt a region has emitted names a lease
  of the primary for that region, and its amount is what the primary has settled under the lease, which
  is the sum of the charges of all requests the region completed under it: nothing is lost or counted
  twice. When the primary closes the lease with the receipt, the balance of the lease's user grows by exactly the unspent rest of
  the grant (by nothing for a subscription, which had debited nothing), nobody else's changes, and the lease is closed; with a
  lease that is closed already, closing changes nothing.\<close>

theorem receipt_exact:
  assumes "funds_reach s" "rc \<in> fs_receipts s"
  shows "\<exists>row. map_of (pd_leases (fs_primary s)) (dr_LeaseID rc) = Some row \<and> l_RegionID (qr_lease row) = dr_Region rc \<and>
    dr_Spent rc = qr_spent row \<and> dr_Spent rc = tsum (charge_weight (dr_LeaseID rc)) (ll_outbox (fs_region s (dr_Region rc))) \<and>
    0 \<le> dr_Spent rc \<and> dr_Spent rc \<le> l_Granted (qr_lease row) \<and>
    (\<forall>p region db' res. quota_Close p region rc (fs_primary s) = Commit db' res \<longrightarrow>
       res = Inr () \<and> map_of (pd_leases db') (dr_LeaseID rc) = Some (row\<lparr>qr_closed := True\<rparr>) \<and>
       (\<forall>u. balance_of u db' = balance_of u (fs_primary s) +
          (if u = l_UserID (qr_lease row) \<and> l_BillingMode (qr_lease row) \<noteq> ''subscription''
           then l_Granted (qr_lease row) - dr_Spent rc else 0))) \<and>
    (qr_closed row \<longrightarrow> (\<forall>p. quota_Close p (dr_Region rc) rc (fs_primary s) = Rollback (Inr ())))"
proof -
  note inv = funds_reach_inv [OF assms(1)]
  note closed = funds_invD(9) [OF inv assms(2)]
  then obtain l where l: "map_of (ll_leases (fs_region s (dr_Region rc))) (dr_LeaseID rc) = Some l" "lr_spent l = dr_Spent rc"
    unfolding region_closed_def by blast
  have lok: "lease_ok (dr_Region rc) (fs_region s (dr_Region rc)) (dr_LeaseID rc) l"
    by (rule ledger_invD(4) [OF funds_invD(2) [OF inv] l(1)])
  obtain row where row: "map_of (pd_leases (fs_primary s)) (dr_LeaseID rc) = Some row" "l_RegionID (qr_lease row) = dr_Region rc"
    using funds_invD(4) [OF inv l(1)] lok by (auto simp: lease_known_def lease_ok_def)
  have "dr_Spent rc = qr_spent row" by (rule closed_spent [OF inv row(1) closed row(2)])
  note spent = this
  have "res = Inr () \<and> map_of (pd_leases db') (dr_LeaseID rc) = Some (row\<lparr>qr_closed := True\<rparr>) \<and>
       (\<forall>u. balance_of u db' = balance_of u (fs_primary s) +
          (if u = l_UserID (qr_lease row) \<and> l_BillingMode (qr_lease row) \<noteq> ''subscription''
           then l_Granted (qr_lease row) - dr_Spent rc else 0))"
    if c: "quota_Close p region rc (fs_primary s) = Commit db' res" for p region db' res
  proof -
    have "res = Inr ()" using c by (cases rule: quota_Close_commit) simp
    from quota_Close_effect [OF c funds_invD(1) [OF inv]] this row(1) spent show ?thesis
      by cases (auto simp: moved_balance map_of_tput)
  qed
  moreover have "quota_Close p (dr_Region rc) rc (fs_primary s) = Rollback (Inr ())" if "qr_closed row" for p
    using row spent that by (simp add: quota_Close_def primaryLease_def)
  ultimately show ?thesis
    using row lok l(2) primary_invD(4) [OF funds_invD(1) [OF inv] row(1)] spent
    by (intro exI [of _ row]) (simp add: lease_ok_def quota_ok_def)
qed

lemma sample_refund:
  "quota_Close sample_quota_primary ''eu'' sample_receipt sample_settled =
     Commit (sample_settled\<lparr>pd_users := [(3, \<lparr>us_balance = 480, us_active = True\<rparr>)],
       pd_leases := [(''q-1'', \<lparr>qr_lease = sample_quota, qr_spent = 20, qr_closed = True\<rparr>)]\<rparr>) (Inr ())"
  by code_simp

theorem receipt_exact_witness:
  "\<exists>db'. quota_Close sample_quota_primary ''eu'' sample_receipt (fs_primary sample_cycle) = Commit db' (Inr ()) \<and>
     balance_of 3 db' = balance_of 3 (fs_primary sample_cycle) + (100 - 20)"
proof -
  have rc: "sample_receipt \<in> fs_receipts sample_cycle" "dr_LeaseID sample_receipt = ''q-1''" "dr_Spent sample_receipt = 20"
    by (simp_all add: sample_cycle_def sample_receipt_def)
  obtain db' where c: "quota_Close sample_quota_primary ''eu'' sample_receipt (fs_primary sample_cycle) = Commit db' (Inr ())"
    using sample_refund by (simp add: sample_cycle_def)
  obtain row where row: "map_of (pd_leases (fs_primary sample_cycle)) ''q-1'' = Some row"
    and bal: "balance_of 3 db' = balance_of 3 (fs_primary sample_cycle) +
       (if 3 = l_UserID (qr_lease row) \<and> l_BillingMode (qr_lease row) \<noteq> ''subscription'' then l_Granted (qr_lease row) - 20 else 0)"
    using receipt_exact [OF sample_cycle_reach rc(1)] c unfolding rc(2,3) by blast
  have "qr_lease row = sample_quota" using row by (auto simp: sample_cycle_def sample_settled_def)
  then show ?thesis using c bal by (simp add: sample_quota_def)
qed

text \<open>C4: what a region spends and holds is covered by the money the primary set aside. In every reachable
  state, for every lease row of every region, the charges of its completed requests plus the maxima of
  its open ones stay within the grant the primary debited; and once the primary has closed and refunded
  the lease, the region has closed it too with exactly the settled amount spent.\<close>

theorem regional_spending_covered:
  assumes "funds_reach s" "map_of (ll_leases (fs_region s region)) lid = Some l"
  shows "\<exists>row. map_of (pd_leases (fs_primary s)) lid = Some row \<and>
    lr_spent l = tsum (charge_weight lid) (ll_outbox (fs_region s region)) \<and>
    lr_reserved l = tsum (hold_weight lid) (ll_requests (fs_region s region)) \<and>
    lr_spent l + lr_reserved l \<le> l_Granted (qr_lease row) \<and>
    (qr_closed row \<longrightarrow> lr_state l = LClosed \<and> lr_spent l = qr_spent row)"
proof -
  note inv = funds_reach_inv [OF assms(1)]
  have lok: "lease_ok region (fs_region s region) lid l" by (rule ledger_invD(4) [OF funds_invD(2) [OF inv] assms(2)])
  obtain row where row: "map_of (pd_leases (fs_primary s)) lid = Some row" "l_RegionID (qr_lease row) = region"
      "l_Granted (qr_lease row) = l_Granted (lr_lease l)"
    using funds_invD(4) [OF inv assms(2)] lok by (auto simp: lease_known_def lease_ok_def)
  have "lr_state l = LClosed \<and> lr_spent l = qr_spent row" if "qr_closed row"
    using funds_invD(10) [OF inv row(1) that] row(2) assms(2) by (simp add: region_closed_def)
  then show ?thesis using row lok by (auto simp: lease_ok_def)
qed

theorem regional_spending_covered_witness:
  "\<exists>l. map_of (ll_leases (fs_region sample_cycle ''eu'')) ''q-1'' = Some l \<and>
     (\<exists>row. map_of (pd_leases (fs_primary sample_cycle)) ''q-1'' = Some row \<and> lr_spent l + lr_reserved l \<le> l_Granted (qr_lease row))"
proof -
  obtain l where l: "map_of (ll_leases (fs_region sample_cycle ''eu'')) ''q-1'' = Some l"
    by (simp add: sample_cycle_def sample_closed_def)
  from regional_spending_covered [OF sample_cycle_reach l] show ?thesis using l by blast
qed

text \<open>the outbox worker acknowledges only what the primary confirmed. After a flush, an event is marked
  acknowledged only if it was before, or it was in the batch and the settlement client reported success
  for it; no acknowledgement is lost; and a flush without error has acknowledged its whole batch.\<close>

theorem flush_acknowledges_confirmed:
  assumes "ledger_Pending order_by region limit db = Inr es"
    "Flush (Some settle) cancelled flt order_by region limit (w, db) = ((n, err), (w', db'))"
  shows "(\<forall>eid e. map_of (ll_outbox db) eid = Some (e, True) \<longrightarrow> map_of (ll_outbox db') eid = Some (e, True)) \<and>
    (\<forall>eid e. map_of (ll_outbox db') eid = Some (e, True) \<longrightarrow>
       map_of (ll_outbox db) eid = Some (e, True) \<or> (\<exists>w1 w2. e \<in> set es \<and> settle e w1 = (None, w2))) \<and>
    (err = None \<longrightarrow> n = length es \<and> (\<forall>e \<in> set es. map_of (ll_outbox db') (u_EventID (ev_Usage e)) = Some (e, True)))"
  using flush_events_acks [of settle cancelled flt region 0 es w db n err w' db'] assms by (simp add: Flush_def)

theorem flush_acknowledges_confirmed_witness:
  "\<exists>db'. Flush (Some (\<lambda>e w. (None, w))) (\<lambda>_. False) (\<lambda>_. NoFault) (\<lambda>xs. xs) ''eu'' 100 ((), sample_completed) = ((1, None), ((), db')) \<and>
     map_of (ll_outbox db') ''req-1'' = Some (sample_event, True)"
proof -
  let ?settle = "(\<lambda>e w. (None, w)) :: Event \<Rightarrow> unit \<Rightarrow> ledger_err option \<times> unit"
  have p: "ledger_Pending (\<lambda>xs. xs) ''eu'' 100 sample_completed = Inr [sample_event]" by code_simp
  have "fst (Flush (Some ?settle) (\<lambda>_. False) (\<lambda>_. NoFault) (\<lambda>xs. xs) ''eu'' 100 ((), sample_completed)) = (1, None)" by code_simp
  then obtain db' where f: "Flush (Some ?settle) (\<lambda>_. False) (\<lambda>_. NoFault) (\<lambda>xs. xs) ''eu'' 100 ((), sample_completed) = ((1, None), ((), db'))"
    by (cases "Flush (Some ?settle) (\<lambda>_. False) (\<lambda>_. NoFault) (\<lambda>xs. xs) ''eu'' 100 ((), sample_completed)") auto
  from flush_acknowledges_confirmed [OF p f]
  have "map_of (ll_outbox db') (u_EventID (ev_Usage sample_event)) = Some (sample_event, True)" by auto
  then have "map_of (ll_outbox db') ''req-1'' = Some (sample_event, True)" by (simp add: sample_event_def)
  then show ?thesis using f by blast
qed

text \<open>The worker's back-off is bounded: every pause between two cycles is at least the configured
  interval and at most five minutes, whatever the outcomes of the cycles, and no doubling overflows.\<close>

theorem outbox_backoff_bounded:
  assumes "RunOutbox_ok has_client interval" "d \<in> set (outbox_delays interval interval oks)"
  shows "interval \<le> d \<and> d \<le> 5 * Minute \<and> has_client"
  using outbox_delays_bounded [OF _ _ order_refl _ assms(2)] assms(1) by (auto simp: RunOutbox_ok_def Minute_def Second_def)

theorem outbox_backoff_bounded_witness:
  "outbox_delays (30 * Second) (30 * Second) [False, False, False, False, True] =
     [60 * Second, 120 * Second, 240 * Second, 5 * Minute, 30 * Second] \<and> (240 * Second \<le> 5 * Minute)"
proof -
  have l: "outbox_delays (30 * Second) (30 * Second) [False, False, False, False, True] =
      [60 * Second, 120 * Second, 240 * Second, 5 * Minute, 30 * Second]"
    by (simp add: outbox_delay_def Let_def Second_def Minute_def wrap64_id is_int64_def MinInt64_def MaxInt64_def)
  have "RunOutbox_ok True (30 * Second)" by (simp add: RunOutbox_ok_def Second_def Minute_def)
  moreover have "240 * Second \<in> set (outbox_delays (30 * Second) (30 * Second) [False, False, False, False, True])"
    unfolding l by simp
  ultimately have "240 * Second \<le> 5 * Minute" using outbox_backoff_bounded by blast
  then show ?thesis using l by blast
qed

end
