(* ===== verification/Replica.thy ===== *)
theory Replica
  imports Contracts
begin

text \<open>
  \<^verbatim>\<open>backend/internal/regional/sync.go\<close>: the replicated snapshot stream of one region and kind. The
  AEAD ciphers of the standard library are the records \<open>aead\<close>, and JSON encoding is the record
  \<open>sync_json\<close>. A replica keeps its current snapshot in memory and the packet it came from in a file;
  \<open>disk\<close> is that file. \<open>write_outcome\<close> tells what an atomic replacement of the file did: it
  succeeded, it failed with the old contents in place, or it reported an error after the new contents
  were in place.
\<close>

definition MaxSyncBytes :: nat where
  "MaxSyncBytes = 8388608"

record aead =
  ae_NonceSize :: nat
  ae_Seal :: "string \<Rightarrow> string \<Rightarrow> string \<Rightarrow> string"
  ae_Open :: "string \<Rightarrow> string \<Rightarrow> string \<Rightarrow> string option"

record packet =
  pk_KeyID :: string
  pk_Nonce :: string
  pk_Data :: string

record sync_json =
  sj_snapshot :: "Snapshot \<Rightarrow> string option"
  sj_read_snapshot :: "string \<Rightarrow> Snapshot option"
  sj_packet :: "packet \<Rightarrow> string"
  sj_read_packet :: "string \<Rightarrow> packet option"

type_synonym Codec = "string \<Rightarrow> aead option"

fun new_keys :: "(string \<Rightarrow> aead) \<Rightarrow> (string \<times> string) list \<Rightarrow> string + Codec" where
  "new_keys cipher [] = Inr (\<lambda>_. None)"
| "new_keys cipher ((kid, key) # ks) =
     (if \<not> identifier_match kid \<or> length key \<noteq> 32 then Inl ''invalid sync key''
      else case new_keys cipher ks of Inl e \<Rightarrow> Inl e | Inr c \<Rightarrow> Inr (c(kid := Some (cipher key))))"

definition NewCodec :: "(string \<Rightarrow> aead) \<Rightarrow> (string \<times> string) list \<Rightarrow> string + Codec" where
  "NewCodec cipher keys = (if keys = [] then Inl ''sync keys required'' else new_keys cipher keys)"

definition Codec_Seal :: "sync_json \<Rightarrow> Codec \<Rightarrow> string \<Rightarrow> string \<Rightarrow> Snapshot \<Rightarrow> string + string" where
  "Codec_Seal J c nonce keyID s =
     (case c keyID of None \<Rightarrow> Inl ''unknown sync key'' | Some a \<Rightarrow>
      case sj_snapshot J s of None \<Rightarrow> Inl ''invalid sync snapshot'' | Some plain \<Rightarrow>
      if length plain > MaxSyncBytes div 2 then Inl ''sync snapshot too large''
      else Inr (sj_packet J \<lparr>pk_KeyID = keyID, pk_Nonce = nonce,
                  pk_Data = ae_Seal a nonce plain (''regional-sync-v1:'' @ keyID)\<rparr>))"

definition Codec_Open :: "sync_json \<Rightarrow> Codec \<Rightarrow> string \<Rightarrow> string + Snapshot" where
  "Codec_Open J c wire =
     (if length wire > MaxSyncBytes then Inl ''invalid sync packet''
      else case sj_read_packet J wire of None \<Rightarrow> Inl ''invalid sync packet'' | Some p \<Rightarrow>
      case c (pk_KeyID p) of None \<Rightarrow> Inl ''invalid sync authentication'' | Some a \<Rightarrow>
      if length (pk_Nonce p) \<noteq> ae_NonceSize a then Inl ''invalid sync authentication''
      else case ae_Open a (pk_Nonce p) (pk_Data p) (''regional-sync-v1:'' @ pk_KeyID p) of
        None \<Rightarrow> Inl ''invalid sync authentication''
      | Some plain \<Rightarrow>
          if length plain > MaxSyncBytes div 2 then Inl ''sync snapshot too large''
          else case sj_read_snapshot J plain of None \<Rightarrow> Inl ''invalid sync snapshot'' | Some s \<Rightarrow> Inr s)"

section \<open>The replica\<close>

text \<open>What a replica is configured with; \<open>rc_json_Valid\<close> and \<open>rc_sha256hex\<close> are the library
  functions the snapshot contract uses.\<close>

record replica_config =
  rc_cfg :: Config
  rc_kind :: SnapshotKind
  rc_codec :: Codec
  rc_J :: sync_json
  rc_validate :: "string \<Rightarrow> bool"
  rc_json_Valid :: "string \<Rightarrow> bool"
  rc_sha256hex :: "string \<Rightarrow> string"

record replica =
  rp_current :: "Snapshot option"
  rp_wire :: string
  rp_failed :: bool

datatype write_outcome = WriteOK | WriteFailOld | WriteFailNew

definition ErrSyncUnavailable :: string where
  "ErrSyncUnavailable = ''regional sync unavailable''"

definition replica_valid :: "replica_config \<Rightarrow> Snapshot \<Rightarrow> gotime \<Rightarrow> string + unit" where
  "replica_valid C s now = Snapshot_Validate (rc_json_Valid C) (rc_sha256hex C) s (rc_cfg C) (rc_kind C) 0 now"

definition OpenReplica :: "replica_config \<Rightarrow> string \<Rightarrow> bool \<Rightarrow> string option \<Rightarrow> string + replica" where
  "OpenReplica C path bootstrap disk =
     (case Config_Validate (rc_cfg C) of Inl e \<Rightarrow> Inl e | Inr _ \<Rightarrow>
      if path = '''' \<or> (rc_kind C \<noteq> SnapshotAuth \<and> rc_kind C \<noteq> SnapshotScheduler)
      then Inl ''invalid sync replica configuration''
      else case disk of
        None \<Rightarrow> if bootstrap then Inr \<lparr>rp_current = None, rp_wire = '''', rp_failed = False\<rparr>
                else Inl ''cannot restore regional sync state''
      | Some wire \<Rightarrow>
          if length wire > MaxSyncBytes then Inl ''cannot restore regional sync state''
          else case Codec_Open (rc_J C) (rc_codec C) wire of Inl e \<Rightarrow> Inl e | Inr s \<Rightarrow>
          case replica_valid C s (snap_IssuedAt s) of Inl e \<Rightarrow> Inl e | Inr _ \<Rightarrow>
          if \<not> rc_validate C (snap_Payload s) then Inl ''invalid persisted sync payload''
          else Inr \<lparr>rp_current = Some s, rp_wire = wire, rp_failed = False\<rparr>)"

text \<open>\<open>writeAtomic\<close> on the file.\<close>

definition writeAtomic :: "write_outcome \<Rightarrow> string \<Rightarrow> string option \<Rightarrow> bool \<times> string option" where
  "writeAtomic w wire disk =
     (case w of WriteOK \<Rightarrow> (True, Some wire) | WriteFailOld \<Rightarrow> (False, disk) | WriteFailNew \<Rightarrow> (False, Some wire))"

text \<open>\<open>Accept\<close>: \<open>cancel k\<close> and \<open>clk k\<close> are the context and the clock at their \<open>k\<close>-th reading.\<close>

definition Accept ::
    "replica_config \<Rightarrow> (nat \<Rightarrow> bool) \<Rightarrow> (nat \<Rightarrow> gotime) \<Rightarrow> write_outcome \<Rightarrow> string \<Rightarrow> replica \<times> string option \<Rightarrow>
     (string + unit) \<times> replica \<times> string option" where
  "Accept C cancel clk w wire st =
     (let r = fst st; disk = snd st in
      if cancel 0 then (Inl ''context canceled'', st)
      else case Codec_Open (rc_J C) (rc_codec C) wire of Inl e \<Rightarrow> (Inl e, st) | Inr s \<Rightarrow>
      case replica_valid C s (clk 0) of Inl e \<Rightarrow> (Inl e, st) | Inr _ \<Rightarrow>
      if \<not> rc_validate C (snap_Payload s) then (Inl ''invalid sync payload'', st)
      else if rp_failed r then (Inl ErrSyncUnavailable, st)
      else case (case rp_current r of None \<Rightarrow> None | Some c \<Rightarrow>
                   if snap_Revision s < snap_Revision c then Some (Inl ''sync revision rollback'')
                   else if snap_Revision s = snap_Revision c
                   then Some (if sj_snapshot (rc_J C) s \<noteq> sj_snapshot (rc_J C) c then Inl ''sync revision conflict'' else Inr ())
                   else None) of
        Some res \<Rightarrow> (res, st)
      | None \<Rightarrow>
      if cancel 1 then (Inl ''context canceled'', st)
      else case replica_valid C s (clk 1) of Inl e \<Rightarrow> (Inl e, st) | Inr _ \<Rightarrow>
      let (ok, disk') = writeAtomic w wire disk in
      if \<not> ok then (Inl ''cannot persist regional sync state'', (r\<lparr>rp_failed := True\<rparr>, disk'))
      else (Inr (), (r\<lparr>rp_current := Some s, rp_wire := wire\<rparr>, disk')))"

definition Current :: "replica_config \<Rightarrow> gotime \<Rightarrow> replica \<Rightarrow> string + Snapshot" where
  "Current C now r =
     (if rp_failed r then Inl ErrSyncUnavailable
      else case rp_current r of None \<Rightarrow> Inl ErrSyncUnavailable | Some s \<Rightarrow>
      case replica_valid C s now of Inl _ \<Rightarrow> Inl ErrSyncUnavailable | Inr _ \<Rightarrow> Inr s)"

definition Publish ::
    "replica_config \<Rightarrow> (nat \<Rightarrow> bool) \<Rightarrow> (nat \<Rightarrow> gotime) \<Rightarrow> write_outcome \<Rightarrow> string \<Rightarrow> string \<Rightarrow> 64 word \<Rightarrow> gotime \<Rightarrow> gotime \<Rightarrow> string \<Rightarrow>
     replica \<times> string option \<Rightarrow> (string + unit) \<times> replica \<times> string option" where
  "Publish C cancel clk w nonce keyID revision issued expires payload st =
     (let s = \<lparr>snap_SchemaVersion = SchemaVersion, snap_RegionID = cfg_RegionID (rc_cfg C), snap_Kind = rc_kind C,
               snap_Revision = revision, snap_IssuedAt = issued, snap_ExpiresAt = expires,
               snap_PayloadSHA256 = rc_sha256hex C payload, snap_Payload = payload\<rparr>
      in case Codec_Seal (rc_J C) (rc_codec C) nonce keyID s of Inl e \<Rightarrow> (Inl e, st) | Inr wire \<Rightarrow>
         Accept C cancel clk w wire st)"

definition PublishNext ::
    "replica_config \<Rightarrow> (nat \<Rightarrow> bool) \<Rightarrow> gotime \<Rightarrow> (nat \<Rightarrow> gotime) \<Rightarrow> write_outcome \<Rightarrow> string \<Rightarrow> string \<Rightarrow> duration \<Rightarrow> string \<Rightarrow>
     replica \<times> string option \<Rightarrow> (string + unit) \<times> replica \<times> string option" where
  "PublishNext C cancel now clk w nonce keyID lifetime payload st =
     (if lifetime \<le> 0 \<or> lifetime > cfg_MaxSnapshotAgeSeconds (rc_cfg C) * Second
      then (Inl ''invalid publication lifetime'', st)
      else let revision = (case rp_current (fst st) of None \<Rightarrow> 1 | Some c \<Rightarrow> snap_Revision c + 1) in
           if rp_failed (fst st) \<or> revision = 0 then (Inl ErrSyncUnavailable, st)
           else Publish C cancel clk w nonce keyID revision now (Add now lifetime) payload st)"

text \<open>The handler's status and body.\<close>

definition Replica_Handler :: "replica_config \<Rightarrow> gotime \<Rightarrow> string \<Rightarrow> replica \<Rightarrow> int \<times> string" where
  "Replica_Handler C now meth r =
     (if meth \<noteq> ''GET'' then (405, '''')
      else if rp_failed r then (503, '''')
      else case rp_current r of None \<Rightarrow> (503, '''') | Some s \<Rightarrow>
      case replica_valid C s now of Inl _ \<Rightarrow> (503, '''') | Inr _ \<Rightarrow> (200, rp_wire r))"

text \<open>\<open>Pull\<close>: \<open>url_ok\<close> is the check on the parsed endpoint, \<open>fetch\<close> the response of the transport.\<close>

definition Pull ::
    "(string \<Rightarrow> bool) \<Rightarrow> replica_config \<Rightarrow> (nat \<Rightarrow> bool) \<Rightarrow> (nat \<Rightarrow> gotime) \<Rightarrow> write_outcome \<Rightarrow> string \<Rightarrow> (int \<times> string) option \<Rightarrow>
     replica \<times> string option \<Rightarrow> (string + unit) \<times> replica \<times> string option" where
  "Pull url_ok C cancel clk w endpoint fetch st =
     (if \<not> url_ok endpoint then (Inl ''sync endpoint requires HTTPS without credentials, query or fragment'', st)
      else case fetch of None \<Rightarrow> (Inl ''sync request failed'', st) | Some (status, body) \<Rightarrow>
      if status \<noteq> 200 then (Inl ''sync endpoint not ready'', st)
      else if length body > MaxSyncBytes then (Inl ''sync packet too large'', st)
      else Accept C cancel clk w body st)"

section \<open>Steps\<close>

text \<open>The life of a stream: packets are offered to the running process, and the process restarts from its file.\<close>

inductive replica_step :: "replica_config \<Rightarrow> replica \<times> string option \<Rightarrow> replica \<times> string option \<Rightarrow> bool" for C where
  rs_accept: "Accept C cancel clk w wire st = (res, st') \<Longrightarrow> replica_step C st st'"
| rs_restart: "OpenReplica C path bootstrap (snd st) = Inr r \<Longrightarrow> replica_step C st (r, snd st)"

text \<open>The revision the file holds, and the agreement of memory and file.\<close>

definition disk_snapshot :: "replica_config \<Rightarrow> string option \<Rightarrow> Snapshot option" where
  "disk_snapshot C disk = (case disk of None \<Rightarrow> None | Some wire \<Rightarrow>
     (case Codec_Open (rc_J C) (rc_codec C) wire of Inl _ \<Rightarrow> None | Inr s \<Rightarrow> Some s))"

definition replica_inv :: "replica_config \<Rightarrow> replica \<times> string option \<Rightarrow> bool" where
  "replica_inv C st \<longleftrightarrow>
     (if rp_failed (fst st) then (\<forall>c. rp_current (fst st) = Some c \<longrightarrow> (\<exists>d. disk_snapshot C (snd st) = Some d \<and>
           snap_Revision c \<le> snap_Revision d))
      else rp_current (fst st) = disk_snapshot C (snd st) \<and> (snd st = None \<longleftrightarrow> rp_current (fst st) = None) \<and>
           (\<forall>wire. snd st = Some wire \<longrightarrow> rp_wire (fst st) = wire))"

definition disk_le :: "Snapshot option \<Rightarrow> Snapshot option \<Rightarrow> bool" where
  "disk_le a b \<longleftrightarrow> a = b \<or> (case a of None \<Rightarrow> True | Some x \<Rightarrow> \<exists>y. b = Some y \<and> snap_Revision x < snap_Revision y)"

section \<open>Lemmas\<close>

lemma Accept_cases:
  assumes "Accept C cancel clk w wire st = (res, st')"
  obtains (same) "st' = st"
  | (stored) s where "Codec_Open (rc_J C) (rc_codec C) wire = Inr s" "\<not> rp_failed (fst st)"
      "\<And>c. rp_current (fst st) = Some c \<Longrightarrow> snap_Revision c < snap_Revision s"
      "if w = WriteOK then st' = ((fst st)\<lparr>rp_current := Some s, rp_wire := wire\<rparr>, Some wire)
       else st' = ((fst st)\<lparr>rp_failed := True\<rparr>, if w = WriteFailNew then Some wire else snd st)"
proof (cases "st' = st")
  case False
  obtain s where s: "Codec_Open (rc_J C) (rc_codec C) wire = Inr s" "\<not> rp_failed (fst st)"
    using assms False by (auto simp: Accept_def Let_def split: if_splits sum.splits)
  have rev: "snap_Revision c < snap_Revision s" if "rp_current (fst st) = Some c" for c
    using assms False s that by (auto simp: Accept_def Let_def split: if_splits sum.splits)
  have "if w = WriteOK then st' = ((fst st)\<lparr>rp_current := Some s, rp_wire := wire\<rparr>, Some wire)
       else st' = ((fst st)\<lparr>rp_failed := True\<rparr>, if w = WriteFailNew then Some wire else snd st)"
    using assms False s
    by (cases w) (auto simp: Accept_def Let_def writeAtomic_def split: if_splits sum.splits option.splits)
  then show ?thesis using stored s rev by blast
qed (rule same)

lemma disk_le_trans: "disk_le a b \<Longrightarrow> disk_le b c \<Longrightarrow> disk_le a c"
  by (auto simp: disk_le_def split: option.splits)

lemma replica_step_inv:
  assumes "replica_step C st st'" "replica_inv C st"
  shows "replica_inv C st' \<and> disk_le (disk_snapshot C (snd st)) (disk_snapshot C (snd st'))"
  using assms(1)
proof (cases rule: replica_step.cases)
  case (rs_accept cancel clk w wire res)
  from rs_accept show ?thesis
  proof (cases rule: Accept_cases)
    case same
    then show ?thesis using assms(2) by (simp add: disk_le_def)
  next
    case (stored s)
    have new: "disk_snapshot C (Some wire) = Some s" using stored(1) by (simp add: disk_snapshot_def)
    have cur: "rp_current (fst st) = disk_snapshot C (snd st)" using assms(2) stored(2) by (simp add: replica_inv_def)
    have le: "disk_le (disk_snapshot C (snd st)) (Some s)" using stored(3) cur by (auto simp: disk_le_def split: option.split)
    show ?thesis
    proof (cases w)
      case WriteOK
      then have "st' = ((fst st)\<lparr>rp_current := Some s, rp_wire := wire\<rparr>, Some wire)" using stored(4) by simp
      then show ?thesis using new le stored(2) by (simp add: replica_inv_def)
    next
      case WriteFailOld
      then have "st' = ((fst st)\<lparr>rp_failed := True\<rparr>, snd st)" using stored(4) by simp
      then show ?thesis using cur by (auto simp: replica_inv_def disk_le_def)
    next
      case WriteFailNew
      then have "st' = ((fst st)\<lparr>rp_failed := True\<rparr>, Some wire)" using stored(4) by simp
      then show ?thesis using new le stored(3) by (auto simp: replica_inv_def less_imp_le)
    qed
  qed
next
  case (rs_restart path bootstrap r)
  then have "replica_inv C (r, snd st)"
    by (auto simp: OpenReplica_def replica_inv_def disk_snapshot_def split: sum.splits if_splits option.splits)
  then show ?thesis using rs_restart by (simp add: disk_le_def)
qed

lemma replica_steps_inv:
  assumes "(replica_step C)\<^sup>*\<^sup>* st st'" "replica_inv C st"
  shows "replica_inv C st' \<and> disk_le (disk_snapshot C (snd st)) (disk_snapshot C (snd st'))"
  using assms
proof (induction rule: rtranclp_induct)
  case (step y z)
  then show ?case using replica_step_inv [OF step(2)] disk_le_trans by blast
qed (simp add: disk_le_def)

lemma Current_disk:
  "Current C now r = Inr s \<Longrightarrow> replica_inv C (r, disk) \<Longrightarrow> disk_snapshot C disk = Some s \<and> replica_valid C s now = Inr ()"
  by (auto simp: Current_def replica_inv_def split: if_splits option.splits sum.splits)

lemma OpenReplica_inv: "OpenReplica C path bootstrap disk = Inr r \<Longrightarrow> replica_inv C (r, disk)"
  by (auto simp: OpenReplica_def replica_inv_def disk_snapshot_def split: sum.splits if_splits option.splits)

section \<open>Properties\<close>

text \<open>C26: the stream never rolls back. From the moment a process opens its replica, across any packets
  offered to it, failed and half-finished file replacements and restarts, a snapshot served later has a
  revision at least as high as one served before; two served snapshots of one revision are identical;
  and a snapshot is served only while it is valid.\<close>

theorem served_revisions_monotone:
  assumes "OpenReplica C path bootstrap disk = Inr r0" "(replica_step C)\<^sup>*\<^sup>* (r0, disk) (r1, d1)" "(replica_step C)\<^sup>*\<^sup>* (r1, d1) (r2, d2)"
    "Current C now1 r1 = Inr s1" "Current C now2 r2 = Inr s2"
  shows "snap_Revision s1 \<le> snap_Revision s2 \<and> (snap_Revision s1 = snap_Revision s2 \<longrightarrow> s1 = s2) \<and>
    replica_valid C s2 now2 = Inr ()"
proof -
  have i1: "replica_inv C (r1, d1)" using replica_steps_inv [OF assms(2) OpenReplica_inv [OF assms(1)]] by blast
  have i2: "replica_inv C (r2, d2)" and le: "disk_le (disk_snapshot C d1) (disk_snapshot C d2)"
    using replica_steps_inv [OF assms(3) i1] by simp_all
  from Current_disk [OF assms(4) i1] Current_disk [OF assms(5) i2] le show ?thesis by (auto simp: disk_le_def)
qed

definition sample_json :: sync_json where
  "sample_json = \<lparr>sj_snapshot = (\<lambda>_. Some ''{}''), sj_read_snapshot = (\<lambda>_. Some sample_snapshot), sj_packet = (\<lambda>p. pk_Data p),
     sj_read_packet = (\<lambda>d. Some \<lparr>pk_KeyID = ''k'', pk_Nonce = ''n'', pk_Data = d\<rparr>)\<rparr>"

definition sample_aead :: aead where
  "sample_aead = \<lparr>ae_NonceSize = 1, ae_Seal = (\<lambda>n p ad. p), ae_Open = (\<lambda>n d ad. Some d)\<rparr>"

definition sample_replica_config :: replica_config where
  "sample_replica_config = \<lparr>rc_cfg = sample_config, rc_kind = SnapshotAuth, rc_codec = [''k'' \<mapsto> sample_aead], rc_J = sample_json,
     rc_validate = (\<lambda>_. True), rc_json_Valid = (\<lambda>_. True), rc_sha256hex = id\<rparr>"

lemma sample_open: "Codec_Open sample_json [''k'' \<mapsto> sample_aead] ''{}'' = Inr sample_snapshot"
  by (simp add: Codec_Open_def sample_json_def sample_aead_def MaxSyncBytes_def)

lemma sample_valid: "replica_valid sample_replica_config sample_snapshot 2000000000 = Inr ()"
  by (simp add: replica_valid_def sample_replica_config_def) code_simp

theorem served_revisions_monotone_witness:
  "\<exists>r0 r1. OpenReplica sample_replica_config ''f'' True None = Inr r0 \<and> replica_step sample_replica_config (r0, None) (r1, Some ''{}'') \<and>
     Current sample_replica_config 2000000000 r1 = Inr sample_snapshot \<and>
     replica_valid sample_replica_config sample_snapshot 2000000000 = Inr ()"
proof -
  let ?C = sample_replica_config
  let ?r0 = "\<lparr>rp_current = None, rp_wire = '''', rp_failed = False\<rparr>"
  let ?r1 = "\<lparr>rp_current = Some sample_snapshot, rp_wire = ''{}'', rp_failed = False\<rparr>"
  have o: "OpenReplica ?C ''f'' True None = Inr ?r0"
    by (simp add: OpenReplica_def sample_replica_config_def) code_simp
  have "Accept ?C (\<lambda>_. False) (\<lambda>_. 2000000000) WriteOK ''{}'' (?r0, None) = (Inr (), (?r1, Some ''{}''))"
    using sample_open sample_valid by (simp add: Accept_def writeAtomic_def sample_replica_config_def)
  then have step: "replica_step ?C (?r0, None) (?r1, Some ''{}'')" by (rule rs_accept)
  have cur: "Current ?C 2000000000 ?r1 = Inr sample_snapshot" using sample_valid by (simp add: Current_def)
  from served_revisions_monotone [OF o r_into_rtranclp [of "replica_step ?C", OF step] rtranclp.rtrancl_refl cur cur]
  show ?thesis using o step cur by blast
qed

text \<open>a sealed snapshot opens to itself. If the cipher decrypts what it encrypted under the same nonce and
  associated data, the JSON codec reads what it wrote, the nonce has the cipher's size and the packet fits
  the limit, then a peer with the key opens the sealed packet to the same snapshot.\<close>

theorem Codec_roundtrip:
  assumes cipher: "\<And>plain. ae_Open a nonce (ae_Seal a nonce plain (''regional-sync-v1:'' @ keyID)) (''regional-sync-v1:'' @ keyID) = Some plain"
    and json: "\<And>d. sj_read_packet J (sj_packet J \<lparr>pk_KeyID = keyID, pk_Nonce = nonce, pk_Data = d\<rparr>) =
      Some \<lparr>pk_KeyID = keyID, pk_Nonce = nonce, pk_Data = d\<rparr>"
      "\<And>plain. sj_snapshot J s = Some plain \<Longrightarrow> sj_read_snapshot J plain = Some s"
    and key: "c keyID = Some a" "length nonce = ae_NonceSize a"
    and seal: "Codec_Seal J c nonce keyID s = Inr wire" "length wire \<le> MaxSyncBytes"
  shows "Codec_Open J c wire = Inr s"
proof -
  obtain plain where p: "sj_snapshot J s = Some plain" "length plain \<le> MaxSyncBytes div 2"
    "wire = sj_packet J \<lparr>pk_KeyID = keyID, pk_Nonce = nonce, pk_Data = ae_Seal a nonce plain (''regional-sync-v1:'' @ keyID)\<rparr>"
    using seal(1) key(1) by (auto simp: Codec_Seal_def split: option.splits if_splits)
  then show ?thesis using seal(2) key json(1) json(2) [OF p(1)] cipher by (simp add: Codec_Open_def)
qed

theorem Codec_roundtrip_witness:
  "\<exists>wire. Codec_Seal sample_json [''k'' \<mapsto> sample_aead] ''n'' ''k'' sample_snapshot = Inr wire \<and>
     Codec_Open sample_json [''k'' \<mapsto> sample_aead] wire = Inr sample_snapshot"
proof -
  have seal: "Codec_Seal sample_json [''k'' \<mapsto> sample_aead] ''n'' ''k'' sample_snapshot = Inr ''{}''"
    by (simp add: Codec_Seal_def sample_json_def sample_aead_def MaxSyncBytes_def)
  have "Codec_Open sample_json [''k'' \<mapsto> sample_aead] ''{}'' = Inr sample_snapshot"
    by (rule Codec_roundtrip [of sample_aead "''n''" "''k''", OF _ _ _ _ _ seal])
       (simp_all add: sample_json_def sample_aead_def MaxSyncBytes_def)
  then show ?thesis using seal by blast
qed

end
