(* ===== verification/Broker.thy ===== *)
theory Broker
  imports SlotsLocal Ledger
begin

text \<open>
  \<^verbatim>\<open>backend/internal/regional/control/broker.go\<close>: the background worker of a region that carries
  operations to the primary. An operation is a row of \<open>regional_broker_operations\<close>: it is persisted
  before it is sent, and marked installed or rejected once the primary has answered. The remote client is a
  function from operations to responses; \<open>Install\<close> on the slots and the quota ledger runs in its own
  transaction, so it may take effect although the mark is lost.
\<close>

datatype broker_op = SlotsIssue | SlotsRenew | QuotaIssue | QuotaClose

datatype broker_payload = PGrant Grant | PLease Lease | PReceipt DrainReceipt

datatype broker_state = BPending | BInstalled | BRejected

record broker_row =
  bo_op :: broker_op
  bo_payload :: broker_payload
  bo_state :: broker_state

record broker_db =
  bk_ops :: "(string, broker_row) table"
  bk_slots :: local_db
  bk_quota :: ledger_db

record broker =
  br_Slots :: "string option"
  br_Quota :: "string option"

datatype broker_err = BMsg string | BConflict | BNoRows | BDB | BSlot slot_err | BLedger ledger_err

datatype remote_res = RemoteOK | RemoteExpired | RemoteErr string

text \<open>\<open>Queue\<close>: the payload must have the type of its operation and be valid; an existing row is accepted only
  if it is the same operation.\<close>

definition payload_ok :: "broker_op \<Rightarrow> broker_payload \<Rightarrow> broker_err + unit" where
  "payload_ok op payload =
     (case op of
        QuotaClose \<Rightarrow>
          (case payload of PReceipt r \<Rightarrow> if dr_LeaseID r = '''' \<or> dr_Region r = '''' then Inl (BMsg ''broker requires drain receipt'') else Inr ()
           | _ \<Rightarrow> Inl (BMsg ''broker requires drain receipt''))
      | QuotaIssue \<Rightarrow>
          (case payload of PLease l \<Rightarrow> (case Lease_Validate l of Inl m \<Rightarrow> Inl (BMsg m) | Inr _ \<Rightarrow> Inr ())
           | _ \<Rightarrow> Inl (BMsg ''broker requires quota lease''))
      | _ \<Rightarrow>
          (case payload of PGrant g \<Rightarrow> (case Grant_Validate g of Inl e \<Rightarrow> Inl (BSlot e) | Inr _ \<Rightarrow> Inr ())
           | _ \<Rightarrow> Inl (BMsg ''broker requires slot grant'')))"

definition broker_Queue :: "string \<Rightarrow> broker_op \<Rightarrow> broker_payload \<Rightarrow> broker_db \<Rightarrow> (broker_db, broker_err, unit) tx" where
  "broker_Queue oid op payload db =
     (if oid = '''' \<or> length oid > 128 then Rollback (Inl (BMsg ''invalid broker identity''))
      else case payload_ok op payload of Inl e \<Rightarrow> Rollback (Inl e) | Inr _ \<Rightarrow>
      case map_of (bk_ops db) oid of
        None \<Rightarrow> Commit (db\<lparr>bk_ops := tput oid \<lparr>bo_op = op, bo_payload = payload, bo_state = BPending\<rparr> (bk_ops db)\<rparr>) (Inr ())
      | Some row \<Rightarrow> if bo_op row = op \<and> bo_payload row = payload then Commit db (Inr ()) else Rollback (Inl BConflict))"

text \<open>The last statement and commit of \<open>Replay\<close>: mark the row, unless the commit is lost.\<close>

definition set_op :: "string \<Rightarrow> broker_state \<Rightarrow> broker_db \<Rightarrow> broker_db" where
  "set_op oid st db = (case map_of (bk_ops db) oid of None \<Rightarrow> db
     | Some row \<Rightarrow> db\<lparr>bk_ops := tput oid (row\<lparr>bo_state := st\<rparr>) (bk_ops db)\<rparr>)"

definition finish_op :: "db_fault \<Rightarrow> string \<Rightarrow> broker_state \<Rightarrow> broker_db \<Rightarrow> (broker_err + unit) \<times> broker_db" where
  "finish_op flt oid st db = run_tx flt BDB (\<lambda>db. Commit (set_op oid st db) (Inr ())) db"

text \<open>\<open>Replay\<close>: \<open>flti\<close> is the fault of the installation, \<open>fltc\<close> that of the final update and commit.\<close>

definition broker_Replay ::
    "broker \<Rightarrow> (broker_op \<Rightarrow> broker_payload \<Rightarrow> remote_res) \<Rightarrow> db_fault \<Rightarrow> db_fault \<Rightarrow> string \<Rightarrow> broker_db \<Rightarrow>
     (broker_err + unit) \<times> broker_db" where
  "broker_Replay b remote flti fltc oid db =
     (case map_of (bk_ops db) oid of None \<Rightarrow> (Inl BNoRows, db) | Some row \<Rightarrow>
      if bo_state row = BInstalled \<or> bo_state row = BRejected then (Inr (), db)
      else case (bo_op row, bo_payload row) of
        (QuotaClose, PReceipt r) \<Rightarrow>
          (case remote QuotaClose (PReceipt r) of
             RemoteOK \<Rightarrow> finish_op fltc oid BInstalled db
           | RemoteExpired \<Rightarrow> (Inl (BMsg ''expired''), db)
           | RemoteErr m \<Rightarrow> (Inl (BMsg m), db))
      | (QuotaIssue, PLease q) \<Rightarrow>
          (case br_Quota b of None \<Rightarrow> (Inl (BMsg ''local quota unavailable''), db) | Some region \<Rightarrow>
           case remote QuotaIssue (PLease q) of
             RemoteExpired \<Rightarrow> finish_op fltc oid BRejected db
           | RemoteErr m \<Rightarrow> (Inl (BMsg m), db)
           | RemoteOK \<Rightarrow>
               (case run_tx flti LDB (ledger_Install region q) (bk_quota db) of
                  (Inl e, d) \<Rightarrow> (Inl (BLedger e), db\<lparr>bk_quota := d\<rparr>)
                | (Inr _, d) \<Rightarrow> finish_op fltc oid BInstalled (db\<lparr>bk_quota := d\<rparr>)))
      | (op, PGrant g) \<Rightarrow>
          if op = SlotsIssue \<or> op = SlotsRenew
          then (case br_Slots b of None \<Rightarrow> (Inl (BMsg ''local slots unavailable''), db) | Some region \<Rightarrow>
                case remote op (PGrant g) of
                  RemoteExpired \<Rightarrow> if op = SlotsIssue then finish_op fltc oid BRejected db else (Inl (BMsg ''expired''), db)
                | RemoteErr m \<Rightarrow> (Inl (BMsg m), db)
                | RemoteOK \<Rightarrow>
                    (case run_tx flti SlotDB (local_Install region g) (bk_slots db) of
                       (Inl e, d) \<Rightarrow> (Inl (BSlot e), db\<lparr>bk_slots := d\<rparr>)
                     | (Inr _, d) \<Rightarrow> finish_op fltc oid BInstalled (db\<lparr>bk_slots := d\<rparr>)))
          else (Inl (BMsg ''invalid payload''), db)
      | _ \<Rightarrow> (Inl (BMsg ''invalid payload''), db))"

text \<open>\<open>RunOnce\<close>: the pending operations of the configured kinds, at most 100, in the order of creation.\<close>

definition runnable :: "broker \<Rightarrow> broker_row \<Rightarrow> bool" where
  "runnable b row \<longleftrightarrow> bo_state row = BPending \<and>
     (br_Quota b \<noteq> None \<and> (bo_op row = QuotaIssue \<or> bo_op row = QuotaClose) \<or>
      br_Slots b \<noteq> None \<and> (bo_op row = SlotsIssue \<or> bo_op row = SlotsRenew))"

fun replay_all ::
    "broker \<Rightarrow> (nat \<Rightarrow> broker_op \<Rightarrow> broker_payload \<Rightarrow> remote_res) \<Rightarrow> (nat \<Rightarrow> db_fault \<times> db_fault) \<Rightarrow> nat \<Rightarrow> string list \<Rightarrow> broker_db \<Rightarrow>
     broker_err list \<times> broker_db" where
  "replay_all b remote flt k [] db = ([], db)"
| "replay_all b remote flt k (oid # oids) db =
     (let (r, db1) = broker_Replay b (remote k) (fst (flt k)) (snd (flt k)) oid db;
          (es, db2) = replay_all b remote flt (Suc k) oids db1
      in ((case r of Inl e \<Rightarrow> [e] | Inr _ \<Rightarrow> []) @ es, db2))"

definition broker_RunOnce ::
    "broker \<Rightarrow> (nat \<Rightarrow> broker_op \<Rightarrow> broker_payload \<Rightarrow> remote_res) \<Rightarrow> (nat \<Rightarrow> db_fault \<times> db_fault) \<Rightarrow> broker_db \<Rightarrow>
     broker_err list \<times> broker_db" where
  "broker_RunOnce b remote flt db =
     replay_all b remote flt 0 (take 100 (map fst (filter (\<lambda>(oid, row). runnable b row) (bk_ops db)))) db"

text \<open>\<open>EnsureSlots\<close>: at most one outstanding operation per resource; renew the first open grant when half of its
  life is over, or issue a new one under a fresh identity.\<close>

definition pending_for :: "string \<Rightarrow> Resource \<Rightarrow> broker_row \<Rightarrow> bool" where
  "pending_for region r row \<longleftrightarrow> bo_state row = BPending \<and> (bo_op row = SlotsIssue \<or> bo_op row = SlotsRenew) \<and>
     (case bo_payload row of PGrant g \<Rightarrow> g_Region g = region \<and> g_Resource g = r | _ \<Rightarrow> False)"

definition ensure_grant ::
    "(string list \<Rightarrow> string list) \<Rightarrow> string \<Rightarrow> gotime \<Rightarrow> string \<Rightarrow> Resource \<Rightarrow> int \<Rightarrow> duration \<Rightarrow> local_db \<Rightarrow>
     broker_err + (broker_op \<times> Grant) option" where
  "ensure_grant order_by region now uuid r capacity lifetime db =
     (case order_by (map fst (filter (\<lambda>(lid, row). lg_region row = region \<and> lg_resource row = r \<and> lg_state row = SlotOpen) (lgrants db))) of
        [] \<Rightarrow> Inr (Some (SlotsIssue, \<lparr>g_LeaseID = uuid, g_Region = region, g_Resource = r, g_Slots = capacity, g_Revision = 1,
                g_IssuedAt = Truncate now Microsecond, g_ExpiresAt = Truncate (Add now lifetime) Microsecond\<rparr>))
      | lid # _ \<Rightarrow>
          (case map_of (lgrants db) lid of None \<Rightarrow> Inl BDB | Some row \<Rightarrow>
           let g = lg_payload row in
           if g_Slots g \<noteq> capacity then Inl BConflict
           else if Sub (g_ExpiresAt g) now > go_div lifetime 2 then Inr None
           else if \<not> Before now (g_ExpiresAt g) then Inl (BSlot SlotUnavailable)
           else Inr (Some (SlotsRenew, g\<lparr>g_Revision := wrap64 (g_Revision g + 1),
                  g_ExpiresAt := Truncate (Add now lifetime) Microsecond\<rparr>))))"

definition broker_EnsureSlots ::
    "(string list \<Rightarrow> string list) \<Rightarrow> broker \<Rightarrow> gotime \<Rightarrow> string \<Rightarrow> Resource \<Rightarrow> int \<Rightarrow> duration \<Rightarrow> broker_db \<Rightarrow>
     (broker_db, broker_err, unit) tx" where
  "broker_EnsureSlots order_by b now uuid r capacity lifetime db =
     (case br_Slots b of None \<Rightarrow> Rollback (Inl (BMsg ''invalid slot broker target'')) | Some region \<Rightarrow>
      if lifetime < 30 * Second \<or> lifetime > Hour \<or> capacity \<le> 0 then Rollback (Inl (BMsg ''invalid slot broker target''))
      else case Resource_Validate r of Inl e \<Rightarrow> Rollback (Inl (BSlot e)) | Inr _ \<Rightarrow>
      if list_ex (\<lambda>(oid, row). pending_for region r row) (bk_ops db) then Rollback (Inr ())
      else case ensure_grant order_by region now uuid r capacity lifetime (bk_slots db) of
        Inl e \<Rightarrow> Rollback (Inl e)
      | Inr None \<Rightarrow> Rollback (Inr ())
      | Inr (Some (op, g)) \<Rightarrow>
          (case Grant_Validate g of Inl e \<Rightarrow> Rollback (Inl (BSlot e)) | Inr _ \<Rightarrow>
           let oid = g_LeaseID g @ ''-'' @ FormatInt (g_Revision g) in
           if map_of (bk_ops db) oid \<noteq> None then Rollback (Inl BDB)
           else Commit (db\<lparr>bk_ops := tput oid \<lparr>bo_op = op, bo_payload = PGrant g, bo_state = BPending\<rparr> (bk_ops db)\<rparr>) (Inr ())))"

section \<open>Steps\<close>

inductive broker_step :: "broker \<Rightarrow> broker_db \<Rightarrow> broker_db \<Rightarrow> bool" for b where
  bs_queue: "broker_Queue oid op payload db = Commit db' res \<Longrightarrow> broker_step b db db'"
| bs_replay: "broker_Replay b remote flti fltc oid db = (res, db') \<Longrightarrow> broker_step b db db'"
| bs_ensure: "broker_EnsureSlots order_by b now uuid r capacity lifetime db = Commit db' res \<Longrightarrow> broker_step b db db'"

text \<open>The steps of a region whose slot operations come from \<open>EnsureSlots\<close> only: it ensures, replays and queues
  quota operations, while requests take and release slots. \<open>ORDER BY\<close> returns the rows selected.\<close>

inductive worker_step :: "broker \<Rightarrow> broker_db \<Rightarrow> broker_db \<Rightarrow> bool" for b where
  ws_replay: "broker_Replay b remote flti fltc oid db = (res, db') \<Longrightarrow> worker_step b db db'"
| ws_ensure: "broker_EnsureSlots order_by b now uuid r capacity lifetime db = Commit db' res \<Longrightarrow>
    (\<And>xs. set (order_by xs) = set xs) \<Longrightarrow> worker_step b db db'"
| ws_quota: "broker_Queue oid op payload db = Commit db' res \<Longrightarrow> op = QuotaIssue \<or> op = QuotaClose \<Longrightarrow> worker_step b db db'"
| ws_slots: "local_step region (bk_slots db) s \<Longrightarrow> br_Slots b = Some region \<Longrightarrow> worker_step b db (db\<lparr>bk_slots := s\<rparr>)"

definition empty_broker :: broker_db where
  "empty_broker = \<lparr>bk_ops = [], bk_slots = empty_local, bk_quota = empty_ledger\<rparr>"

section \<open>Lemmas\<close>

lemma finish_op_cases:
  assumes "finish_op flt oid st db = (res, db')"
  shows "bk_slots db' = bk_slots db \<and> bk_quota db' = bk_quota db \<and>
    (bk_ops db' = bk_ops db \<or> (\<exists>row. map_of (bk_ops db) oid = Some row \<and> bk_ops db' = tput oid (row\<lparr>bo_state := st\<rparr>) (bk_ops db)))"
  using assms unfolding finish_op_def
  by (cases rule: run_tx_cases) (auto simp: set_op_def split: option.splits)

lemma Replay_ops:
  assumes "broker_Replay b remote flti fltc oid db = (res, db')"
  shows "bk_ops db' = bk_ops db \<or> (\<exists>row st. map_of (bk_ops db) oid = Some row \<and> bo_state row = BPending \<and> st \<noteq> BPending \<and>
    bk_ops db' = tput oid (row\<lparr>bo_state := st\<rparr>) (bk_ops db))"
proof (cases "map_of (bk_ops db) oid")
  case None
  then show ?thesis using assms by (simp add: broker_Replay_def)
next
  case (Some row)
  show ?thesis
  proof (cases "bo_state row = BPending")
    case False
    then show ?thesis using assms Some by (cases "bo_state row") (simp_all add: broker_Replay_def)
  next
    case True
    then have "bk_ops db' = bk_ops db \<or> (\<exists>st d. st \<noteq> BPending \<and> bk_ops d = bk_ops db \<and> finish_op fltc oid st d = (res, db'))"
      using assms Some
      by (auto simp: broker_Replay_def split: prod.splits broker_op.splits broker_payload.splits option.splits remote_res.splits
          sum.splits if_splits) force+
    then show ?thesis using finish_op_cases [of fltc oid] Some True by (metis option.inject)
  qed
qed

lemma Replay_sem:
  assumes "broker_Replay b remote flti fltc oid db = (res, db')"
    "map_of (bk_ops db) oid = Some row" "bo_state row = BPending"
  shows "bk_slots db' = bk_slots db \<and> bk_quota db' = bk_quota db \<or> remote (bo_op row) (bo_payload row) = RemoteOK"
  using assms finish_op_cases [of fltc oid]
  by (auto simp: broker_Replay_def split: prod.splits broker_op.splits broker_payload.splits option.splits remote_res.splits
          sum.splits if_splits)

lemma finish_op_ok:
  assumes "finish_op flt oid st db = (Inr (), db')" "map_of (bk_ops db) oid = Some row"
  shows "db' = db\<lparr>bk_ops := tput oid (row\<lparr>bo_state := st\<rparr>) (bk_ops db)\<rparr>"
  using run_tx_ok [OF assms(1) [unfolded finish_op_def]] assms(2) by (auto simp: set_op_def)

lemma local_Install_ok:
  assumes "run_tx flt SlotDB (local_Install region g) db = (Inr (), db')"
  shows "\<exists>row. map_of (lgrants db') (g_LeaseID g) = Some row \<and> lg_region row = region \<and> sameIdentity (lg_payload row) g \<and>
     g_Revision (lg_payload row) = g_Revision g \<and> g_ExpiresAt (lg_payload row) = g_ExpiresAt g"
  using run_tx_ok [OF assms]
  by (auto simp: local_Install_def localGrant_def sameIdentity_def Let_def table_simps
      split: if_splits sum.splits option.splits)

lemma ledger_Install_ok:
  assumes "run_tx flt LDB (ledger_Install region l) db = (Inr (), db')"
  shows "\<exists>row. map_of (ll_leases db') (l_LeaseID l) = Some row \<and> lr_lease row = l"
  using run_tx_ok [OF assms]
  by (auto simp: ledger_Install_def Let_def table_simps split: if_splits sum.splits option.splits)

lemma Grant_eqI: "sameIdentity a g \<Longrightarrow> g_Revision a = g_Revision g \<Longrightarrow> g_ExpiresAt a = g_ExpiresAt g \<Longrightarrow> a = (g::Grant)"
  by (cases a, cases g) (simp add: sameIdentity_def)

text \<open>What the local side holds once an operation is marked installed.\<close>

definition installed_locally :: "broker \<Rightarrow> broker_payload \<Rightarrow> broker_db \<Rightarrow> bool" where
  "installed_locally b p db =
     (case p of
        PGrant g \<Rightarrow> (case map_of (lgrants (bk_slots db)) (g_LeaseID g) of None \<Rightarrow> False
                     | Some row \<Rightarrow> lg_payload row = g \<and> br_Slots b = Some (lg_region row))
      | PLease l \<Rightarrow> (case map_of (ll_leases (bk_quota db)) (l_LeaseID l) of None \<Rightarrow> False | Some row \<Rightarrow> lr_lease row = l)
      | PReceipt _ \<Rightarrow> True)"

lemma EnsureSlots_commit:
  assumes "broker_EnsureSlots order_by b now uuid r capacity lifetime db = Commit db' res"
  shows "\<exists>region oid op g. br_Slots b = Some region \<and> map_of (bk_ops db) oid = None \<and> (op = SlotsIssue \<or> op = SlotsRenew) \<and>
    (\<forall>i row. (i, row) \<in> set (bk_ops db) \<longrightarrow> \<not> pending_for region r row) \<and>
    ensure_grant order_by region now uuid r capacity lifetime (bk_slots db) = Inr (Some (op, g)) \<and>
    db' = db\<lparr>bk_ops := tput oid \<lparr>bo_op = op, bo_payload = PGrant g, bo_state = BPending\<rparr> (bk_ops db)\<rparr>"
proof -
  have op: "op = SlotsIssue \<or> op = SlotsRenew"
    if "ensure_grant order_by region now uuid r capacity lifetime s = Inr (Some (op, g))" for region s op g
    using that by (auto simp: ensure_grant_def Let_def split: list.splits option.splits if_splits)
  show ?thesis using assms op
    by (fastforce simp: broker_EnsureSlots_def list_ex_iff Let_def split: option.splits if_splits sum.splits)
qed

lemma ensure_grant_target:
  assumes "ensure_grant order_by region now uuid r capacity lifetime db = Inr (Some (op, g))"
    "local_inv region db" "\<And>xs. set (order_by xs) = set xs"
  shows "g_Region g = region \<and> g_Resource g = r"
proof (cases "order_by (map fst (filter (\<lambda>(lid, row). lg_region row = region \<and> lg_resource row = r \<and> lg_state row = SlotOpen) (lgrants db)))")
  case Nil
  then show ?thesis using assms(1) by (auto simp: ensure_grant_def)
next
  case (Cons lid lids)
  then have "lid \<in> set (order_by (map fst (filter (\<lambda>(lid, row). lg_region row = region \<and> lg_resource row = r \<and> lg_state row = SlotOpen) (lgrants db))))"
    by simp
  then obtain row where row: "(lid, row) \<in> set (lgrants db)" "lg_resource row = r" unfolding assms(3) by auto
  then have "map_of (lgrants db) lid = Some row" "g_Region (lg_payload row) = region" "g_Resource (lg_payload row) = r"
    using assms(2) by (auto simp: local_inv_def)
  then show ?thesis using assms(1) Cons by (auto simp: ensure_grant_def Let_def split: if_splits)
qed

text \<open>The only ways the operations change: a new pending row, or a pending row that becomes terminal.\<close>

lemma broker_step_ops:
  assumes "broker_step b db db'"
  shows "bk_ops db' = bk_ops db \<or>
    (\<exists>oid row. map_of (bk_ops db) oid = None \<and> bo_state row = BPending \<and> bk_ops db' = tput oid row (bk_ops db)) \<or>
    (\<exists>oid row st. map_of (bk_ops db) oid = Some row \<and> bo_state row = BPending \<and> bk_ops db' = tput oid (row\<lparr>bo_state := st\<rparr>) (bk_ops db))"
  using assms
proof cases
  case (bs_queue oid op payload res)
  then have "db' = db \<or> (map_of (bk_ops db) oid = None \<and>
      db' = db\<lparr>bk_ops := tput oid \<lparr>bo_op = op, bo_payload = payload, bo_state = BPending\<rparr> (bk_ops db)\<rparr>)"
    by (simp add: broker_Queue_def split: if_splits sum.splits option.splits)
  then show ?thesis
  proof
    assume new: "map_of (bk_ops db) oid = None \<and>
      db' = db\<lparr>bk_ops := tput oid \<lparr>bo_op = op, bo_payload = payload, bo_state = BPending\<rparr> (bk_ops db)\<rparr>"
    show ?thesis
      by (rule disjI2, rule disjI1, rule exI [of _ oid], rule exI [of _ "\<lparr>bo_op = op, bo_payload = payload, bo_state = BPending\<rparr>"])
        (use new in simp)
  qed simp
next
  case (bs_replay remote flti fltc oid res)
  then show ?thesis using Replay_ops by metis
next
  case (bs_ensure order_by now uuid r capacity lifetime res)
  then obtain oid op g where "map_of (bk_ops db) oid = None"
      "db' = db\<lparr>bk_ops := tput oid \<lparr>bo_op = op, bo_payload = PGrant g, bo_state = BPending\<rparr> (bk_ops db)\<rparr>"
    using EnsureSlots_commit by blast
  then show ?thesis
    by (intro disjI2 disjI1 exI [of _ oid] exI [of _ "\<lparr>bo_op = op, bo_payload = PGrant g, bo_state = BPending\<rparr>"]) simp
qed

lemma broker_step_keeps:
  assumes "broker_step b db db'" "map_of (bk_ops db) oid = Some row"
  shows "\<exists>st. map_of (bk_ops db') oid = Some (row\<lparr>bo_state := st\<rparr>) \<and> (bo_state row \<noteq> BPending \<longrightarrow> st = bo_state row)"
proof -
  have same: "\<exists>st. row = row\<lparr>bo_state := st\<rparr> \<and> (bo_state row \<noteq> BPending \<longrightarrow> st = bo_state row)"
    by (rule exI [of _ "bo_state row"]) simp
  then show ?thesis using broker_step_ops [OF assms(1)] assms(2) by (elim disjE exE conjE) (auto simp: table_simps)
qed

section \<open>At most one outstanding operation\<close>

definition worker_inv :: "broker \<Rightarrow> broker_db \<Rightarrow> bool" where
  "worker_inv b db \<longleftrightarrow> (\<forall>region. br_Slots b = Some region \<longrightarrow> local_inv region (bk_slots db)) \<and> distinct (map fst (bk_ops db)) \<and>
     (\<forall>region r i j row row'. map_of (bk_ops db) i = Some row \<longrightarrow> map_of (bk_ops db) j = Some row' \<longrightarrow>
        pending_for region r row \<longrightarrow> pending_for region r row' \<longrightarrow> i = j)"

lemma worker_invI:
  assumes "worker_inv b db" "\<And>region. br_Slots b = Some region \<Longrightarrow> local_inv region s"
  shows "worker_inv b (db\<lparr>bk_slots := s\<rparr>)"
  using assms unfolding worker_inv_def by simp

lemma worker_inv_put:
  assumes inv: "worker_inv b db" and s: "\<And>region. br_Slots b = Some region \<Longrightarrow> local_inv region (bk_slots db')"
    and ops: "bk_ops db' = tput oid row (bk_ops db)"
    and new: "\<And>region r j row'. pending_for region r row \<Longrightarrow> map_of (bk_ops db) j = Some row' \<Longrightarrow> j \<noteq> oid \<Longrightarrow>
      \<not> pending_for region r row'"
  shows "worker_inv b db'"
proof -
  have "i = j" if i: "map_of (bk_ops db') i = Some ri" and j: "map_of (bk_ops db') j = Some rj"
    and p: "pending_for region r ri" "pending_for region r rj" for region r i j ri rj
  proof (rule ccontr)
    assume "i \<noteq> j"
    then consider "i = oid" "ri = row" "map_of (bk_ops db) j = Some rj" | "j = oid" "rj = row" "map_of (bk_ops db) i = Some ri"
      | "map_of (bk_ops db) j = Some rj" "map_of (bk_ops db) i = Some ri"
      using i j unfolding ops map_of_tput by (metis option.inject)
    then show False
    proof cases
      case 1
      then show False using new [of region r j rj] p \<open>i \<noteq> j\<close> by simp
    next
      case 2
      then show False using new [of region r i ri] p \<open>i \<noteq> j\<close> by simp
    next
      case 3
      then show False using inv p \<open>i \<noteq> j\<close> unfolding worker_inv_def by blast
    qed
  qed
  then show ?thesis using inv s unfolding worker_inv_def by (simp add: ops distinct_keys_tput del: map_of_eq_Some_iff)
qed

lemma Replay_slots:
  assumes "broker_Replay b remote flti fltc oid db = (res, db')" "br_Slots b = Some region"
  shows "local_step region (bk_slots db) (bk_slots db')"
proof -
  have inst: "local_step region (bk_slots db) (snd (run_tx flti SlotDB (local_Install region g) (bk_slots db)))" for g
    by (rule run_tx_invariant) (auto intro: local_step.intros)
  have "bk_slots db' = bk_slots db \<or> (\<exists>g. bk_slots db' = snd (run_tx flti SlotDB (local_Install region g) (bk_slots db)))"
    using assms
    by (auto simp: broker_Replay_def dest!: finish_op_cases split: prod.splits broker_op.splits broker_payload.splits option.splits
        remote_res.splits sum.splits if_splits) (metis snd_conv)+
  then show ?thesis using inst ls_same by metis
qed

lemma not_pending_for [simp]:
  "\<not> pending_for region r \<lparr>bo_op = QuotaIssue, bo_payload = p, bo_state = st\<rparr>"
  "\<not> pending_for region r \<lparr>bo_op = QuotaClose, bo_payload = p, bo_state = st\<rparr>"
  "st \<noteq> BPending \<Longrightarrow> \<not> pending_for region r (row\<lparr>bo_state := st\<rparr>)"
  by (simp_all add: pending_for_def)

lemma worker_inv_replay:
  assumes "broker_Replay b remote flti fltc oid db = (res, db')" "worker_inv b db"
  shows "worker_inv b db'"
proof -
  have s: "local_inv region (bk_slots db')" if "br_Slots b = Some region" for region
    using local_step_inv [OF Replay_slots [OF assms(1) that]] assms(2) that by (simp add: worker_inv_def)
  from Replay_ops [OF assms(1)] show ?thesis
  proof (elim disjE exE conjE)
    assume "bk_ops db' = bk_ops db"
    then show ?thesis using assms(2) s unfolding worker_inv_def by simp
  next
    fix row st
    assume "st \<noteq> BPending" "bk_ops db' = tput oid (row\<lparr>bo_state := st\<rparr>) (bk_ops db)"
    then show ?thesis by (intro worker_inv_put [OF assms(2) s]) auto
  qed
qed

lemma worker_inv_ensure:
  assumes "broker_EnsureSlots order_by b now uuid r capacity lifetime db = Commit db' res" "\<And>xs. set (order_by xs) = set xs"
    "worker_inv b db"
  shows "worker_inv b db'"
proof -
  obtain region oid op g where *: "br_Slots b = Some region" "\<And>i row. (i, row) \<in> set (bk_ops db) \<Longrightarrow> \<not> pending_for region r row"
      "ensure_grant order_by region now uuid r capacity lifetime (bk_slots db) = Inr (Some (op, g))"
      "db' = db\<lparr>bk_ops := tput oid \<lparr>bo_op = op, bo_payload = PGrant g, bo_state = BPending\<rparr> (bk_ops db)\<rparr>"
    using EnsureSlots_commit [OF assms(1)] by blast
  have inv: "local_inv region (bk_slots db)" using assms(3) *(1) by (simp add: worker_inv_def)
  have g: "g_Region g = region" "g_Resource g = r" using ensure_grant_target [OF *(3) inv assms(2)] by auto
  have "region' = region \<and> r' = r" if "pending_for region' r' \<lparr>bo_op = op, bo_payload = PGrant g, bo_state = BPending\<rparr>" for region' r'
    using that g by (auto simp: pending_for_def)
  moreover have "\<not> pending_for region r row'" if "map_of (bk_ops db) j = Some row'" for j row'
    using *(2) map_of_SomeD [OF that] by blast
  ultimately show ?thesis
    by (intro worker_inv_put [OF assms(3)]) (use *(1,4) inv in \<open>auto simp del: map_of_eq_Some_iff\<close>)
qed

lemma worker_step_inv: "worker_step b db db' \<Longrightarrow> worker_inv b db \<Longrightarrow> worker_inv b db'"
proof (induction rule: worker_step.induct)
  case (ws_replay remote flti fltc oid db res db')
  then show ?case by (rule worker_inv_replay)
next
  case (ws_ensure order_by now uuid r capacity lifetime db db' res)
  then show ?case using worker_inv_ensure by blast
next
  case (ws_quota oid op payload db db' res)
  then have "db' = db \<or> db' = db\<lparr>bk_ops := tput oid \<lparr>bo_op = op, bo_payload = payload, bo_state = BPending\<rparr> (bk_ops db)\<rparr>"
    by (simp add: broker_Queue_def split: if_splits sum.splits option.splits)
  then show ?case
  proof
    assume new: "db' = db\<lparr>bk_ops := tput oid \<lparr>bo_op = op, bo_payload = payload, bo_state = BPending\<rparr> (bk_ops db)\<rparr>"
    have s: "local_inv region (bk_slots db')" if "br_Slots b = Some region" for region
      using that new ws_quota(3) by (simp add: worker_inv_def)
    show ?case by (rule worker_inv_put [OF ws_quota(3) s]) (use new ws_quota(2) in auto)
  qed (simp add: ws_quota)
next
  case (ws_slots region db s)
  then show ?case by (intro worker_invI) (auto simp: worker_inv_def intro: local_step_inv)
qed

lemma worker_reach_inv: "(worker_step b)\<^sup>*\<^sup>* empty_broker db \<Longrightarrow> worker_inv b db"
proof (induction rule: rtranclp_induct)
  case base
  show ?case by (simp add: worker_inv_def empty_broker_def local_inv_empty)
qed (rule worker_step_inv)

section \<open>Properties\<close>

text \<open>The identity of an operation is immutable: over any sequence of queueing, replaying (with any remote answers
  and database faults) and ensuring, the operation and payload recorded under an identity never change, no record is
  lost, and a record that is installed or rejected stays so.\<close>

theorem broker_operation_immutable:
  assumes "(broker_step b)\<^sup>*\<^sup>* db db'" "map_of (bk_ops db) oid = Some row"
  shows "\<exists>row'. map_of (bk_ops db') oid = Some row' \<and> bo_op row' = bo_op row \<and> bo_payload row' = bo_payload row \<and>
    (bo_state row \<noteq> BPending \<longrightarrow> bo_state row' = bo_state row)"
  using assms(1)
proof (induction rule: rtranclp_induct)
  case base
  then show ?case using assms(2) by blast
next
  case (step y z)
  then obtain row' where y: "map_of (bk_ops y) oid = Some row'" "bo_op row' = bo_op row" "bo_payload row' = bo_payload row"
      "bo_state row \<noteq> BPending \<longrightarrow> bo_state row' = bo_state row" by blast
  obtain st where "map_of (bk_ops z) oid = Some (row'\<lparr>bo_state := st\<rparr>)" "bo_state row' \<noteq> BPending \<longrightarrow> st = bo_state row'"
    using broker_step_keeps [OF step(2) y(1)] by blast
  then show ?case using y by (intro exI [of _ "row'\<lparr>bo_state := st\<rparr>"]) auto
qed

definition sample_broker :: broker where
  "sample_broker = \<lparr>br_Slots = Some ''eu'', br_Quota = Some ''eu''\<rparr>"

definition sample_target :: Resource where
  "sample_target = \<lparr>r_Kind = ''api_key'', r_ID = 7\<rparr>"

definition sample_issue :: broker_row where
  "sample_issue = \<lparr>bo_op = SlotsIssue, bo_payload = PGrant \<lparr>g_LeaseID = ''l-1'', g_Region = ''eu'', g_Resource = sample_target,
     g_Slots = 2, g_Revision = 1, g_IssuedAt = 5000, g_ExpiresAt = 60000005000\<rparr>, bo_state = BPending\<rparr>"

definition sample_pending :: broker_db where
  "sample_pending = empty_broker\<lparr>bk_ops := [(''l-1-1'', sample_issue)]\<rparr>"

lemma sample_ensure:
  "broker_EnsureSlots (\<lambda>xs. xs) sample_broker 5432 ''l-1'' sample_target 2 Minute empty_broker = Commit sample_pending (Inr ())"
  by code_simp

lemma sample_rejected:
  "broker_Replay sample_broker (\<lambda>_ _. RemoteExpired) NoFault NoFault ''l-1-1'' sample_pending =
     (Inr (), sample_pending\<lparr>bk_ops := [(''l-1-1'', sample_issue\<lparr>bo_state := BRejected\<rparr>)]\<rparr>)"
  by code_simp

theorem broker_operation_immutable_witness:
  "\<exists>db'. (broker_step sample_broker)\<^sup>*\<^sup>* sample_pending db' \<and>
     map_of (bk_ops db') ''l-1-1'' = Some (sample_issue\<lparr>bo_state := BRejected\<rparr>) \<and>
     (\<exists>row'. map_of (bk_ops db') ''l-1-1'' = Some row' \<and> bo_op row' = SlotsIssue)"
proof -
  let ?db = "sample_pending\<lparr>bk_ops := [(''l-1-1'', sample_issue\<lparr>bo_state := BRejected\<rparr>)]\<rparr>"
  have s: "(broker_step sample_broker)\<^sup>*\<^sup>* sample_pending ?db"
    by (rule r_into_rtranclp [of "broker_step sample_broker", OF bs_replay [OF sample_rejected]])
  have "map_of (bk_ops sample_pending) ''l-1-1'' = Some sample_issue" by (simp add: sample_pending_def)
  from broker_operation_immutable [OF s this] s show ?thesis
    by (intro exI [of _ ?db]) (simp add: sample_issue_def)
qed

text \<open>A replay that succeeds on a pending operation did so because the primary confirmed it, and then the grant or
  lease it carries is installed locally under its exact payload before the operation is marked installed; or the primary
  reported the identity expired and unissued, and then the operation is marked rejected and nothing is installed.\<close>

theorem broker_replay_confirmed:
  assumes "broker_Replay b remote flti fltc oid db = (Inr (), db')"
    "map_of (bk_ops db) oid = Some row" "bo_state row = BPending"
  shows "remote (bo_op row) (bo_payload row) = RemoteOK \<and> map_of (bk_ops db') oid = Some (row\<lparr>bo_state := BInstalled\<rparr>) \<and>
       installed_locally b (bo_payload row) db' \<or>
     remote (bo_op row) (bo_payload row) = RemoteExpired \<and> (bo_op row = SlotsIssue \<or> bo_op row = QuotaIssue) \<and>
       map_of (bk_ops db') oid = Some (row\<lparr>bo_state := BRejected\<rparr>) \<and> bk_slots db' = bk_slots db \<and> bk_quota db' = bk_quota db"
proof (cases "bo_payload row")
  case (PGrant g)
  then show ?thesis
    using assms local_Install_ok [of flti _ g "bk_slots db"] Grant_eqI
    by (fastforce simp: broker_Replay_def installed_locally_def table_simps dest!: finish_op_ok [where row = row]
        split: prod.splits broker_op.splits option.splits remote_res.splits sum.splits if_splits)
next
  case (PLease l)
  then show ?thesis
    using assms ledger_Install_ok [of flti _ l "bk_quota db"]
    by (fastforce simp: broker_Replay_def installed_locally_def table_simps dest!: finish_op_ok [where row = row]
        split: prod.splits broker_op.splits option.splits remote_res.splits sum.splits)
next
  case (PReceipt r)
  then show ?thesis
    using assms
    by (auto simp: broker_Replay_def installed_locally_def table_simps dest!: finish_op_ok [where row = row]
        split: broker_op.splits option.splits remote_res.splits)
qed

theorem broker_replay_confirmed_witness:
  "\<exists>db'. broker_Replay sample_broker (\<lambda>_ _. RemoteOK) NoFault NoFault ''l-1-1'' sample_pending = (Inr (), db') \<and>
     map_of (bk_ops db') ''l-1-1'' = Some (sample_issue\<lparr>bo_state := BInstalled\<rparr>) \<and>
     installed_locally sample_broker (bo_payload sample_issue) db'"
proof -
  obtain res db' where r: "broker_Replay sample_broker (\<lambda>_ _. RemoteOK) NoFault NoFault ''l-1-1'' sample_pending = (res, db')"
    by force
  have "fst (broker_Replay sample_broker (\<lambda>_ _. RemoteOK) NoFault NoFault ''l-1-1'' sample_pending) = Inr ()" by code_simp
  then have res: "res = Inr ()" using r by simp
  have "map_of (bk_ops sample_pending) ''l-1-1'' = Some sample_issue" "bo_state sample_issue = BPending"
    by (simp_all add: sample_pending_def sample_issue_def)
  from broker_replay_confirmed [OF r [unfolded res] this] r res show ?thesis by simp
qed

text \<open>C27: At most one outstanding slot operation per resource: in every state a region's worker reaches from an empty
  database, whatever the primary answers and whichever installations and commits fail, at most one issue or renewal of
  a resource is pending.\<close>

theorem broker_one_outstanding:
  assumes "(worker_step b)\<^sup>*\<^sup>* empty_broker db"
  shows "card {oid. \<exists>row. map_of (bk_ops db) oid = Some row \<and> pending_for region r row} \<le> 1"
proof -
  have "oid = oid'" if "map_of (bk_ops db) oid = Some row" "map_of (bk_ops db) oid' = Some row'"
      "pending_for region r row" "pending_for region r row'" for oid oid' row row'
    using worker_reach_inv [OF assms] that unfolding worker_inv_def by blast
  then show ?thesis by (intro card_le_Suc0_iff_eq [THEN iffD2, unfolded One_nat_def [symmetric]] finite_rows) blast
qed

theorem broker_one_outstanding_witness:
  "(worker_step sample_broker)\<^sup>*\<^sup>* empty_broker sample_pending \<and> pending_for ''eu'' sample_target sample_issue \<and>
   card {oid. \<exists>row. map_of (bk_ops sample_pending) oid = Some row \<and> pending_for ''eu'' sample_target row} \<le> 1"
proof -
  have s: "(worker_step sample_broker)\<^sup>*\<^sup>* empty_broker sample_pending"
    by (rule r_into_rtranclp [of "worker_step sample_broker", OF ws_ensure [OF sample_ensure]]) simp
  have "pending_for ''eu'' sample_target sample_issue" by code_simp
  then show ?thesis using s broker_one_outstanding [OF s] by simp
qed

end
