(* ===== verification/GoText.thy ===== *)
theory GoText
  imports Prelude
begin

text \<open>
  The text functions of Go's standard library the services call: \<open>utf8.ValidString\<close>,
  \<open>strings.TrimSpace\<close>, \<open>strings.LastIndex\<close>, and the truncation \<open>truncateUTF8\<close> of
  \<^verbatim>\<open>backend/internal/service/idempotency.go\<close>. A Go string is a list of bytes.
  At the end are the types of accounts, which billing and scheduling share.
\<close>

definition byte :: "char \<Rightarrow> nat" where "byte c = of_char c"

definition is_cont :: "nat \<Rightarrow> bool" where "is_cont b \<longleftrightarrow> 128 \<le> b \<and> b \<le> 191"

text \<open>The length of the well-formed rune at the start of a byte string, 0 if there is none (the accept ranges of
  Go's \<open>unicode/utf8\<close>: no overlong forms, no surrogates, nothing beyond U+10FFFF).\<close>

definition second_ok :: "nat \<Rightarrow> nat \<Rightarrow> bool" where
  "second_ok b c \<longleftrightarrow>
     (if b = 224 then 160 \<le> c \<and> c \<le> 191 else if b = 237 then 128 \<le> c \<and> c \<le> 159
      else if b = 240 then 144 \<le> c \<and> c \<le> 191 else if b = 244 then 128 \<le> c \<and> c \<le> 143 else is_cont c)"

definition rune_len :: "string \<Rightarrow> nat" where
  "rune_len s =
     (case map byte s of
        [] \<Rightarrow> 0
      | b # bs \<Rightarrow>
          if b < 128 then 1
          else if 194 \<le> b \<and> b \<le> 223 then (case bs of c # _ \<Rightarrow> if is_cont c then 2 else 0 | _ \<Rightarrow> 0)
          else if 224 \<le> b \<and> b \<le> 239 then (case bs of c # d # _ \<Rightarrow> if second_ok b c \<and> is_cont d then 3 else 0 | _ \<Rightarrow> 0)
          else if 240 \<le> b \<and> b \<le> 244
          then (case bs of c # d # e # _ \<Rightarrow> if second_ok b c \<and> is_cont d \<and> is_cont e then 4 else 0 | _ \<Rightarrow> 0)
          else 0)"

function utf8_ValidString :: "string \<Rightarrow> bool" where
  "utf8_ValidString s = (if s = [] then True else if rune_len s = 0 then False else utf8_ValidString (drop (rune_len s) s))"
  by auto
termination by (relation "measure length") auto

declare utf8_ValidString.simps [simp del]

text \<open>\<open>unicode.IsSpace\<close> at the start of a byte string, and at its end (on the reversed string).\<close>

definition ascii_space :: "nat \<Rightarrow> bool" where
  "ascii_space b \<longleftrightarrow> b = 9 \<or> b = 10 \<or> b = 11 \<or> b = 12 \<or> b = 13 \<or> b = 32"

definition wide_space :: "nat \<Rightarrow> nat \<Rightarrow> nat \<Rightarrow> bool" where
  "wide_space a b c \<longleftrightarrow>
     a = 225 \<and> b = 154 \<and> c = 128 \<or> a = 226 \<and> b = 128 \<and> (128 \<le> c \<and> c \<le> 138 \<or> c = 168 \<or> c = 169 \<or> c = 175) \<or>
     a = 226 \<and> b = 129 \<and> c = 159 \<or> a = 227 \<and> b = 128 \<and> c = 128"

definition space_len :: "string \<Rightarrow> nat" where
  "space_len s =
     (case map byte s of
        [] \<Rightarrow> 0
      | a # bs \<Rightarrow> if ascii_space a then 1
          else (case bs of b # cs \<Rightarrow> if a = 194 \<and> (b = 133 \<or> b = 160) then 2
                  else (case cs of c # _ \<Rightarrow> if wide_space a b c then 3 else 0 | _ \<Rightarrow> 0) | _ \<Rightarrow> 0))"

definition rspace_len :: "string \<Rightarrow> nat" where
  "rspace_len s =
     (case map byte s of
        [] \<Rightarrow> 0
      | c # bs \<Rightarrow> if ascii_space c then 1
          else (case bs of b # as \<Rightarrow> if b = 194 \<and> (c = 133 \<or> c = 160) then 2
                  else (case as of a # _ \<Rightarrow> if wide_space a b c then 3 else 0 | _ \<Rightarrow> 0) | _ \<Rightarrow> 0))"

function trim_by :: "(string \<Rightarrow> nat) \<Rightarrow> string \<Rightarrow> string" where
  "trim_by f s = (if s = [] \<or> f s = 0 then s else trim_by f (drop (f s) s))"
  by auto
termination by (relation "measure (length \<circ> snd)") auto

declare trim_by.simps [simp del]

definition strings_TrimSpace :: "string \<Rightarrow> string" where
  "strings_TrimSpace s = rev (trim_by rspace_len (rev (trim_by space_len s)))"

text \<open>\<open>truncateUTF8\<close>: the loop counts down to the longest valid prefix.\<close>

fun trunc_len :: "string \<Rightarrow> nat \<Rightarrow> nat" where
  "trunc_len s 0 = 0"
| "trunc_len s (Suc n) = (if utf8_ValidString (take (Suc n) s) then Suc n else trunc_len s n)"

definition truncateUTF8 :: "string \<Rightarrow> int \<Rightarrow> string" where
  "truncateUTF8 s maxBytes =
     (if maxBytes \<le> 0 \<or> int (length s) \<le> maxBytes then s else take (trunc_len s (nat maxBytes)) s)"

section \<open>Lemmas\<close>

lemma utf8_Nil [simp]: "utf8_ValidString []"
  by (simp add: utf8_ValidString.simps)

lemma trunc_len_le: "trunc_len s n \<le> n"
  by (induction n) auto

lemma trunc_len_valid: "utf8_ValidString (take (trunc_len s n) s)"
  by (induction n) auto

lemma trunc_len_max: "k \<le> n \<Longrightarrow> utf8_ValidString (take k s) \<Longrightarrow> k \<le> trunc_len s n"
proof (induction n)
  case (Suc n)
  then show ?case by (cases "k = Suc n") auto
qed simp

lemma trim_by_ascii: "space_len (c # s) = 0 \<Longrightarrow> trim_by space_len (c # s) = c # s"
  by (simp add: trim_by.simps)

text \<open>Cutting a stored response never splits a character: whenever \<open>truncateUTF8\<close> shortens a text, the result is a
  prefix within the byte limit, is valid UTF-8, and is the longest such prefix.\<close>

theorem truncateUTF8_longest:
  assumes "0 < maxBytes" "maxBytes < int (length s)"
  shows "prefix (truncateUTF8 s maxBytes) s \<and> int (length (truncateUTF8 s maxBytes)) \<le> maxBytes \<and>
    utf8_ValidString (truncateUTF8 s maxBytes) \<and>
    (\<forall>p. prefix p s \<longrightarrow> int (length p) \<le> maxBytes \<longrightarrow> utf8_ValidString p \<longrightarrow> prefix p (truncateUTF8 s maxBytes))"
proof -
  let ?n = "trunc_len s (nat maxBytes)"
  have t: "truncateUTF8 s maxBytes = take ?n s" using assms by (simp add: truncateUTF8_def)
  have n: "?n \<le> nat maxBytes" by (rule trunc_len_le)
  have "prefix p (take ?n s)" if p: "prefix p s" "int (length p) \<le> maxBytes" "utf8_ValidString p" for p
  proof -
    have "p = take (length p) s" using p(1) by (metis append_eq_conv_conj prefix_def)
    then have "length p \<le> ?n" using trunc_len_max [of "length p" "nat maxBytes" s] p by (metis nat_int nat_mono)
    then show ?thesis using \<open>p = take (length p) s\<close> by (metis min.absorb1 take_is_prefix take_take)
  qed
  then show ?thesis unfolding t using n assms trunc_len_valid [of s "nat maxBytes"] by (simp add: take_is_prefix)
qed

theorem truncateUTF8_longest_witness:
  "truncateUTF8 [CHR ''a'', CHR 0xE2, CHR 0x82, CHR 0xAC] 3 = ''a'' \<and> utf8_ValidString (truncateUTF8 [CHR ''a'', CHR 0xE2, CHR 0x82, CHR 0xAC] 3)"
proof -
  have "truncateUTF8 [CHR ''a'', CHR 0xE2, CHR 0x82, CHR 0xAC] 3 = ''a''" by code_simp
  then show ?thesis using truncateUTF8_longest [of 3 "[CHR ''a'', CHR 0xE2, CHR 0x82, CHR 0xAC]"] by simp
qed

section \<open>Account types\<close>

text \<open>The types an account can have (\<^verbatim>\<open>domain/constants.go\<close>), and those that carry a quota of their own.\<close>

definition AccountTypeOAuth :: string where "AccountTypeOAuth = ''oauth''"
definition AccountTypeSetupToken :: string where "AccountTypeSetupToken = ''setup-token''"
definition AccountTypeAPIKey :: string where "AccountTypeAPIKey = ''apikey''"
definition AccountTypeBedrock :: string where "AccountTypeBedrock = ''bedrock''"
definition AccountTypeServiceAccount :: string where "AccountTypeServiceAccount = ''service_account''"

definition AccountTypeSupportsQuota :: "(string \<Rightarrow> string) \<Rightarrow> string \<Rightarrow> bool" where
  "AccountTypeSupportsQuota ToLower t \<longleftrightarrow>
     ToLower t \<in> {AccountTypeAPIKey, AccountTypeBedrock, AccountTypeServiceAccount}"

end
