(* ===== verification/Idempotency.thy ===== *)
theory Idempotency
  imports GoText
begin

text \<open>
  \<^verbatim>\<open>backend/internal/repository/idempotency_repo.go\<close> and
  \<^verbatim>\<open>backend/internal/service/idempotency.go\<close>: a request with an idempotency key is executed once and its
  stored response is replayed. The table \<open>idempotency_records\<close> is the state; every repository call is one statement, run
  under an injected fault, and between two calls of a run other processes may change the table (\<open>ix_env\<close>).

  Arguments of the model: \<open>pg\<close>, the rounding of a timestamp stored by PostgreSQL; the JSON encoder and decoder, SHA-256,
  \<open>strings.ToUpper\<close> and the log redaction (\<open>idem_lib\<close>). Metrics and audit lines are left out.
\<close>

section \<open>The repository\<close>

datatype IdemStatus = IProcessing | ISucceeded | IFailedRetryable | IStatus string

record IdempotencyRecord =
  im_Scope :: string
  im_KeyHash :: string
  im_Fingerprint :: string
  im_Status :: IdemStatus
  im_ResponseStatus :: "int option"
  im_ResponseBody :: "string option"
  im_ErrorReason :: "string option"
  im_LockedUntil :: "gotime option"
  im_ExpiresAt :: gotime

record idem_db =
  idm_seq :: int
  idm_rows :: "(int, IdempotencyRecord) table"

definition empty_idem :: idem_db where "empty_idem = \<lparr>idm_seq = 0, idm_rows = []\<rparr>"

datatype idem_err =
  IKeyRequired | IKeyInvalid | IKeyConflict | IInProgress "int option" | IRetryBackoff "int option" | IStoreUnavail |
  IInvalidPayload | IScopeRequired | IExecutorNil | IExec string | IDB

definition find_key :: "string \<Rightarrow> string \<Rightarrow> idem_db \<Rightarrow> (int \<times> IdempotencyRecord) option" where
  "find_key scope keyHash db = find (\<lambda>(i, r). im_Scope r = scope \<and> im_KeyHash r = keyHash) (idm_rows db)"

text \<open>\<open>INSERT ... ON CONFLICT DO NOTHING RETURNING id\<close>: the sequence advances in either case.\<close>

definition CreateProcessing ::
    "(gotime \<Rightarrow> gotime) \<Rightarrow> IdempotencyRecord \<Rightarrow> idem_db \<Rightarrow> (idem_db, idem_err, int option) tx" where
  "CreateProcessing pg rec db =
     (let i = idm_seq db + 1; db1 = db\<lparr>idm_seq := i\<rparr> in
      case find_key (im_Scope rec) (im_KeyHash rec) db of
        Some _ \<Rightarrow> Commit db1 (Inr None)
      | None \<Rightarrow> Commit (db1\<lparr>idm_rows := tput i (rec\<lparr>im_LockedUntil := map_option pg (im_LockedUntil rec),
                   im_ExpiresAt := pg (im_ExpiresAt rec), im_ResponseStatus := None, im_ResponseBody := None,
                   im_ErrorReason := None\<rparr>) (idm_rows db)\<rparr>) (Inr (Some i)))"

definition GetByScopeAndKeyHash ::
    "string \<Rightarrow> string \<Rightarrow> idem_db \<Rightarrow> (idem_db, idem_err, (int \<times> IdempotencyRecord) option) tx" where
  "GetByScopeAndKeyHash scope keyHash db = Rollback (Inr (find_key scope keyHash db))"

definition update_row ::
    "int \<Rightarrow> (IdempotencyRecord \<Rightarrow> bool) \<Rightarrow> (IdempotencyRecord \<Rightarrow> IdempotencyRecord) \<Rightarrow> idem_db \<Rightarrow> (idem_db, idem_err, bool) tx" where
  "update_row i P f db =
     (case map_of (idm_rows db) i of
        None \<Rightarrow> Commit db (Inr False)
      | Some r \<Rightarrow> if P r then Commit (db\<lparr>idm_rows := tput i (f r) (idm_rows db)\<rparr>) (Inr True) else Commit db (Inr False))"

definition lock_free :: "gotime \<Rightarrow> IdempotencyRecord \<Rightarrow> bool" where
  "lock_free t r = (case im_LockedUntil r of None \<Rightarrow> True | Some u \<Rightarrow> u \<le> t)"

definition TryReclaim ::
    "(gotime \<Rightarrow> gotime) \<Rightarrow> int \<Rightarrow> IdemStatus \<Rightarrow> gotime \<Rightarrow> gotime \<Rightarrow> gotime \<Rightarrow> idem_db \<Rightarrow> (idem_db, idem_err, bool) tx" where
  "TryReclaim pg i fromStatus now newLockedUntil newExpiresAt =
     update_row i (\<lambda>r. im_Status r = fromStatus \<and> lock_free (pg now) r)
       (\<lambda>r. r\<lparr>im_Status := IProcessing, im_LockedUntil := Some (pg newLockedUntil), im_ErrorReason := None,
             im_ExpiresAt := pg newExpiresAt\<rparr>)"

definition ExtendProcessingLock ::
    "(gotime \<Rightarrow> gotime) \<Rightarrow> int \<Rightarrow> string \<Rightarrow> gotime \<Rightarrow> gotime \<Rightarrow> idem_db \<Rightarrow> (idem_db, idem_err, bool) tx" where
  "ExtendProcessingLock pg i fingerprint newLockedUntil newExpiresAt =
     update_row i (\<lambda>r. im_Status r = IProcessing \<and> im_Fingerprint r = fingerprint)
       (\<lambda>r. r\<lparr>im_LockedUntil := Some (pg newLockedUntil), im_ExpiresAt := pg newExpiresAt\<rparr>)"

definition MarkSucceeded ::
    "(gotime \<Rightarrow> gotime) \<Rightarrow> int \<Rightarrow> int \<Rightarrow> string \<Rightarrow> gotime \<Rightarrow> idem_db \<Rightarrow> (idem_db, idem_err, bool) tx" where
  "MarkSucceeded pg i status body expiresAt =
     update_row i (\<lambda>_. True)
       (\<lambda>r. r\<lparr>im_Status := ISucceeded, im_ResponseStatus := Some status, im_ResponseBody := Some body, im_ErrorReason := None,
             im_LockedUntil := None, im_ExpiresAt := pg expiresAt\<rparr>)"

definition MarkFailedRetryable ::
    "(gotime \<Rightarrow> gotime) \<Rightarrow> int \<Rightarrow> string \<Rightarrow> gotime \<Rightarrow> gotime \<Rightarrow> idem_db \<Rightarrow> (idem_db, idem_err, bool) tx" where
  "MarkFailedRetryable pg i reason lockedUntil expiresAt =
     update_row i (\<lambda>_. True)
       (\<lambda>r. r\<lparr>im_Status := IFailedRetryable, im_ErrorReason := Some reason, im_LockedUntil := Some (pg lockedUntil),
             im_ExpiresAt := pg expiresAt\<rparr>)"

text \<open>\<open>order_by\<close> is \<open>ORDER BY expires_at\<close>.\<close>

definition DeleteExpired ::
    "(gotime \<Rightarrow> gotime) \<Rightarrow> ((int \<times> gotime) list \<Rightarrow> (int \<times> gotime) list) \<Rightarrow> gotime \<Rightarrow> int \<Rightarrow> idem_db \<Rightarrow> (idem_db, idem_err, int) tx" where
  "DeleteExpired pg order_by now limit db =
     (let limit = if limit \<le> 0 then 500 else limit;
          victims = map fst (take (nat limit) (order_by [(i, im_ExpiresAt r). (i, r) \<leftarrow> idm_rows db, im_ExpiresAt r \<le> pg now]));
          rows = filter (\<lambda>(i, r). i \<notin> set victims) (idm_rows db)
      in Commit (db\<lparr>idm_rows := rows\<rparr>) (Inr (int (length (idm_rows db) - length rows))))"

section \<open>The coordinator\<close>

record IdempotencyConfig =
  ic_DefaultTTL :: duration
  ic_SystemOperationTTL :: duration
  ic_ProcessingTimeout :: duration
  ic_FailedRetryBackoff :: duration
  ic_MaxStoredResponseLen :: int
  ic_ObserveOnly :: bool

definition DefaultIdempotencyConfig :: IdempotencyConfig where
  "DefaultIdempotencyConfig = \<lparr>ic_DefaultTTL = 24 * Hour, ic_SystemOperationTTL = Hour, ic_ProcessingTimeout = 30 * Second,
     ic_FailedRetryBackoff = 5 * Second, ic_MaxStoredResponseLen = 64 * 1024, ic_ObserveOnly = True\<rparr>"

record 'p IdempotencyExecuteOptions =
  io_Scope :: string
  io_ActorScope :: string
  io_Method :: string
  io_Route :: string
  io_Key :: string
  io_Payload :: 'p
  io_TTL :: duration
  io_RequireKey :: bool
  io_ExecutionTimeout :: duration

record 'a idem_lib =
  il_pg :: "gotime \<Rightarrow> gotime"
  il_sha256hex :: "string \<Rightarrow> string"
  il_ToUpper :: "string \<Rightarrow> string"
  il_Marshal :: "'a \<Rightarrow> string option"
  il_Unmarshal :: "string \<Rightarrow> 'a option"
  il_RedactText :: "string \<Rightarrow> string"
  il_emptyMap :: 'a

definition NormalizeIdempotencyKey :: "string \<Rightarrow> idem_err + string" where
  "NormalizeIdempotencyKey raw =
     (let key = strings_TrimSpace raw in
      if key = '''' then Inr ''''
      else if length key > 128 then Inl IKeyInvalid
      else if list_ex (\<lambda>c. byte c < 33 \<or> byte c > 126) key then Inl IKeyInvalid
      else Inr key)"

definition HashIdempotencyKey :: "'a idem_lib \<Rightarrow> string \<Rightarrow> string" where
  "HashIdempotencyKey L key = il_sha256hex L key"

definition BuildIdempotencyFingerprint :: "'a idem_lib \<Rightarrow> string \<Rightarrow> string \<Rightarrow> string \<Rightarrow> 'a \<Rightarrow> idem_err + string" where
  "BuildIdempotencyFingerprint L method0 route0 actorScope0 payload =
     (let mthd = if method0 = '''' then ''POST'' else method0;
          route = if route0 = '''' then ''/'' else route0;
          actorScope = if actorScope0 = '''' then ''anonymous'' else actorScope0
      in case il_Marshal L payload of
           None \<Rightarrow> Inl IInvalidPayload
         | Some raw \<Rightarrow> Inr (il_sha256hex L (il_ToUpper L mthd @ [CHR 10] @ route @ [CHR 10] @ actorScope @ [CHR 10] @ raw)))"

text \<open>\<open>int(d.Seconds())\<close> truncates to whole seconds.\<close>

definition retry_after :: "gotime option \<Rightarrow> gotime \<Rightarrow> int option" where
  "retry_after lockedUntil now =
     map_option (\<lambda>u. let sec = go_div (Sub u now) Second in if sec \<le> 0 then 1 else sec) lockedUntil"

definition marshalStoredResponse :: "'a idem_lib \<Rightarrow> IdempotencyConfig \<Rightarrow> 'a \<Rightarrow> string option" where
  "marshalStoredResponse L cfg data =
     (case il_Marshal L data of
        None \<Rightarrow> None
      | Some raw \<Rightarrow>
          let redacted = il_RedactText L raw in
          Some (if ic_MaxStoredResponseLen cfg > 0 \<and> int (length redacted) > ic_MaxStoredResponseLen cfg
                then truncateUTF8 redacted (ic_MaxStoredResponseLen cfg) @ ''...(truncated)''
                else redacted))"

definition decodeStoredResponse :: "'a idem_lib \<Rightarrow> string option \<Rightarrow> 'a option" where
  "decodeStoredResponse L stored =
     (case stored of None \<Rightarrow> Some (il_emptyMap L)
      | Some s \<Rightarrow> if strings_TrimSpace s = '''' then Some (il_emptyMap L) else il_Unmarshal L s)"

text \<open>The surroundings of one run: what others do before its \<open>k\<close>-th call, the fault of that call, the clock when the run
  starts and after \<open>execute\<close>, and the ticks of the renewal goroutine.\<close>

record idem_run =
  ix_env :: "nat \<Rightarrow> idem_db \<Rightarrow> idem_db"
  ix_flt :: "nat \<Rightarrow> db_fault"
  ix_now :: gotime
  ix_end :: gotime
  ix_ticks :: "((idem_db \<Rightarrow> idem_db) \<times> gotime \<times> db_fault) list"

definition idem_call :: "idem_run \<Rightarrow> nat \<Rightarrow> (idem_db \<Rightarrow> (idem_db, idem_err, 'b) tx) \<Rightarrow> idem_db \<Rightarrow> (idem_err + 'b) \<times> idem_db" where
  "idem_call x k body db = run_tx (ix_flt x k) IDB body (ix_env x k db)"

datatype 'a claim = Claimed int | Replay 'a

text \<open>The \<open>switch\<close> on the status of an existing record.\<close>

definition idem_status ::
    "'a idem_lib \<Rightarrow> idem_run \<Rightarrow> gotime \<Rightarrow> gotime \<Rightarrow> int \<Rightarrow> IdempotencyRecord \<Rightarrow> idem_db \<Rightarrow> (idem_err + 'a claim) \<times> idem_db" where
  "idem_status L x lockedUntil expiresAt i existing db =
     (case im_Status existing of
        ISucceeded \<Rightarrow> (case decodeStoredResponse L (im_ResponseBody existing) of
            None \<Rightarrow> (Inl IStoreUnavail, db) | Some data \<Rightarrow> (Inr (Replay data), db))
      | IProcessing \<Rightarrow> (Inl (IInProgress (retry_after (im_LockedUntil existing) (ix_now x))), db)
      | IFailedRetryable \<Rightarrow>
          if im_LockedUntil existing \<noteq> None \<and> After (the (im_LockedUntil existing)) (ix_now x)
          then (Inl (IRetryBackoff (retry_after (im_LockedUntil existing) (ix_now x))), db)
          else (case idem_call x 4 (TryReclaim (il_pg L) i IFailedRetryable (ix_now x) lockedUntil expiresAt) db of
                  (Inl _, db1) \<Rightarrow> (Inl IStoreUnavail, db1)
                | (Inr taken, db1) \<Rightarrow>
                    if \<not> taken then (Inl (IInProgress (retry_after (im_LockedUntil existing) (ix_now x))), db1)
                    else (Inr (Claimed i), db1))
      | IStatus _ \<Rightarrow> (Inl IKeyConflict, db))"

text \<open>An existing record: same request, and reclaimed when expired.\<close>

definition idem_existing ::
    "'a idem_lib \<Rightarrow> idem_run \<Rightarrow> string \<Rightarrow> string \<Rightarrow> string \<Rightarrow> gotime \<Rightarrow> gotime \<Rightarrow> idem_db \<Rightarrow> (idem_err + 'a claim) \<times> idem_db" where
  "idem_existing L x scope keyHash fingerprint lockedUntil expiresAt db0 =
     (case idem_call x 1 (GetByScopeAndKeyHash scope keyHash) db0 of
        (Inl _, db) \<Rightarrow> (Inl IStoreUnavail, db)
      | (Inr None, db) \<Rightarrow> (Inl IStoreUnavail, db)
      | (Inr (Some (i, existing)), db) \<Rightarrow>
          if im_Fingerprint existing \<noteq> fingerprint then (Inl IKeyConflict, db)
          else if After (im_ExpiresAt existing) (ix_now x) then idem_status L x lockedUntil expiresAt i existing db
          else (case idem_call x 2 (TryReclaim (il_pg L) i (im_Status existing) (ix_now x) lockedUntil expiresAt) db of
                  (Inl _, db1) \<Rightarrow> (Inl IStoreUnavail, db1)
                | (Inr True, db1) \<Rightarrow> (Inr (Claimed i), db1)
                | (Inr False, db1) \<Rightarrow>
                    (case idem_call x 3 (GetByScopeAndKeyHash scope keyHash) db1 of
                       (Inl _, db2) \<Rightarrow> (Inl IStoreUnavail, db2)
                     | (Inr None, db2) \<Rightarrow> (Inl IStoreUnavail, db2)
                     | (Inr (Some (j, latest)), db2) \<Rightarrow>
                         if im_Fingerprint latest \<noteq> fingerprint then (Inl IKeyConflict, db2)
                         else idem_status L x lockedUntil expiresAt j latest db2)))"

definition idem_claim ::
    "'a idem_lib \<Rightarrow> idem_run \<Rightarrow> string \<Rightarrow> string \<Rightarrow> string \<Rightarrow> gotime \<Rightarrow> gotime \<Rightarrow> idem_db \<Rightarrow> (idem_err + 'a claim) \<times> idem_db" where
  "idem_claim L x scope keyHash fingerprint lockedUntil expiresAt db =
     (let rec = \<lparr>im_Scope = scope, im_KeyHash = keyHash, im_Fingerprint = fingerprint, im_Status = IProcessing,
                im_ResponseStatus = None, im_ResponseBody = None, im_ErrorReason = None,
                im_LockedUntil = Some lockedUntil, im_ExpiresAt = expiresAt\<rparr>
      in case idem_call x 0 (CreateProcessing (il_pg L) rec) db of
           (Inl _, db1) \<Rightarrow> (Inl IStoreUnavail, db1)
         | (Inr (Some i), db1) \<Rightarrow> (Inr (Claimed i), db1)
         | (Inr None, db1) \<Rightarrow> idem_existing L x scope keyHash fingerprint lockedUntil expiresAt db1)"

text \<open>\<open>renewProcessingLease\<close>: one tick after another until an extension reports that the lease is lost.\<close>

fun renew_ticks ::
    "(gotime \<Rightarrow> gotime) \<Rightarrow> int \<Rightarrow> string \<Rightarrow> duration \<Rightarrow> duration \<Rightarrow> ((idem_db \<Rightarrow> idem_db) \<times> gotime \<times> db_fault) list \<Rightarrow> idem_db \<Rightarrow> idem_db" where
  "renew_ticks pg i fingerprint lease ttl [] db = db"
| "renew_ticks pg i fingerprint lease ttl ((env, now, flt) # ticks) db =
     (case run_tx flt IDB (ExtendProcessingLock pg i fingerprint (Add now lease) (Add now ttl)) (env db) of
        (Inr False, db1) \<Rightarrow> db1
      | (_, db1) \<Rightarrow> renew_ticks pg i fingerprint lease ttl ticks db1)"

definition renew_lease :: "IdempotencyConfig \<Rightarrow> duration" where
  "renew_lease cfg = (if ic_ProcessingTimeout cfg \<le> 0 then ic_ProcessingTimeout DefaultIdempotencyConfig else ic_ProcessingTimeout cfg)"

definition renew_interval :: "IdempotencyConfig \<Rightarrow> duration \<Rightarrow> duration" where
  "renew_interval cfg ttl =
     (let interval = min (go_div (renew_lease cfg) 3) (go_div ttl 3) in if interval < Millisecond then Millisecond else interval)"

text \<open>After the claim: \<open>execute\<close> with result \<open>res\<close>, then the outcome is persisted.\<close>

definition idem_finish ::
    "'a idem_lib \<Rightarrow> IdempotencyConfig \<Rightarrow> idem_run \<Rightarrow> 'a IdempotencyExecuteOptions \<Rightarrow> string \<Rightarrow> duration \<Rightarrow> gotime \<Rightarrow> int \<Rightarrow> string + 'a \<Rightarrow>
     idem_db \<Rightarrow> (idem_err + 'a) \<times> idem_db" where
  "idem_finish L cfg x opts fingerprint ttl expiresAt0 i res db0 =
     (let db = if io_ExecutionTimeout opts > 0
               then renew_ticks (il_pg L) i fingerprint (renew_lease cfg) ttl (ix_ticks x) db0 else db0;
          expiresAt = if io_ExecutionTimeout opts > 0 then Add (ix_end x) ttl else expiresAt0
      in case res of
           Inl reason \<Rightarrow>
             let reason1 = if reason = '''' then ''EXECUTION_FAILED'' else reason;
                 (_, db1) = idem_call x 5 (MarkFailedRetryable (il_pg L) i reason1 (Add (ix_end x) (ic_FailedRetryBackoff cfg)) expiresAt) db
             in (Inl (IExec reason), db1)
         | Inr data \<Rightarrow>
             (case marshalStoredResponse L cfg data of
                None \<Rightarrow> (Inl IStoreUnavail, db)
              | Some body \<Rightarrow>
                  (case idem_call x 5 (MarkSucceeded (il_pg L) i 200 body expiresAt) db of
                     (Inl _, db1) \<Rightarrow> (Inl IStoreUnavail, db1)
                   | (Inr _, db1) \<Rightarrow> (Inr data, db1))))"

record 'a IdempotencyExecuteResult =
  ier_Data :: 'a
  ier_Replayed :: bool

text \<open>\<open>Execute\<close>: the result, whether \<open>execute\<close> was called, and the table. \<open>repo\<close> says whether a repository is
  configured; \<open>execute = None\<close> is a nil function.\<close>

definition Execute ::
    "'a idem_lib \<Rightarrow> IdempotencyConfig \<Rightarrow> bool \<Rightarrow> idem_run \<Rightarrow> 'a IdempotencyExecuteOptions \<Rightarrow> (string + 'a) option \<Rightarrow> idem_db \<Rightarrow>
     (idem_err + 'a IdempotencyExecuteResult) \<times> bool \<times> idem_db" where
  "Execute L cfg repo x opts execute db =
     (case execute of None \<Rightarrow> (Inl IExecutorNil, False, db) | Some res \<Rightarrow>
      case NormalizeIdempotencyKey (io_Key opts) of Inl e \<Rightarrow> (Inl e, False, db) | Inr key \<Rightarrow>
      if key = '''' then
        (if io_RequireKey opts \<and> \<not> ic_ObserveOnly cfg then (Inl IKeyRequired, False, db)
         else (case res of Inl reason \<Rightarrow> (Inl (IExec reason), True, db)
               | Inr data \<Rightarrow> (Inr \<lparr>ier_Data = data, ier_Replayed = False\<rparr>, True, db)))
      else if \<not> repo then (Inl IStoreUnavail, False, db)
      else if io_Scope opts = '''' then (Inl IScopeRequired, False, db)
      else case BuildIdempotencyFingerprint L (io_Method opts) (io_Route opts) (io_ActorScope opts) (io_Payload opts) of
        Inl e \<Rightarrow> (Inl e, False, db)
      | Inr fingerprint \<Rightarrow>
          let ttl = if io_TTL opts \<le> 0 then ic_DefaultTTL cfg else io_TTL opts;
              expiresAt = Add (ix_now x) ttl;
              lockedUntil = Add (ix_now x) (ic_ProcessingTimeout cfg)
          in case idem_claim L x (io_Scope opts) (HashIdempotencyKey L key) fingerprint lockedUntil expiresAt db of
               (Inl e, db1) \<Rightarrow> (Inl e, False, db1)
             | (Inr (Replay data), db1) \<Rightarrow> (Inr \<lparr>ier_Data = data, ier_Replayed = True\<rparr>, False, db1)
             | (Inr (Claimed i), db1) \<Rightarrow>
                 if i = 0 then (Inl IStoreUnavail, False, db1)
                 else (case idem_finish L cfg x opts fingerprint ttl expiresAt i res db1 of
                         (Inl e, db2) \<Rightarrow> (Inl e, True, db2)
                       | (Inr data, db2) \<Rightarrow> (Inr \<lparr>ier_Data = data, ier_Replayed = False\<rparr>, True, db2)))"

section \<open>Invariant\<close>

definition im_key :: "IdempotencyRecord \<Rightarrow> string \<times> string" where
  "im_key r = (im_Scope r, im_KeyHash r)"

text \<open>Row identities are positive, unique and not ahead of the sequence; a key has at most one row.\<close>

definition idem_inv :: "idem_db \<Rightarrow> bool" where
  "idem_inv db \<longleftrightarrow> distinct (map fst (idm_rows db)) \<and> 0 \<le> idm_seq db \<and>
     (\<forall>i r. map_of (idm_rows db) i = Some r \<longrightarrow> 0 < i \<and> i \<le> idm_seq db) \<and>
     (\<forall>i j r r'. map_of (idm_rows db) i = Some r \<longrightarrow> map_of (idm_rows db) j = Some r' \<longrightarrow> im_key r = im_key r' \<longrightarrow> i = j)"

text \<open>A write to row \<open>j\<close> only, keeping its key and fingerprint.\<close>

definition wrote :: "int \<Rightarrow> idem_db \<Rightarrow> idem_db \<Rightarrow> bool" where
  "wrote j db db' \<longleftrightarrow> idm_seq db \<le> idm_seq db' \<and> (distinct (map fst (idm_rows db)) \<longrightarrow> distinct (map fst (idm_rows db'))) \<and>
     (\<forall>i. i \<noteq> j \<longrightarrow> map_of (idm_rows db') i = map_of (idm_rows db) i) \<and>
     (\<forall>r'. map_of (idm_rows db') j = Some r' \<longrightarrow>
        (\<exists>r. map_of (idm_rows db) j = Some r \<and> im_key r' = im_key r \<and> im_Fingerprint r' = im_Fingerprint r)) \<and>
     (map_of (idm_rows db') j = None \<longrightarrow> map_of (idm_rows db) j = None)"

lemma wrote_refl [simp]: "wrote j db db"
  by (simp add: wrote_def)

lemma wrote_trans:
  assumes "wrote j a b" "wrote j b c"
  shows "wrote j a c"
proof -
  have "\<exists>r. map_of (idm_rows a) j = Some r \<and> im_key r' = im_key r \<and> im_Fingerprint r' = im_Fingerprint r"
    if c: "map_of (idm_rows c) j = Some r'" for r'
  proof -
    obtain q where "map_of (idm_rows b) j = Some q" "im_key r' = im_key q" "im_Fingerprint r' = im_Fingerprint q"
      using assms(2) c unfolding wrote_def by blast
    then show ?thesis using assms(1) unfolding wrote_def by metis
  qed
  then show ?thesis using assms unfolding wrote_def by (simp del: map_of_eq_Some_iff)
qed

lemma wrote_other: "wrote j db db' \<Longrightarrow> i \<noteq> j \<Longrightarrow> map_of (idm_rows db') i = map_of (idm_rows db) i"
  unfolding wrote_def by blast

lemma wrote_origin:
  assumes "wrote j db db'" "map_of (idm_rows db') i = Some r'"
  shows "\<exists>r. map_of (idm_rows db) i = Some r \<and> im_key r' = im_key r \<and> im_Fingerprint r' = im_Fingerprint r"
  using assms unfolding wrote_def by (cases "i = j") auto

lemma wrote_inv:
  assumes w: "wrote j db db'" and inv: "idem_inv db"
  shows "idem_inv db'"
  unfolding idem_inv_def
proof (intro conjI allI impI)
  fix i r
  assume "map_of (idm_rows db') i = Some r"
  then obtain r0 where "map_of (idm_rows db) i = Some r0" using wrote_origin [OF w] by blast
  then have "0 < i \<and> i \<le> idm_seq db" using inv unfolding idem_inv_def by blast
  then show "0 < i" "i \<le> idm_seq db'" using w by (auto simp: wrote_def)
next
  fix i j r r'
  assume "map_of (idm_rows db') i = Some r" "map_of (idm_rows db') j = Some r'" "im_key r = im_key r'"
  then obtain a b where "map_of (idm_rows db) i = Some a" "map_of (idm_rows db) j = Some b" "im_key a = im_key b"
    using wrote_origin [OF w] by metis
  then show "i = j" using inv unfolding idem_inv_def by blast
qed (use w inv in \<open>auto simp: wrote_def idem_inv_def\<close>)

lemma update_row_wrote:
  assumes "update_row i P f db = Commit db' res" "\<And>r. im_key (f r) = im_key r \<and> im_Fingerprint (f r) = im_Fingerprint r"
  shows "wrote i db db'"
  using assms(1)
proof (cases "map_of (idm_rows db) i")
  case (Some r)
  then show ?thesis using assms by (auto simp: update_row_def wrote_def table_simps split: if_splits)
qed (simp add: update_row_def)

lemma find_key_iff:
  assumes "idem_inv db"
  shows "find_key scope keyHash db = Some (i, r) \<longleftrightarrow> map_of (idm_rows db) i = Some r \<and> im_key r = (scope, keyHash)"
proof
  assume "find_key scope keyHash db = Some (i, r)"
  then have "(i, r) \<in> set (idm_rows db)" "im_Scope r = scope \<and> im_KeyHash r = keyHash"
    unfolding find_key_def by (auto simp: find_Some_iff in_set_conv_nth)
  then show "map_of (idm_rows db) i = Some r \<and> im_key r = (scope, keyHash)"
    using assms by (simp add: idem_inv_def im_key_def)
next
  assume r: "map_of (idm_rows db) i = Some r \<and> im_key r = (scope, keyHash)"
  then have "(i, r) \<in> set (idm_rows db)" by (simp add: map_of_SomeD)
  moreover have "im_Scope r = scope \<and> im_KeyHash r = keyHash" using r by (simp add: im_key_def)
  ultimately have "find_key scope keyHash db \<noteq> None" unfolding find_key_def by (simp add: find_None_iff) blast
  then obtain j r' where f: "find_key scope keyHash db = Some (j, r')" by auto
  then have "(j, r') \<in> set (idm_rows db)" "im_key r' = (scope, keyHash)"
    unfolding find_key_def by (auto simp: find_Some_iff in_set_conv_nth im_key_def)
  then have "map_of (idm_rows db) j = Some r'" using assms by (simp add: idem_inv_def)
  then have "j = i" using r \<open>im_key r' = (scope, keyHash)\<close> assms unfolding idem_inv_def by metis
  then show "find_key scope keyHash db = Some (i, r)" using f r \<open>map_of (idm_rows db) j = Some r'\<close> by simp
qed

lemma find_key_None:
  "find_key scope keyHash db = None \<Longrightarrow> map_of (idm_rows db) i = Some r \<Longrightarrow> im_key r \<noteq> (scope, keyHash)"
  by (drule map_of_SomeD) (force simp: find_key_def find_None_iff im_key_def)

text \<open>\<open>CreateProcessing\<close> adds a row under a fresh identity, or only advances the sequence.\<close>

lemma CreateProcessing_cases:
  assumes "CreateProcessing pg rec db = Commit db' res" "idem_inv db"
  shows "idem_inv db' \<and> (\<forall>i \<le> idm_seq db. map_of (idm_rows db') i = map_of (idm_rows db) i) \<and>
    (case res of Inl _ \<Rightarrow> False
     | Inr None \<Rightarrow> find_key (im_Scope rec) (im_KeyHash rec) db \<noteq> None \<and> idm_rows db' = idm_rows db
     | Inr (Some i) \<Rightarrow> find_key (im_Scope rec) (im_KeyHash rec) db = None \<and> i = idm_seq db + 1 \<and>
         (\<exists>r. map_of (idm_rows db') i = Some r \<and> im_key r = im_key rec \<and> im_Fingerprint r = im_Fingerprint rec))"
proof (cases "find_key (im_Scope rec) (im_KeyHash rec) db")
  case None
  let ?r = "rec\<lparr>im_LockedUntil := map_option pg (im_LockedUntil rec), im_ExpiresAt := pg (im_ExpiresAt rec),
    im_ResponseStatus := None, im_ResponseBody := None, im_ErrorReason := None\<rparr>"
  have db': "db' = \<lparr>idm_seq = idm_seq db + 1, idm_rows = tput (idm_seq db + 1) ?r (idm_rows db)\<rparr>" "res = Inr (Some (idm_seq db + 1))"
    using assms(1) None by (auto simp: CreateProcessing_def Let_def)
  have key: "im_key ?r = im_key rec" "im_Fingerprint ?r = im_Fingerprint rec" by (auto simp: im_key_def)
  have fresh: "im_key r \<noteq> im_key rec" if "map_of (idm_rows db) i = Some r" for i r
    using find_key_None [OF None that] by (simp add: im_key_def)
  have bound: "0 < i \<and> i \<le> idm_seq db" if "map_of (idm_rows db) i = Some r" for i r
    using that assms(2) unfolding idem_inv_def by blast
  have "idem_inv db'"
    unfolding idem_inv_def db'(1) idem_db.simps map_of_tput
  proof (intro conjI allI impI)
    fix i j r r'
    assume "(if i = idm_seq db + 1 then Some ?r else map_of (idm_rows db) i) = Some r"
      "(if j = idm_seq db + 1 then Some ?r else map_of (idm_rows db) j) = Some r'" "im_key r = im_key r'"
    then show "i = j" using fresh [of i r] fresh [of j r'] key(1) assms(2) unfolding idem_inv_def by (metis option.inject)
  qed (use assms(2) bound in \<open>force simp: idem_inv_def distinct_keys_tput simp del: map_of_eq_Some_iff split: if_splits\<close>)+
  then show ?thesis using None db' key by (auto simp: table_simps)
next
  case (Some a)
  then have "db' = db\<lparr>idm_seq := idm_seq db + 1\<rparr>" "res = Inr None"
    using assms(1) by (auto simp: CreateProcessing_def Let_def)
  then show ?thesis using Some assms(2) by (force simp: idem_inv_def simp del: map_of_eq_Some_iff)
qed

section \<open>A held lease excludes other runs\<close>

text \<open>Row \<open>i\<close> is the row of the key and is locked beyond \<open>t\<close>.\<close>

definition holder :: "string \<Rightarrow> string \<Rightarrow> int \<Rightarrow> gotime \<Rightarrow> idem_db \<Rightarrow> bool" where
  "holder scope keyHash i t d \<longleftrightarrow> idem_inv d \<and>
     (\<exists>r u. map_of (idm_rows d) i = Some r \<and> im_key r = (scope, keyHash) \<and> im_LockedUntil r = Some u \<and> t < u)"

lemma holder_find:
  assumes "holder scope keyHash i t d"
  obtains r u where "find_key scope keyHash d = Some (i, r)" "im_LockedUntil r = Some u" "t < u"
  using assms find_key_iff unfolding holder_def by blast

lemma idem_call_keeps:
  assumes "idem_call x k body d = (res, d')" "P (ix_env x k d)" "\<And>d0 d1 r. P d0 \<Longrightarrow> body d0 = Commit d1 r \<Longrightarrow> P d1"
  shows "P d'"
  using run_tx_invariant [of body "ix_env x k d" P "ix_flt x k" IDB] assms unfolding idem_call_def by (metis snd_conv)

lemma idem_call_ok:
  assumes "idem_call x k body d = (Inr v, d')"
  shows "body (ix_env x k d) = Rollback (Inr v) \<and> d' = ix_env x k d \<or> body (ix_env x k d) = Commit d' (Inr v)"
  using run_tx_ok assms unfolding idem_call_def by metis

lemma holder_create:
  assumes "holder scope keyHash i t d0" "CreateProcessing pg rec d0 = Commit d1 r"
  shows "holder scope keyHash i t d1"
proof -
  have inv: "idem_inv d0" "i \<le> idm_seq d0" using assms(1) unfolding holder_def idem_inv_def by blast+
  have "map_of (idm_rows d1) i = map_of (idm_rows d0) i" "idem_inv d1"
    using CreateProcessing_cases [OF assms(2) inv(1)] inv(2) by blast+
  then show ?thesis using assms(1) unfolding holder_def by simp
qed

lemma reclaim_locked:
  assumes "holder scope keyHash i (pg now) d0" "TryReclaim pg i st now l e d0 = Commit d1 r"
  shows "d1 = d0 \<and> r = Inr False"
  using assms unfolding holder_def TryReclaim_def update_row_def lock_free_def
  by (auto simp del: map_of_eq_Some_iff)

lemma TryReclaim_commits: "TryReclaim pg i st now l e d \<noteq> Rollback v"
  by (simp add: TryReclaim_def update_row_def split: option.split)

lemma CreateProcessing_commits: "CreateProcessing pg rec d \<noteq> Rollback v"
  by (simp add: CreateProcessing_def Let_def split: option.split)

lemma idem_call_read:
  assumes "idem_call x k (GetByScopeAndKeyHash scope keyHash) d = (res, d')"
  shows "d' = ix_env x k d \<and> (res = Inr (find_key scope keyHash d') \<or> (\<exists>e. res = Inl e))"
  using assms unfolding idem_call_def GetByScopeAndKeyHash_def run_tx_def by (auto split: if_splits)

lemma call_reclaim_locked:
  assumes "holder scope keyHash i (pg now) (ix_env x k d)" "idem_call x k (TryReclaim pg i st now l e) d = (res, d')"
  shows "holder scope keyHash i (pg now) d' \<and> res \<noteq> Inr True"
proof
  show "holder scope keyHash i (pg now) d'"
    by (rule idem_call_keeps [where P = "holder scope keyHash i (pg now)", OF assms(2,1)]) (metis reclaim_locked)
  show "res \<noteq> Inr True"
  proof
    assume "res = Inr True"
    then have "TryReclaim pg i st now l e (ix_env x k d) = Commit d' (Inr True)"
      using idem_call_ok [of x k "TryReclaim pg i st now l e" d True d'] assms(2) by (simp add: TryReclaim_commits)
    then show False using reclaim_locked [of scope keyHash i pg now, OF assms(1)] by fastforce
  qed
qed

lemma status_locked:
  assumes "holder scope keyHash i (il_pg L (ix_now x)) d"
    "\<And>k d. holder scope keyHash i (il_pg L (ix_now x)) d \<Longrightarrow> holder scope keyHash i (il_pg L (ix_now x)) (ix_env x k d)"
    "idem_status L x l e i r d = (res, d')"
  shows "holder scope keyHash i (il_pg L (ix_now x)) d' \<and> (\<nexists>j. res = Inr (Claimed j))"
proof (cases "\<exists>v. idem_call x 4 (TryReclaim (il_pg L) i IFailedRetryable (ix_now x) l e) d = (v, d') \<and>
    (res = Inl IStoreUnavail \<or> (\<exists>e. v = Inr False \<and> res = Inl e) \<or> (v = Inr True \<and> res = Inr (Claimed i)))")
  case True
  then show ?thesis using call_reclaim_locked [of scope keyHash i "il_pg L" "ix_now x", OF assms(2) [OF assms(1)]] by fastforce
next
  case False
  then have "d' = d \<and> (\<nexists>j. res = Inr (Claimed j))"
    using assms(3) by (auto simp: idem_status_def split: IdemStatus.splits option.splits if_splits prod.splits sum.splits)
  then show ?thesis using assms(1) by blast
qed

lemma existing_locked:
  assumes h: "holder scope keyHash i (il_pg L (ix_now x)) d"
    and env: "\<And>k d. holder scope keyHash i (il_pg L (ix_now x)) d \<Longrightarrow> holder scope keyHash i (il_pg L (ix_now x)) (ix_env x k d)"
    and e: "idem_existing L x scope keyHash fp l ex d = (res, d')"
  shows "holder scope keyHash i (il_pg L (ix_now x)) d' \<and> (\<nexists>j. res = Inr (Claimed j))"
proof -
  let ?H = "holder scope keyHash i (il_pg L (ix_now x))"
  obtain v1 d1 where c1: "idem_call x 1 (GetByScopeAndKeyHash scope keyHash) d = (v1, d1)" by force
  have h1: "?H d1" using idem_call_read [OF c1] env [OF h] by simp
  obtain r1 where f1: "find_key scope keyHash d1 = Some (i, r1)" using holder_find [OF h1] by metis
  have v1: "v1 = Inr (Some (i, r1)) \<or> (\<exists>e. v1 = Inl e)" using idem_call_read [OF c1] f1 by simp
  obtain v2 d2 where c2: "idem_call x 2 (TryReclaim (il_pg L) i (im_Status r1) (ix_now x) l ex) d1 = (v2, d2)" by force
  have h2: "?H d2" "v2 \<noteq> Inr True"
    using call_reclaim_locked [of scope keyHash i "il_pg L" "ix_now x", OF env [OF h1] c2] by auto
  obtain v3 d3 where c3: "idem_call x 3 (GetByScopeAndKeyHash scope keyHash) d2 = (v3, d3)" by force
  have h3: "?H d3" using idem_call_read [OF c3] env [OF h2(1)] by simp
  obtain r3 where f3: "find_key scope keyHash d3 = Some (i, r3)" using holder_find [OF h3] by metis
  have v3: "v3 = Inr (Some (i, r3)) \<or> (\<exists>e. v3 = Inl e)" using idem_call_read [OF c3] f3 by simp
  have st: "?H b \<and> (\<nexists>j. a = Inr (Claimed j))" if "?H d0" "idem_status L x l ex i r d0 = (a, b)" for d0 r a b
    by (rule status_locked [OF that(1) env that(2)])
  have v2: "v2 = Inr False \<or> (\<exists>e. v2 = Inl e)" using h2(2) by (cases v2) auto
  have late: "?H d' \<and> (\<nexists>j. res = Inr (Claimed j))"
    if "(case idem_call x 3 (GetByScopeAndKeyHash scope keyHash) d2 of
           (Inl _, db2) \<Rightarrow> (Inl IStoreUnavail, db2)
         | (Inr None, db2) \<Rightarrow> (Inl IStoreUnavail, db2)
         | (Inr (Some (j, latest)), db2) \<Rightarrow>
             if im_Fingerprint latest \<noteq> fp then (Inl IKeyConflict, db2)
             else idem_status L x l ex j latest db2) = (res, d')"
    using that v3 h3 st [OF h3, of r3 res d'] unfolding c3 by (cases "im_Fingerprint r3 = fp") auto
  consider (err) e where "v1 = Inl e" | (fp) "v1 = Inr (Some (i, r1))" "im_Fingerprint r1 \<noteq> fp"
    | (live) "v1 = Inr (Some (i, r1))" "im_Fingerprint r1 = fp" "After (im_ExpiresAt r1) (ix_now x)"
    | (expired) "v1 = Inr (Some (i, r1))" "im_Fingerprint r1 = fp" "\<not> After (im_ExpiresAt r1) (ix_now x)"
    using v1 by blast
  then show ?thesis
  proof cases
    case live
    then show ?thesis using e st [OF h1, of r1 res d'] by (simp add: idem_existing_def c1 del: One_nat_def)
  next
    case expired
    show ?thesis
    proof (cases "v2 = Inr False")
      case True
      then show ?thesis using e expired by (intro late) (simp add: idem_existing_def c1 c2 del: One_nat_def)
    next
      case False
      then show ?thesis using e expired v2 h2(1) by (auto simp: idem_existing_def c1 c2 simp del: One_nat_def)
    qed
  qed (use e h1 in \<open>auto simp: idem_existing_def c1 simp del: One_nat_def\<close>)
qed

lemma claim_locked:
  assumes h: "holder scope keyHash i (il_pg L (ix_now x)) d"
    and env: "\<And>k d. holder scope keyHash i (il_pg L (ix_now x)) d \<Longrightarrow> holder scope keyHash i (il_pg L (ix_now x)) (ix_env x k d)"
    and e: "idem_claim L x scope keyHash fp l ex d = (res, d')"
  shows "holder scope keyHash i (il_pg L (ix_now x)) d' \<and> (\<nexists>j. res = Inr (Claimed j))"
proof -
  let ?H = "holder scope keyHash i (il_pg L (ix_now x))"
  let ?rec = "\<lparr>im_Scope = scope, im_KeyHash = keyHash, im_Fingerprint = fp, im_Status = IProcessing,
                im_ResponseStatus = None, im_ResponseBody = None, im_ErrorReason = None,
                im_LockedUntil = Some l, im_ExpiresAt = ex\<rparr>"
  obtain v1 d1 where c1: "idem_call x 0 (CreateProcessing (il_pg L) ?rec) d = (v1, d1)" by force
  have h1: "?H d1" by (rule idem_call_keeps [where P = ?H, OF c1 env [OF h]]) (rule holder_create)
  obtain r where f: "find_key scope keyHash (ix_env x 0 d) = Some (i, r)" using holder_find [OF env [OF h]] by metis
  have "v1 = Inr None \<or> (\<exists>e. v1 = Inl e)"
  proof (cases v1)
    case (Inr o1)
    then have "CreateProcessing (il_pg L) ?rec (ix_env x 0 d) = Commit d1 (Inr o1)"
      using idem_call_ok [of x 0 "CreateProcessing (il_pg L) ?rec" d o1 d1] c1 by (simp add: CreateProcessing_commits)
    then show ?thesis using Inr f by (auto simp: CreateProcessing_def Let_def)
  qed simp
  then show ?thesis
    using e h1 existing_locked [OF h1 env, of fp l ex res d']
    by (elim disjE exE) (auto simp: idem_claim_def c1)
qed

section \<open>Serial runs\<close>

text \<open>Runs that do not overlap with others; their calls may still fail.\<close>

definition serial_run :: "idem_run \<Rightarrow> bool" where
  "serial_run x \<longleftrightarrow> ix_env x = (\<lambda>_ d. d) \<and> (\<forall>(env, now, flt) \<in> set (ix_ticks x). env = (\<lambda>d. d))"

text \<open>Rows of other keys are untouched.\<close>

definition only_key :: "string \<times> string \<Rightarrow> idem_db \<Rightarrow> idem_db \<Rightarrow> bool" where
  "only_key k d d' \<longleftrightarrow> idem_inv d' \<and> (\<forall>i r. map_of (idm_rows d) i = Some r \<longrightarrow> im_key r \<noteq> k \<longrightarrow> map_of (idm_rows d') i = Some r)"

lemma only_key_refl: "idem_inv d \<Longrightarrow> only_key k d d"
  by (simp add: only_key_def)

lemma only_key_trans: "only_key k a b \<Longrightarrow> only_key k b c \<Longrightarrow> only_key k a c"
  by (simp add: only_key_def del: map_of_eq_Some_iff)

lemma wrote_only_key:
  assumes "wrote j d d'" "idem_inv d" "map_of (idm_rows d) j = Some r" "im_key r = k"
  shows "only_key k d d'"
  using assms wrote_inv [OF assms(1,2)] wrote_other [OF assms(1)] unfolding only_key_def by (metis option.inject)

lemmas repo_updates = TryReclaim_def ExtendProcessingLock_def MarkSucceeded_def MarkFailedRetryable_def

lemma repo_wrote:
  "TryReclaim pg i st now l e d = Commit d1 v \<Longrightarrow> wrote i d d1"
  "ExtendProcessingLock pg i fp l e d = Commit d1 v \<Longrightarrow> wrote i d d1"
  "MarkSucceeded pg i s b e d = Commit d1 v \<Longrightarrow> wrote i d d1"
  "MarkFailedRetryable pg i b l e d = Commit d1 v \<Longrightarrow> wrote i d d1"
  unfolding repo_updates by (erule update_row_wrote, simp add: im_key_def)+

lemma call_wrote:
  assumes "idem_call x k body d = (v, d')" "ix_env x = (\<lambda>_ d. d)" "\<And>d1 r. body d = Commit d1 r \<Longrightarrow> wrote i d d1"
  shows "wrote i d d'"
  using run_tx_invariant [of body d "wrote i d" "ix_flt x k" IDB] assms unfolding idem_call_def by (metis snd_conv wrote_refl)

lemma renew_wrote:
  assumes "\<forall>(env, now, flt) \<in> set ticks. env = (\<lambda>d. d)"
  shows "wrote i d (renew_ticks pg i fp lease ttl ticks d)"
  using assms
proof (induction pg i fp lease ttl ticks d rule: renew_ticks.induct)
  case (2 pg i fp lease ttl env now flt ticks d)
  let ?b = "ExtendProcessingLock pg i fp (Add now lease) (Add now ttl)"
  obtain v d1 where c: "run_tx flt IDB ?b (env d) = (v, d1)" by force
  have env: "env d = d" using 2(3) by simp
  have w: "wrote i d d1"
    using run_tx_invariant [of ?b d "wrote i d" flt IDB] repo_wrote(2) c env by (metis snd_conv wrote_refl)
  show ?case
  proof (cases "v = Inr False")
    case True
    then show ?thesis using c w by simp
  next
    case False
    have IH: "wrote i d1 (renew_ticks pg i fp lease ttl ticks d1)"
    proof (cases v)
      case (Inl e)
      then show ?thesis using "2.IH" [OF c [symmetric]] 2(3) by simp
    next
      case (Inr b)
      then show ?thesis using "2.IH" [OF c [symmetric]] False 2(3) by simp
    qed
    then show ?thesis using c w False wrote_trans by (cases v) (auto split: bool.splits)
  qed
qed simp

lemma finish_wrote:
  assumes "idem_finish L cfg x opts fp ttl ex i res d = (v, d')" "serial_run x"
  shows "wrote i d d'"
proof -
  let ?d = "if io_ExecutionTimeout opts > 0 then renew_ticks (il_pg L) i fp (renew_lease cfg) ttl (ix_ticks x) d else d"
  have w: "wrote i d ?d" using renew_wrote assms(2) by (auto simp: serial_run_def)
  have env: "ix_env x = (\<lambda>_ d. d)" using assms(2) by (simp add: serial_run_def)
  have "wrote i ?d d'"
  proof (cases res)
    case (Inl reason)
    then show ?thesis using assms(1) call_wrote [OF _ env repo_wrote(4)]
      by (auto simp: idem_finish_def Let_def split: prod.splits)
  next
    case (Inr data)
    then show ?thesis using assms(1) call_wrote [OF _ env repo_wrote(3)]
      by (auto simp: idem_finish_def Let_def split: prod.splits option.splits sum.splits)
  qed
  then show ?thesis using w wrote_trans by blast
qed

text \<open>What claiming a key does in a serial run: rows of other keys stay, and a claimed row belongs to the key.\<close>

definition claim_effect :: "string \<times> string \<Rightarrow> string \<Rightarrow> idem_db \<Rightarrow> (idem_err + 'a claim) \<Rightarrow> idem_db \<Rightarrow> bool" where
  "claim_effect k fp d res d' \<longleftrightarrow> only_key k d d' \<and>
     (\<forall>j. res = Inr (Claimed j) \<longrightarrow> (\<exists>r. map_of (idm_rows d') j = Some r \<and> im_key r = k \<and> im_Fingerprint r = fp))"

lemma claim_effectI:
  assumes "idem_inv d" "\<And>j. res \<noteq> Inr (Claimed j)"
  shows "claim_effect k fp d res d"
  using assms only_key_refl by (simp add: claim_effect_def)

lemma call_reclaim_effect:
  assumes "idem_call x n (TryReclaim pg i st now l e) d = (v, d')" "ix_env x = (\<lambda>_ d. d)" "idem_inv d"
    "map_of (idm_rows d) i = Some r" "im_key r = k" "im_Fingerprint r = fp" "\<And>j. res = Inr (Claimed j) \<Longrightarrow> v = Inr True \<and> j = i"
  shows "claim_effect k fp d res d'"
proof -
  have w: "wrote i d d'" by (rule call_wrote [OF assms(1,2) repo_wrote(1)])
  have "map_of (idm_rows d') i \<noteq> None" using w assms(4) unfolding wrote_def by auto
  then have "\<exists>r'. map_of (idm_rows d') i = Some r' \<and> im_key r' = k \<and> im_Fingerprint r' = fp"
    using wrote_origin [OF w, of i] assms(4,5,6) by fastforce
  then show ?thesis using wrote_only_key [OF w assms(3,4,5)] assms(7) unfolding claim_effect_def by blast
qed

lemma status_effect:
  assumes "idem_status L x l e i r d = (res, d')" "ix_env x = (\<lambda>_ d. d)" "idem_inv d"
    "map_of (idm_rows d) i = Some r" "im_key r = k" "im_Fingerprint r = fp"
  shows "claim_effect k fp d res d'"
proof (cases "im_Status r = IFailedRetryable \<and> \<not> (im_LockedUntil r \<noteq> None \<and> After (the (im_LockedUntil r)) (ix_now x))")
  case True
  obtain v d1 where c: "idem_call x 4 (TryReclaim (il_pg L) i IFailedRetryable (ix_now x) l e) d = (v, d1)" by force
  have "d' = d1" "\<And>j. res = Inr (Claimed j) \<Longrightarrow> v = Inr True \<and> j = i"
    using assms(1) True c by (auto simp: idem_status_def split: sum.splits if_splits)
  then show ?thesis using call_reclaim_effect [OF c assms(2-6)] by blast
next
  case False
  then have "d' = d" "\<And>j. res \<noteq> Inr (Claimed j)"
    using assms(1) by (auto simp: idem_status_def split: IdemStatus.splits option.splits if_splits)
  then show ?thesis using claim_effectI [OF assms(3)] by blast
qed

lemma read_effect:
  assumes "idem_call x n (GetByScopeAndKeyHash scope keyHash) d = (v, d')" "ix_env x = (\<lambda>_ d. d)" "idem_inv d"
  shows "d' = d \<and> (\<forall>i r. v = Inr (Some (i, r)) \<longrightarrow> map_of (idm_rows d) i = Some r \<and> im_key r = (scope, keyHash))"
  using idem_call_read [OF assms(1)] assms(2) find_key_iff [OF assms(3), of scope keyHash] by (metis Inl_Inr_False sum.inject(2))

lemma existing_effect:
  assumes e: "idem_existing L x scope keyHash fp l ex d = (res, d')" and env: "ix_env x = (\<lambda>_ d. d)" and inv: "idem_inv d"
  shows "claim_effect (scope, keyHash) fp d res d'"
proof -
  let ?k = "(scope, keyHash)"
  obtain v1 d1 where c1: "idem_call x 1 (GetByScopeAndKeyHash scope keyHash) d = (v1, d1)" by force
  note r1 = read_effect [OF c1 env inv]
  consider (no) "v1 = Inr None \<or> (\<exists>e. v1 = Inl e)" | (yes) i r where "v1 = Inr (Some (i, r))" by (cases v1) force+
  then show ?thesis
  proof cases
    case no
    then show ?thesis using e r1 inv by (auto simp: idem_existing_def c1 intro: claim_effectI simp del: One_nat_def)
  next
    case yes
    then have row: "map_of (idm_rows d) i = Some r" "im_key r = ?k" using r1 by auto
    consider (fp) "im_Fingerprint r \<noteq> fp" | (live) "im_Fingerprint r = fp" "After (im_ExpiresAt r) (ix_now x)"
      | (old) "im_Fingerprint r = fp" "\<not> After (im_ExpiresAt r) (ix_now x)" by blast
    then show ?thesis
    proof cases
      case fp
      then show ?thesis using e yes r1 inv by (auto simp: idem_existing_def c1 intro: claim_effectI simp del: One_nat_def)
    next
      case live
      then have "idem_status L x l ex i r d = (res, d')" using e yes r1 by (simp add: idem_existing_def c1 del: One_nat_def)
      then show ?thesis by (rule status_effect [OF _ env inv row live(1)])
    next
      case old
      obtain v2 d2 where c2: "idem_call x 2 (TryReclaim (il_pg L) i (im_Status r) (ix_now x) l ex) d = (v2, d2)" by force
      have k2: "only_key ?k d d2"
        using call_reclaim_effect [OF c2 env inv row old(1), of "Inl IDB"] unfolding claim_effect_def by simp
      have inv2: "idem_inv d2" using k2 by (simp add: only_key_def)
      show ?thesis
      proof (cases "v2 = Inr False")
        case False
        then have "d' = d2" "\<And>j. res = Inr (Claimed j) \<Longrightarrow> v2 = Inr True \<and> j = i"
          using e yes r1 old c2 by (auto simp: idem_existing_def c1 simp del: One_nat_def split: sum.splits bool.splits)
        then show ?thesis using call_reclaim_effect [OF c2 env inv row old(1)] by blast
      next
        case True
        obtain v3 d3 where c3: "idem_call x 3 (GetByScopeAndKeyHash scope keyHash) d2 = (v3, d3)" by force
        note r3 = read_effect [OF c3 env inv2]
        have e3: "(case (v3, d2) of (Inl _, db2) \<Rightarrow> (Inl IStoreUnavail, db2) | (Inr None, db2) \<Rightarrow> (Inl IStoreUnavail, db2)
            | (Inr (Some (j, latest)), db2) \<Rightarrow> if im_Fingerprint latest \<noteq> fp then (Inl IKeyConflict, db2)
               else idem_status L x l ex j latest db2) = (res, d')"
          using e yes r1 old True r3 by (simp add: idem_existing_def c1 c2 c3 del: One_nat_def)
        have "claim_effect ?k fp d2 res d'"
        proof (cases "\<exists>j q. v3 = Inr (Some (j, q)) \<and> im_Fingerprint q = fp")
          case True
          then obtain j q where q: "v3 = Inr (Some (j, q))" "im_Fingerprint q = fp" by blast
          then have "idem_status L x l ex j q d2 = (res, d')" "map_of (idm_rows d2) j = Some q" "im_key q = ?k" using e3 r3 by auto
          then show ?thesis by (rule status_effect [OF _ env inv2 _ _ q(2)])
        next
          case False
          then show ?thesis using e3 inv2 by (auto split: sum.splits option.splits if_splits intro: claim_effectI)
        qed
        then show ?thesis using only_key_trans [OF k2] unfolding claim_effect_def by blast
      qed
    qed
  qed
qed

lemma claim_effect_claim:
  assumes e: "idem_claim L x scope keyHash fp l ex d = (res, d')" and env: "ix_env x = (\<lambda>_ d. d)" and inv: "idem_inv d"
  shows "claim_effect (scope, keyHash) fp d res d'"
proof -
  let ?k = "(scope, keyHash)"
  let ?rec = "\<lparr>im_Scope = scope, im_KeyHash = keyHash, im_Fingerprint = fp, im_Status = IProcessing,
                im_ResponseStatus = None, im_ResponseBody = None, im_ErrorReason = None,
                im_LockedUntil = Some l, im_ExpiresAt = ex\<rparr>"
  obtain v d1 where c: "idem_call x 0 (CreateProcessing (il_pg L) ?rec) d = (v, d1)" by force
  have k1: "only_key ?k d d1"
  proof (rule idem_call_keeps [OF c])
    fix d0 d2 r
    assume o: "only_key ?k d d0" and cr: "CreateProcessing (il_pg L) ?rec d0 = Commit d2 r"
    have inv0: "idem_inv d0" using o by (simp add: only_key_def)
    have "idem_inv d2" "\<And>i. i \<le> idm_seq d0 \<Longrightarrow> map_of (idm_rows d2) i = map_of (idm_rows d0) i"
      using CreateProcessing_cases [OF cr inv0] by blast+
    moreover have "\<And>i r. map_of (idm_rows d0) i = Some r \<Longrightarrow> i \<le> idm_seq d0" using inv0 unfolding idem_inv_def by blast
    ultimately have "only_key ?k d0 d2" unfolding only_key_def by metis
    then show "only_key ?k d d2" using o only_key_trans by blast
  qed (use inv env in \<open>simp add: only_key_refl\<close>)
  then have inv1: "idem_inv d1" by (simp add: only_key_def)
  consider (new) i where "v = Inr (Some i)" | (old) "v = Inr None" | (err) e where "v = Inl e" by (cases v) force+
  then show ?thesis
  proof cases
    case new
    then have "CreateProcessing (il_pg L) ?rec d = Commit d1 (Inr (Some i))"
      using idem_call_ok [of x 0 "CreateProcessing (il_pg L) ?rec" d "Some i" d1] c env by (simp add: CreateProcessing_commits)
    then have "\<exists>r. map_of (idm_rows d1) i = Some r \<and> im_key r = ?k \<and> im_Fingerprint r = fp"
      using CreateProcessing_cases [of "il_pg L" ?rec d d1 "Inr (Some i)"] inv by (simp add: im_key_def) blast
    then show ?thesis using e new k1 by (auto simp: idem_claim_def c claim_effect_def simp del: map_of_eq_Some_iff)
  next
    case old
    then have "claim_effect ?k fp d1 res d'" using e existing_effect [OF _ env inv1] by (simp add: idem_claim_def c)
    then show ?thesis using k1 only_key_trans unfolding claim_effect_def by blast
  next
    case err
    then show ?thesis using e k1 by (auto simp: idem_claim_def c claim_effect_def simp del: map_of_eq_Some_iff)
  qed
qed

text \<open>Row \<open>i\<close> is the row of the key and stores a response until \<open>E\<close>.\<close>

definition stored :: "string \<times> string \<Rightarrow> string \<Rightarrow> string \<Rightarrow> gotime \<Rightarrow> int \<Rightarrow> idem_db \<Rightarrow> bool" where
  "stored k fp body E i d \<longleftrightarrow> idem_inv d \<and>
     (\<exists>r. map_of (idm_rows d) i = Some r \<and> im_key r = k \<and> im_Fingerprint r = fp \<and> im_Status r = ISucceeded \<and>
        im_ResponseBody r = Some body \<and> im_ExpiresAt r = E)"

lemma stored_other: "stored k fp body E i d \<Longrightarrow> only_key k' d d' \<Longrightarrow> k' \<noteq> k \<Longrightarrow> stored k fp body E i d'"
  unfolding stored_def only_key_def by blast

lemma stored_create:
  assumes "stored k fp body E i d0" "CreateProcessing pg rec d0 = Commit d1 v"
  shows "stored k fp body E i d1"
proof -
  have inv: "idem_inv d0" "i \<le> idm_seq d0" using assms(1) unfolding stored_def idem_inv_def by blast+
  have "map_of (idm_rows d1) i = map_of (idm_rows d0) i" "idem_inv d1"
    using CreateProcessing_cases [OF assms(2) inv(1)] inv(2) by blast+
  then show ?thesis using assms(1) unfolding stored_def by simp
qed

lemma claim_stored:
  assumes s: "stored (scope, keyHash) fp body E i d" and E: "ix_now x < E" and env: "ix_env x = (\<lambda>_ d. d)"
    and e: "idem_claim L x scope keyHash fp' l ex d = (res, d')"
  shows "stored (scope, keyHash) fp body E i d' \<and> (\<nexists>j. res = Inr (Claimed j)) \<and>
    (fp' = fp \<longrightarrow> res = Inl IStoreUnavail \<or> (\<exists>data. decodeStoredResponse L (Some body) = Some data \<and> res = Inr (Replay data))) \<and>
    (fp' = fp \<and> (\<forall>k. ix_flt x k = NoFault) \<longrightarrow>
       res = (case decodeStoredResponse L (Some body) of None \<Rightarrow> Inl IStoreUnavail | Some data \<Rightarrow> Inr (Replay data))) \<and>
    (fp' \<noteq> fp \<longrightarrow> res = Inl IStoreUnavail \<and> \<not> (\<forall>k. ix_flt x k = NoFault) \<or> res = Inl IKeyConflict)"
proof -
  let ?S = "stored (scope, keyHash) fp body E i"
  let ?rec = "\<lparr>im_Scope = scope, im_KeyHash = keyHash, im_Fingerprint = fp', im_Status = IProcessing,
                im_ResponseStatus = None, im_ResponseBody = None, im_ErrorReason = None,
                im_LockedUntil = Some l, im_ExpiresAt = ex\<rparr>"
  have find: "\<exists>r. find_key scope keyHash d0 = Some (i, r) \<and> im_Fingerprint r = fp \<and> im_Status r = ISucceeded \<and>
      im_ResponseBody r = Some body \<and> im_ExpiresAt r = E" if "?S d0" for d0
    using that find_key_iff unfolding stored_def by blast
  obtain v d1 where c: "idem_call x 0 (CreateProcessing (il_pg L) ?rec) d = (v, d1)" by force
  have s1: "?S d1" by (rule idem_call_keeps [where P = ?S, OF c]) (use s env stored_create in auto)
  have "v = Inr None \<or> (\<exists>e. v = Inl e) \<and> \<not> (\<forall>k. ix_flt x k = NoFault)"
    using c find [OF s] env
    by (auto simp: idem_call_def run_tx_def CreateProcessing_def Let_def intro: exI [of _ 0] split: db_fault.splits if_splits)
  moreover obtain v2 d2 where c2: "idem_call x 1 (GetByScopeAndKeyHash scope keyHash) d1 = (v2, d2)" by force
  moreover have d2: "d2 = d1" using idem_call_read [OF c2] env by simp
  moreover obtain r where r: "v2 = Inr (Some (i, r)) \<or> (\<exists>e. v2 = Inl e) \<and> \<not> (\<forall>k. ix_flt x k = NoFault)" "im_Fingerprint r = fp"
      "im_Status r = ISucceeded" "im_ResponseBody r = Some body" "im_ExpiresAt r = E"
  proof -
    have "ix_flt x 1 = StmtFault \<or> v2 = Inr (find_key scope keyHash d1)"
      using c2 env by (auto simp: idem_call_def run_tx_def GetByScopeAndKeyHash_def split: if_splits)
    moreover have "v2 = Inr (find_key scope keyHash d1) \<or> (\<exists>e. v2 = Inl e)" using idem_call_read [OF c2] d2 by simp
    ultimately show thesis using find [OF s1] that by (metis db_fault.distinct(1))
  qed
  ultimately show ?thesis using e s1 E
    by (elim disjE exE)
      (auto simp: idem_claim_def idem_existing_def idem_status_def After_def c simp del: One_nat_def
        split: option.splits if_splits)
qed

lemma Execute_cases:
  assumes "Execute L cfg repo x opts execute d = (res, did, d')" "NormalizeIdempotencyKey (io_Key opts) = Inr key" "key \<noteq> ''''"
  obtains (early) e where "res = Inl e" "\<not> did" "d' = d"
  | (claim) fp l ex v d1 where
      "BuildIdempotencyFingerprint L (io_Method opts) (io_Route opts) (io_ActorScope opts) (io_Payload opts) = Inr fp"
      "idem_claim L x (io_Scope opts) (HashIdempotencyKey L key) fp l ex d = (v, d1)"
      "(case v of Inl e \<Rightarrow> res = Inl e \<and> \<not> did \<and> d' = d1
        | Inr (Replay data) \<Rightarrow> res = Inr \<lparr>ier_Data = data, ier_Replayed = True\<rparr> \<and> \<not> did \<and> d' = d1
        | Inr (Claimed i) \<Rightarrow> i = 0 \<and> \<not> did \<and> d' = d1 \<and> res = Inl IStoreUnavail \<or>
            (\<exists>ttl w r. idem_finish L cfg x opts fp ttl ex i r d1 = (w, d') \<and> did))"
proof -
  note ex = assms(1) [unfolded Execute_def assms(2) sum.case]
  show thesis
  proof (cases execute)
    case None
    then show thesis using ex early by auto
  next
    case (Some r)
    show thesis
    proof (cases "\<not> repo \<or> io_Scope opts = ''''")
      case True
      then show thesis using ex Some assms(3) early by (auto split: if_splits)
    next
      case False
      show thesis
      proof (cases "BuildIdempotencyFingerprint L (io_Method opts) (io_Route opts) (io_ActorScope opts) (io_Payload opts)")
        case (Inl e)
        then show thesis using ex Some assms(3) False early by auto
      next
        case (Inr fp)
        let ?ttl = "if io_TTL opts \<le> 0 then ic_DefaultTTL cfg else io_TTL opts"
        let ?l = "Add (ix_now x) (ic_ProcessingTimeout cfg)" and ?e = "Add (ix_now x) ?ttl"
        obtain v d1 where c: "idem_claim L x (io_Scope opts) (HashIdempotencyKey L key) fp ?l ?e d = (v, d1)" by force
        then have "(case v of Inl e \<Rightarrow> res = Inl e \<and> \<not> did \<and> d' = d1
          | Inr (Replay data) \<Rightarrow> res = Inr \<lparr>ier_Data = data, ier_Replayed = True\<rparr> \<and> \<not> did \<and> d' = d1
          | Inr (Claimed i) \<Rightarrow> i = 0 \<and> \<not> did \<and> d' = d1 \<and> res = Inl IStoreUnavail \<or>
              (\<exists>ttl w r. idem_finish L cfg x opts fp ttl ?e i r d1 = (w, d') \<and> did))"
          using ex Some assms(3) False Inr
          by (auto simp: Let_def split: sum.splits claim.splits if_splits prod.splits)
        then show thesis using claim [OF Inr c] by simp
      qed
    qed
  qed
qed

inductive serial_step :: "'a idem_lib \<Rightarrow> gotime \<Rightarrow> idem_db \<Rightarrow> idem_db \<Rightarrow> bool" for L E where
  ser_execute: "Execute L cfg repo x opts execute d = (res, did, d') \<Longrightarrow> serial_run x \<Longrightarrow> ix_now x < E \<Longrightarrow> serial_step L E d d'"
| ser_delete: "DeleteExpired (il_pg L) order_by now limit d = Commit d' n \<Longrightarrow> il_pg L now < E \<Longrightarrow>
    (\<And>xs. set (order_by xs) = set xs) \<Longrightarrow> serial_step L E d d'"

lemma Execute_stored:
  assumes "Execute L cfg repo x opts execute d = (res, did, d')" "serial_run x" "ix_now x < E" "stored k fp body E i d"
  shows "stored k fp body E i d'"
proof (cases "NormalizeIdempotencyKey (io_Key opts)")
  case (Inl e)
  then show ?thesis using assms by (auto simp: Execute_def split: option.splits)
next
  case (Inr key)
  have env: "ix_env x = (\<lambda>_ d. d)" using assms(2) by (simp add: serial_run_def)
  show ?thesis
  proof (cases "key = ''''")
    case True
    then show ?thesis using assms(1,4) Inr by (auto simp: Execute_def split: option.splits if_splits sum.splits)
  next
    case False
    from assms(1) Inr False show ?thesis
    proof (cases rule: Execute_cases)
      case early
      then show ?thesis using assms(4) by simp
    next
      case (claim fp' l ex v d1)
      let ?k = "(io_Scope opts, HashIdempotencyKey L key)"
      show ?thesis
      proof (cases "?k = k")
        case True
        have "stored ?k fp body E i d1 \<and> (\<nexists>j. v = Inr (Claimed j))"
          using claim_stored [OF _ assms(3) env claim(2)] assms(4) True by blast
        then show ?thesis using claim(3) True by (auto split: sum.splits claim.splits)
      next
        case False
        have inv: "idem_inv d" using assms(4) by (simp add: stored_def)
        note eff = claim_effect_claim [OF claim(2) env inv]
        have s1: "stored k fp body E i d1" using eff False assms(4) stored_other unfolding claim_effect_def by blast
        show ?thesis
        proof (cases "\<exists>j. v = Inr (Claimed j) \<and> d' \<noteq> d1")
          case False
          then show ?thesis using claim(3) s1 by (auto split: sum.splits claim.splits)
        next
          case True
          then obtain j where j: "v = Inr (Claimed j)" "d' \<noteq> d1" by blast
          then obtain ttl w r where "idem_finish L cfg x opts fp' ttl ex j r d1 = (w, d')" using claim(3) by auto
          then have w: "wrote j d1 d'" by (rule finish_wrote [OF _ assms(2)])
          obtain q where "map_of (idm_rows d1) j = Some q" "im_key q = ?k" using eff j unfolding claim_effect_def by blast
          then have "only_key ?k d1 d'" using wrote_only_key [OF w] s1 by (simp add: stored_def)
          then show ?thesis using stored_other s1 \<open>?k \<noteq> k\<close> by blast
        qed
      qed
    qed
  qed
qed

lemma DeleteExpired_stored:
  assumes "DeleteExpired pg order_by now limit d = Commit d' n" "pg now < E" "\<And>xs. set (order_by xs) = set xs"
    "stored k fp body E i d"
  shows "stored k fp body E i d'"
proof -
  obtain V where V: "idm_rows d' = filter (\<lambda>(j, r). j \<notin> V) (idm_rows d)" "idm_seq d' = idm_seq d"
      "\<And>j. j \<in> V \<Longrightarrow> \<exists>r. (j, r) \<in> set (idm_rows d) \<and> im_ExpiresAt r \<le> pg now"
  proof
    let ?v = "set (map fst (take (nat (if limit \<le> 0 then 500 else limit))
      (order_by [(i, im_ExpiresAt r). (i, r) \<leftarrow> idm_rows d, im_ExpiresAt r \<le> pg now])))"
    show "idm_rows d' = filter (\<lambda>(j, r). j \<notin> ?v) (idm_rows d)" "idm_seq d' = idm_seq d"
      using assms(1) by (auto simp: DeleteExpired_def Let_def)
    show "\<exists>r. (j, r) \<in> set (idm_rows d) \<and> im_ExpiresAt r \<le> pg now" if "j \<in> ?v" for j
    proof -
      obtain t where "(j, t) \<in> set (order_by [(i, im_ExpiresAt r). (i, r) \<leftarrow> idm_rows d, im_ExpiresAt r \<le> pg now])"
        using \<open>j \<in> ?v\<close> in_set_takeD by fastforce
      then show ?thesis unfolding assms(3) by (auto split: if_splits)
    qed
  qed
  obtain r where inv: "idem_inv d" and r: "map_of (idm_rows d) i = Some r" "im_ExpiresAt r = E" using assms(4) unfolding stored_def by blast
  have dist: "distinct (map fst (idm_rows d))" using inv by (simp add: idem_inv_def)
  have dist': "distinct (map fst (idm_rows d'))" unfolding V(1) using dist by (rule distinct_map_filter)
  have sub: "map_of (idm_rows d) j = Some q" if "map_of (idm_rows d') j = Some q" for j q
    using that dist dist' by (simp add: V(1))
  have "idem_inv d'" unfolding idem_inv_def using inv dist' sub V(2) unfolding idem_inv_def by (metis (no_types, lifting))
  moreover have "i \<notin> V" using V(3) r assms(2) dist by fastforce
  then have "map_of (idm_rows d') i = Some r" using r dist dist' by (simp add: V(1))
  ultimately show ?thesis using assms(4) r unfolding stored_def by (metis option.inject)
qed

lemma serial_stored: "(serial_step L E)\<^sup>*\<^sup>* d d' \<Longrightarrow> stored k fp body E i d \<Longrightarrow> stored k fp body E i d'"
proof (induction rule: rtranclp_induct)
  case (step y z)
  from step(2) show ?case
  proof cases
    case ser_execute
    then show ?thesis using Execute_stored step by blast
  next
    case ser_delete
    then show ?thesis using DeleteExpired_stored step by metis
  qed
qed simp

text \<open>The time until which a run stores its response.\<close>

definition idem_expiry :: "IdempotencyConfig \<Rightarrow> idem_run \<Rightarrow> 'a IdempotencyExecuteOptions \<Rightarrow> gotime" where
  "idem_expiry cfg x opts = Add (if io_ExecutionTimeout opts > 0 then ix_end x else ix_now x)
     (if io_TTL opts \<le> 0 then ic_DefaultTTL cfg else io_TTL opts)"

lemma finish_stored:
  assumes "idem_finish L cfg x opts fp ttl ex i (Inr data) d = (Inr data', d')" "serial_run x" "idem_inv d"
    "map_of (idm_rows d) i = Some r" "im_key r = k" "im_Fingerprint r = fp"
    "E = il_pg L (if io_ExecutionTimeout opts > 0 then Add (ix_end x) ttl else ex)"
  shows "\<exists>body. marshalStoredResponse L cfg data = Some body \<and> stored k fp body E i d'"
proof -
  let ?d = "if io_ExecutionTimeout opts > 0 then renew_ticks (il_pg L) i fp (renew_lease cfg) ttl (ix_ticks x) d else d"
  let ?ex = "if io_ExecutionTimeout opts > 0 then Add (ix_end x) ttl else ex"
  have w: "wrote i d ?d" using renew_wrote assms(2) by (auto simp: serial_run_def)
  have env: "ix_env x = (\<lambda>_ d. d)" using assms(2) by (simp add: serial_run_def)
  obtain body v where body: "marshalStoredResponse L cfg data = Some body"
    and c: "idem_call x 5 (MarkSucceeded (il_pg L) i 200 body ?ex) ?d = (Inr v, d')"
    using assms(1) by (auto simp: idem_finish_def Let_def split: option.splits prod.splits sum.splits)
  have "MarkSucceeded (il_pg L) i 200 body ?ex ?d \<noteq> Rollback z" for z
    by (simp add: MarkSucceeded_def update_row_def split: option.split)
  then have m: "MarkSucceeded (il_pg L) i 200 body ?ex ?d = Commit d' (Inr v)" using idem_call_ok [OF c] env by simp
  have "map_of (idm_rows ?d) i \<noteq> None" using w assms(4) unfolding wrote_def by auto
  then obtain q where q: "map_of (idm_rows ?d) i = Some q" "im_key q = k" "im_Fingerprint q = fp"
    using wrote_origin [OF w, of i] assms(4-6) by fastforce
  have "d' = ?d\<lparr>idm_rows := tput i (q\<lparr>im_Status := ISucceeded, im_ResponseStatus := Some 200, im_ResponseBody := Some body,
      im_ErrorReason := None, im_LockedUntil := None, im_ExpiresAt := il_pg L ?ex\<rparr>) (idm_rows ?d)\<rparr>"
    using m q(1) unfolding MarkSucceeded_def update_row_def by (simp del: map_of_eq_Some_iff)
  moreover have "idem_inv d'" using wrote_inv [OF repo_wrote(3) [OF m]] wrote_inv [OF w assms(3)] by blast
  ultimately have "stored k fp body E i d'" using q assms(7) unfolding stored_def by (auto simp: table_simps im_key_def)
  then show ?thesis using body by blast
qed

lemma Execute_fresh:
  assumes "Execute L cfg repo x opts execute d = (Inr \<lparr>ier_Data = data, ier_Replayed = False\<rparr>, did, d')"
    "NormalizeIdempotencyKey (io_Key opts) = Inr key" "key \<noteq> ''''"
  obtains fp i d1 where
    "BuildIdempotencyFingerprint L (io_Method opts) (io_Route opts) (io_ActorScope opts) (io_Payload opts) = Inr fp"
    "idem_claim L x (io_Scope opts) (HashIdempotencyKey L key) fp (Add (ix_now x) (ic_ProcessingTimeout cfg))
       (Add (ix_now x) (if io_TTL opts \<le> 0 then ic_DefaultTTL cfg else io_TTL opts)) d = (Inr (Claimed i), d1)"
    "idem_finish L cfg x opts fp (if io_TTL opts \<le> 0 then ic_DefaultTTL cfg else io_TTL opts)
       (Add (ix_now x) (if io_TTL opts \<le> 0 then ic_DefaultTTL cfg else io_TTL opts)) i (Inr data) d1 = (Inr data, d')"
proof -
  have res: "r = Inr data" if "idem_finish L cfg x opts fp ttl ex i r d1 = (Inr data, d')" for fp ttl ex i r d1
    using that by (auto simp: idem_finish_def Let_def split: sum.splits option.splits prod.splits)
  show thesis using assms(1) assms(2,3) that res
    by (auto simp: Execute_def Let_def split: option.splits sum.splits if_splits prod.splits claim.splits)
qed

lemma Execute_success_stored:
  assumes "Execute L cfg repo x opts execute d = (Inr \<lparr>ier_Data = data, ier_Replayed = False\<rparr>, did, d')"
    "NormalizeIdempotencyKey (io_Key opts) = Inr key" "key \<noteq> ''''" "serial_run x" "idem_inv d"
  shows "\<exists>fp i body. BuildIdempotencyFingerprint L (io_Method opts) (io_Route opts) (io_ActorScope opts) (io_Payload opts) = Inr fp \<and>
    marshalStoredResponse L cfg data = Some body \<and>
    stored (io_Scope opts, HashIdempotencyKey L key) fp body (il_pg L (idem_expiry cfg x opts)) i d'"
proof -
  let ?ttl = "if io_TTL opts \<le> 0 then ic_DefaultTTL cfg else io_TTL opts"
  obtain fp i d1 where fp: "BuildIdempotencyFingerprint L (io_Method opts) (io_Route opts) (io_ActorScope opts) (io_Payload opts) = Inr fp"
    and c: "idem_claim L x (io_Scope opts) (HashIdempotencyKey L key) fp (Add (ix_now x) (ic_ProcessingTimeout cfg))
       (Add (ix_now x) ?ttl) d = (Inr (Claimed i), d1)"
    and f: "idem_finish L cfg x opts fp ?ttl (Add (ix_now x) ?ttl) i (Inr data) d1 = (Inr data, d')"
    using Execute_fresh [OF assms(1-3)] by metis
  have env: "ix_env x = (\<lambda>_ d. d)" using assms(4) by (simp add: serial_run_def)
  have eff: "claim_effect (io_Scope opts, HashIdempotencyKey L key) fp d (Inr (Claimed i) :: idem_err + 'a claim) d1"
    by (rule claim_effect_claim [OF c env assms(5)])
  then obtain r where "map_of (idm_rows d1) i = Some r" "im_key r = (io_Scope opts, HashIdempotencyKey L key)" "im_Fingerprint r = fp"
    unfolding claim_effect_def by blast
  moreover have "idem_inv d1" using eff by (simp add: claim_effect_def only_key_def)
  moreover have "il_pg L (idem_expiry cfg x opts) = il_pg L (if io_ExecutionTimeout opts > 0 then Add (ix_end x) ?ttl else Add (ix_now x) ?ttl)"
    by (simp add: idem_expiry_def)
  ultimately show ?thesis using finish_stored [OF f assms(4)] fp by metis
qed

section \<open>Properties\<close>

text \<open>C29: a held lease excludes every other run. If, whatever other processes do between its calls, the row of the key
  stays locked beyond the time the run reads, the run does not execute the operation, leaves the lock in place, and
  answers with an error or a stored response. Calls may fail in any way.\<close>

theorem idem_lease_excludes:
  assumes "Execute L cfg repo x opts execute db = (res, did, db')"
    "NormalizeIdempotencyKey (io_Key opts) = Inr key" "key \<noteq> ''''"
    "holder (io_Scope opts) (HashIdempotencyKey L key) i (il_pg L (ix_now x)) db"
    "\<And>k d. holder (io_Scope opts) (HashIdempotencyKey L key) i (il_pg L (ix_now x)) d \<Longrightarrow>
       holder (io_Scope opts) (HashIdempotencyKey L key) i (il_pg L (ix_now x)) (ix_env x k d)"
  shows "\<not> did \<and> holder (io_Scope opts) (HashIdempotencyKey L key) i (il_pg L (ix_now x)) db' \<and>
    (\<forall>v. res = Inr v \<longrightarrow> ier_Replayed v)"
  using assms(1-3)
proof (cases rule: Execute_cases)
  case early
  then show ?thesis using assms(4) by simp
next
  case (claim fp l ex v d1)
  note h = claim_locked [OF assms(4,5) claim(2)]
  then show ?thesis using claim(3) by (auto split: sum.splits claim.splits)
qed

text \<open>C28: a completed operation is replayed, not repeated. After a run returned a fresh result, and after any number of
  other runs and cleanups before the stored response expires, a further run with the same scope and key does not execute
  the operation. For the same request it returns what the stored response decodes to, or a storage error; without database
  faults the storage error comes only, and always, when the stored response does not decode. What is stored is the redacted JSON of
  the result when that fits the length limit; a longer one is cut and marked, and so need not decode. For a different request the
  run reports a conflict, or a storage error when the database fails. Runs are serial here: they do not overlap.\<close>

theorem idem_replay:
  assumes "Execute L cfg repo x opts execute d0 = (Inr \<lparr>ier_Data = data, ier_Replayed = False\<rparr>, did0, d1)"
    "idem_inv d0" "serial_run x" "NormalizeIdempotencyKey (io_Key opts) = Inr key" "key \<noteq> ''''"
    "(serial_step L (il_pg L (idem_expiry cfg x opts)))\<^sup>*\<^sup>* d1 d2"
    "Execute L cfg' True x' opts' (Some execute') d2 = (res, did, d3)" "serial_run x'"
    "NormalizeIdempotencyKey (io_Key opts') = Inr key" "io_Scope opts' = io_Scope opts"
    "ix_now x' < il_pg L (idem_expiry cfg x opts)"
    "BuildIdempotencyFingerprint L (io_Method opts) (io_Route opts) (io_ActorScope opts) (io_Payload opts) = Inr fp"
    "BuildIdempotencyFingerprint L (io_Method opts') (io_Route opts') (io_ActorScope opts') (io_Payload opts') = Inr fp'"
    "io_Scope opts \<noteq> ''''"
  shows "\<not> did \<and> (\<exists>body. marshalStoredResponse L cfg data = Some body \<and>
    (\<forall>raw. il_Marshal L data = Some raw \<longrightarrow>
       ic_MaxStoredResponseLen cfg \<le> 0 \<or> int (length (il_RedactText L raw)) \<le> ic_MaxStoredResponseLen cfg \<longrightarrow>
       body = il_RedactText L raw) \<and>
    (fp' = fp \<longrightarrow> res = Inl IStoreUnavail \<or>
       (\<exists>data'. decodeStoredResponse L (Some body) = Some data' \<and> res = Inr \<lparr>ier_Data = data', ier_Replayed = True\<rparr>)) \<and>
    (fp' = fp \<longrightarrow> (\<forall>k. ix_flt x' k = NoFault) \<longrightarrow>
       res = (case decodeStoredResponse L (Some body) of
                None \<Rightarrow> Inl IStoreUnavail | Some data' \<Rightarrow> Inr \<lparr>ier_Data = data', ier_Replayed = True\<rparr>)) \<and>
    (fp' \<noteq> fp \<longrightarrow> res = Inl IStoreUnavail \<and> \<not> (\<forall>k. ix_flt x' k = NoFault) \<or> res = Inl IKeyConflict))"
proof -
  let ?k = "(io_Scope opts, HashIdempotencyKey L key)" and ?E = "il_pg L (idem_expiry cfg x opts)"
  obtain i body where body: "marshalStoredResponse L cfg data = Some body" and s: "stored ?k fp body ?E i d1"
    using Execute_success_stored [OF assms(1,4,5,3,2)] assms(12) by auto
  have s2: "stored ?k fp body ?E i d2" by (rule serial_stored [OF assms(6) s])
  have env: "ix_env x' = (\<lambda>_ d. d)" using assms(8) by (simp add: serial_run_def)
  obtain v d where c: "idem_claim L x' (io_Scope opts) (HashIdempotencyKey L key) fp' (Add (ix_now x') (ic_ProcessingTimeout cfg'))
      (Add (ix_now x') (if io_TTL opts' \<le> 0 then ic_DefaultTTL cfg' else io_TTL opts')) d2 = (v, d)" by force
  note r = claim_stored [OF s2 assms(11) env c]
  have "\<not> did \<and> (case v of Inl e \<Rightarrow> res = Inl e | Inr (Replay a) \<Rightarrow> res = Inr \<lparr>ier_Data = a, ier_Replayed = True\<rparr> | Inr (Claimed _) \<Rightarrow> False)"
    using assms(7,9,10,13,14,5) r c by (auto simp: Execute_def Let_def split: sum.splits claim.splits)
  moreover have "body = il_RedactText L raw"
    if "il_Marshal L data = Some raw" "ic_MaxStoredResponseLen cfg \<le> 0 \<or> int (length (il_RedactText L raw)) \<le> ic_MaxStoredResponseLen cfg"
    for raw
    using body that by (auto simp: marshalStoredResponse_def Let_def split: if_splits)
  ultimately show ?thesis using r body by (auto split: sum.splits claim.splits option.splits)
qed

definition sample_lib :: "string idem_lib" where
  "sample_lib = \<lparr>il_pg = (\<lambda>t. t), il_sha256hex = (\<lambda>s. s), il_ToUpper = (\<lambda>s. s), il_Marshal = Some, il_Unmarshal = Some,
     il_RedactText = (\<lambda>s. s), il_emptyMap = ''{}''\<rparr>"

definition sample_idem_config :: IdempotencyConfig where
  "sample_idem_config = DefaultIdempotencyConfig\<lparr>ic_MaxStoredResponseLen := 0, ic_DefaultTTL := 100, ic_ProcessingTimeout := 30\<rparr>"

definition sample_opts :: "string IdempotencyExecuteOptions" where
  "sample_opts = \<lparr>io_Scope = ''s'', io_ActorScope = '''', io_Method = '''', io_Route = '''', io_Key = ''k'', io_Payload = ''p'',
     io_TTL = 0, io_RequireKey = True, io_ExecutionTimeout = 0\<rparr>"

definition sample_idem_run :: "gotime \<Rightarrow> idem_run" where
  "sample_idem_run t = \<lparr>ix_env = (\<lambda>_ d. d), ix_flt = (\<lambda>_. NoFault), ix_now = t, ix_end = t, ix_ticks = []\<rparr>"

definition sample_record :: IdempotencyRecord where
  "sample_record = \<lparr>im_Scope = ''s'', im_KeyHash = ''k'', im_Fingerprint = ''POST'' @ [CHR 10] @ ''/'' @ [CHR 10] @ ''anonymous'' @ [CHR 10] @ ''p'',
     im_Status = IProcessing, im_ResponseStatus = None, im_ResponseBody = None, im_ErrorReason = None,
     im_LockedUntil = Some 40, im_ExpiresAt = 110\<rparr>"

definition sample_held_db :: idem_db where
  "sample_held_db = \<lparr>idm_seq = 1, idm_rows = [(1, sample_record)]\<rparr>"

definition sample_done_db :: idem_db where
  "sample_done_db = \<lparr>idm_seq = 1, idm_rows = [(1, sample_record\<lparr>im_Status := ISucceeded, im_ResponseStatus := Some 200,
     im_ResponseBody := Some ''ok'', im_LockedUntil := None\<rparr>)]\<rparr>"

lemma sample_holder: "holder ''s'' ''k'' 1 20 sample_held_db"
  by (simp add: holder_def idem_inv_def sample_held_db_def im_key_def sample_record_def)

theorem idem_lease_excludes_witness:
  "Execute sample_lib sample_idem_config True (sample_idem_run 20) sample_opts (Some (Inr ''again'')) sample_held_db =
     (Inl (IInProgress (Some 1)), False, sample_held_db\<lparr>idm_seq := 2\<rparr>) \<and> holder ''s'' ''k'' 1 20 (sample_held_db\<lparr>idm_seq := 2\<rparr>)"
proof -
  have run: "Execute sample_lib sample_idem_config True (sample_idem_run 20) sample_opts (Some (Inr ''again'')) sample_held_db =
     (Inl (IInProgress (Some 1)), False, sample_held_db\<lparr>idm_seq := 2\<rparr>)" by code_simp
  have key: "NormalizeIdempotencyKey (io_Key sample_opts) = Inr ''k''" by code_simp
  have sc: "io_Scope sample_opts = ''s''" "HashIdempotencyKey sample_lib ''k'' = ''k''" "il_pg sample_lib (ix_now (sample_idem_run 20)) = 20"
      "ix_env (sample_idem_run 20) = (\<lambda>_ d. d)"
    by (simp_all add: sample_opts_def HashIdempotencyKey_def sample_lib_def sample_idem_run_def)
  show ?thesis using idem_lease_excludes [OF run key, of 1] sample_holder run unfolding sc by simp
qed

lemma sample_first_run:
  "Execute sample_lib sample_idem_config True (sample_idem_run 10) sample_opts (Some (Inr ''ok'')) empty_idem =
     (Inr \<lparr>ier_Data = ''ok'', ier_Replayed = False\<rparr>, True, sample_done_db)"
  by code_simp

theorem idem_replay_witness:
  "\<exists>res did d3. Execute sample_lib sample_idem_config True (sample_idem_run 50) sample_opts (Some (Inr ''again'')) sample_done_db = (res, did, d3) \<and>
     \<not> did \<and> res = Inr \<lparr>ier_Data = ''ok'', ier_Replayed = True\<rparr>"
proof -
  obtain res did d3 where run: "Execute sample_lib sample_idem_config True (sample_idem_run 50) sample_opts (Some (Inr ''again'')) sample_done_db = (res, did, d3)"
    by (metis prod_cases3)
  have key: "NormalizeIdempotencyKey (io_Key sample_opts) = Inr ''k''" by code_simp
  have fp: "BuildIdempotencyFingerprint sample_lib (io_Method sample_opts) (io_Route sample_opts) (io_ActorScope sample_opts) (io_Payload sample_opts) =
    Inr (im_Fingerprint sample_record)" by code_simp
  have ser: "serial_run (sample_idem_run t)" for t by (simp add: serial_run_def sample_idem_run_def)
  have E: "il_pg sample_lib (idem_expiry sample_idem_config (sample_idem_run 10) sample_opts) = 110" by code_simp
  have sc: "io_Scope sample_opts \<noteq> ''''" "ix_now (sample_idem_run 50) = 50" "\<forall>k. ix_flt (sample_idem_run 50) k = NoFault"
    by (simp_all add: sample_opts_def sample_idem_run_def)
  have inv: "idem_inv empty_idem" by (simp add: idem_inv_def empty_idem_def)
  have body: "marshalStoredResponse sample_lib sample_idem_config ''ok'' = Some ''ok''" "decodeStoredResponse sample_lib (Some ''ok'') = Some ''ok''"
    by code_simp+
  show ?thesis
    using idem_replay [OF sample_first_run inv ser key _ rtranclp.rtrancl_refl run ser key refl _ fp fp sc(1)] run E sc(2,3) body by auto
qed

text \<open>An expired record may be reclaimed although it has meanwhile been completed afresh: \<open>TryReclaim\<close> compares the
  status the run has read, and does not look at \<open>expires_at\<close>. Between the read and the reclaim of the run at time 200
  another run executes the operation and stores its response until 300; the first run then executes it once more.\<close>

definition sample_race :: idem_run where
  "sample_race = (sample_idem_run 200)\<lparr>ix_env := (\<lambda>k d. if k = 2
     then snd (snd (Execute sample_lib sample_idem_config True (sample_idem_run 200) sample_opts (Some (Inr ''first'')) d)) else d)\<rparr>"

text \<open>A run can repeat an operation another run has just completed: there is a run, interleaved with one other run of
  the same request, in which both execute the operation and both report a fresh result, although the response the other
  run stored is valid for another hundred nanoseconds when the first run takes the record over.\<close>

theorem idem_expired_race:
  "fst (Execute sample_lib sample_idem_config True (sample_idem_run 200) sample_opts (Some (Inr ''first'')) sample_done_db) =
     Inr \<lparr>ier_Data = ''first'', ier_Replayed = False\<rparr> \<and>
   im_ExpiresAt (snd (hd (idm_rows (ix_env sample_race 2 sample_done_db)))) = 300 \<and>
   im_Status (snd (hd (idm_rows (ix_env sample_race 2 sample_done_db)))) = ISucceeded \<and>
   fst (Execute sample_lib sample_idem_config True sample_race sample_opts (Some (Inr ''second'')) sample_done_db) =
     Inr \<lparr>ier_Data = ''second'', ier_Replayed = False\<rparr>"
  by code_simp

end
