(* ===== verification/SysLock.thy ===== *)
theory SysLock
  imports Idempotency
begin

text \<open>
  \<^verbatim>\<open>backend/internal/service/system_operation_lock_service.go\<close>: the global lock of system operations is one
  row of the idempotency table, held while its status is processing and its lock is in the future. The surroundings of an
  acquisition are an \<open>idem_run\<close>, as for the coordinator.
\<close>

definition systemOperationLockScope :: string where
  "systemOperationLockScope = ''admin.system.operations.global_lock''"

definition systemOperationLockKey :: string where
  "systemOperationLockKey = ''global-system-operation-lock''"

record SystemOperationLock =
  sl_recordID :: int
  sl_operationID :: string

record SystemOperationLockService =
  ss_lease :: duration
  ss_renewInterval :: duration
  ss_ttl :: duration

datatype syslock_err = SBusy "string option" "int option" | SStoreUnavail | SOperationRequired

definition NewSystemOperationLockService :: "IdempotencyConfig \<Rightarrow> SystemOperationLockService" where
  "NewSystemOperationLockService cfg =
     (let lease = if ic_ProcessingTimeout cfg \<le> 0 then 30 * Second else ic_ProcessingTimeout cfg;
          renewInterval = if go_div lease 3 < Second then Second else go_div lease 3;
          ttl = if ic_SystemOperationTTL cfg \<le> 0 then Hour else ic_SystemOperationTTL cfg
      in \<lparr>ss_lease = lease, ss_renewInterval = renewInterval, ss_ttl = ttl\<rparr>)"

definition busyError :: "string \<Rightarrow> gotime option \<Rightarrow> gotime \<Rightarrow> syslock_err" where
  "busyError operationID lockedUntil now =
     SBusy (if operationID \<noteq> '''' then Some operationID else None) (retry_after lockedUntil now)"

definition lock_hash :: "'a idem_lib \<Rightarrow> string" where
  "lock_hash L = HashIdempotencyKey L systemOperationLockKey"

text \<open>\<open>Acquire\<close>: insert the row, or take over the existing one.\<close>

definition lock_takeover ::
    "'a idem_lib \<Rightarrow> idem_run \<Rightarrow> string \<Rightarrow> gotime \<Rightarrow> gotime \<Rightarrow> idem_db \<Rightarrow> (syslock_err + int) \<times> idem_db" where
  "lock_takeover L x operationID lockedUntil expiresAt db0 =
     (case idem_call x 1 (GetByScopeAndKeyHash systemOperationLockScope (lock_hash L)) db0 of
        (Inl _, db) \<Rightarrow> (Inl SStoreUnavail, db)
      | (Inr None, db) \<Rightarrow> (Inl SStoreUnavail, db)
      | (Inr (Some (i, existing)), db) \<Rightarrow>
          if im_Status existing = IProcessing \<and> im_LockedUntil existing \<noteq> None \<and> After (the (im_LockedUntil existing)) (ix_now x)
          then (Inl (busyError (im_Fingerprint existing) (im_LockedUntil existing) (ix_now x)), db)
          else (case idem_call x 2 (TryReclaim (il_pg L) i (im_Status existing) (ix_now x) lockedUntil expiresAt) db of
                  (Inl _, db1) \<Rightarrow> (Inl SStoreUnavail, db1)
                | (Inr True, db1) \<Rightarrow> (Inr i, db1)
                | (Inr False, db1) \<Rightarrow>
                    (case idem_call x 3 (GetByScopeAndKeyHash systemOperationLockScope (lock_hash L)) db1 of
                       (Inr (Some (_, latest)), db2) \<Rightarrow> (Inl (busyError (im_Fingerprint latest) (im_LockedUntil latest) (ix_now x)), db2)
                     | (_, db2) \<Rightarrow> (Inl (SBusy None None), db2))))"

definition syslock_Acquire ::
    "'a idem_lib \<Rightarrow> bool \<Rightarrow> SystemOperationLockService \<Rightarrow> idem_run \<Rightarrow> string \<Rightarrow> idem_db \<Rightarrow>
     (syslock_err + SystemOperationLock) \<times> idem_db" where
  "syslock_Acquire L repo s x operationID db =
     (if \<not> repo then (Inl SStoreUnavail, db)
      else if operationID = '''' then (Inl SOperationRequired, db)
      else
        let expiresAt = Add (ix_now x) (ss_ttl s);
            lockedUntil = Add (ix_now x) (ss_lease s);
            rec = \<lparr>im_Scope = systemOperationLockScope, im_KeyHash = lock_hash L, im_Fingerprint = operationID,
                   im_Status = IProcessing, im_ResponseStatus = None, im_ResponseBody = None, im_ErrorReason = None,
                   im_LockedUntil = Some lockedUntil, im_ExpiresAt = expiresAt\<rparr>
        in case (case idem_call x 0 (CreateProcessing (il_pg L) rec) db of
                   (Inl _, db1) \<Rightarrow> (Inl SStoreUnavail, db1)
                 | (Inr (Some i), db1) \<Rightarrow> (Inr i, db1)
                 | (Inr None, db1) \<Rightarrow> lock_takeover L x operationID lockedUntil expiresAt db1) of
             (Inl e, db1) \<Rightarrow> (Inl e, db1)
           | (Inr i, db1) \<Rightarrow> if i = 0 then (Inl SStoreUnavail, db1)
                             else (Inr \<lparr>sl_recordID = i, sl_operationID = operationID\<rparr>, db1))"

text \<open>\<open>Release\<close>: the text of the stored response is \<open>fmt.Sprintf\<close>'s.\<close>

definition released_body :: "string \<Rightarrow> string" where
  "released_body operationID = [CHR 123, CHR 34] @ ''operation_id'' @ [CHR 34, CHR 58, CHR 34] @ operationID @
     [CHR 34, CHR 44, CHR 34] @ ''released'' @ [CHR 34, CHR 58] @ ''true'' @ [CHR 125]"

definition syslock_Release ::
    "'a idem_lib \<Rightarrow> SystemOperationLockService \<Rightarrow> SystemOperationLock \<Rightarrow> bool \<Rightarrow> string \<Rightarrow> gotime \<Rightarrow> idem_db \<Rightarrow>
     (idem_db, idem_err, bool) tx" where
  "syslock_Release L s lock succeeded failureReason now =
     (let expiresAt = Add now (ss_ttl s) in
      if succeeded then MarkSucceeded (il_pg L) (sl_recordID lock) 200 (released_body (sl_operationID lock)) expiresAt
      else MarkFailedRetryable (il_pg L) (sl_recordID lock)
             (if failureReason = '''' then ''SYSTEM_OPERATION_FAILED'' else failureReason) now expiresAt)"

text \<open>\<open>renewLoop\<close>: ticks until the extension reports that the lock is lost; a failing call is retried.\<close>

definition renewLoop ::
    "'a idem_lib \<Rightarrow> SystemOperationLockService \<Rightarrow> SystemOperationLock \<Rightarrow> ((idem_db \<Rightarrow> idem_db) \<times> gotime \<times> db_fault) list \<Rightarrow> idem_db \<Rightarrow> idem_db" where
  "renewLoop L s lock ticks db =
     renew_ticks (il_pg L) (sl_recordID lock) (sl_operationID lock) (ss_lease s) (ss_ttl s) ticks db"

section \<open>Lemmas\<close>

lemma takeover_locked:
  assumes h: "holder systemOperationLockScope (lock_hash L) i (il_pg L (ix_now x)) d"
    and env: "\<And>k d. holder systemOperationLockScope (lock_hash L) i (il_pg L (ix_now x)) d \<Longrightarrow>
      holder systemOperationLockScope (lock_hash L) i (il_pg L (ix_now x)) (ix_env x k d)"
    and e: "lock_takeover L x oid l ex d = (res, d')"
  shows "(\<nexists>j. res = Inr j) \<and> holder systemOperationLockScope (lock_hash L) i (il_pg L (ix_now x)) d'"
proof -
  let ?H = "holder systemOperationLockScope (lock_hash L) i (il_pg L (ix_now x))"
  obtain v1 d1 where c1: "idem_call x 1 (GetByScopeAndKeyHash systemOperationLockScope (lock_hash L)) d = (v1, d1)" by force
  have h1: "?H d1" using idem_call_read [OF c1] env [OF h] by simp
  obtain r1 where f1: "find_key systemOperationLockScope (lock_hash L) d1 = Some (i, r1)" using holder_find [OF h1] by metis
  have v1: "v1 = Inr (Some (i, r1)) \<or> (\<exists>e. v1 = Inl e)" using idem_call_read [OF c1] f1 by simp
  obtain v2 d2 where c2: "idem_call x 2 (TryReclaim (il_pg L) i (im_Status r1) (ix_now x) l ex) d1 = (v2, d2)" by force
  have h2: "?H d2" "v2 \<noteq> Inr True"
    using call_reclaim_locked [of systemOperationLockScope "lock_hash L" i "il_pg L" "ix_now x", OF env [OF h1] c2] by auto
  obtain v3 d3 where c3: "idem_call x 3 (GetByScopeAndKeyHash systemOperationLockScope (lock_hash L)) d2 = (v3, d3)" by force
  have h3: "?H d3" using idem_call_read [OF c3] env [OF h2(1)] by simp
  have v2: "v2 = Inr False \<or> (\<exists>e. v2 = Inl e)" using h2(2) by (cases v2) auto
  show ?thesis using v1 v2 e h1 h2(1) h3
    by (elim disjE exE) (auto simp: lock_takeover_def c1 c2 c3 simp del: One_nat_def split: sum.splits option.splits if_splits)
qed

section \<open>Properties\<close>

text \<open>C30: the global lock excludes. While the lock row stays locked beyond the time an acquisition reads, whatever other
  processes do and however the calls fail, the acquisition does not return a lock and leaves the row locked.\<close>

theorem syslock_excludes:
  assumes "syslock_Acquire L repo s x oid db = (res, db')"
    "holder systemOperationLockScope (lock_hash L) i (il_pg L (ix_now x)) db"
    "\<And>k d. holder systemOperationLockScope (lock_hash L) i (il_pg L (ix_now x)) d \<Longrightarrow>
       holder systemOperationLockScope (lock_hash L) i (il_pg L (ix_now x)) (ix_env x k d)"
  shows "(\<nexists>lock. res = Inr lock) \<and> holder systemOperationLockScope (lock_hash L) i (il_pg L (ix_now x)) db'"
proof (cases "\<not> repo \<or> oid = ''''")
  case True
  then show ?thesis using assms(1,2) by (auto simp: syslock_Acquire_def split: if_splits)
next
  case False
  let ?H = "holder systemOperationLockScope (lock_hash L) i (il_pg L (ix_now x))"
  let ?rec = "\<lparr>im_Scope = systemOperationLockScope, im_KeyHash = lock_hash L, im_Fingerprint = oid,
                   im_Status = IProcessing, im_ResponseStatus = None, im_ResponseBody = None, im_ErrorReason = None,
                   im_LockedUntil = Some (Add (ix_now x) (ss_lease s)), im_ExpiresAt = Add (ix_now x) (ss_ttl s)\<rparr>"
  obtain v d1 where c: "idem_call x 0 (CreateProcessing (il_pg L) ?rec) db = (v, d1)" by force
  have h1: "?H d1" by (rule idem_call_keeps [where P = ?H, OF c assms(3) [OF assms(2)]]) (rule holder_create)
  have v: "v = Inr None \<or> (\<exists>e. v = Inl e)"
  proof (cases v)
    case (Inr o1)
    obtain r where f: "find_key systemOperationLockScope (lock_hash L) (ix_env x 0 db) = Some (i, r)"
      using holder_find [OF assms(3) [OF assms(2)]] by metis
    have "CreateProcessing (il_pg L) ?rec (ix_env x 0 db) = Commit d1 (Inr o1)"
      using idem_call_ok [of x 0 "CreateProcessing (il_pg L) ?rec" db o1 d1] c Inr by (simp add: CreateProcessing_commits)
    then show ?thesis using Inr f by (auto simp: CreateProcessing_def Let_def)
  qed simp
  obtain t d2 where t: "lock_takeover L x oid (Add (ix_now x) (ss_lease s)) (Add (ix_now x) (ss_ttl s)) d1 = (t, d2)" by force
  have "?H d2 \<and> (\<exists>e. t = Inl e)" using takeover_locked [OF h1 assms(3) t] by (cases t) auto
  then show ?thesis using assms(1) False v h1
    by (elim disjE exE conjE) (auto simp: syslock_Acquire_def c t)
qed

definition sample_lock_row :: IdempotencyRecord where
  "sample_lock_row = \<lparr>im_Scope = systemOperationLockScope, im_KeyHash = systemOperationLockKey, im_Fingerprint = ''op-1'',
     im_Status = IProcessing, im_ResponseStatus = None, im_ResponseBody = None, im_ErrorReason = None,
     im_LockedUntil = Some 40, im_ExpiresAt = 110\<rparr>"

definition sample_lock_db :: idem_db where
  "sample_lock_db = \<lparr>idm_seq = 1, idm_rows = [(1, sample_lock_row)]\<rparr>"

definition sample_lock_service :: SystemOperationLockService where
  "sample_lock_service = \<lparr>ss_lease = 30, ss_renewInterval = 10, ss_ttl = 100\<rparr>"

theorem syslock_excludes_witness:
  "fst (syslock_Acquire sample_lib True sample_lock_service (sample_idem_run 20) ''op-2'' sample_lock_db) = Inl (SBusy (Some ''op-1'') (Some 1)) \<and>
   holder systemOperationLockScope (lock_hash sample_lib) 1 20
     (snd (syslock_Acquire sample_lib True sample_lock_service (sample_idem_run 20) ''op-2'' sample_lock_db))"
proof -
  obtain res db' where run: "syslock_Acquire sample_lib True sample_lock_service (sample_idem_run 20) ''op-2'' sample_lock_db = (res, db')" by force
  have h: "holder systemOperationLockScope (lock_hash sample_lib) 1 (il_pg sample_lib (ix_now (sample_idem_run 20))) sample_lock_db"
    by (simp add: holder_def idem_inv_def sample_lock_db_def im_key_def sample_lock_row_def lock_hash_def HashIdempotencyKey_def
        sample_lib_def sample_idem_run_def)
  have env: "ix_env (sample_idem_run 20) = (\<lambda>_ d. d)" "il_pg sample_lib (ix_now (sample_idem_run 20)) = 20"
    by (simp_all add: sample_idem_run_def sample_lib_def)
  have "fst (syslock_Acquire sample_lib True sample_lock_service (sample_idem_run 20) ''op-2'' sample_lock_db) = Inl (SBusy (Some ''op-1'') (Some 1))"
    by code_simp
  then show ?thesis using syslock_excludes [OF run h] run env by simp
qed

text \<open>a released lock can be taken at once. After a release that took effect, an acquisition that does not overlap
  with others and meets no fault returns the lock, on the same row: immediately after a successful operation, and from the
  recorded time of the failure on after a failed one.\<close>

theorem syslock_release_reacquire:
  assumes "idem_inv db" "map_of (idm_rows db) (sl_recordID lock) = Some row" "im_key row = (systemOperationLockScope, lock_hash L)"
    "syslock_Release L s lock ok reason t db = Commit db1 v"
    "serial_run x" "\<And>k. ix_flt x k = NoFault" "ok \<or> il_pg L t \<le> il_pg L (ix_now x)" "oid \<noteq> ''''"
  shows "\<exists>db2. syslock_Acquire L True s x oid db1 = (Inr \<lparr>sl_recordID = sl_recordID lock, sl_operationID = oid\<rparr>, db2) \<and>
    (\<exists>r. map_of (idm_rows db2) (sl_recordID lock) = Some r \<and> im_Status r = IProcessing \<and>
       im_LockedUntil r = Some (il_pg L (Add (ix_now x) (ss_lease s))))"
proof -
  let ?i = "sl_recordID lock"
  have env: "ix_env x = (\<lambda>_ d. d)" using assms(5) by (simp add: serial_run_def)
  obtain r1 where r1: "map_of (idm_rows db1) ?i = Some r1" "im_key r1 = (systemOperationLockScope, lock_hash L)"
      "im_Status r1 \<noteq> IProcessing" "lock_free (il_pg L (ix_now x)) r1"
    using assms(2,3,4,7)
    by (auto simp: syslock_Release_def repo_updates update_row_def lock_free_def table_simps im_key_def Let_def
        simp del: map_of_eq_Some_iff split: if_splits)
  have w: "wrote ?i db db1" using assms(4) repo_wrote(3,4) by (auto simp: syslock_Release_def Let_def split: if_splits)
  have inv: "idem_inv db1" by (rule wrote_inv [OF w assms(1)])
  have id0: "?i \<noteq> 0" using inv r1(1) unfolding idem_inv_def by fastforce
  let ?db = "db1\<lparr>idm_seq := idm_seq db1 + 1\<rparr>"
  have find: "find_key systemOperationLockScope (lock_hash L) db1 = Some (?i, r1)" using find_key_iff [OF inv] r1 by blast
  then have find': "find_key systemOperationLockScope (lock_hash L) ?db = Some (?i, r1)" by (simp add: find_key_def)
  let ?r2 = "r1\<lparr>im_Status := IProcessing, im_LockedUntil := Some (il_pg L (Add (ix_now x) (ss_lease s))), im_ErrorReason := None,
    im_ExpiresAt := il_pg L (Add (ix_now x) (ss_ttl s))\<rparr>"
  have tk: "lock_takeover L x oid (Add (ix_now x) (ss_lease s)) (Add (ix_now x) (ss_ttl s)) ?db =
      (Inr ?i, ?db\<lparr>idm_rows := tput ?i ?r2 (idm_rows db1)\<rparr>)"
    using r1 find' env assms(6)
    by (simp add: lock_takeover_def idem_call_def run_tx_def GetByScopeAndKeyHash_def TryReclaim_def update_row_def
        del: map_of_eq_Some_iff)
  then have "syslock_Acquire L True s x oid db1 =
      (Inr \<lparr>sl_recordID = ?i, sl_operationID = oid\<rparr>, ?db\<lparr>idm_rows := tput ?i ?r2 (idm_rows db1)\<rparr>)"
    using find env assms(6,8) id0
    by (simp add: syslock_Acquire_def idem_call_def run_tx_def CreateProcessing_def Let_def)
  then show ?thesis by (simp add: table_simps)
qed

theorem syslock_release_reacquire_witness:
  "\<exists>db1 v db2. syslock_Release sample_lib sample_lock_service \<lparr>sl_recordID = 1, sl_operationID = ''op-1''\<rparr> False '''' 20 sample_lock_db = Commit db1 v \<and>
     syslock_Acquire sample_lib True sample_lock_service (sample_idem_run 20) ''op-2'' db1 = (Inr \<lparr>sl_recordID = 1, sl_operationID = ''op-2''\<rparr>, db2)"
proof -
  let ?lock = "\<lparr>sl_recordID = 1, sl_operationID = ''op-1''\<rparr>"
  obtain db1 v where rel: "syslock_Release sample_lib sample_lock_service ?lock False '''' 20 sample_lock_db = Commit db1 v"
    by (simp add: syslock_Release_def MarkFailedRetryable_def update_row_def sample_lock_db_def Let_def)
  have inv: "idem_inv sample_lock_db" by (simp add: idem_inv_def sample_lock_db_def)
  have row: "map_of (idm_rows sample_lock_db) (sl_recordID ?lock) = Some sample_lock_row" by (simp add: sample_lock_db_def)
  have key: "im_key sample_lock_row = (systemOperationLockScope, lock_hash sample_lib)"
    by (simp add: im_key_def sample_lock_row_def lock_hash_def HashIdempotencyKey_def sample_lib_def)
  have run: "serial_run (sample_idem_run 20)" "\<And>k. ix_flt (sample_idem_run 20) k = NoFault" "ix_now (sample_idem_run 20) = 20"
    by (simp_all add: serial_run_def sample_idem_run_def)
  show ?thesis using syslock_release_reacquire [OF inv row key rel run(1,2), of "''op-2''"] rel run(3) by auto
qed

text \<open>A lock taken over from another operation is not renewed. When an acquisition that does not overlap with others
  takes over a row recorded for a different operation, the row keeps the old operation's identity, so the first renewal of
  the new holder matches no row, reports the lock lost and ends the renewal: the table stays as it is until the lock runs
  out.\<close>

theorem syslock_takeover_not_renewed:
  assumes "syslock_Acquire L True s x oid db = (Inr lock, db')" "serial_run x" "idem_inv db"
    "find_key systemOperationLockScope (lock_hash L) db = Some (i, r)" "im_Fingerprint r \<noteq> oid"
    "\<And>env now flt. (env, now, flt) \<in> set ticks \<Longrightarrow> env = (\<lambda>d. d) \<and> flt = NoFault"
  shows "sl_recordID lock = i \<and> sl_operationID lock = oid \<and> renewLoop L s lock ticks db' = db'"
proof -
  have env: "ix_env x = (\<lambda>_ d. d)" using assms(2) by (simp add: serial_run_def)
  let ?rec = "\<lparr>im_Scope = systemOperationLockScope, im_KeyHash = lock_hash L, im_Fingerprint = oid,
                   im_Status = IProcessing, im_ResponseStatus = None, im_ResponseBody = None, im_ErrorReason = None,
                   im_LockedUntil = Some (Add (ix_now x) (ss_lease s)), im_ExpiresAt = Add (ix_now x) (ss_ttl s)\<rparr>"
  obtain v d1 where c0: "idem_call x 0 (CreateProcessing (il_pg L) ?rec) db = (v, d1)" by force
  have d1: "v = Inr None \<and> idm_rows d1 = idm_rows db \<or> (\<exists>e. v = Inl e)"
    using c0 env assms(4)
    by (auto simp: idem_call_def run_tx_def CreateProcessing_def Let_def split: if_splits db_fault.splits)
  have acq: "v = Inr None" "lock_takeover L x oid (Add (ix_now x) (ss_lease s)) (Add (ix_now x) (ss_ttl s)) d1 = (Inr (sl_recordID lock), db')"
      "sl_operationID lock = oid" "oid \<noteq> ''''"
    using assms(1) d1 by (auto simp: syslock_Acquire_def Let_def c0 split: if_splits sum.splits prod.splits)
  have find: "find_key systemOperationLockScope (lock_hash L) d1 = Some (i, r)" using assms(4) d1 acq(1) by (auto simp: find_key_def)
  obtain v1 e1 where c1: "idem_call x 1 (GetByScopeAndKeyHash systemOperationLockScope (lock_hash L)) d1 = (v1, e1)" by force
  have e1: "e1 = d1" "v1 = Inr (Some (i, r)) \<or> (\<exists>e. v1 = Inl e)" using idem_call_read [OF c1] env find by auto
  obtain v2 d2 where c2: "idem_call x 2 (TryReclaim (il_pg L) i (im_Status r) (ix_now x) (Add (ix_now x) (ss_lease s)) (Add (ix_now x) (ss_ttl s))) d1 = (v2, d2)"
    by force
  have "v1 = Inr (Some (i, r)) \<and> v2 = Inr True \<and> sl_recordID lock = i \<and> d2 = db'"
    using acq(2) e1 by (auto simp: lock_takeover_def c1 c2 simp del: One_nat_def split: if_splits sum.splits bool.splits prod.splits option.splits)
  then have i: "sl_recordID lock = i" "d2 = db'" by auto
  have w: "wrote i d1 db'" using call_wrote [OF c2 env repo_wrote(1)] i by simp
  have "map_of (idm_rows d1) i = Some r" using find_key_iff [OF assms(3)] assms(4) d1 acq(1) by auto
  then have lost: "ExtendProcessingLock (il_pg L) i oid l e db' = Commit db' (Inr False)" for l e
    using wrote_origin [OF w, of i] assms(5)
    by (cases "map_of (idm_rows db') i") (auto simp: ExtendProcessingLock_def update_row_def simp del: map_of_eq_Some_iff)
  have "renew_ticks (il_pg L) i oid le tt ticks db' = db'" for le tt
  proof (cases ticks)
    case (Cons a list)
    obtain env now flt where a: "a = (env, now, flt)" by (cases a) auto
    then have "env = (\<lambda>d. d)" "flt = NoFault" using assms(6) [of env now flt] Cons by auto
    then show ?thesis by (simp add: Cons a lost run_tx_NoFault)
  qed simp
  then show ?thesis using i acq(3) by (simp add: renewLoop_def)
qed

theorem syslock_takeover_not_renewed_witness:
  "\<exists>db'. syslock_Acquire sample_lib True sample_lock_service (sample_idem_run 50) ''op-2'' sample_lock_db =
       (Inr \<lparr>sl_recordID = 1, sl_operationID = ''op-2''\<rparr>, db') \<and>
     renewLoop sample_lib sample_lock_service \<lparr>sl_recordID = 1, sl_operationID = ''op-2''\<rparr> [((\<lambda>d. d), 60, NoFault)] db' = db'"
proof -
  let ?lock = "\<lparr>sl_recordID = 1, sl_operationID = ''op-2''\<rparr>"
  obtain res db' where run: "syslock_Acquire sample_lib True sample_lock_service (sample_idem_run 50) ''op-2'' sample_lock_db = (res, db')" by force
  have "fst (syslock_Acquire sample_lib True sample_lock_service (sample_idem_run 50) ''op-2'' sample_lock_db) = Inr ?lock" by code_simp
  then have res: "res = Inr ?lock" using run by simp
  have inv: "idem_inv sample_lock_db" by (simp add: idem_inv_def sample_lock_db_def)
  have ser: "serial_run (sample_idem_run 50)" by (simp add: serial_run_def sample_idem_run_def)
  have find: "find_key systemOperationLockScope (lock_hash sample_lib) sample_lock_db = Some (1, sample_lock_row)"
    by (simp add: find_key_def sample_lock_db_def sample_lock_row_def lock_hash_def HashIdempotencyKey_def sample_lib_def)
  have fp: "im_Fingerprint sample_lock_row \<noteq> ''op-2''" by (simp add: sample_lock_row_def)
  show ?thesis
    using syslock_takeover_not_renewed [OF run [unfolded res] ser inv find fp, of "[((\<lambda>d. d), 60, NoFault)]"] run res by simp
qed

end
