(* ===== verification/Circuit.thy ===== *)
theory Circuit
  imports Prelude
begin

text \<open>
  \<^verbatim>\<open>backend/internal/service/openai_proxy_stream_circuit.go\<close>: the in-process circuit breaker keyed by proxy. A map entry
  counts the stream failures of a proxy within a window, collapsing a burst into one, and quarantines the proxy when the
  count reaches the threshold. The map is bounded. Go iterates a map in an unspecified order: \<open>order\<close> is that order. The mutex
  makes every operation one step.
\<close>

record circuit_settings =
  cs_disabled :: bool
  cs_failureThreshold :: int
  cs_failureWindow :: duration
  cs_quarantineTTL :: duration
  cs_collapseInterval :: duration
  cs_maxEntries :: int

record circuit_entry =
  ce_failureCount :: int
  ce_windowStart :: gotime
  ce_lastFailureAt :: gotime
  ce_blockedUntil :: gotime
  ce_lastTouched :: gotime

record circuit =
  ct_settings :: circuit_settings
  ct_entries :: "(int, circuit_entry) table"

definition default_settings :: circuit_settings where
  "default_settings = \<lparr>cs_disabled = False, cs_failureThreshold = 2, cs_failureWindow = Minute, cs_quarantineTTL = 10 * Minute,
     cs_collapseInterval = 3 * Second, cs_maxEntries = 4096\<rparr>"

text \<open>The configured values: disabled, failure threshold, window and TTL in seconds; \<open>None\<close> is a nil service.\<close>

definition resolve_settings :: "(bool \<times> int \<times> int \<times> int) option \<Rightarrow> circuit_settings" where
  "resolve_settings cfg =
     (case cfg of None \<Rightarrow> default_settings
      | Some (dis, threshold, windowSeconds, ttlSeconds) \<Rightarrow>
          default_settings\<lparr>cs_disabled := dis,
            cs_failureThreshold := (if threshold > 0 then threshold else cs_failureThreshold default_settings),
            cs_failureWindow := (if windowSeconds > 0 then wrap64 (windowSeconds * Second) else cs_failureWindow default_settings),
            cs_quarantineTTL := (if ttlSeconds > 0 then wrap64 (ttlSeconds * Second) else cs_quarantineTTL default_settings)\<rparr>)"

definition newCircuit :: "circuit_settings \<Rightarrow> circuit" where
  "newCircuit s =
     \<lparr>ct_settings = s\<lparr>
        cs_failureThreshold := (if cs_failureThreshold s \<le> 0 then cs_failureThreshold default_settings else cs_failureThreshold s),
        cs_failureWindow := (if cs_failureWindow s \<le> 0 then cs_failureWindow default_settings else cs_failureWindow s),
        cs_quarantineTTL := (if cs_quarantineTTL s \<le> 0 then cs_quarantineTTL default_settings else cs_quarantineTTL s),
        cs_maxEntries := (if cs_maxEntries s \<le> 0 then cs_maxEntries default_settings else cs_maxEntries s),
        cs_collapseInterval := (if cs_collapseInterval s < 0 then 0 else cs_collapseInterval s)\<rparr>,
      ct_entries = []\<rparr>"

definition zero_entry :: circuit_entry where
  "zero_entry = \<lparr>ce_failureCount = 0, ce_windowStart = 0, ce_lastFailureAt = 0, ce_blockedUntil = 0, ce_lastTouched = 0\<rparr>"

definition tdel :: "'k \<Rightarrow> ('k, 'v) table \<Rightarrow> ('k, 'v) table" where
  "tdel k t = filter (\<lambda>(k', _). k' \<noteq> k) t"

text \<open>The loop that looks for the entry touched longest ago.\<close>

fun oldest :: "int \<times> gotime \<Rightarrow> (int, circuit_entry) table \<Rightarrow> int \<times> gotime" where
  "oldest (pid, t) [] = (pid, t)"
| "oldest (pid, t) ((k, e) # es) =
     (if pid = 0 \<or> Before (ce_lastTouched e) t then oldest (k, ce_lastTouched e) es else oldest (pid, t) es)"

definition stale :: "circuit_settings \<Rightarrow> gotime \<Rightarrow> circuit_entry \<Rightarrow> bool" where
  "stale s now e \<longleftrightarrow>
     IsZero (ce_blockedUntil e) \<and> Sub now (ce_lastTouched e) > cs_failureWindow s \<or>
     \<not> IsZero (ce_blockedUntil e) \<and> \<not> Before now (ce_blockedUntil e)"

definition ensureCapacity ::
    "((int, circuit_entry) table \<Rightarrow> (int, circuit_entry) table) \<Rightarrow> gotime \<Rightarrow> circuit \<Rightarrow> circuit" where
  "ensureCapacity order now c =
     (let s = ct_settings c in
      if int (length (ct_entries c)) < cs_maxEntries s then c
      else
        let es = filter (\<lambda>(_, e). \<not> stale s now e) (ct_entries c) in
        if int (length es) < cs_maxEntries s then c\<lparr>ct_entries := es\<rparr>
        else let pid = fst (oldest (0, 0) (order es)) in
             c\<lparr>ct_entries := (if pid > 0 then tdel pid es else es)\<rparr>)"

text \<open>\<open>recordFailure\<close> once the entry is not quarantined: reset the window, collapse, count, trip.\<close>

definition reset_window :: "circuit_settings \<Rightarrow> gotime \<Rightarrow> circuit_entry \<Rightarrow> circuit_entry" where
  "reset_window s now e =
     (if IsZero (ce_windowStart e) \<or> Before now (ce_windowStart e) \<or> Sub now (ce_windowStart e) > cs_failureWindow s
      then e\<lparr>ce_failureCount := 0, ce_windowStart := now, ce_blockedUntil := 0\<rparr> else e)"

definition collapses :: "circuit_settings \<Rightarrow> gotime \<Rightarrow> circuit_entry \<Rightarrow> bool" where
  "collapses s now e \<longleftrightarrow> cs_collapseInterval s > 0 \<and> \<not> IsZero (ce_lastFailureAt e) \<and>
     Sub now (ce_lastFailureAt e) \<ge> 0 \<and> Sub now (ce_lastFailureAt e) < cs_collapseInterval s"

definition count_failure :: "circuit_settings \<Rightarrow> gotime \<Rightarrow> circuit_entry \<Rightarrow> bool \<times> circuit_entry" where
  "count_failure s now e0 =
     (let e = e0\<lparr>ce_failureCount := ce_failureCount e0 + 1, ce_lastFailureAt := now, ce_lastTouched := now\<rparr>;
          tripped = ce_failureCount e \<ge> cs_failureThreshold s
      in (tripped, if tripped then e\<lparr>ce_blockedUntil := Add now (cs_quarantineTTL s)\<rparr> else e))"

definition recordFailure ::
    "((int, circuit_entry) table \<Rightarrow> (int, circuit_entry) table) \<Rightarrow> int \<Rightarrow> gotime \<Rightarrow> circuit \<Rightarrow> (bool \<times> gotime) \<times> circuit" where
  "recordFailure order pid now c =
     (let s = ct_settings c in
      if cs_disabled s \<or> pid \<le> 0 then ((False, 0), c)
      else
        let found = map_of (ct_entries c) pid; entry = (case found of None \<Rightarrow> zero_entry | Some e \<Rightarrow> e) in
        if found \<noteq> None \<and> Before now (ce_blockedUntil entry)
        then ((False, ce_blockedUntil entry), c\<lparr>ct_entries := tput pid (entry\<lparr>ce_lastTouched := now\<rparr>) (ct_entries c)\<rparr>)
        else
          let c1 = (if found = None then ensureCapacity order now c else c);
              e1 = reset_window s now entry
          in if collapses s now e1
             then ((False, 0), c1\<lparr>ct_entries := tput pid (e1\<lparr>ce_lastTouched := now\<rparr>) (ct_entries c1)\<rparr>)
             else let (tripped, e2) = count_failure s now e1
                  in ((tripped, ce_blockedUntil e2), c1\<lparr>ct_entries := tput pid e2 (ct_entries c1)\<rparr>))"

definition recordSuccess :: "int \<Rightarrow> circuit \<Rightarrow> bool \<times> circuit" where
  "recordSuccess pid c =
     (if pid \<le> 0 then (False, c)
      else case map_of (ct_entries c) pid of None \<Rightarrow> (False, c)
           | Some _ \<Rightarrow> (True, c\<lparr>ct_entries := tdel pid (ct_entries c)\<rparr>))"

definition isBlocked :: "int \<Rightarrow> gotime \<Rightarrow> circuit \<Rightarrow> bool \<times> circuit" where
  "isBlocked pid now c =
     (if cs_disabled (ct_settings c) \<or> pid \<le> 0 then (False, c)
      else case map_of (ct_entries c) pid of None \<Rightarrow> (False, c)
           | Some e \<Rightarrow>
               if IsZero (ce_blockedUntil e) then (False, c)
               else if \<not> Before now (ce_blockedUntil e) then (False, c\<lparr>ct_entries := tdel pid (ct_entries c)\<rparr>)
               else (True, c))"

definition activeBlockCount :: "gotime \<Rightarrow> circuit \<Rightarrow> int" where
  "activeBlockCount now c =
     (if cs_disabled (ct_settings c) then 0
      else int (length (filter (\<lambda>(_, e). \<not> IsZero (ce_blockedUntil e) \<and> Before now (ce_blockedUntil e)) (ct_entries c))))"

section \<open>Lemmas on tables\<close>

lemma map_of_tdel [table_simps]: "map_of (tdel k t) k' = (if k' = k then None else map_of t k')"
proof (induction t)
  case (Cons x t)
  then show ?case by (cases x) (auto simp: tdel_def)
qed (simp add: tdel_def)

lemma keys_tdel: "fst ` set (tdel k t) = fst ` set t - {k}"
  by (force simp: tdel_def)

lemma distinct_keys_tdel: "distinct (map fst t) \<Longrightarrow> distinct (map fst (tdel k t))"
  unfolding tdel_def by (rule distinct_map_filter)

lemma length_table: "distinct (map fst t) \<Longrightarrow> length t = card (fst ` set t)"
  by (metis distinct_card length_map list.set_map)

lemma length_tput: "length (tput k v t) = (if k \<in> fst ` set t then length t else Suc (length t))"
  by (induction k v t rule: tput.induct) auto

lemma tdel_absent: "k \<notin> fst ` set t \<Longrightarrow> tdel k t = t"
  unfolding tdel_def by (rule filter_True) force

lemma length_tdel: "distinct (map fst t) \<Longrightarrow> k \<in> fst ` set t \<Longrightarrow> Suc (length (tdel k t)) = length t"
proof (induction t)
  case (Cons x t)
  show ?case
  proof (cases "fst x = k")
    case True
    then have "k \<notin> fst ` set t" using Cons.prems(1) by auto
    then show ?thesis using True tdel_absent [of k t] by (cases x) (simp add: tdel_def)
  next
    case False
    then have "k \<in> fst ` set t" using Cons.prems(2) by auto
    then show ?thesis using Cons False by (cases x) (simp add: tdel_def)
  qed
qed simp

section \<open>Reachable circuits\<close>

text \<open>
  A circuit with the history of the reported failures (proxy, time) in the order in which they got the mutex. The time of a failure
  is read before, so it may be earlier than that of its predecessor.
\<close>

inductive circuit_reach :: "circuit_settings \<Rightarrow> circuit \<Rightarrow> (int \<times> gotime) list \<Rightarrow> bool" for s where
  cr_init: "circuit_reach s (newCircuit s) []"
| cr_failure: "circuit_reach s c H \<Longrightarrow> 0 < now \<Longrightarrow> (\<And>xs. set (order xs) = set xs) \<Longrightarrow> recordFailure order pid now c = (r, c') \<Longrightarrow> circuit_reach s c' (H @ [(pid, now)])"
| cr_success: "circuit_reach s c H \<Longrightarrow> recordSuccess pid c = (r, c') \<Longrightarrow> circuit_reach s c' H"
| cr_blocked: "circuit_reach s c H \<Longrightarrow> isBlocked pid now c = (r, c') \<Longrightarrow> circuit_reach s c' H"

definition failures :: "int \<Rightarrow> (int \<times> gotime) list \<Rightarrow> gotime list" where
  "failures pid H = map snd (filter (\<lambda>(p, _). p = pid) H)"

text \<open>
  What an entry counts: a subsequence of the proxy's failures inside its window, each later than the one before it by the collapse
  interval, or earlier than it.
\<close>

definition spaced :: "circuit_settings \<Rightarrow> gotime \<Rightarrow> gotime \<Rightarrow> bool" where
  "spaced s a b \<longleftrightarrow> b < a \<or> a + cs_collapseInterval s \<le> b"

definition counted :: "circuit_settings \<Rightarrow> gotime list \<Rightarrow> circuit_entry \<Rightarrow> bool" where
  "counted s F e \<longleftrightarrow> (\<exists>ts. subseq ts F \<and> int (length ts) = ce_failureCount e \<and>
     successively (spaced s) ts \<and> (\<forall>t \<in> set ts. ce_windowStart e \<le> t) \<and>
     (ts \<noteq> [] \<longrightarrow> last ts = ce_lastFailureAt e))"

definition circuit_inv :: "circuit \<Rightarrow> (int \<times> gotime) list \<Rightarrow> bool" where
  "circuit_inv c H \<longleftrightarrow> (let s = ct_settings c in
     0 \<le> cs_collapseInterval s \<and> 0 < cs_failureWindow s \<and> 0 < cs_maxEntries s \<and>
     distinct (map fst (ct_entries c)) \<and> int (length (ct_entries c)) \<le> cs_maxEntries s \<and>
     (\<forall>pid e. (pid, e) \<in> set (ct_entries c) \<longrightarrow> 0 < pid \<and> counted s (failures pid H) e) \<and>
     (\<forall>p t. (p, t) \<in> set H \<longrightarrow> 0 < t))"

lemma counted_mono: "counted s F e \<Longrightarrow> subseq F F' \<Longrightarrow> counted s F' e"
  unfolding counted_def using subseq_order.trans by blast

lemma failures_append: "failures pid (H @ [(p, t)]) = failures pid H @ (if p = pid then [t] else [])"
  by (simp add: failures_def)

lemma subseq_snoc: "subseq xs (xs @ ys)"
  by (rule prefix_imp_subseq) simp

lemma ensureCapacity_spec:
  assumes "0 < cs_maxEntries (ct_settings c)" "distinct (map fst (ct_entries c))" "int (length (ct_entries c)) \<le> cs_maxEntries (ct_settings c)"
    "\<And>pid e. (pid, e) \<in> set (ct_entries c) \<Longrightarrow> 0 < pid" "\<And>xs. set (order xs) = set xs"
  shows "ct_settings (ensureCapacity order now c) = ct_settings c \<and> set (ct_entries (ensureCapacity order now c)) \<subseteq> set (ct_entries c) \<and>
    distinct (map fst (ct_entries (ensureCapacity order now c))) \<and>
    int (length (ct_entries (ensureCapacity order now c))) < cs_maxEntries (ct_settings c)"
proof -
  let ?s = "ct_settings c" and ?es = "filter (\<lambda>(_, e). \<not> stale (ct_settings c) now e) (ct_entries c)"
  have dist: "distinct (map fst ?es)" using assms(2) by (rule distinct_map_filter)
  have len: "length ?es \<le> length (ct_entries c)" by simp
  have mem: "fst (oldest (k, t) xs) \<in> insert k (fst ` set xs)" for k t xs
  proof (induction xs arbitrary: k t)
    case (Cons x xs)
    then show ?case using Cons.IH [of "fst x" "ce_lastTouched (snd x)"] Cons.IH [of k t] by (cases x) auto
  qed simp
  have nonzero: "fst (oldest (k, t) xs) \<noteq> 0 \<or> (k = 0 \<and> xs = [])" if "\<forall>x \<in> set xs. fst x \<noteq> 0" for k t xs
    using that
  proof (induction xs arbitrary: k t)
    case (Cons x xs)
    then show ?case using Cons.IH [of "fst x" "ce_lastTouched (snd x)"] Cons.IH [of k t] by (cases x) auto
  qed simp
  show ?thesis
  proof (cases "int (length (ct_entries c)) < cs_maxEntries ?s \<or> int (length ?es) < cs_maxEntries ?s")
    case True
    then show ?thesis using assms(2) dist by (auto simp: ensureCapacity_def Let_def)
  next
    case False
    then have full: "int (length ?es) = cs_maxEntries ?s" using assms(3) len by linarith
    let ?pid = "fst (oldest (0, 0) (order ?es))"
    have "?es \<noteq> []" using full assms(1) by auto
    then have ne: "order ?es \<noteq> []" using assms(5) [of ?es] by (metis set_empty)
    have pos: "\<forall>x \<in> set (order ?es). 0 < fst x" unfolding assms(5) using assms(4) by auto
    have "?pid \<noteq> 0" using nonzero [of "order ?es" 0 0] pos ne by force
    then have "?pid \<in> fst ` set (order ?es)" using mem [of 0 0 "order ?es"] by blast
    then have p: "?pid \<in> fst ` set ?es" "0 < ?pid" using pos unfolding assms(5) by auto
    have eq: "ensureCapacity order now c = c\<lparr>ct_entries := tdel ?pid ?es\<rparr>"
      using False p(2) by (auto simp: ensureCapacity_def Let_def)
    have "Suc (length (tdel ?pid ?es)) = length ?es" by (rule length_tdel [OF dist p(1)])
    moreover have "set (tdel ?pid ?es) \<subseteq> set (ct_entries c)" by (auto simp: tdel_def)
    moreover have "distinct (map fst (tdel ?pid ?es))" by (rule distinct_keys_tdel [OF dist])
    ultimately show ?thesis unfolding eq using full by simp
  qed
qed

text \<open>Counting one more failure of a proxy.\<close>

lemma reset_window_spec:
  assumes "counted s F e" "0 < cs_failureWindow s"
  shows "counted s F (reset_window s now e) \<and> ce_lastFailureAt (reset_window s now e) = ce_lastFailureAt e \<and>
    ce_windowStart (reset_window s now e) \<le> now \<and> Sub now (ce_windowStart (reset_window s now e)) \<le> cs_failureWindow s"
proof (cases "IsZero (ce_windowStart e) \<or> Before now (ce_windowStart e) \<or> Sub now (ce_windowStart e) > cs_failureWindow s")
  case True
  then have "reset_window s now e = e\<lparr>ce_failureCount := 0, ce_windowStart := now, ce_blockedUntil := 0\<rparr>" by (simp add: reset_window_def)
  then show ?thesis using assms(2) by (auto simp: counted_def Sub_def MinInt64_def MaxInt64_def intro: exI [of _ "[]"])
next
  case False
  then show ?thesis using assms(1) by (simp add: reset_window_def Before_def)
qed

lemma counted_snoc:
  assumes "counted s F e" "\<not> collapses s now e" "ce_windowStart e \<le> now" "0 \<le> cs_collapseInterval s"
    "\<And>t. t \<in> set F \<Longrightarrow> 0 < t"
    "ce_failureCount e' = ce_failureCount e + 1" "ce_lastFailureAt e' = now" "ce_windowStart e' = ce_windowStart e"
  shows "\<exists>ts. subseq ts (F @ [now]) \<and> int (length ts) = ce_failureCount e' \<and> successively (spaced s) ts \<and>
     (\<forall>t \<in> set ts. ce_windowStart e' \<le> t) \<and> ts \<noteq> [] \<and> last ts = now"
proof -
  obtain ts where ts: "subseq ts F" "int (length ts) = ce_failureCount e" "successively (spaced s) ts"
      "\<forall>t \<in> set ts. ce_windowStart e \<le> t" "ts \<noteq> [] \<longrightarrow> last ts = ce_lastFailureAt e"
    using assms(1) unfolding counted_def by blast
  have "spaced s (last ts) now" if ne: "ts \<noteq> []"
  proof -
    have "last ts \<in> set F" using ts(1) ne by (meson last_in_set subseq_order.trans subseq_singleton_left)
    then have "ce_lastFailureAt e > 0" using assms(5) ts(5) ne by simp
    then have "\<not> (cs_collapseInterval s > 0 \<and> Sub now (last ts) \<ge> 0 \<and> Sub now (last ts) < cs_collapseInterval s)"
      using assms(2) ts(5) ne by (auto simp: collapses_def IsZero_def)
    then show ?thesis using assms(4) by (auto simp: spaced_def Sub_def MaxInt64_def MinInt64_def)
  qed
  then have "successively (spaced s) (ts @ [now])" using ts(3) by (auto simp: successively_append_iff)
  moreover have "subseq (ts @ [now]) (F @ [now])" using ts(1) by (simp add: list_emb_append_mono)
  ultimately show ?thesis using ts(2,4) assms(3,6,8) by (intro exI [of _ "ts @ [now]"]) auto
qed

text \<open>When the times do not go back, all failures counted are apart by the collapse interval.\<close>

lemma spaced_sorted:
  assumes "successively (spaced s) ts" "sorted ts" "0 \<le> cs_collapseInterval s"
  shows "sorted_wrt (\<lambda>a b. a + cs_collapseInterval s \<le> b) ts"
proof -
  have "successively (\<lambda>a b. a + cs_collapseInterval s \<le> b) ts"
    using assms(1,2)
  proof (induction ts rule: induct_list012)
    case (3 a b ts)
    then have "a \<le> b" "spaced s a b" by auto
    then show ?case using 3 by (auto simp: spaced_def)
  qed simp_all
  moreover have "transp (\<lambda>a b. a + cs_collapseInterval s \<le> b)" using assms(3) by (auto intro!: transpI)
  ultimately show ?thesis by (simp add: successively_conv_sorted_wrt)
qed

lemma subseq_sorted: "sorted ys \<Longrightarrow> subseq xs ys \<Longrightarrow> sorted xs"
  by (auto simp: subseq_conv_nths sorted_nths)

lemma failures_sorted: "sorted (map snd H) \<Longrightarrow> sorted (failures pid H)"
  unfolding failures_def by (induction H) auto

definition entry_of :: "int \<Rightarrow> circuit \<Rightarrow> circuit_entry" where
  "entry_of pid c = (case map_of (ct_entries c) pid of None \<Rightarrow> zero_entry | Some e \<Rightarrow> e)"

definition room :: "((int, circuit_entry) table \<Rightarrow> (int, circuit_entry) table) \<Rightarrow> int \<Rightarrow> gotime \<Rightarrow> circuit \<Rightarrow> circuit" where
  "room order pid now c = (if map_of (ct_entries c) pid = None then ensureCapacity order now c else c)"

lemma recordFailure_cases:
  assumes "recordFailure order pid now c = (r, c')"
  obtains (off) "\<not> fst r" "c' = c"
  | (held) e where "0 < pid" "map_of (ct_entries c) pid = Some e" "\<not> fst r"
      "c' = c\<lparr>ct_entries := tput pid (e\<lparr>ce_lastTouched := now\<rparr>) (ct_entries c)\<rparr>"
  | (merged) e where "0 < pid" "e = reset_window (ct_settings c) now (entry_of pid c)" "\<not> fst r"
      "c' = (room order pid now c)\<lparr>ct_entries := tput pid (e\<lparr>ce_lastTouched := now\<rparr>) (ct_entries (room order pid now c))\<rparr>"
  | (counted) e e' where "0 < pid" "e = reset_window (ct_settings c) now (entry_of pid c)" "\<not> collapses (ct_settings c) now e"
      "count_failure (ct_settings c) now e = (fst r, e')" "snd r = ce_blockedUntil e'"
      "c' = (room order pid now c)\<lparr>ct_entries := tput pid e' (ct_entries (room order pid now c))\<rparr>"
proof -
  let ?s = "ct_settings c" and ?e = "reset_window (ct_settings c) now (entry_of pid c)"
  show thesis
  proof (cases "cs_disabled ?s \<or> pid \<le> 0")
    case True
    then show thesis using assms off by (auto simp: recordFailure_def Let_def)
  next
    case F1: False
    show thesis
    proof (cases "map_of (ct_entries c) pid \<noteq> None \<and> Before now (ce_blockedUntil (entry_of pid c))")
      case True
      then show thesis using assms F1 held by (auto simp: recordFailure_def Let_def entry_of_def)
    next
      case F2: False
      obtain t e' where cf: "count_failure ?s now ?e = (t, e')" by force
      have eq: "recordFailure order pid now c =
          (if collapses ?s now ?e
           then ((False, 0), (room order pid now c)\<lparr>ct_entries := tput pid (?e\<lparr>ce_lastTouched := now\<rparr>) (ct_entries (room order pid now c))\<rparr>)
           else ((t, ce_blockedUntil e'), (room order pid now c)\<lparr>ct_entries := tput pid e' (ct_entries (room order pid now c))\<rparr>))"
        using F1 F2 cf by (auto simp: recordFailure_def Let_def entry_of_def room_def)
      show thesis
      proof (cases "collapses ?s now ?e")
        case True
        then show thesis using assms F1 merged [OF _ refl] by (auto simp: eq)
      next
        case False
        then show thesis using assms F1 counted [OF _ refl _ _] cf by (auto simp: eq)
      qed
    qed
  qed
qed

lemma count_failure_spec:
  assumes "count_failure s now e = (t, e')"
  shows "ce_failureCount e' = ce_failureCount e + 1 \<and> ce_lastFailureAt e' = now \<and> ce_windowStart e' = ce_windowStart e \<and>
    t = (ce_failureCount e' \<ge> cs_failureThreshold s) \<and> (t \<longrightarrow> ce_blockedUntil e' = Add now (cs_quarantineTTL s))"
  using assms by (auto simp: count_failure_def Let_def)

lemma counted_zero: "counted s F zero_entry"
  by (auto simp: counted_def zero_entry_def intro: exI [of _ "[]"])

lemma circuit_inv_entry:
  assumes "circuit_inv c H"
  shows "counted (ct_settings c) (failures pid H) (entry_of pid c)"
  using assms counted_zero by (auto simp: circuit_inv_def Let_def entry_of_def split: option.split dest: map_of_SomeD)

lemma circuit_inv_put:
  assumes inv: "circuit_inv c H" and sub: "set (ct_entries c1) \<subseteq> set (ct_entries c)" "distinct (map fst (ct_entries c1))"
      "ct_settings c1 = ct_settings c" "int (length (tput pid e (ct_entries c1))) \<le> cs_maxEntries (ct_settings c)"
    and new: "0 < pid" "0 < now" "counted (ct_settings c) (failures pid (H @ [(pid, now)])) e"
  shows "circuit_inv (c1\<lparr>ct_entries := tput pid e (ct_entries c1)\<rparr>) (H @ [(pid, now)])"
proof -
  have mono: "counted (ct_settings c) (failures p (H @ [(pid, now)])) e0" if "(p, e0) \<in> set (ct_entries c)" for p e0
    using that inv counted_mono [OF _ subseq_snoc] unfolding circuit_inv_def Let_def failures_append by blast
  have "0 < p \<and> counted (ct_settings c) (failures p (H @ [(pid, now)])) e0" if "(p, e0) \<in> set (tput pid e (ct_entries c1))" for p e0
    using set_tput [OF that] new mono sub(1) inv unfolding circuit_inv_def Let_def by blast
  then show ?thesis using inv sub new(2) distinct_keys_tput [of "ct_entries c1" pid e] unfolding circuit_inv_def Let_def by auto
qed

lemma room_spec:
  assumes "circuit_inv c H" "\<And>xs. set (order xs) = set xs"
  shows "set (ct_entries (room order pid now c)) \<subseteq> set (ct_entries c) \<and> distinct (map fst (ct_entries (room order pid now c))) \<and>
    ct_settings (room order pid now c) = ct_settings c \<and>
    int (length (tput pid e (ct_entries (room order pid now c)))) \<le> cs_maxEntries (ct_settings c)"
proof (cases "map_of (ct_entries c) pid")
  case None
  have "ct_settings (ensureCapacity order now c) = ct_settings c \<and> set (ct_entries (ensureCapacity order now c)) \<subseteq> set (ct_entries c) \<and>
    distinct (map fst (ct_entries (ensureCapacity order now c))) \<and>
    int (length (ct_entries (ensureCapacity order now c))) < cs_maxEntries (ct_settings c)"
    by (rule ensureCapacity_spec) (use assms in \<open>auto simp: circuit_inv_def Let_def\<close>)
  then show ?thesis using None by (auto simp: room_def length_tput)
next
  case (Some e0)
  then have "pid \<in> fst ` set (ct_entries c)" by (force dest: map_of_SomeD)
  then show ?thesis using Some assms(1) by (auto simp: room_def length_tput circuit_inv_def Let_def)
qed

lemma circuit_inv_failure:
  assumes inv: "circuit_inv c H" and r: "recordFailure order pid now c = (r, c')" and now: "0 < now"
    and order: "\<And>xs. set (order xs) = set xs"
  shows "circuit_inv c' (H @ [(pid, now)])"
proof -
  let ?s = "ct_settings c"
  have s: "0 \<le> cs_collapseInterval ?s" "0 < cs_failureWindow ?s" using inv by (auto simp: circuit_inv_def Let_def)
  note rw = reset_window_spec [OF circuit_inv_entry [OF inv, of pid] s(2), of now]
  have F: "0 < t" if "t \<in> set (failures pid H)" for t
    using that inv unfolding failures_def circuit_inv_def Let_def by auto
  have touch: "counted ?s F e \<Longrightarrow> counted ?s F (e\<lparr>ce_lastTouched := now\<rparr>)" for F e by (simp add: counted_def)
  from r show ?thesis
  proof (cases rule: recordFailure_cases)
    case off
    then show ?thesis using inv now counted_mono [OF _ subseq_snoc] by (auto simp: circuit_inv_def Let_def failures_append)
  next
    case (held e)
    have "counted ?s (failures pid (H @ [(pid, now)])) (e\<lparr>ce_lastTouched := now\<rparr>)"
      using circuit_inv_entry [OF inv, of pid] held(2) counted_mono [OF _ subseq_snoc] touch by (simp add: entry_of_def failures_append)
    moreover have "pid \<in> fst ` set (ct_entries c)" using held(2) by (force dest: map_of_SomeD)
    ultimately show ?thesis unfolding held(4) using inv
      by (intro circuit_inv_put [OF inv _ _ _ _ held(1) now]) (auto simp: circuit_inv_def Let_def length_tput)
  next
    case (merged e)
    have "counted ?s (failures pid (H @ [(pid, now)])) (e\<lparr>ce_lastTouched := now\<rparr>)"
      using rw merged(2) counted_mono [OF _ subseq_snoc] touch by (simp add: failures_append)
    then show ?thesis unfolding merged(4) using room_spec [OF inv order, of pid now]
      by (intro circuit_inv_put [OF inv _ _ _ _ merged(1) now]) auto
  next
    case (counted e e')
    note cf = count_failure_spec [OF counted(4)]
    have "counted ?s (failures pid H) e" "ce_windowStart e \<le> now" using rw counted(2) by auto
    then obtain ts where "subseq ts (failures pid H @ [now]) \<and> int (length ts) = ce_failureCount e' \<and>
        successively (spaced ?s) ts \<and> (\<forall>t \<in> set ts. ce_windowStart e' \<le> t) \<and> ts \<noteq> [] \<and> last ts = now"
      using counted_snoc [of ?s "failures pid H" e now e'] counted(3) s(1) F cf by blast
    then have "counted ?s (failures pid (H @ [(pid, now)])) e'"
      using cf unfolding counted_def failures_append by auto
    then show ?thesis unfolding counted(6) using room_spec [OF inv order, of pid now]
      by (intro circuit_inv_put [OF inv _ _ _ _ counted(1) now]) auto
  qed
qed

lemma circuit_inv_sub:
  assumes inv: "circuit_inv c H" and s: "ct_settings c' = ct_settings c" and sub: "set (ct_entries c') \<subseteq> set (ct_entries c)"
    and d: "distinct (map fst (ct_entries c'))" and l: "length (ct_entries c') \<le> length (ct_entries c)"
  shows "circuit_inv c' H"
proof -
  have "int (length (ct_entries c')) \<le> cs_maxEntries (ct_settings c)" using inv l unfolding circuit_inv_def Let_def by linarith
  moreover have "0 < pid \<and> counted (ct_settings c) (failures pid H) e" if "(pid, e) \<in> set (ct_entries c')" for pid e
    using inv that sub unfolding circuit_inv_def Let_def by blast
  ultimately show ?thesis using inv d unfolding circuit_inv_def Let_def s by blast
qed

lemma circuit_inv_del: "circuit_inv c H \<Longrightarrow> circuit_inv (c\<lparr>ct_entries := tdel pid (ct_entries c)\<rparr>) H"
  by (rule circuit_inv_sub, assumption) (auto simp: tdel_def circuit_inv_def Let_def intro: distinct_map_filter)

lemma circuit_reach_inv: "circuit_reach s c H \<Longrightarrow> circuit_inv c H"
proof (induction rule: circuit_reach.induct)
  case cr_init
  show ?case by (simp add: circuit_inv_def newCircuit_def default_settings_def Minute_def Second_def)
next
  case (cr_failure c H now order pid r c')
  show ?case by (rule circuit_inv_failure [OF cr_failure(5,4,2,3)])
next
  case (cr_success c H pid r c')
  then have "c' = c \<or> c' = c\<lparr>ct_entries := tdel pid (ct_entries c)\<rparr>"
    by (auto simp: recordSuccess_def split: if_splits option.splits)
  then show ?case using cr_success(3) circuit_inv_del by blast
next
  case (cr_blocked c H pid now r c')
  then have "c' = c \<or> c' = c\<lparr>ct_entries := tdel pid (ct_entries c)\<rparr>"
    by (auto simp: isBlocked_def split: if_splits option.splits)
  then show ?case using cr_blocked(3) circuit_inv_del by blast
qed

section \<open>Properties\<close>

text \<open>C32: a proxy is quarantined only for cause. When a reported failure trips the circuit, the history holds at least
  threshold failures of this very proxy, the last of them the one reported, none of which is older than one failure window. If the
  times of the failures do not go back, they lie at least the collapse interval apart from each other, so one incident that kills
  many streams counts once; in any case each is at least the collapse interval later than the one counted before it, unless its
  time is earlier, as when two reports get the mutex in the opposite order. The quarantine ends one TTL from now.\<close>

theorem circuit_trip_sound:
  assumes "circuit_reach s c H" "0 < now" "\<And>xs. set (order xs) = set xs"
    "recordFailure order pid now c = ((True, until), c')"
  shows "\<exists>ts. subseq ts (failures pid (H @ [(pid, now)])) \<and> cs_failureThreshold (ct_settings c) \<le> int (length ts) \<and> last ts = now \<and>
    successively (\<lambda>a b. b < a \<or> a + cs_collapseInterval (ct_settings c) \<le> b) ts \<and>
    (sorted (map snd (H @ [(pid, now)])) \<longrightarrow> sorted_wrt (\<lambda>a b. a + cs_collapseInterval (ct_settings c) \<le> b) ts) \<and>
    (\<forall>t \<in> set ts. Sub now t \<le> cs_failureWindow (ct_settings c)) \<and> until = Add now (cs_quarantineTTL (ct_settings c))"
  using assms(4)
proof (cases rule: recordFailure_cases)
  case (counted e e')
  let ?s = "ct_settings c"
  have inv: "circuit_inv c H" by (rule circuit_reach_inv [OF assms(1)])
  then have s: "0 \<le> cs_collapseInterval ?s" "0 < cs_failureWindow ?s" by (auto simp: circuit_inv_def Let_def)
  note rw = reset_window_spec [OF circuit_inv_entry [OF inv, of pid] s(2), of now]
  have F: "0 < t" if "t \<in> set (failures pid H)" for t
    using that inv unfolding failures_def circuit_inv_def Let_def by auto
  note cf = count_failure_spec [OF counted(4)]
  have e: "counted ?s (failures pid H) e" "ce_windowStart e \<le> now" "Sub now (ce_windowStart e) \<le> cs_failureWindow ?s"
    using rw counted(2) by auto
  obtain ts where ts: "subseq ts (failures pid H @ [now])" "int (length ts) = ce_failureCount e'"
      "successively (spaced ?s) ts" "\<forall>t \<in> set ts. ce_windowStart e' \<le> t" "last ts = now"
    using counted_snoc [of ?s "failures pid H" e now e', OF e(1) counted(3) e(2) s(1) F] cf by blast
  have "Sub now t \<le> cs_failureWindow ?s" if "t \<in> set ts" for t
  proof -
    have "ce_windowStart e \<le> t" using ts(4) that cf by auto
    then have "Sub now t \<le> Sub now (ce_windowStart e)" by (auto simp: Sub_def)
    then show ?thesis using e(3) by linarith
  qed
  moreover have "sorted_wrt (\<lambda>a b. a + cs_collapseInterval ?s \<le> b) ts" if "sorted (map snd (H @ [(pid, now)]))"
  proof -
    have "sorted (failures pid H @ [now])" using failures_sorted [OF that, of pid] by (simp add: failures_append)
    then have "sorted ts" using subseq_sorted [OF _ ts(1)] by blast
    then show ?thesis by (rule spaced_sorted [OF ts(3) _ s(1)])
  qed
  ultimately show ?thesis using ts cf counted(5)
    by (intro exI [of _ ts]) (auto simp: failures_append spaced_def [abs_def])
qed auto

definition sample_circuit :: circuit where
  "sample_circuit = \<lparr>ct_settings = default_settings\<lparr>cs_failureWindow := 60, cs_quarantineTTL := 600, cs_collapseInterval := 3, cs_maxEntries := 2\<rparr>,
     ct_entries = [(7, \<lparr>ce_failureCount = 1, ce_windowStart = 100, ce_lastFailureAt = 100, ce_blockedUntil = 0, ce_lastTouched = 100\<rparr>)]\<rparr>"

lemma sample_circuit_reach: "circuit_reach (ct_settings sample_circuit) sample_circuit [(7, 100)]"
proof -
  have new: "recordFailure (\<lambda>xs. xs) 7 100 (newCircuit (ct_settings sample_circuit)) = ((False, 0), sample_circuit)"
    by code_simp
  show ?thesis using cr_failure [OF cr_init _ _ new] by simp
qed

theorem circuit_trip_sound_witness:
  "fst (recordFailure (\<lambda>xs. xs) 7 120 sample_circuit) = (True, 720) \<and>
   (\<exists>ts. subseq ts (failures 7 [(7, 100), (7, 120)]) \<and> 2 \<le> int (length ts) \<and> last ts = 120 \<and> sorted_wrt (\<lambda>a b. a + 3 \<le> b) ts)"
proof -
  obtain r c' where run: "recordFailure (\<lambda>xs. xs) 7 120 sample_circuit = (r, c')"
    by (cases "recordFailure (\<lambda>xs. xs) 7 120 sample_circuit")
  have r: "fst (recordFailure (\<lambda>xs. xs) 7 120 sample_circuit) = (True, 720)" by code_simp
  then have run': "recordFailure (\<lambda>xs. xs) 7 120 sample_circuit = ((True, 720), c')" using run by simp
  have th: "cs_failureThreshold (ct_settings sample_circuit) = 2" "cs_collapseInterval (ct_settings sample_circuit) = 3"
    by (simp_all add: sample_circuit_def default_settings_def)
  show ?thesis using circuit_trip_sound [OF sample_circuit_reach _ _ run'] r unfolding th by auto
qed

text \<open>the circuit is bounded. After any operations, with any times and any iteration order of the map, it holds at most
  the configured number of entries, one per proxy; the number of active quarantines never exceeds it either.\<close>

theorem circuit_bounded:
  assumes "circuit_reach s c H"
  shows "distinct (map fst (ct_entries c)) \<and> int (length (ct_entries c)) \<le> cs_maxEntries (ct_settings c) \<and>
    activeBlockCount now c \<le> cs_maxEntries (ct_settings c)"
proof -
  have inv: "distinct (map fst (ct_entries c))" "int (length (ct_entries c)) \<le> cs_maxEntries (ct_settings c)" "0 < cs_maxEntries (ct_settings c)"
    using circuit_reach_inv [OF assms] by (auto simp: circuit_inv_def Let_def)
  have "length (filter P (ct_entries c)) \<le> length (ct_entries c)" for P by simp
  then have "activeBlockCount now c \<le> int (length (ct_entries c)) \<or> activeBlockCount now c = 0" by (simp add: activeBlockCount_def)
  then show ?thesis using inv by linarith
qed

theorem circuit_bounded_witness:
  "\<exists>c. circuit_reach (ct_settings sample_circuit) c [(7, 100), (8, 100), (9, 101)] \<and> map fst (ct_entries c) = [8, 9] \<and>
     int (length (ct_entries c)) \<le> cs_maxEntries (ct_settings c)"
proof -
  let ?r = "\<lambda>p t c. snd (recordFailure (\<lambda>xs. xs) p t c)"
  let ?c1 = "?r 8 100 sample_circuit" let ?c2 = "?r 9 101 ?c1"
  have r1: "circuit_reach (ct_settings sample_circuit) ?c1 ([(7, 100)] @ [(8, 100)])"
    by (rule cr_failure [OF sample_circuit_reach]) (auto intro: prod.collapse [symmetric])
  have r2: "circuit_reach (ct_settings sample_circuit) ?c2 (([(7, 100)] @ [(8, 100)]) @ [(9, 101)])"
    by (rule cr_failure [OF r1]) (auto intro: prod.collapse [symmetric])
  have "map fst (ct_entries ?c2) = [8, 9]" by code_simp
  then show ?thesis using r2 circuit_bounded [OF r2, of 0] by (intro exI [of _ ?c2]) simp
qed

end
