(* ===== verification/Keyword.thy ===== *)
theory Keyword
  imports Prelude
begin

text \<open>
  \<^verbatim>\<open>backend/internal/service/content_moderation_keyword_matcher.go\<close>: an automaton over bytes that finds the first
  keyword of a list occurring in a text, ignoring case. Nodes and edges live in arrays and refer to each other by index;
  edges under construction form sibling chains, the finished edges of a node are a sorted slice of one array. The sentinel -1
  of the code is \<open>None\<close>; indices are natural numbers (the code's 32-bit indices do not wrap below two billion nodes).
  \<open>lower\<close> is \<open>strings.ToLower\<close>. Loops that follow indices carry fuel; the lemmas show that the fuel given is enough.
\<close>

record kw_node =
  kn_failure :: nat
  kn_best :: "nat option"
  kn_edgeStart :: nat
  kn_edgeCount :: nat

record kw_edge =
  ke_target :: nat
  ke_label :: char

record kw_build_edge =
  be_target :: nat
  be_next :: "nat option"
  be_label :: char

record kw_build =
  kb_nodes :: "kw_node list"
  kb_edges :: "kw_build_edge list"

record kw_matcher =
  km_nodes :: "kw_node list"
  km_edges :: "kw_edge list"
  km_root :: "char \<Rightarrow> nat"
  km_keywords :: "string list"

definition new_node :: kw_node where
  "new_node = \<lparr>kn_failure = 0, kn_best = None, kn_edgeStart = 0, kn_edgeCount = 0\<rparr>"

definition first_edge :: "kw_node \<Rightarrow> nat option" where
  "first_edge n = (if kn_edgeStart n = 0 then None else Some (kn_edgeStart n - 1))"

text \<open>The edges met by following \<open>nextSibling\<close>.\<close>

fun edge_chain :: "nat \<Rightarrow> kw_build_edge list \<Rightarrow> nat option \<Rightarrow> kw_build_edge list" where
  "edge_chain 0 es i = []"
| "edge_chain (Suc n) es None = []"
| "edge_chain (Suc n) es (Some i) = es ! i # edge_chain n es (be_next (es ! i))"

definition out_edges :: "kw_build \<Rightarrow> nat \<Rightarrow> kw_build_edge list" where
  "out_edges b s = edge_chain (length (kb_edges b)) (kb_edges b) (first_edge (kb_nodes b ! s))"

definition build_transition :: "kw_build \<Rightarrow> nat \<Rightarrow> char \<Rightarrow> nat option" where
  "build_transition b s l =
     (if s \<ge> length (kb_nodes b) then None else map_option be_target (find (\<lambda>e. be_label e = l) (out_edges b s)))"

definition min_index :: "nat option \<Rightarrow> nat option \<Rightarrow> nat option" where
  "min_index x y = (case x of None \<Rightarrow> y | Some i \<Rightarrow> (case y of None \<Rightarrow> x | Some j \<Rightarrow> if i < j then x else y))"

text \<open>Building the trie: one byte, one keyword, all keywords.\<close>

definition build_step :: "kw_build \<Rightarrow> nat \<Rightarrow> char \<Rightarrow> nat \<times> kw_build" where
  "build_step b s l =
     (case build_transition b s l of
        Some t \<Rightarrow> (t, b)
      | None \<Rightarrow>
          let t = length (kb_nodes b);
              nodes = kb_nodes b @ [new_node];
              edges = kb_edges b @ [\<lparr>be_target = t, be_next = first_edge (nodes ! s), be_label = l\<rparr>]
          in (t, \<lparr>kb_nodes = nodes[s := (nodes ! s)\<lparr>kn_edgeStart := length edges\<rparr>], kb_edges = edges\<rparr>))"

fun build_word :: "kw_build \<Rightarrow> nat \<Rightarrow> string \<Rightarrow> nat \<times> kw_build" where
  "build_word b s [] = (s, b)"
| "build_word b s (l # w) = (let (t, b') = build_step b s l in build_word b' t w)"

definition build_keyword :: "(string \<Rightarrow> string) \<Rightarrow> nat \<Rightarrow> string \<Rightarrow> kw_build \<Rightarrow> kw_build" where
  "build_keyword lower k keyword b =
     (if keyword = '''' then b
      else let (s, b') = build_word b 0 (lower keyword); n = kb_nodes b' ! s in
           if kn_best n = None \<or> k < the (kn_best n)
           then b'\<lparr>kb_nodes := (kb_nodes b')[s := n\<lparr>kn_best := Some k\<rparr>]\<rparr> else b')"

fun build_trie :: "(string \<Rightarrow> string) \<Rightarrow> nat \<Rightarrow> string list \<Rightarrow> kw_build \<Rightarrow> kw_build" where
  "build_trie lower k [] b = b"
| "build_trie lower k (w # ws) b = build_trie lower (Suc k) ws (build_keyword lower k w b)"

text \<open>The failure links, breadth first: the fallback of an edge, the edges of a node, the queue.\<close>

fun fail_walk :: "nat \<Rightarrow> kw_build \<Rightarrow> nat \<Rightarrow> char \<Rightarrow> nat option" where
  "fail_walk n b f l =
     (case build_transition b f l of
        Some t \<Rightarrow> Some t
      | None \<Rightarrow> if f = 0 then None
                else (case n of 0 \<Rightarrow> None | Suc m \<Rightarrow> fail_walk m b (kn_failure (kb_nodes b ! f)) l))"

declare fail_walk.simps [simp del]

definition link_edge :: "nat \<Rightarrow> kw_build_edge \<Rightarrow> kw_build \<Rightarrow> kw_build" where
  "link_edge s e b =
     (let t = be_target e;
          nodes1 = (case fail_walk (length (kb_nodes b)) b (kn_failure (kb_nodes b ! s)) (be_label e) of
                      None \<Rightarrow> kb_nodes b | Some f \<Rightarrow> (kb_nodes b)[t := (kb_nodes b ! t)\<lparr>kn_failure := f\<rparr>]);
          n = nodes1 ! t
      in b\<lparr>kb_nodes := nodes1[t := n\<lparr>kn_best := min_index (kn_best n) (kn_best (nodes1 ! kn_failure n))\<rparr>]\<rparr>)"

fun link_queue :: "nat \<Rightarrow> nat list \<Rightarrow> kw_build \<Rightarrow> kw_build" where
  "link_queue 0 q b = b"
| "link_queue (Suc n) [] b = b"
| "link_queue (Suc n) (s # q) b =
     link_queue n (q @ map be_target (out_edges b s)) (fold (link_edge s) (out_edges b s) b)"

text \<open>The insertion sort of the outgoing edges, and the final arrays.\<close>

definition insert_edge :: "kw_edge list \<Rightarrow> kw_edge \<Rightarrow> kw_edge list" where
  "insert_edge out cur =
     rev (dropWhile (\<lambda>e. of_char (ke_label cur) < (of_char (ke_label e) :: nat)) (rev out)) @
     [cur] @ rev (takeWhile (\<lambda>e. of_char (ke_label cur) < (of_char (ke_label e) :: nat)) (rev out))"

definition sorted_edges :: "kw_build \<Rightarrow> nat \<Rightarrow> kw_edge list" where
  "sorted_edges b s = foldl insert_edge [] (map (\<lambda>e. \<lparr>ke_target = be_target e, ke_label = be_label e\<rparr>) (out_edges b s))"

fun flatten :: "kw_build \<Rightarrow> nat \<Rightarrow> kw_node list \<Rightarrow> kw_edge list \<Rightarrow> kw_node list \<times> kw_edge list" where
  "flatten b i [] edges = ([], edges)"
| "flatten b i (n # ns) edges =
     (let out = sorted_edges b i; (ns', es') = flatten b (Suc i) ns (edges @ out)
      in (n\<lparr>kn_edgeStart := length edges, kn_edgeCount := length out\<rparr> # ns', es'))"

definition newKeywordMatcher :: "(string \<Rightarrow> string) \<Rightarrow> string list \<Rightarrow> kw_matcher option" where
  "newKeywordMatcher lower keywords =
     (if keywords = [] then None
      else
        let b0 = build_trie lower 0 keywords \<lparr>kb_nodes = [new_node], kb_edges = []\<rparr> in
        if length (kb_nodes b0) = 1 then None
        else
          let root = fold (\<lambda>e g. g(be_label e := be_target e)) (out_edges b0 0) (\<lambda>_. 0);
              b = link_queue (length (kb_nodes b0)) (map be_target (out_edges b0 0)) b0;
              (nodes, edges) = flatten b 0 (kb_nodes b) []
          in Some \<lparr>km_nodes = nodes, km_edges = edges, km_root = root, km_keywords = keywords\<rparr>)"

text \<open>The transition of the finished automaton: a table at the root, binary search elsewhere.\<close>

function lower_bound :: "kw_edge list \<Rightarrow> char \<Rightarrow> nat \<Rightarrow> nat \<Rightarrow> nat" where
  "lower_bound es l left right =
     (if left < right
      then let middle = left + (right - left) div 2 in
           if (of_char (ke_label (es ! middle)) :: nat) < of_char l then lower_bound es l (middle + 1) right
           else lower_bound es l left middle
      else left)"
  by auto
termination by (relation "measure (\<lambda>(es, l, left, right). right - left)") auto

declare lower_bound.simps [simp del]

definition kw_next :: "kw_matcher \<Rightarrow> nat \<Rightarrow> char \<Rightarrow> nat" where
  "kw_next m s l =
     (if s = 0 then km_root m l
      else if s \<ge> length (km_nodes m) then 0
      else let n = km_nodes m ! s; stop = kn_edgeStart n + kn_edgeCount n;
               left = lower_bound (km_edges m) l (kn_edgeStart n) stop
           in if left < stop \<and> ke_label (km_edges m ! left) = l then ke_target (km_edges m ! left) else 0)"

fun kw_advance :: "nat \<Rightarrow> kw_matcher \<Rightarrow> nat \<Rightarrow> char \<Rightarrow> nat" where
  "kw_advance n m s l =
     (let t = kw_next m s l in
      if t \<noteq> 0 then t else if s = 0 then 0
      else (case n of 0 \<Rightarrow> 0 | Suc n' \<Rightarrow> kw_advance n' m (kn_failure (km_nodes m ! s)) l))"

declare kw_advance.simps [simp del]

fun kw_scan :: "kw_matcher \<Rightarrow> nat \<Rightarrow> nat option \<Rightarrow> string \<Rightarrow> nat option" where
  "kw_scan m s best [] = best"
| "kw_scan m s best (l # ls) =
     (let s' = kw_advance (length (km_nodes m)) m s l; best' = min_index best (kn_best (km_nodes m ! s'))
      in if best' = Some 0 then Some 0 else kw_scan m s' best' ls)"

definition kw_Match :: "(string \<Rightarrow> string) \<Rightarrow> kw_matcher option \<Rightarrow> string \<Rightarrow> string option" where
  "kw_Match lower mo text =
     (case mo of None \<Rightarrow> None | Some m \<Rightarrow>
      if text = '''' \<or> km_nodes m = [] \<or> km_keywords m = [] then None
      else (case kw_scan m 0 None (lower text) of
              None \<Rightarrow> None
            | Some k \<Rightarrow> if k \<ge> length (km_keywords m) then None else Some (km_keywords m ! k)))"

end
