(* ===== verification/KeywordCorrect.thy ===== *)
theory KeywordCorrect
  imports Keyword
begin

text \<open>
  Correctness of the keyword automaton: the trie represents the prefixes of the keywords (\<open>trie\<close>), breadth-first linking
  gives every node its longest proper suffix and its best keyword (\<open>linked\<close>), the finished arrays keep the transitions
  (\<open>matcher_of\<close>), and scanning a text finds the first keyword that occurs in it.
\<close>

section \<open>Longest suffixes\<close>

fun lsuf :: "string set \<Rightarrow> string \<Rightarrow> string" where
  "lsuf S [] = []"
| "lsuf S (c # w) = (if c # w \<in> S then c # w else lsuf S w)"

definition prefix_closed :: "string set \<Rightarrow> bool" where
  "prefix_closed S \<longleftrightarrow> [] \<in> S \<and> (\<forall>w l. w @ [l] \<in> S \<longrightarrow> w \<in> S)"

lemma lsuf_suffix: "suffix (lsuf S w) w"
  by (induction w) (auto simp: suffix_ConsI)

lemma lsuf_in: "[] \<in> S \<Longrightarrow> lsuf S w \<in> S"
  by (induction w) auto

lemma lsuf_max: "v \<in> S \<Longrightarrow> suffix v w \<Longrightarrow> suffix v (lsuf S w)"
proof (induction w)
  case (Cons c w)
  then show ?case by (cases "c # w \<in> S") (auto simp: suffix_Cons)
qed simp

lemma lsuf_id: "w \<in> S \<Longrightarrow> lsuf S w = w"
  by (cases w) auto

lemma lsuf_snoc:
  assumes "prefix_closed S"
  shows "lsuf S (w @ [l]) = lsuf S (lsuf S w @ [l])"
proof (rule suffix_order.antisym)
  have S: "[] \<in> S" "\<And>w l. w @ [l] \<in> S \<Longrightarrow> w \<in> S" using assms by (auto simp: prefix_closed_def)
  let ?a = "lsuf S (w @ [l])" and ?b = "lsuf S (lsuf S w @ [l])"
  have "suffix ?b (w @ [l])"
    using lsuf_suffix [of S "lsuf S w @ [l]"] lsuf_suffix [of S w] by (meson suffix_order.trans same_suffix_suffix)
  then show "suffix ?b ?a" using lsuf_max lsuf_in [OF S(1)] by blast
  have "suffix ?a (lsuf S w @ [l])"
  proof (cases ?a rule: rev_cases)
    case (snoc v x)
    have "x = l" "suffix v w" using lsuf_suffix [of S "w @ [l]"] snoc by auto
    moreover have "v \<in> S" using lsuf_in [OF S(1), of "w @ [l]"] S(2) snoc by metis
    ultimately show ?thesis using snoc lsuf_max by simp
  qed simp
  then show "suffix ?a ?b" using lsuf_max lsuf_in [OF S(1)] by blast
qed

lemma lsuf_walk:
  assumes "prefix_closed S"
  shows "lsuf S (u @ [l]) = (if u @ [l] \<in> S then u @ [l] else if u = [] then [] else lsuf S (lsuf S (tl u) @ [l]))"
proof (cases u)
  case (Cons c u')
  then show ?thesis using lsuf_snoc [OF assms, of u' l] by simp
qed simp

section \<open>The trie\<close>

definition chain_ok :: "kw_build_edge list \<Rightarrow> bool" where
  "chain_ok es \<longleftrightarrow> (\<forall>i < length es. \<forall>j. be_next (es ! i) = Some j \<longrightarrow> j < i)"

definition chains :: "kw_build \<Rightarrow> bool" where
  "chains b \<longleftrightarrow> chain_ok (kb_edges b) \<and> (\<forall>i < length (kb_nodes b). kn_edgeStart (kb_nodes b ! i) \<le> length (kb_edges b))"

text \<open>\<open>S ! i\<close> is the string of node \<open>i\<close>; the edges of a node lead to its one-byte extensions.\<close>

definition trie :: "kw_build \<Rightarrow> string list \<Rightarrow> bool" where
  "trie b S \<longleftrightarrow> length S = length (kb_nodes b) \<and> S \<noteq> [] \<and> S ! 0 = [] \<and> distinct S \<and> chains b \<and>
     prefix_closed (set S) \<and>
     (\<forall>i < length S. distinct (map be_label (out_edges b i)) \<and>
        (\<forall>l t. (\<exists>e \<in> set (out_edges b i). be_label e = l \<and> be_target e = t) \<longleftrightarrow> t < length S \<and> S ! t = S ! i @ [l]))"

lemma edge_chain_None [simp]: "edge_chain n es None = []"
  by (cases n) simp_all

lemma edge_chain_fuel:
  "chain_ok es \<Longrightarrow> i < length es \<Longrightarrow> i < n \<Longrightarrow> i < m \<Longrightarrow> edge_chain n es (Some i) = edge_chain m es (Some i)"
proof (induction i arbitrary: n m rule: less_induct)
  case (less i)
  obtain n' m' where n: "n = Suc n'" "m = Suc m'" using less.prems by (cases n; cases m) auto
  show ?case
  proof (cases "be_next (es ! i)")
    case None
    then show ?thesis using n by (cases n'; cases m') auto
  next
    case (Some j)
    then have "j < i" using less.prems by (simp add: chain_ok_def)
    then show ?thesis using less.IH [of j n' m'] less.prems n Some by simp
  qed
qed

lemma edge_chain_append:
  "chain_ok es \<Longrightarrow> i < length es \<Longrightarrow> edge_chain n (es @ xs) (Some i) = edge_chain n es (Some i)"
proof (induction n arbitrary: i)
  case (Suc n)
  then show ?case
  proof (cases "be_next (es ! i)")
    case None
    then show ?thesis using Suc.prems by (cases n) (auto simp: nth_append)
  next
    case (Some j)
    then have "j < length es" using Suc.prems by (auto simp: chain_ok_def)
    then show ?thesis using Suc Some by (simp add: nth_append)
  qed
qed simp

lemma out_edges_nodes:
  assumes "kn_edgeStart (ns ! i) = kn_edgeStart (kb_nodes b ! i)"
  shows "out_edges (b\<lparr>kb_nodes := ns\<rparr>) i = out_edges b i"
  using assms by (simp add: out_edges_def first_edge_def)

lemma find_label:
  "distinct (map be_label es) \<Longrightarrow>
   map_option be_target (find (\<lambda>e. be_label e = l) es) = Some t \<longleftrightarrow> (\<exists>e \<in> set es. be_label e = l \<and> be_target e = t)"
proof (induction es)
  case (Cons e es)
  show ?case
  proof (cases "be_label e = l")
    case True
    have "be_label e \<notin> be_label ` set es" using Cons.prems by simp
    then have "\<forall>x \<in> set es. be_label x \<noteq> l" using True by blast
    then show ?thesis using True by auto
  next
    case False
    then show ?thesis using Cons by simp
  qed
qed simp

lemma transition_iff:
  assumes "trie b S" "i < length S"
  shows "build_transition b i l = Some t \<longleftrightarrow> t < length S \<and> S ! t = S ! i @ [l]"
proof -
  have d: "distinct (map be_label (out_edges b i))" and len: "length S = length (kb_nodes b)"
    and iff: "(\<exists>e \<in> set (out_edges b i). be_label e = l \<and> be_target e = t) \<longleftrightarrow> t < length S \<and> S ! t = S ! i @ [l]"
    using assms unfolding trie_def by auto
  show ?thesis using find_label [OF d, of l t] iff assms(2) len unfolding build_transition_def by simp
qed

text \<open>Adding an edge: the chain of the extended node gains it in front, every other chain is unchanged.\<close>

definition new_edge :: "kw_build \<Rightarrow> nat \<Rightarrow> char \<Rightarrow> kw_build_edge" where
  "new_edge b s l = \<lparr>be_target = length (kb_nodes b), be_next = first_edge (kb_nodes b ! s), be_label = l\<rparr>"

definition extended :: "kw_build \<Rightarrow> nat \<Rightarrow> char \<Rightarrow> kw_build" where
  "extended b s l = \<lparr>kb_nodes = (kb_nodes b @ [new_node])[s := (kb_nodes b ! s)\<lparr>kn_edgeStart := Suc (length (kb_edges b))\<rparr>],
     kb_edges = kb_edges b @ [new_edge b s l]\<rparr>"

lemma build_step_new:
  "build_transition b s l = None \<Longrightarrow> s < length (kb_nodes b) \<Longrightarrow> build_step b s l = (length (kb_nodes b), extended b s l)"
  by (simp add: build_step_def extended_def new_edge_def Let_def nth_append)

lemma extended_node:
  assumes "s < length (kb_nodes b)" "i \<le> length (kb_nodes b)"
  shows "kb_nodes (extended b s l) ! i = (if i = s then (kb_nodes b ! s)\<lparr>kn_edgeStart := Suc (length (kb_edges b))\<rparr>
     else if i = length (kb_nodes b) then new_node else kb_nodes b ! i)"
  using assms by (auto simp: extended_def nth_append nth_list_update)

lemma first_edge_less: "chains b \<Longrightarrow> i < length (kb_nodes b) \<Longrightarrow> first_edge (kb_nodes b ! i) = Some j \<Longrightarrow> j < length (kb_edges b)"
  by (fastforce simp: first_edge_def chains_def split: if_splits)

lemma extended_chains:
  assumes "chains b" "s < length (kb_nodes b)"
  shows "chains (extended b s l)"
proof -
  have "j < i" if "i < Suc (length (kb_edges b))" "be_next ((kb_edges b @ [new_edge b s l]) ! i) = Some j" for i j
  proof (cases "i = length (kb_edges b)")
    case True
    then show ?thesis using that(2) first_edge_less [OF assms, of j] by (simp add: new_edge_def)
  next
    case False
    then have "i < length (kb_edges b)" using that(1) by simp
    then show ?thesis using that(2) assms(1) unfolding chains_def chain_ok_def by (simp add: nth_append)
  qed
  then have "chain_ok (kb_edges (extended b s l))" by (auto simp: chain_ok_def extended_def)
  moreover have "kn_edgeStart (kb_nodes (extended b s l) ! i) \<le> Suc (length (kb_edges b))" if "i \<le> length (kb_nodes b)" for i
  proof (cases "i = s \<or> i = length (kb_nodes b)")
    case True
    then show ?thesis using extended_node [OF assms(2) that, of l] by (auto simp: new_node_def)
  next
    case False
    then have "kn_edgeStart (kb_nodes b ! i) \<le> length (kb_edges b)" using assms(1) that by (simp add: chains_def)
    then show ?thesis using extended_node [OF assms(2) that, of l] False by simp
  qed
  moreover have "length (kb_nodes (extended b s l)) = Suc (length (kb_nodes b))" "length (kb_edges (extended b s l)) = Suc (length (kb_edges b))"
    by (simp_all add: extended_def)
  ultimately show ?thesis unfolding chains_def by simp
qed

lemma extended_chain:
  assumes "chains b" "i < length (kb_nodes b)"
  shows "edge_chain (Suc (length (kb_edges b))) (kb_edges b @ xs) (first_edge (kb_nodes b ! i)) = out_edges b i"
proof (cases "first_edge (kb_nodes b ! i)")
  case None
  then show ?thesis by (simp add: out_edges_def)
next
  case (Some j)
  have ok: "chain_ok (kb_edges b)" using assms(1) by (simp add: chains_def)
  have j: "j < length (kb_edges b)" by (rule first_edge_less [OF assms Some])
  have "edge_chain (Suc (length (kb_edges b))) (kb_edges b @ xs) (Some j) = edge_chain (Suc (length (kb_edges b))) (kb_edges b) (Some j)"
    by (rule edge_chain_append [OF ok j])
  also have "\<dots> = edge_chain (length (kb_edges b)) (kb_edges b) (Some j)"
    by (rule edge_chain_fuel [OF ok j]) (use j in simp_all)
  finally show ?thesis using Some by (simp add: out_edges_def)
qed

lemma extended_out:
  assumes c: "chains b" and s: "s < length (kb_nodes b)" and i: "i \<le> length (kb_nodes b)"
  shows "out_edges (extended b s l) i =
    (if i = s then new_edge b s l # out_edges b s else if i = length (kb_nodes b) then [] else out_edges b i)"
proof -
  let ?m = "length (kb_edges b)" and ?es = "kb_edges b @ [new_edge b s l]"
  have eq: "out_edges (extended b s l) i = edge_chain (Suc ?m) ?es (first_edge (kb_nodes (extended b s l) ! i))"
    by (simp add: out_edges_def extended_def)
  have ok: "chain_ok ?es" using extended_chains [OF c s, of l] by (simp add: chains_def extended_def)
  have "edge_chain ?m ?es (first_edge (kb_nodes b ! s)) = edge_chain (Suc ?m) ?es (first_edge (kb_nodes b ! s))"
  proof (cases "first_edge (kb_nodes b ! s)")
    case None
    then show ?thesis by simp
  next
    case (Some j)
    have j: "j < ?m" by (rule first_edge_less [OF c s Some])
    show ?thesis unfolding Some by (rule edge_chain_fuel [OF ok]) (use j in simp_all)
  qed
  then have tail: "edge_chain ?m ?es (first_edge (kb_nodes b ! s)) = out_edges b s" using extended_chain [OF c s] by simp
  consider "i = s" | "i = length (kb_nodes b)" "i \<noteq> s" | "i < length (kb_nodes b)" "i \<noteq> s" using i by linarith
  then show ?thesis
  proof cases
    case 1
    then show ?thesis using eq tail extended_node [OF s, of s l] s by (simp add: first_edge_def nth_append new_edge_def)
  next
    case 2
    then show ?thesis using eq extended_node [OF s, of i l] by (simp add: first_edge_def new_node_def)
  next
    case 3
    then show ?thesis using eq extended_node [OF s, of i l] extended_chain [OF c 3(1)] by simp
  qed
qed

lemma trieD:
  assumes "trie b S"
  shows "length S = length (kb_nodes b)" "S \<noteq> []" "S ! 0 = []" "distinct S" "chains b" "prefix_closed (set S)"
    "\<And>i. i < length S \<Longrightarrow> distinct (map be_label (out_edges b i))"
    "\<And>i l t. i < length S \<Longrightarrow>
       (\<exists>e \<in> set (out_edges b i). be_label e = l \<and> be_target e = t) \<longleftrightarrow> t < length S \<and> S ! t = S ! i @ [l]"
  using assms unfolding trie_def by blast+

text \<open>The extended structure represents one more string.\<close>

lemma extended_trie:
  assumes t: "trie b S" and s: "s < length S" and fresh: "S ! s @ [l] \<notin> set S"
  shows "trie (extended b s l) (S @ [S ! s @ [l]])"
proof -
  let ?b = "extended b s l" and ?S = "S @ [S ! s @ [l]]" and ?n = "length S"
  note T = trieD [OF t]
  have sn: "s < length (kb_nodes b)" using s T(1) by simp
  have out: "out_edges ?b i = (if i = s then new_edge b s l # out_edges b s else if i = ?n then [] else out_edges b i)"
    if "i \<le> ?n" for i using extended_out [OF T(5) sn] that T(1) by simp
  have nolabel: "l \<notin> be_label ` set (out_edges b s)"
    using T(8) [OF s, of l] fresh nth_mem by (metis (no_types, lifting) imageE)
  have lab: "distinct (map be_label (out_edges ?b i))" if "i < length ?S" for i
    using T(7) out [of i] that s nolabel by (auto simp: new_edge_def)
  have dist: "distinct ?S" using T(4) fresh by simp
  have iff: "(\<exists>e \<in> set (out_edges ?b i). be_label e = l' \<and> be_target e = t') \<longleftrightarrow> t' < length ?S \<and> ?S ! t' = ?S ! i @ [l']"
    if "i < length ?S" for i l' t'
  proof (cases "i = ?n")
    case True
    have "\<not> (t' < length ?S \<and> ?S ! t' = S ! s @ [l] @ [l'])"
    proof
      assume a: "t' < length ?S \<and> ?S ! t' = S ! s @ [l] @ [l']"
      then have "t' < ?n" by (cases "t' = ?n") auto
      then have "(S ! s @ [l]) @ [l'] \<in> set S" using a nth_mem [of t' S] by (simp add: nth_append)
      then show False using T(6) fresh unfolding prefix_closed_def by blast
    qed
    then show ?thesis using out [of i] True s by simp
  next
    case False
    then have i: "i < ?n" using that by simp
    have "(\<exists>e \<in> set (out_edges ?b i). be_label e = l' \<and> be_target e = t') \<longleftrightarrow>
        (i = s \<and> l' = l \<and> t' = ?n) \<or> (t' < ?n \<and> S ! t' = S ! i @ [l'])"
      using T(8) [OF i, of l' t'] out [of i] i T(1) by (auto simp: new_edge_def)
    moreover have "S ! s @ [l] = S ! i @ [l'] \<longleftrightarrow> i = s \<and> l' = l" using T(4) i s by (auto simp: nth_eq_iff_index_eq)
    ultimately show ?thesis using i by (auto simp: nth_append less_Suc_eq)
  qed
  have pc: "prefix_closed (set ?S)" using T(6) nth_mem [OF s] by (auto simp: prefix_closed_def)
  have "length ?S = length (kb_nodes ?b)" using T(1) by (simp add: extended_def)
  then show ?thesis unfolding trie_def
    using T(2,3) dist extended_chains [OF T(5) sn] pc lab iff by (auto simp: nth_append)
qed

lemma build_step_spec:
  assumes t: "trie b S" and s: "s < length S" and step: "build_step b s l = (t, b')"
  shows "\<exists>S'. trie b' S' \<and> prefix S S' \<and> t < length S' \<and> S' ! t = S ! s @ [l] \<and> set S' = insert (S ! s @ [l]) (set S) \<and>
    (\<forall>i < length S'. kn_best (kb_nodes b' ! i) = (if i < length S then kn_best (kb_nodes b ! i) else None)) \<and>
    (\<forall>i < length S'. kn_failure (kb_nodes b' ! i) = (if i < length S then kn_failure (kb_nodes b ! i) else 0))"
proof (cases "build_transition b s l")
  case (Some u)
  then have "t = u" "b' = b" using step by (auto simp: build_step_def)
  moreover have "u < length S" "S ! u = S ! s @ [l]" using transition_iff [OF t s, of l u] Some by auto
  ultimately show ?thesis using t nth_mem [of u S] by (intro exI [of _ S]) (auto simp: insert_absorb)
next
  case None
  have len: "length S = length (kb_nodes b)" by (rule trieD(1) [OF t])
  have fresh: "S ! s @ [l] \<notin> set S"
  proof
    assume "S ! s @ [l] \<in> set S"
    then obtain u where "u < length S" "S ! u = S ! s @ [l]" by (auto simp: in_set_conv_nth)
    then show False using transition_iff [OF t s, of l u] None by simp
  qed
  have b': "t = length S" "b' = extended b s l" using step build_step_new [OF None] s len by auto
  have "kn_best (kb_nodes b' ! i) = (if i < length S then kn_best (kb_nodes b ! i) else None) \<and>
      kn_failure (kb_nodes b' ! i) = (if i < length S then kn_failure (kb_nodes b ! i) else 0)" if "i < Suc (length S)" for i
    using extended_node [of s b i l] that s len b'(2) by (auto simp: new_node_def)
  then show ?thesis using extended_trie [OF t s fresh] b' by (intro exI [of _ "S @ [S ! s @ [l]]"]) auto
qed

text \<open>\<open>grown b S b' S'\<close>: the trie was extended, old nodes keep their marks, new ones have none.\<close>

definition grown :: "kw_build \<Rightarrow> string list \<Rightarrow> kw_build \<Rightarrow> string list \<Rightarrow> bool" where
  "grown b S b' S' \<longleftrightarrow> trie b' S' \<and> prefix S S' \<and>
    (\<forall>i < length S'. kn_best (kb_nodes b' ! i) = (if i < length S then kn_best (kb_nodes b ! i) else None)) \<and>
    (\<forall>i < length S'. kn_failure (kb_nodes b' ! i) = (if i < length S then kn_failure (kb_nodes b ! i) else 0))"

lemma grown_refl: "trie b S \<Longrightarrow> grown b S b S"
  by (simp add: grown_def)

lemma grown_trans: "grown a R b S \<Longrightarrow> grown b S c T \<Longrightarrow> grown a R c T"
  unfolding grown_def by (auto dest: prefix_length_le intro: prefix_order.trans)

lemma build_word_spec:
  "trie b S \<Longrightarrow> s < length S \<Longrightarrow> build_word b s w = (t, b') \<Longrightarrow> \<exists>S'. grown b S b' S' \<and> t < length S' \<and> S' ! t = S ! s @ w"
proof (induction w arbitrary: b S s)
  case Nil
  then show ?case using grown_refl by auto
next
  case (Cons l w)
  obtain u b1 where st: "build_step b s l = (u, b1)" by force
  obtain S1 where S1: "grown b S b1 S1" "u < length S1" "S1 ! u = S ! s @ [l]"
    using build_step_spec [OF Cons.prems(1,2) st] unfolding grown_def by blast
  have "build_word b1 u w = (t, b')" using Cons.prems(3) st by simp
  then obtain S2 where "grown b1 S1 b' S2" "t < length S2" "S2 ! t = S1 ! u @ w"
    using Cons.IH [of b1 S1 u] S1 unfolding grown_def by blast
  then show ?case using S1 grown_trans by (intro exI [of _ S2]) auto
qed

text \<open>The marks after the first \<open>K\<close> keywords.\<close>

definition exact :: "(string \<Rightarrow> string) \<Rightarrow> string list \<Rightarrow> string \<Rightarrow> nat \<Rightarrow> bool" where
  "exact lower kws w k \<longleftrightarrow> kws ! k \<noteq> '''' \<and> lower (kws ! k) = w"

definition marked :: "(string \<Rightarrow> string) \<Rightarrow> string list \<Rightarrow> nat \<Rightarrow> kw_build \<Rightarrow> string list \<Rightarrow> bool" where
  "marked lower kws K b S \<longleftrightarrow> trie b S \<and>
     (\<forall>i < length S. kn_best (kb_nodes b ! i) = find (exact lower kws (S ! i)) [0..<K] \<and> kn_failure (kb_nodes b ! i) = 0) \<and>
     (\<forall>k < K. kws ! k \<noteq> '''' \<longrightarrow> lower (kws ! k) \<in> set S)"

lemma find_append: "find P (xs @ ys) = (case find P xs of None \<Rightarrow> find P ys | Some x \<Rightarrow> Some x)"
  by (induction xs) auto

lemma find_upt_less: "find P [0..<K] = Some k \<Longrightarrow> k < K \<and> P k"
  by (auto simp: find_Some_iff)

lemma find_upt_None: "find P [0..<K] = None \<longleftrightarrow> (\<forall>k < K. \<not> P k)"
  by (auto simp: find_None_iff)

lemma marked_skip:
  assumes "marked lower kws k b S" "kws ! k = ''''"
  shows "marked lower kws (Suc k) b S"
proof -
  have "find (exact lower kws w) [0..<Suc k] = find (exact lower kws w) [0..<k]" for w
    using assms(2) by (simp add: find_append exact_def split: option.split)
  moreover have "lower (kws ! j) \<in> set S" if "j < Suc k" "kws ! j \<noteq> ''''" for j
    using assms that unfolding marked_def by (metis less_Suc_eq)
  ultimately show ?thesis using assms(1) unfolding marked_def by presburger
qed

text \<open>Growing the trie keeps the marks.\<close>

lemma marked_grown:
  assumes m: "marked lower kws k b S" and g: "grown b S b1 S1"
  shows "marked lower kws k b1 S1"
proof -
  have t1: "trie b1 S1" and pre: "prefix S S1" using g by (auto simp: grown_def)
  have old: "S1 ! i = S ! i" if "i < length S" for i using pre that by (auto simp: prefix_def nth_append)
  have new: "find (exact lower kws (S1 ! i)) [0..<k] = None" if i: "\<not> i < length S" "i < length S1" for i
  proof -
    have "S1 ! i \<noteq> S ! j" if "j < length S" for j
      using trieD(4) [OF t1] old [OF that] i that prefix_length_le [OF pre] by (metis nth_eq_iff_index_eq order_less_le_trans)
    then have "S1 ! i \<notin> set S" by (metis in_set_conv_nth)
    then show ?thesis using m by (auto simp: marked_def exact_def find_upt_None)
  qed
  have "kn_best (kb_nodes b1 ! i) = find (exact lower kws (S1 ! i)) [0..<k] \<and> kn_failure (kb_nodes b1 ! i) = 0" if i: "i < length S1" for i
  proof (cases "i < length S")
    case True
    then have "kn_best (kb_nodes b ! i) = find (exact lower kws (S ! i)) [0..<k] \<and> kn_failure (kb_nodes b ! i) = 0"
      using m unfolding marked_def by blast
    then show ?thesis using g i True old [OF True] unfolding grown_def by metis
  next
    case False
    then show ?thesis using g i new [OF False i] unfolding grown_def by metis
  qed
  moreover have "lower (kws ! j) \<in> set S1" if "j < k" "kws ! j \<noteq> ''''" for j
    using m that set_mono_prefix [OF pre] unfolding marked_def by blast
  ultimately show ?thesis using t1 unfolding marked_def by blast
qed

text \<open>Marking the node of the next keyword.\<close>

lemma marked_put:
  assumes m: "marked lower kws k b S" and s: "s < length S" "S ! s = lower (kws ! k)" and k: "kws ! k \<noteq> ''''"
    and b2: "b2 = (if kn_best (kb_nodes b ! s) = None then b\<lparr>kb_nodes := (kb_nodes b)[s := (kb_nodes b ! s)\<lparr>kn_best := Some k\<rparr>]\<rparr> else b)"
  shows "marked lower kws (Suc k) b2 S"
proof -
  have t: "trie b S" using m by (simp add: marked_def)
  have len: "length S = length (kb_nodes b)" by (rule trieD(1) [OF t])
  have best: "kn_best (kb_nodes b ! i) = find (exact lower kws (S ! i)) [0..<k]" "kn_failure (kb_nodes b ! i) = 0" if "i < length S" for i
    using m that unfolding marked_def by blast+
  have node: "kb_nodes b2 ! i = (if i = s \<and> kn_best (kb_nodes b ! s) = None then (kb_nodes b ! s)\<lparr>kn_best := Some k\<rparr> else kb_nodes b ! i)" for i
    using s(1) len b2 by (cases "i = s") simp_all
  have es: "kn_edgeStart (kb_nodes b2 ! i) = kn_edgeStart (kb_nodes b ! i)" "kb_edges b2 = kb_edges b" "length (kb_nodes b2) = length (kb_nodes b)" for i
    by (simp add: node) (simp_all add: b2)
  have out: "out_edges b2 i = out_edges b i" for i by (simp add: out_edges_def first_edge_def es)
  have t2: "trie b2 S" using t unfolding trie_def chains_def es out .
  have ex: "exact lower kws (S ! i) k \<longleftrightarrow> i = s" if "i < length S" for i
    using trieD(4) [OF t] s k that by (auto simp: exact_def nth_eq_iff_index_eq)
  have "kn_best (kb_nodes b2 ! i) = find (exact lower kws (S ! i)) [0..<Suc k] \<and> kn_failure (kb_nodes b2 ! i) = 0" if i: "i < length S" for i
    using best [OF i] ex [OF i] by (auto simp: node find_append split: option.split)
  moreover have "lower (kws ! j) \<in> set S" if "j < Suc k" "kws ! j \<noteq> ''''" for j
    using m that s nth_mem [of s S] unfolding marked_def by (metis less_SucE)
  ultimately show ?thesis using t2 unfolding marked_def by blast
qed

lemma build_keyword_spec:
  assumes m: "marked lower kws k b S"
  shows "\<exists>S'. marked lower kws (Suc k) (build_keyword lower k (kws ! k) b) S'"
proof (cases "kws ! k = ''''")
  case True
  then show ?thesis using marked_skip [OF m] by (auto simp: build_keyword_def)
next
  case False
  have t: "trie b S" using m by (simp add: marked_def)
  have root: "0 < length S" "S ! 0 = []" using trieD(2,3) [OF t] by auto
  obtain s b1 where w: "build_word b 0 (lower (kws ! k)) = (s, b1)" by force
  obtain S1 where S1: "grown b S b1 S1" "s < length S1" "S1 ! s = lower (kws ! k)"
    using build_word_spec [OF t root(1) w] root(2) by auto
  have m1: "marked lower kws k b1 S1" by (rule marked_grown [OF m S1(1)])
  have "kn_best (kb_nodes b1 ! s) = find (exact lower kws (S1 ! s)) [0..<k]" using m1 S1(2) unfolding marked_def by blast
  then have "\<not> k < x" if "kn_best (kb_nodes b1 ! s) = Some x" for x
    using that find_upt_less [of "exact lower kws (S1 ! s)" k x] by simp
  then have "build_keyword lower k (kws ! k) b =
      (if kn_best (kb_nodes b1 ! s) = None then b1\<lparr>kb_nodes := (kb_nodes b1)[s := (kb_nodes b1 ! s)\<lparr>kn_best := Some k\<rparr>]\<rparr> else b1)"
    using False w by (auto simp: build_keyword_def Let_def)
  then show ?thesis using marked_put [OF m1 S1(2,3) False] by blast
qed

lemma build_trie_spec:
  "marked lower kws k b S \<Longrightarrow> ws = drop k kws \<Longrightarrow> k \<le> length kws \<Longrightarrow> \<exists>S'. marked lower kws (length kws) (build_trie lower k ws b) S'"
proof (induction ws arbitrary: k b S)
  case Nil
  then show ?case by auto
next
  case (Cons w ws)
  have k: "k < length kws" using Cons.prems(2) by (metis drop_all leI list.distinct(1))
  then have "w # ws = kws ! k # drop (Suc k) kws" using Cons.prems(2) by (simp add: Cons_nth_drop_Suc)
  then have w: "w = kws ! k" "ws = drop (Suc k) kws" by auto
  obtain S1 where "marked lower kws (Suc k) (build_keyword lower k w b) S1"
    using build_keyword_spec [OF Cons.prems(1)] w(1) by blast
  from Cons.IH [OF this w(2)] k show ?case by simp
qed

lemma trie_start: "trie \<lparr>kb_nodes = [new_node], kb_edges = []\<rparr> [[]]"
  by (auto simp: trie_def chains_def chain_ok_def prefix_closed_def out_edges_def new_node_def)

lemma marked_start: "marked lower kws 0 \<lparr>kb_nodes = [new_node], kb_edges = []\<rparr> [[]]"
  using trie_start by (simp add: marked_def new_node_def)

section \<open>Failure links\<close>

definition best_of :: "(string \<Rightarrow> string) \<Rightarrow> string list \<Rightarrow> string \<Rightarrow> nat option" where
  "best_of lower kws w = find (\<lambda>k. kws ! k \<noteq> '''' \<and> suffix (lower (kws ! k)) w) [0..<length kws]"

text \<open>A node whose failure link and mark are final, and one that still has the trie's.\<close>

definition linked :: "(string \<Rightarrow> string) \<Rightarrow> string list \<Rightarrow> kw_build \<Rightarrow> string list \<Rightarrow> nat \<Rightarrow> bool" where
  "linked lower kws b S t \<longleftrightarrow> kn_failure (kb_nodes b ! t) < length S \<and>
     S ! kn_failure (kb_nodes b ! t) = lsuf (set S) (tl (S ! t)) \<and> kn_best (kb_nodes b ! t) = best_of lower kws (S ! t)"

definition raw :: "(string \<Rightarrow> string) \<Rightarrow> string list \<Rightarrow> kw_build \<Rightarrow> string list \<Rightarrow> nat \<Rightarrow> bool" where
  "raw lower kws b S t \<longleftrightarrow> kn_failure (kb_nodes b ! t) = 0 \<and>
     kn_best (kb_nodes b ! t) = find (exact lower kws (S ! t)) [0..<length kws]"

lemma prefix_closed_take: "prefix_closed S \<Longrightarrow> w \<in> S \<Longrightarrow> take k w \<in> S"
proof (induction "length w - k" arbitrary: k)
  case (Suc n)
  then have k: "k < length w" by linarith
  have "take (Suc k) w \<in> S" using Suc.hyps(1) [of "Suc k"] Suc.hyps(2) Suc.prems by simp
  then show ?case using Suc.prems(1) k unfolding prefix_closed_def by (metis take_Suc_conv_app_nth)
qed simp

lemma trie_depth:
  assumes "trie b S" "i < length S"
  shows "length (S ! i) < length S"
proof -
  let ?w = "S ! i"
  have sub: "(\<lambda>k. take k ?w) ` {..length ?w} \<subseteq> set S"
    using prefix_closed_take [OF trieD(6) [OF assms(1)]] nth_mem [OF assms(2)] by blast
  have "inj_on (\<lambda>k. take k ?w) {..length ?w}" by (rule inj_onI) (metis atMost_iff length_take min.absorb2)
  then have "Suc (length ?w) = card ((\<lambda>k. take k ?w) ` {..length ?w})" by (simp add: card_image)
  also have "\<dots> \<le> card (set S)" by (rule card_mono) (use sub in auto)
  also have "\<dots> = length S" by (rule distinct_card [OF trieD(4) [OF assms(1)]])
  finally show ?thesis by simp
qed

lemma lsuf_tl_shorter: "w \<noteq> [] \<Longrightarrow> length (lsuf S (tl w)) < length w"
  using suffix_length_le [OF lsuf_suffix [of S "tl w"]] by (cases w) auto

lemma fail_walk_spec:
  assumes t: "trie b S" and m: "\<And>i. i < length S \<Longrightarrow> length (S ! i) \<le> m \<Longrightarrow> linked lower kws b S i"
  shows "f < length S \<Longrightarrow> length (S ! f) \<le> m \<Longrightarrow> length (S ! f) \<le> n \<Longrightarrow>
    (case fail_walk n b f l of None \<Rightarrow> lsuf (set S) (S ! f @ [l]) = [] | Some u \<Rightarrow> u < length S \<and> S ! u = lsuf (set S) (S ! f @ [l]))"
proof (induction n arbitrary: f)
  case (0 f)
  then have f: "S ! f = []" by simp
  then have "f = 0" using 0(1) trieD(2,3,4) [OF t] by (metis length_greater_0_conv nth_eq_iff_index_eq)
  then show ?case using transition_iff [OF t 0(1), of l] f nth_mem
    by (auto simp: fail_walk.simps [of 0] in_set_conv_nth split: option.split)
next
  case (Suc n f)
  let ?W = "lsuf (set S) (S ! f @ [l])"
  show ?case
  proof (cases "build_transition b f l")
    case (Some u)
    then have "u < length S" "S ! u = S ! f @ [l]" using transition_iff [OF t Suc.prems(1)] by auto
    moreover from this have "lsuf (set S) (S ! f @ [l]) = S ! f @ [l]" by (metis lsuf_id nth_mem)
    ultimately show ?thesis using Some by (simp add: fail_walk.simps [of "Suc n"])
  next
    case None
    then have out: "S ! f @ [l] \<notin> set S" using transition_iff [OF t Suc.prems(1), of l] by (auto simp: in_set_conv_nth)
    show ?thesis
    proof (cases "f = 0")
      case True
      then show ?thesis using None out trieD(3) [OF t] by (simp add: fail_walk.simps [of "Suc n"])
    next
      case False
      then have ne: "S ! f \<noteq> []" using Suc.prems(1) trieD(2,3,4) [OF t] by (metis length_greater_0_conv nth_eq_iff_index_eq)
      let ?g = "kn_failure (kb_nodes b ! f)"
      have g: "?g < length S" "S ! ?g = lsuf (set S) (tl (S ! f))" using m [OF Suc.prems(1,2)] by (auto simp: linked_def)
      have short: "length (S ! ?g) < length (S ! f)" using lsuf_tl_shorter [OF ne] g(2) by simp
      have W: "?W = lsuf (set S) (S ! ?g @ [l])" using lsuf_walk [OF trieD(6) [OF t], of "S ! f" l] out ne g(2) by simp
      have "fail_walk (Suc n) b f l = fail_walk n b ?g l" using None False by (simp add: fail_walk.simps [of "Suc n"])
      then show ?thesis unfolding W using Suc.IH [of ?g] g(1) short Suc.prems(2,3) by simp
    qed
  qed
qed

lemma find_min:
  "find (\<lambda>k. P k \<or> Q k) [0..<n] = min_index (find P [0..<n]) (find Q [0..<n])"
proof (induction n)
  case (Suc n)
  have "x < n" if "find R [0..<n] = Some x" for R x using find_upt_less [OF that] by simp
  then show ?case using Suc by (auto simp: find_append min_index_def split: option.splits) (metis less_asym)+
qed (simp add: min_index_def)

text \<open>The keyword of a node is its own, or that of its longest proper suffix.\<close>

lemma best_of_step:
  assumes "\<And>k. k < length kws \<Longrightarrow> kws ! k \<noteq> '''' \<Longrightarrow> lower (kws ! k) \<in> S" "w \<noteq> []"
  shows "best_of lower kws w = min_index (find (exact lower kws w) [0..<length kws]) (best_of lower kws (lsuf S (tl w)))"
proof -
  have "suffix v w \<longleftrightarrow> v = w \<or> suffix v (lsuf S (tl w))" if "v \<in> S" for v
  proof -
    have "suffix v w \<longleftrightarrow> v = w \<or> suffix v (tl w)" using assms(2) by (cases w) (auto simp: suffix_Cons)
    then show ?thesis using lsuf_max [OF that, of "tl w"] lsuf_suffix [of S "tl w"] suffix_order.trans by blast
  qed
  then have "find (\<lambda>k. kws ! k \<noteq> '''' \<and> suffix (lower (kws ! k)) w) [0..<length kws] =
      find (\<lambda>k. exact lower kws w k \<or> kws ! k \<noteq> '''' \<and> suffix (lower (kws ! k)) (lsuf S (tl w))) [0..<length kws]"
    using assms(1) by (intro find_cong) (auto simp: exact_def)
  then show ?thesis unfolding best_of_def find_min by simp
qed

text \<open>Linking never changes edges, so the trie stays.\<close>

definition same_shape :: "kw_build \<Rightarrow> kw_build \<Rightarrow> bool" where
  "same_shape b b' \<longleftrightarrow> kb_edges b' = kb_edges b \<and> length (kb_nodes b') = length (kb_nodes b) \<and>
     (\<forall>i. kn_edgeStart (kb_nodes b' ! i) = kn_edgeStart (kb_nodes b ! i))"

lemma same_shape_out: "same_shape b b' \<Longrightarrow> out_edges b' i = out_edges b i"
  by (simp add: same_shape_def out_edges_def first_edge_def)

lemma same_shape_trie: "same_shape b b' \<Longrightarrow> trie b S \<Longrightarrow> trie b' S"
  using same_shape_out [of b b'] unfolding trie_def chains_def same_shape_def by simp

lemma same_shape_trans: "same_shape a b \<Longrightarrow> same_shape b c \<Longrightarrow> same_shape a c"
  by (simp add: same_shape_def)

text \<open>Nodes in \<open>E\<close> are linked, the others raw.\<close>

definition partly_linked :: "(string \<Rightarrow> string) \<Rightarrow> string list \<Rightarrow> kw_build \<Rightarrow> string list \<Rightarrow> nat set \<Rightarrow> bool" where
  "partly_linked lower kws b S E \<longleftrightarrow> trie b S \<and> E \<subseteq> {..<length S} \<and>
     (\<forall>k < length kws. kws ! k \<noteq> '''' \<longrightarrow> lower (kws ! k) \<in> set S) \<and>
     (\<forall>t < length S. if t \<in> E then linked lower kws b S t else raw lower kws b S t)"

lemma link_edge_spec:
  assumes p: "partly_linked lower kws b S E" and s: "s < length S" "S ! s \<noteq> []"
    and shallow: "\<And>i. i < length S \<Longrightarrow> length (S ! i) \<le> length (S ! s) \<Longrightarrow> i \<in> E"
    and e: "be_target e < length S" "S ! be_target e = S ! s @ [be_label e]" "be_target e \<notin> E"
  shows "partly_linked lower kws (link_edge s e b) S (insert (be_target e) E) \<and> same_shape b (link_edge s e b)"
proof -
  let ?t = "be_target e" and ?f = "kn_failure (kb_nodes b ! s)" and ?b = "link_edge s e b"
  have t: "trie b S" using p by (simp add: partly_linked_def)
  have len: "length S = length (kb_nodes b)" by (rule trieD(1) [OF t])
  have lk: "linked lower kws b S i" if "i < length S" "length (S ! i) \<le> length (S ! s)" for i
    using p shallow [OF that] that(1) unfolding partly_linked_def by metis
  have f: "?f < length S" "S ! ?f = lsuf (set S) (tl (S ! s))" using lk [OF s(1)] by (auto simp: linked_def)
  have fl: "length (S ! ?f) \<le> length (S ! s)" using lsuf_tl_shorter [OF s(2), of "set S"] f(2) by simp
  let ?g = "case fail_walk (length (kb_nodes b)) b ?f (be_label e) of None \<Rightarrow> 0 | Some u \<Rightarrow> u"
  have "lsuf (set S) (S ! ?f @ [be_label e]) = lsuf (set S) (tl (S ! ?t))"
    using lsuf_snoc [OF trieD(6) [OF t], of "tl (S ! s)" "be_label e"] f(2) e(2) s(2) by simp
  then have g: "?g < length S" "S ! ?g = lsuf (set S) (tl (S ! ?t))"
    using fail_walk_spec [where m = "length (S ! s)" and f = ?f and n = "length (kb_nodes b)" and l = "be_label e", OF t lk f(1) fl]
      trie_depth [OF t f(1)] len trieD(2,3) [OF t] by (auto split: option.splits)
  have "length (S ! ?g) < length (S ! ?t)" using lsuf_tl_shorter [of "S ! ?t" "set S"] g(2) e(2) by simp
  then have gl: "length (S ! ?g) \<le> length (S ! s)" and gt: "?g \<noteq> ?t" using e(2) by auto
  have raw: "kn_failure (kb_nodes b ! ?t) = 0" "kn_best (kb_nodes b ! ?t) = find (exact lower kws (S ! ?t)) [0..<length kws]"
    using p e(1,3) unfolding partly_linked_def raw_def by metis+
  have "kn_best (kb_nodes b ! ?g) = best_of lower kws (lsuf (set S) (tl (S ! ?t)))" using lk [OF g(1) gl] g(2) by (simp add: linked_def)
  then have best: "min_index (kn_best (kb_nodes b ! ?t)) (kn_best (kb_nodes b ! ?g)) = best_of lower kws (S ! ?t)"
    using best_of_step [of kws lower "set S" "S ! ?t"] p raw(2) e(2) by (simp add: partly_linked_def)
  have b': "?b = b\<lparr>kb_nodes := (kb_nodes b)[?t := (kb_nodes b ! ?t)\<lparr>kn_failure := ?g,
      kn_best := min_index (kn_best (kb_nodes b ! ?t)) (kn_best (kb_nodes b ! ?g))\<rparr>]\<rparr>"
  proof -
    have same: "(kb_nodes b ! ?t)\<lparr>kn_failure := 0, kn_best := z\<rparr> = (kb_nodes b ! ?t)\<lparr>kn_best := z\<rparr>" for z
      using raw(1) by (cases "kb_nodes b ! ?t") simp
    show ?thesis
    proof (cases "fail_walk (length (kb_nodes b)) b ?f (be_label e)")
      case None
      then show ?thesis using raw(1) unfolding link_edge_def Let_def by (simp add: same)
    next
      case (Some u)
      then show ?thesis using e(1) len gt unfolding link_edge_def Let_def by simp
    qed
  qed 
  have node: "kb_nodes ?b ! i = (if i = ?t then (kb_nodes b ! ?t)\<lparr>kn_failure := ?g, kn_best := best_of lower kws (S ! ?t)\<rparr> else kb_nodes b ! i)" for i
    unfolding b' best using e(1) len by (cases "i = ?t") simp_all
  have shape: "same_shape b ?b" unfolding same_shape_def by (simp add: node) (simp add: b')
  have "if i \<in> insert ?t E then linked lower kws ?b S i else raw lower kws ?b S i" if "i < length S" for i
    using p that g unfolding partly_linked_def linked_def raw_def by (cases "i = ?t") (simp_all add: node)
  then show ?thesis using p e(1) shape same_shape_trie [OF shape t] unfolding partly_linked_def by blast
qed

lemma link_edges_spec:
  assumes s: "s < length S" "S ! s \<noteq> []"
  shows "partly_linked lower kws b S E \<Longrightarrow> (\<And>i. i < length S \<Longrightarrow> length (S ! i) \<le> length (S ! s) \<Longrightarrow> i \<in> E) \<Longrightarrow>
    (\<And>e. e \<in> set es \<Longrightarrow> be_target e < length S \<and> S ! be_target e = S ! s @ [be_label e] \<and> be_target e \<notin> E) \<Longrightarrow>
    distinct (map be_target es) \<Longrightarrow>
    partly_linked lower kws (fold (link_edge s) es b) S (E \<union> be_target ` set es) \<and> same_shape b (fold (link_edge s) es b)"
proof (induction es arbitrary: b E)
  case Nil
  then show ?case by (simp add: same_shape_def)
next
  case (Cons e es)
  have e: "be_target e < length S" "S ! be_target e = S ! s @ [be_label e]" "be_target e \<notin> E" using Cons.prems(3) [of e] by auto
  note step = link_edge_spec [OF Cons.prems(1) s Cons.prems(2) e]
  let ?b = "link_edge s e b" and ?E = "insert (be_target e) E"
  have "partly_linked lower kws (fold (link_edge s) es ?b) S (?E \<union> be_target ` set es) \<and> same_shape ?b (fold (link_edge s) es ?b)"
  proof (rule Cons.IH)
    show "partly_linked lower kws ?b S ?E" using step by blast
    show "i \<in> ?E" if "i < length S" "length (S ! i) \<le> length (S ! s)" for i using Cons.prems(2) [OF that] by simp
    show "be_target x < length S \<and> S ! be_target x = S ! s @ [be_label x] \<and> be_target x \<notin> ?E" if "x \<in> set es" for x
    proof -
      have "be_target x \<noteq> be_target e" using Cons.prems(4) that by (auto simp: image_iff)
      then show ?thesis using Cons.prems(3) [of x] that by simp
    qed
    show "distinct (map be_target es)" using Cons.prems(4) by simp
  qed
  then show ?case using step same_shape_trans by auto
qed

text \<open>The queue: enqueued nodes are linked; the queue is ordered by depth; what is not enqueued has a parent that is
  waiting or not enqueued either.\<close>

definition queue_inv :: "string list \<Rightarrow> nat set \<Rightarrow> nat list \<Rightarrow> bool" where
  "queue_inv S E q \<longleftrightarrow> 0 \<in> E \<and> 0 \<notin> set q \<and> set q \<subseteq> E \<and> distinct q \<and> sorted (map (\<lambda>i. length (S ! i)) q) \<and>
     (\<forall>i \<in> set q. length (S ! i) \<le> Suc (length (S ! hd q))) \<and>
     (\<forall>t < length S. \<forall>p < length S. \<forall>l. S ! t = S ! p @ [l] \<longrightarrow>
        (t \<notin> E \<longrightarrow> p \<in> set q \<or> p \<notin> E) \<and> (t \<in> E \<longrightarrow> p \<in> E \<and> p \<notin> set q))"

lemma parent:
  assumes "trie b S" "t < length S" "t \<noteq> 0"
  obtains p l where "p < length S" "S ! t = S ! p @ [l]" "length (S ! p) < length (S ! t)"
proof -
  have "S ! t \<noteq> []" using assms trieD(2,3,4) [OF assms(1)] by (metis length_greater_0_conv nth_eq_iff_index_eq)
  then obtain w l where w: "S ! t = w @ [l]" by (cases "S ! t" rule: rev_cases) auto
  then have "w \<in> set S" using trieD(6) [OF assms(1)] nth_mem [OF assms(2)] unfolding prefix_closed_def by metis
  then obtain p where "p < length S" "S ! p = w" by (auto simp: in_set_conv_nth)
  then show thesis using that w by simp
qed

text \<open>Nodes no deeper than the head of the queue are enqueued; with an empty queue, all are.\<close>

lemma queue_shallow:
  assumes t: "trie b S" and q: "queue_inv S E q"
  shows "i < length S \<Longrightarrow> (\<forall>s \<in> set q. length (S ! i) \<le> length (S ! s)) \<Longrightarrow> i \<in> E"
proof (induction "length (S ! i)" arbitrary: i rule: less_induct)
  case less
  show ?case
  proof (cases "i = 0")
    case True
    then show ?thesis using q by (simp add: queue_inv_def)
  next
    case False
    then obtain p l where p: "p < length S" "S ! i = S ! p @ [l]" "length (S ! p) < length (S ! i)"
      using parent [OF t less.prems(1)] by metis
    have "p \<in> E" using less.hyps [OF p(3,1)] less.prems(2) p(3) by fastforce
    moreover have "p \<notin> set q" using less.prems(2) p(3) by fastforce
    ultimately show ?thesis using q p(1,2) less.prems(1) unfolding queue_inv_def by blast
  qed
qed

lemma queue_inv_step:
  assumes t: "trie b S" and q: "queue_inv S E (s # q)" and E: "E \<subseteq> {..<length S}"
    and T: "\<And>c. c \<in> set T \<longleftrightarrow> c < length S \<and> (\<exists>l. S ! c = S ! s @ [l])" "distinct T"
  shows "queue_inv S (E \<union> set T) (q @ T) \<and> set T \<inter> E = {}"
proof -
  have Q: "0 \<in> E" "0 \<notin> set (s # q)" "set (s # q) \<subseteq> E" "distinct (s # q)" "sorted (map (\<lambda>i. length (S ! i)) (s # q))"
    "\<And>i. i \<in> set (s # q) \<Longrightarrow> length (S ! i) \<le> Suc (length (S ! s))"
    using q unfolding queue_inv_def by auto
  have P: "t < length S \<Longrightarrow> p < length S \<Longrightarrow> S ! t = S ! p @ [l] \<Longrightarrow>
      (t \<notin> E \<longrightarrow> p \<in> set (s # q) \<or> p \<notin> E) \<and> (t \<in> E \<longrightarrow> p \<in> E \<and> p \<notin> set (s # q))" for t p l
    using q unfolding queue_inv_def by blast
  have s: "s < length S" "s \<in> E" using Q(3) E by auto
  have disj: "c \<notin> E" if "c \<in> set T" for c using T(1) [of c] that P [of c s] s(1) by auto
  have depth: "length (S ! c) = Suc (length (S ! s))" if "c \<in> set T" for c using T(1) [of c] that by auto
  have uniq: "p = s" if "c \<in> set T" "p < length S" "S ! c = S ! p @ [l]" for c p l
    using T(1) [of c] that trieD(4) [OF t] s(1) by (auto simp: nth_eq_iff_index_eq)
  have sorted: "sorted (map (\<lambda>i. length (S ! i)) (q @ T))"
    using Q(5,6) depth by (auto simp: sorted_append sorted_wrt_map intro: sorted_wrt_mono_rel [of _ "\<lambda>_ _. True"])
  have hd: "length (S ! i) \<le> Suc (length (S ! hd (q @ T)))" if i: "i \<in> set (q @ T)" for i
  proof -
    have "length (S ! i) \<le> Suc (length (S ! s))" using i Q(6) depth by auto
    moreover have "hd (q @ T) \<in> set (q @ T)" using i by (intro hd_in_set) auto
    then have "length (S ! s) \<le> length (S ! hd (q @ T))" using Q(5) depth by auto
    ultimately show ?thesis by simp
  qed
  have par: "(t \<notin> E \<union> set T \<longrightarrow> p \<in> set (q @ T) \<or> p \<notin> E \<union> set T) \<and> (t \<in> E \<union> set T \<longrightarrow> p \<in> E \<union> set T \<and> p \<notin> set (q @ T))"
    if tp: "t < length S" "p < length S" "S ! t = S ! p @ [l]" for t p l
  proof (cases "t \<in> set T")
    case True
    then have "p = s" using uniq tp by blast
    then show ?thesis using True s Q(4) disj by auto
  next
    case False
    then have "p \<noteq> s" using T(1) [of t] tp by auto
    then show ?thesis using P [OF tp] False disj by auto
  qed
  have "0 \<notin> set T" using depth [of 0] trieD(3) [OF t] by auto
  then have basic: "0 \<in> E \<union> set T" "0 \<notin> set (q @ T)" "set (q @ T) \<subseteq> E \<union> set T" "distinct (q @ T)" "set T \<inter> E = {}"
    using Q(1-4) T(2) disj by auto
  have "\<forall>t < length S. \<forall>p < length S. \<forall>l. S ! t = S ! p @ [l] \<longrightarrow>
      (t \<notin> E \<union> set T \<longrightarrow> p \<in> set (q @ T) \<or> p \<notin> E \<union> set T) \<and> (t \<in> E \<union> set T \<longrightarrow> p \<in> E \<union> set T \<and> p \<notin> set (q @ T))"
    using par by blast
  then show ?thesis unfolding queue_inv_def using basic sorted hd by blast
qed

lemma children:
  assumes "trie b S" "s < length S"
  shows "c \<in> set (map be_target (out_edges b s)) \<longleftrightarrow> c < length S \<and> (\<exists>l. S ! c = S ! s @ [l])"
    and "distinct (map be_target (out_edges b s))"
    and "e \<in> set (out_edges b s) \<Longrightarrow> be_target e < length S \<and> S ! be_target e = S ! s @ [be_label e]"
proof -
  note iff = trieD(8) [OF assms]
  show c: "c \<in> set (map be_target (out_edges b s)) \<longleftrightarrow> c < length S \<and> (\<exists>l. S ! c = S ! s @ [l])" for c
    using iff [where t = c] by auto
  show e: "e \<in> set (out_edges b s) \<Longrightarrow> be_target e < length S \<and> S ! be_target e = S ! s @ [be_label e]" for e
    using iff [of "be_label e" "be_target e"] by blast
  have "inj_on be_label (set (out_edges b s))" "distinct (out_edges b s)" using trieD(7) [OF assms] by (auto simp: distinct_map)
  then show "distinct (map be_target (out_edges b s))" using e unfolding distinct_map inj_on_def by (metis last_snoc)
qed

lemma link_queue_spec:
  "partly_linked lower kws b S E \<Longrightarrow> queue_inv S E q \<Longrightarrow> length S \<le> n + card (E - set q) \<Longrightarrow>
   partly_linked lower kws (link_queue n q b) S {..<length S} \<and> same_shape b (link_queue n q b)"
proof (induction n q b arbitrary: E rule: link_queue.induct)
  case (1 q b)
  have E: "E \<subseteq> {..<length S}" using 1(1) by (simp add: partly_linked_def)
  then have "E - set q = {..<length S}" using 1(3) by (intro card_subset_eq) (auto intro: card_mono [of "{..<length S}", simplified] antisym)
  then have "E = {..<length S}" using E by blast
  then show ?case using 1(1) by (simp add: same_shape_def)
next
  case (2 n b)
  have E: "E \<subseteq> {..<length S}" "trie b S" using 2(1) by (simp_all add: partly_linked_def)
  then have "E = {..<length S}" using queue_shallow [OF E(2) 2(2)] by auto
  then show ?case using 2(1) by (simp add: same_shape_def)
next
  case (3 n s q b)
  have E: "E \<subseteq> {..<length S}" "trie b S" using 3(2) by (simp_all add: partly_linked_def)
  have s: "s < length S" "s \<noteq> 0" "s \<notin> set q" "s \<in> E" "sorted (map (\<lambda>i. length (S ! i)) (s # q))"
    using 3(3) E(1) by (auto simp: queue_inv_def)
  have ne: "S ! s \<noteq> []" using trieD(2,3,4) [OF E(2)] s(1,2) by (metis length_greater_0_conv nth_eq_iff_index_eq)
  let ?T = "map be_target (out_edges b s)" and ?b = "fold (link_edge s) (out_edges b s) b"
  have qi: "queue_inv S (E \<union> set ?T) (q @ ?T) \<and> set ?T \<inter> E = {}"
    by (rule queue_inv_step [OF E(2) 3(3) E(1) children(1,2) [OF E(2) s(1)]])
  have low: "i \<in> E" if "i < length S" "length (S ! i) \<le> length (S ! s)" for i
    using queue_shallow [OF E(2) 3(3) that(1)] that(2) s(5) by fastforce
  have "partly_linked lower kws ?b S (E \<union> be_target ` set (out_edges b s)) \<and> same_shape b ?b"
  proof (rule link_edges_spec [OF s(1) ne 3(2) low])
    show "be_target e < length S \<and> S ! be_target e = S ! s @ [be_label e] \<and> be_target e \<notin> E" if "e \<in> set (out_edges b s)" for e
      using children(3) [OF E(2) s(1) that] qi that by auto
  qed (auto simp: children(2) [OF E(2) s(1)])
  then have p: "partly_linked lower kws ?b S (E \<union> set ?T)" "same_shape b ?b" by simp_all
  have fin: "finite E" using E(1) finite_subset by blast
  have "E \<union> set ?T - set (q @ ?T) = insert s (E - set (s # q))" using qi s by auto
  then have "card (E \<union> set ?T - set (q @ ?T)) = Suc (card (E - set (s # q)))" using fin by simp
  then have "length S \<le> n + card (E \<union> set ?T - set (q @ ?T))" using 3(4) by simp
  then have "partly_linked lower kws (link_queue n (q @ ?T) ?b) S {..<length S} \<and> same_shape ?b (link_queue n (q @ ?T) ?b)"
    using 3(1) p(1) qi by blast
  then show ?case using same_shape_trans p(2) by simp
qed

text \<open>The queue starts with the children of the root, whose failure is the root.\<close>

lemma link_start:
  assumes m: "marked lower kws (length kws) b S" and l: "\<And>w. lower w = '''' \<Longrightarrow> w = ''''"
  defines "T \<equiv> map be_target (out_edges b 0)"
  shows "partly_linked lower kws b S (insert 0 (set T)) \<and> queue_inv S (insert 0 (set T)) T"
proof -
  have t: "trie b S" using m by (simp add: marked_def)
  note D = trieD [OF t]
  have z: "0 < length S" "S ! 0 = []" using D(2,3) by auto
  have T: "c \<in> set T \<longleftrightarrow> c < length S \<and> (\<exists>l. S ! c = [l])" for c
    unfolding T_def children(1) [OF t z(1)] z(2) append_Nil by (rule refl)
  have dT: "distinct T" unfolding T_def by (rule children(2) [OF t z(1)])
  have len: "length (S ! c) = 1" if "c \<in> set T" for c using that unfolding T by auto
  have M: "kn_best (kb_nodes b ! i) = find (exact lower kws (S ! i)) [0..<length kws]" "kn_failure (kb_nodes b ! i) = 0"
    if "i < length S" for i using m that by (simp_all add: marked_def)
  have short: "best_of lower kws w = find (exact lower kws w) [0..<length kws]" if w: "length w \<le> 1" for w
  proof -
    have sfx: "suffix x w \<longleftrightarrow> x = w" if "x \<noteq> []" for x using that w by (cases w) (auto simp: suffix_Cons)
    have "(\<lambda>k. kws ! k \<noteq> [] \<and> suffix (lower (kws ! k)) w) = exact lower kws w"
      unfolding exact_def using l sfx by metis
    then show ?thesis unfolding best_of_def by simp
  qed
  have lk: "linked lower kws b S i" if "i \<in> insert 0 (set T)" "i < length S" for i
  proof -
    have "length (S ! i) \<le> 1" using that len z by (cases "i = 0") auto
    moreover from this have "tl (S ! i) = []" by (cases "S ! i") auto
    ultimately show ?thesis using M [OF that(2)] short z unfolding linked_def by simp
  qed
  have p: "partly_linked lower kws b S (insert 0 (set T))"
    unfolding partly_linked_def raw_def using m t lk M z(1) unfolding marked_def T_def [symmetric] by (simp add: T subset_iff)
  have "0 \<notin> set T" using len [of 0] z by auto
  moreover have "sorted (map (\<lambda>i. length (S ! i)) T)" by (simp add: sorted_wrt_map sorted_wrt_iff_nth_less len)
  moreover have "length (S ! i) \<le> Suc (length (S ! hd T))" if "i \<in> set T" for i using len [OF that] by simp
  moreover have "(t \<notin> insert 0 (set T) \<longrightarrow> p \<in> set T \<or> p \<notin> insert 0 (set T)) \<and> (t \<in> insert 0 (set T) \<longrightarrow> p \<in> insert 0 (set T) \<and> p \<notin> set T)"
    if tp: "t < length S" "p < length S" "S ! t = S ! p @ [l]" for t p l
  proof -
    have "p = 0 \<longleftrightarrow> S ! p = []" using D(4) z tp(2) by (metis nth_eq_iff_index_eq)
    moreover have "t \<noteq> 0" using tp(3) z(2) by (metis snoc_eq_iff_butlast)
    ultimately show ?thesis using T [of t] T [of p] tp by auto
  qed
  moreover have "set T \<subseteq> insert 0 (set T)" "0 \<in> insert 0 (set T)" by auto
  ultimately have "queue_inv S (insert 0 (set T)) T" unfolding queue_inv_def using dT by blast
  then show ?thesis using p by blast
qed

end
