(* ===== verification/KeywordScan.thy ===== *)
theory KeywordScan
  imports KeywordCorrect "HOL-Library.Multiset"
begin

text \<open>
  The finished arrays of the keyword matcher and the scan over a text: every node's edges are a sorted slice, binary search
  finds them, advancing keeps the node of the longest suffix, and the scan returns the first keyword that occurs.
\<close>

section \<open>The sorted edges of a node\<close>

abbreviation ke_code :: "kw_edge \<Rightarrow> nat" where
  "ke_code e \<equiv> of_char (ke_label e)"

lemma sorted_rev_dropWhile:
  fixes f :: "'a \<Rightarrow> nat"
  shows "sorted (map f (rev xs)) \<Longrightarrow> x \<in> set (dropWhile (\<lambda>e. c < f e) xs) \<Longrightarrow> f x \<le> c"
  by (induction xs) (auto simp: sorted_append split: if_splits intro: le_trans)

lemma insert_edge_sorted:
  assumes "sorted (map ke_code out)"
  shows "sorted (map ke_code (insert_edge out cur))" and "mset (insert_edge out cur) = add_mset cur (mset out)"
proof -
  let ?P = "\<lambda>e. of_char (ke_label cur) < ke_code e"
  let ?xs = "takeWhile ?P (rev out)" and ?ys = "dropWhile ?P (rev out)"
  have "rev out = ?xs @ ?ys" by simp
  then have out: "out = rev ?ys @ rev ?xs" by (metis rev_append rev_rev_ident)
  have "sorted (map ke_code (rev ?ys @ rev ?xs))" using assms out by simp
  moreover have "ke_code x \<le> ke_code cur" if "x \<in> set ?ys" for x using sorted_rev_dropWhile [of ke_code "rev out"] assms that by simp
  moreover have "ke_code cur < ke_code x" if "x \<in> set ?xs" for x using set_takeWhileD [OF that] by blast
  ultimately show "sorted (map ke_code (insert_edge out cur))"
    unfolding insert_edge_def by (fastforce simp: sorted_append)
  have "mset out = mset ?ys + mset ?xs" using arg_cong [OF out, of mset] by simp
  then show "mset (insert_edge out cur) = add_mset cur (mset out)" unfolding insert_edge_def by simp
qed

lemma foldl_insert_edge:
  "sorted (map ke_code out) \<Longrightarrow> sorted (map ke_code (foldl insert_edge out es)) \<and> mset (foldl insert_edge out es) = mset out + mset es"
proof (induction es arbitrary: out)
  case (Cons e es)
  then show ?case using insert_edge_sorted [OF Cons.prems, of e] by simp
qed simp

lemma sorted_edges_spec:
  "sorted (map ke_code (sorted_edges b s))"
  "set (sorted_edges b s) = (\<lambda>e. \<lparr>ke_target = be_target e, ke_label = be_label e\<rparr>) ` set (out_edges b s)"
proof -
  note F = foldl_insert_edge [of "[]" "map (\<lambda>e. \<lparr>ke_target = be_target e, ke_label = be_label e\<rparr>) (out_edges b s)"]
  then show "sorted (map ke_code (sorted_edges b s))" by (simp add: sorted_edges_def)
  have "mset (sorted_edges b s) = mset (map (\<lambda>e. \<lparr>ke_target = be_target e, ke_label = be_label e\<rparr>) (out_edges b s))"
    using F by (simp add: sorted_edges_def)
  then have "set (sorted_edges b s) = set (map (\<lambda>e. \<lparr>ke_target = be_target e, ke_label = be_label e\<rparr>) (out_edges b s))"
    by (rule mset_eq_setD)
  then show "set (sorted_edges b s) = (\<lambda>e. \<lparr>ke_target = be_target e, ke_label = be_label e\<rparr>) ` set (out_edges b s)" by simp
qed

section \<open>The flattened arrays\<close>

lemma flatten_spec:
  "flatten b i ns edges = (ns', es') \<Longrightarrow>
   length ns' = length ns \<and> prefix edges es' \<and>
   (\<forall>j < length ns. \<exists>st. ns' ! j = (ns ! j)\<lparr>kn_edgeStart := st, kn_edgeCount := length (sorted_edges b (i + j))\<rparr> \<and>
      (\<exists>pre post. es' = pre @ sorted_edges b (i + j) @ post \<and> st = length pre))"
proof (induction b i ns edges arbitrary: ns' es' rule: flatten.induct)
  case (2 b i n ns edges)
  obtain ms fs where r: "flatten b (Suc i) ns (edges @ sorted_edges b i) = (ms, fs)" by (cases "flatten b (Suc i) ns (edges @ sorted_edges b i)")
  have ns': "ns' = n\<lparr>kn_edgeStart := length edges, kn_edgeCount := length (sorted_edges b i)\<rparr> # ms" "es' = fs"
    using 2(2) r by (simp_all add: Let_def)
  have IH: "length ms = length ns" "prefix (edges @ sorted_edges b i) fs"
    "\<And>j. j < length ns \<Longrightarrow> \<exists>st. ms ! j = (ns ! j)\<lparr>kn_edgeStart := st, kn_edgeCount := length (sorted_edges b (Suc i + j))\<rparr> \<and>
      (\<exists>pre post. fs = pre @ sorted_edges b (Suc i + j) @ post \<and> st = length pre)"
    using 2(1) [OF refl r] by simp_all
  obtain post where post: "fs = (edges @ sorted_edges b i) @ post" using IH(2) by (auto simp: prefix_def)
  have "\<exists>st. ns' ! j = ((n # ns) ! j)\<lparr>kn_edgeStart := st, kn_edgeCount := length (sorted_edges b (i + j))\<rparr> \<and>
      (\<exists>pre post. es' = pre @ sorted_edges b (i + j) @ post \<and> st = length pre)" if "j < length (n # ns)" for j
  proof (cases j)
    case 0
    then show ?thesis using ns' post by auto
  next
    case (Suc k)
    then show ?thesis using IH(3) [of k] that ns' by simp
  qed
  then show ?case using ns' IH(1) post by simp
qed simp

section \<open>Binary search\<close>

lemma lower_bound_spec:
  "left \<le> right \<Longrightarrow> (\<And>i j. left \<le> i \<Longrightarrow> i \<le> j \<Longrightarrow> j < right \<Longrightarrow> ke_code (es ! i) \<le> ke_code (es ! j)) \<Longrightarrow>
   left \<le> lower_bound es l left right \<and> lower_bound es l left right \<le> right \<and>
   (\<forall>i. left \<le> i \<longrightarrow> i < lower_bound es l left right \<longrightarrow> ke_code (es ! i) < of_char l) \<and>
   (\<forall>i. lower_bound es l left right \<le> i \<longrightarrow> i < right \<longrightarrow> (of_char l :: nat) \<le> ke_code (es ! i))"
proof (induction es l left right rule: lower_bound.induct)
  case (1 es l left right)
  let ?mid = "left + (right - left) div 2"
  show ?case
  proof (cases "left < right")
    case False
    then have "lower_bound es l left right = left" by (simp add: lower_bound.simps [of es l left right])
    then show ?thesis using 1(3) False by simp
  next
    case True
    then have mid: "left \<le> ?mid" "?mid < right" by auto
    show ?thesis
    proof (cases "ke_code (es ! ?mid) < of_char l")
      case low: True
      have eq: "lower_bound es l left right = lower_bound es l (?mid + 1) right"
        using True low by (simp add: lower_bound.simps [of es l left right] Let_def)
      have IH: "?mid + 1 \<le> lower_bound es l (?mid + 1) right" "lower_bound es l (?mid + 1) right \<le> right"
        "\<And>i. ?mid + 1 \<le> i \<Longrightarrow> i < lower_bound es l (?mid + 1) right \<Longrightarrow> ke_code (es ! i) < of_char l"
        "\<And>i. lower_bound es l (?mid + 1) right \<le> i \<Longrightarrow> i < right \<Longrightarrow> (of_char l :: nat) \<le> ke_code (es ! i)"
        using 1(1) [OF True refl low] mid 1(4) by auto
      have "ke_code (es ! i) < of_char l" if "left \<le> i" "i < lower_bound es l (?mid + 1) right" for i
      proof (cases "i \<le> ?mid")
        case True
        then show ?thesis using 1(4) [of i ?mid] that(1) mid low by simp
      qed (use IH(3) that in simp)
      then show ?thesis unfolding eq using IH mid by auto
    next
      case high: False
      have eq: "lower_bound es l left right = lower_bound es l left ?mid"
        using True high by (simp add: lower_bound.simps [of es l left right] Let_def)
      have IH: "left \<le> lower_bound es l left ?mid" "lower_bound es l left ?mid \<le> ?mid"
        "\<And>i. left \<le> i \<Longrightarrow> i < lower_bound es l left ?mid \<Longrightarrow> ke_code (es ! i) < of_char l"
        "\<And>i. lower_bound es l left ?mid \<le> i \<Longrightarrow> i < ?mid \<Longrightarrow> (of_char l :: nat) \<le> ke_code (es ! i)"
        using 1(2) [OF True refl high] mid 1(4) by auto
      have "(of_char l :: nat) \<le> ke_code (es ! i)" if "lower_bound es l left ?mid \<le> i" "i < right" for i
      proof (cases "i < ?mid")
        case False
        then show ?thesis using 1(4) [of ?mid i] that(2) mid high by simp
      qed (use IH(4) that in simp)
      then show ?thesis unfolding eq using IH mid by auto
    qed
  qed
qed

section \<open>The finished automaton\<close>

text \<open>\<open>S\<close> lists the strings of the nodes; \<open>kw_next\<close> extends by a byte or gives the root.\<close>

definition automaton :: "(string \<Rightarrow> string) \<Rightarrow> string list \<Rightarrow> kw_matcher \<Rightarrow> string list \<Rightarrow> bool" where
  "automaton lower kws m S \<longleftrightarrow> length (km_nodes m) = length S \<and> S \<noteq> [] \<and> S ! 0 = [] \<and> distinct S \<and> prefix_closed (set S) \<and>
     (\<forall>k < length kws. kws ! k \<noteq> '''' \<longrightarrow> lower (kws ! k) \<in> set S) \<and>
     (\<forall>s < length S. length (S ! s) < length S \<and>
        kn_failure (km_nodes m ! s) < length S \<and> S ! kn_failure (km_nodes m ! s) = lsuf (set S) (tl (S ! s)) \<and>
        kn_best (km_nodes m ! s) = best_of lower kws (S ! s) \<and>
        (\<forall>l. (kw_next m s l = 0 \<and> S ! s @ [l] \<notin> set S) \<or> (kw_next m s l < length S \<and> S ! kw_next m s l = S ! s @ [l])))"

lemma automatonD:
  assumes "automaton lower kws m S"
  shows "length (km_nodes m) = length S" "S \<noteq> []" "S ! 0 = []" "distinct S" "prefix_closed (set S)"
    "\<And>k. k < length kws \<Longrightarrow> kws ! k \<noteq> '''' \<Longrightarrow> lower (kws ! k) \<in> set S"
    "\<And>s. s < length S \<Longrightarrow> length (S ! s) < length S"
    "\<And>s. s < length S \<Longrightarrow> kn_failure (km_nodes m ! s) < length S"
    "\<And>s. s < length S \<Longrightarrow> S ! kn_failure (km_nodes m ! s) = lsuf (set S) (tl (S ! s))"
    "\<And>s. s < length S \<Longrightarrow> kn_best (km_nodes m ! s) = best_of lower kws (S ! s)"
    "\<And>s l. s < length S \<Longrightarrow> (kw_next m s l = 0 \<and> S ! s @ [l] \<notin> set S) \<or> (kw_next m s l < length S \<and> S ! kw_next m s l = S ! s @ [l])"
  using assms unfolding automaton_def by (simp_all add: One_nat_def)

lemma kw_advance_spec:
  "automaton lower kws m S \<Longrightarrow> s < length S \<Longrightarrow> length (S ! s) \<le> n \<Longrightarrow>
    kw_advance n m s l < length S \<and> S ! kw_advance n m s l = lsuf (set S) (S ! s @ [l])"
proof (induction n m s l rule: kw_advance.induct)
  case (1 n m s l)
  note A = automatonD [OF 1(2)]
  note step = kw_advance.simps [of n m s l]
  have walk: "lsuf (set S) (S ! s @ [l]) =
      (if S ! s @ [l] \<in> set S then S ! s @ [l] else if S ! s = [] then [] else lsuf (set S) (lsuf (set S) (tl (S ! s)) @ [l]))"
    by (rule lsuf_walk [OF A(5)])
  have s0: "s = 0 \<longleftrightarrow> S ! s = []" using A(2,3,4) 1(3) by (metis length_greater_0_conv nth_eq_iff_index_eq)
  show ?case
  proof (cases "kw_next m s l = 0")
    case False
    then have "kw_next m s l < length S" "S ! kw_next m s l = S ! s @ [l]" using A(11) [OF 1(3), of l] by auto
    moreover from this have "S ! s @ [l] \<in> set S" using nth_mem by metis
    ultimately show ?thesis using False step walk by (simp add: Let_def)
  next
    case True
    then have no: "S ! s @ [l] \<notin> set S" using A(3) A(11) [OF 1(3), of l] by auto
    show ?thesis
    proof (cases "s = 0")
      case root: True
      then show ?thesis using step walk no True A(2,3) by (simp add: Let_def)
    next
      case inner: False
      then have ne: "S ! s \<noteq> []" using s0 by simp
      then obtain n' where n: "n = Suc n'" using 1(4) by (cases n) auto
      let ?f = "kn_failure (km_nodes m ! s)"
      have "length (S ! ?f) < length (S ! s)" using A(9) [OF 1(3)] lsuf_tl_shorter [OF ne] by simp
      then have "length (S ! ?f) \<le> n'" using 1(4) n by simp
      then have "kw_advance n' m ?f l < length S \<and> S ! kw_advance n' m ?f l = lsuf (set S) (S ! ?f @ [l])"
        using 1(1) [OF refl _ inner n 1(2) A(8) [OF 1(3)]] True by simp
      moreover have "kw_advance n m s l = kw_advance n' m ?f l" using step True inner n by (simp add: Let_def)
      ultimately show ?thesis using walk no ne A(9) [OF 1(3)] by simp
    qed
  qed
qed

section \<open>Scanning\<close>

definition occurs_first :: "(string \<Rightarrow> string) \<Rightarrow> string list \<Rightarrow> string \<Rightarrow> nat option" where
  "occurs_first lower kws w = find (\<lambda>k. kws ! k \<noteq> '''' \<and> sublist (lower (kws ! k)) w) [0..<length kws]"

lemma best_of_lsuf:
  assumes "[] \<in> S" "\<And>k. k < length kws \<Longrightarrow> kws ! k \<noteq> '''' \<Longrightarrow> lower (kws ! k) \<in> S"
  shows "best_of lower kws (lsuf S w) = best_of lower kws w"
  unfolding best_of_def
proof (rule find_cong [OF refl])
  fix k
  assume "k \<in> set [0..<length kws]"
  then have "k < length kws" by simp
  then show "(kws ! k \<noteq> '''' \<and> suffix (lower (kws ! k)) (lsuf S w)) \<longleftrightarrow> (kws ! k \<noteq> '''' \<and> suffix (lower (kws ! k)) w)"
    using assms(2) lsuf_max lsuf_suffix suffix_order.trans by metis
qed

lemma occurs_first_snoc: "occurs_first lower kws (w @ [l]) = min_index (occurs_first lower kws w) (best_of lower kws (w @ [l]))"
proof -
  have "(\<lambda>k. kws ! k \<noteq> '''' \<and> sublist (lower (kws ! k)) (w @ [l])) =
      (\<lambda>k. (kws ! k \<noteq> '''' \<and> sublist (lower (kws ! k)) w) \<or> (kws ! k \<noteq> '''' \<and> suffix (lower (kws ! k)) (w @ [l])))"
    by (auto simp: sublist_snoc)
  then show ?thesis unfolding occurs_first_def best_of_def by (simp only: find_min)
qed

lemma min_index_zero: "min_index (Some 0) y = Some 0"
  by (cases y) (auto simp: min_index_def)

lemma occurs_first_zero: "occurs_first lower kws w = Some 0 \<Longrightarrow> occurs_first lower kws (w @ v) = Some 0"
proof (induction v rule: rev_induct)
  case (snoc l v)
  then show ?case using occurs_first_snoc [of lower kws "w @ v" l] min_index_zero by simp
qed simp

lemma kw_scan_spec:
  assumes a: "automaton lower kws m S"
  shows "s < length S \<Longrightarrow> S ! s = lsuf (set S) w \<Longrightarrow> kw_scan m s (occurs_first lower kws w) ls = occurs_first lower kws (w @ ls)"
proof (induction ls arbitrary: s w)
  case Nil
  then show ?case by simp
next
  case (Cons l ls)
  note A = automatonD [OF a]
  have nil: "[] \<in> set S" using A(5) by (simp add: prefix_closed_def)
  let ?s = "kw_advance (length (km_nodes m)) m s l"
  have "length (S ! s) \<le> length (km_nodes m)" using A(1) A(7) [OF Cons.prems(1)] by simp
  then have s: "?s < length S" "S ! ?s = lsuf (set S) (w @ [l])"
    using kw_advance_spec [OF a Cons.prems(1)] Cons.prems(2) lsuf_snoc [OF A(5)] by simp_all
  have "kn_best (km_nodes m ! ?s) = best_of lower kws (w @ [l])"
    using A(10) [OF s(1)] s(2) best_of_lsuf [of "set S" kws lower, OF nil] A(6) by simp
  then have best: "min_index (occurs_first lower kws w) (kn_best (km_nodes m ! ?s)) = occurs_first lower kws (w @ [l])"
    by (simp add: occurs_first_snoc)
  show ?case
  proof (cases "occurs_first lower kws (w @ [l]) = Some 0")
    case True
    then show ?thesis using best occurs_first_zero [OF True, of ls] by (simp add: Let_def)
  next
    case False
    then show ?thesis using best Cons.IH [OF s] by (simp add: Let_def)
  qed
qed

section \<open>From the build to the automaton\<close>

lemma root_table:
  "distinct (map be_label es) \<Longrightarrow>
   (\<exists>e \<in> set es. be_label e = c \<and> fold (\<lambda>e g. g(be_label e := be_target e)) es g c = be_target e) \<or>
   ((\<forall>e \<in> set es. be_label e \<noteq> c) \<and> fold (\<lambda>e g. g(be_label e := be_target e)) es g c = g c)"
proof (induction es arbitrary: g)
  case (Cons e es)
  have "distinct (map be_label es)" "be_label e \<notin> be_label ` set es" using Cons.prems by auto
  then show ?case using Cons.IH [of "g(be_label e := be_target e)"] by (cases "be_label e = c") auto
qed simp

text \<open>Binary search in a slice finds the edge with the label, if there is one.\<close>

lemma slice_search:
  assumes es: "es = pre @ out @ post" and srt: "sorted (map ke_code out)"
    and p_def: "p = lower_bound es l (length pre) (length pre + length out)"
  shows "(p < length pre + length out \<and> ke_label (es ! p) = l \<and> es ! p \<in> set out) \<or>
    (\<not> (p < length pre + length out \<and> ke_label (es ! p) = l) \<and> (\<forall>e \<in> set out. ke_label e \<noteq> l))"
proof -
  let ?n = "length pre"
  have at: "es ! (?n + i) = out ! i" if "i < length out" for i using that es by (simp add: nth_append)
  have at': "es ! j = out ! (j - ?n)" if "?n \<le> j" "j < ?n + length out" for j using at [of "j - ?n"] that by simp
  have ord: "ke_code (es ! i) \<le> ke_code (es ! j)" if "?n \<le> i" "i \<le> j" "j < ?n + length out" for i j
    using sorted_nth_mono [OF srt, of "i - ?n" "j - ?n"] that at' by simp
  have L: "?n \<le> p" "p \<le> ?n + length out" "\<And>i. ?n \<le> i \<Longrightarrow> i < p \<Longrightarrow> ke_code (es ! i) < of_char l"
    "\<And>i. p \<le> i \<Longrightarrow> i < ?n + length out \<Longrightarrow> (of_char l :: nat) \<le> ke_code (es ! i)"
    using lower_bound_spec [of ?n "?n + length out" es l, OF _ ord] unfolding p_def by auto
  show ?thesis
  proof (cases "p < ?n + length out \<and> ke_label (es ! p) = l")
    case True
    then have "p - ?n < length out" "es ! p = out ! (p - ?n)" using at' [OF L(1)] L(1) by auto
    then show ?thesis using True nth_mem by metis
  next
    case False
    have "ke_label e \<noteq> l" if "e \<in> set out" for e
    proof
      assume l: "ke_label e = l"
      obtain i where i: "i < length out" "out ! i = e" using \<open>e \<in> set out\<close> by (auto simp: in_set_conv_nth)
      have "p \<le> ?n + i" using L(3) [of "?n + i"] at [OF i(1)] i(2) l by (metis le_add1 less_irrefl not_le)
      then have p: "p < ?n + length out" "ke_code (es ! p) \<le> ke_code e" using ord [OF L(1), of "?n + i"] i at by auto
      then have "ke_code (es ! p) = of_char l" using L(4) [OF order_refl p(1)] l by simp
      then have "ke_label (es ! p) = l" by simp
      then show False using False p(1) by simp
    qed
    then show ?thesis using False by blast
  qed
qed

lemma finished_automaton:
  assumes p: "partly_linked lower kws b S {..<length S}"
    and f: "flatten b 0 (kb_nodes b) [] = (nodes, edges)"
    and m: "m = \<lparr>km_nodes = nodes, km_edges = edges,
      km_root = fold (\<lambda>e g. g(be_label e := be_target e)) (out_edges b 0) (\<lambda>_. 0), km_keywords = kws\<rparr>"
  shows "automaton lower kws m S"
proof -
  have t: "trie b S" and lk: "\<And>i. i < length S \<Longrightarrow> linked lower kws b S i"
    and kw: "\<And>k. k < length kws \<Longrightarrow> kws ! k \<noteq> '''' \<Longrightarrow> lower (kws ! k) \<in> set S" using p by (simp_all add: partly_linked_def)
  note D = trieD [OF t]
  have len: "length nodes = length S" "length S = length (kb_nodes b)" using flatten_spec [OF f] t by (simp_all add: trie_def)
  have node: "\<exists>pre post. edges = pre @ sorted_edges b s @ post \<and>
      nodes ! s = (kb_nodes b ! s)\<lparr>kn_edgeStart := length pre, kn_edgeCount := length (sorted_edges b s)\<rparr>" if "s < length S" for s
    using flatten_spec [OF f] that len(2) by fastforce
  have step: "(kw_next m s l = 0 \<and> S ! s @ [l] \<notin> set S) \<or> (kw_next m s l < length S \<and> S ! kw_next m s l = S ! s @ [l])"
    if s: "s < length S" for s l
  proof -
    have edge: "be_target e < length S \<and> S ! be_target e = S ! s @ [l]" if "e \<in> set (out_edges b s)" "be_label e = l" for e
      using D(8) [OF s, of l "be_target e"] that by blast
    have none: "S ! s @ [l] \<notin> set S" if "\<forall>e \<in> set (out_edges b s). be_label e \<noteq> l"
    proof
      assume "S ! s @ [l] \<in> set S"
      then obtain c where "c < length S" "S ! c = S ! s @ [l]" by (auto simp: in_set_conv_nth)
      then show False using D(8) [OF s, of l c] that by blast
    qed
    show ?thesis
    proof (cases "s = 0")
      case True
      then have "kw_next m s l = fold (\<lambda>e g. g(be_label e := be_target e)) (out_edges b s) (\<lambda>_. 0) l" by (simp add: kw_next_def m)
      then show ?thesis using root_table [OF D(7) [OF s], of l "\<lambda>_. 0"] edge none by metis
    next
      case False
      obtain pre post where pp: "edges = pre @ sorted_edges b s @ post"
        "nodes ! s = (kb_nodes b ! s)\<lparr>kn_edgeStart := length pre, kn_edgeCount := length (sorted_edges b s)\<rparr>" using node [OF s] by blast
      let ?p = "lower_bound edges l (length pre) (length pre + length (sorted_edges b s))"
      have nx: "kw_next m s l = (if ?p < length pre + length (sorted_edges b s) \<and> ke_label (edges ! ?p) = l then ke_target (edges ! ?p) else 0)"
        using False s len(1) pp(2) by (simp add: kw_next_def m Let_def)
      consider (hit) "?p < length pre + length (sorted_edges b s)" "ke_label (edges ! ?p) = l" "edges ! ?p \<in> set (sorted_edges b s)"
        | (miss) "\<not> (?p < length pre + length (sorted_edges b s) \<and> ke_label (edges ! ?p) = l)" "\<forall>e \<in> set (sorted_edges b s). ke_label e \<noteq> l"
        using slice_search [OF pp(1) sorted_edges_spec(1) refl, of l] by blast
      then show ?thesis
      proof cases
        case hit
        then obtain e where "e \<in> set (out_edges b s)" "edges ! ?p = \<lparr>ke_target = be_target e, ke_label = be_label e\<rparr>"
          using sorted_edges_spec(2) by blast
        then show ?thesis using nx hit(1,2) edge [of e] by simp
      next
        case miss
        have "\<forall>e \<in> set (out_edges b s). be_label e \<noteq> l" using miss(2) sorted_edges_spec(2) [of b s] by force
        then show ?thesis using nx miss(1) none by simp
      qed
    qed
  qed
  have "kn_failure (nodes ! s) = kn_failure (kb_nodes b ! s) \<and> kn_best (nodes ! s) = kn_best (kb_nodes b ! s)" if "s < length S" for s
    using node [OF that] by auto
  then show ?thesis unfolding automaton_def using D(2,3,4,6) kw step lk trie_depth [OF t] len(1) by (simp add: m linked_def)
qed

lemma built_marked: "\<exists>S. marked lower kws (length kws) (build_trie lower 0 kws \<lparr>kb_nodes = [new_node], kb_edges = []\<rparr>) S"
  by (rule build_trie_spec [OF marked_start]) simp_all

lemma matcher_automaton:
  assumes l: "\<And>w. lower w = '''' \<Longrightarrow> w = ''''" and m: "newKeywordMatcher lower kws = Some m"
  shows "km_keywords m = kws \<and> kws \<noteq> [] \<and> (\<exists>S. automaton lower kws m S)"
proof -
  let ?built = "build_trie lower 0 kws \<lparr>kb_nodes = [new_node], kb_edges = []\<rparr>"
  let ?b = "link_queue (length (kb_nodes ?built)) (map be_target (out_edges ?built 0)) ?built"
  obtain S where S: "marked lower kws (length kws) ?built S" using built_marked by blast
  then have len: "length (kb_nodes ?built) = length S" by (simp add: marked_def trie_def)
  have ls: "partly_linked lower kws ?b S {..<length S} \<and> same_shape ?built ?b"
    using link_queue_spec [OF conjunct1 [OF link_start [OF S l]] conjunct2 [OF link_start [OF S l]]] len by simp
  then have out: "out_edges ?b 0 = out_edges ?built 0" using same_shape_out by blast
  obtain nodes edges where f: "flatten ?b 0 (kb_nodes ?b) [] = (nodes, edges)" by (cases "flatten ?b 0 (kb_nodes ?b) []")
  have "kws \<noteq> [] \<and> m = \<lparr>km_nodes = nodes, km_edges = edges,
      km_root = fold (\<lambda>e g. g(be_label e := be_target e)) (out_edges ?b 0) (\<lambda>_. 0), km_keywords = kws\<rparr>"
    using m f out unfolding newKeywordMatcher_def by (simp add: Let_def split: if_splits)
  then show ?thesis using finished_automaton [OF conjunct1 [OF ls] f] by auto
qed

lemma no_matcher:
  assumes l: "\<And>w. lower w = '''' \<Longrightarrow> w = ''''" and m: "newKeywordMatcher lower kws = None" and k: "k < length kws"
  shows "kws ! k = ''''"
proof (rule ccontr)
  assume ne: "kws ! k \<noteq> ''''"
  let ?built = "build_trie lower 0 kws \<lparr>kb_nodes = [new_node], kb_edges = []\<rparr>"
  obtain S where S: "marked lower kws (length kws) ?built S" using built_marked by blast
  have "length (kb_nodes ?built) = 1" using m k unfolding newKeywordMatcher_def by (auto simp: Let_def split: if_splits prod.splits)
  then have "length S = 1" "S ! 0 = []" using S by (auto simp: marked_def trie_def)
  then have "set S = {[]}" by (cases S) auto
  moreover have "lower (kws ! k) \<in> set S" using S k ne by (simp add: marked_def)
  ultimately show False using l ne by simp
qed

text \<open>The first non-empty keyword, in list order, that occurs in the text once both are lowered.\<close>

definition first_keyword :: "(string \<Rightarrow> string) \<Rightarrow> string list \<Rightarrow> string \<Rightarrow> string option" where
  "first_keyword lower kws text =
     map_option (nth kws) (find (\<lambda>k. kws ! k \<noteq> '''' \<and> sublist (lower (kws ! k)) (lower text)) [0..<length kws])"

text \<open>C31: the keyword matcher is equivalent to searching the lowered text for every keyword in turn: for every list of
  keywords and every text, the automaton built by \<open>newContentModerationKeywordMatcher\<close> returns the first non-empty keyword
  whose lowered bytes occur in the lowered text, and nothing when none does (or when there is no matcher). The hypothesis is
  what \<open>strings.ToLower\<close> guarantees: only the empty string becomes empty.\<close>

theorem kw_Match_first:
  assumes "\<And>w. lower w = '''' \<longleftrightarrow> w = ''''"
  shows "kw_Match lower (newKeywordMatcher lower kws) text = first_keyword lower kws text"
proof -
  have fk: "first_keyword lower kws text = map_option (nth kws) (occurs_first lower kws (lower text))"
    by (simp add: first_keyword_def occurs_first_def)
  show ?thesis
  proof (cases "newKeywordMatcher lower kws")
    case None
    then have "occurs_first lower kws w = None" for w
      using no_matcher [OF iffD1 [OF assms] None] by (auto simp: occurs_first_def find_upt_None)
    then show ?thesis using None fk by (simp add: kw_Match_def)
  next
    case (Some m)
    then obtain S where m: "km_keywords m = kws" "kws \<noteq> []" and a: "automaton lower kws m S"
      using matcher_automaton [OF iffD1 [OF assms] Some] by blast
    note A = automatonD [OF a]
    have nil: "occurs_first lower kws '''' = None"
      using assms by (simp add: occurs_first_def find_upt_None)
    show ?thesis
    proof (cases "text = ''''")
      case True
      then have "lower text = ''''" using assms by simp
      then show ?thesis using fk nil Some True by (simp add: kw_Match_def)
    next
      case False
      have "kw_scan m 0 None (lower text) = occurs_first lower kws (lower text)"
        using kw_scan_spec [OF a, of 0 "''''" "lower text"] A(2,3) nil by simp
      moreover have "k < length kws" if "occurs_first lower kws (lower text) = Some k" for k
        using find_upt_less that unfolding occurs_first_def by blast
      ultimately show ?thesis using fk Some False m A(1,2) by (auto simp: kw_Match_def split: option.splits)
    qed
  qed
qed

definition ascii_lower :: "string \<Rightarrow> string" where
  "ascii_lower = map (\<lambda>c. if of_char c \<ge> (65::nat) \<and> of_char c \<le> (90::nat) then char_of (of_char c + (32::nat)) else c)"

theorem kw_Match_first_witness:
  "kw_Match ascii_lower (newKeywordMatcher ascii_lower [''Steal'', ''he'', '''', ''she'']) ''USHERS'' = Some ''he''"
proof -
  have "ascii_lower w = '''' \<longleftrightarrow> w = ''''" for w by (simp add: ascii_lower_def)
  then have "kw_Match ascii_lower (newKeywordMatcher ascii_lower [''Steal'', ''he'', '''', ''she'']) ''USHERS'' =
      first_keyword ascii_lower [''Steal'', ''he'', '''', ''she''] ''USHERS''" by (rule kw_Match_first)
  also have "\<dots> = Some ''he''" by code_simp
  finally show ?thesis .
qed

end
