(* ===== verification/Billing.thy ===== *)
theory Billing
  imports Decimal GoText Complex_Main
begin

text \<open>
  Usage billing: \<^verbatim>\<open>backend/internal/service/usage_billing.go\<close> (commands, fingerprints, quantization) and
  \<^verbatim>\<open>backend/internal/repository/usage_billing_repo.go\<close>, \<^verbatim>\<open>usage_billing_platform_quota.go\<close> (the transaction that claims a
  request and charges it). A row of a SQL table is a record, a statement a function on the tables, an error value the code
  returns is a constructor of \<open>billing_err\<close>; any failure of the database itself is the fault argument of the transaction.

  Amounts are rationals: a \<open>float64\<close> amount stands for its shortest decimal, which is what \<open>decimal.NewFromFloat\<close> reads and
  what the driver sends, and a NUMERIC column holds a decimal. \<open>gofloat\<close> adds the values that are no number where the code
  looks for them. The costs of a command are finite.
\<close>

section \<open>Amounts\<close>

datatype gofloat = Fin rat | NaN | PosInf | NegInf

text \<open>Rounding half away from zero to eight places, as PostgreSQL and \<open>decimal.Round\<close> do.\<close>

definition round8 :: "rat \<Rightarrow> rat" where
  "round8 x = sgn x * of_int \<lfloor>\<bar>x\<bar> * 100000000 + 1 / 2\<rfloor> / 100000000"

definition QuantizeUsageBillingAmount :: "gofloat \<Rightarrow> gofloat" where
  "QuantizeUsageBillingAmount v = (case v of Fin x \<Rightarrow> if x = 0 then v else Fin (round8 x) | _ \<Rightarrow> v)"

definition quantize :: "rat \<Rightarrow> rat" where
  "quantize x = (case QuantizeUsageBillingAmount (Fin x) of Fin y \<Rightarrow> y | _ \<Rightarrow> x)"

section \<open>Tables\<close>

datatype billing_err = BDb | BRequestIDRequired | BRequestConflict | BSubscriptionNotFound | BUserNotFound
  | BAPIKeyNotFound | BAccountNotFound | BNonFinite | BLegacyPrecision | BExceedsHold | BInsufficientBalance
  | BFrozenInsufficient | BOutcomeUnknown | BEventVersion | BBatchSize | BCache | BNoRows | BHoldFailed | BMissingAPIKeyID
  | BSettlementFailed

record billing_user =
  bu_deleted :: bool
  bu_balance :: rat
  bu_frozen :: rat

record billing_key =
  ky_deleted :: bool
  ky_status :: string
  ky_quota :: rat
  ky_quota_used :: rat
  ky_usage_5h :: rat
  ky_usage_1d :: rat
  ky_usage_7d :: rat
  ky_window_5h :: "gotime option"
  ky_window_1d :: "gotime option"
  ky_window_7d :: "gotime option"

record billing_sub =
  bs_deleted :: bool
  bs_group :: int
  bs_daily :: rat
  bs_weekly :: rat
  bs_monthly :: rat

text \<open>The JSON object \<open>accounts.extra\<close>: a number, a text holding a number, or null under a key; \<open>None\<close> when the key is absent.\<close>

datatype jnum = JNumber rat | JText rat | JNull

record account_extra =
  ax_used :: "jnum option"
  ax_limit :: "jnum option"
  ax_daily_used :: "jnum option"
  ax_daily_limit :: "jnum option"
  ax_daily_start :: "gotime option"
  ax_daily_mode :: "string option"
  ax_daily_reset_at :: "gotime option"
  ax_weekly_used :: "jnum option"
  ax_weekly_limit :: "jnum option"
  ax_weekly_start :: "gotime option"
  ax_weekly_mode :: "string option"
  ax_weekly_reset_at :: "gotime option"
  ax_schedule :: string

record billing_account =
  ba_deleted :: bool
  ba_extra :: "account_extra option"

record platform_quota =
  pq_user :: int
  pq_platform :: string
  pq_deleted :: bool
  pq_limited :: bool
  pq_daily_start :: "gotime option"
  pq_weekly_start :: "gotime option"
  pq_monthly_start :: "gotime option"

record quota_total =
  qt_usage :: rat
  qt_start :: gotime
  qt_anchor :: gotime

record platform_totals =
  pt_daily :: quota_total
  pt_weekly :: quota_total
  pt_monthly :: quota_total

datatype hold_state = Held | Captured | Released

record money_hold =
  mh_user :: int
  mh_amount :: rat
  mh_actual :: "rat option"
  mh_state :: hold_state

record billing_quote =
  bq_fingerprint :: string
  bq_quoted :: rat
  bq_canonical :: rat

section \<open>Commands\<close>

record UsageBillingCommand =
  uc_RequestID :: string
  uc_APIKeyID :: int
  uc_RequestFingerprint :: string
  uc_RequestPayloadHash :: string
  uc_UserID :: int
  uc_AccountID :: int
  uc_SubscriptionID :: "int option"
  uc_AccountType :: string
  uc_Model :: string
  uc_ServiceTier :: string
  uc_ReasoningEffort :: string
  uc_BillingType :: int
  uc_InputTokens :: int
  uc_OutputTokens :: int
  uc_CacheCreationTokens :: int
  uc_CacheReadTokens :: int
  uc_ImageCount :: int
  uc_MediaType :: string
  uc_BalanceCost :: rat
  uc_SubscriptionCost :: rat
  uc_APIKeyQuotaCost :: rat
  uc_APIKeyRateLimitCost :: rat
  uc_AccountQuotaCost :: rat
  uc_QuotedActualCost :: "gofloat option"
  uc_PlatformQuotaPlatform :: string
  uc_PlatformQuotaCost :: rat
  uc_PlatformUsageAt :: gotime
  uc_HasDailyLimit :: bool
  uc_HasWeeklyLimit :: bool

record AccountQuotaState =
  aq_TotalUsed :: rat
  aq_TotalLimit :: rat
  aq_DailyUsed :: rat
  aq_DailyLimit :: rat
  aq_WeeklyUsed :: rat
  aq_WeeklyLimit :: rat

record UsageBillingApplyResult =
  br_Applied :: bool
  br_APIKeyQuotaExhausted :: bool
  br_PlatformQuotaApplied :: bool
  br_NewBalance :: "rat option"
  br_BalanceOverdrafted :: bool
  br_QuotaState :: "AccountQuotaState option"

definition no_result :: UsageBillingApplyResult where
  "no_result = \<lparr>br_Applied = False, br_APIKeyQuotaExhausted = False, br_PlatformQuotaApplied = False,
     br_NewBalance = None, br_BalanceOverdrafted = False, br_QuotaState = None\<rparr>"

text \<open>The usage record that is stored with a charge; \<open>ul_rest\<close> is the part billing does not read.\<close>

record UsageLog =
  ul_RequestID :: string
  ul_APIKeyID :: int
  ul_UserID :: int
  ul_AccountID :: int
  ul_GroupID :: "int option"
  ul_CreatedAt :: gotime
  ul_relations :: bool
  ul_rest :: string

record UsageBillingEvent =
  ue_Version :: int
  ue_Command :: UsageBillingCommand
  ue_Usage :: UsageLog

datatype event_state = EPending | EApplied | EComplete | ELegacy | EBlocked

record billing_event =
  ev_fingerprint :: string
  ev_version :: int
  ev_payload :: UsageBillingEvent
  ev_state :: event_state
  ev_result :: "UsageBillingApplyResult option"
  ev_attempts :: int
  ev_failure :: "string option"
  ev_next :: gotime
  ev_observed :: gotime
  ev_staged :: gotime
  ev_applied :: "gotime option"
  ev_completed :: "gotime option"

type_synonym request_key = "string \<times> int"

record billing_db =
  bd_users :: "(int, billing_user) table"
  bd_keys :: "(int, billing_key) table"
  bd_subs :: "(int, billing_sub) table"
  bd_groups :: "(int, bool) table"
  bd_accounts :: "(int, billing_account) table"
  bd_quotas :: "(int, platform_quota) table"
  bd_totals :: "(int, platform_totals) table"
  bd_holds :: "(request_key, money_hold) table"
  bd_dedup :: "(request_key, string \<times> gotime) table"
  bd_archive :: "(request_key, string \<times> gotime) table"
  bd_quotes :: "(request_key, billing_quote) table"
  bd_logs :: "(request_key, UsageLog) table"
  bd_events :: "(request_key, billing_event) table"
  bd_outbox :: "int list"

text \<open>
  What a transaction takes from outside: the clock, the calendar (\<open>timezone.StartOfDay\<close>, \<open>StartOfWeek\<close>, \<open>date_trunc('day')\<close> and the
  next fixed reset of an account, all functions of the time-zone database), SHA-256 in hexadecimal, \<open>%0.10f\<close> and
  \<open>strings.ToLower\<close>.
\<close>

record billing_env =
  be_now :: gotime
  be_date_trunc :: "gotime \<Rightarrow> gotime"
  be_StartOfDay :: "gotime \<Rightarrow> gotime"
  be_StartOfWeek :: "gotime \<Rightarrow> gotime"
  be_next_daily :: "account_extra \<Rightarrow> gotime \<Rightarrow> gotime"
  be_next_weekly :: "account_extra \<Rightarrow> gotime \<Rightarrow> gotime"
  be_sha256hex :: "string \<Rightarrow> string"
  be_fmt10 :: "rat \<Rightarrow> string"
  be_ToLower :: "string \<Rightarrow> string"

section \<open>Normalization\<close>

definition valueOrZero :: "int option \<Rightarrow> int" where
  "valueOrZero v = (case v of None \<Rightarrow> 0 | Some n \<Rightarrow> n)"

fun join_bar :: "string list \<Rightarrow> string" where
  "join_bar [] = ''''"
| "join_bar [x] = x"
| "join_bar (x # xs) = x @ ''|'' @ join_bar xs"

definition buildUsageBillingFingerprint :: "billing_env \<Rightarrow> UsageBillingCommand \<Rightarrow> string" where
  "buildUsageBillingFingerprint env c =
     (let raw = join_bar
        [FormatInt (uc_UserID c), FormatInt (uc_AccountID c), FormatInt (uc_APIKeyID c), strings_TrimSpace (uc_AccountType c),
         strings_TrimSpace (uc_Model c), strings_TrimSpace (uc_ServiceTier c), strings_TrimSpace (uc_ReasoningEffort c), FormatInt (uc_BillingType c),
         FormatInt (uc_InputTokens c), FormatInt (uc_OutputTokens c), FormatInt (uc_CacheCreationTokens c),
         FormatInt (uc_CacheReadTokens c), FormatInt (uc_ImageCount c), strings_TrimSpace (uc_MediaType c),
         FormatInt (valueOrZero (uc_SubscriptionID c)), be_fmt10 env (uc_BalanceCost c), be_fmt10 env (uc_SubscriptionCost c),
         be_fmt10 env (uc_APIKeyQuotaCost c), be_fmt10 env (uc_APIKeyRateLimitCost c), be_fmt10 env (uc_AccountQuotaCost c)];
       hash = strings_TrimSpace (uc_RequestPayloadHash c)
      in be_sha256hex env (if hash \<noteq> '''' then raw @ ''|'' @ hash else raw))"

definition quantizeMonetaryFields :: "UsageBillingCommand \<Rightarrow> UsageBillingCommand" where
  "quantizeMonetaryFields c = c
     \<lparr>uc_BalanceCost := quantize (uc_BalanceCost c), uc_SubscriptionCost := quantize (uc_SubscriptionCost c),
      uc_APIKeyQuotaCost := quantize (uc_APIKeyQuotaCost c), uc_APIKeyRateLimitCost := quantize (uc_APIKeyRateLimitCost c),
      uc_AccountQuotaCost := quantize (uc_AccountQuotaCost c), uc_PlatformQuotaCost := quantize (uc_PlatformQuotaCost c)\<rparr>"

definition UsageBilling_Normalize :: "billing_env \<Rightarrow> UsageBillingCommand \<Rightarrow> UsageBillingCommand" where
  "UsageBilling_Normalize env c =
     (let c1 = c\<lparr>uc_RequestID := strings_TrimSpace (uc_RequestID c)\<rparr>;
          c2 = (if strings_TrimSpace (uc_RequestFingerprint c1) = ''''
                then c1\<lparr>uc_RequestFingerprint := buildUsageBillingFingerprint env c1\<rparr> else c1)
      in quantizeMonetaryFields c2)"

section \<open>Claiming a request\<close>

definition claim_key :: "request_key \<Rightarrow> string \<Rightarrow> gotime \<Rightarrow> billing_db \<Rightarrow> billing_err + (bool \<times> billing_db)" where
  "claim_key k fp now db =
     (case map_of (bd_dedup db) k of
        Some (old, _) \<Rightarrow>
          if strings_TrimSpace old \<noteq> strings_TrimSpace fp then Inl BRequestConflict else Inr (False, db)
      | None \<Rightarrow>
          let db1 = db\<lparr>bd_dedup := tput k (fp, now) (bd_dedup db)\<rparr> in
          case map_of (bd_archive db) k of
            Some (old, _) \<Rightarrow>
              if strings_TrimSpace old \<noteq> strings_TrimSpace fp then Inl BRequestConflict else Inr (False, db1)
          | None \<Rightarrow> Inr (True, db1))"

section \<open>The effects of a charge\<close>

definition incrementSubscription :: "int \<Rightarrow> rat \<Rightarrow> billing_db \<Rightarrow> billing_err + billing_db" where
  "incrementSubscription sid cost db =
     (case map_of (bd_subs db) sid of
        None \<Rightarrow> Inl BSubscriptionNotFound
      | Some s \<Rightarrow>
          if bs_deleted s \<or> map_of (bd_groups db) (bs_group s) \<noteq> Some False then Inl BSubscriptionNotFound
          else Inr (db\<lparr>bd_subs := tput sid (s\<lparr>bs_daily := bs_daily s + cost, bs_weekly := bs_weekly s + cost,
                 bs_monthly := bs_monthly s + cost\<rparr>) (bd_subs db)\<rparr>))"

definition live_user :: "billing_db \<Rightarrow> int \<Rightarrow> billing_user option" where
  "live_user db uid = (case map_of (bd_users db) uid of Some u \<Rightarrow> if bu_deleted u then None else Some u | None \<Rightarrow> None)"

definition put_user :: "int \<Rightarrow> billing_user \<Rightarrow> billing_db \<Rightarrow> billing_db" where
  "put_user uid u db = db\<lparr>bd_users := tput uid u (bd_users db)\<rparr>"

text \<open>The guarded update, then the unguarded one: the debt is recorded even when the balance does not cover it.\<close>

definition deductBalance :: "int \<Rightarrow> rat \<Rightarrow> billing_db \<Rightarrow> billing_err + ((rat \<times> bool) \<times> billing_db)" where
  "deductBalance uid amount db =
     (case live_user db uid of
        None \<Rightarrow> Inl BUserNotFound
      | Some u \<Rightarrow>
          let u' = u\<lparr>bu_balance := round8 (bu_balance u - amount)\<rparr> in
          if amount \<le> bu_balance u then Inr ((bu_balance u', True), put_user uid u' db)
          else Inr ((bu_balance u', False), put_user uid u' db))"

definition live_key :: "billing_db \<Rightarrow> int \<Rightarrow> billing_key option" where
  "live_key db kid = (case map_of (bd_keys db) kid of Some k \<Rightarrow> if ky_deleted k then None else Some k | None \<Rightarrow> None)"

definition StatusAPIKeyActive :: string where "StatusAPIKeyActive = ''active''"
definition StatusAPIKeyQuotaExhausted :: string where "StatusAPIKeyQuotaExhausted = ''quota_exhausted''"

definition incrementKeyQuota :: "int \<Rightarrow> rat \<Rightarrow> billing_db \<Rightarrow> billing_err + (bool \<times> billing_db)" where
  "incrementKeyQuota kid amount db =
     (case live_key db kid of
        None \<Rightarrow> Inl BAPIKeyNotFound
      | Some k \<Rightarrow>
          let used = round8 (ky_quota_used k + amount);
              status = (if ky_quota k > 0 \<and> ky_status k = StatusAPIKeyActive \<and> ky_quota_used k < ky_quota k \<and>
                           ky_quota_used k + amount \<ge> ky_quota k then StatusAPIKeyQuotaExhausted else ky_status k)
          in Inr (ky_quota k > 0 \<and> used \<ge> ky_quota k \<and> used - amount < ky_quota k,
                  db\<lparr>bd_keys := tput kid (k\<lparr>ky_quota_used := used, ky_status := status\<rparr>) (bd_keys db)\<rparr>))"

definition window_over :: "gotime option \<Rightarrow> duration \<Rightarrow> gotime \<Rightarrow> bool" where
  "window_over start len now \<longleftrightarrow> (case start of None \<Rightarrow> False | Some s \<Rightarrow> s + len \<le> now)"

definition next_window :: "gotime option \<Rightarrow> duration \<Rightarrow> gotime \<Rightarrow> gotime \<Rightarrow> gotime option" where
  "next_window start len now fresh = (if start = None \<or> window_over start len now then Some fresh else start)"

definition incrementKeyRateLimit :: "billing_env \<Rightarrow> int \<Rightarrow> rat \<Rightarrow> billing_db \<Rightarrow> billing_err + billing_db" where
  "incrementKeyRateLimit env kid cost db =
     (case live_key db kid of
        None \<Rightarrow> Inl BAPIKeyNotFound
      | Some k \<Rightarrow>
          let now = be_now env; day = be_date_trunc env now;
              bump = (\<lambda>start len used. if window_over start len now then cost else used + cost)
          in Inr (db\<lparr>bd_keys := tput kid
               (k\<lparr>ky_usage_5h := round8 (bump (ky_window_5h k) (5 * Hour) (ky_usage_5h k)),
                  ky_usage_1d := round8 (bump (ky_window_1d k) (24 * Hour) (ky_usage_1d k)),
                  ky_usage_7d := round8 (bump (ky_window_7d k) (7 * 24 * Hour) (ky_usage_7d k)),
                  ky_window_5h := next_window (ky_window_5h k) (5 * Hour) now now,
                  ky_window_1d := next_window (ky_window_1d k) (24 * Hour) now day,
                  ky_window_7d := next_window (ky_window_7d k) (7 * 24 * Hour) now day\<rparr>) (bd_keys db)\<rparr>))"

section \<open>Account quotas\<close>

text \<open>\<open>COALESCE((extra->>k)::numeric, 0)\<close>.\<close>

definition numeric :: "jnum option \<Rightarrow> rat" where
  "numeric v = (case v of Some (JNumber x) \<Rightarrow> x | Some (JText x) \<Rightarrow> x | _ \<Rightarrow> 0)"

definition limit_unset :: "jnum option \<Rightarrow> bool" where
  "limit_unset v \<longleftrightarrow> (case v of None \<Rightarrow> True | Some JNull \<Rightarrow> True | Some (JNumber x) \<Rightarrow> x \<le> 0 | Some (JText _) \<Rightarrow> False)"

definition empty_extra :: account_extra where
  "empty_extra = \<lparr>ax_used = None, ax_limit = None, ax_daily_used = None, ax_daily_limit = None, ax_daily_start = None,
     ax_daily_mode = None, ax_daily_reset_at = None, ax_weekly_used = None, ax_weekly_limit = None, ax_weekly_start = None,
     ax_weekly_mode = None, ax_weekly_reset_at = None, ax_schedule = ''''\<rparr>"

definition fixed_mode :: "string option \<Rightarrow> bool" where
  "fixed_mode m \<longleftrightarrow> m = Some ''fixed''"

definition epoch :: gotime where "epoch = 62135596800 * Second"

definition period_expired :: "string option \<Rightarrow> gotime option \<Rightarrow> gotime option \<Rightarrow> duration \<Rightarrow> gotime \<Rightarrow> bool" where
  "period_expired mode reset_at start len now \<longleftrightarrow>
     (if fixed_mode mode then now \<ge> (case reset_at of None \<Rightarrow> epoch | Some t \<Rightarrow> t)
      else (case start of None \<Rightarrow> epoch | Some t \<Rightarrow> t) + len \<le> now)"

definition daily_part :: "billing_env \<Rightarrow> rat \<Rightarrow> account_extra \<Rightarrow> account_extra \<Rightarrow> account_extra" where
  "daily_part env amount old x =
     (if numeric (ax_daily_limit old) > 0 then
        let now = be_now env;
            expired = period_expired (ax_daily_mode old) (ax_daily_reset_at old) (ax_daily_start old) (24 * Hour) now;
            x1 = x\<lparr>ax_daily_used := Some (JNumber (if expired then amount else numeric (ax_daily_used old) + amount)),
                   ax_daily_start := Some (if expired then now else case ax_daily_start old of None \<Rightarrow> now | Some t \<Rightarrow> t)\<rparr>
        in if expired \<and> fixed_mode (ax_daily_mode old) then x1\<lparr>ax_daily_reset_at := Some (be_next_daily env old now)\<rparr> else x1
      else x)"

definition weekly_part :: "billing_env \<Rightarrow> rat \<Rightarrow> account_extra \<Rightarrow> account_extra \<Rightarrow> account_extra" where
  "weekly_part env amount old x =
     (if numeric (ax_weekly_limit old) > 0 then
        let now = be_now env;
            expired = period_expired (ax_weekly_mode old) (ax_weekly_reset_at old) (ax_weekly_start old) (168 * Hour) now;
            x1 = x\<lparr>ax_weekly_used := Some (JNumber (if expired then amount else numeric (ax_weekly_used old) + amount)),
                   ax_weekly_start := Some (if expired then now else case ax_weekly_start old of None \<Rightarrow> now | Some t \<Rightarrow> t)\<rparr>
        in if expired \<and> fixed_mode (ax_weekly_mode old) then x1\<lparr>ax_weekly_reset_at := Some (be_next_weekly env old now)\<rparr> else x1
      else x)"

text \<open>The four statements: with and without the daily and the weekly dimension. A statement that leaves one out applies only to
  rows where it is unset; \<open>None\<close> when no row is hit.\<close>

definition accountQuotaIncrement ::
  "billing_env \<Rightarrow> bool \<Rightarrow> bool \<Rightarrow> int \<Rightarrow> rat \<Rightarrow> billing_db \<Rightarrow> (AccountQuotaState \<times> billing_db) option" where
  "accountQuotaIncrement env daily weekly aid amount db =
     (case map_of (bd_accounts db) aid of
        None \<Rightarrow> None
      | Some a \<Rightarrow>
          if ba_deleted a \<or>
             \<not> (daily \<and> weekly) \<and> ba_extra a = None \<or>
             \<not> daily \<and> (case ba_extra a of None \<Rightarrow> True | Some x \<Rightarrow> \<not> limit_unset (ax_daily_limit x)) \<or>
             \<not> weekly \<and> (case ba_extra a of None \<Rightarrow> True | Some x \<Rightarrow> \<not> limit_unset (ax_weekly_limit x))
          then None
          else let old = (case ba_extra a of None \<Rightarrow> empty_extra | Some x \<Rightarrow> x);
                   x0 = old\<lparr>ax_used := Some (JNumber (numeric (ax_used old) + amount))\<rparr>;
                   x1 = (if daily then daily_part env amount old x0 else x0);
                   x2 = (if weekly then weekly_part env amount old x1 else x1)
               in Some (\<lparr>aq_TotalUsed = numeric (ax_used x2), aq_TotalLimit = numeric (ax_limit x2),
                         aq_DailyUsed = numeric (ax_daily_used x2), aq_DailyLimit = numeric (ax_daily_limit x2),
                         aq_WeeklyUsed = numeric (ax_weekly_used x2), aq_WeeklyLimit = numeric (ax_weekly_limit x2)\<rparr>,
                        db\<lparr>bd_accounts := tput aid (a\<lparr>ba_extra := Some x2\<rparr>) (bd_accounts db)\<rparr>))"

definition crossed :: "rat \<Rightarrow> rat \<Rightarrow> rat \<Rightarrow> bool" where
  "crossed limit used amount \<longleftrightarrow> limit > 0 \<and> used \<ge> limit \<and> used - amount < limit"

definition incrementAccountQuota ::
  "billing_env \<Rightarrow> int \<Rightarrow> rat \<Rightarrow> bool \<Rightarrow> bool \<Rightarrow> billing_db \<Rightarrow> billing_err + (AccountQuotaState \<times> billing_db)" where
  "incrementAccountQuota env aid amount daily weekly db =
     (case (case accountQuotaIncrement env daily weekly aid amount db of
              None \<Rightarrow> if daily \<and> weekly then None else accountQuotaIncrement env True True aid amount db
            | Some r \<Rightarrow> Some r) of
        None \<Rightarrow> Inl BAccountNotFound
      | Some (s, db1) \<Rightarrow>
          Inr (s, if crossed (aq_TotalLimit s) (aq_TotalUsed s) amount \<or> crossed (aq_DailyLimit s) (aq_DailyUsed s) amount \<or>
                     crossed (aq_WeeklyLimit s) (aq_WeeklyUsed s) amount
                  then db1\<lparr>bd_outbox := bd_outbox db1 @ [aid]\<rparr> else db1))"

section \<open>Platform quotas\<close>

definition platformList :: "string list" where
  "platformList = [''anthropic'', ''openai'', ''gemini'', ''antigravity'', ''grok'', ''kimi'', ''zhipu'', ''deepseek'', ''minimax'',
     ''opencode_go'', ''typesafe'', ''command_code'', ''cline'']"

definition IsConcretePlatform :: "string \<Rightarrow> bool" where
  "IsConcretePlatform p \<longleftrightarrow> p \<in> set platformList"

definition greatest :: "gotime option \<Rightarrow> gotime option \<Rightarrow> gotime option" where
  "greatest a b = (case a of None \<Rightarrow> b | Some x \<Rightarrow> (case b of None \<Rightarrow> a | Some y \<Rightarrow> Some (max x y)))"

text \<open>A window start in the view \<open>usage_platform_quota_effective\<close>.\<close>

definition effective_start :: "gotime option \<Rightarrow> quota_total option \<Rightarrow> gotime option" where
  "effective_start q p =
     (case p of None \<Rightarrow> q
      | Some t \<Rightarrow> greatest (case q of None \<Rightarrow> Some (qt_anchor t) | Some s \<Rightarrow> Some s) (Some (qt_start t)))"

definition later_start :: "gotime option \<Rightarrow> gotime \<Rightarrow> gotime" where
  "later_start current desired = (case current of None \<Rightarrow> desired | Some s \<Rightarrow> if After s desired then s else desired)"

definition month_start :: "gotime option \<Rightarrow> gotime \<Rightarrow> gotime" where
  "month_start current obs = (case current of None \<Rightarrow> obs | Some s \<Rightarrow> if Before obs (s + 30 * 24 * Hour) then s else obs)"

definition effectivePlatformQuotaWindows :: "billing_env \<Rightarrow> platform_quota \<Rightarrow> platform_totals option \<Rightarrow> gotime \<Rightarrow> gotime \<times> gotime \<times> gotime" where
  "effectivePlatformQuotaWindows env q p obs =
     (later_start (effective_start (pq_daily_start q) (map_option pt_daily p)) (be_StartOfDay env obs),
      later_start (effective_start (pq_weekly_start q) (map_option pt_weekly p)) (be_StartOfWeek env obs),
      month_start (effective_start (pq_monthly_start q) (map_option pt_monthly p)) obs)"

text \<open>One dimension of the upsert: a fresh row, and the three cases of the conflict clause.\<close>

definition total_new :: "rat \<Rightarrow> gotime \<Rightarrow> gotime \<Rightarrow> quota_total" where
  "total_new cost start obs = \<lparr>qt_usage = round8 (if start > obs then 0 else cost), qt_start = start, qt_anchor = start\<rparr>"

definition total_add :: "quota_total \<Rightarrow> quota_total \<Rightarrow> quota_total" where
  "total_add cur new = cur
     \<lparr>qt_usage := (if qt_start cur > qt_start new then qt_usage cur
                    else if qt_start cur < qt_start new then qt_usage new else round8 (qt_usage cur + qt_usage new)),
      qt_start := max (qt_start cur) (qt_start new)\<rparr>"

definition upsert_totals :: "int \<Rightarrow> platform_totals \<Rightarrow> (int, platform_totals) table \<Rightarrow> (int, platform_totals) table" where
  "upsert_totals qid new t =
     tput qid (case map_of t qid of None \<Rightarrow> new
               | Some cur \<Rightarrow> \<lparr>pt_daily = total_add (pt_daily cur) (pt_daily new), pt_weekly = total_add (pt_weekly cur) (pt_weekly new),
                             pt_monthly = total_add (pt_monthly cur) (pt_monthly new)\<rparr>) t"

definition incrementPlatformQuota :: "billing_env \<Rightarrow> UsageBillingCommand \<Rightarrow> billing_db \<Rightarrow> billing_err + billing_db" where
  "incrementPlatformQuota env c db =
     (if \<not> IsConcretePlatform (uc_PlatformQuotaPlatform c) \<or> IsZero (uc_PlatformUsageAt c) then Inl BRequestConflict
      else
        case find (\<lambda>(_, q). pq_user q = uc_UserID c \<and> pq_platform q = uc_PlatformQuotaPlatform c \<and> \<not> pq_deleted q \<and> pq_limited q)
               (bd_quotas db) of
          None \<Rightarrow> Inr db
        | Some (qid, q) \<Rightarrow>
            let obs = uc_PlatformUsageAt c; cost = uc_PlatformQuotaCost c;
                (d, w, m) = effectivePlatformQuotaWindows env q (map_of (bd_totals db) qid) obs;
                new = \<lparr>pt_daily = total_new cost d obs, pt_weekly = total_new cost w obs, pt_monthly = total_new cost m obs\<rparr>
            in Inr (db\<lparr>bd_totals := upsert_totals qid new (bd_totals db)\<rparr>))"

section \<open>Applying a command\<close>

text \<open>One effect after the other; a missing key or account only loses its own counter.\<close>

definition effect_subscription :: "UsageBillingCommand \<Rightarrow> billing_db \<Rightarrow> billing_err + billing_db" where
  "effect_subscription c db =
     (case uc_SubscriptionID c of
        Some sid \<Rightarrow> if uc_SubscriptionCost c > 0 then incrementSubscription sid (uc_SubscriptionCost c) db else Inr db
      | None \<Rightarrow> Inr db)"

definition effect_balance ::
  "UsageBillingCommand \<Rightarrow> UsageBillingApplyResult \<times> billing_db \<Rightarrow> billing_err + (UsageBillingApplyResult \<times> billing_db)" where
  "effect_balance c = (\<lambda>(r, db).
     if uc_BalanceCost c > 0 then
       (case deductBalance (uc_UserID c) (uc_BalanceCost c) db of
          Inl e \<Rightarrow> Inl e
        | Inr ((new, sufficient), db1) \<Rightarrow> Inr (r\<lparr>br_NewBalance := Some new, br_BalanceOverdrafted := \<not> sufficient\<rparr>, db1))
     else Inr (r, db))"

definition effect_key_quota ::
  "UsageBillingCommand \<Rightarrow> UsageBillingApplyResult \<times> billing_db \<Rightarrow> billing_err + (UsageBillingApplyResult \<times> billing_db)" where
  "effect_key_quota c = (\<lambda>(r, db).
     if uc_APIKeyQuotaCost c > 0 then
       (case incrementKeyQuota (uc_APIKeyID c) (uc_APIKeyQuotaCost c) db of
          Inl e \<Rightarrow> if e \<noteq> BAPIKeyNotFound then Inl e else Inr (r\<lparr>br_APIKeyQuotaExhausted := False\<rparr>, db)
        | Inr (exhausted, db1) \<Rightarrow> Inr (r\<lparr>br_APIKeyQuotaExhausted := exhausted\<rparr>, db1))
     else Inr (r, db))"

definition effect_rate_limit ::
  "billing_env \<Rightarrow> UsageBillingCommand \<Rightarrow> UsageBillingApplyResult \<times> billing_db \<Rightarrow> billing_err + (UsageBillingApplyResult \<times> billing_db)" where
  "effect_rate_limit env c = (\<lambda>(r, db).
     if uc_APIKeyRateLimitCost c > 0 then
       (case incrementKeyRateLimit env (uc_APIKeyID c) (uc_APIKeyRateLimitCost c) db of
          Inl e \<Rightarrow> if e \<noteq> BAPIKeyNotFound then Inl e else Inr (r, db)
        | Inr db1 \<Rightarrow> Inr (r, db1))
     else Inr (r, db))"

definition effect_account ::
  "billing_env \<Rightarrow> UsageBillingCommand \<Rightarrow> UsageBillingApplyResult \<times> billing_db \<Rightarrow> billing_err + (UsageBillingApplyResult \<times> billing_db)" where
  "effect_account env c = (\<lambda>(r, db).
     if uc_AccountQuotaCost c > 0 \<and> AccountTypeSupportsQuota (be_ToLower env) (uc_AccountType c) then
       (case incrementAccountQuota env (uc_AccountID c) (uc_AccountQuotaCost c) (uc_HasDailyLimit c) (uc_HasWeeklyLimit c) db of
          Inl e \<Rightarrow> if e \<noteq> BAccountNotFound then Inl e else Inr (r\<lparr>br_QuotaState := None\<rparr>, db)
        | Inr (s, db1) \<Rightarrow> Inr (r\<lparr>br_QuotaState := Some s\<rparr>, db1))
     else Inr (r, db))"

definition effect_platform ::
  "billing_env \<Rightarrow> UsageBillingCommand \<Rightarrow> UsageBillingApplyResult \<times> billing_db \<Rightarrow> billing_err + (UsageBillingApplyResult \<times> billing_db)" where
  "effect_platform env c = (\<lambda>(r, db).
     if uc_PlatformQuotaCost c > 0 \<and> uc_PlatformQuotaPlatform c \<noteq> '''' then
       (case incrementPlatformQuota env c db of
          Inl e \<Rightarrow> Inl e
        | Inr db1 \<Rightarrow> Inr (r\<lparr>br_PlatformQuotaApplied := True\<rparr>, db1))
     else Inr (r, db))"

definition and_then :: "'e + 'a \<Rightarrow> ('a \<Rightarrow> 'e + 'b) \<Rightarrow> 'e + 'b" where
  "and_then x f = (case x of Inl e \<Rightarrow> Inl e | Inr a \<Rightarrow> f a)"

definition applyUsageBillingEffects ::
  "billing_env \<Rightarrow> UsageBillingCommand \<Rightarrow> billing_db \<Rightarrow> billing_err + (UsageBillingApplyResult \<times> billing_db)" where
  "applyUsageBillingEffects env c db =
     and_then (effect_subscription c db) (\<lambda>db1.
     and_then (effect_balance c (no_result\<lparr>br_Applied := True\<rparr>, db1)) (\<lambda>s2.
     and_then (effect_key_quota c s2) (\<lambda>s3.
     and_then (effect_rate_limit env c s3) (\<lambda>s4.
     and_then (effect_account env c s4) (\<lambda>s5.
     effect_platform env c s5)))))"

definition canonical_cost :: "UsageBillingCommand \<Rightarrow> rat" where
  "canonical_cost c =
     max (uc_BalanceCost c) (max (uc_SubscriptionCost c) (max (uc_APIKeyQuotaCost c) (uc_APIKeyRateLimitCost c)))"

definition insertUsageBillingQuote :: "UsageBillingCommand \<Rightarrow> billing_db \<Rightarrow> billing_err + billing_db" where
  "insertUsageBillingQuote c db =
     (case uc_QuotedActualCost c of
        None \<Rightarrow> Inr db
      | Some (Fin q) \<Rightarrow>
          let k = (uc_RequestID c, uc_APIKeyID c) in
          if map_of (bd_quotes db) k \<noteq> None then Inl BDb
          else Inr (db\<lparr>bd_quotes := tput k \<lparr>bq_fingerprint = uc_RequestFingerprint c, bq_quoted = q,
                     bq_canonical = round8 (canonical_cost c)\<rparr> (bd_quotes db)\<rparr>)
      | Some _ \<Rightarrow> Inl BNonFinite)"

definition usage_key :: "UsageBillingCommand \<Rightarrow> request_key" where
  "usage_key c = (uc_RequestID c, uc_APIKeyID c)"

text \<open>The shape shared by \<open>Apply\<close> and \<open>applyBatchImageBalanceHold\<close>: claim, answer a repeated request without committing, run the body.\<close>

definition with_claim :: "request_key \<Rightarrow> string \<Rightarrow> gotime \<Rightarrow> 'r \<Rightarrow>
    (billing_db \<Rightarrow> (billing_db, billing_err, 'r) tx) \<Rightarrow> billing_db \<Rightarrow> (billing_db, billing_err, 'r) tx" where
  "with_claim k fp now repeated body db =
     (case claim_key k fp now db of
        Inl e \<Rightarrow> Rollback (Inl e)
      | Inr (applied, db1) \<Rightarrow> if \<not> applied then Rollback (Inr repeated) else body db1)"

definition billing_body :: "billing_env \<Rightarrow> UsageBillingCommand \<Rightarrow> billing_db \<Rightarrow> (billing_db, billing_err, UsageBillingApplyResult) tx" where
  "billing_body env c db =
     (case applyUsageBillingEffects env c db of
        Inl e \<Rightarrow> Rollback (Inl e)
      | Inr (r, db2) \<Rightarrow>
          (case insertUsageBillingQuote c db2 of
             Inl e \<Rightarrow> Rollback (Inl e)
           | Inr db3 \<Rightarrow> Commit db3 (Inr r)))"

definition billing_tx :: "billing_env \<Rightarrow> UsageBillingCommand \<Rightarrow> billing_db \<Rightarrow> (billing_db, billing_err, UsageBillingApplyResult) tx" where
  "billing_tx env c =
     with_claim (usage_key c) (uc_RequestFingerprint c) (be_now env) no_result (billing_body env c)"

definition billing_Apply ::
  "billing_env \<Rightarrow> db_fault \<Rightarrow> UsageBillingCommand \<Rightarrow> billing_db \<Rightarrow> (billing_err + UsageBillingApplyResult) \<times> billing_db" where
  "billing_Apply env flt cmd db =
     (let c = UsageBilling_Normalize env cmd in
      if uc_RequestID c = '''' then (Inl BRequestIDRequired, db) else run_tx flt BDb (billing_tx env c) db)"

text \<open>\<open>CleanupUsageBillingDedup\<close>: old claims move to the archive, a batch per statement.\<close>

definition usageBillingDedupCleanupBatchSize :: nat where "usageBillingDedupCleanupBatchSize = 10000"

definition archive_batch :: "nat \<Rightarrow> gotime \<Rightarrow> billing_db \<Rightarrow> nat \<times> billing_db" where
  "archive_batch n cutoff db =
     (let victims = take n (filter (\<lambda>(k, _, created). created < cutoff) (bd_dedup db))
      in (length victims,
          db\<lparr>bd_archive := fold (\<lambda>(k, v). tnew k v) victims (bd_archive db),
             bd_dedup := filter (\<lambda>(k, _). k \<notin> fst ` set victims) (bd_dedup db)\<rparr>))"

lemma archive_batch_shrinks:
  assumes "archive_batch n cutoff db = (m, db1)" "0 < m"
  shows "length (bd_dedup db1) < length (bd_dedup db)"
proof -
  let ?v = "take n (filter (\<lambda>(k, _, created). created < cutoff) (bd_dedup db))"
  have m: "m = length ?v" "bd_dedup db1 = filter (\<lambda>(k, _). k \<notin> fst ` set ?v) (bd_dedup db)"
    using assms(1) by (auto simp: archive_batch_def Let_def)
  then obtain x where x: "x \<in> set ?v" using assms(2) by (cases ?v) auto
  then have "x \<in> set (bd_dedup db)" by (auto dest: in_set_takeD)
  moreover have "\<not> (case x of (k, _) \<Rightarrow> k \<notin> fst ` set ?v)" using imageI [OF x, of fst] by (simp add: split_beta)
  ultimately show ?thesis unfolding m(2) by (rule length_filter_less)
qed

function CleanupUsageBillingDedup :: "nat \<Rightarrow> gotime \<Rightarrow> billing_db \<Rightarrow> billing_db" where
  "CleanupUsageBillingDedup n cutoff db =
     (let (affected, db1) = archive_batch n cutoff db in
      if affected < n \<or> n = 0 then db1 else CleanupUsageBillingDedup n cutoff db1)"
  by auto
termination
  by (relation "measure (\<lambda>(n, cutoff, db). length (bd_dedup db))") (auto intro: archive_batch_shrinks [OF sym])

declare CleanupUsageBillingDedup.simps [simp del]

end
