(* ===== verification/BatchMoney.thy ===== *)
theory BatchMoney
  imports Billing
begin

text \<open>
  Money held for batch image jobs: the hold operations of \<^verbatim>\<open>backend/internal/repository/usage_billing_repo.go\<close>,
  \<^verbatim>\<open>batch_image_owned_money.go\<close> (one durable hold per job) and \<^verbatim>\<open>batch_image_receipt.go\<close>, and the commands
  \<^verbatim>\<open>backend/internal/service/batch_image_billing_hold.go\<close> builds for them.
\<close>

record HoldCommand =
  hc_RequestID :: string
  hc_APIKeyID :: int
  hc_RequestFingerprint :: string
  hc_RequestPayloadHash :: string
  hc_UserID :: int
  hc_BatchID :: string
  hc_HoldAmount :: gofloat
  hc_ActualAmount :: gofloat
  hc_MonetaryVersion :: int

record HoldResult =
  hr_Applied :: bool
  hr_NewBalance :: "rat option"
  hr_FrozenBalance :: "rat option"

datatype hold_op = OpHold | OpCapture | OpRelease

definition no_hold_result :: HoldResult where
  "no_hold_result = \<lparr>hr_Applied = False, hr_NewBalance = None, hr_FrozenBalance = None\<rparr>"

definition fmt_float :: "billing_env \<Rightarrow> gofloat \<Rightarrow> string" where
  "fmt_float env v = (case v of Fin x \<Rightarrow> be_fmt10 env x | NaN \<Rightarrow> ''NaN'' | PosInf \<Rightarrow> ''+Inf'' | NegInf \<Rightarrow> ''-Inf'')"

definition buildHoldFingerprint :: "billing_env \<Rightarrow> HoldCommand \<Rightarrow> string" where
  "buildHoldFingerprint env c =
     (let raw = join_bar [FormatInt (hc_UserID c), FormatInt (hc_APIKeyID c), strings_TrimSpace (hc_BatchID c),
        fmt_float env (hc_HoldAmount c), fmt_float env (hc_ActualAmount c)];
        hash = strings_TrimSpace (hc_RequestPayloadHash c)
      in be_sha256hex env (if hash \<noteq> '''' then raw @ ''|'' @ hash else raw))"

definition Hold_Normalize :: "billing_env \<Rightarrow> HoldCommand \<Rightarrow> HoldCommand" where
  "Hold_Normalize env c =
     (let c1 = c\<lparr>hc_RequestID := strings_TrimSpace (hc_RequestID c), hc_BatchID := strings_TrimSpace (hc_BatchID c)\<rparr>
      in if strings_TrimSpace (hc_RequestFingerprint c1) = ''''
         then c1\<lparr>hc_RequestFingerprint := buildHoldFingerprint env c1\<rparr> else c1)"

definition BatchImageHoldRequestID :: "string \<Rightarrow> string" where
  "BatchImageHoldRequestID b = ''batch_image_hold:'' @ strings_TrimSpace b"

definition BatchImageCaptureRequestID :: "string \<Rightarrow> string" where
  "BatchImageCaptureRequestID b = ''batch_image_capture:'' @ strings_TrimSpace b"

definition BatchImageReleaseRequestID :: "string \<Rightarrow> string" where
  "BatchImageReleaseRequestID b = ''batch_image_release:'' @ strings_TrimSpace b"

definition hold_request_id :: "hold_op \<Rightarrow> string \<Rightarrow> string" where
  "hold_request_id op b =
     (case op of OpHold \<Rightarrow> BatchImageHoldRequestID b | OpCapture \<Rightarrow> BatchImageCaptureRequestID b
      | OpRelease \<Rightarrow> BatchImageReleaseRequestID b)"

section \<open>The three movements on a user's balances\<close>

type_synonym hold_outcome = "billing_err + (HoldResult \<times> billing_db)"

definition moved :: "int \<Rightarrow> billing_user \<Rightarrow> billing_db \<Rightarrow> hold_outcome" where
  "moved uid u db = Inr (no_hold_result\<lparr>hr_NewBalance := Some (bu_balance u), hr_FrozenBalance := Some (bu_frozen u)\<rparr>, put_user uid u db)"

definition reserveBalance :: "int \<Rightarrow> rat \<Rightarrow> billing_db \<Rightarrow> hold_outcome" where
  "reserveBalance uid hold db =
     (if hold \<le> 0 then Inr (no_hold_result, db)
      else case live_user db uid of
        None \<Rightarrow> Inl BUserNotFound
      | Some u \<Rightarrow>
          if hold \<le> bu_balance u
          then moved uid (u\<lparr>bu_balance := round8 (bu_balance u - hold), bu_frozen := round8 (bu_frozen u + hold)\<rparr>) db
          else Inl BInsufficientBalance)"

definition captureBalance :: "int \<Rightarrow> rat \<Rightarrow> rat \<Rightarrow> billing_db \<Rightarrow> hold_outcome" where
  "captureBalance uid hold actual db =
     (if hold \<le> 0 \<and> actual \<le> 0 then Inr (no_hold_result, db)
      else if actual - hold > 1 / 100000000 then Inl BExceedsHold
      else case live_user db uid of
        None \<Rightarrow> Inl BUserNotFound
      | Some u \<Rightarrow>
          if hold \<le> bu_frozen u
          then moved uid (u\<lparr>bu_balance := round8 (bu_balance u + (if hold > actual then hold - actual else 0)
                                - (if actual > hold then actual - hold else 0)),
                            bu_frozen := round8 (bu_frozen u - hold)\<rparr>) db
          else Inl BFrozenInsufficient)"

definition holdClaimExists :: "request_key \<Rightarrow> billing_db \<Rightarrow> bool" where
  "holdClaimExists k db \<longleftrightarrow> map_of (bd_dedup db) k \<noteq> None \<or> map_of (bd_archive db) k \<noteq> None"

definition releaseBalance :: "int \<Rightarrow> string \<Rightarrow> int \<Rightarrow> rat \<Rightarrow> billing_db \<Rightarrow> hold_outcome" where
  "releaseBalance uid batch kid hold db =
     (if hold \<le> 0 then Inr (no_hold_result, db)
      else if \<not> holdClaimExists (BatchImageHoldRequestID batch, kid) db then Inr (no_hold_result, db)
      else case live_user db uid of
        None \<Rightarrow> Inl BUserNotFound
      | Some u \<Rightarrow>
          if hold \<le> bu_frozen u
          then moved uid (u\<lparr>bu_balance := round8 (bu_balance u + hold), bu_frozen := round8 (bu_frozen u - hold)\<rparr>) db
          else Inl BFrozenInsufficient)"

definition move_money :: "hold_op \<Rightarrow> HoldCommand \<Rightarrow> rat \<Rightarrow> rat \<Rightarrow> billing_db \<Rightarrow> hold_outcome" where
  "move_money op c hold actual db =
     (case op of OpHold \<Rightarrow> reserveBalance (hc_UserID c) hold db
      | OpCapture \<Rightarrow> captureBalance (hc_UserID c) hold actual db
      | OpRelease \<Rightarrow> releaseBalance (hc_UserID c) (hc_BatchID c) (hc_APIKeyID c) hold db)"

section \<open>Individually owned holds\<close>

definition put_hold :: "request_key \<Rightarrow> money_hold \<Rightarrow> billing_db \<Rightarrow> billing_db" where
  "put_hold k h db = db\<lparr>bd_holds := tput k h (bd_holds db)\<rparr>"

definition settled_state :: "hold_op \<Rightarrow> hold_state" where
  "settled_state op = (if op = OpRelease then Released else Captured)"

definition applyOwnedMoney :: "hold_op \<Rightarrow> HoldCommand \<Rightarrow> rat \<Rightarrow> rat \<Rightarrow> billing_db \<Rightarrow> hold_outcome" where
  "applyOwnedMoney op c hold actual db =
     (let k = (hc_BatchID c, hc_APIKeyID c) in
      if hc_RequestID c \<noteq> hold_request_id op (hc_BatchID c) \<or> hc_BatchID c = '''' then Inl BRequestConflict
      else if live_user db (hc_UserID c) = None then Inl BNoRows
      else case map_of (bd_holds db) k of
        None \<Rightarrow>
          if op = OpCapture \<and> hold = 0 \<and> actual = 0
          then Inr (no_hold_result, put_hold k \<lparr>mh_user = hc_UserID c, mh_amount = 0, mh_actual = Some 0, mh_state = Captured\<rparr> db)
          else if op = OpRelease \<and> \<not> holdClaimExists (BatchImageHoldRequestID (hc_BatchID c), hc_APIKeyID c) db
          then Inr (no_hold_result, db)
          else if op \<noteq> OpHold then Inl BLegacyPrecision
          else move_money op c hold actual
                 (put_hold k \<lparr>mh_user = hc_UserID c, mh_amount = hold, mh_actual = None, mh_state = Held\<rparr> db)
      | Some h \<Rightarrow>
          if mh_user h \<noteq> hc_UserID c \<or> mh_amount h \<noteq> hold \<or> mh_state h \<noteq> Held \<or> op = OpHold then Inl BRequestConflict
          else (case move_money op c hold actual db of
                  Inl e \<Rightarrow> Inl e
                | Inr (r, db1) \<Rightarrow> Inr (r, put_hold k (h\<lparr>mh_state := settled_state op, mh_actual := Some actual\<rparr>) db1)))"

definition exact_amount :: "gofloat \<Rightarrow> rat option" where
  "exact_amount v = (case v of Fin x \<Rightarrow> if x < 0 \<or> v \<noteq> QuantizeUsageBillingAmount v then None else Some x | _ \<Rightarrow> None)"

definition hold_tx :: "billing_env \<Rightarrow> hold_op \<Rightarrow> HoldCommand \<Rightarrow> billing_db \<Rightarrow> (billing_db, billing_err, HoldResult) tx" where
  "hold_tx env op c =
     with_claim (hc_RequestID c, hc_APIKeyID c) (hc_RequestFingerprint c) (be_now env) no_hold_result (\<lambda>db1.
       case exact_amount (hc_HoldAmount c) of None \<Rightarrow> Rollback (Inl BLegacyPrecision)
       | Some hold \<Rightarrow>
           (case exact_amount (hc_ActualAmount c) of None \<Rightarrow> Rollback (Inl BLegacyPrecision)
            | Some actual \<Rightarrow>
                (case (if hc_MonetaryVersion c \<ge> 2 then applyOwnedMoney op c hold actual db1
                       else if map_of (bd_holds db1) (hc_BatchID c, hc_APIKeyID c) \<noteq> None then Inl BLegacyPrecision
                       else move_money op c hold actual db1) of
                   Inl e \<Rightarrow> Rollback (Inl e)
                 | Inr (r, db2) \<Rightarrow> Commit db2 (Inr (r\<lparr>hr_Applied := True\<rparr>)))))"

definition applyBatchImageBalanceHold ::
  "billing_env \<Rightarrow> db_fault \<Rightarrow> hold_op \<Rightarrow> HoldCommand \<Rightarrow> billing_db \<Rightarrow> (billing_err + HoldResult) \<times> billing_db" where
  "applyBatchImageBalanceHold env flt op cmd db =
     (let c = Hold_Normalize env cmd in
      if hc_RequestID c = '''' then (Inl BRequestIDRequired, db) else run_tx flt BDb (hold_tx env op c) db)"

text \<open>\<open>ConfirmBatchImageBillingReceipt\<close>: \<open>bool_and\<close> over the receipts found, null when there is none.\<close>

definition finite_nonneg :: "gofloat \<Rightarrow> bool" where
  "finite_nonneg v \<longleftrightarrow> (case v of Fin x \<Rightarrow> 0 \<le> x | _ \<Rightarrow> False)"

definition ConfirmReceipt :: "billing_env \<Rightarrow> HoldCommand \<Rightarrow> billing_db \<Rightarrow> billing_err + bool" where
  "ConfirmReceipt env cmd db =
     (if hc_UserID cmd \<le> 0 \<or> hc_APIKeyID cmd \<le> 0 \<or> hc_BatchID cmd = '''' \<or> \<not> finite_nonneg (hc_HoldAmount cmd) \<or>
         \<not> finite_nonneg (hc_ActualAmount cmd) then Inl BLegacyPrecision
      else
        let c = Hold_Normalize env (cmd\<lparr>hc_RequestFingerprint := ''''\<rparr>);
            k = (hc_RequestID c, hc_APIKeyID c);
            receipts = (case map_of (bd_dedup db) k of None \<Rightarrow> [] | Some (fp, _) \<Rightarrow> [fp]) @
                       (case map_of (bd_archive db) k of None \<Rightarrow> [] | Some (fp, _) \<Rightarrow> [fp])
        in if hc_RequestID c \<notin> {BatchImageHoldRequestID (hc_BatchID c), BatchImageCaptureRequestID (hc_BatchID c),
                BatchImageReleaseRequestID (hc_BatchID c)} then Inl BRequestConflict
           else if receipts = [] then Inr False
           else if list_all (\<lambda>fp. fp = hc_RequestFingerprint c) receipts then Inr True else Inl BRequestConflict)"

section \<open>The service's commands\<close>

record BatchImageJob =
  bj_UserID :: int
  bj_APIKeyID :: "int option"
  bj_BatchID :: string
  bj_EstimatedCost :: gofloat
  bj_HoldAmount :: "gofloat option"
  bj_PricingSnapshotVersion :: int

definition negative :: "gofloat \<Rightarrow> bool" where
  "negative v \<longleftrightarrow> (case v of Fin x \<Rightarrow> x < 0 | NegInf \<Rightarrow> True | _ \<Rightarrow> False)"

definition nonpositive :: "gofloat \<Rightarrow> bool" where
  "nonpositive v \<longleftrightarrow> (case v of Fin x \<Rightarrow> x \<le> 0 | NegInf \<Rightarrow> True | _ \<Rightarrow> False)"

definition buildBatchImageHoldCommand :: "BatchImageJob \<Rightarrow> string \<Rightarrow> gofloat \<Rightarrow> string \<Rightarrow> billing_err + HoldCommand" where
  "buildBatchImageHoldCommand job request_id actual payload =
     (case bj_APIKeyID job of
        None \<Rightarrow> Inl BMissingAPIKeyID
      | Some kid \<Rightarrow>
          if kid \<le> 0 then Inl BMissingAPIKeyID
          else let hold = (case bj_HoldAmount job of Some h \<Rightarrow> h | None \<Rightarrow> bj_EstimatedCost job)
               in Inr \<lparr>hc_RequestID = request_id, hc_APIKeyID = kid, hc_RequestFingerprint = '''',
                       hc_RequestPayloadHash = strings_TrimSpace payload, hc_UserID = bj_UserID job, hc_BatchID = bj_BatchID job,
                       hc_HoldAmount = (if negative hold then Fin 0 else hold),
                       hc_ActualAmount = (if negative actual then Fin 0 else actual),
                       hc_MonetaryVersion = bj_PricingSnapshotVersion job\<rparr>)"

text \<open>\<open>Some r\<close> when the command is ambiguous and handled, with the error to return.\<close>

definition confirmAmbiguousRetry :: "billing_env \<Rightarrow> HoldCommand \<Rightarrow> billing_db \<Rightarrow> (billing_err + unit) option" where
  "confirmAmbiguousRetry env c db =
     (if hc_HoldAmount c \<in> {NaN, PosInf, NegInf} \<or> hc_ActualAmount c \<in> {NaN, PosInf, NegInf} then Some (Inl BLegacyPrecision)
      else if hc_HoldAmount c = QuantizeUsageBillingAmount (hc_HoldAmount c) \<and>
              hc_ActualAmount c = QuantizeUsageBillingAmount (hc_ActualAmount c) then None
      else case ConfirmReceipt env c db of
        Inl e \<Rightarrow> Some (Inl e)
      | Inr False \<Rightarrow> Some (Inl BLegacyPrecision)
      | Inr True \<Rightarrow> Some (Inr ()))"

definition reserveBatchImageBalanceHold ::
  "billing_env \<Rightarrow> db_fault \<Rightarrow> BatchImageJob \<Rightarrow> string \<Rightarrow> billing_db \<Rightarrow> (billing_err + unit) \<times> billing_db" where
  "reserveBatchImageBalanceHold env flt job payload db =
     (case buildBatchImageHoldCommand job (BatchImageHoldRequestID (bj_BatchID job)) (Fin 0) payload of
        Inl e \<Rightarrow> (Inl e, db)
      | Inr c \<Rightarrow>
          (case confirmAmbiguousRetry env c db of
             Some r \<Rightarrow> (r, db)
           | None \<Rightarrow>
               if nonpositive (hc_HoldAmount c) then (Inr (), db)
               else (case applyBatchImageBalanceHold env flt OpHold c db of
                       (Inl e, db') \<Rightarrow> (Inl (if e = BInsufficientBalance then BInsufficientBalance else BHoldFailed), db')
                     | (Inr _, db') \<Rightarrow> (Inr (), db'))))"

definition captureBatchImageBalanceHold ::
  "billing_env \<Rightarrow> db_fault \<Rightarrow> BatchImageJob \<Rightarrow> gofloat \<Rightarrow> string \<Rightarrow> billing_db \<Rightarrow> (billing_err + unit) \<times> billing_db" where
  "captureBatchImageBalanceHold env flt job actual payload db =
     (case buildBatchImageHoldCommand job (BatchImageCaptureRequestID (bj_BatchID job)) actual payload of
        Inl e \<Rightarrow> (Inl e, db)
      | Inr c \<Rightarrow>
          (case confirmAmbiguousRetry env c db of
             Some r \<Rightarrow> (r, db)
           | None \<Rightarrow>
               (case applyBatchImageBalanceHold env flt OpCapture c db of
                  (Inl e, db') \<Rightarrow> (Inl BSettlementFailed, db')
                | (Inr _, db') \<Rightarrow> (Inr (), db'))))"

definition releaseBatchImageBalanceHold ::
  "billing_env \<Rightarrow> db_fault \<Rightarrow> BatchImageJob \<Rightarrow> string \<Rightarrow> billing_db \<Rightarrow> (billing_err + unit) \<times> billing_db" where
  "releaseBatchImageBalanceHold env flt job payload db =
     (case buildBatchImageHoldCommand job (BatchImageReleaseRequestID (bj_BatchID job)) (Fin 0) payload of
        Inl e \<Rightarrow> (Inl e, db)
      | Inr c \<Rightarrow>
          (case confirmAmbiguousRetry env c db of
             Some r \<Rightarrow> (r, db)
           | None \<Rightarrow>
               if nonpositive (hc_HoldAmount c) then (Inr (), db)
               else (case applyBatchImageBalanceHold env flt OpRelease c db of
                       (Inl e, db') \<Rightarrow> (Inl BHoldFailed, db')
                     | (Inr _, db') \<Rightarrow> (Inr (), db'))))"

end
