(* ===== verification/UsageDelivery.thy ===== *)
theory UsageDelivery
  imports Billing "HOL-Library.Product_Lexorder"
begin

text \<open>
  The durable journal of usage billing: \<^verbatim>\<open>backend/internal/repository/usage_billing_delivery.go\<close> (staging an event, applying it
  at most once, the queue of unfinished events) and \<^verbatim>\<open>backend/internal/service/usage_billing_delivery.go\<close> (charging a request,
  the recovery cycle). A stored payload is the event it encodes. \<open>checked\<close> says whether the query after an unclear commit
  is answered, \<open>noted\<close> whether the deferred bookkeeping of a failed attempt is.
\<close>

record UsageBillingRecovery =
  rv_Event :: UsageBillingEvent
  rv_Result :: UsageBillingApplyResult
  rv_NeedsCache :: bool

definition put_event :: "request_key \<Rightarrow> billing_event \<Rightarrow> billing_db \<Rightarrow> billing_db" where
  "put_event k ev db = db\<lparr>bd_events := tput k ev (bd_events db)\<rparr>"

section \<open>Staging\<close>

definition same_command :: "UsageBillingCommand \<Rightarrow> UsageBillingCommand \<Rightarrow> bool" where
  "same_command a b \<longleftrightarrow> a\<lparr>uc_PlatformUsageAt := 0\<rparr> = b\<lparr>uc_PlatformUsageAt := 0\<rparr>"

definition staged_same :: "UsageBillingCommand \<Rightarrow> billing_db \<Rightarrow> bool" where
  "staged_same c db \<longleftrightarrow>
     (case map_of (bd_events db) (usage_key c) of
        None \<Rightarrow> False
      | Some ev \<Rightarrow> ev_version ev = 1 \<and> ev_fingerprint ev = uc_RequestFingerprint c \<and> same_command (ue_Command (ev_payload ev)) c)"

definition stage_event :: "billing_env \<Rightarrow> UsageBillingCommand \<Rightarrow> UsageLog \<Rightarrow> billing_event" where
  "stage_event env c usage =
     (let u = usage\<lparr>ul_relations := False, ul_CreatedAt := (if IsZero (ul_CreatedAt usage) then be_now env else ul_CreatedAt usage)\<rparr>
      in \<lparr>ev_fingerprint = uc_RequestFingerprint c, ev_version = 1,
          ev_payload = \<lparr>ue_Version = 1, ue_Command = c, ue_Usage = u\<rparr>, ev_state = EPending, ev_result = None, ev_attempts = 0,
          ev_failure = None, ev_next = be_now env, ev_observed = ul_CreatedAt u, ev_staged = be_now env, ev_applied = None,
          ev_completed = None\<rparr>)"

definition stage_tx :: "billing_env \<Rightarrow> UsageBillingCommand \<Rightarrow> UsageLog \<Rightarrow> billing_db \<Rightarrow> (billing_db, billing_err, unit) tx" where
  "stage_tx env c usage db =
     (let db1 = db\<lparr>bd_events := tnew (usage_key c) (stage_event env c usage) (bd_events db)\<rparr>
      in if staged_same c db1 then Commit db1 (Inr ()) else Rollback (Inl BRequestConflict))"

text \<open>A transaction whose commit failed is looked up on a fresh connection: \<open>known\<close> reads the durable outcome.\<close>

definition run_checked :: "db_fault \<Rightarrow> bool \<Rightarrow> (billing_db \<Rightarrow> 'a option) \<Rightarrow> (billing_db \<Rightarrow> (billing_db, billing_err, 'a) tx) \<Rightarrow>
    billing_db \<Rightarrow> (billing_err + 'a) \<times> billing_db" where
  "run_checked flt checked known body db =
     (if flt = StmtFault then (Inl BDb, db)
      else case body db of
        Rollback r \<Rightarrow> (r, db)
      | Commit db' r \<Rightarrow>
          if flt = NoFault then (r, db')
          else let now_db = (if flt = CommitLost then db else db') in
               (if checked then (case known now_db of None \<Rightarrow> Inl BOutcomeUnknown | Some x \<Rightarrow> Inr x) else Inl BOutcomeUnknown, now_db))"

definition StageUsageBilling ::
  "billing_env \<Rightarrow> db_fault \<Rightarrow> bool \<Rightarrow> UsageBillingCommand \<Rightarrow> UsageLog \<Rightarrow> billing_db \<Rightarrow> (billing_err + unit) \<times> billing_db" where
  "StageUsageBilling env flt checked cmd usage db =
     (if uc_RequestID cmd = '''' \<or> uc_APIKeyID cmd \<le> 0 \<or> uc_UserID cmd \<le> 0 \<or> ul_RequestID usage \<noteq> uc_RequestID cmd \<or>
         ul_APIKeyID usage \<noteq> uc_APIKeyID cmd \<or> ul_UserID usage \<noteq> uc_UserID cmd \<or> ul_AccountID usage \<noteq> uc_AccountID cmd
      then (Inl BRequestConflict, db)
      else let c = UsageBilling_Normalize env cmd
           in run_checked flt checked (\<lambda>d. if staged_same c d then Some () else None) (stage_tx env c usage) db)"

section \<open>Applying a staged event\<close>

definition validateUsageBillingEvent :: "UsageBillingEvent \<Rightarrow> request_key \<Rightarrow> string \<Rightarrow> billing_err option" where
  "validateUsageBillingEvent e key fp =
     (let c = ue_Command e; u = ue_Usage e in
      if ue_Version e \<noteq> 1 then Some BEventVersion
      else if uc_RequestID c \<noteq> fst key \<or> uc_APIKeyID c \<noteq> snd key \<or> uc_RequestFingerprint c \<noteq> fp \<or>
              ul_RequestID u \<noteq> uc_RequestID c \<or> ul_APIKeyID u \<noteq> uc_APIKeyID c \<or> ul_UserID u \<noteq> uc_UserID c \<or>
              ul_AccountID u \<noteq> uc_AccountID c \<or> IsZero (ul_CreatedAt u) \<or> ul_relations u
           then Some BRequestConflict
      else None)"

definition recovery_of :: "billing_event \<Rightarrow> UsageBillingRecovery" where
  "recovery_of ev =
     \<lparr>rv_Event = ev_payload ev, rv_Result = (case ev_result ev of None \<Rightarrow> no_result | Some r \<Rightarrow> r),
      rv_NeedsCache = (ev_state ev = EApplied)\<rparr>"

definition already_applied :: "billing_event \<Rightarrow> UsageBillingRecovery" where
  "already_applied ev = recovery_of ev\<lparr>rv_Result := (rv_Result (recovery_of ev))\<lparr>br_Applied := False\<rparr>\<rparr>"

text \<open>The charge itself, with its usage record and the journal entry; the flag tells the commits that are looked up when unclear.\<close>

definition charge_event :: "billing_env \<Rightarrow> request_key \<Rightarrow> billing_event \<Rightarrow> billing_db \<Rightarrow>
    (billing_db, billing_err, UsageBillingRecovery \<times> bool) tx" where
  "charge_event env key ev db =
     (let e = ev_payload ev; c = ue_Command e in
      if map_of (bd_logs db) key \<noteq> None then Rollback (Inl BRequestConflict)
      else case applyUsageBillingEffects env c db of
        Inl err \<Rightarrow> Rollback (Inl err)
      | Inr (r, db2) \<Rightarrow>
          (case insertUsageBillingQuote c db2 of
             Inl err \<Rightarrow> Rollback (Inl err)
           | Inr db3 \<Rightarrow>
               let db4 = db3\<lparr>bd_logs := tnew (ul_RequestID (ue_Usage e), ul_APIKeyID (ue_Usage e)) (ue_Usage e) (bd_logs db3)\<rparr>;
                   ev' = ev\<lparr>ev_state := EApplied, ev_result := Some r, ev_applied := Some (be_now env), ev_failure := None,
                            ev_next := be_now env\<rparr>
               in Commit (put_event key ev' db4) (Inr (\<lparr>rv_Event = e, rv_Result = r, rv_NeedsCache = True\<rparr>, True))))"

definition staged_tx :: "billing_env \<Rightarrow> request_key \<Rightarrow> billing_db \<Rightarrow> (billing_db, billing_err, UsageBillingRecovery \<times> bool) tx" where
  "staged_tx env key db =
     (case map_of (bd_events db) key of
        None \<Rightarrow> Rollback (Inl BNoRows)
      | Some ev \<Rightarrow>
          if ev_version ev \<noteq> ue_Version (ev_payload ev) then Rollback (Inl BEventVersion)
          else case validateUsageBillingEvent (ev_payload ev) key (ev_fingerprint ev) of
            Some err \<Rightarrow> Rollback (Inl err)
          | None \<Rightarrow>
              if ev_state ev \<in> {EApplied, EComplete, ELegacy} then Rollback (Inr (already_applied ev, False))
              else if ev_state ev \<noteq> EPending then Rollback (Inl BRequestConflict)
              else
                let c = ue_Command (ev_payload ev) in
                case claim_key (usage_key c) (uc_RequestFingerprint c) (be_now env) db of
                  Inl err \<Rightarrow> Rollback (Inl err)
                | Inr (applied, db1) \<Rightarrow>
                    if \<not> applied
                    then Commit (put_event key (ev\<lparr>ev_state := ELegacy, ev_completed := Some (be_now env), ev_result := Some no_result\<rparr>) db1)
                           (Inr (\<lparr>rv_Event = ev_payload ev, rv_Result = no_result, rv_NeedsCache = False\<rparr>, False))
                    else charge_event env key ev db1)"

definition committed_outcome :: "request_key \<Rightarrow> billing_db \<Rightarrow> UsageBillingRecovery option" where
  "committed_outcome key db =
     (case map_of (bd_events db) key of
        None \<Rightarrow> None
      | Some ev \<Rightarrow> if ev_state ev \<in> {EApplied, EComplete} \<and> ev_result ev \<noteq> None then Some (recovery_of ev) else None)"

definition run_staged :: "billing_env \<Rightarrow> db_fault \<Rightarrow> bool \<Rightarrow> request_key \<Rightarrow> billing_db \<Rightarrow>
    (billing_err + UsageBillingRecovery) \<times> billing_db" where
  "run_staged env flt checked key db =
     (case staged_tx env key db of
        Commit db' (Inr (rv, False)) \<Rightarrow> run_tx flt BDb (\<lambda>_. Commit db' (Inr rv)) db
      | _ \<Rightarrow> run_checked flt checked (committed_outcome key)
               (\<lambda>d. case staged_tx env key d of Rollback r \<Rightarrow> Rollback (map_sum id fst r) | Commit d' r \<Rightarrow> Commit d' (map_sum id fst r)) db)"

text \<open>The bookkeeping of a failed attempt touches pending events only.\<close>

definition note_failure :: "billing_env \<Rightarrow> request_key \<Rightarrow> billing_err \<Rightarrow> billing_db \<Rightarrow> billing_db" where
  "note_failure env key err db =
     (case map_of (bd_events db) key of
        None \<Rightarrow> db
      | Some ev \<Rightarrow>
          if ev_state ev \<noteq> EPending then db
          else let conflict = (err = BRequestConflict \<or> err = BEventVersion)
               in put_event key (ev\<lparr>ev_state := (if conflict then EBlocked else EPending),
                    ev_failure := Some (if conflict then ''identity_or_version_conflict'' else ''apply_failed''),
                    ev_attempts := ev_attempts ev + 1, ev_next := be_now env + 30 * Second\<rparr>) db)"

definition ApplyStagedUsageBilling :: "billing_env \<Rightarrow> db_fault \<Rightarrow> bool \<Rightarrow> bool \<Rightarrow> request_key \<Rightarrow> billing_db \<Rightarrow>
    (billing_err + UsageBillingRecovery) \<times> billing_db" where
  "ApplyStagedUsageBilling env flt checked noted key db =
     (case run_staged env flt checked key db of
        (Inl err, db1) \<Rightarrow> (Inl err, if noted then note_failure env key err db1 else db1)
      | (Inr rv, db1) \<Rightarrow> (Inr rv, db1))"

section \<open>The queue of unfinished events\<close>

definition PendingUsageBilling :: "gotime \<Rightarrow> int \<Rightarrow> billing_db \<Rightarrow> billing_err + request_key list" where
  "PendingUsageBilling now limit db =
     (if limit < 1 \<or> limit > 256 then Inl BBatchSize
      else Inr (map fst (take (nat limit) (sort_key (\<lambda>(k, ev). (if ev_state ev = EPending then 0 else (1::nat), ev_next ev, ev_staged ev))
             (filter (\<lambda>(k, ev). ev_state ev \<in> {EPending, EApplied} \<and> ev_next ev \<le> now) (bd_events db))))))"

definition update_applied :: "request_key \<Rightarrow> (billing_event \<Rightarrow> billing_event) \<Rightarrow> billing_db \<Rightarrow> billing_db" where
  "update_applied key f db =
     (case map_of (bd_events db) key of
        None \<Rightarrow> db
      | Some ev \<Rightarrow> if ev_state ev = EApplied then put_event key (f ev) db else db)"

definition AcknowledgeUsageBillingCache :: "gotime \<Rightarrow> bool \<Rightarrow> request_key \<Rightarrow> billing_db \<Rightarrow> (billing_err + unit) \<times> billing_db" where
  "AcknowledgeUsageBillingCache now ok key db =
     (if \<not> ok then (Inl BDb, db)
      else (Inr (), update_applied key (\<lambda>ev. ev\<lparr>ev_state := EComplete, ev_completed := Some now, ev_failure := None\<rparr>) db))"

definition DeferUsageBillingCache :: "gotime \<Rightarrow> bool \<Rightarrow> request_key \<Rightarrow> billing_db \<Rightarrow> billing_db" where
  "DeferUsageBillingCache now ok key db =
     (if \<not> ok then db
      else update_applied key (\<lambda>ev. ev\<lparr>ev_next := now + 30 * Second, ev_attempts := ev_attempts ev + 1,
                                       ev_failure := Some ''cache_invalidation_failed''\<rparr>) db)"

section \<open>The service\<close>

datatype invalidation = InvUserBalance int | InvSubscription int int | InvKeyRateLimit int | InvPlatformQuota int string | InvAuthByUser int

text \<open>What has to be invalidated after a charge; cached amounts are dropped, never adjusted.\<close>

definition durable_invalidations :: "bool \<Rightarrow> UsageBillingRecovery \<Rightarrow> invalidation list" where
  "durable_invalidations cache rv =
     (let c = ue_Command (rv_Event rv); u = ue_Usage (rv_Event rv) in
      (if cache then
         (if uc_BalanceCost c > 0 then [InvUserBalance (uc_UserID c)] else []) @
         (case ul_GroupID u of Some g \<Rightarrow> if uc_SubscriptionCost c > 0 then [InvSubscription (uc_UserID c) g] else [] | None \<Rightarrow> []) @
         (if uc_APIKeyRateLimitCost c > 0 then [InvKeyRateLimit (uc_APIKeyID c)] else []) @
         (if uc_PlatformQuotaCost c > 0 then [InvPlatformQuota (uc_UserID c) (uc_PlatformQuotaPlatform c)] else [])
       else []) @
      (if br_APIKeyQuotaExhausted (rv_Result rv) then [InvAuthByUser (uc_UserID c)] else []))"

definition invalidateDurableUsageBilling :: "bool \<Rightarrow> bool \<Rightarrow> (invalidation \<Rightarrow> bool) \<Rightarrow> UsageBillingRecovery \<Rightarrow> billing_err + unit" where
  "invalidateDurableUsageBilling cache checked_auth succeeds rv =
     (if \<not> rv_NeedsCache rv then Inr ()
      else if list_all (\<lambda>i. (case i of InvAuthByUser _ \<Rightarrow> checked_auth | _ \<Rightarrow> True) \<and> succeeds i) (durable_invalidations cache rv)
           then Inr () else Inl BCache)"

text \<open>The faults met while one event is processed.\<close>

record event_faults =
  ef_apply :: db_fault
  ef_checked :: bool
  ef_noted :: bool
  ef_cache :: "invalidation \<Rightarrow> bool"
  ef_ack :: bool
  ef_defer :: bool

definition applyDurableUsageBilling :: "billing_env \<Rightarrow> db_fault \<Rightarrow> bool \<Rightarrow> event_faults \<Rightarrow> bool \<Rightarrow> bool \<Rightarrow>
    UsageBillingCommand \<Rightarrow> UsageLog \<Rightarrow> billing_db \<Rightarrow> (billing_err + bool) \<times> billing_db" where
  "applyDurableUsageBilling env sflt schecked ef cache checked_auth cmd usage db =
     (case StageUsageBilling env sflt schecked cmd usage db of
        (Inl e, db1) \<Rightarrow> (Inl e, db1)
      | (Inr _, db1) \<Rightarrow>
          let key = usage_key (UsageBilling_Normalize env cmd) in
          (case ApplyStagedUsageBilling env (ef_apply ef) (ef_checked ef) (ef_noted ef) key db1 of
             (Inl e, db2) \<Rightarrow> (Inl e, db2)
           | (Inr rv, db2) \<Rightarrow>
               (case invalidateDurableUsageBilling cache checked_auth (ef_cache ef) rv of
                  Inl e \<Rightarrow> (Inl e, DeferUsageBillingCache (be_now env) (ef_defer ef) key db2)
                | Inr _ \<Rightarrow>
                    if rv_NeedsCache rv then
                      (case AcknowledgeUsageBillingCache (be_now env) (ef_ack ef) key db2 of
                         (Inl e, db3) \<Rightarrow> (Inl e, db3)
                       | (Inr _, db3) \<Rightarrow> (Inr (br_Applied (rv_Result rv)), db3))
                    else (Inr (br_Applied (rv_Result rv)), db2))))"

text \<open>One event of a recovery cycle; the flag says whether it failed.\<close>

definition recover_event :: "billing_env \<Rightarrow> event_faults \<Rightarrow> bool \<Rightarrow> bool \<Rightarrow> request_key \<Rightarrow> billing_db \<Rightarrow> bool \<times> billing_db" where
  "recover_event env ef cache checked_auth key db =
     (case ApplyStagedUsageBilling env (ef_apply ef) (ef_checked ef) (ef_noted ef) key db of
        (Inl e, db1) \<Rightarrow> (True, db1)
      | (Inr rv, db1) \<Rightarrow>
          (case invalidateDurableUsageBilling cache checked_auth (ef_cache ef) rv of
             Inl e \<Rightarrow> (True, if rv_NeedsCache rv then DeferUsageBillingCache (be_now env) (ef_defer ef) key db1 else db1)
           | Inr _ \<Rightarrow>
               if rv_NeedsCache rv then
                 (case AcknowledgeUsageBillingCache (be_now env) (ef_ack ef) key db1 of
                    (Inl e, db2) \<Rightarrow> (True, DeferUsageBillingCache (be_now env) (ef_defer ef) key db2)
                  | (Inr _, db2) \<Rightarrow> (False, db2))
               else (False, db1)))"

fun recover_keys :: "billing_env \<Rightarrow> (request_key \<Rightarrow> event_faults) \<Rightarrow> bool \<Rightarrow> bool \<Rightarrow> request_key list \<Rightarrow> billing_db \<Rightarrow> bool \<times> billing_db" where
  "recover_keys env efs cache checked_auth [] db = (False, db)"
| "recover_keys env efs cache checked_auth (k # ks) db =
     (let (failed, db1) = recover_event env (efs k) cache checked_auth k db;
          (rest, db2) = recover_keys env efs cache checked_auth ks db1
      in (failed \<or> rest, db2))"

text \<open>\<open>reached\<close> keys are processed before the cycle's deadline.\<close>

definition recoverUsageBillingBatch :: "billing_env \<Rightarrow> (request_key \<Rightarrow> event_faults) \<Rightarrow> bool \<Rightarrow> bool \<Rightarrow> nat \<Rightarrow> billing_db \<Rightarrow> bool \<times> billing_db" where
  "recoverUsageBillingBatch env efs cache checked_auth reached db =
     (case PendingUsageBilling (be_now env) 64 db of
        Inl e \<Rightarrow> (True, db)
      | Inr keys \<Rightarrow>
          let (failed, db1) = recover_keys env efs cache checked_auth (take reached keys) db
          in (failed \<or> reached < length keys, db1))"

text \<open>What a committing attempt found and did.\<close>

lemma staged_tx_commit:
  assumes "staged_tx env key db = Commit db' r"
  obtains ev applied d1 where "map_of (bd_events db) key = Some ev" "ev_state ev = EPending"
    "validateUsageBillingEvent (ev_payload ev) key (ev_fingerprint ev) = None"
    "claim_key (usage_key (ue_Command (ev_payload ev))) (uc_RequestFingerprint (ue_Command (ev_payload ev))) (be_now env) db = Inr (applied, d1)"
    "\<not> applied \<and> db' = put_event key (ev\<lparr>ev_state := ELegacy, ev_completed := Some (be_now env), ev_result := Some no_result\<rparr>) d1 \<and>
       r = Inr (\<lparr>rv_Event = ev_payload ev, rv_Result = no_result, rv_NeedsCache = False\<rparr>, False) \<or>
     applied \<and> charge_event env key ev d1 = Commit db' r"
proof -
  obtain ev where ev: "map_of (bd_events db) key = Some ev" using assms by (auto simp: staged_tx_def split: option.splits)
  show thesis using assms that [OF ev] by (auto simp: staged_tx_def ev Let_def split: option.splits if_splits sum.splits)
qed

end
