(* ===== verification/BillingMoney.thy ===== *)
theory BillingMoney
  imports BatchMoney UsageDelivery
begin

text \<open>
  Customers' money across the journal, the batch image holds and the archiving of claims, in any order and under any fault of
  the database: amounts keep their eight places, nothing is charged twice, and nothing held is lost.
\<close>

section \<open>Eight decimal places\<close>

definition grid8 :: "rat \<Rightarrow> bool" where
  "grid8 x \<longleftrightarrow> (\<exists>n::int. x = of_int n / 100000000)"

lemma grid8_add:
  assumes "grid8 x" "grid8 y"
  shows "grid8 (x + y)"
proof -
  obtain m n :: int where "x = of_int m / 100000000" "y = of_int n / 100000000" using assms by (auto simp: grid8_def)
  then have "x + y = of_int (m + n) / 100000000" by (simp add: add_divide_distrib)
  then show ?thesis unfolding grid8_def by (rule exI)
qed

lemma grid8_diff:
  assumes "grid8 x" "grid8 y"
  shows "grid8 (x - y)"
proof -
  obtain m n :: int where "x = of_int m / 100000000" "y = of_int n / 100000000" using assms by (auto simp: grid8_def)
  then have "x - y = of_int (m - n) / 100000000" by (simp add: diff_divide_distrib)
  then show ?thesis unfolding grid8_def by (rule exI)
qed

lemma grid8_0: "grid8 0"
  unfolding grid8_def by (rule exI [of _ 0]) simp

lemma grid8_round8: "grid8 (round8 x)"
proof -
  have "round8 x = of_int ((if x < 0 then - 1 else if x = 0 then 0 else 1) * \<lfloor>\<bar>x\<bar> * 100000000 + 1 / 2\<rfloor>) / 100000000"
    by (simp add: round8_def sgn_if)
  then show ?thesis unfolding grid8_def by blast
qed

lemma round8_grid: "grid8 x \<Longrightarrow> round8 x = x"
proof -
  assume "grid8 x"
  then obtain n :: int where n: "x = of_int n / 100000000" unfolding grid8_def by blast
  have abs: "\<bar>x\<bar> * 100000000 = of_int \<bar>n\<bar>" by (simp add: n abs_divide)
  have "\<lfloor>(of_int \<bar>n\<bar> :: rat) + 1 / 2\<rfloor> = \<bar>n\<bar>" by (rule floor_unique) simp_all
  then have "round8 x = sgn x * of_int \<bar>n\<bar> / 100000000" by (simp add: round8_def abs)
  also have "\<dots> = sgn x * \<bar>x\<bar>" by (simp add: n abs_divide)
  also have "\<dots> = x" by (simp add: sgn_if abs_if)
  finally show ?thesis .
qed

lemma grid8_quantize: "grid8 (quantize x)"
  using grid8_round8 grid8_0 by (auto simp: quantize_def QuantizeUsageBillingAmount_def)

lemma exact_amount_grid: "exact_amount v = Some x \<Longrightarrow> grid8 x \<and> 0 \<le> x"
  using grid8_round8 [of x] grid8_0 by (auto simp: exact_amount_def QuantizeUsageBillingAmount_def split: gofloat.splits if_splits)

lemmas grid8_intros = grid8_add grid8_diff grid8_0 grid8_round8 grid8_quantize

section \<open>What the effects of a charge touch\<close>

text \<open>Tables other than the users' that a charge leaves alone.\<close>

definition same_journal :: "billing_db \<Rightarrow> billing_db \<Rightarrow> bool" where
  "same_journal db db' \<longleftrightarrow> bd_holds db' = bd_holds db \<and> bd_events db' = bd_events db \<and> bd_dedup db' = bd_dedup db \<and>
     bd_archive db' = bd_archive db \<and> bd_logs db' = bd_logs db"

lemma same_journal_trans: "same_journal a b \<Longrightarrow> same_journal b c \<Longrightarrow> same_journal a c"
  by (simp add: same_journal_def)

definition same_core :: "billing_db \<Rightarrow> billing_db \<Rightarrow> bool" where
  "same_core db db' \<longleftrightarrow> same_journal db db' \<and> bd_users db' = bd_users db"

lemma same_core_refl: "same_core db db"
  by (simp add: same_core_def same_journal_def)

lemma incrementSubscription_core: "incrementSubscription s c db = Inr db' \<Longrightarrow> same_core db db'"
  by (auto simp: incrementSubscription_def same_core_def same_journal_def split: option.splits if_splits)

lemma incrementKeyQuota_core: "incrementKeyQuota k a db = Inr (b, db') \<Longrightarrow> same_core db db'"
  by (auto simp: incrementKeyQuota_def same_core_def same_journal_def Let_def split: option.splits)

lemma incrementKeyRateLimit_core: "incrementKeyRateLimit env k a db = Inr db' \<Longrightarrow> same_core db db'"
  by (auto simp: incrementKeyRateLimit_def same_core_def same_journal_def Let_def split: option.splits)

lemma accountQuotaIncrement_core: "accountQuotaIncrement env d w k a db = Some (s, db') \<Longrightarrow> same_core db db'"
  by (auto simp: accountQuotaIncrement_def same_core_def same_journal_def Let_def split: option.splits if_splits)

lemma incrementAccountQuota_core: "incrementAccountQuota env k a d w db = Inr (s, db') \<Longrightarrow> same_core db db'"
  by (auto simp: incrementAccountQuota_def same_core_def same_journal_def split: option.splits if_splits
      dest!: accountQuotaIncrement_core)

lemma incrementPlatformQuota_core: "incrementPlatformQuota env c db = Inr db' \<Longrightarrow> same_core db db'"
  by (auto simp: incrementPlatformQuota_def same_core_def same_journal_def Let_def split: option.splits if_splits prod.splits)

lemma effects_core:
  "effect_subscription c db = Inr db' \<Longrightarrow> same_core db db'"
  "effect_key_quota c (r, db) = Inr (r', db') \<Longrightarrow> same_core db db'"
  "effect_rate_limit env c (r, db) = Inr (r', db') \<Longrightarrow> same_core db db'"
  "effect_account env c (r, db) = Inr (r', db') \<Longrightarrow> same_core db db'"
  "effect_platform env c (r, db) = Inr (r', db') \<Longrightarrow> same_core db db'"
      apply (auto simp: effect_subscription_def same_core_refl incrementSubscription_core split: option.splits if_splits) [1]
     apply (auto simp: effect_key_quota_def same_core_refl incrementKeyQuota_core split: sum.splits if_splits) [1]
    apply (auto simp: effect_rate_limit_def same_core_refl incrementKeyRateLimit_core split: sum.splits if_splits) [1]
   apply (auto simp: effect_account_def same_core_refl incrementAccountQuota_core split: sum.splits if_splits) [1]
  apply (auto simp: effect_platform_def same_core_refl incrementPlatformQuota_core split: sum.splits if_splits) [1]
  done

text \<open>The users' table after a charge.\<close>

definition charged :: "UsageBillingCommand \<Rightarrow> billing_db \<Rightarrow> billing_db \<Rightarrow> bool" where
  "charged c db db' \<longleftrightarrow>
     (if uc_BalanceCost c > 0
      then \<exists>u. live_user db (uc_UserID c) = Some u \<and>
             bd_users db' = tput (uc_UserID c) (u\<lparr>bu_balance := round8 (bu_balance u - uc_BalanceCost c)\<rparr>) (bd_users db)
      else bd_users db' = bd_users db)"

lemma effect_balance_charged:
  "effect_balance c (r, db) = Inr (r', db') \<Longrightarrow> same_journal db db' \<and> charged c db db'"
  by (auto simp: effect_balance_def deductBalance_def same_journal_def charged_def put_user_def Let_def split: sum.splits if_splits option.splits)

lemma and_then_Inr: "and_then x f = Inr y \<longleftrightarrow> (\<exists>a. x = Inr a \<and> f a = Inr y)"
  by (simp add: and_then_def split: sum.splits)

lemma applyEffects_charged:
  assumes "applyUsageBillingEffects env c db = Inr (r, db')"
  shows "same_journal db db'" "charged c db db'"
proof -
  obtain d1 r2 d2 r3 d3 r4 d4 r5 d5 where e:
    "effect_subscription c db = Inr d1" "effect_balance c (no_result\<lparr>br_Applied := True\<rparr>, d1) = Inr (r2, d2)"
    "effect_key_quota c (r2, d2) = Inr (r3, d3)" "effect_rate_limit env c (r3, d3) = Inr (r4, d4)"
    "effect_account env c (r4, d4) = Inr (r5, d5)" "effect_platform env c (r5, d5) = Inr (r, db')"
    using assms by (auto simp: applyUsageBillingEffects_def and_then_Inr)
  note core = effects_core(1) [OF e(1)] effects_core(2) [OF e(3)] effects_core(3) [OF e(4)] effects_core(4) [OF e(5)] effects_core(5) [OF e(6)]
  note bal = effect_balance_charged [OF e(2)]
  show "same_journal db db'" using core bal unfolding same_core_def same_journal_def by simp
  have users: "bd_users d1 = bd_users db" "bd_users db' = bd_users d2" using core by (simp_all add: same_core_def)
  then have "live_user d1 = live_user db" by (simp add: live_user_def fun_eq_iff)
  then show "charged c db db'" using bal users unfolding charged_def by (auto split: if_splits)
qed

lemma insertQuote_core: "insertUsageBillingQuote c db = Inr db' \<Longrightarrow> same_core db db'"
  by (auto simp: insertUsageBillingQuote_def same_core_def same_journal_def Let_def split: option.splits gofloat.splits if_splits)

section \<open>Accounts of a user\<close>

definition event_charge :: "int \<Rightarrow> billing_event \<Rightarrow> rat" where
  "event_charge uid ev =
     (if ev_state ev \<in> {EApplied, EComplete} \<and> uc_UserID (ue_Command (ev_payload ev)) = uid
      then max 0 (uc_BalanceCost (ue_Command (ev_payload ev))) else 0)"

definition hold_spent :: "int \<Rightarrow> money_hold \<Rightarrow> rat" where
  "hold_spent uid h = (if mh_user h = uid \<and> mh_state h = Captured then (case mh_actual h of None \<Rightarrow> 0 | Some a \<Rightarrow> a) else 0)"

definition hold_pending :: "int \<Rightarrow> money_hold \<Rightarrow> rat" where
  "hold_pending uid h = (if mh_user h = uid \<and> mh_state h = Held then mh_amount h else 0)"

text \<open>What the events applied and the holds captured so far cost a user, and what is held for the user's jobs.\<close>

definition spent :: "int \<Rightarrow> billing_db \<Rightarrow> rat" where
  "spent uid db = tsum (\<lambda>_. event_charge uid) (bd_events db) + tsum (\<lambda>_. hold_spent uid) (bd_holds db)"

definition held :: "int \<Rightarrow> billing_db \<Rightarrow> rat" where
  "held uid db = tsum (\<lambda>_. hold_pending uid) (bd_holds db)"

definition wealth :: "billing_user \<Rightarrow> rat" where
  "wealth u = bu_balance u + bu_frozen u"

definition accounted :: "billing_db \<Rightarrow> billing_db \<Rightarrow> bool" where
  "accounted db db' \<longleftrightarrow> (\<forall>uid u. map_of (bd_users db) uid = Some u \<longrightarrow>
     (\<exists>u'. map_of (bd_users db') uid = Some u' \<and> bu_frozen u' + held uid db = bu_frozen u + held uid db' \<and>
           wealth u' + spent uid db' = wealth u + spent uid db))"

text \<open>Stored amounts have eight places; a pending event's command is normalized.\<close>

definition exact_money :: "billing_db \<Rightarrow> bool" where
  "exact_money db \<longleftrightarrow>
     (\<forall>uid u. map_of (bd_users db) uid = Some u \<longrightarrow> grid8 (bu_balance u) \<and> grid8 (bu_frozen u)) \<and>
     (\<forall>k h. map_of (bd_holds db) k = Some h \<longrightarrow> grid8 (mh_amount h)) \<and>
     (\<forall>k ev. map_of (bd_events db) k = Some ev \<longrightarrow> grid8 (uc_BalanceCost (ue_Command (ev_payload ev))))"

lemma accounted_trans: "accounted a b \<Longrightarrow> accounted b c \<Longrightarrow> accounted a c"
  unfolding accounted_def by (smt (verit) add.assoc add.commute add_left_cancel)

lemma accounted_same:
  assumes "bd_users db' = bd_users db" "\<And>uid. held uid db' = held uid db" "\<And>uid. spent uid db' = spent uid db"
  shows "accounted db db'"
  using assms by (simp add: accounted_def)

text \<open>Journal entries that change nothing about the money.\<close>

definition neutral :: "billing_event option \<Rightarrow> billing_event \<Rightarrow> bool" where
  "neutral old ev \<longleftrightarrow>
     (case old of None \<Rightarrow> ev_state ev = EPending
      | Some o' \<Rightarrow> ev_payload ev = ev_payload o' \<and> (ev_state ev \<in> {EApplied, EComplete} \<longleftrightarrow> ev_state o' \<in> {EApplied, EComplete}))"

lemma put_event_neutral:
  assumes "neutral (map_of (bd_events db) key) ev" "exact_money db"
    "map_of (bd_events db) key = None \<Longrightarrow> grid8 (uc_BalanceCost (ue_Command (ev_payload ev)))"
  shows "accounted db (put_event key ev db) \<and> exact_money (put_event key ev db)"
proof
  show "accounted db (put_event key ev db)"
    using assms(1) by (intro accounted_same)
      (auto simp: put_event_def held_def spent_def tsum_tput neutral_def event_charge_def split: option.splits)
  show "exact_money (put_event key ev db)"
    using assms unfolding exact_money_def
    by (auto simp: put_event_def map_of_tput neutral_def split: option.splits if_splits)
qed

lemma same_money: "bd_users db' = bd_users db \<Longrightarrow> bd_holds db' = bd_holds db \<Longrightarrow> bd_events db' = bd_events db \<Longrightarrow>
    accounted db db' \<and> (exact_money db \<longrightarrow> exact_money db')"
  by (simp add: accounted_def held_def spent_def exact_money_def)

section \<open>The journal\<close>

lemma stage_money:
  assumes "stage_tx env c usage db = Commit db' r" "exact_money db" "grid8 (uc_BalanceCost c)"
  shows "accounted db db' \<and> exact_money db'"
proof (cases "map_of (bd_events db) (usage_key c)")
  case None
  then have "db' = put_event (usage_key c) (stage_event env c usage) db"
    using assms(1) by (auto simp: stage_tx_def put_event_def Let_def split: if_splits)
  then show ?thesis using put_event_neutral [of db "usage_key c" "stage_event env c usage"] None assms(2,3)
    by (simp add: neutral_def stage_event_def Let_def)
next
  case (Some ev)
  then have "db' = db" using assms(1) by (auto simp: stage_tx_def Let_def split: if_splits)
  then show ?thesis using assms(2) by (simp add: accounted_def)
qed

lemma Stage_money:
  assumes "exact_money db"
  shows "accounted db (snd (StageUsageBilling env flt checked cmd usage db)) \<and> exact_money (snd (StageUsageBilling env flt checked cmd usage db))"
proof -
  have "grid8 (uc_BalanceCost (UsageBilling_Normalize env cmd))"
    by (simp add: UsageBilling_Normalize_def quantizeMonetaryFields_def Let_def grid8_quantize)
  then have "accounted db db' \<and> exact_money db'" if "stage_tx env (UsageBilling_Normalize env cmd) usage db = Commit db' r" for db' r
    using stage_money that assms by blast
  moreover have "accounted db db" by (simp add: accounted_def)
  ultimately show ?thesis using assms unfolding StageUsageBilling_def run_checked_def by (auto simp: Let_def split: tx.splits)
qed

lemma claim_same: "claim_key k fp now db = Inr (b, db') \<Longrightarrow>
    bd_users db' = bd_users db \<and> bd_holds db' = bd_holds db \<and> bd_events db' = bd_events db \<and> bd_logs db' = bd_logs db \<and>
    bd_accounts db' = bd_accounts db \<and> bd_keys db' = bd_keys db"
  by (auto simp: claim_key_def Let_def split: option.splits if_splits)

text \<open>The charge: the user pays the command's cost, and the event becomes applied.\<close>

lemma charge_money:
  assumes ev: "map_of (bd_events db) key = Some ev" "ev_state ev = EPending" and x: "exact_money db"
    and c: "charge_event env key ev db = Commit db' r"
  shows "accounted db db' \<and> exact_money db'"
proof -
  let ?c = "ue_Command (ev_payload ev)"
  obtain r2 d2 d3 where e12: "applyUsageBillingEffects env ?c db = Inr (r2, d2)" "insertUsageBillingQuote ?c d2 = Inr d3"
    and db': "db' = put_event key (ev\<lparr>ev_state := EApplied, ev_result := Some r2, ev_applied := Some (be_now env), ev_failure := None,
      ev_next := be_now env\<rparr>) (d3\<lparr>bd_logs := tnew (ul_RequestID (ue_Usage (ev_payload ev)), ul_APIKeyID (ue_Usage (ev_payload ev)))
        (ue_Usage (ev_payload ev)) (bd_logs d3)\<rparr>)"
    using c by (auto simp: charge_event_def Let_def split: if_splits sum.splits)
  define ev' where "ev' = ev\<lparr>ev_state := EApplied, ev_result := Some r2, ev_applied := Some (be_now env), ev_failure := None,
      ev_next := be_now env\<rparr>"
  have e: "applyUsageBillingEffects env ?c db = Inr (r2, d2)" "insertUsageBillingQuote ?c d2 = Inr d3"
    "ev_payload ev' = ev_payload ev" "ev_state ev' = EApplied"
    "bd_users db' = bd_users d3" "bd_holds db' = bd_holds d3" "bd_events db' = tput key ev' (bd_events d3)"
    using e12 by (simp_all add: db' put_event_def ev'_def)
  have same: "bd_holds db' = bd_holds db" "bd_events db' = tput key ev' (bd_events db)" and ch: "charged ?c db db'"
    using applyEffects_charged [OF e(1)] insertQuote_core [OF e(2)] e(5-7)
    by (auto simp: same_journal_def same_core_def charged_def)
  have g: "grid8 (uc_BalanceCost ?c)" using x ev(1) unfolding exact_money_def by blast
  have U: "grid8 (bu_balance u) \<and> grid8 (bu_frozen u)" if "map_of (bd_users db) uid = Some u" for uid u
    using x that by (simp add: exact_money_def)
  have sp: "spent uid db' = spent uid db + (if uid = uc_UserID ?c then max 0 (uc_BalanceCost ?c) else 0)" for uid
    using ev e(3,4) same by (simp add: spent_def tsum_tput event_charge_def)
  have hd: "held uid db' = held uid db" for uid using same by (simp add: held_def)
  have acc: "accounted db db'"
    unfolding accounted_def
  proof (intro allI impI)
    fix uid u
    assume u: "map_of (bd_users db) uid = Some u"
    show "\<exists>u'. map_of (bd_users db') uid = Some u' \<and> bu_frozen u' + held uid db = bu_frozen u + held uid db' \<and>
        wealth u' + spent uid db' = wealth u + spent uid db"
      using ch u sp [of uid] hd U [OF u] g
      by (auto simp: charged_def live_user_def map_of_tput wealth_def round8_grid grid8_diff split: if_splits option.splits)
  qed
  have "exact_money db'"
    using x g e(3) same ch ev(1) unfolding exact_money_def charged_def
    by (auto simp: map_of_tput grid8_round8 live_user_def split: if_splits option.splits)
  then show ?thesis using acc by blast
qed

section \<open>Claims stay\<close>

text \<open>Whoever is held for has a claimed hold request; claims move to the archive but never disappear.\<close>

definition held_claimed :: "billing_db \<Rightarrow> bool" where
  "held_claimed db \<longleftrightarrow> (\<forall>b kid h. map_of (bd_holds db) (b, kid) = Some h \<longrightarrow> mh_state h = Held \<longrightarrow>
     holdClaimExists (BatchImageHoldRequestID b, kid) db)"

text \<open>A request is claimed with a fingerprint: it has a claim, and every claim of it carries that fingerprint.\<close>

definition claim_rows :: "billing_db \<Rightarrow> (request_key \<times> string \<times> gotime) set" where
  "claim_rows db = set (bd_dedup db) \<union> set (bd_archive db)"

definition claimed_as :: "request_key \<Rightarrow> string \<Rightarrow> billing_db \<Rightarrow> bool" where
  "claimed_as k f db \<longleftrightarrow> holdClaimExists k db \<and>
     (\<forall>fp w. (k, fp, w) \<in> claim_rows db \<longrightarrow> strings_TrimSpace fp = strings_TrimSpace f)"

definition claims_kept :: "billing_db \<Rightarrow> billing_db \<Rightarrow> bool" where
  "claims_kept db db' \<longleftrightarrow> (\<forall>k. holdClaimExists k db \<longrightarrow> holdClaimExists k db') \<and> (\<forall>k f. claimed_as k f db \<longrightarrow> claimed_as k f db')"

lemma claims_kept_claim: "claims_kept db db' \<Longrightarrow> holdClaimExists k db \<Longrightarrow> holdClaimExists k db'"
  unfolding claims_kept_def by blast

lemma claims_kept_trans: "claims_kept a b \<Longrightarrow> claims_kept b c \<Longrightarrow> claims_kept a c"
  by (simp add: claims_kept_def)

lemma claims_kept_same: "bd_dedup db' = bd_dedup db \<Longrightarrow> bd_archive db' = bd_archive db \<Longrightarrow> claims_kept db db'"
  by (simp add: claims_kept_def claimed_as_def claim_rows_def holdClaimExists_def)

lemma claim_kept:
  assumes "claim_key k fp now db = Inr (b, db')"
  shows "claims_kept db db'" "holdClaimExists k db'" "b \<longleftrightarrow> \<not> holdClaimExists k db"
proof -
  show exists: "holdClaimExists k db'" "b \<longleftrightarrow> \<not> holdClaimExists k db"
    using assms by (auto simp: claim_key_def holdClaimExists_def map_of_tput Let_def split: option.splits if_splits)
  have kept: "holdClaimExists j db \<Longrightarrow> holdClaimExists j db'" for j
    using assms by (auto simp: claim_key_def holdClaimExists_def map_of_tput Let_def split: option.splits if_splits)
  have rows: "db' = db \<or> map_of (bd_dedup db) k = None \<and> bd_dedup db' = tput k (fp, now) (bd_dedup db) \<and> bd_archive db' = bd_archive db \<and>
      (map_of (bd_archive db) k = None \<or>
       (\<exists>old w. map_of (bd_archive db) k = Some (old, w) \<and> strings_TrimSpace old = strings_TrimSpace fp))"
    using assms by (auto simp: claim_key_def Let_def split: option.splits if_splits)
  have "claimed_as j f db'" if c: "claimed_as j f db" for j f
    unfolding claimed_as_def
  proof (intro conjI allI impI)
    show "holdClaimExists j db'" using c kept unfolding claimed_as_def by blast
    fix g w
    assume g: "(j, g, w) \<in> claim_rows db'"
    show "strings_TrimSpace g = strings_TrimSpace f"
    proof (cases "(j, g, w) \<in> claim_rows db")
      case False
      then have new: "j = k" "g = fp" and r: "map_of (bd_dedup db) k = None"
          "map_of (bd_archive db) k = None \<or> (\<exists>old w. map_of (bd_archive db) k = Some (old, w) \<and> strings_TrimSpace old = strings_TrimSpace fp)"
        using g rows unfolding claim_rows_def by (auto dest: set_tput)
      then obtain old a where old: "map_of (bd_archive db) k = Some (old, a)" "strings_TrimSpace old = strings_TrimSpace fp"
        using c unfolding claimed_as_def holdClaimExists_def by auto
      then show ?thesis using c new map_of_SomeD [OF old(1)] unfolding claimed_as_def claim_rows_def by auto
    qed (use c in \<open>auto simp: claimed_as_def\<close>)
  qed
  then show "claims_kept db db'" using kept unfolding claims_kept_def by blast
qed

text \<open>A claim that succeeds is the only one of its request, and a claimed request is answered by its fingerprint.\<close>

lemma claim_first:
  assumes "claim_key k fp now db = Inr (True, db')" "\<And>v. (k, v) \<notin> claim_rows db"
  shows "claimed_as k fp db'"
  using assms claim_kept(2) [OF assms(1)]
  by (auto simp: claimed_as_def claim_key_def claim_rows_def Let_def dest!: set_tput split: option.splits if_splits)

lemma claim_unclaimed: "\<not> holdClaimExists k db \<Longrightarrow> (k, v) \<notin> claim_rows db"
  by (force simp: holdClaimExists_def claim_rows_def map_of_eq_None_iff)

lemma claim_answer:
  assumes "claimed_as k f db"
  shows "claim_key k fp now db = Inl BRequestConflict \<and> strings_TrimSpace fp \<noteq> strings_TrimSpace f \<or>
    (\<exists>db'. claim_key k fp now db = Inr (False, db')) \<and> strings_TrimSpace fp = strings_TrimSpace f"
proof -
  have rows: "strings_TrimSpace old = strings_TrimSpace f"
    if "map_of (bd_dedup db) k = Some (old, w) \<or> map_of (bd_archive db) k = Some (old, w)" for old w
    using assms that unfolding claimed_as_def claim_rows_def by (auto dest: map_of_SomeD)
  show ?thesis
  proof (cases "map_of (bd_dedup db) k")
    case (Some v)
    then show ?thesis using rows [of "fst v" "snd v"] by (auto simp: claim_key_def split: prod.split)
  next
    case None
    then obtain old w where old: "map_of (bd_archive db) k = Some (old, w)"
      using assms by (auto simp: claimed_as_def holdClaimExists_def)
    then show ?thesis using rows [of old w] None by (auto simp: claim_key_def Let_def)
  qed
qed

lemma archive_mono:
  "map_of t k \<noteq> None \<or> k \<in> fst ` set vs \<Longrightarrow> map_of (fold (\<lambda>(k, v). tnew k v) vs t) k \<noteq> None"
proof (induction vs arbitrary: t)
  case (Cons x vs)
  obtain j v where x: "x = (j, v)" by (cases x)
  have "map_of (tnew j v t) k \<noteq> None \<or> k \<in> fst ` set vs" using Cons.prems by (auto simp: x map_of_tnew)
  then have "map_of (fold (\<lambda>(k, v). tnew k v) vs (tnew j v t)) k \<noteq> None" by (rule Cons.IH)
  then show ?case by (simp add: x)
qed simp

lemma set_fold_tnew: "x \<in> set (fold (\<lambda>(k, v). tnew k v) vs t) \<Longrightarrow> x \<in> set vs \<or> x \<in> set t"
proof (induction vs arbitrary: t)
  case (Cons y vs)
  obtain j v where y: "y = (j, v)" by (cases y)
  have "x \<in> set vs \<or> x \<in> set (tnew j v t)" using Cons by (simp add: y)
  then show ?case by (auto simp: y tnew_def dest: set_tput split: option.splits)
qed simp

lemma map_of_filter_keys: "map_of (filter (\<lambda>(k, _). P k) t) k = (if P k then map_of t k else None)"
  by (induction t) auto

lemma archive_batch_kept: "archive_batch n cutoff db = (m, db') \<Longrightarrow> claims_kept db db'"
proof -
  assume a: "archive_batch n cutoff db = (m, db')"
  let ?v = "take n (filter (\<lambda>(k, _, created). created < cutoff) (bd_dedup db))"
  have db': "bd_archive db' = fold (\<lambda>(k, v). tnew k v) ?v (bd_archive db)"
    "bd_dedup db' = filter (\<lambda>(k, _). k \<notin> fst ` set ?v) (bd_dedup db)"
    using a by (auto simp: archive_batch_def Let_def)
  have kept: "holdClaimExists k db'" if "holdClaimExists k db" for k
  proof -
    have k: "map_of (bd_dedup db) k \<noteq> None \<or> map_of (bd_archive db) k \<noteq> None" using that by (simp add: holdClaimExists_def)
    have "map_of (bd_dedup db') k \<noteq> None \<or> map_of (bd_archive db') k \<noteq> None"
    proof (cases "k \<in> fst ` set ?v")
      case True
      then show ?thesis using archive_mono [of "bd_archive db" k ?v] unfolding db' by blast
    next
      case False
      then have "map_of (bd_dedup db') k = map_of (bd_dedup db) k" unfolding db' by (simp only: map_of_filter_keys if_True not_False_eq_True)
      then show ?thesis using k archive_mono [of "bd_archive db" k ?v] unfolding db'(1) by auto
    qed
    then show ?thesis by (simp add: holdClaimExists_def)
  qed
  have "x \<in> claim_rows db" if "x \<in> claim_rows db'" for x
    using that set_fold_tnew [of x ?v "bd_archive db"] in_set_takeD [of x n] unfolding claim_rows_def db' by fastforce
  then show "claims_kept db db'" using kept unfolding claims_kept_def claimed_as_def by blast
qed

lemma held_claimed_kept: "held_claimed db \<Longrightarrow> claims_kept db db' \<Longrightarrow> bd_holds db' = bd_holds db \<Longrightarrow> held_claimed db'"
  by (simp add: held_claimed_def claims_kept_def)

section \<open>Holds\<close>

lemma hold_money_None:
  assumes h: "map_of (bd_holds db) k = None" and x: "exact_money db" and g: "grid8 hold" "0 \<le> hold" and k: "k = (b, kid)"
    and r: "reserveBalance uid hold (put_hold k \<lparr>mh_user = uid, mh_amount = hold, mh_actual = None, mh_state = Held\<rparr> db) = Inr (res, db')"
  shows "accounted db db' \<and> exact_money db' \<and> bd_holds db' = tput k \<lparr>mh_user = uid, mh_amount = hold, mh_actual = None, mh_state = Held\<rparr> (bd_holds db)
    \<and> bd_dedup db' = bd_dedup db \<and> bd_archive db' = bd_archive db"
proof -
  let ?row = "\<lparr>mh_user = uid, mh_amount = hold, mh_actual = None, mh_state = Held\<rparr>"
  have U: "grid8 (bu_balance u) \<and> grid8 (bu_frozen u)" if "map_of (bd_users db) i = Some u" for i u
    using x that by (simp add: exact_money_def)
  have tabs: "bd_holds db' = tput k ?row (bd_holds db)" "bd_events db' = bd_events db" "bd_dedup db' = bd_dedup db" "bd_archive db' = bd_archive db"
    and us: "bd_users db' = bd_users db \<and> hold = 0 \<or>
      (\<exists>u. map_of (bd_users db) uid = Some u \<and> bd_users db' = tput uid (u\<lparr>bu_balance := round8 (bu_balance u - hold), bu_frozen := round8 (bu_frozen u + hold)\<rparr>) (bd_users db))"
    using r g(2) by (auto simp: reserveBalance_def moved_def put_user_def put_hold_def live_user_def split: if_splits option.splits)
  have hd: "held i db' = held i db + (if i = uid then hold else 0)" for i
    using h tabs by (simp add: held_def tsum_tput hold_pending_def)
  have sp: "spent i db' = spent i db" for i
    using h tabs by (simp add: spent_def tsum_tput hold_spent_def)
  have "accounted db db'"
    unfolding accounted_def
  proof (intro allI impI)
    fix i u
    assume u: "map_of (bd_users db) i = Some u"
    show "\<exists>u'. map_of (bd_users db') i = Some u' \<and> bu_frozen u' + held i db = bu_frozen u + held i db' \<and>
        wealth u' + spent i db' = wealth u + spent i db"
      using us u U [OF u] g by (auto simp: hd sp map_of_tput wealth_def round8_grid grid8_diff grid8_add)
  qed
  moreover have "exact_money db'"
    using x tabs us g unfolding exact_money_def by (auto simp: map_of_tput grid8_round8 split: if_splits)
  ultimately show ?thesis using tabs by blast
qed

lemma captureBalance_moved:
  assumes "captureBalance uid hold actual db = Inr (res, d)" "\<not> (hold \<le> 0 \<and> actual \<le> 0)"
  shows "\<exists>u. map_of (bd_users db) uid = Some u \<and>
    d = put_user uid (u\<lparr>bu_balance := round8 (bu_balance u + (hold - actual)), bu_frozen := round8 (bu_frozen u - hold)\<rparr>) db"
proof -
  have le: "\<not> actual - hold > 1 / 100000000" using assms by (auto simp: captureBalance_def)
  then obtain u where u: "live_user db uid = Some u" "hold \<le> bu_frozen u"
    using assms by (cases "live_user db uid"; cases "hold \<le> bu_frozen (the (live_user db uid))") (simp_all add: captureBalance_def)
  have eq: "bu_balance u + (if hold > actual then hold - actual else 0) - (if actual > hold then actual - hold else 0)
      = bu_balance u + (hold - actual)" by auto
  have "d = put_user uid (u\<lparr>bu_balance := round8 (bu_balance u + (hold - actual)), bu_frozen := round8 (bu_frozen u - hold)\<rparr>) db"
    using assms u le unfolding captureBalance_def moved_def by (simp only: eq if_False if_True option.case) simp
  moreover have "map_of (bd_users db) uid = Some u" using u(1) by (auto simp: live_user_def split: option.splits if_splits)
  ultimately show ?thesis by blast
qed

lemma hold_money_Some:
  assumes h: "map_of (bd_holds db) k = Some h" "mh_user h = uid" "mh_amount h = hold" "mh_state h = Held"
    and x: "exact_money db" and g: "grid8 hold" "0 \<le> hold" "grid8 actual" "0 \<le> actual"
    and op: "op = OpCapture \<and> captureBalance uid hold actual db = Inr (res, d) \<or>
             op = OpRelease \<and> releaseBalance uid b kid hold db = Inr (res, d) \<and> holdClaimExists (BatchImageHoldRequestID b, kid) db"
    and db': "db' = put_hold k (h\<lparr>mh_state := settled_state op, mh_actual := Some actual\<rparr>) d"
  shows "accounted db db' \<and> exact_money db' \<and> bd_holds db' = tput k (h\<lparr>mh_state := settled_state op, mh_actual := Some actual\<rparr>) (bd_holds db)
    \<and> bd_dedup db' = bd_dedup db \<and> bd_archive db' = bd_archive db"
proof -
  let ?row = "h\<lparr>mh_state := settled_state op, mh_actual := Some actual\<rparr>" and ?paid = "if op = OpCapture then actual else 0"
  have U: "grid8 (bu_balance u) \<and> grid8 (bu_frozen u)" if "map_of (bd_users db) i = Some u" for i u
    using x that by (simp add: exact_money_def)
  have tabs: "bd_holds db' = tput k ?row (bd_holds db)" "bd_events db' = bd_events db" "bd_dedup db' = bd_dedup db" "bd_archive db' = bd_archive db"
    using op db' by (auto simp: captureBalance_def releaseBalance_def moved_def put_user_def put_hold_def split: if_splits option.splits)
  have us: "bd_users db' = bd_users db \<and> hold = 0 \<and> ?paid = 0 \<or>
      (\<exists>u. map_of (bd_users db) uid = Some u \<and>
           bd_users db' = tput uid (u\<lparr>bu_balance := round8 (bu_balance u + (hold - ?paid)), bu_frozen := round8 (bu_frozen u - hold)\<rparr>) (bd_users db))"
    using op
  proof
    assume a: "op = OpCapture \<and> captureBalance uid hold actual db = Inr (res, d)"
    show ?thesis
    proof (cases "hold \<le> 0 \<and> actual \<le> 0")
      case True
      then show ?thesis using a g by (auto simp: db' captureBalance_def put_hold_def)
    next
      case False
      have "captureBalance uid hold actual db = Inr (res, d)" using a by blast
      then obtain u where u: "map_of (bd_users db) uid = Some u"
        "d = put_user uid (u\<lparr>bu_balance := round8 (bu_balance u + (hold - actual)), bu_frozen := round8 (bu_frozen u - hold)\<rparr>) db"
        using captureBalance_moved False by blast
      then show ?thesis using a by (simp add: db' put_user_def put_hold_def)
    qed
  next
    assume a: "op = OpRelease \<and> releaseBalance uid b kid hold db = Inr (res, d) \<and> holdClaimExists (BatchImageHoldRequestID b, kid) db"
    then show ?thesis using g by (auto simp: db' releaseBalance_def moved_def put_user_def put_hold_def live_user_def split: if_splits option.splits)
  qed
  have hd: "held i db' = held i db - (if i = uid then hold else 0)" for i
    using h tabs by (auto simp: held_def tsum_tput hold_pending_def settled_state_def)
  have sp: "spent i db' = spent i db + (if i = uid then ?paid else 0)" for i
    using h tabs op by (auto simp: spent_def tsum_tput hold_spent_def settled_state_def)
  have g': "grid8 (hold - ?paid)" using g grid8_diff by auto
  have "accounted db db'"
    unfolding accounted_def
  proof (intro allI impI)
    fix i u
    assume u: "map_of (bd_users db) i = Some u"
    show "\<exists>u'. map_of (bd_users db') i = Some u' \<and> bu_frozen u' + held i db = bu_frozen u + held i db' \<and>
        wealth u' + spent i db' = wealth u + spent i db"
    proof (cases "bd_users db' = bd_users db \<and> hold = 0 \<and> ?paid = 0")
      case True
      then show ?thesis using u by (auto simp: hd sp)
    next
      case False
      then obtain v where v: "map_of (bd_users db) uid = Some v"
        "bd_users db' = tput uid (v\<lparr>bu_balance := round8 (bu_balance v + (hold - ?paid)), bu_frozen := round8 (bu_frozen v - hold)\<rparr>) (bd_users db)"
        using us by blast
      have "round8 (bu_balance v + (hold - ?paid)) = bu_balance v + (hold - ?paid)" "round8 (bu_frozen v - hold) = bu_frozen v - hold"
        using U [OF v(1)] g(1) g' by (simp_all add: round8_grid grid8_add grid8_diff)
      then show ?thesis using u v by (cases "i = uid") (simp_all add: hd sp map_of_tput wealth_def)
    qed
  qed
  moreover have "exact_money db'"
    using x tabs us g h unfolding exact_money_def by (auto simp: map_of_tput grid8_round8 split: if_splits)
  ultimately show ?thesis using tabs by blast
qed

end
