(* ===== verification/BillingSystem.thy ===== *)
theory BillingSystem
  imports BillingMoney
begin

text \<open>
  The billing system as a whole: staging, applying, acknowledging, hold operations, direct charges and the archiving of claims as
  steps on one database, in any order and under any fault; the properties of customers' money and of repeated requests.
\<close>

section \<open>The system\<close>

definition money_inv :: "billing_db \<Rightarrow> bool" where
  "money_inv db \<longleftrightarrow> exact_money db \<and> held_claimed db"

text \<open>A step that keeps the books: the customers' money moves as the journal and the holds say, and the invariant is kept.\<close>

definition sound_step :: "billing_db \<Rightarrow> billing_db \<Rightarrow> bool" where
  "sound_step db db' \<longleftrightarrow> accounted db db' \<and> exact_money db' \<and> held_claimed db' \<and> claims_kept db db'"

lemma sound_refl: "money_inv db \<Longrightarrow> sound_step db db"
  by (simp add: sound_step_def money_inv_def accounted_def claims_kept_def)

lemma sound_trans: "sound_step a b \<Longrightarrow> sound_step b c \<Longrightarrow> sound_step a c"
  unfolding sound_step_def using accounted_trans claims_kept_trans by blast

lemma put_event_other: "bd_holds (put_event k ev db) = bd_holds db" "bd_dedup (put_event k ev db) = bd_dedup db"
    "bd_archive (put_event k ev db) = bd_archive db" "bd_users (put_event k ev db) = bd_users db"
  by (simp_all add: put_event_def)

lemma sound_journal:
  assumes "money_inv db" "accounted db db'" "exact_money db'" "bd_holds db' = bd_holds db" "claims_kept db db'"
  shows "sound_step db db'"
  using assms held_claimed_kept unfolding sound_step_def money_inv_def by blast

lemma put_event_sound:
  assumes "money_inv db" "map_of (bd_events db) key = Some ev" "ev_payload ev' = ev_payload ev"
    "ev_state ev' \<in> {EApplied, EComplete} \<longleftrightarrow> ev_state ev \<in> {EApplied, EComplete}"
  shows "sound_step db (put_event key ev' db)"
proof (rule sound_journal [OF assms(1)])
  have "accounted db (put_event key ev' db) \<and> exact_money (put_event key ev' db)"
    by (rule put_event_neutral) (use assms in \<open>auto simp: neutral_def money_inv_def\<close>)
  then show "accounted db (put_event key ev' db)" "exact_money (put_event key ev' db)" by blast+
qed (simp_all add: put_event_other claims_kept_same)

lemma claim_sound: "money_inv db \<Longrightarrow> claim_key k fp now db = Inr (b, db') \<Longrightarrow> sound_step db db'"
  by (rule sound_journal) (use claim_same claim_kept(1) same_money in \<open>auto simp: money_inv_def\<close>)

lemma sound_inv: "sound_step db db' \<Longrightarrow> money_inv db'"
  by (simp add: sound_step_def money_inv_def)

lemma staged_tx_sound:
  assumes x: "money_inv db" and c: "staged_tx env key db = Commit db' r"
  shows "sound_step db db'"
proof -
  obtain ev applied d1 where ev: "map_of (bd_events db) key = Some ev" "ev_state ev = EPending"
    and cl: "claim_key (usage_key (ue_Command (ev_payload ev))) (uc_RequestFingerprint (ue_Command (ev_payload ev))) (be_now env) db = Inr (applied, d1)"
    and res: "\<not> applied \<and> db' = put_event key (ev\<lparr>ev_state := ELegacy, ev_completed := Some (be_now env), ev_result := Some no_result\<rparr>) d1
      \<or> applied \<and> charge_event env key ev d1 = Commit db' r"
    by (rule staged_tx_commit [OF c]) blast
  have s1: "sound_step db d1" by (rule claim_sound [OF x cl])
  have ev1: "map_of (bd_events d1) key = Some ev" using claim_same [OF cl] ev(1) by simp
  show ?thesis using res
  proof
    assume a: "\<not> applied \<and> db' = put_event key (ev\<lparr>ev_state := ELegacy, ev_completed := Some (be_now env), ev_result := Some no_result\<rparr>) d1"
    have "sound_step d1 (put_event key (ev\<lparr>ev_state := ELegacy, ev_completed := Some (be_now env), ev_result := Some no_result\<rparr>) d1)"
      by (rule put_event_sound [OF sound_inv [OF s1] ev1]) (use ev(2) in simp_all)
    then show ?thesis using a sound_trans [OF s1] by blast
  next
    assume a: "applied \<and> charge_event env key ev d1 = Commit db' r"
    have x1: "exact_money d1" using s1 by (simp add: sound_step_def)
    have "accounted d1 db' \<and> exact_money db'" using charge_money [OF ev1 ev(2) x1] a by blast
    moreover have "bd_holds db' = bd_holds d1 \<and> bd_dedup db' = bd_dedup d1 \<and> bd_archive db' = bd_archive d1"
      using a by (auto simp: charge_event_def put_event_def Let_def same_journal_def same_core_def split: if_splits sum.splits
          dest!: applyEffects_charged(1) insertQuote_core)
    ultimately have "sound_step d1 db'" using sound_journal [OF sound_inv [OF s1]] claims_kept_same by blast
    then show ?thesis using sound_trans [OF s1] by blast
  qed
qed

lemma run_checked_sound:
  assumes "money_inv db" "\<And>db' r. body db = Commit db' r \<Longrightarrow> sound_step db db'"
  shows "sound_step db (snd (run_checked flt checked known body db))"
  using assms sound_refl unfolding run_checked_def by (auto simp: Let_def split: tx.splits)

lemma run_tx_sound:
  assumes "money_inv db" "\<And>db' r. body db = Commit db' r \<Longrightarrow> sound_step db db'"
  shows "sound_step db (snd (run_tx flt e body db))"
  using assms sound_refl unfolding run_tx_def by (auto split: tx.splits db_fault.splits)

lemma note_failure_sound: "money_inv db \<Longrightarrow> sound_step db (note_failure env key err db)"
  unfolding note_failure_def
  by (auto simp: Let_def sound_refl split: option.splits intro!: put_event_sound)

lemma run_staged_sound:
  assumes x: "money_inv db"
  shows "sound_step db (snd (run_staged env flt checked key db))"
proof -
  have general: "sound_step db (snd (run_checked flt checked (committed_outcome key)
      (\<lambda>d. case staged_tx env key d of Rollback r \<Rightarrow> Rollback (map_sum id fst r) | Commit d' r \<Rightarrow> Commit d' (map_sum id fst r)) db))"
    by (rule run_checked_sound [OF x]) (use staged_tx_sound [OF x] in \<open>auto split: tx.splits\<close>)
  have plain: "sound_step db (snd (run_tx flt BDb (\<lambda>_. Commit db' (Inr rv)) db))" if "staged_tx env key db = Commit db' r" for db' r rv
    by (rule run_tx_sound [OF x]) (use staged_tx_sound [OF x that] in auto)
  show ?thesis
  proof (cases "\<exists>db' rv. staged_tx env key db = Commit db' (Inr (rv, False))")
    case True
    then obtain db' rv where c: "staged_tx env key db = Commit db' (Inr (rv, False))" by blast
    then show ?thesis using plain [OF c, of rv] by (simp add: run_staged_def)
  next
    case False
    then have "run_staged env flt checked key db = run_checked flt checked (committed_outcome key)
      (\<lambda>d. case staged_tx env key d of Rollback r \<Rightarrow> Rollback (map_sum id fst r) | Commit d' r \<Rightarrow> Commit d' (map_sum id fst r)) db"
      unfolding run_staged_def by (auto split: tx.split sum.split bool.split)
    then show ?thesis using general by simp
  qed
qed

lemma ApplyStaged_sound:
  assumes x: "money_inv db"
  shows "sound_step db (snd (ApplyStagedUsageBilling env flt checked noted key db))"
proof -
  obtain r d where r: "run_staged env flt checked key db = (r, d)" by (cases "run_staged env flt checked key db")
  then have s: "sound_step db d" using run_staged_sound [OF x, of env flt checked key] by simp
  then show ?thesis using note_failure_sound [OF sound_inv [OF s]] sound_trans [OF s] r
    by (auto simp: ApplyStagedUsageBilling_def split: sum.splits)
qed

lemma Stage_sound:
  assumes x: "money_inv db"
  shows "sound_step db (snd (StageUsageBilling env flt checked cmd usage db))"
proof -
  have "bd_holds (snd (StageUsageBilling env flt checked cmd usage db)) = bd_holds db \<and>
      claims_kept db (snd (StageUsageBilling env flt checked cmd usage db))"
    by (auto simp: StageUsageBilling_def run_checked_def stage_tx_def Let_def intro!: claims_kept_same split: tx.splits if_splits)
  then show ?thesis using Stage_money sound_journal [OF x] x unfolding money_inv_def by blast
qed

lemma update_applied_sound:
  assumes "money_inv db" "\<And>ev. ev_payload (f ev) = ev_payload ev" "\<And>ev. ev_state ev = EApplied \<Longrightarrow> ev_state (f ev) \<in> {EApplied, EComplete}"
  shows "sound_step db (update_applied key f db)"
  using assms sound_refl unfolding update_applied_def by (auto split: option.split intro!: put_event_sound)

text \<open>A hold operation of a job with an owned hold.\<close>

lemma owned_sound:
  assumes x: "money_inv db" and v: "hc_MonetaryVersion c \<ge> 2" and t: "hold_tx env op c db = Commit db' r"
  shows "sound_step db db'"
proof -
  let ?k = "(hc_BatchID c, hc_APIKeyID c)"
  obtain d1 hold actual res where cl: "claim_key (hc_RequestID c, hc_APIKeyID c) (hc_RequestFingerprint c) (be_now env) db = Inr (True, d1)"
    and ex: "exact_amount (hc_HoldAmount c) = Some hold" "exact_amount (hc_ActualAmount c) = Some actual"
    and ow: "applyOwnedMoney op c hold actual d1 = Inr (res, db')"
    using t v by (auto simp: hold_tx_def with_claim_def split: sum.splits option.splits if_splits)
  have s1: "sound_step db d1" by (rule claim_sound [OF x cl])
  note inv1 = sound_inv [OF s1]
  have x1: "exact_money d1" "held_claimed d1" using inv1 by (simp_all add: money_inv_def)
  have g: "grid8 hold" "0 \<le> hold" "grid8 actual" "0 \<le> actual" using ex exact_amount_grid by blast+
  have claimed: "holdClaimExists (hc_RequestID c, hc_APIKeyID c) d1" by (rule claim_kept(2) [OF cl])
  have id: "hc_RequestID c = hold_request_id op (hc_BatchID c)" using ow by (auto simp: applyOwnedMoney_def Let_def split: if_splits)
  have fin: "sound_step d1 db'" if a: "accounted d1 db' \<and> exact_money db' \<and> bd_holds db' = tput ?k h (bd_holds d1) \<and>
      bd_dedup db' = bd_dedup d1 \<and> bd_archive db' = bd_archive d1" and h: "mh_state h = Held \<Longrightarrow> op = OpHold" for h
  proof -
    have kept: "claims_kept d1 db'" using a claims_kept_same by blast
    have "held_claimed db'"
      unfolding held_claimed_def
    proof (intro allI impI)
      fix b kid row
      assume row: "map_of (bd_holds db') (b, kid) = Some row" "mh_state row = Held"
      show "holdClaimExists (BatchImageHoldRequestID b, kid) db'"
      proof (cases "(b, kid) = ?k")
        case True
        then have "row = h" using row(1) a by (simp add: map_of_tput)
        then have "op = OpHold" using h row(2) by blast
        then show ?thesis using claims_kept_claim [OF kept claimed] id True by (simp add: hold_request_id_def)
      next
        case False
        then have "map_of (bd_holds d1) (b, kid) = Some row" using row(1) a by (auto simp: map_of_tput split: if_splits)
        then show ?thesis using x1(2) row(2) claims_kept_claim [OF kept] unfolding held_claimed_def by blast
      qed
    qed
    then show ?thesis using a kept by (simp add: sound_step_def)
  qed
  show ?thesis
  proof (cases "map_of (bd_holds d1) ?k")
    case None
    consider (free) "op = OpCapture" "hold = 0" "actual = 0"
        "db' = put_hold ?k \<lparr>mh_user = hc_UserID c, mh_amount = 0, mh_actual = Some 0, mh_state = Captured\<rparr> d1"
      | (nothing) "db' = d1"
      | (hold) "op = OpHold" "reserveBalance (hc_UserID c) hold
          (put_hold ?k \<lparr>mh_user = hc_UserID c, mh_amount = hold, mh_actual = None, mh_state = Held\<rparr> d1) = Inr (res, db')"
      using ow None by (auto simp: applyOwnedMoney_def move_money_def Let_def split: if_splits)
    then have "sound_step d1 db'"
    proof cases
      case free
      have "accounted d1 db'" using None free by (intro accounted_same) (simp_all add: put_hold_def held_def spent_def tsum_tput hold_pending_def hold_spent_def)
      moreover have "exact_money db'" using x1(1) free(4) unfolding exact_money_def by (auto simp: put_hold_def map_of_tput grid8_0 split: if_splits)
      ultimately show ?thesis using free(4) by (intro fin [of "\<lparr>mh_user = hc_UserID c, mh_amount = 0, mh_actual = Some 0, mh_state = Captured\<rparr>"]) (simp_all add: put_hold_def)
    next
      case nothing
      then show ?thesis using sound_refl [OF inv1] by simp
    next
      case hold
      show ?thesis by (rule fin [OF hold_money_None [OF None x1(1) g(1,2) refl hold(2)]]) (use hold in simp)
    qed
    then show ?thesis using sound_trans [OF s1] by blast
  next
    case (Some h)
    then obtain d where h: "mh_user h = hc_UserID c" "mh_amount h = hold" "mh_state h = Held" "op \<noteq> OpHold"
      "move_money op c hold actual d1 = Inr (res, d)" "db' = put_hold ?k (h\<lparr>mh_state := settled_state op, mh_actual := Some actual\<rparr>) d"
      using ow by (auto simp: applyOwnedMoney_def Let_def split: if_splits sum.splits)
    have "holdClaimExists (BatchImageHoldRequestID (hc_BatchID c), hc_APIKeyID c) d1"
      using x1(2) Some h(3) unfolding held_claimed_def by blast
    then have "op = OpCapture \<and> captureBalance (hc_UserID c) hold actual d1 = Inr (res, d) \<or>
        op = OpRelease \<and> releaseBalance (hc_UserID c) (hc_BatchID c) (hc_APIKeyID c) hold d1 = Inr (res, d) \<and>
        holdClaimExists (BatchImageHoldRequestID (hc_BatchID c), hc_APIKeyID c) d1"
      using h(4,5) by (cases op) (simp_all add: move_money_def)
    then have "sound_step d1 db'"
      by (intro fin [OF hold_money_Some [OF Some h(1-3) x1(1) g _ h(6)]]) (auto simp: settled_state_def)
    then show ?thesis using sound_trans [OF s1] by blast
  qed
qed

lemma Hold_sound:
  assumes x: "money_inv db" and v: "hc_MonetaryVersion cmd \<ge> 2"
  shows "sound_step db (snd (applyBatchImageBalanceHold env flt op cmd db))"
proof -
  have "hc_MonetaryVersion (Hold_Normalize env cmd) \<ge> 2" using v by (simp add: Hold_Normalize_def Let_def)
  then have "sound_step db (snd (run_tx flt BDb (hold_tx env op (Hold_Normalize env cmd)) db))"
    by (intro run_tx_sound [OF x] owned_sound [OF x])
  then show ?thesis using sound_refl [OF x] by (simp add: applyBatchImageBalanceHold_def Let_def)
qed

lemma archive_sound:
  assumes x: "money_inv db"
  shows "sound_step db (snd (archive_batch n cutoff db))"
proof -
  obtain m d where d: "archive_batch n cutoff db = (m, d)" by (cases "archive_batch n cutoff db")
  then have "bd_users d = bd_users db" "bd_holds d = bd_holds db" "bd_events d = bd_events db" by (auto simp: archive_batch_def Let_def)
  then show ?thesis using sound_journal [OF x, of d] same_money [of d db] archive_batch_kept [OF d] x d by (simp add: money_inv_def)
qed

section \<open>Steps\<close>

inductive durable_step :: "billing_db \<Rightarrow> billing_db \<Rightarrow> bool" where
  step_stage: "durable_step db (snd (StageUsageBilling env flt checked cmd usage db))"
| step_apply: "durable_step db (snd (ApplyStagedUsageBilling env flt checked noted key db))"
| step_ack: "durable_step db (snd (AcknowledgeUsageBillingCache now ok key db))"
| step_defer: "durable_step db (DeferUsageBillingCache now ok key db)"
| step_hold: "2 \<le> hc_MonetaryVersion hc \<Longrightarrow> durable_step db (snd (applyBatchImageBalanceHold env flt op hc db))"
| step_archive: "durable_step db (snd (archive_batch n cutoff db))"

lemma durable_sound: "durable_step db db' \<Longrightarrow> money_inv db \<Longrightarrow> sound_step db db'"
proof (induction rule: durable_step.induct)
  case (step_ack db now ok key)
  then show ?case by (auto simp: AcknowledgeUsageBillingCache_def sound_refl intro!: update_applied_sound)
next
  case (step_defer db now ok key)
  then show ?case by (auto simp: DeferUsageBillingCache_def sound_refl intro!: update_applied_sound)
qed (simp_all add: Stage_sound ApplyStaged_sound Hold_sound archive_sound)

lemma durable_run_sound: "durable_step\<^sup>*\<^sup>* db db' \<Longrightarrow> money_inv db \<Longrightarrow> sound_step db db'"
proof (induction rule: rtranclp_induct)
  case (step y z)
  then show ?case using durable_sound sound_inv sound_trans by blast
qed (rule sound_refl)

text \<open>The journal writes nothing a stray request could spend: an example database with two customers.\<close>

definition sample_env :: billing_env where
  "sample_env = \<lparr>be_now = 100, be_date_trunc = (\<lambda>t. t), be_StartOfDay = (\<lambda>t. t), be_StartOfWeek = (\<lambda>t. t),
     be_next_daily = (\<lambda>_ t. t), be_next_weekly = (\<lambda>_ t. t), be_sha256hex = (\<lambda>s. s), be_fmt10 = (\<lambda>_. ''0''), be_ToLower = (\<lambda>s. s)\<rparr>"

definition sample_user :: billing_user where
  "sample_user = \<lparr>bu_deleted = False, bu_balance = 5, bu_frozen = 0\<rparr>"

definition sample_db :: billing_db where
  "sample_db = \<lparr>bd_users = [(1, sample_user)], bd_keys = [], bd_subs = [], bd_groups = [], bd_accounts = [], bd_quotas = [], bd_totals = [],
     bd_holds = [], bd_dedup = [], bd_archive = [], bd_quotes = [], bd_logs = [], bd_events = [], bd_outbox = []\<rparr>"

definition sample_cmd :: UsageBillingCommand where
  "sample_cmd = \<lparr>uc_RequestID = ''r'', uc_APIKeyID = 7, uc_RequestFingerprint = ''f'', uc_RequestPayloadHash = '''', uc_UserID = 1,
     uc_AccountID = 3, uc_SubscriptionID = None, uc_AccountType = '''', uc_Model = ''m'', uc_ServiceTier = '''', uc_ReasoningEffort = '''',
     uc_BillingType = 0, uc_InputTokens = 10, uc_OutputTokens = 5, uc_CacheCreationTokens = 0, uc_CacheReadTokens = 0, uc_ImageCount = 0,
     uc_MediaType = '''', uc_BalanceCost = 1 / 4, uc_SubscriptionCost = 0, uc_APIKeyQuotaCost = 0, uc_APIKeyRateLimitCost = 0,
     uc_AccountQuotaCost = 0, uc_QuotedActualCost = None, uc_PlatformQuotaPlatform = '''', uc_PlatformQuotaCost = 0,
     uc_PlatformUsageAt = 0, uc_HasDailyLimit = False, uc_HasWeeklyLimit = False\<rparr>"

definition sample_usage :: UsageLog where
  "sample_usage = \<lparr>ul_RequestID = ''r'', ul_APIKeyID = 7, ul_UserID = 1, ul_AccountID = 3, ul_GroupID = None, ul_CreatedAt = 50,
     ul_relations = False, ul_rest = ''''\<rparr>"

definition sample_charged :: billing_db where
  "sample_charged = snd (ApplyStagedUsageBilling sample_env CommitKept False True (''r'', 7)
     (snd (StageUsageBilling sample_env NoFault True sample_cmd sample_usage sample_db)))"

lemma sample_inv: "money_inv sample_db"
  unfolding money_inv_def exact_money_def held_claimed_def grid8_def
  by (auto simp: sample_db_def sample_user_def intro: exI [of _ 500000000] exI [of _ 0])

lemma sample_run: "durable_step\<^sup>*\<^sup>* sample_db sample_charged"
  unfolding sample_charged_def
  by (rule rtranclp.rtrancl_into_rtrancl [OF r_into_rtranclp [of durable_step, OF step_stage] step_apply])


text \<open>C5: customers' money is exact. However staging, applying, acknowledging and deferring of journal events, the hold, capture
  and release of batch image jobs (each with a hold of its own) and the archiving of claims interleave, and whichever
  statements fail or commits go unanswered: a customer's frozen balance moves exactly with what is held for the customer's
  jobs, and balance and frozen balance together fall exactly by the cost of the events applied (each once, however often it is
  retried) and by the amounts captured.\<close>

theorem customer_money_exact:
  assumes "money_inv db0" "durable_step\<^sup>*\<^sup>* db0 db" "map_of (bd_users db0) uid = Some u0"
  shows "\<exists>u. map_of (bd_users db) uid = Some u \<and> bu_frozen u - bu_frozen u0 = held uid db - held uid db0 \<and>
    (bu_balance u0 + bu_frozen u0) - (bu_balance u + bu_frozen u) = spent uid db - spent uid db0"
proof -
  have "accounted db0 db" using durable_run_sound [OF assms(2,1)] by (simp add: sound_step_def)
  then obtain u where u: "map_of (bd_users db) uid = Some u" "bu_frozen u + held uid db0 = bu_frozen u0 + held uid db"
    "wealth u + spent uid db = wealth u0 + spent uid db0" using assms(3) unfolding accounted_def by blast
  then show ?thesis unfolding wealth_def by (intro exI [of _ u]) (simp add: algebra_simps)
qed

lemma sample_spent: "spent 1 sample_charged = 1 / 4" "spent 1 sample_db = 0"
  by code_simp+

theorem customer_money_exact_witness:
  "\<exists>u. map_of (bd_users sample_charged) 1 = Some u \<and> bu_balance u + bu_frozen u = 19 / 4"
proof -
  have "map_of (bd_users sample_db) 1 = Some sample_user" by (simp add: sample_db_def)
  from customer_money_exact [OF sample_inv sample_run this] show ?thesis by (auto simp: sample_spent) (simp add: sample_user_def)
qed

section \<open>Repeated requests\<close>

text \<open>What claiming a request promises its clients: a claim succeeds once and is never lost.\<close>

locale request_claims =
  fixes claim :: "'k \<Rightarrow> 'fp \<Rightarrow> gotime \<Rightarrow> 'db \<Rightarrow> 'e + (bool \<times> 'db)"
    and claimed :: "'k \<Rightarrow> 'db \<Rightarrow> bool"
  assumes fresh: "claim k fp now db = Inr (b, db') \<Longrightarrow> b \<longleftrightarrow> \<not> claimed k db"
    and taken: "claim k fp now db = Inr (b, db') \<Longrightarrow> claimed k db'"
    and keeps: "claim k fp now db = Inr (b, db') \<Longrightarrow> claimed j db \<Longrightarrow> claimed j db'"
begin

lemma repeated:
  assumes "tx db = (case claim k fp now db of Inl e \<Rightarrow> Rollback (Inl e)
      | Inr (applied, db1) \<Rightarrow> if \<not> applied then Rollback (Inr none) else body db1)" "claimed k db"
  shows "\<exists>r. tx db = Rollback r \<and> (r = Inr none \<or> (\<exists>e. r = Inl e \<and> claim k fp now db = Inl e))"
  using assms fresh [of k fp now db] by (auto split: sum.splits)

lemma first_time:
  assumes "tx db = (case claim k fp now db of Inl e \<Rightarrow> Rollback (Inl e)
      | Inr (applied, db1) \<Rightarrow> if \<not> applied then Rollback (Inr none) else body db1)" "tx db = Commit db' r"
    and "\<And>db1 db' r j. body db1 = Commit db' r \<Longrightarrow> claimed j db1 \<Longrightarrow> claimed j db'"
  shows "\<not> claimed k db \<and> claimed k db' \<and> (claimed j db \<longrightarrow> claimed j db')"
  using assms(1,2) assms(3) [of _ db' r] fresh [of k fp now db] taken [of k fp now db] keeps [of k fp now db]
  by (auto split: sum.splits if_splits)

end

interpretation claims: request_claims claim_key holdClaimExists
proof
  show "claim_key k fp now db = Inr (b, db') \<Longrightarrow> b \<longleftrightarrow> \<not> holdClaimExists k db" for k fp now db b db'
    by (rule claim_kept(3))
  show "claim_key k fp now db = Inr (b, db') \<Longrightarrow> holdClaimExists k db'" for k fp now db b db'
    by (rule claim_kept(2))
  show "claim_key k fp now db = Inr (b, db') \<Longrightarrow> holdClaimExists j db \<Longrightarrow> holdClaimExists j db'" for k fp now db b db' j
    by (rule claims_kept_claim [OF claim_kept(1)])
qed

lemma claim_conflict: "claim_key k fp now db = Inl e \<Longrightarrow> e = BRequestConflict"
  by (auto simp: claim_key_def Let_def split: option.splits if_splits)

lemma billing_tx_claim:
  "billing_tx env c db = (case claim_key (usage_key c) (uc_RequestFingerprint c) (be_now env) db of Inl e \<Rightarrow> Rollback (Inl e)
      | Inr (applied, db1) \<Rightarrow> if \<not> applied then Rollback (Inr no_result) else billing_body env c db1)"
  by (simp add: billing_tx_def with_claim_def)

lemma billing_body_claims: "billing_body env c db1 = Commit db' r \<Longrightarrow> holdClaimExists j db1 \<Longrightarrow> holdClaimExists j db'"
  by (auto simp: billing_body_def holdClaimExists_def same_journal_def same_core_def split: sum.splits
      dest!: applyEffects_charged(1) insertQuote_core)

lemma billing_tx_claims:
  assumes "billing_tx env c db = Commit db' r"
  shows "\<not> holdClaimExists (usage_key c) db" "holdClaimExists (usage_key c) db'" "claims_kept db db'"
    "claimed_as (usage_key c) (uc_RequestFingerprint c) db'"
proof -
  have all: "\<not> holdClaimExists (usage_key c) db \<and> holdClaimExists (usage_key c) db' \<and> (holdClaimExists j db \<longrightarrow> holdClaimExists j db')" for j
    by (rule claims.first_time [where tx = "billing_tx env c" and body = "billing_body env c", OF billing_tx_claim assms])
      (rule billing_body_claims)
  then show "\<not> holdClaimExists (usage_key c) db" "holdClaimExists (usage_key c) db'" by blast+
  obtain d1 where cl: "claim_key (usage_key c) (uc_RequestFingerprint c) (be_now env) db = Inr (True, d1)"
    and b: "billing_body env c d1 = Commit db' r"
    using assms by (auto simp: billing_tx_claim split: sum.splits if_splits)
  have same: "bd_dedup db' = bd_dedup d1 \<and> bd_archive db' = bd_archive d1"
    using b by (auto simp: billing_body_def same_journal_def same_core_def split: sum.splits dest!: applyEffects_charged(1) insertQuote_core)
  then show "claims_kept db db'" using claim_kept(1) [OF cl] claims_kept_same claims_kept_trans by blast
  have "claimed_as (usage_key c) (uc_RequestFingerprint c) d1"
    using claim_first [OF cl claim_unclaimed] all by blast
  then show "claimed_as (usage_key c) (uc_RequestFingerprint c) db'"
    using claims_kept_same [of db' d1] same unfolding claims_kept_def by blast
qed

lemma move_money_claims: "move_money op c hold actual db = Inr (r, db') \<Longrightarrow> bd_dedup db' = bd_dedup db \<and> bd_archive db' = bd_archive db"
  by (cases op)
    (auto simp: move_money_def reserveBalance_def captureBalance_def releaseBalance_def moved_def put_user_def split: if_splits option.splits)

lemma owned_claims: "applyOwnedMoney op c hold actual db = Inr (r, db') \<Longrightarrow> bd_dedup db' = bd_dedup db \<and> bd_archive db' = bd_archive db"
  by (auto simp: applyOwnedMoney_def put_hold_def Let_def split: if_splits option.splits sum.splits dest!: move_money_claims)

lemma hold_tx_claims: "hold_tx env op c db = Commit db' r \<Longrightarrow> claims_kept db db'"
proof -
  assume h: "hold_tx env op c db = Commit db' r"
  then obtain d1 where cl: "claim_key (hc_RequestID c, hc_APIKeyID c) (hc_RequestFingerprint c) (be_now env) db = Inr (True, d1)"
    and "bd_dedup db' = bd_dedup d1 \<and> bd_archive db' = bd_archive d1"
    by (auto simp: hold_tx_def with_claim_def split: sum.splits option.splits if_splits dest!: owned_claims move_money_claims)
  then show "claims_kept db db'" using claim_kept(1) [OF cl] claims_kept_same claims_kept_trans by blast
qed

lemma claims_kept_refl: "claims_kept db db"
  by (simp add: claims_kept_def)

lemma run_tx_claims: "(\<And>db' r. body db = Commit db' r \<Longrightarrow> claims_kept db db') \<Longrightarrow> claims_kept db (snd (run_tx flt e body db))"
  using claims_kept_refl unfolding run_tx_def by (auto split: tx.splits db_fault.splits)

lemma staged_tx_claims:
  assumes "staged_tx env key db = Commit db' r"
  shows "claims_kept db db'"
proof -
  obtain ev applied d1 where cl: "claim_key (usage_key (ue_Command (ev_payload ev))) (uc_RequestFingerprint (ue_Command (ev_payload ev))) (be_now env) db = Inr (applied, d1)"
    and res: "db' = put_event key (ev\<lparr>ev_state := ELegacy, ev_completed := Some (be_now env), ev_result := Some no_result\<rparr>) d1
      \<or> charge_event env key ev d1 = Commit db' r"
    by (rule staged_tx_commit [OF assms]) blast
  have "bd_dedup db' = bd_dedup d1 \<and> bd_archive db' = bd_archive d1"
    using res by (auto simp: put_event_other charge_event_def same_journal_def same_core_def put_event_def Let_def split: if_splits sum.splits
        dest!: applyEffects_charged(1) insertQuote_core)
  then show ?thesis using claim_kept(1) [OF cl] claims_kept_same claims_kept_trans by blast
qed

text \<open>Every operation on the billing tables, direct charges and holds without a row of their own included.\<close>

inductive billing_step :: "billing_db \<Rightarrow> billing_db \<Rightarrow> bool" where
  step_durable: "durable_step db db' \<Longrightarrow> billing_step db db'"
| step_direct: "billing_step db (snd (billing_Apply env flt cmd db))"
| step_any_hold: "billing_step db (snd (applyBatchImageBalanceHold env flt op hc db))"

lemma put_event_claims: "claims_kept db (put_event k ev db)"
  by (simp add: put_event_other claims_kept_same)

text \<open>Whatever the faults, the database after an attempt is the old one or the one the transaction committed.\<close>

lemma run_staged_cases:
  "snd (run_staged env flt checked key db) = db \<or> (\<exists>r. staged_tx env key db = Commit (snd (run_staged env flt checked key db)) r)"
proof (cases "staged_tx env key db")
  case (Rollback r)
  then show ?thesis by (simp add: run_staged_def run_checked_def)
next
  case (Commit d r)
  have checked: "snd (run_checked flt checked (committed_outcome key)
      (\<lambda>d. case staged_tx env key d of Rollback r \<Rightarrow> Rollback (map_sum id fst r) | Commit d' r \<Rightarrow> Commit d' (map_sum id fst r)) db) \<in> {db, d}"
    using Commit by (simp add: run_checked_def Let_def)
  have "snd (run_tx flt BDb (\<lambda>_. Commit d (Inr rv)) db) \<in> {db, d}" for rv :: UsageBillingRecovery
    by (cases flt) (simp_all add: run_tx_def)
  then have "snd (run_staged env flt checked key db) \<in> {db, d}"
    using Commit checked unfolding run_staged_def by (auto split: sum.split prod.split bool.split)
  then show ?thesis using Commit by auto
qed

lemma ApplyStaged_claims: "claims_kept db (snd (ApplyStagedUsageBilling env flt checked noted key db))"
proof -
  have "claims_kept db (snd (run_staged env flt checked key db))"
    using run_staged_cases [of env flt checked key db] staged_tx_claims claims_kept_refl by metis
  moreover have "claims_kept d (note_failure env key e d)" for e d
    by (simp add: note_failure_def claims_kept_refl put_event_claims Let_def split: option.split)
  ultimately show ?thesis unfolding ApplyStagedUsageBilling_def
    by (cases "run_staged env flt checked key db") (auto split: sum.split intro: claims_kept_trans)
qed

lemma Hold_claims: "claims_kept db (snd (applyBatchImageBalanceHold env flt op hc db))"
  using run_tx_claims [of "hold_tx env op (Hold_Normalize env hc)", OF hold_tx_claims] claims_kept_refl
  by (simp add: applyBatchImageBalanceHold_def Let_def)

lemma Apply_claims: "claims_kept db (snd (billing_Apply env flt cmd db))"
  using run_tx_claims [of "billing_tx env (UsageBilling_Normalize env cmd)", OF billing_tx_claims(3)] claims_kept_refl
  by (simp add: billing_Apply_def Let_def)

lemma durable_claims: "durable_step db db' \<Longrightarrow> claims_kept db db'"
proof (induction rule: durable_step.induct)
  case (step_stage db env flt checked cmd usage)
  then show ?case
    by (auto simp: StageUsageBilling_def run_checked_def stage_tx_def Let_def intro!: claims_kept_same split: tx.splits if_splits)
next
  case (step_archive db n cutoff)
  then show ?case using archive_batch_kept [of n cutoff db] by (cases "archive_batch n cutoff db") simp
qed (auto simp: ApplyStaged_claims AcknowledgeUsageBillingCache_def DeferUsageBillingCache_def update_applied_def claims_kept_refl
    put_event_claims Hold_claims split: option.split)

lemma billing_step_claims: "billing_step db db' \<Longrightarrow> claims_kept db db'"
  by (induction rule: billing_step.induct) (simp_all add: durable_claims Apply_claims Hold_claims)

lemma billing_run_claims: "billing_step\<^sup>*\<^sup>* db db' \<Longrightarrow> claims_kept db db'"
  by (induction rule: rtranclp_induct) (use claims_kept_refl billing_step_claims claims_kept_trans in blast)+

text \<open>The answer to a request that was claimed with the fingerprint \<open>f\<close>.\<close>

definition repeated_answer :: "string \<Rightarrow> string \<Rightarrow> billing_err + UsageBillingApplyResult" where
  "repeated_answer f fp = (if strings_TrimSpace fp = strings_TrimSpace f then Inr no_result else Inl BRequestConflict)"

lemma claimed_rejects:
  assumes "claimed_as (usage_key (UsageBilling_Normalize env cmd)) f db" "uc_RequestID (UsageBilling_Normalize env cmd) \<noteq> []"
  shows "billing_Apply env flt cmd db =
    (if flt = StmtFault then Inl BDb else repeated_answer f (uc_RequestFingerprint (UsageBilling_Normalize env cmd)), db)"
proof -
  let ?c = "UsageBilling_Normalize env cmd"
  have "billing_tx env ?c db = Rollback (repeated_answer f (uc_RequestFingerprint ?c))"
    using claim_answer [OF assms(1), of "uc_RequestFingerprint ?c" "be_now env"] by (auto simp: billing_tx_claim repeated_answer_def)
  then show ?thesis using assms(2) by (simp add: billing_Apply_def run_tx_def Let_def)
qed

lemma claimed_staged_tx:
  assumes "holdClaimExists key db" "staged_tx env key db = Commit db' r"
  shows "bd_users db' = bd_users db"
proof -
  obtain ev applied d1 where ev: "validateUsageBillingEvent (ev_payload ev) key (ev_fingerprint ev) = None"
    and cl: "claim_key (usage_key (ue_Command (ev_payload ev))) (uc_RequestFingerprint (ue_Command (ev_payload ev))) (be_now env) db = Inr (applied, d1)"
    and res: "\<not> applied \<and> db' = put_event key (ev\<lparr>ev_state := ELegacy, ev_completed := Some (be_now env), ev_result := Some no_result\<rparr>) d1
      \<or> applied"
    by (rule staged_tx_commit [OF assms(2)]) blast
  have "usage_key (ue_Command (ev_payload ev)) = key"
    using ev by (cases key) (simp add: validateUsageBillingEvent_def usage_key_def Let_def split: if_splits)
  then have "\<not> applied" using claim_kept(3) [OF cl] assms(1) by simp
  then show ?thesis using res claim_same [OF cl] by (simp add: put_event_other)
qed

lemma note_failure_users: "bd_users (note_failure env key err db) = bd_users db"
  by (simp add: note_failure_def put_event_other Let_def split: option.split)

lemma claimed_staged:
  assumes "holdClaimExists key db"
  shows "bd_users (snd (ApplyStagedUsageBilling env flt checked noted key db)) = bd_users db"
proof -
  have "bd_users (snd (run_staged env flt checked key db)) = bd_users db"
    using run_staged_cases [of env flt checked key db] claimed_staged_tx [OF assms] by fastforce
  then show ?thesis
    unfolding ApplyStagedUsageBilling_def by (cases "run_staged env flt checked key db") (auto simp: note_failure_users split: sum.split)
qed

text \<open>C6: a request that has been charged is never charged again: after a direct charge succeeded, and after any steps of the
  billing system (archiving of the claim included), neither applying a command nor applying a staged event with the same request
  id and key moves any money; a repeated command changes nothing at all and is answered as not applied, or with a conflict if
    its fingerprint differs from that of the charged one, unless the database fails. Fingerprints are compared without their outer
  blanks.\<close>

theorem usage_charged_once:
  assumes "billing_Apply env flt cmd db = (Inr r, db1)" "br_Applied r" "billing_step\<^sup>*\<^sup>* db1 db2"
    and "usage_key (UsageBilling_Normalize env' cmd') = usage_key (UsageBilling_Normalize env cmd)"
  shows "billing_Apply env' flt' cmd' db2 =
      (if flt' = StmtFault then Inl BDb
       else if strings_TrimSpace (uc_RequestFingerprint (UsageBilling_Normalize env' cmd')) =
               strings_TrimSpace (uc_RequestFingerprint (UsageBilling_Normalize env cmd))
       then Inr no_result else Inl BRequestConflict, db2) \<and>
    bd_users (snd (ApplyStagedUsageBilling env' flt' checked noted (usage_key (UsageBilling_Normalize env cmd)) db2)) = bd_users db2"
proof -
  let ?c = "UsageBilling_Normalize env cmd"
  have id: "uc_RequestID ?c \<noteq> []" and run: "run_tx flt BDb (billing_tx env ?c) db = (Inr r, db1)"
    using assms(1) by (auto simp: billing_Apply_def Let_def split: if_splits)
  have "r \<noteq> no_result" using assms(2) by (auto simp: no_result_def)
  then have "billing_tx env ?c db = Commit db1 (Inr r)"
    using run_tx_ok [OF run] by (auto simp: billing_tx_claim billing_body_def split: sum.splits if_splits)
  then have "claimed_as (usage_key ?c) (uc_RequestFingerprint ?c) db1" by (rule billing_tx_claims(4))
  then have claimed: "claimed_as (usage_key ?c) (uc_RequestFingerprint ?c) db2"
    using billing_run_claims [OF assms(3)] unfolding claims_kept_def by blast
  then have "holdClaimExists (usage_key ?c) db2" by (simp add: claimed_as_def)
  moreover have "uc_RequestID (UsageBilling_Normalize env' cmd') \<noteq> []" using assms(4) id by (simp add: usage_key_def)
  ultimately show ?thesis
    using claimed_rejects [of env' cmd' "uc_RequestFingerprint ?c" db2 flt'] claimed claimed_staged assms(4)
    by (simp add: repeated_answer_def)
qed

lemma sample_direct: "fst (billing_Apply sample_env NoFault sample_cmd sample_db) =
    Inr \<lparr>br_Applied = True, br_APIKeyQuotaExhausted = False, br_PlatformQuotaApplied = False, br_NewBalance = Some (19 / 4),
      br_BalanceOverdrafted = False, br_QuotaState = None\<rparr>"
  by code_simp

theorem usage_charged_once_witness:
  "let db1 = snd (billing_Apply sample_env NoFault sample_cmd sample_db);
       db2 = snd (archive_batch 10 200 db1)
   in snd (billing_Apply sample_env NoFault (sample_cmd\<lparr>uc_BalanceCost := 3\<rparr>) db2) = db2"
proof -
  define db1 where "db1 = snd (billing_Apply sample_env NoFault sample_cmd sample_db)"
  obtain r where r: "billing_Apply sample_env NoFault sample_cmd sample_db = (Inr r, db1)" "br_Applied r"
    using sample_direct unfolding db1_def by (cases "billing_Apply sample_env NoFault sample_cmd sample_db") auto
  have run: "billing_step\<^sup>*\<^sup>* db1 (snd (archive_batch 10 200 db1))" by (rule r_into_rtranclp [of billing_step, OF step_durable [OF step_archive]])
  have key: "usage_key (UsageBilling_Normalize sample_env (sample_cmd\<lparr>uc_BalanceCost := 3\<rparr>)) = usage_key (UsageBilling_Normalize sample_env sample_cmd)"
    by (simp add: UsageBilling_Normalize_def quantizeMonetaryFields_def usage_key_def sample_cmd_def Let_def)
  show ?thesis using usage_charged_once [OF r run key, of NoFault] unfolding db1_def by (simp add: Let_def)
qed

section \<open>The recovery cycle\<close>

definition event_settled :: "gotime \<Rightarrow> billing_event \<Rightarrow> bool" where
  "event_settled now ev \<longleftrightarrow> ev_state ev \<in> {EComplete, ELegacy, EBlocked} \<or> now + 30 * Second \<le> ev_next ev"

text \<open>Faults a cycle copes with: failed attempts are noted, unclear commits can be looked up, the cache or its deferral works.\<close>

definition coping :: "event_faults \<Rightarrow> bool" where
  "coping ef \<longleftrightarrow> ef_noted ef \<and> (ef_apply ef = CommitKept \<longrightarrow> ef_checked ef) \<and> ef_defer ef"

lemma charge_event_state:
  assumes "charge_event env key ev db = Commit db' (Inr (rv, b))"
  shows "\<exists>ev'. map_of (bd_events db') key = Some ev' \<and> ev_state ev' = EApplied \<and> ev_result ev' \<noteq> None \<and> rv_NeedsCache rv \<and> b"
  using assms by (auto simp: charge_event_def put_event_def map_of_tput Let_def split: if_splits sum.splits)

lemma charge_event_Inr: "charge_event env key ev db = Commit db' r \<Longrightarrow> \<exists>rv. r = Inr (rv, True)"
  by (auto simp: charge_event_def Let_def split: if_splits sum.splits)

lemma staged_tx_state:
  assumes "staged_tx env key db = Commit db' r"
  obtains rv b ev' where "r = Inr (rv, b)" "map_of (bd_events db') key = Some ev'"
    "b \<and> ev_state ev' = EApplied \<and> ev_result ev' \<noteq> None \<and> rv_NeedsCache rv \<or> \<not> b \<and> ev_state ev' = ELegacy \<and> \<not> rv_NeedsCache rv"
proof (rule staged_tx_commit [OF assms])
  fix ev applied d1
  assume "\<not> applied \<and> db' = put_event key (ev\<lparr>ev_state := ELegacy, ev_completed := Some (be_now env), ev_result := Some no_result\<rparr>) d1 \<and>
       r = Inr (\<lparr>rv_Event = ev_payload ev, rv_Result = no_result, rv_NeedsCache = False\<rparr>, False) \<or>
     applied \<and> charge_event env key ev d1 = Commit db' r"
  then show thesis
  proof
    assume "\<not> applied \<and> db' = put_event key (ev\<lparr>ev_state := ELegacy, ev_completed := Some (be_now env), ev_result := Some no_result\<rparr>) d1 \<and>
       r = Inr (\<lparr>rv_Event = ev_payload ev, rv_Result = no_result, rv_NeedsCache = False\<rparr>, False)"
    then show thesis
      by (intro that [of "\<lparr>rv_Event = ev_payload ev, rv_Result = no_result, rv_NeedsCache = False\<rparr>" False "ev\<lparr>ev_state := ELegacy, ev_completed := Some (be_now env), ev_result := Some no_result\<rparr>"])
        (simp_all add: put_event_def map_of_tput)
  next
    assume "applied \<and> charge_event env key ev d1 = Commit db' r"
    then have c: "charge_event env key ev d1 = Commit db' r" by blast
    then obtain rv where "r = Inr (rv, True)" using charge_event_Inr by blast
    then show thesis using charge_event_state [of env key ev d1 db' rv True] c that by blast
  qed
qed

lemma staged_tx_pending_rollback:
  assumes "map_of (bd_events db) key = Some ev" "ev_state ev = EPending" "staged_tx env key db = Rollback r"
  shows "\<exists>e. r = Inl e"
  using assms by (auto simp: staged_tx_def charge_event_def Let_def split: option.splits if_splits sum.splits)

lemma note_failure_settled:
  assumes "map_of (bd_events db) key = Some ev" "ev_state ev \<in> {EPending, ELegacy}"
  shows "\<exists>ev'. map_of (bd_events (note_failure env key e db)) key = Some ev' \<and> event_settled (be_now env) ev'"
  using assms by (auto simp: note_failure_def put_event_def map_of_tput event_settled_def Let_def)

text \<open>One attempt on a pending event.\<close>

lemma attempt_pending:
  assumes ev: "map_of (bd_events db) key = Some ev" "ev_state ev = EPending" and ef: "flt = CommitKept \<longrightarrow> checked"
    and a: "ApplyStagedUsageBilling env flt checked True key db = (r, d)"
  shows "\<exists>ev'. map_of (bd_events d) key = Some ev' \<and>
    (case r of Inl e \<Rightarrow> event_settled (be_now env) ev'
     | Inr rv \<Rightarrow> if rv_NeedsCache rv then ev_state ev' = EApplied else ev_state ev' = ELegacy)"
proof -
  obtain q d0 where q: "run_staged env flt checked key db = (q, d0)" by (cases "run_staged env flt checked key db")
  have known: "committed_outcome key db = None" using ev by (simp add: committed_outcome_def)
  have "\<exists>ev0. map_of (bd_events d0) key = Some ev0 \<and>
      (case q of Inl e \<Rightarrow> ev_state ev0 \<in> {EPending, ELegacy} | Inr rv \<Rightarrow> if rv_NeedsCache rv then ev_state ev0 = EApplied else ev_state ev0 = ELegacy)"
  proof (cases "staged_tx env key db")
    case (Rollback x)
    then obtain e where "x = Inl e" using staged_tx_pending_rollback [OF ev] by blast
    then have "d0 = db \<and> (\<exists>e. q = Inl e)" using q Rollback by (auto simp: run_staged_def run_checked_def split: if_splits)
    then show ?thesis using ev by auto
  next
    case (Commit d' x)
    then obtain rv b ev' where x: "x = Inr (rv, b)" "map_of (bd_events d') key = Some ev'"
      "b \<and> ev_state ev' = EApplied \<and> ev_result ev' \<noteq> None \<and> rv_NeedsCache rv \<or> \<not> b \<and> ev_state ev' = ELegacy \<and> \<not> rv_NeedsCache rv"
      by (rule staged_tx_state)
    have outcome: "b \<Longrightarrow> committed_outcome key d' = Some (recovery_of ev') \<and> rv_NeedsCache (recovery_of ev')"
      using x by (auto simp: committed_outcome_def recovery_of_def)
    show ?thesis
    proof (cases b)
      case True
      then show ?thesis using q Commit x ev known outcome ef
        by (cases flt) (auto simp: run_staged_def run_checked_def Let_def split: if_splits)
    next
      case False
      then show ?thesis using q Commit x ev by (cases flt) (auto simp: run_staged_def run_tx_def)
    qed
  qed
  then obtain ev0 where ev0: "map_of (bd_events d0) key = Some ev0"
    "case q of Inl e \<Rightarrow> ev_state ev0 \<in> {EPending, ELegacy} | Inr rv \<Rightarrow> if rv_NeedsCache rv then ev_state ev0 = EApplied else ev_state ev0 = ELegacy"
    by blast
  show ?thesis
  proof (cases q)
    case (Inl e)
    then have "ev_state ev0 \<in> {EPending, ELegacy}" using ev0(2) by simp
    then show ?thesis using a q Inl note_failure_settled [OF ev0(1), of env e] by (auto simp: ApplyStagedUsageBilling_def)
  next
    case (Inr rv)
    then show ?thesis using a q ev0 by (auto simp: ApplyStagedUsageBilling_def)
  qed
qed

lemma update_applied_event:
  assumes "map_of (bd_events db) key = Some ev" "ev_state ev = EApplied"
  shows "map_of (bd_events (update_applied key f db)) key = Some (f ev)"
  using assms by (simp add: update_applied_def put_event_def map_of_tput)

lemma recover_event_settles:
  assumes ev: "map_of (bd_events db) key = Some ev" "ev_state ev = EPending" and ef: "coping ef"
  shows "\<exists>ev'. map_of (bd_events (snd (recover_event env ef cache auth key db))) key = Some ev' \<and> event_settled (be_now env) ev'"
proof -
  obtain r d where a: "ApplyStagedUsageBilling env (ef_apply ef) (ef_checked ef) True key db = (r, d)"
    by (cases "ApplyStagedUsageBilling env (ef_apply ef) (ef_checked ef) True key db")
  have n: "ef_noted ef = True" "ef_defer ef" using ef by (simp_all add: coping_def)
  obtain ev' where ev': "map_of (bd_events d) key = Some ev'"
    "case r of Inl e \<Rightarrow> event_settled (be_now env) ev' | Inr rv \<Rightarrow> if rv_NeedsCache rv then ev_state ev' = EApplied else ev_state ev' = ELegacy"
    using attempt_pending [OF ev _ a] ef unfolding coping_def by blast
  show ?thesis
  proof (cases r)
    case (Inl e)
    then show ?thesis using a n ev' by (simp add: recover_event_def)
  next
    case (Inr rv)
    show ?thesis
    proof (cases "rv_NeedsCache rv")
      case True
      then have "ev_state ev' = EApplied" using ev'(2) Inr by simp
      note upd = update_applied_event [OF ev'(1) this]
      show ?thesis using a n True Inr
        by (cases "invalidateDurableUsageBilling cache auth (ef_cache ef) rv"; cases "ef_ack ef")
          (simp_all add: recover_event_def DeferUsageBillingCache_def AcknowledgeUsageBillingCache_def upd event_settled_def)
    next
      case False
      then have "ev_state ev' = ELegacy" using ev'(2) Inr by simp
      then show ?thesis using a n False Inr ev'(1)
        by (simp add: recover_event_def invalidateDurableUsageBilling_def event_settled_def)
    qed
  qed
qed

text \<open>Processing one event leaves the journal entries of the others.\<close>

lemma put_event_frame: "k \<noteq> key \<Longrightarrow> map_of (bd_events (put_event key ev db)) k = map_of (bd_events db) k"
  by (simp add: put_event_def map_of_tput)

lemma staged_tx_frame:
  assumes "staged_tx env key db = Commit db' r" "k \<noteq> key"
  shows "map_of (bd_events db') k = map_of (bd_events db) k"
proof (rule staged_tx_commit [OF assms(1)])
  fix ev applied d1
  assume cl: "claim_key (usage_key (ue_Command (ev_payload ev))) (uc_RequestFingerprint (ue_Command (ev_payload ev))) (be_now env) db = Inr (applied, d1)"
    and res: "\<not> applied \<and> db' = put_event key (ev\<lparr>ev_state := ELegacy, ev_completed := Some (be_now env), ev_result := Some no_result\<rparr>) d1 \<and>
       r = Inr (\<lparr>rv_Event = ev_payload ev, rv_Result = no_result, rv_NeedsCache = False\<rparr>, False) \<or>
     applied \<and> charge_event env key ev d1 = Commit db' r"
  have "map_of (bd_events db') k = map_of (bd_events d1) k"
    using res assms(2) by (auto simp: put_event_frame charge_event_def put_event_def map_of_tput same_journal_def same_core_def Let_def
        split: if_splits sum.splits dest!: applyEffects_charged(1) insertQuote_core)
  then show ?thesis using claim_same [OF cl] by simp
qed

lemma note_failure_frame: "k \<noteq> key \<Longrightarrow> map_of (bd_events (note_failure env key e db)) k = map_of (bd_events db) k"
  by (simp add: note_failure_def put_event_frame Let_def split: option.split)

lemma update_applied_frame: "k \<noteq> key \<Longrightarrow> map_of (bd_events (update_applied key f db)) k = map_of (bd_events db) k"
  by (simp add: update_applied_def put_event_frame split: option.split)

lemma recover_event_frame:
  assumes "k \<noteq> key"
  shows "map_of (bd_events (snd (recover_event env ef cache auth key db))) k = map_of (bd_events db) k"
proof -
  obtain r d where a: "ApplyStagedUsageBilling env (ef_apply ef) (ef_checked ef) (ef_noted ef) key db = (r, d)"
    by (cases "ApplyStagedUsageBilling env (ef_apply ef) (ef_checked ef) (ef_noted ef) key db")
  have "map_of (bd_events (snd (run_staged env (ef_apply ef) (ef_checked ef) key db))) k = map_of (bd_events db) k"
    using run_staged_cases [of env "ef_apply ef" "ef_checked ef" key db] staged_tx_frame [OF _ assms] by metis
  then have "map_of (bd_events d) k = map_of (bd_events db) k"
    using a note_failure_frame [OF assms] unfolding ApplyStagedUsageBilling_def
    by (cases "run_staged env (ef_apply ef) (ef_checked ef) key db") (auto split: sum.splits if_splits)
  then show ?thesis using a
    by (auto simp: recover_event_def DeferUsageBillingCache_def AcknowledgeUsageBillingCache_def update_applied_frame [OF assms] split: sum.split)
qed

lemma recover_keys_frame:
  "k \<notin> set ks \<Longrightarrow> map_of (bd_events (snd (recover_keys env efs cache auth ks db))) k = map_of (bd_events db) k"
proof (induction ks arbitrary: db)
  case (Cons key ks)
  then have "k \<noteq> key" "k \<notin> set ks" by auto
  then show ?case using Cons.IH recover_event_frame by (simp add: Let_def split_beta)
qed simp

lemma recover_keys_settle:
  assumes "\<And>k. coping (efs k)"
  shows "distinct ks \<Longrightarrow> k \<in> set ks \<Longrightarrow> map_of (bd_events db) k = Some ev \<Longrightarrow> ev_state ev = EPending \<Longrightarrow>
    \<exists>ev'. map_of (bd_events (snd (recover_keys env efs cache auth ks db))) k = Some ev' \<and> event_settled (be_now env) ev'"
proof (induction ks arbitrary: db)
  case (Cons key ks)
  let ?d = "snd (recover_event env (efs key) cache auth key db)"
  have rest: "snd (recover_keys env efs cache auth (key # ks) db) = snd (recover_keys env efs cache auth ks ?d)"
    by (simp add: Let_def split_beta)
  show ?case
  proof (cases "k = key")
    case True
    then have "map_of (bd_events (snd (recover_keys env efs cache auth ks ?d))) k = map_of (bd_events ?d) k"
      using Cons.prems(1) by (intro recover_keys_frame) simp
    then show ?thesis using recover_event_settles [OF _ Cons.prems(4) assms] Cons.prems(3) True unfolding rest by metis
  next
    case False
    then have "map_of (bd_events ?d) k = Some ev" using recover_event_frame Cons.prems(3) by metis
    then show ?thesis using Cons.IH [of ?d] Cons.prems False unfolding rest by simp
  qed
qed simp

definition due_events :: "gotime \<Rightarrow> billing_db \<Rightarrow> (request_key \<times> billing_event) list" where
  "due_events now db = sort_key (\<lambda>(k, ev). (if ev_state ev = EPending then 0 else (1::nat), ev_next ev, ev_staged ev))
     (filter (\<lambda>(k, ev). ev_state ev \<in> {EPending, EApplied} \<and> ev_next ev \<le> now) (bd_events db))"

lemma Pending_distinct:
  assumes "distinct (map fst (bd_events db))" "PendingUsageBilling now n db = Inr keys"
  shows "distinct keys"
proof -
  have "distinct (map fst (due_events now db))"
    using assms(1) unfolding due_events_def
    by (auto simp: distinct_map intro: inj_on_subset)
  then show ?thesis using assms(2) unfolding PendingUsageBilling_def due_events_def [symmetric]
    by (auto simp: take_map [symmetric] split: if_splits)
qed

text \<open>C7: the recovery queue advances. A cycle whose database is reachable (failed attempts are noted, unclear commits can be looked
  up, cache work can be deferred) settles every pending event it reaches, whatever statement or commit fails: afterwards the
  event is complete, recognized as charged before, blocked for review, or not due again for thirty seconds; no event can hold
  up the ones behind it.\<close>

theorem recovery_queue_advances:
  assumes "\<And>k. coping (efs k)" "distinct (map fst (bd_events db))"
    and "PendingUsageBilling (be_now env) 64 db = Inr keys" "k \<in> set (take reached keys)"
    and "map_of (bd_events db) k = Some ev" "ev_state ev = EPending"
  shows "\<exists>ev'. map_of (bd_events (snd (recoverUsageBillingBatch env efs cache auth reached db))) k = Some ev' \<and>
    (ev_state ev' \<in> {EComplete, ELegacy, EBlocked} \<or> be_now env + 30 * Second \<le> ev_next ev')"
proof -
  have "distinct (take reached keys)" using Pending_distinct [OF assms(2,3)] by simp
  from recover_keys_settle [of efs, OF assms(1) this assms(4-6)] show ?thesis
    using assms(3) by (simp add: recoverUsageBillingBatch_def event_settled_def Let_def split_beta)
qed

definition sample_staged :: billing_db where
  "sample_staged = snd (StageUsageBilling sample_env NoFault True sample_cmd sample_usage sample_db)"

definition sample_faults :: event_faults where
  "sample_faults = \<lparr>ef_apply = CommitLost, ef_checked = True, ef_noted = True, ef_cache = (\<lambda>_. True), ef_ack = True, ef_defer = True\<rparr>"

theorem recovery_queue_advances_witness:
  "\<exists>ev'. map_of (bd_events (snd (recoverUsageBillingBatch sample_env (\<lambda>_. sample_faults) True True 5 sample_staged))) (''r'', 7) = Some ev' \<and>
    (ev_state ev' \<in> {EComplete, ELegacy, EBlocked} \<or> be_now sample_env + 30 * Second \<le> ev_next ev')"
proof (rule recovery_queue_advances)
  show "coping sample_faults" by (simp add: coping_def sample_faults_def)
  show "PendingUsageBilling (be_now sample_env) 64 sample_staged = Inr [(''r'', 7)]" by code_simp
  show "map_of (bd_events sample_staged) (''r'', 7) = Some (stage_event sample_env (UsageBilling_Normalize sample_env sample_cmd) sample_usage)"
    by code_simp
  show "distinct (map fst (bd_events sample_staged))" by code_simp
qed (simp_all add: stage_event_def Let_def)

end
