(* ===== verification/BillingQuotas.thy ===== *)
theory BillingQuotas
  imports BillingSystem
begin

text \<open>
  The counters beside the balance: account quotas, key quotas and platform quotas of a charge, and the archiving loop of claims.
\<close>

section \<open>Account quotas\<close>

lemma limit_unset_numeric: "limit_unset v \<Longrightarrow> \<not> 0 < numeric v"
  by (auto simp: limit_unset_def numeric_def split: option.splits jnum.splits)

lemma accountQuotaIncrement_short:
  assumes "accountQuotaIncrement env daily weekly aid amount db = Some r"
  shows "accountQuotaIncrement env True True aid amount db = Some r"
proof -
  obtain a where a: "map_of (bd_accounts db) aid = Some a" "\<not> ba_deleted a"
    using assms by (auto simp: accountQuotaIncrement_def split: option.splits if_splits)
  have d: "daily_part env amount x y = y" if "ba_extra a = Some x" "\<not> daily" for x y
    using assms a that limit_unset_numeric by (auto simp: accountQuotaIncrement_def daily_part_def split: if_splits)
  have w: "weekly_part env amount x y = y" if "ba_extra a = Some x" "\<not> weekly" for x y
    using assms a that limit_unset_numeric by (auto simp: accountQuotaIncrement_def weekly_part_def split: if_splits)
  have full: "daily \<and> weekly" if "ba_extra a = None" using assms a that by (auto simp: accountQuotaIncrement_def split: if_splits)
  show ?thesis
  proof (cases "ba_extra a")
    case None
    then show ?thesis using assms full by auto
  next
    case (Some x)
    then show ?thesis using assms a d [OF Some] w [OF Some]
      by (cases daily; cases weekly) (auto simp: accountQuotaIncrement_def Let_def split: if_splits)
  qed
qed

text \<open>the choice of statement does not matter: whatever daily and weekly limits the caller believes an account has, incrementing
  its quota has the effect and the result of the statement with both dimensions, on every row.\<close>

theorem account_quota_choice:
  "incrementAccountQuota env aid amount daily weekly db = incrementAccountQuota env aid amount True True db"
proof (cases "accountQuotaIncrement env daily weekly aid amount db")
  case None
  then show ?thesis by (cases "daily \<and> weekly"; cases "accountQuotaIncrement env True True aid amount db")
      (auto simp: incrementAccountQuota_def)
next
  case (Some r)
  then show ?thesis using accountQuotaIncrement_short [OF Some] by (simp add: incrementAccountQuota_def)
qed

section \<open>Balance and key quota\<close>

definition same_keys :: "billing_db \<Rightarrow> billing_db \<Rightarrow> bool" where
  "same_keys db db' \<longleftrightarrow> bd_keys db' = bd_keys db"

lemma effects_same_keys:
  "effect_subscription c db = Inr db' \<Longrightarrow> same_keys db db'"
  "effect_balance c (r, db) = Inr (r', db') \<Longrightarrow> same_keys db db'"
  "effect_account env c (r, db) = Inr (r', db') \<Longrightarrow> same_keys db db'"
  "effect_platform env c (r, db) = Inr (r', db') \<Longrightarrow> same_keys db db'"
     apply (auto simp: effect_subscription_def incrementSubscription_def same_keys_def split: option.splits if_splits) [1]
    apply (auto simp: effect_balance_def deductBalance_def put_user_def same_keys_def Let_def split: sum.splits if_splits option.splits) [1]
   apply (auto simp: effect_account_def incrementAccountQuota_def accountQuotaIncrement_def same_keys_def Let_def
      split: sum.splits if_splits option.splits) [1]
  apply (auto simp: effect_platform_def incrementPlatformQuota_def same_keys_def Let_def split: sum.splits if_splits option.splits prod.splits) [1]
  done

lemma effect_key_quota_used:
  assumes "effect_key_quota c (r, db) = Inr (r', db')" "0 < uc_APIKeyQuotaCost c" "live_key db (uc_APIKeyID c) = Some k"
  shows "\<exists>k'. live_key db' (uc_APIKeyID c) = Some k' \<and> ky_quota_used k' = round8 (ky_quota_used k + uc_APIKeyQuotaCost c)"
  using assms by (auto simp: effect_key_quota_def incrementKeyQuota_def live_key_def map_of_tput Let_def split: option.splits if_splits)

lemma effect_rate_limit_used:
  assumes "effect_rate_limit env c (r, db) = Inr (r', db')" "live_key db kid = Some k"
  shows "\<exists>k'. live_key db' kid = Some k' \<and> ky_quota_used k' = ky_quota_used k"
  using assms by (auto simp: effect_rate_limit_def incrementKeyRateLimit_def live_key_def map_of_tput Let_def
      split: option.splits if_splits sum.splits)

lemma applyEffects_key:
  assumes "applyUsageBillingEffects env c db = Inr (r, db')" "0 < uc_APIKeyQuotaCost c" "live_key db (uc_APIKeyID c) = Some k"
  shows "\<exists>k'. map_of (bd_keys db') (uc_APIKeyID c) = Some k' \<and> ky_quota_used k' = round8 (ky_quota_used k + uc_APIKeyQuotaCost c)"
proof -
  obtain d1 r2 d2 r3 d3 r4 d4 r5 d5 where e:
    "effect_subscription c db = Inr d1" "effect_balance c (no_result\<lparr>br_Applied := True\<rparr>, d1) = Inr (r2, d2)"
    "effect_key_quota c (r2, d2) = Inr (r3, d3)" "effect_rate_limit env c (r3, d3) = Inr (r4, d4)"
    "effect_account env c (r4, d4) = Inr (r5, d5)" "effect_platform env c (r5, d5) = Inr (r, db')"
    using assms(1) by (auto simp: applyUsageBillingEffects_def and_then_Inr)
  have "live_key d2 (uc_APIKeyID c) = Some k"
    using effects_same_keys(1) [OF e(1)] effects_same_keys(2) [OF e(2)] assms(3) by (simp add: live_key_def same_keys_def)
  then obtain k3 where k3: "live_key d3 (uc_APIKeyID c) = Some k3" "ky_quota_used k3 = round8 (ky_quota_used k + uc_APIKeyQuotaCost c)"
    using effect_key_quota_used [OF e(3) assms(2)] by blast
  obtain k4 where "live_key d4 (uc_APIKeyID c) = Some k4" "ky_quota_used k4 = ky_quota_used k3"
    using effect_rate_limit_used [OF e(4) k3(1)] by blast
  then show ?thesis using k3(2) effects_same_keys(3) [OF e(5)] effects_same_keys(4) [OF e(6)]
    by (auto simp: live_key_def same_keys_def split: option.splits if_splits)
qed

lemma claim_live: "claim_key k fp now db = Inr (b, db') \<Longrightarrow> live_user db' = live_user db \<and> live_key db' = live_key db"
  using claim_same [of k fp now db b db'] by (simp add: live_user_def live_key_def fun_eq_iff)

lemma Normalize_fields:
  "uc_UserID (UsageBilling_Normalize env c) = uc_UserID c" "uc_APIKeyID (UsageBilling_Normalize env c) = uc_APIKeyID c"
  "uc_BalanceCost (UsageBilling_Normalize env c) = quantize (uc_BalanceCost c)"
  "uc_APIKeyQuotaCost (UsageBilling_Normalize env c) = quantize (uc_APIKeyQuotaCost c)"
  by (simp_all add: UsageBilling_Normalize_def quantizeMonetaryFields_def Let_def)

text \<open>balance and key quota do not drift apart: when a command charges the same amount to the user's balance and to the key's
  quota, the balance falls and the used quota rises by exactly the same amount, the command's rounded once to eight places.\<close>

theorem balance_and_quota_agree:
  assumes "billing_Apply env flt cmd db = (Inr r, db')" "br_Applied r"
    and "uc_APIKeyQuotaCost cmd = uc_BalanceCost cmd" "0 < quantize (uc_BalanceCost cmd)"
    and "live_user db (uc_UserID cmd) = Some u" "live_key db (uc_APIKeyID cmd) = Some k"
    and "grid8 (bu_balance u)" "grid8 (ky_quota_used k)"
  shows "\<exists>u' k'. map_of (bd_users db') (uc_UserID cmd) = Some u' \<and> map_of (bd_keys db') (uc_APIKeyID cmd) = Some k' \<and>
    bu_balance u - bu_balance u' = quantize (uc_BalanceCost cmd) \<and> ky_quota_used k' - ky_quota_used k = quantize (uc_BalanceCost cmd)"
proof -
  let ?c = "UsageBilling_Normalize env cmd" and ?q = "quantize (uc_BalanceCost cmd)"
  have run: "run_tx flt BDb (billing_tx env ?c) db = (Inr r, db')" using assms(1) by (auto simp: billing_Apply_def Let_def split: if_splits)
  have "r \<noteq> no_result" using assms(2) by (auto simp: no_result_def)
  then have "billing_tx env ?c db = Commit db' (Inr r)"
    using run_tx_ok [OF run] by (auto simp: billing_tx_def with_claim_def billing_body_def split: sum.splits if_splits)
  then obtain d1 r2 d2 where cl: "claim_key (usage_key ?c) (uc_RequestFingerprint ?c) (be_now env) db = Inr (True, d1)"
    and ef: "applyUsageBillingEffects env ?c d1 = Inr (r2, d2)" and ins: "insertUsageBillingQuote ?c d2 = Inr db'"
    by (auto simp: billing_tx_def with_claim_def billing_body_def split: sum.splits if_splits)
  have f: "uc_UserID ?c = uc_UserID cmd" "uc_APIKeyID ?c = uc_APIKeyID cmd" "uc_BalanceCost ?c = ?q" "uc_APIKeyQuotaCost ?c = ?q"
    using assms(3) by (simp_all add: Normalize_fields)
  have live: "live_user d1 (uc_UserID ?c) = Some u" "live_key d1 (uc_APIKeyID ?c) = Some k"
    using claim_live [OF cl] assms(5,6) f by simp_all
  have "bd_users d2 = tput (uc_UserID cmd) (u\<lparr>bu_balance := round8 (bu_balance u - ?q)\<rparr>) (bd_users d1)"
    using applyEffects_charged(2) [OF ef] live(1) assms(4) f by (simp add: charged_def)
  moreover obtain k' where "map_of (bd_keys d2) (uc_APIKeyID cmd) = Some k'" "ky_quota_used k' = round8 (ky_quota_used k + ?q)"
    using applyEffects_key [OF ef _ live(2)] assms(4) f by auto
  moreover have "bd_users db' = bd_users d2" "bd_keys db' = bd_keys d2"
    using ins by (auto simp: insertUsageBillingQuote_def Let_def split: option.splits gofloat.splits if_splits)
  ultimately show ?thesis
    using assms(7,8) grid8_quantize [of "uc_BalanceCost cmd"] by (simp add: map_of_tput round8_grid grid8_add grid8_diff)
qed

section \<open>Platform quotas\<close>

text \<open>One dimension: a charge observed in the current window adds to it, an earlier one adds nothing, a later day opens a new window.\<close>

lemma window_total:
  assumes "effective_start qs (Some cur) = Some s" "day \<le> obs" "grid8 (qt_usage cur)" "grid8 cost"
  defines "t \<equiv> total_add cur (total_new cost (later_start (effective_start qs (Some cur)) day) obs)"
  shows "qt_start t = max s day"
    and "qt_usage t = (if qt_start cur = max s day then qt_usage cur else 0) + (if obs < s then 0 else cost)"
proof -
  have s: "qt_start cur \<le> s" using assms(1) by (auto simp: effective_start_def greatest_def split: option.splits)
  have ls: "later_start (effective_start qs (Some cur)) day = max s day"
    using assms(1) by (auto simp: later_start_def After_def)
  show "qt_start t = max s day" using s by (auto simp: t_def ls total_add_def total_new_def)
  have g: "grid8 (qt_usage cur + cost)" "round8 0 = 0" using assms(3,4) by (simp_all add: grid8_add round8_grid grid8_0)
  show "qt_usage t = (if qt_start cur = max s day then qt_usage cur else 0) + (if obs < s then 0 else cost)"
    using s assms(2-4) g by (auto simp: t_def ls total_add_def total_new_def round8_grid max_def split: if_splits)
qed

text \<open>platform quotas count each charge in the window it was observed in: for a quota with running totals, the daily and the
  weekly total after a charge are what the current window held (nothing, if the charge opens a new window) plus the cost,
  unless the usage was observed before the current window began (a late event from before a reset), which adds nothing.\<close>

theorem platform_window_totals:
  assumes "incrementPlatformQuota env c db = Inr db'"
    and "find (\<lambda>(_, q). pq_user q = uc_UserID c \<and> pq_platform q = uc_PlatformQuotaPlatform c \<and> \<not> pq_deleted q \<and> pq_limited q)
           (bd_quotas db) = Some (qid, q)"
    and "map_of (bd_totals db) qid = Some t" "grid8 (uc_PlatformQuotaCost c)"
    and "effective_start (pq_daily_start q) (Some (pt_daily t)) = Some s" "be_StartOfDay env (uc_PlatformUsageAt c) \<le> uc_PlatformUsageAt c"
      "grid8 (qt_usage (pt_daily t))"
    and "effective_start (pq_weekly_start q) (Some (pt_weekly t)) = Some w" "be_StartOfWeek env (uc_PlatformUsageAt c) \<le> uc_PlatformUsageAt c"
      "grid8 (qt_usage (pt_weekly t))"
  shows "\<exists>t'. map_of (bd_totals db') qid = Some t' \<and>
    qt_usage (pt_daily t') = (if qt_start (pt_daily t) = max s (be_StartOfDay env (uc_PlatformUsageAt c)) then qt_usage (pt_daily t) else 0)
      + (if uc_PlatformUsageAt c < s then 0 else uc_PlatformQuotaCost c) \<and>
    qt_usage (pt_weekly t') = (if qt_start (pt_weekly t) = max w (be_StartOfWeek env (uc_PlatformUsageAt c)) then qt_usage (pt_weekly t) else 0)
      + (if uc_PlatformUsageAt c < w then 0 else uc_PlatformQuotaCost c)"
  using assms(1-3) window_total(2) [OF assms(5-7,4)] window_total(2) [OF assms(8-10,4)]
  by (simp add: incrementPlatformQuota_def effectivePlatformQuotaWindows_def upsert_totals_def map_of_tput Let_def split: if_splits)
    (auto simp: map_of_tput)

section \<open>Archiving claims\<close>

lemma archive_batch_last:
  assumes "archive_batch n cutoff db = (m, db')" "m < n"
  shows "\<forall>(k, fp, created) \<in> set (bd_dedup db'). cutoff \<le> created"
proof -
  let ?old = "filter (\<lambda>(k, _, created). created < cutoff) (bd_dedup db)"
  have "length ?old < n" using assms by (auto simp: archive_batch_def Let_def)
  then have "take n ?old = ?old" by simp
  then have "bd_dedup db' = filter (\<lambda>(k, _). k \<notin> fst ` set ?old) (bd_dedup db)" using assms(1) by (auto simp: archive_batch_def Let_def)
  then show ?thesis by (force simp: image_iff)
qed

text \<open>archiving ends, and loses nothing: \<open>CleanupUsageBillingDedup\<close>, which moves old claims a batch at a time until a batch is
  not full, returns with no claim older than the cutoff left in the hot table, and every claim made before is still known.\<close>

theorem cleanup_archives_all:
  assumes "0 < n"
  shows "(\<forall>(k, fp, created) \<in> set (bd_dedup (CleanupUsageBillingDedup n cutoff db)). cutoff \<le> created) \<and>
    (\<forall>k. holdClaimExists k db \<longrightarrow> holdClaimExists k (CleanupUsageBillingDedup n cutoff db))"
  using assms
proof (induction n cutoff db rule: CleanupUsageBillingDedup.induct)
  case (1 n cutoff db)
  obtain m d where a: "archive_batch n cutoff db = (m, d)" by (cases "archive_batch n cutoff db")
  have kept: "holdClaimExists k db \<Longrightarrow> holdClaimExists k d" for k using claims_kept_claim [OF archive_batch_kept [OF a]] by blast
  show ?case
  proof (cases "m < n")
    case True
    then have "CleanupUsageBillingDedup n cutoff db = d" using a by (simp add: CleanupUsageBillingDedup.simps [of n cutoff db])
    then show ?thesis using archive_batch_last [OF a True] kept by simp
  next
    case False
    then have "CleanupUsageBillingDedup n cutoff db = CleanupUsageBillingDedup n cutoff d"
      using a 1(2) by (simp add: CleanupUsageBillingDedup.simps [of n cutoff db])
    then show ?thesis using 1(1) [of "(m, d)" m d] a False 1(2) kept by simp
  qed
qed

section \<open>Witnesses\<close>

definition sample_key :: billing_key where
  "sample_key = \<lparr>ky_deleted = False, ky_status = StatusAPIKeyActive, ky_quota = 10, ky_quota_used = 2, ky_usage_5h = 0, ky_usage_1d = 0,
     ky_usage_7d = 0, ky_window_5h = None, ky_window_1d = None, ky_window_7d = None\<rparr>"

definition sample_keyed :: billing_db where
  "sample_keyed = sample_db\<lparr>bd_keys := [(7, sample_key)]\<rparr>"

text \<open>The amount of the comment on \<open>quantizeMonetaryFields\<close>: 0.000078125 is charged as 0.00007813 on both sides.\<close>

definition sample_both :: UsageBillingCommand where
  "sample_both = sample_cmd\<lparr>uc_BalanceCost := 78125 / 1000000000, uc_APIKeyQuotaCost := 78125 / 1000000000\<rparr>"

lemma sample_quantize: "quantize (78125 / 1000000000) = 7813 / 100000000"
  by code_simp

lemma sample_both_run: "map_sum id br_Applied (fst (billing_Apply sample_env NoFault sample_both sample_keyed)) = Inr True"
  by code_simp

theorem balance_and_quota_agree_witness:
  "\<exists>u' k'. map_of (bd_users (snd (billing_Apply sample_env NoFault sample_both sample_keyed))) 1 = Some u' \<and>
    map_of (bd_keys (snd (billing_Apply sample_env NoFault sample_both sample_keyed))) 7 = Some k' \<and>
    5 - bu_balance u' = 7813 / 100000000 \<and> ky_quota_used k' - 2 = 7813 / 100000000"
proof -
  define db' where "db' = snd (billing_Apply sample_env NoFault sample_both sample_keyed)"
  obtain r where r: "billing_Apply sample_env NoFault sample_both sample_keyed = (Inr r, db')" "br_Applied r"
    using sample_both_run unfolding db'_def
    by (cases "billing_Apply sample_env NoFault sample_both sample_keyed"; cases "fst (billing_Apply sample_env NoFault sample_both sample_keyed)") auto
  have g: "grid8 5" "grid8 2" unfolding grid8_def by (rule exI [of _ 500000000], simp) (rule exI [of _ 200000000], simp)
  have c: "uc_BalanceCost sample_both = 78125 / 1000000000" "uc_UserID sample_both = 1" "uc_APIKeyID sample_both = 7"
    by (simp_all add: sample_both_def sample_cmd_def)
  have "\<exists>u' k'. map_of (bd_users db') (uc_UserID sample_both) = Some u' \<and> map_of (bd_keys db') (uc_APIKeyID sample_both) = Some k' \<and>
    bu_balance sample_user - bu_balance u' = quantize (uc_BalanceCost sample_both) \<and>
    ky_quota_used k' - ky_quota_used sample_key = quantize (uc_BalanceCost sample_both)"
  proof (rule balance_and_quota_agree [OF r])
    show "0 < quantize (uc_BalanceCost sample_both)" unfolding c sample_quantize by simp
  qed (simp_all add: g sample_both_def sample_cmd_def sample_user_def sample_key_def live_user_def live_key_def sample_keyed_def sample_db_def)
  then show ?thesis unfolding c sample_quantize db'_def by (simp add: sample_user_def sample_key_def)
qed

definition sample_total :: "gotime \<Rightarrow> quota_total" where
  "sample_total start = \<lparr>qt_usage = 3, qt_start = start, qt_anchor = start\<rparr>"

definition sample_pq :: platform_quota where
  "sample_pq = \<lparr>pq_user = 1, pq_platform = ''openai'', pq_deleted = False, pq_limited = True, pq_daily_start = Some 60,
     pq_weekly_start = Some 20, pq_monthly_start = None\<rparr>"

definition sample_pt :: platform_totals where
  "sample_pt = \<lparr>pt_daily = sample_total 60, pt_weekly = sample_total 20, pt_monthly = sample_total 20\<rparr>"

definition sample_platform :: billing_db where
  "sample_platform = sample_db\<lparr>bd_quotas := [(4, sample_pq)], bd_totals := [(4, sample_pt)]\<rparr>"

definition sample_late :: UsageBillingCommand where
  "sample_late = sample_cmd\<lparr>uc_PlatformQuotaPlatform := ''openai'', uc_PlatformQuotaCost := 1 / 2, uc_PlatformUsageAt := 50\<rparr>"

definition sample_midnight :: billing_env where
  "sample_midnight = sample_env\<lparr>be_StartOfDay := (\<lambda>_. 40), be_StartOfWeek := (\<lambda>_. 10)\<rparr>"

text \<open>The daily window was reset at 60: usage observed at 50 counts for the week only.\<close>

theorem platform_window_totals_witness:
  "\<exists>db' t'. incrementPlatformQuota sample_midnight sample_late sample_platform = Inr db' \<and> map_of (bd_totals db') 4 = Some t' \<and>
    qt_usage (pt_daily t') = 3 \<and> qt_usage (pt_weekly t') = 7 / 2"
proof -
  have "\<not> isl (incrementPlatformQuota sample_midnight sample_late sample_platform)" by code_simp
  then obtain db' where db': "incrementPlatformQuota sample_midnight sample_late sample_platform = Inr db'"
    by (cases "incrementPlatformQuota sample_midnight sample_late sample_platform") auto
  have g: "grid8 3" "grid8 (1 / 2)" unfolding grid8_def by (rule exI [of _ 300000000], simp) (rule exI [of _ 50000000], simp)
  have c: "uc_UserID sample_late = 1" "uc_PlatformQuotaPlatform sample_late = ''openai''" "uc_PlatformQuotaCost sample_late = 1 / 2"
    "uc_PlatformUsageAt sample_late = 50" by (simp_all add: sample_late_def sample_cmd_def)
  have d: "be_StartOfDay sample_midnight 50 = 40" "be_StartOfWeek sample_midnight 50 = 10" by (simp_all add: sample_midnight_def)
  have t: "qt_start (pt_daily sample_pt) = 60" "qt_usage (pt_daily sample_pt) = 3" "qt_start (pt_weekly sample_pt) = 20"
    "qt_usage (pt_weekly sample_pt) = 3" by (simp_all add: sample_pt_def sample_total_def)
  have "\<exists>t'. map_of (bd_totals db') 4 = Some t' \<and>
      qt_usage (pt_daily t') = (if qt_start (pt_daily sample_pt) = max 60 (be_StartOfDay sample_midnight (uc_PlatformUsageAt sample_late))
        then qt_usage (pt_daily sample_pt) else 0) + (if uc_PlatformUsageAt sample_late < 60 then 0 else uc_PlatformQuotaCost sample_late) \<and>
      qt_usage (pt_weekly t') = (if qt_start (pt_weekly sample_pt) = max 20 (be_StartOfWeek sample_midnight (uc_PlatformUsageAt sample_late))
        then qt_usage (pt_weekly sample_pt) else 0) + (if uc_PlatformUsageAt sample_late < 20 then 0 else uc_PlatformQuotaCost sample_late)"
    by (rule platform_window_totals [OF db', where q = sample_pq])
      (simp_all add: c d g sample_platform_def sample_pq_def sample_pt_def sample_total_def effective_start_def greatest_def)
  then show ?thesis using db' by (simp add: c d t)
qed

lemma sample_claimed: "holdClaimExists (''r'', 7) sample_charged"
  by code_simp

theorem cleanup_archives_all_witness:
  "list_all (\<lambda>(k, fp, created). 200 \<le> created) (bd_dedup (CleanupUsageBillingDedup 1 200 sample_charged)) \<and>
    holdClaimExists (''r'', 7) (CleanupUsageBillingDedup 1 200 sample_charged)"
  using cleanup_archives_all [of 1 200 sample_charged] sample_claimed unfolding list_all_iff by simp

end
