(* ===== verification/PayOrder.thy ===== *)
theory PayOrder
  imports Billing Decimal
begin

text \<open>
  Payment orders: the rows of \<^verbatim>\<open>payment_orders\<close>, \<^verbatim>\<open>payment_audit_logs\<close>, \<^verbatim>\<open>redeem_codes\<close> and
  \<^verbatim>\<open>users\<close> that the payment service of \<^verbatim>\<open>backend/internal/service\<close> works on, its amounts
  (\<open>payment_amounts.go\<close>, \<open>payment/currency.go\<close>, \<open>payment/fee.go\<close>) and the decisions its handlers
  take from rows already read (\<open>payment_fulfillment.go\<close>, \<open>payment_order_provider_snapshot.go\<close>,
  \<open>payment_order_lifecycle.go\<close>). The handlers themselves are in \<open>PayTask\<close>.

  Amounts are rationals: a column is a decimal, and a \<open>float64\<close> stands for the shortest decimal it prints
  as, which is what \<open>decimal.NewFromFloat\<close> reads.
\<close>

named_theorems pay_defs \<open>decisions of the payment service\<close>

section \<open>Orders\<close>

datatype order_status = OPending | OPaid | ORecharging | OCompleted | OExpired | OCancelled | OFailed
  | ORefundRequested | ORefunding | ORefundPending | OPartiallyRefunded | ORefunded | ORefundFailed

definition psIsRefundStatus :: "order_status \<Rightarrow> bool" where
  "psIsRefundStatus s \<longleftrightarrow> s \<in> {ORefundRequested, ORefunding, ORefundPending, OPartiallyRefunded, ORefunded, ORefundFailed}"

definition OrderTypeBalance :: string where "OrderTypeBalance = ''balance''"
definition OrderTypeSubscription :: string where "OrderTypeSubscription = ''subscription''"

definition isSupportedPaymentOrderType :: "string \<Rightarrow> bool" where
  "isSupportedPaymentOrderType t \<longleftrightarrow> t = OrderTypeBalance \<or> t = OrderTypeSubscription"

record provider_snapshot =
  sn_ProviderKey :: string
  sn_MerchantAppID :: string
  sn_MerchantID :: string
  sn_Currency :: string

record pay_order =
  po_user :: int
  po_amount :: rat
  po_pay :: rat
  po_bonus :: rat
  po_code :: string
  po_out :: string
  po_method :: string
  po_trade :: string
  po_type :: string
  po_group :: "int option"
  po_days :: "int option"
  po_provider :: "string option"
  po_snapshot :: "provider_snapshot option"
  po_status :: order_status
  po_refund :: rat
  po_reason :: "string option"
  po_refund_at :: "gotime option"
  po_force :: bool
  po_requested :: "(gotime \<times> string \<times> string) option"
  po_expires :: gotime
  po_paid_at :: "gotime option"
  po_completed_at :: "gotime option"
  po_failed :: "gotime option \<times> string option"
  po_updated :: gotime

text \<open>A redeem code; its table is keyed by the code, which is unique.\<close>

datatype code_status = CUnused | CUsed | CExpired | CDisabled

record redeem_code =
  rc_id :: int
  rc_type :: string
  rc_value :: rat
  rc_status :: code_status
  rc_used_by :: "int option"
  rc_expires :: "gotime option"

definition RedeemTypeBalance :: string where "RedeemTypeBalance = ''balance''"

definition IsExpiredAt :: "redeem_code \<Rightarrow> gotime \<Rightarrow> bool" where
  "IsExpiredAt r now \<longleftrightarrow> rc_status r = CExpired \<or>
     rc_status r = CUnused \<and> (case rc_expires r of None \<Rightarrow> False | Some e \<Rightarrow> \<not> After e now)"

definition CanUse :: "redeem_code \<Rightarrow> gotime \<Rightarrow> bool" where
  "CanUse r now \<longleftrightarrow> rc_status r = CUnused \<and> \<not> IsExpiredAt r now"

record pay_user =
  pu_deleted :: bool
  pu_balance :: rat
  pu_recharged :: rat

section \<open>Currencies\<close>

definition DefaultPaymentCurrency :: string where "DefaultPaymentCurrency = ''CNY''"

definition upper_byte :: "char \<Rightarrow> char" where
  "upper_byte c = (let n = (of_char c :: nat) in if 97 \<le> n \<and> n \<le> 122 then char_of (n - 32) else c)"

text \<open>
  \<open>strings.ToUpper\<close> on bytes. Two letters outside ASCII have an upper case inside it, the dotless i (C4 B1) and the long s
  (C5 BF); what the others become does not matter, since a currency with any other byte is refused.
\<close>

fun ToUpper_bytes :: "string \<Rightarrow> string" where
  "ToUpper_bytes (c # d # s) =
     (if (of_char c :: nat) = 196 \<and> (of_char d :: nat) = 177 then CHR ''I'' # ToUpper_bytes s
      else if (of_char c :: nat) = 197 \<and> (of_char d :: nat) = 191 then CHR ''S'' # ToUpper_bytes s
      else upper_byte c # ToUpper_bytes (d # s))"
| "ToUpper_bytes [c] = [upper_byte c]"
| "ToUpper_bytes [] = []"

definition NormalizePaymentCurrency :: "string \<Rightarrow> string option" where
  "NormalizePaymentCurrency raw =
     (let currency = ToUpper_bytes (strings_TrimSpace raw) in
      if currency = [] then Some DefaultPaymentCurrency
      else if length currency \<noteq> 3 then None
      else if list_all (\<lambda>c. 65 \<le> (of_char c :: nat) \<and> (of_char c :: nat) \<le> 90) currency then Some currency
      else None)"

definition zero_decimal_currencies :: "string list" where
  "zero_decimal_currencies = [''BIF'', ''CLP'', ''DJF'', ''GNF'', ''JPY'', ''KMF'', ''KRW'', ''MGA'', ''PYG'', ''RWF'', ''VND'',
     ''VUV'', ''XAF'', ''XOF'', ''XPF'']"

definition three_decimal_currencies :: "string list" where
  "three_decimal_currencies = [''BHD'', ''IQD'', ''JOD'', ''KWD'', ''LYD'', ''OMR'', ''TND'']"

text \<open>The minor unit of the provider's API and the fraction digits an amount may have.\<close>

definition paymentCurrencyAmountUnitFor :: "string \<Rightarrow> nat \<times> nat" where
  "paymentCurrencyAmountUnitFor currency =
     (case NormalizePaymentCurrency currency of
        None \<Rightarrow> (2, 2)
      | Some c \<Rightarrow>
          if c \<in> set zero_decimal_currencies then (0, 0)
          else if c \<in> {''ISK'', ''UGX''} then (2, 0)
          else if c \<in> set three_decimal_currencies then (3, 3)
          else (2, 2))"

definition CurrencyMinorUnit :: "string \<Rightarrow> nat" where
  "CurrencyMinorUnit currency = fst (paymentCurrencyAmountUnitFor currency)"

definition CurrencyMaxFractionDigits :: "string \<Rightarrow> nat" where
  "CurrencyMaxFractionDigits currency = snd (paymentCurrencyAmountUnitFor currency)"

definition PaymentOrderCurrency :: "pay_order \<Rightarrow> string" where
  "PaymentOrderCurrency od =
     (case po_snapshot od of
        None \<Rightarrow> DefaultPaymentCurrency
      | Some s \<Rightarrow> (case NormalizePaymentCurrency (sn_Currency s) of None \<Rightarrow> DefaultPaymentCurrency | Some c \<Rightarrow> c))"

section \<open>Amounts\<close>

text \<open>\<open>decimal.Round\<close> is half away from zero, \<open>RoundUp\<close> is away from zero, and \<open>Div\<close> keeps sixteen places.\<close>

definition dec_round :: "nat \<Rightarrow> rat \<Rightarrow> rat" where
  "dec_round d x = sgn x * of_int \<lfloor>\<bar>x\<bar> * 10 ^ d + 1 / 2\<rfloor> / 10 ^ d"

definition dec_up :: "nat \<Rightarrow> rat \<Rightarrow> rat" where
  "dec_up d x = sgn x * of_int \<lceil>\<bar>x\<bar> * 10 ^ d\<rceil> / 10 ^ d"

definition dec_div :: "rat \<Rightarrow> rat \<Rightarrow> rat" where
  "dec_div x y = dec_round 16 (x / y)"

definition paymentAmountToleranceForCurrency :: "string \<Rightarrow> rat" where
  "paymentAmountToleranceForCurrency currency =
     (let minorUnit = CurrencyMinorUnit currency in if minorUnit \<le> 2 then 1 / 100 else 1 / 10 ^ minorUnit / 2)"

definition isValidProviderAmount :: "gofloat \<Rightarrow> bool" where
  "isValidProviderAmount a = (case a of Fin x \<Rightarrow> 0 < x | _ \<Rightarrow> False)"

definition normalizeBalanceRechargeMultiplier :: "gofloat \<Rightarrow> rat" where
  "normalizeBalanceRechargeMultiplier m = (case m of Fin x \<Rightarrow> if x \<le> 0 then 1 else x | _ \<Rightarrow> 1)"

definition normalizeSubscriptionUSDToCNYRate :: "gofloat \<Rightarrow> rat" where
  "normalizeSubscriptionUSDToCNYRate r = (case r of Fin x \<Rightarrow> if x < 0 then 0 else x | _ \<Rightarrow> 0)"

definition calculateCreditedBalance :: "rat \<Rightarrow> gofloat \<Rightarrow> rat" where
  "calculateCreditedBalance paymentAmount multiplier =
     dec_round 2 (paymentAmount * normalizeBalanceRechargeMultiplier multiplier)"

definition calculateSubscriptionGatewayBaseAmount :: "rat \<Rightarrow> gofloat \<Rightarrow> string \<Rightarrow> rat" where
  "calculateSubscriptionGatewayBaseAmount amount usdToCnyRate currency =
     (let rate = normalizeSubscriptionUSDToCNYRate usdToCnyRate in
      if rate \<le> 0 \<or> currency \<noteq> DefaultPaymentCurrency then amount
      else dec_round (CurrencyMaxFractionDigits currency) (amount * rate))"

text \<open>The amount to pay: the base, and the fee rounded up to the currency's smallest unit.\<close>

definition CalculatePayAmountForCurrency :: "rat \<Rightarrow> rat \<Rightarrow> string \<Rightarrow> rat" where
  "CalculatePayAmountForCurrency rechargeAmount feeRate currency =
     (let d = CurrencyMaxFractionDigits currency in
      if feeRate \<le> 0 then dec_round d rechargeAmount
      else dec_round d (rechargeAmount + dec_up d (dec_div (rechargeAmount * feeRate) 100)))"

definition calculateGatewayRefundAmount :: "rat \<Rightarrow> rat \<Rightarrow> rat \<Rightarrow> string \<Rightarrow> rat" where
  "calculateGatewayRefundAmount orderAmount payAmount refundAmount currency =
     (if orderAmount \<le> 0 \<or> payAmount \<le> 0 \<or> refundAmount \<le> 0 then 0
      else
        let d = CurrencyMaxFractionDigits currency in
        if \<bar>refundAmount - orderAmount\<bar> \<le> paymentAmountToleranceForCurrency currency then dec_round d payAmount
        else dec_round d (dec_div (payAmount * refundAmount) orderAmount))"

section \<open>Decisions\<close>

text \<open>
  What the service takes from outside this repository's own tables: Go's case folding, the registry of
  providers, and which optional services are wired.
\<close>

record pay_env =
  pe_EqualFold :: "string \<Rightarrow> string \<Rightarrow> bool"
  pe_ToUpper :: "string \<Rightarrow> string"
  pe_GetProviderKey :: "string \<Rightarrow> string"
  pe_lottery :: bool
  pe_affiliate :: bool
  pe_MaxPendingOrders :: int
  pe_DailyLimit :: rat
  pe_OrderTimeoutMin :: int

definition psStringValue :: "string option \<Rightarrow> string" where
  "psStringValue v = (case v of None \<Rightarrow> [] | Some s \<Rightarrow> s)"

definition TypeAlipay :: string where "TypeAlipay = ''alipay''"
definition TypeWxpay :: string where "TypeWxpay = ''wxpay''"
definition TypeStripe :: string where "TypeStripe = ''stripe''"
definition TypeEasyPay :: string where "TypeEasyPay = ''easypay''"
definition TypeAirwallex :: string where "TypeAirwallex = ''airwallex''"

definition GetBasePaymentType :: "string \<Rightarrow> string" where
  "GetBasePaymentType t =
     (if t = TypeEasyPay then TypeEasyPay
      else if t = TypeAirwallex then TypeAirwallex
      else if t = TypeStripe \<or> t = ''card'' \<or> t = ''link'' then TypeStripe
      else if prefix TypeAlipay t then TypeAlipay
      else if prefix TypeWxpay t then TypeWxpay
      else t)"

definition orderIDPrefix :: string where "orderIDPrefix = ''sub2_''"

definition parseLegacyPaymentOrderID :: "string \<Rightarrow> int option" where
  "parseLegacyPaymentOrderID orderID =
     (let t = strings_TrimSpace orderID in
      if \<not> prefix orderIDPrefix t then None
      else let trimmed = drop (length orderIDPrefix) t in
        if trimmed = [] \<or> trimmed = t then None
        else case ParseInt10 trimmed of
          None \<Rightarrow> None
        | Some oid \<Rightarrow> if oid \<le> 0 then None else Some oid)"

definition normalizeOrderLookupOutTradeNo :: "string \<Rightarrow> string option" where
  "normalizeOrderLookupOutTradeNo raw =
     (let s = strings_TrimSpace raw in
      if s = [] then None
      else if length s > 64 then None
      else if list_all (\<lambda>c. is_letter c \<or> is_digit c \<or> c = CHR ''_'' \<or> c = CHR ''-'') s then Some s
      else None)"

definition expectedNotificationProviderKey :: "pay_env \<Rightarrow> string \<Rightarrow> string \<Rightarrow> string \<Rightarrow> string" where
  "expectedNotificationProviderKey env orderPaymentType orderProviderKey instanceProviderKey =
     (if strings_TrimSpace instanceProviderKey \<noteq> [] then strings_TrimSpace instanceProviderKey
      else if strings_TrimSpace orderProviderKey \<noteq> [] then strings_TrimSpace orderProviderKey
      else if strings_TrimSpace (pe_GetProviderKey env orderPaymentType) \<noteq> [] then strings_TrimSpace (pe_GetProviderKey env orderPaymentType)
      else strings_TrimSpace orderPaymentType)"

definition expectedNotificationProviderKeyForOrder :: "pay_env \<Rightarrow> pay_order \<Rightarrow> string \<Rightarrow> string" where
  "expectedNotificationProviderKeyForOrder env od instanceProviderKey =
     (let key = (case po_snapshot od of
                   Some s \<Rightarrow> if sn_ProviderKey s \<noteq> [] then sn_ProviderKey s else psStringValue (po_provider od)
                 | None \<Rightarrow> psStringValue (po_provider od))
      in expectedNotificationProviderKey env (po_method od) key instanceProviderKey)"

text \<open>An expected value of the snapshot has to be in the metadata; the error names do not matter to the callers.\<close>

definition meta_matches :: "pay_env \<Rightarrow> string \<Rightarrow> string \<Rightarrow> bool" where
  "meta_matches env expected actual \<longleftrightarrow> expected = [] \<or> actual \<noteq> [] \<and> pe_EqualFold env expected actual"

definition validateProviderSnapshotMetadata :: "pay_env \<Rightarrow> pay_order \<Rightarrow> string \<Rightarrow> (string \<times> string) list \<Rightarrow> bool" where
  "validateProviderSnapshotMetadata env od providerKey metadata =
     (if metadata = [] then True
      else case po_snapshot od of
        None \<Rightarrow> True
      | Some s \<Rightarrow>
          (let pk = strings_TrimSpace providerKey;
               get = (\<lambda>k. strings_TrimSpace (psStringValue (map_of metadata k)));
               state_ok = (\<lambda>k v. get k = [] \<or> pe_EqualFold env (get k) v);
               app = strings_TrimSpace (sn_MerchantAppID s);
               merchant = strings_TrimSpace (sn_MerchantID s);
               currency = strings_TrimSpace (sn_Currency s);
               currency_ok = meta_matches env currency (pe_ToUpper env (get ''currency''))
           in if pk = TypeWxpay then
                meta_matches env app (get ''appid'') \<and> meta_matches env merchant (get ''mchid'') \<and> currency_ok \<and>
                state_ok ''trade_state'' ''SUCCESS''
              else if pk = TypeAlipay then meta_matches env app (get ''app_id'')
              else if pk = TypeEasyPay then meta_matches env merchant (get ''pid'')
              else if pk = TypeStripe then currency_ok
              else if pk = TypeAirwallex then
                meta_matches env merchant (get ''account_id'') \<and> currency_ok \<and> state_ok ''status'' ''SUCCEEDED''
              else True))"

definition paymentOrderQueryReference :: "pay_order \<Rightarrow> string \<Rightarrow> string" where
  "paymentOrderQueryReference od provKey =
     (let k1 = strings_TrimSpace provKey;
          k2 = (if k1 = [] then (case po_snapshot od of Some s \<Rightarrow> strings_TrimSpace (sn_ProviderKey s) | None \<Rightarrow> []) else k1);
          k3 = (if k2 = [] then strings_TrimSpace (psStringValue (po_provider od)) else k2);
          k4 = (if k3 = [] then strings_TrimSpace (po_method od) else k3)
      in if GetBasePaymentType k4 \<in> {TypeAlipay, TypeEasyPay, TypeWxpay} then strings_TrimSpace (po_out od)
         else if strings_TrimSpace (po_trade od) \<noteq> [] then strings_TrimSpace (po_trade od)
         else strings_TrimSpace (po_out od))"

definition paymentOrderShouldPersistUpstreamTradeNo :: "pay_env \<Rightarrow> string \<Rightarrow> string \<Rightarrow> string \<Rightarrow> bool" where
  "paymentOrderShouldPersistUpstreamTradeNo env queryRef upstream current \<longleftrightarrow>
     strings_TrimSpace upstream \<noteq> [] \<and>
     \<not> pe_EqualFold env (strings_TrimSpace upstream) (strings_TrimSpace current) \<and>
     \<not> pe_EqualFold env (strings_TrimSpace upstream) (strings_TrimSpace queryRef)"

text \<open>What to do about the order's redeem code, and whether a code found under its name is the order's.\<close>

datatype redeemAction = RedeemCreate | RedeemRedeem | RedeemSkipCompleted

definition resolveRedeemAction :: "redeem_code option \<Rightarrow> redeemAction" where
  "resolveRedeemAction existing =
     (case existing of
        None \<Rightarrow> RedeemCreate
      | Some c \<Rightarrow> if rc_status c = CUsed then RedeemSkipCompleted else RedeemRedeem)"

definition validatePaymentRedeemCode :: "pay_order \<Rightarrow> redeem_code \<Rightarrow> bool" where
  "validatePaymentRedeemCode od c \<longleftrightarrow>
     rc_type c = RedeemTypeBalance \<and> \<bar>rc_value c - po_amount od\<bar> \<le> 1 / 100000000 \<and>
     (rc_status c = CUnused \<and> rc_used_by c = None \<or> rc_status c = CUsed \<and> rc_used_by c = Some (po_user od))"

text \<open>The base of the inviter's rebate: the amount without the bonus (\<open>payment_recharge_bonus.go\<close>).\<close>

definition paymentOrderAmountWithoutBonus :: "pay_order \<Rightarrow> rat" where
  "paymentOrderAmountWithoutBonus od =
     (if po_type od \<noteq> OrderTypeBalance \<or> po_bonus od \<le> 0 then po_amount od
      else max 0 (dec_round 2 (po_amount od - po_bonus od)))"

definition affiliateRebateBaseAmount :: "pay_order \<Rightarrow> rat" where
  "affiliateRebateBaseAmount od =
     (if po_type od = OrderTypeBalance then paymentOrderAmountWithoutBonus od
      else if po_type od = OrderTypeSubscription then po_amount od
      else 0)"

section \<open>Text without spaces\<close>

lemma space_len_ascii: "33 \<le> byte c \<Longrightarrow> byte c < 128 \<Longrightarrow> space_len (c # s) = 0 \<and> rspace_len (c # s) = 0"
  by (auto simp: space_len_def rspace_len_def ascii_space_def wide_space_def split: list.splits)

lemma trim_by_0: "f s = 0 \<Longrightarrow> trim_by f s = s"
  by (simp add: trim_by.simps)

lemma digit_byte: "is_digit c \<Longrightarrow> 33 \<le> byte c \<and> byte c < 128"
  by (simp add: is_digit_def byte_def)

lemma TrimSpace_id:
  assumes "33 \<le> byte c" "byte c < 128" "33 \<le> byte e" "byte e < 128"
  shows "strings_TrimSpace (c # s @ [e]) = c # s @ [e]"
proof -
  have l: "trim_by space_len (c # s @ [e]) = c # s @ [e]" using space_len_ascii assms by (intro trim_by_0) simp
  have r: "trim_by rspace_len (e # rev s @ [c]) = e # rev s @ [c]" using space_len_ascii assms by (intro trim_by_0) simp
  show ?thesis unfolding strings_TrimSpace_def l using r by simp
qed

end
