(* ===== verification/PayTask.thy ===== *)
theory PayTask
  imports PayOrder
begin

text \<open>
  The handlers of the payment service as tasks: \<open>payment_fulfillment.go\<close>, \<open>payment_order_lifecycle.go\<close>,
  \<open>payment_order.go\<close>, the redemption of \<open>redeem_service.go\<close>, and the affiliate rebate. A task is a handler at the
  point before its next access to the database or to a provider; a step performs that access, which is one statement or one
  transaction, and goes on to the next point. Between two steps of a task any other task may run, and a task that is never
  run again is a process that died.

  A step has an input: the clock, the fault of its statement, and the answers of what is not a table of the model (providers
  and their instances, the subscription, lottery and affiliate services).
\<close>

section \<open>Tables\<close>

text \<open>
  What a statement did to money, in the order the statements took effect. It is not a table of the program: it is the history
  the properties speak of.
\<close>

datatype pay_move =
    MConfirmed int rat
  | MCredited string int rat
  | MTaken int int rat
  | MReturned int int rat
  | MGateway int rat
  | MRebate int rat
  | MAssigned int
  | MDays int int
  | MAdminCode string

datatype deduction = DNone | DBalance | DSubscription

record refundPendingAuditDetail =
  rd_RefundID :: string
  rd_DeductionRollbackOK :: bool
  rd_DeductionHeld :: bool
  rd_DeductionType :: deduction
  rd_BalanceDeducted :: rat
  rd_SubDaysDeducted :: int
  rd_SubscriptionID :: int

text \<open>Only the details of \<^verbatim>\<open>REFUND_PENDING\<close> are ever read back. A unique index covers order and action (\<^verbatim>\<open>131_affiliate_rebate_hardening.sql\<close>).\<close>

datatype audit_detail = ADetail | APending refundPendingAuditDetail

record pay_db =
  pd_orders :: "(int, pay_order) table"
  pd_audit :: "(int \<times> string, audit_detail) table"
  pd_codes :: "(string, redeem_code) table"
  pd_users :: "(int, pay_user) table"
  pd_moves :: "pay_move list"

datatype pay_err = PDb | PErrOrderNotFound | PNotFound | PForbidden | PInvalidStatus | PInvalidOrderType | PProviderMismatch
  | PMetadataMismatch | PInvalidAmount | PAmountMismatch | PConflict | PBeingProcessed | PLeaseLost | PRedeemLookup | PRedeemMismatch
  | PCodeExists | PCodeLocked | PCodeNotFound | PCodeExpired | PCodeUsed | PCodeType | PUser | PValueZero | PRebate | PLottery
  | PSubscription | PMissingSubscription | PTooManyPending | PDailyLimit | PProvider | PRefundDisabled | PRefundAmount
  | PBalanceNotEnough | PDeduction | PGateway | PRefundQueryUnsupported | PAudit | PUnsupportedType

datatype pay_answer = AOk | AAlreadyPaid | ACancelled | ARefunded rat int | ARefundPending | ARefundRolledBack
  | ARefundFailed bool | ARequireForce | ACreated int

record PaymentNotification =
  pn_TradeNo :: string
  pn_OrderID :: string
  pn_Amount :: gofloat
  pn_Success :: bool
  pn_Metadata :: "(string \<times> string) list"

record RefundPlan =
  rp_Order :: "int \<times> pay_order"
  rp_RefundAmount :: rat
  rp_GatewayAmount :: rat
  rp_Reason :: string
  rp_Force :: bool
  rp_DeductionType :: deduction
  rp_BalanceToDeduct :: rat
  rp_SubDaysToDeduct :: int
  rp_SubscriptionID :: int
  rp_deductionHeld :: bool

record CreateOrderRequest =
  cr_UserID :: int
  cr_Type :: string
  cr_Method :: string
  cr_Amount :: rat
  cr_Limit :: rat
  cr_Pay :: rat
  cr_Bonus :: rat
  cr_Provider :: "string option"
  cr_Snapshot :: "provider_snapshot option"
  cr_Group :: "int option"
  cr_Days :: "int option"

text \<open>Answers of providers, and the input of a step.\<close>

record order_answer =
  oa_Paid :: bool
  oa_Amount :: gofloat
  oa_TradeNo :: string
  oa_Metadata :: "(string \<times> string) list"

record refund_answer =
  ra_Err :: bool
  ra_Status :: "string option"
  ra_RefundID :: string

record pay_instance =
  in_ProviderKey :: string
  in_RefundEnabled :: bool
  in_AllowUserRefund :: bool

record pay_input =
  pi_now :: gotime
  pi_fault :: db_fault
  pi_audit :: bool
  pi_read :: bool
  pi_instance :: "pay_instance option option"
  pi_provider :: "string option"
  pi_identity :: "(string \<times> string) list"
  pi_query :: "order_answer option"
  pi_requery :: "order_answer option"
  pi_refund :: refund_answer
  pi_ok :: bool
  pi_flag :: bool
  pi_amount :: "rat option"
  pi_id :: int
  pi_text :: string


section \<open>Tasks\<close>

type_synonym snap = "int \<times> pay_order"

datatype (plugins only: code) task =
    TDone "pay_err + pay_answer"
  | TNotify PaymentNotification string
  | TConfirm int string gofloat string "(string \<times> string) list"
  | TToPaid snap string rat string
  | TAlready int
  | TFulfil int
  | TReject snap
  | TBalance int
  | TSub int
  | TLease snap
  | TLeaseLost snap
  | TLeaseRead snap
  | TBalanceCode snap gotime
  | TCreateCode snap gotime
  | TRedeem snap gotime
  | TRedeemTx snap gotime redeem_code
  | TAssign snap gotime
  | TRebate snap gotime
  | TComplete snap gotime
  | TCompleteLost snap gotime
  | TFail int gotime pay_err
  | TRetry int
  | TPublicRedeem int string
  | TPublicTx int string redeem_code
  | TAdminCode string redeem_code
  | TCancel int "int option"
  | TCancelCore snap order_status
  | TCheckPaid snap "order_status option"
  | TPersistTrade snap string string PaymentNotification
  | TCancelUpdate snap order_status
  | TVerify string int
  | TCreate CreateOrderRequest
  | TInsert CreateOrderRequest
  | TInvoke int
  | TCreateFailed int pay_err
  | TRequestRefund int int string
  | TRequestBalance snap string
  | TRequestUpdate snap string
  | TPrepare int gofloat string bool bool
  | TPrepDeduct RefundPlan
  | TLock RefundPlan
  | TDeduct RefundPlan
  | TDeductDays RefundPlan
  | TGateway RefundPlan
  | TMarkOk RefundPlan refund_answer
  | TMarkPending RefundPlan refund_answer
  | TRollback RefundPlan
  | TRestore RefundPlan "pay_err + pay_answer"
  | TRefundFailed RefundPlan
  | TFinalize int
  | TFinalDetail snap
  | TFinalQuery snap refundPendingAuditDetail
  | TFinalOk RefundPlan
  | TFinalFail RefundPlan
  | TFinalMark RefundPlan

section \<open>Statements\<close>

definition get_order :: "int \<Rightarrow> pay_db \<Rightarrow> pay_order option" where
  "get_order oid db = map_of (pd_orders db) oid"

text \<open>
  \<open>Update().Where(IDEQ(oid), guard)\<close>, telling whether a row was hit, and \<open>UpdateOneID\<close>. Every update writes \<open>updated_at\<close>,
  which the schema sets to the current time unless the statement sets it itself.
\<close>

definition update_order :: "gotime \<Rightarrow> int \<Rightarrow> (pay_order \<Rightarrow> bool) \<Rightarrow> (pay_order \<Rightarrow> pay_order) \<Rightarrow> pay_db \<Rightarrow> (pay_db, pay_err, bool) tx" where
  "update_order now oid guard change db =
     (case get_order oid db of
        None \<Rightarrow> Rollback (Inr False)
      | Some od \<Rightarrow>
          if guard od then Commit (db\<lparr>pd_orders := tput oid ((change od)\<lparr>po_updated := now\<rparr>) (pd_orders db)\<rparr>) (Inr True)
          else Rollback (Inr False))"

definition set_order :: "gotime \<Rightarrow> int \<Rightarrow> (pay_order \<Rightarrow> pay_order) \<Rightarrow> pay_db \<Rightarrow> (pay_db, pay_err, bool) tx" where
  "set_order now oid change db =
     (case update_order now oid (\<lambda>_. True) change db of Rollback _ \<Rightarrow> Rollback (Inl PDb) | c \<Rightarrow> c)"

definition run_stmt :: "pay_input \<Rightarrow> (pay_db \<Rightarrow> (pay_db, pay_err, 'a) tx) \<Rightarrow> pay_db \<Rightarrow> (pay_err + 'a) \<times> pay_db" where
  "run_stmt i body db = run_tx (pi_fault i) PDb body db"

text \<open>\<open>writeAuditLog\<close> is best effort: a duplicate or a failing insert is logged and forgotten.\<close>

definition writeAuditLog :: "pay_input \<Rightarrow> int \<Rightarrow> string \<Rightarrow> pay_db \<Rightarrow> pay_db" where
  "writeAuditLog i oid act db = (if pi_audit i then db\<lparr>pd_audit := tnew (oid, act) ADetail (pd_audit db)\<rparr> else db)"

definition hasAuditLog :: "pay_input \<Rightarrow> int \<Rightarrow> string \<Rightarrow> pay_db \<Rightarrow> bool" where
  "hasAuditLog i oid act db \<longleftrightarrow> pi_read i \<and> map_of (pd_audit db) (oid, act) \<noteq> None"

definition record_move :: "pay_move \<Rightarrow> pay_db \<Rightarrow> pay_db" where
  "record_move m db = db\<lparr>pd_moves := pd_moves db @ [m]\<rparr>"

definition live_payer :: "int \<Rightarrow> pay_db \<Rightarrow> pay_user option" where
  "live_payer uid db = (case map_of (pd_users db) uid of Some u \<Rightarrow> if pu_deleted u then None else Some u | None \<Rightarrow> None)"

text \<open>\<open>UpdateBalance\<close>: \<open>total_recharged\<close> follows positive amounts. A deleted user is not found.\<close>

definition UpdateBalance :: "int \<Rightarrow> rat \<Rightarrow> pay_db \<Rightarrow> pay_db option" where
  "UpdateBalance uid amount db =
     (case live_payer uid db of
        None \<Rightarrow> None
      | Some u \<Rightarrow> Some (db\<lparr>pd_users := tput uid (u\<lparr>pu_balance := round8 (pu_balance u + amount),
            pu_recharged := (if amount > 0 then round8 (pu_recharged u + amount) else pu_recharged u)\<rparr>) (pd_users db)\<rparr>))"

definition ApplyRedeemBalanceAdjustment :: "int \<Rightarrow> rat \<Rightarrow> pay_db \<Rightarrow> pay_db option" where
  "ApplyRedeemBalanceAdjustment uid delta db =
     (case live_payer uid db of
        None \<Rightarrow> None
      | Some u \<Rightarrow> Some (db\<lparr>pd_users := tput uid (u\<lparr>pu_balance := round8 (max (pu_balance u + delta) 0)\<rparr>) (pd_users db)\<rparr>))"

definition DeductAvailableBalance :: "int \<Rightarrow> rat \<Rightarrow> pay_db \<Rightarrow> (rat \<times> pay_db) option" where
  "DeductAvailableBalance uid amount db =
     (if amount < 0 then None
      else case live_payer uid db of
        None \<Rightarrow> None
      | Some u \<Rightarrow>
          let b = round8 (pu_balance u - min amount (max (pu_balance u) 0)) in
          Some (pu_balance u - b, db\<lparr>pd_users := tput uid (u\<lparr>pu_balance := b\<rparr>) (pd_users db)\<rparr>))"

section \<open>Payment notifications\<close>

text \<open>\<open>HandlePaymentNotification\<close>: by the number we gave the provider, or by a legacy identifier when no order has that number.\<close>

definition find_out :: "string \<Rightarrow> pay_db \<Rightarrow> (int \<times> pay_order) option" where
  "find_out out db = List.find (\<lambda>(oid, od). po_out od = out) (pd_orders db)"

definition HandlePaymentNotification :: "pay_input \<Rightarrow> PaymentNotification \<Rightarrow> string \<Rightarrow> pay_db \<Rightarrow> task \<times> pay_db" where
  "HandlePaymentNotification i n pk db =
     (if \<not> pn_Success n then (TDone (Inr AOk), db)
      else if \<not> pi_read i then (TDone (Inl PDb), db)
      else case find_out (pn_OrderID n) db of
        Some (oid, od) \<Rightarrow> (TConfirm oid (pn_TradeNo n) (pn_Amount n) pk (pn_Metadata n), db)
      | None \<Rightarrow>
          (case parseLegacyPaymentOrderID (pn_OrderID n) of
             Some oid \<Rightarrow> (TConfirm oid (pn_TradeNo n) (pn_Amount n) pk (pn_Metadata n), db)
           | None \<Rightarrow> (TDone (Inl PErrOrderNotFound), db)))"

definition instance_key :: "pay_input \<Rightarrow> string" where
  "instance_key i = (case pi_instance i of Some (Some inst) \<Rightarrow> in_ProviderKey inst | _ \<Rightarrow> [])"

definition confirmPayment ::
  "pay_env \<Rightarrow> pay_input \<Rightarrow> int \<Rightarrow> string \<Rightarrow> gofloat \<Rightarrow> string \<Rightarrow> (string \<times> string) list \<Rightarrow> pay_db \<Rightarrow> task \<times> pay_db" where
  "confirmPayment env i oid tradeNo paid pk metadata db =
     (case (if pi_read i then get_order oid db else None) of
        None \<Rightarrow> (TDone (Inr AOk), db)
      | Some od \<Rightarrow>
          let expected = expectedNotificationProviderKeyForOrder env od (instance_key i) in
          if expected \<noteq> [] \<and> strings_TrimSpace pk \<noteq> [] \<and> \<not> pe_EqualFold env expected (strings_TrimSpace pk)
          then (TDone (Inl PProviderMismatch), writeAuditLog i oid ''PAYMENT_PROVIDER_MISMATCH'' db)
          else if \<not> validateProviderSnapshotMetadata env od pk metadata
          then (TDone (Inl PMetadataMismatch), writeAuditLog i oid ''PAYMENT_PROVIDER_METADATA_MISMATCH'' db)
          else case paid of
            Fin amount \<Rightarrow>
              if \<not> isValidProviderAmount paid then (TDone (Inl PInvalidAmount), writeAuditLog i oid ''PAYMENT_INVALID_AMOUNT'' db)
              else if \<bar>amount - po_pay od\<bar> > paymentAmountToleranceForCurrency (PaymentOrderCurrency od)
              then (TDone (Inl PAmountMismatch), writeAuditLog i oid ''PAYMENT_AMOUNT_MISMATCH'' db)
              else (TToPaid (oid, od) tradeNo amount pk, record_move (MConfirmed oid amount) db)
          | _ \<Rightarrow> (TDone (Inl PInvalidAmount), writeAuditLog i oid ''PAYMENT_INVALID_AMOUNT'' db))"

definition paymentGrace :: duration where "paymentGrace = 5 * Minute"

text \<open>An amount column keeps two places.\<close>

definition column2 :: "rat \<Rightarrow> rat" where "column2 x = dec_round 2 x"

definition payable :: "gotime \<Rightarrow> pay_order \<Rightarrow> bool" where
  "payable now od \<longleftrightarrow> po_status od \<in> {OPending, OCancelled} \<or>
     po_status od = OExpired \<and> \<not> Before (po_updated od) (Add now (- paymentGrace))"

definition mark_paid :: "gotime \<Rightarrow> string \<Rightarrow> rat \<Rightarrow> pay_order \<Rightarrow> pay_order" where
  "mark_paid now tradeNo paid od = od\<lparr>po_status := OPaid, po_pay := column2 paid, po_trade := tradeNo, po_paid_at := Some now,
     po_failed := (None, None)\<rparr>"

definition toPaid :: "pay_input \<Rightarrow> snap \<Rightarrow> string \<Rightarrow> rat \<Rightarrow> string \<Rightarrow> pay_db \<Rightarrow> task \<times> pay_db" where
  "toPaid i sn tradeNo paid pk db =
     (let (oid, od) = sn in
      case run_stmt i (update_order (pi_now i) oid (payable (pi_now i)) (mark_paid (pi_now i) tradeNo paid)) db of
        (Inl e, db1) \<Rightarrow> (TDone (Inl e), db1)
      | (Inr hit, db1) \<Rightarrow>
          if \<not> hit then (TAlready oid, db1)
          else (TFulfil oid, writeAuditLog i oid ''ORDER_PAID''
                  (if po_status od \<in> {OCancelled, OExpired} then writeAuditLog i oid ''ORDER_RECOVERED'' db1 else db1)))"

definition alreadyProcessed :: "pay_input \<Rightarrow> int \<Rightarrow> pay_db \<Rightarrow> task \<times> pay_db" where
  "alreadyProcessed i oid db =
     (case (if pi_read i then get_order oid db else None) of
        None \<Rightarrow> (TDone (Inr AOk), db)
      | Some cur \<Rightarrow>
          if po_status cur \<in> {OFailed, OPaid, ORecharging} then (TFulfil oid, db)
          else if po_status cur = OExpired then (TDone (Inr AOk), writeAuditLog i oid ''PAYMENT_AFTER_EXPIRY'' db)
          else (TDone (Inr AOk), db))"

section \<open>Fulfilment\<close>

definition executeFulfillment :: "pay_input \<Rightarrow> int \<Rightarrow> pay_db \<Rightarrow> task \<times> pay_db" where
  "executeFulfillment i oid db =
     (case (if pi_read i then get_order oid db else None) of
        None \<Rightarrow> (TDone (Inl PDb), db)
      | Some od \<Rightarrow>
          if po_type od = OrderTypeSubscription then (TSub oid, db)
          else if po_type od = OrderTypeBalance then (TBalance oid, db)
          else (TReject (oid, od), db))"

definition rejectUnsupportedOrderType :: "pay_input \<Rightarrow> snap \<Rightarrow> pay_db \<Rightarrow> task \<times> pay_db" where
  "rejectUnsupportedOrderType i sn db =
     (case run_stmt i (update_order (pi_now i) (fst sn) (\<lambda>od. po_status od \<in> {OPaid, ORecharging})
         (\<lambda>od. od\<lparr>po_status := OFailed, po_failed := (Some (pi_now i), Some ''unsupported order type'')\<rparr>)) db of
        (Inr True, db1) \<Rightarrow> (TDone (Inr AOk), writeAuditLog i (fst sn) ''FULFILLMENT_FAILED'' db1)
      | (_, db1) \<Rightarrow> (TDone (Inr AOk), db1))"

text \<open>The checks both kinds of fulfilment start with; \<open>None\<close> lets them go on.\<close>

definition fulfil_gate :: "pay_order \<Rightarrow> (pay_err + pay_answer) option" where
  "fulfil_gate od =
     (if po_status od = OCompleted then Some (Inr AOk)
      else if psIsRefundStatus (po_status od) then Some (Inl PInvalidStatus)
      else if po_status od \<notin> {OPaid, OFailed, ORecharging} then Some (Inl PInvalidStatus)
      else None)"

definition ExecuteBalanceFulfillment :: "pay_input \<Rightarrow> int \<Rightarrow> pay_db \<Rightarrow> task \<times> pay_db" where
  "ExecuteBalanceFulfillment i oid db =
     (case (if pi_read i then get_order oid db else None) of
        None \<Rightarrow> (TDone (Inl PNotFound), db)
      | Some od \<Rightarrow>
          if po_type od \<noteq> OrderTypeBalance then (TDone (Inl PInvalidOrderType), db)
          else case fulfil_gate od of Some r \<Rightarrow> (TDone r, db) | None \<Rightarrow> (TLease (oid, od), db))"

definition ExecuteSubscriptionFulfillment :: "pay_input \<Rightarrow> int \<Rightarrow> pay_db \<Rightarrow> task \<times> pay_db" where
  "ExecuteSubscriptionFulfillment i oid db =
     (case (if pi_read i then get_order oid db else None) of
        None \<Rightarrow> (TDone (Inl PNotFound), db)
      | Some od \<Rightarrow>
          (case fulfil_gate od of
             Some r \<Rightarrow> (TDone r, db)
           | None \<Rightarrow>
               if po_group od = None \<or> po_days od = None then (TDone (Inl PMissingSubscription), db)
               else (TLease (oid, od), db)))"

definition paymentFulfillmentLeaseDuration :: duration where "paymentFulfillmentLeaseDuration = 5 * Minute"

definition lease_free :: "gotime \<Rightarrow> pay_order \<Rightarrow> bool" where
  "lease_free now od \<longleftrightarrow> po_status od \<in> {OPaid, OFailed} \<or>
     po_status od = ORecharging \<and> \<not> After (po_updated od) (Add now (- paymentFulfillmentLeaseDuration))"

text \<open>
  \<open>acquirePaymentFulfillmentLease\<close>: the claim (\<open>TLease\<close>), and the reload of the row it was written to (\<open>TLeaseRead\<close>) or
  lost (\<open>TLeaseLost\<close>). The lease is the row's \<open>updated_at\<close> as it is read back.
\<close>

definition acquirePaymentFulfillmentLease :: "pay_input \<Rightarrow> snap \<Rightarrow> pay_db \<Rightarrow> task \<times> pay_db" where
  "acquirePaymentFulfillmentLease i sn db =
     (let now = Truncate (pi_now i) Microsecond in
      case run_stmt i (update_order now (fst sn) (lease_free now) (\<lambda>od. od\<lparr>po_status := ORecharging, po_failed := (None, None)\<rparr>)) db of
        (Inl e, db1) \<Rightarrow> (TDone (Inl e), db1)
      | (Inr hit, db1) \<Rightarrow> (if hit then TLeaseRead sn else TLeaseLost sn, db1))"

definition lease_lost :: "pay_input \<Rightarrow> snap \<Rightarrow> pay_db \<Rightarrow> task \<times> pay_db" where
  "lease_lost i sn db =
     (case (if pi_read i then get_order (fst sn) db else None) of
        None \<Rightarrow> (TDone (Inl PDb), db)
      | Some cur \<Rightarrow>
          if po_status cur = OCompleted then (TDone (Inr AOk), db)
          else if po_status cur = ORecharging then (TDone (Inl PBeingProcessed), db)
          else (TDone (Inl PConflict), db))"

definition lease_read :: "pay_input \<Rightarrow> snap \<Rightarrow> pay_db \<Rightarrow> task \<times> pay_db" where
  "lease_read i sn db =
     (case (if pi_read i then get_order (fst sn) db else None) of
        None \<Rightarrow> (TDone (Inl PDb), db)
      | Some claimed \<Rightarrow>
          if po_status claimed \<noteq> ORecharging then (TDone (Inl PLeaseLost), db)
          else if po_type (snd sn) = OrderTypeBalance then (TBalanceCode sn (po_updated claimed), db)
          else (TAssign sn (po_updated claimed), db))"

text \<open>\<open>doBalance\<close> up to the redemption: look the code up, and create it when it is missing.\<close>

definition doBalance :: "pay_input \<Rightarrow> snap \<Rightarrow> gotime \<Rightarrow> pay_db \<Rightarrow> task \<times> pay_db" where
  "doBalance i sn version db =
     (if \<not> pi_read i then (TFail (fst sn) version PRedeemLookup, db)
      else let existing = map_of (pd_codes db) (po_code (snd sn)) in
        if (case existing of None \<Rightarrow> False | Some c \<Rightarrow> \<not> validatePaymentRedeemCode (snd sn) c)
        then (TFail (fst sn) version PRedeemMismatch, db)
        else case resolveRedeemAction existing of
          RedeemSkipCompleted \<Rightarrow> (TRebate sn version, db)
        | RedeemCreate \<Rightarrow> (TCreateCode sn version, db)
        | RedeemRedeem \<Rightarrow> (TRedeem sn version, db))"

definition insert_code :: "string \<Rightarrow> redeem_code \<Rightarrow> pay_db \<Rightarrow> (pay_db, pay_err, unit) tx" where
  "insert_code code row db =
     (if map_of (pd_codes db) code \<noteq> None then Rollback (Inl PCodeExists)
      else Commit (db\<lparr>pd_codes := tput code row (pd_codes db)\<rparr>) (Inr ()))"

text \<open>\<open>RedeemService.CreateCode\<close>: codes are trimmed, not empty, of a value other than zero, and unique.\<close>

definition CreateCode :: "pay_input \<Rightarrow> string \<Rightarrow> redeem_code \<Rightarrow> pay_db \<Rightarrow> (pay_err + unit) \<times> pay_db" where
  "CreateCode i raw rc db =
     (let code = strings_TrimSpace raw; rc1 = (if rc_type rc = [] then rc\<lparr>rc_type := RedeemTypeBalance\<rparr> else rc) in
      if code = [] then (Inl PCodeNotFound, db)
      else if rc_type rc1 \<noteq> ''invitation'' \<and> rc_value rc1 = 0 then (Inl PValueZero, db)
      else if IsExpiredAt rc1 (pi_now i) then (Inl PCodeExpired, db)
      else run_stmt i (insert_code code (rc1\<lparr>rc_id := pi_id i, rc_value := round8 (rc_value rc1)\<rparr>)) db)"

definition order_code :: "pay_order \<Rightarrow> redeem_code" where
  "order_code od = \<lparr>rc_id = 0, rc_type = RedeemTypeBalance, rc_value = po_amount od, rc_status = CUnused, rc_used_by = None, rc_expires = None\<rparr>"

definition create_order_code :: "pay_input \<Rightarrow> snap \<Rightarrow> gotime \<Rightarrow> pay_db \<Rightarrow> task \<times> pay_db" where
  "create_order_code i sn version db =
     (case CreateCode i (po_code (snd sn)) (order_code (snd sn)) db of
        (Inl e, db1) \<Rightarrow> (TFail (fst sn) version e, db1)
      | (Inr _, db1) \<Rightarrow> (TRedeem sn version, db1))"

section \<open>Redemption\<close>

text \<open>
  \<open>RedeemService.redeem\<close>: the distributed lock (\<open>pi_flag\<close> tells whether it was got, or whether Redis was unavailable), the
  checks, and the transaction that marks the code used and pays it out. The value paid is the one read with the checks. Codes of
  other types than a balance are marked used with the outcome \<open>pi_ok\<close> of their own service.
\<close>

definition redeem_check :: "pay_input \<Rightarrow> int \<Rightarrow> string \<Rightarrow> pay_db \<Rightarrow> pay_err + redeem_code" where
  "redeem_check i uid code db =
     (if \<not> pi_flag i then Inl PCodeLocked
      else if \<not> pi_read i then Inl PDb
      else case map_of (pd_codes db) code of
        None \<Rightarrow> Inl PCodeNotFound
      | Some rc \<Rightarrow>
          if IsExpiredAt rc (pi_now i) then Inl PCodeExpired
          else if \<not> CanUse rc (pi_now i) then Inl PCodeUsed
          else if rc_type rc \<notin> {RedeemTypeBalance, ''concurrency'', ''subscription''} then Inl PCodeType
          else if live_payer uid db = None then Inl PUser
          else Inr rc)"

definition Use :: "string \<Rightarrow> int \<Rightarrow> int \<Rightarrow> pay_db \<Rightarrow> pay_db option" where
  "Use code rid uid db =
     (case map_of (pd_codes db) code of
        Some c \<Rightarrow> if rc_id c = rid \<and> rc_status c = CUnused
                  then Some (db\<lparr>pd_codes := tput code (c\<lparr>rc_status := CUsed, rc_used_by := Some uid\<rparr>) (pd_codes db)\<rparr>) else None
      | None \<Rightarrow> None)"

definition redeem_tx :: "pay_env \<Rightarrow> pay_input \<Rightarrow> bool \<Rightarrow> int \<Rightarrow> string \<Rightarrow> redeem_code \<Rightarrow> pay_db \<Rightarrow> (pay_db, pay_err, unit) tx" where
  "redeem_tx env i skipLottery uid code rc db =
     (case Use code (rc_id rc) uid db of
        None \<Rightarrow> Rollback (Inl PCodeUsed)
      | Some db1 \<Rightarrow>
          if rc_type rc \<noteq> RedeemTypeBalance then (if pi_ok i then Commit db1 (Inr ()) else Rollback (Inl PDb))
          else case (if rc_value rc < 0 then ApplyRedeemBalanceAdjustment uid (rc_value rc) db1 else UpdateBalance uid (rc_value rc) db1) of
            None \<Rightarrow> Rollback (Inl PUser)
          | Some db2 \<Rightarrow>
              if rc_value rc > 0 \<and> pe_lottery env \<and> \<not> skipLottery \<and> \<not> pi_ok i then Rollback (Inl PLottery)
              else Commit (record_move (MCredited code uid (rc_value rc)) db2) (Inr ()))"

definition redeem_for_payment :: "pay_input \<Rightarrow> snap \<Rightarrow> gotime \<Rightarrow> pay_db \<Rightarrow> task \<times> pay_db" where
  "redeem_for_payment i sn version db =
     (case redeem_check i (po_user (snd sn)) (po_code (snd sn)) db of
        Inl e \<Rightarrow> (TFail (fst sn) version e, db)
      | Inr rc \<Rightarrow> (TRedeemTx sn version rc, db))"

definition redeem_payment_tx :: "pay_env \<Rightarrow> pay_input \<Rightarrow> snap \<Rightarrow> gotime \<Rightarrow> redeem_code \<Rightarrow> pay_db \<Rightarrow> task \<times> pay_db" where
  "redeem_payment_tx env i sn version rc db =
     (case run_stmt i (redeem_tx env i True (po_user (snd sn)) (po_code (snd sn)) rc) db of
        (Inl e, db1) \<Rightarrow> (TFail (fst sn) version e, db1)
      | (Inr _, db1) \<Rightarrow> (TRebate sn version, db1))"

definition public_redeem :: "pay_input \<Rightarrow> int \<Rightarrow> string \<Rightarrow> pay_db \<Rightarrow> task \<times> pay_db" where
  "public_redeem i uid code db =
     (case redeem_check i uid code db of Inl e \<Rightarrow> (TDone (Inl e), db) | Inr rc \<Rightarrow> (TPublicTx uid code rc, db))"

text \<open>
  After the commit the code drops caches, offers the amount to the affiliate service as a rebate
  (\<open>tryAccrueAffiliateRebateForRedeem\<close>, whose failure is only logged), and reads the code again to return it. The model
  ends with the commit.
\<close>

definition public_redeem_tx :: "pay_env \<Rightarrow> pay_input \<Rightarrow> int \<Rightarrow> string \<Rightarrow> redeem_code \<Rightarrow> pay_db \<Rightarrow> task \<times> pay_db" where
  "public_redeem_tx env i uid code rc db =
     (case run_stmt i (redeem_tx env i False uid code rc) db of
        (Inl e, db1) \<Rightarrow> (TDone (Inl e), db1) | (Inr _, db1) \<Rightarrow> (TDone (Inr AOk), db1))"

text \<open>A code an administrator creates, unused or not.\<close>

definition admin_code :: "pay_input \<Rightarrow> string \<Rightarrow> redeem_code \<Rightarrow> pay_db \<Rightarrow> task \<times> pay_db" where
  "admin_code i code rc db =
     (case CreateCode i code rc db of
        (Inl e, db1) \<Rightarrow> (TDone (Inl e), record_move (MAdminCode (strings_TrimSpace code)) db1)
      | (Inr _, db1) \<Rightarrow> (TDone (Inr AOk), record_move (MAdminCode (strings_TrimSpace code)) db1))"

section \<open>Subscription, rebate, completion\<close>

text \<open>
  \<open>ensurePaymentSubscriptionAssigned\<close>: \<open>pi_read\<close> tells whether the group is there and active, \<open>pi_flag\<close> whether the
  subscription's notes already name the order, \<open>pi_ok\<close> whether the subscription service assigns.
\<close>

definition hasPaymentSubscriptionAssignmentAudit :: "int \<Rightarrow> pay_db \<Rightarrow> bool" where
  "hasPaymentSubscriptionAssignmentAudit oid db \<longleftrightarrow>
     map_of (pd_audit db) (oid, ''SUBSCRIPTION_ASSIGNED'') \<noteq> None \<or> map_of (pd_audit db) (oid, ''SUBSCRIPTION_SUCCESS'') \<noteq> None"

definition assign_tx :: "pay_input \<Rightarrow> int \<Rightarrow> pay_db \<Rightarrow> (pay_db, pay_err, unit) tx" where
  "assign_tx i oid db =
     (if hasPaymentSubscriptionAssignmentAudit oid db then Commit db (Inr ())
      else let audited = db\<lparr>pd_audit := tput (oid, ''SUBSCRIPTION_ASSIGNED'') ADetail (pd_audit db)\<rparr> in
        if pi_flag i then Commit audited (Inr ())
        else if \<not> pi_ok i then Rollback (Inl PSubscription)
        else Commit (record_move (MAssigned oid) audited) (Inr ()))"

definition ensurePaymentSubscriptionAssigned :: "pay_input \<Rightarrow> snap \<Rightarrow> gotime \<Rightarrow> pay_db \<Rightarrow> task \<times> pay_db" where
  "ensurePaymentSubscriptionAssigned i sn version db =
     (if \<not> pi_read i then (TFail (fst sn) version PSubscription, db)
      else case run_stmt i (assign_tx i (fst sn)) db of
        (Inl e, db1) \<Rightarrow> (TFail (fst sn) version e, db1)
      | (Inr _, db1) \<Rightarrow> (TRebate sn version, db1))"

definition rebate_claimed :: "int \<Rightarrow> pay_db \<Rightarrow> bool" where
  "rebate_claimed oid db \<longleftrightarrow> map_of (pd_audit db) (oid, ''AFFILIATE_REBATE_APPLIED'') \<noteq> None \<or>
     map_of (pd_audit db) (oid, ''AFFILIATE_REBATE_SKIPPED'') \<noteq> None"

text \<open>The claim, the accrual (\<open>pi_amount\<close>) and the final action name are one transaction; an existing claim ends it at once.\<close>

definition rebate_tx :: "pay_input \<Rightarrow> int \<Rightarrow> pay_db \<Rightarrow> (pay_db, pay_err, unit) tx" where
  "rebate_tx i oid db =
     (if rebate_claimed oid db then Rollback (Inr ())
      else case pi_amount i of
        None \<Rightarrow> Rollback (Inl PRebate)
      | Some amount \<Rightarrow>
          if amount \<le> 0 then Commit (db\<lparr>pd_audit := tput (oid, ''AFFILIATE_REBATE_SKIPPED'') ADetail (pd_audit db)\<rparr>) (Inr ())
          else Commit (record_move (MRebate oid amount)
                 (db\<lparr>pd_audit := tput (oid, ''AFFILIATE_REBATE_APPLIED'') ADetail (pd_audit db)\<rparr>)) (Inr ()))"

definition applyAffiliateRebateForOrder :: "pay_env \<Rightarrow> pay_input \<Rightarrow> snap \<Rightarrow> gotime \<Rightarrow> pay_db \<Rightarrow> task \<times> pay_db" where
  "applyAffiliateRebateForOrder env i sn version db =
     (if affiliateRebateBaseAmount (snd sn) \<le> 0 \<or> \<not> pe_affiliate env then (TComplete sn version, db)
      else case run_stmt i (rebate_tx i (fst sn)) db of
        (Inl e, db1) \<Rightarrow> (TFail (fst sn) version PRebate, writeAuditLog i (fst sn) ''AFFILIATE_REBATE_FAILED'' db1)
      | (Inr _, db1) \<Rightarrow> (TComplete sn version, db1))"

definition leased :: "gotime \<Rightarrow> pay_order \<Rightarrow> bool" where
  "leased version od \<longleftrightarrow> po_status od = ORecharging \<and> po_updated od = version"

definition success_action :: "pay_order \<Rightarrow> string" where
  "success_action od = (if po_type od = OrderTypeBalance then ''RECHARGE_SUCCESS'' else ''SUBSCRIPTION_SUCCESS'')"

definition markCompleted :: "pay_env \<Rightarrow> pay_input \<Rightarrow> snap \<Rightarrow> gotime \<Rightarrow> pay_db \<Rightarrow> task \<times> pay_db" where
  "markCompleted env i sn version db =
     (let (oid, od) = sn in
      case run_stmt i (\<lambda>db.
          case update_order (pi_now i) oid (leased version) (\<lambda>o'. o'\<lparr>po_status := OCompleted, po_completed_at := Some (pi_now i)\<rparr>) db of
            Rollback r \<Rightarrow> Rollback r
          | Commit db' r \<Rightarrow>
              if pe_lottery env \<and> po_type od = OrderTypeBalance \<and> \<not> pi_ok i then Rollback (Inl PLottery) else Commit db' r) db of
        (Inl e, db1) \<Rightarrow> (TFail oid version e, db1)
      | (Inr hit, db1) \<Rightarrow>
          if \<not> hit then (TCompleteLost sn version, db1)
          else (TDone (Inr AOk), if hasAuditLog i oid (success_action od) db1 then db1 else writeAuditLog i oid (success_action od) db1))"

definition completion_lost :: "pay_input \<Rightarrow> snap \<Rightarrow> gotime \<Rightarrow> pay_db \<Rightarrow> task \<times> pay_db" where
  "completion_lost i sn version db =
     (case (if pi_read i then get_order (fst sn) db else None) of
        Some cur \<Rightarrow> if po_status cur = OCompleted then (TDone (Inr AOk), db) else (TFail (fst sn) version PLeaseLost, db)
      | None \<Rightarrow> (TFail (fst sn) version PLeaseLost, db))"

definition markFailed :: "pay_input \<Rightarrow> int \<Rightarrow> gotime \<Rightarrow> pay_err \<Rightarrow> pay_db \<Rightarrow> task \<times> pay_db" where
  "markFailed i oid version cause db =
     (case run_stmt i (update_order (pi_now i) oid (leased version)
         (\<lambda>od. od\<lparr>po_status := OFailed, po_failed := (Some (pi_now i), Some ''fulfillment failed'')\<rparr>)) db of
        (Inr True, db1) \<Rightarrow> (TDone (Inl cause), writeAuditLog i oid ''FULFILLMENT_FAILED'' db1)
      | (_, db1) \<Rightarrow> (TDone (Inl cause), db1))"

definition RetryFulfillment :: "pay_input \<Rightarrow> int \<Rightarrow> pay_db \<Rightarrow> task \<times> pay_db" where
  "RetryFulfillment i oid db =
     (case (if pi_read i then get_order oid db else None) of
        None \<Rightarrow> (TDone (Inl PNotFound), db)
      | Some od \<Rightarrow>
          if po_paid_at od = None then (TDone (Inl PInvalidStatus), db)
          else if psIsRefundStatus (po_status od) \<or> po_status od = OCompleted then (TDone (Inl PInvalidStatus), db)
          else if po_status od \<notin> {OFailed, OPaid, ORecharging} then (TDone (Inl PInvalidStatus), db)
          else if \<not> isSupportedPaymentOrderType (po_type od) then (TDone (Inl PInvalidOrderType), db)
          else (TFulfil oid, writeAuditLog i oid ''RECHARGE_RETRY'' db))"

section \<open>Cancelling, expiring, verifying\<close>

definition CancelOrder :: "pay_input \<Rightarrow> int \<Rightarrow> int option \<Rightarrow> pay_db \<Rightarrow> task \<times> pay_db" where
  "CancelOrder i oid user db =
     (case (if pi_read i then get_order oid db else None) of
        None \<Rightarrow> (TDone (Inl PNotFound), db)
      | Some od \<Rightarrow>
          if user \<noteq> None \<and> user \<noteq> Some (po_user od) then (TDone (Inl PForbidden), db)
          else if po_status od \<noteq> OPending then (TDone (Inl PInvalidStatus), db)
          else (TCancelCore (oid, od) OCancelled, db))"

definition cancelCore :: "snap \<Rightarrow> order_status \<Rightarrow> pay_db \<Rightarrow> task \<times> pay_db" where
  "cancelCore sn final db =
     (if po_trade (snd sn) \<noteq> [] \<or> po_method (snd sn) \<noteq> [] then (TCheckPaid sn (Some final), db) else (TCancelUpdate sn final, db))"

definition cancel_update :: "pay_input \<Rightarrow> snap \<Rightarrow> order_status \<Rightarrow> pay_db \<Rightarrow> task \<times> pay_db" where
  "cancel_update i sn final db =
     (case run_stmt i (update_order (pi_now i) (fst sn) (\<lambda>od. po_status od = OPending) (\<lambda>od. od\<lparr>po_status := final\<rparr>)) db of
        (Inl e, db1) \<Rightarrow> (TDone (Inl e), db1)
      | (Inr hit, db1) \<Rightarrow> (TDone (Inr ACancelled),
          if hit then writeAuditLog i (fst sn) (if final = OExpired then ''ORDER_EXPIRED'' else ''ORDER_CANCELLED'') db1 else db1))"

text \<open>The answer of the provider that counts as paid: the first with a valid amount, of the query and one more try.\<close>

definition paid_answer :: "pay_input \<Rightarrow> order_answer \<Rightarrow> order_answer option" where
  "paid_answer i a =
     (if isValidProviderAmount (oa_Amount a) then Some a
      else case pi_requery i of
        None \<Rightarrow> None
      | Some b \<Rightarrow> if oa_Paid b \<and> isValidProviderAmount (oa_Amount b) then Some b else None)"

text \<open>
  \<open>checkPaidWithOptions\<close>: an order the provider calls paid is confirmed as if its notification had come; otherwise the caller
  goes on with the cancellation (\<open>Some final\<close>) or is done. An unpaid order that is being cancelled is also cancelled at the
  provider, best effort.
\<close>

definition checkPaidWithOptions :: "pay_env \<Rightarrow> pay_input \<Rightarrow> snap \<Rightarrow> order_status option \<Rightarrow> pay_db \<Rightarrow> task \<times> pay_db" where
  "checkPaidWithOptions env i sn cont db =
     (let unpaid = (case cont of None \<Rightarrow> TDone (Inr AOk) | Some final \<Rightarrow> TCancelUpdate sn final);
          (oid, od) = sn in
      case pi_provider i of
        None \<Rightarrow> (unpaid, db)
      | Some pk \<Rightarrow>
          let queryRef = paymentOrderQueryReference od pk in
          if queryRef = [] then (unpaid, db)
          else case pi_query i of
            None \<Rightarrow> (unpaid, db)
          | Some a \<Rightarrow>
              if \<not> oa_Paid a then (unpaid, db)
              else
                let db1 = (if isValidProviderAmount (oa_Amount a) then db else writeAuditLog i oid ''PAYMENT_INVALID_AMOUNT'' db) in
                case paid_answer i a of
                  None \<Rightarrow> (unpaid, db1)
                | Some r \<Rightarrow>
                    let upstream = strings_TrimSpace (oa_TradeNo r);
                        persist = paymentOrderShouldPersistUpstreamTradeNo env queryRef upstream (po_trade od);
                        n = \<lparr>pn_TradeNo = (if persist then upstream else po_trade od), pn_OrderID = po_out od, pn_Amount = oa_Amount r,
                             pn_Success = True, pn_Metadata = oa_Metadata r\<rparr>
                    in (if persist then TPersistTrade sn upstream pk n else TNotify n pk, db1))"

definition persist_trade :: "pay_input \<Rightarrow> snap \<Rightarrow> string \<Rightarrow> string \<Rightarrow> PaymentNotification \<Rightarrow> pay_db \<Rightarrow> task \<times> pay_db" where
  "persist_trade i sn upstream pk n db =
     (TNotify n pk, snd (run_stmt i (update_order (pi_now i) (fst sn) (\<lambda>_. True) (\<lambda>od. od\<lparr>po_trade := upstream\<rparr>)) db))"

definition VerifyOrderByOutTradeNo :: "pay_input \<Rightarrow> string \<Rightarrow> int \<Rightarrow> pay_db \<Rightarrow> task \<times> pay_db" where
  "VerifyOrderByOutTradeNo i raw uid db =
     (case normalizeOrderLookupOutTradeNo raw of
        None \<Rightarrow> (TDone (Inl PNotFound), db)
      | Some out \<Rightarrow>
          (case (if pi_read i then find_out out db else None) of
             None \<Rightarrow> (TDone (Inl PNotFound), db)
           | Some (oid, od) \<Rightarrow>
               if po_user od \<noteq> uid then (TDone (Inl PForbidden), db)
               else if po_status od \<in> {OPending, OExpired} then (TCheckPaid (oid, od) None, db)
               else (TDone (Inr AOk), db)))"

text \<open>The orders the two sweeps start from, oldest first.\<close>

definition wallet_order :: "pay_order \<Rightarrow> bool" where
  "wallet_order od \<longleftrightarrow> (\<exists>t\<in>{TypeWxpay, TypeAlipay}.
     po_method od = t \<or> prefix (t @ ''_'') (po_method od) \<or> po_provider od = Some t \<or> prefix (t @ ''_'') (psStringValue (po_provider od)))"

definition pendingPaymentReconcileLimit :: nat where "pendingPaymentReconcileLimit = 20"

definition ReconcilePendingPaymentOrders :: "gotime \<Rightarrow> pay_db \<Rightarrow> task list" where
  "ReconcilePendingPaymentOrders now db = map (\<lambda>sn. TCheckPaid sn None) (take pendingPaymentReconcileLimit
     (filter (\<lambda>(oid, od). po_status od = OPending \<and> After (po_expires od) now \<and> wallet_order od) (pd_orders db)))"

definition ExpireTimedOutOrders :: "gotime \<Rightarrow> pay_db \<Rightarrow> task list" where
  "ExpireTimedOutOrders now db = map (\<lambda>sn. TCancelCore sn OExpired)
     (filter (\<lambda>(oid, od). po_status od = OPending \<and> \<not> After (po_expires od) now) (pd_orders db))"

section \<open>Creating orders\<close>

text \<open>
  \<open>createOrderInTx\<close>: the limits are counted with plain reads (\<open>TCreate\<close>), the row is inserted after them (\<open>TInsert\<close>), and the
  provider is called last (\<open>TInvoke\<close>). The amounts of the request are those \<open>CreateOrder\<close> computed.
\<close>

definition defaultMaxPendingOrders :: int where "defaultMaxPendingOrders = 3"
definition defaultOrderTimeoutMin :: int where "defaultOrderTimeoutMin = 30"

definition checkPendingLimit :: "pay_env \<Rightarrow> int \<Rightarrow> pay_db \<Rightarrow> bool" where
  "checkPendingLimit env uid db \<longleftrightarrow>
     int (length (filter (\<lambda>(_, od). po_user od = uid \<and> po_status od = OPending) (pd_orders db))) <
     (if pe_MaxPendingOrders env \<le> 0 then defaultMaxPendingOrders else pe_MaxPendingOrders env)"

definition paid_since :: "gotime \<Rightarrow> int \<Rightarrow> pay_order \<Rightarrow> bool" where
  "paid_since day uid od \<longleftrightarrow> po_user od = uid \<and> po_status od \<in> {OPaid, ORecharging, OCompleted} \<and>
     (case po_paid_at od of None \<Rightarrow> False | Some t \<Rightarrow> day \<le> t)"

definition checkDailyLimit :: "pay_env \<Rightarrow> gotime \<Rightarrow> int \<Rightarrow> rat \<Rightarrow> pay_db \<Rightarrow> bool" where
  "checkDailyLimit env now uid amount db \<longleftrightarrow> pe_DailyLimit env \<le> 0 \<or>
     (\<Sum>(_, od) \<leftarrow> filter (\<lambda>(_, od). paid_since (Truncate now (24 * Hour)) uid od) (pd_orders db).
        if po_type od = OrderTypeBalance then po_pay od else po_amount od) + amount \<le> pe_DailyLimit env"

definition create_check :: "pay_env \<Rightarrow> pay_input \<Rightarrow> CreateOrderRequest \<Rightarrow> pay_db \<Rightarrow> task \<times> pay_db" where
  "create_check env i req db =
     (if \<not> pi_read i then (TDone (Inl PDb), db)
      else if \<not> checkPendingLimit env (cr_UserID req) db then (TDone (Inl PTooManyPending), db)
      else if \<not> checkDailyLimit env (pi_now i) (cr_UserID req) (cr_Limit req) db then (TDone (Inl PDailyLimit), db)
      else (TInsert req, db))"

definition recharge_code :: "int \<Rightarrow> gotime \<Rightarrow> string" where
  "recharge_code oid now = ''PAY-'' @ FormatInt oid @ ''-'' @ FormatInt (now mod 100000)"

definition new_order :: "pay_env \<Rightarrow> pay_input \<Rightarrow> CreateOrderRequest \<Rightarrow> pay_order" where
  "new_order env i req = \<lparr>po_user = cr_UserID req, po_amount = column2 (cr_Amount req), po_pay = column2 (cr_Pay req),
     po_bonus = column2 (cr_Bonus req), po_code = recharge_code (pi_id i) (pi_now i), po_out = pi_text i, po_method = cr_Method req,
     po_trade = [], po_type = cr_Type req, po_group = cr_Group req, po_days = cr_Days req, po_provider = cr_Provider req,
     po_snapshot = cr_Snapshot req, po_status = OPending, po_refund = 0, po_reason = None, po_refund_at = None, po_force = False,
     po_requested = None,
     po_expires = Add (pi_now i) ((if pe_OrderTimeoutMin env \<le> 0 then defaultOrderTimeoutMin else pe_OrderTimeoutMin env) * Minute),
     po_paid_at = None, po_completed_at = None, po_failed = (None, None), po_updated = pi_now i\<rparr>"

text \<open>The database numbers the row (\<open>pi_id\<close>, a positive number not used before); \<open>pi_text\<close> is the last number tried for the provider.\<close>

definition insert_order :: "pay_env \<Rightarrow> pay_input \<Rightarrow> CreateOrderRequest \<Rightarrow> pay_db \<Rightarrow> task \<times> pay_db" where
  "insert_order env i req db =
     (case run_stmt i (\<lambda>db.
          if pi_text i = [] \<or> find_out (pi_text i) db \<noteq> None \<or> pi_id i \<le> 0 \<or> get_order (pi_id i) db \<noteq> None then Rollback (Inl PDb)
          else Commit (db\<lparr>pd_orders := tput (pi_id i) (new_order env i req) (pd_orders db)\<rparr>) (Inr ())) db of
        (Inl e, db1) \<Rightarrow> (TDone (Inl e), db1)
      | (Inr _, db1) \<Rightarrow> (TInvoke (pi_id i), db1))"

definition invokeProvider :: "pay_input \<Rightarrow> int \<Rightarrow> pay_db \<Rightarrow> task \<times> pay_db" where
  "invokeProvider i oid db =
     (if \<not> pi_ok i then (TCreateFailed oid PProvider, db)
      else case run_stmt i (set_order (pi_now i) oid (\<lambda>od. od\<lparr>po_trade := (if pi_text i = [] then po_trade od else pi_text i),
             po_provider := (case pi_provider i of None \<Rightarrow> po_provider od | Some k \<Rightarrow> Some k)\<rparr>)) db of
        (Inl e, db1) \<Rightarrow> (TCreateFailed oid e, db1)
      | (Inr _, db1) \<Rightarrow> (TDone (Inr (ACreated oid)), writeAuditLog i oid ''ORDER_CREATED'' db1))"

definition create_failed :: "pay_input \<Rightarrow> int \<Rightarrow> pay_err \<Rightarrow> pay_db \<Rightarrow> task \<times> pay_db" where
  "create_failed i oid e db = (TDone (Inl e), snd (run_stmt i (set_order (pi_now i) oid (\<lambda>od. od\<lparr>po_status := OFailed\<rparr>)) db))"

end
