(* ===== verification/PayRefund.thy ===== *)
theory PayRefund
  imports PayTask
begin

text \<open>
  Refunds: \<^verbatim>\<open>backend/internal/service/payment_refund.go\<close> and \<open>DeductAvailableBalance\<close> of the user repository. A refund
  claims its order (\<open>TLock\<close>), takes the credit back from the customer, calls the provider, and then marks the order refunded,
  leaves it pending with the deduction held, or returns the deduction; a pending refund is closed by \<open>QueryAndFinalizeRefund\<close>.
\<close>

section \<open>Requesting and preparing\<close>

definition RequestRefund :: "pay_input \<Rightarrow> int \<Rightarrow> int \<Rightarrow> string \<Rightarrow> pay_db \<Rightarrow> task \<times> pay_db" where
  "RequestRefund i oid uid reason db =
     (case (if pi_read i then get_order oid db else None) of
        None \<Rightarrow> (TDone (Inl PNotFound), db)
      | Some od \<Rightarrow>
          if po_user od \<noteq> uid then (TDone (Inl PForbidden), db)
          else if po_type od \<noteq> OrderTypeBalance then (TDone (Inl PInvalidOrderType), db)
          else if po_status od \<noteq> OCompleted then (TDone (Inl PInvalidStatus), db)
          else case pi_instance i of
            Some (Some inst) \<Rightarrow> if in_AllowUserRefund inst then (TRequestBalance (oid, od) reason, db) else (TDone (Inl PRefundDisabled), db)
          | _ \<Rightarrow> (TDone (Inl PRefundDisabled), db))"

definition request_balance :: "pay_input \<Rightarrow> snap \<Rightarrow> string \<Rightarrow> pay_db \<Rightarrow> task \<times> pay_db" where
  "request_balance i sn reason db =
     (case (if pi_read i then live_payer (po_user (snd sn)) db else None) of
        None \<Rightarrow> (TDone (Inl PUser), db)
      | Some u \<Rightarrow> if pu_balance u < po_amount (snd sn) then (TDone (Inl PBalanceNotEnough), db) else (TRequestUpdate sn reason, db))"

definition request_update :: "pay_input \<Rightarrow> snap \<Rightarrow> string \<Rightarrow> pay_db \<Rightarrow> task \<times> pay_db" where
  "request_update i sn reason db =
     (let (oid, od) = sn in
      case run_stmt i (update_order (pi_now i) oid
          (\<lambda>cur. po_user cur = po_user od \<and> po_status cur = OCompleted \<and> po_type cur = OrderTypeBalance)
          (\<lambda>cur. cur\<lparr>po_status := ORefundRequested, po_refund := column2 (po_amount od),
             po_requested := Some (pi_now i, strings_TrimSpace reason, FormatInt (po_user od))\<rparr>)) db of
        (Inl e, db1) \<Rightarrow> (TDone (Inl e), db1)
      | (Inr hit, db1) \<Rightarrow> if hit then (TDone (Inr AOk), writeAuditLog i oid ''REFUND_REQUESTED'' db1) else (TDone (Inl PConflict), db1))"

definition refundable :: "order_status \<Rightarrow> bool" where
  "refundable s \<longleftrightarrow> s \<in> {OCompleted, ORefundRequested, ORefundFailed}"

definition refund_reason :: "snap \<Rightarrow> string \<Rightarrow> string" where
  "refund_reason sn reason =
     (let rr = strings_TrimSpace reason;
          rr2 = (if rr = [] then (case po_requested (snd sn) of Some (_, r, _) \<Rightarrow> r | None \<Rightarrow> []) else rr)
      in if rr2 = [] then ''refund order:'' @ FormatInt (fst sn) else rr2)"

definition refund_plan :: "snap \<Rightarrow> rat \<Rightarrow> string \<Rightarrow> bool \<Rightarrow> RefundPlan" where
  "refund_plan sn amount reason force =
     \<lparr>rp_Order = sn, rp_RefundAmount = amount,
      rp_GatewayAmount = calculateGatewayRefundAmount (po_amount (snd sn)) (po_pay (snd sn)) amount (PaymentOrderCurrency (snd sn)),
      rp_Reason = reason, rp_Force = force, rp_DeductionType = DNone, rp_BalanceToDeduct = 0, rp_SubDaysToDeduct = 0,
      rp_SubscriptionID = 0, rp_deductionHeld = False\<rparr>"

definition PrepareRefund :: "pay_input \<Rightarrow> int \<Rightarrow> gofloat \<Rightarrow> string \<Rightarrow> bool \<Rightarrow> bool \<Rightarrow> pay_db \<Rightarrow> task \<times> pay_db" where
  "PrepareRefund i oid amt reason force deduct db =
     (case (if pi_read i then get_order oid db else None) of
        None \<Rightarrow> (TDone (Inl PNotFound), db)
      | Some od \<Rightarrow>
          if \<not> refundable (po_status od) then (TDone (Inl PInvalidStatus), db)
          else case pi_instance i of
            None \<Rightarrow> (TDone (Inl PProvider), db)
          | Some None \<Rightarrow> (TDone (Inl PRefundDisabled), db)
          | Some (Some inst) \<Rightarrow>
              if \<not> in_RefundEnabled inst then (TDone (Inl PRefundDisabled), db)
              else case amt of
                Fin x \<Rightarrow>
                  let amount = (if x \<le> 0 then po_amount od else x) in
                  if amount - po_amount od > paymentAmountToleranceForCurrency (PaymentOrderCurrency od)
                  then (TDone (Inl PRefundAmount), db)
                  else let plan = refund_plan (oid, od) amount (refund_reason (oid, od) reason) force in
                    (if deduct then TPrepDeduct plan else TLock plan, db)
              | _ \<Rightarrow> (TDone (Inl PInvalidAmount), db))"

text \<open>\<open>prepDeduct\<close>; \<open>pi_id\<close> is the active subscription, when there is one. The flag says the order is a subscription with its days.\<close>

definition plan_days :: "pay_input \<Rightarrow> RefundPlan \<Rightarrow> RefundPlan" where
  "plan_days i p =
     (let od = snd (rp_Order p) in
      if po_group od \<noteq> None \<and> po_days od \<noteq> None
      then p\<lparr>rp_DeductionType := DSubscription, rp_SubDaysToDeduct := the (po_days od), rp_SubscriptionID := (if pi_flag i then pi_id i else rp_SubscriptionID p)\<rparr>
      else p\<lparr>rp_DeductionType := DSubscription\<rparr>)"

definition prepDeduct :: "pay_input \<Rightarrow> RefundPlan \<Rightarrow> pay_db \<Rightarrow> task \<times> pay_db" where
  "prepDeduct i p db =
     (let od = snd (rp_Order p) in
      if po_type od = OrderTypeSubscription then
        (if po_group od \<noteq> None \<and> po_days od \<noteq> None \<and> \<not> pi_flag i \<and> \<not> rp_Force p then (TDone (Inr ARequireForce), db)
         else (TLock (plan_days i p), db))
      else case (if pi_read i then live_payer (po_user od) db else None) of
        None \<Rightarrow> (if rp_Force p then TLock p else TDone (Inr ARequireForce), db)
      | Some u \<Rightarrow>
          if pu_balance u < rp_RefundAmount p \<and> \<not> rp_Force p then (TDone (Inr ARequireForce), db)
          else (TLock (p\<lparr>rp_DeductionType := DBalance, rp_BalanceToDeduct := max 0 (min (rp_RefundAmount p) (pu_balance u))\<rparr>), db))"

section \<open>Executing\<close>

definition deducts_balance :: "RefundPlan \<Rightarrow> bool" where
  "deducts_balance p \<longleftrightarrow> rp_DeductionType p = DBalance \<and> rp_BalanceToDeduct p > 0"

definition deducts_days :: "RefundPlan \<Rightarrow> bool" where
  "deducts_days p \<longleftrightarrow> rp_DeductionType p = DSubscription \<and> rp_SubDaysToDeduct p > 0 \<and> rp_SubscriptionID p > 0"

definition plan_oid :: "RefundPlan \<Rightarrow> int" where "plan_oid p = fst (rp_Order p)"
definition plan_user :: "RefundPlan \<Rightarrow> int" where "plan_user p = po_user (snd (rp_Order p))"

definition refund_lock :: "pay_input \<Rightarrow> RefundPlan \<Rightarrow> pay_db \<Rightarrow> task \<times> pay_db" where
  "refund_lock i p db =
     (case run_stmt i (update_order (pi_now i) (plan_oid p) (\<lambda>od. refundable (po_status od)) (\<lambda>od. od\<lparr>po_status := ORefunding\<rparr>)) db of
        (Inl e, db1) \<Rightarrow> (TDone (Inl e), db1)
      | (Inr hit, db1) \<Rightarrow>
          (if \<not> hit then TDone (Inl PConflict) else if deducts_balance p then TDeduct p else if deducts_days p then TDeductDays p else TGateway p, db1))"

definition deduct_tx :: "RefundPlan \<Rightarrow> pay_db \<Rightarrow> (pay_db, pay_err, rat) tx" where
  "deduct_tx p db =
     (case DeductAvailableBalance (plan_user p) (rp_BalanceToDeduct p) db of
        None \<Rightarrow> Rollback (Inl PDeduction)
      | Some (taken, db1) \<Rightarrow> Commit (record_move (MTaken (plan_oid p) (plan_user p) taken) db1) (Inr taken))"

definition refund_deduct :: "pay_input \<Rightarrow> RefundPlan \<Rightarrow> pay_db \<Rightarrow> task \<times> pay_db" where
  "refund_deduct i p db =
     (if hasAuditLog i (plan_oid p) ''REFUND_ROLLBACK_FAILED'' db then (TGateway (p\<lparr>rp_BalanceToDeduct := 0\<rparr>), db)
      else case run_stmt i (deduct_tx p) db of
        (Inl e, db1) \<Rightarrow> (TRestore p (Inl PDeduction), db1)
      | (Inr taken, db1) \<Rightarrow> (TGateway (p\<lparr>rp_BalanceToDeduct := taken\<rparr>), db1))"

definition days_tx :: "pay_input \<Rightarrow> RefundPlan \<Rightarrow> int \<Rightarrow> pay_db \<Rightarrow> (pay_db, pay_err, unit) tx" where
  "days_tx i p days db = (if pi_ok i then Commit (record_move (MDays (plan_oid p) days) db) (Inr ()) else Rollback (Inl PSubscription))"

definition refund_deduct_days :: "pay_input \<Rightarrow> RefundPlan \<Rightarrow> pay_db \<Rightarrow> task \<times> pay_db" where
  "refund_deduct_days i p db =
     (if hasAuditLog i (plan_oid p) ''REFUND_ROLLBACK_FAILED'' db then (TGateway (p\<lparr>rp_SubDaysToDeduct := 0\<rparr>), db)
      else case run_stmt i (days_tx i p (- rp_SubDaysToDeduct p)) db of
        (Inl e, db1) \<Rightarrow> (TRestore p (Inl PDeduction), db1)
      | (Inr _, db1) \<Rightarrow> (TGateway p, db1))"

datatype refund_verdict = VSuccess | VPending | VInvalid

definition validateRefundProviderResponse :: "refund_answer \<Rightarrow> refund_verdict" where
  "validateRefundProviderResponse a =
     (case ra_Status a of
        None \<Rightarrow> VInvalid
      | Some s \<Rightarrow> let st = strings_TrimSpace s in
          if st \<in> {''success'', ''refunded''} then VSuccess else if st = ''pending'' then VPending else VInvalid)"

definition success_answer :: refund_answer where
  "success_answer = \<lparr>ra_Err = False, ra_Status = Some ''success'', ra_RefundID = []\<rparr>"

text \<open>\<open>gwRefund\<close> and the dispatch of \<open>finishRefund\<close>. An error that comes with a pending status counts as pending.\<close>

definition gwRefund :: "pay_env \<Rightarrow> pay_input \<Rightarrow> RefundPlan \<Rightarrow> pay_db \<Rightarrow> task \<times> pay_db" where
  "gwRefund env i p db =
     (let od = snd (rp_Order p) in
      if po_trade od = [] then (TMarkOk p success_answer, writeAuditLog i (plan_oid p) ''REFUND_NO_TRADE_NO'' db)
      else case pi_provider i of
        None \<Rightarrow> (TRollback p, db)
      | Some pk \<Rightarrow>
          if \<not> validateProviderSnapshotMetadata env od pk (pi_identity i)
          then (TRollback p, writeAuditLog i (plan_oid p) ''REFUND_PROVIDER_METADATA_MISMATCH'' db)
          else
            let db1 = record_move (MGateway (plan_oid p) (rp_GatewayAmount p)) db; a = pi_refund i; v = validateRefundProviderResponse a in
            if ra_Err a then (if v = VPending then TMarkPending p a else TRollback p, db1)
            else (case v of VSuccess \<Rightarrow> TMarkOk p a | VPending \<Rightarrow> TMarkPending p a | VInvalid \<Rightarrow> TRollback p, db1))"

definition mark_refunded :: "gotime \<Rightarrow> RefundPlan \<Rightarrow> pay_order \<Rightarrow> pay_order" where
  "mark_refunded now p od = od\<lparr>po_status := (if rp_RefundAmount p < po_amount (snd (rp_Order p)) then OPartiallyRefunded else ORefunded),
     po_refund := column2 (rp_RefundAmount p), po_reason := Some (rp_Reason p), po_refund_at := Some now, po_force := rp_Force p\<rparr>"

text \<open>An audit row written inside a transaction: the unique index makes the whole transaction fail when the row exists.\<close>

definition insert_audit :: "int \<Rightarrow> string \<Rightarrow> audit_detail \<Rightarrow> pay_db \<Rightarrow> pay_db option" where
  "insert_audit oid act d db =
     (if map_of (pd_audit db) (oid, act) \<noteq> None then None else Some (db\<lparr>pd_audit := tput (oid, act) d (pd_audit db)\<rparr>))"

definition and_audit :: "int \<Rightarrow> string \<Rightarrow> audit_detail \<Rightarrow> (pay_db, pay_err, 'a) tx \<Rightarrow> (pay_db, pay_err, 'a) tx" where
  "and_audit oid act d t =
     (case t of Rollback r \<Rightarrow> Rollback r
      | Commit db r \<Rightarrow> (case insert_audit oid act d db of None \<Rightarrow> Rollback (Inl PAudit) | Some db' \<Rightarrow> Commit db' r))"

definition markRefundOkTx :: "pay_env \<Rightarrow> pay_input \<Rightarrow> RefundPlan \<Rightarrow> pay_db \<Rightarrow> (pay_db, pay_err, bool) tx" where
  "markRefundOkTx env i p db =
     and_audit (plan_oid p) ''REFUND_SUCCESS'' ADetail
       (case set_order (pi_now i) (plan_oid p) (mark_refunded (pi_now i) p) db of
          Rollback r \<Rightarrow> Rollback r
        | Commit db1 r \<Rightarrow>
            if pe_lottery env \<and> po_type (snd (rp_Order p)) = OrderTypeBalance \<and> \<not> pi_ok i then Rollback (Inl PLottery) else Commit db1 r)"

definition refunded_answer :: "RefundPlan \<Rightarrow> pay_answer" where
  "refunded_answer p = ARefunded (rp_BalanceToDeduct p) (rp_SubDaysToDeduct p)"

text \<open>\<open>markRefundOk\<close> with the retry of \<open>finishRefund\<close>: accounting that fails with a lottery configured leaves the refund pending.\<close>

definition markRefundOk :: "pay_env \<Rightarrow> pay_input \<Rightarrow> RefundPlan \<Rightarrow> refund_answer \<Rightarrow> pay_db \<Rightarrow> task \<times> pay_db" where
  "markRefundOk env i p a db =
     (if pe_lottery env then
        (case run_stmt i (markRefundOkTx env i p) db of
           (Inl e, db1) \<Rightarrow> (if po_type (snd (rp_Order p)) = OrderTypeBalance then TMarkPending p a else TDone (Inl e), db1)
         | (Inr _, db1) \<Rightarrow> (TDone (Inr (refunded_answer p)), db1))
      else
        (case run_stmt i (set_order (pi_now i) (plan_oid p) (mark_refunded (pi_now i) p)) db of
           (Inl e, db1) \<Rightarrow> (TDone (Inl e), db1)
         | (Inr _, db1) \<Rightarrow> (TDone (Inr (refunded_answer p)), writeAuditLog i (plan_oid p) ''REFUND_SUCCESS'' db1)))"

definition pending_detail :: "RefundPlan \<Rightarrow> refund_answer \<Rightarrow> refundPendingAuditDetail" where
  "pending_detail p a = \<lparr>rd_RefundID = strings_TrimSpace (ra_RefundID a), rd_DeductionRollbackOK = False, rd_DeductionHeld = True,
     rd_DeductionType = rp_DeductionType p, rd_BalanceDeducted = rp_BalanceToDeduct p, rd_SubDaysDeducted = rp_SubDaysToDeduct p,
     rd_SubscriptionID = rp_SubscriptionID p\<rparr>"

definition markRefundPending :: "pay_input \<Rightarrow> RefundPlan \<Rightarrow> refund_answer \<Rightarrow> pay_db \<Rightarrow> task \<times> pay_db" where
  "markRefundPending i p a db =
     (case run_stmt i (\<lambda>db. and_audit (plan_oid p) ''REFUND_PENDING'' (APending (pending_detail p a))
          (set_order (pi_now i) (plan_oid p) (\<lambda>od. od\<lparr>po_status := ORefundPending, po_refund := column2 (rp_RefundAmount p),
             po_reason := Some (rp_Reason p), po_refund_at := None, po_force := rp_Force p, po_failed := (None, None)\<rparr>) db)) db of
        (Inl e, db1) \<Rightarrow> (TDone (Inl e), db1)
      | (Inr _, db1) \<Rightarrow> (TDone (Inr ARefundPending), db1))"

section \<open>Giving up\<close>

definition return_tx :: "RefundPlan \<Rightarrow> pay_db \<Rightarrow> (pay_db, pay_err, unit) tx" where
  "return_tx p db =
     (case UpdateBalance (plan_user p) (rp_BalanceToDeduct p) db of
        None \<Rightarrow> Rollback (Inl PUser)
      | Some db1 \<Rightarrow> Commit (record_move (MReturned (plan_oid p) (plan_user p) (rp_BalanceToDeduct p)) db1) (Inr ()))"

text \<open>\<open>handleGwFail\<close> and \<open>RollbackRefund\<close>: return what was taken, then restore the status, or mark the refund failed.\<close>

definition RollbackRefund :: "pay_input \<Rightarrow> RefundPlan \<Rightarrow> pay_db \<Rightarrow> task \<times> pay_db" where
  "RollbackRefund i p db =
     (if deducts_balance p then
        (case run_stmt i (return_tx p) db of
           (Inl e, db1) \<Rightarrow> (TRefundFailed p, writeAuditLog i (plan_oid p) ''REFUND_ROLLBACK_FAILED'' db1)
         | (Inr _, db1) \<Rightarrow> (TRestore p (Inr ARefundRolledBack), db1))
      else if deducts_days p then
        (case run_stmt i (days_tx i p (rp_SubDaysToDeduct p)) db of
           (Inl e, db1) \<Rightarrow> (TRefundFailed p, writeAuditLog i (plan_oid p) ''REFUND_ROLLBACK_FAILED'' db1)
         | (Inr _, db1) \<Rightarrow> (TRestore p (Inr ARefundRolledBack), db1))
      else (TRestore p (Inr ARefundRolledBack), db))"

definition restoreStatus :: "pay_input \<Rightarrow> RefundPlan \<Rightarrow> pay_err + pay_answer \<Rightarrow> pay_db \<Rightarrow> task \<times> pay_db" where
  "restoreStatus i p r db =
     (let rs = (if po_status (snd (rp_Order p)) = ORefundRequested then ORefundRequested else OCompleted);
          db1 = snd (run_stmt i (set_order (pi_now i) (plan_oid p) (\<lambda>od. od\<lparr>po_status := rs\<rparr>)) db)
      in (TDone r, if r = Inr ARefundRolledBack then writeAuditLog i (plan_oid p) ''REFUND_GATEWAY_FAILED'' db1 else db1))"

definition mark_refund_failed :: "gotime \<Rightarrow> pay_order \<Rightarrow> pay_order" where
  "mark_refund_failed now od = od\<lparr>po_status := ORefundFailed, po_failed := (Some now, Some ''gateway refund failed'')\<rparr>"

definition refund_failed :: "pay_input \<Rightarrow> RefundPlan \<Rightarrow> pay_db \<Rightarrow> task \<times> pay_db" where
  "refund_failed i p db = (TDone (Inl PGateway), writeAuditLog i (plan_oid p) ''REFUND_FAILED''
     (snd (run_stmt i (set_order (pi_now i) (plan_oid p) (mark_refund_failed (pi_now i))) db)))"

section \<open>Closing a pending refund\<close>

definition QueryAndFinalizeRefund :: "pay_input \<Rightarrow> int \<Rightarrow> pay_db \<Rightarrow> task \<times> pay_db" where
  "QueryAndFinalizeRefund i oid db =
     (case (if pi_read i then get_order oid db else None) of
        None \<Rightarrow> (TDone (Inl PNotFound), db)
      | Some od \<Rightarrow>
          if po_status od \<noteq> ORefundPending then (TDone (Inl PInvalidStatus), db)
          else if pi_provider i = None then (TDone (Inl PProvider), db)
          else if \<not> pi_flag i then (TDone (Inl PRefundQueryUnsupported), db)
          else (TFinalDetail (oid, od), db))"

definition no_pending_detail :: refundPendingAuditDetail where
  "no_pending_detail = \<lparr>rd_RefundID = [], rd_DeductionRollbackOK = True, rd_DeductionHeld = False, rd_DeductionType = DNone,
     rd_BalanceDeducted = 0, rd_SubDaysDeducted = 0, rd_SubscriptionID = 0\<rparr>"

definition latestRefundPendingDetail :: "pay_input \<Rightarrow> snap \<Rightarrow> pay_db \<Rightarrow> task \<times> pay_db" where
  "latestRefundPendingDetail i sn db =
     (if \<not> pi_read i then (TDone (Inl PDb), db)
      else (TFinalQuery sn (case map_of (pd_audit db) (fst sn, ''REFUND_PENDING'') of
              Some (APending d) \<Rightarrow> d\<lparr>rd_RefundID := strings_TrimSpace (rd_RefundID d)\<rparr> | _ \<Rightarrow> no_pending_detail), db))"

definition refundFinalizePlan :: "snap \<Rightarrow> RefundPlan" where
  "refundFinalizePlan sn =
     (let od = snd sn; reason = strings_TrimSpace (psStringValue (po_reason od)) in
      (refund_plan sn (po_refund od) (if reason = [] then ''refund order:'' @ FormatInt (fst sn) else reason) (po_force od))
        \<lparr>rp_DeductionType := DBalance, rp_BalanceToDeduct := (if po_type od = OrderTypeBalance then po_refund od else 0)\<rparr>)"

definition finalize_plan :: "pay_input \<Rightarrow> snap \<Rightarrow> refundPendingAuditDetail \<Rightarrow> RefundPlan" where
  "finalize_plan i sn d =
     (let p = refundFinalizePlan sn in
      if rd_DeductionHeld d then p\<lparr>rp_deductionHeld := True, rp_DeductionType := rd_DeductionType d, rp_BalanceToDeduct := rd_BalanceDeducted d,
          rp_SubDaysToDeduct := rd_SubDaysDeducted d, rp_SubscriptionID := rd_SubscriptionID d\<rparr>
      else if \<not> rd_DeductionRollbackOK d then p\<lparr>rp_BalanceToDeduct := 0, rp_SubDaysToDeduct := 0\<rparr>
      else if po_type (snd sn) = OrderTypeSubscription then plan_days i p
      else p)"

definition query_refund :: "pay_input \<Rightarrow> snap \<Rightarrow> refundPendingAuditDetail \<Rightarrow> pay_db \<Rightarrow> task \<times> pay_db" where
  "query_refund i sn d db =
     (if ra_Err (pi_refund i) then (TDone (Inl PGateway), db)
      else let p = finalize_plan i sn d in
        case validateRefundProviderResponse (pi_refund i) of
          VInvalid \<Rightarrow> (TFinalFail p, db)
        | VSuccess \<Rightarrow> (TFinalOk p, db)
        | VPending \<Rightarrow> (TDone (Inr ARefundPending), writeAuditLog i (fst sn) ''REFUND_QUERY_PENDING'' db))"

definition claim_pending :: "gotime \<Rightarrow> int \<Rightarrow> (pay_order \<Rightarrow> pay_order) \<Rightarrow> pay_db \<Rightarrow> (pay_db, pay_err, bool) tx" where
  "claim_pending now oid change db =
     (case update_order now oid (\<lambda>od. po_status od = ORefundPending) change db of
        Rollback _ \<Rightarrow> Rollback (Inl PConflict) | Commit db1 r \<Rightarrow> Commit db1 r)"

definition applyRefundFinalDeduction :: "pay_input \<Rightarrow> RefundPlan \<Rightarrow> pay_db \<Rightarrow> (pay_db, pay_err, rat) tx" where
  "applyRefundFinalDeduction i p db =
     (if rp_deductionHeld p then Commit db (Inr (rp_BalanceToDeduct p))
      else if deducts_balance p then deduct_tx p db
      else if deducts_days p then
        (case days_tx i p (- rp_SubDaysToDeduct p) db of Rollback r \<Rightarrow> Rollback (Inl PDeduction) | Commit db1 _ \<Rightarrow> Commit db1 (Inr (rp_BalanceToDeduct p)))
      else Commit db (Inr (rp_BalanceToDeduct p)))"

definition finalizePendingRefundSuccess :: "pay_env \<Rightarrow> pay_input \<Rightarrow> RefundPlan \<Rightarrow> pay_db \<Rightarrow> task \<times> pay_db" where
  "finalizePendingRefundSuccess env i p db =
     (case run_stmt i (\<lambda>db.
          case claim_pending (pi_now i) (plan_oid p) (\<lambda>od. od\<lparr>po_status := ORefunding\<rparr>) db of
            Rollback r \<Rightarrow> Rollback (Inl PConflict)
          | Commit db1 _ \<Rightarrow>
              (case applyRefundFinalDeduction i p db1 of
                 Rollback r \<Rightarrow> Rollback (Inl PDeduction)
               | Commit db2 (Inl e) \<Rightarrow> Rollback (Inl e)
               | Commit db2 (Inr taken) \<Rightarrow>
                   (case markRefundOkTx env i p db2 of
                      Rollback (Inl e) \<Rightarrow> Rollback (Inl e)
                    | Rollback (Inr _) \<Rightarrow> Rollback (Inl PDb)
                    | Commit db3 _ \<Rightarrow> Commit db3 (Inr taken)))) db of
        (Inl e, db1) \<Rightarrow> (TDone (Inl e), db1)
      | (Inr taken, db1) \<Rightarrow> (TDone (Inr (refunded_answer (p\<lparr>rp_BalanceToDeduct := taken\<rparr>))), db1))"

text \<open>
  \<open>finalizeRefundFailed\<close>: claim, return of the held deduction and audit in one transaction; when the return fails
  (\<open>PDeduction\<close>) a second transaction marks the order failed with \<^verbatim>\<open>REFUND_ROLLBACK_FAILED\<close> instead.
\<close>

definition returnHeldRefundDeduction :: "pay_input \<Rightarrow> RefundPlan \<Rightarrow> pay_db \<Rightarrow> (pay_db, pay_err, unit) tx" where
  "returnHeldRefundDeduction i p db =
     (if \<not> pi_flag i \<and> (deducts_balance p \<or> deducts_days p) then Rollback (Inl PDeduction)
      else if deducts_balance p then (case return_tx p db of Rollback _ \<Rightarrow> Rollback (Inl PDeduction) | c \<Rightarrow> c)
      else if deducts_days p then (case days_tx i p (rp_SubDaysToDeduct p) db of Rollback _ \<Rightarrow> Rollback (Inl PDeduction) | c \<Rightarrow> c)
      else Commit db (Inr ()))"

definition finalize_failed_tx :: "pay_input \<Rightarrow> RefundPlan \<Rightarrow> pay_db \<Rightarrow> (pay_db, pay_err, unit) tx" where
  "finalize_failed_tx i p db =
     (case claim_pending (pi_now i) (plan_oid p) (mark_refund_failed (pi_now i)) db of
        Rollback _ \<Rightarrow> Rollback (Inl PConflict)
      | Commit db1 _ \<Rightarrow>
          and_audit (plan_oid p) ''REFUND_FAILED'' ADetail
            (if rp_deductionHeld p then returnHeldRefundDeduction i p db1 else Commit db1 (Inr ())))"

definition finalizeRefundFailed :: "pay_input \<Rightarrow> RefundPlan \<Rightarrow> pay_db \<Rightarrow> task \<times> pay_db" where
  "finalizeRefundFailed i p db =
     (case run_stmt i (finalize_failed_tx i p) db of
        (Inl e, db1) \<Rightarrow> (if e = PDeduction then TFinalMark p else TDone (Inl e), db1)
      | (Inr _, db1) \<Rightarrow> (TDone (Inr (ARefundFailed False)), db1))"

definition finalize_mark_tx :: "pay_input \<Rightarrow> RefundPlan \<Rightarrow> pay_db \<Rightarrow> (pay_db, pay_err, bool) tx" where
  "finalize_mark_tx i p db =
     and_audit (plan_oid p) ''REFUND_FAILED'' ADetail (and_audit (plan_oid p) ''REFUND_ROLLBACK_FAILED'' ADetail
       (claim_pending (pi_now i) (plan_oid p) (mark_refund_failed (pi_now i)) db))"

definition finalize_mark :: "pay_input \<Rightarrow> RefundPlan \<Rightarrow> pay_db \<Rightarrow> task \<times> pay_db" where
  "finalize_mark i p db =
     (case run_stmt i (finalize_mark_tx i p) db of
        (Inl e, db1) \<Rightarrow> (TDone (Inl e), db1)
      | (Inr _, db1) \<Rightarrow> (TDone (Inr (ARefundFailed True)), db1))"

end
