(* ===== verification/PaySystem.thy ===== *)
theory PaySystem
  imports PayRefund
begin

text \<open>
  The payment service as a whole: any number of tasks over one database, one step of one task at a time, with new requests,
  sweeps, provider notifications and other spending arriving in between, and with any fault and any answer at every step.
\<close>

section \<open>Steps\<close>

primrec run_task :: "task \<Rightarrow> pay_env \<Rightarrow> pay_input \<Rightarrow> pay_db \<Rightarrow> task \<times> pay_db" where
  "run_task (TDone r) env i db = (TDone r, db)"
| "run_task (TNotify n pk) env i db = HandlePaymentNotification i n pk db"
| "run_task (TConfirm oid trade paid pk meta) env i db = confirmPayment env i oid trade paid pk meta db"
| "run_task (TToPaid sn trade paid pk) env i db = toPaid i sn trade paid pk db"
| "run_task (TAlready oid) env i db = alreadyProcessed i oid db"
| "run_task (TFulfil oid) env i db = executeFulfillment i oid db"
| "run_task (TReject sn) env i db = rejectUnsupportedOrderType i sn db"
| "run_task (TBalance oid) env i db = ExecuteBalanceFulfillment i oid db"
| "run_task (TSub oid) env i db = ExecuteSubscriptionFulfillment i oid db"
| "run_task (TLease sn) env i db = acquirePaymentFulfillmentLease i sn db"
| "run_task (TLeaseLost sn) env i db = lease_lost i sn db"
| "run_task (TLeaseRead sn) env i db = lease_read i sn db"
| "run_task (TBalanceCode sn v) env i db = doBalance i sn v db"
| "run_task (TCreateCode sn v) env i db = create_order_code i sn v db"
| "run_task (TRedeem sn v) env i db = redeem_for_payment i sn v db"
| "run_task (TRedeemTx sn v rc) env i db = redeem_payment_tx env i sn v rc db"
| "run_task (TAssign sn v) env i db = ensurePaymentSubscriptionAssigned i sn v db"
| "run_task (TRebate sn v) env i db = applyAffiliateRebateForOrder env i sn v db"
| "run_task (TComplete sn v) env i db = markCompleted env i sn v db"
| "run_task (TCompleteLost sn v) env i db = completion_lost i sn v db"
| "run_task (TFail oid v e) env i db = markFailed i oid v e db"
| "run_task (TRetry oid) env i db = RetryFulfillment i oid db"
| "run_task (TPublicRedeem uid code) env i db = public_redeem i uid code db"
| "run_task (TPublicTx uid code rc) env i db = public_redeem_tx env i uid code rc db"
| "run_task (TAdminCode code rc) env i db = admin_code i code rc db"
| "run_task (TCancel oid user) env i db = CancelOrder i oid user db"
| "run_task (TCancelCore sn final) env i db = cancelCore sn final db"
| "run_task (TCheckPaid sn cont) env i db = checkPaidWithOptions env i sn cont db"
| "run_task (TPersistTrade sn up pk n) env i db = persist_trade i sn up pk n db"
| "run_task (TCancelUpdate sn final) env i db = cancel_update i sn final db"
| "run_task (TVerify raw uid) env i db = VerifyOrderByOutTradeNo i raw uid db"
| "run_task (TCreate req) env i db = create_check env i req db"
| "run_task (TInsert req) env i db = insert_order env i req db"
| "run_task (TInvoke oid) env i db = invokeProvider i oid db"
| "run_task (TCreateFailed oid e) env i db = create_failed i oid e db"
| "run_task (TRequestRefund oid uid reason) env i db = RequestRefund i oid uid reason db"
| "run_task (TRequestBalance sn reason) env i db = request_balance i sn reason db"
| "run_task (TRequestUpdate sn reason) env i db = request_update i sn reason db"
| "run_task (TPrepare oid amt reason force deduct) env i db = PrepareRefund i oid amt reason force deduct db"
| "run_task (TPrepDeduct p) env i db = prepDeduct i p db"
| "run_task (TLock p) env i db = refund_lock i p db"
| "run_task (TDeduct p) env i db = refund_deduct i p db"
| "run_task (TDeductDays p) env i db = refund_deduct_days i p db"
| "run_task (TGateway p) env i db = gwRefund env i p db"
| "run_task (TMarkOk p a) env i db = markRefundOk env i p a db"
| "run_task (TMarkPending p a) env i db = markRefundPending i p a db"
| "run_task (TRollback p) env i db = RollbackRefund i p db"
| "run_task (TRestore p r) env i db = restoreStatus i p r db"
| "run_task (TRefundFailed p) env i db = refund_failed i p db"
| "run_task (TFinalize oid) env i db = QueryAndFinalizeRefund i oid db"
| "run_task (TFinalDetail sn) env i db = latestRefundPendingDetail i sn db"
| "run_task (TFinalQuery sn d) env i db = query_refund i sn d db"
| "run_task (TFinalOk p) env i db = finalizePendingRefundSuccess env i p db"
| "run_task (TFinalFail p) env i db = finalizeRefundFailed i p db"
| "run_task (TFinalMark p) env i db = finalize_mark i p db"

text \<open>The requests that arrive from outside.\<close>

fun entry :: "task \<Rightarrow> bool" where
  "entry (TNotify n pk) = True"
| "entry (TRetry oid) = True"
| "entry (TPublicRedeem uid code) = True"
| "entry (TAdminCode code rc) = True"
| "entry (TCancel oid user) = True"
| "entry (TVerify raw uid) = True"
| "entry (TCreate req) = True"
| "entry (TRequestRefund oid uid reason) = True"
| "entry (TPrepare oid amt reason force deduct) = True"
| "entry (TFinalize oid) = True"
| "entry _ = False"

record pay_sys =
  ps_db :: pay_db
  ps_tasks :: "task list"

text \<open>A balance column keeps eight places.\<close>

definition column8 :: "rat \<Rightarrow> bool" where "column8 x \<longleftrightarrow> round8 x = x"

definition users_ok :: "pay_db \<Rightarrow> bool" where
  "users_ok db \<longleftrightarrow> (\<forall>uid u. map_of (pd_users db) uid = Some u \<longrightarrow> column8 (pu_balance u))"

inductive pay_step :: "pay_env \<Rightarrow> (pay_input \<Rightarrow> bool) \<Rightarrow> pay_sys \<Rightarrow> pay_sys \<Rightarrow> bool" for env ok where
  run: "n < length (ps_tasks s) \<Longrightarrow> ok i \<Longrightarrow> run_task (ps_tasks s ! n) env i (ps_db s) = (t, db) \<Longrightarrow>
    pay_step env ok s (s\<lparr>ps_db := db, ps_tasks := (ps_tasks s)[n := t]\<rparr>)"
| arrive: "entry t \<Longrightarrow> pay_step env ok s (s\<lparr>ps_tasks := ps_tasks s @ [t]\<rparr>)"
| reconcile: "pay_step env ok s (s\<lparr>ps_tasks := ps_tasks s @ ReconcilePendingPaymentOrders now (ps_db s)\<rparr>)"
| expire: "pay_step env ok s (s\<lparr>ps_tasks := ps_tasks s @ ExpireTimedOutOrders now (ps_db s)\<rparr>)"
| others: "users_ok (ps_db s\<lparr>pd_users := us\<rparr>) \<Longrightarrow> pay_step env ok s (s\<lparr>ps_db := ps_db s\<lparr>pd_users := us\<rparr>\<rparr>)"

definition pay_start :: "pay_sys \<Rightarrow> bool" where
  "pay_start s \<longleftrightarrow> pd_orders (ps_db s) = [] \<and> pd_audit (ps_db s) = [] \<and> pd_codes (ps_db s) = [] \<and> pd_moves (ps_db s) = [] \<and>
     users_ok (ps_db s) \<and> ps_tasks s = []"

end
