(* ===== verification/PayInvariant.thy ===== *)
theory PayInvariant
  imports PaySystem
begin

text \<open>
  The invariant of the payment service, and that every handler keeps it.
\<close>

section \<open>What every step keeps\<close>

text \<open>The columns of an order that no statement changes.\<close>

definition fixed :: "pay_order \<Rightarrow> int \<times> rat \<times> rat \<times> string \<times> string \<times> string" where
  "fixed od = (po_user od, po_amount od, po_bonus od, po_code od, po_out od, po_type od)"

definition same_code :: "redeem_code \<Rightarrow> redeem_code \<Rightarrow> bool" where
  "same_code row row' \<longleftrightarrow> rc_id row' = rc_id row \<and> rc_type row' = rc_type row \<and> rc_value row' = rc_value row \<and>
     (rc_status row = CUsed \<longrightarrow> row' = row)"

definition extends :: "pay_db \<Rightarrow> pay_db \<Rightarrow> bool" where
  "extends db db' \<longleftrightarrow>
     (\<forall>oid od. get_order oid db = Some od \<longrightarrow> (\<exists>od'. get_order oid db' = Some od' \<and> fixed od' = fixed od)) \<and>
     (\<forall>k d. map_of (pd_audit db) k = Some d \<longrightarrow> map_of (pd_audit db') k = Some d) \<and>
     (\<forall>c row. map_of (pd_codes db) c = Some row \<longrightarrow> (\<exists>row'. map_of (pd_codes db') c = Some row' \<and> same_code row row')) \<and>
     (\<exists>ms. pd_moves db' = pd_moves db @ ms)"

lemma extends_refl [simp]: "extends db db"
  by (auto simp: extends_def same_code_def)

lemma same_code_trans: "same_code a b \<Longrightarrow> same_code b c \<Longrightarrow> same_code a c"
  by (auto simp: same_code_def)

lemma extends_trans:
  assumes "extends a b" "extends b c"
  shows "extends a c"
proof -
  have "\<exists>od'. get_order oid c = Some od' \<and> fixed od' = fixed od" if "get_order oid a = Some od" for oid od
    using assms that unfolding extends_def by metis
  moreover have "map_of (pd_audit c) k = Some d" if "map_of (pd_audit a) k = Some d" for k d
    using assms that unfolding extends_def by blast
  moreover have "\<exists>row'. map_of (pd_codes c) k = Some row' \<and> same_code row row'" if "map_of (pd_codes a) k = Some row" for k row
    using assms that same_code_trans unfolding extends_def by meson
  moreover have "\<exists>ms. pd_moves c = pd_moves a @ ms" using assms unfolding extends_def by auto
  ultimately show ?thesis unfolding extends_def by blast
qed

definition moved_in :: "pay_move \<Rightarrow> pay_db \<Rightarrow> bool" where "moved_in m db \<longleftrightarrow> m \<in> set (pd_moves db)"

definition confirmed :: "int \<Rightarrow> pay_db \<Rightarrow> bool" where "confirmed oid db \<longleftrightarrow> (\<exists>a. moved_in (MConfirmed oid a) db)"

definition snap_ok :: "snap \<Rightarrow> pay_db \<Rightarrow> bool" where
  "snap_ok sn db \<longleftrightarrow> (\<exists>od. get_order (fst sn) db = Some od \<and> fixed od = fixed (snd sn))"

text \<open>The order's code has been redeemed by the customer, for the amount of the order.\<close>

definition close_to :: "rat \<Rightarrow> rat \<Rightarrow> bool" where "close_to a b \<longleftrightarrow> \<bar>a - b\<bar> \<le> 1 / 100000000"

definition paid_out :: "pay_order \<Rightarrow> pay_db \<Rightarrow> bool" where
  "paid_out od db \<longleftrightarrow> po_type od = OrderTypeBalance \<longrightarrow>
     (\<exists>row. map_of (pd_codes db) (po_code od) = Some row \<and> rc_status row = CUsed \<and> rc_used_by row = Some (po_user od) \<and>
        rc_type row = RedeemTypeBalance \<and> close_to (rc_value row) (po_amount od))"

text \<open>A code read earlier is still there with the same number, type and value.\<close>

definition code_read :: "string \<Rightarrow> redeem_code \<Rightarrow> pay_db \<Rightarrow> bool" where
  "code_read c rc db \<longleftrightarrow> (\<exists>row. map_of (pd_codes db) c = Some row \<and> rc_id row = rc_id rc \<and> rc_type row = rc_type rc \<and> rc_value row = rc_value rc)"

definition code_ready :: "pay_order \<Rightarrow> pay_db \<Rightarrow> bool" where
  "code_ready od db \<longleftrightarrow> (\<exists>row. map_of (pd_codes db) (po_code od) = Some row \<and> rc_type row = RedeemTypeBalance \<and> close_to (rc_value row) (po_amount od))"

lemma moved_in_extends: "moved_in m db \<Longrightarrow> extends db db' \<Longrightarrow> moved_in m db'"
  by (auto simp: extends_def moved_in_def)

lemma confirmed_extends: "confirmed oid db \<Longrightarrow> extends db db' \<Longrightarrow> confirmed oid db'"
  using moved_in_extends unfolding confirmed_def by blast

lemma snap_ok_extends: "snap_ok sn db \<Longrightarrow> extends db db' \<Longrightarrow> snap_ok sn db'"
  unfolding snap_ok_def extends_def by metis

lemma code_read_extends: "code_read c rc db \<Longrightarrow> extends db db' \<Longrightarrow> code_read c rc db'"
  unfolding code_read_def extends_def same_code_def by metis

lemma code_ready_extends: "code_ready od db \<Longrightarrow> extends db db' \<Longrightarrow> code_ready od db'"
  unfolding code_ready_def extends_def same_code_def by metis

lemma paid_out_extends: "paid_out od db \<Longrightarrow> extends db db' \<Longrightarrow> paid_out od db'"
  unfolding paid_out_def extends_def same_code_def by metis

lemma paid_out_fixed: "fixed a = fixed b \<Longrightarrow> paid_out a db \<longleftrightarrow> paid_out b db"
  by (simp add: paid_out_def fixed_def)

lemmas extends_stable = moved_in_extends confirmed_extends snap_ok_extends code_read_extends code_ready_extends paid_out_extends

section \<open>The invariant\<close>

definition served :: "order_status \<Rightarrow> bool" where "served s \<longleftrightarrow> s = OCompleted \<or> psIsRefundStatus s"

definition order_ok :: "int \<Rightarrow> pay_order \<Rightarrow> pay_db \<Rightarrow> bool" where
  "order_ok oid od db \<longleftrightarrow> oid > 0 \<and> (\<exists>t. po_code od = recharge_code oid t) \<and> (po_paid_at od \<noteq> None \<longrightarrow> confirmed oid db) \<and>
     (served (po_status od) \<longrightarrow> paid_out od db \<and> confirmed oid db)"

definition code_ok :: "string \<Rightarrow> redeem_code \<Rightarrow> pay_db \<Rightarrow> bool" where
  "code_ok c row db \<longleftrightarrow> moved_in (MAdminCode c) db \<or>
     rc_type row = RedeemTypeBalance \<and> (\<exists>oid od. get_order oid db = Some od \<and> strings_TrimSpace (po_code od) = c \<and> confirmed oid db) \<and>
     (rc_status row = CUsed \<longrightarrow> (\<exists>uid. rc_used_by row = Some uid \<and> moved_in (MCredited c uid (rc_value row)) db))"

definition move_ok :: "pay_move \<Rightarrow> pay_db \<Rightarrow> bool" where
  "move_ok m db \<longleftrightarrow> (case m of
     MCredited c uid a \<Rightarrow> \<exists>row. map_of (pd_codes db) c = Some row \<and> rc_status row = CUsed \<and> rc_used_by row = Some uid \<and> rc_value row = a
   | MRebate oid a \<Rightarrow> map_of (pd_audit db) (oid, ''AFFILIATE_REBATE_APPLIED'') \<noteq> None
   | MAssigned oid \<Rightarrow> map_of (pd_audit db) (oid, ''SUBSCRIPTION_ASSIGNED'') \<noteq> None
   | _ \<Rightarrow> True)"

definition credits :: "string \<Rightarrow> pay_db \<Rightarrow> (int \<times> rat) list" where
  "credits c db = concat (map (\<lambda>m. case m of MCredited c' uid a \<Rightarrow> if c' = c then [(uid, a)] else [] | _ \<Rightarrow> []) (pd_moves db))"

definition rebates :: "int \<Rightarrow> pay_db \<Rightarrow> rat list" where
  "rebates oid db = concat (map (\<lambda>m. case m of MRebate oid' a \<Rightarrow> if oid' = oid then [a] else [] | _ \<Rightarrow> []) (pd_moves db))"

definition assignments :: "int \<Rightarrow> pay_db \<Rightarrow> nat" where
  "assignments oid db = length (filter (\<lambda>m. m = MAssigned oid) (pd_moves db))"

definition once :: "pay_db \<Rightarrow> bool" where
  "once db \<longleftrightarrow> (\<forall>c. length (credits c db) \<le> 1) \<and> (\<forall>oid. length (rebates oid db) \<le> 1 \<and> assignments oid db \<le> 1)"

definition pay_ok :: "pay_db \<Rightarrow> bool" where
  "pay_ok db \<longleftrightarrow> users_ok db \<and> (\<forall>oid od. get_order oid db = Some od \<longrightarrow> order_ok oid od db) \<and>
     (\<forall>c row. map_of (pd_codes db) c = Some row \<longrightarrow> code_ok c row db) \<and> (\<forall>m. moved_in m db \<longrightarrow> move_ok m db) \<and> once db"

definition plan_ok :: "RefundPlan \<Rightarrow> pay_db \<Rightarrow> bool" where
  "plan_ok p db \<longleftrightarrow> snap_ok (rp_Order p) db \<and> paid_out (snd (rp_Order p)) db \<and> confirmed (fst (rp_Order p)) db"

primrec task_ok :: "task \<Rightarrow> pay_db \<Rightarrow> bool" where
  "task_ok (TDone r) db = True"
| "task_ok (TNotify n pk) db = True"
| "task_ok (TConfirm oid trade paid pk meta) db = True"
| "task_ok (TToPaid sn trade paid pk) db = (snap_ok sn db \<and> confirmed (fst sn) db)"
| "task_ok (TAlready oid) db = confirmed oid db"
| "task_ok (TFulfil oid) db = confirmed oid db"
| "task_ok (TReject sn) db = (snap_ok sn db \<and> confirmed (fst sn) db)"
| "task_ok (TBalance oid) db = confirmed oid db"
| "task_ok (TSub oid) db = confirmed oid db"
| "task_ok (TLease sn) db = (snap_ok sn db \<and> confirmed (fst sn) db)"
| "task_ok (TLeaseLost sn) db = True"
| "task_ok (TLeaseRead sn) db = (snap_ok sn db \<and> confirmed (fst sn) db)"
| "task_ok (TBalanceCode sn v) db = (snap_ok sn db \<and> confirmed (fst sn) db)"
| "task_ok (TCreateCode sn v) db = (snap_ok sn db \<and> confirmed (fst sn) db)"
| "task_ok (TRedeem sn v) db = (snap_ok sn db \<and> confirmed (fst sn) db \<and> code_ready (snd sn) db)"
| "task_ok (TRedeemTx sn v rc) db = (snap_ok sn db \<and> confirmed (fst sn) db \<and> code_ready (snd sn) db \<and> code_read (po_code (snd sn)) rc db)"
| "task_ok (TAssign sn v) db = (snap_ok sn db \<and> confirmed (fst sn) db \<and> po_type (snd sn) \<noteq> OrderTypeBalance)"
| "task_ok (TRebate sn v) db = (snap_ok sn db \<and> confirmed (fst sn) db \<and> paid_out (snd sn) db)"
| "task_ok (TComplete sn v) db = (snap_ok sn db \<and> confirmed (fst sn) db \<and> paid_out (snd sn) db)"
| "task_ok (TCompleteLost sn v) db = True"
| "task_ok (TFail oid v e) db = True"
| "task_ok (TRetry oid) db = True"
| "task_ok (TPublicRedeem uid code) db = True"
| "task_ok (TPublicTx uid code rc) db = code_read code rc db"
| "task_ok (TAdminCode code rc) db = True"
| "task_ok (TCancel oid user) db = True"
| "task_ok (TCancelCore sn final) db = (final \<in> {OCancelled, OExpired})"
| "task_ok (TCheckPaid sn cont) db = (\<forall>final. cont = Some final \<longrightarrow> final \<in> {OCancelled, OExpired})"
| "task_ok (TPersistTrade sn up pk n) db = True"
| "task_ok (TCancelUpdate sn final) db = (final \<in> {OCancelled, OExpired})"
| "task_ok (TVerify raw uid) db = True"
| "task_ok (TCreate req) db = True"
| "task_ok (TInsert req) db = True"
| "task_ok (TInvoke oid) db = True"
| "task_ok (TCreateFailed oid e) db = True"
| "task_ok (TRequestRefund oid uid reason) db = True"
| "task_ok (TRequestBalance sn reason) db = snap_ok sn db"
| "task_ok (TRequestUpdate sn reason) db = snap_ok sn db"
| "task_ok (TPrepare oid amt reason force deduct) db = True"
| "task_ok (TPrepDeduct p) db = plan_ok p db"
| "task_ok (TLock p) db = plan_ok p db"
| "task_ok (TDeduct p) db = plan_ok p db"
| "task_ok (TDeductDays p) db = plan_ok p db"
| "task_ok (TGateway p) db = plan_ok p db"
| "task_ok (TMarkOk p a) db = plan_ok p db"
| "task_ok (TMarkPending p a) db = plan_ok p db"
| "task_ok (TRollback p) db = plan_ok p db"
| "task_ok (TRestore p r) db = plan_ok p db"
| "task_ok (TRefundFailed p) db = plan_ok p db"
| "task_ok (TFinalize oid) db = True"
| "task_ok (TFinalDetail sn) db = (snap_ok sn db \<and> paid_out (snd sn) db \<and> confirmed (fst sn) db)"
| "task_ok (TFinalQuery sn d) db = (snap_ok sn db \<and> paid_out (snd sn) db \<and> confirmed (fst sn) db)"
| "task_ok (TFinalOk p) db = plan_ok p db"
| "task_ok (TFinalFail p) db = plan_ok p db"
| "task_ok (TFinalMark p) db = plan_ok p db"

lemma task_ok_extends: "task_ok t db \<Longrightarrow> extends db db' \<Longrightarrow> task_ok t db'"
  by (cases t) (auto simp: plan_ok_def dest: extends_stable)

section \<open>Statements keep it\<close>

lemma order_ok_extends: "order_ok oid od db \<Longrightarrow> extends db db' \<Longrightarrow> order_ok oid od db'"
  unfolding order_ok_def using extends_stable by metis

lemma code_ok_extends:
  assumes ok: "code_ok c row db" and x: "extends db db'"
  shows "code_ok c row db'"
proof (cases "moved_in (MAdminCode c) db")
  case True
  then show ?thesis using moved_in_extends [OF _ x] by (simp add: code_ok_def)
next
  case False
  then obtain oid od where o: "rc_type row = RedeemTypeBalance" "get_order oid db = Some od" "strings_TrimSpace (po_code od) = c" "confirmed oid db"
    and u: "rc_status row = CUsed \<longrightarrow> (\<exists>uid. rc_used_by row = Some uid \<and> moved_in (MCredited c uid (rc_value row)) db)"
    using ok unfolding code_ok_def by blast
  obtain od' where "get_order oid db' = Some od'" "fixed od' = fixed od" using x o(2) unfolding extends_def by blast
  then have "\<exists>oid od. get_order oid db' = Some od \<and> strings_TrimSpace (po_code od) = c \<and> confirmed oid db'"
    using o(3) confirmed_extends [OF o(4) x] by (intro exI [of _ oid] exI [of _ od']) (simp add: fixed_def)
  then show ?thesis using o(1) u moved_in_extends [OF _ x] unfolding code_ok_def by blast
qed

lemma move_ok_extends:
  assumes ok: "move_ok m db" and x: "extends db db'"
  shows "move_ok m db'"
proof (cases m)
  case (MCredited c uid a)
  then obtain row where r: "map_of (pd_codes db) c = Some row" "rc_status row = CUsed" "rc_used_by row = Some uid" "rc_value row = a"
    using ok by (auto simp: move_ok_def)
  then have "map_of (pd_codes db') c = Some row" using x unfolding extends_def same_code_def by blast
  then show ?thesis using r MCredited by (simp add: move_ok_def)
next
  case (MRebate oid a)
  then show ?thesis using ok x unfolding move_ok_def extends_def by fastforce
next
  case (MAssigned oid)
  then show ?thesis using ok x unfolding move_ok_def extends_def by fastforce
qed (simp_all add: move_ok_def)

lemma pay_ok_extends:
  assumes "pay_ok db" and x: "extends db db'" and "users_ok db'" and "once db'"
    and "\<And>oid od. get_order oid db' = Some od \<Longrightarrow> get_order oid db = Some od \<or> order_ok oid od db'"
    and "\<And>c row. map_of (pd_codes db') c = Some row \<Longrightarrow> map_of (pd_codes db) c = Some row \<or> code_ok c row db'"
    and "\<And>m. moved_in m db' \<Longrightarrow> moved_in m db \<or> move_ok m db'"
  shows "pay_ok db'"
  using assms order_ok_extends [OF _ x] code_ok_extends [OF _ x] move_ok_extends [OF _ x] unfolding pay_ok_def by metis

definition kept :: "pay_db \<Rightarrow> pay_db \<Rightarrow> bool" where
  "kept db db' \<longleftrightarrow> extends db db' \<and> (pay_ok db \<longrightarrow> pay_ok db')"

lemma pay_kept_refl [simp]: "kept db db"
  by (simp add: kept_def)

lemma kept_trans: "kept a b \<Longrightarrow> kept b c \<Longrightarrow> kept a c"
  using extends_trans unfolding kept_def by blast

lemma same_moves_once: "pd_moves db' = pd_moves db \<Longrightarrow> once db' \<longleftrightarrow> once db"
  by (simp add: once_def credits_def rebates_def assignments_def)

text \<open>A change of one order.\<close>

lemma kept_order:
  assumes "get_order oid db = Some od" "fixed od' = fixed od" "pay_ok db \<Longrightarrow> order_ok oid od' db"
  shows "kept db (db\<lparr>pd_orders := tput oid od' (pd_orders db)\<rparr>)"
proof -
  let ?d = "db\<lparr>pd_orders := tput oid od' (pd_orders db)\<rparr>"
  have x: "extends db ?d" using assms(1,2) by (auto simp: extends_def get_order_def map_of_tput same_code_def)
  moreover have "pay_ok ?d" if p: "pay_ok db"
  proof (rule pay_ok_extends [OF p x])
    show "users_ok ?d" using p by (simp add: pay_ok_def users_ok_def)
    show "once ?d" using p same_moves_once [of ?d db] by (simp add: pay_ok_def)
    show "get_order k ?d = Some v \<Longrightarrow> get_order k db = Some v \<or> order_ok k v ?d" for k v
      using order_ok_extends [OF assms(3) [OF p] x] by (auto simp: get_order_def map_of_tput split: if_splits)
  qed (auto simp: moved_in_def)
  ultimately show ?thesis by (simp add: kept_def)
qed

lemma kept_audit:
  assumes "map_of (pd_audit db) k = None"
  shows "kept db (db\<lparr>pd_audit := tput k d (pd_audit db)\<rparr>)"
proof -
  let ?d = "db\<lparr>pd_audit := tput k d (pd_audit db)\<rparr>"
  have x: "extends db ?d" using assms by (auto simp: extends_def get_order_def map_of_tput same_code_def)
  moreover have "pay_ok ?d" if p: "pay_ok db"
  proof (rule pay_ok_extends [OF p x])
    show "users_ok ?d" using p by (simp add: pay_ok_def users_ok_def)
    show "once ?d" using p same_moves_once [of ?d db] by (simp add: pay_ok_def)
  qed (auto simp: moved_in_def get_order_def)
  ultimately show ?thesis by (simp add: kept_def)
qed

lemma kept_writeAuditLog [simp]: "kept db (writeAuditLog i oid act db)"
  using kept_audit by (cases "map_of (pd_audit db) (oid, act)") (auto simp: writeAuditLog_def)

text \<open>A history entry that says nothing of credits, rebates and assignments, and a change of customers' balances.\<close>

definition plain_move :: "pay_move \<Rightarrow> bool" where
  "plain_move m \<longleftrightarrow> (case m of MCredited _ _ _ \<Rightarrow> False | MRebate _ _ \<Rightarrow> False | MAssigned _ \<Rightarrow> False | _ \<Rightarrow> True)"

lemma extends_move: "extends db (record_move m db)"
  by (auto simp: extends_def record_move_def get_order_def same_code_def)

lemma moved_in_record: "moved_in m' (record_move m db) \<longleftrightarrow> m' = m \<or> moved_in m' db"
  by (auto simp: moved_in_def record_move_def)

lemma kept_plain:
  assumes "plain_move m"
  shows "kept db (record_move m db)"
proof -
  have "pay_ok (record_move m db)" if p: "pay_ok db"
  proof (rule pay_ok_extends [OF p extends_move])
    show "users_ok (record_move m db)" using p by (simp add: pay_ok_def users_ok_def record_move_def)
    have "credits c (record_move m db) = credits c db" "rebates oid (record_move m db) = rebates oid db"
      "assignments oid (record_move m db) = assignments oid db" for c oid
      using assms by (auto simp: credits_def rebates_def assignments_def record_move_def plain_move_def split: pay_move.splits)
    then show "once (record_move m db)" using p by (simp add: pay_ok_def once_def)
    show "moved_in m' (record_move m db) \<Longrightarrow> moved_in m' db \<or> move_ok m' (record_move m db)" for m'
      using assms by (auto simp: moved_in_record move_ok_def plain_move_def split: pay_move.splits)
  qed (auto simp: record_move_def get_order_def)
  then show ?thesis using extends_move by (simp add: kept_def)
qed

lemma kept_users:
  assumes "users_ok db \<Longrightarrow> users_ok (db\<lparr>pd_users := us\<rparr>)"
  shows "kept db (db\<lparr>pd_users := us\<rparr>)"
proof -
  let ?d = "db\<lparr>pd_users := us\<rparr>"
  have x: "extends db ?d" by (auto simp: extends_def get_order_def same_code_def)
  moreover have "pay_ok ?d" if p: "pay_ok db"
  proof (rule pay_ok_extends [OF p x])
    show "users_ok ?d" using p assms by (simp add: pay_ok_def)
    show "once ?d" using p same_moves_once [of ?d db] by (simp add: pay_ok_def)
  qed (auto simp: moved_in_def get_order_def)
  ultimately show ?thesis by (simp add: kept_def)
qed

lemma round8_idem [simp]: "round8 (round8 x) = round8 x"
proof -
  let ?n = "\<lfloor>\<bar>x\<bar> * 100000000 + 1 / 2\<rfloor>"
  have n: "0 \<le> ?n" by simp
  have r: "round8 x = sgn x * (of_int ?n / 100000000)" by (simp add: round8_def)
  have "\<bar>round8 x\<bar> * 100000000 = of_int ?n" if "x \<noteq> 0" using that n by (simp add: r abs_mult abs_sgn_eq)
  then have a: "\<lfloor>\<bar>round8 x\<bar> * 100000000 + 1 / 2\<rfloor> = ?n" if "x \<noteq> 0" using that by (simp add: floor_unique)
  have "sgn (round8 x) = sgn x" if "?n \<noteq> 0"
  proof -
    have "0 < (of_int ?n / 100000000 :: rat)" using that n by linarith
    then show ?thesis unfolding r by (simp only: sgn_mult sgn_sgn sgn_pos mult_1_right)
  qed
  then show ?thesis using a by (cases "x = 0 \<or> ?n = 0") (auto simp: round8_def)
qed

lemma column8_round8 [simp]: "column8 (round8 x)"
  by (simp add: column8_def)

lemma kept_put_user:
  assumes "column8 (pu_balance u)"
  shows "kept db (db\<lparr>pd_users := tput uid u (pd_users db)\<rparr>)"
  by (rule kept_users) (use assms in \<open>auto simp: users_ok_def map_of_tput\<close>)

lemma kept_UpdateBalance: "UpdateBalance uid a db = Some db' \<Longrightarrow> kept db db'"
  using kept_put_user by (auto simp: UpdateBalance_def split: option.splits)

lemma kept_Deduct: "DeductAvailableBalance uid a db = Some (taken, db') \<Longrightarrow> kept db db'"
  using kept_put_user by (auto simp: DeductAvailableBalance_def Let_def split: option.splits if_splits)

lemma run_stmt_kept:
  assumes "run_stmt i body db = (r, db1)" "\<And>db' v. body db = Commit db' v \<Longrightarrow> kept db db'"
  shows "kept db db1"
proof -
  have "db1 = db \<or> (\<exists>v. body db = Commit db1 v)"
    using run_tx_snd [of "pi_fault i" PDb body db] assms(1) unfolding run_stmt_def by (metis snd_conv)
  then show ?thesis using assms(2) pay_kept_refl by blast
qed

lemma run_stmt_ok:
  assumes "run_stmt i body db = (Inr x, db1)"
  shows "body db = Rollback (Inr x) \<and> db1 = db \<or> body db = Commit db1 (Inr x)"
  by (rule run_tx_ok [OF assms [unfolded run_stmt_def]])

lemma update_order_commit:
  assumes "update_order now oid guard change db = Commit db' v"
  obtains od where "get_order oid db = Some od" "guard od" "v = Inr True"
    "db' = db\<lparr>pd_orders := tput oid ((change od)\<lparr>po_updated := now\<rparr>) (pd_orders db)\<rparr>"
  using assms by (auto simp: update_order_def split: option.splits if_splits)

lemma fixed_updated [simp]: "fixed (od\<lparr>po_updated := n\<rparr>) = fixed od"
  by (simp add: fixed_def)

lemma order_ok_updated [simp]: "order_ok oid (od\<lparr>po_updated := n\<rparr>) db = order_ok oid od db"
  by (simp add: order_ok_def paid_out_def)

text \<open>An update that leaves the fixed columns alone, and whose new row the invariant allows.\<close>

definition allowed :: "int \<Rightarrow> (pay_order \<Rightarrow> bool) \<Rightarrow> (pay_order \<Rightarrow> pay_order) \<Rightarrow> pay_db \<Rightarrow> bool" where
  "allowed oid guard change db \<longleftrightarrow> (\<forall>od. get_order oid db = Some od \<longrightarrow> guard od \<longrightarrow>
     fixed (change od) = fixed od \<and> (pay_ok db \<longrightarrow> order_ok oid (change od) db))"

lemma kept_update_order:
  assumes "update_order now oid guard change db = Commit db' v" "allowed oid guard change db"
  shows "kept db db'"
proof -
  obtain od where od: "get_order oid db = Some od" "guard od"
    "db' = db\<lparr>pd_orders := tput oid ((change od)\<lparr>po_updated := now\<rparr>) (pd_orders db)\<rparr>"
    using update_order_commit [OF assms(1)] by metis
  have "fixed (change od) = fixed od \<and> (pay_ok db \<longrightarrow> order_ok oid (change od) db)" using assms(2) od(1,2) unfolding allowed_def by blast
  then show ?thesis unfolding od(3) by (intro kept_order [OF od(1)]) simp_all
qed

lemma kept_set_order:
  assumes "set_order now oid change db = Commit db' v" "allowed oid (\<lambda>_. True) change db"
  shows "kept db db'"
  using assms kept_update_order by (auto simp: set_order_def split: tx.splits)

lemma pay_ok_order: "pay_ok db \<Longrightarrow> get_order oid db = Some od \<Longrightarrow> order_ok oid od db"
  by (simp add: pay_ok_def)

text \<open>The status may change to one that is not served, or to any once the order is paid out; the other columns do not matter.\<close>

lemma allowed_change:
  assumes "\<And>od. fixed (change od) = fixed od" "\<And>od. guard od \<Longrightarrow> po_paid_at (change od) \<noteq> po_paid_at od \<Longrightarrow> confirmed oid db"
    "\<And>od. get_order oid db = Some od \<Longrightarrow> guard od \<Longrightarrow> served (po_status (change od)) \<Longrightarrow>
        served (po_status od) \<or> paid_out od db \<and> confirmed oid db"
  shows "allowed oid guard change db"
  unfolding allowed_def
proof (intro allI impI conjI)
  fix od assume od: "get_order oid db = Some od" "guard od"
  show "fixed (change od) = fixed od" by (rule assms(1))
  show "order_ok oid (change od) db" if p: "pay_ok db"
  proof -
    have o: "order_ok oid od db" by (rule pay_ok_order [OF p od(1)])
    have c: "po_code (change od) = po_code od" using assms(1) [of od] by (simp add: fixed_def)
    have "paid_out (change od) db = paid_out od db" by (rule paid_out_fixed [OF assms(1)])
    then show ?thesis using o c assms(2,3) od unfolding order_ok_def by metis
  qed
qed

section \<open>Handlers that read\<close>

definition fine :: "pay_db \<Rightarrow> task \<times> pay_db \<Rightarrow> bool" where
  "fine db r \<longleftrightarrow> kept db (snd r) \<and> (pay_ok db \<longrightarrow> task_ok (fst r) (snd r))"

lemma fine_same [simp]: "fine db (t, db) \<longleftrightarrow> (pay_ok db \<longrightarrow> task_ok t db)"
  by (simp add: fine_def)

lemma fine_audit: "fine db (t, db1) \<Longrightarrow> fine db (t, writeAuditLog i oid act db1)"
  using kept_trans kept_writeAuditLog task_ok_extends unfolding fine_def kept_def by (metis fst_conv snd_conv)

lemma kept_then_audit [simp, intro]: "kept db db1 \<Longrightarrow> kept db (writeAuditLog i oid act db1)"
  using kept_trans kept_writeAuditLog by blast

lemma fine_done [simp]: "fine db (TDone r, db1) \<longleftrightarrow> kept db db1"
  by (simp add: fine_def)

lemma snap_ok_read: "get_order oid db = Some od \<Longrightarrow> snap_ok (oid, od) db"
  by (simp add: snap_ok_def)

lemma served_read: "pay_ok db \<Longrightarrow> get_order oid db = Some od \<Longrightarrow> served (po_status od) \<Longrightarrow> paid_out od db \<and> confirmed oid db"
  using pay_ok_order order_ok_def by blast

lemma confirmed_now: "confirmed oid (record_move (MConfirmed oid a) db)"
  by (auto simp: confirmed_def moved_in_record)

lemmas read_splits = option.splits prod.splits if_splits

lemma fine_notify: "fine db (HandlePaymentNotification i n pk db)"
  by (auto simp: HandlePaymentNotification_def split: read_splits)

lemma fine_confirm: "fine db (confirmPayment env i oid trade paid pk meta db)"
proof -
  have "fine db (TToPaid (oid, od) trade a pk, record_move (MConfirmed oid a) db)" if "get_order oid db = Some od" for od a
    using that kept_plain [of "MConfirmed oid a" db] confirmed_now snap_ok_extends [OF snap_ok_read [OF that] extends_move]
    by (simp add: fine_def plain_move_def)
  then show ?thesis by (auto simp: confirmPayment_def Let_def intro!: fine_audit split: read_splits gofloat.splits)
qed

lemma fine_already: "confirmed oid db \<Longrightarrow> fine db (alreadyProcessed i oid db)"
  by (auto simp: alreadyProcessed_def split: read_splits)

lemma fine_execute: "confirmed oid db \<Longrightarrow> fine db (executeFulfillment i oid db)"
  by (auto simp: executeFulfillment_def snap_ok_read split: read_splits)

lemma fine_balance: "confirmed oid db \<Longrightarrow> fine db (ExecuteBalanceFulfillment i oid db)"
  by (auto simp: ExecuteBalanceFulfillment_def snap_ok_read split: read_splits)

lemma fine_subscription: "confirmed oid db \<Longrightarrow> fine db (ExecuteSubscriptionFulfillment i oid db)"
  by (auto simp: ExecuteSubscriptionFulfillment_def snap_ok_read split: read_splits)

lemma fine_lease_lost: "fine db (lease_lost i sn db)"
  by (auto simp: lease_lost_def split: read_splits)

lemma fine_lease_read: "snap_ok sn db \<Longrightarrow> confirmed (fst sn) db \<Longrightarrow> fine db (lease_read i sn db)"
  by (auto simp: lease_read_def split: read_splits)

lemma fine_doBalance:
  assumes "snap_ok sn db" "confirmed (fst sn) db"
  shows "fine db (doBalance i sn v db)"
proof (cases "map_of (pd_codes db) (po_code (snd sn))")
  case None
  then show ?thesis using assms by (simp add: doBalance_def Let_def resolveRedeemAction_def)
next
  case (Some c)
  then have "paid_out (snd sn) db" if "validatePaymentRedeemCode (snd sn) c" "rc_status c = CUsed"
    using that by (auto simp: paid_out_def validatePaymentRedeemCode_def close_to_def)
  moreover have "code_ready (snd sn) db" if "validatePaymentRedeemCode (snd sn) c"
    using that Some by (auto simp: code_ready_def validatePaymentRedeemCode_def close_to_def)
  ultimately show ?thesis using assms Some by (simp add: doBalance_def Let_def resolveRedeemAction_def)
qed

lemma redeem_check_read: "redeem_check i uid code db = Inr rc \<Longrightarrow> code_read code rc db \<and> map_of (pd_codes db) code = Some rc"
  by (auto simp: redeem_check_def code_read_def split: read_splits)

lemma fine_redeem: "task_ok (TRedeem sn v) db \<Longrightarrow> fine db (redeem_for_payment i sn v db)"
  using redeem_check_read by (auto simp: redeem_for_payment_def split: sum.splits)

lemma fine_public: "fine db (public_redeem i uid code db)"
  using redeem_check_read by (auto simp: public_redeem_def split: sum.splits)

lemma fine_completion_lost: "fine db (completion_lost i sn v db)"
  by (auto simp: completion_lost_def split: read_splits)

lemma fine_retry: "fine db (RetryFulfillment i oid db)"
  using pay_ok_order by (auto simp: RetryFulfillment_def order_ok_def intro!: fine_audit split: read_splits)

lemma fine_cancel: "fine db (CancelOrder i oid user db)"
  by (auto simp: CancelOrder_def split: read_splits)

lemma fine_cancelCore: "final \<in> {OCancelled, OExpired} \<Longrightarrow> fine db (cancelCore sn final db)"
  by (auto simp: cancelCore_def)

lemma fine_checkPaid:
  assumes "task_ok (TCheckPaid sn cont) db"
  shows "fine db (checkPaidWithOptions env i sn cont db)"
  using assms by (auto simp: checkPaidWithOptions_def Let_def intro!: fine_audit split: read_splits)

lemma fine_verify: "fine db (VerifyOrderByOutTradeNo i raw uid db)"
  by (auto simp: VerifyOrderByOutTradeNo_def split: read_splits)

lemma fine_create: "fine db (create_check env i req db)"
  by (auto simp: create_check_def)

lemma fine_request: "fine db (RequestRefund i oid uid reason db)"
  by (auto simp: RequestRefund_def snap_ok_read split: read_splits)

lemma fine_request_balance: "snap_ok sn db \<Longrightarrow> fine db (request_balance i sn reason db)"
  by (auto simp: request_balance_def split: read_splits)

lemma plan_ok_read:
  assumes "pay_ok db" "get_order oid db = Some od" "served (po_status od)"
  shows "plan_ok (refund_plan (oid, od) a r f) db"
  using served_read [OF assms] snap_ok_read [OF assms(2)] by (simp add: plan_ok_def refund_plan_def)

lemma refundable_served: "refundable s \<Longrightarrow> served s"
  by (auto simp: refundable_def served_def psIsRefundStatus_def)

lemma fine_prepare: "fine db (PrepareRefund i oid amt reason force deduct db)"
  by (auto simp: PrepareRefund_def Let_def plan_ok_read refundable_served split: read_splits gofloat.splits)

lemma plan_ok_order: "rp_Order q = rp_Order p \<Longrightarrow> plan_ok p db \<Longrightarrow> plan_ok q db"
  by (simp add: plan_ok_def)

lemma fine_prepDeduct: "plan_ok p db \<Longrightarrow> fine db (prepDeduct i p db)"
  by (auto simp: prepDeduct_def plan_days_def Let_def plan_ok_def split: read_splits)

lemma fine_finalize: "fine db (QueryAndFinalizeRefund i oid db)"
  using served_read by (auto simp: QueryAndFinalizeRefund_def snap_ok_read served_def psIsRefundStatus_def split: read_splits)

lemma fine_detail: "task_ok (TFinalDetail sn) db \<Longrightarrow> fine db (latestRefundPendingDetail i sn db)"
  by (auto simp: latestRefundPendingDetail_def)

lemma finalize_plan_order: "rp_Order (finalize_plan i sn d) = sn"
  by (simp add: finalize_plan_def refundFinalizePlan_def refund_plan_def plan_days_def Let_def)

lemma fine_query: "task_ok (TFinalQuery sn d) db \<Longrightarrow> fine db (query_refund i sn d db)"
  by (auto simp: query_refund_def Let_def plan_ok_def finalize_plan_order split: refund_verdict.splits)

section \<open>Handlers that write\<close>

lemma not_served [simp]: "\<not> served OPaid" "\<not> served OFailed" "\<not> served ORecharging" "\<not> served OCancelled" "\<not> served OExpired" "\<not> served OPending"
  by (simp_all add: served_def psIsRefundStatus_def)

lemma is_served [simp]: "served OCompleted" "served ORefundRequested" "served ORefunding" "served ORefundPending" "served OPartiallyRefunded"
    "served ORefunded" "served ORefundFailed"
  by (simp_all add: served_def psIsRefundStatus_def)

lemma fine_stay: "kept db db1 \<Longrightarrow> task_ok t db \<Longrightarrow> fine db (t, db1)"
  using task_ok_extends by (auto simp: fine_def kept_def)

lemma kept_update_stmt:
  "run_stmt i (update_order now oid guard change) db = (r, db1) \<Longrightarrow> allowed oid guard change db \<Longrightarrow> kept db db1"
  using run_stmt_kept kept_update_order by metis

lemma kept_set_stmt:
  "run_stmt i (set_order now oid change) db = (r, db1) \<Longrightarrow> allowed oid (\<lambda>_. True) change db \<Longrightarrow> kept db db1"
  using run_stmt_kept kept_set_order by metis

lemma fixed_change [simp]:
  "fixed (od\<lparr>po_status := s\<rparr>) = fixed od" "fixed (od\<lparr>po_failed := f\<rparr>) = fixed od" "fixed (od\<lparr>po_pay := a\<rparr>) = fixed od"
  "fixed (od\<lparr>po_trade := t\<rparr>) = fixed od" "fixed (od\<lparr>po_paid_at := p\<rparr>) = fixed od" "fixed (od\<lparr>po_completed_at := p\<rparr>) = fixed od"
  "fixed (od\<lparr>po_refund := a\<rparr>) = fixed od" "fixed (od\<lparr>po_reason := x\<rparr>) = fixed od" "fixed (od\<lparr>po_refund_at := p\<rparr>) = fixed od"
  "fixed (od\<lparr>po_force := b\<rparr>) = fixed od" "fixed (od\<lparr>po_requested := q\<rparr>) = fixed od" "fixed (od\<lparr>po_provider := k\<rparr>) = fixed od"
  by (simp_all add: fixed_def)

lemma allowed_unserved:
  "(\<And>od. fixed (change od) = fixed od) \<Longrightarrow> (\<And>od. po_paid_at (change od) = po_paid_at od) \<Longrightarrow>
    (\<And>od. guard od \<Longrightarrow> served (po_status (change od)) \<Longrightarrow> served (po_status od)) \<Longrightarrow> allowed oid guard change db"
  by (rule allowed_change) auto

text \<open>A status set for an order of a refund plan, or of a completed fulfilment, is covered by what the task knows.\<close>

lemma allowed_served:
  assumes "snap_ok sn db" "paid_out (snd sn) db" "confirmed (fst sn) db" "\<And>od. fixed (change od) = fixed od"
    "\<And>od. po_paid_at (change od) = po_paid_at od"
  shows "allowed (fst sn) guard change db"
proof (rule allowed_change)
  fix od assume "get_order (fst sn) db = Some od"
  then have "fixed od = fixed (snd sn)" using assms(1) by (simp add: snap_ok_def)
  then show "served (po_status od) \<or> paid_out od db \<and> confirmed (fst sn) db" using assms(2,3) paid_out_fixed by blast
qed (use assms(4,5) in simp_all)

lemma fine_toPaid:
  assumes "task_ok (TToPaid sn trade paid pk) db"
  shows "fine db (toPaid i sn trade paid pk db)"
proof -
  obtain oid od where sn: "sn = (oid, od)" by (cases sn)
  have c: "confirmed oid db" using assms by (simp add: sn)
  have a: "allowed oid (payable (pi_now i)) (mark_paid (pi_now i) trade paid) db"
    by (rule allowed_change) (use c in \<open>auto simp: mark_paid_def\<close>)
  obtain r db1 where r: "run_stmt i (update_order (pi_now i) oid (payable (pi_now i)) (mark_paid (pi_now i) trade paid)) db = (r, db1)" by fastforce
  note k = kept_update_stmt [OF r a]
  show ?thesis using r c fine_stay [OF k] k by (auto simp: toPaid_def sn intro!: fine_audit split: sum.splits)
qed

lemma fine_reject: "fine db (rejectUnsupportedOrderType i sn db)"
proof -
  let ?f = "\<lambda>od. od\<lparr>po_status := OFailed, po_failed := (Some (pi_now i), Some ''unsupported order type'')\<rparr>"
  obtain r db1 where r: "run_stmt i (update_order (pi_now i) (fst sn) (\<lambda>od. po_status od \<in> {OPaid, ORecharging}) ?f) db = (r, db1)" by fastforce
  have "kept db db1" by (rule kept_update_stmt [OF r]) (rule allowed_unserved; simp)
  then show ?thesis using r by (auto simp: rejectUnsupportedOrderType_def intro!: fine_audit split: sum.splits bool.splits)
qed

lemma fine_acquire:
  assumes "snap_ok sn db" "confirmed (fst sn) db"
  shows "fine db (acquirePaymentFulfillmentLease i sn db)"
proof -
  let ?n = "Truncate (pi_now i) Microsecond"
  let ?f = "\<lambda>od. od\<lparr>po_status := ORecharging, po_failed := (None, None)\<rparr>"
  obtain r db1 where r: "run_stmt i (update_order ?n (fst sn) (lease_free ?n) ?f) db = (r, db1)" by fastforce
  have "kept db db1" by (rule kept_update_stmt [OF r]) (rule allowed_unserved; simp)
  then show ?thesis using r assms by (auto simp: acquirePaymentFulfillmentLease_def Let_def intro!: fine_stay split: sum.splits)
qed

lemma fine_failed: "fine db (markFailed i oid v e db)"
proof -
  let ?f = "\<lambda>od. od\<lparr>po_status := OFailed, po_failed := (Some (pi_now i), Some ''fulfillment failed'')\<rparr>"
  obtain r db1 where r: "run_stmt i (update_order (pi_now i) oid (leased v) ?f) db = (r, db1)" by fastforce
  have "kept db db1" by (rule kept_update_stmt [OF r]) (rule allowed_unserved; simp)
  then show ?thesis using r by (auto simp: markFailed_def intro!: fine_audit split: sum.splits bool.splits)
qed

lemma fine_cancel_update:
  assumes "final \<in> {OCancelled, OExpired}"
  shows "fine db (cancel_update i sn final db)"
proof -
  obtain r db1 where r: "run_stmt i (update_order (pi_now i) (fst sn) (\<lambda>od. po_status od = OPending) (\<lambda>od. od\<lparr>po_status := final\<rparr>)) db = (r, db1)" by fastforce
  have "kept db db1" by (rule kept_update_stmt [OF r]) (rule allowed_unserved; use assms in auto)
  then show ?thesis using r by (auto simp: cancel_update_def intro!: fine_audit split: sum.splits)
qed

lemma fine_persist: "fine db (persist_trade i sn up pk n db)"
proof -
  obtain r db1 where r: "run_stmt i (update_order (pi_now i) (fst sn) (\<lambda>_. True) (\<lambda>od. od\<lparr>po_trade := up\<rparr>)) db = (r, db1)" by fastforce
  have "kept db db1" by (rule kept_update_stmt [OF r]) (rule allowed_unserved; simp)
  then show ?thesis using r by (simp add: persist_trade_def fine_def)
qed

lemma fine_invoke: "fine db (invokeProvider i oid db)"
proof -
  let ?f = "\<lambda>od. od\<lparr>po_trade := (if pi_text i = [] then po_trade od else pi_text i),
             po_provider := (case pi_provider i of None \<Rightarrow> po_provider od | Some k \<Rightarrow> Some k)\<rparr>"
  obtain r db1 where r: "run_stmt i (set_order (pi_now i) oid ?f) db = (r, db1)" by fastforce
  have "kept db db1" by (rule kept_set_stmt [OF r]) (rule allowed_unserved; simp)
  then show ?thesis using r by (auto simp: invokeProvider_def intro!: fine_audit fine_stay split: sum.splits)
qed

lemma fine_create_failed: "fine db (create_failed i oid e db)"
proof -
  obtain r db1 where r: "run_stmt i (set_order (pi_now i) oid (\<lambda>od. od\<lparr>po_status := OFailed\<rparr>)) db = (r, db1)" by fastforce
  have "kept db db1" by (rule kept_set_stmt [OF r]) (rule allowed_unserved; simp)
  then show ?thesis using r by (simp add: create_failed_def)
qed

lemma fine_request_update: "fine db (request_update i sn reason db)"
proof -
  obtain oid od where sn: "sn = (oid, od)" by (cases sn)
  let ?g = "\<lambda>cur. po_user cur = po_user od \<and> po_status cur = OCompleted \<and> po_type cur = OrderTypeBalance"
  let ?f = "\<lambda>cur. cur\<lparr>po_status := ORefundRequested, po_refund := column2 (po_amount od),
             po_requested := Some (pi_now i, strings_TrimSpace reason, FormatInt (po_user od))\<rparr>"
  obtain r db1 where r: "run_stmt i (update_order (pi_now i) oid ?g ?f) db = (r, db1)" by fastforce
  have "kept db db1" by (rule kept_update_stmt [OF r]) (rule allowed_unserved; auto)
  then show ?thesis using r by (auto simp: request_update_def sn intro!: fine_audit split: sum.splits)
qed

lemma fine_lock:
  assumes "plan_ok p db"
  shows "fine db (refund_lock i p db)"
proof -
  obtain r db1 where r: "run_stmt i (update_order (pi_now i) (plan_oid p) (\<lambda>od. refundable (po_status od)) (\<lambda>od. od\<lparr>po_status := ORefunding\<rparr>)) db = (r, db1)" by fastforce
  have "kept db db1" by (rule kept_update_stmt [OF r]) (rule allowed_unserved; use refundable_served in auto)
  then show ?thesis using r assms by (auto simp: refund_lock_def intro!: fine_stay split: sum.splits)
qed

lemma fine_restore:
  assumes "plan_ok p db"
  shows "fine db (restoreStatus i p r db)"
proof -
  let ?s = "if po_status (snd (rp_Order p)) = ORefundRequested then ORefundRequested else OCompleted"
  obtain q db1 where q: "run_stmt i (set_order (pi_now i) (plan_oid p) (\<lambda>od. od\<lparr>po_status := ?s\<rparr>)) db = (q, db1)" by fastforce
  have "kept db db1" by (rule kept_set_stmt [OF q])
      (use assms in \<open>auto simp: plan_ok_def plan_oid_def intro!: allowed_served\<close>)
  then show ?thesis using q by (auto simp: restoreStatus_def Let_def intro!: fine_audit)
qed

lemma fine_refund_failed:
  assumes "plan_ok p db"
  shows "fine db (refund_failed i p db)"
proof -
  obtain q db1 where q: "run_stmt i (set_order (pi_now i) (plan_oid p) (mark_refund_failed (pi_now i))) db = (q, db1)" by fastforce
  have "kept db db1" by (rule kept_set_stmt [OF q])
      (use assms in \<open>auto simp: plan_ok_def plan_oid_def mark_refund_failed_def intro!: allowed_served\<close>)
  then show ?thesis using q by (auto simp: refund_failed_def intro!: fine_audit)
qed

section \<open>Codes\<close>

lemma recharge_code_trim [simp]: "strings_TrimSpace (recharge_code oid t) = recharge_code oid t"
proof -
  have n: "0 \<le> t mod 100000" by simp
  obtain xs e where e: "dec (nat (t mod 100000)) = xs @ [e]" using dec_not_Nil by (metis rev_exhaust)
  have "is_digit e" using digits_dec [of "nat (t mod 100000)"] by (simp add: e)
  then have b: "33 \<le> byte e" "byte e < 128" using digit_byte by blast+
  have "\<not> t mod 100000 < 0" using n by (simp only: not_less)
  then have "recharge_code oid t = CHR ''P'' # (''AY-'' @ FormatInt oid @ ''-'' @ xs) @ [e]"
    using e by (simp add: recharge_code_def FormatInt_def)
  then show ?thesis using TrimSpace_id [of "CHR ''P''" e "''AY-'' @ FormatInt oid @ ''-'' @ xs"] b by (simp add: byte_def)
qed

lemma recharge_code_inj:
  assumes "recharge_code a t = recharge_code b u" "0 < a" "0 < b"
  shows "a = b"
proof -
  have "takeWhile is_digit (dec n @ CHR ''-'' # x) = dec n" for n x
    using digits_dec [of n] by (simp add: list_all_iff is_digit_def)
  moreover have "dec (nat a) @ CHR ''-'' # FormatInt (t mod 100000) = dec (nat b) @ CHR ''-'' # FormatInt (u mod 100000)"
    using assms by (simp add: recharge_code_def FormatInt_def)
  ultimately have "dec (nat a) = dec (nat b)" by metis
  then have "nat a = nat b" by (metis undec_dec)
  then show ?thesis using assms by simp
qed

lemma round8_close: "close_to (round8 x) x"
proof -
  let ?y = "\<bar>x\<bar> * 100000000 + 1 / 2"
  have f: "of_int \<lfloor>?y\<rfloor> \<le> ?y" "?y < of_int \<lfloor>?y\<rfloor> + 1" by linarith+
  then have "\<bar>of_int \<lfloor>?y\<rfloor> / 100000000 - \<bar>x\<bar>\<bar> \<le> 1 / 100000000" by linarith
  then show ?thesis by (cases "x > 0"; cases "x = 0") (auto simp: round8_def close_to_def sgn_if abs_if split: if_splits)
qed

lemma kept_new_order:
  assumes "get_order oid db = None" "order_ok oid od db"
  shows "kept db (db\<lparr>pd_orders := tput oid od (pd_orders db)\<rparr>)"
proof -
  let ?d = "db\<lparr>pd_orders := tput oid od (pd_orders db)\<rparr>"
  have x: "extends db ?d" using assms(1) by (auto simp: extends_def get_order_def map_of_tput same_code_def)
  moreover have "pay_ok ?d" if p: "pay_ok db"
  proof (rule pay_ok_extends [OF p x])
    show "users_ok ?d" using p by (simp add: pay_ok_def users_ok_def)
    show "once ?d" using p same_moves_once [of ?d db] by (simp add: pay_ok_def)
    show "get_order k ?d = Some v \<Longrightarrow> get_order k db = Some v \<or> order_ok k v ?d" for k v
      using order_ok_extends [OF assms(2) x] by (auto simp: get_order_def map_of_tput split: if_splits)
  qed (auto simp: moved_in_def)
  ultimately show ?thesis by (simp add: kept_def)
qed

lemma kept_new_code:
  assumes "map_of (pd_codes db) c = None" "code_ok c row db"
  shows "kept db (db\<lparr>pd_codes := tput c row (pd_codes db)\<rparr>)"
proof -
  let ?d = "db\<lparr>pd_codes := tput c row (pd_codes db)\<rparr>"
  have x: "extends db ?d" using assms(1) by (auto simp: extends_def get_order_def map_of_tput same_code_def)
  moreover have "pay_ok ?d" if p: "pay_ok db"
  proof (rule pay_ok_extends [OF p x])
    show "users_ok ?d" using p by (simp add: pay_ok_def users_ok_def)
    show "once ?d" using p same_moves_once [of ?d db] by (simp add: pay_ok_def)
    show "map_of (pd_codes ?d) k = Some v \<Longrightarrow> map_of (pd_codes db) k = Some v \<or> code_ok k v ?d" for k v
      using code_ok_extends [OF assms(2) x] by (auto simp: map_of_tput split: if_splits)
  qed (auto simp: moved_in_def get_order_def)
  ultimately show ?thesis by (simp add: kept_def)
qed

lemma fine_insert: "fine db (insert_order env i req db)"
proof -
  let ?body = "\<lambda>db. if pi_text i = [] \<or> find_out (pi_text i) db \<noteq> None \<or> pi_id i \<le> 0 \<or> get_order (pi_id i) db \<noteq> None then Rollback (Inl PDb)
          else Commit (db\<lparr>pd_orders := tput (pi_id i) (new_order env i req) (pd_orders db)\<rparr>) (Inr ())"
  obtain r db1 where r: "run_stmt i ?body db = (r, db1)" by fastforce
  have "kept db db1"
    by (rule run_stmt_kept [OF r]) (auto split: if_splits simp: new_order_def order_ok_def intro!: kept_new_order)
  then show ?thesis using r by (auto simp: insert_order_def fine_def split: sum.splits)
qed

lemma insert_code_commit:
  "insert_code c row db = Commit db' v \<Longrightarrow> map_of (pd_codes db) c = None \<and> db' = db\<lparr>pd_codes := tput c row (pd_codes db)\<rparr> \<and> v = Inr ()"
  by (auto simp: insert_code_def split: if_splits)

lemma insert_code_rollback: "insert_code c row db = Rollback v \<Longrightarrow> v = Inl PCodeExists"
  by (auto simp: insert_code_def split: if_splits)

text \<open>The code of an order, created by its fulfilment.\<close>

lemma fine_create_code:
  assumes t: "task_ok (TCreateCode sn v) db"
  shows "fine db (create_order_code i sn v db)"
proof -
  let ?od = "snd sn" and ?c = "strings_TrimSpace (po_code (snd sn))"
  obtain r db1 where r: "CreateCode i (po_code ?od) (order_code ?od) db = (r, db1)" by fastforce
  let ?row = "(order_code ?od)\<lparr>rc_id := pi_id i, rc_value := round8 (po_amount ?od)\<rparr>"
  let ?body = "insert_code ?c ?row"
  have t1: "rc_type (order_code ?od) = RedeemTypeBalance" by (simp add: order_code_def)
  have cases: "db1 = db \<and> (\<exists>e. r = Inl e) \<or> run_stmt i ?body db = (r, db1)"
    using r by (auto simp: CreateCode_def Let_def t1 RedeemTypeBalance_def order_code_def split: if_splits)
  obtain cur where cur: "get_order (fst sn) db = Some cur" "fixed cur = fixed ?od" using t by (auto simp: snap_ok_def)
  have code: "code_ok ?c ?row db" using t cur by (auto simp: code_ok_def order_code_def fixed_def intro!: exI [of _ "fst sn"] exI [of _ cur])
  have k: "kept db db1"
    using cases
  proof
    assume "run_stmt i ?body db = (r, db1)"
    then show ?thesis by (rule run_stmt_kept) (auto dest!: insert_code_commit intro: kept_new_code [OF _ code])
  qed simp
  have ready: "code_ready ?od db1" if ru: "r = Inr u" and pk: "pay_ok db" for u
  proof -
    have "db1 = db\<lparr>pd_codes := tput ?c ?row (pd_codes db)\<rparr>"
    proof -
      have "run_stmt i ?body db = (Inr u, db1)" using cases ru by auto
      from run_stmt_ok [OF this] show ?thesis using insert_code_commit insert_code_rollback by blast
    qed
    moreover obtain w where "po_code cur = recharge_code (fst sn) w" using pay_ok_order [OF pk cur(1)] by (auto simp: order_ok_def)
    then have "po_code ?od = recharge_code (fst sn) w" using cur(2) by (simp add: fixed_def)
    then have "?c = po_code ?od" by simp
    ultimately show ?thesis using round8_close by (simp add: code_ready_def map_of_tput order_code_def RedeemTypeBalance_def)
  qed
  show ?thesis
  proof (cases r)
    case (Inl e)
    then show ?thesis using r k by (simp add: create_order_code_def fine_def)
  next
    case (Inr u)
    then have "create_order_code i sn v db = (TRedeem sn v, db1)" using r by (simp add: create_order_code_def)
    then show ?thesis using k ready [OF Inr] t by (auto simp: fine_def kept_def intro: snap_ok_extends confirmed_extends)
  qed
qed

lemma kept_admin_code:
  assumes "map_of (pd_codes db) c = None"
  shows "kept db (record_move (MAdminCode c) (db\<lparr>pd_codes := tput c row (pd_codes db)\<rparr>))"
proof -
  let ?d = "record_move (MAdminCode c) db"
  have "kept db ?d" by (rule kept_plain) (simp add: plain_move_def)
  moreover have "kept ?d (?d\<lparr>pd_codes := tput c row (pd_codes ?d)\<rparr>)"
    by (rule kept_new_code) (use assms in \<open>simp_all add: record_move_def code_ok_def moved_in_def\<close>)
  moreover have "?d\<lparr>pd_codes := tput c row (pd_codes ?d)\<rparr> = record_move (MAdminCode c) (db\<lparr>pd_codes := tput c row (pd_codes db)\<rparr>)"
    by (simp add: record_move_def)
  ultimately show ?thesis using kept_trans by metis
qed

lemma run_stmt_snd: "run_stmt i body db = (r, db1) \<Longrightarrow> db1 = db \<or> (\<exists>v. body db = Commit db1 v)"
  using run_tx_snd [of "pi_fault i" PDb body db] unfolding run_stmt_def by (metis snd_conv)

lemma fine_admin: "fine db (admin_code i code rc db)"
proof -
  let ?c = "strings_TrimSpace code"
  obtain r db1 where r: "CreateCode i code rc db = (r, db1)" by fastforce
  have "db1 = db \<or> map_of (pd_codes db) ?c = None \<and> (\<exists>row. db1 = db\<lparr>pd_codes := tput ?c row (pd_codes db)\<rparr>)"
    using r unfolding CreateCode_def Let_def by (auto split: if_splits dest!: run_stmt_snd insert_code_commit)
  then have "kept db (record_move (MAdminCode ?c) db1)"
    using kept_admin_code kept_plain [of "MAdminCode ?c" db] by (auto simp: plain_move_def)
  then show ?thesis using r by (auto simp: admin_code_def split: sum.splits)
qed

section \<open>Redemptions\<close>

text \<open>Marking a code used and paying it out is one transaction, which a code can go through once.\<close>

lemma credits_record:
  "credits c (record_move m db) = credits c db @ (case m of MCredited c' uid a \<Rightarrow> if c' = c then [(uid, a)] else [] | _ \<Rightarrow> [])"
  by (simp add: credits_def record_move_def)

lemma rebates_record:
  "rebates oid (record_move m db) = rebates oid db @ (case m of MRebate oid' a \<Rightarrow> if oid' = oid then [a] else [] | _ \<Rightarrow> [])"
  by (simp add: rebates_def record_move_def)

lemma assignments_record: "assignments oid (record_move m db) = assignments oid db + (if m = MAssigned oid then 1 else 0)"
  by (simp add: assignments_def record_move_def)

lemma credits_in: "(uid, a) \<in> set (credits c db) \<longleftrightarrow> moved_in (MCredited c uid a) db"
  by (fastforce simp: credits_def moved_in_def split: pay_move.splits if_splits)

lemma rebates_in: "a \<in> set (rebates oid db) \<longleftrightarrow> moved_in (MRebate oid a) db"
  by (fastforce simp: rebates_def moved_in_def split: pay_move.splits if_splits)

lemma no_credit_unused:
  assumes "pay_ok db" "map_of (pd_codes db) c = Some row" "rc_status row \<noteq> CUsed"
  shows "credits c db = []"
proof (rule ccontr)
  assume "credits c db \<noteq> []"
  then obtain uid a where "moved_in (MCredited c uid a) db" by (metis credits_in list.set_sel(1) surj_pair)
  then have "move_ok (MCredited c uid a) db" using assms(1) by (simp add: pay_ok_def)
  then show False using assms(2,3) by (simp add: move_ok_def)
qed

lemma kept_redeem:
  assumes u: "Use code (rc_id rc) uid db = Some db1" and rd: "code_read code rc db" and b: "rc_type rc = RedeemTypeBalance"
    and us: "users_ok db \<Longrightarrow> users_ok (db1\<lparr>pd_users := us\<rparr>)"
  shows "kept db (record_move (MCredited code uid (rc_value rc)) (db1\<lparr>pd_users := us\<rparr>))"
proof -
  let ?d = "record_move (MCredited code uid (rc_value rc)) (db1\<lparr>pd_users := us\<rparr>)"
  obtain row where row: "map_of (pd_codes db) code = Some row" "rc_id row = rc_id rc" "rc_type row = rc_type rc" "rc_value row = rc_value rc"
    using rd by (auto simp: code_read_def)
  let ?row = "row\<lparr>rc_status := CUsed, rc_used_by := Some uid\<rparr>"
  have un: "rc_status row = CUnused" and d1: "db1 = db\<lparr>pd_codes := tput code ?row (pd_codes db)\<rparr>"
    using u row by (auto simp: Use_def split: if_splits)
  have x: "extends db ?d"
    using row un by (auto simp: extends_def d1 record_move_def get_order_def map_of_tput same_code_def)
  have "pay_ok ?d" if p: "pay_ok db"
  proof (rule pay_ok_extends [OF p x])
    show "users_ok ?d" using us p by (simp add: pay_ok_def users_ok_def record_move_def)
    have old: "credits c (db1\<lparr>pd_users := us\<rparr>) = credits c db" "rebates oid (db1\<lparr>pd_users := us\<rparr>) = rebates oid db"
      "assignments oid (db1\<lparr>pd_users := us\<rparr>) = assignments oid db" for c oid
      by (simp_all add: credits_def rebates_def assignments_def d1)
    have "credits code db = []" by (rule no_credit_unused [OF p row(1)]) (simp add: un)
    then show "once ?d" using p by (simp add: once_def pay_ok_def credits_record rebates_record assignments_record old)
    show "get_order k ?d = Some v \<Longrightarrow> get_order k db = Some v \<or> order_ok k v ?d" for k v
      by (simp add: get_order_def record_move_def d1)
    have "code_ok code ?row ?d"
    proof -
      have "code_ok code row ?d" using code_ok_extends [OF _ x] p row(1) by (simp add: pay_ok_def)
      then show ?thesis by (auto simp: code_ok_def moved_in_record row)
    qed
    then show "map_of (pd_codes ?d) c = Some v \<Longrightarrow> map_of (pd_codes db) c = Some v \<or> code_ok c v ?d" for c v
      by (auto simp: record_move_def d1 map_of_tput split: if_splits)
    show "moved_in m ?d \<Longrightarrow> moved_in m db \<or> move_ok m ?d" for m
      using row by (auto simp: moved_in_record moved_in_def d1 move_ok_def) (auto simp: record_move_def map_of_tput)
  qed
  then show ?thesis using x by (simp add: kept_def)
qed

lemma kept_use_other:
  assumes u: "Use code (rc_id rc) uid db = Some db1" and rd: "code_read code rc db" and b: "rc_type rc \<noteq> RedeemTypeBalance"
  shows "kept db db1"
proof -
  obtain row where row: "map_of (pd_codes db) code = Some row" "rc_id row = rc_id rc" "rc_type row = rc_type rc" "rc_value row = rc_value rc"
    using rd by (auto simp: code_read_def)
  let ?row = "row\<lparr>rc_status := CUsed, rc_used_by := Some uid\<rparr>"
  have un: "rc_status row = CUnused" and d1: "db1 = db\<lparr>pd_codes := tput code ?row (pd_codes db)\<rparr>"
    using u row by (auto simp: Use_def split: if_splits)
  have x: "extends db db1"
    using row un by (auto simp: extends_def d1 get_order_def map_of_tput same_code_def)
  have "pay_ok db1" if p: "pay_ok db"
  proof (rule pay_ok_extends [OF p x])
    show "users_ok db1" using p by (simp add: pay_ok_def users_ok_def d1)
    show "once db1" using p same_moves_once [of db1 db] by (simp add: pay_ok_def d1)
    show "get_order k db1 = Some v \<Longrightarrow> get_order k db = Some v \<or> order_ok k v db1" for k v by (simp add: get_order_def d1)
    have "code_ok code row db" using p row(1) by (simp add: pay_ok_def)
    then have "moved_in (MAdminCode code) db" using row(3) b by (auto simp: code_ok_def)
    then have "code_ok code ?row db1" by (simp add: code_ok_def moved_in_def d1)
    then show "map_of (pd_codes db1) c = Some v \<Longrightarrow> map_of (pd_codes db) c = Some v \<or> code_ok c v db1" for c v
      by (auto simp: d1 map_of_tput split: if_splits)
    show "moved_in m db1 \<Longrightarrow> moved_in m db \<or> move_ok m db1" for m by (simp add: moved_in_def d1)
  qed
  then show ?thesis using x by (simp add: kept_def)
qed

lemma UpdateBalance_users:
  assumes "UpdateBalance uid a db = Some db'"
  obtains us where "db' = db\<lparr>pd_users := us\<rparr>" "users_ok db \<Longrightarrow> users_ok (db\<lparr>pd_users := us\<rparr>)"
  using assms that by (fastforce simp: UpdateBalance_def users_ok_def map_of_tput split: option.splits if_splits)

lemma Adjustment_users:
  assumes "ApplyRedeemBalanceAdjustment uid a db = Some db'"
  obtains us where "db' = db\<lparr>pd_users := us\<rparr>" "users_ok db \<Longrightarrow> users_ok (db\<lparr>pd_users := us\<rparr>)"
  using assms that by (fastforce simp: ApplyRedeemBalanceAdjustment_def users_ok_def map_of_tput split: option.splits if_splits)

lemma Use_row:
  assumes "Use code rid uid db = Some db1"
  shows "\<exists>row. map_of (pd_codes db) code = Some row \<and> rc_id row = rid \<and> rc_status row = CUnused \<and>
    db1 = db\<lparr>pd_codes := tput code (row\<lparr>rc_status := CUsed, rc_used_by := Some uid\<rparr>) (pd_codes db)\<rparr>"
  using assms by (auto simp: Use_def split: option.splits if_splits)

lemma redeem_tx_commit:
  assumes "redeem_tx env i skip uid code rc db = Commit db' v"
  obtains db1 where "Use code (rc_id rc) uid db = Some db1" "rc_type rc \<noteq> RedeemTypeBalance" "db' = db1" "v = Inr ()"
  | db1 us where "Use code (rc_id rc) uid db = Some db1" "rc_type rc = RedeemTypeBalance" "users_ok db \<Longrightarrow> users_ok (db1\<lparr>pd_users := us\<rparr>)"
      "db' = record_move (MCredited code uid (rc_value rc)) (db1\<lparr>pd_users := us\<rparr>)" "v = Inr ()"
proof -
  obtain db1 where u: "Use code (rc_id rc) uid db = Some db1" using assms by (auto simp: redeem_tx_def split: option.splits)
  then have users: "users_ok db1 \<longleftrightarrow> users_ok db" using Use_row [OF u] by (auto simp: users_ok_def)
  show ?thesis
  proof (cases "rc_type rc = RedeemTypeBalance")
    case False
    then show ?thesis using assms u that(1) by (auto simp: redeem_tx_def split: if_splits)
  next
    case True
    then obtain db2 where d2: "(if rc_value rc < 0 then ApplyRedeemBalanceAdjustment uid (rc_value rc) db1 else UpdateBalance uid (rc_value rc) db1) = Some db2"
      and c: "db' = record_move (MCredited code uid (rc_value rc)) db2" "v = Inr ()"
      using assms u by (auto simp: redeem_tx_def split: option.splits if_splits)
    obtain us where "db2 = db1\<lparr>pd_users := us\<rparr>" "users_ok db1 \<Longrightarrow> users_ok (db1\<lparr>pd_users := us\<rparr>)"
      using d2 UpdateBalance_users Adjustment_users by (metis (full_types))
    then show ?thesis by (intro that(2) [OF u True, of us]) (use c users in simp_all)
  qed
qed

lemma kept_redeem_tx:
  assumes "redeem_tx env i skip uid code rc db = Commit db' v" "code_read code rc db"
  shows "kept db db'"
  using assms(1)
proof (cases rule: redeem_tx_commit)
  case (1 db1)
  then show ?thesis using kept_use_other [OF _ assms(2)] by blast
next
  case (2 db1 us)
  then show ?thesis using kept_redeem [OF _ assms(2)] by blast
qed

lemma fine_public_tx:
  assumes "code_read code rc db"
  shows "fine db (public_redeem_tx env i uid code rc db)"
proof -
  obtain r db1 where r: "run_stmt i (redeem_tx env i False uid code rc) db = (r, db1)" by fastforce
  have "kept db db1" by (rule run_stmt_kept [OF r]) (rule kept_redeem_tx [OF _ assms])
  then show ?thesis using r by (auto simp: public_redeem_tx_def split: sum.splits)
qed

lemma fine_redeem_tx:
  assumes t: "task_ok (TRedeemTx sn v rc) db"
  shows "fine db (redeem_payment_tx env i sn v rc db)"
proof -
  let ?od = "snd sn"
  obtain r db1 where r: "run_stmt i (redeem_tx env i True (po_user ?od) (po_code ?od) rc) db = (r, db1)" by fastforce
  have rd: "code_read (po_code ?od) rc db" using t by simp
  have k: "kept db db1" by (rule run_stmt_kept [OF r]) (rule kept_redeem_tx [OF _ rd])
  have paid: "paid_out ?od db1" if "r = Inr ()"
  proof -
    have c: "redeem_tx env i True (po_user ?od) (po_code ?od) rc db = Commit db1 (Inr ())"
      using run_stmt_ok r that by (fastforce simp: redeem_tx_def split: option.splits if_splits)
    obtain row where row: "map_of (pd_codes db) (po_code ?od) = Some row" "rc_type row = RedeemTypeBalance" "close_to (rc_value row) (po_amount ?od)"
      using t by (auto simp: code_ready_def)
    have "map_of (pd_codes db1) (po_code ?od) = Some (row\<lparr>rc_status := CUsed, rc_used_by := Some (po_user ?od)\<rparr>)"
      using c by (cases rule: redeem_tx_commit) (use row Use_row in \<open>fastforce simp: record_move_def map_of_tput\<close>)+
    then show ?thesis using row by (simp add: paid_out_def)
  qed
  show ?thesis
  proof (cases r)
    case (Inl e)
    then show ?thesis using r k by (simp add: redeem_payment_tx_def fine_def)
  next
    case (Inr u)
    then show ?thesis using r k paid t by (auto simp: redeem_payment_tx_def fine_def kept_def intro: snap_ok_extends confirmed_extends)
  qed
qed

section \<open>Subscriptions, rebates, completion\<close>

lemma kept_rebate_tx:
  assumes "rebate_tx i oid db = Commit db' v"
  shows "kept db db'"
proof -
  let ?a = "\<lambda>act. db\<lparr>pd_audit := tput (oid, act) ADetail (pd_audit db)\<rparr>"
  have free: "map_of (pd_audit db) (oid, ''AFFILIATE_REBATE_APPLIED'') = None" "map_of (pd_audit db) (oid, ''AFFILIATE_REBATE_SKIPPED'') = None"
    using assms by (auto simp: rebate_tx_def rebate_claimed_def split: if_splits)
  then have k: "kept db (?a ''AFFILIATE_REBATE_APPLIED'')" "kept db (?a ''AFFILIATE_REBATE_SKIPPED'')" using kept_audit by blast+
  consider "db' = ?a ''AFFILIATE_REBATE_SKIPPED''" | amount where "db' = record_move (MRebate oid amount) (?a ''AFFILIATE_REBATE_APPLIED'')"
    using assms by (auto simp: rebate_tx_def split: option.splits if_splits)
  then show ?thesis
  proof cases
    case 1
    then show ?thesis using k by simp
  next
    case (2 amount)
    let ?d = "?a ''AFFILIATE_REBATE_APPLIED''"
    have x: "extends db (record_move (MRebate oid amount) ?d)" using k(1) extends_trans extends_move unfolding kept_def by blast
    have "pay_ok (record_move (MRebate oid amount) ?d)" if p: "pay_ok db"
    proof (rule pay_ok_extends [OF p x])
      show "users_ok (record_move (MRebate oid amount) ?d)" using p by (simp add: pay_ok_def users_ok_def record_move_def)
      have "rebates oid db = []"
      proof (rule ccontr)
        assume "rebates oid db \<noteq> []"
        then obtain a where "moved_in (MRebate oid a) db" by (metis rebates_in list.set_sel(1))
        then show False using p free by (auto simp: pay_ok_def move_ok_def)
      qed
      moreover have "credits c ?d = credits c db" "rebates o' ?d = rebates o' db" "assignments o' ?d = assignments o' db" for c o'
        by (simp_all add: credits_def rebates_def assignments_def)
      ultimately show "once (record_move (MRebate oid amount) ?d)"
        using p by (simp add: once_def pay_ok_def credits_record rebates_record assignments_record)
      have rows: "move_ok (MRebate oid amount) (record_move (MRebate oid amount) ?d)" by (simp add: move_ok_def record_move_def map_of_tput)
      have "moved_in m ?d \<longleftrightarrow> moved_in m db" for m by (simp add: moved_in_def)
      then show "moved_in m (record_move (MRebate oid amount) ?d) \<Longrightarrow> moved_in m db \<or> move_ok m (record_move (MRebate oid amount) ?d)" for m
        using rows unfolding moved_in_record by blast
    qed (auto simp: record_move_def get_order_def)
    then show ?thesis using x 2 by (simp add: kept_def)
  qed
qed

lemma kept_assign_tx:
  assumes "assign_tx i oid db = Commit db' v"
  shows "kept db db'"
proof (cases "hasPaymentSubscriptionAssignmentAudit oid db")
  case True
  then show ?thesis using assms by (simp add: assign_tx_def)
next
  case False
  let ?d = "db\<lparr>pd_audit := tput (oid, ''SUBSCRIPTION_ASSIGNED'') ADetail (pd_audit db)\<rparr>"
  have free: "map_of (pd_audit db) (oid, ''SUBSCRIPTION_ASSIGNED'') = None" using False by (simp add: hasPaymentSubscriptionAssignmentAudit_def)
  then have k: "kept db ?d" by (rule kept_audit)
  consider "db' = ?d" | "db' = record_move (MAssigned oid) ?d"
    using assms False by (auto simp: assign_tx_def Let_def split: if_splits)
  then show ?thesis
  proof cases
    case 1
    then show ?thesis using k by simp
  next
    case 2
    have x: "extends db (record_move (MAssigned oid) ?d)" using k extends_trans extends_move unfolding kept_def by blast
    have "pay_ok (record_move (MAssigned oid) ?d)" if p: "pay_ok db"
    proof (rule pay_ok_extends [OF p x])
      show "users_ok (record_move (MAssigned oid) ?d)" using p by (simp add: pay_ok_def users_ok_def record_move_def)
      have "\<not> moved_in (MAssigned oid) db" using p free by (auto simp: pay_ok_def move_ok_def)
      then have "assignments oid db = 0" by (auto simp: assignments_def moved_in_def filter_empty_conv)
      moreover have "credits c ?d = credits c db" "rebates o' ?d = rebates o' db" "assignments o' ?d = assignments o' db" for c o'
        by (simp_all add: credits_def rebates_def assignments_def)
      ultimately show "once (record_move (MAssigned oid) ?d)"
        using p by (simp add: once_def pay_ok_def credits_record rebates_record assignments_record)
      have rows: "move_ok (MAssigned oid) (record_move (MAssigned oid) ?d)" by (simp add: move_ok_def record_move_def map_of_tput)
      have "moved_in m ?d \<longleftrightarrow> moved_in m db" for m by (simp add: moved_in_def)
      then show "moved_in m (record_move (MAssigned oid) ?d) \<Longrightarrow> moved_in m db \<or> move_ok m (record_move (MAssigned oid) ?d)" for m
        using rows unfolding moved_in_record by blast
    qed (auto simp: record_move_def get_order_def)
    then show ?thesis using x 2 by (simp add: kept_def)
  qed
qed

lemma fine_assign:
  assumes "task_ok (TAssign sn v) db"
  shows "fine db (ensurePaymentSubscriptionAssigned i sn v db)"
proof -
  obtain r db1 where r: "run_stmt i (assign_tx i (fst sn)) db = (r, db1)" by fastforce
  have k: "kept db db1" by (rule run_stmt_kept [OF r]) (rule kept_assign_tx)
  then show ?thesis using r assms
    by (auto simp: ensurePaymentSubscriptionAssigned_def paid_out_def intro!: fine_stay split: sum.splits)
qed

lemma fine_rebate:
  assumes "task_ok (TRebate sn v) db"
  shows "fine db (applyAffiliateRebateForOrder env i sn v db)"
proof -
  obtain r db1 where r: "run_stmt i (rebate_tx i (fst sn)) db = (r, db1)" by fastforce
  have k: "kept db db1" by (rule run_stmt_kept [OF r]) (rule kept_rebate_tx)
  then show ?thesis using r assms
    by (auto simp: applyAffiliateRebateForOrder_def intro!: fine_stay fine_audit split: sum.splits)
qed

lemma fine_completed:
  assumes t: "task_ok (TComplete sn v) db"
  shows "fine db (markCompleted env i sn v db)"
proof -
  obtain oid od where sn: "sn = (oid, od)" by (cases sn)
  let ?f = "\<lambda>cur. cur\<lparr>po_status := OCompleted, po_completed_at := Some (pi_now i)\<rparr>"
  let ?body = "\<lambda>db. case update_order (pi_now i) oid (leased v) ?f db of
            Rollback r \<Rightarrow> Rollback r
          | Commit db' r \<Rightarrow>
              if pe_lottery env \<and> po_type od = OrderTypeBalance \<and> \<not> pi_ok i then Rollback (Inl PLottery) else Commit db' r"
  obtain r db1 where r: "run_stmt i ?body db = (r, db1)" by fastforce
  have a: "allowed oid (leased v) ?f db" using allowed_served [of sn db ?f "leased v"] t by (simp add: sn)
  have "kept db db1" by (rule run_stmt_kept [OF r]) (use kept_update_order [OF _ a] in \<open>auto split: tx.splits if_splits\<close>)
  then show ?thesis using r by (auto simp: markCompleted_def sn fine_def split: sum.splits)
qed

section \<open>Refunds\<close>

lemma kept_recorded: "kept db db1 \<Longrightarrow> plain_move m \<Longrightarrow> kept db (record_move m db1)"
  using kept_trans kept_plain by blast

lemma kept_deduct_tx: "deduct_tx p db = Commit db' v \<Longrightarrow> kept db db'"
  by (auto simp: deduct_tx_def plain_move_def split: option.splits prod.splits intro!: kept_recorded dest: kept_Deduct)

lemma kept_return_tx: "return_tx p db = Commit db' v \<Longrightarrow> kept db db'"
  by (auto simp: return_tx_def plain_move_def split: option.splits intro!: kept_recorded dest: kept_UpdateBalance)

lemma kept_days_tx: "days_tx i p n db = Commit db' v \<Longrightarrow> kept db db'"
  using kept_plain by (auto simp: days_tx_def plain_move_def split: if_splits)

lemma fine_plan: "kept db db1 \<Longrightarrow> plan_ok p db \<Longrightarrow> rp_Order q = rp_Order p \<Longrightarrow> plan_ok q db1"
  by (auto simp: plan_ok_def kept_def intro: snap_ok_extends paid_out_extends confirmed_extends)

lemma fine_deduct:
  assumes p: "plan_ok p db"
  shows "fine db (refund_deduct i p db)"
proof -
  obtain r db1 where r: "run_stmt i (deduct_tx p) db = (r, db1)" by fastforce
  have k: "kept db db1" by (rule run_stmt_kept [OF r]) (rule kept_deduct_tx)
  show ?thesis using r k p fine_plan [OF k p] by (auto simp: refund_deduct_def fine_def plan_ok_def split: sum.splits)
qed

lemma fine_deduct_days:
  assumes p: "plan_ok p db"
  shows "fine db (refund_deduct_days i p db)"
proof -
  obtain r db1 where r: "run_stmt i (days_tx i p (- rp_SubDaysToDeduct p)) db = (r, db1)" by fastforce
  have k: "kept db db1" by (rule run_stmt_kept [OF r]) (rule kept_days_tx)
  show ?thesis using r k p fine_plan [OF k p] by (auto simp: refund_deduct_days_def fine_def plan_ok_def split: sum.splits)
qed

lemma fine_gateway:
  assumes p: "plan_ok p db"
  shows "fine db (gwRefund env i p db)"
proof -
  let ?d = "record_move (MGateway (plan_oid p) (rp_GatewayAmount p)) db"
  have k: "kept db ?d" by (rule kept_plain) (simp add: plain_move_def)
  have "fine db (t, ?d)" if "\<And>d. task_ok t d = plan_ok p d" for t using k fine_plan [OF k p] that by (simp add: fine_def)
  then show ?thesis using p
    by (auto simp: gwRefund_def Let_def intro!: fine_audit split: option.splits refund_verdict.splits)
qed

lemma kept_and_audit:
  assumes "and_audit oid act d t = Commit db' v" "\<And>db1. t = Commit db1 v \<Longrightarrow> kept db db1"
  shows "kept db db'"
proof -
  obtain db1 where t: "t = Commit db1 v" and a: "insert_audit oid act d db1 = Some db'"
    using assms(1) by (auto simp: and_audit_def split: tx.splits option.splits)
  then show ?thesis using kept_trans [OF assms(2) [OF t]] kept_audit by (auto simp: insert_audit_def split: if_splits)
qed

lemma allowed_plan:
  assumes "plan_ok p db" "\<And>od. fixed (change od) = fixed od" "\<And>od. po_paid_at (change od) = po_paid_at od"
  shows "allowed (plan_oid p) guard change db"
  unfolding plan_oid_def by (rule allowed_served) (use assms in \<open>simp_all add: plan_ok_def\<close>)

lemma mark_refunded_keeps [simp]: "fixed (mark_refunded now p od) = fixed od" "po_paid_at (mark_refunded now p od) = po_paid_at od"
  by (simp_all add: mark_refunded_def)

lemma mark_refund_failed_keeps [simp]: "fixed (mark_refund_failed now od) = fixed od" "po_paid_at (mark_refund_failed now od) = po_paid_at od"
  by (simp_all add: mark_refund_failed_def)

lemma kept_markRefundOkTx:
  assumes "markRefundOkTx env i p db = Commit db' v" and p: "plan_ok p db"
  shows "kept db db'"
  using assms(1) unfolding markRefundOkTx_def
  by (rule kept_and_audit) (use kept_set_order [OF _ allowed_plan [OF p, of "mark_refunded (pi_now i) p"]] in \<open>auto split: tx.splits if_splits\<close>)

lemma fine_markOk:
  assumes p: "plan_ok p db"
  shows "fine db (markRefundOk env i p a db)"
proof (cases "pe_lottery env")
  case True
  obtain r db1 where r: "run_stmt i (markRefundOkTx env i p) db = (r, db1)" by fastforce
  have k: "kept db db1" by (rule run_stmt_kept [OF r]) (rule kept_markRefundOkTx [OF _ p])
  show ?thesis using r True k fine_plan [OF k p] by (auto simp: markRefundOk_def fine_def split: sum.splits)
next
  case False
  obtain r db1 where r: "run_stmt i (set_order (pi_now i) (plan_oid p) (mark_refunded (pi_now i) p)) db = (r, db1)" by fastforce
  have k: "kept db db1" by (rule kept_set_stmt [OF r allowed_plan [OF p]]) simp_all
  show ?thesis using r False k by (auto simp: markRefundOk_def fine_def split: sum.splits)
qed

lemma fine_markPending:
  assumes p: "plan_ok p db"
  shows "fine db (markRefundPending i p a db)"
proof -
  let ?f = "\<lambda>od. od\<lparr>po_status := ORefundPending, po_refund := column2 (rp_RefundAmount p),
             po_reason := Some (rp_Reason p), po_refund_at := None, po_force := rp_Force p, po_failed := (None, None)\<rparr>"
  let ?body = "\<lambda>db. and_audit (plan_oid p) ''REFUND_PENDING'' (APending (pending_detail p a)) (set_order (pi_now i) (plan_oid p) ?f db)"
  obtain r db1 where r: "run_stmt i ?body db = (r, db1)" by fastforce
  have a: "allowed (plan_oid p) (\<lambda>_. True) ?f db" by (rule allowed_plan [OF p]) simp_all
  have "kept db db1" by (rule run_stmt_kept [OF r]) (erule kept_and_audit, erule kept_set_order [OF _ a])
  then show ?thesis using r by (auto simp: markRefundPending_def split: sum.splits)
qed

lemma fine_rollback:
  assumes p: "plan_ok p db"
  shows "fine db (RollbackRefund i p db)"
proof -
  obtain r db1 where r: "run_stmt i (return_tx p) db = (r, db1)" by fastforce
  obtain q db2 where q: "run_stmt i (days_tx i p (rp_SubDaysToDeduct p)) db = (q, db2)" by fastforce
  have k: "kept db db1" by (rule run_stmt_kept [OF r]) (rule kept_return_tx)
  have k2: "kept db db2" by (rule run_stmt_kept [OF q]) (rule kept_days_tx)
  show ?thesis using r q k k2 p by (auto simp: RollbackRefund_def intro!: fine_audit fine_stay split: sum.splits)
qed

lemma kept_claim_pending:
  assumes "claim_pending now oid change db = Commit db' v" "allowed oid (\<lambda>od. po_status od = ORefundPending) change db"
  shows "kept db db'"
  using assms kept_update_order by (auto simp: claim_pending_def split: tx.splits)

lemma fine_finalOk:
  assumes p: "plan_ok p db"
  shows "fine db (finalizePendingRefundSuccess env i p db)"
proof -
  let ?f = "\<lambda>od. od\<lparr>po_status := ORefunding\<rparr>"
  have tx: "kept db db3" if "claim_pending (pi_now i) (plan_oid p) ?f db = Commit db1 v1" "applyRefundFinalDeduction i p db1 = Commit db2 v2"
      "markRefundOkTx env i p db2 = Commit db3 v3" for db1 db2 db3 v1 v2 v3
  proof -
    have k1: "kept db db1" by (rule kept_claim_pending [OF that(1)]) (rule allowed_plan [OF p]; simp)
    have k2: "kept db1 db2" using that(2) kept_deduct_tx kept_days_tx
      by (auto simp: applyRefundFinalDeduction_def split: if_splits tx.splits)
    have "plan_ok p db2" by (rule fine_plan [OF kept_trans [OF k1 k2] p]) simp
    then show ?thesis using kept_markRefundOkTx [OF that(3)] kept_trans k1 k2 by blast
  qed
  let ?body = "\<lambda>db. case claim_pending (pi_now i) (plan_oid p) ?f db of
            Rollback r \<Rightarrow> Rollback (Inl PConflict)
          | Commit db1 _ \<Rightarrow>
              (case applyRefundFinalDeduction i p db1 of
                 Rollback r \<Rightarrow> Rollback (Inl PDeduction)
               | Commit db2 (Inl e) \<Rightarrow> Rollback (Inl e)
               | Commit db2 (Inr taken) \<Rightarrow>
                   (case markRefundOkTx env i p db2 of
                      Rollback (Inl e) \<Rightarrow> Rollback (Inl e)
                    | Rollback (Inr _) \<Rightarrow> Rollback (Inl PDb)
                    | Commit db3 _ \<Rightarrow> Commit db3 (Inr taken)))"
  obtain r db1 where r: "run_stmt i ?body db = (r, db1)" by fastforce
  have "kept db db1" by (rule run_stmt_kept [OF r]) (auto split: tx.splits sum.splits intro: tx)
  then show ?thesis using r by (auto simp: finalizePendingRefundSuccess_def split: sum.splits)
qed

lemma kept_returnHeld: "returnHeldRefundDeduction i p db = Commit db' v \<Longrightarrow> kept db db'"
  using kept_return_tx kept_days_tx by (auto simp: returnHeldRefundDeduction_def split: if_splits tx.splits)

lemma fine_finalFail:
  assumes p: "plan_ok p db"
  shows "fine db (finalizeRefundFailed i p db)"
proof -
  have tx: "kept db db'" if c: "finalize_failed_tx i p db = Commit db' v" for db' v
  proof -
    obtain db1 u where c1: "claim_pending (pi_now i) (plan_oid p) (mark_refund_failed (pi_now i)) db = Commit db1 u"
      and c2: "and_audit (plan_oid p) ''REFUND_FAILED'' ADetail
        (if rp_deductionHeld p then returnHeldRefundDeduction i p db1 else Commit db1 (Inr ())) = Commit db' v"
      using c by (auto simp: finalize_failed_tx_def split: tx.splits)
    have "kept db db1" by (rule kept_claim_pending [OF c1]) (rule allowed_plan [OF p]; simp)
    moreover have "kept db1 db'" using c2 by (rule kept_and_audit) (auto split: if_splits dest: kept_returnHeld)
    ultimately show ?thesis by (rule kept_trans)
  qed
  obtain r db1 where r: "run_stmt i (finalize_failed_tx i p) db = (r, db1)" by fastforce
  have k: "kept db db1" by (rule run_stmt_kept [OF r]) (rule tx)
  then show ?thesis using r p by (auto simp: finalizeRefundFailed_def intro!: fine_stay split: sum.splits)
qed

lemma fine_finalMark:
  assumes p: "plan_ok p db"
  shows "fine db (finalize_mark i p db)"
proof -
  obtain r db1 where r: "run_stmt i (finalize_mark_tx i p) db = (r, db1)" by fastforce
  have a: "allowed (plan_oid p) (\<lambda>od. po_status od = ORefundPending) (mark_refund_failed (pi_now i)) db" by (rule allowed_plan [OF p]) simp_all
  have "kept db db1" 
    by (rule run_stmt_kept [OF r]) (unfold finalize_mark_tx_def, erule kept_and_audit, erule kept_and_audit, erule kept_claim_pending [OF _ a])
  then show ?thesis using r by (auto simp: finalize_mark_def split: sum.splits)
qed

section \<open>Every step\<close>

lemma run_task_fine: "task_ok t db \<Longrightarrow> fine db (run_task t env i db)"
  by (cases t) (simp_all add: fine_notify fine_confirm fine_toPaid fine_already fine_execute fine_reject fine_balance fine_subscription
    fine_acquire fine_lease_lost fine_lease_read fine_doBalance fine_create_code fine_redeem fine_redeem_tx fine_assign fine_rebate
    fine_completed fine_completion_lost fine_failed fine_retry fine_public fine_public_tx fine_admin fine_cancel fine_cancelCore
    fine_checkPaid fine_persist fine_cancel_update fine_verify fine_create fine_insert fine_invoke fine_create_failed fine_request
    fine_request_balance fine_request_update fine_prepare fine_prepDeduct fine_lock fine_deduct fine_deduct_days fine_gateway
    fine_markOk fine_markPending fine_rollback fine_restore fine_refund_failed fine_finalize fine_detail fine_query fine_finalOk
    fine_finalFail fine_finalMark)

end
