(* ===== verification/PayAmounts.thy ===== *)
theory PayAmounts
  imports PayOrder
begin

text \<open>
  What an order costs and what it credits: the recharge bonus of \<^verbatim>\<open>payment_recharge_bonus.go\<close>, the amounts that
  \<open>CreateOrder\<close> of \<^verbatim>\<open>payment_order.go\<close> writes into the order, and the conversion to the smallest unit of a currency
  (\<^verbatim>\<open>payment/currency.go\<close>). The theorems say that what an order credits is the credit of what is paid plus the bonus,
  that settings which were accepted stay usable when they are read back, that minor units convert back, and how much of a
  payment a refund asks the provider for.
\<close>

section \<open>Recharge bonus settings\<close>

datatype bonus_mode = RechargeBonusModeBonus | RechargeBonusModeDiscount

record raw_tier =
  rt_MinAmount :: gofloat
  rt_BonusPercent :: gofloat

record RechargeBonusTier =
  bt_MinAmount :: rat
  bt_BonusPercent :: rat

definition maxRechargeBonusTiers :: nat where "maxRechargeBonusTiers = 20"
definition maxRechargeBonusPercent :: rat where "maxRechargeBonusPercent = 1000"

datatype bonus_err = BTooMany | BMinAmount | BPercent | BDuplicate | BDiscountPercent | BMode | BSettings

text \<open>\<open>to_lower\<close> is \<open>strings.ToLower\<close>.\<close>

definition NormalizeRechargeBonusMode :: "(string \<Rightarrow> string) \<Rightarrow> string \<Rightarrow> bonus_mode \<times> bool" where
  "NormalizeRechargeBonusMode to_lower raw =
     (let m = to_lower (strings_TrimSpace raw) in
      if m = [] \<or> m = ''bonus'' then (RechargeBonusModeBonus, True)
      else if m = ''discount'' then (RechargeBonusModeDiscount, True)
      else (RechargeBonusModeBonus, False))"

definition ValidateRechargeBonusTiersForMode :: "bonus_mode \<Rightarrow> RechargeBonusTier list \<Rightarrow> bool" where
  "ValidateRechargeBonusTiersForMode mode tiers \<longleftrightarrow>
     mode \<noteq> RechargeBonusModeDiscount \<or> list_all (\<lambda>t. bt_BonusPercent t < 100) tiers"

text \<open>The value of a setting, when it is a finite number from zero to the maximum with at most two decimals. No maximum is \<open>MaxFloat64\<close>.\<close>

definition rechargeBonusValue :: "gofloat \<Rightarrow> rat option \<Rightarrow> rat option" where
  "rechargeBonusValue v cap =
     (case v of
        Fin x \<Rightarrow> if x < 0 \<or> (case cap of None \<Rightarrow> False | Some m \<Rightarrow> x > m) then None else if x = dec_round 2 x then Some x else None
      | _ \<Rightarrow> None)"

definition valid_tier :: "raw_tier \<Rightarrow> bonus_err + RechargeBonusTier" where
  "valid_tier t =
     (case rechargeBonusValue (rt_MinAmount t) None of
        None \<Rightarrow> Inl BMinAmount
      | Some a \<Rightarrow> (case rechargeBonusValue (rt_BonusPercent t) (Some maxRechargeBonusPercent) of
           None \<Rightarrow> Inl BPercent
         | Some p \<Rightarrow> Inr \<lparr>bt_MinAmount = a, bt_BonusPercent = p\<rparr>))"

text \<open>
  The strict loop of \<open>NormalizeRechargeBonusTiers\<close> and the lenient one of \<open>parseRechargeBonusTiers\<close>; \<open>seen\<close> holds the
  minimum amounts so far, rounded to two places as the keys of the map are.
\<close>

fun normalize_tiers :: "rat list \<Rightarrow> raw_tier list \<Rightarrow> bonus_err + RechargeBonusTier list" where
  "normalize_tiers seen [] = Inr []"
| "normalize_tiers seen (r # rs) =
     (case valid_tier r of
        Inl e \<Rightarrow> Inl e
      | Inr t \<Rightarrow>
          if dec_round 2 (bt_MinAmount t) \<in> set seen then Inl BDuplicate
          else case normalize_tiers (dec_round 2 (bt_MinAmount t) # seen) rs of Inl e \<Rightarrow> Inl e | Inr ts \<Rightarrow> Inr (t # ts))"

fun parse_tiers :: "rat list \<Rightarrow> raw_tier list \<Rightarrow> RechargeBonusTier list" where
  "parse_tiers seen [] = []"
| "parse_tiers seen (r # rs) =
     (case valid_tier r of
        Inl e \<Rightarrow> parse_tiers seen rs
      | Inr t \<Rightarrow>
          if dec_round 2 (bt_MinAmount t) \<in> set seen then parse_tiers seen rs
          else t # parse_tiers (dec_round 2 (bt_MinAmount t) # seen) rs)"

definition sortRechargeBonusTiers :: "RechargeBonusTier list \<Rightarrow> RechargeBonusTier list" where
  "sortRechargeBonusTiers = sort_key bt_MinAmount"

definition NormalizeRechargeBonusTiers :: "raw_tier list \<Rightarrow> bonus_err + RechargeBonusTier list" where
  "NormalizeRechargeBonusTiers raw =
     (if raw = [] then Inr []
      else if length raw > maxRechargeBonusTiers then Inl BTooMany
      else case normalize_tiers [] raw of Inl e \<Rightarrow> Inl e | Inr ts \<Rightarrow> Inr (sortRechargeBonusTiers ts))"

text \<open>The setting is stored as JSON: \<open>unmarshal\<close> is what \<open>encoding/json\<close> makes of the text, \<open>marshal\<close> the text it writes.\<close>

definition parseRechargeBonusTiers :: "(string \<Rightarrow> raw_tier list option) \<Rightarrow> string \<Rightarrow> RechargeBonusTier list" where
  "parseRechargeBonusTiers unmarshal raw =
     (let s = strings_TrimSpace raw in
      if s = [] then []
      else case unmarshal s of None \<Rightarrow> [] | Some items \<Rightarrow> sortRechargeBonusTiers (parse_tiers [] items))"

definition encodeRechargeBonusTiers :: "(RechargeBonusTier list \<Rightarrow> string) \<Rightarrow> RechargeBonusTier list \<Rightarrow> string" where
  "encodeRechargeBonusTiers marshal tiers = (if tiers = [] then [] else marshal tiers)"

definition mode_name :: "bonus_mode \<Rightarrow> string" where
  "mode_name m = (case m of RechargeBonusModeBonus \<Rightarrow> ''bonus'' | RechargeBonusModeDiscount \<Rightarrow> ''discount'')"

text \<open>\<open>resolveRechargeBonusUpdate\<close>: the parts a request leaves out are read back (\<open>stored\<close>, \<open>None\<close> for a failing read).\<close>

definition resolveRechargeBonusUpdate ::
  "(string \<Rightarrow> string) \<Rightarrow> (string \<Rightarrow> raw_tier list option) \<Rightarrow> (string \<times> string) option \<Rightarrow> raw_tier list option \<Rightarrow> string option \<Rightarrow>
   bonus_err + (RechargeBonusTier list \<times> bonus_mode) option" where
  "resolveRechargeBonusUpdate to_lower unmarshal stored req_tiers req_mode =
     (if req_tiers = None \<and> req_mode = None then Inr None
      else if (req_tiers = None \<or> req_mode = None) \<and> stored = None then Inl BSettings
      else case (case req_tiers of Some raw \<Rightarrow> NormalizeRechargeBonusTiers raw
                 | None \<Rightarrow> Inr (parseRechargeBonusTiers unmarshal (fst (the stored)))) of
        Inl e \<Rightarrow> Inl e
      | Inr tiers \<Rightarrow>
          (case (case req_mode of
                   Some raw \<Rightarrow> (case NormalizeRechargeBonusMode to_lower raw of (m, valid) \<Rightarrow> if valid then Inr m else Inl BMode)
                 | None \<Rightarrow> Inr (fst (NormalizeRechargeBonusMode to_lower (snd (the stored))))) of
             Inl e \<Rightarrow> Inl e
           | Inr mode \<Rightarrow> if ValidateRechargeBonusTiersForMode mode tiers then Inr (Some (tiers, mode)) else Inl BDiscountPercent))"

section \<open>Quotes\<close>

fun match_from :: "RechargeBonusTier option \<Rightarrow> RechargeBonusTier list \<Rightarrow> rat \<Rightarrow> RechargeBonusTier option" where
  "match_from found [] a = found"
| "match_from found (t # ts) a = (if a + 1 / 10 ^ 9 < bt_MinAmount t then found else match_from (Some t) ts a)"

definition matchRechargeBonusTier :: "RechargeBonusTier list \<Rightarrow> gofloat \<Rightarrow> RechargeBonusTier option" where
  "matchRechargeBonusTier tiers a = (case a of Fin x \<Rightarrow> if x \<le> 0 then None else match_from None tiers x | _ \<Rightarrow> None)"

definition calculateRechargeBonus :: "rat \<Rightarrow> rat \<Rightarrow> rat" where
  "calculateRechargeBonus base percent = (if base \<le> 0 \<or> percent \<le> 0 then 0 else dec_round 2 (dec_div (base * percent) 100))"

definition addRechargeBonus :: "rat \<Rightarrow> rat \<Rightarrow> rat" where "addRechargeBonus base bonus = dec_round 2 (base + bonus)"

definition calculateDiscountedPayBase :: "rat \<Rightarrow> rat \<Rightarrow> string \<Rightarrow> rat" where
  "calculateDiscountedPayBase amount percent currency =
     dec_round (CurrencyMaxFractionDigits currency) (dec_div (amount * (100 - percent)) 100)"

record rechargeBonusQuote =
  q_PayBase :: rat
  q_Credited :: rat
  q_Bonus :: rat
  q_Percent :: rat

record bonus_config =
  bc_Multiplier :: gofloat
  bc_Tiers :: "RechargeBonusTier list"
  bc_Mode :: bonus_mode

definition quoteRechargeBonus :: "bonus_config \<Rightarrow> rat \<Rightarrow> string \<Rightarrow> rechargeBonusQuote" where
  "quoteRechargeBonus cfg amount currency =
     (let base = calculateCreditedBalance amount (bc_Multiplier cfg);
          quote = \<lparr>q_PayBase = amount, q_Credited = base, q_Bonus = 0, q_Percent = 0\<rparr>
      in case matchRechargeBonusTier (bc_Tiers cfg) (Fin amount) of
        None \<Rightarrow> quote
      | Some t \<Rightarrow>
          if bt_BonusPercent t \<le> 0 then quote
          else if bc_Mode cfg = RechargeBonusModeDiscount then
            (if bt_BonusPercent t \<ge> 100 then quote
             else let payBase = calculateDiscountedPayBase amount (bt_BonusPercent t) currency in
               if payBase \<le> 0 \<or> payBase \<ge> amount then quote
               else quote\<lparr>q_PayBase := payBase,
                 q_Bonus := max 0 (dec_round 2 (base - calculateCreditedBalance payBase (bc_Multiplier cfg))), q_Percent := bt_BonusPercent t\<rparr>)
          else let bonus = calculateRechargeBonus base (bt_BonusPercent t) in
            if bonus \<le> 0 then quote
            else quote\<lparr>q_Bonus := bonus, q_Credited := addRechargeBonus base bonus, q_Percent := bt_BonusPercent t\<rparr>)"

section \<open>Minor units and the amounts of an order\<close>

definition to_int64 :: "int \<Rightarrow> int" where "to_int64 n = sint (word_of_int n :: 64 word)"

text \<open>\<open>Truncate(0)\<close> and \<open>IntPart\<close> cut towards zero.\<close>

definition IntPart :: "rat \<Rightarrow> int" where "IntPart x = (if 0 \<le> x then \<lfloor>x\<rfloor> else \<lceil>x\<rceil>)"

definition AmountToMinorUnit :: "rat \<Rightarrow> string \<Rightarrow> int option" where
  "AmountToMinorUnit d currency =
     (case NormalizePaymentCurrency currency of
        None \<Rightarrow> None
      | Some c \<Rightarrow>
          let (minor, fraction) = paymentCurrencyAmountUnitFor c; scaled = d * 10 ^ fraction in
          if scaled \<noteq> of_int (IntPart scaled) then None else Some (to_int64 (IntPart (d * 10 ^ minor))))"

definition MinorUnitToAmount :: "int \<Rightarrow> string \<Rightarrow> rat" where
  "MinorUnitToAmount v currency = dec_div (of_int v) (10 ^ CurrencyMinorUnit currency)"

text \<open>The amount to pay, refused unless both it and what it is computed from fit the currency.\<close>

definition calculateCreateOrderPayAmount :: "rat \<Rightarrow> rat \<Rightarrow> string \<Rightarrow> rat option" where
  "calculateCreateOrderPayAmount limitAmount feeRate currency =
     (case AmountToMinorUnit limitAmount currency of
        None \<Rightarrow> None
      | Some _ \<Rightarrow>
          let pay = CalculatePayAmountForCurrency limitAmount feeRate currency in
          case AmountToMinorUnit pay currency of None \<Rightarrow> None | Some _ \<Rightarrow> Some pay)"

definition calculateCreateOrderPayAmountForOrderType :: "rat \<Rightarrow> rat \<Rightarrow> string \<Rightarrow> string \<Rightarrow> gofloat \<Rightarrow> rat option" where
  "calculateCreateOrderPayAmountForOrderType limitAmount feeRate currency orderType rate =
     calculateCreateOrderPayAmount
       (if orderType = OrderTypeSubscription then calculateSubscriptionGatewayBaseAmount limitAmount rate currency else limitAmount)
       feeRate currency"

text \<open>The order's amount, the amount its limits count, its bonus and what it costs; a plan is given by its price.\<close>

record order_amounts =
  am_Order :: rat
  am_Limit :: rat
  am_Bonus :: rat
  am_Pay :: rat

definition order_amounts ::
  "bonus_config \<Rightarrow> rat \<Rightarrow> gofloat \<Rightarrow> string \<Rightarrow> rat option \<Rightarrow> rat \<Rightarrow> string \<Rightarrow> string \<Rightarrow> order_amounts option" where
  "order_amounts cfg feeRate usdToCny orderType plan amount methodCurrency selectedCurrency =
     (let (orderAmount, limitAmount, bonus) =
            (case plan of
               Some price \<Rightarrow> (price, price, 0)
             | None \<Rightarrow>
                 if orderType = OrderTypeBalance
                 then (let q = quoteRechargeBonus cfg amount methodCurrency in (q_Credited q, q_PayBase q, q_Bonus q))
                 else (amount, amount, 0));
          pay = (\<lambda>currency. calculateCreateOrderPayAmountForOrderType limitAmount feeRate currency orderType usdToCny)
      in case pay methodCurrency of
        None \<Rightarrow> None
      | Some p \<Rightarrow>
          (case (if selectedCurrency = methodCurrency then Some p else pay selectedCurrency) of
             None \<Rightarrow> None
           | Some p' \<Rightarrow>
               if AmountToMinorUnit p' selectedCurrency = None then None
               else Some \<lparr>am_Order = orderAmount, am_Limit = limitAmount, am_Bonus = bonus, am_Pay = p'\<rparr>))"

section \<open>Decimals\<close>

definition on_grid :: "nat \<Rightarrow> rat \<Rightarrow> bool" where "on_grid d x \<longleftrightarrow> (\<exists>n. x = of_int n / 10 ^ d)"

lemma floor_int_half: "\<lfloor>of_int n + 1 / 2 :: rat\<rfloor> = n"
  by (rule floor_unique) auto

lemma on_grid_round [simp]: "on_grid d (dec_round d x)"
proof -
  have "dec_round d x = of_int ((if x < 0 then - 1 else if x = 0 then 0 else 1) * \<lfloor>\<bar>x\<bar> * 10 ^ d + 1 / 2\<rfloor>) / 10 ^ d"
    by (simp add: dec_round_def sgn_if)
  then show ?thesis unfolding on_grid_def by blast
qed

lemma round_grid: "on_grid d x \<Longrightarrow> dec_round d x = x"
proof -
  assume "on_grid d x"
  then obtain n where x: "x = of_int n / 10 ^ d" by (auto simp: on_grid_def)
  have "\<bar>x\<bar> * 10 ^ d = of_int \<bar>n\<bar>" by (simp add: x abs_divide)
  then have "\<lfloor>\<bar>x\<bar> * 10 ^ d + 1 / 2\<rfloor> = \<bar>n\<bar>" using floor_int_half [of "\<bar>n\<bar>"] by simp
  then have "dec_round d x = sgn x * of_int \<bar>n\<bar> / 10 ^ d" by (simp add: dec_round_def)
  also have "\<dots> = x" by (simp add: x sgn_if abs_if divide_less_0_iff zero_less_divide_iff)
  finally show ?thesis .
qed

lemma grid_diff: "on_grid d x \<Longrightarrow> on_grid d y \<Longrightarrow> on_grid d (x - y) \<and> on_grid d (x + y)"
proof -
  assume "on_grid d x" "on_grid d y"
  then obtain m n where "x = of_int m / 10 ^ d" "y = of_int n / 10 ^ d" by (auto simp: on_grid_def)
  then have "x - y = of_int (m - n) / 10 ^ d" "x + y = of_int (m + n) / 10 ^ d" by (simp_all add: diff_divide_distrib add_divide_distrib)
  then show ?thesis unfolding on_grid_def by blast
qed

lemma grid_finer:
  assumes "on_grid d x" "d \<le> e"
  shows "on_grid e x"
proof -
  obtain n where x: "x = of_int n / 10 ^ d" using assms(1) by (auto simp: on_grid_def)
  have p: "(10 :: rat) ^ e = 10 ^ d * 10 ^ (e - d)" using assms(2) by (simp flip: power_add)
  have "x = of_int (n * 10 ^ (e - d)) / 10 ^ e" by (simp add: x p)
  then show ?thesis unfolding on_grid_def by blast
qed

lemma round_nonneg [simp]: "0 \<le> x \<Longrightarrow> 0 \<le> dec_round d x"
proof -
  assume x: "0 \<le> x"
  then have "0 \<le> \<bar>x\<bar> * 10 ^ d + 1 / 2" by simp
  then have "0 \<le> (of_int \<lfloor>\<bar>x\<bar> * 10 ^ d + 1 / 2\<rfloor> :: rat)" by (simp only: of_int_0_le_iff zero_le_floor)
  then show ?thesis using x by (simp add: dec_round_def sgn_if)
qed

lemma round_mono:
  assumes "0 \<le> x" "x \<le> y"
  shows "dec_round d x \<le> dec_round d y"
proof (cases "x = 0")
  case True
  then show ?thesis using assms by (simp add: dec_round_def [of d 0])
next
  case False
  have "\<bar>x\<bar> * 10 ^ d \<le> \<bar>y\<bar> * 10 ^ d" using assms by (intro mult_right_mono) auto
  then have "\<lfloor>\<bar>x\<bar> * 10 ^ d + 1 / 2\<rfloor> \<le> \<lfloor>\<bar>y\<bar> * 10 ^ d + 1 / 2\<rfloor>" by (intro floor_mono) simp
  then show ?thesis using False assms by (simp add: dec_round_def sgn_if divide_right_mono)
qed

lemma round_error: "\<bar>dec_round d x - x\<bar> \<le> 1 / (2 * 10 ^ d)"
proof -
  let ?y = "\<bar>x\<bar> * 10 ^ d" and ?n = "\<lfloor>\<bar>x\<bar> * 10 ^ d + 1 / 2\<rfloor>"
  have "of_int ?n \<le> ?y + 1 / 2" "?y + 1 / 2 < of_int ?n + 1" by linarith+
  then have "\<bar>of_int ?n - ?y\<bar> \<le> 1 / 2" by linarith
  then have e: "\<bar>of_int ?n - ?y\<bar> / 10 ^ d \<le> (1 / 2) / 10 ^ d" by (intro divide_right_mono) simp_all
  have "dec_round d x - x = sgn x * ((of_int ?n - ?y) / 10 ^ d)"
    by (simp add: dec_round_def diff_divide_distrib right_diff_distrib sgn_mult_abs)
  then have "\<bar>dec_round d x - x\<bar> = \<bar>sgn x\<bar> * (\<bar>of_int ?n - ?y\<bar> / 10 ^ d)" by (simp add: abs_mult abs_divide)
  also have "\<dots> \<le> \<bar>of_int ?n - ?y\<bar> / 10 ^ d" by (cases "x = 0") (simp_all add: abs_sgn_eq)
  finally show ?thesis using e by simp
qed

section \<open>An order credits what is paid, and the bonus\<close>

lemma multiplier_pos: "0 < normalizeBalanceRechargeMultiplier m"
  by (simp add: normalizeBalanceRechargeMultiplier_def split: gofloat.split)

lemma credited_grid [simp]: "on_grid 2 (calculateCreditedBalance a m)"
  by (simp add: calculateCreditedBalance_def)

lemma credited_mono: "0 \<le> a \<Longrightarrow> a \<le> b \<Longrightarrow> calculateCreditedBalance a m \<le> calculateCreditedBalance b m"
  using multiplier_pos [of m] by (simp add: calculateCreditedBalance_def round_mono mult_right_mono)

lemma recharge_quote_exact:
  fixes cfg :: bonus_config and amount :: rat and currency :: string
  assumes "0 < amount"
  defines "q \<equiv> quoteRechargeBonus cfg amount currency"
  shows "q_Credited q = calculateCreditedBalance (q_PayBase q) (bc_Multiplier cfg) + q_Bonus q \<and> 0 \<le> q_Bonus q \<and>
    0 < q_PayBase q \<and> q_PayBase q \<le> amount \<and> calculateCreditedBalance amount (bc_Multiplier cfg) \<le> q_Credited q"
proof (cases "matchRechargeBonusTier (bc_Tiers cfg) (Fin amount)")
  case None
  then show ?thesis using assms by (simp add: q_def quoteRechargeBonus_def)
next
  case (Some t)
  let ?c = "\<lambda>a. calculateCreditedBalance a (bc_Multiplier cfg)"
  let ?pay = "calculateDiscountedPayBase amount (bt_BonusPercent t) currency"
  have disc: "dec_round 2 (?c amount - ?c ?pay) = ?c amount - ?c ?pay" by (intro round_grid) (simp add: grid_diff)
  have less: "?c ?pay \<le> ?c amount" if "0 < ?pay" "?pay < amount" using that by (intro credited_mono) auto
  have bon: "dec_round 2 (?c amount + calculateRechargeBonus (?c amount) p) = ?c amount + calculateRechargeBonus (?c amount) p" for p
  proof -
    have "on_grid 2 0" unfolding on_grid_def by (rule exI [of _ 0]) simp
    then have "on_grid 2 (calculateRechargeBonus (?c amount) p)" by (simp add: calculateRechargeBonus_def)
    then show ?thesis by (intro round_grid) (simp add: grid_diff)
  qed
  show ?thesis using Some assms disc less bon
    by (auto simp: q_def quoteRechargeBonus_def Let_def addRechargeBonus_def not_le max_def)
qed

definition demo_bonus :: "bonus_mode \<Rightarrow> bonus_config" where
  "demo_bonus mode = \<lparr>bc_Multiplier = Fin 1, bc_Tiers = [\<lparr>bt_MinAmount = 50, bt_BonusPercent = 5\<rparr>, \<lparr>bt_MinAmount = 100, bt_BonusPercent = 12\<rparr>],
     bc_Mode = mode\<rparr>"

lemma demo_quotes:
  "quoteRechargeBonus (demo_bonus RechargeBonusModeBonus) 120 ''CNY'' =
     \<lparr>q_PayBase = 120, q_Credited = 672 / 5, q_Bonus = 72 / 5, q_Percent = 12\<rparr>"
  "quoteRechargeBonus (demo_bonus RechargeBonusModeDiscount) 120 ''CNY'' =
     \<lparr>q_PayBase = 528 / 5, q_Credited = 120, q_Bonus = 72 / 5, q_Percent = 12\<rparr>"
proof -
  have "quoteRechargeBonus (demo_bonus RechargeBonusModeBonus) 120 ''CNY'' = x \<longleftrightarrow>
     x = \<lparr>q_PayBase = 120, q_Credited = 672 / 5, q_Bonus = 72 / 5, q_Percent = 12\<rparr>" for x
    by (code_simp, simp add: eq_commute)
  then show "quoteRechargeBonus (demo_bonus RechargeBonusModeBonus) 120 ''CNY'' =
     \<lparr>q_PayBase = 120, q_Credited = 672 / 5, q_Bonus = 72 / 5, q_Percent = 12\<rparr>" by blast
  have "quoteRechargeBonus (demo_bonus RechargeBonusModeDiscount) 120 ''CNY'' = x \<longleftrightarrow>
     x = \<lparr>q_PayBase = 528 / 5, q_Credited = 120, q_Bonus = 72 / 5, q_Percent = 12\<rparr>" for x
    by (code_simp, simp add: eq_commute)
  then show "quoteRechargeBonus (demo_bonus RechargeBonusModeDiscount) 120 ''CNY'' =
     \<lparr>q_PayBase = 528 / 5, q_Credited = 120, q_Bonus = 72 / 5, q_Percent = 12\<rparr>" by blast
qed

section \<open>Settings that were accepted\<close>

definition tier_ok :: "RechargeBonusTier \<Rightarrow> bool" where
  "tier_ok t \<longleftrightarrow> 0 \<le> bt_MinAmount t \<and> dec_round 2 (bt_MinAmount t) = bt_MinAmount t \<and> 0 \<le> bt_BonusPercent t \<and>
     bt_BonusPercent t \<le> maxRechargeBonusPercent \<and> dec_round 2 (bt_BonusPercent t) = bt_BonusPercent t"

definition raw_of :: "RechargeBonusTier \<Rightarrow> raw_tier" where
  "raw_of t = \<lparr>rt_MinAmount = Fin (bt_MinAmount t), rt_BonusPercent = Fin (bt_BonusPercent t)\<rparr>"

lemma valid_tier_ok: "valid_tier r = Inr t \<Longrightarrow> tier_ok t"
  by (auto simp: valid_tier_def rechargeBonusValue_def tier_ok_def split: option.splits gofloat.splits if_splits)

lemma valid_tier_raw: "tier_ok t \<Longrightarrow> valid_tier (raw_of t) = Inr t"
  by (simp add: valid_tier_def rechargeBonusValue_def tier_ok_def raw_of_def)

definition tiers_ok :: "RechargeBonusTier list \<Rightarrow> bool" where
  "tiers_ok ts \<longleftrightarrow> list_all tier_ok ts \<and> distinct (map bt_MinAmount ts)"

lemma normalize_tiers_ok:
  "normalize_tiers seen rs = Inr ts \<Longrightarrow> tiers_ok ts \<and> set (map bt_MinAmount ts) \<inter> set seen = {}"
proof (induction seen rs arbitrary: ts rule: normalize_tiers.induct)
  case (2 seen r rs)
  then obtain t where t: "valid_tier r = Inr t" "dec_round 2 (bt_MinAmount t) \<notin> set seen" by (auto split: sum.splits if_splits)
  then obtain us where us: "normalize_tiers (dec_round 2 (bt_MinAmount t) # seen) rs = Inr us" "ts = t # us"
    using 2(2) by (auto split: sum.splits)
  have "tier_ok t" by (rule valid_tier_ok [OF t(1)])
  then show ?case using 2(1) [OF t us(1)] t(2) us(2) by (auto simp: tiers_ok_def tier_ok_def)
qed (simp add: tiers_ok_def)

lemma parse_tiers_ok: "tiers_ok (parse_tiers seen rs) \<and> set (map bt_MinAmount (parse_tiers seen rs)) \<inter> set seen = {}"
proof (induction seen rs rule: parse_tiers.induct)
  case (2 seen r rs)
  show ?case
  proof (cases "valid_tier r")
    case (Inr t)
    have "tier_ok t" by (rule valid_tier_ok [OF Inr])
    then show ?thesis using 2(2,3) [OF Inr] Inr by (auto simp: tiers_ok_def tier_ok_def)
  qed (use 2(1) in simp)
qed (simp add: tiers_ok_def)

lemma sort_tiers_ok: "tiers_ok (sortRechargeBonusTiers ts) \<longleftrightarrow> tiers_ok ts"
  by (simp add: tiers_ok_def list_all_iff sortRechargeBonusTiers_def distinct_map)

lemma sort_tiers_sorted: "sorted (map bt_MinAmount (sortRechargeBonusTiers ts))"
  by (simp add: sortRechargeBonusTiers_def)

text \<open>Reading tiers that are valid drops nothing.\<close>

lemma parse_tiers_raw:
  "tiers_ok ts \<Longrightarrow> set (map bt_MinAmount ts) \<inter> set seen = {} \<Longrightarrow> parse_tiers seen (map raw_of ts) = ts"
proof (induction ts arbitrary: seen)
  case (Cons t ts)
  have t: "tier_ok t" "dec_round 2 (bt_MinAmount t) = bt_MinAmount t" using Cons.prems by (simp_all add: tiers_ok_def tier_ok_def)
  have "parse_tiers (bt_MinAmount t # seen) (map raw_of ts) = ts" using Cons.prems by (intro Cons.IH) (auto simp: tiers_ok_def)
  then show ?case using Cons.prems t by (simp add: valid_tier_raw)
qed simp

definition settings_ok :: "RechargeBonusTier list \<Rightarrow> bonus_mode \<Rightarrow> bool" where
  "settings_ok ts mode \<longleftrightarrow> tiers_ok ts \<and> sorted (map bt_MinAmount ts) \<and> ValidateRechargeBonusTiersForMode mode ts"

lemma normalize_ok: "NormalizeRechargeBonusTiers raw = Inr ts \<Longrightarrow> tiers_ok ts \<and> sorted (map bt_MinAmount ts)"
  using normalize_tiers_ok [of "[]" raw] sort_tiers_ok sort_tiers_sorted
  by (auto simp: NormalizeRechargeBonusTiers_def tiers_ok_def [of "[]"] split: if_splits sum.splits)

lemma parse_ok: "tiers_ok (parseRechargeBonusTiers u raw) \<and> sorted (map bt_MinAmount (parseRechargeBonusTiers u raw))"
  using parse_tiers_ok sort_tiers_ok sort_tiers_sorted
  by (auto simp: parseRechargeBonusTiers_def Let_def tiers_ok_def [of "[]"] split: option.split)

lemma resolved_ok: "resolveRechargeBonusUpdate lo u stored rt rm = Inr (Some (ts, mode)) \<Longrightarrow> settings_ok ts mode"
  using normalize_ok parse_ok
  by (auto simp: resolveRechargeBonusUpdate_def settings_ok_def split: if_splits option.splits sum.splits prod.splits)

text \<open>
  Bonus settings an update accepts are usable and survive storing. The accepted tiers are valid (amounts and percentages
  in range, with two decimals), have distinct minimum amounts, are sorted by them, and leave something to pay in discount
  mode; and the lenient reader of the stored text gives back exactly these tiers and this mode. The hypotheses say that
  \<^verbatim>\<open>encoding/json\<close> decodes what it encoded and that \<^verbatim>\<open>strings.ToLower\<close> leaves lower case text alone.
\<close>

theorem bonus_settings_stored:
  assumes "resolveRechargeBonusUpdate to_lower unmarshal stored req_tiers req_mode = Inr (Some (ts, mode))"
    and json: "unmarshal (strings_TrimSpace (marshal ts)) = Some (map raw_of ts)" "strings_TrimSpace (marshal ts) \<noteq> []"
    and lower: "to_lower (mode_name mode) = mode_name mode"
  shows "list_all tier_ok ts \<and> distinct (map bt_MinAmount ts) \<and> sorted (map bt_MinAmount ts) \<and>
    (mode = RechargeBonusModeBonus \<or> list_all (\<lambda>t. bt_BonusPercent t < 100) ts) \<and>
    parseRechargeBonusTiers unmarshal (encodeRechargeBonusTiers marshal ts) = ts \<and>
    NormalizeRechargeBonusMode to_lower (mode_name mode) = (mode, True)"
proof -
  have ok: "tiers_ok ts" "sorted (map bt_MinAmount ts)" "ValidateRechargeBonusTiersForMode mode ts"
    using resolved_ok [OF assms(1)] by (simp_all add: settings_ok_def)
  have "parseRechargeBonusTiers unmarshal (encodeRechargeBonusTiers marshal ts) = ts"
  proof (cases "ts = []")
    case True
    then show ?thesis by (simp add: encodeRechargeBonusTiers_def parseRechargeBonusTiers_def Let_def strings_TrimSpace_def trim_by_0 space_len_def rspace_len_def)
  next
    case False
    then show ?thesis using json parse_tiers_raw [OF ok(1), of "[]"] ok(2)
      by (simp add: encodeRechargeBonusTiers_def parseRechargeBonusTiers_def Let_def sortRechargeBonusTiers_def sorted_sort_id sort_key_id_if_sorted)
  qed
  moreover have "strings_TrimSpace (mode_name mode) = mode_name mode" by (cases mode; simp add: mode_name_def; code_simp)
  then have "NormalizeRechargeBonusMode to_lower (mode_name mode) = (mode, True)"
    using lower by (cases mode) (simp_all add: NormalizeRechargeBonusMode_def mode_name_def Let_def)
  moreover have "mode = RechargeBonusModeBonus \<or> list_all (\<lambda>t. bt_BonusPercent t < 100) ts"
    using ok(3) by (cases mode) (auto simp: ValidateRechargeBonusTiersForMode_def)
  ultimately show ?thesis using ok by (simp add: tiers_ok_def)
qed

definition demo_tiers :: "RechargeBonusTier list" where
  "demo_tiers = [\<lparr>bt_MinAmount = 50, bt_BonusPercent = 5\<rparr>, \<lparr>bt_MinAmount = 100, bt_BonusPercent = 12\<rparr>]"

lemma demo_resolved:
  "resolveRechargeBonusUpdate (\<lambda>s. s) (\<lambda>_. None) None (Some (map raw_of (rev demo_tiers))) (Some ''discount'') =
     Inr (Some (demo_tiers, RechargeBonusModeDiscount))"
proof -
  have d: "strings_TrimSpace ''discount'' = ''discount''" by code_simp
  have r: "dec_round 2 (of_int n) = of_int n" for n
  proof (rule round_grid)
    show "on_grid 2 (of_int n)" unfolding on_grid_def by (rule exI [of _ "n * 100"]) simp
  qed
  note r = r [of 5, simplified] r [of 12, simplified] r [of 50, simplified] r [of 100, simplified]
  have t: "tier_ok \<lparr>bt_MinAmount = 50, bt_BonusPercent = 5\<rparr>" "tier_ok \<lparr>bt_MinAmount = 100, bt_BonusPercent = 12\<rparr>"
    by (simp_all add: tier_ok_def r maxRechargeBonusPercent_def)
  then have "NormalizeRechargeBonusTiers (map raw_of (rev demo_tiers)) = Inr demo_tiers"
    by (simp add: NormalizeRechargeBonusTiers_def maxRechargeBonusTiers_def demo_tiers_def valid_tier_raw r sortRechargeBonusTiers_def)
  then show ?thesis
    by (simp add: resolveRechargeBonusUpdate_def NormalizeRechargeBonusMode_def Let_def d ValidateRechargeBonusTiersForMode_def)
      (simp add: demo_tiers_def)
qed

theorem bonus_settings_stored_witness:
  "parseRechargeBonusTiers (\<lambda>_. Some (map raw_of demo_tiers)) (encodeRechargeBonusTiers (\<lambda>_. ''[]'') demo_tiers) = demo_tiers \<and>
   sorted (map bt_MinAmount demo_tiers)"
proof -
  have "strings_TrimSpace ''[]'' = ''[]''" by code_simp
  moreover have "resolveRechargeBonusUpdate (\<lambda>s. s) (\<lambda>_. Some (map raw_of demo_tiers)) None (Some (map raw_of (rev demo_tiers))) (Some ''discount'') =
     Inr (Some (demo_tiers, RechargeBonusModeDiscount))"
    using demo_resolved by (simp add: resolveRechargeBonusUpdate_def)
  ultimately show ?thesis using bonus_settings_stored [of "\<lambda>s. s" _ None _ _ demo_tiers RechargeBonusModeDiscount "\<lambda>_. ''[]''"] by simp
qed

section \<open>Refunds of a payment\<close>

text \<open>
  The provider is never asked for more than was paid. For every refund that \<open>PrepareRefund\<close> accepts (at most the order's
  amount, up to the tolerance of its currency), the amount asked for lies between zero and the payment rounded to the currency;
  it is the whole payment, or the payment's share of the refund to within half a unit of the currency.
\<close>

theorem gateway_refund_bounds:
  assumes "0 < orderAmount" "0 < payAmount" "0 < refundAmount"
    and "refundAmount - orderAmount \<le> paymentAmountToleranceForCurrency currency" "on_grid 16 payAmount"
  shows "0 \<le> calculateGatewayRefundAmount orderAmount payAmount refundAmount currency \<and>
    calculateGatewayRefundAmount orderAmount payAmount refundAmount currency \<le> dec_round (CurrencyMaxFractionDigits currency) payAmount \<and>
    (calculateGatewayRefundAmount orderAmount payAmount refundAmount currency = dec_round (CurrencyMaxFractionDigits currency) payAmount \<or>
     \<bar>calculateGatewayRefundAmount orderAmount payAmount refundAmount currency - payAmount * refundAmount / orderAmount\<bar> \<le>
       1 / (2 * 10 ^ CurrencyMaxFractionDigits currency) + 1 / (2 * 10 ^ 16))"
proof (cases "\<bar>refundAmount - orderAmount\<bar> \<le> paymentAmountToleranceForCurrency currency")
  case True
  then show ?thesis using assms by (simp add: calculateGatewayRefundAmount_def Let_def)
next
  case False
  let ?d = "CurrencyMaxFractionDigits currency" and ?x = "payAmount * refundAmount / orderAmount"
  have less: "refundAmount \<le> orderAmount" using assms(4) False by linarith
  have g: "calculateGatewayRefundAmount orderAmount payAmount refundAmount currency = dec_round ?d (dec_round 16 ?x)"
    unfolding calculateGatewayRefundAmount_def dec_div_def Let_def if_not_P [OF False] using assms(1-3) by simp
  have x: "0 \<le> ?x" using assms by simp
  have "payAmount * refundAmount \<le> payAmount * orderAmount" using assms less by (intro mult_left_mono) auto
  then have "?x \<le> payAmount" using assms(1) by (simp add: divide_le_eq)
  then have "dec_round 16 ?x \<le> payAmount" using round_mono [OF x, of payAmount 16] round_grid [OF assms(5)] by simp
  then have "dec_round ?d (dec_round 16 ?x) \<le> dec_round ?d payAmount" using x by (intro round_mono) simp_all
  moreover have "\<bar>dec_round ?d (dec_round 16 ?x) - ?x\<bar> \<le> 1 / (2 * 10 ^ ?d) + 1 / (2 * 10 ^ 16)"
    using round_error [of ?d "dec_round 16 ?x"] round_error [of 16 ?x] by linarith
  ultimately show ?thesis unfolding g using x by simp
qed

theorem gateway_refund_bounds_witness:
  "0 \<le> calculateGatewayRefundAmount 30 10 7 ''JPY'' \<and> calculateGatewayRefundAmount 30 10 7 ''JPY'' \<le> dec_round (CurrencyMaxFractionDigits ''JPY'') 10"
proof -
  have "on_grid 16 10" unfolding on_grid_def by (rule exI [of _ "10 * 10 ^ 16"]) simp
  moreover have "0 \<le> paymentAmountToleranceForCurrency ''JPY''" by (simp add: paymentAmountToleranceForCurrency_def Let_def)
  then have "(7 :: rat) - 30 \<le> paymentAmountToleranceForCurrency ''JPY''" by linarith
  ultimately show ?thesis using gateway_refund_bounds [of 30 10 7 "''JPY''"] by simp
qed

section \<open>Minor units\<close>

lemma upper_byte_letter: "65 \<le> (of_char c :: nat) \<Longrightarrow> (of_char c :: nat) \<le> 90 \<Longrightarrow> upper_byte c = c"
  by (simp add: upper_byte_def)

lemma normalized_currency:
  assumes "NormalizePaymentCurrency raw = Some c"
  shows "NormalizePaymentCurrency c = Some c"
proof -
  have l: "length c = 3" "list_all (\<lambda>x. 65 \<le> (of_char x :: nat) \<and> (of_char x :: nat) \<le> 90) c"
    using assms by (auto simp: NormalizePaymentCurrency_def Let_def DefaultPaymentCurrency_def split: if_splits)
  obtain x y z where c: "c = [x, y, z]" using l(1) by (auto simp: length_Suc_conv eval_nat_numeral)
  have b: "33 \<le> byte x" "byte x < 128" "33 \<le> byte z" "byte z < 128" using l(2) by (simp_all add: c byte_def)
  have t: "strings_TrimSpace c = c" using TrimSpace_id [OF b, of "[y]"] by (simp add: c)
  have m: "ToUpper_bytes c = c" using l(2) upper_byte_letter by (simp add: c)
  show ?thesis unfolding NormalizePaymentCurrency_def Let_def t m using l by (auto simp: c)
qed

lemma unit_bounds:
  "snd (paymentCurrencyAmountUnitFor c) \<le> fst (paymentCurrencyAmountUnitFor c) \<and> fst (paymentCurrencyAmountUnitFor c) \<le> 3"
  by (simp add: paymentCurrencyAmountUnitFor_def split: option.split)

text \<open>
  Minor units convert back. An amount that fits its currency and whose number of smallest units fits 64 bits is what the
  provider's integer amount converts to again, so comparing a notification's amount with the order's compares the true amounts.
\<close>

theorem minor_unit_roundtrip:
  assumes "AmountToMinorUnit a currency = Some v" "\<bar>a\<bar> * 10 ^ CurrencyMinorUnit currency < 2 ^ 63"
  shows "MinorUnitToAmount v currency = a"
proof -
  obtain c where c: "NormalizePaymentCurrency currency = Some c" using assms(1) by (auto simp: AmountToMinorUnit_def split: option.splits)
  let ?m = "fst (paymentCurrencyAmountUnitFor c)" and ?f = "snd (paymentCurrencyAmountUnitFor c)"
  have same: "paymentCurrencyAmountUnitFor currency = paymentCurrencyAmountUnitFor c"
    using c normalized_currency [OF c] by (simp add: paymentCurrencyAmountUnitFor_def)
  have v: "a * 10 ^ ?f = of_int (IntPart (a * 10 ^ ?f))" "v = to_int64 (IntPart (a * 10 ^ ?m))"
    using assms(1) c by (auto simp: AmountToMinorUnit_def Let_def split: prod.splits if_splits)
  define n where "n = IntPart (a * 10 ^ ?f) * 10 ^ (?m - ?f)"
  have p: "(10 :: rat) ^ ?m = 10 ^ ?f * 10 ^ (?m - ?f)" using unit_bounds [of c] by (simp flip: power_add)
  have n: "a * 10 ^ ?m = of_int n" unfolding n_def p using v(1) by (simp add: mult.assoc [symmetric])
  have "\<bar>of_int n :: rat\<bar> < 2 ^ 63" using assms(2) n by (simp add: CurrencyMinorUnit_def same abs_mult flip: n)
  then have "\<bar>n\<bar> < 2 ^ 63" by (metis of_int_abs of_int_less_iff of_int_numeral of_int_power)
  then have "to_int64 n = n" by (simp add: to_int64_def sint_sbintrunc' signed_take_bit_int_eq_self_iff) linarith
  moreover have "IntPart (a * 10 ^ ?m) = n" by (simp add: n IntPart_def)
  ultimately have vn: "v = n" using v(2) by simp
  have "on_grid ?m (of_int n / 10 ^ ?m)" unfolding on_grid_def by blast
  then have "on_grid 16 (of_int n / 10 ^ ?m)" by (rule grid_finer) (use unit_bounds [of c] in linarith)
  then have "MinorUnitToAmount v currency = of_int n / 10 ^ ?m"
    unfolding MinorUnitToAmount_def dec_div_def CurrencyMinorUnit_def same vn by (rule round_grid)
  also have "\<dots> = a" using n by (simp add: divide_eq_eq)
  finally show ?thesis .
qed

theorem minor_unit_roundtrip_witness:
  "AmountToMinorUnit (617 / 50) ''CNY'' = Some 1234 \<and> MinorUnitToAmount 1234 ''CNY'' = 617 / 50"
proof -
  have a: "AmountToMinorUnit (617 / 50) ''CNY'' = Some 1234" by code_simp
  have "CurrencyMinorUnit ''CNY'' = 2" by code_simp
  then show ?thesis using a minor_unit_roundtrip [OF a] by simp
qed

section \<open>Orders\<close>

lemma minor_unit_grid:
  assumes "AmountToMinorUnit a currency \<noteq> None"
  shows "on_grid (CurrencyMaxFractionDigits currency) a"
proof -
  obtain c where c: "NormalizePaymentCurrency currency = Some c" using assms by (auto simp: AmountToMinorUnit_def split: option.splits)
  let ?f = "snd (paymentCurrencyAmountUnitFor c)"
  have "a * 10 ^ ?f = of_int (IntPart (a * 10 ^ ?f))"
    using assms c by (auto simp: AmountToMinorUnit_def Let_def split: prod.splits if_splits)
  then have "a = of_int (IntPart (a * 10 ^ ?f)) / 10 ^ ?f" by (simp add: eq_divide_eq)
  moreover have "CurrencyMaxFractionDigits currency = ?f"
    using c normalized_currency [OF c] by (simp add: CurrencyMaxFractionDigits_def paymentCurrencyAmountUnitFor_def)
  ultimately show ?thesis unfolding on_grid_def by metis
qed

lemma dec_up_bounds:
  assumes "0 \<le> x"
  shows "x \<le> dec_up d x \<and> dec_up d x < x + 1 / 10 ^ d \<and> on_grid d (dec_up d x)"
proof (cases "x = 0")
  case True
  then show ?thesis unfolding on_grid_def dec_up_def by (auto intro: exI [of _ 0])
next
  case False
  let ?n = "\<lceil>x * 10 ^ d\<rceil>"
  have u: "dec_up d x = of_int ?n / 10 ^ d" using False assms by (simp add: dec_up_def)
  have "x * 10 ^ d \<le> of_int ?n" "of_int ?n < x * 10 ^ d + 1" by linarith+
  then have "x \<le> of_int ?n / 10 ^ d" "of_int ?n / 10 ^ d < (x * 10 ^ d + 1) / 10 ^ d"
    by (simp add: le_divide_eq, intro divide_strict_right_mono) simp_all
  then show ?thesis unfolding u on_grid_def by (auto simp: add_divide_distrib)
qed

text \<open>The fee is charged in full and rounded up by less than one unit.\<close>

lemma pay_amount_bounds:
  assumes "on_grid (CurrencyMaxFractionDigits currency) a" "0 \<le> a"
  shows "a + a * max 0 feeRate / 100 - 1 / (2 * 10 ^ 16) \<le> CalculatePayAmountForCurrency a feeRate currency \<and>
    a \<le> CalculatePayAmountForCurrency a feeRate currency \<and>
    CalculatePayAmountForCurrency a feeRate currency < a + a * max 0 feeRate / 100 + 1 / (2 * 10 ^ 16) + 1 / 10 ^ CurrencyMaxFractionDigits currency"
proof (cases "feeRate \<le> 0")
  case True
  have "0 < (1 :: rat) / 10 ^ CurrencyMaxFractionDigits currency" by simp
  then have "0 < 1 / (2 * 10 ^ 16) + (1 :: rat) / 10 ^ CurrencyMaxFractionDigits currency" by (intro add_pos_pos) simp_all
  then show ?thesis using True round_grid [OF assms(1)] by (simp add: CalculatePayAmountForCurrency_def)
next
  case False
  let ?d = "CurrencyMaxFractionDigits currency" and ?x = "dec_round 16 (a * feeRate / 100)"
  have x: "0 \<le> ?x" using False assms(2) by simp
  note up = dec_up_bounds [OF x, of ?d]
  have "CalculatePayAmountForCurrency a feeRate currency = a + dec_up ?d ?x"
    using False up grid_diff [OF assms(1)] by (simp add: CalculatePayAmountForCurrency_def dec_div_def Let_def round_grid)
  moreover have "\<bar>?x - a * feeRate / 100\<bar> \<le> 1 / (2 * 10 ^ 16)" by (rule round_error)
  moreover have "max 0 feeRate = feeRate" using False by simp
  ultimately show ?thesis using up x by linarith
qed

text \<open>
  C33: A recharge order credits what it costs, and the bonus. For every amount, set of tiers, multiplier, mode, fee and pair of
  currencies \<open>CreateOrder\<close> accepts: what the order credits is what the money paid before the fee buys plus the bonus, to the
  cent; the customer pays before the fee at most the amount asked for and more than nothing, and the fee is charged in full
  and rounded up by less than one unit of the currency.
\<close>

theorem order_amounts_exact:
  assumes "order_amounts cfg feeRate rate OrderTypeBalance None amount methodCurrency currency = Some am" "0 < amount"
  shows "am_Order am = calculateCreditedBalance (am_Limit am) (bc_Multiplier cfg) + am_Bonus am \<and> 0 \<le> am_Bonus am \<and>
    0 < am_Limit am \<and> am_Limit am \<le> amount \<and> am_Limit am \<le> am_Pay am \<and>
    am_Limit am + am_Limit am * max 0 feeRate / 100 - 1 / (2 * 10 ^ 16) \<le> am_Pay am \<and>
    am_Pay am < am_Limit am + am_Limit am * max 0 feeRate / 100 + 1 / (2 * 10 ^ 16) + 1 / 10 ^ CurrencyMaxFractionDigits currency"
proof -
  let ?q = "quoteRechargeBonus cfg amount methodCurrency"
  have am: "am_Order am = q_Credited ?q" "am_Limit am = q_PayBase ?q" "am_Bonus am = q_Bonus ?q"
    "calculateCreateOrderPayAmountForOrderType (q_PayBase ?q) feeRate currency OrderTypeBalance rate = Some (am_Pay am)"
    using assms(1) by (auto simp: order_amounts_def Let_def split: option.splits if_splits)
  have "AmountToMinorUnit (am_Limit am) currency \<noteq> None" "am_Pay am = CalculatePayAmountForCurrency (am_Limit am) feeRate currency"
    using am(2,4) by (auto simp: calculateCreateOrderPayAmountForOrderType_def calculateCreateOrderPayAmount_def Let_def OrderTypeBalance_def
        OrderTypeSubscription_def split: option.splits)
  then show ?thesis
    using pay_amount_bounds [OF minor_unit_grid, of "am_Limit am" currency feeRate] recharge_quote_exact [OF assms(2), of cfg methodCurrency] am(1-3)
    by auto
qed

theorem order_amounts_exact_witness:
  "\<exists>am. order_amounts (demo_bonus RechargeBonusModeDiscount) 1 (Fin 0) OrderTypeBalance None 120 ''CNY'' ''CNY'' = Some am \<and>
     am_Order am = calculateCreditedBalance (am_Limit am) (Fin 1) + am_Bonus am \<and> am_Limit am = 528 / 5"
proof -
  have "AmountToMinorUnit (528 / 5) ''CNY'' = Some 10560" by code_simp
  moreover have "order_amounts (demo_bonus RechargeBonusModeDiscount) 1 (Fin 0) OrderTypeBalance None 120 ''CNY'' ''CNY'' \<noteq> None" by code_simp
  then obtain am where am: "order_amounts (demo_bonus RechargeBonusModeDiscount) 1 (Fin 0) OrderTypeBalance None 120 ''CNY'' ''CNY'' = Some am" by blast
  then have "am_Limit am = 528 / 5"
    by (auto simp: order_amounts_def Let_def demo_quotes split: option.splits if_splits)
  then show ?thesis using order_amounts_exact [OF am] am by (auto simp: demo_bonus_def)
qed

end
