(* ===== verification/PaySafety.thy ===== *)
theory PaySafety
  imports PayInvariant PayAmounts
begin

text \<open>
  What the payment service guarantees to customers in every run: the invariant of all tasks together, runs given by their
  events, and the properties of payments.
\<close>

section \<open>All tasks together\<close>

definition sys_ok :: "pay_sys \<Rightarrow> bool" where
  "sys_ok s \<longleftrightarrow> pay_ok (ps_db s) \<and> (\<forall>t\<in>set (ps_tasks s). task_ok t (ps_db s))"

lemma entry_ok: "entry t \<Longrightarrow> task_ok t db"
  by (cases t) simp_all

lemma sweep_ok:
  "t \<in> set (ReconcilePendingPaymentOrders now db) \<Longrightarrow> task_ok t db'" "t \<in> set (ExpireTimedOutOrders now db) \<Longrightarrow> task_ok t db'"
  by (auto simp: ReconcilePendingPaymentOrders_def ExpireTimedOutOrders_def)

lemma pay_step_kept:
  assumes "pay_step env ok s s'" "sys_ok s"
  shows "sys_ok s' \<and> extends (ps_db s) (ps_db s')"
  using assms(1)
proof (cases rule: pay_step.cases)
  case (run n i t db)
  have "fine (ps_db s) (t, db)" using run_task_fine [of "ps_tasks s ! n" "ps_db s" env i] run assms(2) by (simp add: sys_ok_def)
  then have f: "extends (ps_db s) db" "pay_ok db" "task_ok t db" using assms(2) by (auto simp: fine_def kept_def sys_ok_def)
  have "task_ok u db" if "u \<in> set ((ps_tasks s)[n := t])" for u
    using set_update_subset_insert [of "ps_tasks s" n t] that f(3) task_ok_extends [OF _ f(1)] assms(2) by (auto simp: sys_ok_def)
  then show ?thesis using f run by (simp add: sys_ok_def)
next
  case (others us)
  have "kept (ps_db s) (ps_db s\<lparr>pd_users := us\<rparr>)" by (rule kept_users) (rule others(2))
  then show ?thesis using others(1) assms(2) task_ok_extends by (fastforce simp: sys_ok_def kept_def)
qed (use assms(2) entry_ok sweep_ok in \<open>auto simp: sys_ok_def\<close>)

lemma pay_run_kept:
  assumes "(pay_step env ok)\<^sup>*\<^sup>* s s'" "sys_ok s"
  shows "sys_ok s' \<and> extends (ps_db s) (ps_db s')"
  using assms
proof (induction rule: rtranclp_induct)
  case (step t u)
  then show ?case using pay_step_kept extends_trans by blast
qed simp

lemma start_ok: "pay_start s \<Longrightarrow> sys_ok s"
  by (simp add: pay_start_def sys_ok_def pay_ok_def get_order_def moved_in_def once_def credits_def rebates_def assignments_def)

lemma reach_ok: "pay_start s0 \<Longrightarrow> (pay_step env ok)\<^sup>*\<^sup>* s0 s \<Longrightarrow> pay_ok (ps_db s)"
  using pay_run_kept start_ok unfolding sys_ok_def by blast

section \<open>Runs\<close>

text \<open>A run given by its events: a request, or a step of a task with its input.\<close>

fun pay_event :: "pay_env \<Rightarrow> task + nat \<times> pay_input \<Rightarrow> pay_sys \<Rightarrow> pay_sys" where
  "pay_event env (Inl t) s = (if entry t then s\<lparr>ps_tasks := ps_tasks s @ [t]\<rparr> else s)"
| "pay_event env (Inr (n, i)) s =
     (if n < length (ps_tasks s)
      then let (t, db) = run_task (ps_tasks s ! n) env i (ps_db s) in s\<lparr>ps_db := db, ps_tasks := (ps_tasks s)[n := t]\<rparr> else s)"

definition pay_events :: "pay_env \<Rightarrow> (task + nat \<times> pay_input) list \<Rightarrow> pay_sys \<Rightarrow> pay_sys" where
  "pay_events env es s = fold (pay_event env) es s"

lemma pay_event_step:
  assumes "\<And>n i. e = Inr (n, i) \<Longrightarrow> ok i"
  shows "pay_step env ok s (pay_event env e s) \<or> pay_event env e s = s"
proof (cases e)
  case (Inl t)
  then show ?thesis using arrive [of t env ok s] by simp
next
  case (Inr ni)
  obtain n i where ni: "ni = (n, i)" by (cases ni)
  then have "ok i" using assms Inr by blast
  then show ?thesis using run [of n s ok i env] by (auto simp: Inr ni split: prod.split)
qed

lemma pay_events_reach: "(\<And>n i. Inr (n, i) \<in> set es \<Longrightarrow> ok i) \<Longrightarrow> (pay_step env ok)\<^sup>*\<^sup>* s (pay_events env es s)"
proof (induction es arbitrary: s)
  case Nil
  then show ?case by (simp add: pay_events_def)
next
  case (Cons e es)
  have "(pay_step env ok)\<^sup>*\<^sup>* s (pay_event env e s)" using pay_event_step [of e ok env s] Cons.prems by force
  also have "(pay_step env ok)\<^sup>*\<^sup>* (pay_event env e s) (pay_events env es (pay_event env e s))"
    by (rule Cons.IH) (use Cons.prems in auto)
  finally show ?case by (simp add: pay_events_def)
qed

text \<open>A small shop: one customer, one provider.\<close>

definition demo_env :: pay_env where
  "demo_env = \<lparr>pe_EqualFold = (=), pe_ToUpper = (\<lambda>s. s), pe_GetProviderKey = (\<lambda>_. []), pe_lottery = False, pe_affiliate = True,
     pe_MaxPendingOrders = 0, pe_DailyLimit = 0, pe_OrderTimeoutMin = 0\<rparr>"

definition demo_in :: "gotime \<Rightarrow> pay_input" where
  "demo_in now = \<lparr>pi_now = now, pi_fault = NoFault, pi_audit = True, pi_read = True,
     pi_instance = Some (Some \<lparr>in_ProviderKey = ''stripe'', in_RefundEnabled = True, in_AllowUserRefund = True\<rparr>), pi_provider = Some ''stripe'',
     pi_identity = [], pi_query = None, pi_requery = None, pi_refund = success_answer, pi_ok = True, pi_flag = True, pi_amount = Some 1,
     pi_id = 7, pi_text = ''tx''\<rparr>"

definition demo_start :: pay_sys where
  "demo_start = \<lparr>ps_db = \<lparr>pd_orders = [], pd_audit = [], pd_codes = [], pd_users = [(1, \<lparr>pu_deleted = False, pu_balance = 2, pu_recharged = 0\<rparr>)],
     pd_moves = []\<rparr>, ps_tasks = []\<rparr>"

definition demo_request :: CreateOrderRequest where
  "demo_request = \<lparr>cr_UserID = 1, cr_Type = OrderTypeBalance, cr_Method = ''stripe'', cr_Amount = 10, cr_Limit = 10, cr_Pay = 10, cr_Bonus = 0,
     cr_Provider = None, cr_Snapshot = None, cr_Group = None, cr_Days = None\<rparr>"

definition demo_notice :: PaymentNotification where
  "demo_notice = \<lparr>pn_TradeNo = ''tx'', pn_OrderID = ''tx'', pn_Amount = Fin 10, pn_Success = True, pn_Metadata = []\<rparr>"

definition steps_of :: "nat \<Rightarrow> nat \<Rightarrow> gotime \<Rightarrow> (task + nat \<times> pay_input) list" where
  "steps_of n k now = replicate k (Inr (n, demo_in now))"

text \<open>The order is created, paid, confirmed twice, and completed.\<close>

definition demo_paid :: pay_sys where
  "demo_paid = pay_events demo_env ([Inl (TCreate demo_request)] @ steps_of 0 3 1000 @ [Inl (TNotify demo_notice ''stripe''),
     Inl (TNotify demo_notice ''stripe'')] @ steps_of 1 13 2000 @ steps_of 2 13 3000) demo_start"

lemma column8_2: "column8 2"
  by code_simp

lemma demo_start: "pay_start demo_start"
  by (simp add: pay_start_def demo_start_def users_ok_def column8_2)

lemma demo_paid_run: "(pay_step demo_env (\<lambda>_. True))\<^sup>*\<^sup>* demo_start demo_paid"
  unfolding demo_paid_def by (rule pay_events_reach) simp

section \<open>Payments\<close>

definition order_settled :: "int \<Rightarrow> pay_order \<Rightarrow> pay_db \<Rightarrow> bool" where
  "order_settled oid od db \<longleftrightarrow> length (credits (po_code od) db) \<le> 1 \<and>
     (moved_in (MAdminCode (po_code od)) db \<or>
       (served (po_status od) \<and> po_type od = OrderTypeBalance \<longrightarrow>
          (\<exists>a. credits (po_code od) db = [(po_user od, a)] \<and> close_to a (po_amount od))) \<and>
       (credits (po_code od) db \<noteq> [] \<longrightarrow> confirmed oid db)) \<and>
     (served (po_status od) \<longrightarrow> confirmed oid db)"

lemma pay_ok_settled:
  assumes p: "pay_ok db" and g: "get_order oid db = Some od"
  shows "order_settled oid od db"
proof -
  obtain t where o: "oid > 0" "po_code od = recharge_code oid t" "served (po_status od) \<longrightarrow> paid_out od db \<and> confirmed oid db"
    using pay_ok_order [OF p g] unfolding order_ok_def by blast
  have l: "length (credits (po_code od) db) \<le> 1" using p by (simp add: pay_ok_def once_def)
  have code: "code_ok c row db" if "map_of (pd_codes db) c = Some row" for c row using p that by (simp add: pay_ok_def)
  have a: "\<exists>a. credits (po_code od) db = [(po_user od, a)] \<and> close_to a (po_amount od)"
    if adm: "\<not> moved_in (MAdminCode (po_code od)) db" and s: "served (po_status od)" "po_type od = OrderTypeBalance"
  proof -
    obtain row where row: "map_of (pd_codes db) (po_code od) = Some row" "rc_status row = CUsed" "rc_used_by row = Some (po_user od)"
      "close_to (rc_value row) (po_amount od)" using o(3) s unfolding paid_out_def by blast
    have "(po_user od, rc_value row) \<in> set (credits (po_code od) db)"
      using code [OF row(1)] adm row(2,3) unfolding code_ok_def credits_in by auto
    then have "credits (po_code od) db = [(po_user od, rc_value row)]" using l by (cases "credits (po_code od) db") auto
    then show ?thesis using row(4) by blast
  qed
  have c: "confirmed oid db" if adm: "\<not> moved_in (MAdminCode (po_code od)) db" and n: "credits (po_code od) db \<noteq> []"
  proof -
    obtain uid v where "(uid, v) \<in> set (credits (po_code od) db)" using n by (metis list.set_intros(1) neq_Nil_conv surj_pair)
    then have "move_ok (MCredited (po_code od) uid v) db" using p unfolding credits_in pay_ok_def by blast
    then obtain row where "map_of (pd_codes db) (po_code od) = Some row" by (auto simp: move_ok_def)
    then obtain oid' od' where x: "get_order oid' db = Some od'" "strings_TrimSpace (po_code od') = po_code od" "confirmed oid' db"
      using code adm unfolding code_ok_def by blast
    obtain u where "oid' > 0" "po_code od' = recharge_code oid' u" using pay_ok_order [OF p x(1)] unfolding order_ok_def by blast
    then have "oid' = oid" using x(2) o recharge_code_inj [of oid' u oid t] by simp
    then show ?thesis using x(3) by simp
  qed
  show ?thesis unfolding order_settled_def using l a c o(3) by blast
qed

text \<open>The run above, evaluated: two notifications of one payment, one credit.\<close>

lemma demo_order: "map_option po_status (get_order 7 (ps_db demo_paid)) = Some OCompleted"
  by code_simp

lemma demo_credits: "credits ''PAY-7-1000'' (ps_db demo_paid) = [(1, 10)]"
proof -
  have "credits ''PAY-7-1000'' (ps_db demo_paid) = x \<longleftrightarrow> x = [(1, 10)]" for x by (code_simp, simp add: eq_commute)
  then show ?thesis by blast
qed



section \<open>Currencies with three decimals\<close>

text \<open>
  In a currency with three decimals, an exact payment whose last decimal is not zero is refused. The order's column keeps two
  decimals of the amount the customer was asked for, and the tolerance of such a currency is half of its third decimal: the
  notification that the customer paid exactly what was asked ends as an amount mismatch (or earlier), and changes neither
  an order nor any money.
\<close>

theorem three_decimal_payment_refused:
  assumes "get_order oid db = Some od" "CurrencyMinorUnit (PaymentOrderCurrency od) = 3" "po_pay od = column2 x"
    and "on_grid 3 x" "\<not> on_grid 2 x"
  shows "(\<exists>r. fst (confirmPayment env i oid trade (Fin x) pk meta db) = TDone r) \<and>
    pd_orders (snd (confirmPayment env i oid trade (Fin x) pk meta db)) = pd_orders db \<and>
    pd_moves (snd (confirmPayment env i oid trade (Fin x) pk meta db)) = pd_moves db"
proof -
  obtain n where n: "x = of_int n / 1000" using assms(4) by (auto simp: on_grid_def)
  obtain k where k: "column2 x = of_int k / 100" using on_grid_round [of 2 x] unfolding column2_def on_grid_def by auto
  have ne: "n \<noteq> 10 * k"
  proof
    assume "n = 10 * k"
    then have "x = of_int k / 10 ^ 2" by (simp add: n)
    then show False using assms(5) unfolding on_grid_def by blast
  qed
  have scale: "1 / 1000 \<le> \<bar>z / 1000\<bar>" if "1 \<le> \<bar>z\<bar>" for z :: rat using that by (simp add: abs_divide)
  have "1 \<le> \<bar>n - 10 * k\<bar>" using ne by linarith
  then have "(1 :: rat) \<le> \<bar>of_int (n - 10 * k)\<bar>" by linarith
  moreover have "x - column2 x = of_int (n - 10 * k) / 1000" unfolding k by (simp add: n diff_divide_distrib)
  ultimately have "1 / 1000 \<le> \<bar>x - po_pay od\<bar>" unfolding assms(3) using scale by metis
  then have far: "\<bar>x - po_pay od\<bar> > paymentAmountToleranceForCurrency (PaymentOrderCurrency od)"
    by (simp add: paymentAmountToleranceForCurrency_def Let_def assms(2))
  show ?thesis using assms(1) far by (auto simp: confirmPayment_def writeAuditLog_def Let_def split: option.split)
qed

definition dinar_request :: CreateOrderRequest where
  "dinar_request = \<lparr>cr_UserID = 1, cr_Type = OrderTypeBalance, cr_Method = ''stripe'', cr_Amount = 247 / 200, cr_Limit = 247 / 200, cr_Pay = 247 / 200,
     cr_Bonus = 0, cr_Provider = None, cr_Snapshot = Some \<lparr>sn_ProviderKey = [], sn_MerchantAppID = [], sn_MerchantID = [], sn_Currency = ''KWD''\<rparr>,
     cr_Group = None, cr_Days = None\<rparr>"

definition dinar_sys :: pay_sys where
  "dinar_sys = pay_events demo_env ([Inl (TCreate dinar_request)] @ steps_of 0 3 1000) demo_start"

theorem three_decimal_payment_refused_witness:
  "pd_moves (snd (confirmPayment demo_env (demo_in 2000) 7 ''tx'' (Fin (247 / 200)) ''stripe'' [] (ps_db dinar_sys))) = []"
proof -
  have "map_option (\<lambda>od. CurrencyMinorUnit (PaymentOrderCurrency od)) (get_order 7 (ps_db dinar_sys)) = Some 3" by code_simp
  then obtain od where od: "get_order 7 (ps_db dinar_sys) = Some od" "CurrencyMinorUnit (PaymentOrderCurrency od) = 3" by auto
  have m: "pd_moves (ps_db dinar_sys) = []" by code_simp
  have "map_option po_pay (get_order 7 (ps_db dinar_sys)) = x \<longleftrightarrow> x = Some (column2 (247 / 200))" for x by (code_simp, simp add: eq_commute)
  then have pay: "po_pay od = column2 (247 / 200)" using od(1) by auto
  have "on_grid 3 (247 / 200)" unfolding on_grid_def by (rule exI [of _ 1235]) simp
  moreover have "\<not> on_grid 2 (247 / 200)"
  proof
    assume "on_grid 2 (247 / 200)"
    then obtain n where "(247 / 200 :: rat) = of_int n / 100" by (auto simp: on_grid_def)
    then have "of_int (2 * n) = (of_int 247 :: rat)" by simp
    then have "2 * n = 247" by (simp only: of_int_eq_iff)
    then show False by presburger
  qed
  ultimately show ?thesis using three_decimal_payment_refused [OF od pay, of demo_env "demo_in 2000" "''tx''" "''stripe''" "[]"] m by simp
qed

end
