(* ===== verification/PayRefundSafety.thy ===== *)
theory PayRefundSafety
  imports PaySafety
begin

text \<open>
  What refunds guarantee: the customer never gets back more than was taken, two refunds of an order do not run at the same
  time, and an order that is refunded, or whose refund was given up half way, stays so.
\<close>

section \<open>The money of a refund\<close>

definition taken :: "int \<Rightarrow> pay_db \<Rightarrow> rat" where
  "taken oid db = (\<Sum>m \<leftarrow> pd_moves db. case m of MTaken k _ a \<Rightarrow> if k = oid then a else 0 | _ \<Rightarrow> 0)"

definition returned :: "int \<Rightarrow> pay_db \<Rightarrow> rat" where
  "returned oid db = (\<Sum>m \<leftarrow> pd_moves db. case m of MReturned k _ a \<Rightarrow> if k = oid then a else 0 | _ \<Rightarrow> 0)"

definition provider_calls :: "int \<Rightarrow> pay_db \<Rightarrow> nat" where
  "provider_calls oid db = length (filter (\<lambda>m. case m of MGateway k _ \<Rightarrow> k = oid | _ \<Rightarrow> False) (pd_moves db))"

text \<open>
  What a plan still has to give back, what the task that holds the plan does, and what a pending refund holds. An audited
  failure of a refund of the order ends what is counted as held: from then on the money of a plan is counted with the task
  that gives it back, and what a later pending refund takes is counted as taken only.
\<close>

definition owed :: "RefundPlan \<Rightarrow> rat" where "owed p = (if deducts_balance p then rp_BalanceToDeduct p else 0)"

fun claim :: "int \<Rightarrow> task \<Rightarrow> rat" where
  "claim oid (TGateway p) = (if plan_oid p = oid then owed p else 0)"
| "claim oid (TMarkOk p a) = (if plan_oid p = oid then owed p else 0)"
| "claim oid (TMarkPending p a) = (if plan_oid p = oid then owed p else 0)"
| "claim oid (TRollback p) = (if plan_oid p = oid then owed p else 0)"
| "claim oid _ = 0"

definition detail_owed :: "refundPendingAuditDetail \<Rightarrow> rat" where
  "detail_owed d = (if rd_DeductionHeld d \<and> rd_DeductionType d = DBalance \<and> rd_BalanceDeducted d > 0 then rd_BalanceDeducted d else 0)"

definition held :: "int \<Rightarrow> pay_db \<Rightarrow> rat" where
  "held oid db =
     (if map_of (pd_audit db) (oid, ''REFUND_FAILED'') \<noteq> None then 0
      else case map_of (pd_audit db) (oid, ''REFUND_PENDING'') of Some (APending d) \<Rightarrow> detail_owed d | _ \<Rightarrow> 0)"

lemma owed_nonneg [simp]: "0 \<le> owed p"
  by (simp add: owed_def deducts_balance_def)

lemma claim_nonneg [simp]: "0 \<le> claim oid t"
  by (cases "(oid, t)" rule: claim.cases) simp_all

lemma held_nonneg [simp]: "0 \<le> held oid db"
  by (simp add: held_def detail_owed_def split: option.split audit_detail.split)

text \<open>A refund in progress, by the task that claimed the order; the task that creates an order.\<close>

fun owner :: "int \<Rightarrow> task \<Rightarrow> bool" where
  "owner oid (TDeduct p) \<longleftrightarrow> plan_oid p = oid"
| "owner oid (TDeductDays p) \<longleftrightarrow> plan_oid p = oid"
| "owner oid (TGateway p) \<longleftrightarrow> plan_oid p = oid"
| "owner oid (TMarkOk p a) \<longleftrightarrow> plan_oid p = oid"
| "owner oid (TMarkPending p a) \<longleftrightarrow> plan_oid p = oid"
| "owner oid (TRollback p) \<longleftrightarrow> plan_oid p = oid"
| "owner oid (TRestore p r) \<longleftrightarrow> plan_oid p = oid"
| "owner oid (TRefundFailed p) \<longleftrightarrow> plan_oid p = oid"
| "owner oid _ \<longleftrightarrow> False"

fun creating :: "int \<Rightarrow> task \<Rightarrow> bool" where
  "creating oid (TInvoke k) \<longleftrightarrow> k = oid"
| "creating oid (TCreateFailed k e) \<longleftrightarrow> k = oid"
| "creating oid _ \<longleftrightarrow> False"

lemma not_owner_claim: "\<not> owner oid t \<Longrightarrow> claim oid t = 0"
  by (cases "(oid, t)" rule: claim.cases) simp_all

definition locked :: "order_status \<Rightarrow> bool" where
  "locked s \<longleftrightarrow> s \<in> {ORefunding, OPartiallyRefunded, ORefunded}"

text \<open>What a task that closes a pending refund read of the held deduction is what the audit row still says.\<close>

definition held_row :: "int \<Rightarrow> RefundPlan \<Rightarrow> pay_db \<Rightarrow> bool" where
  "held_row oid p db \<longleftrightarrow> rp_deductionHeld p \<and> deducts_balance p \<longrightarrow>
     (\<exists>d. map_of (pd_audit db) (oid, ''REFUND_PENDING'') = Some (APending d) \<and> detail_owed d = owed p)"

fun fin_ok :: "task \<Rightarrow> pay_db \<Rightarrow> bool" where
  "fin_ok (TDeductDays p) db \<longleftrightarrow> \<not> deducts_balance p"
| "fin_ok (TFinalQuery sn d) db \<longleftrightarrow> (rd_DeductionHeld d \<longrightarrow>
     (\<exists>d'. map_of (pd_audit db) (fst sn, ''REFUND_PENDING'') = Some (APending d') \<and> detail_owed d' = detail_owed d))"
| "fin_ok (TFinalFail p) db \<longleftrightarrow> held_row (plan_oid p) p db"
| "fin_ok _ db \<longleftrightarrow> True"

lemma fin_ok_extends: "fin_ok t db \<Longrightarrow> extends db db' \<Longrightarrow> fin_ok t db'"
  by (cases "(t, db)" rule: fin_ok.cases) (auto simp: held_row_def extends_def)

section \<open>Steps that leave a refund alone\<close>

text \<open>The refund's money, provider calls and, where \<open>st\<close> asks for it, the status of the locked order are as before.\<close>

definition status_kept :: "int \<Rightarrow> pay_db \<Rightarrow> pay_db \<Rightarrow> bool" where
  "status_kept oid db db' \<longleftrightarrow> (\<forall>od. get_order oid db = Some od \<longrightarrow>
     (\<exists>od'. get_order oid db' = Some od' \<and> (locked (po_status od) \<longrightarrow> po_status od' = po_status od)))"

definition calm :: "bool \<Rightarrow> int \<Rightarrow> pay_db \<Rightarrow> pay_db \<Rightarrow> bool" where
  "calm st oid db db' \<longleftrightarrow> taken oid db' = taken oid db \<and> returned oid db' = returned oid db \<and>
     provider_calls oid db' = provider_calls oid db \<and> held oid db' \<le> held oid db \<and> (st \<longrightarrow> status_kept oid db db')"

lemma status_kept_refl [simp]: "status_kept oid db db"
  by (simp add: status_kept_def)

lemma status_kept_trans: "status_kept oid a b \<Longrightarrow> status_kept oid b c \<Longrightarrow> status_kept oid a c"
  unfolding status_kept_def by metis

lemma calm_refl [simp]: "calm st oid db db"
  by (simp add: calm_def)

lemma calm_trans: "calm st oid a b \<Longrightarrow> calm st oid b c \<Longrightarrow> calm st oid a c"
  using status_kept_trans unfolding calm_def by (metis order_trans)

lemma held_less:
  assumes "map_of (pd_audit db') (oid, ''REFUND_PENDING'') = map_of (pd_audit db) (oid, ''REFUND_PENDING'') \<or>
      map_of (pd_audit db') (oid, ''REFUND_PENDING'') = Some ADetail"
    and "map_of (pd_audit db) (oid, ''REFUND_FAILED'') \<noteq> None \<Longrightarrow> map_of (pd_audit db') (oid, ''REFUND_FAILED'') \<noteq> None"
  shows "held oid db' \<le> held oid db"
proof (cases "map_of (pd_audit db') (oid, ''REFUND_FAILED'') = None \<and>
    map_of (pd_audit db') (oid, ''REFUND_PENDING'') = map_of (pd_audit db) (oid, ''REFUND_PENDING'')")
  case True
  then have "map_of (pd_audit db) (oid, ''REFUND_FAILED'') = None" using assms(2) by blast
  then show ?thesis using True by (simp add: held_def)
next
  case False
  then have "held oid db' = 0" using assms(1) by (auto simp: held_def)
  then show ?thesis by simp
qed

lemma calm_tables:
  assumes "pd_moves db' = pd_moves db" "held oid db' \<le> held oid db" "st \<Longrightarrow> status_kept oid db db'"
  shows "calm st oid db db'"
  using assms by (simp add: calm_def taken_def returned_def provider_calls_def)

lemma calm_insert_audit:
  assumes "map_of (pd_audit db) k = None"
  shows "calm st oid db (db\<lparr>pd_audit := tput k ADetail (pd_audit db)\<rparr>)"
proof (rule calm_tables)
  let ?d = "db\<lparr>pd_audit := tput k ADetail (pd_audit db)\<rparr>"
  have a: "map_of (pd_audit ?d) j = (if j = k then Some ADetail else map_of (pd_audit db) j)" for j by (simp add: map_of_tput)
  show "held oid ?d \<le> held oid db" by (rule held_less) (simp_all only: a, simp_all)
  show "status_kept oid db ?d" by (simp add: status_kept_def get_order_def)
qed simp

lemma calm_writeAuditLog [simp]: "calm st oid db (writeAuditLog i k act db)"
  using calm_insert_audit by (cases "map_of (pd_audit db) (k, act)") (auto simp: writeAuditLog_def)

lemma calm_then_audit [simp, intro]: "calm st oid db db1 \<Longrightarrow> calm st oid db (writeAuditLog i k act db1)"
  using calm_trans calm_writeAuditLog by blast

lemma held_cong: "pd_audit db' = pd_audit db \<Longrightarrow> held oid db' = held oid db"
  by (simp add: held_def)

text \<open>A change of an order calms the refund of another one, or of this one when the locked status stays.\<close>

definition harmless :: "bool \<Rightarrow> int \<Rightarrow> int \<Rightarrow> (pay_order \<Rightarrow> bool) \<Rightarrow> (pay_order \<Rightarrow> pay_order) \<Rightarrow> bool" where
  "harmless st oid k guard change \<longleftrightarrow> st \<longrightarrow> k = oid \<longrightarrow> (\<forall>od. guard od \<longrightarrow> locked (po_status od) \<longrightarrow> po_status (change od) = po_status od)"

lemma calm_update:
  assumes "update_order now k guard change db = Commit db' v" "harmless st oid k guard change"
  shows "calm st oid db db'"
proof -
  obtain od where od: "get_order k db = Some od" "guard od"
    "db' = db\<lparr>pd_orders := tput k ((change od)\<lparr>po_updated := now\<rparr>) (pd_orders db)\<rparr>"
    using update_order_commit [OF assms(1)] by metis
  show ?thesis
  proof (rule calm_tables)
    show "pd_moves db' = pd_moves db" by (simp add: od(3))
    show "held oid db' \<le> held oid db" unfolding od(3) by (rule eq_refl, rule held_cong) simp
    show "status_kept oid db db'" if st: st
      unfolding status_kept_def
    proof (intro allI impI)
      fix cur assume cur: "get_order oid db = Some cur"
      show "\<exists>od'. get_order oid db' = Some od' \<and> (locked (po_status cur) \<longrightarrow> po_status od' = po_status cur)"
      proof (cases "k = oid")
        case True
        then have "locked (po_status od) \<longrightarrow> po_status (change od) = po_status od" using assms(2) st od(2) by (auto simp: harmless_def)
        then show ?thesis using od(1,3) cur True by (simp add: get_order_def map_of_tput)
      qed (use od(3) cur in \<open>simp add: get_order_def map_of_tput\<close>)
    qed
  qed
qed

lemma calm_set:
  assumes "set_order now k change db = Commit db' v" "harmless st oid k (\<lambda>_. True) change"
  shows "calm st oid db db'"
  using assms calm_update by (auto simp: set_order_def split: tx.splits)

lemma calm_stmt:
  assumes "run_stmt i body db = (r, db1)" "\<And>db' v. body db = Commit db' v \<Longrightarrow> calm st oid db db'"
  shows "calm st oid db db1"
proof -
  have "db1 = db \<or> (\<exists>v. body db = Commit db1 v)"
    using run_tx_snd [of "pi_fault i" PDb body db] assms(1) unfolding run_stmt_def by (metis snd_conv)
  then show ?thesis using assms(2) calm_refl by blast
qed

lemma calm_update_stmt:
  "run_stmt i (update_order now k guard change) db = (r, db1) \<Longrightarrow> harmless st oid k guard change \<Longrightarrow> calm st oid db db1"
  using calm_stmt calm_update by metis

lemma calm_set_stmt:
  "run_stmt i (set_order now k change) db = (r, db1) \<Longrightarrow> harmless st oid k (\<lambda>_. True) change \<Longrightarrow> calm st oid db db1"
  using calm_stmt calm_set by metis

text \<open>A step of a task that is not a refund of the order.\<close>

definition aside :: "bool \<Rightarrow> int \<Rightarrow> pay_db \<Rightarrow> task \<times> pay_db \<Rightarrow> bool" where
  "aside st oid db r \<longleftrightarrow> calm st oid db (snd r) \<and> \<not> owner oid (fst r) \<and> (st \<and> creating oid (fst r) \<longrightarrow> get_order oid db = None) \<and>
     fin_ok (fst r) (snd r)"

lemma aside_pair [simp]:
  "aside st oid db (t, db1) \<longleftrightarrow> calm st oid db db1 \<and> \<not> owner oid t \<and> (st \<and> creating oid t \<longrightarrow> get_order oid db = None) \<and> fin_ok t db1"
  by (simp add: aside_def)

lemma aside_notify: "aside st oid db (HandlePaymentNotification i n pk db)"
  by (auto simp: HandlePaymentNotification_def split: read_splits)

lemma calm_move:
  assumes "case m of MTaken _ _ _ \<Rightarrow> False | MReturned _ _ _ \<Rightarrow> False | MGateway _ _ \<Rightarrow> False | _ \<Rightarrow> True"
  shows "calm st oid db (record_move m db)"
  using assms held_cong [of "record_move m db" db oid]
  by (auto simp: calm_def taken_def returned_def provider_calls_def record_move_def status_kept_def get_order_def split: pay_move.splits)

lemma calm_confirmed [simp]: "calm st oid db (record_move (MConfirmed k a) db)"
  by (rule calm_move) simp

lemma aside_confirm: "aside st oid db (confirmPayment env i k trade paid pk meta db)"
  by (auto simp: confirmPayment_def Let_def split: read_splits gofloat.splits)

lemma aside_already: "aside st oid db (alreadyProcessed i k db)"
  by (auto simp: alreadyProcessed_def split: read_splits)

lemma aside_execute: "aside st oid db (executeFulfillment i k db)"
  by (auto simp: executeFulfillment_def split: read_splits)

lemma aside_balance: "aside st oid db (ExecuteBalanceFulfillment i k db)"
  by (auto simp: ExecuteBalanceFulfillment_def split: read_splits)

lemma aside_subscription: "aside st oid db (ExecuteSubscriptionFulfillment i k db)"
  by (auto simp: ExecuteSubscriptionFulfillment_def split: read_splits)

lemma aside_lease_lost: "aside st oid db (lease_lost i sn db)"
  by (auto simp: lease_lost_def split: read_splits)

lemma aside_lease_read: "aside st oid db (lease_read i sn db)"
  by (auto simp: lease_read_def split: read_splits)

lemma aside_doBalance: "aside st oid db (doBalance i sn v db)"
  by (auto simp: doBalance_def Let_def split: read_splits redeemAction.splits)

lemma aside_redeem: "aside st oid db (redeem_for_payment i sn v db)"
  by (auto simp: redeem_for_payment_def split: sum.splits)

lemma aside_public: "aside st oid db (public_redeem i uid code db)"
  by (auto simp: public_redeem_def split: sum.splits)

lemma aside_completion_lost: "aside st oid db (completion_lost i sn v db)"
  by (auto simp: completion_lost_def split: read_splits)

lemma aside_retry: "aside st oid db (RetryFulfillment i k db)"
  by (auto simp: RetryFulfillment_def split: read_splits)

lemma aside_cancel: "aside st oid db (CancelOrder i k user db)"
  by (auto simp: CancelOrder_def split: read_splits)

lemma aside_cancelCore: "aside st oid db (cancelCore sn final db)"
  by (simp add: cancelCore_def)

lemma aside_checkPaid: "aside st oid db (checkPaidWithOptions env i sn cont db)"
  by (auto simp: checkPaidWithOptions_def Let_def split: read_splits)

lemma aside_verify: "aside st oid db (VerifyOrderByOutTradeNo i raw uid db)"
  by (auto simp: VerifyOrderByOutTradeNo_def split: read_splits)

lemma aside_create: "aside st oid db (create_check env i req db)"
  by (simp add: create_check_def)

lemma aside_request: "aside st oid db (RequestRefund i k uid reason db)"
  by (auto simp: RequestRefund_def split: read_splits)

lemma aside_request_balance: "aside st oid db (request_balance i sn reason db)"
  by (auto simp: request_balance_def split: read_splits)

lemma aside_prepare: "aside st oid db (PrepareRefund i k amt reason force deduct db)"
  by (auto simp: PrepareRefund_def Let_def split: read_splits gofloat.splits)

lemma aside_prepDeduct: "aside st oid db (prepDeduct i p db)"
  by (auto simp: prepDeduct_def Let_def split: read_splits)

lemma aside_finalize: "aside st oid db (QueryAndFinalizeRefund i k db)"
  by (auto simp: QueryAndFinalizeRefund_def split: read_splits)

lemma aside_detail: "aside st oid db (latestRefundPendingDetail i sn db)"
  by (auto simp: latestRefundPendingDetail_def no_pending_detail_def detail_owed_def split: option.split audit_detail.split)

lemma finalize_plan_owed: "rp_deductionHeld (finalize_plan i sn d) \<Longrightarrow> rd_DeductionHeld d \<and> owed (finalize_plan i sn d) = detail_owed d"
  by (auto simp: finalize_plan_def refundFinalizePlan_def refund_plan_def plan_days_def Let_def owed_def detail_owed_def deducts_balance_def
      split: if_splits)

lemma aside_query:
  assumes "fin_ok (TFinalQuery sn d) db"
  shows "aside st oid db (query_refund i sn d db)"
proof -
  have "held_row (fst sn) (finalize_plan i sn d) db"
    using assms finalize_plan_owed [of i sn d] unfolding held_row_def by auto
  then show ?thesis by (auto simp: query_refund_def Let_def plan_oid_def finalize_plan_order split: refund_verdict.splits)
qed

lemma calm_same:
  assumes "pd_moves db' = pd_moves db" "pd_audit db' = pd_audit db" "pd_orders db' = pd_orders db"
  shows "calm st oid db db'"
  by (rule calm_tables) (use assms held_cong [of db' db oid] in \<open>simp_all add: status_kept_def get_order_def\<close>)

text \<open>An update whose guard excludes the locked states is harmless.\<close>

lemma harmless_guard: "(\<And>od. guard od \<Longrightarrow> \<not> locked (po_status od)) \<Longrightarrow> harmless st oid k guard change"
  by (simp add: harmless_def)

lemma harmless_column: "(\<And>od. po_status (change od) = po_status od) \<Longrightarrow> harmless st oid k guard change"
  by (simp add: harmless_def)

lemma aside_toPaid: "aside st oid db (toPaid i sn trade paid pk db)"
proof -
  obtain r db1 where r: "run_stmt i (update_order (pi_now i) (fst sn) (payable (pi_now i)) (mark_paid (pi_now i) trade paid)) db = (r, db1)" by fastforce
  have "calm st oid db db1" by (rule calm_update_stmt [OF r harmless_guard]) (auto simp: payable_def locked_def)
  then show ?thesis using r by (auto simp: toPaid_def split: sum.splits prod.splits)
qed

lemma aside_reject: "aside st oid db (rejectUnsupportedOrderType i sn db)"
proof -
  let ?f = "\<lambda>od. od\<lparr>po_status := OFailed, po_failed := (Some (pi_now i), Some ''unsupported order type'')\<rparr>"
  obtain r db1 where r: "run_stmt i (update_order (pi_now i) (fst sn) (\<lambda>od. po_status od \<in> {OPaid, ORecharging}) ?f) db = (r, db1)" by fastforce
  have "calm st oid db db1" by (rule calm_update_stmt [OF r harmless_guard]) (auto simp: locked_def)
  then show ?thesis using r by (auto simp: rejectUnsupportedOrderType_def split: sum.splits bool.splits)
qed

lemma aside_acquire: "aside st oid db (acquirePaymentFulfillmentLease i sn db)"
proof -
  let ?n = "Truncate (pi_now i) Microsecond"
  let ?f = "\<lambda>od. od\<lparr>po_status := ORecharging, po_failed := (None, None)\<rparr>"
  obtain r db1 where r: "run_stmt i (update_order ?n (fst sn) (lease_free ?n) ?f) db = (r, db1)" by fastforce
  have "calm st oid db db1" by (rule calm_update_stmt [OF r harmless_guard]) (auto simp: lease_free_def locked_def)
  then show ?thesis using r by (auto simp: acquirePaymentFulfillmentLease_def Let_def split: sum.splits)
qed

lemma aside_failed: "aside st oid db (markFailed i k v e db)"
proof -
  let ?f = "\<lambda>od. od\<lparr>po_status := OFailed, po_failed := (Some (pi_now i), Some ''fulfillment failed'')\<rparr>"
  obtain r db1 where r: "run_stmt i (update_order (pi_now i) k (leased v) ?f) db = (r, db1)" by fastforce
  have "calm st oid db db1" by (rule calm_update_stmt [OF r harmless_guard]) (auto simp: leased_def locked_def)
  then show ?thesis using r by (auto simp: markFailed_def split: sum.splits bool.splits)
qed

lemma aside_cancel_update: "aside st oid db (cancel_update i sn final db)"
proof -
  obtain r db1 where r: "run_stmt i (update_order (pi_now i) (fst sn) (\<lambda>od. po_status od = OPending) (\<lambda>od. od\<lparr>po_status := final\<rparr>)) db = (r, db1)" by fastforce
  have "calm st oid db db1" by (rule calm_update_stmt [OF r harmless_guard]) (auto simp: locked_def)
  then show ?thesis using r by (auto simp: cancel_update_def split: sum.splits)
qed

lemma aside_persist: "aside st oid db (persist_trade i sn up pk n db)"
proof -
  obtain r db1 where r: "run_stmt i (update_order (pi_now i) (fst sn) (\<lambda>_. True) (\<lambda>od. od\<lparr>po_trade := up\<rparr>)) db = (r, db1)" by fastforce
  have "calm st oid db db1" by (rule calm_update_stmt [OF r harmless_column]) simp
  then show ?thesis using r by (simp add: persist_trade_def)
qed

lemma aside_invoke:
  assumes "st \<Longrightarrow> k \<noteq> oid"
  shows "aside st oid db (invokeProvider i k db)"
proof -
  let ?f = "\<lambda>od. od\<lparr>po_trade := (if pi_text i = [] then po_trade od else pi_text i),
             po_provider := (case pi_provider i of None \<Rightarrow> po_provider od | Some k \<Rightarrow> Some k)\<rparr>"
  obtain r db1 where r: "run_stmt i (set_order (pi_now i) k ?f) db = (r, db1)" by fastforce
  have "calm st oid db db1" by (rule calm_set_stmt [OF r harmless_column]) simp
  then show ?thesis using r assms by (auto simp: invokeProvider_def split: sum.splits)
qed

lemma aside_create_failed:
  assumes "st \<Longrightarrow> k \<noteq> oid"
  shows "aside st oid db (create_failed i k e db)"
proof -
  obtain r db1 where r: "run_stmt i (set_order (pi_now i) k (\<lambda>od. od\<lparr>po_status := OFailed\<rparr>)) db = (r, db1)" by fastforce
  have "calm st oid db db1" by (rule calm_set_stmt [OF r]) (use assms in \<open>simp add: harmless_def\<close>)
  then show ?thesis using r by (simp add: create_failed_def)
qed

lemma aside_request_update: "aside st oid db (request_update i sn reason db)"
proof -
  obtain k od where sn: "sn = (k, od)" by (cases sn)
  let ?g = "\<lambda>cur. po_user cur = po_user od \<and> po_status cur = OCompleted \<and> po_type cur = OrderTypeBalance"
  let ?f = "\<lambda>cur. cur\<lparr>po_status := ORefundRequested, po_refund := column2 (po_amount od),
             po_requested := Some (pi_now i, strings_TrimSpace reason, FormatInt (po_user od))\<rparr>"
  obtain r db1 where r: "run_stmt i (update_order (pi_now i) k ?g ?f) db = (r, db1)" by fastforce
  have "calm st oid db db1" by (rule calm_update_stmt [OF r harmless_guard]) (auto simp: locked_def)
  then show ?thesis using r by (auto simp: request_update_def sn split: sum.splits)
qed

lemma calm_credited:
  assumes "calm st oid db db1" "case m of MTaken _ _ _ \<Rightarrow> False | MReturned _ _ _ \<Rightarrow> False | MGateway _ _ \<Rightarrow> False | _ \<Rightarrow> True"
  shows "calm st oid db (record_move m db1)"
  by (rule calm_trans [OF assms(1) calm_move [OF assms(2)]])

lemma calm_redeem_tx:
  assumes "redeem_tx env i skip uid code rc db = Commit db' v"
  shows "calm st oid db db'"
  using assms
proof (cases rule: redeem_tx_commit)
  case (1 db1)
  then show ?thesis using Use_row by (fastforce intro: calm_same)
next
  case (2 db1 us)
  have "calm st oid db (db1\<lparr>pd_users := us\<rparr>)" using Use_row [OF 2(1)] by (auto intro: calm_same)
  then show ?thesis unfolding 2(4) by (rule calm_credited) simp
qed

lemma aside_redeem_tx: "aside st oid db (redeem_payment_tx env i sn v rc db)"
proof -
  obtain r db1 where r: "run_stmt i (redeem_tx env i True (po_user (snd sn)) (po_code (snd sn)) rc) db = (r, db1)" by fastforce
  have "calm st oid db db1" by (rule calm_stmt [OF r calm_redeem_tx])
  then show ?thesis using r by (auto simp: redeem_payment_tx_def split: sum.splits)
qed

lemma aside_public_tx: "aside st oid db (public_redeem_tx env i uid code rc db)"
proof -
  obtain r db1 where r: "run_stmt i (redeem_tx env i False uid code rc) db = (r, db1)" by fastforce
  have "calm st oid db db1" by (rule calm_stmt [OF r calm_redeem_tx])
  then show ?thesis using r by (auto simp: public_redeem_tx_def split: sum.splits)
qed

lemma calm_CreateCode:
  assumes "CreateCode i raw rc db = (r, db1)"
  shows "calm st oid db db1"
proof -
  have "db1 = db \<or> (\<exists>c row. db1 = db\<lparr>pd_codes := tput c row (pd_codes db)\<rparr>)"
    using assms unfolding CreateCode_def Let_def by (auto split: if_splits dest!: run_stmt_snd insert_code_commit)
  then show ?thesis by (auto intro: calm_same)
qed

lemma aside_create_code: "aside st oid db (create_order_code i sn v db)"
  by (auto simp: create_order_code_def split: prod.splits sum.splits dest: calm_CreateCode)

lemma aside_admin: "aside st oid db (admin_code i code rc db)"
  by (auto simp: admin_code_def split: prod.splits sum.splits intro!: calm_credited dest: calm_CreateCode)

lemma calm_audited:
  assumes "map_of (pd_audit db) k = None" "case m of MTaken _ _ _ \<Rightarrow> False | MReturned _ _ _ \<Rightarrow> False | MGateway _ _ \<Rightarrow> False | _ \<Rightarrow> True"
  shows "calm st oid db (record_move m (db\<lparr>pd_audit := tput k ADetail (pd_audit db)\<rparr>))"
  by (rule calm_credited [OF calm_insert_audit [OF assms(1)] assms(2)])

lemma aside_assign: "aside st oid db (ensurePaymentSubscriptionAssigned i sn v db)"
proof -
  obtain r db1 where r: "run_stmt i (assign_tx i (fst sn)) db = (r, db1)" by fastforce
  have "calm st oid db db1"
    by (rule calm_stmt [OF r])
      (auto simp: assign_tx_def hasPaymentSubscriptionAssignmentAudit_def Let_def intro!: calm_insert_audit calm_audited split: if_splits)
  then show ?thesis using r by (auto simp: ensurePaymentSubscriptionAssigned_def split: sum.splits)
qed

lemma aside_rebate: "aside st oid db (applyAffiliateRebateForOrder env i sn v db)"
proof -
  obtain r db1 where r: "run_stmt i (rebate_tx i (fst sn)) db = (r, db1)" by fastforce
  have "calm st oid db db1"
    by (rule calm_stmt [OF r])
      (auto simp: rebate_tx_def rebate_claimed_def intro!: calm_insert_audit calm_audited split: if_splits option.splits)
  then show ?thesis using r by (auto simp: applyAffiliateRebateForOrder_def split: sum.splits)
qed

lemma aside_completed: "aside st oid db (markCompleted env i sn v db)"
proof -
  obtain k od where sn: "sn = (k, od)" by (cases sn)
  let ?f = "\<lambda>cur. cur\<lparr>po_status := OCompleted, po_completed_at := Some (pi_now i)\<rparr>"
  let ?body = "\<lambda>db. case update_order (pi_now i) k (leased v) ?f db of
            Rollback r \<Rightarrow> Rollback r
          | Commit db' r \<Rightarrow>
              if pe_lottery env \<and> po_type od = OrderTypeBalance \<and> \<not> pi_ok i then Rollback (Inl PLottery) else Commit db' r"
  obtain r db1 where r: "run_stmt i ?body db = (r, db1)" by fastforce
  have h: "harmless st oid k (leased v) ?f" by (rule harmless_guard) (simp add: leased_def locked_def)
  have "calm st oid db db1" by (rule calm_stmt [OF r]) (use calm_update [OF _ h] in \<open>auto split: tx.splits if_splits\<close>)
  then show ?thesis using r by (auto simp: markCompleted_def sn split: sum.splits)
qed

lemma aside_insert: "aside st oid db (insert_order env i req db)"
proof -
  let ?body = "\<lambda>db. if pi_text i = [] \<or> find_out (pi_text i) db \<noteq> None \<or> pi_id i \<le> 0 \<or> get_order (pi_id i) db \<noteq> None then Rollback (Inl PDb)
          else Commit (db\<lparr>pd_orders := tput (pi_id i) (new_order env i req) (pd_orders db)\<rparr>) (Inr ())"
  obtain r db1 where r: "run_stmt i ?body db = (r, db1)" by fastforce
  have "calm st oid db db1"
  proof (rule calm_stmt [OF r])
    fix db' v assume c: "?body db = Commit db' v"
    then have d: "db' = db\<lparr>pd_orders := tput (pi_id i) (new_order env i req) (pd_orders db)\<rparr>" "get_order (pi_id i) db = None"
      by (auto split: if_splits)
    show "calm st oid db db'"
      by (rule calm_tables) (use d held_cong [of db' db oid] in \<open>auto simp: status_kept_def get_order_def map_of_tput\<close>)
  qed
  moreover have "get_order (pi_id i) db = None" if "r = Inr u" for u
    using run_stmt_ok r that by (fastforce split: if_splits)
  ultimately show ?thesis using r by (auto simp: insert_order_def split: sum.splits)
qed

section \<open>The money of every step\<close>

definition worth :: "int \<Rightarrow> pay_db \<Rightarrow> rat" where "worth oid db = taken oid db - returned oid db - held oid db"

definition solvent :: "int \<Rightarrow> pay_db \<Rightarrow> task \<Rightarrow> task \<times> pay_db \<Rightarrow> bool" where
  "solvent oid db t r \<longleftrightarrow> worth oid db - claim oid t \<le> worth oid (snd r) - claim oid (fst r)"

lemma calm_worth: "calm st oid db db' \<Longrightarrow> worth oid db \<le> worth oid db'"
  by (simp add: calm_def worth_def)

lemma solvent_calm: "calm st oid db db' \<Longrightarrow> claim oid t' \<le> claim oid t \<Longrightarrow> solvent oid db t (t', db')"
  using calm_worth by (fastforce simp: solvent_def)

lemma solvent_gain: "worth oid db \<le> worth oid db' + claim oid t \<Longrightarrow> claim oid t' = 0 \<Longrightarrow> solvent oid db t (t', db')"
  by (simp add: solvent_def)

lemma aside_solvent: "aside st oid db r \<Longrightarrow> solvent oid db t r"
  using not_owner_claim by (cases r) (auto intro!: solvent_calm)

lemma taken_record [simp]: "taken oid (record_move m db) = taken oid db + (case m of MTaken k _ a \<Rightarrow> if k = oid then a else 0 | _ \<Rightarrow> 0)"
  by (simp add: taken_def record_move_def)

lemma returned_record [simp]:
  "returned oid (record_move m db) = returned oid db + (case m of MReturned k _ a \<Rightarrow> if k = oid then a else 0 | _ \<Rightarrow> 0)"
  by (simp add: returned_def record_move_def)

lemma held_record [simp]: "held oid (record_move m db) = held oid db"
  by (rule held_cong) (simp add: record_move_def)

lemma calm_False_audit_orders:
  "pd_moves db' = pd_moves db \<Longrightarrow> pd_audit db' = pd_audit db \<Longrightarrow> calm False oid db db'"
  using held_cong [of db' db oid] by (auto intro!: calm_tables)

lemma calm_False_set: "set_order now k change db = Commit db' v \<Longrightarrow> calm False oid db db'"
  by (erule calm_set) (simp add: harmless_def)

lemma calm_False_update: "update_order now k guard change db = Commit db' v \<Longrightarrow> calm False oid db db'"
  by (erule calm_update) (simp add: harmless_def)

lemma round8_mono: "x \<le> y \<Longrightarrow> 0 \<le> x \<Longrightarrow> round8 x \<le> round8 y"
proof -
  assume a: "x \<le> y" "0 \<le> x"
  have "\<lfloor>\<bar>x\<bar> * 100000000 + 1 / 2\<rfloor> \<le> \<lfloor>\<bar>y\<bar> * 100000000 + 1 / 2\<rfloor>" using a by (intro floor_mono) simp
  moreover have "0 \<le> \<lfloor>\<bar>y\<bar> * 100000000 + 1 / 2\<rfloor>" by simp
  ultimately show ?thesis using a by (auto simp: round8_def sgn_if divide_right_mono)
qed

text \<open>A deduction takes something, or nothing.\<close>

lemma Deduct_taken:
  assumes "DeductAvailableBalance uid a db = Some (t, db')" "users_ok db"
  shows "0 \<le> t \<and> (\<exists>us. db' = db\<lparr>pd_users := us\<rparr>)"
proof -
  obtain u where u: "live_payer uid db = Some u" "0 \<le> a"
    and t: "t = pu_balance u - round8 (pu_balance u - min a (max (pu_balance u) 0))" "\<exists>us. db' = db\<lparr>pd_users := us\<rparr>"
    using assms(1) by (auto simp: DeductAvailableBalance_def Let_def split: if_splits option.splits)
  have c: "round8 (pu_balance u) = pu_balance u"
    using u(1) assms(2) by (auto simp: live_payer_def users_ok_def column8_def split: option.splits if_splits)
  show ?thesis
  proof (cases "0 \<le> pu_balance u")
    case True
    then have "round8 (pu_balance u - min a (pu_balance u)) \<le> round8 (pu_balance u)" using u(2) by (intro round8_mono) (auto simp: min_def)
    then show ?thesis using t c True by (simp add: max_def)
  next
    case False
    then show ?thesis using t c u(2) by (simp add: max_def min_def)
  qed
qed

lemma deduct_tx_worth:
  assumes "deduct_tx p db = Commit db' v" "users_ok db"
  obtains t where "0 \<le> t" "v = Inr t" "worth oid db' = worth oid db + (if plan_oid p = oid then t else 0)" "pd_orders db' = pd_orders db"
    "pd_audit db' = pd_audit db" "provider_calls k db' = provider_calls k db"
proof -
  obtain t db1 where d: "DeductAvailableBalance (plan_user p) (rp_BalanceToDeduct p) db = Some (t, db1)" "v = Inr t"
    "db' = record_move (MTaken (plan_oid p) (plan_user p) t) db1"
    using assms(1) by (auto simp: deduct_tx_def split: option.splits)
  obtain us where us: "db1 = db\<lparr>pd_users := us\<rparr>" "0 \<le> t" using Deduct_taken [OF d(1) assms(2)] by blast
  have "calm False oid db db1" "held oid db1 = held oid db" using us(1) by (auto intro: calm_False_audit_orders held_cong)
  then show ?thesis using that [OF us(2) d(2)] d(3) us(1)
    by (simp add: worth_def calm_def) (simp add: record_move_def provider_calls_def)
qed

lemma run_stmt_cases:
  assumes "run_stmt i body db = (r, db1)"
  obtains "db1 = db" "\<And>x. r = Inr x \<Longrightarrow> body db = Rollback (Inr x)"
  | w where "body db = Commit db1 w" "\<And>x. r = Inr x \<Longrightarrow> w = Inr x"
  using run_stmt_snd [OF assms] run_stmt_ok [of i body db _ db1] assms by (metis tx.distinct(1) tx.inject(1))

lemma lock_solvent: "solvent oid db (TLock p) (refund_lock i p db)"
proof -
  let ?f = "\<lambda>od. od\<lparr>po_status := ORefunding\<rparr>"
  obtain r db1 where r: "run_stmt i (update_order (pi_now i) (plan_oid p) (\<lambda>od. refundable (po_status od)) ?f) db = (r, db1)" by fastforce
  have "calm False oid db db1" by (rule calm_stmt [OF r calm_False_update])
  then show ?thesis using r by (auto simp: refund_lock_def owed_def intro!: solvent_calm split: sum.splits)
qed

lemma deduct_solvent:
  assumes u: "users_ok db"
  shows "solvent oid db (TDeduct p) (refund_deduct i p db)"
proof (cases "hasAuditLog i (plan_oid p) ''REFUND_ROLLBACK_FAILED'' db")
  case True
  then show ?thesis by (simp add: refund_deduct_def solvent_def owed_def deducts_balance_def)
next
  case False
  obtain r db1 where r: "run_stmt i (deduct_tx p) db = (r, db1)" by fastforce
  have "worth oid db + (case r of Inl _ \<Rightarrow> 0 | Inr t \<Rightarrow> if plan_oid p = oid then max t 0 else 0) \<le> worth oid db1"
    using r
  proof (cases rule: run_stmt_cases)
    case 1
    have "r \<noteq> Inr t" for t using 1(2) by (fastforce simp: deduct_tx_def split: option.splits prod.splits)
    then show ?thesis using 1(1) by (auto split: sum.splits)
  next
    case (2 w)
    from deduct_tx_worth [OF 2(1) u, of oid] obtain t where "0 \<le> t" "w = Inr t" "worth oid db1 = worth oid db + (if plan_oid p = oid then t else 0)"
      by blast
    then show ?thesis using 2(2) by (auto split: sum.splits)
  qed
  then show ?thesis using r False by (auto simp: refund_deduct_def solvent_def owed_def deducts_balance_def plan_oid_def max_def split: sum.splits if_splits)
qed

lemma days_tx_calm: "days_tx i p n db = Commit db' v \<Longrightarrow> calm st oid db db'"
  by (auto simp: days_tx_def intro!: calm_move split: if_splits)

lemma days_solvent:
  assumes "\<not> deducts_balance p"
  shows "solvent oid db (TDeductDays p) (refund_deduct_days i p db)"
proof -
  obtain r db1 where r: "run_stmt i (days_tx i p (- rp_SubDaysToDeduct p)) db = (r, db1)" by fastforce
  have "calm False oid db db1" by (rule calm_stmt [OF r days_tx_calm])
  then show ?thesis using r assms
    by (auto simp: refund_deduct_days_def owed_def deducts_balance_def intro!: solvent_calm split: sum.splits)
qed

lemma gateway_worth [simp]: "worth oid (record_move (MGateway k a) db) = worth oid db"
  by (simp add: worth_def)

lemma audit_worth: "worth oid db \<le> worth oid (writeAuditLog i k act db)"
  by (rule calm_worth [of True]) simp

lemma gateway_solvent: "solvent oid db (TGateway p) (gwRefund env i p db)"
  using audit_worth by (auto simp: gwRefund_def Let_def solvent_def split: option.splits refund_verdict.splits)

lemma refunded_calm:
  assumes "markRefundOkTx env i p db = Commit db' v"
  shows "calm False oid db db'"
proof -
  obtain db1 w where s: "set_order (pi_now i) (plan_oid p) (mark_refunded (pi_now i) p) db = Commit db1 w"
    and a: "map_of (pd_audit db1) (plan_oid p, ''REFUND_SUCCESS'') = None"
      "db' = db1\<lparr>pd_audit := tput (plan_oid p, ''REFUND_SUCCESS'') ADetail (pd_audit db1)\<rparr>"
    using assms by (auto simp: markRefundOkTx_def and_audit_def insert_audit_def split: tx.splits option.splits if_splits)
  have "calm False oid db1 db'" unfolding a(2) by (rule calm_insert_audit [OF a(1)])
  then show ?thesis using calm_False_set [OF s] calm_trans by blast
qed

lemma mark_ok_solvent: "solvent oid db (TMarkOk p a) (markRefundOk env i p a db)"
proof -
  obtain r db1 where r: "run_stmt i (markRefundOkTx env i p) db = (r, db1)" by fastforce
  have c: "calm False oid db db1" by (rule calm_stmt [OF r refunded_calm])
  obtain q db2 where q: "run_stmt i (set_order (pi_now i) (plan_oid p) (mark_refunded (pi_now i) p)) db = (q, db2)" by fastforce
  have "calm False oid db db2" by (rule calm_stmt [OF q calm_False_set])
  then show ?thesis using r q c by (auto simp: markRefundOk_def intro!: solvent_calm split: sum.splits)
qed

lemma pending_detail_owed [simp]: "detail_owed (pending_detail p a) = owed p"
  by (simp add: detail_owed_def pending_detail_def owed_def deducts_balance_def)

lemma mark_pending_solvent: "solvent oid db (TMarkPending p a) (markRefundPending i p a db)"
proof -
  let ?f = "\<lambda>od. od\<lparr>po_status := ORefundPending, po_refund := column2 (rp_RefundAmount p),
             po_reason := Some (rp_Reason p), po_refund_at := None, po_force := rp_Force p, po_failed := (None, None)\<rparr>"
  let ?body = "\<lambda>db. and_audit (plan_oid p) ''REFUND_PENDING'' (APending (pending_detail p a)) (set_order (pi_now i) (plan_oid p) ?f db)"
  obtain r db1 where r: "run_stmt i ?body db = (r, db1)" by fastforce
  have "worth oid db \<le> worth oid db1 + claim oid (TMarkPending p a)"
    using r
  proof (cases rule: run_stmt_cases)
    case (2 w)
    obtain db2 v where s: "set_order (pi_now i) (plan_oid p) ?f db = Commit db2 v"
      and a: "map_of (pd_audit db2) (plan_oid p, ''REFUND_PENDING'') = None"
        "db1 = db2\<lparr>pd_audit := tput (plan_oid p, ''REFUND_PENDING'') (APending (pending_detail p a)) (pd_audit db2)\<rparr>"
      using 2(1) by (auto simp: and_audit_def insert_audit_def split: tx.splits option.splits if_splits)
    have "taken oid db1 = taken oid db2" "returned oid db1 = returned oid db2" by (simp_all add: a(2) taken_def returned_def)
    moreover have "held oid db1 \<le> held oid db2 + claim oid (TMarkPending p a)"
      using a(1) held_nonneg [of oid db2] by (auto simp: a(2) held_def map_of_tput)
    moreover have "worth oid db \<le> worth oid db2" by (rule calm_worth [OF calm_False_set [OF s]])
    ultimately show ?thesis by (simp add: worth_def)
  qed simp
  then show ?thesis using r by (auto simp: markRefundPending_def intro!: solvent_gain split: sum.splits)
qed

lemma return_tx_commit:
  assumes "return_tx p db = Commit db' v"
  obtains us where "db' = record_move (MReturned (plan_oid p) (plan_user p) (rp_BalanceToDeduct p)) (db\<lparr>pd_users := us\<rparr>)"
proof -
  obtain db1 where u: "UpdateBalance (plan_user p) (rp_BalanceToDeduct p) db = Some db1"
    and d: "db' = record_move (MReturned (plan_oid p) (plan_user p) (rp_BalanceToDeduct p)) db1"
    using assms by (auto simp: return_tx_def split: option.splits)
  show ?thesis using UpdateBalance_users [OF u] d that by metis
qed

lemma users_worth [simp]: "worth oid (db\<lparr>pd_users := us\<rparr>) = worth oid db"
  using held_cong [of "db\<lparr>pd_users := us\<rparr>" db oid] by (simp add: worth_def taken_def returned_def)

lemma return_tx_worth:
  assumes "return_tx p db = Commit db' v"
  shows "worth oid db' = worth oid db - (if plan_oid p = oid then rp_BalanceToDeduct p else 0)"
proof -
  obtain us where d: "db' = record_move (MReturned (plan_oid p) (plan_user p) (rp_BalanceToDeduct p)) (db\<lparr>pd_users := us\<rparr>)"
    using return_tx_commit [OF assms] by blast
  have "worth oid db' = worth oid (db\<lparr>pd_users := us\<rparr>) - (if plan_oid p = oid then rp_BalanceToDeduct p else 0)"
    by (simp add: d worth_def del: users_worth)
  then show ?thesis by simp
qed

lemma rollback_solvent: "solvent oid db (TRollback p) (RollbackRefund i p db)"
proof -
  obtain r db1 where r: "run_stmt i (return_tx p) db = (r, db1)" by fastforce
  obtain q db2 where q: "run_stmt i (days_tx i p (rp_SubDaysToDeduct p)) db = (q, db2)" by fastforce
  have "calm False oid db db2" by (rule calm_stmt [OF q days_tx_calm])
  then have d: "worth oid db \<le> worth oid db2" by (rule calm_worth)
  have m: "worth oid db \<le> worth oid db1 + claim oid (TRollback p)" if "deducts_balance p"
    using r that by (cases rule: run_stmt_cases) (auto simp: owed_def deducts_balance_def return_tx_worth [of p db db1 _ oid])
  have a: "w \<le> worth oid (writeAuditLog i k act d) + c" if "w \<le> worth oid d + c" for w c k act d
    using that audit_worth [of oid d i k act] by linarith
  show ?thesis
  proof (cases "deducts_balance p")
    case True
    then show ?thesis using r a [OF m [OF True]] m [OF True] by (auto simp: RollbackRefund_def intro!: solvent_gain split: sum.splits)
  next
    case False
    have "worth oid db \<le> worth oid (writeAuditLog i k act db2)" for k act using a [of "worth oid db" db2 0] d by simp
    then show ?thesis using q False d
      by (auto simp: RollbackRefund_def solvent_def owed_def split: sum.splits)
  qed
qed

lemma restore_solvent: "solvent oid db (TRestore p r) (restoreStatus i p r db)"
proof -
  let ?s = "if po_status (snd (rp_Order p)) = ORefundRequested then ORefundRequested else OCompleted"
  obtain q db1 where q: "run_stmt i (set_order (pi_now i) (plan_oid p) (\<lambda>od. od\<lparr>po_status := ?s\<rparr>)) db = (q, db1)" by fastforce
  have "calm False oid db db1" by (rule calm_stmt [OF q calm_False_set])
  then show ?thesis using q by (auto simp: restoreStatus_def Let_def intro!: solvent_calm)
qed

lemma refund_failed_solvent: "solvent oid db (TRefundFailed p) (refund_failed i p db)"
proof -
  obtain q db1 where q: "run_stmt i (set_order (pi_now i) (plan_oid p) (mark_refund_failed (pi_now i))) db = (q, db1)" by fastforce
  have "calm False oid db db1" by (rule calm_stmt [OF q calm_False_set])
  then show ?thesis using q by (auto simp: refund_failed_def intro!: solvent_calm)
qed

lemma claim_commit:
  assumes "claim_pending now k change db = Commit db' v"
  obtains od where "get_order k db = Some od" "po_status od = ORefundPending" "v = Inr True"
    "db' = db\<lparr>pd_orders := tput k ((change od)\<lparr>po_updated := now\<rparr>) (pd_orders db)\<rparr>"
proof -
  have "update_order now k (\<lambda>od. po_status od = ORefundPending) change db = Commit db' v"
    using assms by (auto simp: claim_pending_def split: tx.splits)
  then show ?thesis using that by (rule update_order_commit)
qed

lemma claim_worth: "claim_pending now k change db = Commit db' v \<Longrightarrow> calm False oid db db' \<and> users_ok db' = users_ok db \<and> pd_audit db' = pd_audit db"
  by (erule claim_commit) (auto simp: users_ok_def intro!: calm_False_audit_orders)

lemma apply_deduction_worth:
  assumes "applyRefundFinalDeduction i p db = Commit db' v" "users_ok db"
  shows "worth oid db \<le> worth oid db'"
proof -
  consider "db' = db" | w where "deduct_tx p db = Commit db' w" | w where "days_tx i p (- rp_SubDaysToDeduct p) db = Commit db' w"
    using assms(1) by (auto simp: applyRefundFinalDeduction_def split: if_splits tx.splits)
  then show ?thesis
  proof cases
    case (2 w)
    then show ?thesis by (rule deduct_tx_worth [OF _ assms(2), of p db' w oid]) simp
  next
    case (3 w)
    then show ?thesis using days_tx_calm [of i p _ db db' w False oid] calm_worth by blast
  qed simp
qed

definition final_ok_tx :: "pay_env \<Rightarrow> pay_input \<Rightarrow> RefundPlan \<Rightarrow> pay_db \<Rightarrow> (pay_db, pay_err, rat) tx" where
  "final_ok_tx env i p db =
     (case claim_pending (pi_now i) (plan_oid p) (\<lambda>od. od\<lparr>po_status := ORefunding\<rparr>) db of
            Rollback r \<Rightarrow> Rollback (Inl PConflict)
          | Commit db1 _ \<Rightarrow>
              (case applyRefundFinalDeduction i p db1 of
                 Rollback r \<Rightarrow> Rollback (Inl PDeduction)
               | Commit db2 (Inl e) \<Rightarrow> Rollback (Inl e)
               | Commit db2 (Inr x) \<Rightarrow>
                   (case markRefundOkTx env i p db2 of
                      Rollback (Inl e) \<Rightarrow> Rollback (Inl e)
                    | Rollback (Inr _) \<Rightarrow> Rollback (Inl PDb)
                    | Commit db3 _ \<Rightarrow> Commit db3 (Inr x))))"

lemma final_ok_commit:
  assumes "final_ok_tx env i p db = Commit db3 v"
  obtains db1 db2 v1 v2 v3 where "claim_pending (pi_now i) (plan_oid p) (\<lambda>od. od\<lparr>po_status := ORefunding\<rparr>) db = Commit db1 v1"
    "applyRefundFinalDeduction i p db1 = Commit db2 v2" "markRefundOkTx env i p db2 = Commit db3 v3"
  using assms by (auto simp: final_ok_tx_def split: tx.splits sum.splits)

lemma final_ok_worth:
  assumes "final_ok_tx env i p db = Commit db' v" "users_ok db"
  shows "worth oid db \<le> worth oid db'"
  using assms(1)
proof (rule final_ok_commit)
  fix db1 db2 v1 v2 v3
  assume 1: "claim_pending (pi_now i) (plan_oid p) (\<lambda>od. od\<lparr>po_status := ORefunding\<rparr>) db = Commit db1 v1"
    and 2: "applyRefundFinalDeduction i p db1 = Commit db2 v2" and 3: "markRefundOkTx env i p db2 = Commit db' v3"
  have c: "calm False oid db db1" and u: "users_ok db1" using claim_worth [OF 1, of oid] assms(2) by simp_all
  show ?thesis using calm_worth [OF c] apply_deduction_worth [OF 2 u, of oid] calm_worth [OF refunded_calm [OF 3, of oid]] by linarith
qed

lemma final_ok_solvent:
  assumes "users_ok db"
  shows "solvent oid db (TFinalOk p) (finalizePendingRefundSuccess env i p db)"
proof -
  obtain r db1 where r: "run_stmt i (final_ok_tx env i p) db = (r, db1)" by fastforce
  have "worth oid db \<le> worth oid db1" using r by (cases rule: run_stmt_cases) (simp_all add: final_ok_worth [OF _ assms])
  then show ?thesis using r
    by (auto simp: finalizePendingRefundSuccess_def simp flip: final_ok_tx_def intro!: solvent_gain split: sum.splits)
qed

text \<open>The held deduction is returned in the transaction that writes \<^verbatim>\<open>REFUND_FAILED\<close>, which exists at most once.\<close>

lemma held_return_commit:
  assumes "returnHeldRefundDeduction i p db = Commit db' v"
  shows "return_tx p db = Commit db' v \<and> deducts_balance p \<or> calm True oid db db' \<and> \<not> deducts_balance p"
  using assms days_tx_calm by (fastforce simp: returnHeldRefundDeduction_def split: if_splits tx.splits)

lemma finalize_failed_worth:
  assumes c: "finalize_failed_tx i p db = Commit db' v" and h: "held_row (plan_oid p) p db"
  shows "worth oid db \<le> worth oid db'"
proof -
  obtain db1 v1 where 1: "claim_pending (pi_now i) (plan_oid p) (mark_refund_failed (pi_now i)) db = Commit db1 v1"
    using c by (auto simp: finalize_failed_tx_def split: tx.splits)
  obtain db2 v2 where 2: "(if rp_deductionHeld p then returnHeldRefundDeduction i p db1 else Commit db1 (Inr ())) = Commit db2 v2"
    and a: "map_of (pd_audit db2) (plan_oid p, ''REFUND_FAILED'') = None"
      "db' = db2\<lparr>pd_audit := tput (plan_oid p, ''REFUND_FAILED'') ADetail (pd_audit db2)\<rparr>"
    using c 1 by (auto simp: finalize_failed_tx_def and_audit_def insert_audit_def split: tx.splits option.splits if_splits)
  have w1: "worth oid db \<le> worth oid db1" and aud1: "pd_audit db1 = pd_audit db" using claim_worth [OF 1] calm_worth by blast+
  have w2: "worth oid db2 \<le> worth oid db'" unfolding a(2) by (rule calm_worth [OF calm_insert_audit [OF a(1), of True]])
  consider "calm True oid db1 db2" | "rp_deductionHeld p" "deducts_balance p" "return_tx p db1 = Commit db2 v2"
    using 2 held_return_commit [of i p db1 db2 v2 oid] by (cases "rp_deductionHeld p") auto
  then show ?thesis
  proof cases
    case 1
    from calm_worth [OF this] show ?thesis using w1 w2 by linarith
  next
    case 2
    obtain us where d2: "db2 = record_move (MReturned (plan_oid p) (plan_user p) (rp_BalanceToDeduct p)) (db1\<lparr>pd_users := us\<rparr>)"
      using return_tx_commit [OF 2(3)] by blast
    have aud2: "pd_audit db2 = pd_audit db1" by (simp add: d2 record_move_def)
    obtain d where d: "map_of (pd_audit db) (plan_oid p, ''REFUND_PENDING'') = Some (APending d)" "detail_owed d = owed p"
      using h 2 unfolding held_row_def by blast
    have held2: "held (plan_oid p) db2 = owed p" using a(1) d by (simp add: held_def aud2 aud1)
    have "held (plan_oid p) db' = 0" by (simp add: a(2) held_def map_of_tput)
    moreover have "taken (plan_oid p) db' = taken (plan_oid p) db2" "returned (plan_oid p) db' = returned (plan_oid p) db2"
      by (simp_all add: a(2) taken_def returned_def)
    ultimately have "worth (plan_oid p) db' = worth (plan_oid p) db2 + owed p" by (simp add: worth_def held2)
    moreover have "worth oid db2 = worth oid db1 - (if plan_oid p = oid then owed p else 0)"
      using return_tx_worth [OF 2(3), of oid] 2(2) by (simp add: owed_def)
    ultimately show ?thesis using w1 w2 by (cases "plan_oid p = oid") auto
  qed
qed

lemma finalize_failed_solvent:
  assumes "held_row (plan_oid p) p db"
  shows "solvent oid db (TFinalFail p) (finalizeRefundFailed i p db)"
proof -
  obtain r db1 where r: "run_stmt i (finalize_failed_tx i p) db = (r, db1)" by fastforce
  have "worth oid db \<le> worth oid db1" using r by (cases rule: run_stmt_cases) (simp_all add: finalize_failed_worth [OF _ assms])
  then show ?thesis using r by (auto simp: finalizeRefundFailed_def intro!: solvent_gain split: sum.splits)
qed

lemma and_audit_commit:
  assumes "and_audit k act ADetail t = Commit db' v"
  obtains db1 where "t = Commit db1 v" "map_of (pd_audit db1) (k, act) = None" "db' = db1\<lparr>pd_audit := tput (k, act) ADetail (pd_audit db1)\<rparr>"
  using assms that by (auto simp: and_audit_def insert_audit_def split: tx.splits option.splits if_splits)

lemma finalize_mark_calm: "finalize_mark_tx i p db = Commit db' v \<Longrightarrow> calm False oid db db'"
  unfolding finalize_mark_tx_def
  by (elim and_audit_commit) (use claim_worth calm_insert_audit calm_trans in meson)

lemma finalize_mark_solvent: "solvent oid db (TFinalMark p) (finalize_mark i p db)"
proof -
  obtain r db1 where r: "run_stmt i (finalize_mark_tx i p) db = (r, db1)" by fastforce
  have "calm False oid db db1" by (rule calm_stmt [OF r finalize_mark_calm])
  then show ?thesis using r by (auto simp: finalize_mark_def intro!: solvent_calm split: sum.splits)
qed

lemma refund_fin_ok:
  "fin_ok (fst (refund_lock i p db)) db'" "fin_ok (fst (refund_deduct i p db)) db'" "fin_ok (fst (refund_deduct_days i p db)) db'"
  "fin_ok (fst (gwRefund env i p db)) db'" "fin_ok (fst (markRefundOk env i p a db)) db'" "fin_ok (fst (markRefundPending i p a db)) db'"
  "fin_ok (fst (RollbackRefund i p db)) db'" "fin_ok (fst (restoreStatus i p r db)) db'" "fin_ok (fst (refund_failed i p db)) db'"
  "fin_ok (fst (finalizePendingRefundSuccess env i p db)) db'" "fin_ok (fst (finalizeRefundFailed i p db)) db'"
  "fin_ok (fst (finalize_mark i p db)) db'"
  by (auto simp: refund_lock_def refund_deduct_def refund_deduct_days_def gwRefund_def markRefundOk_def markRefundPending_def RollbackRefund_def
      restoreStatus_def refund_failed_def finalizePendingRefundSuccess_def finalizeRefundFailed_def finalize_mark_def Let_def
      split: prod.split sum.split option.split refund_verdict.split)

definition sound :: "int \<Rightarrow> pay_db \<Rightarrow> task \<Rightarrow> task \<times> pay_db \<Rightarrow> bool" where
  "sound oid db t r \<longleftrightarrow> solvent oid db t r \<and> fin_ok (fst r) (snd r)"

lemma aside_sound: "aside False oid db r \<Longrightarrow> sound oid db t r"
  using aside_solvent [of False oid db r t] by (simp add: sound_def aside_def)

lemmas aside_facts = aside_notify aside_confirm aside_already aside_execute aside_balance aside_subscription aside_lease_lost
  aside_lease_read aside_doBalance aside_redeem aside_public aside_completion_lost aside_retry aside_cancel aside_cancelCore
  aside_checkPaid aside_verify aside_create aside_request aside_request_balance aside_prepare aside_prepDeduct aside_finalize
  aside_detail aside_toPaid aside_reject aside_acquire aside_failed aside_cancel_update aside_persist aside_request_update
  aside_redeem_tx aside_public_tx aside_create_code aside_admin aside_assign aside_rebate aside_completed aside_insert

text \<open>The steps of a refund.\<close>

fun refunding :: "task \<Rightarrow> bool" where
  "refunding (TLock p) = True"
| "refunding (TDeduct p) = True"
| "refunding (TDeductDays p) = True"
| "refunding (TGateway p) = True"
| "refunding (TMarkOk p a) = True"
| "refunding (TMarkPending p a) = True"
| "refunding (TRollback p) = True"
| "refunding (TRestore p r) = True"
| "refunding (TRefundFailed p) = True"
| "refunding (TFinalOk p) = True"
| "refunding (TFinalFail p) = True"
| "refunding (TFinalMark p) = True"
| "refunding _ = False"

lemma run_task_aside:
  assumes "\<not> refunding t" "fin_ok t db" "st \<Longrightarrow> \<not> creating oid t"
  shows "aside st oid db (run_task t env i db)"
proof (cases t)
  case (TInvoke k)
  then show ?thesis using aside_invoke assms(3) by simp
next
  case (TCreateFailed k e)
  then show ?thesis using aside_create_failed assms(3) by simp
next
  case (TFinalQuery sn d)
  then show ?thesis using aside_query assms(2) by simp
qed (use assms(1) aside_facts in simp_all)

lemma run_task_sound:
  assumes "users_ok db" "fin_ok t db"
  shows "sound oid db t (run_task t env i db)"
proof (cases "refunding t")
  case False
  then show ?thesis using run_task_aside [OF False assms(2)] aside_sound by blast
next
  case True
  then show ?thesis
    using assms lock_solvent deduct_solvent days_solvent gateway_solvent mark_ok_solvent mark_pending_solvent rollback_solvent restore_solvent
      refund_failed_solvent final_ok_solvent finalize_failed_solvent finalize_mark_solvent
    by (cases t) (simp_all add: sound_def refund_fin_ok)
qed

section \<open>Never more back than was taken\<close>

definition refunds_ok :: "int \<Rightarrow> pay_sys \<Rightarrow> bool" where
  "refunds_ok oid s \<longleftrightarrow> sys_ok s \<and> (\<forall>t\<in>set (ps_tasks s). fin_ok t (ps_db s)) \<and> (\<Sum>t \<leftarrow> ps_tasks s. claim oid t) \<le> worth oid (ps_db s)"

lemma idle_tasks:
  "entry t \<Longrightarrow> fin_ok t db \<and> claim oid t = 0 \<and> \<not> owner oid t \<and> \<not> creating oid t"
  "t \<in> set (ReconcilePendingPaymentOrders now d) \<Longrightarrow> fin_ok t db \<and> claim oid t = 0 \<and> \<not> owner oid t \<and> \<not> creating oid t"
  "t \<in> set (ExpireTimedOutOrders now d) \<Longrightarrow> fin_ok t db \<and> claim oid t = 0 \<and> \<not> owner oid t \<and> \<not> creating oid t"
  by (cases t; simp) (auto simp: ReconcilePendingPaymentOrders_def ExpireTimedOutOrders_def)

lemma refunds_ok_add:
  assumes "refunds_ok oid s" "sys_ok (s\<lparr>ps_tasks := ps_tasks s @ ts\<rparr>)" "\<And>t. t \<in> set ts \<Longrightarrow> fin_ok t (ps_db s) \<and> claim oid t = 0"
  shows "refunds_ok oid (s\<lparr>ps_tasks := ps_tasks s @ ts\<rparr>)"
proof -
  have "(\<Sum>t \<leftarrow> ts. claim oid t) = 0" using assms(3) by (induction ts) auto
  then show ?thesis using assms by (auto simp: refunds_ok_def)
qed

lemma sum_list_put:
  fixes xs :: "rat list"
  shows "n < length xs \<Longrightarrow> sum_list (xs[n := x]) = sum_list xs + x - xs ! n"
  by (induction xs arbitrary: n) (auto split: nat.split)

lemma refunds_ok_step:
  assumes "pay_step env ok s s'" "refunds_ok oid s"
  shows "refunds_ok oid s'"
proof -
  have sys: "sys_ok s'" "extends (ps_db s) (ps_db s')" using pay_step_kept [OF assms(1)] assms(2) by (simp_all add: refunds_ok_def)
  show ?thesis
    using assms(1)
  proof (cases rule: pay_step.cases)
    case (run n i t db)
    let ?u = "ps_tasks s ! n"
    have u: "?u \<in> set (ps_tasks s)" using run(2) by simp
    have "users_ok (ps_db s)" using assms(2) by (simp add: refunds_ok_def sys_ok_def pay_ok_def)
    then have so: "sound oid (ps_db s) ?u (t, db)" using run_task_sound [of "ps_db s" ?u oid env i] u run(4) assms(2) by (simp add: refunds_ok_def)
    have "(\<Sum>v \<leftarrow> (ps_tasks s)[n := t]. claim oid v) = (\<Sum>v \<leftarrow> ps_tasks s. claim oid v) + claim oid t - claim oid ?u"
      using run(2) by (simp add: map_update sum_list_put)
    then have c: "(\<Sum>v \<leftarrow> (ps_tasks s)[n := t]. claim oid v) \<le> worth oid db"
      using so assms(2) by (simp add: sound_def solvent_def refunds_ok_def)
    have x: "extends (ps_db s) db" using sys(2) run(1) by simp
    have "fin_ok v db" if "v \<in> set ((ps_tasks s)[n := t])" for v
    proof -
      have "v = t \<or> v \<in> set (ps_tasks s)" using set_update_subset_insert [of "ps_tasks s" n t] that by blast
      then show ?thesis using so fin_ok_extends [OF _ x] assms(2) unfolding sound_def refunds_ok_def by auto
    qed
    then show ?thesis using c sys(1) run(1) by (simp add: refunds_ok_def)
  next
    case (arrive t)
    show ?thesis unfolding arrive(1) by (rule refunds_ok_add) (use assms(2) sys(1) arrive idle_tasks in auto)
  next
    case (reconcile now)
    show ?thesis unfolding reconcile(1) by (rule refunds_ok_add) (use assms(2) sys(1) reconcile idle_tasks in auto)
  next
    case (expire now)
    show ?thesis unfolding expire(1) by (rule refunds_ok_add) (use assms(2) sys(1) expire idle_tasks in auto)
  next
    case (others us)
    have "\<forall>t\<in>set (ps_tasks s). fin_ok t (ps_db s')" using assms(2) sys(2) fin_ok_extends by (auto simp: refunds_ok_def)
    then show ?thesis using others sys(1) assms(2) by (simp add: refunds_ok_def)
  qed
qed

lemma refunds_ok_run: "(pay_step env ok)\<^sup>*\<^sup>* s s' \<Longrightarrow> refunds_ok oid s \<Longrightarrow> refunds_ok oid s'"
  by (induction rule: rtranclp_induct) (auto intro: refunds_ok_step)

lemma refunds_ok_start: "pay_start s \<Longrightarrow> refunds_ok oid s"
  using start_ok by (simp add: refunds_ok_def pay_start_def worth_def taken_def returned_def held_def)

lemma claims_nonneg: "0 \<le> (\<Sum>t \<leftarrow> ts. claim oid t)"
  by (induction ts) simp_all

text \<open>
  C9: A refund never gives back more than it took. In every run, with any number of refunds of an order, requested, forced,
  answered as pending, asked about again, rolled back or abandoned, and any fault of any statement: what was returned to the
  customer, together with what a pending refund still holds (counted until a failed refund of the order is audited) and
  what running refunds still have to give back, is at most what was deducted.
\<close>

theorem refund_returns_bounded:
  assumes "pay_start s0" "(pay_step env ok)\<^sup>*\<^sup>* s0 s"
  shows "returned oid (ps_db s) + held oid (ps_db s) + (\<Sum>t \<leftarrow> ps_tasks s. claim oid t) \<le> taken oid (ps_db s) \<and>
    returned oid (ps_db s) \<le> taken oid (ps_db s)"
proof -
  have "refunds_ok oid s" by (rule refunds_ok_run [OF assms(2) refunds_ok_start [OF assms(1)]])
  then have "(\<Sum>t \<leftarrow> ps_tasks s. claim oid t) \<le> worth oid (ps_db s)" by (simp add: refunds_ok_def)
  then show ?thesis using claims_nonneg [of oid "ps_tasks s"] held_nonneg [of oid "ps_db s"] unfolding worth_def by linarith
qed

section \<open>One refund at a time\<close>

definition touches :: "int \<Rightarrow> pay_db \<Rightarrow> pay_db \<Rightarrow> bool" where
  "touches k db db' \<longleftrightarrow> (\<forall>j. j \<noteq> k \<longrightarrow> get_order j db' = get_order j db) \<and> (get_order k db \<noteq> None \<longrightarrow> get_order k db' \<noteq> None) \<and>
     (\<forall>j. provider_calls j db' = provider_calls j db)"

lemma touches_refl [simp]: "touches k db db"
  by (simp add: touches_def)

lemma touches_trans: "touches k a b \<Longrightarrow> touches k b c \<Longrightarrow> touches k a c"
  unfolding touches_def by metis

lemma touches_stmt:
  assumes "run_stmt i body db = (r, db1)" "\<And>db' v. body db = Commit db' v \<Longrightarrow> touches k db db'"
  shows "touches k db db1"
  using run_stmt_snd [OF assms(1)] assms(2) touches_refl by blast

lemma touches_same:
  "pd_orders db' = pd_orders db \<Longrightarrow> (\<And>j. provider_calls j db' = provider_calls j db) \<Longrightarrow> touches k db db'"
  by (simp add: touches_def get_order_def)

lemma provider_calls_record [simp]:
  "provider_calls j (record_move m db) = provider_calls j db + (case m of MGateway k a \<Rightarrow> if k = j then 1 else 0 | _ \<Rightarrow> 0)"
  by (auto simp: provider_calls_def record_move_def split: pay_move.split)

lemma orders_unchanged [simp]:
  "pd_orders (writeAuditLog i k act db) = pd_orders db" "pd_orders (record_move m db) = pd_orders db"
  "get_order j (writeAuditLog i k act db) = get_order j db" "get_order j (record_move m db) = get_order j db"
  "provider_calls j (writeAuditLog i k act db) = provider_calls j db"
  by (simp_all add: writeAuditLog_def record_move_def get_order_def provider_calls_def)

lemma touches_audit [simp]: "touches k db (writeAuditLog i j act db1) \<longleftrightarrow> touches k db db1"
  by (simp add: touches_def)

lemma touches_insert [simp]: "touches k db (db1\<lparr>pd_audit := a\<rparr>) \<longleftrightarrow> touches k db db1"
  by (simp add: touches_def get_order_def provider_calls_def)

lemma touches_update: "update_order now k guard change db = Commit db' v \<Longrightarrow> touches k db db'"
  by (erule update_order_commit) (simp add: touches_def get_order_def map_of_tput provider_calls_def)

lemma touches_set: "set_order now k change db = Commit db' v \<Longrightarrow> touches k db db'"
  by (auto simp: set_order_def split: tx.splits dest: touches_update)

lemma touches_claim: "claim_pending now k change db = Commit db' v \<Longrightarrow> touches k db db'"
  by (auto simp: claim_pending_def split: tx.splits dest: touches_update)

lemma touches_and_audit: "and_audit k act d t = Commit db' v \<Longrightarrow> (\<And>db1. t = Commit db1 v \<Longrightarrow> touches j db db1) \<Longrightarrow> touches j db db'"
  by (auto simp: and_audit_def insert_audit_def split: tx.splits option.splits if_splits)

text \<open>What takes or returns money leaves the orders alone.\<close>

definition money_only :: "pay_db \<Rightarrow> pay_db \<Rightarrow> bool" where
  "money_only db db' \<longleftrightarrow> pd_orders db' = pd_orders db \<and> (\<forall>j. provider_calls j db' = provider_calls j db)"

lemma money_only_touches: "money_only db db' \<Longrightarrow> touches k db db'"
  by (simp add: money_only_def touches_same)

lemma provider_calls_users [simp]: "provider_calls j (db\<lparr>pd_users := us\<rparr>) = provider_calls j db"
  by (simp add: provider_calls_def)

lemma money_only_txs:
  "deduct_tx p db = Commit db' v \<Longrightarrow> money_only db db'" "return_tx p db = Commit db' v' \<Longrightarrow> money_only db db'"
  "days_tx i p n db = Commit db' v'' \<Longrightarrow> money_only db db'"
  by (auto simp: deduct_tx_def return_tx_def days_tx_def UpdateBalance_def DeductAvailableBalance_def Let_def money_only_def
      split: option.splits if_splits)

lemma money_only_stmt:
  assumes "run_stmt i body db = (r, db1)" "\<And>db' v. body db = Commit db' v \<Longrightarrow> money_only db db'"
  shows "money_only db db1"
  using run_stmt_snd [OF assms(1)] assms(2) by (auto simp: money_only_def)

lemma touches_markOk: "markRefundOkTx env i p db = Commit db' v \<Longrightarrow> touches (plan_oid p) db db'"
  unfolding markRefundOkTx_def by (erule touches_and_audit) (auto split: tx.splits if_splits dest: touches_set)

lemma touches_final_ok:
  assumes "final_ok_tx env i p db = Commit db' v"
  shows "touches (plan_oid p) db db'"
  using assms
proof (rule final_ok_commit)
  fix db1 db2 v1 v2 v3
  assume 1: "claim_pending (pi_now i) (plan_oid p) (\<lambda>od. od\<lparr>po_status := ORefunding\<rparr>) db = Commit db1 v1"
    and 2: "applyRefundFinalDeduction i p db1 = Commit db2 v2" and 3: "markRefundOkTx env i p db2 = Commit db' v3"
  have "db2 = db1 \<or> money_only db1 db2"
    using 2 money_only_txs by (auto simp: applyRefundFinalDeduction_def split: if_splits tx.splits)
  then have "touches (plan_oid p) db1 db2" using money_only_touches by auto
  then show ?thesis using touches_claim [OF 1] touches_markOk [OF 3] touches_trans by meson
qed

lemma touches_final_failed:
  assumes "finalize_failed_tx i p db = Commit db' v"
  shows "touches (plan_oid p) db db'"
proof -
  obtain db1 v1 where 1: "claim_pending (pi_now i) (plan_oid p) (mark_refund_failed (pi_now i)) db = Commit db1 v1"
    using assms by (auto simp: finalize_failed_tx_def split: tx.splits)
  have "touches (plan_oid p) db1 db'"
    using assms 1 money_only_txs money_only_touches
    by (auto simp: finalize_failed_tx_def returnHeldRefundDeduction_def elim!: touches_and_audit split: if_splits tx.splits)
  then show ?thesis using touches_claim [OF 1] touches_trans by blast
qed

lemma touches_final_mark: "finalize_mark_tx i p db = Commit db' v \<Longrightarrow> touches (plan_oid p) db db'"
  unfolding finalize_mark_tx_def by (erule touches_and_audit)+ (rule touches_claim)

text \<open>A step of a refund that does not claim its order: what it leaves of the order, and who goes on.\<close>

lemma lock_touches: "touches (plan_oid p) db (snd (refund_lock i p db))"
proof -
  obtain r db1 where r: "run_stmt i (update_order (pi_now i) (plan_oid p) (\<lambda>od. refundable (po_status od)) (\<lambda>od. od\<lparr>po_status := ORefunding\<rparr>)) db = (r, db1)" by fastforce
  have "touches (plan_oid p) db db1" by (rule touches_stmt [OF r touches_update])
  then show ?thesis using r by (auto simp: refund_lock_def split: sum.splits)
qed

lemma mark_ok_touches: "touches (plan_oid p) db (snd (markRefundOk env i p a db))"
proof -
  obtain r db1 where r: "run_stmt i (markRefundOkTx env i p) db = (r, db1)" by fastforce
  have c: "touches (plan_oid p) db db1" by (rule touches_stmt [OF r touches_markOk])
  obtain q db2 where q: "run_stmt i (set_order (pi_now i) (plan_oid p) (mark_refunded (pi_now i) p)) db = (q, db2)" by fastforce
  have "touches (plan_oid p) db db2" by (rule touches_stmt [OF q touches_set])
  then show ?thesis using r q c by (auto simp: markRefundOk_def split: sum.splits)
qed

lemma mark_pending_touches: "touches (plan_oid p) db (snd (markRefundPending i p a db))"
proof -
  let ?f = "\<lambda>od. od\<lparr>po_status := ORefundPending, po_refund := column2 (rp_RefundAmount p),
             po_reason := Some (rp_Reason p), po_refund_at := None, po_force := rp_Force p, po_failed := (None, None)\<rparr>"
  let ?body = "\<lambda>db. and_audit (plan_oid p) ''REFUND_PENDING'' (APending (pending_detail p a)) (set_order (pi_now i) (plan_oid p) ?f db)"
  obtain r db1 where r: "run_stmt i ?body db = (r, db1)" by fastforce
  have "touches (plan_oid p) db db1" by (rule touches_stmt [OF r]) (erule touches_and_audit, rule touches_set)
  then show ?thesis using r by (auto simp: markRefundPending_def split: sum.splits)
qed

lemma close_touches:
  "touches (plan_oid p) db (snd (restoreStatus i p r db))" "touches (plan_oid p) db (snd (refund_failed i p db))"
proof -
  let ?s = "if po_status (snd (rp_Order p)) = ORefundRequested then ORefundRequested else OCompleted"
  obtain q db1 where q: "run_stmt i (set_order (pi_now i) (plan_oid p) (\<lambda>od. od\<lparr>po_status := ?s\<rparr>)) db = (q, db1)" by fastforce
  have "touches (plan_oid p) db db1" by (rule touches_stmt [OF q touches_set])
  then show "touches (plan_oid p) db (snd (restoreStatus i p r db))" using q by (auto simp: restoreStatus_def Let_def)
  obtain w db2 where w: "run_stmt i (set_order (pi_now i) (plan_oid p) (mark_refund_failed (pi_now i))) db = (w, db2)" by fastforce
  have "touches (plan_oid p) db db2" by (rule touches_stmt [OF w touches_set])
  then show "touches (plan_oid p) db (snd (refund_failed i p db))" using w by (auto simp: refund_failed_def)
qed

lemma final_touches:
  "touches (plan_oid p) db (snd (finalizePendingRefundSuccess env i p db))" "touches (plan_oid p) db (snd (finalizeRefundFailed i p db))"
  "touches (plan_oid p) db (snd (finalize_mark i p db))"
proof -
  obtain r db1 where r: "run_stmt i (final_ok_tx env i p) db = (r, db1)" by fastforce
  have "touches (plan_oid p) db db1" by (rule touches_stmt [OF r touches_final_ok])
  then show "touches (plan_oid p) db (snd (finalizePendingRefundSuccess env i p db))"
    using r by (auto simp: finalizePendingRefundSuccess_def simp flip: final_ok_tx_def split: sum.splits)
  obtain q db2 where q: "run_stmt i (finalize_failed_tx i p) db = (q, db2)" by fastforce
  have "touches (plan_oid p) db db2" by (rule touches_stmt [OF q touches_final_failed])
  then show "touches (plan_oid p) db (snd (finalizeRefundFailed i p db))" using q by (auto simp: finalizeRefundFailed_def split: sum.splits)
  obtain w db3 where w: "run_stmt i (finalize_mark_tx i p) db = (w, db3)" by fastforce
  have "touches (plan_oid p) db db3" by (rule touches_stmt [OF w touches_final_mark])
  then show "touches (plan_oid p) db (snd (finalize_mark i p db))" using w by (auto simp: finalize_mark_def split: sum.splits)
qed

text \<open>The steps that take and return money, and the call of the provider, leave every order alone.\<close>

lemma money_steps:
  "pd_orders (snd (refund_deduct i p db)) = pd_orders db \<and> provider_calls j (snd (refund_deduct i p db)) = provider_calls j db"
  "pd_orders (snd (refund_deduct_days i p db)) = pd_orders db \<and> provider_calls j (snd (refund_deduct_days i p db)) = provider_calls j db"
  "pd_orders (snd (RollbackRefund i p db)) = pd_orders db \<and> provider_calls j (snd (RollbackRefund i p db)) = provider_calls j db"
proof -
  obtain a da where a: "run_stmt i (deduct_tx p) db = (a, da)" by fastforce
  have "money_only db da" by (rule money_only_stmt [OF a money_only_txs(1)])
  then show "pd_orders (snd (refund_deduct i p db)) = pd_orders db \<and> provider_calls j (snd (refund_deduct i p db)) = provider_calls j db"
    using a by (auto simp: refund_deduct_def money_only_def split: sum.splits)
  obtain b d2 where b: "run_stmt i (days_tx i p (- rp_SubDaysToDeduct p)) db = (b, d2)" by fastforce
  have "money_only db d2" by (rule money_only_stmt [OF b money_only_txs(3)])
  then show "pd_orders (snd (refund_deduct_days i p db)) = pd_orders db \<and> provider_calls j (snd (refund_deduct_days i p db)) = provider_calls j db"
    using b by (auto simp: refund_deduct_days_def money_only_def split: sum.splits)
  obtain c dc where c: "run_stmt i (return_tx p) db = (c, dc)" by fastforce
  obtain e de where e: "run_stmt i (days_tx i p (rp_SubDaysToDeduct p)) db = (e, de)" by fastforce
  have "money_only db dc" by (rule money_only_stmt [OF c money_only_txs(2)])
  moreover have "money_only db de" by (rule money_only_stmt [OF e money_only_txs(3)])
  ultimately show "pd_orders (snd (RollbackRefund i p db)) = pd_orders db \<and> provider_calls j (snd (RollbackRefund i p db)) = provider_calls j db"
    using c e by (auto simp: RollbackRefund_def money_only_def split: sum.splits)
qed

lemma gateway_step:
  "pd_orders (snd (gwRefund env i p db)) = pd_orders db"
  "j \<noteq> plan_oid p \<Longrightarrow> provider_calls j (snd (gwRefund env i p db)) = provider_calls j db"
  by (auto simp: gwRefund_def Let_def split: option.split refund_verdict.split)

section \<open>Who may change a locked order\<close>

fun task_oid :: "task \<Rightarrow> int" where
  "task_oid (TLock p) = plan_oid p"
| "task_oid (TDeduct p) = plan_oid p"
| "task_oid (TDeductDays p) = plan_oid p"
| "task_oid (TGateway p) = plan_oid p"
| "task_oid (TMarkOk p a) = plan_oid p"
| "task_oid (TMarkPending p a) = plan_oid p"
| "task_oid (TRollback p) = plan_oid p"
| "task_oid (TRestore p r) = plan_oid p"
| "task_oid (TRefundFailed p) = plan_oid p"
| "task_oid (TFinalOk p) = plan_oid p"
| "task_oid (TFinalFail p) = plan_oid p"
| "task_oid (TFinalMark p) = plan_oid p"
| "task_oid _ = 0"

lemma owner_refunding: "owner oid t \<Longrightarrow> refunding t \<and> task_oid t = oid"
  by (cases "(oid, t)" rule: owner.cases) simp_all

lemma plan_oid_updates [simp]:
  "plan_oid (p\<lparr>rp_BalanceToDeduct := x\<rparr>) = plan_oid p" "plan_oid (p\<lparr>rp_SubDaysToDeduct := n\<rparr>) = plan_oid p"
  by (simp_all add: plan_oid_def)

lemma refund_heirs:
  assumes "refunding t"
  shows "(owner oid (fst (run_task t env i db)) \<longrightarrow> task_oid t = oid) \<and> \<not> creating oid (fst (run_task t env i db))"
  using assms
  by (cases t) (auto simp: refund_lock_def refund_deduct_def refund_deduct_days_def gwRefund_def markRefundOk_def markRefundPending_def
      RollbackRefund_def restoreStatus_def refund_failed_def finalizePendingRefundSuccess_def finalizeRefundFailed_def finalize_mark_def Let_def
      split: prod.splits sum.splits option.splits refund_verdict.splits if_splits)

lemma touches_elsewhere: "touches k db db' \<Longrightarrow> j \<noteq> k \<Longrightarrow> get_order j db' = get_order j db \<and> provider_calls j db' = provider_calls j db"
  by (simp add: touches_def)

lemma refund_elsewhere:
  assumes "refunding t" "task_oid t \<noteq> oid"
  shows "get_order oid (snd (run_task t env i db)) = get_order oid db \<and> provider_calls oid (snd (run_task t env i db)) = provider_calls oid db"
proof -
  note lift = touches_elsewhere [OF lock_touches] touches_elsewhere [OF mark_ok_touches] touches_elsewhere [OF mark_pending_touches]
    touches_elsewhere [OF close_touches(1)] touches_elsewhere [OF close_touches(2)] touches_elsewhere [OF final_touches(1)]
    touches_elsewhere [OF final_touches(2)] touches_elsewhere [OF final_touches(3)]
  show ?thesis using assms lift money_steps gateway_step by (cases t) (simp_all add: get_order_def)
qed

text \<open>What a step leaves of an order: \<open>watched\<close> for a task that does not hold it, and \<open>handed\<close> for its owner.\<close>

definition watched :: "int \<Rightarrow> pay_db \<Rightarrow> task \<times> pay_db \<Rightarrow> bool" where
  "watched oid db r \<longleftrightarrow> provider_calls oid (snd r) = provider_calls oid db \<and> \<not> creating oid (fst r) \<and>
     (\<forall>od. get_order oid db = Some od \<longrightarrow> (\<exists>od'. get_order oid (snd r) = Some od' \<and>
        (locked (po_status od) \<longrightarrow> po_status od' = po_status od \<and> \<not> owner oid (fst r)) \<and>
        (owner oid (fst r) \<longrightarrow> locked (po_status od'))))"

definition handed :: "int \<Rightarrow> pay_db \<Rightarrow> task \<times> pay_db \<Rightarrow> bool" where
  "handed oid db r \<longleftrightarrow> \<not> creating oid (fst r) \<and>
     (\<forall>od. get_order oid db = Some od \<longrightarrow> locked (po_status od) \<longrightarrow>
        (\<exists>od'. get_order oid (snd r) = Some od' \<and> (owner oid (fst r) \<longrightarrow> locked (po_status od'))))"

lemma aside_watched: "aside True oid db r \<Longrightarrow> get_order oid db \<noteq> None \<Longrightarrow> watched oid db r"
  unfolding aside_def watched_def calm_def status_kept_def by auto

lemma locked_cases: "locked ORefunding" "\<not> locked ORefundPending" "refundable s \<Longrightarrow> \<not> locked s"
  by (auto simp: locked_def refundable_def)

lemma lock_watched: "watched (plan_oid p) db (refund_lock i p db)"
proof -
  let ?f = "\<lambda>od. od\<lparr>po_status := ORefunding\<rparr>"
  let ?body = "update_order (pi_now i) (plan_oid p) (\<lambda>od. refundable (po_status od)) ?f"
  obtain r db1 where r: "run_stmt i ?body db = (r, db1)" by fastforce
  have t: "provider_calls (plan_oid p) db1 = provider_calls (plan_oid p) db"
    using touches_stmt [OF r touches_update] by (simp add: touches_def)
  have g: "\<exists>od'. get_order (plan_oid p) db1 = Some od' \<and> (locked (po_status od) \<longrightarrow> po_status od' = po_status od \<and> r \<noteq> Inr True) \<and>
      (r = Inr True \<longrightarrow> locked (po_status od'))" if od: "get_order (plan_oid p) db = Some od" for od
    using r
  proof (cases rule: run_stmt_cases)
    case 1
    have "r \<noteq> Inr True" using 1(2) [of True] od by (auto simp: update_order_def split: if_splits)
    then show ?thesis using od unfolding 1(1) by blast
  next
    case (2 w)
    have "refundable (po_status od)" "get_order (plan_oid p) db1 = Some ((?f od)\<lparr>po_updated := pi_now i\<rparr>)"
      by (rule update_order_commit [OF 2(1)]; use od in \<open>simp add: get_order_def map_of_tput\<close>)+
    then show ?thesis using locked_cases by simp
  qed
  have "fst (refund_lock i p db) = (case r of Inl e \<Rightarrow> TDone (Inl e) | Inr hit \<Rightarrow>
      if \<not> hit then TDone (Inl PConflict) else if deducts_balance p then TDeduct p else if deducts_days p then TDeductDays p else TGateway p)"
    "snd (refund_lock i p db) = db1" using r by (auto simp: refund_lock_def split: sum.split)
  then show ?thesis using t g unfolding watched_def by (auto split: sum.splits if_splits)
qed

text \<open>A pending refund is closed only from \<^verbatim>\<open>REFUND_PENDING\<close>.\<close>

lemma claim_not_locked:
  assumes "claim_pending now k change db = Commit db' v" "get_order k db = Some od"
  shows "\<not> locked (po_status od)"
  by (rule claim_commit [OF assms(1)]) (use assms(2) locked_cases(2) in simp)

lemma final_stmt_watched:
  assumes r: "run_stmt i body db = (r, db1)" and t: "touches k db db1"
    and c: "\<And>db' v. body db = Commit db' v \<Longrightarrow> \<exists>db0 v0 change now. claim_pending now k change db = Commit db0 v0"
    and n: "\<not> creating k u" "\<not> owner k u"
  shows "watched k db (u, db1)"
proof -
  have "db1 = db" if "get_order k db = Some od" "locked (po_status od)" for od
    using run_stmt_snd [OF r] c claim_not_locked [OF _ that(1)] that(2) by blast
  then show ?thesis using t n unfolding watched_def touches_def by auto
qed

lemma final_claims:
  "final_ok_tx env i p db = Commit db' v \<Longrightarrow> \<exists>db0 v0 change now. claim_pending now (plan_oid p) change db = Commit db0 v0"
  "finalize_failed_tx i p db = Commit db' v' \<Longrightarrow> \<exists>db0 v0 change now. claim_pending now (plan_oid p) change db = Commit db0 v0"
  "finalize_mark_tx i p db = Commit db' v'' \<Longrightarrow> \<exists>db0 v0 change now. claim_pending now (plan_oid p) change db = Commit db0 v0"
  by (erule final_ok_commit, blast) (auto simp: finalize_failed_tx_def finalize_mark_tx_def elim!: and_audit_commit split: tx.splits)

lemma final_watched:
  "watched (plan_oid p) db (finalizePendingRefundSuccess env i p db)" "watched (plan_oid p) db (finalizeRefundFailed i p db)"
  "watched (plan_oid p) db (finalize_mark i p db)"
proof -
  obtain r db1 where r: "run_stmt i (final_ok_tx env i p) db = (r, db1)" by fastforce
  have w: "\<not> creating (plan_oid p) u \<Longrightarrow> \<not> owner (plan_oid p) u \<Longrightarrow> watched (plan_oid p) db (u, db1)" for u
    by (rule final_stmt_watched [OF r touches_stmt [OF r touches_final_ok] final_claims(1)])
  then show "watched (plan_oid p) db (finalizePendingRefundSuccess env i p db)"
    using r by (auto simp: finalizePendingRefundSuccess_def simp flip: final_ok_tx_def split: sum.splits)
  obtain q db2 where q: "run_stmt i (finalize_failed_tx i p) db = (q, db2)" by fastforce
  have "\<not> creating (plan_oid p) u \<Longrightarrow> \<not> owner (plan_oid p) u \<Longrightarrow> watched (plan_oid p) db (u, db2)" for u
    by (rule final_stmt_watched [OF q touches_stmt [OF q touches_final_failed] final_claims(2)])
  then show "watched (plan_oid p) db (finalizeRefundFailed i p db)" using q by (auto simp: finalizeRefundFailed_def split: sum.splits)
  obtain m db3 where m: "run_stmt i (finalize_mark_tx i p) db = (m, db3)" by fastforce
  have "\<not> creating (plan_oid p) u \<Longrightarrow> \<not> owner (plan_oid p) u \<Longrightarrow> watched (plan_oid p) db (u, db3)" for u
    by (rule final_stmt_watched [OF m touches_stmt [OF m touches_final_mark] final_claims(3)])
  then show "watched (plan_oid p) db (finalize_mark i p db)" using m by (auto simp: finalize_mark_def split: sum.splits)
qed

lemma run_task_watched:
  assumes "fin_ok t db" "\<not> owner oid t" "\<not> creating oid t" "get_order oid db \<noteq> None"
  shows "watched oid db (run_task t env i db)"
proof (cases "refunding t")
  case False
  then show ?thesis using run_task_aside [OF False assms(1), of True oid] assms(3,4) aside_watched by blast
next
  case True
  show ?thesis
  proof (cases "task_oid t = oid")
    case True
    then show ?thesis using \<open>refunding t\<close> assms(2) lock_watched final_watched by (cases t) auto
  next
    case False
    then show ?thesis using refund_elsewhere [OF True False, of env i db] refund_heirs [OF True, of oid env i db] assms(4)
      unfolding watched_def by auto
  qed
qed

text \<open>The owner's steps.\<close>

lemma handed_same:
  "pd_orders (snd r) = pd_orders db \<Longrightarrow> \<not> creating oid (fst r) \<Longrightarrow> handed oid db r"
  by (auto simp: handed_def get_order_def)

lemma handed_done:
  "touches oid db (snd r) \<Longrightarrow> \<not> creating oid (fst r) \<Longrightarrow> \<not> owner oid (fst r) \<Longrightarrow> handed oid db r"
  unfolding handed_def touches_def by (metis not_Some_eq)

lemma markOk_locked:
  assumes "markRefundOkTx env i p db = Commit db' v"
  shows "\<exists>od'. get_order (plan_oid p) db' = Some od' \<and> locked (po_status od')"
proof -
  obtain db1 w where s: "set_order (pi_now i) (plan_oid p) (mark_refunded (pi_now i) p) db = Commit db1 w" "pd_orders db' = pd_orders db1"
    using assms by (auto simp: markRefundOkTx_def and_audit_def insert_audit_def split: tx.splits option.splits if_splits)
  then have "update_order (pi_now i) (plan_oid p) (\<lambda>_. True) (mark_refunded (pi_now i) p) db = Commit db1 w"
    by (auto simp: set_order_def split: tx.splits)
  then show ?thesis using s(2)
    by (elim update_order_commit) (simp add: get_order_def map_of_tput mark_refunded_def locked_def)
qed

lemma mark_ok_handed: "handed (plan_oid p) db (markRefundOk env i p a db)"
proof (cases "pe_lottery env")
  case False
  then have "\<not> owner (plan_oid p) (fst (markRefundOk env i p a db))" by (auto simp: markRefundOk_def split: prod.split sum.split)
  then show ?thesis using handed_done [OF mark_ok_touches] refund_heirs [of "TMarkOk p a" "plan_oid p" env i db] by simp
next
  case True
  obtain r db1 where r: "run_stmt i (markRefundOkTx env i p) db = (r, db1)" by fastforce
  have "\<exists>od'. get_order (plan_oid p) db1 = Some od' \<and> locked (po_status od')" if "get_order (plan_oid p) db = Some od" "locked (po_status od)" for od
    using run_stmt_snd [OF r] markOk_locked that by blast
  then show ?thesis using r True by (auto simp: handed_def markRefundOk_def split: sum.splits)
qed

lemma run_task_handed:
  assumes "owner oid t"
  shows "handed oid db (run_task t env i db)"
proof -
  have t: "refunding t" "task_oid t = oid" using owner_refunding [OF assms] by simp_all
  have c: "\<not> creating oid (fst (run_task t env i db))" using refund_heirs [OF t(1)] by blast
  have ends: "\<not> owner k (fst (markRefundPending i p a db))" "\<not> owner k (fst (restoreStatus i p r db))" "\<not> owner k (fst (refund_failed i p db))" for k p a r
    by (auto simp: markRefundPending_def restoreStatus_def refund_failed_def Let_def split: prod.split sum.split)
  show ?thesis
    using assms t c
  proof (cases t)
    case (TMarkOk p a)
    then show ?thesis using mark_ok_handed t by auto
  next
    case (TMarkPending p a)
    then show ?thesis using handed_done [OF mark_pending_touches] c ends t by auto
  next
    case (TRestore p r)
    then show ?thesis using handed_done [OF close_touches(1)] c ends t by auto
  next
    case (TRefundFailed p)
    then show ?thesis using handed_done [OF close_touches(2)] c ends t by auto
  qed (auto intro!: handed_same simp: money_steps gateway_step)
qed

section \<open>Runs\<close>

text \<open>The order exists, no task is creating it, and at most one task is refunding it, which then holds its status.\<close>

definition refunders :: "int \<Rightarrow> pay_sys \<Rightarrow> nat" where
  "refunders oid s = length (filter (owner oid) (ps_tasks s))"

definition one_refund :: "int \<Rightarrow> pay_sys \<Rightarrow> bool" where
  "one_refund oid s \<longleftrightarrow> list_all (\<lambda>t. fin_ok t (ps_db s) \<and> \<not> creating oid t) (ps_tasks s) \<and> refunders oid s \<le> 1 \<and>
     (\<exists>od. get_order oid (ps_db s) = Some od \<and> (refunders oid s = 1 \<longrightarrow> locked (po_status od)))"

lemma filter_put:
  "n < length xs \<Longrightarrow> length (filter P (xs[n := x])) + (if P (xs ! n) then 1 else 0) = length (filter P xs) + (if P x then 1 else 0)"
proof (induction xs arbitrary: n)
  case (Cons a xs)
  show ?case
  proof (cases n)
    case (Suc m)
    then show ?thesis using Cons.IH [of m] Cons.prems by simp
  qed simp
qed simp

lemma list_all_put: "list_all P xs \<Longrightarrow> P x \<Longrightarrow> list_all P (xs[n := x])"
  using set_update_subset_insert [of xs n x] by (auto simp: list_all_iff)

lemma one_refund_idle:
  assumes "one_refund oid s" "\<And>t. t \<in> set ts \<Longrightarrow> fin_ok t (ps_db s) \<and> \<not> owner oid t \<and> \<not> creating oid t"
  shows "one_refund oid (s\<lparr>ps_tasks := ps_tasks s @ ts\<rparr>) \<and> refunders oid (s\<lparr>ps_tasks := ps_tasks s @ ts\<rparr>) = refunders oid s"
proof -
  have "filter (owner oid) ts = []" using assms(2) by (simp add: filter_empty_conv)
  then have "refunders oid (s\<lparr>ps_tasks := ps_tasks s @ ts\<rparr>) = refunders oid s" by (simp add: refunders_def)
  then show ?thesis using assms by (auto simp: one_refund_def list_all_iff)
qed

text \<open>What a step keeps, and that it leaves an order nobody refunds and whose refund is over as it is.\<close>

definition over :: "int \<Rightarrow> order_status \<Rightarrow> nat \<Rightarrow> pay_sys \<Rightarrow> bool" where
  "over oid st n s \<longleftrightarrow> one_refund oid s \<and> refunders oid s = 0 \<and> map_option po_status (get_order oid (ps_db s)) = Some st \<and>
     provider_calls oid (ps_db s) = n"

lemma one_refund_run:
  assumes o: "one_refund oid s" and x: "extends (ps_db s) db" and fin: "fin_ok t db" and n: "n < length (ps_tasks s)"
    and r: "run_task (ps_tasks s ! n) env i (ps_db s) = (t, db)"
  shows "one_refund oid (s\<lparr>ps_db := db, ps_tasks := (ps_tasks s)[n := t]\<rparr>) \<and>
    (over oid st k s \<longrightarrow> locked st \<longrightarrow> over oid st k (s\<lparr>ps_db := db, ps_tasks := (ps_tasks s)[n := t]\<rparr>))"
proof -
  let ?s' = "s\<lparr>ps_db := db, ps_tasks := (ps_tasks s)[n := t]\<rparr>" and ?u = "ps_tasks s ! n"
  have u: "fin_ok ?u (ps_db s)" "\<not> creating oid ?u" using o n by (auto simp: one_refund_def list_all_length)
  obtain od where od: "get_order oid (ps_db s) = Some od" "refunders oid s = 1 \<longrightarrow> locked (po_status od)" and le: "refunders oid s \<le> 1"
    using o by (auto simp: one_refund_def)
  have cnt: "refunders oid ?s' + (if owner oid ?u then 1 else 0) = refunders oid s + (if owner oid t then 1 else 0)"
    using filter_put [OF n, of "owner oid" t] by (simp add: refunders_def)
  have rest: "list_all (\<lambda>v. fin_ok v db \<and> \<not> creating oid v) (ps_tasks s)"
    using o fin_ok_extends [OF _ x] by (auto simp: one_refund_def list_all_iff)
  show ?thesis
  proof (cases "owner oid ?u")
    case True
    have h: "handed oid (ps_db s) (t, db)" using run_task_handed [OF True, of "ps_db s" env i] r by simp
    have "?u \<in> set (filter (owner oid) (ps_tasks s))" using True n by simp
    then have "0 < refunders oid s" unfolding refunders_def by (rule length_pos_if_in_set)
    then have one: "refunders oid s = 1" using le by simp
    then obtain od' where "get_order oid db = Some od'" "owner oid t \<longrightarrow> locked (po_status od')" "\<not> creating oid t"
      using h od unfolding handed_def by auto
    moreover have "refunders oid ?s' = (if owner oid t then 1 else 0)" using cnt True one by simp
    ultimately have "one_refund oid ?s'" using rest fin by (auto simp: one_refund_def intro!: list_all_put)
    then show ?thesis using one by (simp add: over_def)
  next
    case False
    have w: "watched oid (ps_db s) (t, db)" using run_task_watched [OF u(1) False u(2), of env i] od(1) r by simp
    obtain od' where od': "get_order oid db = Some od'" "locked (po_status od) \<longrightarrow> po_status od' = po_status od \<and> \<not> owner oid t"
      "owner oid t \<longrightarrow> locked (po_status od')" "\<not> creating oid t" "provider_calls oid db = provider_calls oid (ps_db s)"
      using w od(1) unfolding watched_def by auto
    have c: "refunders oid ?s' = refunders oid s + (if owner oid t then 1 else 0)" using cnt False by simp
    have "refunders oid s = 0" if "owner oid t" using od(2) od'(2) le that by linarith
    then have "refunders oid ?s' \<le> 1" "refunders oid ?s' = 1 \<longrightarrow> locked (po_status od')" using c le od(2) od' by auto
    then have one: "one_refund oid ?s'" using rest fin od'(1,4) by (auto simp: one_refund_def intro!: list_all_put)
    have "over oid st k ?s'" if "over oid st k s" "locked st" using that one c od' od(1) by (auto simp: over_def)
    then show ?thesis using one by blast
  qed
qed

definition refund_kept :: "int \<Rightarrow> order_status \<Rightarrow> nat \<Rightarrow> pay_sys \<Rightarrow> pay_sys \<Rightarrow> bool" where
  "refund_kept oid st k s s' \<longleftrightarrow> sys_ok s' \<and> one_refund oid s' \<and> (over oid st k s \<longrightarrow> locked st \<longrightarrow> over oid st k s')"

lemma refund_kept_add:
  assumes "sys_ok (s\<lparr>ps_tasks := ps_tasks s @ ts\<rparr>)" "one_refund oid s"
    and "\<And>t. t \<in> set ts \<Longrightarrow> fin_ok t (ps_db s) \<and> claim oid t = 0 \<and> \<not> owner oid t \<and> \<not> creating oid t"
  shows "refund_kept oid st k s (s\<lparr>ps_tasks := ps_tasks s @ ts\<rparr>)"
  using assms one_refund_idle [OF assms(2), of ts] by (simp add: refund_kept_def over_def)

lemma refund_kept_step:
  assumes "pay_step env ok s s'" "sys_ok s" "one_refund oid s"
  shows "refund_kept oid st k s s'"
proof -
  have sys: "sys_ok s'" "extends (ps_db s) (ps_db s')" using pay_step_kept [OF assms(1,2)] by simp_all
  show ?thesis
    using assms(1)
  proof (cases rule: pay_step.cases)
    case (run n i t db)
    have "users_ok (ps_db s)" "fin_ok (ps_tasks s ! n) (ps_db s)"
      using assms(2,3) run(2) by (auto simp: sys_ok_def pay_ok_def one_refund_def list_all_length)
    then have "fin_ok t db" using run_task_sound [of "ps_db s" "ps_tasks s ! n" oid env i] run(4) by (simp add: sound_def)
    then show ?thesis using one_refund_run [OF assms(3) _ _ run(2,4), of st k] sys run(1) by (simp add: refund_kept_def)
  next
    case (arrive t)
    show ?thesis unfolding arrive(1) by (rule refund_kept_add) (use assms(3) sys(1) arrive idle_tasks in auto)
  next
    case (reconcile now)
    show ?thesis unfolding reconcile by (rule refund_kept_add) (use assms(3) sys(1) reconcile idle_tasks in auto)
  next
    case (expire now)
    show ?thesis unfolding expire by (rule refund_kept_add) (use assms(3) sys(1) expire idle_tasks in auto)
  next
    case (others us)
    have "list_all (\<lambda>t. fin_ok t (ps_db s') \<and> \<not> creating oid t) (ps_tasks s)"
      using assms(3) sys(2) fin_ok_extends by (auto simp: one_refund_def list_all_iff)
    then show ?thesis using others sys(1) assms(3) by (auto simp: refund_kept_def one_refund_def over_def refunders_def get_order_def)
  qed
qed

lemma refund_kept_run:
  assumes "(pay_step env ok)\<^sup>*\<^sup>* s s'" "sys_ok s" "one_refund oid s"
  shows "refund_kept oid st k s s'"
  using assms
proof (induction rule: rtranclp_induct)
  case base
  then show ?case by (simp add: refund_kept_def)
next
  case (step t u)
  then have 1: "refund_kept oid st k s t" by blast
  then have "refund_kept oid st k t u" by (intro refund_kept_step [OF step(2)]) (simp_all add: refund_kept_def)
  then show ?case using 1 by (simp add: refund_kept_def)
qed

text \<open>The run of the example goes on: refunds whose provider answers \<open>a\<close>, and a query it answers with \<open>a\<close>.\<close>

definition refund_in :: "gotime \<Rightarrow> refund_answer \<Rightarrow> pay_input" where
  "refund_in now a = (demo_in now)\<lparr>pi_refund := a\<rparr>"

definition answer :: "string \<Rightarrow> refund_answer" where
  "answer st = \<lparr>ra_Err = False, ra_Status = Some st, ra_RefundID = ''rf''\<rparr>"

definition refund_steps :: "nat \<Rightarrow> nat \<Rightarrow> gotime \<Rightarrow> string \<Rightarrow> (task + nat \<times> pay_input) list" where
  "refund_steps n k now st = replicate k (Inr (n, refund_in now (answer st)))"

definition demo_refunded :: pay_sys where
  "demo_refunded = pay_events demo_env (Inl (TPrepare 7 (Fin 10) [] False True) # refund_steps 3 6 4000 ''success'') demo_paid"

definition demo_pending_once :: pay_sys where
  "demo_pending_once = pay_events demo_env (Inl (TPrepare 7 (Fin 10) [] False True) # refund_steps 3 6 4000 ''pending'' @
     Inl (TFinalize 7) # refund_steps 4 4 5000 ''failed'') demo_paid"

definition demo_pending_twice :: pay_sys where
  "demo_pending_twice = pay_events demo_env (Inl (TPrepare 7 (Fin 10) [] False True) # refund_steps 5 6 6000 ''pending'') demo_pending_once"

lemma demo_statuses:
  "map_option po_status (get_order 7 (ps_db demo_refunded)) = Some ORefunded"
  "map_option po_status (get_order 7 (ps_db demo_pending_once)) = Some ORefundFailed"
  "map_option po_status (get_order 7 (ps_db demo_pending_twice)) = Some ORefunding"
  by code_simp+

lemma demo_idle:
  "list_all (\<lambda>t. \<not> creating 7 t \<and> \<not> owner 7 t) (ps_tasks demo_paid)"
  "list_all (\<lambda>t. \<not> creating 7 t \<and> \<not> owner 7 t) (ps_tasks demo_refunded)"
  "list_all (\<lambda>t. \<not> creating 7 t \<and> \<not> owner 7 t) (ps_tasks demo_pending_twice)"
  by code_simp+

lemma demo_taken: "taken 7 (ps_db demo_pending_twice) = 20" "returned 7 (ps_db demo_pending_twice) = 10"
proof -
  have "taken 7 (ps_db demo_pending_twice) = x \<longleftrightarrow> x = 20" for x by (code_simp, simp add: eq_commute)
  then show "taken 7 (ps_db demo_pending_twice) = 20" by blast
  have "returned 7 (ps_db demo_pending_twice) = x \<longleftrightarrow> x = 10" for x by (code_simp, simp add: eq_commute)
  then show "returned 7 (ps_db demo_pending_twice) = 10" by blast
qed

lemma demo_runs:
  "(pay_step demo_env (\<lambda>_. True))\<^sup>*\<^sup>* demo_paid demo_refunded"
  "(pay_step demo_env (\<lambda>_. True))\<^sup>*\<^sup>* demo_paid demo_pending_twice"
proof -
  show "(pay_step demo_env (\<lambda>_. True))\<^sup>*\<^sup>* demo_paid demo_refunded" unfolding demo_refunded_def by (rule pay_events_reach) simp
  have "(pay_step demo_env (\<lambda>_. True))\<^sup>*\<^sup>* demo_paid demo_pending_once" unfolding demo_pending_once_def by (rule pay_events_reach) simp
  moreover have "(pay_step demo_env (\<lambda>_. True))\<^sup>*\<^sup>* demo_pending_once demo_pending_twice"
    unfolding demo_pending_twice_def by (rule pay_events_reach) simp
  ultimately show "(pay_step demo_env (\<lambda>_. True))\<^sup>*\<^sup>* demo_paid demo_pending_twice" by (rule rtranclp_trans)
qed

theorem refund_returns_bounded_witness:
  "returned 7 (ps_db demo_pending_twice) \<le> taken 7 (ps_db demo_pending_twice) \<and> returned 7 (ps_db demo_pending_twice) = 10"
  using refund_returns_bounded [OF demo_start rtranclp_trans [OF demo_paid_run demo_runs(2)], of 7] demo_taken by simp

text \<open>The state of an order that nobody creates or refunds.\<close>

definition at_rest :: "int \<Rightarrow> pay_sys \<Rightarrow> bool" where
  "at_rest oid s \<longleftrightarrow> get_order oid (ps_db s) \<noteq> None \<and> list_all (\<lambda>t. \<not> creating oid t \<and> \<not> owner oid t) (ps_tasks s)"

lemma at_rest_one:
  assumes "pay_start s0" "(pay_step env ok)\<^sup>*\<^sup>* s0 s" "at_rest oid s"
  shows "sys_ok s \<and> one_refund oid s \<and> refunders oid s = 0"
proof -
  have s: "refunds_ok oid s" by (rule refunds_ok_run [OF assms(2) refunds_ok_start [OF assms(1)]])
  have "filter (owner oid) (ps_tasks s) = []" using assms(3) by (simp add: at_rest_def list_all_iff filter_empty_conv)
  then have "refunders oid s = 0" by (simp add: refunders_def)
  then show ?thesis using s assms(3) by (auto simp: refunds_ok_def one_refund_def at_rest_def list_all_iff)
qed

text \<open>
  C10: Refunds of an order exclude each other. From any reachable state in which the order is there and no task is creating or
  refunding it, however many refunds are requested, prepared, executed or closed at the same time: at most one of them gets
  past the claim of the order at any moment, and while one is, the order shows it (\<^verbatim>\<open>REFUNDING\<close>, or the refund's result).
\<close>

theorem refund_one_at_a_time:
  assumes "pay_start s0" "(pay_step env ok)\<^sup>*\<^sup>* s0 s" "at_rest oid s" "(pay_step env ok)\<^sup>*\<^sup>* s s'"
  shows "length (filter (owner oid) (ps_tasks s')) \<le> 1 \<and>
    (filter (owner oid) (ps_tasks s') = [] \<or>
     (\<exists>od. get_order oid (ps_db s') = Some od \<and> po_status od \<in> {ORefunding, OPartiallyRefunded, ORefunded}))"
proof -
  have "refund_kept oid ORefunded 0 s s'" by (rule refund_kept_run [OF assms(4)]) (simp_all add: at_rest_one [OF assms(1-3)])
  then have o: "one_refund oid s'" by (simp add: refund_kept_def)
  then have "refunders oid s' = 0 \<or> refunders oid s' = 1" by (auto simp: one_refund_def)
  then show ?thesis using o by (auto simp: one_refund_def refunders_def locked_def)
qed

theorem refund_one_at_a_time_witness:
  "length (filter (owner 7) (ps_tasks demo_refunded)) \<le> 1 \<and> length (ps_tasks demo_refunded) = 4"
proof -
  have "at_rest 7 demo_paid" using demo_idle(1) demo_order by (auto simp: at_rest_def)
  moreover have "length (ps_tasks demo_refunded) = 4" by code_simp
  ultimately show ?thesis using refund_one_at_a_time [OF demo_start demo_paid_run _ demo_runs(1), of 7] by simp
qed

text \<open>
  C11: The end of a refund is final. An order that is refunded or partially refunded, with no refund still at work, keeps that
  status in every later state, and its provider is never asked to refund it again. The same holds of an order left in
  \<^verbatim>\<open>REFUNDING\<close> by a process that stopped: nothing ever takes it out of that status.
\<close>

theorem refund_end_final:
  assumes "pay_start s0" "(pay_step env ok)\<^sup>*\<^sup>* s0 s" "at_rest oid s" "get_order oid (ps_db s) = Some od"
    and "po_status od \<in> {ORefunding, OPartiallyRefunded, ORefunded}" "(pay_step env ok)\<^sup>*\<^sup>* s s'"
  shows "map_option po_status (get_order oid (ps_db s')) = Some (po_status od) \<and>
    provider_calls oid (ps_db s') = provider_calls oid (ps_db s)"
proof -
  have "refund_kept oid (po_status od) (provider_calls oid (ps_db s)) s s'"
    by (rule refund_kept_run [OF assms(6)]) (simp_all add: at_rest_one [OF assms(1-3)])
  moreover have "over oid (po_status od) (provider_calls oid (ps_db s)) s" using at_rest_one [OF assms(1-3)] assms(4) by (simp add: over_def)
  moreover have "locked (po_status od)" using assms(5) by (simp add: locked_def)
  ultimately show ?thesis by (auto simp: refund_kept_def over_def)
qed

theorem refund_end_final_witness:
  "map_option po_status (get_order 7 (ps_db (pay_events demo_env [Inl (TPrepare 7 (Fin 5) [] True False)] demo_refunded))) = Some ORefunded"
proof -
  let ?s = "pay_events demo_env [Inl (TPrepare 7 (Fin 5) [] True False)] demo_refunded"
  obtain od where od: "get_order 7 (ps_db demo_refunded) = Some od" "po_status od = ORefunded" using demo_statuses(1) by auto
  have rest: "at_rest 7 demo_refunded" using demo_idle(2) od(1) by (auto simp: at_rest_def)
  have run: "(pay_step demo_env (\<lambda>_. True))\<^sup>*\<^sup>* demo_refunded ?s" by (rule pay_events_reach) simp
  show ?thesis using refund_end_final [OF demo_start rtranclp_trans [OF demo_paid_run demo_runs(1)] rest od(1) _ run] od(2) by simp
qed

lemma pay_step_any: "pay_step env ok s s' \<Longrightarrow> pay_step env (\<lambda>_. True) s s'"
  by (induction rule: pay_step.induct) (rule pay_step.intros; simp)+

lemma pay_run_any: "(pay_step env ok)\<^sup>*\<^sup>* s s' \<Longrightarrow> (pay_step env (\<lambda>_. True))\<^sup>*\<^sup>* s s'"
  by (induction rule: rtranclp_induct) (auto intro: rtranclp.rtrancl_into_rtrancl pay_step_any)

lemma demo_no_faults: "(pay_step demo_env (\<lambda>i. pi_fault i = NoFault))\<^sup>*\<^sup>* demo_start demo_pending_twice"
proof -
  let ?run = "(pay_step demo_env (\<lambda>i. pi_fault i = NoFault))\<^sup>*\<^sup>*"
  note inputs = steps_of_def demo_in_def refund_steps_def refund_in_def
  have "?run demo_start demo_paid" unfolding demo_paid_def by (rule pay_events_reach) (auto simp: inputs split: if_splits)
  moreover have "?run demo_paid demo_pending_once" unfolding demo_pending_once_def
    by (rule pay_events_reach) (auto simp: inputs split: if_splits)
  moreover have "?run demo_pending_once demo_pending_twice" unfolding demo_pending_twice_def
    by (rule pay_events_reach) (auto simp: inputs split: if_splits)
  ultimately show ?thesis using rtranclp_trans by metis
qed

text \<open>
  C12: A second pending refund strands its order. There is a run without faults, of one customer's order, whose first refund is
  pending at the provider and then refused (the deduction is returned), and whose second refund is pending again: the audit
  row of the first keeps the second from being recorded, so the order stays in \<^verbatim>\<open>REFUNDING\<close>, no task works on it, the
  customer is one deduction of 10 short, and no later operation of any kind takes the order out of that status.
\<close>

theorem second_pending_refund_strands:
  "(pay_step demo_env (\<lambda>i. pi_fault i = NoFault))\<^sup>*\<^sup>* demo_start demo_pending_twice \<and> at_rest 7 demo_pending_twice \<and>
   taken 7 (ps_db demo_pending_twice) - returned 7 (ps_db demo_pending_twice) = 10 \<and>
   Collect ((pay_step demo_env ok)\<^sup>*\<^sup>* demo_pending_twice) \<subseteq> {s. map_option po_status (get_order 7 (ps_db s)) = Some ORefunding}"
proof -
  obtain od where od: "get_order 7 (ps_db demo_pending_twice) = Some od" "po_status od = ORefunding" using demo_statuses(3) by auto
  have rest: "at_rest 7 demo_pending_twice" using demo_idle(3) od(1) by (auto simp: at_rest_def)
  have run: "(pay_step demo_env (\<lambda>_. True))\<^sup>*\<^sup>* demo_start demo_pending_twice" by (rule pay_run_any [OF demo_no_faults])
  have final: "map_option po_status (get_order 7 (ps_db s)) = Some ORefunding" if "(pay_step demo_env ok)\<^sup>*\<^sup>* demo_pending_twice s" for s
    using at_rest_one [OF demo_start run rest] refund_kept_run [OF pay_run_any [OF that], of 7 ORefunding "provider_calls 7 (ps_db demo_pending_twice)"] od
    by (auto simp: refund_kept_def over_def locked_def)
  show ?thesis using demo_no_faults rest demo_taken final by auto
qed

end
