(* ===== verification/Account.thy ===== *)
theory Account
  imports GoText Decimal Complex_Main
begin

text \<open>
  Upstream accounts: the part of \<^verbatim>\<open>backend/internal/service/account.go\<close> that scheduling and failover read.
  \<open>Credentials\<close> and \<open>Extra\<close> hold decoded JSON, so a number may be a float, a \<open>json.Number\<close> or a text;
  a \<open>float64\<close> is a rational number. The conversion of a float to an integer is the implementation's own
  where the value is out of range, and the parsing of floats and RFC 3339 times and the calendar of a time zone
  belong to the standard library: they are the fields of \<open>account_lib\<close>.
\<close>

section \<open>Data\<close>

datatype json_value =
  JBool bool | JInt int | JFloat rat | JNumber string | JString string | JOther

record account_lib =
  int_of_float :: "rat \<Rightarrow> int"
  ParseFloat :: "string \<Rightarrow> rat option"
  ParseTime :: "string \<Rightarrow> gotime option"
  lastFixedDailyReset :: "int \<Rightarrow> string \<Rightarrow> gotime \<Rightarrow> gotime"
  lastFixedWeeklyReset :: "int \<Rightarrow> int \<Rightarrow> string \<Rightarrow> gotime \<Rightarrow> gotime"

record Account =
  acc_ID :: int
  acc_Platform :: string
  acc_Type :: string
  Credentials :: "string \<rightharpoonup> json_value"
  Extra :: "string \<rightharpoonup> json_value"
  acc_Concurrency :: int
  Priority :: int
  LoadFactor :: "int option"
  acc_Status :: string
  LastUsedAt :: "gotime option"
  acc_ExpiresAt :: "gotime option"
  AutoPauseOnExpired :: bool
  Schedulable :: bool
  PerformancePaused :: bool
  RateLimitResetAt :: "gotime option"
  OverloadUntil :: "gotime option"
  TempUnschedulableUntil :: "gotime option"
  SessionWindowEnd :: "gotime option"

definition PlatformAnthropic :: string where "PlatformAnthropic = ''anthropic''"
definition PlatformOpenAI :: string where "PlatformOpenAI = ''openai''"
definition PlatformGemini :: string where "PlatformGemini = ''gemini''"
definition PlatformAntigravity :: string where "PlatformAntigravity = ''antigravity''"

text \<open>A missing map and a missing key read alike in every accessor: both are \<open>None\<close>.\<close>

section \<open>Reading decoded JSON\<close>

definition parseExtraInt :: "account_lib \<Rightarrow> json_value \<Rightarrow> int" where
  "parseExtraInt lib v =
     (case v of
        JInt n \<Rightarrow> n
      | JFloat x \<Rightarrow> int_of_float lib x
      | JNumber s \<Rightarrow> (case ParseInt10 s of Some n \<Rightarrow> n | None \<Rightarrow> 0)
      | JString s \<Rightarrow> (case ParseInt10 (strings_TrimSpace s) of Some n \<Rightarrow> n | None \<Rightarrow> 0)
      | _ \<Rightarrow> 0)"

definition parseExtraFloat64 :: "account_lib \<Rightarrow> json_value \<Rightarrow> rat" where
  "parseExtraFloat64 lib v =
     (case v of
        JFloat x \<Rightarrow> x
      | JInt n \<Rightarrow> of_int n
      | JNumber s \<Rightarrow> (case ParseFloat lib s of Some x \<Rightarrow> x | None \<Rightarrow> 0)
      | JString s \<Rightarrow> (case ParseFloat lib (strings_TrimSpace s) of Some x \<Rightarrow> x | None \<Rightarrow> 0)
      | _ \<Rightarrow> 0)"

definition getExtraFloat64 :: "account_lib \<Rightarrow> Account \<Rightarrow> string \<Rightarrow> rat" where
  "getExtraFloat64 lib a key = (case Extra a key of Some v \<Rightarrow> parseExtraFloat64 lib v | None \<Rightarrow> 0)"

definition getExtraTime :: "account_lib \<Rightarrow> Account \<Rightarrow> string \<Rightarrow> gotime" where
  "getExtraTime lib a key =
     (case Extra a key of
        Some (JString s) \<Rightarrow> (case ParseTime lib s of Some t \<Rightarrow> t | None \<Rightarrow> 0)
      | _ \<Rightarrow> 0)"

definition getExtraString :: "Account \<Rightarrow> string \<Rightarrow> string" where
  "getExtraString a key = (case Extra a key of Some (JString s) \<Rightarrow> s | _ \<Rightarrow> '''')"

definition getExtraInt :: "account_lib \<Rightarrow> Account \<Rightarrow> string \<Rightarrow> int" where
  "getExtraInt lib a key = (case Extra a key of Some v \<Rightarrow> int_of_float lib (parseExtraFloat64 lib v) | None \<Rightarrow> 0)"

definition extra_true :: "Account \<Rightarrow> string \<Rightarrow> bool" where
  "extra_true a key \<longleftrightarrow> Extra a key = Some (JBool True)"

section \<open>Pool mode\<close>

definition IsAPIKeyOrBedrock :: "Account \<Rightarrow> bool" where
  "IsAPIKeyOrBedrock a \<longleftrightarrow> acc_Type a = AccountTypeAPIKey \<or> acc_Type a = AccountTypeBedrock"

definition IsPoolMode :: "Account \<Rightarrow> bool" where
  "IsPoolMode a \<longleftrightarrow> IsAPIKeyOrBedrock a \<and> Credentials a ''pool_mode'' = Some (JBool True)"

definition defaultPoolModeRetryCount :: int where "defaultPoolModeRetryCount = 3"
definition maxPoolModeRetryCount :: int where "maxPoolModeRetryCount = 10"

definition parsePoolModeRetryCount :: "account_lib \<Rightarrow> json_value \<Rightarrow> int" where
  "parsePoolModeRetryCount lib v =
     (case v of
        JInt n \<Rightarrow> n
      | JFloat x \<Rightarrow> int_of_float lib x
      | JNumber s \<Rightarrow> (case ParseInt10 s of Some n \<Rightarrow> n | None \<Rightarrow> defaultPoolModeRetryCount)
      | JString s \<Rightarrow> (case ParseInt10 (strings_TrimSpace s) of Some n \<Rightarrow> n | None \<Rightarrow> defaultPoolModeRetryCount)
      | _ \<Rightarrow> defaultPoolModeRetryCount)"

definition GetPoolModeRetryCount :: "account_lib \<Rightarrow> Account \<Rightarrow> int" where
  "GetPoolModeRetryCount lib a =
     (if \<not> IsPoolMode a then defaultPoolModeRetryCount
      else case Credentials a ''pool_mode_retry_count'' of
        None \<Rightarrow> defaultPoolModeRetryCount
      | Some raw \<Rightarrow>
          let count = parsePoolModeRetryCount lib raw in
          if count < 0 then 0
          else if count > maxPoolModeRetryCount then maxPoolModeRetryCount
          else count)"

section \<open>Quota of an account\<close>

definition SupportsAccountQuota :: "(string \<Rightarrow> string) \<Rightarrow> Account \<Rightarrow> bool" where
  "SupportsAccountQuota ToLower a \<longleftrightarrow> AccountTypeSupportsQuota ToLower (acc_Type a)"

definition isPeriodExpired :: "gotime \<Rightarrow> gotime \<Rightarrow> duration \<Rightarrow> bool" where
  "isPeriodExpired now start d \<longleftrightarrow> IsZero start \<or> Sub now start \<ge> d"

definition GetQuotaResetTimezone :: "Account \<Rightarrow> string" where
  "GetQuotaResetTimezone a = (let tz = getExtraString a ''quota_reset_timezone'' in if tz \<noteq> '''' then tz else ''UTC'')"

definition GetQuotaWeeklyResetDay :: "account_lib \<Rightarrow> Account \<Rightarrow> int" where
  "GetQuotaWeeklyResetDay lib a =
     (case Extra a ''quota_weekly_reset_day'' of None \<Rightarrow> 1 | Some _ \<Rightarrow> getExtraInt lib a ''quota_weekly_reset_day'')"

definition isFixedDailyPeriodExpired :: "account_lib \<Rightarrow> gotime \<Rightarrow> Account \<Rightarrow> gotime \<Rightarrow> bool" where
  "isFixedDailyPeriodExpired lib now a start \<longleftrightarrow>
     IsZero start \<or>
     Before start (lastFixedDailyReset lib (getExtraInt lib a ''quota_daily_reset_hour'') (GetQuotaResetTimezone a) now)"

definition isFixedWeeklyPeriodExpired :: "account_lib \<Rightarrow> gotime \<Rightarrow> Account \<Rightarrow> gotime \<Rightarrow> bool" where
  "isFixedWeeklyPeriodExpired lib now a start \<longleftrightarrow>
     IsZero start \<or>
     Before start (lastFixedWeeklyReset lib (GetQuotaWeeklyResetDay lib a) (getExtraInt lib a ''quota_weekly_reset_hour'')
       (GetQuotaResetTimezone a) now)"

definition daily_expired :: "account_lib \<Rightarrow> gotime \<Rightarrow> Account \<Rightarrow> bool" where
  "daily_expired lib now a =
     (let start = getExtraTime lib a ''quota_daily_start'' in
      if getExtraString a ''quota_daily_reset_mode'' = ''fixed'' then isFixedDailyPeriodExpired lib now a start
      else isPeriodExpired now start (24 * Hour))"

definition weekly_expired :: "account_lib \<Rightarrow> gotime \<Rightarrow> Account \<Rightarrow> bool" where
  "weekly_expired lib now a =
     (let start = getExtraTime lib a ''quota_weekly_start'' in
      if getExtraString a ''quota_weekly_reset_mode'' = ''fixed'' then isFixedWeeklyPeriodExpired lib now a start
      else isPeriodExpired now start (7 * 24 * Hour))"

definition IsQuotaExceeded :: "account_lib \<Rightarrow> gotime \<Rightarrow> Account \<Rightarrow> bool" where
  "IsQuotaExceeded lib now a \<longleftrightarrow>
     (let used = getExtraFloat64 lib a in
      used ''quota_limit'' > 0 \<and> used ''quota_used'' \<ge> used ''quota_limit'' \<or>
      used ''quota_daily_limit'' > 0 \<and> \<not> daily_expired lib now a \<and> used ''quota_daily_used'' \<ge> used ''quota_daily_limit'' \<or>
      used ''quota_weekly_limit'' > 0 \<and> \<not> weekly_expired lib now a \<and> used ''quota_weekly_used'' \<ge> used ''quota_weekly_limit'')"

section \<open>May the account serve a request\<close>

definition StatusActive :: string where "StatusActive = ''active''"

definition pending :: "gotime \<Rightarrow> gotime option \<Rightarrow> bool" where
  "pending now until = (case until of None \<Rightarrow> False | Some t \<Rightarrow> Before now t)"

definition IsSchedulable :: "(string \<Rightarrow> string) \<Rightarrow> account_lib \<Rightarrow> gotime \<Rightarrow> Account \<Rightarrow> bool" where
  "IsSchedulable ToLower lib now a =
     (if acc_Status a \<noteq> StatusActive \<or> \<not> Schedulable a \<or> PerformancePaused a then False
      else if AutoPauseOnExpired a \<and> acc_ExpiresAt a \<noteq> None \<and> \<not> pending now (acc_ExpiresAt a) then False
      else if pending now (OverloadUntil a) then False
      else if pending now (RateLimitResetAt a) then False
      else if pending now (TempUnschedulableUntil a) then False
      else if SupportsAccountQuota ToLower a \<and> IsQuotaExceeded lib now a then False
      else True)"

definition IsMixedSchedulingEnabled :: "Account \<Rightarrow> bool" where
  "IsMixedSchedulingEnabled a \<longleftrightarrow> acc_Platform a = PlatformAntigravity \<and> extra_true a ''mixed_scheduling''"

definition IsAnthropicOAuthOrSetupToken :: "Account \<Rightarrow> bool" where
  "IsAnthropicOAuthOrSetupToken a \<longleftrightarrow>
     acc_Platform a = PlatformAnthropic \<and> (acc_Type a = AccountTypeOAuth \<or> acc_Type a = AccountTypeSetupToken)"

section \<open>Soft limits of a window\<close>

datatype WindowCostSchedulability = WindowCostSchedulable | WindowCostStickyOnly | WindowCostNotSchedulable

definition GetWindowCostStickyReserve :: "account_lib \<Rightarrow> Account \<Rightarrow> rat" where
  "GetWindowCostStickyReserve lib a =
     (let v = getExtraFloat64 lib a ''window_cost_sticky_reserve'' in if v > 0 then v else 10)"

definition CheckWindowCostSchedulability :: "account_lib \<Rightarrow> Account \<Rightarrow> rat \<Rightarrow> WindowCostSchedulability" where
  "CheckWindowCostSchedulability lib a cost =
     (let limit = getExtraFloat64 lib a ''window_cost_limit'' in
      if limit \<le> 0 then WindowCostSchedulable
      else if cost < limit then WindowCostSchedulable
      else if cost < limit + GetWindowCostStickyReserve lib a then WindowCostStickyOnly
      else WindowCostNotSchedulable)"

definition extra_int :: "account_lib \<Rightarrow> Account \<Rightarrow> string \<Rightarrow> int" where
  "extra_int lib a key = (case Extra a key of Some v \<Rightarrow> parseExtraInt lib v | None \<Rightarrow> 0)"

definition GetMaxSessions :: "account_lib \<Rightarrow> Account \<Rightarrow> int" where
  "GetMaxSessions lib a = extra_int lib a ''max_sessions''"

definition GetBaseRPM :: "account_lib \<Rightarrow> Account \<Rightarrow> int" where
  "GetBaseRPM lib a = (let v = extra_int lib a ''base_rpm'' in if v > 0 then v else 0)"

definition GetRPMStrategy :: "Account \<Rightarrow> string" where
  "GetRPMStrategy a =
     (if acc_Platform a = PlatformOpenAI \<and> acc_Type a = AccountTypeOAuth then ''strict''
      else if Extra a ''rpm_strategy'' = Some (JString ''sticky_exempt'') then ''sticky_exempt''
      else ''tiered'')"

definition GetRPMStickyBuffer :: "account_lib \<Rightarrow> Account \<Rightarrow> int" where
  "GetRPMStickyBuffer lib a =
     (let v = extra_int lib a ''rpm_sticky_buffer''; base = GetBaseRPM lib a in
      if v > 0 then v
      else if base \<le> 0 then 0
      else max (max 0 (acc_Concurrency a) + max 0 (GetMaxSessions lib a)) (max 1 (go_div base 5)))"

definition CheckRPMSchedulability :: "account_lib \<Rightarrow> Account \<Rightarrow> int \<Rightarrow> WindowCostSchedulability" where
  "CheckRPMSchedulability lib a current =
     (let base = GetBaseRPM lib a in
      if base \<le> 0 then WindowCostSchedulable
      else if current < base then WindowCostSchedulable
      else if GetRPMStrategy a = ''strict'' then WindowCostNotSchedulable
      else if GetRPMStrategy a = ''sticky_exempt'' then WindowCostStickyOnly
      else if current < base + GetRPMStickyBuffer lib a then WindowCostStickyOnly
      else WindowCostNotSchedulable)"

section \<open>Load\<close>

text \<open>
  The load rate a scheduler compares: the measured rate, weighted by the load factor where one is set. \<open>math.Round\<close>
  rounds halves away from zero, which for a value that is not negative is the floor of the value plus a half.
\<close>

definition accountLoadPreferenceRate :: "Account \<Rightarrow> int \<Rightarrow> int" where
  "accountLoadPreferenceRate a loadRate =
     (case LoadFactor a of
        None \<Rightarrow> loadRate
      | Some f \<Rightarrow>
          if acc_Concurrency a \<le> 0 \<or> f \<le> 0 then loadRate
          else
            let weight = max (1 / 2) (min 2 (of_int f / of_int (acc_Concurrency a) :: rat))
            in \<lfloor>of_int (max 0 loadRate) / weight + 1 / 2\<rfloor>)"

section \<open>What happens to an account\<close>

text \<open>
  The visible actions of a request on accounts, in the order they happen: its slot is taken and given back, a
  session is registered and released, a waiter is counted and uncounted, the profit gate refuses it, a request is
  forwarded to it, it is taken out of scheduling for a while, and usage is submitted. \<open>Slept\<close> is a pause.
\<close>

datatype effect =
  Held int | Released int
| SessionRegistered int | SessionReleased int
| WaitCounted int | WaitUncounted int
| Vetoed int | Skipped int
| Forwarded int
| Slept duration | TempUnscheduled int
| Usage int bool

text \<open>
  The slot discipline: at most one slot is held at a time, and what is given back is what is held. The result is the
  slot held at the end, or \<open>None\<close> when the discipline is broken.
\<close>

fun slot_run :: "int option \<Rightarrow> effect list \<Rightarrow> int option option" where
  "slot_run h [] = Some h"
| "slot_run h (Held a # es) = (if h = None then slot_run (Some a) es else None)"
| "slot_run h (Released a # es) = (if h = Some a then slot_run None es else None)"
| "slot_run h (e # es) = slot_run h es"

lemma slot_run_append [simp]:
  "slot_run h (xs @ ys) = (case slot_run h xs of None \<Rightarrow> None | Some h' \<Rightarrow> slot_run h' ys)"
  by (induction h xs rule: slot_run.induct) auto

text \<open>Pool-mode retries are bounded whatever the credentials say.\<close>

lemma GetPoolModeRetryCount_bounds: "0 \<le> GetPoolModeRetryCount lib a" "GetPoolModeRetryCount lib a \<le> 10"
  by (simp_all add: GetPoolModeRetryCount_def defaultPoolModeRetryCount_def maxPoolModeRetryCount_def Let_def
      split: option.split)

text \<open>An account with a sticky reserve serves bound sessions at least as long as new ones.\<close>

lemma window_sticky_weaker:
  "CheckWindowCostSchedulability lib a c = WindowCostSchedulable \<Longrightarrow> d \<le> c \<Longrightarrow>
   CheckWindowCostSchedulability lib a d = WindowCostSchedulable"
  by (simp add: CheckWindowCostSchedulability_def Let_def split: if_splits)

end
