(* ===== verification/Failover.thy ===== *)
theory Failover
  imports Account
begin

text \<open>
  \<^verbatim>\<open>backend/internal/handler/failover_loop.go\<close>: the state one request keeps while it moves from account to
  account, and the three decisions on it: after a refusal by the profit gate, after an upstream error, and after a
  selection that found no account. Whether the request's context has ended, whether a pause was cut short by it, and
  the clock are inputs. Log lines are left out.
\<close>

section \<open>Data\<close>

datatype FailoverAction = FailoverContinue | FailoverExhausted | FailoverCanceled

datatype NextAccountAction = NextAccountLegacyRetry | NextAccountRetry | NextAccountStop

record UpstreamFailoverError =
  StatusCode :: int
  err_ForceCacheBilling :: bool
  RetryableOnSameAccount :: bool
  SameAccountRetryDelay :: duration
  SameAccountRetryDeadline :: gotime
  SameAccountRetryMax :: int
  RequestScopedTransient :: bool
  err_NextAccountAction :: NextAccountAction

definition ShouldRetryNextAccount :: "UpstreamFailoverError \<Rightarrow> bool" where
  "ShouldRetryNextAccount e \<longleftrightarrow> err_NextAccountAction e \<noteq> NextAccountStop"

text \<open>A \<open>map[int64]int\<close> that is only read and incremented is a function with default 0.\<close>

record FailoverState =
  SwitchCount :: int
  MaxSwitches :: int
  FailedAccountIDs :: "int set"
  SameAccountRetryCount :: "int \<Rightarrow> int"
  LastFailoverErr :: "UpstreamFailoverError option"
  ForceCacheBilling :: bool
  hasBoundSession :: bool
  profitVetoedAccountIDs :: "int set"
  profitVetoCount :: int

definition sameAccountRetryDelay :: duration where "sameAccountRetryDelay = 500 * Millisecond"
definition maxRequestScopedRetryDelay :: duration where "maxRequestScopedRetryDelay = 8 * Second"
definition singleAccountBackoffDelay :: duration where "singleAccountBackoffDelay = 2 * Second"
definition maxProfitVetoAttempts :: int where "maxProfitVetoAttempts = 10"

definition NewFailoverState :: "int \<Rightarrow> bool \<Rightarrow> FailoverState" where
  "NewFailoverState maxSwitches bound =
     \<lparr>SwitchCount = 0, MaxSwitches = maxSwitches, FailedAccountIDs = {}, SameAccountRetryCount = (\<lambda>_. 0),
      LastFailoverErr = None, ForceCacheBilling = False, hasBoundSession = bound,
      profitVetoedAccountIDs = {}, profitVetoCount = 0\<rparr>"

section \<open>Retrying on the same account\<close>

text \<open>The doubling loop of \<open>sameAccountRetryDelayFor\<close>; the argument counts the rounds that are left.\<close>

fun double_delay :: "nat \<Rightarrow> duration \<Rightarrow> duration" where
  "double_delay 0 delay = delay"
| "double_delay (Suc n) delay =
     (if delay \<ge> go_div maxRequestScopedRetryDelay 2 then maxRequestScopedRetryDelay
      else double_delay n (delay * 2))"

definition sameAccountRetryDelayFor :: "UpstreamFailoverError option \<Rightarrow> int \<Rightarrow> duration" where
  "sameAccountRetryDelayFor err retryCount =
     (case err of
        None \<Rightarrow> sameAccountRetryDelay
      | Some e \<Rightarrow>
          if SameAccountRetryDelay e > 0 then SameAccountRetryDelay e
          else if \<not> RequestScopedTransient e \<or> retryCount \<le> 1 then sameAccountRetryDelay
          else double_delay (nat (retryCount - 1)) sameAccountRetryDelay)"

definition sameAccountRetryDeadlineAllows :: "gotime \<Rightarrow> UpstreamFailoverError \<Rightarrow> bool" where
  "sameAccountRetryDeadlineAllows now e \<longleftrightarrow>
     IsZero (SameAccountRetryDeadline e) \<or> Before now (SameAccountRetryDeadline e)"

definition sameAccountRetryAllowed :: "gotime \<Rightarrow> UpstreamFailoverError \<Rightarrow> int \<Rightarrow> int \<Rightarrow> bool" where
  "sameAccountRetryAllowed now e retryCount retryLimit =
     (if \<not> RetryableOnSameAccount e then False
      else if \<not> sameAccountRetryDeadlineAllows now e then False
      else if SameAccountRetryMax e > 0 then
        (if retryLimit \<le> 0 then False
         else retryCount < (if SameAccountRetryMax e < retryLimit then SameAccountRetryMax e else retryLimit))
      else if \<not> IsZero (SameAccountRetryDeadline e) then True
      else retryLimit > 0 \<and> retryCount < retryLimit)"

definition needForceCacheBilling :: "bool \<Rightarrow> UpstreamFailoverError \<Rightarrow> bool \<Rightarrow> bool" where
  "needForceCacheBilling bound e sameAccountRetry \<longleftrightarrow> (bound \<and> \<not> sameAccountRetry) \<or> err_ForceCacheBilling e"

section \<open>The three decisions\<close>

text \<open>\<open>sleepWithContext\<close>: \<open>short\<close> says that the context ends before the pause does.\<close>

definition sleepWithContext :: "bool \<Rightarrow> duration \<Rightarrow> bool" where
  "sleepWithContext short d = (if d \<le> 0 then True else \<not> short)"

definition slept :: "duration \<Rightarrow> effect list" where
  "slept d = (if d \<le> 0 then [] else [Slept d])"

definition RecordProfitVeto :: "int \<Rightarrow> FailoverState \<Rightarrow> FailoverAction \<times> FailoverState" where
  "RecordProfitVeto accountID s =
     (let s1 = s\<lparr>FailedAccountIDs := insert accountID (FailedAccountIDs s),
                 profitVetoedAccountIDs := insert accountID (profitVetoedAccountIDs s),
                 profitVetoCount := profitVetoCount s + 1\<rparr>
      in (if profitVetoCount s1 \<ge> maxProfitVetoAttempts then FailoverExhausted else FailoverContinue, s1))"

definition allExclusionsAreProfitVetoed :: "FailoverState \<Rightarrow> bool" where
  "allExclusionsAreProfitVetoed s \<longleftrightarrow>
     profitVetoedAccountIDs s \<noteq> {} \<and> FailedAccountIDs s \<noteq> {} \<and> FailedAccountIDs s \<subseteq> profitVetoedAccountIDs s"

definition HandleFailoverError ::
  "bool \<Rightarrow> gotime \<Rightarrow> bool \<Rightarrow> int \<Rightarrow> string \<Rightarrow> int \<Rightarrow> UpstreamFailoverError \<Rightarrow> FailoverState
   \<Rightarrow> FailoverAction \<times> FailoverState \<times> effect list" where
  "HandleFailoverError ended now short accountID platform retryLimit e s =
     (if ended then (FailoverCanceled, s, [])
      else let s1 = s\<lparr>LastFailoverErr := Some e\<rparr> in
        if \<not> ShouldRetryNextAccount e then (FailoverExhausted, s1, [])
        else
          let retryCount = SameAccountRetryCount s1 accountID;
              sameAccountRetry = sameAccountRetryAllowed now e retryCount retryLimit;
              s2 = (if needForceCacheBilling (hasBoundSession s1) e sameAccountRetry
                    then s1\<lparr>ForceCacheBilling := True\<rparr> else s1)
          in if sameAccountRetry then
               let s3 = s2\<lparr>SameAccountRetryCount := (SameAccountRetryCount s2)(accountID := retryCount + 1)\<rparr>;
                   d = sameAccountRetryDelayFor (Some e) (SameAccountRetryCount s3 accountID)
               in (if sleepWithContext short d then FailoverContinue else FailoverCanceled, s3, slept d)
             else
               let temp = (if RetryableOnSameAccount e then [TempUnscheduled accountID] else []);
                   s3 = s2\<lparr>FailedAccountIDs := insert accountID (FailedAccountIDs s2)\<rparr>
               in if SwitchCount s3 \<ge> MaxSwitches s3 then (FailoverExhausted, s3, temp)
                  else
                    let s4 = s3\<lparr>SwitchCount := SwitchCount s3 + 1\<rparr>;
                        d = (if platform = PlatformAntigravity then (SwitchCount s4 - 1) * Second else 0)
                    in (if sleepWithContext short d then FailoverContinue else FailoverCanceled, s4, temp @ slept d))"

definition HandleSelectionExhausted ::
  "bool \<Rightarrow> bool \<Rightarrow> FailoverState \<Rightarrow> FailoverAction \<times> FailoverState \<times> effect list" where
  "HandleSelectionExhausted ended short s =
     (if ended then (FailoverCanceled, s, [])
      else case LastFailoverErr s of
        None \<Rightarrow> (FailoverExhausted, s, [])
      | Some e \<Rightarrow>
          if StatusCode e = 503 \<and> SwitchCount s \<le> MaxSwitches s then
            (if allExclusionsAreProfitVetoed s then (FailoverExhausted, s, [])
             else if \<not> sleepWithContext short singleAccountBackoffDelay then
               (FailoverCanceled, s, slept singleAccountBackoffDelay)
             else (FailoverContinue, s\<lparr>FailedAccountIDs := profitVetoedAccountIDs s\<rparr>, slept singleAccountBackoffDelay))
          else (FailoverExhausted, s, []))"

section \<open>Facts\<close>

text \<open>The doubling loop is the closed form it stands for.\<close>

lemma double_delay_closed:
  "sameAccountRetryDelayFor (Some e) n =
     (if SameAccountRetryDelay e > 0 then SameAccountRetryDelay e
      else if \<not> RequestScopedTransient e \<or> n \<le> 1 then sameAccountRetryDelay
      else min maxRequestScopedRetryDelay (sameAccountRetryDelay * 2 ^ nat (n - 1)))"
proof -
  have sat: "double_delay (Suc k) d = maxRequestScopedRetryDelay" if "4000000000 \<le> d" for k d
    using that by (simp add: maxRequestScopedRetryDelay_def Second_def go_div_def)
  have pow: "(16::int) \<le> 2 ^ (k + 4)" for k :: nat
    using one_le_power [of "2::int" k] by (simp add: power_add)
  have "double_delay k 500000000 = min 8000000000 (500000000 * 2 ^ k)" for k
  proof (cases "k < 4")
    case True
    then have "k \<in> {0, 1, 2, 3}" by auto
    then show ?thesis by (auto simp: maxRequestScopedRetryDelay_def Second_def go_div_def eval_nat_numeral)
  next
    case False
    then obtain j where k: "k = j + 4" using le_Suc_ex [of 4 k] by (auto simp: add.commute)
    have "double_delay k 500000000 = double_delay (Suc j) 4000000000"
      by (simp add: k eval_nat_numeral maxRequestScopedRetryDelay_def Second_def go_div_def)
    then show ?thesis using pow [of j] sat [of 4000000000 j]
      by (simp add: k maxRequestScopedRetryDelay_def Second_def)
  qed
  then show ?thesis
    by (simp add: sameAccountRetryDelayFor_def sameAccountRetryDelay_def Millisecond_def
        maxRequestScopedRetryDelay_def Second_def)
qed

end
