(* ===== verification/FailoverLoop.thy ===== *)
theory FailoverLoop
  imports Failover
begin

text \<open>
  The request loops of the gateway's handlers that move from account to account:
  \<^verbatim>\<open>backend/internal/handler/gateway_systemone.go\<close>, \<^verbatim>\<open>gateway_handler_chat_completions.go\<close>,
  \<^verbatim>\<open>gateway_handler_responses.go\<close>, the two loops of \<^verbatim>\<open>gateway_handler.go\<close> (messages of a Gemini group, and of the
  other groups) and \<^verbatim>\<open>gemini_v1beta_handler.go\<close>. A definition is one round of a loop; what the scheduler, the slot
  service, the profit gate, the upstream and the client do in a round is its input. Response texts, log lines, sticky
  bindings, the user message queue and the fields of the usage record are left out.
\<close>

section \<open>What a round meets\<close>

record selection =
  sel_Account :: Account
  sel_Acquired :: bool
  releasable :: bool
  has_WaitPlan :: bool

datatype wait_answer = WaitCountFails | WaitQueueFull | WaitAllowed

datatype forward_answer =
  Served
| FailsOver UpstreamFailoverError
| Refused int
| TooLarge
| BetaBlocked
| PromptTooLong
| Broken

datatype fallback_answer = FallbackUnresolved | FallbackInvalid | FallbackIneligible | FallbackReady

record round =
  client_gone :: bool
  body_cloned :: bool
  picked :: "selection option"
  gone_selecting :: bool
  exhausted_ended :: bool
  exhausted_short :: bool
  intercepts :: bool
  wait_counter :: wait_answer
  slot_wait :: "bool option"
  vetoed :: bool
  latest :: Account
  body_rewritten :: bool
  admission_owner :: bool
  forward :: forward_answer
  written :: bool
  partial_result :: bool
  gone_forwarding :: bool
  error_ended :: bool
  error_now :: gotime
  error_short :: bool
  fallback :: fallback_answer

text \<open>How a round ends: the loop goes on, or the handler returns with one of these answers.\<close>

datatype reply =
  Gone
| NoAccounts
| NoSlot
| QueueFull
| SlotRefused
| Intercepted
| ProfitRefused
| Unconfigured
| BadBody
| CacheUnavailable
| UpstreamFailed "UpstreamFailoverError option"
| Rejected int
| ResponseTooLarge
| ForwardBroke
| BetaRefused
| PromptRefused
| BillingRefused
| Answered

datatype outcome = Again | Return reply

type_synonym result = "outcome \<times> FailoverState \<times> effect list"

record loop_config =
  groupPlatform :: string
  gemini_configured :: bool
  antigravity_configured :: bool

section \<open>The parts the loops share\<close>

definition hold :: "bool \<Rightarrow> int \<Rightarrow> effect list" where
  "hold rel a = (if rel then [Held a] else [])"

definition give_back :: "bool \<Rightarrow> int \<Rightarrow> effect list" where
  "give_back rel a = (if rel then [Released a] else [])"

text \<open>The branch of a loop in which the selection returned an error.\<close>

definition selection_failed :: "round \<Rightarrow> FailoverState \<Rightarrow> result" where
  "selection_failed r s =
     (if gone_selecting r then (Return Gone, s, [])
      else if FailedAccountIDs s = {} then (Return NoAccounts, s, [])
      else case HandleSelectionExhausted (exhausted_ended r) (exhausted_short r) s of
        (FailoverContinue, s', es) \<Rightarrow> (Again, s', es)
      | (FailoverCanceled, s', es) \<Rightarrow> (Return Gone, s', es)
      | (FailoverExhausted, s', es) \<Rightarrow> (Return (UpstreamFailed (LastFailoverErr s')), s', es))"

text \<open>The slot of the selected account: it came with the selection or is waited for.\<close>

definition account_slot :: "round \<Rightarrow> selection \<Rightarrow> reply + bool" where
  "account_slot r sel =
     (if sel_Acquired sel then Inr (releasable sel)
      else if \<not> has_WaitPlan sel then Inl NoSlot
      else case slot_wait r of None \<Rightarrow> Inl SlotRefused | Some rel \<Rightarrow> Inr rel)"

text \<open>The same with the counter of waiting requests, as the messages and Gemini handlers do it.\<close>

definition waited_slot :: "round \<Rightarrow> selection \<Rightarrow> (reply + bool) \<times> effect list" where
  "waited_slot r sel =
     (if sel_Acquired sel then (Inr (releasable sel), [])
      else if \<not> has_WaitPlan sel then (Inl NoSlot, [])
      else if wait_counter r = WaitQueueFull then (Inl QueueFull, [])
      else
        let a = acc_ID (sel_Account sel);
            counted = (if wait_counter r = WaitAllowed then [WaitCounted a, WaitUncounted a] else [])
        in (case slot_wait r of None \<Rightarrow> Inl SlotRefused | Some rel \<Rightarrow> Inr rel, counted))"

text \<open>The profit gate refused the account after its slot was taken.\<close>

definition profit_veto :: "int \<Rightarrow> FailoverState \<Rightarrow> result" where
  "profit_veto a s =
     (case RecordProfitVeto a s of
        (FailoverExhausted, s') \<Rightarrow> (Return ProfitRefused, s', [Vetoed a])
      | (_, s') \<Rightarrow> (Again, s', [Vetoed a]))"

text \<open>The upstream answered with a failover error.\<close>

definition upstream_failed :: "account_lib \<Rightarrow> round \<Rightarrow> UpstreamFailoverError \<Rightarrow> FailoverState \<Rightarrow> result" where
  "upstream_failed lib r e s =
     (let a = latest r in
      case HandleFailoverError (error_ended r) (error_now r) (error_short r) (acc_ID a) (acc_Platform a)
             (GetPoolModeRetryCount lib a) e s of
        (FailoverContinue, s', es) \<Rightarrow> (Again, s', es)
      | (FailoverCanceled, s', es) \<Rightarrow> (Return Gone, s', es)
      | (FailoverExhausted, s', es) \<Rightarrow> (Return (UpstreamFailed (LastFailoverErr s')), s', es))"

definition and_then :: "effect list \<Rightarrow> ('o \<times> 's \<times> effect list) \<Rightarrow> 'o \<times> 's \<times> effect list" where
  "and_then es p = (case p of (oc, s, es') \<Rightarrow> (oc, s, es @ es'))"

section \<open>The System One handler\<close>

definition systemone_forward :: "account_lib \<Rightarrow> round \<Rightarrow> FailoverState \<Rightarrow> result" where
  "systemone_forward lib r s =
     (case forward r of
        FailsOver e \<Rightarrow> upstream_failed lib r e s
      | Served \<Rightarrow> (Return Answered, s, [Usage (acc_ID (latest r)) False])
      | other \<Rightarrow>
          if gone_forwarding r then (Return Gone, s, [])
          else case other of
            Refused st \<Rightarrow> (Return (Rejected (if st \<in> {400, 413, 422} then st else 502)), s, [])
          | TooLarge \<Rightarrow> (Return ResponseTooLarge, s, [])
          | _ \<Rightarrow> (Return ForwardBroke, s, []))"

definition systemone_round :: "account_lib \<Rightarrow> round \<Rightarrow> FailoverState \<Rightarrow> result" where
  "systemone_round lib r s =
     (if client_gone r then (Return Gone, s, [])
      else case picked r of
        None \<Rightarrow> selection_failed r s
      | Some sel \<Rightarrow>
          let a = acc_ID (sel_Account sel) in
          case account_slot r sel of
            Inl rep \<Rightarrow> (Return rep, s, [])
          | Inr rel \<Rightarrow>
              if vetoed r then and_then (hold rel a @ give_back rel a) (profit_veto a s)
              else and_then (hold rel a @ [Forwarded (acc_ID (latest r))] @ give_back rel a) (systemone_forward lib r s))"

section \<open>The chat completions handler\<close>

definition shouldUseAntigravityCompat :: "Account \<Rightarrow> bool" where
  "shouldUseAntigravityCompat a \<longleftrightarrow> acc_Platform a = PlatformAntigravity \<and> acc_Type a = AccountTypeOAuth"

text \<open>What both compatibility handlers do with the answer of the upstream.\<close>

definition compat_forward :: "account_lib \<Rightarrow> round \<Rightarrow> FailoverState \<Rightarrow> result" where
  "compat_forward lib r s =
     (case forward r of
        Served \<Rightarrow> (Return Answered, s, [Usage (acc_ID (latest r)) False])
      | FailsOver e \<Rightarrow>
          if written r then (Return (UpstreamFailed (Some e)), s, []) else upstream_failed lib r e s
      | _ \<Rightarrow> (Return ForwardBroke, s, if partial_result r then [Usage (acc_ID (latest r)) False] else []))"

definition cc_round :: "account_lib \<Rightarrow> loop_config \<Rightarrow> round \<Rightarrow> FailoverState \<Rightarrow> result" where
  "cc_round lib cfg r s =
     (if client_gone r then (Return Gone, s, [])
      else case picked r of
        None \<Rightarrow> selection_failed r s
      | Some sel \<Rightarrow>
          let a = acc_ID (sel_Account sel) in
          case account_slot r sel of
            Inl rep \<Rightarrow> (Return rep, s, [])
          | Inr rel \<Rightarrow>
              if vetoed r then and_then (hold rel a @ give_back rel a) (profit_veto a s)
              else if groupPlatform cfg = PlatformGemini \<and> acc_Platform (latest r) \<noteq> PlatformGemini then
                (Again, s\<lparr>FailedAccountIDs := insert (acc_ID (latest r)) (FailedAccountIDs s)\<rparr>,
                 hold rel a @ give_back rel a @ [Skipped (acc_ID (latest r))])
              else if acc_Platform (latest r) = PlatformGemini \<and> \<not> gemini_configured cfg then
                (Return Unconfigured, s, hold rel a @ give_back rel a)
              else if acc_Platform (latest r) \<noteq> PlatformGemini \<and> shouldUseAntigravityCompat (latest r)
                     \<and> \<not> antigravity_configured cfg then
                (Return Unconfigured, s, hold rel a @ give_back rel a)
              else and_then (hold rel a @ [Forwarded (acc_ID (latest r))] @ give_back rel a) (compat_forward lib r s))"

section \<open>The responses handler\<close>

definition responses_round :: "account_lib \<Rightarrow> loop_config \<Rightarrow> round \<Rightarrow> FailoverState \<Rightarrow> result" where
  "responses_round lib cfg r s =
     (if client_gone r then (Return Gone, s, [])
      else case picked r of
        None \<Rightarrow> selection_failed r s
      | Some sel \<Rightarrow>
          let a = acc_ID (sel_Account sel) in
          case account_slot r sel of
            Inl rep \<Rightarrow> (Return rep, s, [])
          | Inr rel \<Rightarrow>
              if vetoed r then and_then (hold rel a @ give_back rel a) (profit_veto a s)
              else if shouldUseAntigravityCompat (latest r) \<and> \<not> antigravity_configured cfg then
                (Return Unconfigured, s, hold rel a @ give_back rel a)
              else and_then (hold rel a @ [Forwarded (acc_ID (latest r))] @ give_back rel a) (compat_forward lib r s))"

section \<open>The messages handler for a Gemini group\<close>

text \<open>A request the gateway answers itself (warm-up and suggestion requests) gives the slot back at once.\<close>

definition intercept_release :: "selection \<Rightarrow> effect list" where
  "intercept_release sel =
     (let a = acc_ID (sel_Account sel); rel = sel_Acquired sel \<and> releasable sel in hold rel a @ give_back rel a)"

definition gemini_forward :: "account_lib \<Rightarrow> round \<Rightarrow> FailoverState \<Rightarrow> result" where
  "gemini_forward lib r s =
     (case forward r of
        Served \<Rightarrow> (Return Answered, s, [Usage (acc_ID (latest r)) (ForceCacheBilling s)])
      | FailsOver e \<Rightarrow>
          if written r then (Return (UpstreamFailed (Some e)), s, []) else upstream_failed lib r e s
      | _ \<Rightarrow> (Return ForwardBroke, s, []))"

definition gemini_round :: "account_lib \<Rightarrow> round \<Rightarrow> FailoverState \<Rightarrow> result" where
  "gemini_round lib r s =
     (case picked r of
        None \<Rightarrow> selection_failed r s
      | Some sel \<Rightarrow>
          let a = acc_ID (sel_Account sel) in
          if intercepts r then (Return Intercepted, s, intercept_release sel)
          else case waited_slot r sel of
            (Inl rep, es) \<Rightarrow> (Return rep, s, es)
          | (Inr rel, es) \<Rightarrow>
              if vetoed r then and_then (es @ hold rel a @ give_back rel a) (profit_veto a s)
              else and_then (es @ hold rel a @ [Forwarded (acc_ID (latest r))] @ give_back rel a) (gemini_forward lib r s))"

section \<open>The Gemini API handler\<close>

text \<open>
  \<open>binding\<close> is the account that holds the cached content the request names: then no other account may answer,
  \<open>MaxSwitches\<close> is 0, and every failure ends the request.
\<close>

definition v1beta_forward :: "account_lib \<Rightarrow> round \<Rightarrow> FailoverState \<Rightarrow> result" where
  "v1beta_forward lib r s =
     (case forward r of
        Served \<Rightarrow> (Return Answered, s, [Usage (acc_ID (latest r)) (ForceCacheBilling s)])
      | FailsOver e \<Rightarrow> upstream_failed lib r e s
      | _ \<Rightarrow> (Return ForwardBroke, s, []))"

definition unbound_selection :: "int option \<Rightarrow> round \<Rightarrow> selection option \<times> effect list" where
  "unbound_selection binding r =
     (case (picked r, binding) of
        (Some sel, Some b) \<Rightarrow>
          if acc_ID (sel_Account sel) \<noteq> b then (None, intercept_release sel) else (Some sel, [])
      | (p, _) \<Rightarrow> (p, []))"

definition v1beta_selection_failed :: "int option \<Rightarrow> round \<Rightarrow> FailoverState \<Rightarrow> result" where
  "v1beta_selection_failed binding r s =
     (if gone_selecting r then (Return Gone, s, [])
      else if binding \<noteq> None then
        (Return (case LastFailoverErr s of Some e \<Rightarrow> UpstreamFailed (Some e) | None \<Rightarrow> CacheUnavailable), s, [])
      else selection_failed r s)"

definition v1beta_round :: "account_lib \<Rightarrow> int option \<Rightarrow> round \<Rightarrow> FailoverState \<Rightarrow> result" where
  "v1beta_round lib binding r s =
     (case unbound_selection binding r of
        (None, es) \<Rightarrow> and_then es (v1beta_selection_failed binding r s)
      | (Some sel, _) \<Rightarrow>
          let a = acc_ID (sel_Account sel) in
          case waited_slot r sel of
            (Inl rep, es) \<Rightarrow> (Return rep, s, es)
          | (Inr rel, es) \<Rightarrow>
              if vetoed r then
                (if binding \<noteq> None then (Return CacheUnavailable, s, es @ hold rel a @ give_back rel a)
                 else and_then (es @ hold rel a @ give_back rel a) (profit_veto a s))
              else and_then (es @ hold rel a @ [Forwarded (acc_ID (latest r))] @ give_back rel a) (v1beta_forward lib r s))"

section \<open>The messages handler\<close>

text \<open>
  Beside the failover state the handler keeps the accounts at which this request registered its session, whether an
  upstream has served it, and whether it has moved to the fallback group. Iterating over the map of accounts releases
  them in some order; here it is the order of registration.
\<close>

record MessagesState =
  msg_fs :: FailoverState
  sessionSlotAccounts :: "int list"
  upstreamServedSession :: bool
  fallbackUsed :: bool

record messages_config =
  msg_maxAccountSwitches :: int
  msg_boundSession :: bool
  fallbackGroupID :: "int option"

type_synonym messages_result = "outcome \<times> MessagesState \<times> effect list"

definition NewMessagesState :: "messages_config \<Rightarrow> MessagesState" where
  "NewMessagesState cfg =
     \<lparr>msg_fs = NewFailoverState (msg_maxAccountSwitches cfg) (msg_boundSession cfg), sessionSlotAccounts = [],
      upstreamServedSession = False, fallbackUsed = False\<rparr>"

definition with_fs :: "MessagesState \<Rightarrow> result \<Rightarrow> messages_result" where
  "with_fs m p = (case p of (oc, s, es) \<Rightarrow> (oc, m\<lparr>msg_fs := s\<rparr>, es))"

text \<open>The account's session registration is released before the next round.\<close>

definition drop_session :: "int \<Rightarrow> messages_result \<Rightarrow> messages_result" where
  "drop_session a p =
     (case p of
        (Again, m, es) \<Rightarrow> (Again, m\<lparr>sessionSlotAccounts := removeAll a (sessionSlotAccounts m)\<rparr>, es @ [SessionReleased a])
      | _ \<Rightarrow> p)"

text \<open>A prompt that is too long for the group's upstream moves the request once to the fallback group.\<close>

definition prompt_too_long :: "messages_config \<Rightarrow> round \<Rightarrow> MessagesState \<Rightarrow> messages_result" where
  "prompt_too_long cfg r m =
     (if \<not> fallbackUsed m \<and> (case fallbackGroupID cfg of Some g \<Rightarrow> g > 0 | None \<Rightarrow> False) then
        (case fallback r of
           FallbackUnresolved \<Rightarrow> (Return PromptRefused, m, [])
         | FallbackInvalid \<Rightarrow> (Return PromptRefused, m, [])
         | FallbackIneligible \<Rightarrow> (Return BillingRefused, m, [])
         | FallbackReady \<Rightarrow>
             (Again,
              \<lparr>msg_fs = NewFailoverState (msg_maxAccountSwitches cfg) (msg_boundSession cfg), sessionSlotAccounts = [],
               upstreamServedSession = upstreamServedSession m, fallbackUsed = True\<rparr>,
              map SessionReleased (sessionSlotAccounts m)))
      else (Return PromptRefused, m, []))"

definition messages_forward :: "account_lib \<Rightarrow> messages_config \<Rightarrow> round \<Rightarrow> MessagesState \<Rightarrow> messages_result" where
  "messages_forward lib cfg r m =
     (let a = acc_ID (latest r); usage = Usage a (ForceCacheBilling (msg_fs m)) in
      case forward r of
        Served \<Rightarrow> (Return Answered, m\<lparr>upstreamServedSession := True\<rparr>, [usage])
      | BetaBlocked \<Rightarrow> (Return BetaRefused, m, [])
      | PromptTooLong \<Rightarrow> prompt_too_long cfg r m
      | FailsOver e \<Rightarrow>
          if written r then (Return (UpstreamFailed (Some e)), m, [])
          else drop_session a (with_fs m (upstream_failed lib r e (msg_fs m)))
      | _ \<Rightarrow>
          if partial_result r then (Return ForwardBroke, m\<lparr>upstreamServedSession := True\<rparr>, [usage])
          else (Return ForwardBroke, m, []))"

text \<open>
  \<open>wrapReleaseOnDone\<close> gives the slot back when the request's context ends, unless the request owns an API key
  admission: then only an explicit call does. A request whose body cannot be rewritten leaves the handler without an
  explicit call: the slot of one that owns no admission is given back right after, when the handler's context ends, and
  the model writes this as the last effect of that round.
\<close>

definition messages_body :: "account_lib \<Rightarrow> messages_config \<Rightarrow> round \<Rightarrow> MessagesState \<Rightarrow> messages_result" where
  "messages_body lib cfg r m =
     (if \<not> body_cloned r then (Return BadBody, m, [])
      else case picked r of
        None \<Rightarrow> with_fs m (selection_failed r (msg_fs m))
      | Some sel \<Rightarrow>
          let a = acc_ID (sel_Account sel) in
          if intercepts r then (Return Intercepted, m, intercept_release sel)
          else case waited_slot r sel of
            (Inl rep, es) \<Rightarrow> (Return rep, m, es)
          | (Inr rel, es) \<Rightarrow>
              if vetoed r then
                drop_session a (and_then (es @ hold rel a @ give_back rel a) (with_fs m (profit_veto a (msg_fs m))))
              else
                let m1 = m\<lparr>sessionSlotAccounts := List.insert (acc_ID (latest r)) (sessionSlotAccounts m)\<rparr> in
                if \<not> body_rewritten r then
                  (Return BadBody, m1, es @ hold rel a @ (if admission_owner r then [] else give_back rel a))
                else and_then (es @ hold rel a @ [Forwarded (acc_ID (latest r))] @ give_back rel a)
                       (messages_forward lib cfg r m1))"

text \<open>The deferred release of sessions that no upstream has served.\<close>

definition messages_round :: "account_lib \<Rightarrow> messages_config \<Rightarrow> round \<Rightarrow> MessagesState \<Rightarrow> messages_result" where
  "messages_round lib cfg r m =
     (case messages_body lib cfg r m of
        (Return rep, m', es) \<Rightarrow>
          (Return rep, m', es @ (if upstreamServedSession m' then [] else map SessionReleased (sessionSlotAccounts m')))
      | (Again, m', es) \<Rightarrow> (Again, m', es))"

section \<open>The loop\<close>

text \<open>
  What a round meets may depend on how many rounds there were and on the excluded accounts it is asked to avoid.
  \<open>None\<close> means that the rounds allowed were not enough.
\<close>

fun failover_loop ::
  "(round \<Rightarrow> 's \<Rightarrow> outcome \<times> 's \<times> effect list) \<Rightarrow> ('s \<Rightarrow> int set) \<Rightarrow> (nat \<Rightarrow> int set \<Rightarrow> round) \<Rightarrow> nat \<Rightarrow> nat \<Rightarrow> 's
   \<Rightarrow> (reply \<times> 's \<times> effect list) option" where
  "failover_loop body excluded env 0 k s = None"
| "failover_loop body excluded env (Suc n) k s =
     (case body (env k (excluded s)) s of
        (Return rep, s', es) \<Rightarrow> Some (rep, s', es)
      | (Again, s', es) \<Rightarrow> map_option (\<lambda>(rep, t, fs). (rep, t, es @ fs)) (failover_loop body excluded env n (Suc k) s'))"

end
