(* ===== verification/Select.thy ===== *)
theory Select
  imports FailoverLoop "HOL-Library.Product_Lexorder" "HOL-Library.Option_ord" "HOL-Library.Multiset"
begin

text \<open>
  \<^verbatim>\<open>backend/internal/service/gateway_scheduling.go\<close>: \<open>SelectAccountWithLoadAwareness\<close>, the choice of the account
  that serves a request, with load batching enabled. Its four layers are the model's definitions: routed accounts,
  the sticky account, the least loaded account, and the queue of last resort. The accounts of the group, the answers of
  the gates that read caches, of the slot and session services and of the account cache, and the random choices are
  inputs. Slot and session answers depend on how much has happened before, so that two attempts may be answered
  differently. Sticky bindings and log lines are left out; the older selection without load batching is not modelled.
\<close>

section \<open>Inputs\<close>

datatype session_answer = SessionAllowed | SessionDenied | SessionCacheFails

datatype select_error = NoAvailable | RestrictedByChannel | HydrationFailed

record sel_env =
  se_lib :: account_lib
  se_ToLower :: "string \<Rightarrow> string"
  se_now :: gotime
  se_platform :: string
  useMixed :: bool
  accounts :: "Account list"
  excludedIDs :: "int set"
  routingAccountIDs :: "int list"
  stickyAccountID :: int
  sessionHash :: string
  profit_eligible :: "Account \<Rightarrow> bool"
  model_supported :: "Account \<Rightarrow> bool"
  channel_restricted :: "Account \<Rightarrow> bool"
  quality_blocked :: "Account \<Rightarrow> bool"
  model_limited :: "Account \<Rightarrow> bool"
  credits_left :: "Account \<Rightarrow> bool"
  limit_remaining :: "Account \<Rightarrow> duration"
  window_cost :: "Account \<Rightarrow> rat option"
  rpm_count :: "Account \<Rightarrow> int option"
  waiting_count :: "int \<Rightarrow> int"
  StickySessionMaxWaiting :: int
  PreferSoonestReset :: bool
  FallbackSelectionMode :: string
  routing_loads :: "int \<rightharpoonup> int"
  load_batch :: "(int \<rightharpoonup> int) option"
  session_cache :: bool
  try_slot :: "nat \<Rightarrow> int \<Rightarrow> bool"
  register_session :: "nat \<Rightarrow> int \<Rightarrow> session_answer"
  hydrate :: "Account \<Rightarrow> Account option"
  shuffle :: "Account list \<Rightarrow> Account list"
  pick_index :: "nat \<Rightarrow> nat"

type_synonym trace = "effect list"

section \<open>The gates\<close>

definition isAccountAllowedForPlatform :: "sel_env \<Rightarrow> Account \<Rightarrow> bool" where
  "isAccountAllowedForPlatform env a =
     (if useMixed env then
        (if acc_Platform a = se_platform env then True
         else acc_Platform a = PlatformAntigravity \<and> IsMixedSchedulingEnabled a)
      else acc_Platform a = se_platform env)"

definition isAccountSchedulableForSelection :: "sel_env \<Rightarrow> Account \<Rightarrow> bool" where
  "isAccountSchedulableForSelection env a = IsSchedulable (se_ToLower env) (se_lib env) (se_now env) a"

definition IsSchedulableForModelWithContext :: "sel_env \<Rightarrow> Account \<Rightarrow> bool" where
  "IsSchedulableForModelWithContext env a =
     (if \<not> isAccountSchedulableForSelection env a then False
      else if quality_blocked env a then False
      else if model_limited env a then
        acc_Platform a = PlatformAntigravity \<and> extra_true a ''allow_overages'' \<and> credits_left env a
      else True)"

definition isAccountSchedulableForQuota :: "sel_env \<Rightarrow> Account \<Rightarrow> bool" where
  "isAccountSchedulableForQuota env a =
     (if \<not> SupportsAccountQuota (se_ToLower env) a then True
      else \<not> IsQuotaExceeded (se_lib env) (se_now env) a)"

definition within_window :: "WindowCostSchedulability \<Rightarrow> bool \<Rightarrow> bool" where
  "within_window w isSticky =
     (case w of WindowCostSchedulable \<Rightarrow> True | WindowCostStickyOnly \<Rightarrow> isSticky | WindowCostNotSchedulable \<Rightarrow> False)"

definition isAccountSchedulableForWindowCost :: "sel_env \<Rightarrow> bool \<Rightarrow> Account \<Rightarrow> bool" where
  "isAccountSchedulableForWindowCost env isSticky a =
     (if \<not> IsAnthropicOAuthOrSetupToken a then True
      else if getExtraFloat64 (se_lib env) a ''window_cost_limit'' \<le> 0 then True
      else case window_cost env a of
        None \<Rightarrow> True
      | Some cost \<Rightarrow> within_window (CheckWindowCostSchedulability (se_lib env) a cost) isSticky)"

definition isAccountSchedulableForRPM :: "sel_env \<Rightarrow> bool \<Rightarrow> Account \<Rightarrow> bool" where
  "isAccountSchedulableForRPM env isSticky a =
     (if \<not> IsAnthropicOAuthOrSetupToken a then True
      else case rpm_count env a of
        None \<Rightarrow> True
      | Some current \<Rightarrow> within_window (CheckRPMSchedulability (se_lib env) a current) isSticky)"

definition unrestricted :: "sel_env \<Rightarrow> Account \<Rightarrow> bool" where
  "unrestricted env a \<longleftrightarrow>
     isAccountSchedulableForSelection env a \<and> profit_eligible env a \<and> isAccountAllowedForPlatform env a \<and>
     model_supported env a"

definition eligible :: "sel_env \<Rightarrow> bool \<Rightarrow> Account \<Rightarrow> bool" where
  "eligible env isSticky a \<longleftrightarrow>
     unrestricted env a \<and> \<not> channel_restricted env a \<and> IsSchedulableForModelWithContext env a \<and>
     isAccountSchedulableForQuota env a \<and> isAccountSchedulableForWindowCost env isSticky a \<and>
     isAccountSchedulableForRPM env isSticky a"

definition shouldClearStickySession :: "sel_env \<Rightarrow> Account \<Rightarrow> bool" where
  "shouldClearStickySession env a \<longleftrightarrow> \<not> isAccountSchedulableForSelection env a \<or> limit_remaining env a > 0"

section \<open>Slots, sessions and results\<close>

definition tryAcquireAccountSlot :: "sel_env \<Rightarrow> Account \<Rightarrow> trace \<Rightarrow> bool \<times> trace" where
  "tryAcquireAccountSlot env a tr =
     (if try_slot env (length tr) (acc_ID a) then (True, tr @ [Held (acc_ID a)]) else (False, tr))"

definition checkAndRegisterSession :: "sel_env \<Rightarrow> Account \<Rightarrow> trace \<Rightarrow> bool \<times> trace" where
  "checkAndRegisterSession env a tr =
     (if \<not> IsAnthropicOAuthOrSetupToken a then (True, tr)
      else if GetMaxSessions (se_lib env) a \<le> 0 \<or> sessionHash env = '''' then (True, tr)
      else if \<not> session_cache env then (True, tr)
      else case register_session env (length tr) (acc_ID a) of
        SessionAllowed \<Rightarrow> (True, tr @ [SessionRegistered (acc_ID a)])
      | SessionDenied \<Rightarrow> (False, tr)
      | SessionCacheFails \<Rightarrow> (True, tr))"

definition newSelectionResult :: "sel_env \<Rightarrow> Account \<Rightarrow> bool \<Rightarrow> select_error + selection" where
  "newSelectionResult env a acquired =
     (case hydrate env a of
        None \<Rightarrow> Inl HydrationFailed
      | Some h \<Rightarrow> Inr \<lparr>sel_Account = h, sel_Acquired = acquired, releasable = acquired, has_WaitPlan = \<not> acquired\<rparr>)"

type_synonym layer = "(select_error + selection) option \<times> trace"

text \<open>Take a slot and register the session; a slot whose session is denied is given back.\<close>

definition acquire :: "sel_env \<Rightarrow> Account \<Rightarrow> trace \<Rightarrow> layer" where
  "acquire env a tr =
     (case tryAcquireAccountSlot env a tr of
        (False, tr1) \<Rightarrow> (None, tr1)
      | (True, tr1) \<Rightarrow>
          case checkAndRegisterSession env a tr1 of
            (False, tr2) \<Rightarrow> (None, tr2 @ [Released (acc_ID a)])
          | (True, tr2) \<Rightarrow> (Some (newSelectionResult env a True), tr2))"

definition enqueue :: "sel_env \<Rightarrow> Account \<Rightarrow> trace \<Rightarrow> layer" where
  "enqueue env a tr =
     (case checkAndRegisterSession env a tr of
        (False, tr1) \<Rightarrow> (None, tr1)
      | (True, tr1) \<Rightarrow> (Some (newSelectionResult env a False), tr1))"

fun first_of :: "(Account \<Rightarrow> trace \<Rightarrow> layer) \<Rightarrow> Account list \<Rightarrow> trace \<Rightarrow> layer" where
  "first_of f [] tr = (None, tr)"
| "first_of f (a # as) tr =
     (case f a tr of (Some r, tr1) \<Rightarrow> (Some r, tr1) | (None, tr1) \<Rightarrow> first_of f as tr1)"

text \<open>Go's fall through to the next layer.\<close>

definition or_else :: "layer \<Rightarrow> (trace \<Rightarrow> layer) \<Rightarrow> layer" where
  "or_else p g = (case p of (Some r, tr) \<Rightarrow> (Some r, tr) | (None, tr) \<Rightarrow> g tr)"

definition account_by_id :: "sel_env \<Rightarrow> int \<Rightarrow> Account option" where
  "account_by_id env i = find (\<lambda>a. acc_ID a = i) (rev (accounts env))"

section \<open>Orders\<close>

definition load_of :: "(int \<rightharpoonup> int) \<Rightarrow> Account \<Rightarrow> int" where
  "load_of loads a = (case loads (acc_ID a) of None \<Rightarrow> 0 | Some r \<Rightarrow> r)"

definition with_room :: "(int \<rightharpoonup> int) \<Rightarrow> Account list \<Rightarrow> Account list" where
  "with_room loads as = filter (\<lambda>a. load_of loads a < 100) as"

definition preference_rate :: "(int \<rightharpoonup> int) \<Rightarrow> Account \<Rightarrow> int" where
  "preference_rate loads a = accountLoadPreferenceRate a (load_of loads a)"

text \<open>
  \<open>sort.SliceStable\<close> with a comparison by keys is a stable sort by the tuple of keys; an account that was never
  used comes before every other.
\<close>

definition routed_key :: "(int \<rightharpoonup> int) \<Rightarrow> Account \<Rightarrow> int \<times> int \<times> gotime option" where
  "routed_key loads a = (Priority a, preference_rate loads a, LastUsedAt a)"

definition oauth_rank :: "bool \<Rightarrow> Account \<Rightarrow> int" where
  "oauth_rank preferOAuth a = (if preferOAuth \<and> acc_Type a \<noteq> AccountTypeOAuth then 1 else 0)"

definition last_used_key :: "bool \<Rightarrow> Account \<Rightarrow> int \<times> gotime option \<times> int" where
  "last_used_key preferOAuth a =
     (Priority a, LastUsedAt a, if LastUsedAt a = None then oauth_rank preferOAuth a else 0)"

definition priority_key :: "bool \<Rightarrow> Account \<Rightarrow> int \<times> int" where
  "priority_key preferOAuth a = (Priority a, oauth_rank preferOAuth a)"

text \<open>Runs of neighbours that agree with their first member are shuffled.\<close>

function group_runs :: "('a \<Rightarrow> 'a \<Rightarrow> bool) \<Rightarrow> 'a list \<Rightarrow> 'a list list" where
  "group_runs same [] = []"
| "group_runs same (x # xs) = (x # takeWhile (same x) xs) # group_runs same (dropWhile (same x) xs)"
  by pat_completeness auto

termination
  by (relation "measure (\<lambda>(_, xs). length xs)") (auto simp: le_imp_less_Suc length_dropWhile_le)

definition sameLastUsedAt :: "gotime option \<Rightarrow> gotime option \<Rightarrow> bool" where
  "sameLastUsedAt s t =
     (case (s, t) of
        (None, None) \<Rightarrow> True
      | (Some x, Some y) \<Rightarrow> x div Second = y div Second
      | _ \<Rightarrow> False)"

definition sameAccountGroup :: "Account \<Rightarrow> Account \<Rightarrow> bool" where
  "sameAccountGroup a b \<longleftrightarrow> Priority a = Priority b \<and> sameLastUsedAt (LastUsedAt a) (LastUsedAt b)"

definition sameAccountWithLoadGroup :: "(int \<rightharpoonup> int) \<Rightarrow> Account \<Rightarrow> Account \<Rightarrow> bool" where
  "sameAccountWithLoadGroup loads a b \<longleftrightarrow>
     Priority a = Priority b \<and> preference_rate loads a = preference_rate loads b \<and>
     sameLastUsedAt (LastUsedAt a) (LastUsedAt b)"

definition shuffle_run :: "sel_env \<Rightarrow> Account list \<Rightarrow> Account list" where
  "shuffle_run env as = (if length as > 1 then shuffle env as else as)"

definition shuffleWithinSortGroups :: "sel_env \<Rightarrow> (int \<rightharpoonup> int) \<Rightarrow> Account list \<Rightarrow> Account list" where
  "shuffleWithinSortGroups env loads as = concat (map (shuffle_run env) (group_runs (sameAccountWithLoadGroup loads) as))"

definition shuffleWithinPriorityAndLastUsed :: "sel_env \<Rightarrow> bool \<Rightarrow> Account list \<Rightarrow> Account list" where
  "shuffleWithinPriorityAndLastUsed env preferOAuth as =
     concat (map (\<lambda>g.
        if length g > 1 \<and> preferOAuth then
          shuffle_run env (filter (\<lambda>a. acc_Type a = AccountTypeOAuth) g) @
          shuffle_run env (filter (\<lambda>a. acc_Type a \<noteq> AccountTypeOAuth) g)
        else shuffle_run env g) (group_runs sameAccountGroup as))"

definition shuffleWithinPriority :: "sel_env \<Rightarrow> Account list \<Rightarrow> Account list" where
  "shuffleWithinPriority env as = concat (map (shuffle_run env) (group_runs (\<lambda>a b. Priority a = Priority b) as))"

definition sortAccountsByPriorityAndLastUsed :: "sel_env \<Rightarrow> bool \<Rightarrow> Account list \<Rightarrow> Account list" where
  "sortAccountsByPriorityAndLastUsed env preferOAuth as =
     shuffleWithinPriorityAndLastUsed env preferOAuth (sort_key (last_used_key preferOAuth) as)"

definition sortCandidatesForFallback :: "sel_env \<Rightarrow> bool \<Rightarrow> Account list \<Rightarrow> Account list" where
  "sortCandidatesForFallback env preferOAuth as =
     (if FallbackSelectionMode env = ''random'' then shuffleWithinPriority env (sort_key (priority_key preferOAuth) as)
      else sortAccountsByPriorityAndLastUsed env preferOAuth as)"

section \<open>The least loaded account\<close>

definition least :: "('a \<Rightarrow> int) \<Rightarrow> 'a list \<Rightarrow> int" where
  "least f as = fold (\<lambda>a m. if f a < m then f a else m) (tl as) (f (hd as))"

definition filterByMinPriority :: "Account list \<Rightarrow> Account list" where
  "filterByMinPriority as = (if as = [] then as else filter (\<lambda>a. Priority a = least Priority as) as)"

definition filterByMinLoadRate :: "(int \<rightharpoonup> int) \<Rightarrow> Account list \<Rightarrow> Account list" where
  "filterByMinLoadRate loads as =
     (if as = [] then as else filter (\<lambda>a. preference_rate loads a = least (preference_rate loads) as) as)"

definition soonest_end :: "gotime \<Rightarrow> Account list \<Rightarrow> gotime option" where
  "soonest_end now as =
     fold (\<lambda>a m. case SessionWindowEnd a of
        None \<Rightarrow> m
      | Some t \<Rightarrow> if \<not> Before now t then m else (case m of None \<Rightarrow> Some t | Some u \<Rightarrow> if Before t u then Some t else m)) as None"

definition filterBySoonestReset :: "gotime \<Rightarrow> Account list \<Rightarrow> Account list" where
  "filterBySoonestReset now as =
     (if length as \<le> 1 then as
      else case soonest_end now as of
        None \<Rightarrow> as
      | Some m \<Rightarrow> filter (\<lambda>a. pending now (SessionWindowEnd a) \<and> SessionWindowEnd a = Some m) as)"

definition least_recent :: "Account list \<Rightarrow> Account list" where
  "least_recent as =
     (if list_ex (\<lambda>a. LastUsedAt a = None) as then filter (\<lambda>a. LastUsedAt a = None) as
      else filter (\<lambda>a. LastUsedAt a = Some (least (\<lambda>b. the (LastUsedAt b)) as)) as)"

text \<open>\<open>rand.Intn(n)\<close> is below \<open>n\<close>; the remainder makes any function a source of such numbers.\<close>

definition pick_one :: "sel_env \<Rightarrow> Account list \<Rightarrow> Account" where
  "pick_one env as = as ! (pick_index env (length as) mod length as)"

definition oauth_first :: "bool \<Rightarrow> Account list \<Rightarrow> Account list" where
  "oauth_first preferOAuth as =
     (let os = filter (\<lambda>a. acc_Type a = AccountTypeOAuth) as in if preferOAuth \<and> os \<noteq> [] then os else as)"

definition selectByLRU :: "sel_env \<Rightarrow> bool \<Rightarrow> Account list \<Rightarrow> Account option" where
  "selectByLRU env preferOAuth as =
     (if as = [] then None
      else if length as = 1 then Some (hd as)
      else let cs = least_recent as in
        if length cs = 1 then Some (hd cs) else Some (pick_one env (oauth_first preferOAuth cs)))"

definition best_candidates :: "sel_env \<Rightarrow> (int \<rightharpoonup> int) \<Rightarrow> Account list \<Rightarrow> Account list" where
  "best_candidates env loads as =
     (let c1 = filterByMinPriority as;
          c2 = (if PreferSoonestReset env then filterBySoonestReset (se_now env) c1 else c1)
      in filterByMinLoadRate loads c2)"

lemma filters_nonempty_subset:
  "set (filterByMinPriority as) \<subseteq> set as" "set (filterByMinLoadRate loads as) \<subseteq> set as"
  "set (filterBySoonestReset now as) \<subseteq> set as" "set (least_recent as) \<subseteq> set as"
  by (auto simp: filterByMinPriority_def filterByMinLoadRate_def filterBySoonestReset_def least_recent_def
      split: if_splits option.splits)

lemma least_Min:
  assumes "as \<noteq> []"
  shows "least f as = Min (f ` set as)"
proof -
  have "fold (\<lambda>a m. if f a < m then f a else m) xs m = Min (insert m (f ` set xs))" for xs m
  proof (induction xs arbitrary: m)
    case (Cons x xs)
    have "(if f x < m then f x else m) = min m (f x)" by (simp add: min_def)
    moreover have "Min (insert m (insert (f x) (f ` set xs))) = Min (insert (min m (f x)) (f ` set xs))"
      by (cases "xs = []") (simp_all add: min.assoc)
    ultimately show ?case using Cons [of "min m (f x)"] by simp
  qed simp
  then show ?thesis using assms by (cases as) (simp_all add: least_def)
qed

lemma least_in: "as \<noteq> [] \<Longrightarrow> \<exists>a\<in>set as. f a = least f as"
  using Min_in [of "f ` set as"] by (auto simp: least_Min image_iff)

lemma least_le: "a \<in> set as \<Longrightarrow> least f as \<le> f a"
  by (cases "as = []") (auto simp: least_Min)

lemma filters_subset:
  "set (filterByMinPriority as) \<subseteq> set as" "set (filterByMinLoadRate loads as) \<subseteq> set as"
  "set (filterBySoonestReset now as) \<subseteq> set as" "set (least_recent as) \<subseteq> set as" "set (oauth_first p as) \<subseteq> set as"
  by (auto simp: filterByMinPriority_def filterByMinLoadRate_def filterBySoonestReset_def least_recent_def
      oauth_first_def Let_def split: if_splits option.splits)

lemma best_candidates_subset: "set (best_candidates env loads as) \<subseteq> set as"
proof -
  let ?c1 = "filterByMinPriority as"
  have "set (if PreferSoonestReset env then filterBySoonestReset (se_now env) ?c1 else ?c1) \<subseteq> set as"
    using filters_subset(1) [of as] filters_subset(3) [of "se_now env" ?c1] by auto
  then show ?thesis
    unfolding best_candidates_def Let_def by (rule subset_trans [OF filters_subset(2)])
qed

lemma least_recent_nonempty:
  assumes "as \<noteq> []"
  shows "least_recent as \<noteq> []"
proof (cases "list_ex (\<lambda>a. LastUsedAt a = None) as")
  case True
  then show ?thesis by (auto simp: least_recent_def filter_empty_conv list_ex_iff)
next
  case False
  obtain a where a: "a \<in> set as" "the (LastUsedAt a) = least (\<lambda>b. the (LastUsedAt b)) as"
    using least_in [OF assms, of "\<lambda>b. the (LastUsedAt b)"] by blast
  have "LastUsedAt a \<noteq> None" using False a(1) by (auto simp: list_ex_iff)
  then have "LastUsedAt a = Some (least (\<lambda>b. the (LastUsedAt b)) as)" using a(2) by auto
  then show ?thesis using False a(1) by (auto simp: least_recent_def filter_empty_conv)
qed

lemma pick_one_in: "as \<noteq> [] \<Longrightarrow> pick_one env as \<in> set as"
  unfolding pick_one_def by (rule nth_mem) simp

lemma oauth_first_nonempty: "as \<noteq> [] \<Longrightarrow> oauth_first p as \<noteq> []"
  by (auto simp: oauth_first_def Let_def)

lemma selectByLRU_recent:
  assumes "selectByLRU env p as = Some a"
  shows "a \<in> set (least_recent as)"
proof -
  have ne: "as \<noteq> []" using assms by (auto simp: selectByLRU_def)
  note cs = least_recent_nonempty [OF ne]
  show ?thesis
  proof (cases "length as = 1")
    case True
    then obtain b where "as = [b]" by (cases as) auto
    moreover have "a = b" using assms \<open>as = [b]\<close> by (simp add: selectByLRU_def)
    ultimately show ?thesis using cs filters_subset(4) [of as] by (cases "least_recent as") auto
  next
    case False
    have "pick_one env (oauth_first p (least_recent as)) \<in> set (least_recent as)"
      using pick_one_in [OF oauth_first_nonempty [OF cs]] filters_subset(5) by blast
    then show ?thesis using assms ne False cs by (auto simp: selectByLRU_def Let_def split: if_splits)
  qed
qed

lemma selectByLRU_in: "selectByLRU env p as = Some a \<Longrightarrow> a \<in> set as"
  using selectByLRU_recent filters_subset(4) by blast

section \<open>The layers\<close>

definition routing_candidates :: "sel_env \<Rightarrow> Account list" where
  "routing_candidates env =
     List.map_filter (\<lambda>i.
        if i \<in> excludedIDs env then None
        else case account_by_id env i of
          None \<Rightarrow> None
        | Some a \<Rightarrow> if eligible env False a then Some a else None) (routingAccountIDs env)"

definition may_wait :: "sel_env \<Rightarrow> Account \<Rightarrow> trace \<Rightarrow> layer" where
  "may_wait env a tr =
     (if waiting_count env (acc_ID a) < StickySessionMaxWaiting env then enqueue env a tr else (None, tr))"

text \<open>The sticky account among routed accounts: a denied session ends the attempt, a busy slot leads to the queue.\<close>

definition sticky_routed :: "sel_env \<Rightarrow> trace \<Rightarrow> layer" where
  "sticky_routed env tr =
     (if sessionHash env \<noteq> '''' \<and> stickyAccountID env > 0 \<and> stickyAccountID env \<in> set (routingAccountIDs env) \<and>
         stickyAccountID env \<notin> excludedIDs env
      then case account_by_id env (stickyAccountID env) of
          None \<Rightarrow> (None, tr)
        | Some a \<Rightarrow>
            if \<not> eligible env True a then (None, tr)
            else case tryAcquireAccountSlot env a tr of
              (True, tr1) \<Rightarrow>
                (case checkAndRegisterSession env a tr1 of
                   (False, tr2) \<Rightarrow> (None, tr2 @ [Released (acc_ID a)])
                 | (True, tr2) \<Rightarrow> (Some (newSelectionResult env a True), tr2))
            | (False, tr1) \<Rightarrow> may_wait env a tr1
      else (None, tr))"

definition routed_layer :: "sel_env \<Rightarrow> trace \<Rightarrow> layer" where
  "routed_layer env tr =
     (if routingAccountIDs env = [] \<or> routing_candidates env = [] then (None, tr)
      else or_else (sticky_routed env tr) (\<lambda>tr1.
        let loads = routing_loads env;
            avail = shuffleWithinSortGroups env loads (sort_key (routed_key loads) (with_room loads (routing_candidates env)))
        in or_else (first_of (acquire env) avail tr1) (first_of (enqueue env) avail)))"

definition sticky_layer :: "sel_env \<Rightarrow> trace \<Rightarrow> layer" where
  "sticky_layer env tr =
     (if routingAccountIDs env = [] \<and> sessionHash env \<noteq> '''' \<and> stickyAccountID env > 0 \<and>
         stickyAccountID env \<notin> excludedIDs env
      then case account_by_id env (stickyAccountID env) of
          None \<Rightarrow> (None, tr)
        | Some a \<Rightarrow>
            if \<not> shouldClearStickySession env a \<and> eligible env True a
            then or_else (acquire env a tr) (may_wait env a)
            else (None, tr)
      else (None, tr))"

definition candidates :: "sel_env \<Rightarrow> Account list" where
  "candidates env = filter (\<lambda>a. acc_ID a \<notin> excludedIDs env \<and> eligible env False a) (accounts env)"

definition channelRestrictedCount :: "sel_env \<Rightarrow> nat" where
  "channelRestrictedCount env =
     length (filter (\<lambda>a. acc_ID a \<notin> excludedIDs env \<and> unrestricted env a \<and> channel_restricted env a) (accounts env))"

definition preferOAuth :: "sel_env \<Rightarrow> bool" where "preferOAuth env \<longleftrightarrow> se_platform env = PlatformGemini"

text \<open>One account after another, the best of those that are left, until one has a slot and accepts the session.\<close>

function load_loop :: "sel_env \<Rightarrow> (int \<rightharpoonup> int) \<Rightarrow> Account list \<Rightarrow> trace \<Rightarrow> layer" where
  "load_loop env loads avail tr =
     (case selectByLRU env (preferOAuth env) (best_candidates env loads avail) of
        None \<Rightarrow> (None, tr)
      | Some a \<Rightarrow>
          (case acquire env a tr of
             (Some r, tr1) \<Rightarrow> (Some r, tr1)
           | (None, tr1) \<Rightarrow> load_loop env loads (filter (\<lambda>b. acc_ID b \<noteq> acc_ID a) avail) tr1))"
  by pat_completeness auto

termination
proof (relation "measure (\<lambda>(_, _, avail, _). length avail)")
  fix env loads avail tr a p x tr1
  assume "selectByLRU env (preferOAuth env) (best_candidates env loads avail) = Some a"
  then have "a \<in> set avail" using selectByLRU_in best_candidates_subset by blast
  then show "((env, loads, filter (\<lambda>b. acc_ID b \<noteq> acc_ID a) avail, tr1), env, loads, avail, tr)
      \<in> measure (\<lambda>(_, _, avail, _). length avail)"
    using length_filter_less [of a avail "\<lambda>b. acc_ID b \<noteq> acc_ID a"] by simp
qed simp

declare load_loop.simps [simp del]

definition tryAcquireByLegacyOrder :: "sel_env \<Rightarrow> trace \<Rightarrow> layer" where
  "tryAcquireByLegacyOrder env tr =
     first_of (acquire env) (sortAccountsByPriorityAndLastUsed env (preferOAuth env) (candidates env)) tr"

definition load_layer :: "sel_env \<Rightarrow> trace \<Rightarrow> layer" where
  "load_layer env tr =
     (if candidates env = [] then
        (Some (Inl (if channelRestrictedCount env > 0 then RestrictedByChannel else NoAvailable)), tr)
      else case load_batch env of
        None \<Rightarrow> tryAcquireByLegacyOrder env tr
      | Some loads \<Rightarrow> load_loop env loads (with_room loads (candidates env)) tr)"

definition fallback_layer :: "sel_env \<Rightarrow> trace \<Rightarrow> layer" where
  "fallback_layer env tr = first_of (enqueue env) (sortCandidatesForFallback env (preferOAuth env) (candidates env)) tr"

text \<open>
  The selection from the point where the accounts of the group have been listed. What the code does before is not modelled:
  the restriction of the group to Claude Code clients, which may end the request or replace the group; the precheck of the
  channel's prices for the group, which may end it with no account; the choice of the platform and its errors; and the
  lookup of the account the session is bound to, which is the input \<open>stickyAccountID\<close>.
\<close>

definition SelectAccountWithLoadAwareness :: "sel_env \<Rightarrow> (select_error + selection) \<times> trace" where
  "SelectAccountWithLoadAwareness env =
     (if accounts env = [] then (Inl NoAvailable, [])
      else case or_else (routed_layer env []) (\<lambda>t1. or_else (sticky_layer env t1) (\<lambda>t2.
             or_else (load_layer env t2) (fallback_layer env))) of
        (Some r, tr) \<Rightarrow> (r, tr)
      | (None, tr) \<Rightarrow> (Inl NoAvailable, tr))"

end
