(* ===== verification/FailoverSafety.thy ===== *)
theory FailoverSafety
  imports FailoverLoop
begin

text \<open>
  What every request loop guarantees: it ends, with a bounded number of upstream requests; each slot it takes is
  given back before the next account is asked for; an account the profit gate refused is neither asked nor refused
  again. The contracts of a round are locales, each interpreted on the loops that keep it.
\<close>

section \<open>Contracts of a round\<close>

locale slot_rounds =
  fixes body :: "round \<Rightarrow> 's \<Rightarrow> outcome \<times> 's \<times> effect list"
    and careful :: "round \<Rightarrow> bool"
  assumes slots: "careful r \<Longrightarrow> body r s = (oc, s', es) \<Longrightarrow> slot_run None es = Some None"
begin

lemma loop_slots:
  assumes "\<And>k X. careful (env k X)" "failover_loop body excluded env n k s = Some (rep, s', es)"
  shows "slot_run None es = Some None"
  using assms(2)
proof (induction n arbitrary: k s es)
  case (Suc n)
  obtain oc t fs where b: "body (env k (excluded s)) s = (oc, t, fs)" by (metis prod_cases3)
  have fs: "slot_run None fs = Some None" by (rule slots [OF assms(1) b])
  show ?case
  proof (cases oc)
    case Again
    then obtain es' where "failover_loop body excluded env n (Suc k) t = Some (rep, s', es')" "es = fs @ es'"
      using Suc.prems b by auto
    then show ?thesis using Suc.IH [of "Suc k" t es'] fs by simp
  next
    case (Return x)
    then show ?thesis using Suc.prems b fs by simp
  qed
qed simp

end

text \<open>The number of upstream requests among the effects.\<close>

definition forwards :: "effect list \<Rightarrow> nat" where
  "forwards es = length (filter (\<lambda>e. case e of Forwarded _ \<Rightarrow> True | _ \<Rightarrow> False) es)"

lemma forwards_simps [simp]:
  "forwards [] = 0"
  "forwards (e # es) = (case e of Forwarded _ \<Rightarrow> 1 | _ \<Rightarrow> 0) + forwards es"
  "forwards (es @ fs) = forwards es + forwards fs"
  by (simp_all add: forwards_def split: effect.split)

locale ending_rounds =
  fixes body :: "round \<Rightarrow> 's \<Rightarrow> outcome \<times> 's \<times> effect list"
    and bounded :: "round \<Rightarrow> bool"
    and weight :: "'s \<Rightarrow> nat"
    and attempts :: "'s \<Rightarrow> nat"
  assumes progress: "bounded r \<Longrightarrow> body r s = (Again, s', es) \<Longrightarrow> weight s' < weight s"
    and spends: "bounded r \<Longrightarrow> body r s = (Again, s', es) \<Longrightarrow> forwards es + attempts s' \<le> attempts s"
    and last_one: "body r s = (Return rep, s', es) \<Longrightarrow> forwards es \<le> 1"
begin

lemma loop_ends:
  assumes "\<And>k X. bounded (env k X)" "weight s < n"
  shows "\<exists>rep s' es. failover_loop body excluded env n k s = Some (rep, s', es) \<and> forwards es \<le> attempts s + 1"
  using assms(2)
proof (induction n arbitrary: k s)
  case (Suc n)
  obtain oc t fs where b: "body (env k (excluded s)) s = (oc, t, fs)" by (metis prod_cases3)
  show ?case
  proof (cases oc)
    case Again
    have "weight t < weight s" using progress [OF assms(1)] b Again by simp
    then obtain rep s' es where l: "failover_loop body excluded env n (Suc k) t = Some (rep, s', es)"
        and f: "forwards es \<le> attempts t + 1"
      using Suc.IH [of t "Suc k"] Suc.prems by auto
    have "forwards fs + attempts t \<le> attempts s" using spends [OF assms(1)] b Again by simp
    then have "forwards (fs @ es) \<le> attempts s + 1" using f by simp
    then show ?thesis using b Again l by auto
  next
    case (Return x)
    then show ?thesis using b last_one [of _ s x t fs] by fastforce
  qed
qed simp

end

text \<open>Nothing is asked of an account in \<open>X\<close>, nor of one that was refused on the way.\<close>

fun veto_ok :: "int set \<Rightarrow> effect list \<Rightarrow> bool" where
  "veto_ok X [] = True"
| "veto_ok X (Vetoed a # es) = (a \<notin> X \<and> veto_ok (insert a X) es)"
| "veto_ok X (Forwarded a # es) = (a \<notin> X \<and> veto_ok X es)"
| "veto_ok X (e # es) = veto_ok X es"

fun refused :: "effect list \<Rightarrow> int set" where
  "refused [] = {}"
| "refused (Vetoed a # es) = insert a (refused es)"
| "refused (e # es) = refused es"

lemma refused_append [simp]: "refused (xs @ ys) = refused xs \<union> refused ys"
  by (induction xs rule: refused.induct) auto

lemma veto_ok_append [simp]: "veto_ok X (xs @ ys) \<longleftrightarrow> veto_ok X xs \<and> veto_ok (X \<union> refused xs) ys"
  by (induction X xs rule: veto_ok.induct) auto

lemma veto_ok_mono: "veto_ok X es \<Longrightarrow> Y \<subseteq> X \<Longrightarrow> veto_ok Y es"
  by (induction X es arbitrary: Y rule: veto_ok.induct) (auto, blast)

locale vetting_rounds =
  fixes body :: "round \<Rightarrow> 's \<Rightarrow> outcome \<times> 's \<times> effect list"
    and excluded :: "'s \<Rightarrow> int set"
    and barred :: "'s \<Rightarrow> int set"
    and honours :: "int set \<Rightarrow> round \<Rightarrow> bool"
  assumes vetting: "honours (excluded s) r \<Longrightarrow> barred s \<subseteq> excluded s \<Longrightarrow> body r s = (oc, s', es) \<Longrightarrow>
      veto_ok (barred s) es \<and> barred s' \<subseteq> excluded s' \<and> barred s \<union> refused es \<subseteq> barred s'"
begin

lemma loop_vetting:
  assumes "\<And>k X. honours X (env k X)" "barred s \<subseteq> excluded s"
    "failover_loop body excluded env n k s = Some (rep, s', es)"
  shows "veto_ok (barred s) es"
  using assms(2,3)
proof (induction n arbitrary: k s es)
  case (Suc n)
  obtain oc t fs where b: "body (env k (excluded s)) s = (oc, t, fs)" by (metis prod_cases3)
  have v: "veto_ok (barred s) fs" "barred t \<subseteq> excluded t" "barred s \<union> refused fs \<subseteq> barred t"
    using vetting [OF assms(1) Suc.prems(1) b] by auto
  show ?case
  proof (cases oc)
    case Again
    then obtain es' where l: "failover_loop body excluded env n (Suc k) t = Some (rep, s', es')" and es: "es = fs @ es'"
      using Suc.prems b by auto
    have "veto_ok (barred t) es'" by (rule Suc.IH [OF v(2) l])
    then show ?thesis using v es veto_ok_mono [of "barred t" es'] by simp
  next
    case (Return x)
    then show ?thesis using Suc.prems b v by simp
  qed
qed simp

end

section \<open>The shared parts\<close>

text \<open>Effects that do not touch slots, upstreams or the profit gate.\<close>

fun quiet :: "effect \<Rightarrow> bool" where
  "quiet (Held a) = False"
| "quiet (Released a) = False"
| "quiet (Forwarded a) = False"
| "quiet (Vetoed a) = False"
| "quiet e = True"

lemma quiet_run [simp]:
  "list_all quiet es \<Longrightarrow> slot_run h es = Some h"
  "list_all quiet es \<Longrightarrow> forwards es = 0"
  "list_all quiet es \<Longrightarrow> veto_ok X es"
  "list_all quiet es \<Longrightarrow> refused es = {}"
proof -
  show "list_all quiet es \<Longrightarrow> slot_run h es = Some h" by (induction h es rule: slot_run.induct) auto
  show "list_all quiet es \<Longrightarrow> forwards es = 0" by (induction es) (auto split: effect.splits)
  show "list_all quiet es \<Longrightarrow> veto_ok X es" by (induction X es rule: veto_ok.induct) auto
  show "list_all quiet es \<Longrightarrow> refused es = {}" by (induction es rule: refused.induct) auto
qed

lemma quiet_slept [simp]: "list_all quiet (slept d)"
  by (simp add: slept_def)

lemma hold_run [simp]:
  "slot_run None (hold rel a) = Some (if rel then Some a else None)"
  "slot_run (if rel then Some a else None) (give_back rel a) = Some None"
  "forwards (hold rel a) = 0" "forwards (give_back rel a) = 0"
  "veto_ok X (hold rel a)" "veto_ok X (give_back rel a)"
  "refused (hold rel a) = {}" "refused (give_back rel a) = {}"
  by (simp_all add: hold_def give_back_def)

lemma intercept_run [simp]:
  "slot_run None (intercept_release sel) = Some None" "forwards (intercept_release sel) = 0"
  "veto_ok X (intercept_release sel)" "refused (intercept_release sel) = {}"
  by (simp_all add: intercept_release_def Let_def)

lemma waited_quiet: "waited_slot r sel = (x, es) \<Longrightarrow> list_all quiet es"
  by (auto simp: waited_slot_def Let_def split: if_splits)

definition barred_fs :: "FailoverState \<Rightarrow> int set" where "barred_fs s = profitVetoedAccountIDs s"

lemma selection_failed_effects:
  "selection_failed r s = (oc, s', es) \<Longrightarrow>
   list_all quiet es \<and> profitVetoedAccountIDs s' = profitVetoedAccountIDs s \<and>
   (profitVetoedAccountIDs s \<subseteq> FailedAccountIDs s \<longrightarrow> profitVetoedAccountIDs s' \<subseteq> FailedAccountIDs s')"
  by (auto simp: selection_failed_def HandleSelectionExhausted_def split: if_splits option.splits)

text \<open>After a selection without an account the loop goes on only when an account is let back in.\<close>

lemma selection_failed_again:
  "selection_failed r s = (Again, s', es) \<Longrightarrow>
   s' = s\<lparr>FailedAccountIDs := profitVetoedAccountIDs s\<rparr> \<and> \<not> FailedAccountIDs s \<subseteq> profitVetoedAccountIDs s"
  by (auto simp: selection_failed_def HandleSelectionExhausted_def allExclusionsAreProfitVetoed_def
      split: if_splits option.splits)

lemma profit_veto_effects:
  "profit_veto a s = (oc, s', es) \<Longrightarrow>
   es = [Vetoed a] \<and> profitVetoedAccountIDs s' = insert a (profitVetoedAccountIDs s) \<and>
   FailedAccountIDs s' = insert a (FailedAccountIDs s)"
  by (auto simp: profit_veto_def RecordProfitVeto_def Let_def split: if_splits)

lemma profit_veto_again:
  "profit_veto a s = (Again, s', es) \<Longrightarrow>
   profitVetoCount s + 1 < 10 \<and> profitVetoCount s' = profitVetoCount s + 1 \<and> SwitchCount s' = SwitchCount s \<and>
   MaxSwitches s' = MaxSwitches s \<and> SameAccountRetryCount s' = SameAccountRetryCount s"
  by (auto simp: profit_veto_def RecordProfitVeto_def Let_def maxProfitVetoAttempts_def split: if_splits)

lemma upstream_failed_effects:
  "upstream_failed lib r e s = (oc, s', es) \<Longrightarrow>
   list_all quiet es \<and> profitVetoedAccountIDs s' = profitVetoedAccountIDs s \<and>
   FailedAccountIDs s \<subseteq> FailedAccountIDs s'"
  by (auto simp: upstream_failed_def HandleFailoverError_def Let_def split: if_splits)

text \<open>After a failure the loop goes on with a retry counted at the account, or with a switch counted at the request.\<close>

lemma upstream_failed_again:
  "upstream_failed lib r e s = (Again, s', es) \<Longrightarrow>
   profitVetoCount s' = profitVetoCount s \<and> MaxSwitches s' = MaxSwitches s \<and>
   (sameAccountRetryAllowed (error_now r) e (SameAccountRetryCount s (acc_ID (latest r))) (GetPoolModeRetryCount lib (latest r)) \<and>
      SwitchCount s' = SwitchCount s \<and> FailedAccountIDs s' = FailedAccountIDs s \<and>
      profitVetoedAccountIDs s' = profitVetoedAccountIDs s \<and>
      SameAccountRetryCount s' = (SameAccountRetryCount s)(acc_ID (latest r) := SameAccountRetryCount s (acc_ID (latest r)) + 1) \<or>
    SwitchCount s < MaxSwitches s \<and> SwitchCount s' = SwitchCount s + 1 \<and> SameAccountRetryCount s' = SameAccountRetryCount s)"
  by (auto simp: upstream_failed_def HandleFailoverError_def Let_def split: if_splits)

section \<open>What is left of a request's allowance\<close>

text \<open>
  The retries and switches that are left count the upstream requests; the refusals that are left and the one return to
  the accounts that failed count the other rounds. \<open>A\<close> is the set of accounts that may fail.
\<close>

definition attempts_left :: "int set \<Rightarrow> FailoverState \<Rightarrow> nat" where
  "attempts_left A s = nat (MaxSwitches s - SwitchCount s) + (\<Sum>a\<in>A. nat (10 - SameAccountRetryCount s a))"

definition rounds_left :: "int set \<Rightarrow> FailoverState \<Rightarrow> nat" where
  "rounds_left A s =
     2 * (attempts_left A s + nat (10 - profitVetoCount s)) +
     (if FailedAccountIDs s \<subseteq> profitVetoedAccountIDs s then 0 else 1)"

text \<open>
  A round is bounded when the failing account is one of finitely many and an error that may be retried on the same
  account until a deadline also limits how often.
\<close>

definition bounded_round :: "int set \<Rightarrow> round \<Rightarrow> bool" where
  "bounded_round A r \<longleftrightarrow> finite A \<and>
     (case forward r of
        FailsOver e \<Rightarrow> acc_ID (latest r) \<in> A \<and> (SameAccountRetryDeadline e = 0 \<or> SameAccountRetryMax e > 0)
      | _ \<Rightarrow> True)"

lemma retry_below_ten:
  "sameAccountRetryAllowed now e n (GetPoolModeRetryCount lib a) \<Longrightarrow>
   SameAccountRetryDeadline e = 0 \<or> SameAccountRetryMax e > 0 \<Longrightarrow> n < 10"
  using GetPoolModeRetryCount_bounds [of lib a]
  by (auto simp: sameAccountRetryAllowed_def IsZero_def split: if_splits)

lemma retries_drop:
  assumes "finite A" "a \<in> A" "(f a :: int) < 10"
  shows "(\<Sum>b\<in>A. nat (10 - (f(a := f a + 1)) b)) < (\<Sum>b\<in>A. nat (10 - f b))"
  by (rule sum_strict_mono_ex1 [OF assms(1)]) (use assms in auto)

lemma selection_failed_progress:
  "selection_failed r s = (Again, s', es) \<Longrightarrow>
   rounds_left A s' < rounds_left A s \<and> attempts_left A s' = attempts_left A s"
  using selection_failed_again [of r s s' es] by (auto simp: rounds_left_def attempts_left_def)

lemma profit_veto_progress:
  "profit_veto a s = (Again, s', es) \<Longrightarrow>
   rounds_left A s' < rounds_left A s \<and> attempts_left A s' = attempts_left A s"
  using profit_veto_again [of a s s' es] by (auto simp: rounds_left_def attempts_left_def)

lemma upstream_failed_attempts:
  assumes "upstream_failed lib r e s = (Again, s', es)" "bounded_round A r" "forward r = FailsOver e"
  shows "attempts_left A s' < attempts_left A s"
proof -
  let ?a = "acc_ID (latest r)"
  have A: "finite A" "?a \<in> A" and e: "SameAccountRetryDeadline e = 0 \<or> SameAccountRetryMax e > 0"
    using assms(2,3) by (auto simp: bounded_round_def)
  show ?thesis
  proof (cases "SwitchCount s' = SwitchCount s")
    case True
    then have n: "SameAccountRetryCount s ?a < 10"
      and s': "SameAccountRetryCount s' = (SameAccountRetryCount s)(?a := SameAccountRetryCount s ?a + 1)"
        "MaxSwitches s' = MaxSwitches s"
      using upstream_failed_again [OF assms(1)] retry_below_ten [OF _ e] by auto
    then show ?thesis
      using retries_drop [where f = "SameAccountRetryCount s", OF A n] True by (simp add: attempts_left_def)
  next
    case False
    then show ?thesis using upstream_failed_again [OF assms(1)] by (auto simp: attempts_left_def)
  qed
qed

lemma upstream_failed_progress:
  assumes "upstream_failed lib r e s = (Again, s', es)" "bounded_round A r" "forward r = FailsOver e"
  shows "rounds_left A s' < rounds_left A s \<and> attempts_left A s' < attempts_left A s"
  using upstream_failed_attempts [OF assms] upstream_failed_again [OF assms(1)] by (auto simp: rounds_left_def)

lemma new_allowance:
  "attempts_left A (NewFailoverState n b) = nat n + 10 * card A"
  "rounds_left A (NewFailoverState n b) = 2 * (nat n + 10 * card A + 10)"
  by (simp_all add: attempts_left_def rounds_left_def NewFailoverState_def)

section \<open>The loops keep the contracts\<close>

named_theorems round_defs \<open>one round of each loop\<close>

lemmas round_defs_all [round_defs] =
  systemone_round_def cc_round_def responses_round_def gemini_round_def v1beta_round_def Let_def

named_theorems forward_defs \<open>what each loop does with the answer of the upstream\<close>

lemmas forward_defs_all [forward_defs] =
  systemone_forward_def compat_forward_def gemini_forward_def v1beta_forward_def

text \<open>Whatever the upstream answers, the round ends with effects that touch no slot and ask no upstream.\<close>

definition answer_ok :: "account_lib \<Rightarrow> round \<Rightarrow> FailoverState \<Rightarrow> result \<Rightarrow> bool" where
  "answer_ok lib r s p \<longleftrightarrow>
     (case p of (oc, s', es) \<Rightarrow>
        list_all quiet es \<and> profitVetoedAccountIDs s' = profitVetoedAccountIDs s \<and>
        FailedAccountIDs s \<subseteq> FailedAccountIDs s' \<and>
        (oc = Again \<longrightarrow> (\<exists>e. forward r = FailsOver e \<and> p = upstream_failed lib r e s)))"

lemma answers_ok:
  "answer_ok lib r s (systemone_forward lib r s)"
  "answer_ok lib r s (compat_forward lib r s)"
  "answer_ok lib r s (gemini_forward lib r s)"
  "answer_ok lib r s (v1beta_forward lib r s)"
  by (auto simp: answer_ok_def forward_defs dest: upstream_failed_effects split: forward_answer.split prod.split)

text \<open>The common shape of a round: what it did before the upstream or the profit gate decided, and the decision.\<close>

inductive round_shape :: "account_lib \<Rightarrow> round \<Rightarrow> FailoverState \<Rightarrow> result \<Rightarrow> bool"
  for lib :: account_lib and r :: round and s :: FailoverState where
  stopped: "slot_run None es = Some None \<Longrightarrow> forwards es = 0 \<Longrightarrow> veto_ok UNIV es \<Longrightarrow> refused es = {} \<Longrightarrow>
    round_shape lib r s (Return rep, s, es)"
| none_selected: "selection_failed r s = (oc, s', es) \<Longrightarrow> slot_run None bs = Some None \<Longrightarrow> forwards bs = 0 \<Longrightarrow>
    veto_ok UNIV bs \<Longrightarrow> refused bs = {} \<Longrightarrow> round_shape lib r s (oc, s', bs @ es)"
| refused: "picked r = Some sel \<Longrightarrow> profit_veto (acc_ID (sel_Account sel)) s = (oc, s', es) \<Longrightarrow> list_all quiet ws \<Longrightarrow>
    round_shape lib r s (oc, s', ws @ hold rel (acc_ID (sel_Account sel)) @ give_back rel (acc_ID (sel_Account sel)) @ es)"
| asked: "picked r = Some sel \<Longrightarrow> answer_ok lib r s (oc, s', es) \<Longrightarrow> list_all quiet ws \<Longrightarrow>
    round_shape lib r s (oc, s', ws @ hold rel (acc_ID (sel_Account sel)) @ [Forwarded (acc_ID (latest r))] @
      give_back rel (acc_ID (sel_Account sel)) @ es)"

lemma shape_selection: "round_shape lib r s (selection_failed r s)"
proof -
  obtain oc s' es where p: "selection_failed r s = (oc, s', es)" by (metis prod_cases3)
  show ?thesis using round_shape.none_selected [OF p, of "[]" lib] by (simp add: p)
qed

lemma shape_veto:
  assumes "picked r = Some sel" "list_all quiet ws"
  shows "round_shape lib r s (and_then (ws @ hold rel (acc_ID (sel_Account sel)) @ give_back rel (acc_ID (sel_Account sel)))
    (profit_veto (acc_ID (sel_Account sel)) s))"
proof -
  obtain oc s' es where p: "profit_veto (acc_ID (sel_Account sel)) s = (oc, s', es)" by (metis prod_cases3)
  show ?thesis using round_shape.refused [OF assms(1) p assms(2), of lib rel] by (simp add: p and_then_def)
qed

lemma shape_asked:
  assumes "picked r = Some sel" "list_all quiet ws" "answer_ok lib r s p"
  shows "round_shape lib r s (and_then (ws @ hold rel (acc_ID (sel_Account sel)) @ [Forwarded (acc_ID (latest r))] @
    give_back rel (acc_ID (sel_Account sel))) p)"
proof -
  obtain oc s' es where p: "p = (oc, s', es)" by (metis prod_cases3)
  show ?thesis
    using round_shape.asked [OF assms(1) assms(3) [unfolded p] assms(2), of rel] by (simp add: p and_then_def)
qed

lemma shape_stop:
  "list_all quiet ws \<Longrightarrow> round_shape lib r s (Return rep, s, ws)"
  "list_all quiet ws \<Longrightarrow> round_shape lib r s (Return rep, s, ws @ hold rel a @ give_back rel a)"
  "round_shape lib r s (Return rep, s, intercept_release sel)"
  by (auto intro!: round_shape.stopped)

lemma systemone_shape: "round_shape lib r s (systemone_round lib r s)"
  using shape_selection shape_veto [of r _ "[]"] shape_asked [of r _ "[]"] answers_ok shape_stop(1,2) [where ws = "[]"]
  by (simp add: systemone_round_def Let_def split: option.split sum.split)

lemma responses_shape: "round_shape lib r s (responses_round lib cfg r s)"
  using shape_selection shape_veto [of r _ "[]"] shape_asked [of r _ "[]"] answers_ok shape_stop(1,2) [where ws = "[]"]
  by (simp add: responses_round_def Let_def split: option.split sum.split)

lemma gemini_shape: "round_shape lib r s (gemini_round lib r s)"
  using shape_selection shape_veto shape_asked answers_ok shape_stop waited_quiet
  by (simp add: gemini_round_def Let_def split: option.split sum.split prod.split)

lemma v1beta_unselected_shape:
  assumes "unbound_selection binding r = (None, es)"
  shows "round_shape lib r s (and_then es (v1beta_selection_failed binding r s))"
proof -
  have es: "slot_run None es = Some None" "forwards es = 0" "veto_ok UNIV es" "refused es = {}"
    using assms by (auto simp: unbound_selection_def split: option.splits if_splits)
  obtain oc s' fs where p: "selection_failed r s = (oc, s', fs)" by (metis prod_cases3)
  show ?thesis
    using round_shape.stopped [OF es, of lib r s] round_shape.none_selected [OF p es, of lib]
    by (auto simp: v1beta_selection_failed_def and_then_def p split: option.split)
qed

lemma unbound_selection_some: "unbound_selection binding r = (Some sel, es) \<Longrightarrow> picked r = Some sel"
  by (auto simp: unbound_selection_def split: option.splits if_splits)

lemma v1beta_shape: "round_shape lib r s (v1beta_round lib binding r s)"
  using v1beta_unselected_shape unbound_selection_some shape_veto shape_asked answers_ok shape_stop waited_quiet
  by (simp add: v1beta_round_def Let_def split: option.split sum.split prod.split)

text \<open>From the shape of a round to the contracts.\<close>

lemma selection_quiet:
  "selection_failed r s = (oc, s', es) \<Longrightarrow> list_all quiet es"
  using selection_failed_effects [of r s oc s' es] by simp

lemma answer_quiet: "answer_ok lib r s (oc, s', es) \<Longrightarrow> list_all quiet es"
  by (simp add: answer_ok_def)

lemma shape_slots: "round_shape lib r s (oc, s', es) \<Longrightarrow> slot_run None es = Some None"
  by (erule round_shape.cases) (auto dest!: selection_quiet answer_quiet profit_veto_effects)

lemma shape_forwards: "round_shape lib r s (oc, s', es) \<Longrightarrow> forwards es \<le> 1"
  by (erule round_shape.cases) (auto dest!: selection_quiet answer_quiet profit_veto_effects)

lemma shape_progress:
  assumes "round_shape lib r s (Again, s', es)" "bounded_round A r"
  shows "rounds_left A s' < rounds_left A s \<and> forwards es + attempts_left A s' \<le> attempts_left A s"
  using assms(1)
proof (cases rule: round_shape.cases)
  case (none_selected es bs)
  then show ?thesis
    using selection_failed_progress [OF none_selected(2), of A] selection_quiet [OF none_selected(2)] by simp
next
  case (refused sel es ws rel)
  then show ?thesis
    using profit_veto_progress [OF refused(3), of A] profit_veto_effects [OF refused(3)] by simp
next
  case (asked sel es ws rel)
  obtain e where e: "forward r = FailsOver e" "upstream_failed lib r e s = (Again, s', es)"
    using asked(3) by (auto simp: answer_ok_def)
  show ?thesis
    using upstream_failed_progress [OF e(2) assms(2) e(1)] answer_quiet [OF asked(3)] asked by simp
qed

text \<open>The selection does not return an excluded account, and the profit gate reads the account that was selected.\<close>

definition honours :: "int set \<Rightarrow> round \<Rightarrow> bool" where
  "honours X r \<longleftrightarrow>
     (case picked r of
        Some sel \<Rightarrow> acc_ID (sel_Account sel) \<notin> X \<and> acc_ID (latest r) = acc_ID (sel_Account sel)
      | None \<Rightarrow> True)"

lemma shape_vetting:
  assumes "round_shape lib r s (oc, s', es)" "honours (FailedAccountIDs s) r"
    "profitVetoedAccountIDs s \<subseteq> FailedAccountIDs s"
  shows "veto_ok (profitVetoedAccountIDs s) es \<and> profitVetoedAccountIDs s' \<subseteq> FailedAccountIDs s' \<and>
    profitVetoedAccountIDs s \<union> refused es \<subseteq> profitVetoedAccountIDs s'"
  using assms(1)
proof (cases rule: round_shape.cases)
  case (stopped rep)
  then show ?thesis using assms(3) veto_ok_mono [of UNIV es] by simp
next
  case (none_selected es bs)
  then show ?thesis
    using selection_failed_effects [OF none_selected(2)] assms(3) veto_ok_mono [of UNIV bs] by auto
next
  case (refused sel es ws rel)
  then show ?thesis
    using profit_veto_effects [OF refused(3)] assms(2,3) by (auto simp: honours_def)
next
  case (asked sel es ws rel)
  then show ?thesis using assms(2,3) by (auto simp: honours_def answer_ok_def)
qed

text \<open>The chat completions loop has one more way on: an account of another platform is passed over.\<close>

lemma cc_shape:
  "round_shape lib r s (cc_round lib cfg r s) \<or>
   (\<exists>sel rel. picked r = Some sel \<and> cc_round lib cfg r s =
      (Again, s\<lparr>FailedAccountIDs := insert (acc_ID (latest r)) (FailedAccountIDs s)\<rparr>,
       hold rel (acc_ID (sel_Account sel)) @ give_back rel (acc_ID (sel_Account sel)) @ [Skipped (acc_ID (latest r))]))"
  using shape_selection shape_veto [of r _ "[]"] shape_asked [of r _ "[]"] answers_ok shape_stop(1,2) [where ws = "[]"]
  by (simp add: cc_round_def Let_def split: option.split sum.split) blast

lemma cc_slots: "cc_round lib cfg r s = (oc, s', es) \<Longrightarrow> slot_run None es = Some None"
  using cc_shape [of lib r s cfg] shape_slots [of lib r s oc s' es] by auto

lemma cc_vetting:
  assumes "cc_round lib cfg r s = (oc, s', es)" "honours (FailedAccountIDs s) r"
    "profitVetoedAccountIDs s \<subseteq> FailedAccountIDs s"
  shows "veto_ok (profitVetoedAccountIDs s) es \<and> profitVetoedAccountIDs s' \<subseteq> FailedAccountIDs s' \<and>
    profitVetoedAccountIDs s \<union> refused es \<subseteq> profitVetoedAccountIDs s'"
  using cc_shape [of lib r s cfg] shape_vetting [OF _ assms(2,3), of lib oc s' es] assms(1,3) by auto

section \<open>The messages loop\<close>

lemma quiet_sessions [simp]: "list_all quiet (map SessionReleased xs)"
  by (induction xs) auto

lemma drop_session_cases:
  "drop_session a p = (oc, m', es) \<Longrightarrow>
   \<exists>m0 es0 rest. p = (oc, m0, es0) \<and> es = es0 @ rest \<and> list_all quiet rest \<and>
     msg_fs m' = msg_fs m0 \<and> fallbackUsed m' = fallbackUsed m0"
  by (cases p; cases "fst p") (auto simp: drop_session_def)

text \<open>An answer of the common kind, with a release of the session behind it.\<close>

definition plain_answer :: "account_lib \<Rightarrow> round \<Rightarrow> MessagesState \<Rightarrow> messages_result \<Rightarrow> bool" where
  "plain_answer lib r m p \<longleftrightarrow>
     (case p of (oc, m', es) \<Rightarrow>
        fallbackUsed m' = fallbackUsed m \<and>
        (\<exists>es0 rest. answer_ok lib r (msg_fs m) (oc, msg_fs m', es0) \<and> es = es0 @ rest \<and> list_all quiet rest))"

lemma plain_answerI:
  "answer_ok lib r (msg_fs m) (oc, msg_fs m', es) \<Longrightarrow> fallbackUsed m' = fallbackUsed m \<Longrightarrow> list_all quiet rest \<Longrightarrow>
   plain_answer lib r m (oc, m', es @ rest)"
  by (auto simp: plain_answer_def)

lemma plain_answer_stop:
  "list_all quiet es \<Longrightarrow> msg_fs m' = msg_fs m \<Longrightarrow> fallbackUsed m' = fallbackUsed m \<Longrightarrow>
   plain_answer lib r m (Return rep, m', es)"
  using plain_answerI [of lib r m "Return rep" m' es "[]"] by (simp add: answer_ok_def)

lemma messages_forward_cases:
  assumes "messages_forward lib cfg r m = (oc, m', es)"
  shows "plain_answer lib r m (oc, m', es) \<or>
         (oc = Again \<and> list_all quiet es \<and> \<not> fallbackUsed m \<and> fallbackUsed m' \<and>
            msg_fs m' = NewFailoverState (msg_maxAccountSwitches cfg) (msg_boundSession cfg))"
proof (cases "\<exists>e. forward r = FailsOver e \<and> \<not> written r")
  case True
  then obtain e where e: "forward r = FailsOver e" "\<not> written r" by blast
  obtain oc0 s' es0 where u: "upstream_failed lib r e (msg_fs m) = (oc0, s', es0)" by (metis prod_cases3)
  have "answer_ok lib r (msg_fs m) (oc0, s', es0)"
    using upstream_failed_effects [OF u] u e by (simp add: answer_ok_def)
  moreover have d: "drop_session (acc_ID (latest r)) (oc0, m\<lparr>msg_fs := s'\<rparr>, es0) = (oc, m', es)"
    using assms e u by (simp add: messages_forward_def with_fs_def)
  ultimately have "plain_answer lib r m (oc, m', es)"
    using drop_session_cases [OF d] plain_answerI [of lib r m oc m'] by auto
  then show ?thesis ..
next
  case False
  then show ?thesis
    using assms plain_answer_stop [of _ _ m lib r]
    by (simp add: messages_forward_def prompt_too_long_def Let_def
        split: forward_answer.splits fallback_answer.splits if_splits) auto
qed

text \<open>A round of the common shape, with releases of sessions behind it.\<close>

definition plain_round :: "account_lib \<Rightarrow> round \<Rightarrow> MessagesState \<Rightarrow> messages_result \<Rightarrow> bool" where
  "plain_round lib r m p \<longleftrightarrow>
     (case p of (oc, m', es) \<Rightarrow>
        fallbackUsed m' = fallbackUsed m \<and>
        (\<exists>es0 rest. round_shape lib r (msg_fs m) (oc, msg_fs m', es0) \<and> es = es0 @ rest \<and> list_all quiet rest))"

lemma plain_roundI:
  "round_shape lib r (msg_fs m) (oc, msg_fs m', es) \<Longrightarrow> fallbackUsed m' = fallbackUsed m \<Longrightarrow>
   plain_round lib r m (oc, m', es)"
  by (fastforce simp: plain_round_def)

lemma plain_round_more:
  "round_shape lib r (msg_fs m) (oc, msg_fs m', es) \<Longrightarrow> fallbackUsed m' = fallbackUsed m \<Longrightarrow>
   list_all quiet rest \<Longrightarrow> plain_round lib r m (oc, m', es @ rest)"
  by (auto simp: plain_round_def)

text \<open>
  A round of the messages loop is a round of the common shape followed by releases of sessions, or the move to the
  fallback group, or the refusal of a body that could not be rewritten.
\<close>

lemma messages_body_cases:
  assumes "messages_body lib cfg r m = (oc, m', es)"
  shows "plain_round lib r m (oc, m', es) \<or>
         (oc = Again \<and> slot_run None es = Some None \<and> forwards es = 1 \<and> \<not> fallbackUsed m \<and> fallbackUsed m' \<and>
            msg_fs m' = NewFailoverState (msg_maxAccountSwitches cfg) (msg_boundSession cfg)) \<or>
         (\<exists>rep. oc = Return rep \<and> \<not> body_rewritten r \<and> (\<not> admission_owner r \<longrightarrow> slot_run None es = Some None) \<and>
            forwards es = 0)"
proof (cases "picked r")
  case None
  obtain oc0 s' es0 where p: "selection_failed r (msg_fs m) = (oc0, s', es0)" by (metis prod_cases3)
  have "round_shape lib r (msg_fs m) (oc0, s', es0)" using shape_selection [of lib r "msg_fs m"] p by simp
  then have "plain_round lib r m (oc, m', es)"
    using assms None p shape_stop(1) [of "[]" lib r "msg_fs m" BadBody]
    by (auto simp: messages_body_def with_fs_def split: if_splits intro!: plain_roundI)
  then show ?thesis ..
next
  case (Some sel)
  let ?a = "acc_ID (sel_Account sel)" and ?s = "msg_fs m"
  obtain x ws where w: "waited_slot r sel = (x, ws)" by (cases "waited_slot r sel")
  have q: "list_all quiet ws" by (rule waited_quiet [OF w])
  consider (bad) "\<not> body_cloned r" | (int) "body_cloned r" "intercepts r"
    | (no) rep where "body_cloned r" "\<not> intercepts r" "x = Inl rep"
    | (veto) rel where "body_cloned r" "\<not> intercepts r" "x = Inr rel" "vetoed r"
    | (rewrite) rel where "body_cloned r" "\<not> intercepts r" "x = Inr rel" "\<not> vetoed r" "\<not> body_rewritten r"
    | (ask) rel where "body_cloned r" "\<not> intercepts r" "x = Inr rel" "\<not> vetoed r" "body_rewritten r"
    by (cases x) blast+
  then show ?thesis
  proof cases
    case bad
    then show ?thesis
      using assms by (intro disjI1 plain_roundI) (auto simp: messages_body_def shape_stop(1) [of "[]", simplified])
  next
    case int
    then show ?thesis
      using assms Some by (intro disjI1 plain_roundI) (auto simp: messages_body_def shape_stop(3))
  next
    case no
    then show ?thesis
      using assms Some w by (intro disjI1 plain_roundI) (auto simp: messages_body_def intro!: shape_stop(1) waited_quiet)
  next
    case veto
    obtain oc0 s' es0 where p: "profit_veto ?a ?s = (oc0, s', es0)" by (metis prod_cases3)
    have "round_shape lib r ?s (oc0, s', ws @ hold rel ?a @ give_back rel ?a @ es0)"
      by (rule round_shape.refused [OF Some p q])
    moreover have d: "drop_session ?a (oc0, m\<lparr>msg_fs := s'\<rparr>, ws @ hold rel ?a @ give_back rel ?a @ es0) = (oc, m', es)"
      using assms Some w veto p by (simp add: messages_body_def with_fs_def and_then_def Let_def)
    ultimately have "plain_round lib r m (oc, m', es)"
      using drop_session_cases [OF d] plain_round_more
        [of lib r m oc m' "ws @ hold rel (acc_ID (sel_Account sel)) @ give_back rel (acc_ID (sel_Account sel)) @ es0"]
      by auto
    then show ?thesis ..
  next
    case rewrite
    then have "oc = Return BadBody" "es = ws @ hold rel ?a @ (if admission_owner r then [] else give_back rel ?a)"
      using assms Some w by (simp_all add: messages_body_def Let_def)
    then show ?thesis using rewrite(5) quiet_run [OF q] by simp
  next
    case ask
    let ?m = "m\<lparr>sessionSlotAccounts := List.insert (acc_ID (latest r)) (sessionSlotAccounts m)\<rparr>"
    obtain oc0 m0 es0 where f: "messages_forward lib cfg r ?m = (oc0, m0, es0)" by (metis prod_cases3)
    have es: "oc = oc0" "m' = m0" "es = (ws @ hold rel ?a @ [Forwarded (acc_ID (latest r))] @ give_back rel ?a) @ es0"
      using assms Some w ask f by (simp_all add: messages_body_def and_then_def Let_def)
    show ?thesis
      using messages_forward_cases [OF f]
    proof (elim disjE exE conjE)
      assume "plain_answer lib r ?m (oc0, m0, es0)"
      then obtain fs rest where a: "answer_ok lib r ?s (oc0, msg_fs m0, fs)"
          and r: "es0 = fs @ rest" "list_all quiet rest" and m: "fallbackUsed m0 = fallbackUsed m"
        by (auto simp: plain_answer_def)
      have "round_shape lib r ?s (oc0, msg_fs m0, ws @ hold rel ?a @ [Forwarded (acc_ID (latest r))] @ give_back rel ?a @ fs)"
        by (rule round_shape.asked [OF Some a q])
      then have "plain_round lib r m (oc, m',
          (ws @ hold rel ?a @ [Forwarded (acc_ID (latest r))] @ give_back rel ?a @ fs) @ rest)"
        unfolding es(1,2) using m r(2) by (rule plain_round_more)
      then show ?thesis using es(3) r(1) by simp
    next
      assume "oc0 = Again" "list_all quiet es0"
        and m: "\<not> fallbackUsed ?m" "fallbackUsed m0"
          "msg_fs m0 = NewFailoverState (msg_maxAccountSwitches cfg) (msg_boundSession cfg)"
      then show ?thesis using es quiet_run [OF q] by (cases rel) (simp_all add: hold_def give_back_def)
    qed
  qed
qed

lemma messages_round_body:
  assumes "messages_round lib cfg r m = (oc, m', es)"
  shows "\<exists>es0 rest. messages_body lib cfg r m = (oc, m', es0) \<and> es = es0 @ rest \<and> list_all quiet rest \<and>
    (oc = Again \<longrightarrow> rest = [])"
proof -
  obtain oc0 m0 es0 where b: "messages_body lib cfg r m = (oc0, m0, es0)" by (metis prod_cases3)
  show ?thesis
    using assms by (cases oc0) (auto simp: messages_round_def b split: if_splits)
qed

definition careful_round :: "round \<Rightarrow> bool" where
  "careful_round r \<longleftrightarrow> \<not> admission_owner r \<or> body_rewritten r"

lemma messages_slots:
  assumes "careful_round r" "messages_round lib cfg r m = (oc, m', es)"
  shows "slot_run None es = Some None"
proof -
  obtain es0 rest where b: "messages_body lib cfg r m = (oc, m', es0)" and es: "es = es0 @ rest" "list_all quiet rest"
    using messages_round_body [OF assms(2)] by blast
  have "slot_run None es0 = Some None"
    using messages_body_cases [OF b] shape_slots assms(1) by (auto simp: plain_round_def careful_round_def)
  then show ?thesis using es by simp
qed

lemma messages_last:
  assumes "messages_round lib cfg r m = (oc, m', es)"
  shows "forwards es \<le> 1"
proof -
  obtain es0 rest where b: "messages_body lib cfg r m = (oc, m', es0)" and es: "es = es0 @ rest" "list_all quiet rest"
    using messages_round_body [OF assms] by blast
  have "forwards es0 \<le> 1"
    using messages_body_cases [OF b] shape_forwards [of lib r "msg_fs m" oc "msg_fs m'"] by (auto simp: plain_round_def)
  then show ?thesis using es by simp
qed

text \<open>The allowance of the messages loop: the one of its failover state, and once a new one for the fallback group.\<close>

definition messages_attempts :: "int set \<Rightarrow> messages_config \<Rightarrow> MessagesState \<Rightarrow> nat" where
  "messages_attempts A cfg m =
     attempts_left A (msg_fs m) +
     (if fallbackUsed m then 0
      else attempts_left A (NewFailoverState (msg_maxAccountSwitches cfg) (msg_boundSession cfg)) + 1)"

definition messages_rounds :: "int set \<Rightarrow> messages_config \<Rightarrow> MessagesState \<Rightarrow> nat" where
  "messages_rounds A cfg m =
     rounds_left A (msg_fs m) +
     (if fallbackUsed m then 0
      else rounds_left A (NewFailoverState (msg_maxAccountSwitches cfg) (msg_boundSession cfg)) + 1)"

lemma messages_progress:
  assumes "bounded_round A r" "messages_round lib cfg r m = (Again, m', es)"
  shows "messages_rounds A cfg m' < messages_rounds A cfg m"
    and "forwards es + messages_attempts A cfg m' \<le> messages_attempts A cfg m"
proof -
  have b: "messages_body lib cfg r m = (Again, m', es)"
    using messages_round_body [OF assms(2)] by auto
  have "messages_rounds A cfg m' < messages_rounds A cfg m \<and>
      forwards es + messages_attempts A cfg m' \<le> messages_attempts A cfg m"
  proof (cases "fallbackUsed m' = fallbackUsed m")
    case True
    then obtain es0 rest where "round_shape lib r (msg_fs m) (Again, msg_fs m', es0)" "es = es0 @ rest" "list_all quiet rest"
      using messages_body_cases [OF b] by (auto simp: plain_round_def)
    then show ?thesis
      using shape_progress [OF _ assms(1), of lib "msg_fs m" "msg_fs m'" es0] True
      by (simp add: messages_rounds_def messages_attempts_def)
  next
    case False
    then show ?thesis
      using messages_body_cases [OF b] by (auto simp: plain_round_def messages_rounds_def messages_attempts_def)
  qed
  then show "messages_rounds A cfg m' < messages_rounds A cfg m"
    and "forwards es + messages_attempts A cfg m' \<le> messages_attempts A cfg m" by simp_all
qed

section \<open>All handlers\<close>

datatype handler =
  SystemOne | ChatCompletions loop_config | Responses loop_config | GeminiMessages | GeminiAPI "int option"

fun handler_round :: "account_lib \<Rightarrow> handler \<Rightarrow> round \<Rightarrow> FailoverState \<Rightarrow> result" where
  "handler_round lib SystemOne = systemone_round lib"
| "handler_round lib (ChatCompletions cfg) = cc_round lib cfg"
| "handler_round lib (Responses cfg) = responses_round lib cfg"
| "handler_round lib GeminiMessages = gemini_round lib"
| "handler_round lib (GeminiAPI binding) = v1beta_round lib binding"

text \<open>Only the chat completions loop of a Gemini group passes over accounts.\<close>

fun passes_over :: "handler \<Rightarrow> bool" where
  "passes_over (ChatCompletions cfg) = (groupPlatform cfg = PlatformGemini)"
| "passes_over _ = False"

lemma cc_shape_other:
  "groupPlatform cfg \<noteq> PlatformGemini \<Longrightarrow> round_shape lib r s (cc_round lib cfg r s)"
  using shape_selection shape_veto [of r _ "[]"] shape_asked [of r _ "[]"] answers_ok shape_stop(1,2) [where ws = "[]"]
  by (simp add: cc_round_def Let_def split: option.split sum.split)

lemma handler_shape: "\<not> passes_over h \<Longrightarrow> round_shape lib r s (handler_round lib h r s)"
  by (cases h) (simp_all add: systemone_shape cc_shape_other responses_shape gemini_shape v1beta_shape)

lemma handler_slots: "handler_round lib h r s = (oc, s', es) \<Longrightarrow> slot_run None es = Some None"
  using handler_shape [of h lib r s] shape_slots [of lib r s oc s' es] cc_slots [of lib _ r s oc s' es] by (cases h) auto

lemma handler_progress:
  assumes "\<not> passes_over h \<and> bounded_round A r" "handler_round lib h r s = (Again, s', es)"
  shows "rounds_left A s' < rounds_left A s" "forwards es + attempts_left A s' \<le> attempts_left A s"
  using shape_progress [of lib r s s' es A] handler_shape [of h lib r s] assms by simp_all

lemma handler_last:
  assumes "handler_round lib h r s = (Return rep, s', es)"
  shows "forwards es \<le> 1"
proof (cases h)
  case (ChatCompletions cfg)
  then show ?thesis using cc_shape [of lib r s cfg] shape_forwards [of lib r s "Return rep" s' es] assms by auto
qed (use handler_shape [of h lib r s] shape_forwards [of lib r s "Return rep" s' es] assms in simp_all)

lemma handler_vetting:
  assumes "honours (FailedAccountIDs s) r" "profitVetoedAccountIDs s \<subseteq> FailedAccountIDs s"
    "handler_round lib h r s = (oc, s', es)"
  shows "veto_ok (profitVetoedAccountIDs s) es \<and> profitVetoedAccountIDs s' \<subseteq> FailedAccountIDs s' \<and>
    profitVetoedAccountIDs s \<union> refused es \<subseteq> profitVetoedAccountIDs s'"
proof (cases h)
  case (ChatCompletions cfg)
  then show ?thesis using cc_vetting [OF _ assms(1,2)] assms(3) by simp
qed (use handler_shape [of h lib r s] shape_vetting [OF _ assms(1,2)] assms(3) in simp_all)

interpretation hs_slots: slot_rounds "handler_round lib h" "\<lambda>_. True" for lib h
  by unfold_locales (rule handler_slots)

interpretation ms_slots: slot_rounds "messages_round lib cfg" careful_round for lib cfg
  by unfold_locales (rule messages_slots)

interpretation hs_ends: ending_rounds "handler_round lib h" "\<lambda>r. \<not> passes_over h \<and> bounded_round A r"
    "rounds_left A" "attempts_left A" for lib h A
  by unfold_locales (rule handler_progress handler_last, assumption+)+

interpretation ms_ends: ending_rounds "messages_round lib cfg" "bounded_round A" "messages_rounds A cfg" "messages_attempts A cfg"
  for lib cfg A
  by unfold_locales (rule messages_progress messages_last, assumption+)+

interpretation hs_vets: vetting_rounds "handler_round lib h" FailedAccountIDs profitVetoedAccountIDs honours for lib h
  by unfold_locales (rule handler_vetting)

end
