(* ===== verification/FailoverRuns.thy ===== *)
theory FailoverRuns
  imports FailoverSafety
begin

text \<open>
  Whole requests: what the loops of \<open>FailoverLoop\<close> guarantee from their first round to their answer, and a request
  of the chat completions handler that never gets one.
\<close>

section \<open>Concrete requests\<close>

definition demo_account :: "int \<Rightarrow> string \<Rightarrow> Account" where
  "demo_account i platform =
     \<lparr>acc_ID = i, acc_Platform = platform, acc_Type = AccountTypeOAuth, Credentials = (\<lambda>_. None), Extra = (\<lambda>_. None),
      acc_Concurrency = 1, Priority = 1, LoadFactor = None, acc_Status = StatusActive, LastUsedAt = None, acc_ExpiresAt = None,
      AutoPauseOnExpired = False, Schedulable = True, PerformancePaused = False, RateLimitResetAt = None,
      OverloadUntil = None, TempUnschedulableUntil = None, SessionWindowEnd = None\<rparr>"

definition overload_error :: UpstreamFailoverError where
  "overload_error =
     \<lparr>StatusCode = 503, err_ForceCacheBilling = False, RetryableOnSameAccount = False, SameAccountRetryDelay = 0,
      SameAccountRetryDeadline = 0, SameAccountRetryMax = 0, RequestScopedTransient = False,
      err_NextAccountAction = NextAccountLegacyRetry\<rparr>"

text \<open>A round of a connected client in which the selection finds an account, or none, and the upstream answers.\<close>

definition demo_round :: "Account option \<Rightarrow> bool \<Rightarrow> forward_answer \<Rightarrow> round" where
  "demo_round found veto answer =
     \<lparr>client_gone = False, body_cloned = True,
      picked = (case found of None \<Rightarrow> None | Some a \<Rightarrow>
        Some \<lparr>sel_Account = a, sel_Acquired = True, releasable = True, has_WaitPlan = False\<rparr>),
      gone_selecting = False, exhausted_ended = False, exhausted_short = False, intercepts = False,
      wait_counter = WaitAllowed, slot_wait = None, vetoed = veto,
      latest = (case found of None \<Rightarrow> demo_account 0 '''' | Some a \<Rightarrow> a),
      body_rewritten = True, admission_owner = True, forward = answer, written = False, partial_result = False,
      gone_forwarding = False, error_ended = False, error_now = 0, error_short = False, fallback = FallbackInvalid\<rparr>"

definition demo_lib :: account_lib where
  "demo_lib = \<lparr>int_of_float = floor, ParseFloat = (\<lambda>_. None), ParseTime = (\<lambda>_. None),
     lastFixedDailyReset = (\<lambda>_ _ t. t), lastFixedWeeklyReset = (\<lambda>_ _ _ t. t)\<rparr>"

text \<open>Two Gemini accounts: both answer 503, nothing else is left, and after the pause the first one serves.\<close>

definition demo_env :: "nat \<Rightarrow> int set \<Rightarrow> round" where
  "demo_env k X =
     (if 1 \<notin> X then demo_round (Some (demo_account 1 PlatformGemini)) False (if k = 0 then FailsOver overload_error else Served)
      else if 2 \<notin> X then demo_round (Some (demo_account 2 PlatformGemini)) (k = 1) (FailsOver overload_error)
      else demo_round None False Served)"

lemmas demo_defs = demo_env_def demo_round_def demo_account_def overload_error_def

section \<open>Requests end\<close>

text \<open>
  C13: A request ends. Whatever the selection, the slots, the profit gate and the upstreams answer, and whichever
  handler serves it, the loop returns within a number of rounds computed from the switches it may make and the accounts
  that may fail, and it asks upstreams at most once per switch, ten times more per account, and once. The messages
  handler, which may move once to a fallback group, needs at most twice that. Two conditions: an error that may be
  retried on the same account until a deadline also carries a limit, and the handler is not the chat completions
  handler of a Gemini group.
\<close>

theorem failover_ends:
  assumes "\<And>k X. bounded_round A (env k X)" "\<not> passes_over h" "2 * (nat n + 10 * card A + 10) < N"
  shows "(\<exists>rep s es. failover_loop (handler_round lib h) FailedAccountIDs env N 0 (NewFailoverState n b) = Some (rep, s, es) \<and>
            forwards es \<le> nat n + 10 * card A + 1) \<and>
         (\<exists>rep m es. failover_loop (messages_round lib cfg) (\<lambda>m. FailedAccountIDs (msg_fs m)) env
              (4 * (nat (msg_maxAccountSwitches cfg) + 10 * card A + 10) + 2) 0 (NewMessagesState cfg) = Some (rep, m, es) \<and>
            forwards es \<le> 2 * (nat (msg_maxAccountSwitches cfg) + 10 * card A + 1))"
proof
  have "\<not> passes_over h \<and> bounded_round A (env k X)" for k X using assms(1,2) by simp
  moreover have "rounds_left A (NewFailoverState n b) < N" using assms(3) by (simp add: new_allowance)
  ultimately show "\<exists>rep s es. failover_loop (handler_round lib h) FailedAccountIDs env N 0 (NewFailoverState n b) =
      Some (rep, s, es) \<and> forwards es \<le> nat n + 10 * card A + 1"
    using hs_ends.loop_ends [where h = h and A = A and env = env and s = "NewFailoverState n b" and lib = lib and k = 0
        and excluded = FailedAccountIDs]
    by (simp add: new_allowance)
next
  let ?m = "NewMessagesState cfg"
  have m: "messages_rounds A cfg ?m < 4 * (nat (msg_maxAccountSwitches cfg) + 10 * card A + 10) + 2"
    "messages_attempts A cfg ?m + 1 = 2 * (nat (msg_maxAccountSwitches cfg) + 10 * card A + 1)"
    by (simp_all add: messages_rounds_def messages_attempts_def NewMessagesState_def new_allowance)
  show "\<exists>rep m es. failover_loop (messages_round lib cfg) (\<lambda>m. FailedAccountIDs (msg_fs m)) env
      (4 * (nat (msg_maxAccountSwitches cfg) + 10 * card A + 10) + 2) 0 ?m = Some (rep, m, es) \<and>
      forwards es \<le> 2 * (nat (msg_maxAccountSwitches cfg) + 10 * card A + 1)"
    using ms_ends.loop_ends [OF assms(1) m(1), where k = 0 and lib = lib] unfolding m(2) .
qed

lemma demo_bounded: "bounded_round {1, 2} (demo_env k X)"
  by (simp add: bounded_round_def demo_defs)

theorem failover_ends_witness:
  "(\<exists>rep s es. failover_loop (handler_round demo_lib SystemOne) FailedAccountIDs demo_env 70 0 (NewFailoverState 3 False) =
       Some (rep, s, es) \<and> forwards es \<le> 24) \<and>
   (\<exists>rep m es. failover_loop (messages_round demo_lib \<lparr>msg_maxAccountSwitches = 10, msg_boundSession = True, fallbackGroupID = None\<rparr>)
        (\<lambda>m. FailedAccountIDs (msg_fs m)) demo_env 162 0
        (NewMessagesState \<lparr>msg_maxAccountSwitches = 10, msg_boundSession = True, fallbackGroupID = None\<rparr>) = Some (rep, m, es) \<and>
      forwards es \<le> 62)"
  using failover_ends [OF demo_bounded, where h = SystemOne and n = 3 and N = 70 and lib = demo_lib and b = False
      and cfg = "\<lparr>msg_maxAccountSwitches = 10, msg_boundSession = True, fallbackGroupID = None\<rparr>"] by simp

section \<open>Slots\<close>

text \<open>
  C15: No slot is left behind. In every run of every handler the slot of an account is taken while none is held, and it
  is given back before the next account is asked for and before the handler returns, on every path: refused by the
  profit gate, passed over, answered by the gateway itself, failed, or served. For the messages handler this needs
  that the body of a request that owns an API key admission can be rewritten for the account.
\<close>

theorem failover_slots_returned:
  assumes "failover_loop (handler_round lib h) FailedAccountIDs env N k s = Some (rep, s', es)"
    "failover_loop (messages_round lib cfg) excluded env' M k' m = Some (rep', m', fs)"
    "\<And>i X. careful_round (env' i X)"
  shows "slot_run None es = Some None \<and> slot_run None fs = Some None"
  using hs_slots.loop_slots [OF _ assms(1)] ms_slots.loop_slots [OF assms(3) assms(2)] by simp

lemmas round_eval =
  demo_defs gemini_round_def gemini_forward_def cc_round_def waited_slot_def account_slot_def and_then_def hold_def
  give_back_def upstream_failed_def HandleFailoverError_def selection_failed_def HandleSelectionExhausted_def
  profit_veto_def RecordProfitVeto_def NewFailoverState_def ShouldRetryNextAccount_def sameAccountRetryAllowed_def
  needForceCacheBilling_def sleepWithContext_def slept_def allExclusionsAreProfitVetoed_def maxProfitVetoAttempts_def
  singleAccountBackoffDelay_def Second_def Let_def

text \<open>The concrete request of a Gemini group: asked, refused by the gate, a pause, and served.\<close>

lemma demo_run:
  "failover_loop (handler_round demo_lib GeminiMessages) FailedAccountIDs demo_env 5 0 (NewFailoverState 3 False) =
   Some (Answered, \<lparr>SwitchCount = 1, MaxSwitches = 3, FailedAccountIDs = {2}, SameAccountRetryCount = (\<lambda>_. 0),
       LastFailoverErr = Some overload_error, ForceCacheBilling = False, hasBoundSession = False,
       profitVetoedAccountIDs = {2}, profitVetoCount = 1\<rparr>,
     [Held 1, Forwarded 1, Released 1, Held 2, Released 2, Vetoed 2, Slept (2 * Second),
      Held 1, Forwarded 1, Released 1, Usage 1 False])"
  by (simp add: eval_nat_numeral round_eval)

definition demo_messages :: messages_config where
  "demo_messages = \<lparr>msg_maxAccountSwitches = 10, msg_boundSession = True, fallbackGroupID = None\<rparr>"

text \<open>The same through the messages handler: the sessions registered on the way are released, the last one stays.\<close>

lemma demo_messages_run:
  "failover_loop (messages_round demo_lib demo_messages) (\<lambda>m. FailedAccountIDs (msg_fs m)) demo_env 5 0 (NewMessagesState demo_messages) =
   Some (Answered, \<lparr>msg_fs = \<lparr>SwitchCount = 1, MaxSwitches = 10, FailedAccountIDs = {2}, SameAccountRetryCount = (\<lambda>_. 0),
       LastFailoverErr = Some overload_error, ForceCacheBilling = True, hasBoundSession = True,
       profitVetoedAccountIDs = {2}, profitVetoCount = 1\<rparr>, sessionSlotAccounts = [1], upstreamServedSession = True,
       fallbackUsed = False\<rparr>,
     [Held 1, Forwarded 1, Released 1, SessionReleased 1, Held 2, Released 2, Vetoed 2, SessionReleased 2, Slept (2 * Second),
      Held 1, Forwarded 1, Released 1, Usage 1 True])"
  by (simp add: eval_nat_numeral round_eval messages_round_def messages_body_def messages_forward_def drop_session_def
      with_fs_def NewMessagesState_def demo_messages_def)

lemma demo_careful: "careful_round (demo_env k X)"
  by (simp add: careful_round_def demo_defs)

theorem failover_slots_returned_witness:
  "slot_run None [Held 1, Forwarded 1, Released 1, Held 2, Released 2, Vetoed 2, Slept (2 * Second),
      Held 1, Forwarded 1, Released 1, Usage 1 False] = Some None \<and>
   slot_run None [Held 1, Forwarded 1, Released 1, SessionReleased 1, Held 2, Released 2, Vetoed 2, SessionReleased 2,
      Slept (2 * Second), Held 1, Forwarded 1, Released 1, Usage 1 True] = Some None"
  by (rule failover_slots_returned [OF demo_run demo_messages_run demo_careful])

section \<open>Refused accounts\<close>

lemma veto_ok_final: "veto_ok X (xs @ Vetoed a # ys) \<Longrightarrow> Forwarded a \<notin> set ys \<and> Vetoed a \<notin> set ys"
proof -
  have none: "veto_ok Y ys \<Longrightarrow> a \<in> Y \<Longrightarrow> Forwarded a \<notin> set ys \<and> Vetoed a \<notin> set ys" for Y ys
    by (induction Y ys rule: veto_ok.induct) auto
  assume "veto_ok X (xs @ Vetoed a # ys)"
  then show ?thesis using none [of "insert a (X \<union> refused xs)" ys] by simp
qed

text \<open>
  A refusal by the profit gate is final. When the selection returns no excluded account and the gate reads the
  account that was selected, an account that the gate refused during a request is not asked again by that request, nor
  refused a second time; letting the failed accounts back in after a 503 does not let it back in.
\<close>

theorem profit_veto_final:
  assumes "\<And>k X. honours X (env k X)"
    "failover_loop (handler_round lib h) FailedAccountIDs env N 0 (NewFailoverState n b) = Some (rep, s, es)"
    "es = xs @ Vetoed a # ys"
  shows "Forwarded a \<notin> set ys \<and> Vetoed a \<notin> set ys"
proof -
  have "profitVetoedAccountIDs (NewFailoverState n b) \<subseteq> FailedAccountIDs (NewFailoverState n b)"
    by (simp add: NewFailoverState_def)
  then have "veto_ok (profitVetoedAccountIDs (NewFailoverState n b)) es"
    by (rule hs_vets.loop_vetting [OF assms(1) _ assms(2)])
  then show ?thesis unfolding assms(3) by (rule veto_ok_final)
qed

lemma demo_honours: "honours X (demo_env k X)"
  by (simp add: honours_def demo_defs)

theorem profit_veto_final_witness:
  "Forwarded 2 \<notin> set [Slept (2 * Second), Held 1, Forwarded 1, Released 1, Usage 1 False] \<and>
   Vetoed 2 \<notin> set [Slept (2 * Second), Held 1, Forwarded 1, Released 1, Usage 1 False]"
  by (rule profit_veto_final [OF demo_honours demo_run,
        of "[Held 1, Forwarded 1, Released 1, Held 2, Released 2]"]) simp

section \<open>A request that gets no answer\<close>

text \<open>
  A Gemini group with a Gemini account and an Antigravity account that takes part in mixed scheduling. The Gemini
  account answers 503 once and is out of scheduling from then on; the client stays connected.
\<close>

definition spin_env :: "nat \<Rightarrow> int set \<Rightarrow> round" where
  "spin_env k X =
     (if k = 0 then demo_round (Some (demo_account 1 PlatformGemini)) False (FailsOver overload_error)
      else if 2 \<notin> X then demo_round (Some (demo_account 2 PlatformAntigravity)) False Served
      else demo_round None False Served)"

definition spin_cfg :: loop_config where
  "spin_cfg = \<lparr>groupPlatform = PlatformGemini, gemini_configured = True, antigravity_configured = True\<rparr>"

definition spinning :: "int \<Rightarrow> FailoverState \<Rightarrow> bool" where
  "spinning n s \<longleftrightarrow> SwitchCount s = 1 \<and> MaxSwitches s = n \<and> LastFailoverErr s = Some overload_error \<and>
     profitVetoedAccountIDs s = {}"

lemmas platform_defs = PlatformGemini_def PlatformAntigravity_def

lemma spin_step:
  assumes "spinning n s" "1 \<le> n"
  shows "\<exists>s' es. cc_round lib spin_cfg (spin_env (Suc k) (FailedAccountIDs s)) s = (Again, s', es) \<and> spinning n s' \<and> forwards es = 0"
proof (cases "2 \<in> FailedAccountIDs s")
  case True
  then have "FailedAccountIDs s \<noteq> {}" by blast
  then show ?thesis using assms True by (simp add: spin_env_def spinning_def round_eval)
next
  case False
  then show ?thesis using assms
    by (simp add: spin_env_def spinning_def spin_cfg_def round_eval platform_defs)
qed

lemma spin_on: "spinning n s \<Longrightarrow> 1 \<le> n \<Longrightarrow>
  failover_loop (cc_round lib spin_cfg) FailedAccountIDs spin_env N (Suc k) s = None"
proof (induction N arbitrary: k s)
  case (Suc N)
  obtain s' es where "cc_round lib spin_cfg (spin_env (Suc k) (FailedAccountIDs s)) s = (Again, s', es)" "spinning n s'"
    using spin_step [OF Suc.prems] by blast
  then show ?case using Suc.IH [of s' "Suc k"] Suc.prems(2) by simp
qed simp

text \<open>
  C36: The chat completions handler can keep a connected client waiting for ever. The account of another platform is
  excluded without being counted as a switch or as a refusal, and after a 503 the handler lets all excluded accounts
  back in whenever the selection finds none: with the Gemini account out of scheduling it passes over the Antigravity
  account, pauses, lets it back in and passes over it again. No number of rounds ends the loop, although no further
  upstream is asked.
\<close>

theorem cc_failover_spins:
  assumes "1 \<le> n"
  shows "failover_loop (handler_round lib (ChatCompletions spin_cfg)) FailedAccountIDs spin_env N 0 (NewFailoverState n False) = None"
proof (cases N)
  case (Suc N')
  have "\<exists>s es. cc_round lib spin_cfg (spin_env 0 {}) (NewFailoverState n False) = (Again, s, es) \<and> spinning n s"
    using assms by (simp add: spin_env_def spinning_def spin_cfg_def round_eval platform_defs shouldUseAntigravityCompat_def
        compat_forward_def)
  then obtain s es where "cc_round lib spin_cfg (spin_env 0 {}) (NewFailoverState n False) = (Again, s, es)" "spinning n s"
    by blast
  then show ?thesis using spin_on [of n s lib N' 0] assms Suc by (simp add: NewFailoverState_def)
qed simp

theorem cc_failover_spins_witness:
  "failover_loop (handler_round demo_lib (ChatCompletions spin_cfg)) FailedAccountIDs spin_env 1000 0 (NewFailoverState 3 False) = None"
  by (rule cc_failover_spins) simp

end
