(* ===== verification/SelectSafety.thy ===== *)
theory SelectSafety
  imports Select FailoverRuns
begin

text \<open>
  What the choice of an account guarantees: the account is one the gates admit, its slot is held exactly when the
  result says so, the least loaded account is tried first, and no account is overlooked. And what it does not: a
  selection that fails after taking a slot keeps the slot.
\<close>

section \<open>A layer of the selection\<close>

text \<open>The account the session of the request is bound to; it alone may use the sticky allowance of the gates.\<close>

definition session_bound :: "sel_env \<Rightarrow> Account \<Rightarrow> bool" where
  "session_bound env a \<longleftrightarrow> sessionHash env \<noteq> '''' \<and> stickyAccountID env > 0 \<and> acc_ID a = stickyAccountID env"

definition admitted :: "sel_env \<Rightarrow> Account \<Rightarrow> bool" where
  "admitted env a \<longleftrightarrow> a \<in> set (accounts env) \<and> acc_ID a \<notin> excludedIDs env \<and> eligible env (session_bound env a) a"

text \<open>
  From no slot held, a layer goes on with no slot held, or selects an admitted account and holds its slot exactly
  when it says so, or fails: only for the account cache with a slot in hand.
\<close>

definition sound_result :: "sel_env \<Rightarrow> layer \<Rightarrow> bool" where
  "sound_result env p \<longleftrightarrow>
     (case p of
        (None, tr) \<Rightarrow> slot_run None tr = Some None
      | (Some (Inl e), tr) \<Rightarrow> e = HydrationFailed \<or> slot_run None tr = Some None
      | (Some (Inr sel), tr) \<Rightarrow>
          \<exists>a. admitted env a \<and> hydrate env a = Some (sel_Account sel) \<and> releasable sel = sel_Acquired sel \<and>
              has_WaitPlan sel = (\<not> sel_Acquired sel) \<and>
              slot_run None tr = Some (if sel_Acquired sel then Some (acc_ID a) else None))"

definition sound_layer :: "sel_env \<Rightarrow> (trace \<Rightarrow> layer) \<Rightarrow> bool" where
  "sound_layer env f \<longleftrightarrow> (\<forall>tr. slot_run None tr = Some None \<longrightarrow> sound_result env (f tr))"

lemma sound_layerD: "sound_layer env f \<Longrightarrow> slot_run None tr = Some None \<Longrightarrow> sound_result env (f tr)"
  by (simp add: sound_layer_def)

lemma sound_none: "sound_layer env (Pair None)"
  by (simp add: sound_layer_def sound_result_def)

lemma sound_or_else:
  assumes "sound_result env p" "sound_layer env g"
  shows "sound_result env (or_else p g)"
  using assms by (cases p; cases "fst p") (auto simp: or_else_def sound_result_def sound_layer_def)

lemma sound_first_of:
  assumes "\<And>a. a \<in> set as \<Longrightarrow> sound_layer env (f a)"
  shows "sound_layer env (first_of f as)"
proof -
  have "\<forall>tr. slot_run None tr = Some None \<longrightarrow> sound_result env (first_of f as tr)"
    using assms
  proof (induction as)
    case (Cons a as)
    show ?case
    proof (intro allI impI)
      fix tr assume tr: "slot_run None tr = Some None"
      have "sound_result env (f a tr)" using Cons.prems tr by (simp add: sound_layer_def)
      then show "sound_result env (first_of f (a # as) tr)"
        using Cons by (cases "f a tr"; cases "fst (f a tr)") (auto simp: sound_result_def)
    qed
  qed (simp add: sound_result_def)
  then show ?thesis by (simp add: sound_layer_def)
qed

lemma session_slots: "checkAndRegisterSession env a tr = (b, tr') \<Longrightarrow> slot_run h tr' = slot_run h tr"
  by (auto simp: checkAndRegisterSession_def split: if_splits session_answer.splits option.splits)

lemma new_result_sound:
  assumes "admitted env a" "slot_run None tr = Some (if b then Some (acc_ID a) else None)"
  shows "sound_result env (Some (newSelectionResult env a b), tr)"
  using assms by (auto simp: newSelectionResult_def sound_result_def split: option.split)

lemma enqueue_sound: "admitted env a \<Longrightarrow> sound_layer env (enqueue env a)"
  unfolding sound_layer_def
proof (intro allI impI)
  fix tr assume a: "admitted env a" and tr: "slot_run None tr = Some None"
  obtain b tr2 where c: "checkAndRegisterSession env a tr = (b, tr2)" by fastforce
  have "slot_run None tr2 = Some None" using session_slots [OF c] tr by simp
  then show "sound_result env (enqueue env a tr)"
    using c new_result_sound [OF a, of tr2 False] by (cases b) (simp_all add: enqueue_def sound_result_def)
qed

lemma acquire_sound:
  assumes "admitted env a"
  shows "sound_layer env (acquire env a)"
  unfolding sound_layer_def
proof (intro allI impI)
  fix tr assume tr: "slot_run None tr = Some None"
  show "sound_result env (acquire env a tr)"
  proof (cases "try_slot env (length tr) (acc_ID a)")
    case True
    obtain b tr2 where c: "checkAndRegisterSession env a (tr @ [Held (acc_ID a)]) = (b, tr2)" by fastforce
    have "slot_run None tr2 = Some (Some (acc_ID a))" using session_slots [OF c] tr by simp
    then show ?thesis
      using True c new_result_sound [OF assms, of tr2 True]
      by (cases b) (simp_all add: acquire_def tryAcquireAccountSlot_def sound_result_def)
  next
    case False
    then show ?thesis using tr by (simp add: acquire_def tryAcquireAccountSlot_def sound_result_def)
  qed
qed

lemma may_wait_sound: "admitted env a \<Longrightarrow> sound_layer env (may_wait env a)"
  using enqueue_sound [of env a] by (auto simp: sound_layer_def may_wait_def sound_result_def)

section \<open>The layers are sound\<close>

lemma within_window_mono: "within_window w False \<Longrightarrow> within_window w True"
  by (cases w) (auto simp: within_window_def)

lemma eligible_sticky: "eligible env False a \<Longrightarrow> eligible env sticky a"
  by (cases sticky) (auto simp: eligible_def isAccountSchedulableForWindowCost_def isAccountSchedulableForRPM_def
      dest: within_window_mono split: if_splits option.splits)

lemma find_in: "find P xs = Some x \<Longrightarrow> x \<in> set xs \<and> P x"
  by (induction xs) (auto split: if_splits)

lemma account_by_id_some: "account_by_id env i = Some a \<Longrightarrow> a \<in> set (accounts env) \<and> acc_ID a = i"
  unfolding account_by_id_def by (drule find_in) simp

lemma candidates_admitted: "a \<in> set (candidates env) \<Longrightarrow> admitted env a"
  by (simp add: candidates_def admitted_def eligible_sticky)

lemma set_map_filter: "y \<in> set (List.map_filter f xs) \<longleftrightarrow> (\<exists>x\<in>set xs. f x = Some y)"
  by (induction xs) (auto simp: List.map_filter_simps split: option.split)

lemma routing_admitted: "a \<in> set (routing_candidates env) \<Longrightarrow> admitted env a"
  unfolding routing_candidates_def set_map_filter
proof (elim bexE)
  fix i
  assume "(if i \<in> excludedIDs env then None
      else case account_by_id env i of None \<Rightarrow> None | Some a \<Rightarrow> if eligible env False a then Some a else None) = Some a"
  then have "i \<notin> excludedIDs env" "account_by_id env i = Some a" "eligible env False a"
    by (auto split: if_splits option.splits)
  then show "admitted env a" using account_by_id_some [of env i a] by (simp add: admitted_def eligible_sticky)
qed

text \<open>Shuffling is by a permutation.\<close>

definition permuting :: "sel_env \<Rightarrow> bool" where
  "permuting env \<longleftrightarrow> (\<forall>as. mset (shuffle env as) = mset as)"

lemma shuffle_run_mset: "permuting env \<Longrightarrow> mset (shuffle_run env as) = mset as"
  by (simp add: shuffle_run_def permuting_def)

lemma group_runs_concat: "concat (group_runs same as) = as"
  by (induction same as rule: group_runs.induct) auto

lemma mset_runs:
  assumes "\<And>g. mset (f g) = mset g"
  shows "mset (concat (map f (group_runs same as))) = mset as"
proof -
  have "mset (concat (map f gs)) = mset (concat gs)" for gs by (induction gs) (auto simp: assms)
  then show ?thesis by (simp add: group_runs_concat)
qed

lemma shuffles_mset:
  assumes "permuting env"
  shows "mset (shuffleWithinSortGroups env loads as) = mset as"
    "mset (shuffleWithinPriorityAndLastUsed env p as) = mset as"
    "mset (shuffleWithinPriority env as) = mset as"
proof -
  show "mset (shuffleWithinSortGroups env loads as) = mset as" "mset (shuffleWithinPriority env as) = mset as"
    unfolding shuffleWithinSortGroups_def shuffleWithinPriority_def
    by (rule mset_runs, rule shuffle_run_mset [OF assms])+
  have part: "mset (filter P g) + mset (filter (\<lambda>a. \<not> P a) g) = mset g" for P and g :: "Account list"
    by (simp flip: multiset_partition)
  show "mset (shuffleWithinPriorityAndLastUsed env p as) = mset as"
    unfolding shuffleWithinPriorityAndLastUsed_def
    by (rule mset_runs) (simp add: shuffle_run_mset [OF assms] part)
qed

lemma sorted_sets:
  assumes "permuting env"
  shows "set (sortAccountsByPriorityAndLastUsed env p as) = set as"
    "set (sortCandidatesForFallback env p as) = set as"
    "set (shuffleWithinSortGroups env loads (sort_key k as)) = set as"
proof -
  have eq: "set as = set bs" if "mset as = mset bs" for as bs :: "Account list"
    using that by (rule mset_eq_setD)
  show s: "set (sortAccountsByPriorityAndLastUsed env p as) = set as"
    unfolding sortAccountsByPriorityAndLastUsed_def by (rule eq) (simp add: shuffles_mset [OF assms])
  show "set (sortCandidatesForFallback env p as) = set as"
    using s eq [of "shuffleWithinPriority env (sort_key (priority_key p) as)" as]
    by (simp add: sortCandidatesForFallback_def shuffles_mset [OF assms])
  show "set (shuffleWithinSortGroups env loads (sort_key k as)) = set as"
    by (rule eq) (simp add: shuffles_mset [OF assms])
qed

lemma sticky_routed_sound: "sound_layer env (sticky_routed env)"
  unfolding sound_layer_def
proof (intro allI impI)
  fix tr assume tr: "slot_run None tr = Some None"
  show "sound_result env (sticky_routed env tr)"
  proof (cases "sessionHash env \<noteq> '''' \<and> stickyAccountID env > 0 \<and> stickyAccountID env \<in> set (routingAccountIDs env) \<and>
      stickyAccountID env \<notin> excludedIDs env \<and> (\<exists>a. account_by_id env (stickyAccountID env) = Some a \<and> eligible env True a)")
    case True
    then obtain a where a: "account_by_id env (stickyAccountID env) = Some a" "eligible env True a" by blast
    have adm: "admitted env a" using account_by_id_some [OF a(1)] a(2) True by (simp add: admitted_def session_bound_def)
    have eq: "sticky_routed env tr =
        (case tryAcquireAccountSlot env a tr of (True, _) \<Rightarrow> acquire env a tr | (False, tr1) \<Rightarrow> may_wait env a tr1)"
      using True a by (simp add: sticky_routed_def acquire_def split: prod.split bool.split)
    show ?thesis
    proof (cases "try_slot env (length tr) (acc_ID a)")
      case True
      then show ?thesis using sound_layerD [OF acquire_sound [OF adm] tr] eq by (simp add: tryAcquireAccountSlot_def)
    next
      case False
      then show ?thesis using sound_layerD [OF may_wait_sound [OF adm] tr] eq by (simp add: tryAcquireAccountSlot_def)
    qed
  next
    case False
    then have "sticky_routed env tr = (None, tr)" by (auto simp: sticky_routed_def split: option.split)
    then show ?thesis using tr by (simp add: sound_result_def)
  qed
qed

lemma routed_sound:
  assumes "permuting env"
  shows "sound_layer env (routed_layer env)"
proof -
  let ?avail = "shuffleWithinSortGroups env (routing_loads env)
      (sort_key (routed_key (routing_loads env)) (with_room (routing_loads env) (routing_candidates env)))"
  have "a \<in> set ?avail \<Longrightarrow> admitted env a" for a
    by (rule routing_admitted) (simp add: sorted_sets [OF assms] with_room_def)
  then have l: "sound_layer env (first_of (acquire env) ?avail)" "sound_layer env (first_of (enqueue env) ?avail)"
    by (auto intro!: sound_first_of acquire_sound enqueue_sound)
  have "sound_layer env (\<lambda>tr1. or_else (first_of (acquire env) ?avail tr1) (first_of (enqueue env) ?avail))"
    unfolding sound_layer_def using sound_or_else l by (metis sound_layerD)
  then show ?thesis
    using sound_or_else sound_layerD [OF sticky_routed_sound] sound_layerD [OF sound_none]
    unfolding sound_layer_def [of env "routed_layer env"] routed_layer_def Let_def by auto
qed

lemma sticky_sound: "sound_layer env (sticky_layer env)"
  unfolding sound_layer_def
proof (intro allI impI)
  fix tr assume tr: "slot_run None tr = Some None"
  show "sound_result env (sticky_layer env tr)"
  proof (cases "sessionHash env \<noteq> '''' \<and> stickyAccountID env > 0 \<and> routingAccountIDs env = [] \<and>
      stickyAccountID env \<notin> excludedIDs env \<and>
      (\<exists>a. account_by_id env (stickyAccountID env) = Some a \<and> \<not> shouldClearStickySession env a \<and> eligible env True a)")
    case True
    then obtain a where a: "account_by_id env (stickyAccountID env) = Some a" "\<not> shouldClearStickySession env a"
        "eligible env True a" by blast
    have adm: "admitted env a" using account_by_id_some [OF a(1)] a(3) True by (simp add: admitted_def session_bound_def)
    have "sticky_layer env tr = or_else (acquire env a tr) (may_wait env a)" using True a by (simp add: sticky_layer_def)
    then show ?thesis
      using sound_or_else [OF sound_layerD [OF acquire_sound [OF adm] tr] may_wait_sound [OF adm]] by simp
  next
    case False
    then have "sticky_layer env tr = (None, tr)" by (auto simp: sticky_layer_def split: option.split)
    then show ?thesis using tr by (simp add: sound_result_def)
  qed
qed

lemma load_loop_sound:
  "(\<And>a. a \<in> set avail \<Longrightarrow> admitted env a) \<Longrightarrow> slot_run None tr = Some None \<Longrightarrow> sound_result env (load_loop env loads avail tr)"
proof (induction env loads avail tr rule: load_loop.induct)
  case (1 env loads avail tr)
  show ?case
  proof (cases "selectByLRU env (preferOAuth env) (best_candidates env loads avail)")
    case None
    then show ?thesis using "1.prems" by (simp add: load_loop.simps sound_result_def)
  next
    case (Some a)
    have "admitted env a" using Some selectByLRU_in best_candidates_subset "1.prems"(1) by blast
    then have s: "sound_result env (acquire env a tr)" using sound_layerD acquire_sound "1.prems"(2) by blast
    obtain r tr1 where r: "acquire env a tr = (r, tr1)" by fastforce
    show ?thesis
    proof (cases r)
      case None
      then have "sound_result env (load_loop env loads (filter (\<lambda>b. acc_ID b \<noteq> acc_ID a) avail) tr1)"
        using "1.IH" [OF Some] r s "1.prems"(1) by (auto simp: sound_result_def)
      then show ?thesis using Some r None by (simp add: load_loop.simps [of env loads avail])
    next
      case (Some x)
      then show ?thesis
        using s r \<open>selectByLRU env (preferOAuth env) (best_candidates env loads avail) = Some a\<close>
        by (simp add: load_loop.simps [of env loads avail])
    qed
  qed
qed

lemma load_sound:
  assumes "permuting env"
  shows "sound_layer env (load_layer env)"
proof -
  have "sound_layer env (first_of (acquire env) (sortAccountsByPriorityAndLastUsed env (preferOAuth env) (candidates env)))"
    by (rule sound_first_of, rule acquire_sound, rule candidates_admitted) (simp add: sorted_sets [OF assms])
  moreover have "sound_layer env (load_loop env loads (with_room loads (candidates env)))" for loads
    unfolding sound_layer_def by (intro allI impI load_loop_sound candidates_admitted) (simp_all add: with_room_def)
  moreover have "slot_run None tr = Some None \<Longrightarrow> sound_result env (Some (Inl e), tr)" for e tr
    by (simp add: sound_result_def)
  ultimately show ?thesis
    unfolding sound_layer_def load_layer_def tryAcquireByLegacyOrder_def by (simp split: option.split)
qed

lemma fallback_sound:
  assumes "permuting env"
  shows "sound_layer env (fallback_layer env)"
proof -
  have "sound_layer env (first_of (enqueue env) (sortCandidatesForFallback env (preferOAuth env) (candidates env)))"
    by (rule sound_first_of, rule enqueue_sound, rule candidates_admitted) (simp add: sorted_sets [OF assms])
  then show ?thesis by (simp add: sound_layer_def fallback_layer_def)
qed

text \<open>All layers together.\<close>

definition all_layers :: "sel_env \<Rightarrow> layer" where
  "all_layers env =
     or_else (routed_layer env []) (\<lambda>t1. or_else (sticky_layer env t1) (\<lambda>t2.
       or_else (load_layer env t2) (fallback_layer env)))"

lemma sound_chain:
  "sound_layer env f \<Longrightarrow> sound_layer env g \<Longrightarrow> sound_layer env (\<lambda>t. or_else (f t) g)"
  by (simp add: sound_layer_def sound_or_else [unfolded sound_layer_def])

lemma all_layers_sound: "permuting env \<Longrightarrow> sound_result env (all_layers env)"
  unfolding all_layers_def
  by (intro sound_or_else sound_chain sound_layerD [OF routed_sound] load_sound fallback_sound sticky_sound) simp_all

lemma select_layers:
  "SelectAccountWithLoadAwareness env =
     (if accounts env = [] then (Inl NoAvailable, [])
      else case all_layers env of (Some r, tr) \<Rightarrow> (r, tr) | (None, tr) \<Rightarrow> (Inl NoAvailable, tr))"
  by (simp add: SelectAccountWithLoadAwareness_def all_layers_def)

section \<open>Concrete selections\<close>

definition demo_select :: "Account list \<Rightarrow> int set \<Rightarrow> sel_env" where
  "demo_select as X =
     \<lparr>se_lib = demo_lib, se_ToLower = (\<lambda>s. s), se_now = 100 * Hour, se_platform = PlatformGemini, useMixed = True,
      accounts = as, excludedIDs = X, routingAccountIDs = [], stickyAccountID = 0, sessionHash = '''',
      profit_eligible = (\<lambda>_. True), model_supported = (\<lambda>_. True), channel_restricted = (\<lambda>_. False),
      quality_blocked = (\<lambda>_. False), model_limited = (\<lambda>_. False), credits_left = (\<lambda>_. False),
      limit_remaining = (\<lambda>_. 0), window_cost = (\<lambda>_. None), rpm_count = (\<lambda>_. None), waiting_count = (\<lambda>_. 0),
      StickySessionMaxWaiting = 3, PreferSoonestReset = False, FallbackSelectionMode = ''last_used'',
      routing_loads = (\<lambda>_. None), load_batch = Some [1 \<mapsto> 40, 2 \<mapsto> 20, 3 \<mapsto> 60], session_cache = True,
      try_slot = (\<lambda>_ _. True), register_session = (\<lambda>_ _. SessionAllowed), hydrate = Some, shuffle = rev,
      pick_index = (\<lambda>_. 0)\<rparr>"

definition demo_group :: "Account list" where
  "demo_group = [demo_account 1 PlatformGemini, demo_account 2 PlatformGemini, demo_account 3 PlatformAntigravity]"

lemmas gate_defs =
  eligible_def unrestricted_def isAccountSchedulableForSelection_def IsSchedulable_def isAccountAllowedForPlatform_def
  IsSchedulableForModelWithContext_def isAccountSchedulableForQuota_def SupportsAccountQuota_def
  AccountTypeSupportsQuota_def isAccountSchedulableForWindowCost_def isAccountSchedulableForRPM_def
  IsAnthropicOAuthOrSetupToken_def IsMixedSchedulingEnabled_def extra_true_def pending_def

lemmas name_defs =
  PlatformGemini_def PlatformAntigravity_def PlatformAnthropic_def AccountTypeOAuth_def AccountTypeSetupToken_def
  AccountTypeAPIKey_def AccountTypeBedrock_def AccountTypeServiceAccount_def StatusActive_def

lemma demo_candidates:
  "candidates (demo_select demo_group X) = filter (\<lambda>a. acc_ID a \<notin> X) [demo_account 1 PlatformGemini, demo_account 2 PlatformGemini]"
  by (simp add: candidates_def demo_select_def demo_group_def demo_account_def gate_defs name_defs)

lemma demo_shuffles: "permuting (demo_select as X)"
  by (simp add: permuting_def demo_select_def)

text \<open>Without routing and without a session only the last two layers act.\<close>

lemma plain_select:
  assumes "routingAccountIDs env = []" "sessionHash env = ''''" "candidates env \<noteq> []"
  shows "SelectAccountWithLoadAwareness env =
    (case or_else (load_layer env []) (fallback_layer env) of (Some r, tr) \<Rightarrow> (r, tr) | (None, tr) \<Rightarrow> (Inl NoAvailable, tr))"
proof -
  have "accounts env \<noteq> []" using assms(3) by (auto simp: candidates_def)
  then show ?thesis using assms by (simp add: select_layers all_layers_def routed_layer_def sticky_layer_def or_else_def)
qed

text \<open>When the best of the candidates has a slot and accepts the session, the selection ends with it.\<close>

lemma best_select:
  assumes "routingAccountIDs env = []" "sessionHash env = ''''" "load_batch env = Some loads"
    "selectByLRU env (preferOAuth env) (best_candidates env loads (with_room loads (candidates env))) = Some a"
    "try_slot env 0 (acc_ID a)"
  shows "SelectAccountWithLoadAwareness env = (newSelectionResult env a True, [Held (acc_ID a)])"
proof -
  have "a \<in> set (candidates env)"
    using selectByLRU_in [OF assms(4)] best_candidates_subset by (fastforce simp: with_room_def)
  then have ne: "candidates env \<noteq> []" by auto
  have "acquire env a [] = (Some (newSelectionResult env a True), [Held (acc_ID a)])"
    using assms(2,5) by (simp add: acquire_def tryAcquireAccountSlot_def checkAndRegisterSession_def)
  then show ?thesis
    using assms(3,4) ne by (simp add: plain_select [OF assms(1,2) ne] load_layer_def load_loop.simps or_else_def)
qed

lemma demo_best:
  "selectByLRU (demo_select demo_group {}) (preferOAuth (demo_select demo_group {}))
     (best_candidates (demo_select demo_group {}) [1 \<mapsto> 40, 2 \<mapsto> 20, 3 \<mapsto> 60]
       (with_room [1 \<mapsto> 40, 2 \<mapsto> 20, 3 \<mapsto> 60] (candidates (demo_select demo_group {})))) =
   Some (demo_account 2 PlatformGemini)"
  unfolding demo_candidates
  by (simp add: selectByLRU_def best_candidates_def filterByMinPriority_def filterByMinLoadRate_def least_def
      preference_rate_def accountLoadPreferenceRate_def with_room_def load_of_def demo_select_def demo_account_def)

lemma demo_select_run:
  "SelectAccountWithLoadAwareness (demo_select demo_group {}) =
     (Inr \<lparr>sel_Account = demo_account 2 PlatformGemini, sel_Acquired = True, releasable = True, has_WaitPlan = False\<rparr>, [Held 2])"
  by (subst best_select [OF _ _ _ demo_best])
    (simp_all add: demo_select_def newSelectionResult_def demo_account_def)

section \<open>Properties\<close>

text \<open>
  C14: The scheduler selects only what it may. A selected account is one of the group's, is not excluded by the
  request, and passes every gate: it is active, in scheduling, within its quota, of the right platform, accepted by the profit gate
  and the channel, and serves the model; its window cost and its rate admit new sessions, except for the account the request's
  session is bound to, where they need only be within the allowance for bound sessions. When the result says that a slot was
  acquired, exactly the slot of that account is held; when it asks the request to wait, none is.
\<close>

theorem selection_sound:
  assumes "permuting env" "SelectAccountWithLoadAwareness env = (Inr sel, tr)"
  shows "\<exists>a. a \<in> set (accounts env) \<and> acc_ID a \<notin> excludedIDs env \<and>
    eligible env (sessionHash env \<noteq> '''' \<and> stickyAccountID env > 0 \<and> acc_ID a = stickyAccountID env) a \<and>
    hydrate env a = Some (sel_Account sel) \<and> has_WaitPlan sel = (\<not> sel_Acquired sel) \<and>
    slot_run None tr = Some (if sel_Acquired sel then Some (acc_ID a) else None)"
  using all_layers_sound [OF assms(1)] assms(2)
  by (auto simp: select_layers sound_result_def admitted_def session_bound_def split: if_splits prod.splits option.splits)

theorem selection_sound_witness:
  "\<exists>a. a \<in> set demo_group \<and> acc_ID a \<notin> {} \<and> eligible (demo_select demo_group {}) False a \<and>
    Some a = Some (demo_account 2 PlatformGemini) \<and> slot_run None [Held 2] = Some (Some (acc_ID a))"
  using selection_sound [OF demo_shuffles demo_select_run] by (simp add: demo_select_def)

text \<open>
  The order of preference: priority, then (when configured) the session window that ends soonest, then the load
  rate, then the time of the last use.
\<close>

definition reset_key :: "sel_env \<Rightarrow> Account \<Rightarrow> int \<times> gotime" where
  "reset_key env a =
     (if \<not> PreferSoonestReset env then (0, 0)
      else if pending (se_now env) (SessionWindowEnd a) then (0, the (SessionWindowEnd a)) else (1, 0))"

definition preference :: "sel_env \<Rightarrow> (int \<rightharpoonup> int) \<Rightarrow> Account \<Rightarrow> int \<times> (int \<times> gotime) \<times> int \<times> gotime option" where
  "preference env loads a = (Priority a, reset_key env a, preference_rate loads a, LastUsedAt a)"

text \<open>The end of the window that ends soonest is the least end still to come.\<close>

definition ends_to_come :: "gotime \<Rightarrow> Account list \<Rightarrow> gotime set" where
  "ends_to_come now as = {t. \<exists>a\<in>set as. SessionWindowEnd a = Some t \<and> Before now t}"

lemma ends_to_come_finite: "finite (ends_to_come now as)"
  by (rule finite_subset [of _ "(\<lambda>a. the (SessionWindowEnd a)) ` set as"]) (force simp: ends_to_come_def)+

lemma ends_to_come_Cons:
  "ends_to_come now (a # as) = ends_to_come now as \<union>
     (case SessionWindowEnd a of Some t \<Rightarrow> if Before now t then {t} else {} | None \<Rightarrow> {})"
  by (auto simp: ends_to_come_def split: option.splits)

definition min_option :: "gotime set \<Rightarrow> gotime option" where
  "min_option S = (if S = {} then None else Some (Min S))"

lemma min_option_two: "finite S \<Longrightarrow> min_option (insert t (insert u S)) = min_option (insert (min t u) S)"
  by (cases "S = {}") (auto simp: min_option_def min.assoc)

lemma soonest_end_fold:
  "fold (\<lambda>a m. case SessionWindowEnd a of
        None \<Rightarrow> m
      | Some t \<Rightarrow> if \<not> Before now t then m else (case m of None \<Rightarrow> Some t | Some u \<Rightarrow> if Before t u then Some t else m)) as m0 =
   min_option (ends_to_come now as \<union> set_option m0)"
proof (induction as arbitrary: m0)
  case Nil
  then show ?case by (cases m0) (auto simp: ends_to_come_def min_option_def)
next
  case (Cons a as)
  show ?case
  proof (cases "\<exists>t. SessionWindowEnd a = Some t \<and> Before now t")
    case True
    then obtain t where t: "SessionWindowEnd a = Some t" "Before now t" by blast
    show ?thesis
    proof (cases m0)
      case (Some u)
      have b: "\<not> Before t u \<longrightarrow> min t u = u" "Before t u \<longrightarrow> min t u = t" by (auto simp: Before_def min_def)
      show ?thesis
        using Cons [of "Some (min t u)"] t Some min_option_two [OF ends_to_come_finite [of now as], of t u] b
        by (cases "Before t u") (simp_all add: ends_to_come_Cons insert_commute)
    qed (use Cons [of "Some t"] t in \<open>simp add: ends_to_come_Cons\<close>)
  next
    case False
    then show ?thesis using Cons [of m0] by (simp add: ends_to_come_Cons split: option.split)
  qed
qed

lemma soonest_end_min: "soonest_end now as = min_option (ends_to_come now as)"
  by (simp add: soonest_end_def soonest_end_fold)

lemma soonest_end_le:
  "soonest_end now as = Some t \<Longrightarrow> a \<in> set as \<Longrightarrow> SessionWindowEnd a = Some u \<Longrightarrow> Before now u \<Longrightarrow> t \<le> u"
proof -
  assume s: "soonest_end now as = Some t" and "a \<in> set as" "SessionWindowEnd a = Some u" "Before now u"
  then have "u \<in> ends_to_come now as" by (auto simp: ends_to_come_def)
  then have "Min (ends_to_come now as) \<le> u" by (rule Min_le [OF ends_to_come_finite])
  then show "t \<le> u" using s by (simp add: soonest_end_min min_option_def split: if_splits)
qed

lemma soonest_end_none: "soonest_end now as = None \<Longrightarrow> a \<in> set as \<Longrightarrow> \<not> pending now (SessionWindowEnd a)"
  by (auto simp: soonest_end_min min_option_def ends_to_come_def pending_def split: if_splits option.splits)

lemma soonest_reset_least:
  assumes "a \<in> set (if PreferSoonestReset env then filterBySoonestReset (se_now env) as else as)" "b \<in> set as"
  shows "reset_key env a < reset_key env b \<or>
    reset_key env a = reset_key env b \<and> b \<in> set (if PreferSoonestReset env then filterBySoonestReset (se_now env) as else as)"
proof (cases "PreferSoonestReset env \<and> \<not> length as \<le> 1")
  case True
  show ?thesis
  proof (cases "soonest_end (se_now env) as")
    case None
    then show ?thesis using assms True soonest_end_none [OF None] by (auto simp: filterBySoonestReset_def reset_key_def)
  next
    case (Some t)
    then have a: "reset_key env a = (0, t)" using assms(1) True by (auto simp: filterBySoonestReset_def reset_key_def)
    show ?thesis
    proof (cases "pending (se_now env) (SessionWindowEnd b)")
      case pb: True
      then obtain u where u: "SessionWindowEnd b = Some u" "Before (se_now env) u" by (auto simp: pending_def split: option.splits)
      then have "t \<le> u" using soonest_end_le [OF Some assms(2)] by blast
      then show ?thesis using a True Some assms(2) pb u by (auto simp: filterBySoonestReset_def reset_key_def less_prod_simp)
    next
      case False
      then show ?thesis using a True by (simp add: reset_key_def less_prod_simp)
    qed
  qed
next
  case False
  then consider "\<not> PreferSoonestReset env" | "PreferSoonestReset env" "length as \<le> 1" by auto
  then show ?thesis
  proof cases
    case 2
    then have "a = b" using assms by (cases as) (auto simp: filterBySoonestReset_def)
    then show ?thesis using assms 2 by (auto simp: filterBySoonestReset_def)
  qed (use assms in \<open>auto simp: reset_key_def\<close>)
qed

lemma least_filter: "a \<in> set (filter (\<lambda>a. f a = least f as) as) \<Longrightarrow> b \<in> set as \<Longrightarrow>
    f a < f b \<or> f a = f b \<and> b \<in> set (filter (\<lambda>a. f a = least f as) as)"
  using least_le [of b as f] by auto

lemma least_recent_le:
  assumes "a \<in> set (least_recent as)" "b \<in> set as"
  shows "LastUsedAt a \<le> LastUsedAt b"
proof (cases "list_ex (\<lambda>a. LastUsedAt a = None) as")
  case True
  then show ?thesis using assms(1) by (simp add: least_recent_def)
next
  case False
  then obtain t where t: "LastUsedAt b = Some t" using assms(2) by (auto simp: list_ex_iff)
  then have "least (\<lambda>b. the (LastUsedAt b)) as \<le> t" using least_le [OF assms(2), of "\<lambda>b. the (LastUsedAt b)"] by simp
  then show ?thesis using assms(1) False t by (simp add: least_recent_def)
qed

text \<open>
  C35: The account tried first is the best there is: of the accounts with room, none has a smaller priority number, none
  of the same priority a window that ends sooner (where that is asked for), none of those a lower load rate, and none of
  those was used longer ago.
\<close>

theorem first_choice_best:
  assumes "selectByLRU env p (best_candidates env loads avail) = Some a" "b \<in> set avail"
  shows "preference env loads a \<le> preference env loads b"
proof -
  let ?c1 = "filterByMinPriority avail"
  let ?c2 = "if PreferSoonestReset env then filterBySoonestReset (se_now env) ?c1 else ?c1"
  let ?c3 = "filterByMinLoadRate loads ?c2"
  have c3: "best_candidates env loads avail = ?c3" by (simp add: best_candidates_def Let_def)
  have a3: "a \<in> set (least_recent ?c3)" using selectByLRU_recent [OF assms(1)] by (simp only: c3)
  then have a: "a \<in> set ?c3" using filters_subset(4) by blast
  then have a2: "a \<in> set ?c2" using filters_subset(2) by blast
  then have a1: "a \<in> set ?c1" using filters_subset(3) by (auto split: if_splits)
  have p: "Priority a < Priority b \<or> Priority a = Priority b \<and> b \<in> set ?c1"
    using least_filter [of a Priority avail b] a1 assms(2) by (cases "avail = []") (auto simp: filterByMinPriority_def)
  have r: "b \<in> set ?c1 \<Longrightarrow> reset_key env a < reset_key env b \<or> reset_key env a = reset_key env b \<and> b \<in> set ?c2"
    by (rule soonest_reset_least [OF a2])
  have l: "b \<in> set ?c2 \<Longrightarrow> preference_rate loads a < preference_rate loads b \<or>
      preference_rate loads a = preference_rate loads b \<and> b \<in> set ?c3"
    using least_filter [of a "preference_rate loads" ?c2 b] a by (cases "?c2 = []") (simp_all add: filterByMinLoadRate_def)
  have u: "b \<in> set ?c3 \<Longrightarrow> LastUsedAt a \<le> LastUsedAt b" by (rule least_recent_le [OF a3])
  show ?thesis unfolding preference_def less_eq_prod_simp using p r l u by (metis order_refl)
qed

theorem first_choice_best_witness:
  "preference (demo_select demo_group {}) [1 \<mapsto> 40, 2 \<mapsto> 20, 3 \<mapsto> 60] (demo_account 2 PlatformGemini) \<le>
   preference (demo_select demo_group {}) [1 \<mapsto> 40, 2 \<mapsto> 20, 3 \<mapsto> 60] (demo_account 1 PlatformGemini)"
  by (rule first_choice_best [OF demo_best])
    (simp add: demo_candidates with_room_def load_of_def demo_account_def)

section \<open>No account is overlooked\<close>

text \<open>A layer that never fails, given an account cache that knows every account.\<close>

definition no_error :: "(trace \<Rightarrow> layer) \<Rightarrow> bool" where
  "no_error f \<longleftrightarrow> (\<forall>tr e. fst (f tr) \<noteq> Some (Inl e))"

definition all_known :: "sel_env \<Rightarrow> bool" where
  "all_known env \<longleftrightarrow> (\<forall>a. hydrate env a \<noteq> None)"

lemma new_result_ok: "all_known env \<Longrightarrow> newSelectionResult env a b \<noteq> Inl e"
  unfolding newSelectionResult_def all_known_def by (cases "hydrate env a") (simp_all, metis option.distinct(1))

lemma no_error_parts:
  assumes "all_known env"
  shows "no_error (acquire env a)" "no_error (enqueue env a)" "no_error (may_wait env a)"
  using new_result_ok [OF assms]
  by (auto simp: no_error_def acquire_def enqueue_def may_wait_def split: prod.split bool.split)

lemma no_error_first_of: "(\<And>a. no_error (f a)) \<Longrightarrow> no_error (first_of f as)"
  unfolding no_error_def
  by (induction as) (auto split: prod.split option.split, metis fst_conv)

lemma no_error_or_else: "no_error f \<Longrightarrow> no_error g \<Longrightarrow> no_error (\<lambda>t. or_else (f t) g)"
  by (auto simp: no_error_def or_else_def split: prod.split option.split) (metis fst_conv)

lemma no_error_sticky_routed:
  assumes "all_known env"
  shows "no_error (sticky_routed env)"
  using no_error_parts(3) [OF assms] new_result_ok [OF assms]
  by (auto simp: sticky_routed_def no_error_def split: option.split prod.split bool.split)

lemma no_error_routed:
  assumes "all_known env"
  shows "no_error (routed_layer env)"
proof -
  let ?avail = "shuffleWithinSortGroups env (routing_loads env)
      (sort_key (routed_key (routing_loads env)) (with_room (routing_loads env) (routing_candidates env)))"
  have "no_error (\<lambda>t. or_else (sticky_routed env t)
      (\<lambda>t1. or_else (first_of (acquire env) ?avail t1) (first_of (enqueue env) ?avail)))"
    by (intro no_error_or_else no_error_first_of no_error_sticky_routed no_error_parts assms)
  then show ?thesis by (simp add: no_error_def routed_layer_def Let_def)
qed

lemma no_error_sticky:
  assumes "all_known env"
  shows "no_error (sticky_layer env)"
proof -
  have "no_error (\<lambda>t. or_else (acquire env a t) (may_wait env a))" for a
    by (intro no_error_or_else no_error_parts assms)
  then show ?thesis by (auto simp: no_error_def sticky_layer_def split: option.split)
qed

lemma no_error_load_loop: "all_known env \<Longrightarrow> fst (load_loop env loads avail tr) \<noteq> Some (Inl e)"
proof (induction env loads avail tr rule: load_loop.induct)
  case (1 env loads avail tr)
  show ?case
  proof (cases "selectByLRU env (preferOAuth env) (best_candidates env loads avail)")
    case None
    then show ?thesis by (simp add: load_loop.simps)
  next
    case (Some a)
    obtain r tr1 where r: "acquire env a tr = (r, tr1)" by fastforce
    have "r \<noteq> Some (Inl e)" using no_error_parts(1) [OF "1.prems", of a] r by (auto simp: no_error_def) (metis fst_conv)
    then show ?thesis
      using "1.IH" [OF Some r [symmetric] _ "1.prems"] Some r
      by (cases r) (auto simp: load_loop.simps [of env loads avail])
  qed
qed

lemma no_error_load:
  assumes "all_known env" "candidates env \<noteq> []"
  shows "no_error (load_layer env)"
  using no_error_first_of [of "acquire env"] no_error_parts(1) [OF assms(1)] no_error_load_loop [OF assms(1)] assms(2)
  by (auto simp: no_error_def load_layer_def tryAcquireByLegacyOrder_def split: option.split)

text \<open>An account at which no session is refused.\<close>

definition sessions_free :: "sel_env \<Rightarrow> Account \<Rightarrow> bool" where
  "sessions_free env a \<longleftrightarrow>
     \<not> IsAnthropicOAuthOrSetupToken a \<or> GetMaxSessions (se_lib env) a \<le> 0 \<or> sessionHash env = '''' \<or> \<not> session_cache env \<or>
     (\<forall>n. register_session env n (acc_ID a) \<noteq> SessionDenied)"

lemma enqueue_some: "sessions_free env a \<Longrightarrow> fst (enqueue env a tr) \<noteq> None"
  by (auto simp: sessions_free_def enqueue_def checkAndRegisterSession_def split: session_answer.split)

lemma first_of_some: "a \<in> set as \<Longrightarrow> (\<And>tr. fst (f a tr) \<noteq> None) \<Longrightarrow> fst (first_of f as tr) \<noteq> None"
  by (induction as arbitrary: tr) (auto split: prod.split option.split, metis fst_conv option.distinct(1))

lemma or_else_some: "(\<And>t. fst (g t) \<noteq> None) \<Longrightarrow> fst (or_else p g) \<noteq> None"
  by (auto simp: or_else_def split: prod.split option.split)

text \<open>
  C17: No account is overlooked. When some account of the group passes the gates, is not excluded and refuses no
  session, and the account cache knows the accounts, the scheduler returns an account, whatever the slots answer: in
  the worst case with a place in the queue.
\<close>

theorem selection_complete:
  assumes "permuting env" "all_known env" "a \<in> set (accounts env)" "acc_ID a \<notin> excludedIDs env"
    "eligible env False a" "sessions_free env a"
  shows "\<exists>sel tr. SelectAccountWithLoadAwareness env = (Inr sel, tr)"
proof -
  have c: "a \<in> set (candidates env)" using assms(3-5) by (simp add: candidates_def)
  then have ne: "candidates env \<noteq> []" by auto
  have "fst (fallback_layer env t) \<noteq> None" for t
    unfolding fallback_layer_def
    by (rule first_of_some [of a]) (use c enqueue_some [OF assms(6)] in \<open>simp_all add: sorted_sets [OF assms(1)]\<close>)
  then have some: "fst (all_layers env) \<noteq> None" unfolding all_layers_def by (intro or_else_some)
  have "no_error (\<lambda>t. or_else (routed_layer env t) (\<lambda>t1. or_else (sticky_layer env t1)
      (\<lambda>t2. or_else (load_layer env t2) (fallback_layer env))))"
    using no_error_first_of [of "enqueue env", OF no_error_parts(2) [OF assms(2)]]
    by (intro no_error_or_else no_error_routed no_error_sticky no_error_load ne assms(2))
      (simp add: fallback_layer_def no_error_def)
  then have "fst (all_layers env) \<noteq> Some (Inl e)" for e by (simp add: no_error_def all_layers_def)
  then obtain sel where "fst (all_layers env) = Some (Inr sel)" using some by (cases "fst (all_layers env)") (auto, metis sum.exhaust)
  then show ?thesis using assms(3) by (cases "all_layers env") (auto simp: select_layers)
qed

theorem selection_complete_witness:
  "\<exists>sel tr. SelectAccountWithLoadAwareness ((demo_select demo_group {})\<lparr>try_slot := \<lambda>_ _. False\<rparr>) = (Inr sel, tr)"
proof (rule selection_complete [where a = "demo_account 1 PlatformGemini"])
  let ?env = "(demo_select demo_group {})\<lparr>try_slot := \<lambda>_ _. False\<rparr>"
  show "permuting ?env" "all_known ?env" "demo_account 1 PlatformGemini \<in> set (accounts ?env)"
      "acc_ID (demo_account 1 PlatformGemini) \<notin> excludedIDs ?env"
    by (simp_all add: permuting_def all_known_def demo_select_def demo_group_def)
  show "eligible ?env False (demo_account 1 PlatformGemini)" "sessions_free ?env (demo_account 1 PlatformGemini)"
    by (simp_all add: demo_select_def demo_account_def gate_defs name_defs sessions_free_def)
qed

text \<open>
  C37: A selection can fail and keep a slot. The slot is taken before the account is read again from the account cache;
  when that read fails, the selection returns the error and nothing gives the slot back: the best account is charged
  with a request that does not exist, until the slot service lets the slot expire.
\<close>

theorem selection_slot_leak:
  assumes "routingAccountIDs env = []" "sessionHash env = ''''" "load_batch env = Some loads"
    "selectByLRU env (preferOAuth env) (best_candidates env loads (with_room loads (candidates env))) = Some a"
    "try_slot env 0 (acc_ID a)" "hydrate env a = None"
  shows "SelectAccountWithLoadAwareness env = (Inl HydrationFailed, [Held (acc_ID a)]) \<and>
    slot_run None [Held (acc_ID a)] = Some (Some (acc_ID a))"
  using best_select [OF assms(1-5)] assms(6) by (simp add: newSelectionResult_def)

lemma demo_best_unknown:
  "selectByLRU ((demo_select demo_group {})\<lparr>hydrate := \<lambda>_. None\<rparr>) (preferOAuth ((demo_select demo_group {})\<lparr>hydrate := \<lambda>_. None\<rparr>))
     (best_candidates ((demo_select demo_group {})\<lparr>hydrate := \<lambda>_. None\<rparr>) [1 \<mapsto> 40, 2 \<mapsto> 20, 3 \<mapsto> 60]
       (with_room [1 \<mapsto> 40, 2 \<mapsto> 20, 3 \<mapsto> 60] (candidates ((demo_select demo_group {})\<lparr>hydrate := \<lambda>_. None\<rparr>)))) =
   Some (demo_account 2 PlatformGemini)"
proof -
  have "candidates ((demo_select demo_group {})\<lparr>hydrate := \<lambda>_. None\<rparr>) = [demo_account 1 PlatformGemini, demo_account 2 PlatformGemini]"
    by (simp add: candidates_def demo_select_def demo_group_def demo_account_def gate_defs name_defs)
  then show ?thesis
    by (simp only:) (simp add: selectByLRU_def best_candidates_def filterByMinPriority_def filterByMinLoadRate_def least_def
      preference_rate_def accountLoadPreferenceRate_def with_room_def load_of_def demo_select_def demo_account_def)
qed

theorem selection_slot_leak_witness:
  "SelectAccountWithLoadAwareness ((demo_select demo_group {})\<lparr>hydrate := \<lambda>_. None\<rparr>) = (Inl HydrationFailed, [Held 2]) \<and>
   slot_run None [Held 2] = Some (Some 2)"
  using selection_slot_leak [OF _ _ _ demo_best_unknown] by (simp add: demo_select_def demo_account_def)

section \<open>Requests over this scheduler\<close>

text \<open>What a round of a request meets when its selection is this scheduler's.\<close>

definition selected :: "sel_env \<Rightarrow> selection option" where
  "selected env = (case fst (SelectAccountWithLoadAwareness env) of Inr sel \<Rightarrow> Some sel | Inl _ \<Rightarrow> None)"

definition keeps_ids :: "sel_env \<Rightarrow> bool" where
  "keeps_ids env \<longleftrightarrow> (\<forall>a h. hydrate env a = Some h \<longrightarrow> acc_ID h = acc_ID a)"

definition scheduled_round :: "sel_env \<Rightarrow> int set \<Rightarrow> round \<Rightarrow> bool" where
  "scheduled_round env X r \<longleftrightarrow>
     permuting env \<and> keeps_ids env \<and> X \<subseteq> excludedIDs env \<and> picked r = selected env \<and>
     (picked r = None \<or> acc_ID (latest r) = acc_ID (sel_Account (the (picked r))))"

lemma scheduled_honours: "scheduled_round env X r \<Longrightarrow> honours X r"
proof -
  assume s: "scheduled_round env X r"
  obtain x tr where x: "SelectAccountWithLoadAwareness env = (x, tr)" by fastforce
  show "honours X r"
  proof (cases x)
    case (Inl e)
    then show ?thesis using s x by (simp add: scheduled_round_def honours_def selected_def)
  next
    case (Inr sel)
    have "all_layers env = (Some x, tr)"
      using x Inr by (auto simp: select_layers split: if_splits prod.splits option.splits)
    then obtain a where "admitted env a" "hydrate env a = Some (sel_Account sel)"
      using all_layers_sound [of env] s Inr by (auto simp: scheduled_round_def sound_result_def)
    then have "acc_ID (sel_Account sel) \<notin> X"
      using s by (auto simp: scheduled_round_def keeps_ids_def admitted_def)
    then show ?thesis using s x Inr by (auto simp: scheduled_round_def honours_def selected_def)
  qed
qed

text \<open>
  C16: A refusal by the profit gate is final. In a request whose accounts come from this scheduler, an account that the
  gate refused is not asked again by that request, nor refused a second time, in each of the five loops that serve one
  group: also when the accounts that failed are let back in after a 503. The account cache and the gate are taken to
  answer for the account they are asked about.
\<close>

theorem scheduled_veto_final:
  assumes "\<And>k X. scheduled_round (E k X) X (env k X)"
    "failover_loop (handler_round lib h) FailedAccountIDs env N 0 (NewFailoverState n b) = Some (rep, s, es)"
    "es = xs @ Vetoed a # ys"
  shows "Forwarded a \<notin> set ys \<and> Vetoed a \<notin> set ys"
  by (rule profit_veto_final [OF scheduled_honours [OF assms(1)] assms(2,3)])

text \<open>The group of three: account 2 is refused, account 1 serves.\<close>

definition sched_env :: "nat \<Rightarrow> int set \<Rightarrow> round" where
  "sched_env k X =
     (demo_round None (k = 0) Served)\<lparr>picked := selected (demo_select demo_group X),
        latest := (case selected (demo_select demo_group X) of Some sel \<Rightarrow> sel_Account sel | None \<Rightarrow> demo_account 0 '''')\<rparr>"

lemma sched_round: "scheduled_round (demo_select demo_group X) X (sched_env k X)"
proof -
  have "keeps_ids (demo_select demo_group X)" "excludedIDs (demo_select demo_group X) = X"
    by (simp_all add: keeps_ids_def demo_select_def)
  then show ?thesis by (auto simp: scheduled_round_def sched_env_def demo_shuffles split: option.split)
qed

lemma sched_first: "selected (demo_select demo_group {}) =
    Some \<lparr>sel_Account = demo_account 2 PlatformGemini, sel_Acquired = True, releasable = True, has_WaitPlan = False\<rparr>"
  by (simp add: selected_def demo_select_run)

lemma sched_second: "selected (demo_select demo_group {2}) =
    Some \<lparr>sel_Account = demo_account 1 PlatformGemini, sel_Acquired = True, releasable = True, has_WaitPlan = False\<rparr>"
proof -
  have "selectByLRU (demo_select demo_group {2}) (preferOAuth (demo_select demo_group {2}))
     (best_candidates (demo_select demo_group {2}) [1 \<mapsto> 40, 2 \<mapsto> 20, 3 \<mapsto> 60]
       (with_room [1 \<mapsto> 40, 2 \<mapsto> 20, 3 \<mapsto> 60] (candidates (demo_select demo_group {2})))) =
     Some (demo_account 1 PlatformGemini)"
    unfolding demo_candidates
    by (simp add: selectByLRU_def best_candidates_def filterByMinPriority_def filterByMinLoadRate_def least_def
        preference_rate_def accountLoadPreferenceRate_def with_room_def load_of_def demo_select_def demo_account_def)
  from best_select [OF _ _ _ this]
  show ?thesis by (simp add: selected_def) (simp add: demo_select_def newSelectionResult_def demo_account_def)
qed

lemma sched_run:
  "failover_loop (handler_round demo_lib SystemOne) FailedAccountIDs sched_env 3 0 (NewFailoverState 3 False) =
   Some (Answered, (NewFailoverState 3 False)\<lparr>FailedAccountIDs := {2}, profitVetoedAccountIDs := {2}, profitVetoCount := 1\<rparr>,
     [Held 2, Released 2, Vetoed 2, Held 1, Forwarded 1, Released 1, Usage 1 False])"
proof -
  have r0: "sched_env 0 {} = (demo_round (Some (demo_account 2 PlatformGemini)) True Served)"
    by (simp add: sched_env_def sched_first) (simp add: demo_round_def)
  have r1: "sched_env (Suc 0) {2} = (demo_round (Some (demo_account 1 PlatformGemini)) False Served)"
    by (simp add: sched_env_def sched_second) (simp add: demo_round_def)
  have served: "systemone_round demo_lib (demo_round (Some (demo_account i p)) False Served) s =
      (Return Answered, s, [Held i, Forwarded i, Released i, Usage i False])" for i p s
    by (simp add: systemone_round_def demo_round_def demo_account_def account_slot_def and_then_def hold_def
        give_back_def systemone_forward_def)
  have refuses: "systemone_round demo_lib (demo_round (Some (demo_account i p)) True Served) (NewFailoverState 3 False) =
      (Again, (NewFailoverState 3 False)\<lparr>FailedAccountIDs := {i}, profitVetoedAccountIDs := {i}, profitVetoCount := 1\<rparr>,
       [Held i, Released i, Vetoed i])" for i p
    by (simp add: systemone_round_def demo_round_def demo_account_def account_slot_def and_then_def hold_def
        give_back_def profit_veto_def RecordProfitVeto_def NewFailoverState_def maxProfitVetoAttempts_def)
  have "FailedAccountIDs (NewFailoverState 3 False) = {}" by (simp add: NewFailoverState_def)
  then show ?thesis by (simp add: eval_nat_numeral r0 r1 served refuses)
qed

theorem scheduled_veto_final_witness:
  "Forwarded 2 \<notin> set [Held 1, Forwarded 1, Released 1, Usage 1 False] \<and>
   Vetoed 2 \<notin> set [Held 1, Forwarded 1, Released 1, Usage 1 False]"
  by (rule scheduled_veto_final [OF sched_round sched_run, of "[Held 2, Released 2]"]) simp

end
