(* ===== verification/Spec2Isabelle.thy ===== *)
theory Spec2Isabelle
  imports SlotSystem RedisWait RegionWait LedgerSystem Replica Broker SysLock Circuit KeywordScan BillingQuotas PayRefundSafety SelectSafety
begin

text \<open>
  The program is a gateway that sells access to the accounts of AI providers. It can run in several regions. This
  development verifies the parts of its Go backend (\<^verbatim>\<open>backend/internal\<close>) that decide about money, about
  concurrency slots, and about which account serves a request. Paths below are relative to that directory.

  \<^bold>\<open>The program and its parts.\<close> A request arrives at a handler. The handler asks the scheduler for an account, takes a slot
  of that account, forwards the request, and on a failure moves on to another account (\<open>handler/\<close>,
  \<open>service/gateway_scheduling.go\<close>). What the request cost is staged in a journal and charged to the customer's
  balance, key, subscription and quotas (\<open>service/usage_billing*.go\<close>, \<open>repository/usage_billing*.go\<close>).
  Balances are filled by payments and emptied again by refunds (\<open>service/payment_*.go\<close>). A region works without the
  primary: it is granted slots and money in advance (\<open>regional/slots\<close>, \<open>regional/ledger\<close>), a background worker fetches
  the grants (\<open>regional/control/broker.go\<close>), configuration reaches it as sealed snapshots (\<open>regional/sync.go\<close>), and
  usage events travel back through an outbox. Beside these stand idempotency keys, the lock of system operations, the
  circuit breaker of proxies and the keyword matcher of the content moderation.

  \<^bold>\<open>How the code is modelled.\<close> A struct is a record, an enumeration a datatype, a SQL table a list of rows with the columns
  the modelled statements read or write, an error value a constructor of the component's error type. An operation is a
  function on the tables; it keeps the order of the code's checks and every early return. A transaction is run by
  \<open>run_tx\<close> of \<open>Prelude\<close> under a \<open>db_fault\<close>: a statement may fail, which rolls back, and a commit may be reported as
  failed although it took effect. Locks on rows make an operation on them one step; where an operation is several
  transactions, other steps may come between them. Time is an integer number of nanoseconds and an argument. Amounts of the
  regional ledger are \<open>int64\<close> nano dollars with their range tests; amounts of billing and payments are rationals, because
  a \<open>float64\<close> amount is sent as its shortest decimal and a NUMERIC column holds a decimal. What is not under
  \<open>backend/internal\<close>, or is the standard library's own algorithm (ciphers, SHA-256, JSON, upper and lower case,
  \<open>strconv.ParseFloat\<close>, calendars), is an argument of the definitions that use it, and so is what providers and
  clients answer. A Lua script is one step on the keyspace of Redis, at one time of its clock.

  \<^bold>\<open>Theories.\<close>
  \<^item> \<open>Prelude\<close> (Go scalars, clock, tables, transactions), \<open>Decimal\<close> (decimal text), \<open>GoText\<close> (UTF-8, trimming,
    account types): the vocabulary, with the simplification sets the component proofs use.
  \<^item> \<open>Contracts\<close>: \<open>regional/contracts.go\<close>, the validators of what the primary and a region exchange. \<open>Money\<close>:
    \<open>regional/ledger/amount.go\<close> and the charge of \<open>pricing.go\<close>.
  \<^item> \<open>Slots\<close>: \<open>regional/slots/slots.go\<close>, the authority's budgets and grants. \<open>SlotsLocal\<close>: \<open>regional/slots/local.go\<close>,
    a region under its grants. \<open>SlotSystem\<close>: the two with the messages between them. \<open>SlotPool\<close>: the interface
    \<open>repository/regional_concurrency_cache.go\<close> puts over both. \<open>KeyQueue\<close>: \<open>repository/regional_queue.go\<close>, the
    queue of requests that wait for a slot.
  \<^item> \<open>Redis\<close>: sorted sets, counters and the expiry of keys, as Redis documents them. \<open>RedisSlots\<close>: the scripts of
    \<open>repository/concurrency_cache.go\<close>, each a function of the time and the keyspace. \<open>RedisLeases\<close>, \<open>RedisOps\<close>: what the
    rows of a sorted set mean, and that every script keeps that meaning. \<open>RedisSafety\<close>, \<open>RedisRuns\<close>: limits and aborted
    attempts in runs of the cache.
  \<^item> \<open>KeyWait\<close>: \<open>service/api_key_queue.go\<close>, how a request reserves a slot of its key, waits for one in rounds, hands it
    over and cleans up. \<open>RegionWait\<close>, \<open>RedisWait\<close>: the same over the SQL queue and over the Redis scripts.
  \<^item> \<open>Ledger\<close>: \<open>regional/ledger/local.go\<close> and \<open>events.go\<close>. \<open>LedgerPrimary\<close>: \<open>primary.go\<close>,
    \<open>primary_requests.go\<close> and the price store. \<open>Dispatch\<close>: \<open>execution.go\<close>, the boundary at which a metered request
    is sent. \<open>LedgerSystem\<close>: the funds protocol, with the outbox worker of \<open>worker.go\<close>.
  \<^item> \<open>Replica\<close>: \<open>regional/sync.go\<close>. \<open>Broker\<close>: \<open>regional/control/broker.go\<close>.
  \<^item> \<open>Idempotency\<close>: \<open>service/idempotency.go\<close> and its repository. \<open>SysLock\<close>:
    \<open>service/system_operation_lock_service.go\<close>, which uses the same table.
  \<^item> \<open>Circuit\<close>: \<open>service/openai_proxy_stream_circuit.go\<close>. \<open>Keyword\<close>, \<open>KeywordCorrect\<close>, \<open>KeywordScan\<close>:
    \<open>service/content_moderation_keyword_matcher.go\<close>, its arrays, the automaton they represent, and the scan.
  \<^item> \<open>Billing\<close>: commands, claims and the effects of a charge. \<open>BatchMoney\<close>: the money held for batch image jobs.
    \<open>UsageDelivery\<close>: the journal. \<open>BillingMoney\<close>, \<open>BillingSystem\<close>, \<open>BillingQuotas\<close>: their steps on one database and
    what holds in every order of them.
  \<^item> \<open>PayOrder\<close>: orders, amounts and decisions. \<open>PayAmounts\<close>: bonuses, fees and minor units. \<open>PayTask\<close>: the handlers of
    \<open>service/payment_fulfillment.go\<close>, \<open>payment_order*.go\<close> and \<open>redeem_service.go\<close>. \<open>PayRefund\<close>:
    \<open>service/payment_refund.go\<close>. \<open>PaySystem\<close>: any number of tasks over one database. \<open>PayInvariant\<close>, \<open>PaySafety\<close>,
    \<open>PayRefundSafety\<close>: the invariant and the properties of payments and refunds.
  \<^item> \<open>Account\<close>: the accessors of \<open>service/account.go\<close> that scheduling reads. \<open>Failover\<close>:
    \<open>handler/failover_loop.go\<close>. \<open>FailoverLoop\<close>: one round of the loop of each of six handlers. \<open>FailoverSafety\<close>,
    \<open>FailoverRuns\<close>: the contracts of a round and what they give for whole requests. \<open>Select\<close>, \<open>SelectSafety\<close>:
    \<open>service/gateway_scheduling.go\<close>, the load-aware selection, and requests over it.

  \<^bold>\<open>Interfaces.\<close> \<open>slot_pool\<close> states what the queue needs of a provider of slots; the authority and a region are its two
  instances. \<open>queue_service\<close> states what a waiting request needs of a queue; the SQL queue over any \<open>slot_pool\<close> and the
  Redis scripts are its two instances. \<open>request_ledger\<close> states what \<open>ExecuteBounded\<close> needs of a ledger; the regional ledger and the primary's
  requests are its instances. \<open>request_claims\<close> states what deduplication promises to billing. \<open>slot_rounds\<close>,
  \<open>ending_rounds\<close> and \<open>vetting_rounds\<close> state what a loop needs of its rounds to return its slots, to end, and to respect
  the profit gate; the first two have the five loops that serve one group and the messages loop as instances, the third
  the five.

  \<^bold>\<open>What the lemmas show.\<close>
  \<^item> Slots: the requests of a resource in flight, on the primary and in all regions together, never exceed its limit, under
    delayed, duplicated and reordered messages and under any fault; budgets equal what the tables hold; the queue serves
    in the order of arrival, as a specification of it says. In Redis, the slots and the live leases of an account, a user or
    a key stay within their limit in every run, and go one over it only while a live lease replaces a slot; the scripts are a table of leases, whatever is pruned or expires; an attempt
    that was aborted never gets into the queue again. A wait that ends without a slot leaves none behind, whatever replies
    are lost; the exception to serving is a change of a key's limit, after which its requests that wait in a region get
    nothing.
  \<^item> Funds: balances, leases and settlements add up; what a region spends is covered by what the primary granted; a closing
    receipt states exactly what was spent; a metered request is sent at most once.
  \<^item> Snapshots, broker, idempotency, lock, circuit and matcher: revisions never go back; one operation per resource is
    outstanding, and its installation follows the primary's answer; an operation is executed once and replayed
    afterwards, with the one race that breaks this; one holder of the lock, with the takeover that is never renewed; a
    proxy is quarantined only after enough failures, apart from each other while the clock does not go back; the matcher finds the first keyword.
  \<^item> Billing: customers' money moves by exactly what was charged, held and released; a request is charged once, also after
    its claim was archived; a failing event does not stop the recovery queue; the two ways to count an account's quota
    agree.
  \<^item> Payments: an order is credited once, whatever notifications, retries and crashes come; an order credits what was quoted;
    refunds return at most what was taken, one at a time, and what is refunded stays refunded; an exact payment in a
    currency of three decimals can be refused; a second pending refund cannot be recorded.
  \<^item> Requests: the loops end after a bounded number of rounds and of upstream requests, give every slot back, and never ask
    an account again that the profit gate refused; the exception is one loop that can wait for ever. The scheduler
    selects only accounts that pass every gate, the best of them first, and overlooks none; the exception is a slot that
    is lost when the account cannot be read again.

  \<^bold>\<open>Bounds and fuel.\<close> The loops of the keyword matcher that follow indices carry fuel, the number of edges or nodes, and the
  lemmas of \<open>KeywordCorrect\<close> show that each of them returns within it. \<open>failover_loop\<close> carries the number of rounds
  allowed, and \<open>None\<close> says that they were not enough; the bound of \<open>failover_ends\<close>, twice the sum of the
  switches, ten per account and ten, is computed from the configured switches, the limit of ten retries on one account
  and the limit of ten refusals. \<open>load_loop\<close>, \<open>group_runs\<close> and the archiving loop of claims are total by a measure. The
  doubling of a retry delay is a function of the rounds left, with its closed form proved. \<open>wait_rounds\<close> goes over the
  rounds it is given, and \<open>None\<close> says that the request still waits after the last; the code has no bound on them but the
  deadline, which is an input of each round. Every other loop of the modelled
  code goes over a list.

  \<^bold>\<open>Not modelled.\<close>
  \<^item> The OpenAI gateway (\<open>handler/openai_gateway_handler.go\<close>, \<open>service/openai_account_scheduler.go\<close>), which has its own
    scheduler and WebSocket transport, and the HTTP exchanges and translations between the formats of the providers: their
    laws are the providers' documents.
  \<^item> The active indexes of \<open>repository/concurrency_cache.go\<close>, which tell the background cleanup where to look, and the
    watchdog that renews a held lease (\<open>service/api_key_slot_lease.go\<close>). The slot
    service of the scheduler and of the loops is an input that may answer each attempt as it likes.
  \<^item> In the scheduler, what precedes the list of accounts (the restriction of a group to Claude Code clients, the precheck of
    the channel's prices, the choice of the platform, the lookup of a session's account), the selection without load
    batching, the listing of accounts and sticky bindings; in the loops, what comes before the loop, the user message queue,
    response texts and the fields of usage records.
  \<^item> The HTTP routes and the file lock of the regional services, the pull loop of the replica, and the tickers that start
    cycles.
  \<^item> In payments, the clients of the providers, the selection of their instances, subscriptions and the lottery, whose
    answers are inputs, and the rebate the affiliate service may be offered after a customer redeems a code.
  \<^item> Generated code (\<open>backend/ent\<close>), configuration, administration, monitoring, and the user interface.
\<close>

end
